(* ===== verification/Prelude.thy ===== *)
theory Prelude
  imports Main "HOL-Library.Word" "HOL-Library.While_Combinator"
begin

unbundle bit_operations_syntax

text \<open>
  Shared vocabulary of the development: the integer widths of the C++ code, errors as
  values, checked memory accesses, and the bit view of byte buffers.

  A \<open>Buffer\<close> (\<open>src/Buffer.h\<close>) or a \<open>std::vector\<close> of \<open>uint8_t\<close> is a list of bytes. An exception
  is a constructor of \<open>error\<close> that carries the message's fixed part. An access outside
  an object, which C++ leaves undefined, is \<open>UndefinedBehaviour\<close>: a theorem that a
  function returns \<open>Inr\<close> is therefore also a proof that it stays in bounds.
\<close>

section \<open>Types\<close>

type_synonym u8 = "8 word"
type_synonym u16 = "16 word"
type_synonym u32 = "32 word"
type_synonym u64 = "64 word"
type_synonym bytes = "u8 list"

datatype error =
    RuntimeError string
  | InvalidArgument string
  | LogicError string
  | OutOfRange string
  | ParameterError string
  | TIIError string
  | FrameMultiplexerError string
  | AssertionFailure string
  | UndefinedBehaviour string

type_synonym 'a result = "error + 'a"

text \<open>A \<open>catch\<close> of \<open>std::runtime_error\<close> that throws a \<open>ParameterError\<close> with its message.\<close>

definition as_parameter_error :: "'a result \<Rightarrow> 'a result" where
  "as_parameter_error r = (case r of Inl (RuntimeError e) \<Rightarrow> Inl (ParameterError e) | _ \<Rightarrow> r)"

named_theorems result_simps "equations of the result type's operations"
named_theorems bits_simps "equations of the bit view of bytes"

section \<open>Shifts\<close>

text \<open>C++'s \<open><<\<close> and \<open>>>\<close> on unsigned integers, at the width of the operand.\<close>

definition shl :: "'a::len word \<Rightarrow> nat \<Rightarrow> 'a word" where
  "shl a n = push_bit n a"

definition shr :: "'a::len word \<Rightarrow> nat \<Rightarrow> 'a word" where
  "shr a n = drop_bit n a"

lemma bit_shl [simp, bits_simps]:
  "bit (shl a n) i = (n \<le> i \<and> i < LENGTH('a) \<and> bit (a :: 'a::len word) (i - n))"
  by (auto simp: shl_def bit_push_bit_iff)

lemma bit_shr [simp, bits_simps]: "bit (shr a n) i = bit (a :: 'a::len word) (n + i)"
  by (simp add: shr_def bit_drop_bit_eq)

lemma shl_0 [simp]: "shl a 0 = a" "shl 0 n = 0"
  by (simp_all add: shl_def)

lemma shr_0 [simp]: "shr a 0 = a" "shr 0 n = 0"
  by (simp_all add: shr_def)

lemma shl_xor: "shl (x XOR y) n = shl x n XOR shl y n"
  by (rule bit_word_eqI) (auto simp: bit_xor_iff)

lemma shl_shl: "shl (shl a m) n = shl a (m + n)"
  by (simp add: shl_def add.commute)

lemma bit_word_ge: "LENGTH('a) \<le> n \<Longrightarrow> \<not> bit (a :: 'a::len word) n"
  using bit_imp_le_length [of a n] by auto

lemma and_single_bit: "(a AND shl 1 k \<noteq> 0) = bit (a :: 'a::len word) k"
proof -
  have b: "bit (a AND shl 1 k) n = (bit a n \<and> n = k)" for n
    using bit_imp_le_length [of a n] by (auto simp: bit_and_iff bit_1_iff)
  show ?thesis
  proof (cases "bit a k")
    case True
    then have "bit (a AND shl 1 k) k" by (simp only: b)
    then have "a AND shl 1 k \<noteq> 0" by (metis bit_0_eq bot_apply bot_bool_def)
    with True show ?thesis by simp
  next
    case False
    have "a AND shl 1 k = 0"
    proof (rule bit_word_eqI)
      fix n
      show "bit (a AND shl 1 k) n = bit 0 n" using False unfolding b by auto
    qed
    with False show ?thesis by simp
  qed
qed

lemma bit_255_int [simp]: "bit (255 :: int) n = (n < 8)"
proof -
  have "(255 :: int) = mask 8" by (simp add: mask_eq_exp_minus_1)
  show ?thesis unfolding \<open>255 = mask 8\<close> by (simp add: bit_mask_iff)
qed

section \<open>Results\<close>

definition bindE :: "'a result \<Rightarrow> ('a \<Rightarrow> 'b result) \<Rightarrow> 'b result" where
  "bindE m f = (case m of Inl e \<Rightarrow> Inl e | Inr x \<Rightarrow> f x)"

lemma bindE_simps [simp, result_simps]:
  "bindE (Inl e) f = Inl e"
  "bindE (Inr x) f = f x"
  by (simp_all add: bindE_def)

lemma bindE_Inr_iff: "bindE m f = Inr y \<longleftrightarrow> (\<exists>x. m = Inr x \<and> f x = Inr y)"
  by (cases m) auto

lemma bindE_assoc: "bindE (bindE m f) g = bindE m (\<lambda>x. bindE (f x) g)"
  by (cases m) auto

definition is_ok :: "'a result \<Rightarrow> bool" where
  "is_ok r = (case r of Inl _ \<Rightarrow> False | Inr _ \<Rightarrow> True)"

lemma is_ok_simps [simp, result_simps]:
  "\<not> is_ok (Inl e)"
  "is_ok (Inr x)"
  by (simp_all add: is_ok_def)

text \<open>A loop over a list whose body may raise: the first error ends it.\<close>

fun for_each :: "('a \<Rightarrow> 's \<Rightarrow> 's result) \<Rightarrow> 'a list \<Rightarrow> 's \<Rightarrow> 's result" where
  "for_each f [] s = Inr s"
| "for_each f (x # xs) s = (case f x s of Inl e \<Rightarrow> Inl e | Inr s' \<Rightarrow> for_each f xs s')"

lemma for_each_append:
  "for_each f (xs @ ys) s = (case for_each f xs s of Inl e \<Rightarrow> Inl e | Inr s' \<Rightarrow> for_each f ys s')"
  by (induction xs arbitrary: s) (simp_all split: sum.split)

section \<open>Memory accesses\<close>

text \<open>
  \<open>rd\<close> reads one element, \<open>wr\<close> writes one, \<open>memcpy\<close> copies a whole source into a destination at an offset,
  \<open>memread\<close> takes \<open>n\<close> elements from an offset.
\<close>

definition rd :: "'a list \<Rightarrow> nat \<Rightarrow> 'a result" where
  "rd xs i = (if i < length xs then Inr (xs ! i) else Inl (UndefinedBehaviour ''read''))"

definition memread :: "'a list \<Rightarrow> nat \<Rightarrow> nat \<Rightarrow> 'a list result" where
  "memread xs off n =
     (if off + n \<le> length xs then Inr (take n (drop off xs))
      else Inl (UndefinedBehaviour ''read''))"

definition memcpy :: "'a list \<Rightarrow> nat \<Rightarrow> 'a list \<Rightarrow> 'a list result" where
  "memcpy dst off src =
     (if off + length src \<le> length dst
      then Inr (take off dst @ src @ drop (off + length src) dst)
      else Inl (UndefinedBehaviour ''write''))"

definition wr :: "'a list \<Rightarrow> nat \<Rightarrow> 'a \<Rightarrow> 'a list result" where
  "wr xs i x = (if i < length xs then Inr (xs[i := x]) else Inl (UndefinedBehaviour ''write''))"

lemma wr_ok [simp]: "i < length xs \<Longrightarrow> wr xs i x = Inr (xs[i := x])"
  by (simp add: wr_def)

lemma rd_ok [simp]: "i < length xs \<Longrightarrow> rd xs i = Inr (xs ! i)"
  by (simp add: rd_def)

lemma memread_ok [simp]: "off + n \<le> length xs \<Longrightarrow> memread xs off n = Inr (take n (drop off xs))"
  by (simp add: memread_def)

lemma memcpy_ok:
  "off + length src \<le> length dst \<Longrightarrow>
   memcpy dst off src = Inr (take off dst @ src @ drop (off + length src) dst)"
  by (simp add: memcpy_def)

lemma memcpy_Inr_iff:
  "memcpy dst off src = Inr r \<longleftrightarrow>
   off + length src \<le> length dst \<and> r = take off dst @ src @ drop (off + length src) dst"
  by (auto simp: memcpy_def)

lemma memcpy_length: "memcpy dst off src = Inr r \<Longrightarrow> length r = length dst"
  by (auto simp: memcpy_Inr_iff)

lemma memcpy_nth:
  assumes "memcpy dst off src = Inr r" and "i < length dst"
  shows "r ! i = (if off \<le> i \<and> i < off + length src then src ! (i - off) else dst ! i)"
  using assms by (auto simp: memcpy_Inr_iff nth_append)

section \<open>Bytes as bits, most significant bit first\<close>

definition byte_bits :: "u8 \<Rightarrow> bool list" where
  "byte_bits b = map (\<lambda>i. bit b (7 - i)) [0..<8]"

definition bits_of :: "bytes \<Rightarrow> bool list" where
  "bits_of bs = concat (map byte_bits bs)"

lemma length_byte_bits [simp, bits_simps]: "length (byte_bits b) = 8"
  by (simp add: byte_bits_def)

lemma bits_of_simps [simp, bits_simps]:
  "bits_of [] = []"
  "bits_of (b # bs) = byte_bits b @ bits_of bs"
  by (simp_all add: bits_of_def)

lemma bits_of_append [simp, bits_simps]: "bits_of (xs @ ys) = bits_of xs @ bits_of ys"
  by (simp add: bits_of_def)

lemma length_bits_of [simp, bits_simps]: "length (bits_of bs) = 8 * length bs"
  by (induction bs) auto

lemma byte_bits_nth: "i < 8 \<Longrightarrow> byte_bits b ! i = bit b (7 - i)"
  by (simp add: byte_bits_def)

lemma byte_bits_unfold:
  "byte_bits b = [bit b 7, bit b 6, bit b 5, bit b 4, bit b 3, bit b 2, bit b 1, bit b 0]"
  by (simp add: byte_bits_def upt_rec numeral_eq_Suc)

lemma byte_bits_inject: "byte_bits a = byte_bits b \<Longrightarrow> a = b"
proof (rule bit_word_eqI)
  fix n assume eq: "byte_bits a = byte_bits b" and n: "n < LENGTH(8)"
  have "byte_bits a ! (7 - n) = byte_bits b ! (7 - n)" using eq by simp
  with n show "bit a n = bit b n" by (simp add: byte_bits_nth)
qed

lemma bits_of_nth:
  "i < 8 * length bs \<Longrightarrow> bits_of bs ! i = bit (bs ! (i div 8)) (7 - i mod 8)"
proof (induction bs arbitrary: i)
  case Nil
  then show ?case by simp
next
  case (Cons b bs)
  show ?case
  proof (cases "i < 8")
    case True
    then show ?thesis by (simp add: nth_append byte_bits_nth)
  next
    case False
    with Cons.prems Cons.IH [of "i - 8"] have
      "bits_of bs ! (i - 8) = bit (bs ! ((i - 8) div 8)) (7 - (i - 8) mod 8)" by simp
    with False show ?thesis
      by (simp add: nth_append le_div_geq le_mod_geq not_less)
  qed
qed

text \<open>
  The encoders build each output byte with \<open>out <<= 1; out |= x\<close>, where \<open>x\<close> is 0 or 1.
\<close>

definition shift_in :: "u8 \<Rightarrow> u8 \<Rightarrow> u8" where
  "shift_in out x = shl out 1 OR x"

definition is_bit :: "u8 \<Rightarrow> bool" where
  "is_bit x = (x = 0 \<or> x = 1)"

lemma byte_bits_shift_in:
  "is_bit x \<Longrightarrow> byte_bits (shift_in out x) = tl (byte_bits out) @ [bit x 0]"
  by (auto simp: is_bit_def shift_in_def byte_bits_unfold bit_or_iff bit_1_iff)

lemma byte_bits_shl: "byte_bits (shl b 1) = tl (byte_bits b) @ [False]"
  by (simp add: byte_bits_unfold)

lemma hd_byte_bits: "hd (byte_bits b) = bit b 7"
  by (simp add: byte_bits_unfold)

lemma byte_bits_eq_Cons: "byte_bits b = bit b 7 # tl (byte_bits b)"
  by (simp add: byte_bits_unfold)

lemma is_bit_shr_7: "is_bit (shr d 7)"
proof -
  have "shr d 7 = (if bit d 7 then 1 else 0)"
  proof (rule bit_word_eqI)
    fix n assume "n < LENGTH(8)"
    then show "bit (shr d 7) n = bit (if bit d 7 then 1 else 0) n"
      by (cases "n = 0") (auto simp: bit_1_iff bit_word_ge)
  qed
  then show ?thesis by (simp add: is_bit_def)
qed

lemma bit_shr_7: "bit (shr d 7) 0 = bit (d :: u8) 7"
  by simp

section \<open>Lists\<close>

lemma nth_concat_same:
  assumes "\<forall>xs \<in> set xss. length xs = k" and "i < k * length xss"
  shows "concat xss ! i = xss ! (i div k) ! (i mod k)"
  using assms
proof (induction xss arbitrary: i)
  case Nil
  then show ?case by simp
next
  case (Cons xs xss)
  then have len: "length xs = k" by simp
  have k: "0 < k" using Cons.prems(2) by (cases k) auto
  show ?case
  proof (cases "i < k")
    case True
    then show ?thesis using len by (simp add: nth_append)
  next
    case False
    with Cons.prems have "i - k < k * length xss" by simp
    with Cons.IH [of "i - k"] Cons.prems have
      "concat xss ! (i - k) = xss ! ((i - k) div k) ! ((i - k) mod k)" by simp
    with False len k show ?thesis
      by (simp add: nth_append le_div_geq le_mod_geq not_less)
  qed
qed

lemma length_concat_same:
  "\<forall>xs \<in> set xss. length xs = k \<Longrightarrow> length (concat xss) = k * length xss"
  by (induction xss) auto

lemma upt_Suc_Cons: "[0..<Suc n] = 0 # map Suc [0..<n]"
  by (simp add: upt_conv_Cons map_Suc_upt del: upt_Suc)

lemma funpow_shift: "(f ^^ m) ((f ^^ n) a) = (f ^^ (n + m)) a"
  by (metis add.commute comp_apply funpow_add)

lemma unat_of_nat_small: "n < 2 ^ LENGTH('a::len) \<Longrightarrow> unat (of_nat n :: 'a word) = n"
  by (simp add: unat_of_nat take_bit_eq_mod)

lemma unat_u8_less: "unat (b :: u8) < 256"
proof -
  have "unat b < 2 ^ LENGTH(8)" by (rule unsigned_less)
  then show ?thesis by simp
qed

section \<open>Tables indexed by a byte\<close>

text \<open>
  \<open>table_from f b xs\<close> says that \<open>xs\<close> lists the values of \<open>f\<close> at \<open>b\<close>, \<open>b + 1\<close>, and so on. On a
  literal table the simplifier decides it entry by entry.
\<close>

fun table_from :: "(u8 \<Rightarrow> 'a) \<Rightarrow> u8 \<Rightarrow> 'a list \<Rightarrow> bool" where
  "table_from f b [] = True"
| "table_from f b (x # xs) = (x = f b \<and> table_from f (b + 1) xs)"

lemma table_from_nth:
  "table_from f b xs \<Longrightarrow> i < length xs \<Longrightarrow> xs ! i = f (b + of_nat i)"
proof (induction xs arbitrary: b i)
  case Nil
  then show ?case by simp
next
  case (Cons x xs)
  then show ?case by (cases i) (auto simp: add.assoc)
qed

lemma table_nth_unat:
  "table_from f 0 xs \<Longrightarrow> length xs = 256 \<Longrightarrow> xs ! unat b = f b"
  using table_from_nth [of f 0 xs "unat b"] unat_u8_less [of b] by simp

end
