(* ===== verification/Gf2_Linear.thy ===== *)
theory Gf2_Linear
  imports Prelude
begin

text \<open>
  The contract shared by the two shift registers of the program, the pseudo-random
  sequence generator of \<open>src/PrbsGenerator.cpp\<close> and the cyclic redundancy check of
  \<open>lib/crc.c\<close>: one step of the register is linear over GF(2). Table-driven updates rest on
  this law alone, so the lemmas are proved once here and reach both registers through
  their interpretations.
\<close>

locale gf2_linear =
  fixes step :: "'a::len word \<Rightarrow> 'a word"
  assumes step_xor: "step (x XOR y) = step x XOR step y"
begin

lemma step_zero: "step 0 = 0"
  using step_xor [of 0 0] by simp

lemma iter_xor: "(step ^^ n) (x XOR y) = (step ^^ n) x XOR (step ^^ n) y"
  by (induction n) (simp_all add: step_xor)

lemma iter_zero: "(step ^^ n) 0 = 0"
  by (induction n) (simp_all add: step_zero)

lemma iter_split:
  "(step ^^ n) x = (step ^^ n) (x AND m) XOR (step ^^ n) (x AND NOT m)"
proof -
  have "x = (x AND m) XOR (x AND NOT m)"
    by (rule bit_word_eqI) (auto simp: bit_simps)
  then show ?thesis by (metis iter_xor)
qed

lemma iter_foldr_xor:
  "(step ^^ n) (foldr (XOR) xs 0) = foldr (XOR) (map (step ^^ n) xs) 0"
  by (induction xs) (simp_all add: iter_zero iter_xor)

end

end
