(* ===== verification/Prbs.thy ===== *)
theory Prbs
  imports Gf2_Linear
begin

text \<open>
  The energy dispersal generator, \<open>src/PrbsGenerator.cpp\<close>: a 32-bit shift register that
  advances eight bits at a time through four 256-entry tables. The lemmas show that the
  table update is eight steps of the bit-serial register for every polynomial, that the
  register's initialisation loop stops, that the bit stream of the generator the modulator
  builds is the sequence of EN 300 401 clause 10.1, and that mixing the stream into the
  data twice gives the data back.
\<close>

section \<open>The tables\<close>

fun parity_loop :: "nat \<Rightarrow> u32 \<Rightarrow> u32 \<Rightarrow> u32 \<Rightarrow> u32" where
  "parity_loop 0 a m parity = parity"
| "parity_loop (Suc n) a m parity =
     parity_loop n a (shl m 1) (parity XOR (if a AND m \<noteq> 0 then 1 else 0))"

definition parity_check :: "u32 \<Rightarrow> u32" where
  "parity_check prbs_accum = parity_loop 32 prbs_accum 1 0"

definition lfsr_step :: "u32 \<Rightarrow> u32 \<Rightarrow> u32" where
  "lfsr_step poly a = shl a 1 XOR parity_check (a AND poly)"

definition prbs_table_entry :: "u32 \<Rightarrow> nat \<Rightarrow> nat \<Rightarrow> u32" where
  "prbs_table_entry poly i j = (lfsr_step poly ^^ 8) (shl (of_nat j) (i * 8)) AND 0xff"

definition gen_prbs_table :: "u32 \<Rightarrow> u32 list list" where
  "gen_prbs_table poly = map (\<lambda>i. map (prbs_table_entry poly i) [0..<256]) [0..<4]"

fun weight_loop :: "nat \<Rightarrow> nat \<Rightarrow> u8 \<Rightarrow> u8 \<Rightarrow> u8" where
  "weight_loop 0 i m ones_count = ones_count"
| "weight_loop (Suc n) i m ones_count =
     weight_loop n i (shl m 1)
       (ones_count + (if of_nat i AND m \<noteq> 0 then 1 else 0))"

definition gen_weight_table :: "u8 list" where
  "gen_weight_table = map (\<lambda>i. weight_loop 8 i 1 0) [0..<256]"

section \<open>The generator\<close>

record prbs_generator =
  pg_framesize :: nat
  pg_prbs_table :: "u32 list list"
  pg_weight :: "u8 list"
  pg_polynomial :: u32
  pg_accum :: u32
  pg_accum_init :: u32
  pg_init :: nat

definition PrbsGenerator :: "nat \<Rightarrow> u32 \<Rightarrow> u32 \<Rightarrow> nat \<Rightarrow> prbs_generator" where
  "PrbsGenerator framesize polynomial accum init =
     \<lparr>pg_framesize = framesize, pg_prbs_table = gen_prbs_table polynomial,
      pg_weight = gen_weight_table, pg_polynomial = polynomial,
      pg_accum = accum, pg_accum_init = accum, pg_init = init\<rparr>"

definition update_prbs :: "u32 list list \<Rightarrow> u32 \<Rightarrow> u32" where
  "update_prbs tbl accum =
     (let acc_lsb = foldl (\<lambda>acc i.
            acc XOR (ucast (tbl ! i ! unat (shr accum (i * 8) AND 0xff)) :: u8))
            0 [0..<4]
      in shl accum 8 XOR ucast acc_lsb)"

definition prbs_init_guard :: "u32 \<Rightarrow> u32 \<Rightarrow> bool" where
  "prbs_init_guard poly a = (a < poly)"

definition prbs_init_body :: "u32 \<Rightarrow> u32" where
  "prbs_init_body a = shl a 1 OR 1"

definition prbs_start :: "prbs_generator \<Rightarrow> u32" where
  "prbs_start g =
     (if pg_accum_init g \<noteq> 0 then pg_accum_init g
      else while (prbs_init_guard (pg_polynomial g)) prbs_init_body 0)"

fun prbs_fill :: "u32 \<Rightarrow> u32 list list \<Rightarrow> nat \<Rightarrow> nat \<Rightarrow> u32 \<Rightarrow> bytes \<times> u32" where
  "prbs_fill accum_init tbl 0 i accum = ([], accum)"
| "prbs_fill accum_init tbl (Suc n) i accum =
     (let accum' = update_prbs tbl accum;
          b = (if accum_init = 0xa9 \<and> i mod 188 = 0 then 0 else ucast (accum' AND 0xff));
          (bs, accum'') = prbs_fill accum_init tbl n (Suc i) accum'
      in (b # bs, accum''))"

definition prbs_process ::
    "prbs_generator \<Rightarrow> bytes list \<Rightarrow> nat \<Rightarrow> (prbs_generator \<times> bytes \<times> nat) result" where
  "prbs_process g dataIn nDataOut =
     (if length dataIn > 1 then Inl (RuntimeError ''Invalid dataIn size for PrbsGenerator '')
      else if nDataOut \<noteq> 1 then Inl (RuntimeError ''Invalid dataOut size for PrbsGenerator '')
      else if pg_framesize g < pg_init g then Inl (UndefinedBehaviour ''write'')
      else
        (let (gen, accum) = prbs_fill (pg_accum_init g) (pg_prbs_table g)
               (pg_framesize g - pg_init g) (pg_init g) (prbs_start g);
             out = replicate (pg_init g) 0xff @ gen;
             g' = g\<lparr>pg_accum := accum\<rparr>
         in case dataIn of
              [] \<Rightarrow> Inr (g', out, length out)
            | d # _ \<Rightarrow>
                if length d \<noteq> length out
                then Inl (RuntimeError ''PrbsGenerator::process input size is not equal to output size!'')
                else Inr (g', map2 (XOR) out d, length out)))"

section \<open>The register is linear\<close>

lemma parity_loop_xor:
  "parity_loop n (x XOR y) (shl 1 k) (p XOR q) =
   parity_loop n x (shl 1 k) p XOR parity_loop n y (shl 1 k) q"
proof (induction n arbitrary: k p q)
  case 0
  then show ?case by simp
next
  case (Suc n)
  have step: "(p XOR q) XOR (if (x XOR y) AND shl 1 k \<noteq> 0 then 1 else 0) =
        (p XOR (if x AND shl 1 k \<noteq> 0 then 1 else 0)) XOR
        (q XOR (if y AND shl 1 k \<noteq> 0 then 1 else 0))"
    unfolding and_single_bit by (auto simp: bit_xor_iff xor.assoc xor.left_commute)
  have push: "shl (shl 1 k) 1 = (shl 1 (Suc k) :: u32)"
    by (simp add: shl_shl)
  show ?case
    unfolding parity_loop.simps push step by (rule Suc.IH)
qed

lemma parity_check_xor: "parity_check (x XOR y) = parity_check x XOR parity_check y"
  using parity_loop_xor [of 32 x y 0 0 0] by (simp add: parity_check_def)

lemma lfsr_step_xor: "lfsr_step poly (x XOR y) = lfsr_step poly x XOR lfsr_step poly y"
proof -
  have "(x XOR y) AND poly = (x AND poly) XOR (y AND poly)"
    by (rule bit_word_eqI) (auto simp: bit_simps)
  then show ?thesis
    by (simp add: lfsr_step_def parity_check_xor shl_xor xor.assoc xor.left_commute)
qed

interpretation prbs_reg: gf2_linear "lfsr_step poly"
  by unfold_locales (rule lfsr_step_xor)

lemma parity_loop_bit: "\<not> bit p i \<Longrightarrow> 0 < i \<Longrightarrow> \<not> bit (parity_loop n a m p) i"
  by (induction n arbitrary: m p) (auto simp: bit_xor_iff bit_1_iff)

lemma parity_check_bit: "0 < i \<Longrightarrow> \<not> bit (parity_check a) i"
  by (simp add: parity_check_def parity_loop_bit)

lemma lfsr_iter_high:
  "n \<le> i \<Longrightarrow> bit ((lfsr_step poly ^^ n) a) i = (i < 32 \<and> bit a (i - n))"
proof (induction n arbitrary: i)
  case 0
  then show ?case using bit_imp_le_length [of a i] by auto
next
  case (Suc n)
  then obtain j where i: "i = Suc j" "n \<le> j" by (cases i) auto
  have "(lfsr_step poly ^^ Suc n) a =
      shl ((lfsr_step poly ^^ n) a) 1 XOR parity_check ((lfsr_step poly ^^ n) a AND poly)"
    by (simp add: lfsr_step_def)
  with i show ?case
    by (auto simp only: bit_xor_iff bit_shl parity_check_bit Suc.IH) auto
qed

section \<open>The table update is eight bit-serial steps\<close>

definition reg_byte :: "nat \<Rightarrow> u32 \<Rightarrow> u32" where
  "reg_byte i a = shl (shr a (i * 8) AND 0xff) (i * 8)"

lemma bit_reg_byte: "bit (reg_byte i a) n = (8 * i \<le> n \<and> n < 8 * i + 8 \<and> bit a n)"
  using bit_imp_le_length [of a n] by (auto simp: reg_byte_def bit_and_iff)

lemma reg_bytes_xor: "foldr (XOR) (map (\<lambda>i. reg_byte i a) [0..<4]) 0 = a"
proof (rule bit_word_eqI)
  fix n assume "n < LENGTH(32)"
  then have "n < 8 \<or> 8 \<le> n \<and> n < 16 \<or> 16 \<le> n \<and> n < 24 \<or> 24 \<le> n \<and> n < 32" by auto
  then show "bit (foldr (XOR) (map (\<lambda>i. reg_byte i a) [0..<4]) 0) n = bit a n"
    by (auto simp: upt_rec numeral_eq_Suc bit_xor_iff bit_reg_byte)
qed

lemma gen_prbs_table_nth:
  assumes "i < 4"
  shows "gen_prbs_table poly ! i ! unat (shr a (i * 8) AND 0xff) =
         (lfsr_step poly ^^ 8) (reg_byte i a) AND 0xff"
proof -
  let ?j = "unat (shr a (i * 8) AND 0xff)"
  have "shr a (i * 8) AND 0xff \<le> 0xff" by (rule word_and_le1)
  then have "?j < 256" by (simp add: word_le_nat_alt)
  with assms have "gen_prbs_table poly ! i ! ?j = prbs_table_entry poly i ?j"
    by (simp add: gen_prbs_table_def)
  then show ?thesis by (simp add: prbs_table_entry_def reg_byte_def)
qed

lemma update_prbs_iter: "update_prbs (gen_prbs_table poly) a = (lfsr_step poly ^^ 8) a"
proof (rule bit_word_eqI)
  fix n assume n: "n < LENGTH(32)"
  let ?s = "lfsr_step poly ^^ 8"
  have split: "?s a = foldr (XOR) (map (\<lambda>i. ?s (reg_byte i a)) [0..<4]) 0"
    using prbs_reg.iter_foldr_xor [of 8 poly "map (\<lambda>i. reg_byte i a) [0..<4]"]
    by (simp only: reg_bytes_xor map_map comp_def)
  show "bit (update_prbs (gen_prbs_table poly) a) n = bit (?s a) n"
  proof (cases "n < 8")
    case True
    have upt: "[0..<4] = [0, 1, 2, 3 :: nat]" by (simp add: upt_rec)
    have "bit (update_prbs (gen_prbs_table poly) a) n =
      bit (foldl (\<lambda>acc i. acc XOR
        (ucast (gen_prbs_table poly ! i ! unat (shr a (i * 8) AND 0xff)) :: u8)) 0 [0..<4]) n"
      using True by (simp add: update_prbs_def Let_def bit_xor_iff bit_ucast_iff)
    also have "\<dots> = bit (?s a) n"
      unfolding split upt
      using True gen_prbs_table_nth [of 0 poly a] gen_prbs_table_nth [of 1 poly a]
        gen_prbs_table_nth [of 2 poly a] gen_prbs_table_nth [of 3 poly a]
      by (simp add: bit_xor_iff bit_ucast_iff bit_and_iff) blast
    finally show ?thesis .
  next
    case False
    then have "bit (update_prbs (gen_prbs_table poly) a) n = bit a (n - 8)"
      using n bit_imp_le_length [where 'a = 8]
      by (fastforce simp: update_prbs_def Let_def bit_xor_iff bit_ucast_iff)
    moreover have "bit (?s a) n = bit a (n - 8)"
      using False n by (subst lfsr_iter_high) auto
    ultimately show ?thesis by simp
  qed
qed

section \<open>The initialisation loop stops\<close>

lemma prbs_init_body_mask: "prbs_init_body (mask k) = mask (Suc k)"
  by (rule bit_word_eqI)
    (auto simp: prbs_init_body_def bit_or_iff bit_mask_iff bit_1_iff)

lemma prbs_init_from_mask:
  assumes "k \<le> 32" and "\<forall>j < k. mask j < p"
  shows "\<exists>k' \<le> 32. while_option (prbs_init_guard p) prbs_init_body (mask k) = Some (mask k') \<and>
           p \<le> mask k' \<and> (\<forall>j < k'. mask j < p)"
  using assms
proof (induction "32 - k" arbitrary: k)
  case 0
  then have k: "k = 32" by simp
  have "(mask 32 :: u32) = - 1" by (simp add: mask_eq_exp_minus_1)
  then have "p \<le> mask 32" by (simp only: word_n1_ge)
  with 0 k show ?case
    by (subst while_option_unfold) (auto simp: prbs_init_guard_def)
next
  case (Suc d)
  show ?case
  proof (cases "mask k < p")
    case True
    then have "\<forall>j < Suc k. mask j < p" using Suc.prems by (auto simp: less_Suc_eq)
    with Suc.hyps(1) [of "Suc k"] Suc.hyps(2) have
      "\<exists>k' \<le> 32. while_option (prbs_init_guard p) prbs_init_body (mask (Suc k)) = Some (mask k') \<and>
         p \<le> mask k' \<and> (\<forall>j < k'. mask j < p)" by simp
    with True show ?thesis
      by (subst while_option_unfold) (simp add: prbs_init_guard_def prbs_init_body_mask)
  next
    case False
    with Suc show ?thesis
      by (subst while_option_unfold) (auto simp: prbs_init_guard_def not_less)
  qed
qed

section \<open>The bit sequence\<close>

text \<open>
  EN 300 401, 10.1: the register of nine stages, all ones at the start, is fed with the sum
  modulo two of its fifth and ninth stage; \<open>prbs_seq i\<close> is the \<open>i\<close>-th bit it gives.
\<close>

fun prbs_seq :: "nat \<Rightarrow> bool" where
  "prbs_seq i =
     ((if i < 9 then True else prbs_seq (i - 9)) \<noteq> (if i < 5 then True else prbs_seq (i - 5)))"

declare prbs_seq.simps [simp del]

lemma and_shl_1: "a AND shl 1 k = (if bit a k then shl 1 k else (0 :: 'a::len word))"
  by (rule bit_word_eqI) (auto simp: bit_and_iff bit_1_iff)

lemma parity_loop_eq:
  "parity_loop n a m p =
     (if n = 0 then p
      else parity_loop (n - 1) a (shl m 1) (p XOR (if a AND m \<noteq> 0 then 1 else 0)))"
  by (cases n) auto

lemma parity_check_0x110: "bit (parity_check (a AND 0x110)) 0 = (bit a 8 \<noteq> bit a 4)"
proof -
  have "a AND 0x110 = (a AND shl 1 8) XOR (a AND shl 1 4)"
  proof -
    have c: "(0x110 :: u32) = shl 1 8 XOR shl 1 4" by (simp add: shl_def)
    show ?thesis unfolding c by (rule bit_word_eqI) (auto simp: bit_xor_iff bit_and_iff)
  qed
  then have "parity_check (a AND 0x110) =
      parity_check (a AND shl 1 8) XOR parity_check (a AND shl 1 4)"
    by (simp only: parity_check_xor)
  moreover have "parity_check (shl 1 8) = 1" "parity_check (shl 1 4) = 1" "parity_check 0 = 0"
    by (simp_all add: parity_check_def parity_loop_eq shl_def)
  ultimately show ?thesis by (simp add: and_shl_1)
qed

lemma lfsr_step_0x110:
  "bit (lfsr_step 0x110 a) 0 = (bit a 8 \<noteq> bit a 4)"
  "Suc j < 32 \<Longrightarrow> bit (lfsr_step poly a) (Suc j) = bit a j"
  by (simp_all add: lfsr_step_def bit_xor_iff parity_check_0x110 parity_check_bit)

lemma prbs_register:
  "j < 9 \<Longrightarrow> bit ((lfsr_step 0x110 ^^ n) 0x1ff) j = (if j < n then prbs_seq (n - 1 - j) else True)"
proof (induction n arbitrary: j)
  case 0
  have "(0x1ff :: u32) = mask 9" by (simp add: mask_eq_exp_minus_1)
  show ?case unfolding \<open>0x1ff = mask 9\<close> using 0 by (simp add: bit_mask_iff)
next
  case (Suc n)
  let ?s = "(lfsr_step 0x110 ^^ n) 0x1ff"
  show ?case
  proof (cases j)
    case 0
    have "bit (lfsr_step 0x110 ?s) 0 = (bit ?s 8 \<noteq> bit ?s 4)" by (rule lfsr_step_0x110)
    also have "\<dots> = prbs_seq n"
      by (simp add: Suc.IH prbs_seq.simps [of n])
    finally show ?thesis using 0 by simp
  next
    case (Suc j')
    with Suc.prems have "bit (lfsr_step 0x110 ?s) j = bit ?s j'"
      by (simp add: lfsr_step_0x110)
    then show ?thesis using Suc Suc.prems Suc.IH [of j'] by simp
  qed
qed

section \<open>The stream the generator writes\<close>

lemma prbs_fill_stream:
  assumes "ai \<noteq> 0xa9"
  shows "fst (prbs_fill ai (gen_prbs_table poly) n i a) =
           map (\<lambda>k. ucast ((lfsr_step poly ^^ (8 * Suc k)) a AND 0xff)) [0..<n]"
proof (induction n arbitrary: i a)
  case 0
  then show ?case by simp
next
  case (Suc n)
  have "(lfsr_step poly ^^ (8 * Suc k)) (update_prbs (gen_prbs_table poly) a) =
        (lfsr_step poly ^^ (8 * Suc (Suc k))) a" for k
    unfolding update_prbs_iter funpow_shift by (simp only: mult_Suc_right)
  then show ?case
    using assms
    by (simp only: prbs_fill.simps Let_def case_prod_unfold fst_conv Suc.IH upt_Suc_Cons
        list.map map_map comp_def if_False simp_thms)
      (simp only: update_prbs_iter mult_1_right One_nat_def [symmetric])
qed

lemma prbs_fill_length: "length (fst (prbs_fill ai tbl n i a)) = n"
  by (induction n arbitrary: i a) (auto simp: case_prod_unfold Let_def)

lemma prbs_fill_bits:
  assumes "ai \<noteq> 0xa9"
  shows "bits_of (fst (prbs_fill ai (gen_prbs_table 0x110) n i 0x1ff)) = map prbs_seq [0..<8 * n]"
proof (rule nth_equalityI)
  show "length (bits_of (fst (prbs_fill ai (gen_prbs_table 0x110) n i 0x1ff))) =
      length (map prbs_seq [0..<8 * n])"
    by (simp add: prbs_fill_length)
next
  fix m assume "m < length (bits_of (fst (prbs_fill ai (gen_prbs_table 0x110) n i 0x1ff)))"
  then have m: "m < 8 * n" by (simp add: prbs_fill_length)
  let ?out = "fst (prbs_fill ai (gen_prbs_table 0x110) n i 0x1ff)"
  let ?w = "(lfsr_step 0x110 ^^ (8 * Suc (m div 8))) 0x1ff"
  have h: "7 - m mod 8 < 8" "7 - m mod 8 < 32" by auto
  have "?out ! (m div 8) = ucast (?w AND 0xff)"
    using m by (simp only: prbs_fill_stream [OF assms]) (simp add: less_mult_imp_div_less)
  moreover have "bits_of ?out ! m = bit (?out ! (m div 8)) (7 - m mod 8)"
    using m by (simp add: bits_of_nth prbs_fill_length)
  moreover have "bit (ucast (?w AND 0xff) :: u8) (7 - m mod 8) = bit ?w (7 - m mod 8)"
    using h by (simp only: bit_ucast_iff bit_and_iff) simp
  ultimately have "bits_of ?out ! m = bit ?w (7 - m mod 8)" by simp
  also have "\<dots> = prbs_seq (8 * Suc (m div 8) - 1 - (7 - m mod 8))"
  proof -
    have lt: "7 - m mod 8 < 9" "7 - m mod 8 < 8 * Suc (m div 8)" by simp_all
    show ?thesis using prbs_register [OF lt(1), of "8 * Suc (m div 8)"] lt(2)
      by (simp only: if_True)
  qed
  also have "8 * Suc (m div 8) - 1 - (7 - m mod 8) = m"
  proof -
    have "8 * Suc q - 1 - (7 - r) = 8 * q + r" if "r < 8" for q r :: nat using that by simp
    from this [of "m mod 8" "m div 8"] show ?thesis by simp
  qed
  finally show "bits_of (fst (prbs_fill ai (gen_prbs_table 0x110) n i 0x1ff)) ! m =
      map prbs_seq [0..<8 * n] ! m" using m by simp
qed

lemma prbs_start_0x110: "prbs_start (PrbsGenerator fs 0x110 0 init) = 0x1ff"
proof -
  obtain k where k: "k \<le> 32"
      "while_option (prbs_init_guard 0x110) prbs_init_body (mask 0) = Some (mask k)"
      "(0x110 :: u32) \<le> mask k" "\<forall>j < k. mask j < (0x110 :: u32)"
    using prbs_init_from_mask [of 0 "0x110"] by auto
  have "\<not> k < 9"
  proof
    assume "k < 9"
    then have "k = 0 \<or> k = 1 \<or> k = 2 \<or> k = 3 \<or> k = 4 \<or> k = 5 \<or> k = 6 \<or> k = 7 \<or> k = 8" by arith
    with k(3) show False by (auto simp: mask_eq_exp_minus_1 word_le_nat_alt)
  qed
  moreover have "\<not> 9 < k" using k(4) by (auto simp: mask_eq_exp_minus_1 dest: spec [of _ 9])
  ultimately have "k = 9" by simp
  with k(2) show ?thesis
    by (simp add: prbs_start_def PrbsGenerator_def while_def mask_eq_exp_minus_1)
qed

lemma prbs_process_stream:
  "\<exists>g' out. prbs_process (PrbsGenerator fs 0x110 0 0) [] 1 = Inr (g', out, fs) \<and>
     bits_of out = map prbs_seq [0..<8 * fs]"
proof -
  let ?f = "prbs_fill 0 (gen_prbs_table 0x110) fs 0 0x1ff"
  have "prbs_process (PrbsGenerator fs 0x110 0 0) [] 1 =
      Inr (PrbsGenerator fs 0x110 0 0\<lparr>pg_accum := snd ?f\<rparr>, fst ?f, fs)"
    unfolding prbs_process_def prbs_start_0x110
    by (simp add: PrbsGenerator_def case_prod_unfold prbs_fill_length Let_def)
  then show ?thesis by (auto simp: prbs_fill_bits)
qed

section \<open>Properties\<close>

text \<open>
  The table-driven update of the generator equals eight steps of the bit-serial
  shift register, for every polynomial and every register value.
\<close>

lemma prbs_table_update:
  "update_prbs (gen_prbs_table poly) accum = (lfsr_step poly ^^ 8) accum"
  by (rule update_prbs_iter)

text \<open>
  C2. The loop that derives the start value from the polynomial (\<open>PrbsGenerator::process\<close>)
  stops for every polynomial, after at most 32 rounds, with the shortest run of ones that
  is not below the polynomial.
\<close>

theorem prbs_init_terminates:
  "\<exists>k \<le> 32. while_option (prbs_init_guard poly) prbs_init_body 0 = Some (mask k) \<and>
     poly \<le> mask k \<and> \<not> (\<exists>j < k. poly \<le> mask j)"
  using prbs_init_from_mask [of 0 poly] by (auto simp: not_le)

text \<open>
  C1. With the polynomial 0x110 the modulator uses, a frame of any size is filled with the
  energy dispersal sequence of EN 300 401 clause 10.1, most significant bit first, from
  the all-ones start.
\<close>

theorem prbs_stream_is_energy_dispersal:
  "map_sum id (\<lambda>(g, out, n). (bits_of out, n)) (prbs_process (PrbsGenerator fs 0x110 0 0) [] 1) =
   Inr (map prbs_seq [0..<8 * fs], fs)"
  using prbs_process_stream [of fs] by auto

text \<open>
  Dispersal is an involution: a frame that went through a generator and goes through
  it again, one call later, comes back unchanged.
\<close>

lemma prbs_descrambles:
  assumes "prbs_process g [d] 1 = Inr (g', scrambled, n)"
  shows "prbs_process g' [scrambled] 1 = Inr (g', d, n)"
proof -
  let ?f = "prbs_fill (pg_accum_init g) (pg_prbs_table g)
               (pg_framesize g - pg_init g) (pg_init g) (prbs_start g)"
  let ?out = "replicate (pg_init g) 0xff @ fst ?f"
  from assms have ok: "\<not> pg_framesize g < pg_init g" and len: "length d = length ?out"
    and g': "g' = g\<lparr>pg_accum := snd ?f\<rparr>" and n: "n = length ?out"
    and s: "scrambled = map2 (XOR) ?out d"
    by (auto simp: prbs_process_def case_prod_unfold Let_def split: if_splits)
  have "map2 (XOR) ?out (map2 (XOR) ?out d) = d"
    using len by (intro nth_equalityI) (auto simp: xor.assoc [symmetric])
  moreover have "prbs_start g' = prbs_start g" by (simp add: g' prbs_start_def)
  ultimately show ?thesis
    using ok len n s by (simp add: prbs_process_def case_prod_unfold Let_def g')
qed

lemma lfsr_step_0x110_eq:
  "lfsr_step 0x110 a = shl a 1 XOR (if bit a 8 \<noteq> bit a 4 then 1 else 0)"
proof (rule bit_word_eqI)
  fix n assume "n < LENGTH(32)"
  then show "bit (lfsr_step 0x110 a) n = bit (shl a 1 XOR (if bit a 8 \<noteq> bit a 4 then 1 else 0)) n"
    by (cases n) (auto simp: lfsr_step_0x110 bit_xor_iff bit_1_iff)
qed

lemma funpow_8: "(f ^^ 8) x = f (f (f (f (f (f (f (f x)))))))"
  by (simp add: eval_nat_numeral)

lemma update_prbs_0x110:
  "update_prbs (gen_prbs_table 0x110) 0x1ff = 0x1ff07"
  "update_prbs (gen_prbs_table 0x110) 0x1ff07 = 0x1ff07be"
  unfolding update_prbs_iter funpow_8 by (simp_all add: lfsr_step_0x110_eq shl_def)

lemma prbs_descrambles_witness:
  "\<exists>g'. prbs_process (PrbsGenerator 2 0x110 0 0) [[0x12, 0x34]] 1 = Inr (g', [0x15, 0x8a], 2) \<and>
        prbs_process g' [[0x15, 0x8a]] 1 = Inr (g', [0x12, 0x34], 2)"
proof -
  let ?g = "PrbsGenerator 2 0x110 0 0"
  have fill: "prbs_fill 0 (gen_prbs_table 0x110) 2 0 0x1ff = ([0x07, 0xbe], 0x1ff07be)"
    unfolding numeral_2_eq_2 by (simp add: update_prbs_0x110)
  have "prbs_process ?g [[0x12, 0x34]] 1 = Inr (?g\<lparr>pg_accum := 0x1ff07be\<rparr>, [0x15, 0x8a], 2)"
    unfolding prbs_process_def prbs_start_0x110
    by (simp add: PrbsGenerator_def fill)
  from this prbs_descrambles [OF this] show ?thesis by blast
qed

end
