(* ===== verification/Time_Interleaver.thy ===== *)
theory Time_Interleaver
  imports Prelude
begin

text \<open>
  The time interleaver, \<open>src/TimeInterleaver.cpp\<close>: sixteen frames of history, rotated at
  every call, from which each bit of the output is taken with its own delay. The lemmas show
  that over any run of frames bit \<open>i\<close> leaves with the delay that is the four-bit reversal of
  \<open>i mod 16\<close>, EN 300 401 clause 12, and that a receiver with the complementary delays gets every
  frame back fifteen frames later.
\<close>

section \<open>The interleaver\<close>

record time_interleaver =
  ti_framesize :: nat
  ti_history :: "bytes list"

definition TimeInterleaver :: "nat \<Rightarrow> time_interleaver result" where
  "TimeInterleaver framesize =
     (if odd framesize then Inl (InvalidArgument ''framesize must be 16 bits multiple'')
      else Inr \<lparr>ti_framesize = framesize, ti_history = replicate 16 (replicate framesize 0)\<rparr>)"

text \<open>The history rows that the eight lines of an even and of an odd byte position read.\<close>

definition even_rows :: "nat list" where
  "even_rows = [0, 8, 4, 12, 2, 10, 6, 14]"

definition odd_rows :: "nat list" where
  "odd_rows = [1, 9, 5, 13, 3, 11, 7, 15]"

definition interleave_byte :: "nat list \<Rightarrow> bytes list \<Rightarrow> nat \<Rightarrow> u8" where
  "interleave_byte rows history j =
     ((((((((history ! (rows ! 0) ! j AND 0x80)
       OR (history ! (rows ! 1) ! j AND 0x40))
       OR (history ! (rows ! 2) ! j AND 0x20))
       OR (history ! (rows ! 3) ! j AND 0x10))
       OR (history ! (rows ! 4) ! j AND 0x08))
       OR (history ! (rows ! 5) ! j AND 0x04))
       OR (history ! (rows ! 6) ! j AND 0x02))
       OR (history ! (rows ! 7) ! j AND 0x01))"

text \<open>
  The loop over \<open>j\<close>, two bytes per round: the input byte goes into row 0, then the output byte
  is gathered.
\<close>

fun ti_bytes :: "bytes \<Rightarrow> nat \<Rightarrow> bytes list \<Rightarrow> bytes list \<times> bytes" where
  "ti_bytes (x # y # rest) j history =
     (let history1 = history[0 := (history ! 0)[j := x]];
          o1 = interleave_byte even_rows history1 j;
          history2 = history1[0 := (history1 ! 0)[j + 1 := y]];
          o2 = interleave_byte odd_rows history2 (j + 1);
          (history', out) = ti_bytes rest (j + 2) history2
      in (history', o1 # o2 # out))"
| "ti_bytes _ j history = (history, [])"

text \<open>\<open>d_history.push_front(move(d_history.back()))\<close> and \<open>pop_back()\<close>.\<close>

definition rotate_history :: "bytes list \<Rightarrow> bytes list" where
  "rotate_history history = last history # butlast history"

definition ti_process :: "time_interleaver \<Rightarrow> bytes \<Rightarrow> (time_interleaver \<times> bytes) result" where
  "ti_process t dataIn =
     (if length dataIn \<noteq> ti_framesize t
      then Inl (InvalidArgument ''Interleaver buffer input size '')
      else if dataIn = [] then Inr (t, [])
      else
        (let (history, out) = ti_bytes dataIn 0 (rotate_history (ti_history t))
         in Inr (t\<lparr>ti_history := history\<rparr>, out)))"

fun ti_run :: "time_interleaver \<Rightarrow> bytes list \<Rightarrow> (time_interleaver \<times> bytes list) result" where
  "ti_run t [] = Inr (t, [])"
| "ti_run t (f # fs) =
     bindE (ti_process t f) (\<lambda>(t', out).
     bindE (ti_run t' fs) (\<lambda>(t'', outs). Inr (t'', out # outs)))"

section \<open>One frame\<close>

definition delay_row :: "nat \<Rightarrow> nat \<Rightarrow> nat" where
  "delay_row j b = (if even j then even_rows else odd_rows) ! (7 - b)"

lemma bit_nth_and:
  "bit (x AND 0x80) n = (n = 7 \<and> bit (x :: u8) n)"
  "bit (x AND 0x40) n = (n = 6 \<and> bit x n)"
  "bit (x AND 0x20) n = (n = 5 \<and> bit x n)"
  "bit (x AND 0x10) n = (n = 4 \<and> bit x n)"
  "bit (x AND 0x08) n = (n = 3 \<and> bit x n)"
  "bit (x AND 0x04) n = (n = 2 \<and> bit x n)"
  "bit (x AND 0x02) n = (n = 1 \<and> bit x n)"
  "bit (x AND 0x01) n = (n = 0 \<and> bit x n)"
proof -
  have one: "bit (x AND shl 1 k) n = (n = k \<and> bit x n)" if "k < 8" for k
    using that bit_imp_le_length [of x n] by (auto simp: bit_and_iff bit_1_iff)
  show "bit (x AND 0x80) n = (n = 7 \<and> bit x n)" using one [of 7] by (simp add: shl_def)
  show "bit (x AND 0x40) n = (n = 6 \<and> bit x n)" using one [of 6] by (simp add: shl_def)
  show "bit (x AND 0x20) n = (n = 5 \<and> bit x n)" using one [of 5] by (simp add: shl_def)
  show "bit (x AND 0x10) n = (n = 4 \<and> bit x n)" using one [of 4] by (simp add: shl_def)
  show "bit (x AND 0x08) n = (n = 3 \<and> bit x n)" using one [of 3] by (simp add: shl_def)
  show "bit (x AND 0x04) n = (n = 2 \<and> bit x n)" using one [of 2] by (simp add: shl_def)
  show "bit (x AND 0x02) n = (n = 1 \<and> bit x n)" using one [of 1] by (simp add: shl_def)
  show "bit (x AND 0x01) n = (n = 0 \<and> bit x n)" using one [of 0] by (simp add: shl_def)
qed

lemma interleave_byte_bit:
  assumes "b < 8"
  shows "bit (interleave_byte rows history j) b = bit (history ! (rows ! (7 - b)) ! j) b"
proof -
  have "b = 0 \<or> b = 1 \<or> b = 2 \<or> b = 3 \<or> b = 4 \<or> b = 5 \<or> b = 6 \<or> b = 7" using assms by arith
  then show ?thesis
    unfolding interleave_byte_def bit_or_iff bit_nth_and by (elim disjE) simp_all
qed

text \<open>
  The rows other than row 0 keep their content; row 0 ends up as the input frame.
\<close>

lemma ti_bytes_spec:
  assumes "even (length ds)" "history \<noteq> []" "length (history ! 0) = j + length ds" "even j"
  shows "fst (ti_bytes ds j history) = history[0 := take j (history ! 0) @ ds] \<and>
         length (snd (ti_bytes ds j history)) = length ds \<and>
         (\<forall>i < length ds. \<forall>b < 8.
            bit (snd (ti_bytes ds j history) ! i) b =
            bit ((history[0 := take j (history ! 0) @ ds]) ! delay_row i b ! (j + i)) b)"
  using assms
proof (induction ds j history rule: ti_bytes.induct)
  case (1 x y rest j history)
  let ?h1 = "history[0 := (history ! 0)[j := x]]"
  let ?h2 = "?h1[0 := (?h1 ! 0)[j + 1 := y]]"
  let ?o1 = "interleave_byte even_rows ?h1 j"
  let ?o2 = "interleave_byte odd_rows ?h2 (j + 1)"
  have h2: "?h2 = history[0 := (history ! 0)[j := x, j + 1 := y]]" using "1.prems" by simp
  have row: "take (j + 2) ((history ! 0)[j := x, j + 1 := y]) = take j (history ! 0) @ [x, y]"
  proof (rule nth_equalityI)
    fix i assume "i < length (take (j + 2) ((history ! 0)[j := x, j + 1 := y]))"
    then have "i < j \<or> i = j \<or> i = j + 1" by auto
    then show "take (j + 2) ((history ! 0)[j := x, j + 1 := y]) ! i = (take j (history ! 0) @ [x, y]) ! i"
      using "1.prems"(3) by (elim disjE) (simp_all add: nth_append)
  qed (use "1.prems"(3) in simp)
  have IH: "fst (ti_bytes rest (j + 2) ?h2) = ?h2[0 := take (j + 2) (?h2 ! 0) @ rest] \<and>
      length (snd (ti_bytes rest (j + 2) ?h2)) = length rest \<and>
      (\<forall>i < length rest. \<forall>b < 8. bit (snd (ti_bytes rest (j + 2) ?h2) ! i) b =
        bit ((?h2[0 := take (j + 2) (?h2 ! 0) @ rest]) ! delay_row i b ! (j + 2 + i)) b)"
    by (rule "1.IH" [OF refl refl refl refl]) (use "1.prems" in auto)
  have fin: "?h2[0 := take (j + 2) (?h2 ! 0) @ rest] = history[0 := take j (history ! 0) @ x # y # rest]"
    using "1.prems"(2) row unfolding h2 by simp
  let ?H = "history[0 := take j (history ! 0) @ x # y # rest]"
  have o1: "bit ?o1 b = bit (?H ! delay_row 0 b ! j) b" if "b < 8" for b
  proof -
    have "?h1 ! r ! j = ?H ! r ! j" for r
      using "1.prems"(2,3) by (cases r) (auto simp: nth_append)
    then show ?thesis using that by (simp add: interleave_byte_bit delay_row_def)
  qed
  have o2: "bit ?o2 b = bit (?H ! delay_row 1 b ! (j + 1)) b" if "b < 8" for b
  proof -
    have "?h2 ! r ! (j + 1) = ?H ! r ! (j + 1)" for r
      using "1.prems"(2,3) by (cases r) (auto simp: nth_append h2)
    then show ?thesis using that by (simp add: interleave_byte_bit delay_row_def)
  qed
  have par: "delay_row (Suc (Suc i)) b = delay_row i b" for i b by (simp add: delay_row_def)
  let ?r = "ti_bytes rest (j + 2) ?h2"
  have tb: "ti_bytes (x # y # rest) j history = (fst ?r, ?o1 # ?o2 # snd ?r)"
    by (simp only: ti_bytes.simps Let_def case_prod_unfold)
  have bits: "bit ((?o1 # ?o2 # snd ?r) ! i) b = bit (?H ! delay_row i b ! (j + i)) b"
    if i: "i < length (x # y # rest)" and b: "b < 8" for i b
  proof -
    consider "i = 0" | "i = 1" | i' where "i = Suc (Suc i')" by (metis One_nat_def not0_implies_Suc)
    then show ?thesis
    proof cases
      case 1
      then show ?thesis using o1 [OF b] by (simp only: nth_Cons_0 add_0_right)
    next
      case 2
      then show ?thesis using o2 [OF b] by (simp only: nth_Cons_0 nth_Cons_Suc One_nat_def)
    next
      case (3 i')
      then have "i' < length rest" using i by simp
      with IH b have "bit (snd ?r ! i') b = bit (?H ! delay_row i' b ! (j + 2 + i')) b"
        unfolding fin by blast
      with 3 show ?thesis by (simp only: nth_Cons_Suc par) simp
    qed
  qed
  show ?case
    using IH bits unfolding fin tb by simp
qed (simp_all add: list_update_id)

section \<open>A run of frames\<close>

text \<open>The history after the frames \<open>gs\<close>: the newest first, zeros before the first one.\<close>

definition history_of :: "nat \<Rightarrow> bytes list \<Rightarrow> bytes list" where
  "history_of n gs = take 16 (rev gs @ replicate 16 (replicate n 0))"

lemma history_of_length [simp]: "length (history_of n gs) = 16"
  by (simp add: history_of_def)

lemma history_of_nth:
  "d < 16 \<Longrightarrow> history_of n gs ! d = (if d < length gs then gs ! (length gs - 1 - d) else replicate n 0)"
  by (simp add: history_of_def nth_append rev_nth)

lemma history_of_snoc: "history_of n (gs @ [g]) = g # butlast (history_of n gs)"
proof (rule nth_equalityI)
  fix d assume "d < length (history_of n (gs @ [g]))"
  then have d: "d < 16" by simp
  show "history_of n (gs @ [g]) ! d = (g # butlast (history_of n gs)) ! d"
  proof (cases d)
    case 0
    then show ?thesis by (simp add: history_of_nth)
  next
    case (Suc d')
    with d show ?thesis by (auto simp: history_of_nth nth_butlast nth_append)
  qed
qed simp

lemma history_of_rows:
  assumes "\<forall>g \<in> set gs. length g = n" "d < 16"
  shows "length (history_of n gs ! d) = n"
  using assms by (auto simp: history_of_nth)

lemma delay_row_less: "b < 8 \<Longrightarrow> delay_row i b < 16"
proof -
  assume "b < 8"
  then have "b = 0 \<or> b = 1 \<or> b = 2 \<or> b = 3 \<or> b = 4 \<or> b = 5 \<or> b = 6 \<or> b = 7" by arith
  then show ?thesis by (elim disjE) (simp_all add: delay_row_def even_rows_def odd_rows_def)
qed

lemma ti_process_step:
  assumes "ti_framesize t = n" "even n" "ti_history t = history_of n gs"
    and "\<forall>g \<in> set gs. length g = n" "length f = n"
  shows "\<exists>out. ti_process t f = Inr (\<lparr>ti_framesize = n, ti_history = history_of n (gs @ [f])\<rparr>, out) \<and>
     length out = n \<and>
     (\<forall>i < n. \<forall>b < 8. bit (out ! i) b = bit (history_of n (gs @ [f]) ! delay_row i b ! i) b)"
proof (cases "f = []")
  case True
  then have n: "n = 0" using assms(5) by simp
  have "history_of 0 (gs @ [[]]) = history_of 0 gs"
  proof (rule nth_equalityI)
    fix d assume "d < length (history_of 0 (gs @ [[]]))"
    then have d: "d < 16" by simp
    have "length (history_of 0 (gs @ [[]]) ! d) = 0" "length (history_of 0 gs ! d) = 0"
      by (rule history_of_rows; use assms(4) d n in simp)+
    then show "history_of 0 (gs @ [[]]) ! d = history_of 0 gs ! d" by simp
  qed simp
  with True n assms show ?thesis by (cases t) (simp add: ti_process_def)
next
  case False
  let ?h = "rotate_history (ti_history t)"
  have ne: "history_of n gs \<noteq> []" by (metis history_of_length list.size(3) zero_neq_numeral)
  have row0: "length (?h ! 0) = n"
    using assms(3,4) ne history_of_rows [of gs n 15]
    by (simp add: rotate_history_def last_conv_nth)
  have upd: "?h[0 := take 0 (?h ! 0) @ f] = history_of n (gs @ [f])"
    by (simp add: rotate_history_def assms(3) history_of_snoc)
  have "fst (ti_bytes f 0 ?h) = ?h[0 := take 0 (?h ! 0) @ f] \<and>
      length (snd (ti_bytes f 0 ?h)) = length f \<and>
      (\<forall>i < length f. \<forall>b < 8. bit (snd (ti_bytes f 0 ?h) ! i) b =
         bit ((?h[0 := take 0 (?h ! 0) @ f]) ! delay_row i b ! (0 + i)) b)"
    using assms row0 by (intro ti_bytes_spec) (auto simp: rotate_history_def)
  then show ?thesis
    unfolding upd using False assms(1,5)
    by (cases t) (simp add: ti_process_def case_prod_unfold)
qed

lemma ti_run_step:
  assumes "ti_framesize t = n" "even n" "ti_history t = history_of n gs"
    and "\<forall>g \<in> set gs. length g = n" "\<forall>f \<in> set fs. length f = n"
  shows "\<exists>t' outs. ti_run t fs = Inr (t', outs) \<and> length outs = length fs \<and>
     (\<forall>k < length fs. length (outs ! k) = n \<and> (\<forall>i < n. \<forall>b < 8.
        bit (outs ! k ! i) b = bit (history_of n (gs @ take (Suc k) fs) ! delay_row i b ! i) b))"
  using assms
proof (induction fs arbitrary: t gs)
  case Nil
  then show ?case by simp
next
  case (Cons f fs)
  let ?t = "\<lparr>ti_framesize = n, ti_history = history_of n (gs @ [f])\<rparr>"
  obtain out where out: "ti_process t f = Inr (?t, out)" "length out = n"
    "\<forall>i < n. \<forall>b < 8. bit (out ! i) b = bit (history_of n (gs @ [f]) ! delay_row i b ! i) b"
    using ti_process_step [OF Cons.prems(1-4), of f] Cons.prems(5) by auto
  have "\<exists>t' outs. ti_run ?t fs = Inr (t', outs) \<and> length outs = length fs \<and>
     (\<forall>k < length fs. length (outs ! k) = n \<and> (\<forall>i < n. \<forall>b < 8.
        bit (outs ! k ! i) b = bit (history_of n ((gs @ [f]) @ take (Suc k) fs) ! delay_row i b ! i) b))"
    using Cons.prems by (intro Cons.IH) auto
  then obtain t' outs where r: "ti_run ?t fs = Inr (t', outs)" "length outs = length fs"
    "\<forall>k < length fs. length (outs ! k) = n \<and> (\<forall>i < n. \<forall>b < 8.
        bit (outs ! k ! i) b = bit (history_of n ((gs @ [f]) @ take (Suc k) fs) ! delay_row i b ! i) b)"
    by blast
  have "length ((out # outs) ! k) = n \<and> (\<forall>i < n. \<forall>b < 8.
      bit ((out # outs) ! k ! i) b = bit (history_of n (gs @ take (Suc k) (f # fs)) ! delay_row i b ! i) b)"
    if "k < length (f # fs)" for k
    using that r(3) out(2,3) by (cases k) simp_all
  with out r show ?case by simp
qed

text \<open>The delay of bit \<open>i\<close> of a frame, EN 300 401 Table 21: the bit reversal of \<open>i mod 16\<close>.\<close>

definition bitrev4 :: "nat \<Rightarrow> nat" where
  "bitrev4 r = 8 * (r mod 2) + 4 * (r div 2 mod 2) + 2 * (r div 4 mod 2) + r div 8 mod 2"

definition bit_delay :: "nat \<Rightarrow> nat" where
  "bit_delay i = bitrev4 (i mod 16)"

lemma delay_row_bit_delay: "b < 8 \<Longrightarrow> delay_row i b = bit_delay (8 * i + (7 - b))"
proof -
  assume b: "b < 8"
  have m: "(8 * i + (7 - b)) mod 16 = (if even i then 7 - b else 15 - b)"
  proof (cases "even i")
    case True
    then obtain k where "i = 2 * k" by (elim evenE)
    then have "8 * i + (7 - b) = 16 * k + (7 - b)" by simp
    then have "(8 * i + (7 - b)) mod 16 = (7 - b) mod 16" by (simp only: mod_mult_self4)
    with True show ?thesis by simp
  next
    case False
    then obtain k where k: "i = 2 * k + 1" by (elim oddE)
    have "8 * i + (7 - b) = 16 * k + (15 - b)" using b k by simp
    then have "(8 * i + (7 - b)) mod 16 = (15 - b) mod 16" by (simp only: mod_mult_self4)
    with False show ?thesis by simp
  qed
  from b have "b = 0 \<or> b = 1 \<or> b = 2 \<or> b = 3 \<or> b = 4 \<or> b = 5 \<or> b = 6 \<or> b = 7" by arith
  then have "delay_row i b = bitrev4 (if even i then 7 - b else 15 - b)"
    by (cases "even i"; elim disjE)
      (simp_all add: bitrev4_def delay_row_def even_rows_def odd_rows_def)
  then show ?thesis unfolding bit_delay_def m .
qed

lemma TimeInterleaver_history:
  "even n \<Longrightarrow> TimeInterleaver n = Inr \<lparr>ti_framesize = n, ti_history = history_of n []\<rparr>"
  by (simp add: TimeInterleaver_def history_of_def)

lemma ti_run_bits:
  assumes "TimeInterleaver n = Inr t" and "\<forall>f \<in> set fs. length f = n"
  shows "\<exists>t' outs. ti_run t fs = Inr (t', outs) \<and> length outs = length fs \<and>
     (\<forall>k < length fs. length (outs ! k) = n \<and> (\<forall>i < n. \<forall>b < 8. bit (outs ! k ! i) b =
        (bit_delay (8 * i + (7 - b)) \<le> k \<and> bit (fs ! (k - bit_delay (8 * i + (7 - b))) ! i) b)))"
proof -
  have even: "even n" using assms(1) by (auto simp: TimeInterleaver_def split: if_splits)
  then have t: "t = \<lparr>ti_framesize = n, ti_history = history_of n []\<rparr>"
    using assms(1) by (simp add: TimeInterleaver_history)
  obtain t' outs where r: "ti_run t fs = Inr (t', outs)" "length outs = length fs"
    "\<forall>k < length fs. length (outs ! k) = n \<and> (\<forall>i < n. \<forall>b < 8.
        bit (outs ! k ! i) b = bit (history_of n ([] @ take (Suc k) fs) ! delay_row i b ! i) b)"
    using ti_run_step [of t n "[]" fs] assms(2) t even by auto
  have "bit (outs ! k ! i) b =
      (bit_delay (8 * i + (7 - b)) \<le> k \<and> bit (fs ! (k - bit_delay (8 * i + (7 - b))) ! i) b)"
    if k: "k < length fs" "i < n" "b < 8" for k i b
  proof -
    let ?d = "bit_delay (8 * i + (7 - b))"
    have d: "?d < 16" using delay_row_less [OF k(3), of i] delay_row_bit_delay [OF k(3)] by simp
    have "bit (outs ! k ! i) b = bit (history_of n (take (Suc k) fs) ! ?d ! i) b"
      using r(3) k delay_row_bit_delay [OF k(3)] by simp
    with d k show ?thesis by (simp add: history_of_nth)
  qed
  with r show ?thesis by blast
qed

section \<open>Properties\<close>

text \<open>
  C5. Over any sequence of frames of the configured size the interleaver never throws, and bit
  \<open>i\<close> of output frame \<open>k\<close> is bit \<open>i\<close> of input frame \<open>k - d\<close>, where the delay \<open>d\<close> is the four-bit
  reversal of \<open>i mod 16\<close> (EN 300 401 clause 12); it is zero before the first such frame.
\<close>

theorem time_interleaver_delays:
  assumes "TimeInterleaver n = Inr t" and "\<forall>f \<in> set fs. length f = n"
    and "k < length fs" and "i < 8 * n"
  shows "\<exists>t' outs. ti_run t fs = Inr (t', outs) \<and>
     bits_of (outs ! k) ! i =
       (bit_delay i \<le> k \<and> bits_of (fs ! (k - bit_delay i)) ! i)"
proof -
  obtain t' outs where r: "ti_run t fs = Inr (t', outs)" "length outs = length fs"
    "\<forall>k < length fs. length (outs ! k) = n \<and> (\<forall>i < n. \<forall>b < 8. bit (outs ! k ! i) b =
        (bit_delay (8 * i + (7 - b)) \<le> k \<and> bit (fs ! (k - bit_delay (8 * i + (7 - b))) ! i) b))"
    using ti_run_bits [OF assms(1,2)] by blast
  let ?j = "i div 8" let ?b = "7 - i mod 8"
  have jb: "?j < n" "?b < 8" "8 * ?j + (7 - ?b) = i"
    using assms(4) by (simp_all add: less_mult_imp_div_less mult.commute)
  have len: "length (fs ! m) = n" if "m < length fs" for m using assms(2) that by simp
  have "bits_of (outs ! k) ! i = bit (outs ! k ! ?j) ?b"
    using r(3) assms(3,4) by (intro bits_of_nth) simp
  also have "\<dots> = (bit_delay i \<le> k \<and> bit (fs ! (k - bit_delay i) ! ?j) ?b)"
    using r(3) assms(3) jb by metis
  also have "\<dots> = (bit_delay i \<le> k \<and> bits_of (fs ! (k - bit_delay i)) ! i)"
    using assms(3,4) len [of "k - bit_delay i"] by (simp add: bits_of_nth)
  finally show ?thesis using r(1) by blast
qed

text \<open>
  Nothing is lost: sixteen consecutive output frames contain the whole of a frame, bit \<open>i\<close>
  in the output \<open>bit_delay i\<close> frames later, so a receiver that delays it by the remaining
  \<open>15 - bit_delay i\<close> frames restores the frame.
\<close>

lemma time_deinterleaving:
  assumes "TimeInterleaver n = Inr t" and "\<forall>f \<in> set fs. length f = n"
    and "k + 15 < length fs"
  shows "\<exists>t' outs. ti_run t fs = Inr (t', outs) \<and>
     fs ! k = map (\<lambda>j. horner_sum of_bool 2
       (map (\<lambda>b. bit (outs ! (k + 15 - (15 - bit_delay (8 * j + (7 - b)))) ! j) b) [0..<8])) [0..<n]"
proof -
  obtain t' outs where r: "ti_run t fs = Inr (t', outs)"
    "\<forall>k < length fs. length (outs ! k) = n \<and> (\<forall>i < n. \<forall>b < 8. bit (outs ! k ! i) b =
        (bit_delay (8 * i + (7 - b)) \<le> k \<and> bit (fs ! (k - bit_delay (8 * i + (7 - b))) ! i) b))"
    using ti_run_bits [OF assms(1,2)] by blast
  have eq: "bit (outs ! (k + 15 - (15 - bit_delay (8 * j + (7 - b)))) ! j) b = bit (fs ! k ! j) b"
    if "j < n" "b < 8" for j b
  proof -
    let ?d = "bit_delay (8 * j + (7 - b))"
    have "?d \<le> 15" using delay_row_less [OF that(2), of j] delay_row_bit_delay [OF that(2), of j] by simp
    then have "k + 15 - (15 - ?d) = k + ?d" by simp
    with r(2) assms(3) that \<open>?d \<le> 15\<close> show ?thesis by simp
  qed
  have "fs ! k = map (\<lambda>j. horner_sum of_bool 2
       (map (\<lambda>b. bit (outs ! (k + 15 - (15 - bit_delay (8 * j + (7 - b)))) ! j) b) [0..<8])) [0..<n]"
  proof (rule nth_equalityI)
    show "length (fs ! k) = length (map (\<lambda>j. horner_sum of_bool 2
       (map (\<lambda>b. bit (outs ! (k + 15 - (15 - bit_delay (8 * j + (7 - b)))) ! j) b) [0..<8])) [0..<n] :: bytes)"
      using assms(2,3) by simp
  next
    fix j assume "j < length (fs ! k)"
    then have j: "j < n" using assms(2,3) by simp
    have "horner_sum of_bool 2
       (map (\<lambda>b. bit (outs ! (k + 15 - (15 - bit_delay (8 * j + (7 - b)))) ! j) b) [0..<8]) =
      (horner_sum of_bool 2 (map (bit (fs ! k ! j)) [0..<8]) :: u8)"
      by (rule arg_cong [where f = "horner_sum of_bool 2"]) (use eq [OF j] in auto)
    also have "\<dots> = fs ! k ! j"
      by (rule bit_word_eqI) (simp add: bit_horner_sum_bit_word_iff)
    finally show "fs ! k ! j = map (\<lambda>j. horner_sum of_bool 2
       (map (\<lambda>b. bit (outs ! (k + 15 - (15 - bit_delay (8 * j + (7 - b)))) ! j) b) [0..<8])) [0..<n] ! j"
      using j by simp
  qed
  with r(1) show ?thesis by blast
qed

theorem time_interleaver_delays_witness:
  "\<exists>t t' outs. TimeInterleaver 2 = Inr t \<and> ti_run t (replicate 20 [0xff, 0x0f]) = Inr (t', outs) \<and>
     \<not> bits_of (outs ! 3) ! 2"
proof -
  obtain t where t: "TimeInterleaver 2 = Inr t" by (simp add: TimeInterleaver_def)
  have d: "bit_delay 2 = 4" by (simp add: bit_delay_def bitrev4_def)
  show ?thesis
    using time_interleaver_delays [OF t, of "replicate 20 [0xff, 0x0f]" 3 2] t d by auto
qed

lemma time_deinterleaving_witness:
  "\<exists>t t' outs. TimeInterleaver 2 = Inr t \<and> ti_run t (replicate 20 [0xff, 0x0f]) = Inr (t', outs) \<and>
     [0xff, 0x0f :: u8] = map (\<lambda>j. horner_sum of_bool 2
       (map (\<lambda>b. bit (outs ! (4 + 15 - (15 - bit_delay (8 * j + (7 - b)))) ! j) b) [0..<8])) [0..<2]"
proof -
  obtain t where t: "TimeInterleaver 2 = Inr t" by (simp add: TimeInterleaver_def)
  show ?thesis
    using time_deinterleaving [OF t, of "replicate 20 [0xff, 0x0f]" 4] t
    by (simp del: upt.simps upt_rec_numeral)
qed

end
