(* ===== verification/Symbols.thy ===== *)
theory Symbols
  imports Prelude
begin

text \<open>
  The QPSK mapper, \<open>src/QpskSymbolMapper.cpp\<close>. It exists for \<open>float\<close>, for SSE vectors and for
  fixed point samples with the same control flow and the same table of signs; the model has
  the type of a value as a parameter. The lemmas read the table as a function of two bits
  per carrier and show that a frame is mapped as EN 300 401 clause 14.5 says.
\<close>

section \<open>QPSK mapping\<close>

text \<open>The table \<open>symbols\<close>: real and imaginary part of two samples; \<open>v\<close> is the square root of one half.\<close>

definition qpsk_table :: "'a::uminus \<Rightarrow> 'a list list" where
  "qpsk_table v =
     [[ v,  v,  v,  v],
      [ v,  v,  v, -v],
      [ v, -v,  v,  v],
      [ v, -v,  v, -v],
      [ v,  v, -v,  v],
      [ v,  v, -v, -v],
      [ v, -v, -v,  v],
      [ v, -v, -v, -v],
      [-v,  v,  v,  v],
      [-v,  v,  v, -v],
      [-v, -v,  v,  v],
      [-v, -v,  v, -v],
      [-v,  v, -v,  v],
      [-v,  v, -v, -v],
      [-v, -v, -v,  v],
      [-v, -v, -v, -v]]"

text \<open>The body of the loop over \<open>j\<close>: sixteen values from a byte of each half of the symbol.\<close>

definition qpsk_quad :: "'a::uminus \<Rightarrow> u8 \<Rightarrow> u8 \<Rightarrow> 'a list" where
  "qpsk_quad v a b =
     qpsk_table v ! unat (shr (a AND 0xc0) 4 OR shr (b AND 0xc0) 6) @
     qpsk_table v ! unat (shr (a AND 0x30) 2 OR shr (b AND 0x30) 4) @
     qpsk_table v ! unat ((a AND 0x0c) OR shr (b AND 0x0c) 2) @
     qpsk_table v ! unat (shl (a AND 0x03) 2 OR (b AND 0x03))"

fun qpsk_half :: "'a::uminus \<Rightarrow> nat \<Rightarrow> bytes \<Rightarrow> nat \<Rightarrow> nat \<Rightarrow> 'a list result" where
  "qpsk_half v 0 ins inOffset half = Inr []"
| "qpsk_half v (Suc n) ins inOffset half =
     bindE (rd ins inOffset) (\<lambda>a.
     bindE (rd ins (inOffset + half)) (\<lambda>b.
     bindE (qpsk_half v n ins (inOffset + 1) half) (\<lambda>rest.
     Inr (qpsk_quad v a b @ rest))))"

text \<open>The loop over \<open>i\<close>; \<open>inOffset\<close> equals \<open>i\<close> at the head of every round.\<close>

function qpsk_blocks :: "'a::uminus \<Rightarrow> nat \<Rightarrow> bytes \<Rightarrow> nat \<Rightarrow> nat \<Rightarrow> 'a list result" where
  "qpsk_blocks v carriers ins i inOffset =
     (if i < length ins \<and> carriers div 4 \<noteq> 0 then
        (case qpsk_half v (carriers div 8) ins inOffset (carriers div 8) of
           Inl e \<Rightarrow> Inl e
         | Inr vals \<Rightarrow>
             (case qpsk_blocks v carriers ins (i + carriers div 4)
                     (inOffset + carriers div 8 + carriers div 8) of
                Inl e \<Rightarrow> Inl e
              | Inr rest \<Rightarrow> Inr (vals @ rest)))
      else Inr [])"
  by auto
termination by (relation "measure (\<lambda>(v, carriers, ins, i, inOffset). length ins - i)") auto

declare qpsk_blocks.simps [simp del]

definition qpsk_process :: "'a::uminus \<Rightarrow> nat \<Rightarrow> bytes \<Rightarrow> 'a list result" where
  "qpsk_process v carriers dataIn =
     (if carriers div 4 = 0 then Inl (UndefinedBehaviour ''division by zero'')
      else if length dataIn mod (carriers div 4) \<noteq> 0
      then Inl (RuntimeError ''QpskSymbolMapper::process input size not valid'')
      else qpsk_blocks v carriers dataIn 0 0)"

section \<open>The mapping in terms of bits\<close>

definition sgn_of :: "'a::uminus \<Rightarrow> bool \<Rightarrow> 'a" where
  "sgn_of v b = (if b then - v else v)"

definition qpsk_bits :: "'a::uminus \<Rightarrow> bool list \<Rightarrow> bool list \<Rightarrow> 'a list" where
  "qpsk_bits v ps qs = concat (map2 (\<lambda>p q. [sgn_of v p, sgn_of v q]) ps qs)"

lemma qpsk_bits_simps [simp]:
  "qpsk_bits v [] qs = []"
  "qpsk_bits v (p # ps) (q # qs) = sgn_of v p # sgn_of v q # qpsk_bits v ps qs"
  by (simp_all add: qpsk_bits_def)

lemma qpsk_bits_append:
  "length ps = length qs \<Longrightarrow> qpsk_bits v (ps @ ps') (qs @ qs') = qpsk_bits v ps qs @ qpsk_bits v ps' qs'"
  by (simp add: qpsk_bits_def)

lemma qpsk_bits_length: "length ps = length qs \<Longrightarrow> length (qpsk_bits v ps qs) = 2 * length ps"
  by (induction ps qs rule: list_induct2) auto

lemma qpsk_bits_nth:
  "length ps = length qs \<Longrightarrow> n < length ps \<Longrightarrow>
   qpsk_bits v ps qs ! (2 * n) = sgn_of v (ps ! n) \<and> qpsk_bits v ps qs ! (2 * n + 1) = sgn_of v (qs ! n)"
proof (induction ps qs arbitrary: n rule: list_induct2)
  case Nil
  then show ?case by simp
next
  case (Cons p ps q qs)
  then show ?case by (cases n) auto
qed

definition nib :: "bool \<Rightarrow> bool \<Rightarrow> bool \<Rightarrow> bool \<Rightarrow> u8" where
  "nib p q r s =
     shl (if p then 1 else 0) 3 OR shl (if q then 1 else 0) 2 OR shl (if r then 1 else 0) 1 OR
     (if s then 1 else 0)"

lemma bit_nib: "bit (nib p q r s) n = (n = 0 \<and> s \<or> n = 1 \<and> r \<or> n = 2 \<and> q \<or> n = 3 \<and> p)"
  by (cases p; cases q; cases r; cases s) (auto simp: nib_def bit_or_iff bit_1_iff)

lemma unat_nib:
  "unat (nib p q r s) =
     (if p then 8 else 0) + (if q then 4 else 0) + (if r then 2 else 0) + (if s then 1 else 0)"
  by (cases p; cases q; cases r; cases s) (simp_all add: nib_def shl_def)

lemma bit_mask2:
  "bit (0xc0 :: u8) n = (n = 6 \<or> n = 7)"
  "bit (0x30 :: u8) n = (n = 4 \<or> n = 5)"
  "bit (0x0c :: u8) n = (n = 2 \<or> n = 3)"
  "bit (0x03 :: u8) n = (n = 0 \<or> n = 1)"
proof -
  have m: "bit (push_bit k (mask 2) :: u8) n = (n = k \<or> n = k + 1)" if "k < 7" for k
    using that by (auto simp: bit_push_bit_iff bit_mask_iff)
  have c: "(0xc0 :: u8) = push_bit 6 (mask 2)" "(0x30 :: u8) = push_bit 4 (mask 2)"
    "(0x0c :: u8) = push_bit 2 (mask 2)" "(0x03 :: u8) = push_bit 0 (mask 2)"
    by (simp_all add: mask_eq_exp_minus_1 push_bit_eq_mult)
  show "bit (0xc0 :: u8) n = (n = 6 \<or> n = 7)" unfolding c(1) using m [of 6] by simp
  show "bit (0x30 :: u8) n = (n = 4 \<or> n = 5)" unfolding c(2) using m [of 4] by simp
  show "bit (0x0c :: u8) n = (n = 2 \<or> n = 3)" unfolding c(3) using m [of 2] by simp
  show "bit (0x03 :: u8) n = (n = 0 \<or> n = 1)" unfolding c(4) using m [of 0] by simp
qed

lemma qpsk_index:
  "shr (a AND 0xc0) 4 OR shr (b AND 0xc0) 6 = nib (bit a 7) (bit a 6) (bit b 7) (bit b 6)"
  "shr (a AND 0x30) 2 OR shr (b AND 0x30) 4 = nib (bit a 5) (bit a 4) (bit b 5) (bit b 4)"
  "(a AND 0x0c) OR shr (b AND 0x0c) 2 = nib (bit a 3) (bit a 2) (bit b 3) (bit b 2)"
  "shl (a AND 0x03) 2 OR (b AND 0x03) = nib (bit a 1) (bit a 0) (bit b 1) (bit b 0)"
  by (rule bit_word_eqI; unfold bit_or_iff bit_shr bit_shl bit_and_iff bit_mask2 bit_nib; auto simp: numeral_eq_Suc)+

lemma qpsk_table_nib:
  "qpsk_table v ! unat (nib p q r s) = [sgn_of v p, sgn_of v r, sgn_of v q, sgn_of v s]"
  by (cases p; cases q; cases r; cases s) (simp_all add: unat_nib qpsk_table_def sgn_of_def)

lemma qpsk_quad_bits: "qpsk_quad v a b = qpsk_bits v (byte_bits a) (byte_bits b)"
  by (simp add: qpsk_quad_def qpsk_index qpsk_table_nib byte_bits_unfold)

lemma qpsk_half_bits:
  assumes "off + half + n \<le> length ins" "n \<le> half"
  shows "qpsk_half v n ins off half =
    Inr (qpsk_bits v (bits_of (take n (drop off ins))) (bits_of (take n (drop (off + half) ins))))"
  using assms
proof (induction n arbitrary: off)
  case 0
  then show ?case by simp
next
  case (Suc n)
  have t: "take (Suc n) (drop off ins) = ins ! off # take n (drop (Suc off) ins)"
    "take (Suc n) (drop (off + half) ins) = ins ! (off + half) # take n (drop (Suc off + half) ins)"
    using Suc.prems by (simp_all add: Cons_nth_drop_Suc [symmetric])
  show ?case
    using Suc.prems Suc.IH [of "Suc off"] unfolding t
    by (simp add: qpsk_quad_bits qpsk_bits_append)
qed

text \<open>The values of the symbols one after the other.\<close>

fun qpsk_spec :: "'a::uminus \<Rightarrow> nat \<Rightarrow> bytes \<Rightarrow> nat \<Rightarrow> 'a list" where
  "qpsk_spec v h ins 0 = []"
| "qpsk_spec v h ins (Suc m) =
     qpsk_bits v (bits_of (take h ins)) (bits_of (take h (drop h ins))) @ qpsk_spec v h (drop (2 * h) ins) m"

lemma qpsk_blocks_spec:
  assumes "carriers = 8 * h" "0 < h" "length ins = i + m * (2 * h)"
  shows "qpsk_blocks v carriers ins i i = Inr (qpsk_spec v h (drop i ins) m)"
  using assms(3)
proof (induction m arbitrary: i)
  case 0
  then show ?case by (subst qpsk_blocks.simps) simp
next
  case (Suc m)
  have c: "carriers div 8 = h" "carriers div 4 = 2 * h" using assms(1) by simp_all
  have half: "qpsk_half v h ins i h =
      Inr (qpsk_bits v (bits_of (take h (drop i ins))) (bits_of (take h (drop (i + h) ins))))"
    using Suc.prems by (intro qpsk_half_bits) simp_all
  have "length ins = (i + 2 * h) + m * (2 * h)" using Suc.prems by simp
  from Suc.IH [OF this] have IH: "qpsk_blocks v carriers ins (i + 2 * h) (i + h + h) =
      Inr (qpsk_spec v h (drop (i + 2 * h) ins) m)" by (simp add: mult_2 add.assoc)
  show ?case
    using Suc.prems assms(2) half IH
    by (subst qpsk_blocks.simps) (simp add: c add.commute)
qed

lemma qpsk_spec_nth:
  assumes "length ins = m * (2 * h)" "l < m" "n < 8 * h"
  shows "qpsk_spec v h ins m ! (2 * (8 * h * l + n)) = sgn_of v (bits_of ins ! (16 * h * l + n)) \<and>
         qpsk_spec v h ins m ! (2 * (8 * h * l + n) + 1) = sgn_of v (bits_of ins ! (16 * h * l + 8 * h + n))"
  using assms
proof (induction m arbitrary: ins l)
  case 0
  then show ?case by simp
next
  case (Suc m)
  let ?p = "bits_of (take h ins)" let ?q = "bits_of (take h (drop h ins))"
  have lens: "length ?p = 8 * h" "length ?q = 8 * h" "length (qpsk_bits v ?p ?q) = 16 * h"
    using Suc.prems(1) by (simp_all add: qpsk_bits_length)
  have split: "ins = take h ins @ take h (drop h ins) @ drop (2 * h) ins"
    by (metis append_take_drop_id drop_drop mult_2)
  have bits: "bits_of ins = ?p @ ?q @ bits_of (drop (2 * h) ins)"
    by (subst split) simp
  show ?case
  proof (cases l)
    case 0
    then show ?thesis
      using Suc.prems lens qpsk_bits_nth [of ?p ?q n v] unfolding bits
      by (simp add: nth_append)
  next
    case (Suc l')
    have IH: "qpsk_spec v h (drop (2 * h) ins) m ! (2 * (8 * h * l' + n)) =
          sgn_of v (bits_of (drop (2 * h) ins) ! (16 * h * l' + n)) \<and>
        qpsk_spec v h (drop (2 * h) ins) m ! (2 * (8 * h * l' + n) + 1) =
          sgn_of v (bits_of (drop (2 * h) ins) ! (16 * h * l' + 8 * h + n))"
      using Suc.prems Suc by (intro Suc.IH) auto
    have e: "2 * (8 * h * l + n) = 16 * h + 2 * (8 * h * l' + n)"
      "16 * h * l + n = 8 * h + (8 * h + (16 * h * l' + n))"
      "16 * h * l + 8 * h + n = 8 * h + (8 * h + (8 * h + (16 * h * l' + n)))"
      "16 * h * l' + 8 * h + n = 8 * h + (16 * h * l' + n)"
      using Suc by (simp_all add: algebra_simps)
    show ?thesis
      unfolding bits e(1-3) using IH [unfolded e(4)] lens by (simp add: nth_append add.assoc)
  qed
qed

section \<open>Properties\<close>

text \<open>
  For every frame that is a whole number of symbols, carrier \<open>n\<close> of symbol \<open>l\<close> gets as real
  part the sign of bit \<open>n\<close> and as imaginary part the sign of bit \<open>carriers + n\<close> of that symbol's
  \<open>2 * carriers\<close> bits (EN 300 401 clause 14.5), and no byte outside the input is read.
\<close>

lemma qpsk_maps_bit_pairs:
  assumes "8 dvd carriers" and "0 < carriers" and "4 * length ins = carriers * m"
    and "l < m" and "n < carriers"
  shows "\<exists>out. qpsk_process v carriers ins = Inr out \<and>
     out ! (2 * (carriers * l + n)) = sgn_of v (bits_of ins ! (2 * carriers * l + n)) \<and>
     out ! (2 * (carriers * l + n) + 1) = sgn_of v (bits_of ins ! (2 * carriers * l + carriers + n))"
proof -
  obtain h where c: "carriers = 8 * h" using assms(1) by (auto elim: dvdE)
  have h: "0 < h" and len: "length ins = m * (2 * h)" using assms(2,3) c by simp_all
  have run: "qpsk_process v carriers ins = Inr (qpsk_spec v h ins m)"
    using qpsk_blocks_spec [OF c h, of ins 0 m v] len h by (simp add: qpsk_process_def c)
  have n: "n < 8 * h" using assms(5) c by simp
  from run qpsk_spec_nth [OF len assms(4) n, of v] show ?thesis
    unfolding c by (auto simp: mult.assoc [symmetric])
qed

lemma qpsk_maps_bit_pairs_witness:
  "\<exists>out. qpsk_process (1 :: int) 8 [0x80, 0x40] = Inr out \<and> out ! 0 = - 1 \<and> out ! 1 = 1 \<and>
     out ! 2 = 1 \<and> out ! 3 = - 1"
proof -
  have b: "bits_of [0x80, 0x40] = [True, False, False, False, False, False, False, False,
      False, True, False, False, False, False, False, False]"
    by (simp add: byte_bits_unfold)
  show ?thesis
    using qpsk_maps_bit_pairs [of 8 "[0x80, 0x40]" 1 0 0 "1 :: int"]
      qpsk_maps_bit_pairs [of 8 "[0x80, 0x40]" 1 0 1 "1 :: int"]
    unfolding b by (auto simp: sgn_of_def)
qed

end
