(* ===== verification/Freq_Interleaver.thy ===== *)
theory Freq_Interleaver
  imports Prelude
begin

text \<open>
  The frequency interleaver, \<open>src/FrequencyInterleaver.cpp\<close>. Its constructor fills a table with
  the values a linear congruential generator takes inside the occupied band; the lemmas show
  that the generator visits every value once, so that the table is a permutation of the
  carriers, and that \<open>process\<close> moves the samples of every symbol by it without leaving the
  buffers. A buffer of samples is the list of its samples; the type of a sample, complex
  \<open>float\<close> or complex fixed point, is a parameter.
\<close>

section \<open>The constructor\<close>

record frequency_interleaver =
  fi_carriers :: nat
  fi_indices :: "nat list"

text \<open>\<open>m_carriers\<close>, \<open>num\<close> and \<open>beta\<close> of a mode.\<close>

fun fi_params :: "nat \<Rightarrow> (nat \<times> nat \<times> nat) result" where
  "fi_params mode =
     (if mode = 1 then Inr (1536, 2048, 511)
      else if mode = 2 then Inr (384, 512, 127)
      else if mode = 3 then Inr (192, 256, 63)
      else if mode = 0 \<or> mode = 4 then Inr (768, 1024, 255)
      else Inl (RuntimeError ''FrequencyInterleaver: invalid dab mode''))"

definition fi_next :: "nat \<Rightarrow> nat \<Rightarrow> nat \<Rightarrow> nat" where
  "fi_next num beta perm = (13 * perm + beta) AND (num - 1)"

definition fi_in_band :: "nat \<Rightarrow> nat \<Rightarrow> nat \<Rightarrow> bool" where
  "fi_in_band carriers num perm =
     (perm \<ge> (num - carriers) div 2 \<and> perm \<le> num - (num - carriers) div 2 \<and> perm \<noteq> num div 2)"

definition fi_index :: "nat \<Rightarrow> nat \<Rightarrow> nat \<Rightarrow> nat" where
  "fi_index carriers num perm =
     (if perm > num div 2 then perm - (1 + num div 2) else perm + (carriers - num div 2))"

text \<open>
  \<open>n\<close> rounds of the loop over \<open>j\<close>; the write through \<open>index\<close> stays in the allocation of
  \<open>m_carriers\<close> entries or is undefined. \<open>size_t\<close> arithmetic: \<open>carriers - num / 2\<close> may be negative
  only for a mode whose band is narrower than half the range, which no mode has.
\<close>

fun fi_fill :: "nat \<Rightarrow> nat \<Rightarrow> nat \<Rightarrow> nat \<Rightarrow> nat \<Rightarrow> nat list \<Rightarrow> nat list result" where
  "fi_fill carriers num beta 0 perm indices = Inr indices"
| "fi_fill carriers num beta (Suc n) perm indices =
     (let perm' = fi_next num beta perm
      in if fi_in_band carriers num perm' then
           (if length indices < carriers
            then fi_fill carriers num beta n perm' (indices @ [fi_index carriers num perm'])
            else Inl (UndefinedBehaviour ''write''))
         else fi_fill carriers num beta n perm' indices)"

definition FrequencyInterleaver :: "nat \<Rightarrow> frequency_interleaver result" where
  "FrequencyInterleaver mode =
     bindE (fi_params mode) (\<lambda>(carriers, num, beta).
     bindE (fi_fill carriers num beta (num - 1) 0 []) (\<lambda>indices.
     Inr \<lparr>fi_carriers = carriers, fi_indices = indices\<rparr>))"

section \<open>Processing\<close>

text \<open>The loop over \<open>j\<close>, four samples per round, into the symbol of the output at \<open>base\<close>.\<close>

fun fi_symbol :: "nat list \<Rightarrow> 'a list \<Rightarrow> nat \<Rightarrow> 'a list \<Rightarrow> 'a list result" where
  "fi_symbol (i0 # i1 # i2 # i3 # is) (x0 # x1 # x2 # x3 # xs) base out =
     bindE (wr out (base + i0) x0) (\<lambda>out.
     bindE (wr out (base + i1) x1) (\<lambda>out.
     bindE (wr out (base + i2) x2) (\<lambda>out.
     bindE (wr out (base + i3) x3) (\<lambda>out.
     fi_symbol is xs base out))))"
| "fi_symbol _ _ base out = Inr out"

function fi_symbols :: "nat \<Rightarrow> nat list \<Rightarrow> 'a list \<Rightarrow> nat \<Rightarrow> 'a list \<Rightarrow> 'a list result" where
  "fi_symbols carriers indices ins base out =
     (if ins = [] \<or> carriers = 0 then Inr out
      else
        (case fi_symbol indices (take carriers ins) base out of
           Inl e \<Rightarrow> Inl e
         | Inr out' \<Rightarrow> fi_symbols carriers indices (drop carriers ins) (base + carriers) out'))"
  by auto
termination by (relation "measure (\<lambda>(carriers, indices, ins, base, out). length ins)") auto

declare fi_symbols.simps [simp del]

text \<open>\<open>out\<close> is the content of \<open>dataOut\<close> after \<open>setLength(dataIn->getLength())\<close>.\<close>

definition fi_process :: "frequency_interleaver \<Rightarrow> 'a list \<Rightarrow> 'a list \<Rightarrow> 'a list result" where
  "fi_process f ins out =
     (if length ins mod fi_carriers f \<noteq> 0
      then Inl (RuntimeError ''FrequencyInterleaver::process input size not valid!'')
      else fi_symbols (fi_carriers f) (fi_indices f) ins 0 out)"

section \<open>The generator has full period\<close>

definition geo :: "nat \<Rightarrow> nat" where
  "geo n = (\<Sum>i<n. 13 ^ i)"

lemma geo_0 [simp]: "geo 0 = 0"
  by (simp add: geo_def)

lemma geo_Suc: "geo (Suc n) = 13 * geo n + 1"
proof -
  have "geo (Suc n) = 1 + (\<Sum>i<n. 13 ^ Suc i)"
    unfolding geo_def by (simp add: sum.lessThan_Suc_shift del: sum.lessThan_Suc)
  then show ?thesis by (simp add: geo_def sum_distrib_left)
qed

lemma geo_add: "geo (m + n) = geo m + 13 ^ m * geo n"
  by (induction m) (simp_all add: geo_Suc algebra_simps)

lemma even_geo: "even (geo n) = even n"
  by (induction n) (simp_all add: geo_Suc)

lemma pow13_mod_4: "(13 :: nat) ^ m mod 4 = 1"
  by (induction m) (simp_all add: mod_mult_right_eq [of 13 _ 4, symmetric] mod_mult_left_eq)

lemma dvd_geo: "2 ^ k dvd geo n \<Longrightarrow> 2 ^ k dvd n"
proof (induction k arbitrary: n)
  case 0
  then show ?case by simp
next
  case (Suc k)
  have "even (geo n)" using Suc.prems by (metis dvd_mult_left power_Suc)
  then obtain m where "n = 2 * m" by (auto simp: even_geo elim!: evenE)
  then have n: "n = m + m" by simp
  have "geo n = (1 + 13 ^ m) * geo m" by (simp add: n geo_add algebra_simps)
  moreover obtain q where q: "(13 :: nat) ^ m = 4 * q + 1"
    by (metis pow13_mod_4 div_mod_decomp mult.commute)
  ultimately have "geo n = 2 * ((2 * q + 1) * geo m)" by (simp add: algebra_simps)
  with Suc.prems have "2 * 2 ^ k dvd 2 * ((2 * q + 1) * geo m)" by (simp only: power_Suc)
  then have "2 ^ k dvd (2 * q + 1) * geo m" by (simp only: nat_mult_dvd_cancel_disj) simp
  moreover have "coprime (2 ^ k) (2 * q + 1)" by simp
  ultimately have "2 ^ k dvd geo m" using coprime_dvd_mult_right_iff by blast
  then have "2 ^ k dvd m" by (rule Suc.IH)
  then show ?case by (simp add: n mult_2 [symmetric])
qed

definition lcg :: "nat \<Rightarrow> nat \<Rightarrow> nat \<Rightarrow> nat" where
  "lcg k beta j = (beta * geo j) mod 2 ^ k"

lemma fi_next_lcg: "fi_next (2 ^ k) beta (lcg k beta j) = lcg k beta (Suc j)"
proof -
  have "fi_next (2 ^ k) beta (lcg k beta j) = (13 * lcg k beta j + beta) mod 2 ^ k"
  proof -
    have "(2 ^ k - 1 :: nat) = mask k" by (simp add: mask_eq_exp_minus_1)
    then show ?thesis
      unfolding fi_next_def by (simp only: take_bit_eq_mask [symmetric] take_bit_eq_mod)
  qed
  also have "\<dots> = (13 * (beta * geo j) + beta) mod 2 ^ k"
    unfolding lcg_def by (metis mod_add_left_eq mod_mult_right_eq)
  also have "\<dots> = lcg k beta (Suc j)"
    by (simp add: lcg_def geo_Suc algebra_simps)
  finally show ?thesis .
qed

lemma lcg_inj:
  assumes "odd beta" "i \<le> j" "j < 2 ^ k" "lcg k beta i = lcg k beta j"
  shows "i = j"
proof -
  obtain d where d: "j = i + d" using assms(2) le_Suc_ex by blast
  have "(beta * geo i) mod 2 ^ k = (beta * geo i + beta * (13 ^ i * geo d)) mod 2 ^ k"
    using assms(4) unfolding lcg_def d geo_add [of i d] by (simp only: distrib_left)
  then have "2 ^ k dvd beta * (13 ^ i * geo d)"
    by (metis add_diff_cancel_left' mod_eq_dvd_iff_nat le_add1)
  then have "2 ^ k dvd (beta * 13 ^ i) * geo d" by (simp only: mult.assoc)
  moreover have "coprime (2 ^ k) (beta * 13 ^ i)" using assms(1) by simp
  ultimately have "2 ^ k dvd geo d" using coprime_dvd_mult_right_iff by blast
  then have "2 ^ k dvd d" by (rule dvd_geo)
  moreover have "d < 2 ^ k" using assms(3) d by simp
  ultimately have "d = 0" by (metis dvd_imp_le gr0I not_le)
  then show ?thesis using d by simp
qed

lemma lcg_distinct: "odd beta \<Longrightarrow> distinct (map (lcg k beta) [0..<2 ^ k])"
  by (auto simp: distinct_map inj_on_def) (metis lcg_inj nat_le_linear)

lemma lcg_set: "odd beta \<Longrightarrow> set (map (lcg k beta) [0..<2 ^ k]) = {..<2 ^ k}"
proof (rule card_subset_eq)
  assume "odd beta"
  then have "card (set (map (lcg k beta) [0..<2 ^ k])) = length (map (lcg k beta) [0..<2 ^ k])"
    by (intro distinct_card lcg_distinct)
  then show "card (set (map (lcg k beta) [0..<2 ^ k])) = card {..<2 ^ k :: nat}" by simp
qed (auto simp: lcg_def)

section \<open>The table is a permutation of the carriers\<close>

lemma fi_fill_ok:
  assumes "length idx + length (filter (fi_in_band c (2 ^ k)) (map (lcg k b) [Suc j..<Suc j + n])) \<le> c"
  shows "fi_fill c (2 ^ k) b n (lcg k b j) idx =
    Inr (idx @ map (fi_index c (2 ^ k)) (filter (fi_in_band c (2 ^ k)) (map (lcg k b) [Suc j..<Suc j + n])))"
  using assms
proof (induction n arbitrary: j idx)
  case 0
  then show ?case by simp
next
  case (Suc n)
  have upt: "[Suc j..<Suc j + Suc n] = Suc j # [Suc (Suc j)..<Suc (Suc j) + n]"
    by (simp add: upt_conv_Cons del: upt_Suc)
  show ?case
  proof (cases "fi_in_band c (2 ^ k) (lcg k b (Suc j))")
    case True
    then have "length (idx @ [fi_index c (2 ^ k) (lcg k b (Suc j))]) +
        length (filter (fi_in_band c (2 ^ k)) (map (lcg k b) [Suc (Suc j)..<Suc (Suc j) + n])) \<le> c"
      using Suc.prems unfolding upt by (simp del: upt_Suc)
    from Suc.IH [OF this] True Suc.prems show ?thesis
      unfolding upt by (simp add: Let_def fi_next_lcg del: upt_Suc)
  next
    case False
    with Suc.prems Suc.IH [of idx "Suc j"] show ?thesis
      unfolding upt by (simp add: Let_def fi_next_lcg del: upt_Suc)
  qed
qed

text \<open>The condition on a mode's parameters; all four modes meet it.\<close>

definition fi_ok :: "nat \<Rightarrow> nat \<Rightarrow> nat \<Rightarrow> bool" where
  "fi_ok c k b = (odd b \<and> 2 < k \<and> 4 dvd c \<and> 2 ^ (k - 1) < c \<and> c < 2 ^ k)"

lemma fi_band_eq:
  assumes "fi_ok c k b"
  shows "fi_in_band c (2 ^ k) p = (2 ^ (k - 1) - c div 2 \<le> p \<and> p \<le> 2 ^ (k - 1) + c div 2 \<and> p \<noteq> 2 ^ (k - 1))"
proof -
  obtain h where k: "k = Suc h" using assms by (cases k) (auto simp: fi_ok_def)
  obtain d where c: "c = 4 * d" using assms by (auto simp: fi_ok_def elim: dvdE)
  have a: "(2 ^ k - c) div 2 = 2 ^ (k - 1) - c div 2" unfolding k c by simp
  have "4 * d < 2 * 2 ^ h" using assms by (simp add: fi_ok_def k c)
  then have b: "2 ^ k - (2 ^ (k - 1) - c div 2) = 2 ^ (k - 1) + c div 2" unfolding k c by simp
  have h: "2 ^ k div 2 = (2 ^ (k - 1) :: nat)" unfolding k by simp
  show ?thesis unfolding fi_in_band_def a b h by simp
qed

lemma fi_index_bij:
  assumes "fi_ok c k b"
  shows "bij_betw (fi_index c (2 ^ k)) {p. fi_in_band c (2 ^ k) p} {..<c}"
proof (rule bij_betw_byWitness [where f' = "\<lambda>i. if i < c div 2 then i + 1 + 2 ^ (k - 1) else i - (c - 2 ^ (k - 1))"])
  obtain h where k: "k = Suc h" using assms by (cases k) (auto simp: fi_ok_def)
  obtain d where c: "c = 4 * d" using assms by (auto simp: fi_ok_def elim: dvdE)
  have lim: "2 ^ h < 4 * d" "4 * d < 2 * 2 ^ h" using assms by (auto simp: fi_ok_def k c)
  note band = fi_band_eq [OF assms, unfolded k c, simplified]
  show "\<forall>a\<in>{p. fi_in_band c (2 ^ k) p}.
      (if fi_index c (2 ^ k) a < c div 2 then fi_index c (2 ^ k) a + 1 + 2 ^ (k - 1)
       else fi_index c (2 ^ k) a - (c - 2 ^ (k - 1))) = a"
    using lim by (auto simp: band fi_index_def k c)
  show "\<forall>a'\<in>{..<c}. fi_index c (2 ^ k)
      (if a' < c div 2 then a' + 1 + 2 ^ (k - 1) else a' - (c - 2 ^ (k - 1))) = a'"
    using lim by (auto simp: fi_index_def k c)
  show "fi_index c (2 ^ k) ` {p. fi_in_band c (2 ^ k) p} \<subseteq> {..<c}"
    using lim by (auto simp: band fi_index_def k c)
  show "(\<lambda>i. if i < c div 2 then i + 1 + 2 ^ (k - 1) else i - (c - 2 ^ (k - 1))) ` {..<c}
      \<subseteq> {p. fi_in_band c (2 ^ k) p}"
    using lim by (auto simp: band k c)
qed

lemma fi_in_band_less:
  assumes "fi_ok c k b" and "fi_in_band c (2 ^ k) p"
  shows "p < 2 ^ k" "p \<noteq> 0"
proof -
  obtain h where k: "k = Suc h" using assms(1) by (cases k) (auto simp: fi_ok_def)
  have lim: "c < 2 * 2 ^ h" using assms(1) by (simp add: fi_ok_def k)
  have p: "2 ^ h - c div 2 \<le> p" "p \<le> 2 ^ h + c div 2"
    using assms(2) unfolding fi_band_eq [OF assms(1)] by (simp_all add: k)
  have "c div 2 < 2 ^ h" using lim by (intro less_mult_imp_div_less) simp
  with p show "p < 2 ^ k" "p \<noteq> 0" by (simp_all add: k)
qed

lemma fi_table:
  assumes "fi_ok c k b"
  shows "\<exists>idx. fi_fill c (2 ^ k) b (2 ^ k - 1) 0 [] = Inr idx \<and> length idx = c \<and>
     distinct idx \<and> set idx = {..<c}"
proof -
  let ?P = "fi_in_band c (2 ^ k)"
  let ?all = "map (lcg k b) [0..<2 ^ k]"
  let ?vals = "filter ?P (map (lcg k b) [Suc 0..<Suc 0 + (2 ^ k - 1)])"
  have odd: "odd b" using assms by (simp add: fi_ok_def)
  have "[0..<2 ^ k] = 0 # [Suc 0..<2 ^ k]" by (simp add: upt_conv_Cons)
  moreover have "\<not> ?P (lcg k b 0)"
    using fi_in_band_less(2) [OF assms, of 0] by (auto simp: lcg_def)
  ultimately have v: "?vals = filter ?P ?all" by simp
  have dist: "distinct ?vals" unfolding v by (rule distinct_filter) (rule lcg_distinct [OF odd])
  have set: "set ?vals = {p. ?P p}"
    unfolding v set_filter lcg_set [OF odd] using fi_in_band_less(1) [OF assms] by auto
  let ?idx = "map (fi_index c (2 ^ k)) ?vals"
  have d: "distinct ?idx"
    unfolding distinct_map set using dist fi_index_bij [OF assms] by (simp add: bij_betw_def)
  have s: "set ?idx = {..<c}"
    unfolding set_map set using fi_index_bij [OF assms] by (simp add: bij_betw_def)
  have len: "length ?idx = c" using distinct_card [OF d] unfolding s by simp
  have "fi_fill c (2 ^ k) b (2 ^ k - 1) (lcg k b 0) [] = Inr ([] @ ?idx)"
    by (rule fi_fill_ok) (use len in simp)
  then show ?thesis using d s len by (auto simp: lcg_def)
qed

lemma FrequencyInterleaver_table:
  assumes "FrequencyInterleaver mode = Inr f"
  shows "length (fi_indices f) = fi_carriers f" "distinct (fi_indices f)"
    "set (fi_indices f) = {..<fi_carriers f}" "4 dvd fi_carriers f" "0 < fi_carriers f"
proof -
  have modes: "fi_ok 1536 11 511" "fi_ok 384 9 127" "fi_ok 192 8 63" "fi_ok 768 10 255"
    by (simp_all add: fi_ok_def)
  note t = modes [THEN fi_table, simplified]
  have "length (fi_indices f) = fi_carriers f \<and> distinct (fi_indices f) \<and>
    set (fi_indices f) = {..<fi_carriers f} \<and> 4 dvd fi_carriers f \<and> 0 < fi_carriers f"
    using assms t by (auto simp: FrequencyInterleaver_def bindE_Inr_iff split: if_splits)
  then show "length (fi_indices f) = fi_carriers f" "distinct (fi_indices f)"
    "set (fi_indices f) = {..<fi_carriers f}" "4 dvd fi_carriers f" "0 < fi_carriers f" by auto
qed

section \<open>One symbol and a whole frame\<close>

definition scatter :: "nat list \<Rightarrow> 'a list \<Rightarrow> nat \<Rightarrow> 'a list \<Rightarrow> 'a list" where
  "scatter is xs base out = fold (\<lambda>(i, x) out. out[base + i := x]) (zip is xs) out"

lemma scatter_simps [simp]:
  "scatter [] xs base out = out"
  "scatter is [] base out = out"
  "scatter (i # is) (x # xs) base out = scatter is xs base (out[base + i := x])"
  by (simp_all add: scatter_def)

lemma scatter_length [simp]: "length (scatter is xs base out) = length out"
  by (induction "is" xs arbitrary: out rule: list_induct2') simp_all

lemma scatter_other: "m \<notin> (\<lambda>i. base + i) ` set is \<Longrightarrow> scatter is xs base out ! m = out ! m"
  by (induction "is" xs arbitrary: out rule: list_induct2') (auto simp: nth_list_update)

lemma scatter_nth:
  "\<lbrakk>length is = length xs; distinct is; \<forall>i \<in> set is. base + i < length out; j < length is\<rbrakk> \<Longrightarrow>
   scatter is xs base out ! (base + is ! j) = xs ! j"
proof (induction "is" xs arbitrary: out j rule: list_induct2')
  case (4 i "is" x xs)
  show ?case
  proof (cases j)
    case 0
    have "scatter is xs base (out[base + i := x]) ! (base + i) = out[base + i := x] ! (base + i)"
      using 4 by (intro scatter_other) auto
    with 0 4 show ?thesis by simp
  next
    case (Suc j')
    with 4 show ?thesis by simp
  qed
qed simp_all

lemma fi_symbol_scatter:
  assumes "length is = length xs" "4 dvd length xs" "\<forall>i \<in> set is. base + i < length out"
  shows "fi_symbol is xs base out = Inr (scatter is xs base out)"
  using assms
proof (induction "is" xs base out rule: fi_symbol.induct)
  case (1 i0 i1 i2 i3 "is" x0 x1 x2 x3 xs base out)
  have "4 dvd length xs" using "1.prems"(2) by (simp add: dvd_def) presburger
  with 1 show ?case by (simp del: One_nat_def)
qed (auto simp: dvd_def, presburger+)

definition placed :: "nat list \<Rightarrow> nat \<Rightarrow> 'a list \<Rightarrow> nat \<Rightarrow> 'a list \<Rightarrow> bool" where
  "placed is c ins base out =
     (\<forall>l j. l * c + j < length ins \<longrightarrow> j < c \<longrightarrow> out ! (base + l * c + is ! j) = ins ! (l * c + j))"

lemma fi_symbols_ok:
  assumes "length is = c" "distinct is" "set is = {..<c}" "4 dvd c" "0 < c"
    and "length ins = m * c" "base + m * c \<le> length out"
  shows "\<exists>out'. fi_symbols c is ins base out = Inr out' \<and> length out' = length out \<and>
     (\<forall>n < base. out' ! n = out ! n) \<and> placed is c ins base out'"
  using assms(6,7)
proof (induction m arbitrary: ins base out)
  case 0
  then show ?case by (subst fi_symbols.simps) (simp add: placed_def)
next
  case (Suc m)
  have nonempty: "ins \<noteq> []" using Suc.prems(1) assms(5) by auto
  have len: "length (take c ins) = c" using Suc.prems(1) by simp
  let ?s = "scatter is (take c ins) base out"
  have s: "fi_symbol is (take c ins) base out = Inr ?s"
    using assms len Suc.prems by (intro fi_symbol_scatter) auto
  have pre: "?s ! n = out ! n" if "n < base" for n
    using that by (intro scatter_other) auto
  have "length (drop c ins) = m * c" "(base + c) + m * c \<le> length ?s"
    using Suc.prems by simp_all
  from Suc.IH [OF this] obtain out' where out': "fi_symbols c is (drop c ins) (base + c) ?s = Inr out'"
    "length out' = length out" "\<forall>n < base + c. out' ! n = ?s ! n"
    "placed is c (drop c ins) (base + c) out'" by auto
  have "out' ! (base + l * c + is ! j) = ins ! (l * c + j)"
    if lj: "l * c + j < length ins" "j < c" for l j
  proof (cases l)
    case 0
    have "is ! j < c" using assms(1,3) lj(2) by (metis lessThan_iff nth_mem)
    then have "out' ! (base + is ! j) = ?s ! (base + is ! j)" using out'(3) by simp
    also have "\<dots> = take c ins ! j"
      using assms(1-3) len lj(2) Suc.prems by (intro scatter_nth) auto
    finally show ?thesis using 0 lj by simp
  next
    case (Suc l')
    have "l' * c + j < length (drop c ins)" using lj(1) Suc by simp
    with out'(4) lj(2) have "out' ! (base + c + l' * c + is ! j) = drop c ins ! (l' * c + j)"
      by (simp add: placed_def)
    with Suc lj show ?thesis by (simp add: add.assoc add.commute add.left_commute)
  qed
  then have "placed is c ins base out'" by (simp add: placed_def)
  moreover have "\<forall>n < base. out' ! n = out ! n" using out'(3) pre by simp
  ultimately show ?case
    using out' s nonempty assms(5) by (subst fi_symbols.simps) simp
qed

lemma fi_process_ok:
  assumes "FrequencyInterleaver mode = Inr f" "fi_carriers f dvd length ins" "length out = length ins"
  shows "\<exists>out'. fi_process f ins out = Inr out' \<and> length out' = length ins \<and>
     placed (fi_indices f) (fi_carriers f) ins 0 out'"
proof -
  obtain m where m: "length ins = m * fi_carriers f" using assms(2) by (metis dvd_def mult.commute)
  have "\<exists>out'. fi_symbols (fi_carriers f) (fi_indices f) ins 0 out = Inr out' \<and> length out' = length out \<and>
      (\<forall>n < 0. out' ! n = out ! n) \<and> placed (fi_indices f) (fi_carriers f) ins 0 out'"
    using FrequencyInterleaver_table [OF assms(1)] m assms(3) by (intro fi_symbols_ok) auto
  with m assms(3) show ?thesis by (auto simp: fi_process_def)
qed

section \<open>Properties\<close>

text \<open>
  For every transmission mode the constructor succeeds, writes exactly as many table
  entries as it has allocated, and the table is a permutation of the carriers: each index below
  the number of carriers occurs once. This is the full period of the congruential generator
  \<open>13 x + beta\<close> modulo a power of two.
\<close>

lemma frequency_table_is_permutation:
  "(\<exists>f. FrequencyInterleaver mode = Inr f \<and> length (fi_indices f) = fi_carriers f \<and>
      distinct (fi_indices f) \<and> set (fi_indices f) = {..<fi_carriers f}) = (mode \<le> 4)"
proof -
  have modes: "fi_ok 1536 11 511" "fi_ok 384 9 127" "fi_ok 192 8 63" "fi_ok 768 10 255"
    by (simp_all add: fi_ok_def)
  note t = modes [THEN fi_table, simplified]
  have ok: "\<exists>f. FrequencyInterleaver mode = Inr f" if "mode \<le> 4"
  proof -
    have "mode = 0 \<or> mode = 1 \<or> mode = 2 \<or> mode = 3 \<or> mode = 4" using that by arith
    with t show ?thesis by (auto simp: FrequencyInterleaver_def)
  qed
  have "mode \<le> 4" if "FrequencyInterleaver mode = Inr f" for f
    using that by (auto simp: FrequencyInterleaver_def bindE_Inr_iff split: if_splits)
  with ok FrequencyInterleaver_table show ?thesis by blast
qed

text \<open>
  A frame of any number of symbols is interleaved without an access outside the buffers:
  sample \<open>j\<close> of each symbol ends up at carrier \<open>indices[j]\<close> of the same symbol, whatever the
  output buffer held before.
\<close>

lemma frequency_interleaver_moves_samples:
  assumes "FrequencyInterleaver mode = Inr f" and "fi_carriers f dvd length ins"
    and "length out = length ins" and "l * fi_carriers f + j < length ins" and "j < fi_carriers f"
  shows "\<exists>out'. fi_process f ins out = Inr out' \<and> length out' = length ins \<and>
     out' ! (l * fi_carriers f + fi_indices f ! j) = ins ! (l * fi_carriers f + j)"
  using fi_process_ok [OF assms(1-3)] assms(4,5) by (auto simp: placed_def)

lemma FrequencyInterleaver_3_carriers: "FrequencyInterleaver 3 = Inr f \<Longrightarrow> fi_carriers f = 192"
  by (auto simp: FrequencyInterleaver_def bindE_Inr_iff)

lemma frequency_interleaver_moves_samples_witness:
  "\<exists>f out'. FrequencyInterleaver 3 = Inr f \<and>
     fi_process f [0..<384] (replicate 384 0) = Inr out' \<and>
     out' ! (192 + fi_indices f ! 5) = 197"
proof -
  obtain f where f: "FrequencyInterleaver 3 = Inr f"
    using fi_table [of 192 8 63] by (auto simp: fi_ok_def FrequencyInterleaver_def)
  show ?thesis
    using frequency_interleaver_moves_samples [OF f, of "[0..<384]" "replicate 384 0" 1 5]
      FrequencyInterleaver_3_carriers [OF f] f
    by (auto simp del: upt_rec_numeral)
qed

end
