(* ===== verification/Differential.thy ===== *)
theory Differential
  imports Complex_Main Freq_Interleaver "HOL-Library.Signed_Division"
begin

text \<open>
  The phase reference symbol, \<open>src/PhaseReference.cpp\<close>, and the differential modulator,
  \<open>src/DifferentialModulator.cpp\<close>, for samples of any type with a multiplication; then the
  fixed point samples of the KISS and DEXTER engines, \<open>fixed_16\<close> of \<open>src/Buffer.h\<close> with the
  multiplication of \<open>fpm/fixed.hpp\<close> at its 16 and 32 bits. The lemmas give the differential
  recurrence, and show that the products of a whole frame never leave 16 bits.
\<close>

section \<open>Phase reference\<close>

definition d_h :: "nat list list" where
  "d_h =
     [[0, 2, 0, 0, 0, 0, 1, 1, 2, 0, 0, 0, 2, 2, 1, 1,
       0, 2, 0, 0, 0, 0, 1, 1, 2, 0, 0, 0, 2, 2, 1, 1],
      [0, 3, 2, 3, 0, 1, 3, 0, 2, 1, 2, 3, 2, 3, 3, 0,
       0, 3, 2, 3, 0, 1, 3, 0, 2, 1, 2, 3, 2, 3, 3, 0],
      [0, 0, 0, 2, 0, 2, 1, 3, 2, 2, 0, 2, 2, 0, 1, 3,
       0, 0, 0, 2, 0, 2, 1, 3, 2, 2, 0, 2, 2, 0, 1, 3],
      [0, 1, 2, 1, 0, 3, 3, 2, 2, 3, 2, 1, 2, 1, 3, 2,
       0, 1, 2, 1, 0, 3, 3, 2, 2, 3, 2, 1, 2, 1, 3, 2]]"

text \<open>The rows have 48 entries; the ones not listed are zero.\<close>

definition pad48 :: "(nat \<times> nat) list \<Rightarrow> (nat \<times> nat) list" where
  "pad48 xs = xs @ replicate (48 - length xs) (0, 0)"

definition phase_table :: "(nat \<times> nat) list list" where
  "phase_table =
     [pad48
        [(0, 0), (3, 1), (2, 0), (1, 2), (0, 0), (3, 1),
         (2, 2), (1, 2), (0, 2), (3, 1), (2, 3), (1, 0),
         (0, 0), (1, 1), (2, 1), (3, 2), (0, 2), (1, 2),
         (2, 0), (3, 3), (0, 3), (1, 1), (2, 3), (3, 2)],
      pad48
        [(0, 3), (3, 1), (2, 1), (1, 1), (0, 2), (3, 2),
         (2, 1), (1, 0), (0, 2), (3, 2), (2, 3), (1, 3),
         (0, 0), (3, 2), (2, 1), (1, 3), (0, 3), (3, 3),
         (2, 3), (1, 0), (0, 3), (3, 0), (2, 1), (1, 1),
         (0, 1), (1, 2), (2, 0), (3, 1), (0, 3), (1, 2),
         (2, 2), (3, 3), (0, 2), (1, 1), (2, 2), (3, 3),
         (0, 1), (1, 2), (2, 3), (3, 3), (0, 2), (1, 2),
         (2, 2), (3, 1), (0, 1), (1, 3), (2, 1), (3, 2)],
      pad48
        [(2, 0), (1, 2), (0, 2), (3, 1), (2, 0), (1, 3),
         (0, 2), (1, 3), (2, 2), (3, 2), (0, 1), (1, 2)],
      pad48
        [(3, 2), (2, 2), (1, 2),
         (0, 2), (1, 3), (2, 0)]]"

text \<open>\<open>convert\<close>: the four unit phases.\<close>

definition phase_convert :: "'a::{zero,uminus} \<Rightarrow> nat \<Rightarrow> 'a \<times> 'a" where
  "phase_convert one data =
     [(one, 0), (0, one), (- one, 0), (0, - one)] ! (data mod 4)"

text \<open>One round of the loop over \<open>offset\<close>: 32 samples.\<close>

definition phase_row :: "'a::{zero,uminus} \<Rightarrow> nat \<Rightarrow> nat \<Rightarrow> ('a \<times> 'a) list result" where
  "phase_row one dabmode offset =
     bindE (rd phase_table dabmode) (\<lambda>row.
     bindE (rd row offset) (\<lambda>(i, n).
     bindE (rd d_h i) (\<lambda>h.
     Inr (map (\<lambda>hk. phase_convert one (hk + n)) h))))"

function phase_fill ::
    "'a::{zero,uminus} \<Rightarrow> nat \<Rightarrow> nat \<Rightarrow> nat \<Rightarrow> nat \<Rightarrow> ('a \<times> 'a) list result" where
  "phase_fill one dabmode carriers index offset =
     (if index < carriers then
        (if index + 32 \<le> carriers then
           (case phase_row one dabmode offset of
              Inl e \<Rightarrow> Inl e
            | Inr xs \<Rightarrow>
                (case phase_fill one dabmode carriers (index + 32) (offset + 1) of
                   Inl e \<Rightarrow> Inl e
                 | Inr rest \<Rightarrow> Inr (xs @ rest)))
         else Inl (UndefinedBehaviour ''write''))
      else Inr [])"
  by auto
termination by (relation "measure (\<lambda>(one, dabmode, carriers, index, offset). carriers - index)") auto

declare phase_fill.simps [simp del]

record 'a phase_reference =
  pr_dabmode :: nat
  pr_carriers :: nat
  pr_data :: "('a \<times> 'a) list"

definition PhaseReference :: "'a::{zero,uminus} \<Rightarrow> nat \<Rightarrow> 'a phase_reference result" where
  "PhaseReference one dabmode =
     bindE
       (if dabmode = 1 then Inr (1, 1536)
        else if dabmode = 2 then Inr (2, 384)
        else if dabmode = 3 then Inr (3, 192)
        else if dabmode = 4 then Inr (0, 768)
        else if dabmode = 0 then Inr (0, 768)
        else Inl (RuntimeError ''PhaseReference::PhaseReference DAB mode not valid!''))
       (\<lambda>(d_dabmode, d_carriers).
          bindE (phase_fill one d_dabmode d_carriers 0 0) (\<lambda>xs.
          Inr \<lparr>pr_dabmode = d_dabmode, pr_carriers = d_carriers, pr_data = xs\<rparr>))"

definition phase_process :: "'a phase_reference \<Rightarrow> ('a \<times> 'a) list" where
  "phase_process p = take (pr_carriers p) (pr_data p)"

section \<open>Differential modulation\<close>

text \<open>The loop over \<open>j\<close>, four samples per round.\<close>

fun dm_symbol :: "('a \<Rightarrow> 'a \<Rightarrow> 'a) \<Rightarrow> 'a list \<Rightarrow> 'a list \<Rightarrow> 'a list result" where
  "dm_symbol mul (o0 # o1 # o2 # o3 # out) (x0 # x1 # x2 # x3 # ins) =
     bindE (dm_symbol mul out ins)
       (\<lambda>rest. Inr (mul o0 x0 # mul o1 x1 # mul o2 x2 # mul o3 x3 # rest))"
| "dm_symbol mul [] [] = Inr []"
| "dm_symbol mul _ _ = Inl (UndefinedBehaviour ''write'')"

text \<open>The loop over \<open>i\<close>; \<open>out\<close> is the symbol written last.\<close>

function dm_symbols :: "('a \<Rightarrow> 'a \<Rightarrow> 'a) \<Rightarrow> nat \<Rightarrow> 'a list \<Rightarrow> 'a list \<Rightarrow> 'a list result" where
  "dm_symbols mul carriers out ins =
     (if ins = [] \<or> carriers = 0 then Inr []
      else
        (case dm_symbol mul out (take carriers ins) of
           Inl e \<Rightarrow> Inl e
         | Inr next \<Rightarrow>
             (case dm_symbols mul carriers next (drop carriers ins) of
                Inl e \<Rightarrow> Inl e
              | Inr rest \<Rightarrow> Inr (next @ rest))))"
  by auto
termination by (relation "measure (\<lambda>(mul, carriers, out, ins). length ins)") auto

declare dm_symbols.simps [simp del]

definition dm_process :: "('a \<Rightarrow> 'a \<Rightarrow> 'a) \<Rightarrow> nat \<Rightarrow> 'a list list \<Rightarrow> 'a list result" where
  "dm_process mul carriers dataIn =
     (case dataIn of
        [phase, ins] \<Rightarrow>
          (if length phase \<noteq> carriers
           then Inl (RuntimeError ''DifferentialModulator::process input phase size not valid!'')
           else if carriers = 0 then Inl (UndefinedBehaviour ''division by zero'')
           else if length ins mod carriers \<noteq> 0
           then Inl (RuntimeError ''DifferentialModulator::process input data size not valid!'')
           else bindE (dm_symbols mul carriers phase ins) (\<lambda>rest. Inr (phase @ rest)))
      | _ \<Rightarrow> Inl (RuntimeError ''DifferentialModulator::process nb of input streams not 2!''))"

lemma dm_symbol_map2:
  "length out = length ins \<Longrightarrow> 4 dvd length ins \<Longrightarrow> dm_symbol mul out ins = Inr (map2 mul out ins)"
proof (induction mul out ins rule: dm_symbol.induct)
  case (1 mul o0 o1 o2 o3 out x0 x1 x2 x3 ins)
  have "4 dvd length ins" using "1.prems"(2) by (simp add: dvd_def) presburger
  with 1 show ?case by simp
qed (auto simp: dvd_def, presburger+)

fun dm_spec :: "('a \<Rightarrow> 'a \<Rightarrow> 'a) \<Rightarrow> nat \<Rightarrow> 'a list \<Rightarrow> 'a list \<Rightarrow> nat \<Rightarrow> 'a list" where
  "dm_spec mul c out ins 0 = []"
| "dm_spec mul c out ins (Suc m) =
     (let next = map2 mul out (take c ins) in next @ dm_spec mul c next (drop c ins) m)"

lemma dm_symbols_spec:
  "\<lbrakk>length out = c; length ins = m * c; 4 dvd c; 0 < c\<rbrakk> \<Longrightarrow>
   dm_symbols mul c out ins = Inr (dm_spec mul c out ins m)"
proof (induction m arbitrary: out ins)
  case 0
  then show ?case by (subst dm_symbols.simps) simp
next
  case (Suc m)
  have ne: "ins \<noteq> []" using Suc.prems by auto
  have s: "dm_symbol mul out (take c ins) = Inr (map2 mul out (take c ins))"
    using Suc.prems by (intro dm_symbol_map2) auto
  have "dm_symbols mul c (map2 mul out (take c ins)) (drop c ins) =
      Inr (dm_spec mul c (map2 mul out (take c ins)) (drop c ins) m)"
    using Suc.prems by (intro Suc.IH) auto
  with ne s Suc.prems show ?case by (subst dm_symbols.simps) (simp add: Let_def)
qed

lemma dm_spec_length: "length out = c \<Longrightarrow> length ins = m * c \<Longrightarrow> length (dm_spec mul c out ins m) = m * c"
  by (induction m arbitrary: out ins) (simp_all add: Let_def)

text \<open>The symbols with the reference in front obey the recurrence.\<close>

lemma dm_spec_nth:
  assumes "length out = c" "length ins = m * c" "l < m" "j < c"
  shows "(out @ dm_spec mul c out ins m) ! (Suc l * c + j) =
         mul ((out @ dm_spec mul c out ins m) ! (l * c + j)) (ins ! (l * c + j))"
  using assms
proof (induction m arbitrary: out ins l)
  case 0
  then show ?case by simp
next
  case (Suc m)
  let ?n = "map2 mul out (take c ins)"
  have len: "length ?n = c" using Suc.prems by simp
  show ?case
  proof (cases l)
    case 0
    with Suc.prems len show ?thesis by (simp add: nth_append Let_def)
  next
    case (Suc l')
    have IH: "(?n @ dm_spec mul c ?n (drop c ins) m) ! (Suc l' * c + j) =
        mul ((?n @ dm_spec mul c ?n (drop c ins) m) ! (l' * c + j)) (drop c ins ! (l' * c + j))"
      using Suc.prems Suc len by (intro Suc.IH) auto
    have shift: "(out @ ?n @ ys) ! (Suc k * c + j) = (?n @ ys) ! (k * c + j)" for k ys
      using Suc.prems(1) by (simp add: nth_append)
    have "drop c ins ! (l' * c + j) = ins ! (l * c + j)"
      using Suc.prems Suc by (simp add: add.assoc)
    with IH show ?thesis unfolding Suc dm_spec.simps Let_def shift by simp
  qed
qed

lemma dm_process_spec:
  assumes "length phase = c" "length ins = m * c" "4 dvd c" "0 < c"
  shows "dm_process mul c [phase, ins] = Inr (phase @ dm_spec mul c phase ins m)"
  using dm_symbols_spec [OF assms] assms by (simp add: dm_process_def)

section \<open>Phase reference lemmas\<close>

lemma length_phase_row:
  assumes "dabmode < 4" "offset < 48"
  shows "\<exists>xs. phase_row one dabmode offset = Inr xs \<and> length xs = 32 \<and>
     (\<forall>x \<in> set xs. \<exists>k. x = phase_convert one k)"
proof -
  have rows: "\<forall>row \<in> set phase_table. length row = 48 \<and> (\<forall>x \<in> set row. fst x < 4)"
    by (simp add: phase_table_def pad48_def)
  have "length phase_table = 4" by (simp add: phase_table_def)
  then have r: "phase_table ! dabmode \<in> set phase_table" "rd phase_table dabmode = Inr (phase_table ! dabmode)"
    using assms by simp_all
  let ?x = "phase_table ! dabmode ! offset"
  have len: "length (phase_table ! dabmode) = 48" using rows r(1) by blast
  then have "?x \<in> set (phase_table ! dabmode)" using assms(2) by simp
  with rows r(1) have i: "fst ?x < 4" by blast
  have h: "length d_h = 4" "\<forall>h \<in> set d_h. length h = 32" by (simp_all add: d_h_def)
  then have "length (d_h ! fst ?x) = 32" using i by simp
  with i h r len assms(2) show ?thesis
    by (cases "?x") (auto simp: phase_row_def)
qed

lemma phase_fill_ok:
  assumes "dabmode < 4" "carriers = index + 32 * m" "offset + m \<le> 48"
  shows "\<exists>xs. phase_fill one dabmode carriers index offset = Inr xs \<and> length xs = 32 * m \<and>
     (\<forall>x \<in> set xs. \<exists>k. x = phase_convert one k)"
  using assms(2,3)
proof (induction m arbitrary: index offset)
  case 0
  then show ?case by (subst phase_fill.simps) simp
next
  case (Suc m)
  obtain xs where xs: "phase_row one dabmode offset = Inr xs" "length xs = 32"
    "\<forall>x \<in> set xs. \<exists>k. x = phase_convert one k"
    using length_phase_row [OF assms(1), of offset one] Suc.prems by auto
  obtain ys where ys: "phase_fill one dabmode carriers (index + 32) (offset + 1) = Inr ys"
    "length ys = 32 * m" "\<forall>x \<in> set ys. \<exists>k. x = phase_convert one k"
    using Suc.IH [of "index + 32" "offset + 1"] Suc.prems by auto
  show ?case
    using Suc.prems xs ys by (subst phase_fill.simps) auto
qed

lemma PhaseReference_ok:
  assumes "dabmode \<le> 4"
  shows "\<exists>p. PhaseReference one dabmode = Inr p \<and> length (pr_data p) = pr_carriers p \<and>
     (\<forall>x \<in> set (pr_data p). \<exists>k. x = phase_convert one k)"
proof -
  have m: "dabmode = 0 \<or> dabmode = 1 \<or> dabmode = 2 \<or> dabmode = 3 \<or> dabmode = 4" using assms by arith
  show ?thesis
    using m phase_fill_ok [of 0 768 0 24 0 one] phase_fill_ok [of 1 1536 0 48 0 one]
      phase_fill_ok [of 2 384 0 12 0 one] phase_fill_ok [of 3 192 0 6 0 one]
    by (elim disjE) (auto simp: PhaseReference_def)
qed

section \<open>Fixed point samples\<close>

text \<open>
  \<open>fixed_16\<close>: 16 bits, 14 of them after the point, products in 32 bits. The product of two 16-bit
  values fits 32 bits, so only the conversion back to 16 bits can lose something.
\<close>

definition fix_round :: "int \<Rightarrow> int" where
  "fix_round p = (let value = p sdiv 8192 in value sdiv 2 + value smod 2)"

definition fix_mul :: "u16 \<Rightarrow> u16 \<Rightarrow> u16" where
  "fix_mul x y = word_of_int (fix_round (sint x * sint y))"

text \<open>The product of \<open>std::complex\<close> over a type that is not a floating point type.\<close>

definition fix_cmul :: "u16 \<times> u16 \<Rightarrow> u16 \<times> u16 \<Rightarrow> u16 \<times> u16" where
  "fix_cmul = (\<lambda>(a, b) (c, d). (fix_mul a c - fix_mul b d, fix_mul a d + fix_mul b c))"

text \<open>The same product over unbounded integers.\<close>

definition exact_cmul :: "int \<times> int \<Rightarrow> int \<times> int \<Rightarrow> int \<times> int" where
  "exact_cmul = (\<lambda>(a, b) (c, d). (fix_round (a * c) - fix_round (b * d), fix_round (a * d) + fix_round (b * c)))"

definition ival :: "u16 \<times> u16 \<Rightarrow> int \<times> int" where
  "ival = (\<lambda>(a, b). (sint a, sint b))"

text \<open>\<open>fixed_16{1}\<close> and \<open>fixed_16\<close> of the square root of one half.\<close>

definition fix_one :: u16 where
  "fix_one = 16384"

definition fix_v :: u16 where
  "fix_v = 11585"

lemma sdiv_smod_nonneg: "0 \<le> k \<Longrightarrow> 0 < l \<Longrightarrow> k sdiv l = k div l \<and> k smod l = k mod (l :: int)"
  by (cases "k = 0") (auto simp: signed_divide_int_def signed_modulo_int_def)

lemma sdiv_smod_minus: "(- k) sdiv l = - (k sdiv l)" "(- k) smod l = - (k smod (l :: int))"
  by (simp_all add: signed_divide_int_def signed_modulo_int_def sgn_minus)

lemma fix_round_error_nonneg:
  assumes "0 \<le> p"
  shows "\<bar>16384 * fix_round p - p\<bar> \<le> 8192"
proof -
  let ?q = "p div 8192" let ?r = "p mod 8192"
  have p: "p = 8192 * ?q + ?r" "0 \<le> ?r" "?r < 8192" "0 \<le> ?q" using assms by simp_all
  have "fix_round p = ?q div 2 + ?q mod 2"
    using p(4) assms sdiv_smod_nonneg [of p 8192] sdiv_smod_nonneg [of ?q 2]
    by (simp add: fix_round_def Let_def)
  then have "16384 * fix_round p - p = 8192 * (?q mod 2) - ?r" using p(1) by arith
  moreover have "?q mod 2 = 0 \<or> ?q mod 2 = 1" by arith
  ultimately show ?thesis using p by auto
qed

lemma fix_round_minus: "fix_round (- p) = - fix_round p"
  by (simp add: fix_round_def Let_def sdiv_smod_minus)

lemma fix_round_error: "\<bar>16384 * fix_round p - p\<bar> \<le> 8192"
proof (cases "0 \<le> p")
  case False
  then have "\<bar>16384 * fix_round (- p) - (- p)\<bar> \<le> 8192" by (intro fix_round_error_nonneg) simp
  then show ?thesis unfolding fix_round_minus by simp
qed (rule fix_round_error_nonneg)

lemma fix_round_real: "\<bar>real_of_int (fix_round p) - real_of_int p / 16384\<bar> \<le> 1 / 2"
proof -
  have "\<bar>real_of_int (16384 * fix_round p - p)\<bar> \<le> 8192"
    using fix_round_error [of p] by (metis of_int_abs of_int_le_iff of_int_numeral)
  then show ?thesis by (simp add: abs_le_iff field_simps)
qed

definition zval :: "int \<times> int \<Rightarrow> complex" where
  "zval = (\<lambda>(a, b). Complex (of_int a) (of_int b))"

definition is_data :: "int \<times> int \<Rightarrow> bool" where
  "is_data = (\<lambda>(c, d). (c = 11585 \<or> c = - 11585) \<and> (d = 11585 \<or> d = - 11585))"

text \<open>One product with a data sample lengthens the vector by at most two units.\<close>

lemma exact_cmul_norm:
  assumes "is_data q"
  shows "cmod (zval (exact_cmul z q)) \<le> cmod (zval z) + 2"
proof -
  obtain a b c d where z: "z = (a, b)" and q: "q = (c, d)" by (cases z, cases q) auto
  let ?Z = "Complex (of_int a) (of_int b)"
  let ?Q = "Complex (of_int c / 16384) (of_int d / 16384)"
  let ?Z' = "zval (exact_cmul z q)"
  have "cmod ?Q \<le> 1"
  proof -
    have "(real_of_int c)\<^sup>2 = 11585\<^sup>2" "(real_of_int d)\<^sup>2 = 11585\<^sup>2"
      using assms unfolding q is_data_def by auto
    then have "(real_of_int c / 16384)\<^sup>2 + (real_of_int d / 16384)\<^sup>2 \<le> 1"
      by (simp add: power_divide)
    then show ?thesis by (simp add: cmod_def)
  qed
  then have prod: "cmod (?Z * ?Q) \<le> cmod ?Z"
    by (metis mult.right_neutral mult_left_mono norm_ge_zero norm_mult)
  let ?E = "?Z' - ?Z * ?Q"
  have re: "Re ?E = (fix_round (a * c) - real_of_int (a * c) / 16384) -
      (fix_round (b * d) - real_of_int (b * d) / 16384)"
    by (simp add: zval_def exact_cmul_def z q)
  have im: "Im ?E = (fix_round (a * d) - real_of_int (a * d) / 16384) +
      (fix_round (b * c) - real_of_int (b * c) / 16384)"
    by (simp add: zval_def exact_cmul_def z q)
  have "\<bar>Re ?E\<bar> \<le> 1" unfolding re using fix_round_real [of "a * c"] fix_round_real [of "b * d"] by linarith
  moreover have "\<bar>Im ?E\<bar> \<le> 1" unfolding im using fix_round_real [of "a * d"] fix_round_real [of "b * c"] by linarith
  ultimately have "cmod ?E \<le> 2" using cmod_le [of ?E] by linarith
  moreover have "cmod ?Z' \<le> cmod (?Z * ?Q) + cmod ?E" using norm_triangle_sub [of ?Z' "?Z * ?Q"] by simp
  ultimately show ?thesis using prod by (simp add: zval_def z)
qed

lemma zval_components:
  "cmod (zval z) \<le> r \<Longrightarrow> \<bar>real_of_int (fst z)\<bar> \<le> r \<and> \<bar>real_of_int (snd z)\<bar> \<le> r"
  using abs_Re_le_cmod [of "zval z"] abs_Im_le_cmod [of "zval z"]
  by (cases z) (auto simp: zval_def)

lemma sint_word_of_int_16: "- 32768 \<le> z \<Longrightarrow> z < 32768 \<Longrightarrow> sint (word_of_int z :: u16) = z"
  by (simp add: sint_sbintrunc' signed_take_bit_int_eq_self)

lemma fix_cmul_exact:
  assumes "is_data (ival q)" "cmod (zval (ival z)) \<le> r" "r + 2 \<le> 32767"
  shows "ival (fix_cmul z q) = exact_cmul (ival z) (ival q)"
    and "cmod (zval (ival (fix_cmul z q))) \<le> r + 2"
proof -
  obtain a b c d where z: "z = (a, b)" and q: "q = (c, d)" by (cases z, cases q) auto
  let ?e = "exact_cmul (ival z) (ival q)"
  have norm: "cmod (zval ?e) \<le> r + 2" using exact_cmul_norm [OF assms(1), of "ival z"] assms(2) by linarith
  have "\<bar>real_of_int (fst ?e)\<bar> \<le> 32767" "\<bar>real_of_int (snd ?e)\<bar> \<le> 32767"
    using zval_components [OF norm] assms(3) by linarith+
  then have range: "\<bar>fst ?e\<bar> \<le> 32767" "\<bar>snd ?e\<bar> \<le> 32767" by linarith+
  have "fix_mul a c - fix_mul b d = word_of_int (fst ?e)" "fix_mul a d + fix_mul b c = word_of_int (snd ?e)"
    by (simp_all add: fix_mul_def exact_cmul_def ival_def z q)
  then have "ival (fix_cmul z q) = (fst ?e, snd ?e)"
    using range by (simp add: fix_cmul_def z q ival_def sint_word_of_int_16 abs_le_iff)
  then show eq: "ival (fix_cmul z q) = exact_cmul (ival z) (ival q)" by simp
  show "cmod (zval (ival (fix_cmul z q))) \<le> r + 2" unfolding eq by (rule norm)
qed

lemma dm_spec_exact:
  assumes "\<forall>z \<in> set out. cmod (zval (ival z)) \<le> r" "\<forall>q \<in> set ins. is_data (ival q)"
    and "length out = c" "length ins = m * c" "r + 2 * m \<le> 32767"
  shows "map ival (dm_spec fix_cmul c out ins m) = dm_spec exact_cmul c (map ival out) (map ival ins) m"
  using assms
proof (induction m arbitrary: out ins r)
  case 0
  then show ?case by simp
next
  case (Suc m)
  let ?n = "map2 fix_cmul out (take c ins)"
  have in_set: "z \<in> set out" "q \<in> set ins" if "(z, q) \<in> set (zip out (take c ins))" for z q
    using that by (auto dest: set_zip_leftD set_zip_rightD in_set_takeD)
  have r2: "r + 2 \<le> 32767" using Suc.prems(5) by simp
  have n: "map ival ?n = map2 exact_cmul (map ival out) (take c (map ival ins))"
  proof -
    have "map ival ?n = map (\<lambda>(z, q). exact_cmul (ival z) (ival q)) (zip out (take c ins))"
      using fix_cmul_exact(1) [OF _ _ r2] in_set Suc.prems(1,2)
      by (auto simp: map_eq_conv)
    also have "\<dots> = map2 exact_cmul (map ival out) (take c (map ival ins))"
      by (simp add: take_map zip_map1 zip_map2 comp_def case_prod_unfold)
    finally show ?thesis .
  qed
  have b: "\<forall>z \<in> set ?n. cmod (zval (ival z)) \<le> r + 2"
    using fix_cmul_exact(2) [OF _ _ r2] in_set Suc.prems(1,2) by auto
  have "map ival (dm_spec fix_cmul c ?n (drop c ins) m) =
      dm_spec exact_cmul c (map ival ?n) (map ival (drop c ins)) m"
    by (rule Suc.IH [where r = "r + 2"]) (use Suc.prems b in \<open>auto dest: in_set_dropD\<close>)
  then show ?case using n by (simp add: Let_def drop_map)
qed

lemma PhaseReference_carriers:
  "PhaseReference one dabmode = Inr p \<Longrightarrow> 4 dvd pr_carriers p \<and> 0 < pr_carriers p"
  by (auto simp: PhaseReference_def bindE_Inr_iff split: if_splits)

lemma PhaseReference_data:
  assumes "PhaseReference one dabmode = Inr p"
  shows "length (pr_data p) = pr_carriers p" "\<forall>x \<in> set (pr_data p). \<exists>k. x = phase_convert one k"
proof -
  have "dabmode \<le> 4"
    using assms by (auto simp: PhaseReference_def bindE_Inr_iff split: if_splits)
  with PhaseReference_ok [of dabmode one] assms
  show "length (pr_data p) = pr_carriers p" "\<forall>x \<in> set (pr_data p). \<exists>k. x = phase_convert one k"
    by auto
qed

lemma phase_convert_norm: "cmod (zval (ival (phase_convert fix_one k))) = 16384"
proof -
  have "k mod 4 = 0 \<or> k mod 4 = 1 \<or> k mod 4 = 2 \<or> k mod 4 = 3" by arith
  then show ?thesis
    by (elim disjE) (simp_all add: phase_convert_def ival_def zval_def fix_one_def cmod_def)
qed

section \<open>Properties\<close>

text \<open>
  For a phase reference of the right size and any whole number of data symbols the
  modulator stays within its buffers, sends the reference first, and every further sample is
  the product of the same carrier's previous sample with the data sample.
\<close>

lemma differential_recurrence:
  assumes "length phase = carriers" and "length ins = m * carriers" and "4 dvd carriers"
    and "0 < carriers" and "l < m" and "j < carriers"
  shows "\<exists>out. dm_process mul carriers [phase, ins] = Inr out \<and> length out = Suc m * carriers \<and>
     take carriers out = phase \<and>
     out ! (Suc l * carriers + j) = mul (out ! (l * carriers + j)) (ins ! (l * carriers + j))"
  using dm_process_spec [OF assms(1-4), of mul] dm_spec_nth [OF assms(1,2,5,6), of mul]
    dm_spec_length [OF assms(1,2), of mul] assms(1)
  by simp

text \<open>
  C6. In fixed point the frame of any mode is modulated without overflow: with the phase
  reference and QPSK samples as input, the 16-bit products and sums are the ones of unbounded
  integers, for up to 8191 symbols (a frame has at most 153), although each product rounds.
\<close>

theorem fixed_modulation_never_overflows:
  assumes "PhaseReference fix_one dabmode = Inr p"
    and "set ins \<subseteq> {fix_v, - fix_v} \<times> {fix_v, - fix_v}"
    and "length ins = m * pr_carriers p" and "m \<le> 8191"
  shows "\<exists>out. dm_process fix_cmul (pr_carriers p) [phase_process p, ins] = Inr out \<and>
     dm_process exact_cmul (pr_carriers p) [map ival (phase_process p), map ival ins] =
       Inr (map ival out)"
proof -
  have phase: "phase_process p = pr_data p"
    using PhaseReference_data(1) [OF assms(1)] by (simp add: phase_process_def)
  have c: "4 dvd pr_carriers p" "0 < pr_carriers p" using PhaseReference_carriers [OF assms(1)] by simp_all
  have len: "length (pr_data p) = pr_carriers p" by (rule PhaseReference_data(1) [OF assms(1)])
  have r: "\<forall>z \<in> set (pr_data p). cmod (zval (ival z)) \<le> 16384"
    using PhaseReference_data(2) [OF assms(1)] phase_convert_norm by fastforce
  have d: "\<forall>q \<in> set ins. is_data (ival q)"
    using assms(2) by (auto simp: is_data_def ival_def fix_v_def)
  have "map ival (dm_spec fix_cmul (pr_carriers p) (pr_data p) ins m) =
      dm_spec exact_cmul (pr_carriers p) (map ival (pr_data p)) (map ival ins) m"
    by (rule dm_spec_exact [OF r d len assms(3)]) (use assms(4) in simp)
  moreover have "dm_process fix_cmul (pr_carriers p) [pr_data p, ins] =
      Inr (pr_data p @ dm_spec fix_cmul (pr_carriers p) (pr_data p) ins m)"
    by (rule dm_process_spec [OF len assms(3) c])
  moreover have "dm_process exact_cmul (pr_carriers p) [map ival (pr_data p), map ival ins] =
      Inr (map ival (pr_data p) @ dm_spec exact_cmul (pr_carriers p) (map ival (pr_data p)) (map ival ins) m)"
    by (rule dm_process_spec) (use len assms(3) c in simp_all)
  ultimately show ?thesis unfolding phase by simp
qed

lemma differential_recurrence_witness:
  "\<exists>out. dm_process ((*) :: int \<Rightarrow> int \<Rightarrow> int) 4 [[1, 2, 3, 4], [5, 6, 7, 8]] = Inr out \<and>
     out ! 5 = out ! 1 * 6"
  using differential_recurrence [of "[1, 2, 3, 4]" 4 "[5, 6, 7, 8]" 1 0 1 "(*) :: int \<Rightarrow> int \<Rightarrow> int"]
  by auto

theorem fixed_modulation_never_overflows_witness:
  "\<exists>p out. PhaseReference fix_one 3 = Inr p \<and> pr_carriers p = 192 \<and>
     dm_process fix_cmul 192 [phase_process p, replicate (3 * 192) (fix_v, - fix_v)] = Inr out \<and>
     dm_process exact_cmul 192
       [map ival (phase_process p), map ival (replicate (3 * 192) (fix_v, - fix_v))] = Inr (map ival out)"
proof -
  obtain p where p: "PhaseReference fix_one 3 = Inr p" using PhaseReference_ok [of 3 fix_one] by auto
  then have c: "pr_carriers p = 192" by (auto simp: PhaseReference_def bindE_Inr_iff)
  show ?thesis
    using fixed_modulation_never_overflows [OF p, of "replicate (3 * 192) (fix_v, - fix_v)" 3] p c
    by (auto simp del: replicate_Suc)
qed

end
