(* ===== verification/Byte_Buffer.thy ===== *)
theory Byte_Buffer
  imports Prelude
begin

text \<open>
  The byte container every block of the program exchanges, \<open>src/Buffer.h\<close> and
  \<open>src/Buffer.cpp\<close>. The memory that \<open>posix_memalign\<close> hands out is a parameter: \<open>alloc n\<close> is
  None when the allocation fails and otherwise the \<open>n\<close> bytes, of unknown content, of the new
  block. Pointers to the data are the byte list of the block, None for the null pointer.
\<close>

section \<open>The container\<close>

record buffer =
  m_len :: nat
  m_capacity :: nat
  m_data :: "bytes option"

definition empty_buffer :: buffer where
  "empty_buffer = \<lparr>m_len = 0, m_capacity = 0, m_data = None\<rparr>"

definition getLength :: "buffer \<Rightarrow> nat" where
  "getLength b = m_len b"

definition mem :: "buffer \<Rightarrow> bytes" where
  "mem b = (case m_data b of None \<Rightarrow> [] | Some bs \<Rightarrow> bs)"

definition contents :: "buffer \<Rightarrow> bytes" where
  "contents b = take (m_len b) (mem b)"

definition wf_buffer :: "buffer \<Rightarrow> bool" where
  "wf_buffer b = (m_len b \<le> m_capacity b \<and> length (mem b) = m_capacity b)"

definition setLength :: "(nat \<Rightarrow> bytes option) \<Rightarrow> buffer \<Rightarrow> nat \<Rightarrow> buffer result" where
  "setLength alloc b len =
     (if len > m_capacity b then
        (case alloc len of
           None \<Rightarrow> Inl (RuntimeError ''memory allocation failed: '')
         | Some fresh \<Rightarrow>
             bindE (case m_data b of
                      None \<Rightarrow> Inr fresh
                    | Some tmp \<Rightarrow> bindE (memread tmp 0 (m_len b)) (memcpy fresh 0))
               (\<lambda>d. Inr \<lparr>m_len = len, m_capacity = len, m_data = Some d\<rparr>))
      else Inr (b\<lparr>m_len := len\<rparr>))"

definition appendData ::
    "(nat \<Rightarrow> bytes option) \<Rightarrow> buffer \<Rightarrow> bytes option \<Rightarrow> nat \<Rightarrow> buffer result" where
  "appendData alloc b data len =
     (let offset = m_len b in
      bindE (setLength alloc b (m_len b + len))
        (\<lambda>b'. case data of
                None \<Rightarrow> Inr b'
              | Some d \<Rightarrow>
                  bindE (memread d 0 len) (\<lambda>s.
                  bindE (memcpy (mem b') offset s) (\<lambda>m.
                  Inr (if len = 0 then b' else b'\<lparr>m_data := Some m\<rparr>)))))"

definition setData ::
    "(nat \<Rightarrow> bytes option) \<Rightarrow> buffer \<Rightarrow> bytes option \<Rightarrow> nat \<Rightarrow> buffer result" where
  "setData alloc b data len =
     bindE (setLength alloc b 0) (\<lambda>b'. appendData alloc b' data len)"

definition Buffer_data :: "(nat \<Rightarrow> bytes option) \<Rightarrow> nat \<Rightarrow> bytes option \<Rightarrow> buffer result" where
  "Buffer_data alloc len data = setData alloc empty_buffer data len"

definition Buffer_vec :: "(nat \<Rightarrow> bytes option) \<Rightarrow> bytes \<Rightarrow> buffer result" where
  "Buffer_vec alloc vec = setData alloc empty_buffer (Some vec) (length vec)"

text \<open>Move construction and move assignment return the new object and the emptied source.\<close>

definition Buffer_move :: "buffer \<Rightarrow> buffer \<times> buffer" where
  "Buffer_move other =
     (\<lparr>m_len = m_len other, m_capacity = m_capacity other, m_data = m_data other\<rparr>, empty_buffer)"

definition assign_move :: "buffer \<Rightarrow> buffer \<Rightarrow> buffer \<times> buffer" where
  "assign_move this other = Buffer_move other"

definition assign_copy :: "(nat \<Rightarrow> bytes option) \<Rightarrow> buffer \<Rightarrow> buffer \<Rightarrow> buffer result" where
  "assign_copy alloc this other = setData alloc this (m_data other) (m_len other)"

definition assign_vec :: "(nat \<Rightarrow> bytes option) \<Rightarrow> buffer \<Rightarrow> bytes \<Rightarrow> buffer result" where
  "assign_vec alloc this buf = setData alloc this (Some buf) (length buf)"

definition append_buffer :: "(nat \<Rightarrow> bytes option) \<Rightarrow> buffer \<Rightarrow> buffer \<Rightarrow> buffer result" where
  "append_buffer alloc this other = appendData alloc this (m_data other) (m_len other)"

definition swap_buffer :: "buffer \<Rightarrow> buffer \<Rightarrow> buffer \<times> buffer" where
  "swap_buffer this other = (other, this)"

definition index :: "buffer \<Rightarrow> nat \<Rightarrow> u8 result" where
  "index b i = (if i \<ge> m_len b then Inl (OutOfRange ''index out of range'') else rd (mem b) i)"

section \<open>The allocator\<close>

definition alloc_ok :: "(nat \<Rightarrow> bytes option) \<Rightarrow> bool" where
  "alloc_ok alloc = (\<forall>n. case alloc n of None \<Rightarrow> True | Some m \<Rightarrow> length m = n)"

definition never_fails :: "(nat \<Rightarrow> bytes option) \<Rightarrow> bool" where
  "never_fails alloc = (\<forall>n. \<exists>m. alloc n = Some m \<and> length m = n)"

lemma alloc_okD: "alloc_ok alloc \<Longrightarrow> alloc n = Some m \<Longrightarrow> length m = n"
  unfolding alloc_ok_def by (drule spec [of _ n]) simp

lemma never_fails_ok: "never_fails alloc \<Longrightarrow> alloc_ok alloc"
  unfolding never_fails_def alloc_ok_def
proof
  fix n assume "\<forall>n. \<exists>m. alloc n = Some m \<and> length m = n"
  then obtain m where "alloc n = Some m" "length m = n" by blast
  then show "case alloc n of None \<Rightarrow> True | Some m \<Rightarrow> length m = n" by simp
qed

lemma wf_empty_buffer [simp]: "wf_buffer empty_buffer"
  by (simp add: wf_buffer_def empty_buffer_def mem_def)

lemma wf_mem_length: "wf_buffer b \<Longrightarrow> length (mem b) = m_capacity b"
  by (simp add: wf_buffer_def)

lemma length_contents: "wf_buffer b \<Longrightarrow> length (contents b) = m_len b"
  by (simp add: contents_def wf_buffer_def)

section \<open>Every operation keeps the container well formed\<close>

lemma setLength_ok:
  assumes "wf_buffer b" "never_fails alloc"
  shows "\<exists>b'. setLength alloc b len = Inr b' \<and> wf_buffer b' \<and> m_len b' = len \<and>
     m_capacity b' = max len (m_capacity b) \<and>
     take (min len (m_len b)) (mem b') = take (min len (m_len b)) (mem b)"
proof (cases "len > m_capacity b")
  case True
  obtain fresh where f: "alloc len = Some fresh" "length fresh = len"
    using assms(2) by (auto simp: never_fails_def)
  show ?thesis
    using True f assms(1)
    by (cases "m_data b") (auto simp: setLength_def wf_buffer_def mem_def memcpy_def min_def)
next
  case False
  with assms(1) show ?thesis by (auto simp: setLength_def wf_buffer_def mem_def)
qed

lemma setLength_wf:
  assumes "wf_buffer b" "alloc_ok alloc" "setLength alloc b len = Inr b'"
  shows "wf_buffer b'"
proof (cases "len > m_capacity b")
  case True
  with assms(3) obtain fresh where f: "alloc len = Some fresh"
    by (auto simp: setLength_def split: option.splits)
  then have "length fresh = len" by (rule alloc_okD [OF assms(2)])
  with True f assms(1,3) show ?thesis
    by (cases "m_data b")
      (auto simp: setLength_def wf_buffer_def mem_def memcpy_def)
next
  case False
  with assms show ?thesis by (auto simp: setLength_def wf_buffer_def mem_def)
qed

lemma appendData_ok:
  assumes "wf_buffer b" "never_fails alloc"
  shows "\<exists>b'. appendData alloc b (Some d) (length d) = Inr b' \<and> wf_buffer b' \<and>
     contents b' = contents b @ d"
proof -
  obtain b1 where b1: "setLength alloc b (m_len b + length d) = Inr b1" "wf_buffer b1"
      "m_len b1 = m_len b + length d"
      "take (min (m_len b + length d) (m_len b)) (mem b1) =
       take (min (m_len b + length d) (m_len b)) (mem b)"
    using setLength_ok [OF assms, of "m_len b + length d"] by blast
  have le: "m_len b + length d \<le> length (mem b1)" using b1(2,3) by (simp add: wf_buffer_def)
  have pre: "take (m_len b) (mem b1) = contents b" using b1(4) by (simp add: contents_def)
  let ?m = "take (m_len b) (mem b1) @ d @ drop (m_len b + length d) (mem b1)"
  show ?thesis
  proof (cases "d = []")
    case True
    have "take (m_len b) (mem b1) @ drop (m_len b) (mem b1) = mem b1" by simp
    with True b1 pre le show ?thesis
      by (auto simp: appendData_def memcpy_def) (simp add: contents_def)
  next
    case False
    with le have "memcpy (mem b1) (m_len b) d = Inr ?m" by (simp add: memcpy_def)
    with False b1 have "appendData alloc b (Some d) (length d) = Inr (b1\<lparr>m_data := Some ?m\<rparr>)"
      by (simp add: appendData_def Let_def)
    moreover have "wf_buffer (b1\<lparr>m_data := Some ?m\<rparr>)"
      using b1(2) le by (simp add: wf_buffer_def mem_def)
    moreover have "contents (b1\<lparr>m_data := Some ?m\<rparr>) = contents b @ d"
      using b1(3) le pre assms(1) by (simp add: contents_def mem_def wf_buffer_def)
    ultimately show ?thesis by blast
  qed
qed

lemma setData_ok:
  assumes "wf_buffer b" "never_fails alloc"
  shows "\<exists>b'. setData alloc b (Some d) (length d) = Inr b' \<and> wf_buffer b' \<and> contents b' = d"
proof -
  obtain b0 where b0: "setLength alloc b 0 = Inr b0" "wf_buffer b0" "m_len b0 = 0"
    using setLength_ok [OF assms, of 0] by blast
  then have "contents b0 = []" by (simp add: contents_def)
  with appendData_ok [OF b0(2) assms(2), of d] b0(1) show ?thesis by (simp add: setData_def)
qed

text \<open>The bytes of a buffer after \<open>setLength\<close>, for the blocks that write their output in place.\<close>

lemma setLength_contents_length:
  assumes "wf_buffer b" "never_fails alloc" "setLength alloc b len = Inr b'"
  shows "length (contents b') = len"
  using setLength_ok [OF assms(1,2), of len] assms(3) by (auto simp: length_contents)

section \<open>Properties\<close>

text \<open>
  Appending to a well-formed buffer keeps what it held, whatever a reallocation puts
  into the new block, adds exactly the new bytes, and leaves the buffer well formed.
\<close>

lemma buffer_append_contents:
  assumes "wf_buffer b" and "never_fails alloc"
  shows "\<exists>b'. appendData alloc b (Some d) (length d) = Inr b' \<and> wf_buffer b' \<and>
     contents b' = contents b @ d"
  using assms by (rule appendData_ok)

lemma buffer_append_contents_witness:
  "\<exists>b b'. Buffer_vec (\<lambda>n. Some (replicate n 0xaa)) [1, 2] = Inr b \<and>
     appendData (\<lambda>n. Some (replicate n 0xaa)) b (Some [3]) 1 = Inr b' \<and>
     contents b' = [1, 2, 3]"
proof -
  let ?alloc = "\<lambda>n. Some (replicate n 0xaa) :: bytes option"
  let ?b = "\<lparr>m_len = 2, m_capacity = 2, m_data = Some [1, 2]\<rparr> :: buffer"
  have b: "Buffer_vec ?alloc [1, 2] = Inr ?b"
    by (simp add: Buffer_vec_def setData_def appendData_def setLength_def empty_buffer_def
        memread_def memcpy_def mem_def)
  have c: "wf_buffer ?b" "contents ?b = [1, 2]" "never_fails ?alloc"
    by (simp_all add: wf_buffer_def contents_def mem_def never_fails_def)
  from buffer_append_contents [OF c(1,3), of "[3]"] b c(2) show ?thesis by auto
qed

end
