(* ===== verification/Conv_Encoder.thy ===== *)
theory Conv_Encoder
  imports Prelude
begin

text \<open>
  The convolutional encoder of rate 1/4 and constraint length 7, \<open>src/ConvEncoder.cpp\<close>.
  The lemmas follow the 16-bit shift register bit by bit and show that the bytes the
  encoder writes are the mother code of EN 300 401 clause 11.1, its six tail bits included.
\<close>

section \<open>The encoder\<close>

definition PARITY :: "u8 list" where
  "PARITY =
     [0, 1, 1, 0, 1, 0, 0, 1, 1, 0, 0, 1, 0, 1, 1, 0,
      1, 0, 0, 1, 0, 1, 1, 0, 0, 1, 1, 0, 1, 0, 0, 1,
      1, 0, 0, 1, 0, 1, 1, 0, 0, 1, 1, 0, 1, 0, 0, 1,
      0, 1, 1, 0, 1, 0, 0, 1, 1, 0, 0, 1, 0, 1, 1, 0,
      1, 0, 0, 1, 0, 1, 1, 0, 0, 1, 1, 0, 1, 0, 0, 1,
      0, 1, 1, 0, 1, 0, 0, 1, 1, 0, 0, 1, 0, 1, 1, 0,
      0, 1, 1, 0, 1, 0, 0, 1, 1, 0, 0, 1, 0, 1, 1, 0,
      1, 0, 0, 1, 0, 1, 1, 0, 0, 1, 1, 0, 1, 0, 0, 1,
      1, 0, 0, 1, 0, 1, 1, 0, 0, 1, 1, 0, 1, 0, 0, 1,
      0, 1, 1, 0, 1, 0, 0, 1, 1, 0, 0, 1, 0, 1, 1, 0,
      0, 1, 1, 0, 1, 0, 0, 1, 1, 0, 0, 1, 0, 1, 1, 0,
      1, 0, 0, 1, 0, 1, 1, 0, 0, 1, 1, 0, 1, 0, 0, 1,
      0, 1, 1, 0, 1, 0, 0, 1, 1, 0, 0, 1, 0, 1, 1, 0,
      1, 0, 0, 1, 0, 1, 1, 0, 0, 1, 1, 0, 1, 0, 0, 1,
      1, 0, 0, 1, 0, 1, 1, 0, 0, 1, 1, 0, 1, 0, 0, 1,
      0, 1, 1, 0, 1, 0, 0, 1, 1, 0, 0, 1, 0, 1, 1, 0]"

definition conv_polys :: "u16 list" where
  "conv_polys = [0x5b, 0x79, 0x65, 0x5b]"

text \<open>The inner loop over \<open>k\<close>: four output bits from the register.\<close>

definition conv_nibble :: "u16 \<Rightarrow> u8 \<Rightarrow> u8" where
  "conv_nibble memory out =
     foldl (\<lambda>out poly. shift_in out (PARITY ! unat (ucast (memory AND poly) :: u8))) out conv_polys"

text \<open>One round of the loop over \<open>j\<close>: the next data bit enters the register at bit 6.\<close>

fun conv_data_bit :: "u16 \<times> u8 \<times> u8 \<Rightarrow> u16 \<times> u8 \<times> u8" where
  "conv_data_bit (memory, data, out) =
     (let memory' = shr memory 1 OR ucast (shl (ucast (shr data 7)) 6 :: u32)
      in (memory', shl data 1, conv_nibble memory' out))"

fun conv_pad_bit :: "u16 \<times> u8 \<Rightarrow> u16 \<times> u8" where
  "conv_pad_bit (memory, out) = (let memory' = shr memory 1 in (memory', conv_nibble memory' out))"

fun conv_data_byte :: "nat \<Rightarrow> u16 \<times> u8 \<Rightarrow> bytes \<times> u16" where
  "conv_data_byte 0 (memory, data) = ([], memory)"
| "conv_data_byte (Suc n) (memory, data) =
     (let (memory', data', out) = conv_data_bit (conv_data_bit (memory, data, 0));
          (bs, memory'') = conv_data_byte n (memory', data')
      in (out # bs, memory''))"

fun conv_data :: "u16 \<Rightarrow> bytes \<Rightarrow> bytes \<times> u16" where
  "conv_data memory [] = ([], memory)"
| "conv_data memory (d # ds) =
     (let (bs, memory') = conv_data_byte 4 (memory, d);
          (bs', memory'') = conv_data memory' ds
      in (bs @ bs', memory''))"

fun conv_tail :: "nat \<Rightarrow> u16 \<Rightarrow> bytes \<times> u16" where
  "conv_tail 0 memory = ([], memory)"
| "conv_tail (Suc n) memory =
     (let (memory', out) = conv_pad_bit (conv_pad_bit (memory, 0));
          (bs, memory'') = conv_tail n memory'
      in (out # bs, memory''))"

text \<open>
  The outer loop runs while a whole block of input and of output space is left; its state
  is the input offset, the register and the bytes written so far.
\<close>

fun conv_guard :: "nat \<Rightarrow> nat \<Rightarrow> nat \<Rightarrow> nat \<Rightarrow> nat \<times> u16 \<times> bytes \<Rightarrow> bool" where
  "conv_guard in_len out_len in_block out_block (in_offset, memory, out) =
     (in_len - in_offset \<ge> in_block \<and> out_len - length out \<ge> out_block)"

fun conv_body :: "bytes \<Rightarrow> nat \<Rightarrow> nat \<times> u16 \<times> bytes \<Rightarrow> nat \<times> u16 \<times> bytes" where
  "conv_body dataIn in_block (in_offset, memory, out) =
     (let (bs, memory') = conv_data memory (take in_block (drop in_offset dataIn));
          (bs', memory'') = conv_tail 3 memory'
      in (in_offset + in_block, memory'', out @ bs @ bs'))"

definition conv_process :: "nat \<Rightarrow> bytes \<Rightarrow> bytes result" where
  "conv_process d_framesize dataIn =
     (let in_block_size = d_framesize;
          out_block_size = d_framesize * 4 + 3
      in if length dataIn \<noteq> in_block_size
         then Inl (RuntimeError ''ConvEncoder::process input size not valid!'')
         else
           (let (in_offset, memory, out) =
                  while (conv_guard (length dataIn) out_block_size in_block_size out_block_size)
                    (conv_body dataIn in_block_size) (0, 0, [])
            in if length out \<noteq> out_block_size
               then Inl (RuntimeError ''Assertion error: ConvEncoder output '')
               else Inr out))"

section \<open>Sizes\<close>

lemma conv_data_byte_length: "length (fst (conv_data_byte n s)) = n"
  by (induction n s rule: conv_data_byte.induct) (auto simp: case_prod_unfold Let_def)

lemma conv_data_length: "length (fst (conv_data memory ds)) = 4 * length ds"
  by (induction ds arbitrary: memory)
    (simp_all add: case_prod_unfold Let_def conv_data_byte_length)

lemma conv_tail_length: "length (fst (conv_tail n memory)) = n"
  by (induction n arbitrary: memory) (simp_all add: case_prod_unfold Let_def)

text \<open>The outer loop runs exactly once.\<close>

lemma conv_process_eq:
  "conv_process fs dataIn =
     (if length dataIn \<noteq> fs then Inl (RuntimeError ''ConvEncoder::process input size not valid!'')
      else Inr (fst (conv_data 0 dataIn) @ fst (conv_tail 3 (snd (conv_data 0 dataIn)))))"
proof (cases "length dataIn = fs")
  case True
  let ?out = "fst (conv_data 0 dataIn) @ fst (conv_tail 3 (snd (conv_data 0 dataIn)))"
  have len: "length ?out = fs * 4 + 3"
    using True by (simp add: conv_data_length conv_tail_length)
  have body: "conv_body dataIn fs (0, 0, []) =
      (fs, snd (conv_tail 3 (snd (conv_data 0 dataIn))), ?out)"
    using True by (simp add: case_prod_unfold Let_def)
  have "while (conv_guard (length dataIn) (fs * 4 + 3) fs (fs * 4 + 3)) (conv_body dataIn fs) (0, 0, []) =
      (fs, snd (conv_tail 3 (snd (conv_data 0 dataIn))), ?out)"
    using True len
    by (subst while_unfold, simp only: body conv_guard.simps) (simp add: while_unfold)
  with True len show ?thesis by (simp add: conv_process_def)
next
  case False
  then show ?thesis by (simp add: conv_process_def)
qed

section \<open>The register as a history of bits\<close>

text \<open>
  The register holds the newest bit at position 6 and the bit of six steps before at
  position 0; \<open>history m h\<close> reads it as the list \<open>h\<close>, newest bit first.
\<close>

definition history :: "u16 \<Rightarrow> bool list \<Rightarrow> bool" where
  "history m h = (length h = 7 \<and> (\<forall>n. bit m n = (n < 7 \<and> h ! (6 - n))))"

definition push_hist :: "bool \<Rightarrow> bool list \<Rightarrow> bool list" where
  "push_hist b h = b # butlast h"

definition taps :: "(nat \<Rightarrow> bool) \<Rightarrow> bool list" where
  "taps a =
     (let x0 = (a 0 \<noteq> (a 2 \<noteq> (a 3 \<noteq> (a 5 \<noteq> a 6))));
          x1 = (a 0 \<noteq> (a 1 \<noteq> (a 2 \<noteq> (a 3 \<noteq> a 6))));
          x2 = (a 0 \<noteq> (a 1 \<noteq> (a 4 \<noteq> a 6)))
      in [x0, x1, x2, x0])"

fun enc :: "bool list \<Rightarrow> bool list \<Rightarrow> bool list" where
  "enc h [] = []"
| "enc h (b # bs) = (let h' = push_hist b h in taps ((!) h') @ enc h' bs)"

fun shift_hist :: "bool list \<Rightarrow> bool list \<Rightarrow> bool list" where
  "shift_hist h [] = h"
| "shift_hist h (b # bs) = shift_hist (push_hist b h) bs"

lemma enc_append: "enc h (xs @ ys) = enc h xs @ enc (shift_hist h xs) ys"
  by (induction xs arbitrary: h) (simp_all add: Let_def)

lemma shift_hist_append: "shift_hist h (xs @ ys) = shift_hist (shift_hist h xs) ys"
  by (induction xs arbitrary: h) simp_all

definition parity8 :: "u8 \<Rightarrow> bool" where
  "parity8 b = foldr (\<noteq>) (byte_bits b) False"

lemma PARITY_table: "table_from (\<lambda>b. if parity8 b then 1 else 0) 0 PARITY"
  by (simp add: PARITY_def parity8_def byte_bits_unfold)

lemma PARITY_nth: "PARITY ! unat b = (if parity8 b then 1 else 0)"
  by (rule table_nth_unat [OF PARITY_table]) (simp add: PARITY_def)

lemma length_taps [simp]: "length (taps a) = 4"
  by (simp add: taps_def Let_def)

lemma parity8_taps:
  assumes "history m h"
  shows "parity8 (ucast (m AND 0x5b)) = taps ((!) h) ! 0"
    and "parity8 (ucast (m AND 0x79)) = taps ((!) h) ! 1"
    and "parity8 (ucast (m AND 0x65)) = taps ((!) h) ! 2"
proof -
  have b: "bit m 6 = h ! 0" "bit m 5 = h ! 1" "bit m 4 = h ! 2" "bit m 3 = h ! 3"
      "bit m 2 = h ! 4" "bit m (Suc 0) = h ! 5" "bit m 0 = h ! 6"
    using assms by (simp_all add: history_def)
  show "parity8 (ucast (m AND 0x5b)) = taps ((!) h) ! 0"
    "parity8 (ucast (m AND 0x79)) = taps ((!) h) ! 1"
    "parity8 (ucast (m AND 0x65)) = taps ((!) h) ! 2"
    by (auto simp: parity8_def byte_bits_unfold bit_ucast_iff bit_and_iff b taps_def Let_def)
qed

lemma conv_nibble_bits:
  assumes "history m h"
  shows "byte_bits (conv_nibble m out) = drop 4 (byte_bits out) @ taps ((!) h)"
proof -
  have bit: "is_bit (if p then 1 else 0)" for p by (simp add: is_bit_def)
  have t: "taps ((!) h) = [taps ((!) h) ! 0, taps ((!) h) ! 1, taps ((!) h) ! 2, taps ((!) h) ! 0]"
    by (simp add: taps_def Let_def)
  show ?thesis
    by (subst t, simp add: conv_nibble_def conv_polys_def PARITY_nth parity8_taps [OF assms]
        byte_bits_shift_in [OF bit]) (simp add: byte_bits_unfold bit_1_iff)
qed

lemma history_nth: "history m h \<Longrightarrow> bit m n = (n < 7 \<and> h ! (6 - n))"
  by (simp add: history_def)

lemma history_length: "history m h \<Longrightarrow> length h = 7"
  by (simp add: history_def)

lemma push_hist_nth:
  "length h = 7 \<Longrightarrow> i < 7 \<Longrightarrow> push_hist b h ! i = (if i = 0 then b else h ! (i - 1))"
  by (cases i) (auto simp: push_hist_def nth_butlast)

lemma push_hist_length [simp]: "length h = 7 \<Longrightarrow> length (push_hist b h) = 7"
  by (simp add: push_hist_def)

lemma history_shift:
  assumes "history m h"
  shows "history (shr m 1 OR ucast (shl (ucast (shr d 7)) 6 :: u32)) (push_hist (bit (d :: u8) 7) h)"
    and "history (shr m 1) (push_hist False h)"
proof -
  have len: "length h = 7" using assms by (rule history_length)
  have d: "\<not> bit d n" if "8 \<le> n" for n using bit_imp_le_length [of d n] that by auto
  have m: "bit m (Suc n) = (n < 6 \<and> h ! (5 - n))" for n
    using history_nth [OF assms, of "Suc n"] by auto
  have in6: "bit (ucast (shl (ucast (shr d 7)) 6 :: u32) :: u16) n = (n = 6 \<and> bit d 7)" for n
    using d by (cases "n = 6") (auto simp: bit_ucast_iff)
  have p: "push_hist x h ! (6 - n) = (if n < 6 then h ! (5 - n) else x)" if "n < 7" for n x
  proof (cases "n < 6")
    case True
    then have "6 - n - 1 = 5 - n" "6 - n \<noteq> 0" by simp_all
    with True len show ?thesis by (simp only: push_hist_nth [OF len, of "6 - n" x]) simp
  next
    case False
    with that have "n = 6" by simp
    with len show ?thesis by (simp add: push_hist_nth)
  qed
  have *: "bit (shr m 1 OR ucast (shl (ucast (shr d 7)) 6 :: u32)) n =
      (n < 7 \<and> push_hist (bit d 7) h ! (6 - n))" for n
    unfolding bit_or_iff in6 bit_shr
    using m [of n] p [of n "bit d 7"] by (cases "n < 6"; cases "n = 6") simp_all
  have **: "bit (shr m 1) n = (n < 7 \<and> push_hist False h ! (6 - n))" for n
    unfolding bit_shr using m [of n] p [of n False] by (cases "n < 6"; cases "n = 6") simp_all
  show "history (shr m 1 OR ucast (shl (ucast (shr d 7)) 6 :: u32)) (push_hist (bit d 7) h)"
    unfolding history_def using len * by simp
  show "history (shr m 1) (push_hist False h)"
    unfolding history_def using len ** by simp
qed

lemma bytes_of_two_nibbles:
  assumes "history m h" and "history m' h'"
  shows "byte_bits (conv_nibble m' (conv_nibble m 0)) = taps ((!) h) @ taps ((!) h')"
  by (simp add: conv_nibble_bits [OF assms(2)] conv_nibble_bits [OF assms(1)])

lemma conv_data_byte_bits:
  assumes "history m h" and "2 * n \<le> 8"
  shows "bits_of (fst (conv_data_byte n (m, d))) = enc h (take (2 * n) (byte_bits d)) \<and>
         history (snd (conv_data_byte n (m, d))) (shift_hist h (take (2 * n) (byte_bits d)))"
  using assms
proof (induction n arbitrary: m d h)
  case 0
  then show ?case by simp
next
  case (Suc n)
  let ?in = "\<lambda>m d. shr m 1 OR ucast (shl (ucast (shr d 7)) 6 :: u32)"
  let ?d1 = "shl d 1" and ?d2 = "shl (shl d 1) 1"
  let ?m1 = "?in m d" let ?m2 = "?in ?m1 ?d1"
  let ?h1 = "push_hist (bit d 7) h" let ?h2 = "push_hist (bit d 6) ?h1"
  have h1: "history ?m1 ?h1" using Suc.prems(1) by (rule history_shift)
  have h2: "history ?m2 ?h2" using history_shift(1) [OF h1, of ?d1] by simp
  have IH: "bits_of (fst (conv_data_byte n (?m2, ?d2))) = enc ?h2 (take (2 * n) (byte_bits ?d2)) \<and>
      history (snd (conv_data_byte n (?m2, ?d2))) (shift_hist ?h2 (take (2 * n) (byte_bits ?d2)))"
    using Suc.prems by (intro Suc.IH [OF h2]) simp
  have tk: "take (2 * n) (byte_bits ?d2) = take (2 * n) (drop 2 (byte_bits d))"
  proof -
    have "n \<le> 3" using Suc.prems(2) by simp
    then have "n = 0 \<or> n = 1 \<or> n = 2 \<or> n = 3" by arith
    then show ?thesis by (auto simp: byte_bits_unfold)
  qed
  have split: "take (2 * Suc n) (byte_bits d) = bit d 7 # bit d 6 # take (2 * n) (drop 2 (byte_bits d))"
    by (simp add: byte_bits_unfold)
  show ?case
    unfolding split tk [symmetric]
    using IH bytes_of_two_nibbles [OF h1 h2] by (simp add: case_prod_unfold Let_def)
qed

lemma conv_data_bits:
  "history m h \<Longrightarrow>
   bits_of (fst (conv_data m ds)) = enc h (bits_of ds) \<and>
   history (snd (conv_data m ds)) (shift_hist h (bits_of ds))"
proof (induction ds arbitrary: m h)
  case Nil
  then show ?case by simp
next
  case (Cons d ds)
  from conv_data_byte_bits [OF Cons.prems, of 4 d] have
    "bits_of (fst (conv_data_byte 4 (m, d))) = enc h (byte_bits d)"
    and h: "history (snd (conv_data_byte 4 (m, d))) (shift_hist h (byte_bits d))" by simp_all
  with Cons.IH [OF h] show ?case
    by (simp add: case_prod_unfold Let_def enc_append shift_hist_append)
qed

lemma conv_tail_bits:
  "history m h \<Longrightarrow>
   bits_of (fst (conv_tail n m)) = enc h (replicate (2 * n) False) \<and>
   history (snd (conv_tail n m)) (shift_hist h (replicate (2 * n) False))"
proof (induction n arbitrary: m h)
  case 0
  then show ?case by simp
next
  case (Suc n)
  have h1: "history (shr m 1) (push_hist False h)" using Suc.prems by (rule history_shift)
  have h2: "history (shr (shr m 1) 1) (push_hist False (push_hist False h))"
    using h1 by (rule history_shift)
  from Suc.IH [OF h2] show ?case
    using bytes_of_two_nibbles [OF h1 h2] by (simp add: case_prod_unfold Let_def)
qed

text \<open>The bits of a whole frame, from the all-zero register.\<close>

lemma history_0: "history 0 (replicate 7 False)"
  by (simp add: history_def nth_replicate)

lemma conv_process_bits:
  assumes "length ds = fs"
  shows "\<exists>out. conv_process fs ds = Inr out \<and>
     bits_of out = enc (replicate 7 False) (bits_of ds @ replicate 6 False)"
proof -
  from conv_data_bits [OF history_0, of ds] have
    1: "bits_of (fst (conv_data 0 ds)) = enc (replicate 7 False) (bits_of ds)"
    and h: "history (snd (conv_data 0 ds)) (shift_hist (replicate 7 False) (bits_of ds))" by simp_all
  from conv_tail_bits [OF h, of 3] 1 show ?thesis
    using assms by (simp add: conv_process_eq enc_append)
qed

section \<open>The register formulation and the convolution formula\<close>

text \<open>Bit \<open>t - d\<close> of the input, zero before the first one.\<close>

definition past :: "bool list \<Rightarrow> nat \<Rightarrow> nat \<Rightarrow> bool" where
  "past bs t d = (d \<le> t \<and> bs ! (t - d))"

lemma taps_cong: "(\<And>i. i < 7 \<Longrightarrow> a i = b i) \<Longrightarrow> taps a = taps b"
  by (simp add: taps_def)

lemma enc_nth:
  assumes "t < length bs" and "length h = 7"
  shows "take 4 (drop (4 * t) (enc h bs)) =
         taps (\<lambda>d. if d \<le> t then bs ! (t - d) else h ! (d - t - 1))"
  using assms
proof (induction bs arbitrary: h t)
  case Nil
  then show ?case by simp
next
  case (Cons b bs)
  show ?case
  proof (cases t)
    case 0
    have "taps ((!) (push_hist b h)) = taps (\<lambda>d. if d \<le> 0 then (b # bs) ! (0 - d) else h ! (d - 0 - 1))"
      by (rule taps_cong) (use Cons.prems in \<open>auto simp: push_hist_nth\<close>)
    with 0 show ?thesis by (simp add: Let_def)
  next
    case (Suc t')
    have "take 4 (drop (4 * t') (enc (push_hist b h) bs)) =
        taps (\<lambda>d. if d \<le> t' then bs ! (t' - d) else (push_hist b h) ! (d - t' - 1))"
      using Cons.prems Suc by (intro Cons.IH) auto
    also have "\<dots> = taps (\<lambda>d. if d \<le> t then (b # bs) ! (t - d) else h ! (d - t - 1))"
    proof (rule taps_cong)
      fix d :: nat assume d: "d < 7"
      show "(if d \<le> t' then bs ! (t' - d) else (push_hist b h) ! (d - t' - 1)) =
          (if d \<le> t then (b # bs) ! (t - d) else h ! (d - t - 1))"
      proof (cases "d \<le> t'")
        case True
        with Suc show ?thesis by (simp add: Suc_diff_le)
      next
        case False
        with Suc d Cons.prems show ?thesis
          by (auto simp: push_hist_nth)
      qed
    qed
    finally show ?thesis using Suc by (simp add: Let_def)
  qed
qed

lemma enc_zero_nth:
  assumes "t < length bs"
  shows "take 4 (drop (4 * t) (enc (replicate 7 False) bs)) = taps (past bs t)"
  unfolding enc_nth [OF assms length_replicate]
  by (rule taps_cong) (auto simp: past_def nth_replicate)

lemma shift_hist_zeros:
  "length h = 7 \<Longrightarrow> n \<le> 6 \<Longrightarrow> shift_hist h (replicate n False) = replicate n False @ take (7 - n) h"
proof (induction n)
  case 0
  then show ?case by simp
next
  case (Suc n)
  have "shift_hist h (replicate (Suc n) False) = push_hist False (shift_hist h (replicate n False))"
    using shift_hist_append [of h "replicate n False" "[False]"]
    by (simp add: replicate_append_same)
  also have "\<dots> = push_hist False (replicate n False @ take (7 - n) h)"
    using Suc by simp
  also have "\<dots> = replicate (Suc n) False @ take (7 - Suc n) h"
    using Suc.prems by (simp add: push_hist_def butlast_append butlast_take)
      (auto)
  finally show ?case .
qed

section \<open>Properties\<close>

text \<open>
  C3. Encoding a frame of the configured size succeeds, and the four output bits of each
  time step \<open>t\<close> are the four modulo-two sums of the input bits \<open>t\<close> to \<open>t - 6\<close> that EN 300 401
  clause 11.1 prescribes (octal generators 133, 171, 145, 133), over the frame's bits
  followed by six zero tail bits.
\<close>

theorem conv_process_mother_code:
  assumes "length ds = framesize" and "t < 8 * framesize + 6"
  shows "\<exists>out. conv_process framesize ds = Inr out \<and> length out = 4 * framesize + 3 \<and>
     take 4 (drop (4 * t) (bits_of out)) = taps (past (bits_of ds @ replicate 6 False) t)"
proof -
  obtain out where out: "conv_process framesize ds = Inr out"
      "bits_of out = enc (replicate 7 False) (bits_of ds @ replicate 6 False)"
    using conv_process_bits [OF assms(1)] by blast
  moreover have "length out = 4 * framesize + 3"
    using out(1) assms(1) by (auto simp: conv_process_eq conv_data_length conv_tail_length)
  ultimately show ?thesis using assms by (simp add: enc_zero_nth)
qed

text \<open>
  The six tail bits bring the register back to a state with only the oldest position
  possibly set, so no information bit of the frame stays unprotected: the register after
  the frame depends on the last information bit alone.
\<close>

lemma conv_tail_flushes_register:
  "history (snd (conv_tail 3 (snd (conv_data 0 ds))))
     (replicate 6 False @ take 1 (shift_hist (replicate 7 False) (bits_of ds)))"
proof -
  let ?h = "shift_hist (replicate 7 False) (bits_of ds)"
  have h: "history (snd (conv_data 0 ds)) ?h"
    using conv_data_bits [OF history_0, of ds] by simp
  then have "length ?h = 7" by (rule history_length)
  with conv_tail_bits [OF h, of 3] shift_hist_zeros [of ?h 6] show ?thesis by simp
qed

text \<open>
  A buffer of any other size is refused with the encoder's size exception, and nothing
  is encoded.
\<close>

lemma conv_process_wrong_size:
  "conv_process framesize ds = Inl e \<longleftrightarrow>
   length ds \<noteq> framesize \<and> e = RuntimeError ''ConvEncoder::process input size not valid!''"
  by (auto simp: conv_process_eq)

theorem conv_process_mother_code_witness:
  "\<exists>out. conv_process 1 [0x80] = Inr out \<and> length out = 7 \<and>
     take 4 (bits_of out) = [True, True, True, True] \<and>
     take 4 (drop (4 * 6) (bits_of out)) = [True, True, True, True]"
proof -
  have b: "bits_of [0x80] = [True, False, False, False, False, False, False, False]"
    by (simp add: byte_bits_unfold)
  have t0: "taps (past (bits_of [0x80] @ replicate 6 False) 0) = [True, True, True, True]"
    unfolding b by (simp add: taps_def past_def)
  have t6: "taps (past (bits_of [0x80] @ replicate 6 False) 6) = [True, True, True, True]"
    unfolding b by (simp add: taps_def past_def)
  show ?thesis
    using conv_process_mother_code [of "[0x80]" 1 0] conv_process_mother_code [of "[0x80]" 1 6] t0 t6
    by auto
qed

end
