(* ===== verification/Puncturing.thy ===== *)
theory Puncturing
  imports Byte_Buffer Conv_Encoder
begin

text \<open>
  The puncturing encoder, \<open>src/PuncturingRule.cpp\<close> and \<open>src/PuncturingEncoder.cpp\<close>. It
  writes the bits its rules select into the output buffer in place, shifting them into
  bytes whose old content it does not clear first. The lemmas relate that to the list of
  selected bits, padded with zeros.

  Rule lengths are \<open>size_t\<close>: \<open>adjust_item_size\<close> narrows them to \<open>int\<close>, and \<open>process\<close> subtracts
  from them with wrap-around. The loops that read the input stop at the latest where the
  input ends, with \<open>UndefinedBehaviour\<close>; the loop over the rules, which has no such bound, is a
  partial function, None when it does not end.
\<close>

section \<open>Rules\<close>

record puncturing_rule =
  pr_length :: u64
  pr_pattern :: u32

definition PuncturingRule :: "u64 \<Rightarrow> u32 \<Rightarrow> puncturing_rule" where
  "PuncturingRule len pattern = \<lparr>pr_length = len, pr_pattern = pattern\<rparr>"

fun bit_size_loop :: "nat \<Rightarrow> u32 \<Rightarrow> u32 \<Rightarrow> nat \<Rightarrow> nat" where
  "bit_size_loop 0 pattern msk bits = bits"
| "bit_size_loop (Suc n) pattern msk bits =
     bit_size_loop n pattern (shr msk 1) (if pattern AND msk \<noteq> 0 then Suc bits else bits)"

definition bit_size :: "puncturing_rule \<Rightarrow> nat" where
  "bit_size rule = bit_size_loop 32 (pr_pattern rule) 0x80000000 0"

section \<open>The encoder's state and its sizes\<close>

record puncturing_encoder =
  d_num_cu :: nat
  d_in_block_size :: nat
  d_out_block_size :: nat
  d_rules :: "puncturing_rule list"
  d_tail_rule :: "puncturing_rule option"

definition PuncturingEncoder :: "nat \<Rightarrow> puncturing_encoder" where
  "PuncturingEncoder num_cu =
     \<lparr>d_num_cu = num_cu, d_in_block_size = 0, d_out_block_size = 0, d_rules = [], d_tail_rule = None\<rparr>"

text \<open>
  The number of rounds of \<open>for (length = rule.length(); length > 0; length -= 4)\<close> with an
  \<open>int\<close> counter that starts at the length's low 32 bits.
\<close>

definition int_rounds :: "u64 \<Rightarrow> nat" where
  "int_rounds len = (let l = sint (ucast len :: u32) in if l > 0 then nat ((l + 3) div 4) else 0)"

definition adjust_item_size :: "puncturing_encoder \<Rightarrow> puncturing_encoder" where
  "adjust_item_size e =
     (let out_size = sum_list (map (\<lambda>r. int_rounds (pr_length r) * bit_size r) (d_rules e));
          in_size = sum_list (map (\<lambda>r. int_rounds (pr_length r) * 4) (d_rules e));
          (in_size, out_size) =
            (case d_tail_rule e of
               None \<Rightarrow> (in_size, out_size)
             | Some r \<Rightarrow> (in_size + unat (pr_length r), out_size + bit_size r))
      in e\<lparr>d_in_block_size := in_size, d_out_block_size := (out_size + 7) div 8\<rparr>)"

definition append_rule :: "puncturing_encoder \<Rightarrow> puncturing_rule \<Rightarrow> puncturing_encoder" where
  "append_rule e rule = adjust_item_size (e\<lparr>d_rules := d_rules e @ [rule]\<rparr>)"

definition append_tail_rule :: "puncturing_encoder \<Rightarrow> puncturing_rule \<Rightarrow> puncturing_encoder" where
  "append_tail_rule e rule = adjust_item_size (e\<lparr>d_tail_rule := Some rule\<rparr>)"

section \<open>Writing bits\<close>

text \<open>The output memory, \<open>out_count\<close> and \<open>bit_count\<close>.\<close>

type_synonym out_state = "bytes \<times> nat \<times> nat"

fun put_bit :: "u8 \<Rightarrow> out_state \<Rightarrow> out_state result" where
  "put_bit x (out, out_count, bit_count) =
     (if out_count < length out then
        (let out' = out[out_count := shift_in (out ! out_count) x]
         in if bit_count + 1 = 8 then Inr (out', out_count + 1, 0)
            else Inr (out', out_count, bit_count + 1))
      else Inl (UndefinedBehaviour ''write''))"

text \<open>The loop over the eight bits of \<open>data\<close>; it returns the msk it leaves.\<close>

fun punct_byte :: "nat \<Rightarrow> u8 \<Rightarrow> u32 \<Rightarrow> u32 \<Rightarrow> out_state \<Rightarrow> (u32 \<times> out_state) result" where
  "punct_byte 0 data pattern msk st = Inr (msk, st)"
| "punct_byte (Suc n) data pattern msk st =
     bindE (if pattern AND msk \<noteq> 0 then put_bit (shr data 7) st else Inr st)
       (punct_byte n (shl data 1) pattern (shr msk 1))"

text \<open>The loop over \<open>n\<close> bytes of input.\<close>

fun punct_bytes :: "nat \<Rightarrow> bytes \<Rightarrow> nat \<Rightarrow> u32 \<Rightarrow> u32 \<Rightarrow> out_state \<Rightarrow> out_state result" where
  "punct_bytes 0 inp in_count pattern msk st = Inr st"
| "punct_bytes (Suc n) inp in_count pattern msk st =
     bindE (rd inp in_count) (\<lambda>data.
     bindE (punct_byte 8 data pattern msk st) (\<lambda>(msk', st').
     punct_bytes n inp (in_count + 1) pattern msk' st'))"

text \<open>One rule: four bytes of input per round.\<close>

function punct_rule :: "bytes \<Rightarrow> u32 \<Rightarrow> u64 \<Rightarrow> nat \<Rightarrow> out_state \<Rightarrow> (nat \<times> out_state) result" where
  "punct_rule inp pattern len in_count st =
     (if len = 0 then Inr (in_count, st)
      else if in_count + 4 \<le> length inp then
        (case punct_bytes 4 inp in_count pattern 0x80000000 st of
           Inl err \<Rightarrow> Inl err
         | Inr st' \<Rightarrow> punct_rule inp pattern (len - 4) (in_count + 4) st')
      else Inl (UndefinedBehaviour ''read''))"
  by auto
termination by (relation "measure (\<lambda>(inp, pattern, len, in_count, st). length inp - in_count)") auto

declare punct_rule.simps [simp del]

text \<open>
  The loop over the rules; \<open>rule_it\<close> is the list of the rules from the current one on, and
  goes back to the first one after the last.
\<close>

partial_function (option) punct_loop ::
    "bytes \<Rightarrow> nat \<Rightarrow> puncturing_rule list \<Rightarrow> puncturing_rule list \<Rightarrow> nat \<Rightarrow> out_state \<Rightarrow>
     (nat \<times> out_state) result option" where
  "punct_loop inp in_size rules rule_it in_count st =
     (if in_count < in_size then
        (case rule_it of
           [] \<Rightarrow> Some (Inl (UndefinedBehaviour ''end iterator''))
         | r # rest \<Rightarrow>
             (case punct_rule inp (pr_pattern r) (pr_length r) in_count st of
                Inl err \<Rightarrow> Some (Inl err)
              | Inr (in_count', st') \<Rightarrow>
                  punct_loop inp in_size rules (if rest = [] then rules else rest) in_count' st'))
      else Some (Inr (in_count, st)))"

text \<open>\<open>while (bit_count)\<close>: at most seven zero bits complete the last byte.\<close>

fun punct_flush :: "nat \<Rightarrow> out_state \<Rightarrow> out_state result" where
  "punct_flush 0 st = Inr st"
| "punct_flush (Suc n) (out, out_count, bit_count) =
     (if bit_count = 0 then Inr (out, out_count, bit_count)
      else bindE (put_bit 0 (out, out_count, bit_count)) (punct_flush n))"

definition punct_zero_fill :: "bytes \<Rightarrow> nat \<Rightarrow> bytes" where
  "punct_zero_fill out out_count = take out_count out @ replicate (length out - out_count) 0"

definition punct_tail ::
    "puncturing_rule option \<Rightarrow> bytes \<Rightarrow> nat \<Rightarrow> out_state \<Rightarrow> out_state result" where
  "punct_tail tail inp in_count st =
     (case tail of
        None \<Rightarrow> Inr st
      | Some r \<Rightarrow> punct_bytes (unat (pr_length r)) inp in_count (pr_pattern r) 0x800000 st)"

definition punct_finish :: "out_state \<Rightarrow> bytes result" where
  "punct_finish st =
     bindE (punct_flush 8 st) (\<lambda>(out, out_count, bit_count). Inr (punct_zero_fill out out_count))"

section \<open>Processing\<close>

definition punct_check_cu :: "puncturing_encoder \<Rightarrow> puncturing_encoder result" where
  "punct_check_cu e =
     (if d_num_cu e > 0 then
        (let e' = (if d_num_cu e * 8 = d_out_block_size e + 1
                   then e\<lparr>d_out_block_size := d_num_cu e * 8\<rparr> else e)
         in if d_num_cu e' * 8 \<noteq> d_out_block_size e'
            then Inl (RuntimeError ''PuncturingEncoder encoder initialisation failed. '')
            else Inr e')
      else Inr e)"

text \<open>
  \<open>out\<close> is the memory of \<open>dataOut\<close> after \<open>setLength(d_out_block_size)\<close>, whatever it held before.
\<close>

definition punct_run :: "puncturing_encoder \<Rightarrow> bytes \<Rightarrow> bytes \<Rightarrow> bytes result option" where
  "punct_run e dataIn out =
     (if length dataIn \<noteq> d_in_block_size e
      then Some (Inl (RuntimeError ''PuncturingEncoder::process wrong input size''))
      else
        (case punct_loop dataIn
                (case d_tail_rule e of
                   None \<Rightarrow> d_in_block_size e
                 | Some r \<Rightarrow> d_in_block_size e - unat (pr_length r))
                (d_rules e) (d_rules e) 0 (out, 0, 0) of
           None \<Rightarrow> None
         | Some (Inl err) \<Rightarrow> Some (Inl err)
         | Some (Inr (in_count, st)) \<Rightarrow>
             Some (bindE (punct_tail (d_tail_rule e) dataIn in_count st) punct_finish)))"

definition punct_process ::
    "(nat \<Rightarrow> bytes option) \<Rightarrow> puncturing_encoder \<Rightarrow> bytes \<Rightarrow> buffer \<Rightarrow>
     (puncturing_encoder \<times> bytes) result option" where
  "punct_process alloc e dataIn dataOut =
     (case punct_check_cu e of
        Inl err \<Rightarrow> Some (Inl err)
      | Inr e' \<Rightarrow>
          (case setLength alloc dataOut (d_out_block_size e') of
             Inl err \<Rightarrow> Some (Inl err)
           | Inr b \<Rightarrow>
               map_option (\<lambda>r. bindE r (\<lambda>out. Inr (e', out))) (punct_run e' dataIn (contents b))))"

section \<open>The output in place is a list of bits\<close>

text \<open>
  \<open>written st bs\<close>: the bits \<open>bs\<close> have been written; the full bytes are in place and the rest is
  in the low bits of the byte under construction.
\<close>

definition written :: "out_state \<Rightarrow> bool list \<Rightarrow> bool" where
  "written st bs =
     (case st of (out, oc, bc) \<Rightarrow>
        bc < 8 \<and> length bs = 8 * oc + bc \<and> 8 * oc + bc \<le> 8 * length out \<and>
        (\<exists>rest. bs = bits_of (take oc out) @ rest \<and>
           (bc > 0 \<longrightarrow> rest = drop (8 - bc) (byte_bits (out ! oc)))))"

lemma written_init: "written (out, 0, 0) []"
  by (simp add: written_def)

lemma written_put_bit:
  assumes w: "written (out, oc, bc) bs" and room: "length bs < 8 * length out" and x: "is_bit x"
  shows "\<exists>st'. put_bit x (out, oc, bc) = Inr st' \<and> written st' (bs @ [bit x 0]) \<and>
     length (fst st') = length out"
proof -
  from w have bc: "bc < 8" and len: "length bs = 8 * oc + bc"
    and ex: "\<exists>rest. bs = bits_of (take oc out) @ rest \<and>
      (bc > 0 \<longrightarrow> rest = drop (8 - bc) (byte_bits (out ! oc)))"
    by (simp_all add: written_def)
  from ex obtain rest where bs: "bs = bits_of (take oc out) @ rest"
    and rest: "bc > 0 \<Longrightarrow> rest = drop (8 - bc) (byte_bits (out ! oc))" by blast
  have oc: "oc < length out" using room len by simp
  have lr: "length rest = bc" using len oc bs by simp
  let ?b = "shift_in (out ! oc) x"
  let ?out = "out[oc := ?b]"
  have new: "rest @ [bit x 0] = drop (8 - Suc bc) (byte_bits ?b)"
  proof (cases "bc = 0")
    case True
    with lr show ?thesis by (simp add: byte_bits_shift_in [OF x] tl_drop)
  next
    case False
    then have "rest = drop (8 - bc) (byte_bits (out ! oc))" by (intro rest) simp
    moreover have "drop (7 - bc) (tl (byte_bits (out ! oc))) = drop (8 - bc) (byte_bits (out ! oc))"
    proof -
    have "8 - bc = Suc (7 - bc)" using bc by simp
    then show ?thesis by (simp only: drop_Suc)
  qed
    ultimately show ?thesis using bc False by (simp add: byte_bits_shift_in [OF x])
  qed
  have pre: "take oc ?out = take oc out" by simp
  show ?thesis
  proof (cases "Suc bc = 8")
    case True
    have "bits_of (take (Suc oc) ?out) = bits_of (take oc out) @ byte_bits ?b"
      using oc by (simp add: take_Suc_conv_app_nth)
    with True new bs have "bs @ [bit x 0] = bits_of (take (Suc oc) ?out)" by simp
    moreover have "length (bs @ [bit x 0]) = 8 * Suc oc" using True len by simp
    ultimately have "written (?out, Suc oc, 0) (bs @ [bit x 0])"
      using oc by (simp add: written_def)
    then show ?thesis using True oc by simp
  next
    case False
    have "bs @ [bit x 0] = bits_of (take oc ?out) @ drop (8 - Suc bc) (byte_bits (?out ! oc))"
      using new bs oc by simp
    then have "written (?out, oc, Suc bc) (bs @ [bit x 0])"
      using False bc len oc by (simp add: written_def)
    then show ?thesis using False oc by simp
  qed
qed

section \<open>The selected bits\<close>

definition picks :: "nat \<Rightarrow> u32 \<Rightarrow> nat \<Rightarrow> bool" where
  "picks k pattern j = (j \<le> k \<and> bit pattern (k - j))"

definition mask_at :: "nat \<Rightarrow> nat \<Rightarrow> u32" where
  "mask_at k j = (if j \<le> k then shl 1 (k - j) else 0)"

lemma mask_at_start: "mask_at 31 0 = 0x80000000" "mask_at 23 0 = 0x800000"
  by (simp_all add: mask_at_def shl_def)

lemma shr_mask_at: "k < 32 \<Longrightarrow> shr (mask_at k j) 1 = mask_at k (Suc j)"
  by (rule bit_word_eqI) (auto simp: mask_at_def bit_1_iff)

lemma and_mask_at: "(pattern AND mask_at k j \<noteq> 0) = picks k pattern j"
  by (simp add: mask_at_def picks_def and_single_bit)

lemma punct_byte_ok:
  assumes "n \<le> 8" "k < 32" "written st bs"
    and "length bs + length (nths (take n (byte_bits d)) {i. picks k p (j + i)}) \<le> 8 * length (fst st)"
  shows "\<exists>st'. punct_byte n d p (mask_at k j) st = Inr (mask_at k (j + n), st') \<and>
     written st' (bs @ nths (take n (byte_bits d)) {i. picks k p (j + i)}) \<and>
     length (fst st') = length (fst st)"
  using assms
proof (induction n arbitrary: d j st bs)
  case 0
  then show ?case by simp
next
  case (Suc n)
  let ?rest = "nths (take n (byte_bits (shl d 1))) {i. picks k p (Suc j + i)}"
  have "take (Suc n) (byte_bits d) = bit d 7 # take n (tl (byte_bits d))"
    by (subst byte_bits_eq_Cons) simp
  moreover have "take n (byte_bits (shl d 1)) = take n (tl (byte_bits d))"
    using Suc.prems(1) byte_bits_shl [of d] by simp
  ultimately have sel: "nths (take (Suc n) (byte_bits d)) {i. picks k p (j + i)} =
      (if picks k p j then [bit d 7] else []) @ ?rest"
    by (simp add: nths_Cons)
  obtain out oc bc where st: "st = (out, oc, bc)" by (cases st) auto
  obtain st1 where st1: "(if p AND mask_at k j \<noteq> 0 then put_bit (shr d 7) st else Inr st) = Inr st1"
      "written st1 (bs @ (if picks k p j then [bit d 7] else []))"
      "length (fst st1) = length (fst st)"
  proof (cases "picks k p j")
    case True
    have "length bs < 8 * length out" using Suc.prems(4) True st unfolding sel by simp
    from written_put_bit [OF Suc.prems(3) [unfolded st] this is_bit_shr_7, of d] True st that
    show ?thesis by (auto simp: and_mask_at)
  next
    case False
    with Suc.prems(3) that show ?thesis by (simp add: and_mask_at)
  qed
  have "\<exists>st'. punct_byte n (shl d 1) p (mask_at k (Suc j)) st1 = Inr (mask_at k (Suc j + n), st') \<and>
      written st' ((bs @ (if picks k p j then [bit d 7] else [])) @ ?rest) \<and>
      length (fst st') = length (fst st1)"
    using Suc.prems st1 unfolding sel by (intro Suc.IH) auto
  then show ?case
    using st1 Suc.prems(2) unfolding sel by (simp add: shr_mask_at [unfolded One_nat_def])
qed

lemma punct_bytes_ok:
  assumes "k < 32" "written st bs" "c + n \<le> length inp"
    and "length bs + length (nths (bits_of (take n (drop c inp))) {i. picks k p (j + i)}) \<le> 8 * length (fst st)"
  shows "\<exists>st'. punct_bytes n inp c p (mask_at k j) st = Inr st' \<and>
     written st' (bs @ nths (bits_of (take n (drop c inp))) {i. picks k p (j + i)}) \<and>
     length (fst st') = length (fst st)"
  using assms
proof (induction n arbitrary: c j st bs)
  case 0
  then show ?case by simp
next
  case (Suc n)
  let ?d = "inp ! c"
  let ?s1 = "nths (byte_bits ?d) {i. picks k p (j + i)}"
  let ?s2 = "nths (bits_of (take n (drop (Suc c) inp))) {i. picks k p (j + 8 + i)}"
  have "take (Suc n) (drop c inp) = ?d # take n (drop (Suc c) inp)"
    using Suc.prems(3) by (simp add: Cons_nth_drop_Suc [symmetric])
  then have sel: "nths (bits_of (take (Suc n) (drop c inp))) {i. picks k p (j + i)} = ?s1 @ ?s2"
    by (simp add: nths_append ac_simps)
  have "\<exists>st1. punct_byte 8 ?d p (mask_at k j) st = Inr (mask_at k (j + 8), st1) \<and>
      written st1 (bs @ ?s1) \<and> length (fst st1) = length (fst st)"
    using punct_byte_ok [of 8 k st bs ?d p j] Suc.prems unfolding sel by simp
  then obtain st1 where st1: "punct_byte 8 ?d p (mask_at k j) st = Inr (mask_at k (j + 8), st1)"
      "written st1 (bs @ ?s1)" "length (fst st1) = length (fst st)" by blast
  have "\<exists>st'. punct_bytes n inp (Suc c) p (mask_at k (j + 8)) st1 = Inr st' \<and>
      written st' ((bs @ ?s1) @ ?s2) \<and> length (fst st') = length (fst st1)"
    using Suc.prems st1 unfolding sel by (intro Suc.IH) auto
  then show ?case using st1 Suc.prems(3) unfolding sel by simp
qed

text \<open>The bits that a rule selects from its input.\<close>

definition rule_bits :: "u32 \<Rightarrow> bytes \<Rightarrow> bool list" where
  "rule_bits p ds = nths (bits_of ds) {i. bit p (31 - i mod 32)}"

definition tail_bits :: "u32 \<Rightarrow> bytes \<Rightarrow> bool list" where
  "tail_bits p ds = nths (bits_of ds) {i. i < 24 \<and> bit p (23 - i)}"

lemma rule_bits_Nil [simp]: "rule_bits p [] = []"
  by (simp add: rule_bits_def)

lemma rule_bits_append:
  assumes "length xs = 4"
  shows "rule_bits p (xs @ ys) = rule_bits p xs @ rule_bits p ys"
  using assms by (simp add: rule_bits_def nths_append)

lemma nths_cong_length:
  assumes "\<And>i. i < length xs \<Longrightarrow> i \<in> A \<longleftrightarrow> i \<in> B"
  shows "nths xs A = nths xs B"
  unfolding nths_def
  by (rule arg_cong [where f = "map fst"], rule filter_cong)
    (use assms in \<open>auto simp: set_zip\<close>)

lemma rule_bits_block: "length xs = 4 \<Longrightarrow> rule_bits p xs = nths (bits_of xs) {i. picks 31 p (0 + i)}"
  unfolding rule_bits_def by (rule nths_cong_length) (auto simp: picks_def)

lemma tail_bits_picks: "tail_bits p xs = nths (bits_of xs) {i. picks 23 p (0 + i)}"
  unfolding tail_bits_def by (rule nths_cong_length) (auto simp: picks_def)

lemma rule_bits_split:
  assumes "c + 4 * Suc m \<le> length inp"
  shows "rule_bits p (take (4 * Suc m) (drop c inp)) =
     rule_bits p (take 4 (drop c inp)) @ rule_bits p (take (4 * m) (drop (c + 4) inp))"
proof -
  have "take (4 * Suc m) (drop c inp) = take 4 (drop c inp) @ take (4 * m) (drop (c + 4) inp)"
    by (simp add: take_add add.commute)
  then show ?thesis using assms by (simp add: rule_bits_append)
qed

lemma punct_rule_ok:
  assumes "unat len = 4 * m" "written st bs" "c + 4 * m \<le> length inp"
    and "length bs + length (rule_bits p (take (4 * m) (drop c inp))) \<le> 8 * length (fst st)"
  shows "\<exists>st'. punct_rule inp p len c st = Inr (c + 4 * m, st') \<and>
     written st' (bs @ rule_bits p (take (4 * m) (drop c inp))) \<and>
     length (fst st') = length (fst st)"
  using assms
proof (induction m arbitrary: len c st bs)
  case 0
  then have "len = 0" by (simp add: unat_eq_zero)
  with 0 show ?case by (simp add: punct_rule.simps)
next
  case (Suc m)
  have len: "len \<noteq> 0" "unat (len - 4) = 4 * m"
  proof -
    show "len \<noteq> 0" using Suc.prems(1) by auto
    have "(4 :: u64) \<le> len" using Suc.prems(1) by (simp add: word_le_nat_alt)
    then have "unat (len - 4) = unat len - unat (4 :: u64)" by (rule unat_sub)
    then show "unat (len - 4) = 4 * m" using Suc.prems(1) by simp
  qed
  let ?s1 = "rule_bits p (take 4 (drop c inp))"
  let ?s2 = "rule_bits p (take (4 * m) (drop (c + 4) inp))"
  note sel = rule_bits_split [OF Suc.prems(3), of p]
  have b: "?s1 = nths (bits_of (take 4 (drop c inp))) {i. picks 31 p (0 + i)}"
    using Suc.prems(3) by (intro rule_bits_block) simp
  have "\<exists>st1. punct_bytes 4 inp c p (mask_at 31 0) st = Inr st1 \<and> written st1 (bs @ ?s1) \<and>
      length (fst st1) = length (fst st)"
    unfolding b using Suc.prems b unfolding sel by (intro punct_bytes_ok) auto
  then obtain st1 where st1: "punct_bytes 4 inp c p 0x80000000 st = Inr st1"
      "written st1 (bs @ ?s1)" "length (fst st1) = length (fst st)"
    by (auto simp: mask_at_start)
  have "\<exists>st'. punct_rule inp p (len - 4) (c + 4) st1 = Inr (c + 4 + 4 * m, st') \<and>
      written st' ((bs @ ?s1) @ ?s2) \<and> length (fst st') = length (fst st1)"
    using Suc.prems st1 len unfolding sel by (intro Suc.IH) auto
  then show ?case
    using len st1 Suc.prems(3) unfolding sel by (subst punct_rule.simps) (simp add: add.assoc)
qed

fun rules_bits :: "puncturing_rule list \<Rightarrow> bytes \<Rightarrow> bool list" where
  "rules_bits [] ds = []"
| "rules_bits (r # rs) ds =
     rule_bits (pr_pattern r) (take (unat (pr_length r)) ds) @
     rules_bits rs (drop (unat (pr_length r)) ds)"

definition rules_size :: "puncturing_rule list \<Rightarrow> nat" where
  "rules_size rs = sum_list (map (\<lambda>r. unat (pr_length r)) rs)"

definition wf_rule :: "puncturing_rule \<Rightarrow> bool" where
  "wf_rule r = (4 dvd unat (pr_length r) \<and> unat (pr_length r) < 2 ^ 31)"

lemma rules_size_simps [simp]:
  "rules_size [] = 0"
  "rules_size (r # rs) = unat (pr_length r) + rules_size rs"
  by (simp_all add: rules_size_def)

lemma rules_bits_size_0: "rules_size rs = 0 \<Longrightarrow> rules_bits rs ds = []"
  by (induction rs arbitrary: ds) auto

lemma punct_loop_ok:
  assumes "\<forall>r \<in> set rs. wf_rule r" "written st bs" "c + rules_size rs = n" "n \<le> length inp"
    and "length bs + length (rules_bits rs (drop c inp)) \<le> 8 * length (fst st)"
    and "rs = [] \<longrightarrow> c = n"
  shows "\<exists>st'. punct_loop inp n rules rs c st = Some (Inr (n, st')) \<and>
     written st' (bs @ rules_bits rs (drop c inp)) \<and> length (fst st') = length (fst st)"
  using assms
proof (induction rs arbitrary: c st bs)
  case Nil
  then show ?case by (subst punct_loop.simps) simp
next
  case (Cons r rs)
  show ?case
  proof (cases "c < n")
    case False
    with Cons.prems have "rules_size (r # rs) = 0" by simp
    with False Cons.prems show ?thesis
      by (subst punct_loop.simps) (simp add: rules_bits_size_0 del: rules_bits.simps)
  next
    case True
    obtain m where m: "unat (pr_length r) = 4 * m"
      using Cons.prems(1) by (auto simp: wf_rule_def elim: dvdE)
    let ?s1 = "rule_bits (pr_pattern r) (take (4 * m) (drop c inp))"
    let ?s2 = "rules_bits rs (drop (c + 4 * m) inp)"
    have sel: "rules_bits (r # rs) (drop c inp) = ?s1 @ ?s2"
      by (simp add: m add.commute)
    have "\<exists>st1. punct_rule inp (pr_pattern r) (pr_length r) c st = Inr (c + 4 * m, st1) \<and>
        written st1 (bs @ ?s1) \<and> length (fst st1) = length (fst st)"
      using Cons.prems m unfolding sel by (intro punct_rule_ok) auto
    then obtain st1 where st1: "punct_rule inp (pr_pattern r) (pr_length r) c st = Inr (c + 4 * m, st1)"
        "written st1 (bs @ ?s1)" "length (fst st1) = length (fst st)" by blast
    have step: "punct_loop inp n rules (r # rs) c st =
        punct_loop inp n rules (if rs = [] then rules else rs) (c + 4 * m) st1"
      using True st1 by (subst punct_loop.simps) simp
    show ?thesis
    proof (cases "rs = []")
      case True
      with Cons.prems m have "c + 4 * m = n" by simp
      with True step st1 show ?thesis
        unfolding sel by (subst step, subst punct_loop.simps) simp
    next
      case False
      have "\<exists>st'. punct_loop inp n rules rs (c + 4 * m) st1 = Some (Inr (n, st')) \<and>
          written st' ((bs @ ?s1) @ ?s2) \<and> length (fst st') = length (fst st1)"
        using Cons.prems st1 m False unfolding sel by (intro Cons.IH) auto
      with False step st1 show ?thesis unfolding sel by simp
    qed
  qed
qed

lemma written_bc_0: "written (out, oc, 0) bs \<Longrightarrow> bs = bits_of (take oc out) \<and> oc \<le> length out"
  by (auto simp: written_def)

lemma punct_flush_ok:
  assumes "written (out, oc, bc) bs" "bc = 0 \<or> 8 \<le> n + bc"
  shows "\<exists>out' oc' z. punct_flush n (out, oc, bc) = Inr (out', oc', 0) \<and>
     written (out', oc', 0) (bs @ replicate z False) \<and> length out' = length out"
  using assms
proof (induction n arbitrary: out oc bc bs)
  case 0
  then have "bc = 0" by (auto simp: written_def)
  with 0 show ?case by (intro exI [of _ out] exI [of _ oc] exI [of _ 0]) simp
next
  case (Suc n)
  show ?case
  proof (cases "bc = 0")
    case True
    with Suc.prems show ?thesis by (intro exI [of _ out] exI [of _ oc] exI [of _ 0]) simp
  next
    case False
    have bc: "bc < 8" "length bs = 8 * oc + bc" "8 * oc + bc \<le> 8 * length out"
      using Suc.prems(1) by (auto simp: written_def)
    have "length bs < 8 * length out"
    proof (rule ccontr)
      assume "\<not> length bs < 8 * length out"
      with bc have "8 * oc + bc = 8 * length out" by simp
      then have "(8 * oc + bc) mod 8 = 0" by simp
      with bc(1) False show False by simp
    qed
    from written_put_bit [OF Suc.prems(1) this, of 0]
    obtain out1 oc1 bc1 where st1: "put_bit 0 (out, oc, bc) = Inr (out1, oc1, bc1)"
        "written (out1, oc1, bc1) (bs @ [False])" "length out1 = length out"
      by (auto simp: is_bit_def)
    have "bc1 = 0 \<or> 8 \<le> n + bc1"
      using st1(1) Suc.prems(2) False by (auto simp: Let_def split: if_splits)
    from Suc.IH [OF st1(2) this] obtain out' oc' z where
      "punct_flush n (out1, oc1, bc1) = Inr (out', oc', 0)"
      "written (out', oc', 0) ((bs @ [False]) @ replicate z False)" "length out' = length out1"
      by blast
    with False st1 show ?thesis
      by (intro exI [of _ out'] exI [of _ oc'] exI [of _ "Suc z"])
        (simp add: replicate_app_Cons_same del: put_bit.simps)
  qed
qed

lemma bits_of_zeros: "bits_of (replicate n 0) = replicate (8 * n) False"
proof (induction n)
  case 0
  then show ?case by simp
next
  case (Suc n)
  have "byte_bits 0 = replicate 8 False" by (simp add: byte_bits_unfold numeral_eq_Suc)
  with Suc show ?case by (simp add: replicate_add [symmetric])
qed

lemma punct_finish_ok:
  assumes "written st bs"
  shows "\<exists>out. punct_finish st = Inr out \<and> length out = length (fst st) \<and>
     bits_of out = bs @ replicate (8 * length (fst st) - length bs) False"
proof -
  obtain out oc bc where st: "st = (out, oc, bc)" by (cases st) auto
  with punct_flush_ok [of out oc bc bs 8] assms obtain out' oc' z where
    f: "punct_flush 8 st = Inr (out', oc', 0)" "written (out', oc', 0) (bs @ replicate z False)"
      "length out' = length out" by auto
  have w: "bs @ replicate z False = bits_of (take oc' out')" "oc' \<le> length out'"
    using written_bc_0 [OF f(2)] by auto
  let ?out = "punct_zero_fill out' oc'"
  have bits: "bits_of ?out = bs @ replicate (z + 8 * (length out' - oc')) False"
    by (simp add: punct_zero_fill_def bits_of_zeros w(1) [symmetric] replicate_add)
  have len: "length ?out = length out'" using w(2) by (simp add: punct_zero_fill_def)
  have "length (bits_of ?out) = 8 * length out" using len f(3) by simp
  then have "z + 8 * (length out' - oc') = 8 * length out - length bs"
    unfolding bits by simp
  with bits len f st show ?thesis by (simp add: punct_finish_def)
qed

section \<open>Sizes\<close>

lemma length_nths_cong: "length xs = length ys \<Longrightarrow> length (nths xs A) = length (nths ys A)"
  by (simp add: length_nths)

lemma bit_size_loop_picks:
  assumes "k < 32"
  shows "bit_size_loop n p (mask_at k j) b = b + length (nths (replicate n True) {i. picks k p (j + i)})"
  by (induction n arbitrary: j b)
    (auto simp: nths_Cons and_mask_at shr_mask_at [OF assms, unfolded One_nat_def])

lemma bit_size_rule_bits:
  assumes "length xs = 4"
  shows "length (rule_bits (pr_pattern r) xs) = bit_size r"
proof -
  have "length (rule_bits (pr_pattern r) xs) =
      length (nths (replicate 32 True) {i. picks 31 (pr_pattern r) (0 + i)})"
    unfolding rule_bits_block [OF assms] by (rule length_nths_cong) (simp add: assms)
  then show ?thesis
    using bit_size_loop_picks [of 31 32 "pr_pattern r" 0 0]
    by (simp add: bit_size_def mask_at_start)
qed

lemma rule_bits_length:
  assumes "length xs = 4 * m"
  shows "length (rule_bits (pr_pattern r) xs) = m * bit_size r"
  using assms
proof (induction m arbitrary: xs)
  case 0
  then show ?case by simp
next
  case (Suc m)
  have "rule_bits (pr_pattern r) xs =
      rule_bits (pr_pattern r) (take 4 xs) @ rule_bits (pr_pattern r) (drop 4 xs)"
    using Suc.prems rule_bits_append [of "take 4 xs" "pr_pattern r" "drop 4 xs"] by simp
  with Suc show ?case by (simp add: bit_size_rule_bits)
qed

definition rules_count :: "puncturing_rule list \<Rightarrow> nat" where
  "rules_count rs = sum_list (map (\<lambda>r. unat (pr_length r) div 4 * bit_size r) rs)"

lemma rules_bits_length:
  assumes "\<forall>r \<in> set rs. wf_rule r" "rules_size rs \<le> length ds"
  shows "length (rules_bits rs ds) = rules_count rs"
  using assms
proof (induction rs arbitrary: ds)
  case Nil
  then show ?case by (simp add: rules_count_def)
next
  case (Cons r rs)
  obtain m where m: "unat (pr_length r) = 4 * m"
    using Cons.prems(1) by (auto simp: wf_rule_def elim: dvdE)
  have "length (rule_bits (pr_pattern r) (take (4 * m) ds)) = m * bit_size r"
    using Cons.prems m by (intro rule_bits_length) simp
  with Cons m show ?case by (simp add: rules_count_def)
qed

lemma int_rounds_wf:
  assumes "wf_rule r"
  shows "int_rounds (pr_length r) = unat (pr_length r) div 4"
proof -
  let ?l = "unat (pr_length r)"
  have lt: "?l < 2 ^ 31" and dvd: "4 dvd ?l" using assms by (auto simp: wf_rule_def)
  have "int ?l < int (2 ^ 31)" using lt by (simp only: of_nat_less_iff)
  then have lt': "uint (pr_length r) < 2 ^ 31" by simp
  then have u: "uint (ucast (pr_length r) :: u32) = int ?l"
    by (simp add: unsigned_ucast_eq take_bit_eq_mod)
  have "sint (ucast (pr_length r) :: u32) = int ?l"
    unfolding sint_uint u using lt' by (simp add: signed_take_bit_eq_take_bit_shift take_bit_eq_mod)
  moreover obtain k where k: "?l = 4 * k" using dvd by (auto elim: dvdE)
  moreover have "nat ((int (4 * k) + 3) div 4) = k" by simp
  ultimately show ?thesis unfolding int_rounds_def Let_def by (simp only: k) auto
qed

definition wf_tail :: "puncturing_rule option \<Rightarrow> bool" where
  "wf_tail t = (case t of None \<Rightarrow> True
     | Some r \<Rightarrow> unat (pr_length r) = 3 \<and> pr_pattern r AND 0xff000000 = 0)"

definition tail_size :: "puncturing_rule option \<Rightarrow> nat" where
  "tail_size t = (case t of None \<Rightarrow> 0 | Some r \<Rightarrow> unat (pr_length r))"

definition tail_count :: "puncturing_rule option \<Rightarrow> nat" where
  "tail_count t = (case t of None \<Rightarrow> 0 | Some r \<Rightarrow> bit_size r)"

definition opt_tail_bits :: "puncturing_rule option \<Rightarrow> bytes \<Rightarrow> bool list" where
  "opt_tail_bits t ds = (case t of None \<Rightarrow> [] | Some r \<Rightarrow> tail_bits (pr_pattern r) ds)"

text \<open>All bits the rules and the tail rule select from a frame.\<close>

definition selected :: "puncturing_encoder \<Rightarrow> bytes \<Rightarrow> bool list" where
  "selected e ds = rules_bits (d_rules e) ds @ opt_tail_bits (d_tail_rule e) (drop (rules_size (d_rules e)) ds)"

definition wf_puncturer :: "puncturing_encoder \<Rightarrow> bool" where
  "wf_puncturer e =
     ((\<forall>r \<in> set (d_rules e). wf_rule r) \<and> wf_tail (d_tail_rule e) \<and>
      d_in_block_size e = rules_size (d_rules e) + tail_size (d_tail_rule e) \<and>
      d_out_block_size e = (rules_count (d_rules e) + tail_count (d_tail_rule e) + 7) div 8)"

lemma adjust_item_size_wf:
  assumes "\<forall>r \<in> set (d_rules e). wf_rule r" "wf_tail (d_tail_rule e)"
  shows "wf_puncturer (adjust_item_size e)"
proof -
  have a: "map (\<lambda>r. int_rounds (pr_length r) * 4) (d_rules e) = map (\<lambda>r. unat (pr_length r)) (d_rules e)"
    using assms(1) by (auto simp: int_rounds_wf wf_rule_def)
  have b: "map (\<lambda>r. int_rounds (pr_length r) * bit_size r) (d_rules e) =
      map (\<lambda>r. unat (pr_length r) div 4 * bit_size r) (d_rules e)"
    using assms(1) by (auto simp: int_rounds_wf)
  show ?thesis
    using assms unfolding adjust_item_size_def a b
    by (auto simp: wf_puncturer_def rules_size_def rules_count_def tail_size_def tail_count_def
        Let_def split: option.splits)
qed

lemma PuncturingEncoder_wf: "wf_puncturer (PuncturingEncoder num_cu)"
  by (simp add: wf_puncturer_def PuncturingEncoder_def wf_tail_def tail_size_def tail_count_def
      rules_count_def)

lemma append_rule_wf: "wf_puncturer e \<Longrightarrow> wf_rule r \<Longrightarrow> wf_puncturer (append_rule e r)"
  unfolding append_rule_def by (rule adjust_item_size_wf) (auto simp: wf_puncturer_def)

lemma append_tail_rule_wf:
  "wf_puncturer e \<Longrightarrow> wf_tail (Some r) \<Longrightarrow> wf_puncturer (append_tail_rule e r)"
  unfolding append_tail_rule_def by (rule adjust_item_size_wf) (auto simp: wf_puncturer_def)

lemma tail_bits_length:
  assumes "length ds = 3" "pr_pattern r AND 0xff000000 = 0"
  shows "length (tail_bits (pr_pattern r) ds) = bit_size r"
proof -
  let ?p = "pr_pattern r"
  have hi: "\<not> bit ?p i" if "24 \<le> i" "i < 32" for i
  proof -
    have "(0xff000000 :: u32) = push_bit 24 (mask 8)" by (simp add: mask_eq_exp_minus_1 push_bit_eq_mult)
    then have "bit (?p AND 0xff000000) i = bit ?p i" using that
      by (simp only: bit_and_iff bit_push_bit_iff bit_mask_iff) auto
    with assms(2) show ?thesis by simp
  qed
  have "bit_size r = length (nths (replicate 32 True) {i. picks 31 ?p (0 + i)})"
    using bit_size_loop_picks [of 31 32 ?p 0 0] by (simp add: bit_size_def mask_at_start)
  also have "replicate 32 True = replicate 8 True @ replicate 24 True"
    by (simp add: replicate_add [symmetric])
  also have "nths (replicate 8 True @ replicate 24 True) {i. picks 31 ?p (0 + i)} =
      nths (replicate 8 True) {i. picks 31 ?p (0 + i)} @ nths (replicate 24 True) {i. picks 31 ?p (i + 8)}"
    by (simp add: nths_append)
  also have "nths (replicate 8 True) {i. picks 31 ?p (0 + i)} = nths (replicate 8 True) {}"
    using hi by (intro nths_cong_length) (auto simp: picks_def)
  also have "nths (replicate 24 True) {i. picks 31 ?p (i + 8)} = nths (replicate 24 True) {i. picks 23 ?p (0 + i)}"
    by (rule nths_cong_length) (auto simp: picks_def)
  finally have "bit_size r = length (nths (replicate 24 True) {i. picks 23 ?p (0 + i)})" by simp
  also have "\<dots> = length (tail_bits ?p ds)"
    unfolding tail_bits_picks by (rule length_nths_cong) (simp add: assms)
  finally show ?thesis by simp
qed

lemma selected_length:
  assumes "wf_puncturer e" "length ds = d_in_block_size e"
  shows "length (selected e ds) = rules_count (d_rules e) + tail_count (d_tail_rule e)"
proof -
  have "rules_size (d_rules e) \<le> length ds" using assms by (simp add: wf_puncturer_def)
  then have "length (rules_bits (d_rules e) ds) = rules_count (d_rules e)"
    using assms by (intro rules_bits_length) (auto simp: wf_puncturer_def)
  moreover have "length (opt_tail_bits (d_tail_rule e) (drop (rules_size (d_rules e)) ds)) =
      tail_count (d_tail_rule e)"
  proof (cases "d_tail_rule e")
    case None
    then show ?thesis by (simp add: opt_tail_bits_def tail_count_def)
  next
    case (Some r)
    with assms have "length (drop (rules_size (d_rules e)) ds) = 3" "pr_pattern r AND 0xff000000 = 0"
      by (auto simp: wf_puncturer_def wf_tail_def tail_size_def)
    with Some show ?thesis by (simp add: opt_tail_bits_def tail_count_def tail_bits_length)
  qed
  ultimately show ?thesis by (simp add: selected_def)
qed

section \<open>A frame through the puncturer\<close>

lemma punct_run_ok:
  assumes rules: "\<forall>r \<in> set (d_rules e). wf_rule r" and tail: "wf_tail (d_tail_rule e)"
    and size: "d_in_block_size e = rules_size (d_rules e) + tail_size (d_tail_rule e)"
    and len: "length ds = d_in_block_size e"
    and room: "length (selected e ds) \<le> 8 * length out0"
  shows "\<exists>out. punct_run e ds out0 = Some (Inr out) \<and> length out = length out0 \<and>
     bits_of out = selected e ds @ replicate (8 * length out0 - length (selected e ds)) False"
proof -
  let ?n = "rules_size (d_rules e)"
  let ?s1 = "rules_bits (d_rules e) ds"
  let ?s2 = "opt_tail_bits (d_tail_rule e) (drop ?n ds)"
  have "\<exists>st'. punct_loop ds ?n (d_rules e) (d_rules e) 0 (out0, 0, 0) = Some (Inr (?n, st')) \<and>
      written st' ([] @ rules_bits (d_rules e) (drop 0 ds)) \<and> length (fst st') = length (fst (out0, 0 :: nat, 0 :: nat))"
    using rules size len room by (intro punct_loop_ok written_init) (auto simp: selected_def)
  then obtain st1 where st1: "punct_loop ds ?n (d_rules e) (d_rules e) 0 (out0, 0, 0) = Some (Inr (?n, st1))"
      "written st1 ?s1" "length (fst st1) = length out0" by auto
  have "\<exists>st2. punct_tail (d_tail_rule e) ds ?n st1 = Inr st2 \<and> written st2 (?s1 @ ?s2) \<and>
      length (fst st2) = length out0"
  proof (cases "d_tail_rule e")
    case None
    with st1 show ?thesis by (simp add: punct_tail_def opt_tail_bits_def)
  next
    case (Some r)
    have r: "unat (pr_length r) = 3" using tail Some by (simp add: wf_tail_def)
    have tk: "take 3 (drop ?n ds) = drop ?n ds" using len size Some r by (simp add: tail_size_def)
    have "\<exists>st2. punct_bytes 3 ds ?n (pr_pattern r) (mask_at 23 0) st1 = Inr st2 \<and>
        written st2 (?s1 @ nths (bits_of (take 3 (drop ?n ds))) {i. picks 23 (pr_pattern r) (0 + i)}) \<and>
        length (fst st2) = length (fst st1)"
      using st1 room len size Some r
      by (intro punct_bytes_ok)
        (auto simp: selected_def opt_tail_bits_def tail_bits_picks tk tail_size_def)
    with Some r st1(3) tk show ?thesis
      by (simp add: punct_tail_def opt_tail_bits_def tail_bits_picks mask_at_start)
  qed
  then obtain st2 where st2: "punct_tail (d_tail_rule e) ds ?n st1 = Inr st2"
      "written st2 (?s1 @ ?s2)" "length (fst st2) = length out0" by blast
  have lim: "(case d_tail_rule e of None \<Rightarrow> d_in_block_size e
      | Some r \<Rightarrow> d_in_block_size e - unat (pr_length r)) = ?n"
    using size by (simp add: tail_size_def split: option.splits)
  from punct_finish_ok [OF st2(2)] obtain out where
    "punct_finish st2 = Inr out" "length out = length out0"
    "bits_of out = (?s1 @ ?s2) @ replicate (8 * length out0 - length (?s1 @ ?s2)) False"
    unfolding st2(3) by blast
  with st1(1) st2(1) len lim show ?thesis by (simp add: punct_run_def selected_def)
qed

definition cu_ok :: "puncturing_encoder \<Rightarrow> bool" where
  "cu_ok e = (d_num_cu e = 0 \<or> d_num_cu e * 8 = d_out_block_size e \<or>
     d_num_cu e * 8 = d_out_block_size e + 1)"

definition padded_size :: "puncturing_encoder \<Rightarrow> nat" where
  "padded_size e = (if d_num_cu e = 0 then d_out_block_size e else d_num_cu e * 8)"

lemma punct_check_cu_ok:
  "cu_ok e \<Longrightarrow> punct_check_cu e = Inr (e\<lparr>d_out_block_size := padded_size e\<rparr>)"
  by (auto simp: cu_ok_def punct_check_cu_def padded_size_def Let_def)

lemma selected_update [simp]: "selected (e\<lparr>d_out_block_size := n\<rparr>) ds = selected e ds"
  by (simp add: selected_def)

lemma punct_process_ok:
  assumes wf: "wf_puncturer e" and cu: "cu_ok e" and len: "length ds = d_in_block_size e"
    and buf: "wf_buffer b" "never_fails alloc"
  shows "\<exists>out. punct_process alloc e ds b = Some (Inr (e\<lparr>d_out_block_size := padded_size e\<rparr>, out)) \<and>
     length out = padded_size e \<and>
     bits_of out = selected e ds @ replicate (8 * padded_size e - length (selected e ds)) False"
proof -
  let ?e = "e\<lparr>d_out_block_size := padded_size e\<rparr>"
  obtain b' where b': "setLength alloc b (padded_size e) = Inr b'"
    using setLength_ok [OF buf, of "padded_size e"] by blast
  have m: "length (contents b') = padded_size e" by (rule setLength_contents_length [OF buf b'])
  have "length (selected e ds) \<le> 8 * d_out_block_size e"
    using wf selected_length [OF wf len] by (simp add: wf_puncturer_def)
  also have "\<dots> \<le> 8 * padded_size e" using cu by (auto simp: cu_ok_def padded_size_def)
  finally have "length (selected ?e ds) \<le> 8 * length (contents b')" using m by simp
  then have "\<exists>out. punct_run ?e ds (contents b') = Some (Inr out) \<and> length out = length (contents b') \<and>
      bits_of out = selected ?e ds @ replicate (8 * length (contents b') - length (selected ?e ds)) False"
    using wf len by (intro punct_run_ok) (auto simp: wf_puncturer_def)
  then show ?thesis
    unfolding m using punct_check_cu_ok [OF cu] b' by (auto simp: punct_process_def)
qed

section \<open>Properties\<close>

text \<open>
  For every rule set whose lengths are multiples of four bytes, and whatever the output
  buffer held before, the puncturer returns, and its output is exactly the bits that the
  patterns select from the input, in order, followed by zero bits up to the block size.
\<close>

lemma puncturer_selects_bits:
  assumes "wf_puncturer e" and "cu_ok e" and "length ds = d_in_block_size e"
    and "wf_buffer b" and "never_fails alloc"
  shows "\<exists>e' out. punct_process alloc e ds b = Some (Inr (e', out)) \<and>
     bits_of out = selected e ds @ replicate (8 * length out - length (selected e ds)) False \<and>
     length out = (if d_num_cu e = 0 then (length (selected e ds) + 7) div 8 else d_num_cu e * 8)"
  using punct_process_ok [OF assms] assms(1) selected_length [OF assms(1,3)]
  by (auto simp: padded_size_def wf_puncturer_def)

lemma replicate_eq: "replicate (numeral n) x = x # replicate (pred_numeral n) x"
  by (simp add: numeral_eq_Suc)

lemma puncturer_example_bits:
  "wf_puncturer (append_rule (PuncturingEncoder 0) (PuncturingRule 4 0xeeeeeeec))"
  "selected (append_rule (PuncturingEncoder 0) (PuncturingRule 4 0xeeeeeeec)) [0xff, 0, 0, 0] =
     replicate 6 True @ replicate 17 False"
  "d_in_block_size (append_rule (PuncturingEncoder 0) (PuncturingRule 4 0xeeeeeeec)) = 4"
proof -
  show "wf_puncturer (append_rule (PuncturingEncoder 0) (PuncturingRule 4 0xeeeeeeec))"
    by (intro append_rule_wf PuncturingEncoder_wf) (simp add: wf_rule_def PuncturingRule_def)
  show "selected (append_rule (PuncturingEncoder 0) (PuncturingRule 4 0xeeeeeeec)) [0xff, 0, 0, 0] =
      replicate 6 True @ replicate 17 False"
    by (simp add: selected_def append_rule_def PuncturingEncoder_def PuncturingRule_def
        adjust_item_size_def Let_def opt_tail_bits_def rule_bits_def byte_bits_unfold nths_def
        upt_rec replicate_eq)
  show "d_in_block_size (append_rule (PuncturingEncoder 0) (PuncturingRule 4 0xeeeeeeec)) = 4"
    by (simp add: append_rule_def PuncturingEncoder_def PuncturingRule_def adjust_item_size_def
        int_rounds_def Let_def)
qed

lemma puncturer_selects_bits_witness:
  "\<exists>e' out. punct_process (\<lambda>n. Some (replicate n 0xaa))
       (append_rule (PuncturingEncoder 0) (PuncturingRule 4 0xeeeeeeec)) [0xff, 0, 0, 0] empty_buffer =
       Some (Inr (e', out)) \<and>
     length out = 3 \<and> bits_of out = replicate 6 True @ replicate 18 False"
proof -
  let ?e = "append_rule (PuncturingEncoder 0) (PuncturingRule 4 0xeeeeeeec)"
  have "d_num_cu ?e = 0"
    by (simp add: append_rule_def PuncturingEncoder_def adjust_item_size_def Let_def)
  then have "cu_ok ?e" by (simp add: cu_ok_def)
  moreover have "never_fails (\<lambda>n. Some (replicate n 0xaa))" by (simp add: never_fails_def)
  ultimately show ?thesis
    using puncturer_selects_bits [of ?e "[0xff, 0, 0, 0]" empty_buffer "\<lambda>n. Some (replicate n 0xaa)"]
      puncturer_example_bits \<open>d_num_cu ?e = 0\<close>
    by (auto simp: replicate_app_Cons_same replicate_add [symmetric])
qed

end
