(* ===== verification/Subchannel.thy ===== *)
theory Subchannel
  imports Puncturing
begin

text \<open>
  A subchannel of the ensemble, \<open>src/SubchannelSource.cpp\<close>: the puncturing rules of its
  protection profile, its size in capacity units, and the frame it hands to the chain. The
  rule tables and the capacity unit tables are separate pieces of the source; the lemmas
  show that they agree on every profile, so that a puncturer built from them never refuses
  its input or its size.
\<close>

section \<open>Puncturing vectors\<close>

definition P1 :: u32 where
  "P1 = 0xc8888888"

definition P2 :: u32 where
  "P2 = 0xc888c888"

definition P3 :: u32 where
  "P3 = 0xc8c8c888"

definition P4 :: u32 where
  "P4 = 0xc8c8c8c8"

definition P5 :: u32 where
  "P5 = 0xccc8c8c8"

definition P6 :: u32 where
  "P6 = 0xccc8ccc8"

definition P7 :: u32 where
  "P7 = 0xccccccc8"

definition P8 :: u32 where
  "P8 = 0xcccccccc"

definition P9 :: u32 where
  "P9 = 0xeccccccc"

definition P10 :: u32 where
  "P10 = 0xeccceccc"

definition P11 :: u32 where
  "P11 = 0xecececcc"

definition P12 :: u32 where
  "P12 = 0xecececec"

definition P13 :: u32 where
  "P13 = 0xeeececec"

definition P14 :: u32 where
  "P14 = 0xeeeceeec"

definition P15 :: u32 where
  "P15 = 0xeeeeeeec"

definition P16 :: u32 where
  "P16 = 0xeeeeeeee"

definition P17 :: u32 where
  "P17 = 0xfeeeeeee"

definition P18 :: u32 where
  "P18 = 0xfeeefeee"

definition P19 :: u32 where
  "P19 = 0xfefefeee"

definition P20 :: u32 where
  "P20 = 0xfefefefe"

definition P21 :: u32 where
  "P21 = 0xfffefefe"

definition P22 :: u32 where
  "P22 = 0xfffefffe"

definition P23 :: u32 where
  "P23 = 0xfffffffe"

definition P24 :: u32 where
  "P24 = 0xffffffff"

text \<open>\<open>d_puncturing_rules.emplace_back(n * 16, pattern)\<close>, with \<open>size_t\<close> arithmetic.\<close>

definition emplace :: "u64 \<Rightarrow> u32 \<Rightarrow> puncturing_rule" where
  "emplace n pattern = PuncturingRule (n * 16) pattern"

section \<open>The rules of the short form\<close>

definition uep_rules_32 :: "nat \<Rightarrow> puncturing_rule list option" where
  "uep_rules_32 level =
    (if level = 1 then Some [emplace 3 P24,
         emplace 5 P17,
         emplace 13 P12,
         emplace 3 P17]
      else if level = 2 then Some [emplace 3 P22,
         emplace 4 P13,
         emplace 14 P8,
         emplace 3 P13]
      else if level = 3 then Some [emplace 3 P15,
         emplace 4 P9,
         emplace 14 P6,
         emplace 3 P8]
      else if level = 4 then Some [emplace 3 P11,
         emplace 3 P6,
         emplace 18 P5]
      else if level = 5 then Some [emplace 3 P5,
         emplace 4 P3,
         emplace 17 P2]
      else None)"

definition uep_rules_48 :: "nat \<Rightarrow> puncturing_rule list option" where
  "uep_rules_48 level =
    (if level = 1 then Some [emplace 3 P24,
         emplace 5 P18,
         emplace 25 P13,
         emplace 3 P18]
      else if level = 2 then Some [emplace 3 P24,
         emplace 4 P14,
         emplace 26 P8,
         emplace 3 P15]
      else if level = 3 then Some [emplace 3 P15,
         emplace 4 P10,
         emplace 26 P6,
         emplace 3 P9]
      else if level = 4 then Some [emplace 3 P9,
         emplace 4 P6,
         emplace 26 P4,
         emplace 3 P6]
      else if level = 5 then Some [emplace 4 P5,
         emplace 3 P4,
         emplace 26 P2,
         emplace 3 P3]
      else None)"

definition uep_rules_56 :: "nat \<Rightarrow> puncturing_rule list option" where
  "uep_rules_56 level =
    (if level = 2 then Some [emplace 6 P23,
         emplace 10 P13,
         emplace 23 P8,
         emplace 3 P13]
      else if level = 3 then Some [emplace 6 P16,
         emplace 12 P7,
         emplace 21 P6,
         emplace 3 P9]
      else if level = 4 then Some [emplace 6 P9,
         emplace 10 P6,
         emplace 23 P4,
         emplace 3 P5]
      else if level = 5 then Some [emplace 6 P5,
         emplace 10 P4,
         emplace 23 P2,
         emplace 3 P3]
      else None)"

definition uep_rules_64 :: "nat \<Rightarrow> puncturing_rule list option" where
  "uep_rules_64 level =
    (if level = 1 then Some [emplace 6 P24,
         emplace 11 P18,
         emplace 28 P12,
         emplace 3 P18]
      else if level = 2 then Some [emplace 6 P23,
         emplace 10 P13,
         emplace 29 P8,
         emplace 3 P13]
      else if level = 3 then Some [emplace 6 P16,
         emplace 12 P8,
         emplace 27 P6,
         emplace 3 P9]
      else if level = 4 then Some [emplace 6 P11,
         emplace 9 P6,
         emplace 33 P5]
      else if level = 5 then Some [emplace 6 P5,
         emplace 9 P3,
         emplace 31 P2,
         emplace 2 P3]
      else None)"

definition uep_rules_80 :: "nat \<Rightarrow> puncturing_rule list option" where
  "uep_rules_80 level =
    (if level = 1 then Some [emplace 6 P24,
         emplace 10 P17,
         emplace 41 P12,
         emplace 3 P18]
      else if level = 2 then Some [emplace 6 P23,
         emplace 10 P13,
         emplace 41 P8,
         emplace 3 P13]
      else if level = 3 then Some [emplace 6 P16,
         emplace 11 P8,
         emplace 40 P6,
         emplace 3 P7]
      else if level = 4 then Some [emplace 6 P11,
         emplace 10 P6,
         emplace 41 P5,
         emplace 3 P6]
      else if level = 5 then Some [emplace 6 P6,
         emplace 10 P3,
         emplace 41 P2,
         emplace 3 P3]
      else None)"

definition uep_rules_96 :: "nat \<Rightarrow> puncturing_rule list option" where
  "uep_rules_96 level =
    (if level = 1 then Some [emplace 6 P24,
         emplace 13 P18,
         emplace 50 P13,
         emplace 3 P19]
      else if level = 2 then Some [emplace 6 P22,
         emplace 10 P12,
         emplace 53 P9,
         emplace 3 P12]
      else if level = 3 then Some [emplace 6 P16,
         emplace 12 P9,
         emplace 51 P6,
         emplace 3 P10]
      else if level = 4 then Some [emplace 7 P9,
         emplace 10 P6,
         emplace 52 P4,
         emplace 3 P6]
      else if level = 5 then Some [emplace 7 P5,
         emplace 9 P4,
         emplace 53 P2,
         emplace 3 P4]
      else None)"

definition uep_rules_112 :: "nat \<Rightarrow> puncturing_rule list option" where
  "uep_rules_112 level =
    (if level = 2 then Some [emplace 11 P23,
         emplace 21 P12,
         emplace 49 P9,
         emplace 3 P14]
      else if level = 3 then Some [emplace 11 P16,
         emplace 23 P8,
         emplace 47 P6,
         emplace 3 P9]
      else if level = 4 then Some [emplace 11 P9,
         emplace 21 P6,
         emplace 49 P4,
         emplace 3 P8]
      else if level = 5 then Some [emplace 14 P5,
         emplace 17 P4,
         emplace 50 P2,
         emplace 3 P5]
      else None)"

definition uep_rules_128 :: "nat \<Rightarrow> puncturing_rule list option" where
  "uep_rules_128 level =
    (if level = 1 then Some [emplace 11 P24,
         emplace 20 P17,
         emplace 62 P13,
         emplace 3 P19]
      else if level = 2 then Some [emplace 11 P22,
         emplace 21 P12,
         emplace 61 P9,
         emplace 3 P14]
      else if level = 3 then Some [emplace 11 P16,
         emplace 22 P9,
         emplace 60 P6,
         emplace 3 P10]
      else if level = 4 then Some [emplace 11 P11,
         emplace 21 P6,
         emplace 61 P5,
         emplace 3 P7]
      else if level = 5 then Some [emplace 12 P5,
         emplace 19 P3,
         emplace 62 P2,
         emplace 3 P4]
      else None)"

definition uep_rules_160 :: "nat \<Rightarrow> puncturing_rule list option" where
  "uep_rules_160 level =
    (if level = 1 then Some [emplace 11 P24,
         emplace 22 P18,
         emplace 84 P12,
         emplace 3 P19]
      else if level = 2 then Some [emplace 11 P22,
         emplace 21 P11,
         emplace 85 P9,
         emplace 3 P13]
      else if level = 3 then Some [emplace 11 P16,
         emplace 24 P8,
         emplace 82 P6,
         emplace 3 P11]
      else if level = 4 then Some [emplace 11 P11,
         emplace 23 P6,
         emplace 83 P5,
         emplace 3 P9]
      else if level = 5 then Some [emplace 11 P5,
         emplace 19 P4,
         emplace 87 P2,
         emplace 3 P4]
      else None)"

definition uep_rules_192 :: "nat \<Rightarrow> puncturing_rule list option" where
  "uep_rules_192 level =
    (if level = 1 then Some [emplace 11 P24,
         emplace 21 P20,
         emplace 109 P13,
         emplace 3 P24]
      else if level = 2 then Some [emplace 11 P22,
         emplace 20 P13,
         emplace 110 P9,
         emplace 3 P13]
      else if level = 3 then Some [emplace 11 P16,
         emplace 24 P10,
         emplace 106 P6,
         emplace 3 P11]
      else if level = 4 then Some [emplace 11 P10,
         emplace 22 P6,
         emplace 108 P4,
         emplace 3 P9]
      else if level = 5 then Some [emplace 11 P6,
         emplace 20 P4,
         emplace 110 P2,
         emplace 3 P5]
      else None)"

definition uep_rules_224 :: "nat \<Rightarrow> puncturing_rule list option" where
  "uep_rules_224 level =
    (if level = 1 then Some [emplace 11 P24,
         emplace 24 P20,
         emplace 130 P12,
         emplace 3 P20]
      else if level = 2 then Some [emplace 11 P24,
         emplace 22 P16,
         emplace 132 P10,
         emplace 3 P15]
      else if level = 3 then Some [emplace 11 P16,
         emplace 20 P10,
         emplace 134 P7,
         emplace 3 P9]
      else if level = 4 then Some [emplace 12 P12,
         emplace 26 P8,
         emplace 127 P4,
         emplace 3 P11]
      else if level = 5 then Some [emplace 12 P8,
         emplace 22 P6,
         emplace 131 P2,
         emplace 3 P6]
      else None)"

definition uep_rules_256 :: "nat \<Rightarrow> puncturing_rule list option" where
  "uep_rules_256 level =
    (if level = 1 then Some [emplace 11 P24,
         emplace 26 P19,
         emplace 152 P14,
         emplace 3 P18]
      else if level = 2 then Some [emplace 11 P24,
         emplace 22 P14,
         emplace 156 P10,
         emplace 3 P13]
      else if level = 3 then Some [emplace 11 P16,
         emplace 27 P10,
         emplace 151 P7,
         emplace 3 P10]
      else if level = 4 then Some [emplace 11 P12,
         emplace 24 P9,
         emplace 154 P5,
         emplace 3 P10]
      else if level = 5 then Some [emplace 11 P6,
         emplace 24 P5,
         emplace 154 P2,
         emplace 3 P5]
      else None)"

definition uep_rules_320 :: "nat \<Rightarrow> puncturing_rule list option" where
  "uep_rules_320 level =
    (if level = 2 then Some [emplace 11 P24,
         emplace 26 P17,
         emplace 200 P9,
         emplace 3 P17]
      else if level = 4 then Some [emplace 11 P13,
         emplace 25 P9,
         emplace 201 P5,
         emplace 3 P10]
      else if level = 5 then Some [emplace 11 P8,
         emplace 26 P5,
         emplace 200 P2,
         emplace 3 P6]
      else None)"

definition uep_rules_384 :: "nat \<Rightarrow> puncturing_rule list option" where
  "uep_rules_384 level =
    (if level = 1 then Some [emplace 12 P24,
         emplace 28 P20,
         emplace 245 P14,
         emplace 3 P23]
      else if level = 3 then Some [emplace 11 P16,
         emplace 24 P9,
         emplace 250 P7,
         emplace 3 P10]
      else if level = 5 then Some [emplace 11 P8,
         emplace 27 P6,
         emplace 247 P2,
         emplace 3 P7]
      else None)"

text \<open>The switch over the bitrate; None stands for \<open>rule_error\<close>.\<close>

definition uep_rules :: "nat \<Rightarrow> nat \<Rightarrow> puncturing_rule list option" where
  "uep_rules br level =
    (if br = 32 then uep_rules_32 level
      else if br = 48 then uep_rules_48 level
      else if br = 56 then uep_rules_56 level
      else if br = 64 then uep_rules_64 level
      else if br = 80 then uep_rules_80 level
      else if br = 96 then uep_rules_96 level
      else if br = 112 then uep_rules_112 level
      else if br = 128 then uep_rules_128 level
      else if br = 160 then uep_rules_160 level
      else if br = 192 then uep_rules_192 level
      else if br = 224 then uep_rules_224 level
      else if br = 256 then uep_rules_256 level
      else if br = 320 then uep_rules_320 level
      else if br = 384 then uep_rules_384 level
      else None)"

section \<open>Capacity units of the short form\<close>

text \<open>None stands for 0xffff.\<close>

definition uep_cu_32 :: "nat \<Rightarrow> nat option" where
  "uep_cu_32 level =
    (if level = 1 then Some 35
      else if level = 2 then Some 29
      else if level = 3 then Some 24
      else if level = 4 then Some 21
      else if level = 5 then Some 16
      else None)"

definition uep_cu_48 :: "nat \<Rightarrow> nat option" where
  "uep_cu_48 level =
    (if level = 1 then Some 52
      else if level = 2 then Some 42
      else if level = 3 then Some 35
      else if level = 4 then Some 29
      else if level = 5 then Some 24
      else None)"

definition uep_cu_56 :: "nat \<Rightarrow> nat option" where
  "uep_cu_56 level =
    (if level = 2 then Some 52
      else if level = 3 then Some 42
      else if level = 4 then Some 35
      else if level = 5 then Some 29
      else None)"

definition uep_cu_64 :: "nat \<Rightarrow> nat option" where
  "uep_cu_64 level =
    (if level = 1 then Some 70
      else if level = 2 then Some 58
      else if level = 3 then Some 48
      else if level = 4 then Some 42
      else if level = 5 then Some 32
      else None)"

definition uep_cu_80 :: "nat \<Rightarrow> nat option" where
  "uep_cu_80 level =
    (if level = 1 then Some 84
      else if level = 2 then Some 70
      else if level = 3 then Some 58
      else if level = 4 then Some 52
      else if level = 5 then Some 40
      else None)"

definition uep_cu_96 :: "nat \<Rightarrow> nat option" where
  "uep_cu_96 level =
    (if level = 1 then Some 104
      else if level = 2 then Some 84
      else if level = 3 then Some 70
      else if level = 4 then Some 58
      else if level = 5 then Some 48
      else None)"

definition uep_cu_112 :: "nat \<Rightarrow> nat option" where
  "uep_cu_112 level =
    (if level = 2 then Some 104
      else if level = 3 then Some 84
      else if level = 4 then Some 70
      else if level = 5 then Some 58
      else None)"

definition uep_cu_128 :: "nat \<Rightarrow> nat option" where
  "uep_cu_128 level =
    (if level = 1 then Some 140
      else if level = 2 then Some 116
      else if level = 3 then Some 96
      else if level = 4 then Some 84
      else if level = 5 then Some 64
      else None)"

definition uep_cu_160 :: "nat \<Rightarrow> nat option" where
  "uep_cu_160 level =
    (if level = 1 then Some 168
      else if level = 2 then Some 140
      else if level = 3 then Some 116
      else if level = 4 then Some 104
      else if level = 5 then Some 80
      else None)"

definition uep_cu_192 :: "nat \<Rightarrow> nat option" where
  "uep_cu_192 level =
    (if level = 1 then Some 208
      else if level = 2 then Some 168
      else if level = 3 then Some 140
      else if level = 4 then Some 116
      else if level = 5 then Some 96
      else None)"

definition uep_cu_224 :: "nat \<Rightarrow> nat option" where
  "uep_cu_224 level =
    (if level = 1 then Some 232
      else if level = 2 then Some 208
      else if level = 3 then Some 168
      else if level = 4 then Some 140
      else if level = 5 then Some 116
      else None)"

definition uep_cu_256 :: "nat \<Rightarrow> nat option" where
  "uep_cu_256 level =
    (if level = 1 then Some 280
      else if level = 2 then Some 232
      else if level = 3 then Some 192
      else if level = 4 then Some 168
      else if level = 5 then Some 128
      else None)"

definition uep_cu_320 :: "nat \<Rightarrow> nat option" where
  "uep_cu_320 level =
    (if level = 2 then Some 280
      else if level = 4 then Some 208
      else if level = 5 then Some 160
      else None)"

definition uep_cu_384 :: "nat \<Rightarrow> nat option" where
  "uep_cu_384 level =
    (if level = 1 then Some 416
      else if level = 3 then Some 280
      else if level = 5 then Some 192
      else None)"

definition uep_cu :: "nat \<Rightarrow> nat \<Rightarrow> nat option" where
  "uep_cu br level =
    (if br = 32 then uep_cu_32 level
      else if br = 48 then uep_cu_48 level
      else if br = 56 then uep_cu_56 level
      else if br = 64 then uep_cu_64 level
      else if br = 80 then uep_cu_80 level
      else if br = 96 then uep_cu_96 level
      else if br = 112 then uep_cu_112 level
      else if br = 128 then uep_cu_128 level
      else if br = 160 then uep_cu_160 level
      else if br = 192 then uep_cu_192 level
      else if br = 224 then uep_cu_224 level
      else if br = 256 then uep_cu_256 level
      else if br = 320 then uep_cu_320 level
      else if br = 384 then uep_cu_384 level
      else None)"

section \<open>The rules of the long form\<close>

text \<open>
  The bitrate is a small number, so only the subtractions can wrap: their operands are
  64-bit words.
\<close>

definition eep_rules_A :: "nat \<Rightarrow> nat \<Rightarrow> puncturing_rule list result" where
  "eep_rules_A br level =
     (if level = 1 then
        Inr [emplace (of_nat (6 * br div 8) - 3) P24, emplace 3 P23]
      else if level = 2 then
        (if br = 8 then Inr [emplace 5 P13, emplace 1 P12]
         else Inr [emplace (of_nat (2 * br div 8) - 3) P14, emplace (of_nat (4 * br div 8) + 3) P13])
      else if level = 3 then
        Inr [emplace (of_nat (6 * br div 8) - 3) P8, emplace 3 P7]
      else if level = 4 then
        Inr [emplace (of_nat (4 * br div 8) - 3) P3, emplace (of_nat (2 * br div 8) + 3) P2]
      else Inl (RuntimeError ''SubchannelSource::SubchannelSource unknown protection level!''))"

definition eep_rules_B :: "nat \<Rightarrow> nat \<Rightarrow> puncturing_rule list result" where
  "eep_rules_B br level =
     (if level = 1 then
        Inr [emplace (of_nat (24 * br div 32) - 3) P10, emplace 3 P9]
      else if level = 2 then
        Inr [emplace (of_nat (24 * br div 32) - 3) P6, emplace 3 P5]
      else if level = 3 then
        Inr [emplace (of_nat (24 * br div 32) - 3) P4, emplace 3 P3]
      else if level = 4 then
        Inr [emplace (of_nat (24 * br div 32) - 3) P2, emplace 3 P1]
      else Inl (RuntimeError ''SubchannelSource::SubchannelSource unknown protection level!''))"

section \<open>The source\<close>

record subchannel_source =
  sc_start_address :: nat
  sc_framesize :: nat
  sc_protection :: nat
  sc_buffer :: bytes
  sc_rules :: "puncturing_rule list"

definition bitrate :: "subchannel_source \<Rightarrow> nat" where
  "bitrate s = sc_framesize s div 3"

definition protectionForm :: "subchannel_source \<Rightarrow> nat" where
  "protectionForm s = sc_protection s div 2 ^ 5 mod 2"

definition protectionLevel :: "subchannel_source \<Rightarrow> nat" where
  "protectionLevel s =
     (if protectionForm s \<noteq> 0 then sc_protection s mod 4 + 1 else sc_protection s mod 8 + 1)"

definition protectionOption :: "subchannel_source \<Rightarrow> nat" where
  "protectionOption s = (if protectionForm s \<noteq> 0 then sc_protection s div 2 ^ 2 mod 8 else 0)"

definition SubchannelSource :: "u16 \<Rightarrow> u16 \<Rightarrow> u8 \<Rightarrow> subchannel_source result" where
  "SubchannelSource sad stl tpl =
     (let s = \<lparr>sc_start_address = unat sad, sc_framesize = unat stl * 8,
               sc_protection = unat tpl, sc_buffer = [], sc_rules = []\<rparr>
      in bindE
           (if protectionForm s \<noteq> 0 then
              (if protectionOption s = 0 then eep_rules_A (bitrate s) (protectionLevel s)
               else if protectionOption s = 1 then eep_rules_B (bitrate s) (protectionLevel s)
               else Inl (RuntimeError ''SubchannelSource::SubchannelSource unknown protection option!''))
            else
              (case uep_rules (bitrate s) (protectionLevel s) of
                 None \<Rightarrow> Inl (RuntimeError ''ubchannelSource UEP puncturing rules do not exist!'')
               | Some rs \<Rightarrow> Inr rs))
           (\<lambda>rs. Inr (s\<lparr>sc_rules := rs\<rparr>)))"

definition framesizeCu :: "subchannel_source \<Rightarrow> nat result" where
  "framesizeCu s =
     (let cu =
        (if protectionForm s \<noteq> 0 then
           (if sc_protection s div 2 ^ 2 mod 8 \<noteq> 0 then
              (if sc_protection s mod 4 = 0 then (bitrate s div 32) * 27
               else if sc_protection s mod 4 = 1 then (bitrate s div 32) * 21
               else if sc_protection s mod 4 = 2 then (bitrate s div 32) * 18
               else if sc_protection s mod 4 = 3 then (bitrate s div 32) * 15
               else 0xffff)
            else
              (if sc_protection s mod 4 = 0 then (bitrate s div 8) * 12
               else if sc_protection s mod 4 = 1 then (bitrate s div 8) * 8
               else if sc_protection s mod 4 = 2 then (bitrate s div 8) * 6
               else if sc_protection s mod 4 = 3 then (bitrate s div 8) * 4
               else 0xffff))
         else
           (case uep_cu (bitrate s) (protectionLevel s) of None \<Rightarrow> 0xffff | Some n \<Rightarrow> n))
      in if cu = 0 then Inl (RuntimeError ''SubchannelSource::framesizeCu protection not yet coded!'')
         else if cu = 0xffff then Inl (RuntimeError ''SubchannelSource::framesizeCu invalid protection!'')
         else Inr cu)"

definition loadSubchannelData :: "subchannel_source \<Rightarrow> bytes \<Rightarrow> subchannel_source" where
  "loadSubchannelData s data = s\<lparr>sc_buffer := data\<rparr>"

definition subchannel_process :: "subchannel_source \<Rightarrow> (bytes \<times> nat) result" where
  "subchannel_process s =
     (if length (sc_buffer s) \<noteq> sc_framesize s
      then Inl (RuntimeError ''ERROR: Subchannel::process: d_buffer != d_framesize: '')
      else Inr (sc_buffer s, length (sc_buffer s)))"

section \<open>The puncturer the modulator builds for it\<close>

text \<open>\<open>DabModulator::process\<close>: the rules in order, then the tail rule.\<close>

definition build_puncturer :: "nat \<Rightarrow> puncturing_rule list \<Rightarrow> puncturing_encoder" where
  "build_puncturer num_cu rules =
     append_tail_rule (foldl append_rule (PuncturingEncoder num_cu) rules)
       (PuncturingRule 3 0xcccccc)"

section \<open>Sizes of the rules\<close>

lemma emplace_simps:
  "pr_length (emplace n p) = n * 16"
  "pr_pattern (emplace n p) = p"
  by (simp_all add: emplace_def PuncturingRule_def)

lemma bit_size_loop_eq:
  "bit_size_loop n p m b =
     (if n = 0 then b else bit_size_loop (n - 1) p (shr m 1) (if p AND m \<noteq> 0 then Suc b else b))"
  by (cases n) auto

lemma bit_size_filter:
  "bit_size r = length (filter (\<lambda>i. bit (pr_pattern r) (31 - i)) [0..<32])"
proof -
  have "bit_size r = length (nths (replicate 32 True) {i. picks 31 (pr_pattern r) (0 + i)})"
    using bit_size_loop_picks [of 31 32 "pr_pattern r" 0 0] by (simp add: bit_size_def mask_at_start)
  also have "\<dots> = card {i. i < 32 \<and> bit (pr_pattern r) (31 - i)}"
    by (rule trans [OF length_nths]) (auto simp: picks_def intro!: arg_cong [where f = card])
  also have "\<dots> = length (filter (\<lambda>i. bit (pr_pattern r) (31 - i)) [0..<32])"
    by (subst length_filter_conv_card) (auto intro!: arg_cong [where f = card])
  finally show ?thesis .
qed

lemma bit_size_P [simp]:
  "bit_size (emplace n P1) = 9"
  "bit_size (emplace n P2) = 10"
  "bit_size (emplace n P3) = 11"
  "bit_size (emplace n P4) = 12"
  "bit_size (emplace n P5) = 13"
  "bit_size (emplace n P6) = 14"
  "bit_size (emplace n P7) = 15"
  "bit_size (emplace n P8) = 16"
  "bit_size (emplace n P9) = 17"
  "bit_size (emplace n P10) = 18"
  "bit_size (emplace n P11) = 19"
  "bit_size (emplace n P12) = 20"
  "bit_size (emplace n P13) = 21"
  "bit_size (emplace n P14) = 22"
  "bit_size (emplace n P15) = 23"
  "bit_size (emplace n P16) = 24"
  "bit_size (emplace n P17) = 25"
  "bit_size (emplace n P18) = 26"
  "bit_size (emplace n P19) = 27"
  "bit_size (emplace n P20) = 28"
  "bit_size (emplace n P21) = 29"
  "bit_size (emplace n P22) = 30"
  "bit_size (emplace n P23) = 31"
  "bit_size (emplace n P24) = 32"
  by (simp_all add: bit_size_filter emplace_simps upt_rec
    P1_def P2_def P3_def P4_def P5_def P6_def P7_def P8_def P9_def P10_def P11_def P12_def
    P13_def P14_def P15_def P16_def P17_def P18_def P19_def P20_def P21_def P22_def P23_def P24_def)

lemma bit_size_tail [simp]: "bit_size (PuncturingRule 3 0xcccccc) = 12"
  by (simp add: bit_size_filter PuncturingRule_def upt_rec)

text \<open>
  The size condition of one profile at a bitrate: the rules consume four times the frame,
  and with the twelve tail bits they fill the capacity units, up to one byte of padding.
\<close>

definition fits :: "nat \<Rightarrow> puncturing_rule list \<Rightarrow> nat \<Rightarrow> bool" where
  "fits br rs cu =
     ((\<forall>r \<in> set rs. wf_rule r) \<and> rules_size rs = 12 * br \<and>
      (cu * 8 = (rules_count rs + 12 + 7) div 8 \<or> cu * 8 = (rules_count rs + 12 + 7) div 8 + 1))"

lemma if_Some_elims:
  "(if b then Some x else r) = Some y \<Longrightarrow> (b \<Longrightarrow> x = y \<Longrightarrow> P) \<Longrightarrow> (\<not> b \<Longrightarrow> r = Some y \<Longrightarrow> P) \<Longrightarrow> P"
  by (auto split: if_splits)

lemma if_eq_elims:
  "(if b then x else r) = y \<Longrightarrow> (b \<Longrightarrow> x = y \<Longrightarrow> P) \<Longrightarrow> (\<not> b \<Longrightarrow> r = y \<Longrightarrow> P) \<Longrightarrow> P"
  by (auto split: if_splits)

lemma None_Some_elim: "None = Some y \<Longrightarrow> P"
  by simp

lemmas fits_simps = fits_def wf_rule_def rules_count_def emplace_simps

lemma uep_fits_32:
  "uep_rules_32 level = Some rs \<Longrightarrow> \<exists>cu. uep_cu_32 level = Some cu \<and> fits 32 rs cu"
  unfolding uep_rules_32_def uep_cu_32_def
  by (elim if_Some_elims None_Some_elim) (auto simp: fits_simps)

lemma uep_fits_48:
  "uep_rules_48 level = Some rs \<Longrightarrow> \<exists>cu. uep_cu_48 level = Some cu \<and> fits 48 rs cu"
  unfolding uep_rules_48_def uep_cu_48_def
  by (elim if_Some_elims None_Some_elim) (auto simp: fits_simps)

lemma uep_fits_56:
  "uep_rules_56 level = Some rs \<Longrightarrow> \<exists>cu. uep_cu_56 level = Some cu \<and> fits 56 rs cu"
  unfolding uep_rules_56_def uep_cu_56_def
  by (elim if_Some_elims None_Some_elim) (auto simp: fits_simps)

lemma uep_fits_64:
  "uep_rules_64 level = Some rs \<Longrightarrow> \<exists>cu. uep_cu_64 level = Some cu \<and> fits 64 rs cu"
  unfolding uep_rules_64_def uep_cu_64_def
  by (elim if_Some_elims None_Some_elim) (auto simp: fits_simps)

lemma uep_fits_80:
  "uep_rules_80 level = Some rs \<Longrightarrow> \<exists>cu. uep_cu_80 level = Some cu \<and> fits 80 rs cu"
  unfolding uep_rules_80_def uep_cu_80_def
  by (elim if_Some_elims None_Some_elim) (auto simp: fits_simps)

lemma uep_fits_96:
  "uep_rules_96 level = Some rs \<Longrightarrow> \<exists>cu. uep_cu_96 level = Some cu \<and> fits 96 rs cu"
  unfolding uep_rules_96_def uep_cu_96_def
  by (elim if_Some_elims None_Some_elim) (auto simp: fits_simps)

lemma uep_fits_112:
  "uep_rules_112 level = Some rs \<Longrightarrow> \<exists>cu. uep_cu_112 level = Some cu \<and> fits 112 rs cu"
  unfolding uep_rules_112_def uep_cu_112_def
  by (elim if_Some_elims None_Some_elim) (auto simp: fits_simps)

lemma uep_fits_128:
  "uep_rules_128 level = Some rs \<Longrightarrow> \<exists>cu. uep_cu_128 level = Some cu \<and> fits 128 rs cu"
  unfolding uep_rules_128_def uep_cu_128_def
  by (elim if_Some_elims None_Some_elim) (auto simp: fits_simps)

lemma uep_fits_160:
  "uep_rules_160 level = Some rs \<Longrightarrow> \<exists>cu. uep_cu_160 level = Some cu \<and> fits 160 rs cu"
  unfolding uep_rules_160_def uep_cu_160_def
  by (elim if_Some_elims None_Some_elim) (auto simp: fits_simps)

lemma uep_fits_192:
  "uep_rules_192 level = Some rs \<Longrightarrow> \<exists>cu. uep_cu_192 level = Some cu \<and> fits 192 rs cu"
  unfolding uep_rules_192_def uep_cu_192_def
  by (elim if_Some_elims None_Some_elim) (auto simp: fits_simps)

lemma uep_fits_224:
  "uep_rules_224 level = Some rs \<Longrightarrow> \<exists>cu. uep_cu_224 level = Some cu \<and> fits 224 rs cu"
  unfolding uep_rules_224_def uep_cu_224_def
  by (elim if_Some_elims None_Some_elim) (auto simp: fits_simps)

lemma uep_fits_256:
  "uep_rules_256 level = Some rs \<Longrightarrow> \<exists>cu. uep_cu_256 level = Some cu \<and> fits 256 rs cu"
  unfolding uep_rules_256_def uep_cu_256_def
  by (elim if_Some_elims None_Some_elim) (auto simp: fits_simps)

lemma uep_fits_320:
  "uep_rules_320 level = Some rs \<Longrightarrow> \<exists>cu. uep_cu_320 level = Some cu \<and> fits 320 rs cu"
  unfolding uep_rules_320_def uep_cu_320_def
  by (elim if_Some_elims None_Some_elim) (auto simp: fits_simps)

lemma uep_fits_384:
  "uep_rules_384 level = Some rs \<Longrightarrow> \<exists>cu. uep_cu_384 level = Some cu \<and> fits 384 rs cu"
  unfolding uep_rules_384_def uep_cu_384_def
  by (elim if_Some_elims None_Some_elim) (auto simp: fits_simps)

lemma uep_fits:
  assumes "uep_rules br level = Some rs"
  shows "\<exists>cu. uep_cu br level = Some cu \<and> fits br rs cu"
  using assms unfolding uep_rules_def uep_cu_def
  by (elim if_eq_elims None_Some_elim)
    (simp_all add: uep_fits_32 uep_fits_48 uep_fits_56 uep_fits_64 uep_fits_80 uep_fits_96 uep_fits_112 uep_fits_128 uep_fits_160 uep_fits_192 uep_fits_224 uep_fits_256 uep_fits_320 uep_fits_384)

section \<open>Long form profiles\<close>

lemma unat_minus_3:
  assumes "3 \<le> k" "k < 2 ^ 24"
  shows "unat ((of_nat k - 3) * 16 :: u64) = (k - 3) * 16"
proof -
  have "(of_nat k - 3) * 16 = (of_nat ((k - 3) * 16) :: u64)"
    using assms(1) by (simp add: of_nat_diff)
  moreover have "unat (of_nat ((k - 3) * 16) :: u64) = (k - 3) * 16"
    by (rule unat_of_nat_small) (use assms in simp)
  ultimately show ?thesis by simp
qed

lemma unat_plus_3:
  assumes "k < 2 ^ 24"
  shows "unat ((of_nat k + 3) * 16 :: u64) = (k + 3) * 16"
proof -
  have "(of_nat k + 3) * 16 = (of_nat ((k + 3) * 16) :: u64)" by simp
  moreover have "unat (of_nat ((k + 3) * 16) :: u64) = (k + 3) * 16"
    by (rule unat_of_nat_small) (use assms in simp)
  ultimately show ?thesis by simp
qed

text \<open>\<open>len_is n k\<close>: the 64-bit product \<open>n * 16\<close> is sixteen times \<open>k\<close>, without wrap-around.\<close>

definition len_is :: "u64 \<Rightarrow> nat \<Rightarrow> bool" where
  "len_is n k = (unat (n * 16) = k * 16 \<and> k < 2 ^ 26)"

lemma len_is_minus_3: "3 \<le> k \<Longrightarrow> k < 2 ^ 24 \<Longrightarrow> len_is (of_nat k - 3) (k - 3)"
  unfolding len_is_def by (simp only: unat_minus_3) simp

lemma len_is_plus_3: "k < 2 ^ 24 \<Longrightarrow> len_is (of_nat k + 3) (k + 3)"
  unfolding len_is_def by (simp only: unat_plus_3) simp

lemma len_is_small: "len_is 3 3" "len_is 5 5" "len_is 1 1"
  by (simp_all add: len_is_def)

lemma two_rules_fit:
  assumes "len_is a x" "len_is b y"
    and "(x + y) * 16 = 12 * br"
    and "cu * 8 = (4 * (x * bit_size (emplace a p) + y * bit_size (emplace b q)) + 19) div 8"
  shows "fits br [emplace a p, emplace b q] cu"
proof -
  have "unat (a * 16) = x * 16" "unat (b * 16) = y * 16" "x < 2 ^ 26" "y < 2 ^ 26"
    using assms(1,2) by (auto simp: len_is_def)
  with assms(3,4) show ?thesis by (simp add: fits_simps algebra_simps)
qed

lemma eep_A_fits:
  assumes "eep_rules_A (8 * n) level = Inr rs" "0 < n" "n < 2 ^ 16"
  shows "fits (8 * n) rs
    (if level = 1 then n * 12 else if level = 2 then n * 8 else if level = 3 then n * 6 else n * 4)"
proof -
  have a: "6 * (8 * n) div 8 = 6 * n" "4 * (8 * n) div 8 = 4 * n" "2 * (8 * n) div 8 = 2 * n"
    by simp_all
  have l: "len_is (of_nat (6 * n) - 3) (6 * n - 3)" "len_is (of_nat (4 * n) - 3) (4 * n - 3)"
      "len_is (of_nat (2 * n) + 3) (2 * n + 3)" "len_is (of_nat (4 * n) + 3) (4 * n + 3)"
    by (rule len_is_minus_3 len_is_plus_3; use assms(2,3) in simp)+
  have l2: "8 * n \<noteq> 8 \<Longrightarrow> len_is (of_nat (2 * n) - 3) (2 * n - 3)"
    by (rule len_is_minus_3) (use assms(2,3) in simp_all)
  obtain m where n: "n = Suc m" using assms(2) by (cases n) auto
  have level2: "fits (8 * n) [emplace (of_nat (2 * n) - 3) P14, emplace (of_nat (4 * n) + 3) P13] (n * 8)"
    if "8 * n \<noteq> 8"
  proof -
    have "m \<noteq> 0" using that n by simp
    then obtain k where "n = Suc (Suc k)" using n by (cases m) simp_all
    then show ?thesis by (intro two_rules_fit [OF l2 [OF that] l(4)]) simp_all
  qed
  have f1: "fits (8 * n) [emplace (of_nat (6 * n) - 3) P24, emplace 3 P23] (n * 12)"
    by (rule two_rules_fit [OF l(1) len_is_small(1)]) (simp_all add: n)
  have f2: "fits (8 * n) [emplace 5 P13, emplace 1 P12] (n * 8)" if "8 * n = 8"
    by (rule two_rules_fit [OF len_is_small(2,3)]) (use that in simp_all)
  have f3: "fits (8 * n) [emplace (of_nat (6 * n) - 3) P8, emplace 3 P7] (n * 6)"
    by (rule two_rules_fit [OF l(1) len_is_small(1)]) (simp_all add: n)
  have f4: "fits (8 * n) [emplace (of_nat (4 * n) - 3) P3, emplace (of_nat (2 * n) + 3) P2] (n * 4)"
    by (rule two_rules_fit [OF l(2,3)]) (simp_all add: n)
  show ?thesis
    using assms(1) unfolding eep_rules_A_def a
    by (elim if_eq_elims) (use f1 f2 level2 f3 f4 in \<open>auto simp del: of_nat_mult\<close>)
qed

lemma eep_B_fits:
  assumes "eep_rules_B (32 * n) level = Inr rs" "0 < n" "n < 2 ^ 16"
  shows "fits (32 * n) rs
    (if level = 1 then n * 27 else if level = 2 then n * 21 else if level = 3 then n * 18 else n * 15)"
proof -
  have a: "24 * (32 * n) div 32 = 24 * n" by simp
  have l: "len_is (of_nat (24 * n) - 3) (24 * n - 3)"
    by (rule len_is_minus_3) (use assms(2,3) in simp_all)
  obtain m where n: "n = Suc m" using assms(2) by (cases n) auto
  have f: "fits (32 * n) [emplace (of_nat (24 * n) - 3) P10, emplace 3 P9] (n * 27)"
    "fits (32 * n) [emplace (of_nat (24 * n) - 3) P6, emplace 3 P5] (n * 21)"
    "fits (32 * n) [emplace (of_nat (24 * n) - 3) P4, emplace 3 P3] (n * 18)"
    "fits (32 * n) [emplace (of_nat (24 * n) - 3) P2, emplace 3 P1] (n * 15)"
    by (rule two_rules_fit [OF l len_is_small(1)]; simp add: n)+
  show ?thesis
    using assms(1) unfolding eep_rules_B_def a
    by (elim if_eq_elims) (use f in \<open>auto simp del: of_nat_mult\<close>)
qed

section \<open>Every accepted profile fits\<close>

text \<open>
  The short form fixes the bitrate. The long form takes any size, so the standard's condition
  on it is stated: the frame is a whole number of bitrate steps of 8 kbit/s, for the profiles B
  of 32 kbit/s.
\<close>

definition valid_size :: "subchannel_source \<Rightarrow> bool" where
  "valid_size s =
     (sc_framesize s = 3 * bitrate s \<and>
      (protectionForm s \<noteq> 0 \<longrightarrow>
        (if protectionOption s = 0 then 8 else 32) dvd bitrate s))"

lemma SubchannelSource_fields:
  assumes "SubchannelSource sad stl tpl = Inr s"
  shows "sc_framesize s = unat stl * 8" "sc_protection s = unat tpl" "sc_start_address s = unat sad"
  using assms by (auto simp: SubchannelSource_def Let_def bindE_Inr_iff)

lemma SubchannelSource_rules:
  assumes "SubchannelSource sad stl tpl = Inr s"
  shows "(if protectionForm s \<noteq> 0 then
            (if protectionOption s = 0 then eep_rules_A (bitrate s) (protectionLevel s) = Inr (sc_rules s)
             else protectionOption s = 1 \<and> eep_rules_B (bitrate s) (protectionLevel s) = Inr (sc_rules s))
          else uep_rules (bitrate s) (protectionLevel s) = Some (sc_rules s))"
proof -
  let ?s = "\<lparr>sc_start_address = unat sad, sc_framesize = unat stl * 8,
               sc_protection = unat tpl, sc_buffer = [], sc_rules = []\<rparr>"
  have inv: "bitrate (?s\<lparr>sc_rules := r\<rparr>) = bitrate ?s" "protectionForm (?s\<lparr>sc_rules := r\<rparr>) = protectionForm ?s"
    "protectionLevel (?s\<lparr>sc_rules := r\<rparr>) = protectionLevel ?s"
    "protectionOption (?s\<lparr>sc_rules := r\<rparr>) = protectionOption ?s" for r
    by (simp_all add: bitrate_def protectionForm_def protectionLevel_def protectionOption_def)
  from assms obtain rs where s: "s = ?s\<lparr>sc_rules := rs\<rparr>" and
    rs: "(if protectionForm ?s \<noteq> 0 then
              (if protectionOption ?s = 0 then eep_rules_A (bitrate ?s) (protectionLevel ?s)
               else if protectionOption ?s = 1 then eep_rules_B (bitrate ?s) (protectionLevel ?s)
               else Inl (RuntimeError ''SubchannelSource::SubchannelSource unknown protection option!''))
            else
              (case uep_rules (bitrate ?s) (protectionLevel ?s) of
                 None \<Rightarrow> Inl (RuntimeError ''ubchannelSource UEP puncturing rules do not exist!'')
               | Some rs \<Rightarrow> Inr rs)) = Inr rs"
    unfolding SubchannelSource_def Let_def bindE_Inr_iff by auto
  from rs show ?thesis unfolding s inv
    by (auto split: if_splits option.splits simp del: subchannel_source.update_convs)
qed

lemma protectionLevel_long: "protectionForm s \<noteq> 0 \<Longrightarrow> protectionLevel s = sc_protection s mod 4 + 1"
  by (simp add: protectionLevel_def)

lemma framesizeCu_cases:
  assumes "framesizeCu s = Inr cu"
  shows "0 < cu \<and> cu \<noteq> 0xffff \<and>
     (if protectionForm s \<noteq> 0 then
        (if protectionOption s \<noteq> 0 then
           cu = (bitrate s div 32) * (if protectionLevel s = 1 then 27 else if protectionLevel s = 2 then 21
                  else if protectionLevel s = 3 then 18 else 15)
         else
           cu = (bitrate s div 8) * (if protectionLevel s = 1 then 12 else if protectionLevel s = 2 then 8
                  else if protectionLevel s = 3 then 6 else 4))
      else uep_cu (bitrate s) (protectionLevel s) = Some cu)"
proof -
  have m: "sc_protection s mod 4 = 0 \<or> sc_protection s mod 4 = 1 \<or> sc_protection s mod 4 = 2 \<or>
      sc_protection s mod 4 = 3" by linarith
  show ?thesis
  proof (cases "protectionForm s \<noteq> 0")
    case True
    then have o: "protectionOption s = sc_protection s div 2 ^ 2 mod 8"
      by (simp add: protectionOption_def)
    from m True assms show ?thesis
      unfolding framesizeCu_def Let_def o protectionLevel_long [OF True]
      by (elim disjE) (simp_all split: if_splits)
  next
    case False
    with assms show ?thesis
      by (auto simp: framesizeCu_def Let_def split: option.splits if_splits)
  qed
qed

lemma accepted_profile_fits:
  assumes "SubchannelSource sad stl tpl = Inr s" and "framesizeCu s = Inr cu" and "valid_size s"
  shows "fits (bitrate s) (sc_rules s) cu"
proof (cases "protectionForm s \<noteq> 0")
  case False
  with SubchannelSource_rules [OF assms(1)] framesizeCu_cases [OF assms(2)]
  have "uep_rules (bitrate s) (protectionLevel s) = Some (sc_rules s)"
    and cu: "uep_cu (bitrate s) (protectionLevel s) = Some cu" by simp_all
  from uep_fits [OF this(1)] cu show ?thesis by auto
next
  case True
  have lv: "protectionLevel s = 1 \<or> protectionLevel s = 2 \<or> protectionLevel s = 3 \<or> protectionLevel s = 4"
    unfolding protectionLevel_long [OF True] by linarith
  have "unat stl < 2 ^ LENGTH(16)" by (rule unsigned_less)
  then have small: "bitrate s < 2 ^ 18"
    using SubchannelSource_fields [OF assms(1)] by (simp add: bitrate_def less_mult_imp_div_less)
  show ?thesis
  proof (cases "protectionOption s = 0")
    case opt: True
    obtain n where n: "bitrate s = 8 * n"
      using assms(3) True opt by (auto simp: valid_size_def)
    have "0 < n" using framesizeCu_cases [OF assms(2)] True opt n by (cases n) auto
    moreover have "n < 2 ^ 16" using small n by simp
    moreover have "eep_rules_A (8 * n) (protectionLevel s) = Inr (sc_rules s)"
      using SubchannelSource_rules [OF assms(1)] True opt n by simp
    ultimately have "fits (8 * n) (sc_rules s)
        (if protectionLevel s = 1 then n * 12 else if protectionLevel s = 2 then n * 8
         else if protectionLevel s = 3 then n * 6 else n * 4)" by (intro eep_A_fits)
    then show ?thesis using framesizeCu_cases [OF assms(2)] True opt n lv by auto
  next
    case opt: False
    obtain n where n: "bitrate s = 32 * n"
      using assms(3) True opt by (auto simp: valid_size_def)
    have "0 < n" using framesizeCu_cases [OF assms(2)] True opt n by (cases n) auto
    moreover have "n < 2 ^ 16" using small n by simp
    moreover have "eep_rules_B (32 * n) (protectionLevel s) = Inr (sc_rules s)"
      using SubchannelSource_rules [OF assms(1)] True opt n by simp
    ultimately have "fits (32 * n) (sc_rules s)
        (if protectionLevel s = 1 then n * 27 else if protectionLevel s = 2 then n * 21
         else if protectionLevel s = 3 then n * 18 else n * 15)" by (intro eep_B_fits)
    then show ?thesis using framesizeCu_cases [OF assms(2)] True opt n lv by auto
  qed
qed

section \<open>The chain of a subchannel\<close>

lemma build_puncturer_fields:
  "d_rules (build_puncturer cu rs) = rs"
  "d_tail_rule (build_puncturer cu rs) = Some (PuncturingRule 3 0xcccccc)"
  "d_num_cu (build_puncturer cu rs) = cu"
proof -
  have adj: "d_rules (adjust_item_size e) = d_rules e" "d_num_cu (adjust_item_size e) = d_num_cu e"
    "d_tail_rule (adjust_item_size e) = d_tail_rule e" for e
    by (simp_all add: adjust_item_size_def Let_def case_prod_unfold)
  have "d_rules (foldl append_rule e rs) = d_rules e @ rs \<and>
      d_num_cu (foldl append_rule e rs) = d_num_cu e" for e
    by (induction rs arbitrary: e) (simp_all add: append_rule_def adj)
  then show "d_rules (build_puncturer cu rs) = rs"
    "d_tail_rule (build_puncturer cu rs) = Some (PuncturingRule 3 0xcccccc)"
    "d_num_cu (build_puncturer cu rs) = cu"
    by (simp_all add: build_puncturer_def append_tail_rule_def adj PuncturingEncoder_def)
qed

lemma build_puncturer_wf:
  assumes "\<forall>r \<in> set rs. wf_rule r"
  shows "wf_puncturer (build_puncturer cu rs)"
proof -
  have "wf_puncturer e \<Longrightarrow> wf_puncturer (foldl append_rule e rs)" for e
    using assms by (induction rs arbitrary: e) (simp_all add: append_rule_wf)
  moreover have "wf_tail (Some (PuncturingRule 3 0xcccccc))"
    by (simp add: wf_tail_def PuncturingRule_def)
  ultimately show ?thesis
    unfolding build_puncturer_def using PuncturingEncoder_wf by (intro append_tail_rule_wf) simp_all
qed

lemma build_puncturer_sizes:
  assumes "fits br rs cu" "0 < cu"
  shows "wf_puncturer (build_puncturer cu rs)" "cu_ok (build_puncturer cu rs)"
    "d_in_block_size (build_puncturer cu rs) = 12 * br + 3"
    "padded_size (build_puncturer cu rs) = cu * 8"
proof -
  show wf: "wf_puncturer (build_puncturer cu rs)"
    using assms by (intro build_puncturer_wf) (simp add: fits_def)
  then show "d_in_block_size (build_puncturer cu rs) = 12 * br + 3"
    using assms(1) by (simp add: wf_puncturer_def build_puncturer_fields tail_size_def fits_def
        PuncturingRule_def)
  show "cu_ok (build_puncturer cu rs)"
    using wf assms(1) by (auto simp: cu_ok_def wf_puncturer_def build_puncturer_fields tail_count_def
        fits_def)
  show "padded_size (build_puncturer cu rs) = cu * 8"
    using assms(2) by (simp add: padded_size_def build_puncturer_fields)
qed

lemma conv_process_length:
  "length ds = fs \<Longrightarrow> \<exists>out. conv_process fs ds = Inr out \<and> length out = 4 * fs + 3"
  by (auto simp: conv_process_eq conv_data_length conv_tail_length)

section \<open>Properties\<close>

text \<open>
  C4. For every subchannel the constructor and the capacity unit table accept (for the long
  form: of a size that is a whole number of bitrate steps), the puncturer built from its rules
  takes exactly what the convolutional encoder makes of a frame and returns eight bytes per
  capacity unit: none of the three size exceptions of the chain can be raised.
\<close>

theorem subchannel_chain_never_throws:
  assumes "SubchannelSource sad stl tpl = Inr s" and "framesizeCu s = Inr cu" and "valid_size s"
    and "length ds = sc_framesize s" and "wf_buffer b" and "never_fails alloc"
  shows "\<exists>c e' out. conv_process (sc_framesize s) ds = Inr c \<and>
     punct_process alloc (build_puncturer cu (sc_rules s)) c b = Some (Inr (e', out)) \<and>
     length out = cu * 8"
proof -
  have f: "fits (bitrate s) (sc_rules s) cu" "0 < cu"
    using accepted_profile_fits [OF assms(1-3)] framesizeCu_cases [OF assms(2)] by auto
  note sz = build_puncturer_sizes [OF f]
  obtain c where c: "conv_process (sc_framesize s) ds = Inr c" "length c = 4 * sc_framesize s + 3"
    using conv_process_length [OF assms(4)] by blast
  have "length c = d_in_block_size (build_puncturer cu (sc_rules s))"
    using c(2) sz(3) assms(3) by (simp add: valid_size_def)
  from punct_process_ok [OF sz(1,2) this assms(5,6)] c(1) sz(4) show ?thesis by auto
qed

text \<open>
  The rule tables and the capacity unit tables of the short form list the same profiles:
  the constructor throws for a bitrate and level exactly when \<open>framesizeCu\<close> does.
\<close>

lemma uep_tables_agree:
  "(uep_rules br level = None) = (uep_cu br level = None)"
proof -
  have "uep_cu br level = None" if "uep_rules br level = None"
    using that unfolding uep_rules_def uep_cu_def
    by (simp add: uep_rules_32_def uep_cu_32_def
      uep_rules_48_def uep_cu_48_def
      uep_rules_56_def uep_cu_56_def
      uep_rules_64_def uep_cu_64_def
      uep_rules_80_def uep_cu_80_def
      uep_rules_96_def uep_cu_96_def
      uep_rules_112_def uep_cu_112_def
      uep_rules_128_def uep_cu_128_def
      uep_rules_160_def uep_cu_160_def
      uep_rules_192_def uep_cu_192_def
      uep_rules_224_def uep_cu_224_def
      uep_rules_256_def uep_cu_256_def
      uep_rules_320_def uep_cu_320_def
      uep_rules_384_def uep_cu_384_def split: if_splits)
  with uep_fits [of br level] show ?thesis by (cases "uep_rules br level") auto
qed

lemma SubchannelSource_example:
  "SubchannelSource 0 24 0x22 =
     Inr \<lparr>sc_start_address = 0, sc_framesize = 192, sc_protection = 0x22, sc_buffer = [],
          sc_rules = [emplace 45 P8, emplace 3 P7]\<rparr>"
  "framesizeCu \<lparr>sc_start_address = 0, sc_framesize = 192, sc_protection = 0x22, sc_buffer = [],
          sc_rules = [emplace 45 P8, emplace 3 P7]\<rparr> = Inr 48"
  by (simp_all add: SubchannelSource_def protectionForm_def protectionOption_def
      protectionLevel_def bitrate_def eep_rules_A_def framesizeCu_def)

theorem subchannel_chain_never_throws_witness:
  "\<exists>s. SubchannelSource 0 24 0x22 = Inr s \<and>
     (\<exists>c e' out. conv_process 192 (replicate 192 0x55) = Inr c \<and>
       punct_process (\<lambda>n. Some (replicate n 0)) (build_puncturer 48 (sc_rules s)) c empty_buffer =
         Some (Inr (e', out)) \<and> length out = 384)"
proof -
  have "never_fails (\<lambda>n. Some (replicate n 0))" by (simp add: never_fails_def)
  moreover have "valid_size \<lparr>sc_start_address = 0, sc_framesize = 192, sc_protection = 0x22,
      sc_buffer = [], sc_rules = [emplace 45 P8, emplace 3 P7]\<rparr>"
    by (simp add: valid_size_def bitrate_def protectionForm_def protectionOption_def)
  ultimately show ?thesis
    using subchannel_chain_never_throws [OF SubchannelSource_example, of "replicate 192 0x55"
        empty_buffer "\<lambda>n. Some (replicate n 0)"] SubchannelSource_example(1)
    by simp
qed

end
