(* ===== verification/Multiplex.thy ===== *)
theory Multiplex
  imports Subchannel
begin

text \<open>
  The blocks that assemble a transmission frame from its parts: \<open>src/FrameMultiplexer.cpp\<close>
  (subchannels into a common interleaved frame), \<open>src/BlockPartitioner.cpp\<close> (fast information
  channel and several common interleaved frames into one buffer, over several calls),
  \<open>src/SignalMultiplexer.cpp\<close>, \<open>src/NullSymbol.cpp\<close>, and the source of the fast information
  channel \<open>src/FicSource.cpp\<close>.
\<close>

section \<open>Frame multiplexer\<close>

text \<open>The loop over the subchannels and their data.\<close>

fun fm_subchannels :: "subchannel_source list \<Rightarrow> bytes list \<Rightarrow> bytes \<Rightarrow> bytes result" where
  "fm_subchannels (s # ss) (d # ds) out =
     bindE (framesizeCu s) (\<lambda>cu.
     if cu * 8 \<noteq> length d
     then Inl (FrameMultiplexerError ''FrameMultiplexer detected invalid subchannel size! '')
     else bindE (memcpy out (sc_start_address s * 8) d) (fm_subchannels ss ds))"
| "fm_subchannels _ _ out = Inr out"

definition fm_process :: "subchannel_source list \<Rightarrow> bytes list \<Rightarrow> bytes result" where
  "fm_process subchannels dataIn =
     (case dataIn of
        [] \<Rightarrow> Inl (AssertionFailure ''dataIn.size() >= 1'')
      | prbs # ins \<Rightarrow>
          (if length prbs \<noteq> 864 * 8 then Inl (AssertionFailure ''dataIn[0]->getLength() == 864 * 8'')
           else if length subchannels \<noteq> length ins
           then Inl (FrameMultiplexerError ''FrameMultiplexer detected subchannel size change from '')
           else fm_subchannels subchannels ins prbs))"

section \<open>Block partitioner\<close>

record 'm block_partitioner =
  bp_mode :: nat
  bp_ficSize :: nat
  bp_cifCount :: nat
  bp_cifNb :: nat
  bp_cifSize :: nat
  bp_outputFramesize :: nat
  bp_outputFramecount :: nat
  bp_meta :: "'m list"

definition BlockPartitioner :: "nat \<Rightarrow> 'm block_partitioner result" where
  "BlockPartitioner mode =
     bindE
       (if mode = 1 then Inr (2304 div 8, 4, 3072 div 8, 72)
        else if mode = 2 then Inr (2304 div 8, 1, 768 div 8, 72)
        else if mode = 3 then Inr (3072 div 8, 1, 384 div 8, 144)
        else if mode = 4 then Inr (2304 div 8, 2, 1536 div 8, 72)
        else Inl (RuntimeError ''BlockPartitioner::BlockPartitioner invalid mode''))
       (\<lambda>(ficSize, cifCount, outputFramesize, outputFramecount).
          Inr \<lparr>bp_mode = mode, bp_ficSize = ficSize, bp_cifCount = cifCount, bp_cifNb = 0,
               bp_cifSize = 864 * 8, bp_outputFramesize = outputFramesize,
               bp_outputFramecount = outputFramecount, bp_meta = []\<rparr>)"

text \<open>
  \<open>out\<close> is the content of \<open>dataOut\<close> after \<open>setLength\<close>: the same buffer at every call, so it still
  holds what the earlier calls of a frame wrote.
\<close>

definition bp_process ::
    "'m block_partitioner \<Rightarrow> bytes list \<Rightarrow> bytes \<Rightarrow> ('m block_partitioner \<times> bytes \<times> bool) result" where
  "bp_process b dataIn out =
     (case dataIn of
        [fic, cif] \<Rightarrow>
          (if length fic \<noteq> bp_ficSize b
           then Inl (RuntimeError ''BlockPartitioner::process input 0 size not valid!'')
           else if length cif \<noteq> bp_cifSize b
           then Inl (RuntimeError ''BlockPartitioner::process input 1 size not valid!'')
           else
             bindE (memcpy out (bp_cifNb b * bp_ficSize b) fic) (\<lambda>out.
             bindE (memread cif 0 (864 * 8)) (\<lambda>cif.
             bindE (memcpy out (bp_cifCount b * bp_ficSize b + bp_cifNb b * 864 * 8) cif) (\<lambda>out.
             (let nb = bp_cifNb b + 1;
                  nb' = (if nb = bp_cifCount b then 0 else nb)
              in Inr (b\<lparr>bp_cifNb := nb'\<rparr>, out, nb' = 0))))))
      | _ \<Rightarrow> Inl (AssertionFailure ''dataIn.size() == 2''))"

definition bp_process_metadata :: "'m block_partitioner \<Rightarrow> 'm list \<Rightarrow> 'm block_partitioner \<times> 'm list" where
  "bp_process_metadata b metadataIn =
     (let meta = (if bp_cifNb b = 1 then [] else bp_meta b) @ metadataIn
      in (b\<lparr>bp_meta := meta\<rparr>, if bp_cifNb b = 0 then meta else []))"

text \<open>The calls of the flowgraph, one round per element: data, then metadata.\<close>

fun bp_run :: "'m block_partitioner \<Rightarrow> (bytes \<times> bytes \<times> 'm list) list \<Rightarrow> bytes \<Rightarrow>
    ('m block_partitioner \<times> bytes \<times> (bool \<times> 'm list) list) result" where
  "bp_run b [] out = Inr (b, out, [])"
| "bp_run b ((fic, cif, meta) # rest) out =
     bindE (bp_process b [fic, cif] out) (\<lambda>(b', out', done).
     (let (b'', metaOut) = bp_process_metadata b' meta in
     bindE (bp_run b'' rest out') (\<lambda>(b''', out'', outs).
     Inr (b''', out'', (done, metaOut) # outs))))"

section \<open>Signal multiplexer and null symbol\<close>

definition sm_process :: "(nat \<Rightarrow> bytes option) \<Rightarrow> buffer list \<Rightarrow> buffer \<Rightarrow> (buffer \<times> nat) result" where
  "sm_process alloc dataIn dataOut =
     (case dataIn of
        [null_sym, msc] \<Rightarrow>
          bindE (assign_copy alloc dataOut null_sym) (\<lambda>b.
          bindE (append_buffer alloc b msc) (\<lambda>b. Inr (b, getLength b)))
      | [null_sym, msc, tii] \<Rightarrow>
          bindE (assign_copy alloc dataOut tii) (\<lambda>b.
          bindE (append_buffer alloc b msc) (\<lambda>b. Inr (b, getLength b)))
      | _ \<Rightarrow> Inl (AssertionFailure ''dataIn.size() == 2 or dataIn.size() == 3''))"

definition null_process :: "nat \<Rightarrow> nat \<Rightarrow> bytes \<times> nat" where
  "null_process numCarriers typeSize =
     (replicate (numCarriers * typeSize) 0, numCarriers * typeSize)"

section \<open>Fast information channel source\<close>

record 'ts fic_source =
  fs_framesize :: nat
  fs_buffer :: bytes
  fs_ts :: "'ts option"
  fs_rules :: "puncturing_rule list"

text \<open>
  \<open>m_ts\<close> and \<open>m_ts_valid\<close> are one option. The bytes of \<open>m_buffer\<close> after \<open>setLength\<close> are
  unspecified in the source until \<open>loadFicData\<close>; the argument \<open>fresh\<close> stands for them.
\<close>

definition FicSource :: "nat \<Rightarrow> nat \<Rightarrow> (nat \<Rightarrow> bytes) \<Rightarrow> 'ts fic_source" where
  "FicSource ficf mid fresh =
     (if ficf = 0 then \<lparr>fs_framesize = 0, fs_buffer = [], fs_ts = None, fs_rules = []\<rparr>
      else if mid = 3 then
        \<lparr>fs_framesize = 32 * 4, fs_buffer = fresh (32 * 4), fs_ts = None,
         fs_rules = [emplace 29 0xeeeeeeee, emplace 3 0xeeeeeeec]\<rparr>
      else
        \<lparr>fs_framesize = 24 * 4, fs_buffer = fresh (24 * 4), fs_ts = None,
         fs_rules = [emplace 21 0xeeeeeeee, emplace 3 0xeeeeeeec]\<rparr>)"

definition loadFicData :: "'ts fic_source \<Rightarrow> bytes \<Rightarrow> 'ts fic_source" where
  "loadFicData f fic = f\<lparr>fs_buffer := fic\<rparr>"

definition fic_process :: "'ts fic_source \<Rightarrow> (bytes \<times> nat) result" where
  "fic_process f =
     (if length (fs_buffer f) \<noteq> fs_framesize f
      then Inl (RuntimeError ''ERROR: FicSource::process.outputSize != m_framesize: '')
      else Inr (fs_buffer f, length (fs_buffer f)))"

definition loadTimestamp :: "'ts fic_source \<Rightarrow> 'ts \<Rightarrow> 'ts fic_source" where
  "loadTimestamp f ts = f\<lparr>fs_ts := Some ts\<rparr>"

definition fic_process_metadata :: "'ts fic_source \<Rightarrow> 'ts list" where
  "fic_process_metadata f = (case fs_ts f of None \<Rightarrow> [] | Some ts \<Rightarrow> [ts])"

section \<open>Frame multiplexer lemmas\<close>

text \<open>A subchannel's place in the frame.\<close>

definition span_of :: "subchannel_source \<Rightarrow> bytes \<Rightarrow> nat set" where
  "span_of s d = {sc_start_address s * 8..<sc_start_address s * 8 + length d}"

definition fm_fits :: "subchannel_source \<Rightarrow> bytes \<Rightarrow> nat \<Rightarrow> bool" where
  "fm_fits s d n =
     (framesizeCu s = Inr (length d div 8) \<and> 8 dvd length d \<and> sc_start_address s * 8 + length d \<le> n)"

fun disjoint_spans :: "subchannel_source list \<Rightarrow> bytes list \<Rightarrow> bool" where
  "disjoint_spans (s # ss) (d # ds) =
     ((\<forall>(s', d') \<in> set (zip ss ds). span_of s d \<inter> span_of s' d' = {}) \<and> disjoint_spans ss ds)"
| "disjoint_spans _ _ = True"

lemma fm_subchannels_ok:
  assumes "length ss = length ds" "\<forall>(s, d) \<in> set (zip ss ds). fm_fits s d (length out)"
    and "disjoint_spans ss ds"
  shows "\<exists>out'. fm_subchannels ss ds out = Inr out' \<and> length out' = length out \<and>
     (\<forall>(s, d) \<in> set (zip ss ds). take (length d) (drop (sc_start_address s * 8) out') = d) \<and>
     (\<forall>i < length out. (\<forall>(s, d) \<in> set (zip ss ds). i \<notin> span_of s d) \<longrightarrow> out' ! i = out ! i)"
  using assms
proof (induction ss ds arbitrary: out rule: list_induct2')
  case 1
  then show ?case by simp
next
  case (4 s ss d ds)
  let ?off = "sc_start_address s * 8"
  have fits: "framesizeCu s = Inr (length d div 8)" "length d div 8 * 8 = length d"
      "?off + length d \<le> length out"
    using "4.prems"(2) by (auto simp: fm_fits_def)
  let ?out = "take ?off out @ d @ drop (?off + length d) out"
  have cp: "memcpy out ?off d = Inr ?out" using fits(3) by (rule memcpy_ok)
  have len: "length ?out = length out" using fits(3) by simp
  have "\<exists>out'. fm_subchannels ss ds ?out = Inr out' \<and> length out' = length ?out \<and>
     (\<forall>(s, d) \<in> set (zip ss ds). take (length d) (drop (sc_start_address s * 8) out') = d) \<and>
     (\<forall>i < length ?out. (\<forall>(s, d) \<in> set (zip ss ds). i \<notin> span_of s d) \<longrightarrow> out' ! i = ?out ! i)"
    using "4.prems" len by (intro "4.IH") auto
  then obtain out' where out': "fm_subchannels ss ds ?out = Inr out'" "length out' = length out"
     "\<forall>(s, d) \<in> set (zip ss ds). take (length d) (drop (sc_start_address s * 8) out') = d"
     "\<forall>i < length out. (\<forall>(s, d) \<in> set (zip ss ds). i \<notin> span_of s d) \<longrightarrow> out' ! i = ?out ! i"
    using len by auto
  have own: "take (length d) (drop ?off out') = d"
  proof (rule nth_equalityI)
    fix i assume "i < length (take (length d) (drop ?off out'))"
    then have i: "i < length d" "?off + i < length out" using out'(2) by auto
    have "?off + i \<in> span_of s d" using i by (simp add: span_of_def)
    then have "\<forall>(s', d') \<in> set (zip ss ds). ?off + i \<notin> span_of s' d'"
      using "4.prems"(3) by fastforce
    then have "out' ! (?off + i) = ?out ! (?off + i)" using out'(4) i by blast
    also have "\<dots> = d ! i" using memcpy_nth [OF cp, of "?off + i"] i by simp
    finally show "take (length d) (drop ?off out') ! i = d ! i" using i out'(2) by simp
  qed (use out'(2) fits(3) in simp)
  have other: "out' ! i = out ! i"
    if "i < length out" "i \<notin> span_of s d" "\<forall>(s, d) \<in> set (zip ss ds). i \<notin> span_of s d" for i
  proof -
    have "out' ! i = ?out ! i" using out'(4) that(1,3) by blast
    also have "\<dots> = out ! i" using memcpy_nth [OF cp that(1)] that(2) by (auto simp: span_of_def)
    finally show ?thesis .
  qed
  have run: "fm_subchannels (s # ss) (d # ds) out = Inr out'"
    using fits cp out'(1) by simp
  show ?case using run out' own other by auto
qed simp_all

lemma fm_subchannels_bounds:
  "\<lbrakk>length ss = length ds; fm_subchannels ss ds out = Inr out'\<rbrakk> \<Longrightarrow>
   \<forall>(s, d) \<in> set (zip ss ds). sc_start_address s * 8 + length d \<le> length out"
proof (induction ss ds arbitrary: out rule: list_induct2')
  case (4 s ss d ds)
  from "4.prems"(2) obtain out1 where o1: "memcpy out (sc_start_address s * 8) d = Inr out1"
    "fm_subchannels ss ds out1 = Inr out'"
    unfolding fm_subchannels.simps bindE_Inr_iff by (auto simp: bindE_Inr_iff split: if_splits)
  have "\<forall>(s, d) \<in> set (zip ss ds). sc_start_address s * 8 + length d \<le> length out1"
    using "4.prems"(1) o1(2) by (intro "4.IH") simp_all
  moreover have "length out1 = length out" using memcpy_length [OF o1(1)] .
  moreover have "sc_start_address s * 8 + length d \<le> length out" using o1(1) by (simp add: memcpy_Inr_iff)
  ultimately show ?case by auto
qed simp_all

section \<open>Block partitioner lemmas\<close>

definition segment :: "'a list \<Rightarrow> nat \<Rightarrow> nat \<Rightarrow> 'a list" where
  "segment xs off n = take n (drop off xs)"

lemma segment_nth: "i < n \<Longrightarrow> off + i < length xs \<Longrightarrow> segment xs off n ! i = xs ! (off + i)"
  by (simp add: segment_def)

lemma memcpy_segment:
  assumes "memcpy dst off src = Inr r"
  shows "segment r off (length src) = src"
    and "p + n \<le> off \<or> off + length src \<le> p \<Longrightarrow> p + n \<le> length dst \<Longrightarrow> segment r p n = segment dst p n"
proof -
  have b: "off + length src \<le> length dst" and r: "r = take off dst @ src @ drop (off + length src) dst"
    using assms by (auto simp: memcpy_Inr_iff)
  show "segment r off (length src) = src" using b by (simp add: segment_def r)
  assume a: "p + n \<le> off \<or> off + length src \<le> p" "p + n \<le> length dst"
  have len: "length r = length dst" using b by (simp add: r)
  show "segment r p n = segment dst p n"
  proof (rule nth_equalityI)
    show "length (segment r p n) = length (segment dst p n)" using len by (simp add: segment_def)
    fix i assume "i < length (segment r p n)"
    then have i: "i < n" "p + i < length dst" using a(2) len by (auto simp: segment_def)
    then show "segment r p n ! i = segment dst p n ! i"
      using memcpy_nth [OF assms i(2)] a(1) len by (auto simp: segment_nth)
  qed
qed

lemma concat_segments:
  "length xs = n * k \<Longrightarrow> length ss = n \<Longrightarrow> (\<forall>i < n. segment xs (i * k) k = ss ! i) \<Longrightarrow> xs = concat ss"
proof (induction n arbitrary: xs ss)
  case 0
  then show ?case by simp
next
  case (Suc n)
  then obtain s ss' where ss: "ss = s # ss'" by (cases ss) auto
  have "drop k xs = concat ss'"
  proof (rule Suc.IH)
    show "\<forall>i < n. segment (drop k xs) (i * k) k = ss' ! i"
    proof (intro allI impI)
      fix i assume "i < n"
      then have "segment xs (Suc i * k) k = ss ! Suc i" using Suc.prems(3) by blast
      then show "segment (drop k xs) (i * k) k = ss' ! i" by (simp add: segment_def ss add.commute)
    qed
  qed (use Suc.prems ss in auto)
  moreover have "take k xs = s" using Suc.prems(3) ss by (auto simp: segment_def dest: spec [of _ 0])
  ultimately show ?case using ss by (metis append_take_drop_id concat.simps(2))
qed

text \<open>The state after \<open>k\<close> calls of a frame.\<close>

definition bp_state :: "'m block_partitioner \<Rightarrow> (bytes \<times> bytes \<times> 'm list) list \<Rightarrow> bytes \<Rightarrow> bool" where
  "bp_state b prev out =
     (bp_cifNb b = length prev \<and> length prev < bp_cifCount b \<and>
      length out = bp_cifCount b * (bp_ficSize b + bp_cifSize b) \<and> bp_cifSize b = 864 * 8 \<and>
      (\<forall>i < length prev.
         segment out (i * bp_ficSize b) (bp_ficSize b) = fst (prev ! i) \<and>
         segment out (bp_cifCount b * bp_ficSize b + i * (864 * 8)) (864 * 8) = fst (snd (prev ! i))))"

lemma bp_step:
  assumes st: "bp_state b prev out" and fic: "length fic = bp_ficSize b" and cif: "length cif = 864 * 8"
  shows "\<exists>out'. bp_process b [fic, cif] out =
       Inr (b\<lparr>bp_cifNb := (if Suc (length prev) = bp_cifCount b then 0 else Suc (length prev))\<rparr>, out',
            Suc (length prev) = bp_cifCount b) \<and>
     length out' = length out \<and>
     (\<forall>i < Suc (length prev).
         segment out' (i * bp_ficSize b) (bp_ficSize b) = fst ((prev @ [(fic, cif, m)]) ! i) \<and>
         segment out' (bp_cifCount b * bp_ficSize b + i * (864 * 8)) (864 * 8) =
           fst (snd ((prev @ [(fic, cif, m)]) ! i)))"
proof -
  let ?F = "bp_ficSize b" and ?C = "bp_cifCount b" and ?k = "length prev"
  have k: "bp_cifNb b = ?k" "?k < ?C" and len: "length out = ?C * (?F + 864 * 8)" and cs: "bp_cifSize b = 864 * 8"
    using st by (auto simp: bp_state_def)
  have b1: "Suc ?k * ?F \<le> ?C * ?F" using k(2) by (intro mult_le_mono1) simp
  have b2: "Suc ?k * (864 * 8) \<le> ?C * (864 * 8)" using k(2) by (intro mult_le_mono1) simp
  obtain o1 where o1: "memcpy out (?k * ?F) fic = Inr o1"
    using b1 len fic by (simp add: memcpy_def algebra_simps)
  have l1: "length o1 = length out" using memcpy_length [OF o1] .
  obtain o2 where o2: "memcpy o1 (?C * ?F + ?k * (864 * 8)) cif = Inr o2"
    using b2 len cif l1 by (simp add: memcpy_def algebra_simps)
  have l2: "length o2 = length out" using memcpy_length [OF o2] l1 by simp
  have run: "bp_process b [fic, cif] out =
      Inr (b\<lparr>bp_cifNb := (if Suc ?k = ?C then 0 else Suc ?k)\<rparr>, o2, Suc ?k = ?C)"
    using o1 o2 fic cif cs k by (auto simp: bp_process_def mult.assoc Let_def)
  have seg: "segment o2 (i * ?F) ?F = fst ((prev @ [(fic, cif, m)]) ! i) \<and>
      segment o2 (?C * ?F + i * (864 * 8)) (864 * 8) = fst (snd ((prev @ [(fic, cif, m)]) ! i))"
    if i: "i < Suc ?k" for i
  proof -
    have iC: "Suc i * ?F \<le> ?C * ?F" using i k(2) by (intro mult_le_mono1) simp
    have iC2: "Suc i * (864 * 8) \<le> ?C * (864 * 8)" using i k(2) by (intro mult_le_mono1) simp
    have room: "i * ?F + ?F \<le> length o1" using iC len l1 by (simp add: algebra_simps)
    have a: "segment o2 (i * ?F) ?F = segment o1 (i * ?F) ?F"
      using iC room by (intro memcpy_segment(2) [OF o2]) (simp_all add: algebra_simps)
    have room2: "?C * ?F + i * (864 * 8) + 864 * 8 \<le> length out"
      using iC2 len by (simp add: algebra_simps)
    show ?thesis
    proof (cases "i = ?k")
      case True
      have "segment o1 (?k * ?F) ?F = fic" using memcpy_segment(1) [OF o1] fic by simp
      moreover have "segment o2 (?C * ?F + ?k * (864 * 8)) (864 * 8) = cif"
        using memcpy_segment(1) [OF o2] cif by simp
      ultimately show ?thesis using a True by simp
    next
      case False
      then have ik: "i < ?k" using i by simp
      then have m1: "Suc i * ?F \<le> ?k * ?F" "Suc i * (864 * 8) \<le> ?k * (864 * 8)"
        by (intro mult_le_mono1; simp)+
      have "segment o1 (i * ?F) ?F = segment out (i * ?F) ?F"
        using m1 room l1 by (intro memcpy_segment(2) [OF o1]) (simp_all add: algebra_simps)
      moreover have "segment o2 (?C * ?F + i * (864 * 8)) (864 * 8) =
          segment o1 (?C * ?F + i * (864 * 8)) (864 * 8)"
        using m1 room2 l1 by (intro memcpy_segment(2) [OF o2]) (simp_all add: algebra_simps)
      moreover have "segment o1 (?C * ?F + i * (864 * 8)) (864 * 8) =
          segment out (?C * ?F + i * (864 * 8)) (864 * 8)"
        using b1 room2 fic by (intro memcpy_segment(2) [OF o1]) (simp_all add: algebra_simps)
      ultimately show ?thesis using a ik st by (simp add: bp_state_def nth_append)
    qed
  qed
  with run l2 show ?thesis by blast
qed

text \<open>What a frame collects as metadata: nothing is dropped between the calls of one frame.\<close>

definition bp_metas :: "'m block_partitioner \<Rightarrow> (bytes \<times> bytes \<times> 'm list) list \<Rightarrow> 'm list" where
  "bp_metas b prev = (if prev = [] then bp_meta b else concat (map (snd \<circ> snd) prev))"

lemma bp_run_frame:
  assumes "bp_state b prev out" "rest \<noteq> []" "length prev + length rest = bp_cifCount b"
    and "\<forall>(fic, cif, m) \<in> set rest. length fic = bp_ficSize b \<and> length cif = 864 * 8"
    and "prev \<noteq> [] \<longrightarrow> bp_meta b = concat (map (snd \<circ> snd) prev)"
  shows "\<exists>b' out'. bp_run b rest out =
       Inr (b', out', replicate (length rest - 1) (False, []) @
         [(True, (if bp_cifCount b = 1 then bp_meta b else []) @ concat (map (snd \<circ> snd) (prev @ rest)))]) \<and>
     bp_cifNb b' = 0 \<and> bp_cifCount b' = bp_cifCount b \<and> bp_ficSize b' = bp_ficSize b \<and>
     bp_cifSize b' = bp_cifSize b \<and>
     bp_meta b' = (if bp_cifCount b = 1 then bp_meta b else []) @ concat (map (snd \<circ> snd) (prev @ rest)) \<and>
     length out' = length out \<and>
     (\<forall>i < bp_cifCount b.
         segment out' (i * bp_ficSize b) (bp_ficSize b) = fst ((prev @ rest) ! i) \<and>
         segment out' (bp_cifCount b * bp_ficSize b + i * (864 * 8)) (864 * 8) =
           fst (snd ((prev @ rest) ! i)))"
  using assms
proof (induction rest arbitrary: b prev out)
  case Nil
  then show ?case by simp
next
  case (Cons x rest)
  obtain fic cif m where x: "x = (fic, cif, m)" by (cases x) auto
  let ?k = "length prev" and ?C = "bp_cifCount b"
  let ?nb = "if Suc ?k = ?C then 0 else Suc ?k"
  have sizes: "length fic = bp_ficSize b" "length cif = 864 * 8" using Cons.prems(4) x by auto
  obtain out1 where o1: "bp_process b [fic, cif] out = Inr (b\<lparr>bp_cifNb := ?nb\<rparr>, out1, Suc ?k = ?C)"
    "length out1 = length out"
    "\<forall>i < Suc ?k.
         segment out1 (i * bp_ficSize b) (bp_ficSize b) = fst ((prev @ [(fic, cif, m)]) ! i) \<and>
         segment out1 (?C * bp_ficSize b + i * (864 * 8)) (864 * 8) =
           fst (snd ((prev @ [(fic, cif, m)]) ! i))"
    using bp_step [OF Cons.prems(1) sizes, of m] by blast
  let ?old = "if ?nb = 1 then [] else bp_meta b"
  let ?b1 = "b\<lparr>bp_cifNb := ?nb, bp_meta := ?old @ m\<rparr>"
  have meta: "bp_process_metadata (b\<lparr>bp_cifNb := ?nb\<rparr>) m = (?b1, if ?nb = 0 then ?old @ m else [])"
    by (simp add: bp_process_metadata_def Let_def)
  show ?case
  proof (cases "rest = []")
    case True
    then have last: "Suc ?k = ?C" using Cons.prems(3) by simp
    have all: "prev @ [x] = prev @ [(fic, cif, m)]" using x by simp
    have mm: "bp_meta b @ m = (if ?C = 1 then bp_meta b else []) @ concat (map (snd \<circ> snd) (prev @ [x]))"
      using Cons.prems(5) last x by (cases "prev = []") (auto simp: comp_def)
    have "bp_run b (x # rest) out = Inr (?b1, out1, [(True, bp_meta b @ m)])"
      using True last o1(1) meta by (simp add: x)
    then show ?thesis
      using True last o1(2,3) mm unfolding all [symmetric] by (simp add: x comp_def)
  next
    case False
    then have more: "Suc ?k < ?C" using Cons.prems(3) by (cases rest) auto
    have old: "?old = concat (map (snd \<circ> snd) prev)"
      using Cons.prems(5) more by (cases "prev = []") (auto simp: comp_def)
    have st1: "bp_state ?b1 (prev @ [x]) out1"
      using Cons.prems(1) more o1(2,3) x by (simp add: bp_state_def)
    have "\<exists>b' out'. bp_run ?b1 rest out1 =
       Inr (b', out', replicate (length rest - 1) (False, []) @
         [(True, (if bp_cifCount ?b1 = 1 then bp_meta ?b1 else []) @ concat (map (snd \<circ> snd) ((prev @ [x]) @ rest)))]) \<and>
     bp_cifNb b' = 0 \<and> bp_cifCount b' = bp_cifCount ?b1 \<and> bp_ficSize b' = bp_ficSize ?b1 \<and>
     bp_cifSize b' = bp_cifSize ?b1 \<and>
     bp_meta b' = (if bp_cifCount ?b1 = 1 then bp_meta ?b1 else []) @ concat (map (snd \<circ> snd) ((prev @ [x]) @ rest)) \<and>
     length out' = length out1 \<and>
     (\<forall>i < bp_cifCount ?b1.
         segment out' (i * bp_ficSize ?b1) (bp_ficSize ?b1) = fst (((prev @ [x]) @ rest) ! i) \<and>
         segment out' (bp_cifCount ?b1 * bp_ficSize ?b1 + i * (864 * 8)) (864 * 8) =
           fst (snd (((prev @ [x]) @ rest) ! i)))"
      by (rule Cons.IH [OF st1 False]) (use Cons.prems(3,4) more old x in \<open>auto simp: comp_def\<close>)
    then obtain b' out' where r: "bp_run ?b1 rest out1 =
       Inr (b', out', replicate (length rest - 1) (False, []) @
         [(True, concat (map (snd \<circ> snd) (prev @ x # rest)))])"
     "bp_cifNb b' = 0" "bp_cifCount b' = ?C" "bp_ficSize b' = bp_ficSize b"
     "bp_cifSize b' = bp_cifSize b" "bp_meta b' = concat (map (snd \<circ> snd) (prev @ x # rest))"
     "length out' = length out"
     "\<forall>i < ?C. segment out' (i * bp_ficSize b) (bp_ficSize b) = fst ((prev @ x # rest) ! i) \<and>
         segment out' (?C * bp_ficSize b + i * (864 * 8)) (864 * 8) = fst (snd ((prev @ x # rest) ! i))"
      using more o1(2) by auto
    have "bp_run b (x # rest) out = Inr (b', out', (False, []) # replicate (length rest - 1) (False, []) @
         [(True, concat (map (snd \<circ> snd) (prev @ x # rest)))])"
      using o1(1) meta r(1) more by (simp add: x)
    moreover have "(False, []) # replicate (length rest - 1) (False, []) =
        replicate (length (x # rest) - 1) (False, [] :: 'a list)"
      using False by (cases rest) simp_all
    ultimately show ?thesis using r(2-) more by (auto simp: comp_def simp del: map_append)
  qed
qed

lemma BlockPartitioner_init:
  assumes "BlockPartitioner mode = Inr b" and "length out = bp_cifCount b * (bp_ficSize b + 864 * 8)"
  shows "bp_state b [] out" "bp_meta b = []" "0 < bp_cifCount b" "bp_cifSize b = 864 * 8"
  using assms by (auto simp: BlockPartitioner_def bp_state_def split: if_splits)

lemma bp_run_append:
  "bp_run b (xs @ ys) out =
     bindE (bp_run b xs out) (\<lambda>(b', out', os).
     bindE (bp_run b' ys out') (\<lambda>(b'', out'', os'). Inr (b'', out'', os @ os')))"
proof (induction xs arbitrary: b out)
  case Nil
  then show ?case by (cases "bp_run b ys out") auto
next
  case (Cons x rest)
  obtain fic cif m where x: "x = (fic, cif, m)" by (cases x) auto
  show ?case
  proof (cases "bp_process b [fic, cif] out")
    case (Inr r)
    obtain b1 o1 d where r: "r = (b1, o1, d)" by (cases r) auto
    obtain b2 mo where m: "bp_process_metadata b1 m = (b2, mo)" by (cases "bp_process_metadata b1 m") auto
    show ?thesis
      by (cases "bp_run b2 rest o1")
        (auto simp: x Inr r m Cons.IH bindE_assoc split: prod.splits intro!: arg_cong2 [where f = bindE])
  qed (simp add: x)
qed

lemma bp_frame_bytes:
  assumes "length out = C * (F + G)" "length frames = C"
    and "\<forall>i < C. segment out (i * F) F = fst (frames ! i) \<and>
       segment out (C * F + i * G) G = fst (snd (frames ! i))"
  shows "out = concat (map fst frames) @ concat (map (fst \<circ> snd) frames)"
proof -
  have "take (C * F) out = concat (map fst frames)"
  proof (rule concat_segments)
    show "length (take (C * F) out) = C * F" using assms(1) by (simp add: algebra_simps)
    show "\<forall>i < C. segment (take (C * F) out) (i * F) F = map fst frames ! i"
    proof (intro allI impI)
      fix i assume i: "i < C"
      then have "Suc i * F \<le> C * F" by (intro mult_le_mono1) simp
      then have "segment (take (C * F) out) (i * F) F = segment out (i * F) F"
        by (simp add: segment_def drop_take min_def)
      then show "segment (take (C * F) out) (i * F) F = map fst frames ! i"
        using assms(2,3) i by simp
    qed
  qed (simp add: assms(2))
  moreover have "drop (C * F) out = concat (map (fst \<circ> snd) frames)"
  proof (rule concat_segments)
    show "length (drop (C * F) out) = C * G" using assms(1) by (simp add: algebra_simps)
    show "\<forall>i < C. segment (drop (C * F) out) (i * G) G = map (fst \<circ> snd) frames ! i"
      using assms(2,3) by (auto simp: segment_def add.commute)
  qed (simp add: assms(2))
  ultimately show ?thesis by (metis append_take_drop_id)
qed

section \<open>Properties\<close>

text \<open>
  When every subchannel has the size its profile announces, lies within the 864 capacity
  units and overlaps no other, the multiplexed frame holds each subchannel's bytes at its
  start address and the dispersal sequence everywhere else.
\<close>

lemma frame_multiplexer_places_subchannels:
  assumes "length prbs = 864 * 8" and "length ss = length ds"
    and "\<forall>(s, d) \<in> set (zip ss ds). fm_fits s d (864 * 8)" and "disjoint_spans ss ds"
  shows "\<exists>out. fm_process ss (prbs # ds) = Inr out \<and> length out = 864 * 8 \<and>
     (\<forall>(s, d) \<in> set (zip ss ds). take (length d) (drop (sc_start_address s * 8) out) = d) \<and>
     (\<forall>i < 864 * 8. (\<forall>(s, d) \<in> set (zip ss ds). i \<notin> span_of s d) \<longrightarrow> out ! i = prbs ! i)"
  using fm_subchannels_ok [of ss ds prbs] assms by (simp add: fm_process_def)

text \<open>
  The multiplexer does not check the start address: a subchannel whose last capacity unit
  lies beyond unit 863 is copied past the end of the frame buffer.
\<close>

lemma frame_multiplexer_unchecked_address:
  assumes "length prbs = 864 * 8" and "framesizeCu s = Inr cu" and "length d = cu * 8"
    and "864 < sc_start_address s + cu"
  shows "fm_process [s] [prbs, d] = Inl (UndefinedBehaviour ''write'')"
  using assms by (simp add: fm_process_def memcpy_def)

text \<open>
  Over the calls of one transmission frame the partitioner returns data at the last call
  only, and then the buffer is the frame's fast information channels in order followed by its
  common interleaved frames in order, and the metadata is that of all its calls.
\<close>

lemma block_partitioner_frame:
  assumes "BlockPartitioner mode = Inr b" and "length frames = bp_cifCount b"
    and "\<forall>(fic, cif, m) \<in> set frames. length fic = bp_ficSize b \<and> length cif = 864 * 8"
    and "length out = bp_cifCount b * (bp_ficSize b + 864 * 8)"
  shows "\<exists>b' out'. bp_run b frames out =
       Inr (b', out', replicate (bp_cifCount b - 1) (False, []) @ [(True, concat (map (snd \<circ> snd) frames))]) \<and>
     out' = concat (map fst frames) @ concat (map (fst \<circ> snd) frames) \<and> bp_cifNb b' = 0"
proof -
  note init = BlockPartitioner_init [OF assms(1,4)]
  have ne: "frames \<noteq> []" using init(3) assms(2) by auto
  obtain b' out' where r: "bp_run b frames out = Inr (b', out', replicate (length frames - 1) (False, []) @
         [(True, (if bp_cifCount b = 1 then bp_meta b else []) @ concat (map (snd \<circ> snd) ([] @ frames)))])"
     "bp_cifNb b' = 0" "length out' = length out"
     "\<forall>i < bp_cifCount b.
         segment out' (i * bp_ficSize b) (bp_ficSize b) = fst (([] @ frames) ! i) \<and>
         segment out' (bp_cifCount b * bp_ficSize b + i * (864 * 8)) (864 * 8) =
           fst (snd (([] @ frames) ! i))"
    using bp_run_frame [OF init(1) ne] assms(2,3) by auto
  have "out' = concat (map fst frames) @ concat (map (fst \<circ> snd) frames)"
    by (rule bp_frame_bytes [OF _ assms(2)]) (use r(3,4) assms(4) in simp_all)
  with r(1,2) init(2) assms(2) show ?thesis by auto
qed

text \<open>
  With one common interleaved frame per transmission frame (modes 2 and 3) the stored
  metadata is never cleared: the second frame hands on the first frame's metadata, before its
  own, and the output takes its time stamp from the first entry.
\<close>

lemma block_partitioner_keeps_old_metadata:
  assumes "BlockPartitioner mode = Inr b" and "mode = 2 \<or> mode = 3"
    and "length fic1 = bp_ficSize b" and "length fic2 = bp_ficSize b"
    and "length cif1 = 864 * 8" and "length cif2 = 864 * 8"
    and "length out = bp_ficSize b + 864 * 8"
  shows "\<exists>b' out'. bp_run b [(fic1, cif1, m1), (fic2, cif2, m2)] out =
     Inr (b', out', [(True, m1), (True, m1 @ m2)])"
proof -
  have c: "bp_cifCount b = 1" using assms(1,2) by (auto simp: BlockPartitioner_def)
  have "length out = bp_cifCount b * (bp_ficSize b + 864 * 8)" using assms(7) c by simp
  note init = BlockPartitioner_init [OF assms(1) this]
  obtain b1 o1 where 1: "bp_run b [(fic1, cif1, m1)] out = Inr (b1, o1, [(True, m1)])"
      "bp_cifNb b1 = 0" "bp_cifCount b1 = 1" "bp_ficSize b1 = bp_ficSize b" "bp_cifSize b1 = bp_cifSize b"
      "bp_meta b1 = m1" "length o1 = length out"
    using bp_run_frame [OF init(1), of "[(fic1, cif1, m1)]"] assms c init(2) by auto
  have st: "bp_state b1 [] o1" using 1 assms(7) init(4) by (simp add: bp_state_def)
  obtain b2 o2 where 2: "bp_run b1 [(fic2, cif2, m2)] o1 = Inr (b2, o2, [(True, m1 @ m2)])"
    using bp_run_frame [OF st, of "[(fic2, cif2, m2)]"] assms 1 by auto
  have "bp_run b [(fic1, cif1, m1), (fic2, cif2, m2)] out = Inr (b2, o2, [(True, m1), (True, m1 @ m2)])"
    using bp_run_append [of b "[(fic1, cif1, m1)]" "[(fic2, cif2, m2)]" out] 1(1) 2 by simp
  then show ?thesis by blast
qed

text \<open>
  The fast information channel's own rules fit its frame: the encoder and the puncturer
  built from them never refuse their input, and their output has exactly the size that the
  block partitioner of the same mode expects.
\<close>

lemma fic_chain_fills_partitioner:
  assumes "ficf \<noteq> 0" and "f = loadFicData (FicSource ficf mid fresh) ds"
    and "length ds = fs_framesize f" and "BlockPartitioner mode = Inr p" and "mode = 3 \<longleftrightarrow> mid = 3"
    and "wf_buffer b" and "never_fails alloc"
  shows "\<exists>c e' out. fic_process f = Inr (ds, length ds) \<and> conv_process (fs_framesize f) ds = Inr c \<and>
     punct_process alloc (build_puncturer 0 (fs_rules f)) c b = Some (Inr (e', out)) \<and>
     length out = bp_ficSize p"
proof -
  have n: "bit_size (emplace n 0xeeeeeeee) = 24" "bit_size (emplace n 0xeeeeeeec) = 23" for n
    using bit_size_P(16) [of n] bit_size_P(15) [of n] by (simp_all add: P15_def P16_def)
  let ?e = "build_puncturer 0 (fs_rules f)"
  have rules: "\<forall>r \<in> set (fs_rules f). wf_rule r"
    using assms(1,2) by (auto simp: FicSource_def loadFicData_def wf_rule_def emplace_simps)
  then have wf: "wf_puncturer ?e" by (rule build_puncturer_wf)
  have cu: "cu_ok ?e" by (simp add: cu_ok_def build_puncturer_fields)
  have sizes: "d_in_block_size ?e = 4 * fs_framesize f + 3" "padded_size ?e = bp_ficSize p"
    using wf assms(1,2,4,5)
    by (auto simp: wf_puncturer_def build_puncturer_fields padded_size_def FicSource_def loadFicData_def
        tail_size_def tail_count_def PuncturingRule_def rules_count_def n emplace_simps BlockPartitioner_def
        bit_size_tail [unfolded PuncturingRule_def] split: if_splits)
  obtain c where c: "conv_process (fs_framesize f) ds = Inr c" "length c = 4 * fs_framesize f + 3"
    using conv_process_length [OF assms(3)] by blast
  have "fic_process f = Inr (ds, length ds)"
    using assms(2,3) by (simp add: fic_process_def loadFicData_def)
  with punct_process_ok [OF wf cu _ assms(6,7), of c] c sizes show ?thesis by auto
qed

text \<open>
  The signal multiplexer puts the null symbol, or the transmitter identification symbol
  when there is one, in front of the other symbols, whatever its output buffer held.
\<close>

lemma signal_multiplexer_concatenates:
  assumes "wf_buffer dataOut" and "never_fails alloc"
    and "n = \<lparr>m_len = length xs, m_capacity = length xs, m_data = Some xs\<rparr>"
    and "m = \<lparr>m_len = length ys, m_capacity = length ys, m_data = Some ys\<rparr>"
    and "t = \<lparr>m_len = length zs, m_capacity = length zs, m_data = Some zs\<rparr>"
  shows "\<exists>b b'. sm_process alloc [n, m] dataOut = Inr (b, length (xs @ ys)) \<and> contents b = xs @ ys \<and>
     sm_process alloc [n, m, t] dataOut = Inr (b', length (zs @ ys)) \<and> contents b' = zs @ ys"
proof -
  have two: "\<exists>b. bindE (assign_copy alloc dataOut u) (\<lambda>b. bindE (append_buffer alloc b m)
        (\<lambda>b. Inr (b, getLength b))) = Inr (b, length (us @ ys)) \<and> contents b = us @ ys"
    if u: "u = \<lparr>m_len = length us, m_capacity = length us, m_data = Some us\<rparr>" for u us
  proof -
    obtain b1 where b1: "setData alloc dataOut (Some us) (length us) = Inr b1" "wf_buffer b1" "contents b1 = us"
      using setData_ok [OF assms(1,2)] by blast
    obtain b2 where b2: "appendData alloc b1 (Some ys) (length ys) = Inr b2" "wf_buffer b2"
        "contents b2 = us @ ys"
      using appendData_ok [OF b1(2) assms(2)] b1(3) by blast
    have "m_len b2 = length us + length ys" using length_contents [OF b2(2)] b2(3) by simp
    with b1 b2 u assms(4) show ?thesis
      by (simp add: assign_copy_def append_buffer_def getLength_def)
  qed
  show ?thesis
    using two [OF assms(3)] two [OF assms(5)] unfolding sm_process_def by auto
qed

section \<open>Witnesses\<close>

definition example_subchannel :: subchannel_source where
  "example_subchannel =
     \<lparr>sc_start_address = 0, sc_framesize = 192, sc_protection = 0x22, sc_buffer = [],
      sc_rules = [emplace 45 P8, emplace 3 P7]\<rparr>"

lemma example_subchannel_cu: "framesizeCu example_subchannel = Inr 48"
  unfolding example_subchannel_def by (rule SubchannelSource_example(2))

lemma frame_multiplexer_places_subchannels_witness:
  "\<exists>out. fm_process [example_subchannel] [replicate (864 * 8) 1, replicate 384 2] = Inr out \<and>
     take 384 out = replicate 384 2 \<and> out ! 384 = 1"
proof -
  have "fm_fits example_subchannel (replicate 384 2) (864 * 8)"
    by (simp add: fm_fits_def example_subchannel_cu) (simp add: example_subchannel_def)
  with frame_multiplexer_places_subchannels [of "replicate (864 * 8) 1" "[example_subchannel]" "[replicate 384 2]"]
  show ?thesis by (auto simp: span_of_def example_subchannel_def)
qed

lemma frame_multiplexer_unchecked_address_witness:
  "\<exists>s. SubchannelSource 817 24 0x22 = Inr s \<and> framesizeCu s = Inr 48 \<and>
     fm_process [s] [replicate (864 * 8) 1, replicate 384 2] = Inl (UndefinedBehaviour ''write'')"
proof -
  let ?s = "example_subchannel\<lparr>sc_start_address := 817\<rparr>"
  have s: "SubchannelSource 817 24 0x22 = Inr ?s"
    by (simp add: SubchannelSource_def protectionForm_def protectionOption_def
        protectionLevel_def bitrate_def eep_rules_A_def example_subchannel_def)
  have cu: "framesizeCu ?s = Inr 48"
    by (simp add: example_subchannel_def framesizeCu_def protectionForm_def bitrate_def)
  show ?thesis
    using s cu frame_multiplexer_unchecked_address [OF _ cu, of "replicate (864 * 8) 1" "replicate 384 2"]
    by simp
qed

lemma block_partitioner_frame_witness:
  "\<exists>b b' out'. BlockPartitioner 4 = Inr b \<and>
     bp_run b [(replicate 288 1, replicate 6912 2, [10 :: nat]), (replicate 288 3, replicate 6912 4, [20])]
       (replicate 14400 0) = Inr (b', out', [(False, []), (True, [10, 20])]) \<and>
     out' = (replicate 288 1 @ replicate 288 3) @ replicate 6912 2 @ replicate 6912 4"
proof -
  obtain b :: "nat block_partitioner" where b: "BlockPartitioner 4 = Inr b"
    by (simp add: BlockPartitioner_def)
  then have "bp_cifCount b = 2" "bp_ficSize b = 288" by (auto simp: BlockPartitioner_def)
  with block_partitioner_frame [OF b, of "[(replicate 288 1, replicate 6912 2, [10]),
      (replicate 288 3, replicate 6912 4, [20])]" "replicate 14400 0"] b
  show ?thesis by auto
qed

lemma block_partitioner_keeps_old_metadata_witness:
  "\<exists>b b' out'. BlockPartitioner 2 = Inr b \<and>
     bp_run b [(replicate 288 1, replicate 6912 2, [10 :: nat]), (replicate 288 3, replicate 6912 4, [20])]
       (replicate 7200 0) = Inr (b', out', [(True, [10]), (True, [10, 20])])"
proof -
  obtain b :: "nat block_partitioner" where b: "BlockPartitioner 2 = Inr b"
    by (simp add: BlockPartitioner_def)
  then have "bp_ficSize b = 288" by (auto simp: BlockPartitioner_def)
  with block_partitioner_keeps_old_metadata [OF b, of "replicate 288 1" "replicate 288 3"
      "replicate 6912 2" "replicate 6912 4" "replicate 7200 0" "[10]" "[20]"] b
  show ?thesis by auto
qed

lemma fic_chain_fills_partitioner_witness:
  "\<exists>c e' out. conv_process 96 (replicate 96 7) = Inr c \<and>
     punct_process (\<lambda>n. Some (replicate n 0))
       (build_puncturer 0 (fs_rules (FicSource 1 1 (\<lambda>n. replicate n 0) :: unit fic_source))) c empty_buffer =
       Some (Inr (e', out)) \<and> length out = 288"
proof -
  let ?f = "loadFicData (FicSource 1 1 (\<lambda>n. replicate n 0)) (replicate 96 7) :: unit fic_source"
  obtain p :: "nat block_partitioner" where p: "BlockPartitioner 1 = Inr p"
    by (simp add: BlockPartitioner_def)
  then have "bp_ficSize p = 288" by (auto simp: BlockPartitioner_def)
  moreover have "fs_framesize ?f = 96" "fs_rules ?f = fs_rules (FicSource 1 1 (\<lambda>n. replicate n 0) :: unit fic_source)"
    by (simp_all add: loadFicData_def FicSource_def)
  moreover have "never_fails (\<lambda>n. Some (replicate n 0))" by (simp add: never_fails_def)
  ultimately show ?thesis
    using fic_chain_fills_partitioner [of 1 ?f 1 "\<lambda>n. replicate n 0" "replicate 96 7" 1 p empty_buffer
        "\<lambda>n. Some (replicate n 0)"] p
    by auto
qed

lemma signal_multiplexer_concatenates_witness:
  "\<exists>b b'. sm_process (\<lambda>n. Some (replicate n 0xaa))
       [\<lparr>m_len = 1, m_capacity = 1, m_data = Some [1]\<rparr>, \<lparr>m_len = 1, m_capacity = 1, m_data = Some [2]\<rparr>]
       empty_buffer = Inr (b, 2) \<and> contents b = [1, 2] \<and>
     sm_process (\<lambda>n. Some (replicate n 0xaa))
       [\<lparr>m_len = 1, m_capacity = 1, m_data = Some [1]\<rparr>, \<lparr>m_len = 1, m_capacity = 1, m_data = Some [2]\<rparr>,
        \<lparr>m_len = 1, m_capacity = 1, m_data = Some [3]\<rparr>]
       empty_buffer = Inr (b', 2) \<and> contents b' = [3, 2]"
proof -
  have "never_fails (\<lambda>n. Some (replicate n 0xaa))" by (simp add: never_fails_def)
  then show ?thesis
    using signal_multiplexer_concatenates [of empty_buffer "\<lambda>n. Some (replicate n 0xaa)" _ "[1]" _ "[2]" _ "[3]",
        OF wf_empty_buffer _ refl refl refl] by (simp add: numeral_2_eq_2)
qed

end
