(* ===== verification/Tii.thy ===== *)
theory Tii
  imports Prelude
begin

text \<open>
  The transmitter identification symbol, \<open>src/TII.cpp\<close>: the pattern table, the choice of the
  enabled carriers from comb and pattern, the symbol itself and the remote control. The lemmas
  give the enabled carriers in closed form for every accepted setting, so that neither the
  exception of \<open>enable_carrier\<close> nor a write past the symbol can happen.
\<close>

section \<open>Patterns\<close>

definition pattern_tm1_2_4 :: "nat list list" where
  "pattern_tm1_2_4 =
     [[0, 0, 0, 0, 1, 1, 1, 1],
      [0, 0, 0, 1, 0, 1, 1, 1],
      [0, 0, 0, 1, 1, 0, 1, 1],
      [0, 0, 0, 1, 1, 1, 0, 1],
      [0, 0, 0, 1, 1, 1, 1, 0],
      [0, 0, 1, 0, 0, 1, 1, 1],
      [0, 0, 1, 0, 1, 0, 1, 1],
      [0, 0, 1, 0, 1, 1, 0, 1],
      [0, 0, 1, 0, 1, 1, 1, 0],
      [0, 0, 1, 1, 0, 0, 1, 1],
      [0, 0, 1, 1, 0, 1, 0, 1],
      [0, 0, 1, 1, 0, 1, 1, 0],
      [0, 0, 1, 1, 1, 0, 0, 1],
      [0, 0, 1, 1, 1, 0, 1, 0],
      [0, 0, 1, 1, 1, 1, 0, 0],
      [0, 1, 0, 0, 0, 1, 1, 1],
      [0, 1, 0, 0, 1, 0, 1, 1],
      [0, 1, 0, 0, 1, 1, 0, 1],
      [0, 1, 0, 0, 1, 1, 1, 0],
      [0, 1, 0, 1, 0, 0, 1, 1],
      [0, 1, 0, 1, 0, 1, 0, 1],
      [0, 1, 0, 1, 0, 1, 1, 0],
      [0, 1, 0, 1, 1, 0, 0, 1],
      [0, 1, 0, 1, 1, 0, 1, 0],
      [0, 1, 0, 1, 1, 1, 0, 0],
      [0, 1, 1, 0, 0, 0, 1, 1],
      [0, 1, 1, 0, 0, 1, 0, 1],
      [0, 1, 1, 0, 0, 1, 1, 0],
      [0, 1, 1, 0, 1, 0, 0, 1],
      [0, 1, 1, 0, 1, 0, 1, 0],
      [0, 1, 1, 0, 1, 1, 0, 0],
      [0, 1, 1, 1, 0, 0, 0, 1],
      [0, 1, 1, 1, 0, 0, 1, 0],
      [0, 1, 1, 1, 0, 1, 0, 0],
      [0, 1, 1, 1, 1, 0, 0, 0],
      [1, 0, 0, 0, 0, 1, 1, 1],
      [1, 0, 0, 0, 1, 0, 1, 1],
      [1, 0, 0, 0, 1, 1, 0, 1],
      [1, 0, 0, 0, 1, 1, 1, 0],
      [1, 0, 0, 1, 0, 0, 1, 1],
      [1, 0, 0, 1, 0, 1, 0, 1],
      [1, 0, 0, 1, 0, 1, 1, 0],
      [1, 0, 0, 1, 1, 0, 0, 1],
      [1, 0, 0, 1, 1, 0, 1, 0],
      [1, 0, 0, 1, 1, 1, 0, 0],
      [1, 0, 1, 0, 0, 0, 1, 1],
      [1, 0, 1, 0, 0, 1, 0, 1],
      [1, 0, 1, 0, 0, 1, 1, 0],
      [1, 0, 1, 0, 1, 0, 0, 1],
      [1, 0, 1, 0, 1, 0, 1, 0],
      [1, 0, 1, 0, 1, 1, 0, 0],
      [1, 0, 1, 1, 0, 0, 0, 1],
      [1, 0, 1, 1, 0, 0, 1, 0],
      [1, 0, 1, 1, 0, 1, 0, 0],
      [1, 0, 1, 1, 1, 0, 0, 0],
      [1, 1, 0, 0, 0, 0, 1, 1],
      [1, 1, 0, 0, 0, 1, 0, 1],
      [1, 1, 0, 0, 0, 1, 1, 0],
      [1, 1, 0, 0, 1, 0, 0, 1],
      [1, 1, 0, 0, 1, 0, 1, 0],
      [1, 1, 0, 0, 1, 1, 0, 0],
      [1, 1, 0, 1, 0, 0, 0, 1],
      [1, 1, 0, 1, 0, 0, 1, 0],
      [1, 1, 0, 1, 0, 1, 0, 0],
      [1, 1, 0, 1, 1, 0, 0, 0],
      [1, 1, 1, 0, 0, 0, 0, 1],
      [1, 1, 1, 0, 0, 0, 1, 0],
      [1, 1, 1, 0, 0, 1, 0, 0],
      [1, 1, 1, 0, 1, 0, 0, 0],
      [1, 1, 1, 1, 0, 0, 0, 0]]"

section \<open>State\<close>

record tii_config =
  tc_enable :: bool
  tc_comb :: int
  tc_pattern :: int
  tc_old_variant :: bool

record tii =
  t_dabmode :: nat
  t_conf :: tii_config
  t_insert :: bool
  t_carriers :: nat
  t_Acp :: "bool list"

definition enable_carrier :: "nat \<Rightarrow> int \<Rightarrow> bool list \<Rightarrow> bool list result" where
  "enable_carrier carriers k acp =
     (let ix = int (carriers div 2) + k + (if k \<ge> 0 then - 1 else 0)
      in if ix < 0 \<or> ix + 1 \<ge> int (length acp) then Inl (TIIError ''TII::enable_carrier invalid k!'')
         else Inr (acp[nat ix := True]))"

text \<open>One pair of nested loops over \<open>k\<close> and \<open>b\<close>.\<close>

definition tii_loop ::
    "nat \<Rightarrow> nat list \<Rightarrow> int \<Rightarrow> int \<Rightarrow> int list \<Rightarrow> nat list \<Rightarrow> bool list \<Rightarrow> bool list result" where
  "tii_loop carriers pat comb base ks bs =
     for_each (\<lambda>k. for_each (\<lambda>b acp.
        if k = base + 2 * comb + 48 * int b \<and> pat ! b \<noteq> 0 then enable_carrier carriers k acp
        else Inr acp) bs) ks"

text \<open>In mode 2 both loops over \<open>b\<close> are in the body of one loop over \<open>k\<close>.\<close>

definition tii_loop2 :: "nat \<Rightarrow> nat list \<Rightarrow> int \<Rightarrow> bool list \<Rightarrow> bool list result" where
  "tii_loop2 carriers pat comb =
     for_each (\<lambda>k acp.
       bindE (tii_loop carriers pat comb (- 192) [k] [0..<4] acp)
         (tii_loop carriers pat comb (- 191) [k] [4..<8])) [- 192..192]"

definition prepare_pattern :: "tii \<Rightarrow> tii result" where
  "prepare_pattern t =
     (let comb = tc_comb (t_conf t);
          acp = replicate (length (t_Acp t)) False;
          c = t_carriers t
      in bindE (rd pattern_tm1_2_4 (nat (tc_pattern (t_conf t)))) (\<lambda>pat.
         bindE
           (if t_dabmode t = 1 then
              bindE (tii_loop c pat comb (- 768) [- 768..- 385] [0..<8] acp) (\<lambda>acp.
              bindE (tii_loop c pat comb (- 384) [- 384..- 1] [0..<8] acp) (\<lambda>acp.
              bindE (tii_loop c pat comb 1 [1..384] [0..<8] acp) (\<lambda>acp.
              tii_loop c pat comb 385 [385..768] [0..<8] acp)))
            else if t_dabmode t = 2 then tii_loop2 c pat comb acp
            else Inl (TIIError ''TII::TII DAB mode not valid!''))
           (\<lambda>acp. Inr (t\<lparr>t_Acp := acp\<rparr>))))"

definition TII :: "nat \<Rightarrow> tii_config \<Rightarrow> tii result" where
  "TII dabmode conf =
     bindE
       (if dabmode = 1 then
          (if \<not> (0 \<le> tc_pattern conf \<and> tc_pattern conf \<le> 69)
           then Inl (TIIError ''TII::TII pattern not valid!'') else Inr 1536)
        else if dabmode = 2 then
          (if \<not> (0 \<le> tc_pattern conf \<and> tc_pattern conf \<le> 69)
           then Inl (TIIError ''TII::TII pattern not valid!'') else Inr 384)
        else Inl (TIIError ''TII::TII DAB mode not valid!''))
       (\<lambda>carriers.
          if \<not> (0 \<le> tc_comb conf \<and> tc_comb conf \<le> 23)
          then Inl (TIIError ''TII::TII comb not valid!'')
          else prepare_pattern \<lparr>t_dabmode = dabmode, t_conf = conf, t_insert = True,
                 t_carriers = carriers, t_Acp = replicate carriers False\<rparr>)"

section \<open>The symbol\<close>

definition tii_sample :: "bool \<Rightarrow> bool list \<Rightarrow> 'a list \<Rightarrow> nat \<Rightarrow> 'a list \<Rightarrow> 'a list result" where
  "tii_sample old_variant acp ins i out =
     (if acp ! i then
        bindE (rd ins i) (\<lambda>x.
        bindE (wr out i x) (\<lambda>out.
        bindE (rd ins (if old_variant then i + 1 else i)) (\<lambda>y.
        wr out (i + 1) y)))
      else Inr out)"

definition tii_process :: "tii \<Rightarrow> 'a::zero list option \<Rightarrow> (tii \<times> 'a list) result" where
  "tii_process t dataIn =
     (case dataIn of
        None \<Rightarrow> Inl (TIIError ''TII::process input size not valid!'')
      | Some ins \<Rightarrow>
          (if length ins \<noteq> t_carriers t then Inl (TIIError ''TII::process input size not valid!'')
           else
             (let out = replicate (t_carriers t) 0
              in bindE
                (if tc_enable (t_conf t) \<and> t_insert t
                 then for_each (tii_sample (tc_old_variant (t_conf t)) (t_Acp t) ins) [0..<length (t_Acp t)] out
                 else Inr out)
                (\<lambda>out. Inr (t\<lparr>t_insert := \<not> t_insert t\<rparr>, out)))))"

section \<open>Remote control\<close>

text \<open>
  The extraction of an \<open>int\<close> or a \<open>bool\<close> from the value is the stream library's: \<open>parse_int\<close>
  is None, and the second part of \<open>parse_bool\<close> False, where it throws; a \<open>bool\<close> is stored in the
  configuration before that. The first component of the result is the state the call leaves.
\<close>

definition tii_set_parameter ::
    "(string \<Rightarrow> int option) \<Rightarrow> (string \<Rightarrow> bool \<times> bool) \<Rightarrow> tii \<Rightarrow> string \<Rightarrow> string \<Rightarrow> tii \<times> unit result" where
  "tii_set_parameter parse_int parse_bool t parameter value =
     (let fail = Inl (RuntimeError ''ios_base::failure'') in
      if parameter = ''enable'' then
        (let (v, ok) = parse_bool value
         in (t\<lparr>t_conf := (t_conf t)\<lparr>tc_enable := v\<rparr>\<rparr>, if ok then Inr () else fail))
      else if parameter = ''pattern'' then
        (case parse_int value of
           None \<Rightarrow> (t, fail)
         | Some v \<Rightarrow>
             (if (t_dabmode t = 1 \<or> t_dabmode t = 2) \<and> \<not> (0 \<le> v \<and> v \<le> 69)
              then (t, Inl (TIIError ''TII pattern not valid!''))
              else
                (let t' = t\<lparr>t_conf := (t_conf t)\<lparr>tc_pattern := v\<rparr>\<rparr>
                 in (case prepare_pattern t' of Inl e \<Rightarrow> (t', Inl e) | Inr t'' \<Rightarrow> (t'', Inr ())))))
      else if parameter = ''comb'' then
        (case parse_int value of
           None \<Rightarrow> (t, fail)
         | Some v \<Rightarrow>
             (if \<not> (0 \<le> v \<and> v \<le> 23)
              then (t, Inl (TIIError ''TII comb not valid!''))
              else
                (let t' = t\<lparr>t_conf := (t_conf t)\<lparr>tc_comb := v\<rparr>\<rparr>
                 in (case prepare_pattern t' of Inl e \<Rightarrow> (t', Inl e) | Inr t'' \<Rightarrow> (t'', Inr ())))))
      else if parameter = ''old_variant'' then
        (let (v, ok) = parse_bool value
         in (t\<lparr>t_conf := (t_conf t)\<lparr>tc_old_variant := v\<rparr>\<rparr>, if ok then Inr () else fail))
      else (t, Inl (ParameterError ''is not exported by controllable'')))"

text \<open>The number that is printed.\<close>

definition tii_get_parameter :: "tii \<Rightarrow> string \<Rightarrow> int result" where
  "tii_get_parameter t parameter =
     (if parameter = ''enable'' then Inr (if tc_enable (t_conf t) then 1 else 0)
      else if parameter = ''pattern'' then Inr (tc_pattern (t_conf t))
      else if parameter = ''comb'' then Inr (tc_comb (t_conf t))
      else if parameter = ''old_variant'' then Inr (if tc_old_variant (t_conf t) then 1 else 0)
      else Inl (ParameterError ''is not exported by controllable''))"

section \<open>The enabled carriers\<close>

declare upto_rec_numeral [simp del] upt_rec_numeral [simp del]

definition carrier_index :: "nat \<Rightarrow> int \<Rightarrow> int" where
  "carrier_index carriers k = int (carriers div 2) + k + (if k \<ge> 0 then - 1 else 0)"

definition in_symbol :: "nat \<Rightarrow> int \<Rightarrow> bool" where
  "in_symbol carriers k = (0 \<le> carrier_index carriers k \<and> carrier_index carriers k + 1 < int carriers)"

definition tii_selects :: "nat list \<Rightarrow> int \<Rightarrow> int \<Rightarrow> int list \<Rightarrow> nat list \<Rightarrow> int set" where
  "tii_selects pat comb base ks bs =
     {k \<in> set ks. \<exists>b \<in> set bs. k = base + 2 * comb + 48 * int b \<and> pat ! b \<noteq> 0}"

definition marked :: "nat \<Rightarrow> int set \<Rightarrow> bool list \<Rightarrow> bool list \<Rightarrow> bool" where
  "marked carriers S acp acp' =
     (length acp' = length acp \<and>
      (\<forall>i < length acp. acp' ! i = (acp ! i \<or> int i \<in> carrier_index carriers ` S)))"

lemma marked_refl: "marked c {} acp acp"
  by (simp add: marked_def)

lemma marked_trans: "marked c S a b \<Longrightarrow> marked c T b d \<Longrightarrow> marked c (S \<union> T) a d"
  by (auto simp: marked_def)

lemma marked_length: "marked c S a b \<Longrightarrow> length a = n \<Longrightarrow> length b = n"
  by (simp add: marked_def)

lemma enable_carrier_ok:
  assumes "in_symbol c k" "length acp = c"
  shows "\<exists>acp'. enable_carrier c k acp = Inr acp' \<and> marked c {k} acp acp'"
proof -
  have ix: "0 \<le> carrier_index c k" "carrier_index c k + 1 < int c" using assms(1) by (auto simp: in_symbol_def)
  then have "enable_carrier c k acp = Inr (acp[nat (carrier_index c k) := True])"
    using assms(2) by (simp add: enable_carrier_def Let_def carrier_index_def)
  moreover have "marked c {k} acp (acp[nat (carrier_index c k) := True])"
    using ix assms(2) by (auto simp: marked_def nth_list_update)
  ultimately show ?thesis by blast
qed

lemma for_each_marked:
  assumes "\<And>x acp. x \<in> set xs \<Longrightarrow> length acp = c \<Longrightarrow> \<exists>acp'. f x acp = Inr acp' \<and> marked c (S x) acp acp'"
    and "length acp = c"
  shows "\<exists>acp'. for_each f xs acp = Inr acp' \<and> marked c (\<Union>x \<in> set xs. S x) acp acp'"
  using assms
proof (induction xs arbitrary: acp)
  case Nil
  then show ?case by (simp add: marked_refl)
next
  case (Cons x xs)
  obtain a where a: "f x acp = Inr a" "marked c (S x) acp a"
    using Cons.prems(1) [of x acp] Cons.prems(2) by auto
  have "length a = c" using a(2) Cons.prems(2) by (simp add: marked_def)
  then have "\<exists>b. for_each f xs a = Inr b \<and> marked c (\<Union>x \<in> set xs. S x) a b"
    by (intro Cons.IH) (use Cons.prems(1) in auto)
  then obtain b where "for_each f xs a = Inr b" "marked c (\<Union>x \<in> set xs. S x) a b" by blast
  with a marked_trans [OF a(2)] show ?case by fastforce
qed

lemma tii_loop_ok:
  assumes "\<forall>k \<in> tii_selects pat comb base ks bs. in_symbol c k" "length acp = c"
  shows "\<exists>acp'. tii_loop c pat comb base ks bs acp = Inr acp' \<and>
     marked c (tii_selects pat comb base ks bs) acp acp'"
proof -
  let ?sel = "\<lambda>k b. k = base + 2 * comb + 48 * int b \<and> pat ! b \<noteq> 0"
  let ?f = "\<lambda>k b acp. if ?sel k b then enable_carrier c k acp else Inr acp"
  have inner: "\<exists>acp'. ?f k b acp = Inr acp' \<and> marked c (if ?sel k b then {k} else {}) acp acp'"
    if "k \<in> set ks" "b \<in> set bs" "length acp = c" for k b acp
    using that assms(1) enable_carrier_ok [of c k acp] marked_refl by (auto simp: tii_selects_def)
  have "\<exists>acp'. for_each (\<lambda>k. for_each (?f k) bs) ks acp = Inr acp' \<and>
      marked c (\<Union>k \<in> set ks. \<Union>b \<in> set bs. if ?sel k b then {k} else {}) acp acp'"
    by (rule for_each_marked [OF for_each_marked]) (use inner assms(2) in auto)
  moreover have "(\<Union>k \<in> set ks. \<Union>b \<in> set bs. if ?sel k b then {k} else {}) = tii_selects pat comb base ks bs"
    by (auto simp: tii_selects_def split: if_splits)
  ultimately show ?thesis by (simp add: tii_loop_def)
qed

text \<open>The carriers of a setting: \<open>A_{c,p}\<close> of EN 300 401 clause 14.8 as a set of indices.\<close>

definition tii_enabled :: "nat \<Rightarrow> nat list \<Rightarrow> nat \<Rightarrow> nat \<Rightarrow> bool" where
  "tii_enabled dabmode pat comb i =
     (\<exists>q < (if dabmode = 1 then 4 else 1). \<exists>b < 8. pat ! b \<noteq> 0 \<and> i = 384 * q + 2 * comb + 48 * b)"

definition tii_carriers :: "nat \<Rightarrow> nat" where
  "tii_carriers dabmode = (if dabmode = 1 then 1536 else 384)"

lemma marked_enabled:
  assumes "marked c S (replicate c False) acp" "i < c"
    and "\<And>i. i < c \<Longrightarrow> (int i \<in> carrier_index c ` S) = P i"
  shows "acp ! i = P i"
  using assms by (simp add: marked_def)

lemma selects_image:
  assumes "\<And>b. b < 8 \<Longrightarrow> base + 2 * int n + 48 * int b \<in> set ks"
    and "\<And>b. b < 8 \<Longrightarrow> carrier_index c (base + 2 * int n + 48 * int b) = int (off + 2 * n + 48 * b)"
  shows "carrier_index c ` tii_selects pat (int n) base ks [0..<8] =
    (\<lambda>b. int (off + 2 * n + 48 * b)) ` {b. b < 8 \<and> pat ! b \<noteq> 0}"
proof -
  have "tii_selects pat (int n) base ks [0..<8] =
      (\<lambda>b. base + 2 * int n + 48 * int b) ` {b. b < 8 \<and> pat ! b \<noteq> 0}"
    using assms(1) by (auto simp: tii_selects_def)
  then show ?thesis using assms(2) by (simp add: image_image)
qed

lemma tii_mode1:
  assumes "n \<le> 23"
  shows "\<exists>acp.
    bindE (tii_loop 1536 pat (int n) (- 768) [- 768..- 385] [0..<8] (replicate 1536 False)) (\<lambda>acp.
    bindE (tii_loop 1536 pat (int n) (- 384) [- 384..- 1] [0..<8] acp) (\<lambda>acp.
    bindE (tii_loop 1536 pat (int n) 1 [1..384] [0..<8] acp) (\<lambda>acp.
    tii_loop 1536 pat (int n) 385 [385..768] [0..<8] acp))) = Inr acp \<and>
    length acp = 1536 \<and> (\<forall>i < 1536. acp ! i = tii_enabled 1 pat n i)"
proof -
  let ?S = "\<lambda>base ks. tii_selects pat (int n) base ks [0..<8]"
  let ?Z = "replicate 1536 False"
  have sym: "\<forall>k \<in> ?S (- 768) [- 768..- 385]. in_symbol 1536 k" "\<forall>k \<in> ?S (- 384) [- 384..- 1]. in_symbol 1536 k"
    "\<forall>k \<in> ?S 1 [1..384]. in_symbol 1536 k" "\<forall>k \<in> ?S 385 [385..768]. in_symbol 1536 k"
    using assms unfolding tii_selects_def in_symbol_def carrier_index_def by (auto, presburger+)
  have l0: "length ?Z = 1536" by simp
  obtain a1 where 1: "tii_loop 1536 pat (int n) (- 768) [- 768..- 385] [0..<8] ?Z = Inr a1"
      "marked 1536 (?S (- 768) [- 768..- 385]) ?Z a1"
    using tii_loop_ok [OF sym(1) l0] by blast
  have l1: "length a1 = 1536" by (rule marked_length [OF 1(2) l0])
  obtain a2 where 2: "tii_loop 1536 pat (int n) (- 384) [- 384..- 1] [0..<8] a1 = Inr a2"
      "marked 1536 (?S (- 384) [- 384..- 1]) a1 a2"
    using tii_loop_ok [OF sym(2) l1] by blast
  have l2: "length a2 = 1536" by (rule marked_length [OF 2(2) l1])
  obtain a3 where 3: "tii_loop 1536 pat (int n) 1 [1..384] [0..<8] a2 = Inr a3"
      "marked 1536 (?S 1 [1..384]) a2 a3"
    using tii_loop_ok [OF sym(3) l2] by blast
  have l3: "length a3 = 1536" by (rule marked_length [OF 3(2) l2])
  obtain a4 where 4: "tii_loop 1536 pat (int n) 385 [385..768] [0..<8] a3 = Inr a4"
      "marked 1536 (?S 385 [385..768]) a3 a4"
    using tii_loop_ok [OF sym(4) l3] by blast
  have l4: "length a4 = 1536" by (rule marked_length [OF 4(2) l3])
  have m: "marked 1536 (?S (- 768) [- 768..- 385] \<union> ?S (- 384) [- 384..- 1] \<union> ?S 1 [1..384] \<union> ?S 385 [385..768]) ?Z a4"
    by (intro marked_trans [OF marked_trans [OF marked_trans [OF 1(2) 2(2)] 3(2)] 4(2)])
  have img: "carrier_index 1536 ` ?S (- 768) [- 768..- 385] = (\<lambda>b. int (0 + 2 * n + 48 * b)) ` {b. b < 8 \<and> pat ! b \<noteq> 0}"
    "carrier_index 1536 ` ?S (- 384) [- 384..- 1] = (\<lambda>b. int (384 + 2 * n + 48 * b)) ` {b. b < 8 \<and> pat ! b \<noteq> 0}"
    "carrier_index 1536 ` ?S 1 [1..384] = (\<lambda>b. int (768 + 2 * n + 48 * b)) ` {b. b < 8 \<and> pat ! b \<noteq> 0}"
    "carrier_index 1536 ` ?S 385 [385..768] = (\<lambda>b. int (1152 + 2 * n + 48 * b)) ` {b. b < 8 \<and> pat ! b \<noteq> 0}"
    by (rule selects_image; use assms in \<open>auto simp: carrier_index_def\<close>)+
  have en: "tii_enabled 1 pat n i = (\<exists>b < 8. pat ! b \<noteq> 0 \<and>
      (i = 2 * n + 48 * b \<or> i = 384 + 2 * n + 48 * b \<or> i = 768 + 2 * n + 48 * b \<or> i = 1152 + 2 * n + 48 * b))" for i
  proof -
    have "q < 4 \<longleftrightarrow> q = 0 \<or> q = 1 \<or> q = 2 \<or> q = (3 :: nat)" for q by arith
    then have q: "(\<exists>q < 4. Q q) = (Q 0 \<or> Q 1 \<or> Q 2 \<or> Q (3 :: nat))" for Q by auto
    show ?thesis unfolding tii_enabled_def by (simp only: q if_True simp_thms) auto
  qed
  have "a4 ! i = tii_enabled 1 pat n i" if "i < 1536" for i
    by (rule marked_enabled [OF m that]) (unfold image_Un img en, auto)
  with 1(1) 2(1) 3(1) 4(1) l4 show ?thesis
    by (simp only: bindE_simps) blast
qed

lemma tii_mode2:
  assumes "n \<le> 23"
  shows "\<exists>acp. tii_loop2 384 pat (int n) (replicate 384 False) = Inr acp \<and>
    length acp = 384 \<and> (\<forall>i < 384. acp ! i = tii_enabled 2 pat n i)"
proof -
  let ?A = "\<lambda>k. tii_selects pat (int n) (- 192) [k] [0..<4]"
  let ?B = "\<lambda>k. tii_selects pat (int n) (- 191) [k] [4..<8]"
  let ?Z = "replicate 384 False"
  have sym: "\<forall>k' \<in> ?A k. in_symbol 384 k'" "\<forall>k' \<in> ?B k. in_symbol 384 k'" for k
    using assms by (auto simp: tii_selects_def in_symbol_def carrier_index_def)
  have step: "\<exists>acp'. bindE (tii_loop 384 pat (int n) (- 192) [k] [0..<4] acp)
         (tii_loop 384 pat (int n) (- 191) [k] [4..<8]) = Inr acp' \<and> marked 384 (?A k \<union> ?B k) acp acp'"
    if acp: "length acp = 384" for k acp
  proof -
    obtain a1 where 1: "tii_loop 384 pat (int n) (- 192) [k] [0..<4] acp = Inr a1" "marked 384 (?A k) acp a1"
      using tii_loop_ok [OF sym(1) acp] by blast
    obtain a2 where 2: "tii_loop 384 pat (int n) (- 191) [k] [4..<8] a1 = Inr a2" "marked 384 (?B k) a1 a2"
      using tii_loop_ok [OF sym(2) marked_length [OF 1(2) acp]] by blast
    show ?thesis using 2(1) marked_trans [OF 1(2) 2(2)] by (simp only: 1(1) bindE_simps) blast
  qed
  have "\<exists>acp'. tii_loop2 384 pat (int n) ?Z = Inr acp' \<and>
      marked 384 (\<Union>k \<in> set [- 192..192]. ?A k \<union> ?B k) ?Z acp'"
    unfolding tii_loop2_def by (rule for_each_marked) (use step in simp_all)
  then obtain acp where a: "tii_loop2 384 pat (int n) ?Z = Inr acp"
    "marked 384 (\<Union>k \<in> set [- 192..192]. ?A k \<union> ?B k) ?Z acp" by blast
  have img: "carrier_index 384 ` (\<Union>k \<in> set [- 192..192]. ?A k \<union> ?B k) =
      (\<lambda>b. int (2 * n + 48 * b)) ` {b. b < 8 \<and> pat ! b \<noteq> 0}"
  proof
    show "carrier_index 384 ` (\<Union>k \<in> set [- 192..192]. ?A k \<union> ?B k) \<subseteq>
        (\<lambda>b. int (2 * n + 48 * b)) ` {b. b < 8 \<and> pat ! b \<noteq> 0}"
      using assms by (force simp: tii_selects_def carrier_index_def image_iff)
    show "(\<lambda>b. int (2 * n + 48 * b)) ` {b. b < 8 \<and> pat ! b \<noteq> 0} \<subseteq>
        carrier_index 384 ` (\<Union>k \<in> set [- 192..192]. ?A k \<union> ?B k)"
    proof
      fix x assume "x \<in> (\<lambda>b. int (2 * n + 48 * b)) ` {b. b < 8 \<and> pat ! b \<noteq> 0}"
      then obtain b where b: "b < 8" "pat ! b \<noteq> 0" "x = int (2 * n + 48 * b)" by auto
      let ?k = "(if b < 4 then - 192 else - 191) + 2 * int n + 48 * int b"
      have "?k \<in> ?A ?k \<union> ?B ?k" using b by (auto simp: tii_selects_def)
      moreover have "?k \<in> set [- 192..192]" using b assms by auto
      moreover have "carrier_index 384 ?k = x" using b assms by (auto simp: carrier_index_def)
      ultimately show "x \<in> carrier_index 384 ` (\<Union>k \<in> set [- 192..192]. ?A k \<union> ?B k)" by blast
    qed
  qed
  have "acp ! i = tii_enabled 2 pat n i" if "i < 384" for i
    by (rule marked_enabled [OF a(2) that]) (unfold img, auto simp: tii_enabled_def)
  with a show ?thesis by (auto simp: marked_def)
qed

text \<open>A well-formed state: the setting is in range and the table is the one of the setting.\<close>

definition wf_tii :: "tii \<Rightarrow> bool" where
  "wf_tii t =
     ((t_dabmode t = 1 \<or> t_dabmode t = 2) \<and> t_carriers t = tii_carriers (t_dabmode t) \<and>
      0 \<le> tc_comb (t_conf t) \<and> tc_comb (t_conf t) \<le> 23 \<and>
      0 \<le> tc_pattern (t_conf t) \<and> tc_pattern (t_conf t) \<le> 69 \<and>
      length (t_Acp t) = t_carriers t \<and>
      (\<forall>i < t_carriers t. t_Acp t ! i = tii_enabled (t_dabmode t)
         (pattern_tm1_2_4 ! nat (tc_pattern (t_conf t))) (nat (tc_comb (t_conf t))) i))"

lemma length_pattern_table: "length pattern_tm1_2_4 = 70"
  by (simp add: pattern_tm1_2_4_def)

lemma prepare_pattern_ok:
  assumes "t_dabmode t = 1 \<or> t_dabmode t = 2" "t_carriers t = tii_carriers (t_dabmode t)"
    and "0 \<le> tc_comb (t_conf t)" "tc_comb (t_conf t) \<le> 23"
    and "0 \<le> tc_pattern (t_conf t)" "tc_pattern (t_conf t) \<le> 69" "length (t_Acp t) = t_carriers t"
  shows "\<exists>t'. prepare_pattern t = Inr t' \<and> wf_tii t' \<and> t_conf t' = t_conf t \<and> t_dabmode t' = t_dabmode t \<and>
     t_insert t' = t_insert t"
proof -
  let ?pat = "pattern_tm1_2_4 ! nat (tc_pattern (t_conf t))"
  let ?n = "nat (tc_comb (t_conf t))"
  have n: "?n \<le> 23" "tc_comb (t_conf t) = int ?n" using assms by auto
  have r: "rd pattern_tm1_2_4 (nat (tc_pattern (t_conf t))) = Inr ?pat"
    using assms by (simp add: length_pattern_table)
  show ?thesis
    using assms(1)
  proof
    assume m: "t_dabmode t = 1"
    from tii_mode1 [OF n(1), of ?pat] obtain acp where
      "bindE (tii_loop 1536 ?pat (int ?n) (- 768) [- 768..- 385] [0..<8] (replicate 1536 False)) (\<lambda>acp.
       bindE (tii_loop 1536 ?pat (int ?n) (- 384) [- 384..- 1] [0..<8] acp) (\<lambda>acp.
       bindE (tii_loop 1536 ?pat (int ?n) 1 [1..384] [0..<8] acp) (\<lambda>acp.
       tii_loop 1536 ?pat (int ?n) 385 [385..768] [0..<8] acp))) = Inr acp"
      "length acp = 1536" "\<forall>i < 1536. acp ! i = tii_enabled 1 ?pat ?n i" by blast
    then have "prepare_pattern t = Inr (t\<lparr>t_Acp := acp\<rparr>)" "wf_tii (t\<lparr>t_Acp := acp\<rparr>)"
      using assms m r unfolding prepare_pattern_def Let_def n(2) [symmetric]
      by (simp_all add: wf_tii_def tii_carriers_def)
    then show ?thesis by simp
  next
    assume m: "t_dabmode t = 2"
    from tii_mode2 [OF n(1), of ?pat] obtain acp where
      "tii_loop2 384 ?pat (int ?n) (replicate 384 False) = Inr acp"
      "length acp = 384" "\<forall>i < 384. acp ! i = tii_enabled 2 ?pat ?n i" by blast
    then have "prepare_pattern t = Inr (t\<lparr>t_Acp := acp\<rparr>)" "wf_tii (t\<lparr>t_Acp := acp\<rparr>)"
      using assms m r unfolding prepare_pattern_def Let_def n(2) [symmetric]
      by (simp_all add: wf_tii_def tii_carriers_def)
    then show ?thesis by simp
  qed
qed

lemma tii_enabled_even: "tii_enabled m pat n i \<Longrightarrow> even i"
  by (auto simp: tii_enabled_def)

lemma wf_tii_Acp:
  assumes "wf_tii t" "i < t_carriers t" "t_Acp t ! i"
  shows "even i" "Suc i < t_carriers t"
proof -
  show e: "even i" using assms tii_enabled_even by (auto simp: wf_tii_def)
  have "even (t_carriers t)" using assms(1) by (auto simp: wf_tii_def tii_carriers_def)
  with e assms(2) show "Suc i < t_carriers t" by (metis Suc_lessI even_Suc)
qed

section \<open>The symbol in closed form\<close>

definition tii_out :: "bool \<Rightarrow> bool list \<Rightarrow> 'a::zero list \<Rightarrow> nat \<Rightarrow> nat \<Rightarrow> 'a" where
  "tii_out old_variant acp ins m i =
     (if i < m \<and> acp ! i then ins ! i
      else if 0 < i \<and> i \<le> m \<and> acp ! (i - 1) then (if old_variant then ins ! i else ins ! (i - 1))
      else 0)"

lemma tii_samples_ok:
  assumes "m \<le> c" "length acp = c" "length ins = c"
    and "\<forall>i < c. acp ! i \<longrightarrow> even i \<and> Suc i < c"
  shows "\<exists>out. for_each (tii_sample old acp ins) [0..<m] (replicate c 0) = Inr out \<and> length out = c \<and>
     (\<forall>i < c. out ! i = tii_out old acp ins m i)"
  using assms(1)
proof (induction m)
  case 0
  then show ?case by (simp add: tii_out_def)
next
  case (Suc m)
  then obtain out where out: "for_each (tii_sample old acp ins) [0..<m] (replicate c 0) = Inr out"
    "length out = c" "\<forall>i < c. out ! i = tii_out old acp ins m i" by auto
  show ?case
  proof (cases "acp ! m")
    case True
    have m: "even m" "Suc m < c" using assms(4) True Suc.prems by auto
    have odd: "\<not> acp ! i" if "i < c" "odd i" for i using assms(4) that by auto
    let ?out = "out[m := ins ! m, Suc m := ins ! (if old then Suc m else m)]"
    have "tii_sample old acp ins m out = Inr ?out"
      using True m out(2) assms(3) by (simp add: tii_sample_def)
    moreover have "?out ! i = tii_out old acp ins (Suc m) i" if i: "i < c" for i
    proof -
      consider "i = m" | "i = Suc m" | "i \<noteq> m" "i \<noteq> Suc m" by blast
      then show ?thesis
      proof cases
        case 1
        then show ?thesis using True out(2) i by (simp add: tii_out_def)
      next
        case 2
        then show ?thesis using True out(2) i odd [of "Suc m"] m by (simp add: tii_out_def)
      next
        case 3
        then have "?out ! i = tii_out old acp ins m i" using out(3) i by simp
        also have "\<dots> = tii_out old acp ins (Suc m) i" using 3 by (auto simp: tii_out_def)
        finally show ?thesis .
      qed
    qed
    ultimately show ?thesis using out by (simp add: for_each_append)
  next
    case False
    have "tii_sample old acp ins m out = Inr out" using False by (simp add: tii_sample_def)
    moreover have "tii_out old acp ins m i = tii_out old acp ins (Suc m) i" for i
      using False by (auto simp: tii_out_def less_Suc_eq le_Suc_eq)
    ultimately show ?thesis using out by (simp add: for_each_append)
  qed
qed

section \<open>Properties\<close>

text \<open>
  The pattern table lists, in increasing order, exactly the eight-bit patterns with four
  ones: no pattern is missing, repeated or mistyped.
\<close>

lemma tii_pattern_table_complete:
  "pattern_tm1_2_4 = filter (\<lambda>p. sum_list p = 4) (map rev (List.n_lists 8 [0, 1]))"
  by (simp add: pattern_tm1_2_4_def eval_nat_numeral)

text \<open>
  For every setting in range the constructor succeeds: no carrier number is invalid, and
  the enabled carriers are exactly the pairs that start at \<open>384 q + 2 comb + 48 b\<close> for the ones
  \<open>b\<close> of the pattern, in mode 1 for the four blocks \<open>q\<close>. Every other setting is refused.
\<close>

lemma tii_constructor_total:
  "(\<exists>t. TII dabmode conf = Inr t \<and> wf_tii t \<and> t_conf t = conf \<and> t_dabmode t = dabmode) =
   (dabmode \<in> {1, 2} \<and> tc_comb conf \<in> {0..23} \<and> tc_pattern conf \<in> {0..69})"
proof
  assume r: "dabmode \<in> {1, 2} \<and> tc_comb conf \<in> {0..23} \<and> tc_pattern conf \<in> {0..69}"
  let ?c = "tii_carriers dabmode"
  let ?t = "\<lparr>t_dabmode = dabmode, t_conf = conf, t_insert = True, t_carriers = ?c, t_Acp = replicate ?c False\<rparr>"
  have "\<exists>t'. prepare_pattern ?t = Inr t' \<and> wf_tii t' \<and> t_conf t' = t_conf ?t \<and>
      t_dabmode t' = t_dabmode ?t \<and> t_insert t' = t_insert ?t"
    by (rule prepare_pattern_ok) (use r in auto)
  moreover have "TII dabmode conf = prepare_pattern ?t"
    using r by (auto simp: TII_def tii_carriers_def)
  ultimately show "\<exists>t. TII dabmode conf = Inr t \<and> wf_tii t \<and> t_conf t = conf \<and> t_dabmode t = dabmode"
    by auto
next
  assume "\<exists>t. TII dabmode conf = Inr t \<and> wf_tii t \<and> t_conf t = conf \<and> t_dabmode t = dabmode"
  then show "dabmode \<in> {1, 2} \<and> tc_comb conf \<in> {0..23} \<and> tc_pattern conf \<in> {0..69}"
    by (auto simp: wf_tii_def)
qed

text \<open>
  In a well-formed state the symbol is computed without an access outside the buffers:
  each enabled carrier and its right neighbour carry the phase reference (the neighbour that of
  the pair's first carrier, or its own in the old variant), all others are zero, and the symbol
  is inserted in every second frame.
\<close>

lemma tii_symbol:
  assumes "wf_tii t" and "length ins = t_carriers t" and "i < t_carriers t"
  shows "\<exists>out. tii_process t (Some ins) = Inr (t\<lparr>t_insert := \<not> t_insert t\<rparr>, out) \<and>
     length out = t_carriers t \<and>
     out ! i = (if tc_enable (t_conf t) \<and> t_insert t
                then (if t_Acp t ! i then ins ! i
                      else if 0 < i \<and> t_Acp t ! (i - 1)
                      then (if tc_old_variant (t_conf t) then ins ! i else ins ! (i - 1))
                      else 0)
                else 0)"
proof -
  have acp: "length (t_Acp t) = t_carriers t" using assms(1) by (simp add: wf_tii_def)
  obtain out where out: "for_each (tii_sample (tc_old_variant (t_conf t)) (t_Acp t) ins)
      [0..<t_carriers t] (replicate (t_carriers t) 0) = Inr out" "length out = t_carriers t"
     "\<forall>i < t_carriers t. out ! i = tii_out (tc_old_variant (t_conf t)) (t_Acp t) ins (t_carriers t) i"
    using tii_samples_ok [of "t_carriers t" "t_carriers t" "t_Acp t" ins] acp assms(2)
      wf_tii_Acp [OF assms(1)] by blast
  show ?thesis
    using out acp assms(2,3) by (auto simp: tii_process_def tii_out_def)
qed

text \<open>
  The remote control keeps the state well formed: an out-of-range comb or pattern is
  refused and leaves everything as it was, an accepted one rebuilds the carrier table.
\<close>

lemma tii_remote_control_invariant:
  assumes "wf_tii t"
  shows "wf_tii (fst (tii_set_parameter parse_int parse_bool t parameter value))"
proof -
  have pp: "\<exists>t'. prepare_pattern (t\<lparr>t_conf := conf\<rparr>) = Inr t' \<and> wf_tii t'"
    if "0 \<le> tc_comb conf" "tc_comb conf \<le> 23" "0 \<le> tc_pattern conf" "tc_pattern conf \<le> 69" for conf
    using prepare_pattern_ok [of "t\<lparr>t_conf := conf\<rparr>"] assms that by (auto simp: wf_tii_def)
  have conf: "wf_tii (t\<lparr>t_conf := (t_conf t)\<lparr>tc_enable := v\<rparr>\<rparr>)"
    "wf_tii (t\<lparr>t_conf := (t_conf t)\<lparr>tc_old_variant := v\<rparr>\<rparr>)" for v
    using assms by (auto simp: wf_tii_def)
  have pat: "\<exists>t'. prepare_pattern (t\<lparr>t_conf := (t_conf t)\<lparr>tc_pattern := v\<rparr>\<rparr>) = Inr t' \<and> wf_tii t'"
    if "0 \<le> v" "v \<le> 69" for v
    by (rule pp) (use assms that in \<open>auto simp: wf_tii_def\<close>)
  have comb: "\<exists>t'. prepare_pattern (t\<lparr>t_conf := (t_conf t)\<lparr>tc_comb := v\<rparr>\<rparr>) = Inr t' \<and> wf_tii t'"
    if "0 \<le> v" "v \<le> 23" for v
    by (rule pp) (use assms that in \<open>auto simp: wf_tii_def\<close>)
  have m: "t_dabmode t = 1 \<or> t_dabmode t = 2" using assms by (simp add: wf_tii_def)
  show ?thesis
  proof -
    consider "parameter = ''enable''" | "parameter = ''pattern''" | "parameter = ''comb''"
      | "parameter = ''old_variant''"
      | "parameter \<notin> {''enable'', ''pattern'', ''comb'', ''old_variant''}" by blast
    then show ?thesis
    proof cases
      case 1
      then show ?thesis using conf by (simp add: tii_set_parameter_def case_prod_unfold Let_def)
    next
      case 2
      show ?thesis
      proof (cases "\<exists>v. parse_int value = Some v \<and> 0 \<le> v \<and> v \<le> 69")
        case True
        then obtain v t' where "parse_int value = Some v" "0 \<le> v" "v \<le> 69" "wf_tii t'"
          "prepare_pattern (t\<lparr>t_conf := (t_conf t)\<lparr>tc_pattern := v\<rparr>\<rparr>) = Inr t'" using pat by blast
        with 2 show ?thesis by (simp add: tii_set_parameter_def)
      next
        case False
        with 2 m assms show ?thesis
          by (cases "parse_int value") (simp_all add: tii_set_parameter_def)
      qed
    next
      case 3
      show ?thesis
      proof (cases "\<exists>v. parse_int value = Some v \<and> 0 \<le> v \<and> v \<le> 23")
        case True
        then obtain v t' where "parse_int value = Some v" "0 \<le> v" "v \<le> 23" "wf_tii t'"
          "prepare_pattern (t\<lparr>t_conf := (t_conf t)\<lparr>tc_comb := v\<rparr>\<rparr>) = Inr t'" using comb by blast
        with 3 show ?thesis by (simp add: tii_set_parameter_def)
      next
        case False
        with 3 assms show ?thesis
          by (cases "parse_int value") (simp_all add: tii_set_parameter_def)
      qed
    next
      case 4
      then show ?thesis using conf by (simp add: tii_set_parameter_def case_prod_unfold Let_def)
    next
      case 5
      then show ?thesis using assms by (simp add: tii_set_parameter_def)
    qed
  qed
qed

definition tii_example :: tii_config where
  "tii_example = \<lparr>tc_enable = True, tc_comb = 3, tc_pattern = 0, tc_old_variant = False\<rparr>"

lemma tii_example_exists: "\<exists>t. TII 2 tii_example = Inr t \<and> wf_tii t \<and> t_conf t = tii_example \<and>
    t_dabmode t = 2 \<and> t_insert t"
proof -
  let ?t = "\<lparr>t_dabmode = 2, t_conf = tii_example, t_insert = True, t_carriers = 384, t_Acp = replicate 384 False\<rparr>"
  have "\<exists>t'. prepare_pattern ?t = Inr t' \<and> wf_tii t' \<and> t_conf t' = t_conf ?t \<and>
      t_dabmode t' = t_dabmode ?t \<and> t_insert t' = t_insert ?t"
    by (rule prepare_pattern_ok) (auto simp: tii_example_def tii_carriers_def)
  moreover have "TII 2 tii_example = prepare_pattern ?t" by (simp add: TII_def tii_example_def)
  ultimately show ?thesis by auto
qed

lemma tii_symbol_witness:
  "\<exists>t t' out. TII 2 tii_example = Inr t \<and> tii_process t (Some [0..<384]) = Inr (t', out) \<and> out ! 199 = 198"
proof -
  obtain t where t: "TII 2 tii_example = Inr t" "wf_tii t" "t_conf t = tii_example" "t_dabmode t = 2" "t_insert t"
    using tii_example_exists by blast
  have c: "t_carriers t = 384" using t(2,4) by (simp add: wf_tii_def tii_carriers_def)
  have p: "pattern_tm1_2_4 ! 0 = [0, 0, 0, 0, 1, 1, 1, 1]" by (simp add: pattern_tm1_2_4_def)
  have "t_Acp t ! 198 = tii_enabled 2 (pattern_tm1_2_4 ! 0) 3 198" "t_Acp t ! 199 = tii_enabled 2 (pattern_tm1_2_4 ! 0) 3 199"
    using t(2-4) c by (simp_all add: wf_tii_def tii_example_def)
  moreover have "tii_enabled 2 (pattern_tm1_2_4 ! 0) 3 198"
    unfolding p tii_enabled_def by (intro exI [of _ 0] conjI exI [of _ 4]) simp_all
  moreover have "\<not> tii_enabled 2 (pattern_tm1_2_4 ! 0) 3 199"
    using tii_enabled_even [of 2 "pattern_tm1_2_4 ! 0" 3 199] by auto
  ultimately show ?thesis
    using tii_symbol [OF t(2), of "[0..<384]" 199] t c by (auto simp: tii_example_def)
qed

lemma tii_remote_control_invariant_witness:
  "\<exists>t. TII 2 tii_example = Inr t \<and>
     wf_tii (fst (tii_set_parameter (\<lambda>_. Some 24) (\<lambda>_. (True, True)) t ''comb'' ''24'')) \<and>
     wf_tii (fst (tii_set_parameter (\<lambda>_. Some 23) (\<lambda>_. (True, True)) t ''comb'' ''23''))"
proof -
  obtain t where "TII 2 tii_example = Inr t" "wf_tii t" using tii_example_exists by blast
  then show ?thesis using tii_remote_control_invariant by blast
qed

end
