(* ===== verification/Eti.thy ===== *)
theory Eti
  imports Prelude
begin

text \<open>
  The fields of an ETI(NI) frame, \<open>src/Eti.h\<close> and \<open>src/Eti.cpp\<close>. A packed struct of bit fields
  is a record of the fields' values; \<open>..._of\<close> reads it from the bytes the code copies over it, with
  the layout of the little-endian targets: the first field in the lowest bits of the first byte.
\<close>

definition bitfield :: "'a::len word \<Rightarrow> nat \<Rightarrow> nat \<Rightarrow> nat" where
  "bitfield x offset width = unat x div 2 ^ offset mod 2 ^ width"

lemma bitfield_less [simp]: "bitfield x offset width < 2 ^ width"
  by (simp add: bitfield_def)

record eti_SYNC =
  sync_ERR :: nat
  sync_FSYNC :: nat

definition eti_SYNC_of :: "bytes \<Rightarrow> eti_SYNC" where
  "eti_SYNC_of b =
     \<lparr>sync_ERR = unat (b ! 0), sync_FSYNC = unat (b ! 1) + 256 * unat (b ! 2) + 65536 * unat (b ! 3)\<rparr>"

record eti_FC =
  fc_FCT :: nat
  fc_NST :: nat
  fc_FICF :: nat
  fc_FL_high :: nat
  fc_MID :: nat
  fc_FP :: nat
  fc_FL_low :: nat

definition eti_FC_of :: "bytes \<Rightarrow> eti_FC" where
  "eti_FC_of b =
     \<lparr>fc_FCT = unat (b ! 0),
      fc_NST = bitfield (b ! 1) 0 7, fc_FICF = bitfield (b ! 1) 7 1,
      fc_FL_high = bitfield (b ! 2) 0 3, fc_MID = bitfield (b ! 2) 3 2, fc_FP = bitfield (b ! 2) 5 3,
      fc_FL_low = unat (b ! 3)\<rparr>"

definition getFrameLength :: "eti_FC \<Rightarrow> u16" where
  "getFrameLength fc = of_nat (fc_FL_high fc * 256 + fc_FL_low fc)"

definition setFrameLength :: "eti_FC \<Rightarrow> u16 \<Rightarrow> eti_FC" where
  "setFrameLength fc len = fc\<lparr>fc_FL_high := unat len div 256 mod 8, fc_FL_low := unat len mod 256\<rparr>"

record eti_STC =
  stc_startAddress_high :: nat
  stc_SCID :: nat
  stc_startAddress_low :: nat
  stc_STL_high :: nat
  stc_TPL :: nat
  stc_STL_low :: nat

definition eti_STC_of :: "bytes \<Rightarrow> eti_STC" where
  "eti_STC_of b =
     \<lparr>stc_startAddress_high = bitfield (b ! 0) 0 2, stc_SCID = bitfield (b ! 0) 2 6,
      stc_startAddress_low = unat (b ! 1),
      stc_STL_high = bitfield (b ! 2) 0 2, stc_TPL = bitfield (b ! 2) 2 6,
      stc_STL_low = unat (b ! 3)\<rparr>"

definition getSTL :: "eti_STC \<Rightarrow> u16" where
  "getSTL s = of_nat (stc_STL_high s * 256 + stc_STL_low s)"

text \<open>The fields are two and eight bits wide: an assignment keeps the low bits.\<close>

definition setSTL :: "eti_STC \<Rightarrow> u16 \<Rightarrow> eti_STC" where
  "setSTL s len = s\<lparr>stc_STL_high := unat len div 256 mod 4, stc_STL_low := unat len mod 256\<rparr>"

definition getStartAddress :: "eti_STC \<Rightarrow> u16" where
  "getStartAddress s = of_nat (stc_startAddress_high s * 256 + stc_startAddress_low s)"

definition setStartAddress :: "eti_STC \<Rightarrow> u16 \<Rightarrow> eti_STC" where
  "setStartAddress s a =
     s\<lparr>stc_startAddress_high := unat a div 256 mod 4, stc_startAddress_low := unat a mod 256\<rparr>"

text \<open>The 16-bit words of the end of header and of frame, as the host reads them.\<close>

definition le16 :: "u8 \<Rightarrow> u8 \<Rightarrow> u16" where
  "le16 lo hi = of_nat (unat lo + 256 * unat hi)"

record eti_EOH =
  eoh_MNSC :: u16
  eoh_CRC :: u16

definition eti_EOH_of :: "bytes \<Rightarrow> eti_EOH" where
  "eti_EOH_of b = \<lparr>eoh_MNSC = le16 (b ! 0) (b ! 1), eoh_CRC = le16 (b ! 2) (b ! 3)\<rparr>"

record eti_EOF =
  eof_CRC :: u16
  eof_RFU :: u16

definition eti_EOF_of :: "bytes \<Rightarrow> eti_EOF" where
  "eti_EOF_of b = \<lparr>eof_CRC = le16 (b ! 0) (b ! 1), eof_RFU = le16 (b ! 2) (b ! 3)\<rparr>"

definition le32 :: "bytes \<Rightarrow> u32" where
  "le32 b = of_nat (unat (b ! 0) + 256 * unat (b ! 1) + 65536 * unat (b ! 2) + 16777216 * unat (b ! 3))"

definition ntohl :: "u32 \<Rightarrow> u32" where
  "ntohl x = of_nat (bitfield x 24 8 + 256 * bitfield x 16 8 + 65536 * bitfield x 8 8 + 16777216 * bitfield x 0 8)"

section \<open>Lemmas\<close>

lemma frame_length_roundtrip: "unat (getFrameLength (setFrameLength fc len)) = unat len mod 2 ^ 11"
proof -
  have "unat len div 256 mod 8 * 256 + unat len mod 256 = unat len mod 2 ^ 11"
    using mod_mult2_eq [of "unat len" 256 8] by (simp add: mult.commute)
  then show ?thesis by (simp add: getFrameLength_def setFrameLength_def unat_of_nat take_bit_eq_mod)
qed


lemma split_1024: "n < 1024 \<Longrightarrow> n div 256 mod 4 * 256 + n mod 256 = (n :: nat)"
  using mod_mult2_eq [of n 256 4] by (simp add: mult.commute)

lemma STL_roundtrip: "unat len < 1024 \<Longrightarrow> getSTL (setSTL s len) = len"
  by (simp add: getSTL_def setSTL_def split_1024)

lemma StartAddress_roundtrip: "unat a < 1024 \<Longrightarrow> getStartAddress (setStartAddress s a) = a"
  by (simp add: getStartAddress_def setStartAddress_def split_1024)

end
