(* ===== verification/Timestamp.thy ===== *)
theory Timestamp
  imports Complex_Main Eti
begin

text \<open>
  Time stamps, \<open>src/TimestampDecoder.h\<close> and \<open>src/TimestampDecoder.cpp\<close>: the arithmetic of
  \<open>frame_timestamp\<close>, the decoding of the time carried in the MNSC field of an ETI frame, and the
  decoder's state. A \<open>double\<close> is a rational number; its product, which rounds, is the argument
  \<open>dmul\<close>. The C library's calendar functions are written for the time zone UTC, which
  \<open>DabMod.cpp\<close> sets.
\<close>

section \<open>Calendar time\<close>

record tm =
  tm_sec :: int
  tm_min :: int
  tm_hour :: int
  tm_mday :: int
  tm_mon :: int
  tm_year :: int

text \<open>Days since 1 January 1970, for a month from 1 to 12, in years that start in March.\<close>

definition days_from_civil :: "int \<Rightarrow> int \<Rightarrow> int \<Rightarrow> int" where
  "days_from_civil y m d =
     (let y' = (if m \<le> 2 then y - 1 else y);
          era = y' div 400;
          yoe = y' mod 400;
          doy = (153 * (if m > 2 then m - 3 else m + 9) + 2) div 5 + d - 1;
          doe = yoe * 365 + yoe div 4 - yoe div 100 + doy
      in era * 146097 + doe - 719468)"

definition civil_from_days :: "int \<Rightarrow> int \<times> int \<times> int" where
  "civil_from_days z =
     (let z' = z + 719468;
          era = z' div 146097;
          doe = z' mod 146097;
          yoe = (doe - doe div 1460 + doe div 36524 - doe div 146096) div 365;
          doy = doe - (365 * yoe + yoe div 4 - yoe div 100);
          mp = (5 * doy + 2) div 153;
          d = doy - (153 * mp + 2) div 5 + 1;
          m = (if mp < 10 then mp + 3 else mp - 9)
      in (yoe + era * 400 + (if m \<le> 2 then 1 else 0), m, d))"

text \<open>\<open>mktime\<close> accepts fields out of their range; it also normalises its argument.\<close>

definition mktime :: "tm \<Rightarrow> int" where
  "mktime t =
     (days_from_civil (tm_year t + 1900 + tm_mon t div 12) (tm_mon t mod 12 + 1) 1 + tm_mday t - 1) * 86400 +
     tm_hour t * 3600 + tm_min t * 60 + tm_sec t"

definition gmtime :: "int \<Rightarrow> tm" where
  "gmtime s =
     (case civil_from_days (s div 86400) of (y, m, d) \<Rightarrow>
        \<lparr>tm_sec = s mod 60, tm_min = s div 60 mod 60, tm_hour = s div 3600 mod 24,
         tm_mday = d, tm_mon = m - 1, tm_year = y - 1900\<rparr>)"

section \<open>Time stamps\<close>

record frame_timestamp =
  ts_fct :: int
  ts_fp :: nat
  ts_sec :: u32
  ts_pps :: u32
  ts_valid :: bool
  ts_offset :: rat
  ts_offset_changed :: bool

definition trunc :: "rat \<Rightarrow> int" where
  "trunc x = (if x < 0 then - \<lfloor>- x\<rfloor> else \<lfloor>x\<rfloor>)"

text \<open>\<open>lrint\<close> and \<open>llrint\<close> in the default rounding mode.\<close>

definition llrint :: "rat \<Rightarrow> int" where
  "llrint x =
     (let f = \<lfloor>x\<rfloor>; r = x - of_int f
      in if r < 1 / 2 then f else if r > 1 / 2 then f + 1 else if even f then f else f + 1)"

text \<open>The two loops of \<open>operator+=\<close>.\<close>

function borrow_seconds :: "u32 \<Rightarrow> int \<Rightarrow> u32 \<times> int" where
  "borrow_seconds sec pps =
     (if pps < 0 then borrow_seconds (sec - 1) (pps + 16384000) else (sec, pps))"
  by pat_completeness auto
termination by (relation "measure (\<lambda>(sec, pps). nat (- pps))") auto

function carry_seconds :: "u32 \<Rightarrow> int \<Rightarrow> u32 \<times> int" where
  "carry_seconds sec pps =
     (if pps \<ge> 16384000 then carry_seconds (sec + 1) (pps - 16384000) else (sec, pps))"
  by pat_completeness auto
termination by (relation "measure (\<lambda>(sec, pps). nat pps)") auto

declare borrow_seconds.simps [simp del] carry_seconds.simps [simp del]

definition ts_add :: "(rat \<Rightarrow> rat \<Rightarrow> rat) \<Rightarrow> frame_timestamp \<Rightarrow> rat \<Rightarrow> frame_timestamp" where
  "ts_add dmul ts diff =
     (let offset_secs = trunc diff;
          offset_pps = diff - of_int offset_secs;
          sec = ts_sec ts + of_int offset_secs;
          new_pps = int (unat (ts_pps ts)) + llrint (dmul offset_pps 16384000);
          (sec, new_pps) = borrow_seconds sec new_pps;
          (sec, new_pps) = carry_seconds sec new_pps
      in ts\<lparr>ts_sec := sec, ts_pps := of_int new_pps\<rparr>)"

text \<open>Conversions from and to nanoseconds; \<open>ddiv\<close> is the quotient of doubles.\<close>

definition get_ns :: "(rat \<Rightarrow> rat \<Rightarrow> rat) \<Rightarrow> frame_timestamp \<Rightarrow> int" where
  "get_ns ddiv ts =
     int (unat (ts_sec ts)) * 1000000000 + llrint (ddiv (of_nat (unat (ts_pps ts))) (16384 / 1000000))"

definition set_ns :: "(rat \<Rightarrow> rat \<Rightarrow> rat) \<Rightarrow> frame_timestamp \<Rightarrow> u64 \<Rightarrow> frame_timestamp" where
  "set_ns dmul ts time_ns =
     (let subsecond = int (unat time_ns mod 1000000000)
      in ts\<lparr>ts_sec := of_nat (unat time_ns div 1000000000),
            ts_pps := of_int (llrint (dmul (of_int subsecond) 16384000))\<rparr>)"

section \<open>The decoder\<close>

record timestamp_decoder =
  td_temp_time :: tm
  td_time_secs :: u32
  td_latestFCT :: int
  td_latestFP :: nat
  td_time_pps :: u32
  td_offset :: rat
  td_inhibit :: nat
  td_offset_changed :: bool
  td_secs_of_frame0 :: u32
  td_pps_of_frame0 :: u32
  td_enableDecode :: bool
  td_full :: bool

definition TimestampDecoder :: "rat \<Rightarrow> timestamp_decoder" where
  "TimestampDecoder offset_s =
     \<lparr>td_temp_time = gmtime 0, td_time_secs = 0, td_latestFCT = 0, td_latestFP = 0, td_time_pps = 0,
      td_offset = offset_s, td_inhibit = 0, td_offset_changed = False,
      td_secs_of_frame0 = 0, td_pps_of_frame0 = 0, td_enableDecode = False, td_full = False\<rparr>"

definition getTimestamp ::
    "(rat \<Rightarrow> rat \<Rightarrow> rat) \<Rightarrow> timestamp_decoder \<Rightarrow> timestamp_decoder \<times> frame_timestamp" where
  "getTimestamp dmul td =
     (let ts = \<lparr>ts_fct = td_latestFCT td, ts_fp = td_latestFP td, ts_sec = td_time_secs td,
                ts_pps = td_time_pps td, ts_valid = td_full td, ts_offset = td_offset td,
                ts_offset_changed = td_offset_changed td\<rparr>
      in (td\<lparr>td_offset_changed := False\<rparr>, ts_add dmul ts (td_offset td)))"

definition updateTimestampSeconds :: "timestamp_decoder \<Rightarrow> u32 \<Rightarrow> timestamp_decoder" where
  "updateTimestampSeconds td secs =
     (if td_inhibit td > 0 then td\<lparr>td_inhibit := td_inhibit td - 1\<rparr>
      else td\<lparr>td_time_secs := secs, td_full := True\<rparr>)"

definition updateTimestampPPS :: "timestamp_decoder \<Rightarrow> u32 \<Rightarrow> timestamp_decoder" where
  "updateTimestampPPS td pps =
     (if td_time_pps td > pps
      then td\<lparr>td_inhibit := 2, td_time_secs := td_time_secs td + 1, td_time_pps := pps\<rparr>
      else td\<lparr>td_time_pps := pps\<rparr>)"

definition pushMNSCData :: "timestamp_decoder \<Rightarrow> nat \<Rightarrow> u16 \<Rightarrow> timestamp_decoder" where
  "pushMNSCData td framephase mnsc =
     (let digit = (\<lambda>offset width. int (bitfield mnsc offset width)) in
      if framephase = 0 then
        td\<lparr>td_enableDecode := digit 0 4 = 0 \<and> digit 4 4 = 0, td_temp_time := gmtime 0\<rparr>
      else if framephase = 1 then
        (let td = td\<lparr>td_temp_time := (td_temp_time td)
               \<lparr>tm_sec := digit 4 3 * 10 + digit 0 4, tm_min := digit 12 3 * 10 + digit 8 4\<rparr>\<rparr>
         in if digit 15 1 = 0 then td\<lparr>td_enableDecode := False\<rparr> else td)
      else if framephase = 2 then
        td\<lparr>td_temp_time := (td_temp_time td)
             \<lparr>tm_hour := digit 4 4 * 10 + digit 0 4, tm_mday := digit 12 4 * 10 + digit 8 4\<rparr>\<rparr>
      else if framephase = 3 then
        (let t = (td_temp_time td)
               \<lparr>tm_mon := (digit 4 4 * 10 + digit 0 4) - 1,
                tm_year := (digit 12 4 * 10 + digit 8 4) + 100\<rparr>
         in if td_enableDecode td
            then updateTimestampSeconds (td\<lparr>td_temp_time := gmtime (mktime t)\<rparr>) (of_int (mktime t))
            else td\<lparr>td_temp_time := t\<rparr>)
      else td)"

definition updateTimestampEti ::
    "timestamp_decoder \<Rightarrow> nat \<Rightarrow> u16 \<Rightarrow> u32 \<Rightarrow> int \<Rightarrow> timestamp_decoder" where
  "updateTimestampEti td framephase mnsc pps fct =
     (let td = pushMNSCData (updateTimestampPPS td pps) framephase mnsc;
          td = td\<lparr>td_latestFCT := fct, td_latestFP := framephase\<rparr>
      in if td_full td \<and> fct = 0
         then td\<lparr>td_secs_of_frame0 := td_time_secs td, td_pps_of_frame0 := td_time_pps td\<rparr>
         else td)"

definition updateTimestampEdi ::
    "timestamp_decoder \<Rightarrow> u32 \<Rightarrow> u32 \<Rightarrow> int \<Rightarrow> nat \<Rightarrow> timestamp_decoder" where
  "updateTimestampEdi td seconds_utc pps fct framephase =
     (let td = td\<lparr>td_time_secs := seconds_utc, td_time_pps := pps, td_latestFCT := fct,
                  td_latestFP := framephase, td_full := True\<rparr>
      in if fct = 0
         then td\<lparr>td_secs_of_frame0 := td_time_secs td, td_pps_of_frame0 := td_time_pps td\<rparr>
         else td)"

text \<open>
  Remote control. \<open>parse\<close> is the extraction of a \<open>double\<close> from the value: the number stored, and
  whether the stream did not throw. The first component of the result is the state the call leaves.
\<close>

definition td_set_parameter ::
    "(string \<Rightarrow> rat \<times> bool) \<Rightarrow> timestamp_decoder \<Rightarrow> string \<Rightarrow> string \<Rightarrow> timestamp_decoder \<times> unit result" where
  "td_set_parameter parse td parameter value =
     (if parameter = ''offset'' then
        (let (v, ok) = parse value
         in if ok then (td\<lparr>td_offset := v, td_offset_changed := True\<rparr>, Inr ())
            else (td\<lparr>td_offset := v\<rparr>, Inl (RuntimeError ''ios_base::failure'')))
      else if parameter = ''timestamp'' then (td, Inl (ParameterError ''timestamp is read-only''))
      else if parameter = ''timestamp0'' then (td, Inl (ParameterError ''timestamp0 is read-only''))
      else (td, Inl (ParameterError ''is not exported by controllable'')))"

text \<open>The number that is printed, and the frame count after it.\<close>

definition td_get_parameter :: "timestamp_decoder \<Rightarrow> string \<Rightarrow> (rat \<times> int option) result" where
  "td_get_parameter td parameter =
     (if parameter = ''offset'' then Inr (td_offset td, None)
      else if parameter = ''timestamp'' then
        (if td_full td
         then Inr (of_nat (unat (td_time_secs td)) + of_nat (unat (td_time_pps td)) / 16384000, Some (td_latestFCT td))
         else Inl (ParameterError ''Not available yet''))
      else if parameter = ''timestamp0'' then
        (if td_full td
         then Inr (of_nat (unat (td_secs_of_frame0 td)) + of_nat (unat (td_pps_of_frame0 td)) / 16384000, Some 0)
         else Inl (ParameterError ''Not available yet''))
      else Inl (ParameterError ''is not exported by controllable''))"

section \<open>Carry and borrow\<close>

lemma borrow_seconds_units:
  "borrow_seconds sec pps = (sec', pps') \<Longrightarrow>
     (\<exists>k. sec' = sec - of_int k \<and> pps' = pps + k * 16384000) \<and> 0 \<le> pps' \<and>
     (pps < 16384000 \<longrightarrow> pps' < 16384000)"
proof (induction sec pps rule: borrow_seconds.induct)
  case (1 sec pps)
  show ?case
  proof (cases "pps < 0")
    case True
    have eq: "borrow_seconds (sec - 1) (pps + 16384000) = (sec', pps')"
      using "1.prems" True by (simp add: borrow_seconds.simps [of sec pps])
    obtain k where k: "sec' = (sec - 1) - of_int k" "pps' = (pps + 16384000) + k * 16384000" "0 \<le> pps'"
        "pps + 16384000 < 16384000 \<longrightarrow> pps' < 16384000"
      using "1.IH" [OF True eq] by blast
    have "sec' = sec - of_int (k + 1) \<and> pps' = pps + (k + 1) * 16384000"
      using k(1,2) by (simp add: algebra_simps)
    then have "\<exists>k. sec' = sec - of_int k \<and> pps' = pps + k * 16384000" by (rule exI)
    with k(3,4) True show ?thesis by simp
  next
    case False
    then have "sec' = sec - of_int 0 \<and> pps' = pps + 0 * 16384000"
      using "1.prems" by (simp add: borrow_seconds.simps [of sec pps])
    with False show ?thesis by (intro conjI exI) auto
  qed
qed

lemma carry_seconds_units:
  "carry_seconds sec pps = (sec', pps') \<Longrightarrow>
     (\<exists>k. sec' = sec + of_int k \<and> pps' = pps - k * 16384000) \<and> pps' < 16384000 \<and>
     (0 \<le> pps \<longrightarrow> 0 \<le> pps')"
proof (induction sec pps rule: carry_seconds.induct)
  case (1 sec pps)
  show ?case
  proof (cases "pps \<ge> 16384000")
    case True
    have eq: "carry_seconds (sec + 1) (pps - 16384000) = (sec', pps')"
      using "1.prems" True by (simp add: carry_seconds.simps [of sec pps])
    obtain k where k: "sec' = (sec + 1) + of_int k" "pps' = (pps - 16384000) - k * 16384000" "pps' < 16384000"
        "0 \<le> pps - 16384000 \<longrightarrow> 0 \<le> pps'"
      using "1.IH" [OF True eq] by blast
    have "sec' = sec + of_int (k + 1) \<and> pps' = pps - (k + 1) * 16384000"
      using k(1,2) by (simp add: algebra_simps)
    then have "\<exists>k. sec' = sec + of_int k \<and> pps' = pps - k * 16384000" by (rule exI)
    with k(3,4) True show ?thesis by simp
  next
    case False
    then have "sec' = sec + of_int 0 \<and> pps' = pps - 0 * 16384000"
      using "1.prems" by (simp add: carry_seconds.simps [of sec pps])
    with False show ?thesis by (intro conjI exI) auto
  qed
qed

text \<open>The time of a stamp in units of 1/16384000 s.\<close>

definition ts_units :: "frame_timestamp \<Rightarrow> int" where
  "ts_units ts = int (unat (ts_sec ts)) * 16384000 + int (unat (ts_pps ts))"

definition offset_units :: "(rat \<Rightarrow> rat \<Rightarrow> rat) \<Rightarrow> rat \<Rightarrow> int" where
  "offset_units dmul diff = trunc diff * 16384000 + llrint (dmul (diff - of_int (trunc diff)) 16384000)"

lemma unat_add_of_int: "\<exists>m. int (unat (x + of_int k :: u32)) = int (unat x) + k + m * 2 ^ 32"
proof -
  have "int (unat (x + of_int k :: u32)) = (int (unat x) + k) mod 2 ^ 32"
    by (simp add: uint_word_ariths take_bit_eq_mod uint_word_of_int mod_add_right_eq)
  then have "int (unat (x + of_int k :: u32)) = int (unat x) + k + (- ((int (unat x) + k) div 2 ^ 32)) * 2 ^ 32"
    by (simp add: minus_div_mult_eq_mod [symmetric])
  then show ?thesis by blast
qed

lemma ts_add_units:
  "\<exists>m. ts_units (ts_add dmul ts diff) = ts_units ts + offset_units dmul diff + m * (2 ^ 32 * 16384000)"
  and ts_add_normal: "unat (ts_pps (ts_add dmul ts diff)) < 16384000"
proof -
  let ?u = "llrint (dmul (diff - of_int (trunc diff)) 16384000)"
  let ?pps = "int (unat (ts_pps ts)) + ?u"
  obtain s1 p1 where b: "borrow_seconds (ts_sec ts + of_int (trunc diff)) ?pps = (s1, p1)" by fastforce
  obtain s2 p2 where c: "carry_seconds s1 p1 = (s2, p2)" by fastforce
  from borrow_seconds_units [OF b] obtain k where k:
    "s1 = ts_sec ts + of_int (trunc diff) - of_int k" "p1 = ?pps + k * 16384000" "0 \<le> p1" by blast
  from carry_seconds_units [OF c] k(3) obtain l where l:
    "s2 = s1 + of_int l" "p2 = p1 - l * 16384000" "0 \<le> p2" "p2 < 16384000" by blast
  have r: "ts_sec (ts_add dmul ts diff) = s2" "ts_pps (ts_add dmul ts diff) = of_int p2"
    unfolding ts_add_def Let_def b prod.case c by simp_all
  have p2: "int (unat (of_int p2 :: u32)) = p2" using l(3,4) by (simp add: uint_word_of_int)
  then show "unat (ts_pps (ts_add dmul ts diff)) < 16384000" using l(4) unfolding r by linarith
  have "s2 = ts_sec ts + of_int (trunc diff - k + l)" unfolding l(1) k(1) by simp
  then obtain m where "int (unat s2) = int (unat (ts_sec ts)) + (trunc diff - k + l) + m * 2 ^ 32"
    using unat_add_of_int by metis
  moreover have "int (unat (ts_pps (ts_add dmul ts diff))) = ?pps + k * 16384000 - l * 16384000"
    using p2 l(2) k(2) r(2) by simp
  ultimately have "ts_units (ts_add dmul ts diff) = ts_units ts + offset_units dmul diff + m * (2 ^ 32 * 16384000)"
    unfolding ts_units_def offset_units_def r(1) by (simp only: algebra_simps)
  then show "\<exists>m. ts_units (ts_add dmul ts diff) = ts_units ts + offset_units dmul diff + m * (2 ^ 32 * 16384000)"
    by blast
qed

section \<open>The MNSC time code\<close>

text \<open>The four words of a time: its decimal digits, in the layout of the structs of \<open>Eti.h\<close>.\<close>

definition digits :: "nat \<Rightarrow> nat \<Rightarrow> nat \<Rightarrow> nat \<Rightarrow> u16" where
  "digits a b c d = of_nat (a + 16 * b + 256 * c + 4096 * d)"

definition mnsc_word :: "tm \<Rightarrow> nat \<Rightarrow> u16" where
  "mnsc_word t phase =
     (let two = (\<lambda>x. (nat x mod 10, nat x div 10)) in
      if phase = 1 then digits (fst (two (tm_sec t))) (snd (two (tm_sec t)))
                          (fst (two (tm_min t))) (snd (two (tm_min t)) + 8)
      else if phase = 2 then digits (fst (two (tm_hour t))) (snd (two (tm_hour t)))
                          (fst (two (tm_mday t))) (snd (two (tm_mday t)))
      else if phase = 3 then digits (fst (two (tm_mon t + 1))) (snd (two (tm_mon t + 1)))
                          (fst (two (tm_year t - 100))) (snd (two (tm_year t - 100)))
      else 0)"

definition valid_tm :: "tm \<Rightarrow> bool" where
  "valid_tm t = (0 \<le> tm_sec t \<and> tm_sec t < 60 \<and> 0 \<le> tm_min t \<and> tm_min t < 60 \<and>
     0 \<le> tm_hour t \<and> tm_hour t < 24 \<and> 1 \<le> tm_mday t \<and> tm_mday t < 32 \<and>
     0 \<le> tm_mon t \<and> tm_mon t < 12 \<and> 100 \<le> tm_year t \<and> tm_year t < 200)"

lemma digits_fields:
  assumes "a < 16" "b < 16" "c < 16" "d < 16"
  shows "bitfield (digits a b c d) 0 4 = a" "bitfield (digits a b c d) 4 4 = b"
    "bitfield (digits a b c d) 8 4 = c" "bitfield (digits a b c d) 12 4 = d"
    "bitfield (digits a b c d) 4 3 = b mod 8" "bitfield (digits a b c d) 12 3 = d mod 8"
    "bitfield (digits a b c d) 15 1 = d div 8"
proof -
  let ?n = "a + 16 * (b + 16 * (c + 16 * d))"
  have n: "unat (digits a b c d) = ?n"
  proof -
    have "a + 16 * b + 256 * c + 4096 * d < 2 ^ LENGTH(16)" using assms by simp
    then have "unat (digits a b c d) = a + 16 * b + 256 * c + 4096 * d"
      unfolding digits_def by (rule unat_of_nat_small)
    then show ?thesis by simp
  qed
  have m: "(x + 16 * y) mod 16 = x" "(x + 16 * y) div 16 = y" if "x < 16" for x y :: nat
    using that by simp_all
  have dd: "x div 256 = x div 16 div 16" "x div 4096 = x div 16 div 16 div 16" for x :: nat
    by (simp_all add: div_mult2_eq [symmetric])
  have q: "?n mod 16 = a" "?n div 16 mod 16 = b" "?n div 256 mod 16 = c" "?n div 4096 = d" "?n div 16 = b + 16 * (c + 16 * d)"
    by (simp_all only: dd m assms)
  have "x div 32768 = x div 4096 div 8" for x :: nat by (simp add: div_mult2_eq [symmetric])
  then have q15: "?n div 32768 = d div 8" by (simp only: q)
  have "(b + 8 * (2 * (c + 16 * d))) mod 8 = b mod 8" by (rule mod_mult_self2)
  then have "(b + 16 * (c + 16 * d)) mod 8 = b mod 8" by (simp only: mult.assoc [symmetric]) simp
  then have b8: "?n div 16 mod 8 = b mod 8" by (simp only: q)
  have bf: "bitfield (digits a b c d) off w = ?n div 2 ^ off mod 2 ^ w" for off w
    by (simp only: bitfield_def n)
  have p: "(2 :: nat) ^ 0 = 1" "(2 :: nat) ^ 4 = 16" "(2 :: nat) ^ 8 = 256" "(2 :: nat) ^ 12 = 4096"
    "(2 :: nat) ^ 15 = 32768" "(2 :: nat) ^ 3 = 8" "(2 :: nat) ^ 1 = 2" by simp_all
  show "bitfield (digits a b c d) 0 4 = a" "bitfield (digits a b c d) 4 4 = b"
    "bitfield (digits a b c d) 8 4 = c" "bitfield (digits a b c d) 4 3 = b mod 8"
    by (simp_all only: bf p q(1-4) b8 div_by_1)
  show "bitfield (digits a b c d) 12 4 = d" "bitfield (digits a b c d) 12 3 = d mod 8"
    "bitfield (digits a b c d) 15 1 = d div 8"
    using assms(4) by (simp_all only: bf p q(1-4) q15, simp_all)
qed

lemma two_digits: "0 \<le> x \<Longrightarrow> x < 100 \<Longrightarrow> int (nat x div 10) * 10 + int (nat x mod 10) = x"
  using div_mult_mod_eq [of "nat x" 10] by linarith

lemma digit_bounds:
  "nat x mod 10 < 16" "x < 100 \<Longrightarrow> nat x div 10 < 16" "x < 60 \<Longrightarrow> nat x div 10 < 8"
proof -
  show "nat x mod 10 < 16" using mod_less_divisor [of 10 "nat x"] by linarith
  show "x < 100 \<Longrightarrow> nat x div 10 < 16" "x < 60 \<Longrightarrow> nat x div 10 < 8"
    by (simp_all add: div_less_iff_less_mult nat_less_iff)
qed

lemma mnsc_word_simps:
  "mnsc_word t 0 = 0"
  "mnsc_word t 1 = digits (nat (tm_sec t) mod 10) (nat (tm_sec t) div 10)
     (nat (tm_min t) mod 10) (nat (tm_min t) div 10 + 8)"
  "mnsc_word t 2 = digits (nat (tm_hour t) mod 10) (nat (tm_hour t) div 10)
     (nat (tm_mday t) mod 10) (nat (tm_mday t) div 10)"
  "mnsc_word t 3 = digits (nat (tm_mon t + 1) mod 10) (nat (tm_mon t + 1) div 10)
     (nat (tm_year t - 100) mod 10) (nat (tm_year t - 100) div 10)"
  by (simp_all add: mnsc_word_def)

lemma push_0: "pushMNSCData td 0 (mnsc_word t 0) = td\<lparr>td_enableDecode := True, td_temp_time := gmtime 0\<rparr>"
  by (simp add: pushMNSCData_def mnsc_word_def bitfield_def)

lemma push_1:
  assumes "valid_tm t"
  shows "pushMNSCData td 1 (mnsc_word t 1) =
    td\<lparr>td_temp_time := (td_temp_time td)\<lparr>tm_sec := tm_sec t, tm_min := tm_min t\<rparr>\<rparr>"
proof -
  have v: "0 \<le> tm_sec t" "tm_sec t < 60" "0 \<le> tm_min t" "tm_min t < 60" using assms by (auto simp: valid_tm_def)
  have b: "nat (tm_sec t) mod 10 < 16" "nat (tm_sec t) div 10 < 8" "nat (tm_min t) mod 10 < 16"
    "nat (tm_min t) div 10 < 8" using v digit_bounds by blast+
  then have "nat (tm_sec t) div 10 < 16" "nat (tm_min t) div 10 + 8 < 16" by linarith+
  note f = digits_fields [OF b(1) this(1) b(3) this(2)]
  have m: "(nat (tm_min t) div 10 + 8) div 8 = 1" "(nat (tm_min t) div 10 + 8) mod 8 = nat (tm_min t) div 10"
    "nat (tm_sec t) div 10 mod 8 = nat (tm_sec t) div 10"
    using b(2,4) by simp_all
  have e: "int (nat (tm_sec t) div 10) * 10 + int (nat (tm_sec t) mod 10) = tm_sec t"
    "int (nat (tm_min t) div 10) * 10 + int (nat (tm_min t) mod 10) = tm_min t"
    by (rule two_digits; use v in simp)+
  show ?thesis unfolding pushMNSCData_def mnsc_word_simps Let_def f m e by simp
qed

lemma push_2:
  assumes "valid_tm t"
  shows "pushMNSCData td 2 (mnsc_word t 2) =
    td\<lparr>td_temp_time := (td_temp_time td)\<lparr>tm_hour := tm_hour t, tm_mday := tm_mday t\<rparr>\<rparr>"
proof -
  have v: "0 \<le> tm_hour t" "tm_hour t < 100" "0 \<le> tm_mday t" "tm_mday t < 100"
    using assms by (auto simp: valid_tm_def)
  note f = digits_fields [OF digit_bounds(1) digit_bounds(2) [OF v(2)] digit_bounds(1) digit_bounds(2) [OF v(4)]]
  show ?thesis unfolding pushMNSCData_def mnsc_word_simps Let_def f two_digits [OF v(1,2)] two_digits [OF v(3,4)]
    by simp
qed

lemma push_3:
  assumes "valid_tm t" and "td_enableDecode td"
    and "tm_sec (td_temp_time td) = tm_sec t" "tm_min (td_temp_time td) = tm_min t"
    and "tm_hour (td_temp_time td) = tm_hour t" "tm_mday (td_temp_time td) = tm_mday t"
  shows "pushMNSCData td 3 (mnsc_word t 3) =
    updateTimestampSeconds (td\<lparr>td_temp_time := gmtime (mktime t)\<rparr>) (of_int (mktime t))"
proof -
  have v: "0 \<le> tm_mon t + 1" "tm_mon t + 1 < 100" "0 \<le> tm_year t - 100" "tm_year t - 100 < 100"
    using assms(1) by (auto simp: valid_tm_def)
  note f = digits_fields [OF digit_bounds(1) digit_bounds(2) [OF v(2)] digit_bounds(1) digit_bounds(2) [OF v(4)]]
  have "(td_temp_time td)\<lparr>tm_mon := tm_mon t + 1 - 1, tm_year := tm_year t - 100 + 100\<rparr> = t"
    using assms(3-) by (cases t, cases "td_temp_time td") simp
  then show ?thesis
    using assms(2)
    unfolding pushMNSCData_def mnsc_word_simps Let_def f two_digits [OF v(1,2)] two_digits [OF v(3,4)] by simp
qed

section \<open>A run of frames\<close>

text \<open>
  Frames are 24 ms apart, 393216 units of 1/16384000 s; \<open>T0\<close> is the time of frame 0. Frame \<open>n\<close> has
  phase \<open>n mod 4\<close> and the four frames of group \<open>g\<close> carry the time code of \<open>cal g\<close>.
\<close>

definition frame_sec :: "int \<Rightarrow> nat \<Rightarrow> int" where
  "frame_sec T0 n = (T0 + 393216 * int n) div 16384000"

definition frame_pps :: "int \<Rightarrow> nat \<Rightarrow> int" where
  "frame_pps T0 n = (T0 + 393216 * int n) mod 16384000"

primrec td_run :: "int \<Rightarrow> (nat \<Rightarrow> tm) \<Rightarrow> (nat \<Rightarrow> int) \<Rightarrow> timestamp_decoder \<Rightarrow> nat \<Rightarrow> timestamp_decoder" where
  "td_run T0 cal fct d 0 = d"
| "td_run T0 cal fct d (Suc n) =
     updateTimestampEti (td_run T0 cal fct d n) (n mod 4) (mnsc_word (cal (n div 4)) (n mod 4))
       (of_int (frame_pps T0 n)) (fct n)"

text \<open>
  The time code of a group is the second of one of its frames, or of one of the five frames
  before it: the multiplexer may be late by a whole group.
\<close>

definition clock_code :: "int \<Rightarrow> (nat \<Rightarrow> tm) \<Rightarrow> nat \<Rightarrow> bool" where
  "clock_code T0 cal g =
     (valid_tm (cal g) \<and> (\<exists>j. 4 * g \<le> j + 5 \<and> j \<le> 4 * g + 3 \<and> mktime (cal g) = frame_sec T0 j))"

definition crossing :: "int \<Rightarrow> nat \<Rightarrow> bool" where
  "crossing T0 n = (0 < n \<and> frame_pps T0 n < frame_pps T0 (n - 1))"

lemma frame_pps_bounds: "0 \<le> frame_pps T0 n" "frame_pps T0 n < 16384000"
  by (simp_all add: frame_pps_def)

lemma frame_units: "frame_sec T0 n * 16384000 + frame_pps T0 n = T0 + 393216 * int n"
  by (simp add: frame_sec_def frame_pps_def)

lemma frame_sec_Suc: "frame_sec T0 (Suc n) = frame_sec T0 n + (if crossing T0 (Suc n) then 1 else 0)"
proof -
  have "frame_sec T0 (Suc n) * 16384000 + frame_pps T0 (Suc n) = frame_sec T0 n * 16384000 + frame_pps T0 n + 393216"
    unfolding frame_units by simp
  with frame_pps_bounds [of T0 n] frame_pps_bounds [of T0 "Suc n"] show ?thesis
    by (auto simp: crossing_def)
qed

lemma frame_sec_const:
  assumes "\<forall>k. a < k \<and> k \<le> b \<longrightarrow> \<not> crossing T0 k" and "a \<le> j" "j \<le> b"
  shows "frame_sec T0 j = frame_sec T0 b"
  using assms(3,1)
proof (induction b)
  case 0
  then show ?case by simp
next
  case (Suc b)
  show ?case
  proof (cases "j = Suc b")
    case False
    then have "frame_sec T0 j = frame_sec T0 b" using Suc by simp
    moreover have "\<not> crossing T0 (Suc b)" using Suc.prems assms(2) False by simp
    ultimately show ?thesis using frame_sec_Suc [of T0 b] by simp
  qed simp
qed

lemma crossing_apart:
  assumes "crossing T0 a" and "a < b" "b < a + 41"
  shows "\<not> crossing T0 b"
proof
  assume b: "crossing T0 b"
  obtain a' b' where ab: "a = Suc a'" "b = Suc b'" using assms(1) b by (cases a; cases b) (auto simp: crossing_def)
  have "frame_sec T0 (Suc a') = frame_sec T0 a' + 1" "frame_sec T0 (Suc b') = frame_sec T0 b' + 1"
    using frame_sec_Suc assms(1) b ab by simp_all
  moreover have "frame_sec T0 (Suc a') \<le> frame_sec T0 b'"
    unfolding frame_sec_def using assms(2) ab by (intro zdiv_mono1) auto
  moreover have "frame_sec T0 (Suc b') * 16384000 + frame_pps T0 (Suc b') =
      frame_sec T0 a' * 16384000 + frame_pps T0 a' + 393216 * (int (Suc b') - int a')"
    unfolding frame_units by (simp add: algebra_simps)
  ultimately show False
    using assms(3) ab frame_pps_bounds [of T0 a'] frame_pps_bounds [of T0 "Suc b'"] by simp
qed

text \<open>What one frame does to the fields that matter.\<close>

definition collected :: "timestamp_decoder \<Rightarrow> tm \<Rightarrow> nat \<Rightarrow> bool" where
  "collected td t r =
     ((1 \<le> r \<longrightarrow> td_enableDecode td) \<and>
      (2 \<le> r \<longrightarrow> tm_sec (td_temp_time td) = tm_sec t \<and> tm_min (td_temp_time td) = tm_min t) \<and>
      (3 \<le> r \<longrightarrow> tm_hour (td_temp_time td) = tm_hour t \<and> tm_mday (td_temp_time td) = tm_mday t))"

lemma eti_frame:
  fixes pps :: u32 and fct :: int
  assumes "valid_tm t" and "r < 4" and "collected td t r"
  defines "c \<equiv> td_time_pps td > pps"
  defines "td' \<equiv> updateTimestampEti td r (mnsc_word t r) pps fct"
  shows "td_time_pps td' = pps"
    and "r < 3 \<Longrightarrow> collected td' t (r + 1)"
    and "td_inhibit td' = (if c then 2 else td_inhibit td) - (if r = 3 then 1 else 0)"
    and "td_time_secs td' = (if r = 3 \<and> \<not> c \<and> td_inhibit td = 0 then of_int (mktime t)
           else td_time_secs td + (if c then 1 else 0))"
    and "td_full td' = (td_full td \<or> r = 3 \<and> \<not> c \<and> td_inhibit td = 0)"
proof -
  let ?td = "updateTimestampPPS td pps"
  have col: "collected ?td t r" using assms(3) by (simp add: collected_def updateTimestampPPS_def)
  consider "r = 0" | "r = 1" | "r = 2" | "r = 3" using assms(2) by linarith
  then have "td_time_pps td' = pps \<and> (r < 3 \<longrightarrow> collected td' t (r + 1)) \<and>
    td_inhibit td' = (if c then 2 else td_inhibit td) - (if r = 3 then 1 else 0) \<and>
    td_time_secs td' = (if r = 3 \<and> \<not> c \<and> td_inhibit td = 0 then of_int (mktime t)
           else td_time_secs td + (if c then 1 else 0)) \<and>
    td_full td' = (td_full td \<or> r = 3 \<and> \<not> c \<and> td_inhibit td = 0)"
  proof cases
    case 1
    then show ?thesis
      unfolding td'_def c_def updateTimestampEti_def 1 push_0
      by (simp add: Let_def collected_def updateTimestampPPS_def)
  next
    case 2
    then show ?thesis
      using col unfolding td'_def c_def updateTimestampEti_def 2 push_1 [OF assms(1)]
      by (simp add: Let_def collected_def updateTimestampPPS_def)
  next
    case 3
    then show ?thesis
      using col unfolding td'_def c_def updateTimestampEti_def 3 push_2 [OF assms(1)]
      by (simp add: Let_def collected_def updateTimestampPPS_def)
  next
    case 4
    then have "pushMNSCData ?td 3 (mnsc_word t 3) =
        updateTimestampSeconds (?td\<lparr>td_temp_time := gmtime (mktime t)\<rparr>) (of_int (mktime t))"
      using col by (intro push_3 assms) (simp_all add: collected_def)
    with 4 show ?thesis
      unfolding td'_def c_def updateTimestampEti_def
      by (simp add: Let_def updateTimestampPPS_def updateTimestampSeconds_def)
  qed
  then show "td_time_pps td' = pps"
    "r < 3 \<Longrightarrow> collected td' t (r + 1)"
    "td_inhibit td' = (if c then 2 else td_inhibit td) - (if r = 3 then 1 else 0)"
    "td_time_secs td' = (if r = 3 \<and> \<not> c \<and> td_inhibit td = 0 then of_int (mktime t)
           else td_time_secs td + (if c then 1 else 0))"
    "td_full td' = (td_full td \<or> r = 3 \<and> \<not> c \<and> td_inhibit td = 0)" by blast+
qed

text \<open>
  One frame of the run. The first frame may cross a second with respect to whatever the decoder
  held before.
\<close>

definition run_crossing :: "int \<Rightarrow> timestamp_decoder \<Rightarrow> nat \<Rightarrow> bool" where
  "run_crossing T0 d n =
     (if n = 0 then td_time_pps d > of_int (frame_pps T0 0) else crossing T0 n)"

lemma pps_word_less: "(of_int (frame_pps T0 n) :: u32) < of_int (frame_pps T0 m) \<longleftrightarrow> frame_pps T0 n < frame_pps T0 m"
  using frame_pps_bounds [of T0 n] frame_pps_bounds [of T0 m]
  by (simp add: word_less_def uint_word_of_int)

lemma run_frame:
  assumes "valid_tm (cal (n div 4))" and "0 < n \<Longrightarrow> td_time_pps (td_run T0 cal fct d n) = of_int (frame_pps T0 (n - 1))"
    and "collected (td_run T0 cal fct d n) (cal (n div 4)) (n mod 4)"
  shows "td_time_pps (td_run T0 cal fct d (Suc n)) = of_int (frame_pps T0 n)"
    and "n mod 4 < 3 \<Longrightarrow> collected (td_run T0 cal fct d (Suc n)) (cal (n div 4)) (n mod 4 + 1)"
    and "td_inhibit (td_run T0 cal fct d (Suc n)) =
      (if run_crossing T0 d n then 2 else td_inhibit (td_run T0 cal fct d n)) - (if n mod 4 = 3 then 1 else 0)"
    and "td_time_secs (td_run T0 cal fct d (Suc n)) =
      (if n mod 4 = 3 \<and> \<not> run_crossing T0 d n \<and> td_inhibit (td_run T0 cal fct d n) = 0
       then of_int (mktime (cal (n div 4)))
       else td_time_secs (td_run T0 cal fct d n) + (if run_crossing T0 d n then 1 else 0))"
    and "td_full (td_run T0 cal fct d (Suc n)) =
      (td_full (td_run T0 cal fct d n) \<or>
       n mod 4 = 3 \<and> \<not> run_crossing T0 d n \<and> td_inhibit (td_run T0 cal fct d n) = 0)"
proof -
  let ?td = "td_run T0 cal fct d n"
  have c: "(td_time_pps ?td > of_int (frame_pps T0 n)) = run_crossing T0 d n"
    using assms(2) pps_word_less by (cases "n = 0") (simp_all add: run_crossing_def crossing_def)
  note f = eti_frame [OF assms(1) _ assms(3), where pps = "of_int (frame_pps T0 n)" and fct = "fct n", unfolded c]
  show "td_time_pps (td_run T0 cal fct d (Suc n)) = of_int (frame_pps T0 n)" using f(1) by simp
  show "n mod 4 < 3 \<Longrightarrow> collected (td_run T0 cal fct d (Suc n)) (cal (n div 4)) (n mod 4 + 1)"
    using f(2) by simp
  show "td_inhibit (td_run T0 cal fct d (Suc n)) =
      (if run_crossing T0 d n then 2 else td_inhibit (td_run T0 cal fct d n)) - (if n mod 4 = 3 then 1 else 0)"
    using f(3) by simp
  show "td_time_secs (td_run T0 cal fct d (Suc n)) =
      (if n mod 4 = 3 \<and> \<not> run_crossing T0 d n \<and> td_inhibit (td_run T0 cal fct d n) = 0
       then of_int (mktime (cal (n div 4)))
       else td_time_secs (td_run T0 cal fct d n) + (if run_crossing T0 d n then 1 else 0))"
    using f(4) by simp
  show "td_full (td_run T0 cal fct d (Suc n)) =
      (td_full (td_run T0 cal fct d n) \<or>
       n mod 4 = 3 \<and> \<not> run_crossing T0 d n \<and> td_inhibit (td_run T0 cal fct d n) = 0)"
    using f(5) by simp
qed

lemma Suc_mod_div_4:
  "n mod 4 \<noteq> 3 \<Longrightarrow> Suc n mod 4 = n mod 4 + 1 \<and> Suc n div 4 = n div 4"
  "n mod 4 = 3 \<Longrightarrow> Suc n mod 4 = 0 \<and> Suc n div 4 = n div 4 + 1"
  by presburger+

lemma run_collected:
  assumes "\<forall>g. 4 * g < N \<longrightarrow> valid_tm (cal g)" and "n \<le> N"
  shows "(0 < n \<longrightarrow> td_time_pps (td_run T0 cal fct d n) = of_int (frame_pps T0 (n - 1))) \<and>
    collected (td_run T0 cal fct d n) (cal (n div 4)) (n mod 4)"
  using assms(2)
proof (induction n)
  case 0
  then show ?case by (simp add: collected_def)
next
  case (Suc n)
  have "4 * (n div 4) < N" using Suc.prems by linarith
  then have v: "valid_tm (cal (n div 4))" using assms(1) by blast
  have IH: "0 < n \<Longrightarrow> td_time_pps (td_run T0 cal fct d n) = of_int (frame_pps T0 (n - 1))"
    "collected (td_run T0 cal fct d n) (cal (n div 4)) (n mod 4)" using Suc by simp_all
  show ?case
  proof (cases "n mod 4 = 3")
    case True
    then show ?thesis using run_frame(1) [OF v IH] Suc_mod_div_4(2) [OF True]
      by (simp add: collected_def del: td_run.simps)
  next
    case False
    then have "n mod 4 < 3" by presburger
    then show ?thesis using run_frame(1,2) [OF v IH] Suc_mod_div_4(1) [OF False]
      by (simp del: td_run.simps)
  qed
qed

lemma run_step:
  assumes "\<forall>g. 4 * g < N \<longrightarrow> valid_tm (cal g)" and "n < N"
  shows "td_inhibit (td_run T0 cal fct d (Suc n)) =
      (if run_crossing T0 d n then 2 else td_inhibit (td_run T0 cal fct d n)) - (if n mod 4 = 3 then 1 else 0)"
    and "td_time_secs (td_run T0 cal fct d (Suc n)) =
      (if n mod 4 = 3 \<and> \<not> run_crossing T0 d n \<and> td_inhibit (td_run T0 cal fct d n) = 0
       then of_int (mktime (cal (n div 4)))
       else td_time_secs (td_run T0 cal fct d n) + (if run_crossing T0 d n then 1 else 0))"
    and "td_full (td_run T0 cal fct d (Suc n)) =
      (td_full (td_run T0 cal fct d n) \<or>
       n mod 4 = 3 \<and> \<not> run_crossing T0 d n \<and> td_inhibit (td_run T0 cal fct d n) = 0)"
    and "td_time_pps (td_run T0 cal fct d (Suc n)) = of_int (frame_pps T0 n)"
proof -
  have "4 * (n div 4) < N" using assms(2) by linarith
  then have v: "valid_tm (cal (n div 4))" using assms(1) by blast
  have c: "0 < n \<Longrightarrow> td_time_pps (td_run T0 cal fct d n) = of_int (frame_pps T0 (n - 1))"
    "collected (td_run T0 cal fct d n) (cal (n div 4)) (n mod 4)"
    using run_collected [OF assms(1), of n T0 fct d] assms(2) by simp_all
  show "td_inhibit (td_run T0 cal fct d (Suc n)) =
      (if run_crossing T0 d n then 2 else td_inhibit (td_run T0 cal fct d n)) - (if n mod 4 = 3 then 1 else 0)"
    by (rule run_frame(3) [OF v c])
  show "td_time_secs (td_run T0 cal fct d (Suc n)) =
      (if n mod 4 = 3 \<and> \<not> run_crossing T0 d n \<and> td_inhibit (td_run T0 cal fct d n) = 0
       then of_int (mktime (cal (n div 4)))
       else td_time_secs (td_run T0 cal fct d n) + (if run_crossing T0 d n then 1 else 0))"
    by (rule run_frame(4) [OF v c])
  show "td_full (td_run T0 cal fct d (Suc n)) =
      (td_full (td_run T0 cal fct d n) \<or>
       n mod 4 = 3 \<and> \<not> run_crossing T0 d n \<and> td_inhibit (td_run T0 cal fct d n) = 0)"
    by (rule run_frame(5) [OF v c])
  show "td_time_pps (td_run T0 cal fct d (Suc n)) = of_int (frame_pps T0 n)"
    by (rule run_frame(1) [OF v c])
qed

text \<open>
  The meaning of \<open>inhibit_second_update\<close>: at 1 or 0 no second was crossed in the current group,
  at 0 none in the group before it either.
\<close>

lemma run_inhibit:
  assumes "\<forall>g. 4 * g < N \<longrightarrow> valid_tm (cal g)" and "n \<le> N" and "td_inhibit d \<le> 2"
  shows "td_inhibit (td_run T0 cal fct d n) \<le> 2 \<and>
    (n mod 4 = 0 \<and> 0 < n \<longrightarrow> td_inhibit (td_run T0 cal fct d n) \<le> 1) \<and>
    (td_inhibit (td_run T0 cal fct d n) \<le> 1 \<longrightarrow>
       (\<forall>k. 4 * (n div 4) \<le> k \<and> k < n \<longrightarrow> \<not> run_crossing T0 d k)) \<and>
    (td_inhibit (td_run T0 cal fct d n) = 0 \<longrightarrow>
       (\<forall>k. 4 * (n div 4) - 4 \<le> k \<and> k < n \<longrightarrow> \<not> run_crossing T0 d k))"
  using assms(2)
proof (induction n)
  case 0
  then show ?case using assms(3) by simp
next
  case (Suc n)
  note IH = Suc.IH [OF Suc_leD [OF Suc.prems]]
  have "n < N" using Suc.prems by simp
  note st = run_step(1) [OF assms(1) this, of T0 fct d]
  show ?case
  proof (cases "n mod 4 = 3")
    case True
    have "4 * (n div 4 + 1) = n + 1" "4 * (n div 4 + 1) - 4 = 4 * (n div 4)" using True by presburger+
    then show ?thesis using IH Suc_mod_div_4(2) [OF True] True unfolding st
      by (auto simp: less_Suc_eq)
  next
    case False
    then show ?thesis using IH Suc_mod_div_4(1) [OF False] unfolding st
      by (auto simp: less_Suc_eq)
  qed
qed

text \<open>Once the decoder has the right second it keeps it; a time code that is applied is right.\<close>

lemma run_locked_step:
  assumes "\<forall>g. 4 * g < N \<longrightarrow> clock_code T0 cal g" and "n < N" and "td_inhibit d \<le> 2"
    and "n mod 4 = 3 \<and> \<not> run_crossing T0 d n \<and> td_inhibit (td_run T0 cal fct d n) = 0 \<or>
      0 < n \<and> td_full (td_run T0 cal fct d n) \<and> td_time_secs (td_run T0 cal fct d n) = of_int (frame_sec T0 (n - 1))"
  shows "td_full (td_run T0 cal fct d (Suc n)) \<and> td_time_secs (td_run T0 cal fct d (Suc n)) = of_int (frame_sec T0 n)"
proof -
  have v: "\<forall>g. 4 * g < N \<longrightarrow> valid_tm (cal g)" using assms(1) by (simp add: clock_code_def)
  note st = run_step [OF v assms(2), of T0 fct d]
  show ?thesis
  proof (cases "n mod 4 = 3 \<and> \<not> run_crossing T0 d n \<and> td_inhibit (td_run T0 cal fct d n) = 0")
    case True
    let ?g = "n div 4"
    have "clock_code T0 cal ?g" using assms(1,2) by auto
    then obtain j where j: "4 * ?g \<le> j + 5" "j \<le> 4 * ?g + 3" "mktime (cal ?g) = frame_sec T0 j"
      unfolding clock_code_def by blast
    have n: "4 * ?g + 3 = n" using conjunct1 [OF True] by presburger
    have "td_inhibit (td_run T0 cal fct d n) = 0" using True by simp
    then have "\<forall>k. 4 * ?g - 4 \<le> k \<and> k < n \<longrightarrow> \<not> run_crossing T0 d k"
      using run_inhibit [OF v less_imp_le [OF assms(2)] assms(3), of T0 fct]
      by (elim conjE) (erule mp)
    then have q: "\<forall>k. 4 * ?g - 4 \<le> k \<and> k \<le> n \<longrightarrow> \<not> run_crossing T0 d k" using True by (auto simp: le_less)
    have "\<forall>k. j < k \<and> k \<le> n \<longrightarrow> \<not> crossing T0 k"
    proof (intro allI impI)
      fix k assume k: "j < k \<and> k \<le> n"
      then have "\<not> run_crossing T0 d k" using q j(1) by auto
      then show "\<not> crossing T0 k" using k by (simp add: run_crossing_def)
    qed
    then have "frame_sec T0 j = frame_sec T0 n" by (rule frame_sec_const) (use j(2) n in auto)
    then show ?thesis using True st j(3) by (simp del: td_run.simps)
  next
    case False
    then have l: "0 < n" "td_full (td_run T0 cal fct d n)"
      "td_time_secs (td_run T0 cal fct d n) = of_int (frame_sec T0 (n - 1))" using assms(4) by blast+
    have "frame_sec T0 n = frame_sec T0 (n - 1) + (if run_crossing T0 d n then 1 else 0)"
      using frame_sec_Suc [of T0 "n - 1"] l(1) by (simp add: run_crossing_def)
    then show ?thesis using False st l by (auto simp del: td_run.simps)
  qed
qed

definition run_locked :: "int \<Rightarrow> timestamp_decoder \<Rightarrow> nat \<Rightarrow> bool" where
  "run_locked T0 td n = (0 < n \<and> td_full td \<and> td_time_secs td = of_int (frame_sec T0 (n - 1)))"

lemma run_locked_stays:
  assumes "\<forall>g. 4 * g < N \<longrightarrow> clock_code T0 cal g" and "td_inhibit d \<le> 2"
    and "run_locked T0 (td_run T0 cal fct d m) m" and "m \<le> n" "n \<le> N"
  shows "run_locked T0 (td_run T0 cal fct d n) n"
  using assms(4,5)
proof (induction n)
  case 0
  then show ?case using assms(3) by simp
next
  case (Suc n)
  show ?case
  proof (cases "m = Suc n")
    case False
    then have "run_locked T0 (td_run T0 cal fct d n) n" using Suc by simp
    then show ?thesis
      using run_locked_step [OF assms(1) _ assms(2), of n fct] Suc.prems
      by (simp add: run_locked_def del: td_run.simps)
  qed (use assms(3) in simp)
qed

text \<open>A group without a crossing counts the inhibition down, or applies its time code.\<close>

lemma run_quiet_group:
  assumes "\<forall>g. 4 * g < N \<longrightarrow> clock_code T0 cal g" and "td_inhibit d \<le> 2" and "4 * g + 4 \<le> N"
    and "\<forall>k. 4 * g \<le> k \<and> k < 4 * g + 4 \<longrightarrow> \<not> run_crossing T0 d k"
  shows "td_inhibit (td_run T0 cal fct d (4 * g + 4)) = td_inhibit (td_run T0 cal fct d (4 * g)) - 1"
    and "td_inhibit (td_run T0 cal fct d (4 * g)) = 0 \<Longrightarrow> run_locked T0 (td_run T0 cal fct d (4 * g + 4)) (4 * g + 4)"
proof -
  let ?i = "\<lambda>n. td_inhibit (td_run T0 cal fct d n)"
  have v: "\<forall>g. 4 * g < N \<longrightarrow> valid_tm (cal g)" using assms(1) by (simp add: clock_code_def)
  have st: "?i (Suc n) = ?i n - (if n mod 4 = 3 then 1 else 0)" if "4 * g \<le> n" "n < 4 * g + 4" for n
    using run_step(1) [OF v, of n T0 fct d] that assms(3,4) by (simp del: td_run.simps)
  have "?i (Suc (4 * g)) = ?i (4 * g)" using st [of "4 * g"] by simp
  moreover have "?i (Suc (Suc (4 * g))) = ?i (Suc (4 * g))" using st [of "Suc (4 * g)"] by (simp add: mod_Suc)
  moreover have "?i (Suc (Suc (Suc (4 * g)))) = ?i (Suc (Suc (4 * g)))"
    using st [of "Suc (Suc (4 * g))"] by (simp add: mod_Suc)
  moreover have "Suc (Suc (Suc (4 * g))) = 4 * g + 3" by simp
  ultimately have i3: "?i (4 * g + 3) = ?i (4 * g)" by metis
  have m3: "(4 * g + 3) mod 4 = 3" "Suc (4 * g + 3) = 4 * g + 4" by simp_all
  show "?i (4 * g + 4) = ?i (4 * g) - 1" using st [of "4 * g + 3"] i3 m3 by (simp del: td_run.simps)
  assume "?i (4 * g) = 0"
  then have "td_full (td_run T0 cal fct d (Suc (4 * g + 3))) \<and>
      td_time_secs (td_run T0 cal fct d (Suc (4 * g + 3))) = of_int (frame_sec T0 (4 * g + 3))" (is ?L)
  proof -
    have "\<not> run_crossing T0 d (4 * g + 3)" "4 * g + 3 < N" using assms(3,4) by simp_all
    then show ?L
      by (intro run_locked_step [OF assms(1) _ assms(2)] disjI1 conjI m3(1))
        (simp_all only: i3 \<open>td_inhibit (td_run T0 cal fct d (4 * g)) = 0\<close> not_False_eq_True)
  qed
  moreover have "0 < 4 * g + 4" "4 * g + 4 - 1 = 4 * g + 3" by simp_all
  ultimately show "run_locked T0 (td_run T0 cal fct d (4 * g + 4)) (4 * g + 4)"
    unfolding run_locked_def m3(2) by (simp only: simp_thms)
qed

lemma run_acquires:
  assumes "\<forall>g. 4 * g < N \<longrightarrow> clock_code T0 cal g" and "td_inhibit d \<le> 2" and "20 \<le> N"
  shows "run_locked T0 (td_run T0 cal fct d 20) 20"
proof -
  let ?Q = "\<lambda>g. \<exists>k. 4 * g \<le> k \<and> k < 4 * g + 4 \<and> run_crossing T0 d k"
  have v: "\<forall>g. 4 * g < N \<longrightarrow> valid_tm (cal g)" using assms(1) by (simp add: clock_code_def)
  have pair: "run_locked T0 (td_run T0 cal fct d (4 * (g + 2))) (4 * (g + 2))"
    if "1 \<le> g" "4 * (g + 2) \<le> N" "\<not> ?Q g" "\<not> ?Q (g + 1)" for g
  proof -
    have "td_inhibit (td_run T0 cal fct d (4 * g)) \<le> 1"
      using run_inhibit [OF v _ assms(2), of "4 * g" T0 fct] that(1,2) by simp
    then have "td_inhibit (td_run T0 cal fct d (4 * g + 4)) = 0"
      using run_quiet_group(1) [OF assms(1,2), of g fct] that by force
    moreover have e: "4 * g + 4 = 4 * (g + 1)" "4 * (g + 2) = 4 * (g + 1) + 4" by simp_all
    ultimately have i: "td_inhibit (td_run T0 cal fct d (4 * (g + 1))) = 0" by (simp only: e)
    show ?thesis unfolding e(2)
      by (rule run_quiet_group(2) [OF assms(1,2) _ _ i]) (use that in auto)
  qed
  have apart: "\<not> ?Q h" if "?Q g" "1 \<le> g" "g < h" "h \<le> g + 9" for g h
  proof -
    obtain k where k: "4 * g \<le> k" "k < 4 * g + 4" "run_crossing T0 d k" using \<open>?Q g\<close> by blast
    then have "crossing T0 k" using that(2) by (simp add: run_crossing_def)
    show ?thesis
    proof
      assume "?Q h"
      then obtain l where l: "4 * h \<le> l" "l < 4 * h + 4" "run_crossing T0 d l" by blast
      then have "crossing T0 l" using that by (simp add: run_crossing_def)
      moreover have "k < l" "l < k + 41" using k l that by linarith+
      ultimately show False using crossing_apart [OF \<open>crossing T0 k\<close>] by blast
    qed
  qed
  obtain g where g: "1 \<le> g" "g \<le> 3" "\<not> ?Q g" "\<not> ?Q (g + 1)"
  proof -
    consider "?Q 1" | "\<not> ?Q 1" "?Q 2" | "\<not> ?Q 1" "\<not> ?Q 2" by blast
    then show ?thesis
    proof cases
      case 1
      then show ?thesis using apart [of 1 2] apart [of 1 3] that [of 2] by simp
    next
      case 2
      then show ?thesis using apart [of 2 3] apart [of 2 4] that [of 3] by simp
    next
      case 3
      then show ?thesis using that [of 1] by simp
    qed
  qed
  then have "run_locked T0 (td_run T0 cal fct d (4 * (g + 2))) (4 * (g + 2))" using pair assms(3) by simp
  then show ?thesis using run_locked_stays [OF assms(1,2)] g(2) assms(3) by simp
qed

section \<open>Properties\<close>

text \<open>
  Adding an offset, positive or negative, to a time stamp is exact up to the wrap-around of
  the 32-bit second counter, and the sub-second part is normalised.
\<close>

lemma timestamp_offset_exact:
  "ts_units (ts_add dmul ts diff) mod (2 ^ 32 * 16384000) =
     (ts_units ts + offset_units dmul diff) mod (2 ^ 32 * 16384000) \<and>
   unat (ts_pps (ts_add dmul ts diff)) < 16384000"
proof -
  obtain m where "ts_units (ts_add dmul ts diff) = ts_units ts + offset_units dmul diff + m * (2 ^ 32 * 16384000)"
    using ts_add_units by blast
  then show ?thesis using ts_add_normal by (simp only: mod_mult_self1 simp_thms)
qed

text \<open>
  C7. From any state the decoder shows the true second after at most twenty frames, and keeps
  it: a time code that lags by up to a group is not applied around a second's boundary, thanks to
  \<open>inhibit_second_update\<close>.
\<close>

theorem mnsc_clock_locks:
  assumes "td_inhibit d \<le> 2" and "\<forall>g. 4 * g < N \<longrightarrow> clock_code T0 cal g" and "20 \<le> n" and "n \<le> N"
  shows "td_full (td_run T0 cal fct d n) \<and>
    td_time_secs (td_run T0 cal fct d n) = of_int (frame_sec T0 (n - 1)) \<and>
    td_time_pps (td_run T0 cal fct d n) = of_int (frame_pps T0 (n - 1))"
proof -
  have v: "\<forall>g. 4 * g < N \<longrightarrow> valid_tm (cal g)" using assms(2) by (simp add: clock_code_def)
  have "run_locked T0 (td_run T0 cal fct d n) n"
    using run_locked_stays [OF assms(2,1) run_acquires [OF assms(2,1)] assms(3,4)] assms(3,4) by simp
  moreover have "td_time_pps (td_run T0 cal fct d n) = of_int (frame_pps T0 (n - 1))"
    using run_collected [OF v assms(4), of T0 fct d] assms(3) by simp
  ultimately show ?thesis by (simp add: run_locked_def)
qed

text \<open>
  \<open>set_ns\<close> does not invert \<open>get_ns\<close>: it multiplies the nanoseconds of the sub-second part
  by 16384000 without dividing them by \<open>10 ^ 9\<close>, so half a second becomes a number of units that
  is not even normalised. (The product, below \<open>2 ^ 53\<close>, is exact as a \<open>double\<close>.)
\<close>

lemma set_ns_loses_subsecond:
  assumes "dmul 500000000 16384000 = 500000000 * 16384000"
  shows "ts_pps (set_ns dmul ts 1500000000) = 2717908992 \<and> unat (ts_pps (set_ns dmul ts 1500000000)) > 16384000"
  using assms by (simp add: set_ns_def llrint_def)

definition new_year :: tm where
  "new_year = \<lparr>tm_sec = 10, tm_min = 0, tm_hour = 0, tm_mday = 1, tm_mon = 0, tm_year = 124\<rparr>"

theorem mnsc_clock_locks_witness:
  "td_time_secs (td_run (1704067210 * 16384000) (\<lambda>_. new_year) int (TimestampDecoder 0) 20) = 1704067210"
proof -
  let ?T = "1704067210 * 16384000 :: int"
  have sec: "frame_sec ?T n = 1704067210" if "n < 41" for n
  proof -
    have "frame_sec ?T n = 1704067210 + 393216 * int n div 16384000" by (simp add: frame_sec_def)
    with that show ?thesis by simp
  qed
  have "mktime new_year = 1704067210" by (simp add: new_year_def mktime_def days_from_civil_def)
  moreover have "valid_tm new_year" by (simp add: new_year_def valid_tm_def)
  ultimately have "clock_code ?T (\<lambda>_. new_year) g" if "4 * g < 20" for g
    unfolding clock_code_def using sec [of "4 * g"] that by (intro conjI exI [of _ "4 * g"]) auto
  moreover have "td_inhibit (TimestampDecoder 0) \<le> 2" by (simp add: TimestampDecoder_def)
  ultimately show ?thesis
    using mnsc_clock_locks [of "TimestampDecoder 0" 20 ?T "\<lambda>_. new_year" 20 int] sec [of 19] by simp
qed

lemma set_ns_loses_subsecond_witness:
  "ts_pps (set_ns (*) ts 1500000000) = 2717908992"
  using set_ns_loses_subsecond [of "(*)" ts] by simp

end
