(* ===== verification/Eti_Reader.thy ===== *)
theory Eti_Reader
  imports Timestamp Multiplex
begin

text \<open>
  The ETI input, class \<open>EtiReader\<close> of \<open>src/EtiReader.cpp\<close>: the state machine that takes a byte
  stream apart into the fast information channel, the subchannels and the time stamp. The bytes
  \<open>in\<close> and their number \<open>input_size\<close> are one list, the bytes that are left.
\<close>

section \<open>State\<close>

datatype eti_reader_state =
  NbFrame | FrameSize | Sync | Fc | Nst | Eoh | Fic | Subch | Eof | Tist | Pad

record eti_reader =
  er_state :: eti_reader_state
  er_nb_frames :: u32
  er_framesize :: u16
  er_sync :: eti_SYNC
  er_fc :: eti_FC
  er_stc :: "eti_STC list"
  er_eoh :: eti_EOH
  er_eof :: eti_EOF
  er_tist :: u32
  er_decoder :: timestamp_decoder
  er_fc_valid :: bool
  er_sources :: "subchannel_source list"
  er_fic :: "frame_timestamp fic_source option"

text \<open>The members the constructor does not initialise keep the values of \<open>junk\<close>.\<close>

definition EtiReader :: "eti_reader \<Rightarrow> rat \<Rightarrow> eti_reader" where
  "EtiReader junk tist_offset_s =
     junk\<lparr>er_state := Sync, er_stc := [], er_decoder := TimestampDecoder tist_offset_s,
          er_fc_valid := False, er_sources := [], er_fic := None\<rparr>"

definition eti_getMode :: "eti_reader \<Rightarrow> nat result" where
  "eti_getMode r =
     (if \<not> er_fc_valid r then Inl (RuntimeError ''Trying to access Mode before it is ready!'')
      else Inr (fc_MID (er_fc r)))"

definition eti_getFp :: "eti_reader \<Rightarrow> nat result" where
  "eti_getFp r =
     (if \<not> er_fc_valid r then Inl (RuntimeError ''Trying to access FP before it is ready!'')
      else Inr (fc_FP (er_fc r)))"

definition eti_getFct :: "eti_reader \<Rightarrow> nat result" where
  "eti_getFct r =
     (if \<not> er_fc_valid r then Inl (RuntimeError ''Trying to access FCT before it is ready!'')
      else Inr (fc_FCT (er_fc r)))"

definition eti_getTimestamp :: "(rat \<Rightarrow> rat \<Rightarrow> rat) \<Rightarrow> eti_reader \<Rightarrow> eti_reader \<times> frame_timestamp" where
  "eti_getTimestamp dmul r =
     (let (td, ts) = getTimestamp dmul (er_decoder r) in (r\<lparr>er_decoder := td\<rparr>, ts))"

definition getPPSOffset :: "eti_reader \<Rightarrow> u32" where
  "getPPSOffset r =
     (let timestamp = ntohl (er_tist r) AND 0xFFFFFF
      in if timestamp = 0xFFFFFF then 0 else timestamp)"

section \<open>One iteration of the loop\<close>

text \<open>
  An iteration goes on, or returns early for want of input, or throws. In the last two cases the
  state changes made so far remain.
\<close>

datatype eti_outcome =
    Next eti_reader bytes
  | Wait eti_reader bytes
  | Raise eti_reader error

definition step_sync :: "eti_reader \<Rightarrow> bytes \<Rightarrow> eti_outcome" where
  "step_sync r ins =
     (if length ins < 4 then Wait r ins
      else Next (r\<lparr>er_framesize := 6144 - 4, er_sync := eti_SYNC_of (take 4 ins), er_state := Fc\<rparr>) (drop 4 ins))"

definition step_fc :: "(nat \<Rightarrow> bytes) \<Rightarrow> eti_reader \<Rightarrow> bytes \<Rightarrow> eti_outcome" where
  "step_fc fresh r ins =
     (if length ins < 4 then Wait r ins
      else
        (let fc = eti_FC_of (take 4 ins);
             r = r\<lparr>er_fc := fc, er_fc_valid := True, er_framesize := er_framesize r - 4, er_state := Nst\<rparr>
         in if fc_FICF fc = 0 then Raise r (RuntimeError ''FIC must be present to modulate!'')
            else if er_fic r = None
            then Next (r\<lparr>er_fic := Some (FicSource (fc_FICF fc) (fc_MID fc) fresh)\<rparr>) (drop 4 ins)
            else Next r (drop 4 ins)))"

text \<open>The sources for a new stream configuration, up to the first that throws.\<close>

fun make_sources :: "eti_STC list \<Rightarrow> subchannel_source list \<times> error option" where
  "make_sources [] = ([], None)"
| "make_sources (c # cs) =
     (case SubchannelSource (getStartAddress c) (getSTL c) (of_nat (stc_TPL c)) of
        Inl e \<Rightarrow> ([], Some e)
      | Inr s \<Rightarrow> (let (ss, e) = make_sources cs in (s # ss, e)))"

definition step_nst :: "eti_reader \<Rightarrow> bytes \<Rightarrow> eti_outcome" where
  "step_nst r ins =
     (let nst = fc_NST (er_fc r) in
      if length ins < 4 * nst then Wait r ins
      else
        (let stc = map (\<lambda>i. eti_STC_of (take 4 (drop (4 * i) ins))) [0..<nst];
             (r, e) =
               (if er_stc r \<noteq> stc
                then (let (ss, e) = make_sources stc in (r\<lparr>er_stc := stc, er_sources := ss\<rparr>, e))
                else (r, None))
         in case e of
              Some e \<Rightarrow> Raise r e
            | None \<Rightarrow> Next (r\<lparr>er_framesize := er_framesize r - of_nat (4 * nst), er_state := Eoh\<rparr>)
                         (drop (4 * nst) ins)))"

definition step_eoh :: "eti_reader \<Rightarrow> bytes \<Rightarrow> eti_outcome" where
  "step_eoh r ins =
     (if length ins < 4 then Wait r ins
      else Next (r\<lparr>er_eoh := eti_EOH_of (take 4 ins), er_framesize := er_framesize r - 4, er_state := Fic\<rparr>) (drop 4 ins))"

definition step_fic :: "eti_reader \<Rightarrow> bytes \<Rightarrow> eti_outcome" where
  "step_fic r ins =
     (let n = (if fc_MID (er_fc r) = 3 then 128 else 96) in
      if length ins < n then Wait r ins
      else
        (case er_fic r of
           None \<Rightarrow> Raise r (UndefinedBehaviour ''null pointer'')
         | Some f \<Rightarrow>
             Next (r\<lparr>er_fic := Some (loadFicData f (take n ins)), er_framesize := er_framesize r - of_nat n,
                     er_state := Subch\<rparr>) (drop n ins)))"

definition subch_body ::
    "nat \<Rightarrow> subchannel_source list \<times> u16 \<times> bytes \<Rightarrow> (subchannel_source list \<times> u16 \<times> bytes) result" where
  "subch_body i = (\<lambda>(sources, framesize, ins).
     bindE (rd sources i) (\<lambda>s.
     bindE (memread ins 0 (sc_framesize s)) (\<lambda>subch.
     Inr (sources[i := loadSubchannelData s subch], framesize - of_nat (sc_framesize s), drop (sc_framesize s) ins))))"

definition step_subch :: "eti_reader \<Rightarrow> bytes \<Rightarrow> eti_outcome" where
  "step_subch r ins =
     (case for_each subch_body [0..<length (er_stc r)] (er_sources r, er_framesize r, ins) of
        Inl e \<Rightarrow> Raise r e
      | Inr (sources, framesize, ins) \<Rightarrow>
          Next (r\<lparr>er_sources := sources, er_framesize := framesize, er_state := Eof\<rparr>) ins)"

definition step_eof :: "eti_reader \<Rightarrow> bytes \<Rightarrow> eti_outcome" where
  "step_eof r ins =
     (if length ins < 4 then Wait r ins
      else Next (r\<lparr>er_eof := eti_EOF_of (take 4 ins), er_framesize := er_framesize r - 4, er_state := Tist\<rparr>) (drop 4 ins))"

definition step_tist :: "eti_reader \<Rightarrow> bytes \<Rightarrow> eti_outcome" where
  "step_tist r ins =
     (if length ins < 4 then Wait r ins
      else Next (r\<lparr>er_tist := le32 (take 4 ins), er_framesize := er_framesize r - 4, er_state := Pad\<rparr>) (drop 4 ins))"

definition step_pad :: "eti_reader \<Rightarrow> bytes \<Rightarrow> eti_outcome" where
  "step_pad r ins =
     (if er_framesize r > 0 then Next (r\<lparr>er_framesize := er_framesize r - 1\<rparr>) (drop 1 ins)
      else Next (r\<lparr>er_state := Sync\<rparr>) ins)"

definition eti_step :: "(nat \<Rightarrow> bytes) \<Rightarrow> eti_reader \<Rightarrow> bytes \<Rightarrow> eti_outcome" where
  "eti_step fresh r ins =
     (case er_state r of
        NbFrame \<Rightarrow>
          (if length ins < 4 then Wait r ins
           else Next (r\<lparr>er_nb_frames := le32 (take 4 ins), er_state := FrameSize\<rparr>) (drop 4 ins))
      | FrameSize \<Rightarrow>
          (if length ins < 2 then Wait r ins
           else Next (r\<lparr>er_framesize := le16 (ins ! 0) (ins ! 1), er_state := Sync\<rparr>) (drop 2 ins))
      | Sync \<Rightarrow> step_sync r ins
      | Fc \<Rightarrow> step_fc fresh r ins
      | Nst \<Rightarrow> step_nst r ins
      | Eoh \<Rightarrow> step_eoh r ins
      | Fic \<Rightarrow> step_fic r ins
      | Subch \<Rightarrow> step_subch r ins
      | Eof \<Rightarrow> step_eof r ins
      | Tist \<Rightarrow> step_tist r ins
      | Pad \<Rightarrow> step_pad r ins)"

section \<open>The loop\<close>

text \<open>
  Every iteration either uses up input or leaves one of the three states that can do without, so
  the loop ends.
\<close>

definition may_stall :: "eti_reader \<Rightarrow> nat" where
  "may_stall r = (if er_state r \<in> {Nst, Subch, Pad} then 1 else 0)"

lemma subch_body_length:
  "for_each subch_body is (ss, fs, ins) = Inr (ss', fs', ins') \<Longrightarrow> length ins' \<le> length ins"
proof (induction "is" arbitrary: ss fs ins)
  case Nil
  then show ?case by simp
next
  case (Cons i "is")
  from Cons.prems obtain ss1 fs1 ins1 where 1: "subch_body i (ss, fs, ins) = Inr (ss1, fs1, ins1)"
    "for_each subch_body is (ss1, fs1, ins1) = Inr (ss', fs', ins')"
    by (auto split: sum.splits)
  have "length ins1 \<le> length ins" using 1(1) by (auto simp: subch_body_def bindE_Inr_iff)
  with Cons.IH [OF 1(2)] show ?case by simp
qed

lemma eti_step_progress:
  assumes "eti_step fresh r ins = Next r' ins'" and "ins \<noteq> []"
  shows "2 * length ins' + may_stall r' < 2 * length ins + may_stall r"
proof (cases "er_state r")
  case NbFrame
  then show ?thesis using assms by (auto simp: eti_step_def may_stall_def split: if_splits)
next
  case FrameSize
  then show ?thesis using assms by (auto simp: eti_step_def may_stall_def split: if_splits)
next
  case Sync
  then show ?thesis using assms by (auto simp: eti_step_def step_sync_def may_stall_def split: if_splits)
next
  case Fc
  then show ?thesis using assms by (auto simp: eti_step_def step_fc_def may_stall_def Let_def split: if_splits)
next
  case Nst
  then show ?thesis using assms
    by (auto simp: eti_step_def step_nst_def may_stall_def Let_def split: if_splits option.splits prod.splits)
next
  case Eoh
  then show ?thesis using assms by (auto simp: eti_step_def step_eoh_def may_stall_def split: if_splits)
next
  case Fic
  then show ?thesis using assms
    by (auto simp: eti_step_def step_fic_def may_stall_def Let_def split: if_splits option.splits)
next
  case Subch
  then obtain ss fs where "for_each subch_body [0..<length (er_stc r)] (er_sources r, er_framesize r, ins) = Inr (ss, fs, ins')"
    "r' = r\<lparr>er_sources := ss, er_framesize := fs, er_state := Eof\<rparr>"
    using assms by (auto simp: eti_step_def step_subch_def split: sum.splits prod.splits)
  then show ?thesis using subch_body_length Subch by (fastforce simp: may_stall_def)
next
  case Eof
  then show ?thesis using assms by (auto simp: eti_step_def step_eof_def may_stall_def split: if_splits)
next
  case Tist
  then show ?thesis using assms by (auto simp: eti_step_def step_tist_def may_stall_def split: if_splits)
next
  case Pad
  then show ?thesis using assms by (cases ins) (auto simp: eti_step_def step_pad_def may_stall_def split: if_splits)
qed

function eti_loop :: "(nat \<Rightarrow> bytes) \<Rightarrow> eti_reader \<Rightarrow> bytes \<Rightarrow> eti_outcome" where
  "eti_loop fresh r ins =
     (if ins = [] then Next r ins
      else (case eti_step fresh r ins of
              Next r' ins' \<Rightarrow> eti_loop fresh r' ins'
            | Wait r' ins' \<Rightarrow> Wait r' ins'
            | Raise r' e \<Rightarrow> Raise r' e))"
  by pat_completeness auto
termination
  by (relation "measure (\<lambda>(fresh, r, ins). 2 * length ins + may_stall r)")
    (auto dest: eti_step_progress)

declare eti_loop.simps [simp del]

definition loadEtiData ::
    "(rat \<Rightarrow> rat \<Rightarrow> rat) \<Rightarrow> (nat \<Rightarrow> bytes) \<Rightarrow> eti_reader \<Rightarrow> bytes \<Rightarrow> eti_reader \<times> nat result" where
  "loadEtiData dmul fresh r dataIn =
     (case eti_loop fresh r dataIn of
        Wait r ins \<Rightarrow> (r, Inr (length dataIn - length ins))
      | Raise r e \<Rightarrow> (r, Inl e)
      | Next r ins \<Rightarrow>
          (let r = r\<lparr>er_decoder := updateTimestampEti (er_decoder r) (fc_FP (er_fc r) mod 4)
                        (eoh_MNSC (er_eoh r)) (getPPSOffset r) (int (fc_FCT (er_fc r)))\<rparr>
           in case er_fic r of
                None \<Rightarrow> (r, Inl (UndefinedBehaviour ''null pointer''))
              | Some f \<Rightarrow>
                  (let (r, ts) = eti_getTimestamp dmul r
                   in (r\<lparr>er_fic := Some (loadTimestamp f ts)\<rparr>, Inr (length dataIn - length ins)))))"

section \<open>Abstract frames\<close>

text \<open>An ETI(NI) frame as a record, and its serialisation.\<close>

record eti_frame =
  ef_sync :: bytes
  ef_fc :: bytes
  ef_stc :: "bytes list"
  ef_eoh :: bytes
  ef_fic :: bytes
  ef_mst :: "bytes list"
  ef_eof :: bytes
  ef_tist :: bytes
  ef_pad :: bytes

definition frame_bytes :: "eti_frame \<Rightarrow> bytes" where
  "frame_bytes f = ef_sync f @ ef_fc f @ concat (ef_stc f) @ ef_eoh f @ ef_fic f @ concat (ef_mst f) @
     ef_eof f @ ef_tist f @ ef_pad f"

definition stream_source :: "eti_STC \<Rightarrow> subchannel_source result" where
  "stream_source c = SubchannelSource (getStartAddress c) (getSTL c) (of_nat (stc_TPL c))"

definition wf_frame :: "eti_frame \<Rightarrow> bool" where
  "wf_frame f =
     (length (ef_sync f) = 4 \<and> length (ef_fc f) = 4 \<and> length (ef_eoh f) = 4 \<and> length (ef_eof f) = 4 \<and>
      length (ef_tist f) = 4 \<and> list_all (\<lambda>c. length c = 4) (ef_stc f) \<and>
      fc_FICF (eti_FC_of (ef_fc f)) = 1 \<and> fc_NST (eti_FC_of (ef_fc f)) = length (ef_stc f) \<and>
      length (ef_fic f) = (if fc_MID (eti_FC_of (ef_fc f)) = 3 then 128 else 96) \<and>
      list_all2 (\<lambda>c d. \<exists>s. stream_source (eti_STC_of c) = Inr s \<and> length d = sc_framesize s) (ef_stc f) (ef_mst f) \<and>
      length (frame_bytes f) = 6144)"

text \<open>The reader's sources belong to its stream configuration.\<close>

definition source_of :: "subchannel_source \<Rightarrow> eti_STC \<Rightarrow> bool" where
  "source_of s c = (stream_source c = Inr (s\<lparr>sc_buffer := []\<rparr>))"

definition sources_match :: "eti_reader \<Rightarrow> bool" where
  "sources_match r = list_all2 source_of (er_sources r) (er_stc r)"

definition at_frame_start :: "eti_reader \<Rightarrow> bool" where
  "at_frame_start r = (sources_match r \<and> (er_state r = Sync \<or> er_state r = Pad \<and> er_framesize r = 0))"

text \<open>A source that holds the data \<open>d\<close> of the stream with the characterisation \<open>c\<close>.\<close>

definition delivers :: "subchannel_source \<Rightarrow> bytes \<Rightarrow> bytes \<Rightarrow> bool" where
  "delivers s c d = (source_of s (eti_STC_of c) \<and> sc_buffer s = d)"

section \<open>The steps of a frame\<close>

lemma eti_loop_Nil: "eti_loop fresh r [] = Next r []"
  by (simp add: eti_loop.simps)

lemma eti_loop_Next:
  "ins \<noteq> [] \<Longrightarrow> eti_step fresh r ins = Next r' ins' \<Longrightarrow> eti_loop fresh r ins = eti_loop fresh r' ins'"
  by (simp add: eti_loop.simps [of fresh r ins])

lemma stc_decode:
  "list_all (\<lambda>c. length c = 4) cs \<Longrightarrow>
     map (\<lambda>i. eti_STC_of (take 4 (drop (4 * i) (concat cs @ rest)))) [0..<length cs] = map eti_STC_of cs"
proof (induction cs)
  case (Cons c cs)
  have "map (\<lambda>i. eti_STC_of (take 4 (drop (4 * i) (concat (c # cs) @ rest)))) [0..<length (c # cs)] =
      eti_STC_of c # map (\<lambda>i. eti_STC_of (take 4 (drop (4 * i) (concat cs @ rest)))) [0..<length cs]"
    using Cons.prems by (simp add: upt_Suc_Cons comp_def del: upt_Suc)
  then show ?case using Cons by simp
qed simp

lemma SubchannelSource_buffer: "SubchannelSource sad stl tpl = Inr s \<Longrightarrow> sc_buffer s = []"
  by (auto simp: SubchannelSource_def Let_def bindE_Inr_iff)

lemma stream_source_of: "stream_source c = Inr s \<Longrightarrow> source_of s c"
  using SubchannelSource_buffer by (cases s) (fastforce simp: source_of_def stream_source_def)

lemma source_of_unique: "source_of s c \<Longrightarrow> stream_source c = Inr s' \<Longrightarrow> sc_framesize s = sc_framesize s'"
  by (auto simp: source_of_def)

lemma make_sources_ok:
  "list_all (\<lambda>c. \<exists>s. stream_source c = Inr s) cs \<Longrightarrow>
     \<exists>ss. make_sources cs = (ss, None) \<and> list_all2 source_of ss cs"
proof (induction cs)
  case (Cons c cs)
  then obtain s ss where "stream_source c = Inr s" "make_sources cs = (ss, None)" "list_all2 source_of ss cs"
    by auto
  then show ?case using stream_source_of by (auto simp: stream_source_def)
qed simp

lemma subch_loop:
  assumes "list_all2 (\<lambda>s d. length d = sc_framesize s) ss ds"
  shows "for_each subch_body [length pre..<length pre + length ss] (pre @ ss, fs, concat ds @ rest) =
    Inr (pre @ map2 loadSubchannelData ss ds, fs - of_nat (length (concat ds)), rest)"
  using assms
proof (induction ss ds arbitrary: pre fs rule: list_all2_induct)
  case Nil
  then show ?case by simp
next
  case (Cons s ss d ds)
  let ?s = "loadSubchannelData s d"
  have "[length pre..<length pre + length (s # ss)] =
      length pre # [length (pre @ [?s])..<length (pre @ [?s]) + length ss]"
    by (simp add: upt_conv_Cons del: upt_Suc)
  moreover have "subch_body (length pre) (pre @ s # ss, fs, concat (d # ds) @ rest) =
      Inr ((pre @ [?s]) @ ss, fs - of_nat (length d), concat ds @ rest)"
    using Cons.hyps(1) by (simp add: subch_body_def)
  ultimately show ?case using Cons.IH [of "pre @ [?s]" "fs - of_nat (length d)"]
    by (simp add: diff_diff_eq del: upt_Suc)
qed

lemma pad_loop:
  "er_state r = Pad \<Longrightarrow> er_framesize r = of_nat (length pad) \<Longrightarrow> length pad < 65536 \<Longrightarrow>
     eti_loop fresh r pad = Next (r\<lparr>er_framesize := 0\<rparr>) []"
proof (induction pad arbitrary: r)
  case Nil
  then show ?case by (simp add: eti_loop_Nil)
next
  case (Cons b pad)
  have "unat (er_framesize r) = length (b # pad)"
    unfolding Cons.prems(2) by (rule unat_of_nat_small) (use Cons.prems(3) in simp)
  then have "er_framesize r > 0" by (simp add: word_greater_zero_iff unat_gt_0 [symmetric])
  then have "eti_step fresh r (b # pad) = Next (r\<lparr>er_framesize := of_nat (length pad)\<rparr>) pad"
    using Cons.prems by (simp add: eti_step_def step_pad_def)
  then have "eti_loop fresh r (b # pad) = eti_loop fresh (r\<lparr>er_framesize := of_nat (length pad)\<rparr>) pad"
    by (intro eti_loop_Next) simp_all
  also have "\<dots> = Next (r\<lparr>er_framesize := 0\<rparr>) []"
    using Cons.IH [of "r\<lparr>er_framesize := of_nat (length pad)\<rparr>"] Cons.prems by simp
  finally show ?case .
qed

text \<open>One frame from its sync word, header to time stamp.\<close>

lemma nst_step:
  assumes "er_state r = Nst" and "sources_match r" and "fc_NST (er_fc r) = length cs"
    and "list_all (\<lambda>c. length c = 4) cs" and "list_all (\<lambda>c. \<exists>s. stream_source (eti_STC_of c) = Inr s) cs"
  shows "\<exists>ss. list_all2 source_of ss (map eti_STC_of cs) \<and>
    eti_step fresh r (concat cs @ rest) =
      Next (r\<lparr>er_stc := map eti_STC_of cs, er_sources := ss,
              er_framesize := er_framesize r - of_nat (4 * length cs), er_state := Eoh\<rparr>) rest"
proof -
  have len: "length (concat cs) = 4 * length cs"
    using assms(4) by (induction cs) auto
  note dec = stc_decode [OF assms(4), of rest]
  show ?thesis
  proof (cases "er_stc r = map eti_STC_of cs")
    case True
    then have "eti_step fresh r (concat cs @ rest) = Next (r\<lparr>er_stc := map eti_STC_of cs, er_sources := er_sources r,
              er_framesize := er_framesize r - of_nat (4 * length cs), er_state := Eoh\<rparr>) rest"
      using assms(1,3) len dec by (simp add: eti_step_def step_nst_def)
    moreover have "list_all2 source_of (er_sources r) (map eti_STC_of cs)"
      using assms(2) True by (simp add: sources_match_def)
    ultimately show ?thesis by blast
  next
    case False
    obtain ss where ss: "make_sources (map eti_STC_of cs) = (ss, None)" "list_all2 source_of ss (map eti_STC_of cs)"
      using make_sources_ok [of "map eti_STC_of cs"] assms(5) by (auto simp: list_all_iff)
    have "eti_step fresh r (concat cs @ rest) = Next (r\<lparr>er_stc := map eti_STC_of cs, er_sources := ss,
              er_framesize := er_framesize r - of_nat (4 * length cs), er_state := Eoh\<rparr>) rest"
      using assms(1,3) len dec False ss(1) by (simp add: eti_step_def step_nst_def)
    then show ?thesis using ss(2) by blast
  qed
qed

lemma fic_step:
  assumes "er_state r = Fic" and "er_fic r = Some fs" and "length fic = (if fc_MID (er_fc r) = 3 then 128 else 96)"
  shows "eti_step fresh r (fic @ rest) =
    Next (r\<lparr>er_fic := Some (loadFicData fs fic), er_framesize := er_framesize r - of_nat (length fic),
            er_state := Subch\<rparr>) rest"
  using assms by (simp add: eti_step_def step_fic_def)

lemma subch_step:
  assumes "er_state r = Subch" and "length (er_stc r) = length (er_sources r)"
    and "list_all2 (\<lambda>s d. length d = sc_framesize s) (er_sources r) ds"
  shows "eti_step fresh r (concat ds @ rest) =
    Next (r\<lparr>er_sources := map2 loadSubchannelData (er_sources r) ds,
            er_framesize := er_framesize r - of_nat (length (concat ds)), er_state := Eof\<rparr>) rest"
  using subch_loop [OF assms(3), of "[]" "er_framesize r" rest] assms(1,2)
  by (simp add: eti_step_def step_subch_def)

lemma word_steps:
  assumes "length w = 4"
  shows "er_state r = Sync \<Longrightarrow> eti_step fresh r (w @ rest) =
      Next (r\<lparr>er_framesize := 6144 - 4, er_sync := eti_SYNC_of w, er_state := Fc\<rparr>) rest"
    and "er_state r = Fc \<Longrightarrow> fc_FICF (eti_FC_of w) = 1 \<Longrightarrow> eti_step fresh r (w @ rest) =
      Next (r\<lparr>er_fc := eti_FC_of w, er_fc_valid := True, er_framesize := er_framesize r - 4, er_state := Nst,
              er_fic := Some (case er_fic r of None \<Rightarrow> FicSource 1 (fc_MID (eti_FC_of w)) fresh | Some f \<Rightarrow> f)\<rparr>) rest"
    and "er_state r = Eoh \<Longrightarrow> eti_step fresh r (w @ rest) =
      Next (r\<lparr>er_eoh := eti_EOH_of w, er_framesize := er_framesize r - 4, er_state := Fic\<rparr>) rest"
    and "er_state r = Eof \<Longrightarrow> eti_step fresh r (w @ rest) =
      Next (r\<lparr>er_eof := eti_EOF_of w, er_framesize := er_framesize r - 4, er_state := Tist\<rparr>) rest"
    and "er_state r = Tist \<Longrightarrow> eti_step fresh r (w @ rest) =
      Next (r\<lparr>er_tist := le32 w, er_framesize := er_framesize r - 4, er_state := Pad\<rparr>) rest"
  using assms
  by (auto simp: eti_step_def step_sync_def step_fc_def step_eoh_def step_eof_def step_tist_def Let_def
      split: option.split)

lemma frame_loop_start:
  assumes "at_frame_start r" and "rest \<noteq> []"
  shows "\<exists>r'. eti_loop fresh r rest = eti_loop fresh r' rest \<and> er_state r' = Sync \<and> sources_match r' \<and>
    er_decoder r' = er_decoder r \<and> er_fic r' = er_fic r"
proof (cases "er_state r = Sync")
  case False
  then have "eti_step fresh r rest = Next (r\<lparr>er_state := Sync\<rparr>) rest"
    using assms(1) by (simp add: at_frame_start_def eti_step_def step_pad_def)
  then have "eti_loop fresh r rest = eti_loop fresh (r\<lparr>er_state := Sync\<rparr>) rest"
    using assms(2) by (rule eti_loop_Next [rotated])
  then show ?thesis using assms(1) by (intro exI [of _ "r\<lparr>er_state := Sync\<rparr>"]) (simp add: at_frame_start_def sources_match_def)
qed (use assms(1) in \<open>auto simp: at_frame_start_def\<close>)

lemma wf_frame_sizes:
  assumes "wf_frame f"
  shows "length (concat (ef_stc f)) = 4 * length (ef_stc f)"
    and "(of_nat (length (ef_pad f)) :: u16) = 6144 - 4 - 4 - of_nat (4 * length (ef_stc f)) - 4 -
      of_nat (length (ef_fic f)) - of_nat (length (concat (ef_mst f))) - 4 - 4"
    and "length (ef_pad f) < 65536"
    and "list_all (\<lambda>c. \<exists>s. stream_source (eti_STC_of c) = Inr s) (ef_stc f)"
proof -
  have "list_all (\<lambda>c. length c = 4) (ef_stc f)" using assms by (simp add: wf_frame_def)
  then show c: "length (concat (ef_stc f)) = 4 * length (ef_stc f)" 
    by (intro length_concat_same) (simp add: list_all_iff)
  have t: "6144 = 4 + 4 + 4 * length (ef_stc f) + 4 + length (ef_fic f) + length (concat (ef_mst f)) + 4 + 4 + length (ef_pad f)"
    using assms c by (simp add: wf_frame_def frame_bytes_def del: length_concat)
  then show "length (ef_pad f) < 65536" by linarith
  have "(6144 :: u16) = of_nat (4 + 4 + 4 * length (ef_stc f) + 4 + length (ef_fic f) + length (concat (ef_mst f)) + 4 + 4 + length (ef_pad f))"
    unfolding t [symmetric] by simp
  then show "(of_nat (length (ef_pad f)) :: u16) = 6144 - 4 - 4 - of_nat (4 * length (ef_stc f)) - 4 -
      of_nat (length (ef_fic f)) - of_nat (length (concat (ef_mst f))) - 4 - 4"
    by (simp only: of_nat_add of_nat_numeral) (simp add: algebra_simps del: of_nat_mult)
  show "list_all (\<lambda>c. \<exists>s. stream_source (eti_STC_of c) = Inr s) (ef_stc f)"
    using assms unfolding wf_frame_def by (auto simp: list_all2_conv_all_nth list_all_length)
qed

lemma source_sizes:
  assumes "list_all2 source_of ss (map eti_STC_of cs)"
    and "list_all2 (\<lambda>c d. \<exists>s. stream_source (eti_STC_of c) = Inr s \<and> length d = sc_framesize s) cs ds"
  shows "list_all2 (\<lambda>s d. length d = sc_framesize s) ss ds"
proof (rule list_all2_all_nthI)
  show len: "length ss = length ds" using assms [THEN list_all2_lengthD] by simp
  fix i assume i: "i < length ss"
  then have i': "i < length cs" using assms(1) [THEN list_all2_lengthD] by simp
  obtain s where s: "stream_source (eti_STC_of (cs ! i)) = Inr s" "length (ds ! i) = sc_framesize s"
    using list_all2_nthD [OF assms(2) i'] by blast
  have "source_of (ss ! i) (eti_STC_of (cs ! i))" using list_all2_nthD [OF assms(1) i] i' by simp
  then show "length (ds ! i) = sc_framesize (ss ! i)" using source_of_unique s by simp
qed

text \<open>The loop over a whole frame. The result is written out as the sequence of the record's updates.\<close>

lemma frame_loop:
  assumes "wf_frame f" and "er_state r = Sync" and "sources_match r"
  shows "\<exists>ss fs r'. eti_loop fresh r (frame_bytes f) = Next r' [] \<and>
    list_all2 source_of ss (map eti_STC_of (ef_stc f)) \<and> 
    er_stc r' = map eti_STC_of (ef_stc f) \<and> er_sources r' = map2 loadSubchannelData ss (ef_mst f) \<and>
    er_state r' = Pad \<and> er_framesize r' = 0 \<and> er_fc r' = eti_FC_of (ef_fc f) \<and> er_fc_valid r' \<and>
    er_eoh r' = eti_EOH_of (ef_eoh f) \<and> er_tist r' = le32 (ef_tist f) \<and> er_decoder r' = er_decoder r \<and>
    er_fic r' = Some (loadFicData fs (ef_fic f))"
proof -
  have w: "length (ef_sync f) = 4" "length (ef_fc f) = 4" "length (ef_eoh f) = 4" "length (ef_eof f) = 4"
    "length (ef_tist f) = 4" "list_all (\<lambda>c. length c = 4) (ef_stc f)" "fc_FICF (eti_FC_of (ef_fc f)) = 1"
    "fc_NST (eti_FC_of (ef_fc f)) = length (ef_stc f)"
    "length (ef_fic f) = (if fc_MID (eti_FC_of (ef_fc f)) = 3 then 128 else 96)"
    "list_all2 (\<lambda>c d. \<exists>s. stream_source (eti_STC_of c) = Inr s \<and> length d = sc_framesize s) (ef_stc f) (ef_mst f)"
    using assms(1) by (auto simp: wf_frame_def)
  have ne: "ef_sync f \<noteq> []" "ef_fc f \<noteq> []" "ef_eoh f \<noteq> []" "ef_fic f \<noteq> []" "ef_eof f \<noteq> []" "ef_tist f \<noteq> []"
    using w by (auto split: if_splits)
  define fc where "fc = eti_FC_of (ef_fc f)"
  define fs where "fs = (case er_fic r of None \<Rightarrow> FicSource 1 (fc_MID fc) fresh | Some f \<Rightarrow> f)"
  define r1 where "r1 = r\<lparr>er_framesize := 6144 - 4, er_sync := eti_SYNC_of (ef_sync f), er_state := Fc\<rparr>"
  define r2 where "r2 = r1\<lparr>er_fc := fc, er_fc_valid := True, er_framesize := er_framesize r1 - 4, er_state := Nst,
      er_fic := Some fs\<rparr>"
  define t7 where "t7 = ef_tist f @ ef_pad f"
  define t6 where "t6 = ef_eof f @ t7"
  define t5 where "t5 = concat (ef_mst f) @ t6"
  define t4 where "t4 = ef_fic f @ t5"
  define t3 where "t3 = ef_eoh f @ t4"
  define t2 where "t2 = concat (ef_stc f) @ t3"
  define t1 where "t1 = ef_fc f @ t2"
  have nonempty: "t1 \<noteq> []" "t2 \<noteq> []" "t3 \<noteq> []" "t4 \<noteq> []" "t5 \<noteq> []" "t6 \<noteq> []" "t7 \<noteq> []" "ef_sync f @ t1 \<noteq> []"
    using ne by (simp_all add: t1_def t2_def t3_def t4_def t5_def t6_def t7_def)
  have "\<exists>ss. list_all2 source_of ss (map eti_STC_of (ef_stc f)) \<and>
    eti_step fresh r2 (concat (ef_stc f) @ t3) =
      Next (r2\<lparr>er_stc := map eti_STC_of (ef_stc f), er_sources := ss,
              er_framesize := er_framesize r2 - of_nat (4 * length (ef_stc f)), er_state := Eoh\<rparr>) t3"
    using assms(3) w(8) by (intro nst_step w(6) wf_frame_sizes(4) [OF assms(1)])
      (simp_all add: r2_def r1_def fc_def sources_match_def)
  then obtain ss where ss: "list_all2 source_of ss (map eti_STC_of (ef_stc f))" and
    nst: "eti_step fresh r2 t2 =
      Next (r2\<lparr>er_stc := map eti_STC_of (ef_stc f), er_sources := ss,
              er_framesize := er_framesize r2 - of_nat (4 * length (ef_stc f)), er_state := Eoh\<rparr>) t3"
    unfolding t2_def by blast
  define r3 where "r3 = r2\<lparr>er_stc := map eti_STC_of (ef_stc f), er_sources := ss,
              er_framesize := er_framesize r2 - of_nat (4 * length (ef_stc f)), er_state := Eoh\<rparr>"
  define r4 where "r4 = r3\<lparr>er_eoh := eti_EOH_of (ef_eoh f), er_framesize := er_framesize r3 - 4, er_state := Fic\<rparr>"
  define r5 where "r5 = r4\<lparr>er_fic := Some (loadFicData fs (ef_fic f)),
      er_framesize := er_framesize r4 - of_nat (length (ef_fic f)), er_state := Subch\<rparr>"
  define r6 where "r6 = r5\<lparr>er_sources := map2 loadSubchannelData (er_sources r5) (ef_mst f),
      er_framesize := er_framesize r5 - of_nat (length (concat (ef_mst f))), er_state := Eof\<rparr>"
  define r7 where "r7 = r6\<lparr>er_eof := eti_EOF_of (ef_eof f), er_framesize := er_framesize r6 - 4, er_state := Tist\<rparr>"
  define r8 where "r8 = r7\<lparr>er_tist := le32 (ef_tist f), er_framesize := er_framesize r7 - 4, er_state := Pad\<rparr>"
  have sizes: "list_all2 (\<lambda>s d. length d = sc_framesize s) ss (ef_mst f)"
    by (rule source_sizes [OF ss w(10)])
  have "eti_loop fresh r (frame_bytes f) = eti_loop fresh r (ef_sync f @ t1)"
    by (simp add: frame_bytes_def t1_def t2_def t3_def t4_def t5_def t6_def t7_def)
  also have "\<dots> = eti_loop fresh r1 t1"
    unfolding r1_def by (intro eti_loop_Next word_steps w nonempty assms)
  also have "\<dots> = eti_loop fresh r2 t2"
    using w(7) unfolding t1_def by (intro eti_loop_Next nonempty(1) [unfolded t1_def])
      (simp add: word_steps(2) [OF w(2)] r1_def r2_def fc_def fs_def cong: option.case_cong)
  also have "\<dots> = eti_loop fresh r3 t3"
    unfolding r3_def by (intro eti_loop_Next nst nonempty)
  also have "\<dots> = eti_loop fresh r4 t4"
    unfolding t3_def r4_def by (intro eti_loop_Next word_steps w nonempty [unfolded t3_def]) (simp add: r3_def)
  also have "\<dots> = eti_loop fresh r5 t5"
    unfolding t4_def r5_def by (intro eti_loop_Next fic_step nonempty [unfolded t4_def])
      (use w(9) in \<open>simp_all add: r4_def r3_def r2_def fc_def\<close>)
  also have "\<dots> = eti_loop fresh r6 t6"
    unfolding t5_def r6_def by (intro eti_loop_Next subch_step nonempty [unfolded t5_def])
      (use sizes list_all2_lengthD [OF ss] in \<open>simp_all add: r5_def r4_def r3_def\<close>)
  also have "\<dots> = eti_loop fresh r7 t7"
    unfolding t6_def r7_def by (intro eti_loop_Next word_steps w nonempty [unfolded t6_def]) (simp add: r6_def)
  also have "\<dots> = eti_loop fresh r8 (ef_pad f)"
    unfolding t7_def r8_def by (intro eti_loop_Next word_steps w nonempty [unfolded t7_def]) (simp add: r7_def)
  also have "\<dots> = Next (r8\<lparr>er_framesize := 0\<rparr>) []"
    by (rule pad_loop) (use wf_frame_sizes(2,3) [OF assms(1)] in
      \<open>simp_all add: r8_def r7_def r6_def r5_def r4_def r3_def r2_def r1_def\<close>)
  finally have "eti_loop fresh r (frame_bytes f) = Next (r8\<lparr>er_framesize := 0\<rparr>) []" .
  then show ?thesis using ss
    by (intro exI [of _ ss] exI [of _ fs] exI [of _ "r8\<lparr>er_framesize := 0\<rparr>"])
      (simp add: r8_def r7_def r6_def r5_def r4_def r3_def r2_def r1_def fc_def)
qed

lemma loaded_sources:
  assumes "list_all2 source_of ss (map eti_STC_of cs)" and "length ds = length cs"
  shows "list_all2 source_of (map2 loadSubchannelData ss ds) (map eti_STC_of cs)"
    and "list_all2 (\<lambda>s (c, d). delivers s c d) (map2 loadSubchannelData ss ds) (zip cs ds)"
  using assms
  by (auto simp: list_all2_conv_all_nth delivers_def source_of_def loadSubchannelData_def)

text \<open>The clock update that a frame causes.\<close>

definition frame_clock :: "eti_frame \<Rightarrow> timestamp_decoder \<Rightarrow> timestamp_decoder" where
  "frame_clock f td =
     (let tist = ntohl (le32 (ef_tist f)) AND 0xFFFFFF;
          fc = eti_FC_of (ef_fc f)
      in updateTimestampEti td (fc_FP fc mod 4) (eoh_MNSC (eti_EOH_of (ef_eoh f)))
           (if tist = 0xFFFFFF then 0 else tist) (int (fc_FCT fc)))"

definition frame_loaded :: "(rat \<Rightarrow> rat \<Rightarrow> rat) \<Rightarrow> timestamp_decoder \<Rightarrow> eti_frame \<Rightarrow> eti_reader \<Rightarrow> bool" where
  "frame_loaded dmul td f r =
     (at_frame_start r \<and> er_fc r = eti_FC_of (ef_fc f) \<and> er_fc_valid r \<and>
      er_stc r = map eti_STC_of (ef_stc f) \<and>
      list_all2 (\<lambda>s (c, d). delivers s c d) (er_sources r) (zip (ef_stc f) (ef_mst f)) \<and>
      (\<exists>fs. er_fic r = Some fs \<and> fs_buffer fs = ef_fic f \<and>
         fs_ts fs = Some (snd (getTimestamp dmul (frame_clock f td)))) \<and>
      er_decoder r = fst (getTimestamp dmul (frame_clock f td)))"

lemma load_frame:
  assumes "wf_frame f" and "at_frame_start r"
  shows "\<exists>r'. loadEtiData dmul fresh r (frame_bytes f) = (r', Inr 6144) \<and> frame_loaded dmul (er_decoder r) f r'"
proof -
  have len: "length (frame_bytes f) = 6144" using assms(1) by (simp add: wf_frame_def)
  have "frame_bytes f \<noteq> []" using len by auto
  from frame_loop_start [OF assms(2) this] obtain r0 where r0:
    "eti_loop fresh r (frame_bytes f) = eti_loop fresh r0 (frame_bytes f)" "er_state r0 = Sync"
    "sources_match r0" "er_decoder r0 = er_decoder r" by blast
  obtain ss fs r1 where l: "eti_loop fresh r0 (frame_bytes f) = Next r1 []"
    "list_all2 source_of ss (map eti_STC_of (ef_stc f))"
    "er_stc r1 = map eti_STC_of (ef_stc f)" "er_sources r1 = map2 loadSubchannelData ss (ef_mst f)"
    "er_state r1 = Pad" "er_framesize r1 = 0" "er_fc r1 = eti_FC_of (ef_fc f)" "er_fc_valid r1"
    "er_eoh r1 = eti_EOH_of (ef_eoh f)" "er_tist r1 = le32 (ef_tist f)" "er_decoder r1 = er_decoder r0"
    "er_fic r1 = Some (loadFicData fs (ef_fic f))" using frame_loop [OF assms(1) r0(2,3)] by blast
  have n: "length (ef_mst f) = length (ef_stc f)"
    using assms(1) list_all2_lengthD by (fastforce simp: wf_frame_def)
  obtain td ts where g: "getTimestamp dmul (frame_clock f (er_decoder r)) = (td, ts)" by fastforce
  have c: "updateTimestampEti (er_decoder r1) (fc_FP (er_fc r1) mod 4) (eoh_MNSC (er_eoh r1)) (getPPSOffset r1)
      (int (fc_FCT (er_fc r1))) = frame_clock f (er_decoder r)"
    by (simp add: frame_clock_def getPPSOffset_def Let_def l(7,9-11) r0(4))
  let ?r = "r1\<lparr>er_decoder := td, er_fic := Some (loadTimestamp (loadFicData fs (ef_fic f)) ts)\<rparr>"
  have "loadEtiData dmul fresh r (frame_bytes f) = (?r, Inr 6144)"
    unfolding loadEtiData_def r0(1) l(1) by (simp add: c l(12) eti_getTimestamp_def g len)
  moreover have "frame_loaded dmul (er_decoder r) f ?r"
    using loaded_sources [OF l(2) n] l
    by (simp add: frame_loaded_def at_frame_start_def sources_match_def g loadTimestamp_def loadFicData_def)
  ultimately show ?thesis by blast
qed

section \<open>A stream of frames\<close>

fun load_frames ::
    "(rat \<Rightarrow> rat \<Rightarrow> rat) \<Rightarrow> (nat \<Rightarrow> bytes) \<Rightarrow> eti_reader \<Rightarrow> bytes list \<Rightarrow> eti_reader \<times> nat result list" where
  "load_frames dmul fresh r [] = (r, [])"
| "load_frames dmul fresh r (b # bs) =
     (let (r, x) = loadEtiData dmul fresh r b; (r, xs) = load_frames dmul fresh r bs in (r, x # xs))"

fun frames_clock :: "(rat \<Rightarrow> rat \<Rightarrow> rat) \<Rightarrow> eti_frame list \<Rightarrow> timestamp_decoder \<Rightarrow> timestamp_decoder" where
  "frames_clock dmul [] td = td"
| "frames_clock dmul (f # fs) td = frames_clock dmul fs (fst (getTimestamp dmul (frame_clock f td)))"

lemma frame_loaded_start: "frame_loaded dmul td f r \<Longrightarrow> at_frame_start r"
  by (simp add: frame_loaded_def)

lemma load_frames_ok:
  assumes "list_all wf_frame fs" and "at_frame_start r" and "fs \<noteq> []"
  shows "\<exists>r'. load_frames dmul fresh r (map frame_bytes fs) = (r', replicate (length fs) (Inr 6144)) \<and>
    frame_loaded dmul (frames_clock dmul (butlast fs) (er_decoder r)) (last fs) r'"
  using assms
proof (induction fs arbitrary: r)
  case (Cons f fs)
  then obtain r1 where r1: "loadEtiData dmul fresh r (frame_bytes f) = (r1, Inr 6144)" "frame_loaded dmul (er_decoder r) f r1"
    using load_frame [of f r dmul fresh] by auto
  show ?case
  proof (cases "fs = []")
    case False
    then obtain r' where "load_frames dmul fresh r1 (map frame_bytes fs) = (r', replicate (length fs) (Inr 6144))"
      "frame_loaded dmul (frames_clock dmul (butlast fs) (er_decoder r1)) (last fs) r'"
      using Cons frame_loaded_start [OF r1(2)] by auto
    then show ?thesis using r1 False by (auto simp: frame_loaded_def)
  qed (use r1 in simp)
qed simp

lemma new_reader_start: "at_frame_start (EtiReader junk off)" "er_decoder (EtiReader junk off) = TimestampDecoder off"
  by (simp_all add: at_frame_start_def EtiReader_def sources_match_def)

section \<open>Reachable readers\<close>

text \<open>
  The states between calls. A call that throws ends the modulator, so only the others count.
\<close>

inductive eti_reach :: "(rat \<Rightarrow> rat \<Rightarrow> rat) \<Rightarrow> (nat \<Rightarrow> bytes) \<Rightarrow> eti_reader \<Rightarrow> bool"
  for dmul :: "rat \<Rightarrow> rat \<Rightarrow> rat" and fresh :: "nat \<Rightarrow> bytes" where
  new: "eti_reach dmul fresh (EtiReader junk off)"
| call: "eti_reach dmul fresh r \<Longrightarrow> loadEtiData dmul fresh r data = (r', Inr n) \<Longrightarrow> eti_reach dmul fresh r'"

definition safe_reader :: "eti_reader \<Rightarrow> bool" where
  "safe_reader r =
     (sources_match r \<and> (er_fic r = None \<longrightarrow> er_state r = Sync \<or> er_state r = Fc) \<and>
      er_state r \<noteq> NbFrame \<and> er_state r \<noteq> FrameSize)"

lemma make_sources_match: "make_sources cs = (ss, None) \<Longrightarrow> list_all2 source_of ss cs"
proof (induction cs arbitrary: ss)
  case (Cons c cs)
  then obtain s ss' where "SubchannelSource (getStartAddress c) (getSTL c) (of_nat (stc_TPL c)) = Inr s"
    "make_sources cs = (ss', None)" "ss = s # ss'"
    by (auto split: sum.splits prod.splits)
  then show ?case using Cons.IH stream_source_of by (simp add: stream_source_def)
qed simp

lemma subch_loop_match:
  "list_all2 source_of ss cs \<Longrightarrow> for_each subch_body is (ss, fs, ins) = Inr (ss', fs', ins') \<Longrightarrow>
     list_all2 source_of ss' cs"
proof (induction "is" arbitrary: ss fs ins)
  case Nil
  then show ?case by simp
next
  case (Cons i "is")
  from Cons.prems(2) obtain ss1 fs1 ins1 where 1: "subch_body i (ss, fs, ins) = Inr (ss1, fs1, ins1)"
    "for_each subch_body is (ss1, fs1, ins1) = Inr (ss', fs', ins')"
    by (auto split: sum.splits)
  from 1(1) obtain d where d: "ss1 = ss[i := loadSubchannelData (ss ! i) d]" "i < length ss"
    by (auto simp: subch_body_def bindE_Inr_iff rd_def split: if_splits)
  have "list_all2 source_of ss1 cs"
    using Cons.prems(1) d unfolding list_all2_conv_all_nth
    by (auto simp: nth_list_update source_of_def loadSubchannelData_def)
  then show ?case using Cons.IH 1(2) by blast
qed

text \<open>An iteration keeps the invariant, or is the one unchecked read.\<close>

definition safe_outcome :: "eti_outcome \<Rightarrow> bool" where
  "safe_outcome res =
     (case res of
        Next r _ \<Rightarrow> safe_reader r
      | Wait r _ \<Rightarrow> safe_reader r
      | Raise r e \<Rightarrow> (case e of UndefinedBehaviour s \<Rightarrow> er_state r = Subch \<and> s = ''read'' | _ \<Rightarrow> True))"

lemma eep_rules_errors:
  "eep_rules_A br lv = Inl e \<Longrightarrow> \<exists>m. e = RuntimeError m"
  "eep_rules_B br lv = Inl e \<Longrightarrow> \<exists>m. e = RuntimeError m"
  by (auto simp: eep_rules_A_def eep_rules_B_def split: if_splits)

lemma make_sources_error: "make_sources cs = (ss, Some e) \<Longrightarrow> \<exists>m. e = RuntimeError m"
proof (induction cs arbitrary: ss)
  case (Cons c cs)
  show ?case
  proof (cases "SubchannelSource (getStartAddress c) (getSTL c) (of_nat (stc_TPL c))")
    case (Inl e')
    then have "\<exists>m. e' = RuntimeError m"
      by (auto simp: SubchannelSource_def Let_def bindE_def eep_rules_errors
          split: sum.splits if_splits option.splits dest: eep_rules_errors)
    then show ?thesis using Cons.prems Inl by simp
  next
    case (Inr s)
    then show ?thesis using Cons by (auto split: prod.splits)
  qed
qed simp

lemma subch_loop_error:
  "length ss = n \<Longrightarrow> \<forall>i \<in> set is. i < n \<Longrightarrow> for_each subch_body is (ss, fs, ins) = Inl e \<Longrightarrow>
     e = UndefinedBehaviour ''read''"
proof (induction "is" arbitrary: ss fs ins)
  case (Cons i "is")
  show ?case
  proof (cases "subch_body i (ss, fs, ins)")
    case (Inl e')
    then have "e' = UndefinedBehaviour ''read''"
      using Cons.prems by (auto simp: subch_body_def bindE_def memread_def split: if_splits)
    then show ?thesis using Inl Cons.prems(3) by simp
  next
    case (Inr x)
    then obtain ss1 fs1 ins1 where x: "x = (ss1, fs1, ins1)" "length ss1 = n"
      using Cons.prems(1) by (auto simp: subch_body_def bindE_Inr_iff)
    then show ?thesis using Cons.IH [of ss1 fs1 ins1] Cons.prems Inr by simp
  qed
qed simp

lemma eti_step_safe:
  assumes "safe_reader r"
  shows "safe_outcome (eti_step fresh r ins)"
proof (cases "er_state r")
  case Nst
  obtain ss e where m: "make_sources (map (\<lambda>i. eti_STC_of (take 4 (drop (4 * i) ins))) [0..<fc_NST (er_fc r)]) = (ss, e)"
    by fastforce
  show ?thesis
  proof (cases e)
    case None
    then show ?thesis using Nst assms make_sources_match m
      by (auto simp: eti_step_def step_nst_def safe_outcome_def safe_reader_def sources_match_def Let_def)
  next
    case (Some e')
    then obtain msg where "e' = RuntimeError msg" using make_sources_error m by blast
    then show ?thesis using Nst assms Some m
      by (auto simp: eti_step_def step_nst_def safe_outcome_def safe_reader_def sources_match_def Let_def)
  qed
next
  case Fic
  then show ?thesis using assms
    by (auto simp: eti_step_def step_fic_def safe_outcome_def safe_reader_def sources_match_def Let_def split: option.splits)
next
  case Subch
  have len: "length (er_sources r) = length (er_stc r)"
    using assms by (auto simp: safe_reader_def sources_match_def dest: list_all2_lengthD)
  show ?thesis
  proof (cases "for_each subch_body [0..<length (er_stc r)] (er_sources r, er_framesize r, ins)")
    case (Inl e)
    have "e = UndefinedBehaviour ''read''" by (rule subch_loop_error [OF len _ Inl]) simp
    then show ?thesis using Inl Subch by (simp add: eti_step_def step_subch_def safe_outcome_def)
  next
    case (Inr x)
    obtain ss1 fs1 ins1 where x: "x = (ss1, fs1, ins1)" by (cases x)
    then have "list_all2 source_of ss1 (er_stc r)"
      using subch_loop_match Inr assms by (auto simp: safe_reader_def sources_match_def)
    then show ?thesis using Inr Subch assms x
      by (auto simp: eti_step_def step_subch_def safe_outcome_def safe_reader_def sources_match_def)
  qed
qed (use assms in \<open>auto simp: eti_step_def step_sync_def step_fc_def step_eoh_def step_eof_def step_tist_def step_pad_def
      safe_outcome_def safe_reader_def sources_match_def Let_def\<close>)

lemma eti_loop_safe: "safe_reader r \<Longrightarrow> safe_outcome (eti_loop fresh r ins)"
proof (induction fresh r ins rule: eti_loop.induct)
  case (1 fresh r ins)
  show ?case
  proof (cases "ins = []")
    case True
    then show ?thesis using "1.prems" by (simp add: eti_loop_Nil safe_outcome_def)
  next
    case False
    have "safe_outcome (eti_step fresh r ins)" by (rule eti_step_safe [OF "1.prems"])
    then show ?thesis using "1.IH" [OF False] False
      by (cases "eti_step fresh r ins") (simp_all add: eti_loop.simps [of fresh r ins] safe_outcome_def)
  qed
qed

lemma eti_reach_safe: "eti_reach dmul fresh r \<Longrightarrow> safe_reader r"
proof (induction rule: eti_reach.induct)
  case (new junk off)
  then show ?case by (simp add: safe_reader_def sources_match_def EtiReader_def)
next
  case (call r data r' n)
  then show ?case using eti_loop_safe [OF call.IH, of fresh data]
    by (cases "eti_loop fresh r data")
      (auto simp: loadEtiData_def safe_outcome_def safe_reader_def sources_match_def Let_def eti_getTimestamp_def
        split: option.splits prod.splits)
qed

section \<open>Properties\<close>

text \<open>
  C8. From a new reader any sequence of well-formed 6144-byte frames is consumed completely, one
  per call, and after the last frame the information channel, every subchannel and the time stamp
  are that frame's.
\<close>

theorem eti_stream_decoded:
  assumes "list_all wf_frame fs" and "fs \<noteq> []"
  shows "\<exists>r. load_frames dmul fresh (EtiReader junk off) (map frame_bytes fs) = (r, replicate (length fs) (Inr 6144)) \<and>
    frame_loaded dmul (frames_clock dmul (butlast fs) (TimestampDecoder off)) (last fs) r"
  using load_frames_ok [OF assms(1) new_reader_start(1) assms(2)] new_reader_start(2) by simp

text \<open>
  Whatever bytes it is given, the loop ends, and the only undefined behaviour a call can run
  into is the read of a subchannel's data past the end of the input, or, if the input ends before
  the first frame characterisation is read, the use of the missing information channel.
\<close>

lemma eti_reader_unsafe_read:
  assumes "eti_reach dmul fresh r" and "loadEtiData dmul fresh r data = (r', Inl (UndefinedBehaviour s))"
  shows "er_state r' = Subch \<and> s = ''read'' \<or> er_fic r' = None \<and> er_state r' \<in> {Sync, Fc}"
proof -
  note safe = eti_loop_safe [OF eti_reach_safe [OF assms(1)], of fresh data]
  show ?thesis
  proof (cases "eti_loop fresh r data")
    case (Next r1 ins1)
    then show ?thesis using assms(2) safe
      by (auto simp: loadEtiData_def safe_outcome_def safe_reader_def Let_def split: option.splits prod.splits)
  next
    case (Wait r1 ins1)
    then show ?thesis using assms(2) by (simp add: loadEtiData_def)
  next
    case (Raise r1 e)
    then show ?thesis using assms(2) safe by (simp add: loadEtiData_def safe_outcome_def)
  qed
qed

definition overlong_frame :: bytes where
  "overlong_frame =
     [0xff, 0x07, 0x3a, 0xb6] @ [0, 0x81, 0x08, 0] @ concat [[0, 0, 0x8b, 0xf0]] @ [0, 0, 0, 0] @
     replicate 96 0 @ replicate 6032 0"

text \<open>
  That read does happen: in a frame of the size the modulator passes, a stream length of 1008
  (in 64-bit words) with a protection level the constructor accepts makes the reader copy 8064
  bytes although 6032 are left, from a reader in its initial state.
\<close>

lemma eti_reader_overread:
  "length overlong_frame = 6144 \<and>
   snd (loadEtiData dmul fresh (EtiReader junk off) overlong_frame) = Inl (UndefinedBehaviour ''read'')"
proof -
  let ?c = "[0, 0, 0x8b, 0xf0] :: bytes"
  let ?fc = "[0, 0x81, 0x08, 0] :: bytes"
  have fc: "fc_FICF (eti_FC_of ?fc) = 1" "fc_NST (eti_FC_of ?fc) = 1" "fc_MID (eti_FC_of ?fc) = 1"
    by (simp_all add: eti_FC_of_def bitfield_def)
  obtain s where s: "stream_source (eti_STC_of ?c) = Inr s" "sc_framesize s = 8064"
    by (simp add: stream_source_def eti_STC_of_def bitfield_def getSTL_def getStartAddress_def SubchannelSource_def
        protectionForm_def protectionOption_def protectionLevel_def bitrate_def eep_rules_A_def)
  let ?t4 = "replicate 6032 0 :: bytes"
  let ?t3 = "replicate 96 0 @ ?t4"
  let ?t2 = "[0, 0, 0, 0] @ ?t3"
  let ?t1 = "concat [?c] @ ?t2"
  let ?t0 = "?fc @ ?t1"
  let ?r = "EtiReader junk off"
  define r1 where "r1 = ?r\<lparr>er_framesize := 6144 - 4, er_sync := eti_SYNC_of [0xff, 0x07, 0x3a, 0xb6], er_state := Fc\<rparr>"
  have st: "er_state ?r = Sync" "er_fic ?r = None" "er_sources ?r = []" "er_stc ?r = []" by (simp_all add: EtiReader_def)
  have "eti_loop fresh ?r overlong_frame = eti_loop fresh r1 ?t0"
    unfolding overlong_frame_def r1_def by (intro eti_loop_Next word_steps(1) st) simp_all
  also obtain r2 where "eti_loop fresh r1 ?t0 = eti_loop fresh r2 ?t1" and
    r2: "er_state r2 = Nst" "sources_match r2" "fc_NST (er_fc r2) = 1" "fc_MID (er_fc r2) = 1" "er_fic r2 \<noteq> None"
    using eti_loop_Next [OF _ word_steps(2) [of ?fc r1 fresh ?t1]] fc st
    by (simp add: r1_def sources_match_def)
  note this(1)
  also obtain ss r3 where "eti_loop fresh r2 ?t1 = eti_loop fresh r3 ?t2" and
    r3: "er_state r3 = Eoh" "er_sources r3 = ss" "er_stc r3 = [eti_STC_of ?c]" "er_fc r3 = er_fc r2"
      "er_fic r3 = er_fic r2" "list_all2 source_of ss [eti_STC_of ?c]"
    using nst_step [OF r2(1,2), of "[?c]" fresh ?t2] r2(3) s(1)
      eti_loop_Next [of ?t1 fresh r2] by fastforce
  note this(1)
  also obtain r4 where "eti_loop fresh r3 ?t2 = eti_loop fresh r4 ?t3" and
    r4: "er_state r4 = Fic" "er_sources r4 = ss" "er_stc r4 = [eti_STC_of ?c]" "er_fc r4 = er_fc r2" "er_fic r4 = er_fic r2"
    using eti_loop_Next [OF _ word_steps(3) [of "[0, 0, 0, 0]" r3 fresh ?t3]] r3 by simp
  note this(1)
  also obtain r5 where "eti_loop fresh r4 ?t3 = eti_loop fresh r5 ?t4" and
    r5: "er_state r5 = Subch" "er_sources r5 = ss" "er_stc r5 = [eti_STC_of ?c]"
    using eti_loop_Next [OF _ fic_step [OF r4(1), of _ "replicate 96 0" fresh ?t4]] r4 r2(4,5) by fastforce
  note this(1)
  also have "eti_loop fresh r5 ?t4 = Raise r5 (UndefinedBehaviour ''read'')"
  proof -
    obtain s' where s': "ss = [s']" "source_of s' (eti_STC_of ?c)" using r3(6) by (auto simp: list_all2_Cons2)
    then have "sc_framesize s' = 8064" using source_of_unique s by simp
    then have "eti_step fresh r5 ?t4 = Raise r5 (UndefinedBehaviour ''read'')"
      using r5 s' by (simp add: eti_step_def step_subch_def subch_body_def memread_def)
    moreover have "?t4 \<noteq> []" by simp
    ultimately show ?thesis by (simp only: eti_loop.simps [of fresh r5 ?t4] eti_outcome.case if_False)
  qed
  finally show ?thesis by (simp add: loadEtiData_def) (simp add: overlong_frame_def)
qed

definition example_frame :: eti_frame where
  "example_frame = \<lparr>ef_sync = [0xff, 0x07, 0x3a, 0xb6], ef_fc = [5, 0x81, 0x08, 0], ef_stc = [[0, 0, 0x88, 24]],
     ef_eoh = [0, 0, 0, 0], ef_fic = replicate 96 1, ef_mst = [replicate 192 2], ef_eof = [0, 0, 0, 0],
     ef_tist = [0, 0, 0, 9], ef_pad = replicate 5832 0x55\<rparr>"

lemma example_frame_wf: "wf_frame example_frame"
proof -
  have "\<exists>s. stream_source (eti_STC_of [0, 0, 0x88, 24]) = Inr s \<and> 192 = sc_framesize s"
    by (simp add: stream_source_def eti_STC_of_def bitfield_def getSTL_def getStartAddress_def SubchannelSource_def
        protectionForm_def protectionOption_def protectionLevel_def bitrate_def eep_rules_A_def)
  then show ?thesis
    by (simp add: wf_frame_def example_frame_def frame_bytes_def eti_FC_of_def bitfield_def)
qed

theorem eti_stream_decoded_witness:
  "\<forall>junk. \<exists>r. load_frames (*) (\<lambda>n. replicate n 0) (EtiReader junk 0) (map frame_bytes [example_frame, example_frame]) =
     (r, [Inr 6144, Inr 6144]) \<and> er_fc_valid r \<and> fc_FCT (er_fc r) = 5"
proof
  fix junk
  let ?fs = "[example_frame, example_frame]"
  have "list_all wf_frame ?fs" "?fs \<noteq> []" using example_frame_wf by simp_all
  from eti_stream_decoded [OF this, of "(*)" "\<lambda>n. replicate n 0" junk 0] obtain r where
    "load_frames (*) (\<lambda>n. replicate n 0) (EtiReader junk 0) (map frame_bytes ?fs) = (r, replicate (length ?fs) (Inr 6144))"
    "frame_loaded (*) (frames_clock (*) (butlast ?fs) (TimestampDecoder 0)) (last ?fs) r" by blast
  moreover from this(2) have "er_fc_valid r" "er_fc r = eti_FC_of (ef_fc example_frame)"
    by (simp_all add: frame_loaded_def)
  moreover have "fc_FCT (eti_FC_of (ef_fc example_frame)) = 5" by (simp add: example_frame_def eti_FC_of_def)
  moreover have "replicate (length ?fs) (Inr 6144) = ([Inr 6144, Inr 6144] :: nat result list)"
    by (simp add: numeral_2_eq_2)
  ultimately show "\<exists>r. load_frames (*) (\<lambda>n. replicate n 0) (EtiReader junk 0) (map frame_bytes ?fs) =
     (r, [Inr 6144, Inr 6144]) \<and> er_fc_valid r \<and> fc_FCT (er_fc r) = 5" by (intro exI [of _ r]) (simp only: simp_thms)
qed

lemma eti_reader_unsafe_read_witness:
  "\<forall>junk. \<exists>r' s. loadEtiData (*) (\<lambda>n. replicate n 0) (EtiReader junk 0) [] = (r', Inl (UndefinedBehaviour s)) \<and>
     er_fic r' = None"
proof
  fix junk
  obtain r' s where l: "loadEtiData (*) (\<lambda>n. replicate n 0) (EtiReader junk 0) [] = (r', Inl (UndefinedBehaviour s))"
    by (simp add: loadEtiData_def eti_loop_Nil EtiReader_def)
  have "er_state r' = Sync"
    using l by (simp add: loadEtiData_def eti_loop_Nil EtiReader_def) auto
  with eti_reader_unsafe_read [OF eti_reach.new l] l
  show "\<exists>r' s. loadEtiData (*) (\<lambda>n. replicate n 0) (EtiReader junk 0) [] = (r', Inl (UndefinedBehaviour s)) \<and>
     er_fic r' = None" by auto
qed

end
