(* ===== verification/Crc.thy ===== *)
theory Crc
  imports Gf2_Linear
begin

text \<open>
  The 16-bit cyclic redundancy check of the EDI packets: \<open>lib/crc.c\<close> (table and table-driven
  update), the big-endian reads of \<open>lib/edi/buffer_unpack.hpp\<close>, and \<open>checkCRC\<close> of
  \<open>lib/edi/PFT.cpp\<close>. The table is that of the generator 0x1021, so the update is eight steps of
  the bit-serial register, and an error in one byte is always found.
\<close>

section \<open>Reading integers\<close>

definition read_16b :: "bytes \<Rightarrow> nat \<Rightarrow> u16 result" where
  "read_16b buf off =
     bindE (rd buf off) (\<lambda>a. bindE (rd buf (off + 1)) (\<lambda>b.
     Inr (shl (ucast a) 8 OR ucast b)))"

definition read_24b :: "bytes \<Rightarrow> nat \<Rightarrow> u32 result" where
  "read_24b buf off =
     bindE (rd buf off) (\<lambda>a. bindE (rd buf (off + 1)) (\<lambda>b. bindE (rd buf (off + 2)) (\<lambda>c.
     Inr (shl (ucast a) 16 OR shl (ucast b) 8 OR ucast c))))"

definition read_32b :: "bytes \<Rightarrow> nat \<Rightarrow> u32 result" where
  "read_32b buf off =
     bindE (rd buf off) (\<lambda>a. bindE (rd buf (off + 1)) (\<lambda>b. bindE (rd buf (off + 2)) (\<lambda>c.
     bindE (rd buf (off + 3)) (\<lambda>d.
     Inr (shl (ucast a) 24 OR shl (ucast b) 16 OR shl (ucast c) 8 OR ucast d)))))"

text \<open>The comparison is with the shift, not with zero; it is right because \<open>k < 2 ^ k\<close>.\<close>

definition unpack1bit :: "u8 \<Rightarrow> nat \<Rightarrow> bool" where
  "unpack1bit byte bitpos = (unat (byte AND shl 1 (7 - bitpos)) > 7 - bitpos)"

section \<open>The check\<close>

definition crc16tab :: "u16 list" where
  "crc16tab =
     [0x0000, 0x1021, 0x2042, 0x3063, 0x4084, 0x50a5, 0x60c6, 0x70e7,
      0x8108, 0x9129, 0xa14a, 0xb16b, 0xc18c, 0xd1ad, 0xe1ce, 0xf1ef,
      0x1231, 0x0210, 0x3273, 0x2252, 0x52b5, 0x4294, 0x72f7, 0x62d6,
      0x9339, 0x8318, 0xb37b, 0xa35a, 0xd3bd, 0xc39c, 0xf3ff, 0xe3de,
      0x2462, 0x3443, 0x0420, 0x1401, 0x64e6, 0x74c7, 0x44a4, 0x5485,
      0xa56a, 0xb54b, 0x8528, 0x9509, 0xe5ee, 0xf5cf, 0xc5ac, 0xd58d,
      0x3653, 0x2672, 0x1611, 0x0630, 0x76d7, 0x66f6, 0x5695, 0x46b4,
      0xb75b, 0xa77a, 0x9719, 0x8738, 0xf7df, 0xe7fe, 0xd79d, 0xc7bc,
      0x48c4, 0x58e5, 0x6886, 0x78a7, 0x0840, 0x1861, 0x2802, 0x3823,
      0xc9cc, 0xd9ed, 0xe98e, 0xf9af, 0x8948, 0x9969, 0xa90a, 0xb92b,
      0x5af5, 0x4ad4, 0x7ab7, 0x6a96, 0x1a71, 0x0a50, 0x3a33, 0x2a12,
      0xdbfd, 0xcbdc, 0xfbbf, 0xeb9e, 0x9b79, 0x8b58, 0xbb3b, 0xab1a,
      0x6ca6, 0x7c87, 0x4ce4, 0x5cc5, 0x2c22, 0x3c03, 0x0c60, 0x1c41,
      0xedae, 0xfd8f, 0xcdec, 0xddcd, 0xad2a, 0xbd0b, 0x8d68, 0x9d49,
      0x7e97, 0x6eb6, 0x5ed5, 0x4ef4, 0x3e13, 0x2e32, 0x1e51, 0x0e70,
      0xff9f, 0xefbe, 0xdfdd, 0xcffc, 0xbf1b, 0xaf3a, 0x9f59, 0x8f78,
      0x9188, 0x81a9, 0xb1ca, 0xa1eb, 0xd10c, 0xc12d, 0xf14e, 0xe16f,
      0x1080, 0x00a1, 0x30c2, 0x20e3, 0x5004, 0x4025, 0x7046, 0x6067,
      0x83b9, 0x9398, 0xa3fb, 0xb3da, 0xc33d, 0xd31c, 0xe37f, 0xf35e,
      0x02b1, 0x1290, 0x22f3, 0x32d2, 0x4235, 0x5214, 0x6277, 0x7256,
      0xb5ea, 0xa5cb, 0x95a8, 0x8589, 0xf56e, 0xe54f, 0xd52c, 0xc50d,
      0x34e2, 0x24c3, 0x14a0, 0x0481, 0x7466, 0x6447, 0x5424, 0x4405,
      0xa7db, 0xb7fa, 0x8799, 0x97b8, 0xe75f, 0xf77e, 0xc71d, 0xd73c,
      0x26d3, 0x36f2, 0x0691, 0x16b0, 0x6657, 0x7676, 0x4615, 0x5634,
      0xd94c, 0xc96d, 0xf90e, 0xe92f, 0x99c8, 0x89e9, 0xb98a, 0xa9ab,
      0x5844, 0x4865, 0x7806, 0x6827, 0x18c0, 0x08e1, 0x3882, 0x28a3,
      0xcb7d, 0xdb5c, 0xeb3f, 0xfb1e, 0x8bf9, 0x9bd8, 0xabbb, 0xbb9a,
      0x4a75, 0x5a54, 0x6a37, 0x7a16, 0x0af1, 0x1ad0, 0x2ab3, 0x3a92,
      0xfd2e, 0xed0f, 0xdd6c, 0xcd4d, 0xbdaa, 0xad8b, 0x9de8, 0x8dc9,
      0x7c26, 0x6c07, 0x5c64, 0x4c45, 0x3ca2, 0x2c83, 0x1ce0, 0x0cc1,
      0xef1f, 0xff3e, 0xcf5d, 0xdf7c, 0xaf9b, 0xbfba, 0x8fd9, 0x9ff8,
      0x6e17, 0x7e36, 0x4e55, 0x5e74, 0x2e93, 0x3eb2, 0x0ed1, 0x1ef0]"

definition crc16_byte :: "u16 \<Rightarrow> u8 \<Rightarrow> u16" where
  "crc16_byte l_crc b = shl l_crc 8 XOR crc16tab ! unat ((ucast (shr l_crc 8) :: u8) XOR b)"

definition crc16 :: "u16 \<Rightarrow> bytes \<Rightarrow> u16" where
  "crc16 l_crc data = foldl crc16_byte l_crc data"

definition checkCRC :: "bytes \<Rightarrow> nat \<Rightarrow> bool result" where
  "checkCRC buf sz =
     (if sz < 2 then Inl (UndefinedBehaviour ''read'')
      else
        bindE (read_16b buf (sz - 2)) (\<lambda>crc_from_packet.
        bindE (memread buf 0 (sz - 2)) (\<lambda>d.
        Inr (crc_from_packet = crc16 0xffff d XOR 0xffff))))"

section \<open>Reads\<close>

lemma read_16b_ok: "off + 1 < length buf \<Longrightarrow> read_16b buf off = Inr (shl (ucast (buf ! off)) 8 OR ucast (buf ! (off + 1)))"
  by (simp add: read_16b_def)

lemma read_24b_ok: "off + 2 < length buf \<Longrightarrow> read_24b buf off =
    Inr (shl (ucast (buf ! off)) 16 OR shl (ucast (buf ! (off + 1))) 8 OR ucast (buf ! (off + 2)))"
  by (simp add: read_24b_def)

lemma read_32b_ok: "off + 3 < length buf \<Longrightarrow> read_32b buf off =
    Inr (shl (ucast (buf ! off)) 24 OR shl (ucast (buf ! (off + 1))) 16 OR
         shl (ucast (buf ! (off + 2))) 8 OR ucast (buf ! (off + 3)))"
  by (simp add: read_32b_def)

text \<open>The inverse of \<open>read_16b\<close>: the two bytes of a word, most significant first.\<close>

definition be16 :: "u16 \<Rightarrow> bytes" where
  "be16 x = [ucast (shr x 8), ucast x]"

lemma length_be16 [simp]: "length (be16 x) = 2"
  by (simp add: be16_def)

lemma be16_join: "shl (ucast (ucast (shr x 8) :: u8)) 8 OR ucast (ucast x :: u8) = (x :: u16)"
  by (rule bit_word_eqI) (auto simp: bit_or_iff bit_ucast_iff bit_word_ge)

lemma be16_inject: "be16 x = be16 y \<Longrightarrow> x = y"
proof -
  assume "be16 x = be16 y"
  then have "(ucast (shr x 8) :: u8) = ucast (shr y 8)" "(ucast x :: u8) = ucast y"
    unfolding be16_def by (metis list.inject)+
  then show "x = y" using be16_join [of x] be16_join [of y] by argo
qed

lemma read_be16: "off = length pre \<Longrightarrow> read_16b (pre @ be16 x @ post) off = Inr x"
  by (simp add: read_16b_ok nth_append be16_def be16_join)

lemma unpack1bit_bit: "bitpos < 8 \<Longrightarrow> unpack1bit b bitpos = bit b (7 - bitpos)"
proof -
  assume p: "bitpos < 8"
  let ?k = "7 - bitpos"
  have "b AND shl 1 ?k = (if bit b ?k then shl 1 ?k else 0)"
    by (rule bit_word_eqI) (auto simp: bit_and_iff bit_1_iff)
  moreover have "unat (shl 1 ?k :: u8) > ?k"
  proof -
    have "bitpos = 0 \<or> bitpos = 1 \<or> bitpos = 2 \<or> bitpos = 3 \<or> bitpos = 4 \<or> bitpos = 5 \<or> bitpos = 6 \<or> bitpos = 7"
      using p by arith
    then show ?thesis by (elim disjE) (simp_all add: shl_def)
  qed
  ultimately show ?thesis by (simp add: unpack1bit_def)
qed

section \<open>The register\<close>

definition crc_bit :: "u16 \<Rightarrow> u16" where
  "crc_bit c = (if bit c 15 then shl c 1 XOR 0x1021 else shl c 1)"

definition crc_bits :: "u16 \<Rightarrow> u8 \<Rightarrow> u16" where
  "crc_bits c b = (crc_bit ^^ 8) (c XOR shl (ucast b) 8)"

lemma crc_bit_xor: "crc_bit (x XOR y) = crc_bit x XOR crc_bit y"
  by (auto simp: crc_bit_def bit_xor_iff shl_xor xor.assoc xor.commute xor.left_commute)

interpretation crc_reg: gf2_linear crc_bit
  by unfold_locales (rule crc_bit_xor)

lemma crc_bit_inj: "crc_bit x = 0 \<Longrightarrow> x = 0"
proof (rule ccontr)
  assume z: "crc_bit x = 0" and "x \<noteq> 0"
  have b0: "bit (crc_bit x) 0 = bit x 15"
  proof -
    have "bit (0x1021 :: u16) 0" by simp
    then show ?thesis by (simp add: crc_bit_def bit_xor_iff del: bit_numeral_simps)
  qed
  then have "\<not> bit x 15" using z by simp
  then have s: "shl x 1 = 0" using z by (simp add: crc_bit_def)
  have "\<not> bit x n" for n
  proof (cases "n < 15")
    case True
    have "bit (shl x 1) (Suc n) = bit x n" using True by simp
    then show ?thesis unfolding s by simp
  next
    case False
    then show ?thesis using \<open>\<not> bit x 15\<close> bit_word_ge [of n x] by (cases "n = 15") auto
  qed
  then have "x = 0" by (intro bit_word_eqI) simp
  with \<open>x \<noteq> 0\<close> show False by simp
qed

lemma crc_iter_inj: "(crc_bit ^^ n) x = 0 \<Longrightarrow> x = 0"
  by (induction n) (auto dest: crc_bit_inj)

declare upto_rec_numeral [simp del] upt_rec_numeral [simp del]

text \<open>
  The table is checked through linearity: its entry at a number is the sum of the entries at the
  powers of two in it, so the whole table is built from eight entries by repeated doubling.
\<close>

definition crc_entry :: "u8 \<Rightarrow> u16" where
  "crc_entry b = (crc_bit ^^ 8) (shl (ucast b) 8)"

fun doubles :: "u16 list \<Rightarrow> u16 list \<Rightarrow> u16 list" where
  "doubles xs [] = xs"
| "doubles xs (v # vs) = doubles (xs @ map (\<lambda>x. x XOR v) xs) vs"

lemma crc_entry_xor: "crc_entry (a XOR b) = crc_entry a XOR crc_entry b"
proof -
  have "shl (ucast (a XOR b) :: u16) 8 = shl (ucast a) 8 XOR shl (ucast b) 8"
    by (rule bit_word_eqI) (auto simp: bit_xor_iff bit_ucast_iff)
  then show ?thesis by (simp only: crc_entry_def crc_reg.iter_xor)
qed

lemma of_nat_plus_power:
  assumes "i < 2 ^ n" "n < 8"
  shows "(of_nat (i + 2 ^ n) :: u8) = of_nat i XOR 2 ^ n"
proof -
  have "(of_nat i :: u8) AND 2 ^ n = 0"
  proof (rule bit_word_eqI)
    fix k assume "k < LENGTH(8)"
    have "\<not> bit i n" using assms(1) by (simp add: bit_nat_def)
    then show "bit ((of_nat i :: u8) AND 2 ^ n) k = bit (0 :: u8) k"
      using assms(2) by (auto simp: bit_and_iff bit_exp_iff bit_of_nat_iff)
  qed
  then have "(of_nat i :: u8) + 2 ^ n = of_nat i XOR 2 ^ n"
    by (simp add: disjunctive_xor_eq_or disjunctive_add_eq_or)
  then show ?thesis by simp
qed

lemma doubles_entries:
  "k + length vs \<le> 8 \<Longrightarrow> xs = map (\<lambda>i. crc_entry (of_nat i)) [0..<2 ^ k] \<Longrightarrow>
     vs = map (\<lambda>j. crc_entry (2 ^ j)) [k..<k + length vs] \<Longrightarrow>
     doubles xs vs = map (\<lambda>i. crc_entry (of_nat i)) [0..<2 ^ (k + length vs)]"
proof (induction vs arbitrary: xs k)
  case Nil
  then show ?case by simp
next
  case (Cons v vs)
  have v: "v = crc_entry (2 ^ k)" and vs: "vs = map (\<lambda>j. crc_entry (2 ^ j)) [Suc k..<Suc k + length vs]"
    using Cons.prems(3) by (simp_all add: upt_conv_Cons del: upt_Suc)
  have "[0..<2 ^ Suc k] = [0..<2 ^ k] @ map (\<lambda>i. i + 2 ^ k) [0..<2 ^ k]"
    using upt_add_eq_append [of 0 "2 ^ k" "2 ^ k"] by (simp add: map_add_upt mult_2 add.commute)
  moreover have "map (\<lambda>i. crc_entry (of_nat (i + 2 ^ k))) [0..<2 ^ k] = map (\<lambda>x. x XOR v) xs"
    using Cons.prems(1) unfolding Cons.prems(2) v
    by (auto simp: of_nat_plus_power crc_entry_xor simp del: of_nat_add)
  ultimately have "xs @ map (\<lambda>x. x XOR v) xs = map (\<lambda>i. crc_entry (of_nat i)) [0..<2 ^ Suc k]"
    using Cons.prems(2) by (simp del: of_nat_add upt_Suc power_Suc add: comp_def)
  from Cons.IH [OF _ this vs] Cons.prems(1) show ?case by simp
qed

lemma crc_8: "(crc_bit ^^ 8) x = crc_bit (crc_bit (crc_bit (crc_bit (crc_bit (crc_bit (crc_bit (crc_bit x)))))))"
  by (simp add: eval_nat_numeral)

lemma crc_bit_eval: "crc_bit c = (if c AND 0x8000 = 0 then push_bit 1 c else push_bit 1 c XOR 0x1021)"
proof -
  have c: "(0x8000 :: u16) = shl 1 15" by (simp add: shl_def)
  have "(c AND 0x8000 = 0) = (\<not> bit c 15)" unfolding c using and_single_bit [of c 15] by blast
  then show ?thesis by (simp add: crc_bit_def shl_def)
qed

lemma crc_powers:
  "map (\<lambda>j. crc_entry (2 ^ j)) [0..<8] = [0x1021, 0x2042, 0x4084, 0x8108, 0x1231, 0x2462, 0x48c4, 0x9188]"
  by (simp add: upt_rec crc_entry_def crc_8 crc_bit_eval shl_def)

lemma crc16tab_doubles: "crc16tab = doubles [0] [0x1021, 0x2042, 0x4084, 0x8108, 0x1231, 0x2462, 0x48c4, 0x9188]"
  by (simp add: crc16tab_def)

lemma crc16tab_map: "crc16tab = map (\<lambda>i. crc_entry (of_nat i)) [0..<256]"
proof -
  have "crc_entry 0 = 0" by (simp add: crc_entry_def crc_reg.iter_zero)
  then have z: "[0] = map (\<lambda>i. crc_entry (of_nat i)) [0..<2 ^ 0]" by simp
  have "doubles [0] (map (\<lambda>j. crc_entry (2 ^ j)) [0..<8]) = map (\<lambda>i. crc_entry (of_nat i)) [0..<2 ^ (0 + 8)]"
    using doubles_entries [of 0 "map (\<lambda>j. crc_entry (2 ^ j)) [0..<8]" "[0]", OF _ z] by simp
  then have "doubles [0] (map (\<lambda>j. crc_entry (2 ^ j)) [0..<8]) = map (\<lambda>i. crc_entry (of_nat i)) [0..<256]"
    by (simp only: add_0) simp
  then show ?thesis unfolding crc_powers crc16tab_doubles .
qed

section \<open>The table-driven update\<close>

lemma crc16tab_nth: "crc16tab ! unat b = crc_entry b"
  using unat_u8_less [of b] by (simp add: crc16tab_map)

lemma crc_iter_low: "\<forall>k. 16 - n \<le> k \<and> k < 16 \<longrightarrow> \<not> bit x k \<Longrightarrow> n \<le> 16 \<Longrightarrow> (crc_bit ^^ n) x = shl x n"
proof (induction n)
  case 0
  then show ?case by simp
next
  case (Suc n)
  have "\<forall>k. 16 - n \<le> k \<and> k < 16 \<longrightarrow> \<not> bit x k" using Suc.prems by auto
  then have IH: "(crc_bit ^^ n) x = shl x n" using Suc.IH Suc.prems(2) by simp
  have "\<not> bit x (15 - n)" using Suc.prems by simp
  then have "\<not> bit (shl x n) 15" by simp
  then have "crc_bit (shl x n) = shl x (Suc n)" unfolding crc_bit_def by (simp only: if_False shl_shl) simp
  then show ?case by (simp add: IH)
qed

lemma crc16_byte_bits: "crc16_byte c b = crc_bits c b"
proof -
  have split: "c XOR shl (ucast b) 8 = shl (ucast ((ucast (shr c 8) :: u8) XOR b)) 8 XOR (c AND 0xff)"
  proof (rule bit_word_eqI)
    fix n assume "n < LENGTH(16)"
    have ff: "bit (0xff :: u16) n = (n < 8)"
    proof -
      have "(0xff :: u16) = mask 8" by (simp add: mask_eq_exp_minus_1)
      then show ?thesis using \<open>n < LENGTH(16)\<close> by (simp only: bit_mask_iff) simp
    qed
    show "bit (c XOR shl (ucast b) 8) n = bit (shl (ucast ((ucast (shr c 8) :: u8) XOR b)) 8 XOR (c AND 0xff)) n"
      using \<open>n < LENGTH(16)\<close> unfolding bit_xor_iff bit_and_iff ff bit_shl bit_ucast_iff bit_shr
      by (auto simp: not_less)
  qed
  have low: "(crc_bit ^^ 8) (c AND 0xff) = shl c 8"
  proof -
    have m: "(0xff :: u16) = mask 8" by (simp add: mask_eq_exp_minus_1)
    have "(crc_bit ^^ 8) (c AND 0xff) = shl (c AND 0xff) 8"
      by (rule crc_iter_low) (auto simp: m bit_and_iff bit_mask_iff)
    also have "\<dots> = shl c 8"
      by (rule bit_word_eqI) (auto simp: m bit_and_iff bit_mask_iff)
    finally show ?thesis .
  qed
  show ?thesis
    unfolding crc_bits_def split crc_reg.iter_xor low crc16_byte_def crc16tab_nth crc_entry_def
    by (simp add: xor.commute)
qed

lemma crc16_simps [simp]:
  "crc16 c [] = c"
  "crc16 c (b # bs) = crc16 (crc16_byte c b) bs"
  "crc16 c (xs @ ys) = crc16 (crc16 c xs) ys"
  by (simp_all add: crc16_def)

lemma xor_cancel_left: "a XOR x = a XOR y \<Longrightarrow> x = (y :: 'a::len word)"
proof (rule bit_word_eqI)
  fix n assume "a XOR x = a XOR y"
  then have "bit (a XOR x) n = bit (a XOR y) n" by simp
  then show "bit x n = bit y n" by (auto simp: bit_xor_iff)
qed

lemma xor_cancel_right: "x XOR a = y XOR a \<Longrightarrow> x = (y :: 'a::len word)"
  using xor_cancel_left [of a x y] by (simp add: xor.commute)

lemma crc_iter_eq: "(crc_bit ^^ n) x = (crc_bit ^^ n) y \<Longrightarrow> x = y"
proof -
  assume "(crc_bit ^^ n) x = (crc_bit ^^ n) y"
  then have "(crc_bit ^^ n) (x XOR y) = 0" by (simp add: crc_reg.iter_xor)
  then have "x XOR y = 0" by (rule crc_iter_inj)
  then have "x XOR y = y XOR y" by simp
  then show ?thesis by (rule xor_cancel_right)
qed

lemma crc16_byte_inj_state: "crc16_byte c b = crc16_byte c' b \<Longrightarrow> c = c'"
  unfolding crc16_byte_bits crc_bits_def by (drule crc_iter_eq) (rule xor_cancel_right)

lemma crc16_inj_state: "crc16 c bs = crc16 c' bs \<Longrightarrow> c = c'"
  by (induction bs arbitrary: c c') (auto dest: crc16_byte_inj_state)

lemma crc16_byte_inj_data: "crc16_byte c b = crc16_byte c b' \<Longrightarrow> b = b'"
proof -
  assume "crc16_byte c b = crc16_byte c b'"
  then have "c XOR shl (ucast b) 8 = c XOR shl (ucast b') 8"
    unfolding crc16_byte_bits crc_bits_def by (rule crc_iter_eq)
  then have "shl (ucast b :: u16) 8 = shl (ucast b') 8" by (rule xor_cancel_left)
  then have e: "bit (shl (ucast b :: u16) 8) (n + 8) = bit (shl (ucast b' :: u16) 8) (n + 8)" for n by simp
  show ?thesis
  proof (rule bit_word_eqI)
    fix n assume "n < LENGTH(8)"
    then show "bit b n = bit b' n" using e [of n] by (simp add: bit_ucast_iff)
  qed
qed

lemma crc16_update:
  assumes "i < length d" and "crc16 c (d[i := b]) = crc16 c d"
  shows "b = d ! i"
proof -
  have "crc16 c d = crc16 c (take i d @ [d ! i] @ drop (Suc i) d)"
    using assms(1) by (simp add: id_take_nth_drop [symmetric])
  moreover have "crc16 c (d[i := b]) = crc16 c (take i d @ [b] @ drop (Suc i) d)"
    using assms(1) by (simp add: upd_conv_take_nth_drop)
  ultimately have "crc16_byte (crc16 c (take i d)) b = crc16_byte (crc16 c (take i d)) (d ! i)"
    using assms(2) by (auto dest: crc16_inj_state)
  then show ?thesis by (rule crc16_byte_inj_data)
qed

lemma checkCRC_eq:
  assumes "2 \<le> length p"
  shows "checkCRC p (length p) =
    Inr (be16 (crc16 0xffff (take (length p - 2) p) XOR 0xffff) = drop (length p - 2) p)"
proof -
  obtain a b where ab: "drop (length p - 2) p = [a, b]"
    using assms by (cases "drop (length p - 2) p"; cases "tl (drop (length p - 2) p)") (auto dest: arg_cong [of _ _ length])
  then have p: "p = take (length p - 2) p @ [a, b]" by (metis append_take_drop_id)
  have "length (take (length p - 2) p) = length p - 2" by simp
  then have r: "read_16b p (length p - 2) = Inr (shl (ucast a) 8 OR ucast b)"
  proof -
    have "p ! (length p - 2) = drop (length p - 2) p ! 0" "p ! (length p - 2 + 1) = drop (length p - 2) p ! 1"
      using assms by simp_all
    then show ?thesis using assms unfolding ab by (simp add: read_16b_ok)
  qed
  have inj: "(shl (ucast a) 8 OR ucast b = x) = (be16 x = [a, b])" for x
  proof
    assume "shl (ucast a) 8 OR ucast b = x"
    then show "be16 x = [a, b]"
      by (auto simp: be16_def bit_or_iff bit_ucast_iff bit_word_ge intro!: bit_word_eqI)
  next
    assume "be16 x = [a, b]"
    then show "shl (ucast a) 8 OR ucast b = x" using be16_join [of x] by (auto simp: be16_def)
  qed
  show ?thesis using assms by (simp add: checkCRC_def r inj ab)
qed

lemma checkCRC_append: "checkCRC (d @ be16 (crc16 0xffff d XOR 0xffff)) (length d + 2) = Inr True"
  using checkCRC_eq [of "d @ be16 (crc16 0xffff d XOR 0xffff)"] by simp

lemma checkCRC_prefix:
  "checkCRC (d @ be16 (crc16 0xffff d XOR 0xffff) @ rest) (length d + 2) = Inr True"
proof -
  have "checkCRC (d @ be16 (crc16 0xffff d XOR 0xffff) @ rest) (length d + 2) =
      checkCRC (d @ be16 (crc16 0xffff d XOR 0xffff)) (length d + 2)"
    using read_be16 [of "length d" d "crc16 0xffff d XOR 0xffff" rest]
      read_be16 [of "length d" d "crc16 0xffff d XOR 0xffff" "[]"]
    by (simp add: checkCRC_def)
  then show ?thesis unfolding checkCRC_append .
qed

text \<open>
  A packet that passes the check fails it after any change of a single byte, be it in the
  data or in the check itself.
\<close>

lemma crc_detects_byte_error:
  assumes "checkCRC p (length p) = Inr True" and "i < length p" and "b \<noteq> p ! i"
  shows "checkCRC (p[i := b]) (length p) = Inr False"
proof -
  have len: "2 \<le> length p" using assms(1) by (auto simp: checkCRC_def split: if_splits)
  let ?n = "length p - 2" and ?q = "p[i := b]"
  have ok: "be16 (crc16 0xffff (take ?n p) XOR 0xffff) = drop ?n p" using checkCRC_eq [OF len] assms(1) by simp
  have "be16 (crc16 0xffff (take ?n ?q) XOR 0xffff) \<noteq> drop ?n ?q"
  proof (cases "i < ?n")
    case True
    then have t: "take ?n ?q = (take ?n p)[i := b]" "drop ?n ?q = drop ?n p"
      by (simp_all add: take_update_swap drop_update_cancel)
    have "crc16 0xffff ((take ?n p)[i := b]) \<noteq> crc16 0xffff (take ?n p)"
      using crc16_update [of i "take ?n p" "0xffff" b] True assms(3) by auto
    then have "crc16 0xffff ((take ?n p)[i := b]) XOR 0xffff \<noteq> crc16 0xffff (take ?n p) XOR 0xffff"
      using xor_cancel_right by blast
    then show ?thesis unfolding t ok [symmetric] by (blast dest: be16_inject)
  next
    case False
    then have t: "take ?n ?q = take ?n p" by simp
    have "drop ?n ?q ! (i - ?n) = b" "drop ?n p ! (i - ?n) = p ! i" using False assms(2) by simp_all
    then have "drop ?n ?q \<noteq> drop ?n p" using assms(3) by metis
    then show ?thesis unfolding t ok by simp
  qed
  then show ?thesis using checkCRC_eq [of ?q] len by simp
qed

section \<open>Properties\<close>

text \<open>
  The table-driven update is the bit-serial division by the generator 0x1021: the register
  after a byte is the register after its eight bits, most significant first.
\<close>

lemma crc16_is_bit_serial: "crc16 c data = foldl crc_bits c data"
  by (induction data arbitrary: c) (simp_all add: crc16_byte_bits)

end
