(* ===== verification/Std_Map.thy ===== *)
theory Std_Map
  imports Prelude
begin

text \<open>
  \<open>std::map\<close>, as the EDI decoder uses it: an association list with increasing keys, so that
  \<open>begin()\<close> is the smallest key and iteration is in order. The locale states what the users rely
  on; its interpretation is the ordered list.
\<close>

type_synonym ('k, 'v) std_map = "('k \<times> 'v) list"

definition map_get :: "('k, 'v) std_map \<Rightarrow> 'k \<Rightarrow> 'v option" where
  "map_get m k = map_of m k"

fun map_put :: "'k::linorder \<Rightarrow> 'v \<Rightarrow> ('k, 'v) std_map \<Rightarrow> ('k, 'v) std_map" where
  "map_put k v [] = [(k, v)]"
| "map_put k v ((k', v') # m) =
     (if k < k' then (k, v) # (k', v') # m
      else if k = k' then (k, v) # m
      else (k', v') # map_put k v m)"

definition map_erase :: "'k \<Rightarrow> ('k, 'v) std_map \<Rightarrow> ('k, 'v) std_map" where
  "map_erase k m = filter (\<lambda>p. fst p \<noteq> k) m"

definition map_ok :: "('k::linorder, 'v) std_map \<Rightarrow> bool" where
  "map_ok m = sorted_wrt (<) (map fst m)"

section \<open>The contract\<close>

locale ordered_map =
  fixes ok :: "'m \<Rightarrow> bool" and empty :: 'm
    and get :: "'m \<Rightarrow> 'k \<Rightarrow> 'v option" and put :: "'k \<Rightarrow> 'v \<Rightarrow> 'm \<Rightarrow> 'm" and erase :: "'k \<Rightarrow> 'm \<Rightarrow> 'm"
  assumes ok_empty: "ok empty" and get_empty: "get empty k = None"
    and ok_put: "ok m \<Longrightarrow> ok (put k v m)"
    and get_put: "ok m \<Longrightarrow> get (put k v m) k' = (if k' = k then Some v else get m k')"
    and ok_erase: "ok m \<Longrightarrow> ok (erase k m)"
    and get_erase: "ok m \<Longrightarrow> get (erase k m) k' = (if k' = k then None else get m k')"
begin

lemma ok_puts: "ok m \<Longrightarrow> ok (foldr (\<lambda>(k, v). put k v) kvs m)"
  by (induction kvs) (auto simp: ok_put)

lemma get_puts:
  "ok m \<Longrightarrow> get (foldr (\<lambda>(k, v). put k v) kvs m) k = (case map_of kvs k of None \<Rightarrow> get m k | Some v \<Rightarrow> Some v)"
  by (induction kvs) (auto simp: get_put ok_puts)

end

lemma map_put_keys: "set (map fst (map_put k v m)) = insert k (set (map fst m))"
  by (induction k v m rule: map_put.induct) auto

lemma map_ok_put: "map_ok m \<Longrightarrow> map_ok (map_put k v m)"
proof (induction k v m rule: map_put.induct)
  case (2 k v k' v' m)
  have "\<forall>x \<in> set (map fst (map_put k v m)). k' < x" if "k' < k"
    using 2(2) that by (simp only: map_put_keys) (auto simp: map_ok_def)
  then show ?case using 2 by (auto simp: map_ok_def simp del: set_map)
qed (simp add: map_ok_def)

lemma map_get_notin: "k \<notin> set (map fst m) \<Longrightarrow> map_get m k = None"
  by (auto simp: map_get_def map_of_eq_None_iff)

lemma map_get_put: "map_ok m \<Longrightarrow> map_get (map_put k v m) k' = (if k' = k then Some v else map_get m k')"
proof (induction k v m rule: map_put.induct)
  case (1 k v)
  then show ?case by (simp add: map_get_def)
next
  case (2 k v k1 v1 m)
  then show ?case by (auto simp: map_get_def map_ok_def)
qed

lemma map_get_erase: "map_get (map_erase k m) k' = (if k' = k then None else map_get m k')"
  by (induction m) (auto simp: map_get_def map_erase_def)

lemma map_ok_erase: "map_ok m \<Longrightarrow> map_ok (map_erase k m)"
  unfolding map_ok_def map_erase_def by (induction m) auto

interpretation std_map: ordered_map map_ok "[]" map_get map_put map_erase
  by unfold_locales
    (auto simp: map_ok_def map_get_def [of "[]"] map_get_put map_get_erase
      intro: map_ok_put [unfolded map_ok_def] map_ok_erase [unfolded map_ok_def])

section \<open>Size\<close>

lemma map_ok_distinct: "map_ok m \<Longrightarrow> distinct (map fst m)"
  unfolding map_ok_def by (induction m) auto

lemma length_map_card: "map_ok m \<Longrightarrow> length m = card (set (map fst m))"
  using map_ok_distinct [of m] distinct_card [of "map fst m"] by simp

lemma map_get_keys: "(map_get m k \<noteq> None) = (k \<in> set (map fst m))"
  by (auto simp: map_get_def map_of_eq_None_iff)

lemma map_get_mem: "map_get m k = Some v \<Longrightarrow> (k, v) \<in> set m"
  by (auto simp: map_get_def dest: map_of_SomeD)

lemma map_mem_get: "map_ok m \<Longrightarrow> (k, v) \<in> set m \<Longrightarrow> map_get m k = Some v"
  by (simp add: map_get_def map_ok_distinct)

end
