(* ===== verification/Pft.thy ===== *)
theory Pft
  imports Crc Std_Map
begin

text \<open>
  The fragmentation layer of EDI, \<open>lib/edi/PFT.cpp\<close>: parsing of fragments, the builders that
  collect the fragments of one packet and undo the interleaving and the Reed-Solomon code, and
  the selection of the next packet in sequence. The Reed-Solomon decoder itself is the vendored
  C library \<open>lib/fec\<close>: the argument \<open>rs\<close> takes a 255-byte chunk and the erasure positions to the
  corrected chunk and the number of corrections, \<open>-1\<close> on failure. Its local arrays have room for
  48 erasures, a longer list is undefined behaviour.

  Many functions throw after they have changed their object, so they return the object and a
  result.
\<close>

section \<open>Fragments\<close>

record fragment =
  fr_received_on_port :: int
  fr_payload :: bytes
  fr_Pseq :: u16
  fr_Findex :: u32
  fr_Fcount :: u32
  fr_FEC :: bool
  fr_Addr :: bool
  fr_Plen :: u16
  fr_RSk :: u8
  fr_RSz :: u8
  fr_Source :: u16
  fr_Dest :: u16
  fr_valid :: bool

definition new_fragment :: fragment where
  "new_fragment = \<lparr>fr_received_on_port = 0, fr_payload = [], fr_Pseq = 0, fr_Findex = 0, fr_Fcount = 0,
     fr_FEC = False, fr_Addr = False, fr_Plen = 0, fr_RSk = 0, fr_RSz = 0, fr_Source = 0, fr_Dest = 0,
     fr_valid = False\<rparr>"

text \<open>The optional headers. The result is the fragment and the index after them.\<close>

definition load_optional :: "bytes \<Rightarrow> nat \<Rightarrow> fragment \<Rightarrow> (fragment \<times> nat) result" where
  "load_optional buf index fr =
     bindE
       (if fr_FEC fr then
          bindE (rd buf index) (\<lambda>k. bindE (rd buf (index + 1)) (\<lambda>z.
          Inr (fr\<lparr>fr_RSk := k, fr_RSz := z\<rparr>, index + 2)))
        else Inr (fr\<lparr>fr_RSk := 0, fr_RSz := 0\<rparr>, index))
       (\<lambda>(fr, index).
          if fr_Addr fr then
            bindE (read_16b buf index) (\<lambda>src. bindE (read_16b buf (index + 2)) (\<lambda>dst.
            Inr (fr\<lparr>fr_Source := src, fr_Dest := dst\<rparr>, index + 4)))
          else Inr (fr\<lparr>fr_Source := 0, fr_Dest := 0\<rparr>, index))"

definition loadData :: "bytes \<Rightarrow> int \<Rightarrow> fragment \<Rightarrow> (fragment \<times> nat) result" where
  "loadData buf port fr =
     (if length buf < 14 then Inr (fr, 0)
      else if buf ! 0 \<noteq> 0x50 \<or> buf ! 1 \<noteq> 0x46 then Inl (RuntimeError ''Invalid PFT SYNC bytes'')
      else
        bindE (read_16b buf 2) (\<lambda>pseq.
        bindE (read_24b buf 4) (\<lambda>findex.
        bindE (read_24b buf 7) (\<lambda>fcount.
        bindE (rd buf 10) (\<lambda>flags.
        bindE (read_16b buf 10) (\<lambda>plen.
          let fr = fr\<lparr>fr_received_on_port := port, fr_Pseq := pseq, fr_Findex := findex, fr_Fcount := fcount,
                      fr_FEC := unpack1bit flags 0, fr_Addr := unpack1bit flags 1, fr_Plen := plen AND 0x3FFF\<rparr>;
              required_len = 14 + (if fr_FEC fr then 1 else 0) + (if fr_Addr fr then 2 else 0) + 2
          in if length buf < required_len then Inr (fr, 0)
             else
               bindE (load_optional buf 12 fr) (\<lambda>(fr, index).
               let index = index + 2 in
               bindE (checkCRC buf index) (\<lambda>crc_valid.
               let enough = (length buf \<ge> index + unat (fr_Plen fr)) in
               if \<not> enough then Inr (fr, 0)
               else
                 let fr = fr\<lparr>fr_valid := (\<not> fr_FEC fr \<or> crc_valid) \<and> enough, fr_payload := []\<rparr>
                 in if fr_valid fr
                    then bindE (memread buf index (unat (fr_Plen fr))) (\<lambda>p.
                         Inr (fr\<lparr>fr_payload := p\<rparr>, index + unat (fr_Plen fr)))
                    else Inr (fr, index)))))))))"

definition checkConsistency :: "fragment \<Rightarrow> fragment \<Rightarrow> bool" where
  "checkConsistency this other =
     (fr_Fcount other = fr_Fcount this \<and> fr_FEC other = fr_FEC this \<and> fr_RSk other = fr_RSk this \<and>
      fr_RSz other = fr_RSz this \<and> fr_Addr other = fr_Addr this \<and> fr_Source other = fr_Source this \<and>
      fr_Dest other = fr_Dest this \<and> (if fr_FEC this then fr_Plen other = fr_Plen this else True))"

section \<open>Builders\<close>

record af_builder =
  ab_lifeTime :: u64
  ab_fragments :: "(u32, fragment) std_map"
  ab_af_packet :: bytes
  ab_Pseq :: u16
  ab_Fcount :: u32

datatype decode_attempt_result = yes | maybe | no

definition AFBuilder :: "u16 \<Rightarrow> u32 \<Rightarrow> u64 \<Rightarrow> af_builder result" where
  "AFBuilder pseq fcount lifetime =
     (if \<not> lifetime > 0 then Inl (AssertionFailure ''lifetime > 0'')
      else Inr \<lparr>ab_lifeTime = lifetime, ab_fragments = [], ab_af_packet = [], ab_Pseq = pseq, ab_Fcount = fcount\<rparr>)"

definition ab_pushPFTFrag :: "af_builder \<Rightarrow> fragment \<Rightarrow> af_builder result" where
  "ab_pushPFTFrag b frag =
     (if ab_Pseq b \<noteq> fr_Pseq frag then Inl (LogicError ''Invalid PFT fragment Pseq'')
      else if ab_Fcount b \<noteq> fr_Fcount frag then Inr b
      else if map_get (ab_fragments b) (fr_Findex frag) \<noteq> None then Inr b
      else
        (let consistent =
               (case ab_fragments b of [] \<Rightarrow> True | (_, first) # _ \<Rightarrow> checkConsistency frag first)
         in if consistent
            then Inr (b\<lparr>ab_fragments := map_put (fr_Findex frag) frag (ab_fragments b)\<rparr>)
            else Inr b))"

text \<open>
  The fragment whose parameters are used. The code compares \<open>Fcount()\<close>, not \<open>Findex()\<close>, with
  \<open>_Fcount - 1\<close>.
\<close>

definition reference_fragment :: "af_builder \<Rightarrow> fragment option" where
  "reference_fragment b =
     (case ab_fragments b of
        [] \<Rightarrow> None
      | (_, first) # rest \<Rightarrow>
          (if fr_Fcount first = ab_Fcount b - 1
           then (case rest of [] \<Rightarrow> None | (_, second) # _ \<Rightarrow> Some second)
           else Some first))"

definition rs_cmax :: "af_builder \<Rightarrow> fragment \<Rightarrow> u32" where
  "rs_cmax b frag = (ab_Fcount b * ucast (fr_Plen frag)) div (ucast (fr_RSk frag) + 48)"

definition canAttemptToDecode :: "af_builder \<Rightarrow> af_builder \<times> decode_attempt_result result" where
  "canAttemptToDecode b =
     (case ab_fragments b of
        [] \<Rightarrow> (b, Inr no)
      | (_, first) # _ \<Rightarrow>
          (if length (ab_fragments b) = unat (ab_Fcount b) then (b, Inr yes)
           else if \<not> list_all (\<lambda>(_, frag). checkConsistency first frag \<and> ab_Pseq b = fr_Pseq frag) (ab_fragments b)
           then (b\<lparr>ab_fragments := []\<rparr>, Inl (RuntimeError ''Inconsistent PFT fragments''))
           else
             (case reference_fragment b of
                None \<Rightarrow> (b, Inr no)
              | Some frag \<Rightarrow>
                  (if fr_FEC frag then
                     (let cmax = rs_cmax b frag in
                      if \<not> cmax > 0 then (b, Inl (AssertionFailure ''_cmax > 0''))
                      else if fr_Plen frag = 0 then (b, Inl (UndefinedBehaviour ''division by zero''))
                      else
                        (let rxmin = ab_Fcount b - (cmax * 48) div ucast (fr_Plen frag)
                         in if length (ab_fragments b) \<ge> unat rxmin then (b, Inr maybe) else (b, Inr no)))
                   else (b, Inr no)))))"

section \<open>Undoing the code\<close>

type_synonym rs_decoder = "bytes \<Rightarrow> nat list \<Rightarrow> bytes \<times> int"

text \<open>Byte \<open>k\<close> of fragment \<open>j\<close> goes to position \<open>k * F + j\<close> of the block.\<close>

definition fill_column :: "nat \<Rightarrow> nat \<Rightarrow> bytes \<Rightarrow> bytes \<Rightarrow> bytes result" where
  "fill_column F j col blk = for_each (\<lambda>k blk. wr blk (k * F + j) (col ! k)) [0..<length col] blk"

text \<open>
  One fragment, or zeros and a list of erasures, pairs of a chunk's number and the offset in it,
  in its place.
\<close>

definition rs_column ::
    "(u32, fragment) std_map \<Rightarrow> nat \<Rightarrow> nat \<Rightarrow> nat \<Rightarrow> nat \<Rightarrow> bytes \<times> (nat \<times> nat) list \<Rightarrow>
     (bytes \<times> (nat \<times> nat) list) result" where
  "rs_column frags F plen chunk_len j = (\<lambda>(blk, erasures).
     (case map_get frags (of_nat j) of
        Some fr \<Rightarrow>
          (let n = length (fr_payload fr) in
           if j \<noteq> F - 1 \<and> n \<noteq> plen then Inl (RuntimeError ''Incorrect fragment length '')
           else if j = F - 1 \<and> n > plen then Inl (RuntimeError ''Incorrect last fragment length '')
           else
             bindE (fill_column F j (fr_payload fr @ replicate (plen - n) 0) blk) (\<lambda>blk. Inr (blk, erasures)))
      | None \<Rightarrow>
          bindE (fill_column F j (replicate plen 0) blk) (\<lambda>blk.
          Inr (blk, erasures @ map (\<lambda>k. ((k * F + j) div chunk_len, (k * F + j) mod chunk_len)) [0..<plen]))))"

definition decode_chunk ::
    "rs_decoder \<Rightarrow> bytes \<Rightarrow> nat \<Rightarrow> (nat \<times> nat) list \<Rightarrow> nat \<Rightarrow> (bytes \<times> int) result" where
  "decode_chunk rs blk rsk erasures i =
     bindE (memread blk ((rsk + 48) * i) rsk) (\<lambda>d.
     bindE (memread blk ((rsk + 48) * i + rsk) 48) (\<lambda>parity.
       let chunk = take 207 (d @ replicate (255 - rsk) 0) @ parity;
           eras = map snd (filter (\<lambda>e. fst e = i) erasures)
       in if length eras > 48 then Inl (UndefinedBehaviour ''decode_rs_char'')
          else Inr (rs chunk eras)))"

text \<open>The loop over the chunks; None is the early return after a failure.\<close>

fun decode_chunks ::
    "rs_decoder \<Rightarrow> bytes \<Rightarrow> nat \<Rightarrow> (nat \<times> nat) list \<Rightarrow> nat list \<Rightarrow> bytes \<Rightarrow> bytes option result" where
  "decode_chunks rs blk rsk erasures [] af = Inr (Some af)"
| "decode_chunks rs blk rsk erasures (i # is) af =
     bindE (decode_chunk rs blk rsk erasures i) (\<lambda>(chunk, n).
     if n = - 1 then Inr None
     else decode_chunks rs blk rsk erasures is (af @ take rsk chunk))"

definition extract_fec :: "rs_decoder \<Rightarrow> af_builder \<Rightarrow> fragment \<Rightarrow> af_builder \<times> bytes option result" where
  "extract_fec rs b ref =
     (let F = unat (ab_Fcount b);
          plen = unat (fr_Plen ref);
          rsk = unat (fr_RSk ref);
          cmax = unat (rs_cmax b ref);
          blk = replicate (unat (ucast (fr_Plen ref) * ab_Fcount b)) 0
      in case for_each (rs_column (ab_fragments b) F plen (rsk + 48)) [0..<F] (blk, []) of
           Inl e \<Rightarrow> (b\<lparr>ab_fragments := []\<rparr>, Inl e)
         | Inr (blk, erasures) \<Rightarrow>
             (case decode_chunks rs blk rsk erasures [0..<cmax] [] of
                Inl e \<Rightarrow> (b, Inl e)
              | Inr None \<Rightarrow> (b\<lparr>ab_af_packet := []\<rparr>, Inr None)
              | Inr (Some af) \<Rightarrow>
                  (if unat (fr_RSz ref) > length af
                   then (b\<lparr>ab_af_packet := af\<rparr>, Inl (LogicError ''length_error''))
                   else (b\<lparr>ab_af_packet := take (length af - unat (fr_RSz ref)) af\<rparr>,
                         Inr (Some (take (length af - unat (fr_RSz ref)) af))))))"

fun assemble :: "(u32, fragment) std_map \<Rightarrow> nat list \<Rightarrow> bytes \<Rightarrow> bytes \<times> unit result" where
  "assemble frags [] af = (af, Inr ())"
| "assemble frags (j # js) af =
     (case map_get frags (of_nat j) of
        None \<Rightarrow> (af, Inl (LogicError ''Missing fragment''))
      | Some fr \<Rightarrow> assemble frags js (af @ fr_payload fr))"

definition extract_plain :: "af_builder \<Rightarrow> af_builder \<times> bytes option result" where
  "extract_plain b =
     (case assemble (ab_fragments b) [0..<unat (ab_Fcount b)] [] of
        (af, Inl e) \<Rightarrow> (b\<lparr>ab_af_packet := af\<rparr>, Inl e)
      | (af, Inr _) \<Rightarrow> (b\<lparr>ab_af_packet := af\<rparr>, Inr (Some af)))"

text \<open>The check of the packet's own CRC. A packet without one is dropped.\<close>

definition finish_af :: "af_builder \<Rightarrow> bytes \<Rightarrow> af_builder \<times> bytes result" where
  "finish_af b af =
     (case (if length af \<ge> 12 then checkCRC af (length af) else Inr False) of
        Inl e \<Rightarrow> (b, Inl e)
      | Inr ok \<Rightarrow> (if ok then (b, Inr af) else (b\<lparr>ab_af_packet := []\<rparr>, Inr [])))"

definition extractAF :: "rs_decoder \<Rightarrow> af_builder \<Rightarrow> af_builder \<times> bytes result" where
  "extractAF rs b =
     (if ab_af_packet b \<noteq> [] then (b, Inr (ab_af_packet b))
      else
        (case canAttemptToDecode b of
           (b, Inl e) \<Rightarrow> (b, Inl e)
         | (b, Inr dar) \<Rightarrow>
             (if dar = no then (b\<lparr>ab_af_packet := []\<rparr>, Inr [])
              else
                (case reference_fragment b of
                   None \<Rightarrow> (b, Inl (RuntimeError ''Invalid attempt at extracting AF''))
                 | Some ref \<Rightarrow>
                     (case (if fr_FEC ref then extract_fec rs b ref else extract_plain b) of
                        (b, Inl e) \<Rightarrow> (b, Inl e)
                      | (b, Inr None) \<Rightarrow> (b, Inr [])
                      | (b, Inr (Some af)) \<Rightarrow> finish_af b af)))))"

section \<open>The sequence of packets\<close>

record pft =
  pf_next_pseq :: u16
  pf_max_delay :: u64
  pf_afbuilders :: "(u16, af_builder) std_map"

text \<open>\<open>m_next_pseq\<close> is not initialised; \<open>junk\<close> is its value.\<close>

definition PFT :: "u16 \<Rightarrow> pft" where
  "PFT junk = \<lparr>pf_next_pseq = junk, pf_max_delay = 10, pf_afbuilders = []\<rparr>"

definition setMaxDelay :: "pft \<Rightarrow> u64 \<Rightarrow> pft" where
  "setMaxDelay p num_af_packets = p\<lparr>pf_max_delay := num_af_packets\<rparr>"

definition pft_pushPFTFrag :: "pft \<Rightarrow> fragment \<Rightarrow> pft \<times> unit result" where
  "pft_pushPFTFrag p frag =
     (let p = (if pf_afbuilders p = [] then p\<lparr>pf_next_pseq := fr_Pseq frag\<rparr> else p)
      in case (case map_get (pf_afbuilders p) (fr_Pseq frag) of
                 Some b \<Rightarrow> Inr b
               | None \<Rightarrow> AFBuilder (fr_Pseq frag) (fr_Fcount frag) (ucast (fr_Fcount frag) * pf_max_delay p)) of
           Inl e \<Rightarrow> (p, Inl e)
         | Inr b \<Rightarrow>
             (let p = p\<lparr>pf_afbuilders := map_put (fr_Pseq frag) b (pf_afbuilders p)\<rparr>
              in case ab_pushPFTFrag b frag of
                   Inl e \<Rightarrow> (p, Inl e)
                 | Inr b \<Rightarrow> (p\<lparr>pf_afbuilders := map_put (fr_Pseq frag) b (pf_afbuilders p)\<rparr>, Inr ())))"

definition incrementNextPseq :: "pft \<Rightarrow> pft" where
  "incrementNextPseq p =
     p\<lparr>pf_afbuilders := map_erase (pf_next_pseq p - 10) (pf_afbuilders p), pf_next_pseq := pf_next_pseq p + 1\<rparr>"

text \<open>
  The code asks \<open>canAttemptToDecode\<close> up to twice; it only changes the builder when it throws, so
  one call stands for both. An exception leaves the changed builder in the map.
\<close>

definition getNextAFPacket :: "rs_decoder \<Rightarrow> pft \<Rightarrow> pft \<times> (bytes \<times> u16) result" where
  "getNextAFPacket rs p =
     (let store = (\<lambda>b. p\<lparr>pf_afbuilders := map_put (pf_next_pseq p) b (pf_afbuilders p)\<rparr>);
          extract = (\<lambda>b. case extractAF rs b of
             (b, Inl e) \<Rightarrow> (store b, Inl e)
           | (b, Inr af) \<Rightarrow> (incrementNextPseq (store b), Inr (af, pf_next_pseq p)))
      in case map_get (pf_afbuilders p) (pf_next_pseq p) of
           None \<Rightarrow>
             (if length (pf_afbuilders p) > unat (pf_max_delay p) then p\<lparr>pf_afbuilders := []\<rparr> else p, Inr ([], 0))
         | Some b \<Rightarrow>
             (case canAttemptToDecode b of
                (b, Inl e) \<Rightarrow> (store b, Inl e)
              | (b, Inr yes) \<Rightarrow> extract b
              | (b, Inr dar) \<Rightarrow>
                  (let b = (if ab_lifeTime b > 0 then b\<lparr>ab_lifeTime := ab_lifeTime b - 1\<rparr> else b)
                   in if ab_lifeTime b = 0
                      then (if dar = maybe then extract b else (incrementNextPseq (store b), Inr ([], 0)))
                      else (store b, Inr ([], 0)))))"

section \<open>Collecting the fragments of a packet\<close>

text \<open>
  The fragments \<open>fr 0, ..., fr (F - 1)\<close> of one packet with sequence number \<open>s\<close>, and a builder that
  holds those with an index in \<open>J\<close>.
\<close>

definition family :: "u16 \<Rightarrow> nat \<Rightarrow> (nat \<Rightarrow> fragment) \<Rightarrow> bool" where
  "family s F fr =
     (0 < F \<and> F < 2 ^ 24 \<and>
      (\<forall>j < F. fr_Pseq (fr j) = s \<and> fr_Findex (fr j) = of_nat j \<and> fr_Fcount (fr j) = of_nat F) \<and>
      (\<forall>i < F. \<forall>j < F. checkConsistency (fr i) (fr j)))"

definition collected :: "u16 \<Rightarrow> nat \<Rightarrow> (nat \<Rightarrow> fragment) \<Rightarrow> nat set \<Rightarrow> af_builder \<Rightarrow> bool" where
  "collected s F fr J b =
     (map_ok (ab_fragments b) \<and> J \<subseteq> {..<F} \<and>
      set (map fst (ab_fragments b)) = of_nat ` J \<and>
      (\<forall>j \<in> J. map_get (ab_fragments b) (of_nat j) = Some (fr j)) \<and>
      ab_Pseq b = s \<and> ab_Fcount b = of_nat F \<and> ab_af_packet b = [])"

lemma of_nat_u32_inj: "i < 2 ^ 24 \<Longrightarrow> j < 2 ^ 24 \<Longrightarrow> (of_nat i :: u32) = of_nat j \<Longrightarrow> i = j"
proof -
  assume i: "i < 2 ^ 24" and j: "j < 2 ^ 24" and e: "(of_nat i :: u32) = of_nat j"
  have "i = unat (of_nat i :: u32)" by (rule unat_of_nat_small [symmetric]) (use i in simp)
  also have "\<dots> = unat (of_nat j :: u32)" unfolding e ..
  also have "\<dots> = j" by (rule unat_of_nat_small) (use j in simp)
  finally show "i = j" .
qed

lemma inj_on_u32: "F < 2 ^ 24 \<Longrightarrow> inj_on (of_nat :: nat \<Rightarrow> u32) {..<F}"
  by (rule inj_onI) (auto intro: of_nat_u32_inj)

lemma family_index: "family s F fr \<Longrightarrow> i < F \<Longrightarrow> j < F \<Longrightarrow> (of_nat i :: u32) = of_nat j \<Longrightarrow> i = j"
  by (rule of_nat_u32_inj) (auto simp: family_def)

lemma collected_get:
  assumes "family s F fr" "collected s F fr J b" "j < F"
  shows "map_get (ab_fragments b) (of_nat j) = (if j \<in> J then Some (fr j) else None)"
proof (cases "j \<in> J")
  case False
  have "of_nat j \<notin> (of_nat :: nat \<Rightarrow> u32) ` J"
    using False family_index [OF assms(1,3)] assms(2) by (auto simp: collected_def)
  then have "of_nat j \<notin> set (map fst (ab_fragments b))" using assms(2) unfolding collected_def by simp
  then show ?thesis using False map_get_notin by fastforce
qed (use assms(2) in \<open>simp add: collected_def\<close>)

lemma collected_size:
  assumes "family s F fr" "collected s F fr J b"
  shows "length (ab_fragments b) = card J"
proof -
  have "inj_on (of_nat :: nat \<Rightarrow> u32) J"
    using inj_on_u32 [of F] assms inj_on_subset by (auto simp: family_def collected_def)
  then have "card ((of_nat :: nat \<Rightarrow> u32) ` J) = card J" by (rule card_image)
  moreover have "length (ab_fragments b) = card (set (map fst (ab_fragments b)))"
    by (rule length_map_card) (use assms(2) in \<open>simp add: collected_def\<close>)
  moreover have "set (map fst (ab_fragments b)) = of_nat ` J" using assms(2) unfolding collected_def by blast
  ultimately show ?thesis by (simp only:)
qed

lemma collected_mem:
  assumes "family s F fr" "collected s F fr J b" "(k, x) \<in> set (ab_fragments b)"
  shows "\<exists>j \<in> J. k = of_nat j \<and> x = fr j"
proof -
  have "k \<in> set (map fst (ab_fragments b))" using assms(3) by force
  then obtain j where j: "j \<in> J" "k = of_nat j" using assms(2) by (auto simp: collected_def)
  moreover have "map_get (ab_fragments b) k = Some x"
    using map_mem_get assms(2,3) by (auto simp: collected_def)
  ultimately show ?thesis using assms(2) by (auto simp: collected_def)
qed

lemma collected_first:
  assumes "family s F fr" "collected s F fr J b" "J \<noteq> {}"
  shows "\<exists>j \<in> J. \<exists>rest. ab_fragments b = (of_nat j, fr j) # rest"
proof (cases "ab_fragments b")
  case Nil
  then show ?thesis using assms(2,3) by (simp add: collected_def)
next
  case (Cons kx rest)
  obtain k x where kx: "kx = (k, x)" by (cases kx)
  then show ?thesis using collected_mem [OF assms(1,2), of k x] Cons by auto
qed

lemma collected_push:
  assumes "family s F fr" "collected s F fr J b" "j < F"
  shows "\<exists>b'. ab_pushPFTFrag b (fr j) = Inr b' \<and> collected s F fr (insert j J) b' \<and> ab_lifeTime b' = ab_lifeTime b"
proof -
  have f: "fr_Pseq (fr j) = s" "fr_Findex (fr j) = of_nat j" "fr_Fcount (fr j) = of_nat F"
    using assms(1,3) by (auto simp: family_def)
  have b: "ab_Pseq b = s" "ab_Fcount b = of_nat F" "map_ok (ab_fragments b)" "J \<subseteq> {..<F}"
    using assms(2) by (auto simp: collected_def)
  note get = collected_get [OF assms]
  show ?thesis
  proof (cases "j \<in> J")
    case True
    then have "ab_pushPFTFrag b (fr j) = Inr b" using f b get by (simp add: ab_pushPFTFrag_def)
    then show ?thesis using True assms(2) by (simp add: insert_absorb)
  next
    case False
    have c: "case ab_fragments b of [] \<Rightarrow> True | (_, first) # _ \<Rightarrow> checkConsistency (fr j) first"
    proof (cases "J = {}")
      case True
      then show ?thesis using assms(2) by (simp add: collected_def)
    next
      case False
      then obtain i rest where "i \<in> J" "ab_fragments b = (of_nat i, fr i) # rest"
        using collected_first [OF assms(1,2)] by blast
      then show ?thesis using assms(1,3) b(4) by (auto simp: family_def)
    qed
    let ?b = "b\<lparr>ab_fragments := map_put (of_nat j) (fr j) (ab_fragments b)\<rparr>"
    have "ab_pushPFTFrag b (fr j) = Inr ?b" using f b get False c by (simp add: ab_pushPFTFrag_def)
    moreover have "collected s F fr (insert j J) ?b"
    proof -
      have "(of_nat i :: u32) \<noteq> of_nat j" if "i \<in> J" for i
        using family_index [OF assms(1) _ assms(3), of i] that False b(4) by auto
      then have "map_get (map_put (of_nat j) (fr j) (ab_fragments b)) (of_nat i) = Some (fr i)" if "i \<in> insert j J" for i
        using that assms(2) by (auto simp: map_get_put b(3) collected_def)
      then show ?thesis
        using assms(2,3) b by (simp add: collected_def map_ok_put map_put_keys del: set_map)
    qed
    ultimately show ?thesis by simp
  qed
qed

text \<open>All fragments present: the packet is put together in the order of the indices.\<close>

lemma assemble_all:
  assumes "family s F fr" "collected s F fr {..<F} b" "set js \<subseteq> {..<F}"
  shows "assemble (ab_fragments b) js af = (af @ concat (map (\<lambda>j. fr_payload (fr j)) js), Inr ())"
  using assms(3)
proof (induction js arbitrary: af)
  case (Cons j js)
  have "map_get (ab_fragments b) (of_nat j) = Some (fr j)"
    using collected_get [OF assms(1,2), of j] Cons.prems by simp
  then show ?case using Cons by simp
qed simp

lemma family_F: "family s F fr \<Longrightarrow> unat (of_nat F :: u32) = F"
  by (intro unat_of_nat_small) (simp add: family_def)

lemma complete_can_decode:
  assumes "family s F fr" "collected s F fr {..<F} b"
  shows "canAttemptToDecode b = (b, Inr yes)"
proof -
  have ne: "{..<F} \<noteq> {}" using assms(1) by (auto simp: family_def)
  then obtain j rest where "ab_fragments b = (of_nat j, fr j) # rest"
    using collected_first [OF assms ne] by blast
  moreover have "length (ab_fragments b) = unat (ab_Fcount b)"
    using collected_size [OF assms] family_F [OF assms(1)] assms(2) by (simp add: collected_def)
  ultimately show ?thesis by (simp add: canAttemptToDecode_def)
qed

lemma collected_reference:
  assumes "family s F fr" "collected s F fr J b" "J \<noteq> {}"
  shows "\<exists>j \<in> J. reference_fragment b = Some (fr j)"
proof -
  obtain j rest where j: "j \<in> J" "ab_fragments b = (of_nat j, fr j) # rest"
    using collected_first [OF assms] by blast
  moreover have "fr_Fcount (fr j) \<noteq> ab_Fcount b - 1"
    using assms(1,2) j(1) by (auto simp: family_def collected_def)
  ultimately show ?thesis by (auto simp: reference_fragment_def)
qed

lemma extract_complete_plain:
  assumes "family s F fr" "collected s F fr {..<F} b" "\<forall>j < F. \<not> fr_FEC (fr j)"
    and "af = concat (map (\<lambda>j. fr_payload (fr j)) [0..<F])" "12 \<le> length af" "checkCRC af (length af) = Inr True"
  shows "extractAF rs b = (b\<lparr>ab_af_packet := af\<rparr>, Inr af)"
proof -
  have "{..<F} \<noteq> {}" using assms(1) by (auto simp: family_def)
  then obtain j where j: "j < F" "reference_fragment b = Some (fr j)"
    using collected_reference [OF assms(1,2)] by blast
  have "assemble (ab_fragments b) [0..<unat (ab_Fcount b)] [] = (af, Inr ())"
    using assemble_all [OF assms(1,2), of "[0..<F]" "[]"] family_F [OF assms(1)] assms(2,4)
    by (simp add: collected_def atLeast0LessThan)
  then have "extract_plain b = (b\<lparr>ab_af_packet := af\<rparr>, Inr (Some af))" by (simp add: extract_plain_def)
  then show ?thesis
    using assms(2,3,5,6) j complete_can_decode [OF assms(1,2)]
    by (simp add: extractAF_def finish_af_def collected_def)
qed

section \<open>Several packets at once\<close>

text \<open>The builders of a decoder that has seen the fragments \<open>J q\<close> of each packet \<open>q\<close>.\<close>

definition pft_holds ::
    "(u16 \<Rightarrow> nat) \<Rightarrow> (u16 \<Rightarrow> nat \<Rightarrow> fragment) \<Rightarrow> (u16 \<Rightarrow> nat set) \<Rightarrow> pft \<Rightarrow> bool" where
  "pft_holds F fr J p =
     (map_ok (pf_afbuilders p) \<and>
      (\<forall>q. case map_get (pf_afbuilders p) q of
             None \<Rightarrow> J q = {}
           | Some b \<Rightarrow> J q \<noteq> {} \<and> collected q (F q) (fr q) (J q) b))"

lemma pft_holds_get:
  "pft_holds F fr J p \<Longrightarrow> J q \<noteq> {} \<Longrightarrow>
     \<exists>b. map_get (pf_afbuilders p) q = Some b \<and> collected q (F q) (fr q) (J q) b"
  by (auto simp: pft_holds_def dest: spec [of _ q] split: option.splits)

lemma lifetime_positive:
  assumes "0 < F" "F < 2 ^ 24" "0 < d" "d < 2 ^ 32"
  shows "(ucast (of_nat F :: u32) * of_nat d :: u64) > 0"
proof -
  have f: "unat (ucast (of_nat F :: u32) :: u64) = F"
    using assms(2) unat_of_nat_small [of F, where 'a = 32] by (simp add: unsigned_ucast_eq take_bit_eq_mod)
  have d: "unat (of_nat d :: u64) = d" using assms(4) by (intro unat_of_nat_small) simp
  have "F * d < 2 ^ 24 * 2 ^ 32" using assms by (intro mult_strict_mono) auto
  then have "unat (ucast (of_nat F :: u32) * of_nat d :: u64) = F * d"
    using f d by (simp add: unat_word_ariths)
  then show ?thesis using assms(1,3) by (metis mult_pos_pos unat_gt_0 word_gt_0)
qed

lemma pft_push:
  assumes "pft_holds F fr J p" "family q (F q) (fr q)" "j < F q"
    and "pf_max_delay p = of_nat d" "0 < d" "d < 2 ^ 32"
  shows "\<exists>p'. pft_pushPFTFrag p (fr q j) = (p', Inr ()) \<and> pft_holds F fr (J(q := insert j (J q))) p' \<and>
    pf_max_delay p' = of_nat d \<and> pf_afbuilders p' \<noteq> [] \<and>
    pf_next_pseq p' = (if pf_afbuilders p = [] then q else pf_next_pseq p)"
proof -
  have f: "fr_Pseq (fr q j) = q" "fr_Fcount (fr q j) = of_nat (F q)" and F: "0 < F q" "F q < 2 ^ 24"
    using assms(2,3) by (auto simp: family_def)
  let ?p = "if pf_afbuilders p = [] then p\<lparr>pf_next_pseq := q\<rparr> else p"
  have p: "pf_afbuilders ?p = pf_afbuilders p" "pf_max_delay ?p = of_nat d" using assms(4) by auto
  have ok: "map_ok (pf_afbuilders p)" using assms(1) by (simp add: pft_holds_def)
  obtain b where b: "(case map_get (pf_afbuilders p) q of
        Some b \<Rightarrow> Inr b
      | None \<Rightarrow> AFBuilder q (of_nat (F q)) (ucast (of_nat (F q) :: u32) * of_nat d)) = Inr b"
    "collected q (F q) (fr q) (J q) b"
  proof (cases "map_get (pf_afbuilders p) q")
    case None
    then have "J q = {}" using assms(1) by (auto simp: pft_holds_def dest: spec [of _ q])
    then show ?thesis using that None lifetime_positive [OF F assms(5,6)]
      by (simp add: AFBuilder_def collected_def map_ok_def)
  next
    case (Some b)
    then show ?thesis using that assms(1) by (auto simp: pft_holds_def dest: spec [of _ q])
  qed
  obtain b' where b': "ab_pushPFTFrag b (fr q j) = Inr b'" "collected q (F q) (fr q) (insert j (J q)) b'"
    using collected_push [OF assms(2) b(2) assms(3)] by blast
  let ?m = "map_put q b' (map_put q b (pf_afbuilders p))"
  let ?p' = "?p\<lparr>pf_afbuilders := ?m\<rparr>"
  have "pft_pushPFTFrag p (fr q j) = (?p', Inr ())"
    unfolding pft_pushPFTFrag_def Let_def f p(1,2) b(1) by (simp add: b'(1) p(1))
  moreover have m: "map_ok ?m" "map_get ?m k = (if k = q then Some b' else map_get (pf_afbuilders p) k)" for k
    using ok by (simp_all add: map_ok_put map_get_put)
  have "pft_holds F fr (J(q := insert j (J q))) ?p'"
    using assms(1) b'(2) m unfolding pft_holds_def by (simp cong: option.case_cong)
  moreover have "?m \<noteq> []" using m(2) [of q] by (auto simp: map_get_def)
  ultimately show ?thesis using p by (intro exI [of _ ?p']) auto
qed

fun pft_pushes :: "pft \<Rightarrow> fragment list \<Rightarrow> pft \<times> unit result" where
  "pft_pushes p [] = (p, Inr ())"
| "pft_pushes p (x # xs) =
     (case pft_pushPFTFrag p x of (p, Inl e) \<Rightarrow> (p, Inl e) | (p, Inr _) \<Rightarrow> pft_pushes p xs)"

lemma pft_pushes_hold:
  assumes "\<forall>(q, j) \<in> set xs. family q (F q) (fr q) \<and> j < F q"
    and "pft_holds F fr J p" "pf_max_delay p = of_nat d" "0 < d" "d < 2 ^ 32" "pf_afbuilders p \<noteq> []"
  shows "\<exists>p'. pft_pushes p (map (\<lambda>(q, j). fr q j) xs) = (p', Inr ()) \<and>
    pft_holds F fr (\<lambda>q. J q \<union> {j. (q, j) \<in> set xs}) p' \<and> pf_max_delay p' = of_nat d \<and>
    pf_next_pseq p' = pf_next_pseq p"
  using assms(1-3,6)
proof (induction xs arbitrary: p J)
  case Nil
  then show ?case by simp
next
  case (Cons x xs)
  obtain q j where x: "x = (q, j)" by (cases x)
  then obtain p1 where p1: "pft_pushPFTFrag p (fr q j) = (p1, Inr ())"
    "pft_holds F fr (J(q := insert j (J q))) p1" "pf_max_delay p1 = of_nat d" "pf_afbuilders p1 \<noteq> []"
    "pf_next_pseq p1 = pf_next_pseq p"
    using pft_push [of F fr J p q j d] Cons.prems assms(4,5) by auto
  have J: "(\<lambda>k. (J(q := insert j (J q))) k \<union> {i. (k, i) \<in> set xs}) = (\<lambda>k. J k \<union> {i. (k, i) \<in> set (x # xs)})"
    using x by (intro ext) (auto simp: fun_upd_def)
  show ?case
    using Cons.IH [OF _ p1(2,3,4)] Cons.prems(1) p1(1,5) x unfolding J by simp
qed

lemma pft_get_complete:
  assumes "pft_holds F fr J p" "family s (F s) (fr s)" "J s = {..<F s}" "pf_next_pseq p = s"
    and "\<forall>j < F s. \<not> fr_FEC (fr s j)"
    and "af = concat (map (\<lambda>j. fr_payload (fr s j)) [0..<F s])" "12 \<le> length af" "checkCRC af (length af) = Inr True"
  shows "\<exists>p'. getNextAFPacket rs p = (p', Inr (af, s)) \<and> pf_next_pseq p' = s + 1"
proof -
  have "J s \<noteq> {}" using assms(2,3) by (auto simp: family_def)
  then obtain b where b: "map_get (pf_afbuilders p) s = Some b" "collected s (F s) (fr s) {..<F s} b"
    using pft_holds_get [OF assms(1), of s] unfolding assms(3) by blast
  show ?thesis
    using b(1) complete_can_decode [OF assms(2) b(2)] extract_complete_plain [OF assms(2) b(2) assms(5-8), of rs] assms(4)
    by (simp add: getNextAFPacket_def incrementNextPseq_def)
qed

section \<open>The bytes of a fragment\<close>

text \<open>The header of TS 102 821, clause 7.1, and the whole fragment.\<close>

definition be24 :: "u32 \<Rightarrow> bytes" where
  "be24 x = [ucast (shr x 16), ucast (shr x 8), ucast x]"

definition pf_flags :: "fragment \<Rightarrow> u16" where
  "pf_flags fr = (if fr_FEC fr then 0x8000 else 0) OR (if fr_Addr fr then 0x4000 else 0) OR fr_Plen fr"

definition pf_optional :: "fragment \<Rightarrow> bytes" where
  "pf_optional fr = (if fr_FEC fr then [fr_RSk fr, fr_RSz fr] else []) @
     (if fr_Addr fr then be16 (fr_Source fr) @ be16 (fr_Dest fr) else [])"

definition pf_header :: "fragment \<Rightarrow> bytes" where
  "pf_header fr = [0x50, 0x46] @ be16 (fr_Pseq fr) @ be24 (fr_Findex fr) @ be24 (fr_Fcount fr) @
     be16 (pf_flags fr) @ pf_optional fr"

definition pf_bytes :: "fragment \<Rightarrow> bytes" where
  "pf_bytes fr = pf_header fr @ be16 (crc16 0xffff (pf_header fr) XOR 0xffff) @ fr_payload fr"

definition wf_fragment :: "fragment \<Rightarrow> bool" where
  "wf_fragment fr =
     (fr_valid fr \<and> fr_Findex fr < 2 ^ 24 \<and> fr_Fcount fr < 2 ^ 24 \<and> fr_Plen fr < 2 ^ 14 \<and>
      length (fr_payload fr) = unat (fr_Plen fr) \<and>
      (\<not> fr_FEC fr \<longrightarrow> fr_RSk fr = 0 \<and> fr_RSz fr = 0) \<and>
      (\<not> fr_Addr fr \<longrightarrow> fr_Source fr = 0 \<and> fr_Dest fr = 0))"

lemma bit_less_power: "(x :: 'a::len word) < 2 ^ n \<Longrightarrow> n < LENGTH('a) \<Longrightarrow> n \<le> k \<Longrightarrow> \<not> bit x k"
proof
  assume x: "x < 2 ^ n" "n < LENGTH('a)" "n \<le> k" and b: "bit x k"
  have "unat (2 ^ n :: 'a word) = 2 ^ n"
    using x(2) unat_of_nat_small [of "2 ^ n", where 'a = 'a] by simp
  then have "unat x < 2 ^ n" using x(1) by (simp add: word_less_nat_alt)
  moreover have "2 ^ k \<le> unat x"
  proof (rule ccontr)
    assume "\<not> 2 ^ k \<le> unat x"
    then have "unat x div 2 ^ k = 0" by simp
    moreover have "bit (unat x) k" using b by (simp add: bit_unsigned_iff)
    ultimately show False by (simp add: bit_iff_odd)
  qed
  moreover have "(2 :: nat) ^ n \<le> 2 ^ k" using x(3) by simp
  ultimately show False by linarith
qed

lemma be24_join:
  fixes x :: u32
  assumes "x < 2 ^ 24"
  shows "shl (ucast (ucast (shr x 16) :: u8)) 16 OR shl (ucast (ucast (shr x 8) :: u8)) 8 OR ucast (ucast x :: u8) = x"
    (is "?l = x")
proof (rule bit_word_eqI)
  fix n assume n: "n < LENGTH(32)"
  have "n < 8 \<or> 8 \<le> n \<and> n < 16 \<or> 16 \<le> n \<and> n < 24 \<or> 24 \<le> n" by arith
  then show "bit ?l n = bit x n"
    using n bit_less_power [OF assms, of n] by (elim disjE) (auto simp: bit_or_iff bit_ucast_iff)
qed

lemma read_be24: "x < 2 ^ 24 \<Longrightarrow> off = length pre \<Longrightarrow> read_24b (pre @ be24 x @ post) off = Inr x"
  using be24_join by (simp add: read_24b_ok nth_append be24_def)

lemma flag_words: "(0x8000 :: u16) = shl 1 15" "(0x4000 :: u16) = shl 1 14" "(0x3FFF :: u16) = mask 14"
  by (simp_all add: shl_def mask_eq_exp_minus_1)

lemma bit_pf_flags:
  "fr_Plen fr < 2 ^ 14 \<Longrightarrow> bit (pf_flags fr) 15 = fr_FEC fr"
  "fr_Plen fr < 2 ^ 14 \<Longrightarrow> bit (pf_flags fr) 14 = fr_Addr fr"
  using bit_less_power [of "fr_Plen fr" 14 15] bit_less_power [of "fr_Plen fr" 14 14]
  unfolding pf_flags_def flag_words by (auto simp: bit_or_iff bit_1_iff)

lemma pf_flags_plen: "fr_Plen fr < 2 ^ 14 \<Longrightarrow> pf_flags fr AND 0x3FFF = fr_Plen fr"
proof (rule bit_word_eqI)
  fix n assume p: "fr_Plen fr < 2 ^ 14" and n: "n < LENGTH(16)"
  show "bit (pf_flags fr AND 0x3FFF) n = bit (fr_Plen fr) n"
    unfolding pf_flags_def flag_words using n bit_less_power [OF p, of n]
    by (cases "n < 14") (auto simp: bit_or_iff bit_and_iff bit_mask_iff bit_1_iff not_less)
qed

lemma load_optional_ok:
  assumes "off = length pre" "\<not> fr_FEC fr \<longrightarrow> fr_RSk fr = 0 \<and> fr_RSz fr = 0"
    "\<not> fr_Addr fr \<longrightarrow> fr_Source fr = 0 \<and> fr_Dest fr = 0" "fr_FEC x = fr_FEC fr" "fr_Addr x = fr_Addr fr"
  shows "load_optional (pre @ pf_optional fr @ post) off x =
    Inr (x\<lparr>fr_RSk := fr_RSk fr, fr_RSz := fr_RSz fr, fr_Source := fr_Source fr, fr_Dest := fr_Dest fr\<rparr>,
         off + length (pf_optional fr))"
proof (cases "fr_FEC fr")
  case True
  have r: "read_16b (pre @ fr_RSk fr # fr_RSz fr # be16 (fr_Source fr) @ be16 (fr_Dest fr) @ post) (length pre + 2) = Inr (fr_Source fr)"
    "read_16b (pre @ fr_RSk fr # fr_RSz fr # be16 (fr_Source fr) @ be16 (fr_Dest fr) @ post) (length pre + 4) = Inr (fr_Dest fr)"
    using read_be16 [of "length pre + 2" "pre @ [fr_RSk fr, fr_RSz fr]" "fr_Source fr" "be16 (fr_Dest fr) @ post"]
      read_be16 [of "length pre + 4" "pre @ [fr_RSk fr, fr_RSz fr] @ be16 (fr_Source fr)" "fr_Dest fr" post] by simp_all
  have four: "Suc (Suc (Suc (Suc n))) = n + 4" for n by simp
  show ?thesis using True assms r by (auto simp: load_optional_def pf_optional_def nth_append four)
next
  case False
  have r: "read_16b (pre @ be16 (fr_Source fr) @ be16 (fr_Dest fr) @ post) (length pre) = Inr (fr_Source fr)"
    "read_16b (pre @ be16 (fr_Source fr) @ be16 (fr_Dest fr) @ post) (length pre + 2) = Inr (fr_Dest fr)"
    using read_be16 [of "length pre" "pre" "fr_Source fr" "be16 (fr_Dest fr) @ post"]
      read_be16 [of "length pre + 2" "pre @ be16 (fr_Source fr)" "fr_Dest fr" post] by simp_all
  show ?thesis using False assms r by (auto simp: load_optional_def pf_optional_def)
qed

lemma length_pf_header: "length (pf_header fr) = 12 + length (pf_optional fr)"
  by (simp add: pf_header_def be24_def)

lemma pf_header_reads:
  assumes "wf_fragment fr"
  shows "read_16b (pf_header fr @ rest) 2 = Inr (fr_Pseq fr)"
    and "read_24b (pf_header fr @ rest) 4 = Inr (fr_Findex fr)"
    and "read_24b (pf_header fr @ rest) 7 = Inr (fr_Fcount fr)"
    and "rd (pf_header fr @ rest) 10 = Inr (ucast (shr (pf_flags fr) 8))"
    and "read_16b (pf_header fr @ rest) 10 = Inr (pf_flags fr)"
    and "(pf_header fr @ rest) ! 0 = 0x50" "(pf_header fr @ rest) ! 1 = 0x46"
proof -
  let ?a = "[0x50, 0x46] :: bytes" and ?b = "be16 (fr_Pseq fr)" and ?c = "be24 (fr_Findex fr)"
    and ?d = "be24 (fr_Fcount fr)" and ?e = "be16 (pf_flags fr)"
  show "read_16b (pf_header fr @ rest) 2 = Inr (fr_Pseq fr)"
    using read_be16 [of 2 ?a "fr_Pseq fr"] by (simp add: pf_header_def)
  show "read_24b (pf_header fr @ rest) 4 = Inr (fr_Findex fr)"
    using read_be24 [of "fr_Findex fr" 4 "?a @ ?b"] assms by (simp add: pf_header_def wf_fragment_def)
  show "read_24b (pf_header fr @ rest) 7 = Inr (fr_Fcount fr)"
    using read_be24 [of "fr_Fcount fr" 7 "?a @ ?b @ ?c"] assms by (simp add: pf_header_def wf_fragment_def be24_def)
  show "read_16b (pf_header fr @ rest) 10 = Inr (pf_flags fr)"
    using read_be16 [of 10 "?a @ ?b @ ?c @ ?d" "pf_flags fr"] by (simp add: pf_header_def be24_def)
  show "rd (pf_header fr @ rest) 10 = Inr (ucast (shr (pf_flags fr) 8))"
    "(pf_header fr @ rest) ! 0 = 0x50" "(pf_header fr @ rest) ! 1 = 0x46"
    by (simp_all add: pf_header_def be16_def be24_def)
qed

lemma loadData_bytes:
  assumes wf: "wf_fragment fr" and len: "fr_FEC fr \<and> fr_Addr fr \<or> 2 \<le> length (fr_payload fr @ rest)"
  shows "loadData (pf_bytes fr @ rest) port fr0 = Inr (fr\<lparr>fr_received_on_port := port\<rparr>, length (pf_bytes fr))"
proof -
  let ?crc = "be16 (crc16 0xffff (pf_header fr) XOR 0xffff)"
  let ?tail = "?crc @ fr_payload fr @ rest"
  let ?buf = "pf_header fr @ ?tail"
  let ?i = "14 + length (pf_optional fr)"
  note w = wf [unfolded wf_fragment_def]
  let ?y = "fr0\<lparr>fr_received_on_port := port, fr_Pseq := fr_Pseq fr, fr_Findex := fr_Findex fr,
    fr_Fcount := fr_Fcount fr, fr_FEC := fr_FEC fr, fr_Addr := fr_Addr fr, fr_Plen := fr_Plen fr\<rparr>"
  have buf: "pf_bytes fr @ rest = ?buf" by (simp add: pf_bytes_def)
  have flags: "unpack1bit (ucast (shr (pf_flags fr) 8)) 0 = fr_FEC fr"
    "unpack1bit (ucast (shr (pf_flags fr) 8)) 1 = fr_Addr fr" "pf_flags fr AND 0x3FFF = fr_Plen fr"
    using w by (simp_all add: unpack1bit_bit bit_ucast_iff bit_pf_flags pf_flags_plen)
  have opt: "load_optional ?buf 12 ?y = Inr (?y\<lparr>fr_RSk := fr_RSk fr, fr_RSz := fr_RSz fr,
      fr_Source := fr_Source fr, fr_Dest := fr_Dest fr\<rparr>, 12 + length (pf_optional fr))"
    using load_optional_ok [of 12 "[0x50, 0x46] @ be16 (fr_Pseq fr) @ be24 (fr_Findex fr) @ be24 (fr_Fcount fr) @
      be16 (pf_flags fr)" fr ?y ?tail] w by (simp add: pf_header_def be24_def)
  have crc: "checkCRC ?buf ?i = Inr True"
    using checkCRC_prefix [of "pf_header fr" "fr_payload fr @ rest"] by (simp add: length_pf_header)
  have payload: "memread ?buf ?i (unat (fr_Plen fr)) = Inr (fr_payload fr)"
    using w by (simp add: memread_ok length_pf_header)
  have o: "length (pf_optional fr) = (if fr_FEC fr then 2 else 0) + (if fr_Addr fr then 4 else 0)"
    by (simp add: pf_optional_def)
  have fs: "fr_FEC ?y = fr_FEC fr" "fr_Addr ?y = fr_Addr fr" by simp_all
  have req: "\<not> length ?buf < 14 + (if fr_FEC fr then 1 else 0) + (if fr_Addr fr then 2 else 0) + 2"
    using len o by (auto simp: length_pf_header)
  have enough: "?i + unat (fr_Plen fr) \<le> length ?buf" "\<not> length ?buf < 14"
    using w by (simp_all add: length_pf_header)
  have all: "?y\<lparr>fr_RSk := fr_RSk fr, fr_RSz := fr_RSz fr, fr_Source := fr_Source fr, fr_Dest := fr_Dest fr,
      fr_valid := True, fr_payload := fr_payload fr\<rparr> = fr\<lparr>fr_received_on_port := port\<rparr>"
    using w by (cases fr, cases fr0) simp
  have "rd ?buf 10 = Inr (ucast (shr (pf_flags fr) 8))" using pf_header_reads [OF wf] by blast
  then have "loadData ?buf port fr0 =
      bindE (load_optional ?buf 12 ?y) (\<lambda>(fr, index).
               let index = index + 2 in
               bindE (checkCRC ?buf index) (\<lambda>crc_valid.
               let enough = (length ?buf \<ge> index + unat (fr_Plen fr)) in
               if \<not> enough then Inr (fr, 0)
               else
                 let fr = fr\<lparr>fr_valid := (\<not> fr_FEC fr \<or> crc_valid) \<and> enough, fr_payload := []\<rparr>
                 in if fr_valid fr
                    then bindE (memread ?buf index (unat (fr_Plen fr))) (\<lambda>p.
                         Inr (fr\<lparr>fr_payload := p\<rparr>, index + unat (fr_Plen fr)))
                    else Inr (fr, index)))"
    using enough(2) req pf_header_reads [OF wf, of ?tail]
    by (simp only: loadData_def flags fs bindE_simps Let_def if_False if_True simp_thms)
  then show ?thesis
    unfolding buf opt using crc payload enough(1) all w
    by (simp add: pf_bytes_def length_pf_header add.commute split del: if_split)
qed

section \<open>Properties\<close>

text \<open>
  C9. Without forward error correction: however the fragments of several packets are reordered,
  duplicated and interleaved, once all fragments of the packet whose fragment came first are
  there, the next packet delivered is that packet, byte for byte.
\<close>

theorem pft_reassembles:
  assumes "\<forall>(q, j) \<in> set xs. family q (F q) (fr q) \<and> j < F q" and "xs \<noteq> []" and "s = fst (hd xs)"
    and "\<forall>j < F s. (s, j) \<in> set xs \<and> \<not> fr_FEC (fr s j)" and "0 < d" and "d < 2 ^ 32"
    and "af = concat (map (\<lambda>j. fr_payload (fr s j)) [0..<F s])"
    and "12 \<le> length af" and "checkCRC af (length af) = Inr True"
  shows "\<exists>p p'. pft_pushes (setMaxDelay (PFT junk) (of_nat d)) (map (\<lambda>(q, j). fr q j) xs) = (p, Inr ()) \<and>
    getNextAFPacket rs p = (p', Inr (af, s)) \<and> pf_next_pseq p' = s + 1"
proof -
  obtain j ys where xs: "xs = (s, j) # ys" using assms(2,3) by (cases xs) auto
  then have fam: "family s (F s) (fr s)" "j < F s" using assms(1) by auto
  let ?p0 = "setMaxDelay (PFT junk) (of_nat d)"
  have p0: "pft_holds F fr (\<lambda>_. {}) ?p0" "pf_max_delay ?p0 = of_nat d" "pf_afbuilders ?p0 = []"
    by (simp_all add: pft_holds_def setMaxDelay_def PFT_def map_ok_def map_get_def)
  obtain p1 where p1: "pft_pushPFTFrag ?p0 (fr s j) = (p1, Inr ())" "pft_holds F fr ((\<lambda>_. {})(s := {j})) p1"
    "pf_max_delay p1 = of_nat d" "pf_afbuilders p1 \<noteq> []" "pf_next_pseq p1 = s"
    using pft_push [OF p0(1) fam p0(2) assms(5,6)] p0(3) by auto
  have "\<forall>(q, j) \<in> set ys. family q (F q) (fr q) \<and> j < F q" using assms(1) xs by auto
  from pft_pushes_hold [OF this p1(2,3) assms(5,6) p1(4)] p1(5) obtain p where p:
    "pft_pushes p1 (map (\<lambda>(q, j). fr q j) ys) = (p, Inr ())"
    "pft_holds F fr (\<lambda>q. ((\<lambda>_. {})(s := {j})) q \<union> {j. (q, j) \<in> set ys}) p" "pf_next_pseq p = s" by auto
  have "((\<lambda>_. {})(s := {j})) s \<union> {j. (s, j) \<in> set ys} = {..<F s}"
    using assms(1,4) xs by auto
  from pft_get_complete [OF p(2) fam(1) this p(3)] assms(4,7-9) obtain p' where
    "getNextAFPacket rs p = (p', Inr (af, s))" "pf_next_pseq p' = s + 1" by blast
  then show ?thesis using p(1) p1(1) xs by auto
qed

text \<open>
  A fragment that follows the standard is read back: the header fields, the payload and the
  number of bytes used. The length check asks for two bytes more than needed unless both optional
  headers are there.
\<close>

lemma loadData_roundtrip:
  assumes "wf_fragment fr" and "fr_FEC fr \<and> fr_Addr fr \<or> 2 \<le> length (fr_payload fr @ rest)"
  shows "loadData (pf_bytes fr @ rest) port fr0 = Inr (fr\<lparr>fr_received_on_port := port\<rparr>, length (pf_bytes fr))"
  using assms by (rule loadData_bytes)

text \<open>An AF packet without tags, cut into two fragments.\<close>

definition sample_data :: bytes where
  "sample_data = [0x41, 0x46, 0, 0, 0, 0, 0, 1, 0x90, 0x54]"

definition sample_af :: bytes where
  "sample_af = sample_data @ be16 (crc16 0xffff sample_data XOR 0xffff)"

lemma sample_af_facts: "length sample_af = 12" "checkCRC sample_af (length sample_af) = Inr True"
proof -
  have len: "length sample_data = 10" by (simp add: sample_data_def)
  then show "length sample_af = 12" by (simp add: sample_af_def)
  then show "checkCRC sample_af (length sample_af) = Inr True"
    using checkCRC_append [of sample_data] len by (simp add: sample_af_def)
qed

definition plain_fragment :: "nat \<Rightarrow> fragment" where
  "plain_fragment j = new_fragment\<lparr>fr_payload := (if j = 0 then take 10 sample_af else drop 10 sample_af),
     fr_Pseq := 0xffff, fr_Findex := of_nat j, fr_Fcount := 2, fr_Plen := (if j = 0 then 10 else 2), fr_valid := True\<rparr>"

lemma loadData_roundtrip_witness:
  "\<forall>fr0. loadData (pf_bytes (plain_fragment 0) @ [0x50]) 9100 fr0 =
     Inr (plain_fragment 0\<lparr>fr_received_on_port := 9100\<rparr>, length (pf_bytes (plain_fragment 0)))"
  by (rule allI, rule loadData_roundtrip) (simp_all add: wf_fragment_def plain_fragment_def new_fragment_def sample_af_facts)

theorem pft_reassembles_witness:
  "\<forall>rs junk. \<exists>p p'. pft_pushes (setMaxDelay (PFT junk) (of_nat 10))
       (map (\<lambda>(q :: u16, j). plain_fragment j) [(0xffff, 1), (0xffff, 1), (0xffff, 0)]) = (p, Inr ()) \<and>
     getNextAFPacket rs p = (p', Inr (sample_af, 0xffff)) \<and>
     pf_next_pseq p' = 0"
proof (intro allI)
  fix rs :: rs_decoder and junk :: u16
  have fam: "family 0xffff 2 plain_fragment"
    by (auto simp: family_def checkConsistency_def plain_fragment_def new_fragment_def)
  have af: "fr_payload (plain_fragment 0) @ fr_payload (plain_fragment 1) = sample_af"
    by (simp add: plain_fragment_def)
  have "\<exists>p p'. pft_pushes (setMaxDelay (PFT junk) (of_nat 10))
       (map (\<lambda>(q :: u16, j). (\<lambda>_. plain_fragment) q j) [(0xffff, 1), (0xffff, 1), (0xffff, 0)]) = (p, Inr ()) \<and>
     getNextAFPacket rs p = (p', Inr (sample_af, 0xffff)) \<and> pf_next_pseq p' = 0xffff + 1"
    by (rule pft_reassembles [where F = "\<lambda>_. 2"])
      (use fam af sample_af_facts in \<open>auto simp: less_2_cases_iff upt_rec\<close>, auto simp: plain_fragment_def new_fragment_def)
  moreover have "(0xffff + 1 :: u16) = 0" by simp
  ultimately show "\<exists>p p'. pft_pushes (setMaxDelay (PFT junk) (of_nat 10))
       (map (\<lambda>(q :: u16, j). plain_fragment j) [(0xffff, 1), (0xffff, 1), (0xffff, 0)]) = (p, Inr ()) \<and>
     getNextAFPacket rs p = (p', Inr (sample_af, 0xffff)) \<and> pf_next_pseq p' = 0"
    by (simp only:)
qed

end
