(* ===== verification/Pft_Fec.thy ===== *)
theory Pft_Fec
  imports Pft
begin

text \<open>
  Recovery of lost fragments by \<open>AFBuilder::extractAF\<close> of \<open>lib/edi/PFT.cpp\<close>. The Reed-Solomon
  decoder is an argument; \<open>rs_corrects\<close> states what is documented of it, correction of errors and
  erasures within the distance of the code. The sender's side follows TS 102 821, clause 7.4.
\<close>

section \<open>Contract and sender\<close>

text \<open>\<open>t\<close> errors and \<open>e\<close> erasures are corrected as long as \<open>2 t + e \<le> 48\<close>.\<close>

definition rs_corrects :: "rs_decoder \<Rightarrow> bytes set \<Rightarrow> bool" where
  "rs_corrects rs code =
     (\<forall>c \<in> code. length c = 255 \<and>
       (\<forall>r eras. length r = 255 \<longrightarrow> distinct eras \<longrightarrow> set eras \<subseteq> {..<255} \<longrightarrow>
          2 * card {p. p < 255 \<and> p \<notin> set eras \<and> r ! p \<noteq> c ! p} + length eras \<le> 48 \<longrightarrow>
          fst (rs r eras) = c \<and> snd (rs r eras) \<noteq> - 1))"

text \<open>The codewords: data, zeros up to 207 bytes, parity. The block has no zeros in between.\<close>

definition codeword :: "nat \<Rightarrow> (nat \<Rightarrow> bytes) \<Rightarrow> (nat \<Rightarrow> bytes) \<Rightarrow> nat \<Rightarrow> bytes" where
  "codeword rsk D P i = D i @ replicate (207 - rsk) 0 @ P i"

definition rs_block :: "(nat \<Rightarrow> bytes) \<Rightarrow> (nat \<Rightarrow> bytes) \<Rightarrow> nat \<Rightarrow> nat \<Rightarrow> bytes" where
  "rs_block D P c pad = concat (map (\<lambda>i. D i @ P i) [0..<c]) @ replicate pad 0"

text \<open>The offsets of chunk \<open>i\<close> that are in fragments not received.\<close>

definition lost :: "nat \<Rightarrow> nat set \<Rightarrow> nat \<Rightarrow> nat \<Rightarrow> nat set" where
  "lost F J len i = {q. q < len \<and> (i * len + q) mod F \<notin> J}"

text \<open>
  What is left to the decoder in one chunk. The code numbers the parity bytes from \<open>RSk\<close> in the
  list of erasures and stores them from 207, so that with a shorter chunk a lost parity byte
  costs an erasure at a wrong place and an error.
\<close>

definition chunk_cost :: "nat \<Rightarrow> nat \<Rightarrow> nat set \<Rightarrow> nat \<Rightarrow> nat" where
  "chunk_cost rsk F J i =
     card (lost F J (rsk + 48) i) +
     (if rsk = 207 then 0 else 2 * card {q \<in> lost F J (rsk + 48) i. rsk \<le> q})"

section \<open>Deinterleaving\<close>

lemma column_less:
  assumes "j < F" "k < plen"
  shows "k * F + j < F * (plen :: nat)"
proof -
  have "k * F + j < Suc k * F" using assms(1) by simp
  also have "\<dots> \<le> plen * F" using assms(2) by (intro mult_le_mono1) simp
  finally show ?thesis by (simp only: mult.commute)
qed

lemma fill_upto:
  assumes "m \<le> plen" "j < F" "length blk = F * plen"
  shows "\<exists>blk'. for_each (\<lambda>k blk. wr blk (k * F + j) (col ! k)) [0..<m] blk = Inr blk' \<and> length blk' = F * plen \<and>
    (\<forall>n < F * plen. blk' ! n = (if n mod F = j \<and> n div F < m then col ! (n div F) else blk ! n))"
  using assms(1)
proof (induction m)
  case 0
  then show ?case using assms(3) by simp
next
  case (Suc m)
  then obtain b where b: "for_each (\<lambda>k blk. wr blk (k * F + j) (col ! k)) [0..<m] blk = Inr b" "length b = F * plen"
    "\<forall>n < F * plen. b ! n = (if n mod F = j \<and> n div F < m then col ! (n div F) else blk ! n)" by auto
  have lt: "m * F + j < F * plen" using column_less [OF assms(2), of m plen] Suc.prems by simp
  have nth: "b[m * F + j := col ! m] ! n =
      (if n mod F = j \<and> n div F < Suc m then col ! (n div F) else blk ! n)" if n: "n < F * plen" for n
  proof (cases "n = m * F + j")
    case True
    then show ?thesis using b(2) lt assms(2) by simp
  next
    case False
    then have "\<not> (n mod F = j \<and> n div F = m)" using div_mult_mod_eq [of n F] by auto
    then show ?thesis using False b(3) n by (auto simp: less_Suc_eq)
  qed
  show ?case
    using b(1,2) lt nth by (simp add: for_each_append)
qed

lemma fill_column_ok:
  assumes "j < F" "length blk = F * plen" "length col = plen"
  shows "\<exists>blk'. fill_column F j col blk = Inr blk' \<and> length blk' = F * plen \<and>
    (\<forall>n < F * plen. blk' ! n = (if n mod F = j then col ! (n div F) else blk ! n))"
proof -
  have d: "n div F < plen" if "n < F * plen" for n
    using that by (simp add: less_mult_imp_div_less mult.commute)
  obtain b where b: "fill_column F j col blk = Inr b" "length b = F * plen"
    "\<forall>n < F * plen. b ! n = (if n mod F = j \<and> n div F < plen then col ! (n div F) else blk ! n)"
    using fill_upto [of plen plen j F blk col] assms unfolding fill_column_def by auto
  then show ?thesis using d by auto
qed

definition erased_positions :: "nat \<Rightarrow> nat set \<Rightarrow> nat \<Rightarrow> nat \<Rightarrow> nat list" where
  "erased_positions F J plen m = concat (map (\<lambda>j. map (\<lambda>k. k * F + j) [0..<plen]) (filter (\<lambda>j. j \<notin> J) [0..<m]))"

lemma columns_ok:
  assumes fam: "family s F fr" and col: "collected s F fr J b" and "m \<le> F"
    and len: "\<forall>j < F. length (fr_payload (fr j)) = plen"
  shows "\<exists>blk. for_each (rs_column (ab_fragments b) F plen L) [0..<m] (replicate (F * plen) 0, []) =
      Inr (blk, map (\<lambda>n. (n div L, n mod L)) (erased_positions F J plen m)) \<and> length blk = F * plen \<and>
    (\<forall>n < F * plen. blk ! n = (if n mod F < m \<and> n mod F \<in> J then fr_payload (fr (n mod F)) ! (n div F) else 0))"
  using assms(3)
proof (induction m)
  case 0
  then show ?case by (simp add: erased_positions_def)
next
  case (Suc m)
  then obtain blk where blk: "for_each (rs_column (ab_fragments b) F plen L) [0..<m] (replicate (F * plen) 0, []) =
      Inr (blk, map (\<lambda>n. (n div L, n mod L)) (erased_positions F J plen m))" "length blk = F * plen"
    "\<forall>n < F * plen. blk ! n = (if n mod F < m \<and> n mod F \<in> J then fr_payload (fr (n mod F)) ! (n div F) else 0)"
    by auto
  have m: "m < F" using Suc.prems by simp
  let ?c = "if m \<in> J then fr_payload (fr m) else replicate plen 0"
  have "length ?c = plen" using len m by simp
  from fill_column_ok [OF m blk(2) this] obtain blk' where blk': "fill_column F m ?c blk = Inr blk'"
    "length blk' = F * plen" "\<forall>n < F * plen. blk' ! n = (if n mod F = m then ?c ! (n div F) else blk ! n)" by blast
  have d: "n div F < plen" if "n < F * plen" for n
    using that by (simp add: less_mult_imp_div_less mult.commute)
  have step: "rs_column (ab_fragments b) F plen L m (blk, er) = Inr (blk',
      er @ (if m \<in> J then [] else map (\<lambda>n. (n div L, n mod L)) (map (\<lambda>k. k * F + m) [0..<plen])))" for er
    using collected_get [OF fam col m] blk'(1) len m by (auto simp: rs_column_def comp_def)
  show ?case
    using blk step blk'(2,3) d
    by (auto simp: for_each_append erased_positions_def less_Suc_eq)
qed

lemma erased_set:
  assumes "0 < F"
  shows "set (erased_positions F J plen F) = {n. n < F * plen \<and> n mod F \<notin> J}"
proof (rule set_eqI)
  fix n
  show "n \<in> set (erased_positions F J plen F) \<longleftrightarrow> n \<in> {n. n < F * plen \<and> n mod F \<notin> J}"
  proof
    assume "n \<in> set (erased_positions F J plen F)"
    then obtain j k where jk: "j < F" "j \<notin> J" "k < plen" "n = k * F + j" by (auto simp: erased_positions_def)
    then have "n < F * plen" using column_less by blast
    then show "n \<in> {n. n < F * plen \<and> n mod F \<notin> J}" using jk by simp
  next
    assume "n \<in> {n. n < F * plen \<and> n mod F \<notin> J}"
    then have "n mod F \<notin> J" "n mod F < F" "n div F < plen" "n = n div F * F + n mod F"
      using assms by (simp_all add: less_mult_imp_div_less mult.commute)
    then show "n \<in> set (erased_positions F J plen F)" by (force simp: erased_positions_def)
  qed
qed

lemma erased_distinct:
  assumes "m \<le> F"
  shows "distinct (erased_positions F J plen m)"
  using assms
proof (induction m)
  case 0
  then show ?case by (simp add: erased_positions_def)
next
  case (Suc m)
  have "n mod F < m" if "n \<in> set (erased_positions F J plen m)" for n
    using that Suc.prems by (auto simp: erased_positions_def)
  moreover have "(k * F + m) mod F = m" for k using Suc.prems by simp
  ultimately have "k * F + m \<notin> set (erased_positions F J plen m)" for k by (metis less_irrefl)
  moreover have "inj_on (\<lambda>k. k * F + m) A" for A using Suc.prems by (auto intro: inj_onI)
  ultimately show ?case using Suc by (auto simp: erased_positions_def distinct_map)
qed

text \<open>The offsets erased in one chunk.\<close>

lemma chunk_erasures:
  fixes J :: "nat set"
  assumes "0 < F" "0 < L" "Suc i * L \<le> F * plen"
  defines "eras \<equiv> map snd (filter (\<lambda>e. fst e = i) (map (\<lambda>n. (n div L, n mod L)) (erased_positions F J plen F)))"
  shows "distinct eras" and "set eras = lost F J L i" and "length eras = card (lost F J L i)"
proof -
  let ?ns = "filter (\<lambda>n. n div L = i) (erased_positions F J plen F)"
  have e: "eras = map (\<lambda>n. n mod L) ?ns" unfolding eras_def by (simp add: filter_map comp_def)
  have "inj_on (\<lambda>n. n mod L) (set ?ns)"
    by (rule inj_onI) (metis (mono_tags, lifting) div_mult_mod_eq filter_is_subset mem_Collect_eq set_filter)
  then show d: "distinct eras" unfolding e distinct_map using erased_distinct [of F F] by simp
  show s: "set eras = lost F J L i"
  proof (rule set_eqI)
    fix q
    show "q \<in> set eras \<longleftrightarrow> q \<in> lost F J L i"
    proof
      assume "q \<in> set eras"
      then obtain n where "n mod F \<notin> J" "n div L = i" "q = n mod L"
        unfolding e using erased_set [OF assms(1), of J plen] by auto
      then show "q \<in> lost F J L i" using assms(2) by (auto simp: lost_def)
    next
      assume q: "q \<in> lost F J L i"
      then have "(i * L + q) mod F \<notin> J" "q < L" by (simp_all add: lost_def)
      moreover have "i * L + q < F * plen" using assms(3) calculation(2) by simp
      ultimately show "q \<in> set eras"
        unfolding e using erased_set [OF assms(1), of J plen] by (force intro: image_eqI [of _ _ "i * L + q"])
    qed
  qed
  show "length eras = card (lost F J L i)" using d s distinct_card by force
qed

section \<open>Decoding a chunk\<close>

lemma block_chunk:
  assumes "\<forall>i < c. length (D i) = rsk \<and> length (P i) = 48" "i < c" "q < rsk + 48"
  shows "rs_block D P c pad ! (i * (rsk + 48) + q) = (D i @ P i) ! q"
proof -
  have len: "\<forall>xs \<in> set (map (\<lambda>i. D i @ P i) [0..<c]). length xs = rsk + 48" using assms(1) by auto
  have "i * (rsk + 48) + q < Suc i * (rsk + 48)" using assms(3) by simp
  also have "\<dots> \<le> c * (rsk + 48)" using assms(2) by (intro mult_le_mono1) simp
  finally have lt: "i * (rsk + 48) + q < (rsk + 48) * length (map (\<lambda>i. D i @ P i) [0..<c])" by (simp add: mult.commute)
  have "length (concat (map (\<lambda>i. D i @ P i) [0..<c])) = (rsk + 48) * length (map (\<lambda>i. D i @ P i) [0..<c])"
    using len by (rule length_concat_same)
  then have "rs_block D P c pad ! (i * (rsk + 48) + q) = concat (map (\<lambda>i. D i @ P i) [0..<c]) ! (i * (rsk + 48) + q)"
    unfolding rs_block_def nth_append using lt by simp
  also have "\<dots> = map (\<lambda>i. D i @ P i) [0..<c] ! ((i * (rsk + 48) + q) div (rsk + 48)) ! ((i * (rsk + 48) + q) mod (rsk + 48))"
    using len lt by (rule nth_concat_same)
  also have "\<dots> = (D i @ P i) ! q" using assms(2,3) by simp
  finally show ?thesis .
qed

lemma budget: "(x :: nat) \<le> (if Q then 0 else y) \<Longrightarrow> m + (if Q then 0 else 2 * y) \<le> k \<Longrightarrow> 2 * x + m \<le> k"
  by (cases Q) auto

lemma decode_chunk_corrects:
  assumes rs: "rs_corrects rs code"
    and DP: "\<forall>i < c. length (D i) = rsk \<and> length (P i) = 48 \<and> codeword rsk D P i \<in> code" and i: "i < c" and rsk: "rsk \<le> 207"
    and F: "0 < F" and size: "F * plen = c * (rsk + 48) + pad" and blk: "length blk = F * plen"
    "\<forall>n < F * plen. blk ! n = (if n mod F \<in> J then rs_block D P c pad ! n else 0)"
    and cost: "chunk_cost rsk F J i \<le> 48"
  defines "er \<equiv> map (\<lambda>n. (n div (rsk + 48), n mod (rsk + 48))) (erased_positions F J plen F)"
  shows "\<exists>n. decode_chunk rs blk rsk er i = Inr (codeword rsk D P i, n) \<and> n \<noteq> - 1"
proof -
  let ?L = "rsk + 48"
  let ?w = "codeword rsk D P i"
  let ?eras = "map snd (filter (\<lambda>e. fst e = i) er)"
  let ?lost = "lost F J ?L i"
  have fit: "Suc i * ?L \<le> F * plen"
  proof -
    have "Suc i * ?L \<le> c * ?L" using i by (intro mult_le_mono1) simp
    then show ?thesis using size by simp
  qed
  have i_len: "length (D i) = rsk" "length (P i) = 48" "?w \<in> code" using DP i by auto
  note eras = chunk_erasures [OF F _ fit, of J, folded er_def]
  have eras_len: "length ?eras = card ?lost" and eras_set: "set ?eras = ?lost" and eras_distinct: "distinct ?eras"
    using eras by simp_all
  have in_blk: "i * ?L + q < F * plen" if "q < ?L" for q using that fit by simp
  have byte: "blk ! (i * ?L + q) = (if q \<in> ?lost then 0 else (D i @ P i) ! q)" if "q < ?L" for q
    using blk(2) in_blk [OF that] that block_chunk [of c D rsk P i q pad] DP i by (auto simp: lost_def)
  define d where "d = take rsk (drop (?L * i) blk)"
  define p where "p = take 48 (drop (?L * i + rsk) blk)"
  define chunk where "chunk = d @ replicate (207 - rsk) 0 @ p"
  have dl: "length d = rsk" "length p = 48" using fit blk(1) by (simp_all add: d_def p_def mult.commute)
  have dn: "d ! q = blk ! (i * ?L + q)" if "q < rsk" for q
    using that fit blk(1) by (simp add: d_def mult.commute)
  have pn: "p ! q = blk ! (i * ?L + (rsk + q))" if "q < 48" for q
    using that fit blk(1) by (simp add: p_def mult.commute add.assoc)
  have t: "take 207 (d @ replicate (255 - rsk) 0) @ p = chunk"
    using rsk dl by (simp add: chunk_def min_def)
  have "memread blk (?L * i) rsk = Inr d" "memread blk (?L * i + rsk) 48 = Inr p"
    using fit blk(1) unfolding d_def p_def by (simp_all add: mult.commute)
  then have dec: "decode_chunk rs blk rsk er i =
      (if length ?eras > 48 then Inl (UndefinedBehaviour ''decode_rs_char'') else Inr (rs chunk ?eras))"
    by (simp only: decode_chunk_def bindE_simps Let_def t)
  let ?bad = "{q. q < 255 \<and> q \<notin> set ?eras \<and> chunk ! q \<noteq> ?w ! q}"
  have bad: "?bad \<subseteq> (if rsk = 207 then {} else (\<lambda>q. q + (207 - rsk)) ` {q \<in> ?lost. rsk \<le> q})"
  proof
    fix q assume "q \<in> ?bad"
    then have q: "q < 255" "q \<notin> ?lost" "chunk ! q \<noteq> ?w ! q" unfolding eras_set by auto
    show "q \<in> (if rsk = 207 then {} else (\<lambda>q. q + (207 - rsk)) ` {q \<in> ?lost. rsk \<le> q})"
    proof (cases "q < 207")
      case True
      then show ?thesis
        using q byte [of q] dn [of q] dl i_len diff_less_mono [of q 207 rsk]
        by (cases "q < rsk") (auto simp: chunk_def codeword_def nth_append)
    next
      case False
      then obtain t where t: "q = 207 + t" by (metis le_Suc_ex not_less)
      then have t48: "t < 48" using q(1) by simp
      have "chunk ! q = ((d @ replicate (207 - rsk) 0) @ p) ! (length (d @ replicate (207 - rsk) 0) + t)"
        using t dl rsk by (simp add: chunk_def)
      then have c: "chunk ! q = blk ! (i * ?L + (rsk + t))" unfolding nth_append_length_plus using pn [OF t48] by simp
      have "?w ! q = ((D i @ replicate (207 - rsk) 0) @ P i) ! (length (D i @ replicate (207 - rsk) 0) + t)"
        using t i_len rsk by (simp add: codeword_def)
      then have w: "?w ! q = (D i @ P i) ! (rsk + t)"
        unfolding nth_append_length_plus using i_len by (simp add: nth_append)
      have lost: "rsk + t \<in> ?lost" using q(3) c w byte [of "rsk + t"] t48 by (auto split: if_splits)
      have "rsk \<noteq> 207" using q(2) lost t by auto
      moreover have "q = (rsk + t) + (207 - rsk)" using t rsk by simp
      ultimately show ?thesis using lost by auto
    qed
  qed
  have fin: "finite ?lost" by (simp add: lost_def)
  have "card ?bad \<le> (if rsk = 207 then 0 else card {q \<in> ?lost. rsk \<le> q})"
  proof (cases "rsk = 207")
    case True
    then show ?thesis using bad by simp
  next
    case False
    have "card ?bad \<le> card ((\<lambda>q. q + (207 - rsk)) ` {q \<in> ?lost. rsk \<le> q})"
      using bad False fin by (intro card_mono) auto
    also have "\<dots> \<le> card {q \<in> ?lost. rsk \<le> q}" using fin by (intro card_image_le) simp
    finally show ?thesis using False by simp
  qed
  then have enough: "2 * card ?bad + length ?eras \<le> 48"
    using cost unfolding chunk_cost_def eras_len by (rule budget)
  have "length chunk = 255" using dl rsk by (simp add: chunk_def)
  moreover have "set ?eras \<subseteq> {..<255}" unfolding eras_set using rsk by (auto simp: lost_def)
  ultimately have "fst (rs chunk ?eras) = ?w \<and> snd (rs chunk ?eras) \<noteq> - 1"
    using rs i_len(3) enough eras_distinct unfolding rs_corrects_def by blast
  then show ?thesis using dec enough by (cases "rs chunk ?eras") auto
qed

lemma decode_chunks_all:
  assumes "\<forall>i \<in> set is. \<exists>n. decode_chunk rs blk rsk er i = Inr (w i, n) \<and> n \<noteq> - 1"
  shows "decode_chunks rs blk rsk er is af = Inr (Some (af @ concat (map (\<lambda>i. take rsk (w i)) is)))"
  using assms by (induction "is" arbitrary: af) auto

section \<open>The packet\<close>

text \<open>
  The fragments of a packet with forward error correction: \<open>c\<close> chunks of \<open>rsk\<close> data and 48 parity
  bytes, \<open>pad\<close> zeros behind them, dealt out over \<open>F\<close> fragments of \<open>plen\<close> bytes.
\<close>

definition fec_sent ::
    "nat \<Rightarrow> (nat \<Rightarrow> fragment) \<Rightarrow> nat \<Rightarrow> nat \<Rightarrow> nat \<Rightarrow> (nat \<Rightarrow> bytes) \<Rightarrow> (nat \<Rightarrow> bytes) \<Rightarrow> nat \<Rightarrow> nat \<Rightarrow> bool" where
  "fec_sent F fr plen rsk rsz D P c pad =
     (0 < c \<and> pad < rsk + 48 \<and> rsk \<le> 207 \<and> rsz < 256 \<and> plen < 2 ^ 14 \<and> F * plen < 2 ^ 32 \<and>
      F * plen = c * (rsk + 48) + pad \<and> (\<forall>i < c. length (D i) = rsk \<and> length (P i) = 48) \<and>
      (\<forall>j < F. fr_FEC (fr j) \<and> fr_Plen (fr j) = of_nat plen \<and> fr_RSk (fr j) = of_nat rsk \<and> fr_RSz (fr j) = of_nat rsz \<and>
        fr_payload (fr j) = map (\<lambda>k. rs_block D P c pad ! (k * F + j)) [0..<plen]))"

lemma fec_parameters:
  assumes "family s F fr" "collected s F fr J b" "j < F" "fec_sent F fr plen rsk rsz D P c pad"
  shows "unat (rs_cmax b (fr j)) = c" "unat (fr_Plen (fr j)) = plen" "unat (fr_RSk (fr j)) = rsk"
    "unat (fr_RSz (fr j)) = rsz" "unat (ab_Fcount b) = F" "unat (ucast (fr_Plen (fr j)) * ab_Fcount b :: u32) = F * plen"
    "unat (ucast (fr_Plen (fr j)) :: u32) = plen"
proof -
  note sent = assms(4) [unfolded fec_sent_def]
  show p: "unat (fr_Plen (fr j)) = plen" and k: "unat (fr_RSk (fr j)) = rsk" and "unat (fr_RSz (fr j)) = rsz"
    using sent assms(3) by (simp_all add: unat_of_nat_small)
  have F: "ab_Fcount b = of_nat F" using assms(2) by (simp add: collected_def)
  then show f: "unat (ab_Fcount b) = F" using family_F [OF assms(1)] by simp
  show p32: "unat (ucast (fr_Plen (fr j)) :: u32) = plen"
    using p sent by (simp add: unsigned_ucast_eq take_bit_eq_mod)
  have k32: "unat (ucast (fr_RSk (fr j)) + 48 :: u32) = rsk + 48"
    using k sent by (simp add: unsigned_ucast_eq take_bit_eq_mod unat_word_ariths)
  show "unat (ucast (fr_Plen (fr j)) * ab_Fcount b :: u32) = F * plen"
    using p32 f sent by (simp add: unat_word_ariths mult.commute)
  then have "unat (ab_Fcount b * ucast (fr_Plen (fr j)) :: u32) = F * plen" by (simp add: mult.commute)
  then have "unat (rs_cmax b (fr j)) = (c * (rsk + 48) + pad) div (rsk + 48)"
    using k32 sent by (simp add: rs_cmax_def unat_div)
  also have "\<dots> = c" using sent by simp
  finally show "unat (rs_cmax b (fr j)) = c" .
qed

lemma extract_fec_ok:
  assumes fam: "family s F fr" and col: "collected s F fr J b" and j: "j < F" and sent: "fec_sent F fr plen rsk rsz D P c pad"
    and rs: "rs_corrects rs code" "\<forall>i < c. codeword rsk D P i \<in> code" and cost: "\<forall>i < c. chunk_cost rsk F J i \<le> 48"
    and rsz: "rsz \<le> c * rsk"
  shows "extract_fec rs b (fr j) =
    (b\<lparr>ab_af_packet := take (c * rsk - rsz) (concat (map D [0..<c]))\<rparr>,
     Inr (Some (take (c * rsk - rsz) (concat (map D [0..<c])))))"
proof -
  note par = fec_parameters [OF fam col j sent]
  note sn = sent [unfolded fec_sent_def]
  have F: "0 < F" using fam by (simp add: family_def)
  let ?er = "map (\<lambda>n. (n div (rsk + 48), n mod (rsk + 48))) (erased_positions F J plen F)"
  obtain blk where blk: "for_each (rs_column (ab_fragments b) F plen (rsk + 48)) [0..<F] (replicate (F * plen) 0, []) = Inr (blk, ?er)"
    "length blk = F * plen"
    "\<forall>n < F * plen. blk ! n = (if n mod F < F \<and> n mod F \<in> J then fr_payload (fr (n mod F)) ! (n div F) else 0)"
    using columns_ok [OF fam col order_refl, of plen "rsk + 48"] sn by auto
  have "blk ! n = (if n mod F \<in> J then rs_block D P c pad ! n else 0)" if "n < F * plen" for n
  proof -
    have "n mod F < F" "n div F < plen" using F that by (simp_all add: less_mult_imp_div_less mult.commute)
    then show ?thesis using blk(3) that sn by auto
  qed
  then have chunks: "\<forall>i < c. \<exists>n. decode_chunk rs blk rsk ?er i = Inr (codeword rsk D P i, n) \<and> n \<noteq> - 1"
    using decode_chunk_corrects [OF rs(1), of c D rsk P _ F plen pad blk J] sn F rs(2) cost blk(2) by simp
  have D: "take rsk (codeword rsk D P i) = D i" if "i < c" for i using that sn by (simp add: codeword_def)
  have af: "decode_chunks rs blk rsk ?er [0..<c] [] = Inr (Some (concat (map D [0..<c])))"
    using decode_chunks_all [of "[0..<c]" rs blk rsk ?er "codeword rsk D P" "[]"] chunks D
    by (simp add: map_eq_conv [THEN iffD2, of "[0..<c]" "\<lambda>i. take rsk (codeword rsk D P i)" D])
  have len: "length (concat (map D [0..<c])) = c * rsk"
    using length_concat_same [of "map D [0..<c]" rsk] sn by (simp add: mult.commute)
  show ?thesis
    using rsz by (simp add: extract_fec_def Let_def par blk(1) af len)
qed

lemma received_can_decode:
  assumes fam: "family s F fr" and col: "collected s F fr J b" and J: "J \<noteq> {}" and sent: "fec_sent F fr plen rsk rsz D P c pad"
    and enough: "F \<le> card J + (c * 48) div plen"
  shows "\<exists>dar. canAttemptToDecode b = (b, Inr dar) \<and> dar \<noteq> no"
proof -
  obtain j rest where j: "j \<in> J" "ab_fragments b = (of_nat j, fr j) # rest"
    using collected_first [OF fam col J] by blast
  obtain i where i: "i \<in> J" "reference_fragment b = Some (fr i)" using collected_reference [OF fam col J] by blast
  have J: "J \<subseteq> {..<F}" using col by (simp add: collected_def)
  then have iF: "i < F" "j < F" using i j by auto
  note par = fec_parameters [OF fam col iF(1) sent]
  note sn = sent [unfolded fec_sent_def]
  have all: "list_all (\<lambda>(_, frag). checkConsistency (fr j) frag \<and> ab_Pseq b = fr_Pseq frag) (ab_fragments b)"
    unfolding list_all_iff
  proof (clarify, goal_cases)
    case (1 k x)
    obtain i where "i \<in> J" "x = fr i" using collected_mem [OF fam col 1] by blast
    then show ?case using fam iF(2) J col by (auto simp: family_def collected_def)
  qed
  have cmax: "rs_cmax b (fr i) > 0" using par(1) sn by (metis unat_gt_0 word_gt_0)
  have plen: "fr_Plen (fr i) \<noteq> 0" using par(2) sn by auto
  have "c * 48 \<le> F * plen" using sn by (simp add: algebra_simps)
  then have c48: "unat (rs_cmax b (fr i) * 48 :: u32) = c * 48" using par(1) sn by (simp add: unat_word_ariths)
  then have q: "unat (rs_cmax b (fr i) * 48 div ucast (fr_Plen (fr i)) :: u32) = c * 48 div plen"
    using par(7) by (simp add: unat_div)
  have "c * 48 div plen \<le> F"
    using \<open>c * 48 \<le> F * plen\<close> div_le_mono [of "c * 48" "F * plen" plen] by (cases "plen = 0") auto
  then have "unat (ab_Fcount b - rs_cmax b (fr i) * 48 div ucast (fr_Plen (fr i)) :: u32) = F - c * 48 div plen"
    using q par(5) by (simp add: unat_sub word_le_nat_alt)
  then have "length (ab_fragments b) \<ge> unat (ab_Fcount b - rs_cmax b (fr i) * 48 div ucast (fr_Plen (fr i)) :: u32)"
    using enough collected_size [OF fam col] by simp
  then show ?thesis
    using all cmax plen i(2) j(2) iF sn by (auto simp: canAttemptToDecode_def Let_def)
qed

lemma pushes_collected:
  assumes "family s F fr" "collected s F fr J b" "set js \<subseteq> {..<F}"
  shows "\<exists>b'. for_each (\<lambda>j b. ab_pushPFTFrag b (fr j)) js b = Inr b' \<and> collected s F fr (J \<union> set js) b'"
  using assms(2,3)
proof (induction js arbitrary: b J)
  case (Cons j js)
  obtain b1 where "ab_pushPFTFrag b (fr j) = Inr b1" "collected s F fr (insert j J) b1"
    using collected_push [OF assms(1) Cons.prems(1), of j] Cons.prems(2) by auto
  then show ?case using Cons.IH [of "insert j J" b1] Cons.prems(2) by auto
qed simp

lemma new_builder_collected: "AFBuilder s (of_nat F) lifetime = Inr b \<Longrightarrow> collected s F fr {} b"
  by (auto simp: AFBuilder_def collected_def map_ok_def split: if_splits)

text \<open>An example: one chunk of 12 data bytes, dealt out over four fragments of 15 bytes.\<close>

definition example_fragment :: "nat \<Rightarrow> fragment" where
  "example_fragment j = new_fragment\<lparr>
     fr_payload := map (\<lambda>k. rs_block (\<lambda>_. sample_af) (\<lambda>_. replicate 48 7) 1 0 ! (k * 4 + j)) [0..<15],
     fr_Pseq := 5, fr_Findex := of_nat j, fr_Fcount := 4, fr_FEC := True, fr_Plen := 15, fr_RSk := 12, fr_valid := True\<rparr>"

text \<open>A bounded-distance decoder of the code with a single word.\<close>

definition example_rs :: "bytes \<Rightarrow> rs_decoder" where
  "example_rs c r eras =
     (let t = card {p. p < 255 \<and> p \<notin> set eras \<and> r ! p \<noteq> c ! p}
      in if 2 * t + length eras \<le> 48 then (c, int t) else (r, - 1))"

lemma example_rs_corrects: "length c = 255 \<Longrightarrow> rs_corrects (example_rs c) {c}"
  by (simp add: rs_corrects_def example_rs_def Let_def)

lemma lost_code: "lost F J len i = set (filter (\<lambda>q. (i * len + q) mod F \<notin> J) [0..<len])"
  by (auto simp: lost_def)

lemma example_facts:
  "family 5 4 example_fragment" "fec_sent 4 example_fragment 15 12 0 (\<lambda>_. sample_af) (\<lambda>_. replicate 48 7) 1 0"
  by (auto simp: family_def checkConsistency_def example_fragment_def new_fragment_def fec_sent_def sample_af_facts)

section \<open>Properties\<close>

text \<open>
  C10. Forward error correction: fragments of a packet are pushed in any order, some of them missing,
  some repeated. When as many are there as the code asks for, and in no chunk the cost of what is
  lost, where a parity byte of a chunk shorter than 207 bytes counts three times, is over 48, the packet that was sent is extracted, without the
  padding.
\<close>

theorem fec_recovers:
  assumes fam: "family s F fr" and sent: "fec_sent F fr plen rsk rsz D P c pad"
    and rs: "rs_corrects rs code" "\<forall>i < c. codeword rsk D P i \<in> code"
    and b0: "AFBuilder s (of_nat F) lifetime = Inr b0" and js: "js \<noteq> []" "set js \<subseteq> {..<F}"
    and enough: "F \<le> card (set js) + (c * 48) div plen" and cost: "\<forall>i < c. chunk_cost rsk F (set js) i \<le> 48"
    and af: "rsz \<le> c * rsk" "af = take (c * rsk - rsz) (concat (map D [0..<c]))"
    and crc: "12 \<le> length af" "checkCRC af (length af) = Inr True"
  shows "\<exists>b. for_each (\<lambda>j b. ab_pushPFTFrag b (fr j)) js b0 = Inr b \<and>
    extractAF rs b = (b\<lparr>ab_af_packet := af\<rparr>, Inr af)"
proof -
  obtain b where b: "for_each (\<lambda>j b. ab_pushPFTFrag b (fr j)) js b0 = Inr b" and col: "collected s F fr (set js) b"
    using pushes_collected [OF fam new_builder_collected [OF b0] js(2)] by auto
  have ne: "set js \<noteq> {}" using js(1) by simp
  obtain dar where dar: "canAttemptToDecode b = (b, Inr dar)" "dar \<noteq> no"
    using received_can_decode [OF fam col ne sent enough] by blast
  obtain j where j: "j \<in> set js" "reference_fragment b = Some (fr j)" using collected_reference [OF fam col ne] by blast
  then have jF: "j < F" using js(2) by auto
  have fec: "fr_FEC (fr j)" using sent jF by (simp add: fec_sent_def)
  have "extract_fec rs b (fr j) = (b\<lparr>ab_af_packet := af\<rparr>, Inr (Some af))"
    using extract_fec_ok [OF fam col jF sent rs cost af(1)] unfolding af(2) .
  then have "extractAF rs b = finish_af (b\<lparr>ab_af_packet := af\<rparr>) af"
    using dar j(2) fec col by (simp add: extractAF_def collected_def)
  also have "\<dots> = (b\<lparr>ab_af_packet := af\<rparr>, Inr af)" using crc by (simp add: finish_af_def)
  finally show ?thesis using b by blast
qed

theorem fec_recovers_witness:
  "\<exists>b. for_each (\<lambda>j b. ab_pushPFTFrag b (example_fragment j)) [3, 0, 3, 2]
       \<lparr>ab_lifeTime = 40, ab_fragments = [], ab_af_packet = [], ab_Pseq = 5, ab_Fcount = 4\<rparr> = Inr b \<and>
     extractAF (example_rs (codeword 12 (\<lambda>_. sample_af) (\<lambda>_. replicate 48 7) 0)) b =
       (b\<lparr>ab_af_packet := sample_af\<rparr>, Inr sample_af)"
proof (rule fec_recovers [OF example_facts(1,2) example_rs_corrects])
  show "length (codeword 12 (\<lambda>_. sample_af) (\<lambda>_. replicate 48 7) 0) = 255"
    by (simp add: codeword_def sample_af_facts)
  show "AFBuilder 5 (of_nat 4) 40 = Inr \<lparr>ab_lifeTime = 40, ab_fragments = [], ab_af_packet = [], ab_Pseq = 5, ab_Fcount = 4\<rparr>"
    by (simp add: AFBuilder_def)
  have "chunk_cost 12 4 (set [3, 0, 3, 2]) 0 = 39" unfolding chunk_cost_def lost_code by code_simp
  then show "\<forall>i < 1. chunk_cost 12 4 (set [3, 0, 3, 2]) i \<le> 48" by simp
  show "4 \<le> card (set [3, 0, 3, 2 :: nat]) + (1 * 48) div 15" by code_simp
qed (use sample_af_facts in auto)

text \<open>
  The number of erasures is not limited: when the first chunk has lost more than 48 bytes while
  enough fragments are there for an attempt, the decoder writes past its arrays.
\<close>

lemma erasures_overflow:
  assumes fam: "family s F fr" and sent: "fec_sent F fr plen rsk rsz D P c pad"
    and b0: "AFBuilder s (of_nat F) lifetime = Inr b0" and js: "js \<noteq> []" "set js \<subseteq> {..<F}"
    and enough: "F \<le> card (set js) + (c * 48) div plen" and many: "48 < card (lost F (set js) (rsk + 48) 0)"
  shows "\<exists>b. for_each (\<lambda>j b. ab_pushPFTFrag b (fr j)) js b0 = Inr b \<and>
    extractAF rs b = (b, Inl (UndefinedBehaviour ''decode_rs_char''))"
proof -
  obtain b where b: "for_each (\<lambda>j b. ab_pushPFTFrag b (fr j)) js b0 = Inr b" and col: "collected s F fr (set js) b"
    using pushes_collected [OF fam new_builder_collected [OF b0] js(2)] by auto
  have ne: "set js \<noteq> {}" using js(1) by simp
  obtain dar where dar: "canAttemptToDecode b = (b, Inr dar)" "dar \<noteq> no"
    using received_can_decode [OF fam col ne sent enough] by blast
  obtain j where j: "j \<in> set js" "reference_fragment b = Some (fr j)" using collected_reference [OF fam col ne] by blast
  then have jF: "j < F" using js(2) by auto
  note sn = sent [unfolded fec_sent_def]
  note par = fec_parameters [OF fam col jF sent]
  let ?L = "rsk + 48"
  let ?er = "map (\<lambda>n. (n div ?L, n mod ?L)) (erased_positions F (set js) plen F)"
  obtain blk where blk: "for_each (rs_column (ab_fragments b) F plen ?L) [0..<F] (replicate (F * plen) 0, []) = Inr (blk, ?er)"
    "length blk = F * plen"
    using columns_ok [OF fam col order_refl, of plen ?L] sn by auto
  have "1 * ?L \<le> c * ?L" using sn by (intro mult_le_mono1) simp
  then have "?L \<le> c * ?L + pad" by (simp only: mult_1 trans_le_add1)
  then have fit: "Suc 0 * ?L \<le> F * plen" using sn by simp
  then have "length (filter (\<lambda>e. fst e = 0) ?er) = card (lost F (set js) ?L 0)"
    using chunk_erasures(3) [of F ?L 0 plen "set js"] jF by simp
  then have "decode_chunk rs blk rsk ?er 0 = Inl (UndefinedBehaviour ''decode_rs_char'')"
    using fit blk(2) many by (simp add: decode_chunk_def)
  moreover have "[0..<c] = 0 # [1..<c]" using sn by (simp add: upt_conv_Cons)
  ultimately have "extract_fec rs b (fr j) = (b, Inl (UndefinedBehaviour ''decode_rs_char''))"
    by (simp add: extract_fec_def Let_def par blk(1))
  then have "extractAF rs b = (b, Inl (UndefinedBehaviour ''decode_rs_char''))"
    using dar j(2) sn jF col by (simp add: extractAF_def collected_def)
  then show ?thesis using b by blast
qed

text \<open>Two fragments out of 98 are enough: one byte each, one data byte per chunk.\<close>

definition overflow_fragment :: "nat \<Rightarrow> fragment" where
  "overflow_fragment j = new_fragment\<lparr>
     fr_payload := map (\<lambda>k. rs_block (\<lambda>_. [1]) (\<lambda>_. replicate 48 0) 2 0 ! (k * 98 + j)) [0..<1],
     fr_Pseq := 5, fr_Findex := of_nat j, fr_Fcount := 98, fr_FEC := True, fr_Plen := 1, fr_RSk := 1, fr_valid := True\<rparr>"

lemma erasures_overflow_witness:
  "\<forall>rs. \<exists>b. for_each (\<lambda>j b. ab_pushPFTFrag b (overflow_fragment j)) [49, 50]
       \<lparr>ab_lifeTime = 40, ab_fragments = [], ab_af_packet = [], ab_Pseq = 5, ab_Fcount = 98\<rparr> = Inr b \<and>
     extractAF rs b = (b, Inl (UndefinedBehaviour ''decode_rs_char''))"
proof (rule allI, rule erasures_overflow)
  show "family 5 98 overflow_fragment"
    by (auto simp: family_def checkConsistency_def overflow_fragment_def new_fragment_def)
  show "fec_sent 98 overflow_fragment 1 1 0 (\<lambda>_. [1]) (\<lambda>_. replicate 48 0) 2 0"
    by (auto simp: fec_sent_def overflow_fragment_def new_fragment_def)
  show "AFBuilder 5 (of_nat 98) 40 = Inr \<lparr>ab_lifeTime = 40, ab_fragments = [], ab_af_packet = [], ab_Pseq = 5, ab_Fcount = 98\<rparr>"
    by (simp add: AFBuilder_def)
  have "card (lost 98 (set [49, 50]) (1 + 48) 0) = 49" unfolding lost_code by code_simp
  then show "48 < card (lost 98 (set [49, 50]) (1 + 48) 0)" by simp
qed auto

end
