(* ===== verification/State_Error.thy ===== *)
theory State_Error
  imports Prelude
begin

text \<open>
  Operations that change a state and may raise: a pair of the state and a result, so that the state
  an exception leaves behind is visible. \<open>bindS\<close> runs one operation after another, \<open>needS\<close> uses a
  checked read, \<open>eachS\<close> is a loop over a container, \<open>advance_loop\<close> a loop over the positions of a
  buffer. \<open>keepsS\<close> is the partial-correctness judgement the invariants of the decoders are proved
  with.
\<close>

section \<open>Sequencing\<close>

definition bindS :: "'s \<times> 'a result \<Rightarrow> ('s \<Rightarrow> 'a \<Rightarrow> 's \<times> 'b result) \<Rightarrow> 's \<times> 'b result" where
  "bindS m f = (case m of (s, Inl e) \<Rightarrow> (s, Inl e) | (s, Inr x) \<Rightarrow> f s x)"

lemma bindS_simps [simp, result_simps]:
  "bindS (s, Inl e) f = (s, Inl e)"
  "bindS (s, Inr x) f = f s x"
  by (simp_all add: bindS_def)

lemma bindS_Inr_iff: "bindS m f = (t, Inr y) \<longleftrightarrow> (\<exists>s x. m = (s, Inr x) \<and> f s x = (t, Inr y))"
  by (cases m; cases "snd m") auto

definition needS :: "'a result \<Rightarrow> 's \<Rightarrow> ('a \<Rightarrow> 's \<times> 'b result) \<Rightarrow> 's \<times> 'b result" where
  "needS r s f = (case r of Inl e \<Rightarrow> (s, Inl e) | Inr x \<Rightarrow> f x)"

lemma needS_simps [simp, result_simps]:
  "needS (Inl e) s f = (s, Inl e)"
  "needS (Inr x) s f = f x"
  by (simp_all add: needS_def)

lemma bindS_cong [fundef_cong]:
  "m = m' \<Longrightarrow> (\<And>s x. m' = (s, Inr x) \<Longrightarrow> f s x = f' s x) \<Longrightarrow> bindS m f = bindS m' f'"
  by (cases m'; cases "snd m'") auto

lemma needS_cong [fundef_cong]:
  "r = r' \<Longrightarrow> (\<And>x. r' = Inr x \<Longrightarrow> f x = f' x) \<Longrightarrow> needS r s f = needS r' s f'"
  by (cases r') auto

fun eachS :: "('a \<Rightarrow> 's \<Rightarrow> 's \<times> unit result) \<Rightarrow> 'a list \<Rightarrow> 's \<Rightarrow> 's \<times> unit result" where
  "eachS f [] s = (s, Inr ())"
| "eachS f (x # xs) s = bindS (f x s) (\<lambda>s _. eachS f xs s)"

text \<open>
  \<open>for (size_t offset = 0; offset < len;) { ... }\<close>: the body returns by how much it advances. A body
  that does not advance would loop for ever without an effect, which C++ leaves undefined.
\<close>

function advance_loop :: "(nat \<Rightarrow> 's \<Rightarrow> 's \<times> nat result) \<Rightarrow> nat \<Rightarrow> nat \<Rightarrow> 's \<Rightarrow> 's \<times> unit result" where
  "advance_loop body len offset s =
     (if offset < len
      then (case body offset s of
              (s, Inl e) \<Rightarrow> (s, Inl e)
            | (s, Inr n) \<Rightarrow>
                (if n = 0 then (s, Inl (UndefinedBehaviour ''infinite loop''))
                 else advance_loop body len (offset + n) s))
      else (s, Inr ()))"
  by auto
termination by (relation "measure (\<lambda>(body, len, offset, s). len - offset)") auto

declare advance_loop.simps [simp del]

lemma advance_loop_end: "len \<le> offset \<Longrightarrow> advance_loop body len offset s = (s, Inr ())"
  by (simp add: advance_loop.simps)

lemma advance_loop_step:
  "offset < len \<Longrightarrow> body offset s = (s', Inr n) \<Longrightarrow> 0 < n \<Longrightarrow>
   advance_loop body len offset s = advance_loop body len (offset + n) s'"
  by (subst advance_loop.simps) simp

section \<open>Invariants\<close>

text \<open>
  \<open>keepsS P Q m\<close>: the outcome \<open>m\<close> is a result \<open>x\<close> in a state with \<open>Q x\<close>, or undefined behaviour of a
  kind \<open>P\<close> allows. No exception is an outcome.
\<close>

definition keepsS :: "(string \<Rightarrow> bool) \<Rightarrow> ('a \<Rightarrow> 's \<Rightarrow> bool) \<Rightarrow> 's \<times> 'a result \<Rightarrow> bool" where
  "keepsS P Q m =
     (case m of (s, Inr x) \<Rightarrow> Q x s | (s, Inl (UndefinedBehaviour k)) \<Rightarrow> P k | (s, Inl _) \<Rightarrow> False)"

lemma keepsS_ret: "Q x s \<Longrightarrow> keepsS P Q (s, Inr x)"
  by (simp add: keepsS_def)

lemma keepsS_ub: "P k \<Longrightarrow> keepsS P Q (s, Inl (UndefinedBehaviour k))"
  by (simp add: keepsS_def)

lemma keepsS_cases:
  assumes "keepsS P Q m"
  obtains s x where "m = (s, Inr x)" and "Q x s" | s k where "m = (s, Inl (UndefinedBehaviour k))" and "P k"
  using assms by (cases m; cases "snd m") (auto simp: keepsS_def split: error.splits)

lemma keepsS_bind:
  assumes "keepsS P Q m" and "\<And>s x. Q x s \<Longrightarrow> keepsS P R (f s x)"
  shows "keepsS P R (bindS m f)"
  using assms(1) by (rule keepsS_cases) (auto intro: assms(2) keepsS_ub)

lemma keepsS_weaken: "keepsS P Q m \<Longrightarrow> (\<And>x s. Q x s \<Longrightarrow> R x s) \<Longrightarrow> keepsS P R m"
  by (erule keepsS_cases) (auto intro: keepsS_ret keepsS_ub)

lemma keepsS_need:
  assumes "\<And>e. r = Inl e \<Longrightarrow> \<exists>k. e = UndefinedBehaviour k \<and> P k" and "\<And>x. r = Inr x \<Longrightarrow> keepsS P Q (f x)"
  shows "keepsS P Q (needS r s f)"
proof (cases r)
  case (Inl e)
  with assms(1) obtain k where "r = Inl (UndefinedBehaviour k)" and "P k" by blast
  then show ?thesis by (simp add: keepsS_ub)
next
  case (Inr x)
  then show ?thesis using assms(2) by simp
qed

lemma keepsS_each:
  assumes "\<And>x s. x \<in> set xs \<Longrightarrow> I s \<Longrightarrow> keepsS P (\<lambda>_. I) (f x s)" and "I s"
  shows "keepsS P (\<lambda>_. I) (eachS f xs s)"
  using assms
proof (induction xs arbitrary: s)
  case (Cons x xs)
  have "keepsS P (\<lambda>_. I) (f x s)" using Cons.prems by simp
  moreover have "keepsS P (\<lambda>_. I) (eachS f xs s')" if "I s'" for s'
    by (rule Cons.IH [OF _ that]) (use Cons.prems(1) in auto)
  ultimately show ?case by (simp add: keepsS_bind)
qed (simp add: keepsS_ret)

lemma keepsS_loop:
  assumes body: "\<And>offset s. offset < len \<Longrightarrow> I s \<Longrightarrow> keepsS P (\<lambda>n s. 0 < n \<and> I s) (body offset s)" and "I s"
  shows "keepsS P (\<lambda>_. I) (advance_loop body len offset s)"
  using assms(2)
proof (induction "len - offset" arbitrary: offset s rule: less_induct)
  case less
  show ?case
  proof (cases "offset < len")
    case True
    from body [OF this less.prems] show ?thesis
    proof (cases rule: keepsS_cases)
      case (1 s' n)
      then have "keepsS P (\<lambda>_. I) (advance_loop body len (offset + n) s')"
        using True by (intro less.hyps) auto
      with 1 True show ?thesis by (simp add: advance_loop_step)
    next
      case (2 s' k)
      then show ?thesis using True by (subst advance_loop.simps) (simp add: keepsS_ub)
    qed
  next
    case False
    then show ?thesis using less.prems by (simp add: advance_loop_end keepsS_ret)
  qed
qed

end
