(* ===== verification/Edi_Dispatcher.thy ===== *)
theory Edi_Dispatcher
  imports Pft "HOL-Library.List_Lexorder" "HOL-Library.Signed_Division" State_Error
begin

text \<open>
  \<open>lib/edi/common.cpp\<close>: the time stamps of EDI and the \<open>TagDispatcher\<close>, which finds AF packets in
  a byte stream or a datagram, directly or through the fragmentation layer, checks them, and calls
  a handler for each tag. The handlers change the state \<open>'s\<close> of the object that registered them;
  a handler returns that state and its result, or an exception.
\<close>

section \<open>Time stamps\<close>

record frame_timestamp_t =
  et_seconds :: u32
  et_utco :: u32
  et_tsta :: u32

definition new_frame_timestamp_t :: frame_timestamp_t where
  "new_frame_timestamp_t = \<lparr>et_seconds = 0, et_utco = 0, et_tsta = 0xFFFFFF\<rparr>"

definition et_is_valid :: "frame_timestamp_t \<Rightarrow> bool" where
  "et_is_valid t = (et_tsta t \<noteq> 0xFFFFFF \<and> et_seconds t \<noteq> 0)"

text \<open>The sum is one of unsigned 32-bit numbers.\<close>

definition et_to_unix_epoch :: "frame_timestamp_t \<Rightarrow> int" where
  "et_to_unix_epoch t = uint (946684800 + et_seconds t - et_utco t)"

definition et_from_unix_epoch :: "int \<Rightarrow> u32 \<Rightarrow> u32 \<Rightarrow> frame_timestamp_t" where
  "et_from_unix_epoch time tai_utc_offset tsta =
     (let utco = tai_utc_offset - 32
      in \<lparr>et_seconds = of_int (time - 946684800 + uint utco), et_utco = utco, et_tsta = tsta\<rparr>)"

text \<open>A left shift of a negative number is undefined in C++17.\<close>

definition et_add_ms :: "frame_timestamp_t \<Rightarrow> int \<Rightarrow> frame_timestamp_t result" where
  "et_add_ms t ms =
     (if ms smod 1000 < 0 then Inl (UndefinedBehaviour ''left shift of a negative value'')
      else
        (let tsta = et_tsta t + of_int (push_bit 14 (ms smod 1000));
             t = (if tsta > 0xf9FFff then t\<lparr>et_tsta := tsta - 0xfa0000, et_seconds := et_seconds t + 1\<rparr>
                  else t\<lparr>et_tsta := tsta\<rparr>)
         in Inr (t\<lparr>et_seconds := et_seconds t + of_int (ms sdiv 1000)\<rparr>)))"

definition et_eq :: "frame_timestamp_t \<Rightarrow> frame_timestamp_t \<Rightarrow> bool" where
  "et_eq l r = (et_seconds l - et_utco l = et_seconds r - et_utco r \<and> et_tsta l = et_tsta r)"

definition et_less :: "frame_timestamp_t \<Rightarrow> frame_timestamp_t \<Rightarrow> bool" where
  "et_less l r =
     (if et_seconds l - et_utco l = et_seconds r - et_utco r then et_tsta l < et_tsta r
      else et_seconds l - et_utco l < et_seconds r - et_utco r)"

definition et_less_eq :: "frame_timestamp_t \<Rightarrow> frame_timestamp_t \<Rightarrow> bool" where
  "et_less_eq l r = (et_less l r \<or> et_eq l r)"

section \<open>The dispatcher\<close>

record packet =
  pk_buf :: bytes
  pk_received_on_port :: int

record seq_info_t =
  si_seq_valid :: bool
  si_seq :: u16
  si_pseq_valid :: bool
  si_pseq :: u16

type_synonym 's tag_handler = "bytes \<Rightarrow> bytes \<Rightarrow> 's \<Rightarrow> 's \<times> bool result"

record 's tag_dispatcher =
  dp_pft :: pft
  dp_last_sequences :: seq_info_t
  dp_input_data :: bytes
  dp_handlers :: "(bytes, 's tag_handler) std_map"
  dp_af_packet_completed :: "seq_info_t \<Rightarrow> 's \<Rightarrow> 's \<times> unit result"
  dp_afpacket_handler :: "bytes \<Rightarrow> 's \<Rightarrow> 's \<times> unit result"
  dp_ignored_tags :: "bytes list"

datatype decode_state_e = Ok | MissingData | Error

definition TagDispatcher :: "u16 \<Rightarrow> (seq_info_t \<Rightarrow> 's \<Rightarrow> 's \<times> unit result) \<Rightarrow> 's tag_dispatcher" where
  "TagDispatcher junk af_packet_completed =
     \<lparr>dp_pft = PFT junk,
      dp_last_sequences = \<lparr>si_seq_valid = False, si_seq = 0, si_pseq_valid = False, si_pseq = 0\<rparr>,
      dp_input_data = [], dp_handlers = [], dp_af_packet_completed = af_packet_completed,
      dp_afpacket_handler = (\<lambda>_ s. (s, Inr ())), dp_ignored_tags = []\<rparr>"

definition ascii :: "string \<Rightarrow> bytes" where
  "ascii tag = map of_char tag"

definition register_tag :: "string \<Rightarrow> 's tag_handler \<Rightarrow> 's tag_dispatcher \<Rightarrow> 's tag_dispatcher" where
  "register_tag tag h d = d\<lparr>dp_handlers := map_put (ascii tag) h (dp_handlers d)\<rparr>"

definition register_afpacket_handler ::
    "(bytes \<Rightarrow> 's \<Rightarrow> 's \<times> unit result) \<Rightarrow> 's tag_dispatcher \<Rightarrow> 's tag_dispatcher" where
  "register_afpacket_handler h d = d\<lparr>dp_afpacket_handler := h\<rparr>"

definition dp_setMaxDelay :: "int \<Rightarrow> 's tag_dispatcher \<Rightarrow> 's tag_dispatcher" where
  "dp_setMaxDelay num_af_packets d = d\<lparr>dp_pft := setMaxDelay (dp_pft d) (of_int num_af_packets)\<rparr>"

section \<open>Tags\<close>

text \<open>A registered name of up to four bytes, and a received tag, which is cut at the first zero.\<close>

definition tag_matches :: "bytes \<Rightarrow> bytes \<Rightarrow> bool" where
  "tag_matches h tag =
     (length h = 4 \<and> tag = h \<or> length h = 3 \<and> take 3 tag = h \<or>
      length h = 2 \<and> take 2 tag = h \<or> length h = 1 \<and> take 1 tag = h)"

text \<open>All matching handlers are called. The result is whether there was one, and whether all succeeded.\<close>

fun run_handlers ::
    "(bytes, 's tag_handler) std_map \<Rightarrow> bytes \<Rightarrow> bytes \<Rightarrow> bytes \<Rightarrow> 's \<Rightarrow> bool \<times> bool \<Rightarrow> 's \<times> (bool \<times> bool) result" where
  "run_handlers [] tag tag_value tag_name s acc = (s, Inr acc)"
| "run_handlers ((name, h) # hs) tag tag_value tag_name s (found, tagsuccess) =
     (if tag_matches name tag
      then bindS (h tag_value tag_name s) (\<lambda>s ok.
           run_handlers hs tag tag_value tag_name s (True, tagsuccess \<and> ok))
      else run_handlers hs tag tag_value tag_name s (found, tagsuccess))"

function decode_tags ::
    "(bytes, 's tag_handler) std_map \<Rightarrow> bytes \<Rightarrow> nat \<Rightarrow> bytes list \<times> 's \<Rightarrow> (bytes list \<times> 's) \<times> bool result" where
  "decode_tags hs payload i (ignored, s) =
     (if \<not> i + 8 < length payload then ((ignored, s), Inr True)
      else
        (let tag_name = take 4 (drop i payload);
             tag = takeWhile (\<lambda>c. c \<noteq> 0) tag_name
         in case read_32b payload (i + 4) of
              Inl e \<Rightarrow> ((ignored, s), Inl e)
            | Inr bits \<Rightarrow>
                (let taglength = unat (bits div 8) in
                 if bits mod 8 \<noteq> 0 then ((ignored, s), Inr True)
                 else if i + 8 + taglength > length payload then ((ignored, s), Inr True)
                 else
                   (case run_handlers hs tag (take taglength (drop (i + 8) payload)) tag_name s (False, True) of
                      (s, Inl e) \<Rightarrow> ((ignored, s), Inl e)
                    | (s, Inr (found, tagsuccess)) \<Rightarrow>
                        (if \<not> found
                         then ((if tag \<in> set ignored then ignored else ignored @ [tag], s), Inr True)
                         else if \<not> tagsuccess then ((ignored, s), Inr False)
                         else decode_tags hs payload (i + (8 + taglength)) (ignored, s))))))"
  by pat_completeness auto
termination
  by (relation "measure (\<lambda>(hs, payload, i, _). length payload - i)") auto

declare decode_tags.simps [simp del]

definition decode_tagpacket :: "bytes \<Rightarrow> 's tag_dispatcher \<times> 's \<Rightarrow> ('s tag_dispatcher \<times> 's) \<times> bool result" where
  "decode_tagpacket payload = (\<lambda>(d, s).
     (case decode_tags (dp_handlers d) payload 0 (dp_ignored_tags d, s) of
        ((ignored, s), r) \<Rightarrow> ((d\<lparr>dp_ignored_tags := ignored\<rparr>, s), r)))"

section \<open>AF packets\<close>

text \<open>The sequence number of a packet is remembered before the packet is checked.\<close>

definition note_seq :: "u16 \<Rightarrow> 's tag_dispatcher \<Rightarrow> 's tag_dispatcher" where
  "note_seq seq d =
     (let last = dp_last_sequences d;
          d = (if si_seq_valid last \<and> si_seq last + 1 \<noteq> seq then d\<lparr>dp_ignored_tags := []\<rparr> else d)
      in d\<lparr>dp_last_sequences := last\<lparr>si_seq_valid := True, si_seq := seq\<rparr>\<rparr>)"

definition decode_afpacket ::
    "bytes \<Rightarrow> 's tag_dispatcher \<times> 's \<Rightarrow> ('s tag_dispatcher \<times> 's) \<times> (decode_state_e \<times> nat) result" where
  "decode_afpacket input_data = (\<lambda>(d, s).
     (if length input_data < 10 then ((d, s), Inr (MissingData, 0))
      else
        bindS ((d, s), read_32b input_data 2) (\<lambda>(d, s) taglength.
        bindS ((d, s), read_16b input_data 6) (\<lambda>(d, s) seq.
        let n = unat taglength in
        if length input_data < 10 + n + 2 then ((d, s), Inr (MissingData, 0))
        else
          (let d = note_seq seq d in
           if input_data ! 8 AND 0x80 = 0 then ((d, s), Inr (Error, 10 + n))
           else if input_data ! 9 \<noteq> 0x54 then ((d, s), Inr (Error, 10 + n + 2))
           else
             (let crc = foldl (\<lambda>crc b. crc16 crc [b]) 0xffff (take (10 + n) input_data) XOR 0xffff in
              bindS ((d, s), read_16b input_data (10 + n)) (\<lambda>(d, s) packet_crc.
              if packet_crc \<noteq> crc then ((d, s), Inr (Error, 10 + n + 2))
              else
                (case dp_afpacket_handler d (take (10 + n + 2) input_data) s of
                   (s, Inl e) \<Rightarrow> ((d, s), Inl e)
                 | (s, Inr _) \<Rightarrow>
                     bindS (decode_tagpacket (take n (drop 10 input_data)) (d, s)) (\<lambda>(d, s) ok.
                     ((d, s), Inr (if ok then Ok else Error, 10 + n + 2)))))))))))"

definition set_pseq_valid :: "bool \<Rightarrow> 's tag_dispatcher \<Rightarrow> 's tag_dispatcher" where
  "set_pseq_valid v d = d\<lparr>dp_last_sequences := (dp_last_sequences d)\<lparr>si_pseq_valid := v\<rparr>\<rparr>"

definition packet_done :: "'s tag_dispatcher \<times> 's \<Rightarrow> ('s tag_dispatcher \<times> 's) \<times> unit result" where
  "packet_done = (\<lambda>(d, s).
     (case dp_af_packet_completed d (dp_last_sequences d) s of (s, r) \<Rightarrow> ((d, s), r)))"

text \<open>A packet from the fragmentation layer. On a stream a failure also forgets the last sequence number.\<close>

definition decode_pft_packet ::
    "bool \<Rightarrow> bytes \<times> u16 \<Rightarrow> 's tag_dispatcher \<times> 's \<Rightarrow> ('s tag_dispatcher \<times> 's) \<times> unit result" where
  "decode_pft_packet stream = (\<lambda>(af, pseq) ds.
     (if af = [] then (ds, Inr ())
      else
        bindS (decode_afpacket af ds) (\<lambda>(d, s) (st, _).
        if st = Ok
        then packet_done (d\<lparr>dp_last_sequences := (dp_last_sequences d)\<lparr>si_pseq := pseq, si_pseq_valid := True\<rparr>\<rparr>, s)
        else if stream then ((set_pseq_valid False d, s), Inr ())
        else ((d, s), Inr ()))))"

definition push_fragment ::
    "rs_decoder \<Rightarrow> bool \<Rightarrow> fragment \<Rightarrow> 's tag_dispatcher \<times> 's \<Rightarrow> ('s tag_dispatcher \<times> 's) \<times> unit result" where
  "push_fragment rs stream fr = (\<lambda>(d, s).
     (case (if fr_valid fr then pft_pushPFTFrag (dp_pft d) fr else (dp_pft d, Inr ())) of
        (p, Inl e) \<Rightarrow> ((d\<lparr>dp_pft := p\<rparr>, s), Inl e)
      | (p, Inr _) \<Rightarrow>
          (case getNextAFPacket rs p of
             (p, Inl e) \<Rightarrow> ((d\<lparr>dp_pft := p\<rparr>, s), Inl e)
           | (p, Inr af) \<Rightarrow> decode_pft_packet stream af (d\<lparr>dp_pft := p\<rparr>, s))))"

section \<open>Datagrams\<close>

definition push_packet ::
    "rs_decoder \<Rightarrow> packet \<Rightarrow> 's tag_dispatcher \<times> 's \<Rightarrow> ('s tag_dispatcher \<times> 's) \<times> unit result" where
  "push_packet rs packet = (\<lambda>(d, s).
     (let buf = pk_buf packet in
      if length buf < 2 then ((d, s), Inl (InvalidArgument ''Not enough bytes to read EDI packet header''))
      else if buf ! 0 = 0x41 \<and> buf ! 1 = 0x46 then
        bindS (decode_afpacket buf (d, s)) (\<lambda>(d, s) (st, _).
          let d = set_pseq_valid False d
          in if st = Ok then packet_done (d, s) else ((d, s), Inr ()))
      else if buf ! 0 = 0x50 \<and> buf ! 1 = 0x46 then
        (case loadData buf (pk_received_on_port packet) new_fragment of
           Inl e \<Rightarrow> ((d, s), Inl e)
         | Inr (fr, _) \<Rightarrow> push_fragment rs False fr (d, s))
      else ((d\<lparr>dp_ignored_tags := []\<rparr>, s), Inl (InvalidArgument ''Unknown EDI packet ''))))"

section \<open>Streams\<close>

text \<open>
  One iteration of the loop of \<open>push_bytes\<close>; the result tells whether the loop goes on. A packet
  whose handler throws is not taken out of the buffer.
\<close>

definition drop_input :: "nat \<Rightarrow> 's tag_dispatcher \<Rightarrow> 's tag_dispatcher" where
  "drop_input n d = d\<lparr>dp_input_data := drop n (dp_input_data d)\<rparr>"

definition push_step :: "rs_decoder \<Rightarrow> 's tag_dispatcher \<times> 's \<Rightarrow> ('s tag_dispatcher \<times> 's) \<times> bool result" where
  "push_step rs = (\<lambda>(d, s).
     (let buf = dp_input_data d in
      if buf ! 0 = 0x41 \<and> buf ! 1 = 0x46 then
        bindS (decode_afpacket buf (d, s)) (\<lambda>(d, s) (st, num_bytes_consumed).
          (case st of
             Ok \<Rightarrow>
               bindS (packet_done (set_pseq_valid False d, s)) (\<lambda>(d, s) _.
               ((drop_input num_bytes_consumed d, s), Inr True))
           | MissingData \<Rightarrow> ((drop_input num_bytes_consumed d, s), Inr False)
           | Error \<Rightarrow> ((drop_input num_bytes_consumed (set_pseq_valid False d), s), Inr False)))
      else if buf ! 0 = 0x50 \<and> buf ! 1 = 0x46 then
        (case loadData buf 0 new_fragment of
           Inl e \<Rightarrow> ((d, s), Inl e)
         | Inr (fr, fragment_bytes) \<Rightarrow>
             (if fragment_bytes = 0 then ((d, s), Inr False)
              else bindS (push_fragment rs True fr (drop_input fragment_bytes d, s)) (\<lambda>ds _. (ds, Inr True))))
      else ((drop_input 1 d, s), Inr True)))"

lemma decode_tags_input: "decode_tagpacket payload ds = (ds', r) \<Longrightarrow> dp_input_data (fst ds') = dp_input_data (fst ds)"
  by (auto simp: decode_tagpacket_def split: prod.splits)

lemma decode_afpacket_input:
  "decode_afpacket buf ds = (ds', r) \<Longrightarrow> dp_input_data (fst ds') = dp_input_data (fst ds)"
  unfolding decode_afpacket_def bindS_def
  by (auto simp: note_seq_def Let_def split: prod.splits if_splits sum.splits dest!: decode_tags_input)

lemma decode_afpacket_consumed:
  "decode_afpacket buf ds = (ds', Inr (Ok, n)) \<Longrightarrow> 0 < n"
  unfolding decode_afpacket_def bindS_def
  by (auto simp: Let_def split: prod.splits if_splits sum.splits)

lemma push_fragment_input:
  "push_fragment rs stream fr ds = (ds', r) \<Longrightarrow> dp_input_data (fst ds') = dp_input_data (fst ds)"
  unfolding push_fragment_def decode_pft_packet_def bindS_def packet_done_def set_pseq_valid_def
  by (auto split: prod.splits if_splits sum.splits dest!: decode_afpacket_input)

lemma packet_done_input: "packet_done ds = (ds', r) \<Longrightarrow> dp_input_data (fst ds') = dp_input_data (fst ds)"
  by (auto simp: packet_done_def split: prod.splits)

lemma push_step_progress:
  assumes "push_step rs ds = (ds', Inr True)" and "dp_input_data (fst ds) \<noteq> []"
  shows "length (dp_input_data (fst ds')) < length (dp_input_data (fst ds))"
proof -
  obtain d s where ds: "ds = (d, s)" by (cases ds)
  let ?buf = "dp_input_data d"
  have ne: "0 < length ?buf" using assms(2) ds by simp
  consider (af) "?buf ! 0 = 0x41" "?buf ! 1 = 0x46"
    | (pf) "\<not> (?buf ! 0 = 0x41 \<and> ?buf ! 1 = 0x46)" "?buf ! 0 = 0x50" "?buf ! 1 = 0x46"
    | (other) "\<not> (?buf ! 0 = 0x41 \<and> ?buf ! 1 = 0x46)" "\<not> (?buf ! 0 = 0x50 \<and> ?buf ! 1 = 0x46)" by blast
  then show ?thesis
  proof cases
    case af
    then obtain d1 s1 n d2 s2 where a: "decode_afpacket ?buf (d, s) = ((d1, s1), Inr (Ok, n))"
      "packet_done (set_pseq_valid False d1, s1) = ((d2, s2), Inr ())" "ds' = (drop_input n d2, s2)"
      using assms(1) ds by (auto simp: push_step_def bindS_def Let_def split: prod.splits sum.splits decode_state_e.splits)
    then have "dp_input_data d2 = ?buf"
      using decode_afpacket_input [OF a(1)] packet_done_input [OF a(2)] by (simp add: set_pseq_valid_def)
    then show ?thesis using a(3) decode_afpacket_consumed [OF a(1)] ds ne by (simp add: drop_input_def)
  next
    case pf
    then obtain fr n where a: "n \<noteq> 0" "push_fragment rs True fr (drop_input n d, s) = (ds', Inr ())"
      using assms(1) ds by (auto simp: push_step_def bindS_def Let_def split: prod.splits sum.splits if_splits)
    then show ?thesis using push_fragment_input [OF a(2)] ds ne by (simp add: drop_input_def)
  next
    case other
    then have "ds' = (drop_input 1 d, s)" using assms(1) ds by (simp add: push_step_def Let_def if_not_P del: One_nat_def)
    then show ?thesis using ds ne by (simp add: drop_input_def)
  qed
qed

function push_loop :: "rs_decoder \<Rightarrow> 's tag_dispatcher \<times> 's \<Rightarrow> ('s tag_dispatcher \<times> 's) \<times> unit result" where
  "push_loop rs ds =
     (if length (dp_input_data (fst ds)) > 2 then
        (case push_step rs ds of
           (ds, Inl e) \<Rightarrow> (ds, Inl e)
         | (ds, Inr again) \<Rightarrow> (if again then push_loop rs ds else (ds, Inr ())))
      else (ds, Inr ()))"
  by pat_completeness auto
termination
  by (relation "measure (\<lambda>(rs, ds). length (dp_input_data (fst ds)))") (auto intro: push_step_progress [OF sym])

declare push_loop.simps [simp del]

definition push_bytes ::
    "rs_decoder \<Rightarrow> bytes \<Rightarrow> 's tag_dispatcher \<times> 's \<Rightarrow> ('s tag_dispatcher \<times> 's) \<times> unit result" where
  "push_bytes rs buf = (\<lambda>(d, s).
     (if buf = []
      then ((d\<lparr>dp_input_data := [], dp_last_sequences := (dp_last_sequences d)\<lparr>si_seq_valid := False\<rparr>\<rparr>, s), Inr ())
      else push_loop rs (d\<lparr>dp_input_data := dp_input_data d @ buf\<rparr>, s)))"

text \<open>The value of the version tag.\<close>

definition parse_odr_version_data :: "bytes \<Rightarrow> (bytes \<times> u32) result" where
  "parse_odr_version_data data =
     (if length data < 4 then Inr ([], 0)
      else
        (let versionstr_length = length data - 4
         in bindE (read_32b data versionstr_length) (\<lambda>uptime_s. Inr (take versionstr_length data, uptime_s))))"

section \<open>Encoded packets\<close>

definition be32 :: "u32 \<Rightarrow> bytes" where
  "be32 x = [ucast (shr x 24), ucast (shr x 16), ucast (shr x 8), ucast x]"

lemma length_be32 [simp]: "length (be32 x) = 4"
  by (simp add: be32_def)

lemma be32_join:
  fixes x :: u32
  shows "shl (ucast (ucast (shr x 24) :: u8)) 24 OR shl (ucast (ucast (shr x 16) :: u8)) 16 OR
    shl (ucast (ucast (shr x 8) :: u8)) 8 OR ucast (ucast x :: u8) = x" (is "?l = x")
proof (rule bit_word_eqI)
  fix n assume n: "n < LENGTH(32)"
  have "n < 8 \<or> 8 \<le> n \<and> n < 16 \<or> 16 \<le> n \<and> n < 24 \<or> 24 \<le> n" by arith
  then show "bit ?l n = bit x n" using n by (elim disjE) (auto simp: bit_or_iff bit_ucast_iff)
qed

lemma read_be32: "off = length pre \<Longrightarrow> read_32b (pre @ be32 x @ post) off = Inr x"
  using be32_join by (simp add: read_32b_ok nth_append be32_def)

text \<open>A tag: its name, the length of the value in bits, the value.\<close>

definition tag_bytes :: "bytes \<times> bytes \<Rightarrow> bytes" where
  "tag_bytes = (\<lambda>(name, value). name @ be32 (of_nat (8 * length value)) @ value)"

definition wf_tag :: "bytes \<times> bytes \<Rightarrow> bool" where
  "wf_tag = (\<lambda>(name, value). length name = 4 \<and> 8 * length value < 2 ^ 32)"

text \<open>What the handlers do with a list of tags.\<close>

fun run_tags :: "(bytes, 's tag_handler) std_map \<Rightarrow> (bytes \<times> bytes) list \<Rightarrow> 's \<Rightarrow> 's \<times> bool result" where
  "run_tags hs [] s = (s, Inr True)"
| "run_tags hs ((name, value) # tags) s =
     bindS (run_handlers hs (takeWhile (\<lambda>c. c \<noteq> 0) name) value name s (False, True)) (\<lambda>s (found, ok).
     if \<not> found then (s, Inr True)
     else if \<not> ok then (s, Inr False)
     else run_tags hs tags s)"

lemma tag_read:
  fixes pre rest :: bytes
  assumes "wf_tag (name, value)" and i: "i = length pre"
  defines "payload \<equiv> pre @ tag_bytes (name, value) @ rest"
  shows "take 4 (drop i payload) = name" and "read_32b payload (i + 4) = Inr (of_nat (8 * length value))"
    and "take (length value) (drop (i + 8) payload) = value" and "i + 8 + length value \<le> length payload"
    and "(of_nat (8 * length value) :: u32) mod 8 = 0"
    and "unat ((of_nat (8 * length value) :: u32) div 8) = length value"
proof -
  have n: "length name = 4" and v: "8 * length value < 2 ^ 32" using assms(1) by (simp_all add: wf_tag_def)
  show "take 4 (drop i payload) = name" "i + 8 + length value \<le> length payload"
    using n i by (simp_all add: payload_def tag_bytes_def)
  show "read_32b payload (i + 4) = Inr (of_nat (8 * length value))"
    using read_be32 [of "i + 4" "pre @ name" "of_nat (8 * length value)" "value @ rest"] n i
    by (simp add: payload_def tag_bytes_def)
  have "payload = (pre @ name @ be32 (of_nat (8 * length value))) @ value @ rest"
    by (simp add: payload_def tag_bytes_def)
  moreover have "length (pre @ name @ be32 (of_nat (8 * length value))) = i + 8" using n i by simp
  ultimately show "take (length value) (drop (i + 8) payload) = value" by simp
  have u: "unat (of_nat (8 * length value) :: u32) = 8 * length value" using v by (intro unat_of_nat_small) simp
  then show "unat ((of_nat (8 * length value) :: u32) div 8) = length value" by (simp add: unat_div)
  have "unat ((of_nat (8 * length value) :: u32) mod 8) = 0" using u by (simp add: unat_mod)
  then show "(of_nat (8 * length value) :: u32) mod 8 = 0" using unat_eq_zero by blast
qed

lemma length_tag_bytes: "length (tag_bytes (name, value)) = length name + 4 + length value"
  by (simp add: tag_bytes_def)

lemma decode_tags_step:
  assumes "wf_tag (name, value)" and "i = length pre" and "value \<noteq> [] \<or> rest \<noteq> []"
  shows "decode_tags hs (pre @ tag_bytes (name, value) @ rest) i (ignored, s) =
    (case run_handlers hs (takeWhile (\<lambda>c. c \<noteq> 0) name) value name s (False, True) of
       (s, Inl e) \<Rightarrow> ((ignored, s), Inl e)
     | (s, Inr (found, tagsuccess)) \<Rightarrow>
         (if \<not> found
          then ((if takeWhile (\<lambda>c. c \<noteq> 0) name \<in> set ignored then ignored
                 else ignored @ [takeWhile (\<lambda>c. c \<noteq> 0) name], s), Inr True)
          else if \<not> tagsuccess then ((ignored, s), Inr False)
          else decode_tags hs (pre @ tag_bytes (name, value) @ rest) (i + (8 + length value)) (ignored, s)))"
proof -
  note r = tag_read(1-4) [OF assms(1,2), of rest] tag_read(5,6) [OF assms(1,2)]
  have "i + 8 < length (pre @ tag_bytes (name, value) @ rest)"
    using assms by (auto simp: length_tag_bytes wf_tag_def)
  then show ?thesis
    unfolding decode_tags.simps [of hs _ i ignored s] using r(1-3,5,6) r(4) by (simp add: Let_def)
qed

lemma decode_tags_encoded:
  assumes "\<forall>t \<in> set tags. wf_tag t" and "tags = [] \<or> snd (last tags) \<noteq> []" and "i = length pre"
  shows "\<exists>ignored'. decode_tags hs (pre @ concat (map tag_bytes tags)) i (ignored, s) =
    ((ignored', fst (run_tags hs tags s)), snd (run_tags hs tags s))"
  using assms
proof (induction tags arbitrary: pre i s ignored)
  case Nil
  then show ?case by (simp add: decode_tags.simps)
next
  case (Cons t tags)
  obtain name val where t: "t = (name, val)" by (cases t)
  have wf: "wf_tag (name, val)" using Cons.prems(1) t by simp
  have ne: "val \<noteq> [] \<or> concat (map tag_bytes tags) \<noteq> []"
  proof (cases tags)
    case Nil
    then show ?thesis using Cons.prems(2) t by simp
  next
    case (Cons u us)
    then show ?thesis by (cases u) (simp add: tag_bytes_def be32_def)
  qed
  note step = decode_tags_step [OF wf Cons.prems(3) ne, of hs ignored s]
  obtain s1 r where h: "run_handlers hs (takeWhile (\<lambda>c. c \<noteq> 0) name) val name s (False, True) = (s1, r)" by fastforce
  show ?case
  proof (cases r)
    case (Inl e)
    then show ?thesis using step h t by simp
  next
    case (Inr fo)
    obtain found ok where fo: "fo = (found, ok)" by (cases fo)
    show ?thesis
    proof (cases "found \<and> ok")
      case False
      then show ?thesis using step h t Inr fo by auto
    next
      case True
      have len: "i + (8 + length val) = length (pre @ tag_bytes t)"
        using Cons.prems(3) wf t by (simp add: length_tag_bytes wf_tag_def)
      have l: "tags = [] \<or> snd (last tags) \<noteq> []" using Cons.prems(2) by (auto split: if_splits)
      from Cons.IH [OF _ l len, of ignored s1] Cons.prems(1) obtain ignored' where
        "decode_tags hs ((pre @ tag_bytes t) @ concat (map tag_bytes tags)) (i + (8 + length val)) (ignored, s1) =
           ((ignored', fst (run_tags hs tags s1)), snd (run_tags hs tags s1))" by auto
      then show ?thesis using step h t Inr fo True by simp
    qed
  qed
qed

text \<open>An AF packet with CRC, revision 1.0, payload type T.\<close>

definition af_head :: "u16 \<Rightarrow> bytes \<Rightarrow> bytes" where
  "af_head seq payload = [0x41, 0x46] @ be32 (of_nat (length payload)) @ be16 seq @ [0x90, 0x54]"

definition af_bytes :: "u16 \<Rightarrow> bytes \<Rightarrow> bytes" where
  "af_bytes seq payload =
     af_head seq payload @ payload @ be16 (crc16 0xffff (af_head seq payload @ payload) XOR 0xffff)"

lemma length_af_head [simp]: "length (af_head seq payload) = 10"
  by (simp add: af_head_def)

lemma length_af_bytes: "length (af_bytes seq payload) = 12 + length payload"
  by (simp add: af_bytes_def)

lemma crc16_per_byte: "foldl (\<lambda>crc b. crc16 crc [b]) c xs = crc16 c xs"
  by (simp add: crc16_def)

lemma af_nth:
  "af_bytes seq payload ! 0 = 0x41" "af_bytes seq payload ! 1 = 0x46"
  by (simp_all add: af_bytes_def af_head_def)

text \<open>Reading the header needs only the first ten bytes.\<close>

lemma af_head_reads:
  assumes "length payload < 2 ^ 32" and "10 \<le> length buf" and "take 10 buf = af_head seq payload"
  shows "read_32b buf 2 = Inr (of_nat (length payload))" and "unat (of_nat (length payload) :: u32) = length payload"
    and "read_16b buf 6 = Inr seq" and "buf ! 8 AND 0x80 \<noteq> 0" and "buf ! 9 = 0x54"
proof -
  have b: "buf = af_head seq payload @ drop 10 buf" using assms(3) by (metis append_take_drop_id)
  show "unat (of_nat (length payload) :: u32) = length payload" using assms(1) by (intro unat_of_nat_small) simp
  have "buf = [0x41, 0x46] @ be32 (of_nat (length payload)) @ be16 seq @ [0x90, 0x54] @ drop 10 buf"
    using b by (simp add: af_head_def)
  then show "read_32b buf 2 = Inr (of_nat (length payload))"
    using read_be32 [of 2 "[0x41, 0x46]" "of_nat (length payload)" "be16 seq @ [0x90, 0x54] @ drop 10 buf"] by simp
  have "buf = ([0x41, 0x46] @ be32 (of_nat (length payload))) @ be16 seq @ [0x90, 0x54] @ drop 10 buf"
    using b by (simp add: af_head_def)
  then show "read_16b buf 6 = Inr seq"
    using read_be16 [of 6 "[0x41, 0x46] @ be32 (of_nat (length payload))" seq "[0x90, 0x54] @ drop 10 buf"] by simp
  have "take 10 buf ! 8 = buf ! 8" "take 10 buf ! 9 = buf ! 9" by simp_all
  then have "buf ! 8 = af_head seq payload ! 8" "buf ! 9 = af_head seq payload ! 9" unfolding assms(3) by simp_all
  then show "buf ! 8 AND 0x80 \<noteq> 0" "buf ! 9 = 0x54"
    by (simp_all add: af_head_def be32_def be16_def)
qed

lemma decode_af_bytes:
  assumes "length payload < 2 ^ 32"
  shows "decode_afpacket (af_bytes seq payload @ rest) (d, s) =
    (case dp_afpacket_handler d (af_bytes seq payload) s of
       (s, Inl e) \<Rightarrow> ((note_seq seq d, s), Inl e)
     | (s, Inr _) \<Rightarrow>
         bindS (decode_tagpacket payload (note_seq seq d, s)) (\<lambda>(d, s) ok.
         ((d, s), Inr (if ok then Ok else Error, 12 + length payload))))"
proof -
  let ?buf = "af_bytes seq payload @ rest"
  let ?n = "length payload"
  have t: "take 10 ?buf = af_head seq payload" "10 \<le> length ?buf" by (simp_all add: af_bytes_def)
  note h = af_head_reads [OF assms t(2,1)]
  have all: "take (10 + ?n) ?buf = af_head seq payload @ payload" "take (10 + ?n + 2) ?buf = af_bytes seq payload"
    "take ?n (drop 10 ?buf) = payload" by (simp_all add: af_bytes_def)
  have crc: "read_16b ?buf (10 + ?n) = Inr (crc16 0xffff (af_head seq payload @ payload) XOR 0xffff)"
    using read_be16 [of "10 + ?n" "af_head seq payload @ payload" _ rest] by (simp add: af_bytes_def)
  have "dp_afpacket_handler (note_seq seq d) = dp_afpacket_handler d" by (simp add: note_seq_def Let_def)
  moreover have "\<not> length ?buf < 10 + ?n + 2" "\<not> length ?buf < 10" by (simp_all add: length_af_bytes)
  ultimately show ?thesis
    unfolding decode_afpacket_def prod.case h(1,3) bindS_simps Let_def h(2) all crc crc16_per_byte
    using h(4,5) by (simp cong: prod.case_cong sum.case_cong)
qed

text \<open>The beginning of a packet.\<close>

lemma decode_af_prefix:
  assumes "length payload < 2 ^ 32" and "n < length (af_bytes seq payload)"
  shows "decode_afpacket (take n (af_bytes seq payload)) (d, s) = ((d, s), Inr (MissingData, 0))"
proof (cases "n < 10")
  case True
  then show ?thesis using assms(2) by (simp add: decode_afpacket_def min_def)
next
  case False
  let ?buf = "take n (af_bytes seq payload)"
  have len: "length ?buf = n" using assms(2) by simp
  have t: "take 10 ?buf = af_head seq payload" "10 \<le> length ?buf"
    using False assms(2) by (simp_all add: af_bytes_def min_def)
  note h = af_head_reads [OF assms(1) t(2,1)]
  have "length ?buf < 10 + length payload + 2" using assms(2) len by (simp add: length_af_bytes)
  then show ?thesis
    using False len unfolding decode_afpacket_def prod.case h(1,3) bindS_simps Let_def h(2) by simp
qed

text \<open>The pending input of a stream is not looked at while a packet is decoded.\<close>

definition with_input :: "bytes \<Rightarrow> 's tag_dispatcher \<times> 's \<Rightarrow> 's tag_dispatcher \<times> 's" where
  "with_input x = (\<lambda>(d, s). (d\<lparr>dp_input_data := x\<rparr>, s))"

lemma with_input_simps [simp]:
  "with_input x (d, s) = (d\<lparr>dp_input_data := x\<rparr>, s)"
  "with_input x (with_input y ds) = with_input x ds"
  "dp_input_data (fst (with_input x ds)) = x"
  by (cases ds; simp add: with_input_def)+

lemma decode_tagpacket_with_input:
  "decode_tagpacket payload (with_input x ds) = map_prod (with_input x) id (decode_tagpacket payload ds)"
  by (cases ds) (auto simp: decode_tagpacket_def split: prod.splits)

lemma decode_af_with_input:
  assumes "length payload < 2 ^ 32"
  shows "decode_afpacket (af_bytes seq payload @ rest) (with_input x ds) =
    map_prod (with_input x) id (decode_afpacket (af_bytes seq payload) ds)"
proof -
  obtain d s where ds: "ds = (d, s)" by (cases ds)
  have n: "note_seq seq (d\<lparr>dp_input_data := x\<rparr>) = (note_seq seq d)\<lparr>dp_input_data := x\<rparr>"
    by (simp add: note_seq_def Let_def)
  note b = decode_af_bytes [OF assms, of seq "[]" d s, simplified] decode_af_bytes [OF assms, of seq rest "d\<lparr>dp_input_data := x\<rparr>" s]
  obtain s1 r where h: "dp_afpacket_handler d (af_bytes seq payload) s = (s1, r)" by fastforce
  show ?thesis
  proof (cases r)
    case (Inl e)
    then show ?thesis using h n by (simp add: ds b)
  next
    case (Inr u)
    obtain d2 s2 q where q: "decode_tagpacket payload (note_seq seq d, s1) = ((d2, s2), q)" by (metis prod.exhaust)
    then have "decode_tagpacket payload ((note_seq seq d)\<lparr>dp_input_data := x\<rparr>, s1) = ((d2\<lparr>dp_input_data := x\<rparr>, s2), q)"
      using decode_tagpacket_with_input [of payload x "(note_seq seq d, s1)"] by simp
    then show ?thesis using h n Inr q by (cases q) (simp_all add: ds b)
  qed
qed

section \<open>Packets in a stream\<close>

fun push_all :: "('x \<Rightarrow> 't \<Rightarrow> 't \<times> unit result) \<Rightarrow> 'x list \<Rightarrow> 't \<Rightarrow> 't \<times> unit result" where
  "push_all f [] t = (t, Inr ())"
| "push_all f (x # xs) t = bindS (f x t) (\<lambda>t _. push_all f xs t)"

text \<open>Delivery of a packet that is decoded without an error.\<close>

definition deliver :: "bytes \<Rightarrow> 's tag_dispatcher \<times> 's \<Rightarrow> ('s tag_dispatcher \<times> 's) option" where
  "deliver af ds =
     (case decode_afpacket af ds of
        (_, Inl _) \<Rightarrow> None
      | ((d, s), Inr (st, _)) \<Rightarrow>
          (if st \<noteq> Ok then None
           else case packet_done (set_pseq_valid False d, s) of (_, Inl _) \<Rightarrow> None | (ds, Inr _) \<Rightarrow> Some ds))"

fun deliver_all :: "bytes list \<Rightarrow> 's tag_dispatcher \<times> 's \<Rightarrow> ('s tag_dispatcher \<times> 's) option" where
  "deliver_all [] ds = Some ds"
| "deliver_all (af # afs) ds = (case deliver af ds of None \<Rightarrow> None | Some ds \<Rightarrow> deliver_all afs ds)"

lemma deliver_all_append:
  "deliver_all (xs @ ys) ds = (case deliver_all xs ds of None \<Rightarrow> None | Some ds \<Rightarrow> deliver_all ys ds)"
  by (induction xs arbitrary: ds) (simp_all split: option.splits)

lemma deliver_elim:
  assumes "deliver af ds = Some ds'"
  obtains d s n where "decode_afpacket af ds = ((d, s), Inr (Ok, n))"
    "packet_done (set_pseq_valid False d, s) = (ds', Inr ())"
  using assms by (auto simp: deliver_def split: prod.splits sum.splits if_splits)

lemma deliver_datagram:
  assumes "deliver (af_bytes seq payload) ds = Some ds'"
  shows "push_packet rs \<lparr>pk_buf = af_bytes seq payload, pk_received_on_port = port\<rparr> ds = (ds', Inr ())"
proof -
  obtain d s n where "decode_afpacket (af_bytes seq payload) ds = ((d, s), Inr (Ok, n))"
    "packet_done (set_pseq_valid False d, s) = (ds', Inr ())" using assms by (rule deliver_elim)
  then show ?thesis using af_nth [of seq payload] by (cases ds) (simp add: push_packet_def length_af_bytes)
qed

lemma packet_done_with_input:
  "packet_done (with_input x ds) = map_prod (with_input x) id (packet_done ds)"
  by (cases ds) (auto simp: packet_done_def split: prod.splits)

lemma decode_af_consumes:
  assumes "length payload < 2 ^ 32" "decode_afpacket (af_bytes seq payload) ds = (ds', Inr (st, n))"
  shows "n = length (af_bytes seq payload)"
  using assms(2) decode_af_bytes [OF assms(1), of seq "[]" "fst ds" "snd ds"]
  by (auto simp: length_af_bytes bindS_def split: prod.splits sum.splits)

lemma set_pseq_with_input: "set_pseq_valid v (d\<lparr>dp_input_data := x\<rparr>) = (set_pseq_valid v d)\<lparr>dp_input_data := x\<rparr>"
  by (simp add: set_pseq_valid_def)

lemma push_loop_short: "length (dp_input_data (fst ds)) \<le> 2 \<Longrightarrow> push_loop rs ds = (ds, Inr ())"
  by (simp add: push_loop.simps)

lemma loop_packet:
  assumes len: "length payload < 2 ^ 32" and del: "deliver (af_bytes seq payload) ds = Some ds'"
  shows "push_loop rs (with_input (af_bytes seq payload @ rest) ds) = push_loop rs (with_input rest ds')"
proof -
  let ?af = "af_bytes seq payload"
  let ?in = "?af @ rest"
  obtain d s n where a: "decode_afpacket ?af ds = ((d, s), Inr (Ok, n))"
    "packet_done (set_pseq_valid False d, s) = (ds', Inr ())" using del by (rule deliver_elim)
  have n: "n = length ?af" using decode_af_consumes [OF len a(1)] .
  have dec: "decode_afpacket ?in (with_input ?in ds) = (with_input ?in (d, s), Inr (Ok, n))"
    using decode_af_with_input [OF len, of seq rest ?in ds] a(1) by simp
  have don: "packet_done (set_pseq_valid False (d\<lparr>dp_input_data := ?in\<rparr>), s) = (with_input ?in ds', Inr ())"
    using packet_done_with_input [of ?in "(set_pseq_valid False d, s)"] a(2) by (simp add: set_pseq_with_input)
  have start: "?in ! 0 = 0x41" "?in ! 1 = 0x46" "2 < length ?in"
    using af_nth [of seq payload] by (simp_all add: nth_append length_af_bytes)
  obtain d0 s0 where ds: "with_input ?in ds = (d0, s0)" "dp_input_data d0 = ?in"
    using with_input_simps(3) [of ?in ds] by (cases "with_input ?in ds") simp
  obtain d' s' where ds': "ds' = (d', s')" by (cases ds')
  have "push_step rs (with_input ?in ds) = (with_input rest ds', Inr True)"
    using dec don start n unfolding ds(1) push_step_def prod.case ds(2) Let_def
    by (simp add: ds' drop_input_def del: One_nat_def)
  then show ?thesis using start(3) by (simp add: push_loop.simps [of rs "with_input ?in ds"])
qed

lemma loop_tail:
  assumes "length payload < 2 ^ 32" and "n < length (af_bytes seq payload)"
  shows "push_loop rs (with_input (take n (af_bytes seq payload)) ds) = (with_input (take n (af_bytes seq payload)) ds, Inr ())"
proof -
  let ?in = "take n (af_bytes seq payload)"
  obtain d s where ds: "with_input ?in ds = (d, s)" "dp_input_data d = ?in"
    using with_input_simps(3) [of ?in ds] by (cases "with_input ?in ds") simp
  show ?thesis
  proof (cases "2 < length ?in")
    case True
    then have "?in ! 0 = 0x41" "?in ! 1 = 0x46" using af_nth [of seq payload] by simp_all
    then have "push_step rs (d, s) = ((d, s), Inr False)"
      using decode_af_prefix [OF assms, of d s] ds(2) by (simp add: push_step_def Let_def drop_input_def del: One_nat_def)
    then show ?thesis using True ds by (simp add: push_loop.simps [of rs "(d, s)"])
  next
    case False
    then have "length (dp_input_data (fst (d, s))) \<le> 2" using ds(2) by (simp only: fst_conv not_less)
    from push_loop_short [OF this] show ?thesis using ds(1) by simp
  qed
qed

text \<open>\<open>r\<close> is what a stream has received of the packets \<open>ps\<close> that are not complete.\<close>

definition pending :: "bytes \<Rightarrow> (u16 \<times> bytes) list \<Rightarrow> bool" where
  "pending r ps =
     (case ps of [] \<Rightarrow> r = [] | (seq, payload) # _ \<Rightarrow> \<exists>n < length (af_bytes seq payload). r = take n (af_bytes seq payload))"

lemma loop_stream:
  assumes "\<forall>(seq, payload) \<in> set (ps @ qs). length payload < 2 ^ 32"
    and "deliver_all (map (\<lambda>(seq, payload). af_bytes seq payload) ps) ds = Some ds'" and "pending r qs"
  shows "push_loop rs (with_input (concat (map (\<lambda>(seq, payload). af_bytes seq payload) ps) @ r) ds) = (with_input r ds', Inr ())"
  using assms(1,2)
proof (induction ps arbitrary: ds)
  case Nil
  show ?case
  proof (cases qs)
    case Nil
    then show ?thesis using assms(3) Nil.prems(2) by (simp add: pending_def push_loop_short)
  next
    case (Cons q qs')
    obtain seq payload where q: "q = (seq, payload)" by (cases q)
    then obtain n where "n < length (af_bytes seq payload)" "r = take n (af_bytes seq payload)"
      using assms(3) Cons by (auto simp: pending_def)
    then show ?thesis using loop_tail [of payload n seq rs ds] Nil.prems Cons q by auto
  qed
next
  case (Cons p ps)
  obtain seq payload where p: "p = (seq, payload)" by (cases p)
  then obtain ds1 where ds1: "deliver (af_bytes seq payload) ds = Some ds1"
    "deliver_all (map (\<lambda>(seq, payload). af_bytes seq payload) ps) ds1 = Some ds'"
    using Cons.prems(2) by (auto split: option.splits)
  have "length payload < 2 ^ 32" using Cons.prems(1) p by auto
  from loop_packet [OF this ds1(1), of rs] Cons.IH [OF _ ds1(2)] Cons.prems(1) p show ?case by simp
qed

lemma split_stream:
  "x @ y = concat (map (\<lambda>(seq, payload). af_bytes seq payload) ps) \<Longrightarrow>
     \<exists>ps1 ps2 r. ps = ps1 @ ps2 \<and> x = concat (map (\<lambda>(seq, payload). af_bytes seq payload) ps1) @ r \<and> pending r ps2"
proof (induction ps arbitrary: x)
  case Nil
  then show ?case by (intro exI [of _ "[]"]) (simp add: pending_def)
next
  case (Cons p ps)
  obtain seq payload where p: "p = (seq, payload)" by (cases p)
  let ?af = "af_bytes seq payload"
  have e: "x @ y = ?af @ concat (map (\<lambda>(seq, payload). af_bytes seq payload) ps)" using Cons.prems p by simp
  show ?case
  proof (cases "length x < length ?af")
    case True
    have "x = take (length x) (x @ y)" by simp
    also have "\<dots> = take (length x) ?af" unfolding e using True by simp
    finally have "pending x (p # ps)" using True p by (auto simp: pending_def)
    then show ?thesis by (intro exI [of _ "[]"] exI [of _ "p # ps"] exI [of _ x]) simp
  next
    case False
    have "take (length ?af) x = take (length ?af) (x @ y)" using False by simp
    then have t: "take (length ?af) x = ?af" unfolding e by simp
    then have x: "x = ?af @ drop (length ?af) x" by (metis append_take_drop_id)
    then have "drop (length ?af) x @ y = concat (map (\<lambda>(seq, payload). af_bytes seq payload) ps)"
      using e by (metis append.assoc same_append_eq)
    from Cons.IH [OF this] obtain ps1 ps2 r where "ps = ps1 @ ps2"
      "drop (length ?af) x = concat (map (\<lambda>(seq, payload). af_bytes seq payload) ps1) @ r" "pending r ps2" by blast
    then show ?thesis using x p by (intro exI [of _ "p # ps1"] exI [of _ ps2]) auto
  qed
qed

lemma chunks_stream:
  assumes "\<forall>(seq, payload) \<in> set ps. length payload < 2 ^ 32"
    and "deliver_all (map (\<lambda>(seq, payload). af_bytes seq payload) ps) ds = Some ds'"
    and "pending r ps" and "[] \<notin> set chunks"
    and "r @ concat chunks = concat (map (\<lambda>(seq, payload). af_bytes seq payload) ps)"
  shows "push_all (push_bytes rs) chunks (with_input r ds) = (with_input [] ds', Inr ())"
  using assms
proof (induction chunks arbitrary: r ps ds)
  case Nil
  show ?case
  proof (cases ps)
    case Nil
    then show ?thesis using Nil.prems(2,3) by (simp add: pending_def)
  next
    case (Cons p ps')
    obtain seq payload where p: "p = (seq, payload)" by (cases p)
    then have "length r < length (af_bytes seq payload)" using Nil.prems(3) Cons by (auto simp: pending_def)
    moreover have "length r \<ge> length (af_bytes seq payload)" using Nil.prems(5) Cons p by simp
    ultimately show ?thesis by simp
  qed
next
  case (Cons c chunks)
  have "(r @ c) @ concat chunks = concat (map (\<lambda>(seq, payload). af_bytes seq payload) ps)" using Cons.prems(5) by simp
  from split_stream [OF this] obtain ps1 ps2 r' where ps: "ps = ps1 @ ps2"
    "r @ c = concat (map (\<lambda>(seq, payload). af_bytes seq payload) ps1) @ r'" "pending r' ps2" by blast
  obtain ds1 where ds1: "deliver_all (map (\<lambda>(seq, payload). af_bytes seq payload) ps1) ds = Some ds1"
    "deliver_all (map (\<lambda>(seq, payload). af_bytes seq payload) ps2) ds1 = Some ds'"
    using Cons.prems(2) unfolding ps(1) map_append deliver_all_append by (auto split: option.splits)
  have "\<forall>(seq, payload) \<in> set (ps1 @ ps2). length payload < 2 ^ 32" using Cons.prems(1) ps(1) by simp
  from loop_stream [OF this ds1(1) ps(3), of rs]
  have "push_bytes rs c (with_input r ds) = (with_input r' ds1, Inr ())"
    using Cons.prems(4) ps(2) by (cases ds; cases "c = []") (simp_all add: push_bytes_def)
  moreover have "r' @ concat chunks = concat (map (\<lambda>(seq, payload). af_bytes seq payload) ps2)"
    using Cons.prems(5) ps(1,2) by (metis append.assoc concat.simps(2) concat_append map_append same_append_eq)
  moreover have "\<forall>(seq, payload) \<in> set ps2. length payload < 2 ^ 32" using Cons.prems(1) ps(1) by simp
  ultimately show ?case using Cons.IH [of ps2 ds1 r'] ds1(2) ps(3) Cons.prems(4) by simp
qed

lemma datagrams_deliver:
  "deliver_all (map (\<lambda>(seq, payload). af_bytes seq payload) ps) ds = Some ds' \<Longrightarrow>
     push_all (push_packet rs) (map (\<lambda>(seq, payload). \<lparr>pk_buf = af_bytes seq payload, pk_received_on_port = port\<rparr>) ps) ds = (ds', Inr ())"
proof (induction ps arbitrary: ds)
  case (Cons p ps)
  obtain seq payload where p: "p = (seq, payload)" by (cases p)
  then obtain ds1 where ds1: "deliver (af_bytes seq payload) ds = Some ds1"
    "deliver_all (map (\<lambda>(seq, payload). af_bytes seq payload) ps) ds1 = Some ds'"
    using Cons.prems by (auto split: option.splits)
  then show ?case using Cons.IH [OF ds1(2)] deliver_datagram [OF ds1(1), of rs port] p by simp
qed simp

lemma deliver_keeps_input: "deliver af ds = Some ds' \<Longrightarrow> dp_input_data (fst ds') = dp_input_data (fst ds)"
  by (erule deliver_elim) (auto simp: set_pseq_valid_def dest!: decode_afpacket_input packet_done_input)

lemma deliver_all_keeps_input: "deliver_all afs ds = Some ds' \<Longrightarrow> dp_input_data (fst ds') = dp_input_data (fst ds)"
  by (induction afs arbitrary: ds) (auto split: option.splits dest: deliver_keeps_input)

section \<open>Time stamp arithmetic\<close>

definition et_units :: "frame_timestamp_t \<Rightarrow> int" where
  "et_units t = uint (et_seconds t) * 16384000 + uint (et_tsta t)"

lemma et_add_ms_cases:
  assumes "uint (et_tsta t) < 16384000" "0 \<le> ms"
  defines "tot \<equiv> uint (et_tsta t) + (ms mod 1000) * 16384"
  defines "carry \<equiv> (if tot < 16384000 then 0 else 1 :: int)"
  shows "\<exists>t'. et_add_ms t ms = Inr t' \<and> et_utco t' = et_utco t \<and>
    uint (et_tsta t') = tot - carry * 16384000 \<and> et_seconds t' = et_seconds t + of_int (carry + ms div 1000)"
proof -
  have m: "ms smod 1000 = ms mod 1000" "ms sdiv 1000 = ms div 1000"
    using assms(2) by (cases "ms = 0"; simp add: signed_modulo_int_def signed_divide_int_def)+
  have r: "0 \<le> ms mod 1000" "ms mod 1000 \<le> 999" using pos_mod_bound [of 1000 ms] by simp_all
  have push: "push_bit 14 (ms mod 1000) = ms mod 1000 * 16384" by (simp add: push_bit_eq_mult)
  let ?tsta = "et_tsta t + of_int (push_bit 14 (ms smod 1000)) :: u32"
  have tot: "0 \<le> tot" "tot < 2 * 16384000" using r assms(1) by (simp_all add: tot_def)
  have "uint ?tsta = tot mod 2 ^ 32"
    unfolding m(1) push tot_def by (simp add: uint_word_ariths uint_word_of_int take_bit_eq_mod mod_simps)
  then have u: "uint ?tsta = tot" using tot by simp
  have gt: "(?tsta > 0xf9FFff) = (carry = 1)" using u by (simp add: word_less_def carry_def)
  have d: "uint (?tsta - 0xfa0000) = tot - 16384000" if "carry = 1"
    using that u tot by (simp add: uint_sub_if' carry_def split: if_splits)
  show ?thesis
    using r u gt d unfolding et_add_ms_def m Let_def by (auto simp: carry_def)
qed

text \<open>The comparison operators order time stamps by the time they stand for, modulo \<open>==\<close>.\<close>

lemma et_order:
  "et_less_eq t t" "et_less_eq t u \<Longrightarrow> et_less_eq u v \<Longrightarrow> et_less_eq t v" "et_less_eq t u \<or> et_less_eq u t"
  "(et_less_eq t u \<and> et_less_eq u t) = et_eq t u" "et_less t u = (et_less_eq t u \<and> \<not> et_less_eq u t)"
  by (auto simp: et_less_eq_def et_less_def et_eq_def split: if_splits)

lemma et_unix_epoch_roundtrip:
  "et_to_unix_epoch (et_from_unix_epoch time off tsta) = time mod 2 ^ 32"
proof -
  have "946684800 + (of_int (time - 946684800 + uint (off - 32)) :: u32) - (off - 32) = of_int time" by simp
  then show ?thesis by (simp add: et_to_unix_epoch_def et_from_unix_epoch_def Let_def uint_word_of_int)
qed

section \<open>Corrupted packets\<close>

lemma corrupted_af:
  assumes len: "length payload < 2 ^ 32" and i: "6 \<le> i" "i < length (af_bytes seq payload)"
    and b: "b \<noteq> af_bytes seq payload ! i"
  shows "\<exists>d' n. decode_afpacket ((af_bytes seq payload)[i := b]) (d, s) = ((d', s), Inr (Error, n))"
proof -
  let ?p = "af_bytes seq payload" and ?n = "length payload"
  let ?q = "?p[i := b]"
  have lq: "length ?q = 12 + ?n" by (simp add: length_af_bytes)
  have "read_32b ?q 2 = read_32b ?p 2" using i lq by (simp add: read_32b_ok length_af_bytes)
  then have l: "read_32b ?q 2 = Inr (of_nat ?n)" "unat (of_nat ?n :: u32) = ?n"
    using af_head_reads(1,2) [OF len, of ?p seq] by (simp_all add: af_bytes_def)
  obtain seq' where seq': "read_16b ?q 6 = Inr seq'" using lq by (simp add: read_16b_ok)
  have "checkCRC ?p (length ?p) = Inr True"
    using checkCRC_append [of "af_head seq payload @ payload"] by (simp add: af_bytes_def)
  from crc_detects_byte_error [OF this i(2) b] have bad: "checkCRC ?q (12 + ?n) = Inr False"
    by (simp add: length_af_bytes)
  obtain crc where crc: "read_16b ?q (10 + ?n) = Inr crc" using lq by (simp add: read_16b_ok)
  have ne: "crc \<noteq> crc16 0xffff (take (10 + ?n) ?q) XOR 0xffff"
    using bad crc lq by (simp add: checkCRC_def)
  have "\<not> length ?q < 10 + ?n + 2" "\<not> length ?q < 10" using lq by simp_all
  then show ?thesis
    unfolding decode_afpacket_def prod.case l(1) seq' bindS_simps Let_def l(2) crc crc16_per_byte
    using ne by (simp split: if_split)
qed

section \<open>Properties\<close>

text \<open>
  C11. AF packets sent over a stream are found again however the stream is cut into pieces, as long as every
  packet decodes and no handler fails: every handler and the completion are called as if each packet had come in a datagram of its own, and
  no byte is left over.
\<close>

theorem stream_equals_datagrams:
  assumes "\<forall>(seq, payload) \<in> set ps. length payload < 2 ^ 32"
    and "deliver_all (map (\<lambda>(seq, payload). af_bytes seq payload) ps) (d, s) = Some (d', s')"
    and "dp_input_data d = []" and "[] \<notin> set chunks"
    and "concat chunks = concat (map (\<lambda>(seq, payload). af_bytes seq payload) ps)"
  shows "push_all (push_bytes rs) chunks (d, s) = ((d', s'), Inr ()) \<and>
    push_all (push_packet rs)
      (map (\<lambda>(seq, payload). \<lparr>pk_buf = af_bytes seq payload, pk_received_on_port = port\<rparr>) ps) (d, s) = ((d', s'), Inr ())"
proof (rule conjI)
  have "pending [] ps" by (auto simp: pending_def length_af_bytes intro: exI [of _ 0] split: list.split)
  moreover have "with_input [] (d, s) = (d, s)" using assms(3) by simp
  moreover have "with_input [] (d', s') = (d', s')"
    using deliver_all_keeps_input [OF assms(2)] assms(3) by simp
  ultimately show "push_all (push_bytes rs) chunks (d, s) = ((d', s'), Inr ())"
    using chunks_stream [OF assms(1,2), of "[]" chunks rs] assms(4,5) by simp
  show "push_all (push_packet rs)
      (map (\<lambda>(seq, payload). \<lparr>pk_buf = af_bytes seq payload, pk_received_on_port = port\<rparr>) ps) (d, s) = ((d', s'), Inr ())"
    using assms(2) by (rule datagrams_deliver)
qed

text \<open>A dispatcher that counts the dummy tags and the packets, and a packet with one such tag.\<close>

definition counting :: "(nat \<times> nat) tag_dispatcher" where
  "counting = register_tag ''*dmy'' (\<lambda>_ _ (m, n). ((m + 1, n), Inr True)) (TagDispatcher 0 (\<lambda>_ (m, n). ((m, n + 1), Inr ())))"

definition dummy_payload :: bytes where
  "dummy_payload = tag_bytes (ascii ''*dmy'', [0])"

lemma counting_delivers:
  "deliver_all (map (\<lambda>(seq, payload). af_bytes seq payload) [(7, dummy_payload), (8, [])]) (counting, (0, 0)) =
     Some (note_seq 8 (note_seq 7 counting), (1, 2))"
proof -
  have wf: "wf_tag (ascii ''*dmy'', [0])" by (simp add: wf_tag_def ascii_def)
  have nine: "decode_tags hs dummy_payload 9 igs = (igs, Inr True)" for hs :: "(bytes, (nat \<times> nat) tag_handler) std_map" and igs
    by (cases igs) (simp add: decode_tags.simps [of _ _ 9] dummy_payload_def tag_bytes_def ascii_def)
  have "decode_tags (dp_handlers counting) dummy_payload 0 ([], m, n) = (([], m + 1, n), Inr True)" for m n
    using decode_tags_step [OF wf, of 0 "[]" "[]" "dp_handlers counting" "[]" "(m, n)"] nine
    by (simp add: dummy_payload_def [symmetric])
      (simp add: counting_def register_tag_def TagDispatcher_def ascii_def tag_matches_def nine [unfolded dummy_payload_def ascii_def, simplified])
  then have "decode_tagpacket dummy_payload (note_seq 7 counting, m, n) = ((note_seq 7 counting, m + 1, n), Inr True)" for m n
    by (simp add: decode_tagpacket_def dummy_payload_def note_seq_def Let_def counting_def register_tag_def TagDispatcher_def)
  moreover have "decode_tagpacket [] (note_seq 8 (note_seq 7 counting), m, n) = ((note_seq 8 (note_seq 7 counting), m, n), Inr True)" for m n
    by (simp add: decode_tagpacket_def decode_tags.simps note_seq_def Let_def)
  moreover have "length dummy_payload < 2 ^ 32" "length ([] :: bytes) < 2 ^ 32"
    by (simp_all add: dummy_payload_def tag_bytes_def ascii_def)
  moreover have "dp_afpacket_handler d = (\<lambda>_ s. (s, Inr ()))" "dp_af_packet_completed d = (\<lambda>_ (m, n). ((m, n + 1), Inr ()))"
    "set_pseq_valid False d = d"
    if "d \<in> {counting, note_seq 7 counting, note_seq 8 (note_seq 7 counting)}" for d
    using that by (auto simp: set_pseq_valid_def note_seq_def Let_def counting_def register_tag_def TagDispatcher_def)
  ultimately have "deliver (af_bytes 7 dummy_payload) (counting, 0, 0) = Some (note_seq 7 counting, 1, 1)"
    "deliver (af_bytes 8 []) (note_seq 7 counting, 1, 1) = Some (note_seq 8 (note_seq 7 counting), 1, 2)"
    using decode_af_bytes [of dummy_payload 7 "[]" counting "(0, 0)"] decode_af_bytes [of "[]" 8 "[]" "note_seq 7 counting" "(1, 1)"]
    unfolding deliver_def packet_done_def by simp_all
  then show ?thesis by simp
qed

theorem stream_equals_datagrams_witness:
  "\<forall>rs. push_all (push_bytes rs)
      [take 3 (af_bytes 7 dummy_payload), drop 3 (af_bytes 7 dummy_payload) @ take 11 (af_bytes 8 []), drop 11 (af_bytes 8 [])]
      (counting, (0, 0)) = ((note_seq 8 (note_seq 7 counting), (1, 2)), Inr ())"
proof
  fix rs
  show "push_all (push_bytes rs)
      [take 3 (af_bytes 7 dummy_payload), drop 3 (af_bytes 7 dummy_payload) @ take 11 (af_bytes 8 []), drop 11 (af_bytes 8 [])]
      (counting, (0, 0)) = ((note_seq 8 (note_seq 7 counting), (1, 2)), Inr ())"
  proof (rule stream_equals_datagrams [OF _ counting_delivers, THEN conjunct1])
    show "dp_input_data counting = []" by (simp add: counting_def register_tag_def TagDispatcher_def)
  qed (auto simp: dummy_payload_def length_af_bytes tag_bytes_def ascii_def dest: arg_cong [of _ _ length])
qed

text \<open>
  An AF packet in which one byte after its length is changed reaches neither a handler nor the
  completion.
\<close>

lemma corrupted_packet_ignored:
  assumes "length payload < 2 ^ 32" and "6 \<le> i" and "i < length (af_bytes seq payload)"
    and "b \<noteq> af_bytes seq payload ! i"
  shows "\<exists>d'. push_packet rs \<lparr>pk_buf = (af_bytes seq payload)[i := b], pk_received_on_port = port\<rparr> (d, s) = ((d', s), Inr ())"
proof -
  obtain d' n where "decode_afpacket ((af_bytes seq payload)[i := b]) (d, s) = ((d', s), Inr (Error, n))"
    using corrupted_af [OF assms, of d s] by auto
  then show ?thesis using af_nth [of seq payload] assms(2) by (simp add: push_packet_def length_af_bytes)
qed

lemma corrupted_packet_ignored_witness:
  "\<forall>rs. \<exists>d'. push_packet rs \<lparr>pk_buf = (af_bytes 7 dummy_payload)[9 := 0], pk_received_on_port = 0\<rparr> (counting, (0, 0)) =
     ((d', (0, 0)), Inr ())"
  by (intro allI corrupted_packet_ignored)
    (simp_all add: af_bytes_def af_head_def be32_def be16_def dummy_payload_def tag_bytes_def ascii_def)

text \<open>
  The tags of a packet are handled one after the other, each by the handlers registered for
  its name, until one fails or has no handler; a last tag without a value is passed over.
\<close>

lemma tags_in_order:
  assumes "\<forall>t \<in> set tags. wf_tag t" and "tags = [] \<or> snd (last tags) \<noteq> []"
  shows "\<exists>d'. decode_tagpacket (concat (map tag_bytes tags)) (d, s) =
    ((d', fst (run_tags (dp_handlers d) tags s)), snd (run_tags (dp_handlers d) tags s))"
  using decode_tags_encoded [OF assms, of 0 "[]" "dp_handlers d" "dp_ignored_tags d" s]
  by (auto simp: decode_tagpacket_def)

lemma tags_in_order_witness:
  "\<exists>d'. decode_tagpacket (concat (map tag_bytes [(ascii ''*dmy'', []), (ascii ''*dmy'', [0])])) (counting, (0, 0)) =
     ((d', (2, 0)), Inr True)"
proof -
  have "run_tags (dp_handlers counting) [(ascii ''*dmy'', []), (ascii ''*dmy'', [0])] (0, 0) = ((2, 0), Inr True)"
    by (simp add: counting_def register_tag_def TagDispatcher_def ascii_def tag_matches_def)
  then show ?thesis
    using tags_in_order [of "[(ascii ''*dmy'', []), (ascii ''*dmy'', [0])]" counting "(0, 0)"]
    by (simp add: wf_tag_def ascii_def)
qed

text \<open>
  Adding milliseconds is exact: the time in units of 1/16384000 s grows by 16384 units for each,
  modulo the range of the seconds, and the fraction stays below one second.
\<close>

lemma edi_time_add_exact:
  assumes "uint (et_tsta t) < 16384000" and "0 \<le> ms"
  shows "\<exists>t'. et_add_ms t ms = Inr t' \<and> uint (et_tsta t') < 16384000 \<and> et_utco t' = et_utco t \<and>
    et_units t' mod (2 ^ 32 * 16384000) = (et_units t + ms * 16384) mod (2 ^ 32 * 16384000)"
proof -
  let ?tot = "uint (et_tsta t) + (ms mod 1000) * 16384"
  let ?carry = "if ?tot < 16384000 then 0 else 1 :: int"
  obtain t' where t': "et_add_ms t ms = Inr t'" "et_utco t' = et_utco t"
    "uint (et_tsta t') = ?tot - ?carry * 16384000" "et_seconds t' = et_seconds t + of_int (?carry + ms div 1000)"
    using et_add_ms_cases [OF assms] by blast
  have "ms mod 1000 \<le> 999" using pos_mod_bound [of 1000 ms] by simp
  then have "uint (et_tsta t') < 16384000" using t'(3) assms(1) by (cases "?tot < 16384000") simp_all
  moreover have "et_units t' mod (2 ^ 32 * 16384000) = (et_units t + ms * 16384) mod (2 ^ 32 * 16384000)"
  proof -
    obtain m where m: "uint (et_seconds t') = uint (et_seconds t) + (?carry + ms div 1000) + m * 2 ^ 32"
    proof -
      have "uint (et_seconds t') = (uint (et_seconds t) + (?carry + ms div 1000)) mod 2 ^ 32"
        unfolding t'(4) by (simp add: uint_word_ariths uint_word_of_int take_bit_eq_mod mod_simps)
      then show ?thesis
        using that [of "- ((uint (et_seconds t) + (?carry + ms div 1000)) div 2 ^ 32)"]
        by (simp add: minus_div_mult_eq_mod [symmetric])
    qed
    have "ms * 16384 = (ms div 1000) * 16384000 + (ms mod 1000) * 16384"
      using div_mult_mod_eq [of ms 1000] by linarith
    then have "et_units t' = et_units t + ms * 16384 + m * (2 ^ 32 * 16384000)"
      unfolding et_units_def m t'(3) by (simp add: algebra_simps)
    then show ?thesis by (simp only: mod_mult_self1)
  qed
  ultimately show ?thesis using t'(1,2) by blast
qed

lemma edi_time_add_exact_witness:
  "\<exists>t'. et_add_ms \<lparr>et_seconds = 0xFFFFFFFF, et_utco = 5, et_tsta = 16000000\<rparr> 1024 = Inr t' \<and> uint (et_tsta t') < 16384000 \<and>
     et_utco t' = 5 \<and> et_units t' mod (2 ^ 32 * 16384000) =
       (et_units \<lparr>et_seconds = 0xFFFFFFFF, et_utco = 5, et_tsta = 16000000\<rparr> + 1024 * 16384) mod (2 ^ 32 * 16384000)"
  using edi_time_add_exact [of "\<lparr>et_seconds = 0xFFFFFFFF, et_utco = 5, et_tsta = 16000000\<rparr>" 1024] by simp

end
