(* ===== verification/Eti_Decoder.thy ===== *)
theory Eti_Decoder
  imports Edi_Dispatcher
begin

text \<open>
  The class \<open>ETIDecoder\<close> of \<open>lib/edi/ETIDecoder.cpp\<close>: the handlers of the tags that carry an ETI
  frame. They call the interface \<open>ETIDataCollector\<close>, here a record of operations on a state \<open>'c\<close>.
\<close>

section \<open>The interface\<close>

record eti_fc_data =
  fcd_atstf :: bool
  fcd_tsta :: u32
  fcd_ficf :: bool
  fcd_dlfc :: u16
  fcd_mid :: u8
  fcd_fp :: u8

definition fcd_fct :: "eti_fc_data \<Rightarrow> u8" where
  "fcd_fct fc = ucast (fcd_dlfc fc mod 250)"

record eti_stc_data =
  stcd_stream_index :: u8
  stcd_scid :: u8
  stcd_sad :: u16
  stcd_tpl :: u8
  stcd_mst :: bytes

definition stcd_stl :: "eti_stc_data \<Rightarrow> u16" where
  "stcd_stl stc = of_nat (length (stcd_mst stc) div 8)"

record received_tag_packet =
  rt_afpacket :: bytes
  rt_timestamp :: frame_timestamp_t
  rt_seq :: seq_info_t

definition new_received_tag_packet :: received_tag_packet where
  "new_received_tag_packet =
     \<lparr>rt_afpacket = [], rt_timestamp = new_frame_timestamp_t,
      rt_seq = \<lparr>si_seq_valid = False, si_seq = 0, si_pseq_valid = False, si_pseq = 0\<rparr>\<rparr>"

record 'c eti_data_collector =
  co_update_protocol :: "bytes \<Rightarrow> u16 \<Rightarrow> u16 \<Rightarrow> 'c \<Rightarrow> 'c \<times> unit result"
  co_update_fc_data :: "eti_fc_data \<Rightarrow> 'c \<Rightarrow> 'c \<times> unit result"
  co_update_fic :: "bytes \<Rightarrow> 'c \<Rightarrow> 'c \<times> unit result"
  co_update_err :: "u8 \<Rightarrow> 'c \<Rightarrow> 'c \<times> unit result"
  co_update_edi_time :: "u32 \<Rightarrow> u32 \<Rightarrow> 'c \<Rightarrow> 'c \<times> unit result"
  co_update_mnsc :: "u16 \<Rightarrow> 'c \<Rightarrow> 'c \<times> unit result"
  co_update_rfu :: "u16 \<Rightarrow> 'c \<Rightarrow> 'c \<times> unit result"
  co_add_subchannel :: "eti_stc_data \<Rightarrow> 'c \<Rightarrow> 'c \<times> unit result"
  co_assemble :: "received_tag_packet \<Rightarrow> 'c \<Rightarrow> 'c \<times> unit result"

section \<open>The decoder\<close>

text \<open>What the handlers change: the collector and the packet being received.\<close>

record 'c eti_decoder =
  ed_data_collector :: 'c
  ed_received_tagpacket :: received_tag_packet

definition collect :: "('c \<Rightarrow> 'c \<times> unit result) \<Rightarrow> 'c eti_decoder \<Rightarrow> 'c eti_decoder \<times> unit result" where
  "collect f e = (case f (ed_data_collector e) of (c, r) \<Rightarrow> (e\<lparr>ed_data_collector := c\<rparr>, r))"

definition decode_starptr :: "'c eti_data_collector \<Rightarrow> 'c eti_decoder tag_handler" where
  "decode_starptr ops tag_value n e =
     (if length tag_value \<noteq> 0x40 div 8 then (e, Inr False)
      else
        (let protocol = takeWhile (\<lambda>c. c \<noteq> 0) (take 4 tag_value) in
         bindS (e, read_16b tag_value 4) (\<lambda>e major.
         bindS (e, read_16b tag_value 6) (\<lambda>e minor.
         bindS (collect (co_update_protocol ops protocol major minor) e) (\<lambda>e _.
         (e, Inr True))))))"

definition set_timestamp :: "(frame_timestamp_t \<Rightarrow> frame_timestamp_t) \<Rightarrow> 'c eti_decoder \<Rightarrow> 'c eti_decoder" where
  "set_timestamp f e =
     e\<lparr>ed_received_tagpacket := (ed_received_tagpacket e)\<lparr>rt_timestamp := f (rt_timestamp (ed_received_tagpacket e))\<rparr>\<rparr>"

text \<open>The optional time: the result is the time stamp and the index after it.\<close>

definition deti_time ::
    "'c eti_data_collector \<Rightarrow> bool \<Rightarrow> bytes \<Rightarrow> 'c eti_decoder \<Rightarrow> 'c eti_decoder \<times> (u32 \<times> nat) result" where
  "deti_time ops atstf tag_value e =
     (if atstf then
        bindS (e, rd tag_value 6) (\<lambda>e utco.
        bindS (e, read_32b tag_value 7) (\<lambda>e seconds.
        bindS (collect (co_update_edi_time ops (ucast utco) seconds) e) (\<lambda>e _.
        bindS (set_timestamp (\<lambda>t. t\<lparr>et_utco := ucast utco, et_seconds := seconds\<rparr>) e, read_24b tag_value 11) (\<lambda>e tsta.
        (e, Inr (tsta, 14))))))
      else (set_timestamp (\<lambda>t. t\<lparr>et_utco := 0, et_seconds := 0\<rparr>) e, Inr (0xFFFFFF, 6)))"

definition decode_deti :: "'c eti_data_collector \<Rightarrow> 'c eti_decoder tag_handler" where
  "decode_deti ops tag_value n e =
     bindS (e, read_16b tag_value 0) (\<lambda>e detiHeader.
     bindS (e, read_32b tag_value 2) (\<lambda>e etiHeader.
       let atstf = bit detiHeader 15;
           ficf = bit detiHeader 14;
           rfudf = bit detiHeader 13;
           fcth = (ucast (shr detiHeader 8 AND 0x1F) :: u8);
           fct = (ucast (detiHeader AND 0xFF) :: u8);
           dlfc = (ucast fcth * 250 + ucast fct :: u16);
           stat = (ucast (shr etiHeader 24 AND 0xFF) :: u8);
           mid = (ucast (shr etiHeader 22 AND 0x03) :: u8);
           fp = (ucast (shr etiHeader 19 AND 0x07) :: u8);
           rfu = bit etiHeader 16;
           mnsc = (if rfu then 0xFFFF else ucast (etiHeader AND 0xFFFF) :: u16);
           fic_length = 4 * (if ficf then (if mid = 3 then 32 else 24) else 0);
           expected_length = 2 + 4 + (if atstf then 1 + 4 + 3 else 0) + fic_length + (if rfudf then 3 else 0)
       in if length tag_value \<noteq> expected_length then (e, Inl (LogicError ''EDI deti: Assertion error:''))
          else
            bindS (collect (co_update_err ops stat) e) (\<lambda>e _.
            bindS (collect (co_update_mnsc ops mnsc) e) (\<lambda>e _.
            bindS (deti_time ops atstf tag_value e) (\<lambda>e (tsta, i).
              let e = set_timestamp (\<lambda>t. t\<lparr>et_tsta := tsta\<rparr>) e
              in
              bindS (if ficf then collect (co_update_fic ops (take fic_length (drop i tag_value))) e else (e, Inr ())) (\<lambda>e _.
              bindS (if rfudf
                     then bindS (e, read_24b tag_value (i + fic_length)) (\<lambda>e rfud.
                          collect (co_update_rfu ops (ucast (shr rfud 8))) e)
                     else (e, Inr ())) (\<lambda>e _.
              bindS (collect (co_update_fc_data ops
                       \<lparr>fcd_atstf = atstf, fcd_tsta = tsta, fcd_ficf = ficf, fcd_dlfc = dlfc, fcd_mid = mid, fcd_fp = fp\<rparr>) e)
                (\<lambda>e _. (e, Inr True)))))))))"

definition decode_estn :: "'c eti_data_collector \<Rightarrow> 'c eti_decoder tag_handler" where
  "decode_estn ops tag_value name e =
     bindS (e, read_24b tag_value 0) (\<lambda>e sstc.
     bindS (e, rd name 3) (\<lambda>e n.
       let stc = \<lparr>stcd_stream_index = n - 1,
                  stcd_scid = ucast (shr sstc 18 AND 0x3F),
                  stcd_sad = ucast (shr sstc 8 AND 0x3FF),
                  stcd_tpl = ucast (shr sstc 2 AND 0x3F),
                  stcd_mst = drop 3 tag_value\<rparr>
       in bindS (collect (co_add_subchannel ops stc) e) (\<lambda>e _. (e, Inr True))))"

definition decode_stardmy :: "'c eti_decoder tag_handler" where
  "decode_stardmy tag_value n e = (e, Inr True)"

definition keep_afpacket :: "bytes \<Rightarrow> 'c eti_decoder \<Rightarrow> 'c eti_decoder \<times> unit result" where
  "keep_afpacket af e = (e\<lparr>ed_received_tagpacket := (ed_received_tagpacket e)\<lparr>rt_afpacket := af\<rparr>\<rparr>, Inr ())"

definition packet_completed ::
    "'c eti_data_collector \<Rightarrow> seq_info_t \<Rightarrow> 'c eti_decoder \<Rightarrow> 'c eti_decoder \<times> unit result" where
  "packet_completed ops seq e =
     (let tp = (ed_received_tagpacket e)\<lparr>rt_seq := seq\<rparr>
      in collect (co_assemble ops tp) (e\<lparr>ed_received_tagpacket := new_received_tag_packet\<rparr>))"

definition ETIDecoder ::
    "u16 \<Rightarrow> 'c eti_data_collector \<Rightarrow> 'c \<Rightarrow> 'c eti_decoder tag_dispatcher \<times> 'c eti_decoder" where
  "ETIDecoder junk ops c =
     (register_afpacket_handler keep_afpacket
        (register_tag ''*dmy'' decode_stardmy
        (register_tag ''est'' (decode_estn ops)
        (register_tag ''deti'' (decode_deti ops)
        (register_tag ''*ptr'' (decode_starptr ops)
        (TagDispatcher junk (packet_completed ops)))))),
      \<lparr>ed_data_collector = c, ed_received_tagpacket = new_received_tag_packet\<rparr>)"

definition ed_push_bytes ::
    "rs_decoder \<Rightarrow> bytes \<Rightarrow> 'c eti_decoder tag_dispatcher \<times> 'c eti_decoder \<Rightarrow>
     ('c eti_decoder tag_dispatcher \<times> 'c eti_decoder) \<times> unit result" where
  "ed_push_bytes rs buf de = push_bytes rs buf de"

definition ed_push_packet ::
    "rs_decoder \<Rightarrow> packet \<Rightarrow> 'c eti_decoder tag_dispatcher \<times> 'c eti_decoder \<Rightarrow>
     ('c eti_decoder tag_dispatcher \<times> 'c eti_decoder) \<times> unit result" where
  "ed_push_packet rs pack de = push_packet rs pack de"

definition ed_setMaxDelay ::
    "int \<Rightarrow> 'c eti_decoder tag_dispatcher \<times> 'c eti_decoder \<Rightarrow> 'c eti_decoder tag_dispatcher \<times> 'c eti_decoder" where
  "ed_setMaxDelay num_af_packets = (\<lambda>(d, e). (dp_setMaxDelay num_af_packets d, e))"

section \<open>The calls of a decoder\<close>

text \<open>A call of the interface as a value; a list of calls ends at the first exception.\<close>

datatype collector_call =
    Update_protocol bytes u16 u16
  | Update_fc_data eti_fc_data
  | Update_fic bytes
  | Update_err u8
  | Update_edi_time u32 u32
  | Update_mnsc u16
  | Update_rfu u16
  | Add_subchannel eti_stc_data
  | Assemble received_tag_packet

fun apply_call :: "'c eti_data_collector \<Rightarrow> collector_call \<Rightarrow> 'c \<Rightarrow> 'c \<times> unit result" where
  "apply_call ops (Update_protocol p major minor) = co_update_protocol ops p major minor"
| "apply_call ops (Update_fc_data fc) = co_update_fc_data ops fc"
| "apply_call ops (Update_fic fic) = co_update_fic ops fic"
| "apply_call ops (Update_err err) = co_update_err ops err"
| "apply_call ops (Update_edi_time utco seconds) = co_update_edi_time ops utco seconds"
| "apply_call ops (Update_mnsc mnsc) = co_update_mnsc ops mnsc"
| "apply_call ops (Update_rfu rfu) = co_update_rfu ops rfu"
| "apply_call ops (Add_subchannel stc) = co_add_subchannel ops stc"
| "apply_call ops (Assemble tp) = co_assemble ops tp"

definition run_calls :: "'c eti_data_collector \<Rightarrow> collector_call list \<Rightarrow> 'c \<Rightarrow> 'c \<times> unit result" where
  "run_calls ops calls c = push_all (apply_call ops) calls c"

section \<open>Computations and their calls\<close>

text \<open>
  \<open>traces ops calls e m Q\<close>: the computation \<open>m\<close>, started in \<open>e\<close>, makes exactly these calls of the
  collector and then satisfies \<open>Q\<close>; if one of them throws, \<open>m\<close> ends there with the exception.
\<close>

definition traces ::
    "'c eti_data_collector \<Rightarrow> collector_call list \<Rightarrow> 'c eti_decoder \<Rightarrow> 'c eti_decoder \<times> 'a result \<Rightarrow>
     ('c eti_decoder \<Rightarrow> 'a \<Rightarrow> bool) \<Rightarrow> bool" where
  "traces ops calls e m Q =
     (case m of
        (e', Inr x) \<Rightarrow> run_calls ops calls (ed_data_collector e) = (ed_data_collector e', Inr ()) \<and> Q e' x
      | (e', Inl err) \<Rightarrow> run_calls ops calls (ed_data_collector e) = (ed_data_collector e', Inl err))"

lemma run_calls_append:
  "run_calls ops (xs @ ys) c = bindS (run_calls ops xs c) (\<lambda>c _. run_calls ops ys c)"
  unfolding run_calls_def by (induction xs arbitrary: c) (auto simp: bindS_def split: prod.splits sum.splits)

lemma traces_ret: "ed_data_collector e' = ed_data_collector e \<Longrightarrow> Q e' x \<Longrightarrow> traces ops [] e (e', Inr x) Q"
  by (simp add: traces_def run_calls_def)

lemma traces_collect:
  assumes "\<And>e'. ed_received_tagpacket e' = ed_received_tagpacket e \<Longrightarrow> Q e' ()"
  shows "traces ops [call] e (collect (apply_call ops call) e) Q"
  using assms by (auto simp: traces_def collect_def run_calls_def bindS_def split: prod.splits sum.splits)

lemma traces_bind:
  assumes "traces ops xs e m R" and "\<And>e' x. R e' x \<Longrightarrow> traces ops ys e' (f e' x) Q" and "zs = xs @ ys"
  shows "traces ops zs e (bindS m f) Q"
proof -
  obtain e1 r where m: "m = (e1, r)" by (cases m)
  show ?thesis
  proof (cases r)
    case (Inl err)
    then show ?thesis using assms(1) m unfolding assms(3) by (simp add: traces_def run_calls_append)
  next
    case (Inr x)
    then have "traces ops ys e1 (f e1 x) Q" "run_calls ops xs (ed_data_collector e) = (ed_data_collector e1, Inr ())"
      using assms(1,2) m by (simp_all add: traces_def)
    then show ?thesis
      using m Inr unfolding assms(3) by (auto simp: traces_def run_calls_append split: prod.splits sum.splits)
  qed
qed

lemma traces_weaken: "traces ops xs e m R \<Longrightarrow> (\<And>e' x. R e' x \<Longrightarrow> Q e' x) \<Longrightarrow> traces ops xs e m Q"
  by (auto simp: traces_def split: prod.splits sum.splits)

text \<open>A step that does not call the collector.\<close>

lemma traces_from: "ed_data_collector e1 = ed_data_collector e \<Longrightarrow> traces ops xs e1 m Q \<Longrightarrow> traces ops xs e m Q"
  by (auto simp: traces_def split: prod.splits sum.splits)

section \<open>Frames\<close>

text \<open>The contents of a \<open>deti\<close> tag, and its value according to TS 102 693, clause 5.\<close>

record deti_frame =
  de_dlfc :: u16
  de_stat :: u8
  de_mid :: u8
  de_fp :: u8
  de_mnsc :: "u16 option"
  de_time :: "(u8 \<times> u32 \<times> u32) option"
  de_fic :: "bytes option"
  de_rfud :: "u32 option"

definition deti_header :: "deti_frame \<Rightarrow> u16" where
  "deti_header x =
     de_dlfc x mod 250 OR shl (de_dlfc x div 250) 8 OR (if de_rfud x \<noteq> None then shl 1 13 else 0) OR
     (if de_fic x \<noteq> None then shl 1 14 else 0) OR (if de_time x \<noteq> None then shl 1 15 else 0)"

definition eti_header :: "deti_frame \<Rightarrow> u32" where
  "eti_header x =
     shl (ucast (de_stat x)) 24 OR shl (ucast (de_mid x)) 22 OR shl (ucast (de_fp x)) 19 OR
     (case de_mnsc x of None \<Rightarrow> shl 1 16 | Some m \<Rightarrow> ucast m)"

definition deti_value :: "deti_frame \<Rightarrow> bytes" where
  "deti_value x =
     be16 (deti_header x) @ be32 (eti_header x) @
     (case de_time x of None \<Rightarrow> [] | Some (utco, seconds, tsta) \<Rightarrow> [utco] @ be32 seconds @ be24 tsta) @
     (case de_fic x of None \<Rightarrow> [] | Some fic \<Rightarrow> fic) @
     (case de_rfud x of None \<Rightarrow> [] | Some rfud \<Rightarrow> be24 rfud)"

definition fic_size :: "deti_frame \<Rightarrow> nat" where
  "fic_size x = (if de_mid x = 3 then 128 else 96)"

definition wf_deti :: "deti_frame \<Rightarrow> bool" where
  "wf_deti x =
     (de_dlfc x < 8000 \<and> de_mid x < 4 \<and> de_fp x < 8 \<and>
      (case de_time x of None \<Rightarrow> True | Some (_, _, tsta) \<Rightarrow> tsta < 2 ^ 24) \<and>
      (case de_fic x of None \<Rightarrow> True | Some fic \<Rightarrow> length fic = fic_size x) \<and>
      (case de_rfud x of None \<Rightarrow> True | Some rfud \<Rightarrow> rfud < 2 ^ 24))"

definition deti_fc :: "deti_frame \<Rightarrow> eti_fc_data" where
  "deti_fc x =
     \<lparr>fcd_atstf = (de_time x \<noteq> None), fcd_tsta = (case de_time x of None \<Rightarrow> 0xFFFFFF | Some (_, _, tsta) \<Rightarrow> tsta),
      fcd_ficf = (de_fic x \<noteq> None), fcd_dlfc = de_dlfc x, fcd_mid = de_mid x, fcd_fp = de_fp x\<rparr>"

definition deti_calls :: "deti_frame \<Rightarrow> collector_call list" where
  "deti_calls x =
     [Update_err (de_stat x), Update_mnsc (case de_mnsc x of None \<Rightarrow> 0xFFFF | Some m \<Rightarrow> m)] @
     (case de_time x of None \<Rightarrow> [] | Some (utco, seconds, _) \<Rightarrow> [Update_edi_time (ucast utco) seconds]) @
     (case de_fic x of None \<Rightarrow> [] | Some fic \<Rightarrow> [Update_fic fic]) @
     (case de_rfud x of None \<Rightarrow> [] | Some rfud \<Rightarrow> [Update_rfu (ucast (shr rfud 8))]) @
     [Update_fc_data (deti_fc x)]"

definition deti_timestamp :: "deti_frame \<Rightarrow> frame_timestamp_t" where
  "deti_timestamp x =
     (case de_time x of
        None \<Rightarrow> \<lparr>et_seconds = 0, et_utco = 0, et_tsta = 0xFFFFFF\<rparr>
      | Some (utco, seconds, tsta) \<Rightarrow> \<lparr>et_seconds = seconds, et_utco = ucast utco, et_tsta = tsta\<rparr>)"

lemma masks: "(0x1F :: u16) = mask 5" "(0xFF :: u16) = mask 8" "(0xFF :: u32) = mask 8" "(0x03 :: u32) = mask 2"
    "(0x07 :: u32) = mask 3" "(0xFFFF :: u32) = mask 16" "(0x3F :: u32) = mask 6" "(0x3FF :: u32) = mask 10"
  by (simp_all add: mask_eq_exp_minus_1)

lemma dlfc_parts:
  assumes "(d :: u16) < 8000"
  shows "d mod 250 < 2 ^ 8" and "d div 250 < 2 ^ 5"
proof -
  have "unat (d mod 250) < 250" by (simp add: unat_mod)
  then show "d mod 250 < 2 ^ 8" by (simp add: word_less_nat_alt)
  have "unat d < 8000" using assms by (simp add: word_less_nat_alt)
  then show "d div 250 < 2 ^ 5" by (simp add: word_less_nat_alt unat_div)
qed

lemma deti_header_reads:
  assumes "wf_deti x"
  shows "bit (deti_header x) 15 = (de_time x \<noteq> None)" "bit (deti_header x) 14 = (de_fic x \<noteq> None)"
    "bit (deti_header x) 13 = (de_rfud x \<noteq> None)"
    "ucast (ucast (shr (deti_header x) 8 AND 0x1F) :: u8) = de_dlfc x div 250"
    "ucast (ucast (deti_header x AND 0xFF) :: u8) = de_dlfc x mod 250"
proof -
  have d: "de_dlfc x < 8000" using assms by (simp add: wf_deti_def)
  note lo = bit_less_power [OF dlfc_parts(1) [OF d], simplified] and hi = bit_less_power [OF dlfc_parts(2) [OF d], simplified]
  show "bit (deti_header x) 15 = (de_time x \<noteq> None)" "bit (deti_header x) 14 = (de_fic x \<noteq> None)"
    "bit (deti_header x) 13 = (de_rfud x \<noteq> None)"
    using lo hi by (simp_all add: deti_header_def bit_or_iff bit_1_iff)
  show "ucast (ucast (shr (deti_header x) 8 AND 0x1F) :: u8) = de_dlfc x div 250"
    unfolding masks
  proof (rule bit_word_eqI)
    fix n assume "n < LENGTH(16)"
    then show "bit (ucast (ucast (shr (deti_header x) 8 AND mask 5) :: u8) :: u16) n = bit (de_dlfc x div 250) n"
      using lo [of "8 + n"] hi [of n] by (cases "n < 5") (auto simp: deti_header_def bit_or_iff bit_and_iff bit_ucast_iff bit_mask_iff bit_1_iff)
  qed
  show "ucast (ucast (deti_header x AND 0xFF) :: u8) = de_dlfc x mod 250"
    unfolding masks
  proof (rule bit_word_eqI)
    fix n assume "n < LENGTH(16)"
    then show "bit (ucast (ucast (deti_header x AND mask 8) :: u8) :: u16) n = bit (de_dlfc x mod 250) n"
      using lo [of n] by (cases "n < 8") (auto simp: deti_header_def bit_or_iff bit_and_iff bit_ucast_iff bit_mask_iff bit_1_iff)
  qed
qed

lemma eti_header_reads:
  assumes "wf_deti x"
  shows "(ucast (shr (eti_header x) 24 AND 0xFF) :: u8) = de_stat x"
    "(ucast (shr (eti_header x) 22 AND 0x03) :: u8) = de_mid x"
    "(ucast (shr (eti_header x) 19 AND 0x07) :: u8) = de_fp x"
    "(if bit (eti_header x) 16 then 0xFFFF else ucast (eti_header x AND 0xFFFF)) = (case de_mnsc x of None \<Rightarrow> 0xFFFF | Some m \<Rightarrow> m)"
proof -
  have "de_mid x < 2 ^ 2" "de_fp x < 2 ^ 3" using assms by (simp_all add: wf_deti_def)
  note mid = bit_less_power [OF this(1), simplified] and fp = bit_less_power [OF this(2), simplified]
  note s = eti_header_def bit_or_iff bit_and_iff bit_ucast_iff bit_mask_iff bit_1_iff bit_word_ge
  show "(ucast (shr (eti_header x) 24 AND 0xFF) :: u8) = de_stat x"
    unfolding masks
  proof (rule bit_word_eqI)
    fix n assume "n < LENGTH(8)"
    then show "bit (ucast (shr (eti_header x) 24 AND mask 8) :: u8) n = bit (de_stat x) n"
      using mid [of "n + 2"] fp [of "5 + n"] by (cases "de_mnsc x") (auto simp: s)
  qed
  show "(ucast (shr (eti_header x) 22 AND 0x03) :: u8) = de_mid x"
    unfolding masks
  proof (rule bit_word_eqI)
    fix n assume "n < LENGTH(8)"
    then show "bit (ucast (shr (eti_header x) 22 AND mask 2) :: u8) n = bit (de_mid x) n"
      using mid [of n] fp [of "3 + n"] by (cases "n < 2"; cases "de_mnsc x") (auto simp: s)
  qed
  show "(ucast (shr (eti_header x) 19 AND 0x07) :: u8) = de_fp x"
    unfolding masks
  proof (rule bit_word_eqI)
    fix n assume "n < LENGTH(8)"
    then show "bit (ucast (shr (eti_header x) 19 AND mask 3) :: u8) n = bit (de_fp x) n"
      using fp [of n] by (cases "n < 3"; cases "de_mnsc x") (auto simp: s)
  qed
  show "(if bit (eti_header x) 16 then 0xFFFF else ucast (eti_header x AND 0xFFFF)) = (case de_mnsc x of None \<Rightarrow> 0xFFFF | Some m \<Rightarrow> m)"
  proof (cases "de_mnsc x")
    case None
    then show ?thesis by (simp add: s)
  next
    case (Some m)
    have "(ucast (eti_header x AND mask 16) :: u16) = m"
    proof (rule bit_word_eqI)
      fix n assume "n < LENGTH(16)"
      then show "bit (ucast (eti_header x AND mask 16) :: u16) n = bit m n" using Some by (auto simp: s)
    qed
    then show ?thesis using Some unfolding masks by (simp add: s)
  qed
qed

section \<open>Decoding a frame\<close>

text \<open>The value of a \<open>deti\<close> tag: the two headers, then the optional parts at fixed places.\<close>

definition time_bytes :: "deti_frame \<Rightarrow> bytes" where
  "time_bytes x = (case de_time x of None \<Rightarrow> [] | Some (utco, seconds, tsta) \<Rightarrow> [utco] @ be32 seconds @ be24 tsta)"

definition fic_bytes :: "deti_frame \<Rightarrow> bytes" where
  "fic_bytes x = (case de_fic x of None \<Rightarrow> [] | Some fic \<Rightarrow> fic)"

definition rfud_bytes :: "deti_frame \<Rightarrow> bytes" where
  "rfud_bytes x = (case de_rfud x of None \<Rightarrow> [] | Some rfud \<Rightarrow> be24 rfud)"

lemma deti_value_parts:
  "deti_value x = (be16 (deti_header x) @ be32 (eti_header x)) @ time_bytes x @ fic_bytes x @ rfud_bytes x"
  by (simp add: deti_value_def time_bytes_def fic_bytes_def rfud_bytes_def)

lemma part_lengths:
  assumes "wf_deti x"
  shows "length (time_bytes x) = (if de_time x \<noteq> None then 8 else 0)"
    and "length (fic_bytes x) = 4 * (if de_fic x \<noteq> None then (if de_mid x = 3 then 32 else 24) else 0)"
    and "length (rfud_bytes x) = (if de_rfud x \<noteq> None then 3 else 0)"
  using assms
  by (auto simp: time_bytes_def fic_bytes_def rfud_bytes_def be24_def wf_deti_def fic_size_def split: option.splits)

lemma traces_call:
  assumes "\<And>e'. ed_received_tagpacket e' = ed_received_tagpacket e \<Longrightarrow> traces ops ys e' (f e' ()) Q"
  shows "traces ops (call # ys) e (bindS (collect (apply_call ops call) e) f) Q"
  by (rule traces_bind [OF traces_collect [of e "\<lambda>e' _. ed_received_tagpacket e' = ed_received_tagpacket e"]]) (use assms in auto)

lemma deti_time_traces:
  assumes "wf_deti x"
  shows "traces ops (case de_time x of None \<Rightarrow> [] | Some (utco, seconds, _) \<Rightarrow> [Update_edi_time (ucast utco) seconds]) e
    (deti_time ops (de_time x \<noteq> None) (deti_value x) e)
    (\<lambda>e' (tsta, i). tsta = fcd_tsta (deti_fc x) \<and> i = 6 + length (time_bytes x) \<and>
       ed_received_tagpacket (set_timestamp (\<lambda>t. t\<lparr>et_tsta := tsta\<rparr>) e') =
       (ed_received_tagpacket e)\<lparr>rt_timestamp := deti_timestamp x\<rparr>)"
proof (cases "de_time x")
  case None
  then show ?thesis
    by (auto simp: deti_time_def time_bytes_def deti_fc_def deti_timestamp_def set_timestamp_def intro!: traces_ret)
next
  case (Some t)
  obtain utco seconds tsta where t: "t = (utco, seconds, tsta)" by (cases t)
  have lt: "tsta < 2 ^ 24" using assms Some t by (simp add: wf_deti_def)
  let ?h = "be16 (deti_header x) @ be32 (eti_header x)"
  let ?r = "fic_bytes x @ rfud_bytes x"
  have v: "deti_value x = ?h @ [utco] @ be32 seconds @ be24 tsta @ ?r"
    using Some t by (simp add: deti_value_parts time_bytes_def)
  have reads: "rd (deti_value x) 6 = Inr utco" "read_32b (deti_value x) 7 = Inr seconds" "read_24b (deti_value x) 11 = Inr tsta"
    using read_be32 [of 7 "?h @ [utco]" seconds "be24 tsta @ ?r"] read_be24 [OF lt, of 11 "?h @ [utco] @ be32 seconds" ?r]
    unfolding v by (simp_all add: nth_append)
  have "traces ops ([Update_edi_time (ucast utco) seconds] @ []) e
     (bindS (collect (apply_call ops (Update_edi_time (ucast utco) seconds)) e) (\<lambda>e _.
        (set_timestamp (\<lambda>t. t\<lparr>et_utco := ucast utco, et_seconds := seconds\<rparr>) e, Inr (tsta, 14))))
    (\<lambda>e' (tsta, i). tsta = fcd_tsta (deti_fc x) \<and> i = 6 + length (time_bytes x) \<and>
       ed_received_tagpacket (set_timestamp (\<lambda>t. t\<lparr>et_tsta := tsta\<rparr>) e') =
       (ed_received_tagpacket e)\<lparr>rt_timestamp := deti_timestamp x\<rparr>)"
    by (rule traces_bind [OF traces_collect [of e "\<lambda>e' _. ed_received_tagpacket e' = ed_received_tagpacket e"] traces_ret])
      (use Some t in \<open>auto simp: set_timestamp_def deti_timestamp_def deti_fc_def time_bytes_def be24_def\<close>)
  then show ?thesis using Some t reads by (simp add: deti_time_def)
qed

lemma decode_deti_traces:
  assumes wf: "wf_deti x"
  shows "traces ops (deti_calls x) e (decode_deti ops (deti_value x) n e)
    (\<lambda>e' ok. ok \<and> ed_received_tagpacket e' = (ed_received_tagpacket e)\<lparr>rt_timestamp := deti_timestamp x\<rparr>)"
proof -
  let ?v = "deti_value x"
  let ?h = "be16 (deti_header x) @ be32 (eti_header x)"
  note h = deti_header_reads [OF wf] and eh = eti_header_reads [OF wf] and len = part_lengths [OF wf]
  have r1: "read_16b ?v 0 = Inr (deti_header x)"
    using read_be16 [of 0 "[]"] by (simp add: deti_value_parts)
  have r2: "read_32b ?v 2 = Inr (eti_header x)"
    using read_be32 [of 2 "be16 (deti_header x)"] by (simp add: deti_value_parts)
  have dlfc: "de_dlfc x div 250 * 250 + de_dlfc x mod 250 = de_dlfc x" by (rule div_mult_mod_eq)
  have total: "length ?v = 2 + 4 + (if de_time x \<noteq> None then 1 + 4 + 3 else 0) +
      4 * (if de_fic x \<noteq> None then (if de_mid x = 3 then 32 else 24) else 0) + (if de_rfud x \<noteq> None then 3 else 0)"
    using len by (simp add: deti_value_parts)
  have fic: "take (4 * (if de_fic x \<noteq> None then (if de_mid x = 3 then 32 else 24) else 0)) (drop (6 + length (time_bytes x)) ?v) = fic_bytes x"
    using len(2) by (simp add: deti_value_parts)
  have rfud: "read_24b ?v (6 + length (time_bytes x) + 4 * (if de_fic x \<noteq> None then (if de_mid x = 3 then 32 else 24) else 0)) = Inr r"
    if "de_rfud x = Some r" for r
    unfolding len(2) [symmetric]
    using read_be24 [of r "6 + length (time_bytes x) + length (fic_bytes x)" "?h @ time_bytes x @ fic_bytes x" "[]"] that wf
    by (simp add: deti_value_parts rfud_bytes_def wf_deti_def)
  let ?R = "\<lambda>e'. ed_received_tagpacket e' = (ed_received_tagpacket e)\<lparr>rt_timestamp := deti_timestamp x\<rparr>"
  let ?Q = "\<lambda>e' ok. ok \<and> ?R e'"
  let ?n = "4 * (if de_fic x \<noteq> None then (if de_mid x = 3 then 32 else 24) else 0)"
  let ?fc = "\<lambda>e. bindS (collect (co_update_fc_data ops (deti_fc x)) e) (\<lambda>e _. (e, Inr True))"
  let ?rfu = "\<lambda>e. bindS (if de_rfud x \<noteq> None
                     then bindS (e, read_24b ?v (6 + length (time_bytes x) + ?n)) (\<lambda>e rfud.
                          collect (co_update_rfu ops (ucast (shr rfud 8))) e)
                     else (e, Inr ())) (\<lambda>e _. ?fc e)"
  let ?fic = "\<lambda>e. bindS (if de_fic x \<noteq> None then collect (co_update_fic ops (fic_bytes x)) e else (e, Inr ())) (\<lambda>e _. ?rfu e)"
  let ?crfu = "case de_rfud x of None \<Rightarrow> [] | Some rfud \<Rightarrow> [Update_rfu (ucast (shr rfud 8))]"
  let ?cfic = "case de_fic x of None \<Rightarrow> [] | Some fic \<Rightarrow> [Update_fic fic]"
  have fc: "traces ops [Update_fc_data (deti_fc x)] e1 (?fc e1) ?Q" if "?R e1" for e1
    using traces_call [of e1 ops "[]" "\<lambda>e _. (e, Inr True)" ?Q "Update_fc_data (deti_fc x)"] that by (simp add: traces_ret)
  have rfu: "traces ops (?crfu @ [Update_fc_data (deti_fc x)]) e1 (?rfu e1) ?Q" if "?R e1" for e1
  proof (cases "de_rfud x")
    case None
    then show ?thesis using fc that by simp
  next
    case (Some r)
    then show ?thesis
      using traces_call [of e1 ops "[Update_fc_data (deti_fc x)]" "\<lambda>e _. ?fc e" ?Q "Update_rfu (ucast (shr r 8))"] fc that rfud by simp
  qed
  have fic': "traces ops (?cfic @ ?crfu @ [Update_fc_data (deti_fc x)]) e1 (?fic e1) ?Q" if "?R e1" for e1
  proof (cases "de_fic x")
    case None
    then show ?thesis using rfu that by simp
  next
    case (Some f)
    then have "fic_bytes x = f" by (simp add: fic_bytes_def)
    then show ?thesis
      using traces_call [of e1 ops "?crfu @ [Update_fc_data (deti_fc x)]" "\<lambda>e _. ?rfu e" ?Q "Update_fic f"] rfu that Some by simp
  qed
  let ?ctime = "case de_time x of None \<Rightarrow> [] | Some (utco, seconds, _) \<Rightarrow> [Update_edi_time (ucast utco) seconds]"
  let ?time = "\<lambda>e. bindS (deti_time ops (de_time x \<noteq> None) ?v e) (\<lambda>e (tsta, i).
      bindS (if de_fic x \<noteq> None then collect (co_update_fic ops (take ?n (drop i ?v))) (set_timestamp (\<lambda>t. t\<lparr>et_tsta := tsta\<rparr>) e)
             else (set_timestamp (\<lambda>t. t\<lparr>et_tsta := tsta\<rparr>) e, Inr ())) (\<lambda>e _.
      bindS (if de_rfud x \<noteq> None
             then bindS (e, read_24b ?v (i + ?n)) (\<lambda>e rfud. collect (co_update_rfu ops (ucast (shr rfud 8))) e)
             else (e, Inr ())) (\<lambda>e _.
      bindS (collect (co_update_fc_data ops
                \<lparr>fcd_atstf = (de_time x \<noteq> None), fcd_tsta = tsta, fcd_ficf = (de_fic x \<noteq> None),
                 fcd_dlfc = de_dlfc x, fcd_mid = de_mid x, fcd_fp = de_fp x\<rparr>) e) (\<lambda>e _. (e, Inr True)))))"
  have time: "traces ops (?ctime @ ?cfic @ ?crfu @ [Update_fc_data (deti_fc x)]) e1 (?time e1) ?Q"
    if "ed_received_tagpacket e1 = ed_received_tagpacket e" for e1
  proof (rule traces_bind [OF deti_time_traces [OF wf] _ refl], clarify, goal_cases)
    case (1 e2 tsta i)
    let ?e3 = "set_timestamp (\<lambda>t. t\<lparr>et_tsta := fcd_tsta (deti_fc x)\<rparr>) e2"
    have "\<lparr>fcd_atstf = (de_time x \<noteq> None), fcd_tsta = fcd_tsta (deti_fc x), fcd_ficf = (de_fic x \<noteq> None),
        fcd_dlfc = de_dlfc x, fcd_mid = de_mid x, fcd_fp = de_fp x\<rparr> = deti_fc x" by (simp add: deti_fc_def)
    moreover have "ed_data_collector ?e3 = ed_data_collector e2" by (simp add: set_timestamp_def)
    moreover have "?R ?e3" using 1 that by simp
    ultimately show ?case using fic' [of ?e3] by (intro traces_from [of ?e3 e2]) (simp_all only: fic)
  qed
  have mnsc: "traces ops (Update_mnsc m # ?ctime @ ?cfic @ ?crfu @ [Update_fc_data (deti_fc x)]) e1
      (bindS (collect (co_update_mnsc ops m) e1) (\<lambda>e _. ?time e)) ?Q"
    if "ed_received_tagpacket e1 = ed_received_tagpacket e" for e1 m
    using traces_call [of e1 ops "?ctime @ ?cfic @ ?crfu @ [Update_fc_data (deti_fc x)]" "\<lambda>e _. ?time e" ?Q "Update_mnsc m"]
      time that by simp
  have "traces ops (Update_err (de_stat x) # Update_mnsc m # ?ctime @ ?cfic @ ?crfu @ [Update_fc_data (deti_fc x)]) e
      (bindS (collect (co_update_err ops (de_stat x)) e) (\<lambda>e _. bindS (collect (co_update_mnsc ops m) e) (\<lambda>e _. ?time e))) ?Q" for m
    using traces_call [of e ops "Update_mnsc m # ?ctime @ ?cfic @ ?crfu @ [Update_fc_data (deti_fc x)]"
        "\<lambda>e _. bindS (collect (co_update_mnsc ops m) e) (\<lambda>e _. ?time e)" ?Q "Update_err (de_stat x)"] mnsc by simp
  then show ?thesis
    unfolding decode_deti_def r1 r2 bindS_simps Let_def h eh dlfc total deti_calls_def append.simps if_False simp_thms .
qed

definition ptr_value :: bytes where
  "ptr_value = ascii ''DETI'' @ be16 0 @ be16 0"

lemma ascii_DETI: "ascii ''DETI'' = [0x44, 0x45, 0x54, 0x49]"
  by (simp add: ascii_def)

lemma decode_starptr_traces:
  "traces ops [Update_protocol (ascii ''DETI'') 0 0] e (decode_starptr ops ptr_value n e)
     (\<lambda>e' ok. ok \<and> ed_received_tagpacket e' = ed_received_tagpacket e)"
proof -
  have r: "read_16b ptr_value 4 = Inr 0" "read_16b ptr_value 6 = Inr 0"
    using read_be16 [of 4 "ascii ''DETI''" 0 "be16 0"] read_be16 [of 6 "ascii ''DETI'' @ be16 0" 0 "[]"]
    by (simp_all add: ptr_value_def ascii_DETI)
  have t: "takeWhile (\<lambda>c. c \<noteq> 0) (take 4 ptr_value) = ascii ''DETI''" "length ptr_value = 8"
    by (simp_all add: ptr_value_def ascii_DETI)
  show ?thesis
    using traces_call [of e ops "[]" "\<lambda>e _. (e, Inr True)" "\<lambda>e' ok. ok \<and> ed_received_tagpacket e' = ed_received_tagpacket e"
        "Update_protocol (ascii ''DETI'') 0 0"]
    by (simp add: decode_starptr_def r t traces_ret)
qed

text \<open>A subchannel tag, numbered from one.\<close>

definition sstc :: "eti_stc_data \<Rightarrow> u32" where
  "sstc stc = shl (ucast (stcd_scid stc)) 18 OR shl (ucast (stcd_sad stc)) 8 OR shl (ucast (stcd_tpl stc)) 2"

definition est_value :: "eti_stc_data \<Rightarrow> bytes" where
  "est_value stc = be24 (sstc stc) @ stcd_mst stc"

definition wf_stc :: "eti_stc_data \<Rightarrow> bool" where
  "wf_stc stc = (stcd_stream_index stc < 64 \<and> stcd_scid stc < 64 \<and> stcd_sad stc < 1024 \<and> stcd_tpl stc < 64 \<and>
     8 * length (est_value stc) < 2 ^ 32)"

definition est_name :: "eti_stc_data \<Rightarrow> bytes" where
  "est_name stc = ascii ''est'' @ [stcd_stream_index stc + 1]"

lemma sstc_reads:
  assumes "wf_stc stc"
  shows "(ucast (shr (sstc stc) 18 AND 0x3F) :: u8) = stcd_scid stc"
    "(ucast (shr (sstc stc) 8 AND 0x3FF) :: u16) = stcd_sad stc"
    "(ucast (shr (sstc stc) 2 AND 0x3F) :: u8) = stcd_tpl stc" "sstc stc < 2 ^ 24"
proof -
  have "stcd_scid stc < 2 ^ 6" "stcd_sad stc < 2 ^ 10" "stcd_tpl stc < 2 ^ 6" using assms by (simp_all add: wf_stc_def)
  note scid = bit_less_power [OF this(1), simplified] and sad = bit_less_power [OF this(2), simplified]
    and tpl = bit_less_power [OF this(3), simplified]
  note s = sstc_def bit_or_iff bit_and_iff bit_ucast_iff bit_mask_iff bit_1_iff bit_word_ge
  show "(ucast (shr (sstc stc) 18 AND 0x3F) :: u8) = stcd_scid stc"
    unfolding masks
  proof (rule bit_word_eqI)
    fix n assume "n < LENGTH(8)"
    then show "bit (ucast (shr (sstc stc) 18 AND mask 6) :: u8) n = bit (stcd_scid stc) n"
      using scid [of n] sad [of "10 + n"] tpl [of "16 + n"] by (cases "n < 6") (auto simp: s)
  qed
  show "(ucast (shr (sstc stc) 8 AND 0x3FF) :: u16) = stcd_sad stc"
    unfolding masks
  proof (rule bit_word_eqI)
    fix n assume "n < LENGTH(16)"
    then show "bit (ucast (shr (sstc stc) 8 AND mask 10) :: u16) n = bit (stcd_sad stc) n"
      using sad [of n] tpl [of "6 + n"] by (cases "n < 10") (auto simp: s)
  qed
  show "(ucast (shr (sstc stc) 2 AND 0x3F) :: u8) = stcd_tpl stc"
    unfolding masks
  proof (rule bit_word_eqI)
    fix n assume "n < LENGTH(8)"
    then show "bit (ucast (shr (sstc stc) 2 AND mask 6) :: u8) n = bit (stcd_tpl stc) n"
      using tpl [of n] by (cases "n < 6") (auto simp: s)
  qed
  have "sstc stc = take_bit 24 (sstc stc)"
  proof (rule bit_word_eqI)
    fix n assume "n < LENGTH(32)"
    then show "bit (sstc stc) n = bit (take_bit 24 (sstc stc)) n"
      using scid [of "n - 18"] sad [of "n - 8"] tpl [of "n - 2"] by (cases "n < 24") (auto simp: s bit_take_bit_iff)
  qed
  then have "unat (sstc stc) = take_bit 24 (unat (sstc stc))" by (metis unsigned_take_bit_eq)
  then have "unat (sstc stc) < 2 ^ 24" by (metis take_bit_nat_less_exp)
  then show "sstc stc < 2 ^ 24" by (simp add: word_less_nat_alt)
qed

lemma decode_estn_traces:
  assumes "wf_stc stc"
  shows "traces ops [Add_subchannel stc] e (decode_estn ops (est_value stc) (est_name stc) e)
     (\<lambda>e' ok. ok \<and> ed_received_tagpacket e' = ed_received_tagpacket e)"
proof -
  have r: "read_24b (est_value stc) 0 = Inr (sstc stc)" "rd (est_name stc) 3 = Inr (stcd_stream_index stc + 1)"
    "drop 3 (est_value stc) = stcd_mst stc"
    using read_be24 [OF sstc_reads(4) [OF assms], of 0 "[]"] by (simp_all add: est_value_def est_name_def ascii_def be24_def)
  have rec: "\<lparr>stcd_stream_index = stcd_stream_index stc, stcd_scid = stcd_scid stc, stcd_sad = stcd_sad stc,
      stcd_tpl = stcd_tpl stc, stcd_mst = stcd_mst stc\<rparr> = stc" by simp
  show ?thesis
    using traces_call [of e ops "[]" "\<lambda>e _. (e, Inr True)" "\<lambda>e' ok. ok \<and> ed_received_tagpacket e' = ed_received_tagpacket e"
        "Add_subchannel stc"]
    by (simp add: decode_estn_def r Let_def sstc_reads [OF assms] traces_ret rec)
qed

section \<open>A whole packet\<close>

definition eti_handlers :: "'c eti_data_collector \<Rightarrow> (bytes, 'c eti_decoder tag_handler) std_map" where
  "eti_handlers ops = [(ascii ''*dmy'', decode_stardmy), (ascii ''*ptr'', decode_starptr ops),
     (ascii ''deti'', decode_deti ops), (ascii ''est'', decode_estn ops)]"

lemma ETIDecoder_fields:
  "dp_handlers (fst (ETIDecoder junk ops c)) = eti_handlers ops"
  "dp_af_packet_completed (fst (ETIDecoder junk ops c)) = packet_completed ops"
  "dp_afpacket_handler (fst (ETIDecoder junk ops c)) = keep_afpacket"
  by (simp_all add: ETIDecoder_def eti_handlers_def register_tag_def register_afpacket_handler_def TagDispatcher_def ascii_def)

record edi_frame =
  ed_deti :: deti_frame
  ed_streams :: "eti_stc_data list"

definition wf_edi :: "edi_frame \<Rightarrow> bool" where
  "wf_edi f = (wf_deti (ed_deti f) \<and> list_all wf_stc (ed_streams f))"

definition edi_tags :: "edi_frame \<Rightarrow> (bytes \<times> bytes) list" where
  "edi_tags f = [(ascii ''*ptr'', ptr_value), (ascii ''deti'', deti_value (ed_deti f))] @
     map (\<lambda>stc. (est_name stc, est_value stc)) (ed_streams f)"

definition edi_payload :: "edi_frame \<Rightarrow> bytes" where
  "edi_payload f = concat (map tag_bytes (edi_tags f))"

definition edi_calls :: "edi_frame \<Rightarrow> collector_call list" where
  "edi_calls f = [Update_protocol (ascii ''DETI'') 0 0] @ deti_calls (ed_deti f) @ map Add_subchannel (ed_streams f)"

lemma run_tags_step:
  assumes "traces ops xs e (h val name e) (\<lambda>e' ok. ok \<and> R e')"
    and "run_handlers hs (takeWhile (\<lambda>c. c \<noteq> 0) name) val name e (False, True) = bindS (h val name e) (\<lambda>e ok. (e, Inr (True, ok)))"
    and "\<And>e'. R e' \<Longrightarrow> traces ops ys e' (run_tags hs tags e') Q"
  shows "traces ops (xs @ ys) e (run_tags hs ((name, val) # tags) e) Q"
proof -
  have "run_tags hs ((name, val) # tags) e = bindS (h val name e) (\<lambda>e ok. if \<not> ok then (e, Inr False) else run_tags hs tags e)"
    by (simp add: assms(2) bindS_def split: prod.split sum.split)
  then show ?thesis using assms(1,3) by (auto intro!: traces_bind)
qed

lemma est_name_found:
  assumes "wf_stc stc"
  shows "takeWhile (\<lambda>c. c \<noteq> 0) (est_name stc) = est_name stc"
proof -
  have "unat (stcd_stream_index stc) < 64" using assms by (simp add: wf_stc_def word_less_nat_alt)
  then have "unat (stcd_stream_index stc + 1) = unat (stcd_stream_index stc) + 1" by (simp add: unat_word_ariths)
  then have "stcd_stream_index stc + 1 \<noteq> 0" by (metis Suc_eq_plus1 nat.simps(3) unsigned_0)
  then show ?thesis by (simp add: est_name_def ascii_def)
qed

lemma streams_trace:
  "list_all wf_stc stcs \<Longrightarrow>
     traces ops (map Add_subchannel stcs) e (run_tags (eti_handlers ops) (map (\<lambda>stc. (est_name stc, est_value stc)) stcs) e)
       (\<lambda>e' ok. ok \<and> ed_received_tagpacket e' = ed_received_tagpacket e)"
proof (induction stcs arbitrary: e)
  case Nil
  then show ?case by (simp add: traces_ret)
next
  case (Cons stc stcs)
  have wf: "wf_stc stc" using Cons.prems by simp
  have "traces ops ([Add_subchannel stc] @ map Add_subchannel stcs) e
      (run_tags (eti_handlers ops) ((est_name stc, est_value stc) # map (\<lambda>stc. (est_name stc, est_value stc)) stcs) e)
      (\<lambda>e' ok. ok \<and> ed_received_tagpacket e' = ed_received_tagpacket e)"
  proof (rule run_tags_step [where h = "decode_estn ops" and R = "\<lambda>e'. ed_received_tagpacket e' = ed_received_tagpacket e"])
    show "traces ops [Add_subchannel stc] e (decode_estn ops (est_value stc) (est_name stc) e)
        (\<lambda>e' ok. ok \<and> ed_received_tagpacket e' = ed_received_tagpacket e)" using wf by (rule decode_estn_traces)
    show "run_handlers (eti_handlers ops) (takeWhile (\<lambda>c. c \<noteq> 0) (est_name stc)) (est_value stc) (est_name stc) e (False, True) =
        bindS (decode_estn ops (est_value stc) (est_name stc) e) (\<lambda>e ok. (e, Inr (True, ok)))"
      unfolding est_name_found [OF wf] by (simp add: eti_handlers_def tag_matches_def est_name_def ascii_def)
    show "traces ops (map Add_subchannel stcs) e'
        (run_tags (eti_handlers ops) (map (\<lambda>stc. (est_name stc, est_value stc)) stcs) e')
        (\<lambda>e' ok. ok \<and> ed_received_tagpacket e' = ed_received_tagpacket e)"
      if "ed_received_tagpacket e' = ed_received_tagpacket e" for e'
      using Cons.IH [of e'] Cons.prems that by simp
  qed
  then show ?case by simp
qed

lemma edi_tags_trace:
  fixes ops :: "'c eti_data_collector"
  assumes "wf_edi f"
  shows "traces ops (edi_calls f) e (run_tags (eti_handlers ops) (edi_tags f) e)
     (\<lambda>e' ok. ok \<and> ed_received_tagpacket e' = (ed_received_tagpacket e)\<lparr>rt_timestamp := deti_timestamp (ed_deti f)\<rparr>)"
  unfolding edi_calls_def edi_tags_def append.simps
proof (rule run_tags_step [where xs = "[_]" and h = "decode_starptr ops" and R = "\<lambda>e'. ed_received_tagpacket e' = ed_received_tagpacket e",
      unfolded append.simps])
  show "traces ops [Update_protocol (ascii ''DETI'') 0 0] e (decode_starptr ops ptr_value (ascii ''*ptr'') e)
      (\<lambda>e' ok. ok \<and> ed_received_tagpacket e' = ed_received_tagpacket e)" by (rule decode_starptr_traces)
  show "run_handlers (eti_handlers ops) (takeWhile (\<lambda>c. c \<noteq> 0) (ascii ''*ptr'')) ptr_value (ascii ''*ptr'') e (False, True) =
      bindS (decode_starptr ops ptr_value (ascii ''*ptr'') e) (\<lambda>e ok. (e, Inr (True, ok)))"
    by (simp add: eti_handlers_def tag_matches_def ascii_def)
  fix e1 :: "'c eti_decoder" assume e1: "ed_received_tagpacket e1 = ed_received_tagpacket e"
  show "traces ops (deti_calls (ed_deti f) @ map Add_subchannel (ed_streams f)) e1
      (run_tags (eti_handlers ops) ((ascii ''deti'', deti_value (ed_deti f)) # map (\<lambda>stc. (est_name stc, est_value stc)) (ed_streams f)) e1)
      (\<lambda>e' ok. ok \<and> ed_received_tagpacket e' = (ed_received_tagpacket e)\<lparr>rt_timestamp := deti_timestamp (ed_deti f)\<rparr>)"
  proof (rule run_tags_step [where h = "decode_deti ops" and R = "\<lambda>e'. ed_received_tagpacket e' =
        (ed_received_tagpacket e1)\<lparr>rt_timestamp := deti_timestamp (ed_deti f)\<rparr>"])
    have "wf_deti (ed_deti f)" using assms by (simp add: wf_edi_def)
    then show "traces ops (deti_calls (ed_deti f)) e1 (decode_deti ops (deti_value (ed_deti f)) (ascii ''deti'') e1)
        (\<lambda>e' ok. ok \<and> ed_received_tagpacket e' = (ed_received_tagpacket e1)\<lparr>rt_timestamp := deti_timestamp (ed_deti f)\<rparr>)"
      by (rule decode_deti_traces)
    show "run_handlers (eti_handlers ops) (takeWhile (\<lambda>c. c \<noteq> 0) (ascii ''deti'')) (deti_value (ed_deti f)) (ascii ''deti'') e1 (False, True) =
        bindS (decode_deti ops (deti_value (ed_deti f)) (ascii ''deti'') e1) (\<lambda>e ok. (e, Inr (True, ok)))"
      by (simp add: eti_handlers_def tag_matches_def ascii_def)
    fix e2 :: "'c eti_decoder" assume "ed_received_tagpacket e2 = (ed_received_tagpacket e1)\<lparr>rt_timestamp := deti_timestamp (ed_deti f)\<rparr>"
    then show "traces ops (map Add_subchannel (ed_streams f)) e2
      (run_tags (eti_handlers ops) (map (\<lambda>stc. (est_name stc, est_value stc)) (ed_streams f)) e2)
      (\<lambda>e' ok. ok \<and> ed_received_tagpacket e' = (ed_received_tagpacket e)\<lparr>rt_timestamp := deti_timestamp (ed_deti f)\<rparr>)"
      using streams_trace [of "ed_streams f" ops e2] assms e1 by (simp add: wf_edi_def)
  qed
qed

lemma edi_tags_wf:
  assumes "wf_edi f"
  shows "\<forall>t \<in> set (edi_tags f). wf_tag t" and "edi_tags f = [] \<or> snd (last (edi_tags f)) \<noteq> []"
proof -
  have deti: "wf_deti (ed_deti f)" and stc: "list_all wf_stc (ed_streams f)" using assms by (simp_all add: wf_edi_def)
  have "length (deti_value (ed_deti f)) \<le> 145"
    using part_lengths [OF deti] by (simp add: deti_value_parts)
  then have "wf_tag (ascii ''deti'', deti_value (ed_deti f))" by (simp add: wf_tag_def ascii_def)
  moreover have "wf_tag (ascii ''*ptr'', ptr_value)" by (simp add: wf_tag_def ascii_def ptr_value_def)
  moreover have "\<forall>t \<in> set (map (\<lambda>stc. (est_name stc, est_value stc)) (ed_streams f)). wf_tag t"
    using stc by (auto simp: list_all_iff wf_stc_def wf_tag_def est_name_def ascii_def)
  ultimately show "\<forall>t \<in> set (edi_tags f). wf_tag t" by (simp add: edi_tags_def)
  show "edi_tags f = [] \<or> snd (last (edi_tags f)) \<noteq> []"
    by (cases "ed_streams f" rule: rev_cases) (simp_all add: edi_tags_def deti_value_def be16_def est_value_def be24_def)
qed

definition bound_to :: "'c eti_data_collector \<Rightarrow> 'c eti_decoder tag_dispatcher \<Rightarrow> bool" where
  "bound_to ops d =
     (dp_handlers d = eti_handlers ops \<and> dp_af_packet_completed d = packet_completed ops \<and> dp_afpacket_handler d = keep_afpacket)"

lemma ETIDecoder_bound: "bound_to ops (fst (ETIDecoder junk ops c))"
  by (simp add: bound_to_def ETIDecoder_fields)

text \<open>The packet as it is handed to \<open>assemble\<close>.\<close>

definition received_packet :: "u16 \<Rightarrow> u16 \<Rightarrow> edi_frame \<Rightarrow> received_tag_packet" where
  "received_packet seq pseq f =
     \<lparr>rt_afpacket = af_bytes seq (edi_payload f), rt_timestamp = deti_timestamp (ed_deti f),
      rt_seq = \<lparr>si_seq_valid = True, si_seq = seq, si_pseq_valid = False, si_pseq = pseq\<rparr>\<rparr>"

lemma edi_packet:
  assumes wf: "wf_edi f" and len: "length (edi_payload f) < 2 ^ 32" and d: "bound_to ops d"
    and e: "ed_received_tagpacket e = new_received_tag_packet"
  shows "\<exists>d' e' r. ed_push_packet rs \<lparr>pk_buf = af_bytes seq (edi_payload f), pk_received_on_port = port\<rparr> (d, e) = ((d', e'), r) \<and>
    run_calls ops (edi_calls f @ [Assemble (received_packet seq (si_pseq (dp_last_sequences d)) f)]) (ed_data_collector e) =
      (ed_data_collector e', r) \<and>
    bound_to ops d' \<and> si_pseq (dp_last_sequences d') = si_pseq (dp_last_sequences d) \<and>
    (r = Inr () \<longrightarrow> ed_received_tagpacket e' = new_received_tag_packet)"
proof -
  let ?af = "af_bytes seq (edi_payload f)"
  let ?e1 = "e\<lparr>ed_received_tagpacket := new_received_tag_packet\<lparr>rt_afpacket := ?af\<rparr>\<rparr>"
  let ?d1 = "note_seq seq d"
  have d1: "dp_handlers ?d1 = eti_handlers ops" "dp_afpacket_handler d = keep_afpacket" "dp_af_packet_completed ?d1 = packet_completed ops"
    "dp_afpacket_handler ?d1 = keep_afpacket" "si_pseq (dp_last_sequences ?d1) = si_pseq (dp_last_sequences d)"
    "(dp_last_sequences ?d1)\<lparr>si_pseq_valid := False\<rparr> =
       \<lparr>si_seq_valid = True, si_seq = seq, si_pseq_valid = False, si_pseq = si_pseq (dp_last_sequences d)\<rparr>"
    using d by (simp_all add: bound_to_def note_seq_def Let_def)
  obtain ignored where ig: "decode_tags (dp_handlers ?d1) (edi_payload f) 0 (dp_ignored_tags ?d1, ?e1) =
      ((ignored, fst (run_tags (eti_handlers ops) (edi_tags f) ?e1)), snd (run_tags (eti_handlers ops) (edi_tags f) ?e1))"
    using decode_tags_encoded [OF edi_tags_wf [OF wf], of 0 "[]" "dp_handlers ?d1" "dp_ignored_tags ?d1" ?e1] d1(1)
    by (auto simp: edi_payload_def)
  let ?d2 = "?d1\<lparr>dp_ignored_tags := ignored\<rparr>"
  obtain e2 r where run: "run_tags (eti_handlers ops) (edi_tags f) ?e1 = (e2, r)" by fastforce
  have tp: "decode_tagpacket (edi_payload f) (?d1, ?e1) = ((?d2, e2), r)"
    using ig run by (simp add: decode_tagpacket_def)
  have dec: "decode_afpacket ?af (d, e) = bindS ((?d2, e2), r) (\<lambda>(d, s) ok. ((d, s), Inr (if ok then Ok else Error, 12 + length (edi_payload f))))"
    using decode_af_bytes [OF len, of seq "[]" d e] tp e by (simp add: d1(2) keep_afpacket_def)
  have tr: "traces ops (edi_calls f) ?e1 (e2, r) (\<lambda>e' ok. ok \<and> ed_received_tagpacket e' =
      (ed_received_tagpacket ?e1)\<lparr>rt_timestamp := deti_timestamp (ed_deti f)\<rparr>)"
    using edi_tags_trace [OF wf, of ops ?e1] run by simp
  have af: "?af ! 0 = 0x41" "?af ! 1 = 0x46" "\<not> length ?af < 2" using af_nth [of seq "edi_payload f"] by (simp_all add: length_af_bytes)
  have bound: "bound_to ops ?d2" "bound_to ops (set_pseq_valid False ?d2)"
    using d1 by (simp_all add: bound_to_def set_pseq_valid_def)
  show ?thesis
  proof (cases r)
    case (Inl err)
    then have "ed_push_packet rs \<lparr>pk_buf = ?af, pk_received_on_port = port\<rparr> (d, e) = ((?d2, e2), Inl err)"
      using af dec by (simp add: ed_push_packet_def push_packet_def)
    moreover have "run_calls ops (edi_calls f) (ed_data_collector e) = (ed_data_collector e2, Inl err)"
      using tr Inl by (simp add: traces_def)
    ultimately show ?thesis using bound(1) d1(5) by (auto simp: run_calls_append)
  next
    case (Inr ok)
    then have ok: ok "run_calls ops (edi_calls f) (ed_data_collector e) = (ed_data_collector e2, Inr ())"
      "(ed_received_tagpacket e2)\<lparr>rt_seq := \<lparr>si_seq_valid = True, si_seq = seq, si_pseq_valid = False, si_pseq = si_pseq (dp_last_sequences d)\<rparr>\<rparr> =
         received_packet seq (si_pseq (dp_last_sequences d)) f"
      using tr by (simp_all add: traces_def received_packet_def new_received_tag_packet_def)
    let ?tp = "received_packet seq (si_pseq (dp_last_sequences d)) f"
    obtain c q where c: "co_assemble ops ?tp (ed_data_collector e2) = (c, q)" by fastforce
    let ?e3 = "e2\<lparr>ed_received_tagpacket := new_received_tag_packet, ed_data_collector := c\<rparr>"
    have "packet_done (set_pseq_valid False ?d2, e2) = ((set_pseq_valid False ?d2, ?e3), q)"
      using d1(3,6) ok(3) c by (simp add: packet_done_def set_pseq_valid_def packet_completed_def Let_def collect_def)
    then have "ed_push_packet rs \<lparr>pk_buf = ?af, pk_received_on_port = port\<rparr> (d, e) = ((set_pseq_valid False ?d2, ?e3), q)"
      using af dec Inr ok(1) by (simp add: ed_push_packet_def push_packet_def)
    moreover have "run_calls ops (edi_calls f @ [Assemble ?tp]) (ed_data_collector e) = (ed_data_collector ?e3, q)"
      using ok(2) c by (cases q) (simp_all add: run_calls_append, simp_all add: run_calls_def)
    moreover have "si_pseq (dp_last_sequences (set_pseq_valid False ?d2)) = si_pseq (dp_last_sequences d)"
      using d1(5) by (simp add: set_pseq_valid_def)
    ultimately show ?thesis using bound(2) by (intro exI conjI impI) (assumption | simp)+
  qed
qed

text \<open>The headers are read before any length is checked.\<close>

lemma short_deti_unsafe: "length val < 6 \<Longrightarrow> snd (decode_deti ops val n e) = Inl (UndefinedBehaviour ''read'')"
proof -
  assume len: "length val < 6"
  show ?thesis
  proof (cases "length val < 2")
    case True
    then have "read_16b val 0 = Inl (UndefinedBehaviour ''read'')"
      by (cases val) (auto simp: read_16b_def rd_def)
    then show ?thesis by (simp add: decode_deti_def)
  next
    case False
    have "read_32b val 2 = Inl (UndefinedBehaviour ''read'')"
      using len by (auto simp: read_32b_def rd_def bindE_def)
    moreover obtain h where "read_16b val 0 = Inr h" using False by (simp add: read_16b_ok)
    ultimately show ?thesis by (simp add: decode_deti_def)
  qed
qed

lemma short_estn_unsafe: "length val < 3 \<Longrightarrow> snd (decode_estn ops val n e) = Inl (UndefinedBehaviour ''read'')"
proof -
  assume "length val < 3"
  then have "read_24b val 0 = Inl (UndefinedBehaviour ''read'')" by (auto simp: read_24b_def rd_def bindE_def)
  then show ?thesis by (simp add: decode_estn_def)
qed

end
