(* ===== verification/Edi_Reader.thy ===== *)
theory Edi_Reader
  imports Eti_Decoder Eti_Reader
begin

text \<open>
  The EDI input, class \<open>EdiReader\<close> of \<open>src/EtiReader.cpp\<close>, the implementation of
  \<open>ETIDataCollector\<close> that feeds the modulator. The decoder of the fast information channel,
  which only gathers the ensemble's labels, is the argument \<open>fic_decode\<close> with its state \<open>'f\<close>; its
  own model is the theory \<open>Fig_Parser\<close>.
\<close>

section \<open>State\<close>

record 'f edi_reader =
  dr_proto_valid :: bool
  dr_frameReady :: bool
  dr_err :: u8
  dr_fc_valid :: bool
  dr_fc :: eti_fc_data
  dr_fic :: bytes
  dr_time_valid :: bool
  dr_utco :: u32
  dr_seconds :: u32
  dr_mnsc :: u16
  dr_rfu :: u16
  dr_sources :: "(u8, subchannel_source) std_map"
  dr_decoder :: timestamp_decoder
  dr_fic_decoder :: 'f
  dr_fic_source :: "frame_timestamp fic_source option"

text \<open>Members without an initialiser keep the values of \<open>junk\<close>.\<close>

definition EdiReader :: "'f edi_reader \<Rightarrow> 'f \<Rightarrow> rat \<Rightarrow> 'f edi_reader" where
  "EdiReader junk fic_decoder tist_offset_s =
     junk\<lparr>dr_proto_valid := False, dr_frameReady := False, dr_fc_valid := False, dr_fic := [], dr_time_valid := False,
          dr_mnsc := 0xffff, dr_rfu := 0xffff, dr_sources := [], dr_decoder := TimestampDecoder tist_offset_s,
          dr_fic_decoder := fic_decoder, dr_fic_source := None\<rparr>"

definition edi_getMode :: "'f edi_reader \<Rightarrow> nat result" where
  "edi_getMode r =
     (if \<not> dr_fc_valid r then Inl (RuntimeError ''Trying to access Mode before it is ready!'')
      else Inr (unat (fcd_mid (dr_fc r))))"

definition edi_getFp :: "'f edi_reader \<Rightarrow> nat result" where
  "edi_getFp r =
     (if \<not> dr_fc_valid r then Inl (RuntimeError ''Trying to access FP before it is ready!'')
      else Inr (unat (fcd_fp (dr_fc r))))"

definition edi_getFct :: "'f edi_reader \<Rightarrow> nat result" where
  "edi_getFct r =
     (if \<not> dr_fc_valid r then Inl (RuntimeError ''Trying to access FCT before it is ready!'')
      else Inr (unat (fcd_fct (dr_fc r))))"

definition edi_getTimestamp :: "(rat \<Rightarrow> rat \<Rightarrow> rat) \<Rightarrow> 'f edi_reader \<Rightarrow> 'f edi_reader \<times> frame_timestamp" where
  "edi_getTimestamp dmul r = (let (td, ts) = getTimestamp dmul (dr_decoder r) in (r\<lparr>dr_decoder := td\<rparr>, ts))"

text \<open>The sources by stream index; an index without a source is a null pointer.\<close>

definition edi_getSubchannels :: "'f edi_reader \<Rightarrow> subchannel_source option list result" where
  "edi_getSubchannels r =
     for_each (\<lambda>(i, s) sources.
         if unat i < length sources then Inr (sources[unat i := Some s])
         else Inl (RuntimeError ''Missing subchannel data in EDI source''))
       (dr_sources r) (replicate (length (dr_sources r)) None)"

definition isFrameReady :: "'f edi_reader \<Rightarrow> bool" where
  "isFrameReady r = dr_frameReady r"

definition clearFrame :: "'f edi_reader \<Rightarrow> 'f edi_reader" where
  "clearFrame r = r\<lparr>dr_frameReady := False, dr_proto_valid := False, dr_fc_valid := False, dr_fic := []\<rparr>"

section \<open>The collector's operations\<close>

definition update_protocol :: "bytes \<Rightarrow> u16 \<Rightarrow> u16 \<Rightarrow> 'f edi_reader \<Rightarrow> 'f edi_reader \<times> unit result" where
  "update_protocol proto major minor r =
     (let r = r\<lparr>dr_proto_valid := (proto = ascii ''DETI'' \<and> major = 0 \<and> minor = 0)\<rparr>
      in if \<not> dr_proto_valid r then (r, Inl (InvalidArgument ''Wrong EDI protocol'')) else (r, Inr ()))"

definition update_err :: "u8 \<Rightarrow> 'f edi_reader \<Rightarrow> 'f edi_reader \<times> unit result" where
  "update_err err r =
     (if \<not> dr_proto_valid r then (r, Inl (LogicError ''Cannot update ERR before protocol''))
      else (r\<lparr>dr_err := err\<rparr>, Inr ()))"

definition update_fc_data :: "eti_fc_data \<Rightarrow> 'f edi_reader \<Rightarrow> 'f edi_reader \<times> unit result" where
  "update_fc_data fc_data r =
     (if \<not> dr_proto_valid r then (r, Inl (LogicError ''Cannot update FC before protocol''))
      else
        (let r = r\<lparr>dr_fc_valid := False, dr_fc := fc_data\<rparr>
         in if \<not> fcd_ficf (dr_fc r) then (r, Inl (InvalidArgument ''FIC must be present''))
            else if fcd_mid (dr_fc r) > 4 then (r, Inl (InvalidArgument ''Invalid MID''))
            else if fcd_fp (dr_fc r) > 7 then (r, Inl (InvalidArgument ''Invalid FP''))
            else (r\<lparr>dr_fc_valid := True\<rparr>, Inr ())))"

definition update_fic ::
    "(bytes \<Rightarrow> 'f \<Rightarrow> 'f \<times> unit result) \<Rightarrow> bytes \<Rightarrow> 'f edi_reader \<Rightarrow> 'f edi_reader \<times> unit result" where
  "update_fic fic_decode fic r =
     (if \<not> dr_proto_valid r then (r, Inl (LogicError ''Cannot update FIC before protocol''))
      else
        (case fic_decode fic (dr_fic_decoder r) of
           (f, Inl e) \<Rightarrow> (r\<lparr>dr_fic_decoder := f\<rparr>, Inl e)
         | (f, Inr _) \<Rightarrow> (r\<lparr>dr_fic_decoder := f, dr_fic := fic\<rparr>, Inr ())))"

definition update_edi_time :: "u32 \<Rightarrow> u32 \<Rightarrow> 'f edi_reader \<Rightarrow> 'f edi_reader \<times> unit result" where
  "update_edi_time utco seconds r =
     (if \<not> dr_proto_valid r then (r, Inl (LogicError ''Cannot update time before protocol''))
      else (r\<lparr>dr_utco := utco, dr_seconds := seconds, dr_time_valid := True\<rparr>, Inr ()))"

definition update_mnsc :: "u16 \<Rightarrow> 'f edi_reader \<Rightarrow> 'f edi_reader \<times> unit result" where
  "update_mnsc mnsc r =
     (if \<not> dr_proto_valid r then (r, Inl (LogicError ''Cannot update MNSC before protocol''))
      else (r\<lparr>dr_mnsc := mnsc\<rparr>, Inr ()))"

definition update_rfu :: "u16 \<Rightarrow> 'f edi_reader \<Rightarrow> 'f edi_reader \<times> unit result" where
  "update_rfu rfu r =
     (if \<not> dr_proto_valid r then (r, Inl (LogicError ''Cannot update RFU before protocol''))
      else (r\<lparr>dr_rfu := rfu\<rparr>, Inr ()))"

text \<open>
  The map's \<open>[]\<close> comes before \<open>make_shared\<close> is evaluated or after it; in C++17 the right side of an
  assignment is evaluated first, so nothing is inserted when the constructor throws.
\<close>

definition add_subchannel :: "eti_stc_data \<Rightarrow> 'f edi_reader \<Rightarrow> 'f edi_reader \<times> unit result" where
  "add_subchannel stc r =
     (if \<not> dr_proto_valid r then (r, Inl (LogicError ''Cannot add subchannel before protocol''))
      else
        (case (case map_get (dr_sources r) (stcd_stream_index stc) of
                 Some s \<Rightarrow> Inr s
               | None \<Rightarrow> SubchannelSource (stcd_sad stc) (stcd_stl stc) (stcd_tpl stc)) of
           Inl e \<Rightarrow> (r, Inl e)
         | Inr s \<Rightarrow>
             (let r = r\<lparr>dr_sources := map_put (stcd_stream_index stc) s (dr_sources r)\<rparr>
              in if sc_framesize s \<noteq> length (stcd_mst stc)
                 then (r, Inl (InvalidArgument ''EDI: MST data length inconsistent with FIC''))
                 else
                   (let r = r\<lparr>dr_sources := map_put (stcd_stream_index stc) (loadSubchannelData s (stcd_mst stc)) (dr_sources r)\<rparr>
                    in if length (dr_sources r) > 64 then (r, Inl (InvalidArgument ''Too many subchannels''))
                       else (r, Inr ())))))"

definition assemble_frame ::
    "(rat \<Rightarrow> rat \<Rightarrow> rat) \<Rightarrow> (nat \<Rightarrow> bytes) \<Rightarrow> received_tag_packet \<Rightarrow> 'f edi_reader \<Rightarrow> 'f edi_reader \<times> unit result" where
  "assemble_frame dmul fresh tagpacket r =
     (if \<not> dr_proto_valid r then (r, Inl (LogicError ''Cannot assemble EDI data before protocol''))
      else if \<not> dr_fc_valid r then (r, Inl (LogicError ''Cannot assemble EDI data without FC''))
      else if dr_fic r = [] then (r, Inl (LogicError ''Cannot assemble EDI data without FIC''))
      else if fcd_mid (dr_fc r) = 3 \<and> length (dr_fic r) \<noteq> 32 * 4 \<or> fcd_mid (dr_fc r) \<noteq> 3 \<and> length (dr_fic r) \<noteq> 24 * 4
      then (r, Inl (InvalidArgument ''Invalid FIC length ''))
      else
        (let f = (case dr_fic_source r of
                    None \<Rightarrow> FicSource (if fcd_ficf (dr_fc r) then 1 else 0) (unat (fcd_mid (dr_fc r))) fresh
                  | Some f \<Rightarrow> f);
             f = loadFicData f (dr_fic r);
             r = (if dr_utco r = 0 \<and> dr_seconds r = 0 then r\<lparr>dr_fc := (dr_fc r)\<lparr>fcd_tsta := 0xFFFFFF\<rparr>\<rparr> else r);
             utc_ts = 946684800 + uint (dr_seconds r) - uint (dr_utco r);
             r = r\<lparr>dr_decoder := updateTimestampEdi (dr_decoder r) (of_int utc_ts) (fcd_tsta (dr_fc r))
                     (int (unat (fcd_fct (dr_fc r)))) (unat (fcd_fp (dr_fc r)))\<rparr>;
             (td, ts) = getTimestamp dmul (dr_decoder r)
         in (r\<lparr>dr_decoder := td, dr_fic_source := Some (loadTimestamp f ts), dr_frameReady := True\<rparr>, Inr ())))"

definition edi_collector ::
    "(rat \<Rightarrow> rat \<Rightarrow> rat) \<Rightarrow> (nat \<Rightarrow> bytes) \<Rightarrow> (bytes \<Rightarrow> 'f \<Rightarrow> 'f \<times> unit result) \<Rightarrow> 'f edi_reader eti_data_collector" where
  "edi_collector dmul fresh fic_decode =
     \<lparr>co_update_protocol = update_protocol, co_update_fc_data = update_fc_data, co_update_fic = update_fic fic_decode,
      co_update_err = update_err, co_update_edi_time = update_edi_time, co_update_mnsc = update_mnsc,
      co_update_rfu = update_rfu, co_add_subchannel = add_subchannel, co_assemble = assemble_frame dmul fresh\<rparr>"

section \<open>The contract of a collector\<close>

text \<open>The receiving loop of \<open>EdiTransport\<close> and its user: clear the collector, push a packet.\<close>

definition receive ::
    "rs_decoder \<Rightarrow> ('c \<Rightarrow> 'c) \<Rightarrow> u16 \<times> edi_frame \<Rightarrow> 'c eti_decoder tag_dispatcher \<times> 'c eti_decoder \<Rightarrow>
     ('c eti_decoder tag_dispatcher \<times> 'c eti_decoder) \<times> unit result" where
  "receive rs clear = (\<lambda>(seq, f) (d, e).
     ed_push_packet rs \<lparr>pk_buf = af_bytes seq (edi_payload f), pk_received_on_port = 0\<rparr>
       (d, e\<lparr>ed_data_collector := clear (ed_data_collector e)\<rparr>))"

text \<open>
  What the decoder's user may expect of a collector: a frame it accepts is taken by the calls of one
  packet without an exception and is then presented; once the collector is cleared the next frame
  of the same kind is accepted again.
\<close>

locale frame_collector =
  fixes ops :: "'c eti_data_collector" and clear :: "'c \<Rightarrow> 'c"
    and accepts :: "'c \<Rightarrow> edi_frame \<Rightarrow> bool" and presents :: "'c \<Rightarrow> edi_frame \<Rightarrow> bool"
  assumes collects: "accepts c f \<Longrightarrow> \<exists>c'. run_calls ops (edi_calls f @ [Assemble tp]) c = (c', Inr ()) \<and> presents c' f"
    and clear_accepts: "presents c f \<Longrightarrow> accepts c0 g \<Longrightarrow> accepts (clear c) g"
begin

text \<open>One packet.\<close>

lemma packet_presented:
  assumes "wf_edi f" "length (edi_payload f) < 2 ^ 32" "bound_to ops d"
    and "ed_received_tagpacket e = new_received_tag_packet" "accepts (ed_data_collector e) f"
  shows "\<exists>d' e'. ed_push_packet rs \<lparr>pk_buf = af_bytes seq (edi_payload f), pk_received_on_port = port\<rparr> (d, e) = ((d', e'), Inr ()) \<and>
    bound_to ops d' \<and> ed_received_tagpacket e' = new_received_tag_packet \<and> presents (ed_data_collector e') f"
proof -
  obtain d' e' r where p: "ed_push_packet rs \<lparr>pk_buf = af_bytes seq (edi_payload f), pk_received_on_port = port\<rparr> (d, e) = ((d', e'), r)"
    "run_calls ops (edi_calls f @ [Assemble (received_packet seq (si_pseq (dp_last_sequences d)) f)]) (ed_data_collector e) =
      (ed_data_collector e', r)"
    "bound_to ops d'" "r = Inr () \<longrightarrow> ed_received_tagpacket e' = new_received_tag_packet"
    using edi_packet [OF assms(1-4), of rs seq port] by blast
  obtain c' where "run_calls ops (edi_calls f @ [Assemble (received_packet seq (si_pseq (dp_last_sequences d)) f)]) (ed_data_collector e) =
      (c', Inr ())" "presents c' f" using collects [OF assms(5)] by blast
  then show ?thesis using p by auto
qed

lemma frames_presented:
  assumes "\<forall>(seq, f) \<in> set fs. wf_edi f \<and> length (edi_payload f) < 2 ^ 32 \<and> (\<exists>c. accepts c f)"
    and "bound_to ops d" "ed_received_tagpacket e = new_received_tag_packet" "presents (ed_data_collector e) f0"
  shows "\<exists>d' e'. push_all (receive rs clear) fs (d, e) = ((d', e'), Inr ()) \<and> bound_to ops d' \<and>
    ed_received_tagpacket e' = new_received_tag_packet \<and> presents (ed_data_collector e') (last (f0 # map snd fs))"
  using assms
proof (induction fs arbitrary: d e f0)
  case Nil
  then show ?case by auto
next
  case (Cons x fs)
  obtain seq f where x: "x = (seq, f)" by (cases x)
  let ?e = "e\<lparr>ed_data_collector := clear (ed_data_collector e)\<rparr>"
  obtain c where "accepts c f" using Cons.prems(1) x by auto
  then have acc: "accepts (ed_data_collector ?e) f" using clear_accepts [OF Cons.prems(4)] by simp
  have f: "wf_edi f" "length (edi_payload f) < 2 ^ 32" using Cons.prems(1) x by auto
  have e: "ed_received_tagpacket ?e = new_received_tag_packet" using Cons.prems(3) by simp
  obtain d1 e1 where p: "ed_push_packet rs \<lparr>pk_buf = af_bytes seq (edi_payload f), pk_received_on_port = 0\<rparr> (d, ?e) = ((d1, e1), Inr ())"
    "bound_to ops d1" "ed_received_tagpacket e1 = new_received_tag_packet" "presents (ed_data_collector e1) f"
    using packet_presented [OF f Cons.prems(2) e acc, of rs seq 0] by blast
  have r: "receive rs clear x (d, e) = ((d1, e1), Inr ())" using p(1) x by (simp add: receive_def)
  have "\<forall>(seq, f) \<in> set fs. wf_edi f \<and> length (edi_payload f) < 2 ^ 32 \<and> (\<exists>c. accepts c f)" using Cons.prems(1) by simp
  from Cons.IH [OF this p(2,3,4)] show ?case using r x by auto
qed

end

section \<open>The reader keeps the contract\<close>

text \<open>A multiplex configuration: start address, protection and size in bytes of each stream.\<close>

type_synonym multiplex = "u8 \<Rightarrow> (u16 \<times> u8 \<times> nat) option"

definition valid_config :: "multiplex \<Rightarrow> bool" where
  "valid_config cfg =
     (\<forall>i sad tpl len. cfg i = Some (sad, tpl, len) \<longrightarrow>
        i < 64 \<and> (\<exists>s. SubchannelSource sad (of_nat (len div 8)) tpl = Inr s \<and> sc_framesize s = len))"

definition stream_conforms :: "multiplex \<Rightarrow> eti_stc_data \<Rightarrow> bool" where
  "stream_conforms cfg stc = (cfg (stcd_stream_index stc) = Some (stcd_sad stc, stcd_tpl stc, length (stcd_mst stc)))"

definition source_conforms :: "multiplex \<Rightarrow> u8 \<Rightarrow> subchannel_source \<Rightarrow> bool" where
  "source_conforms cfg i s =
     (\<exists>sad tpl len. cfg i = Some (sad, tpl, len) \<and> SubchannelSource sad (of_nat (len div 8)) tpl = Inr (s\<lparr>sc_buffer := []\<rparr>))"

definition reader_conforms :: "multiplex \<Rightarrow> 'f edi_reader \<Rightarrow> bool" where
  "reader_conforms cfg r =
     (map_ok (dr_sources r) \<and> (\<forall>i s. map_get (dr_sources r) i = Some s \<longrightarrow> source_conforms cfg i s))"

definition edi_accepts ::
    "(bytes \<Rightarrow> 'f \<Rightarrow> 'f \<times> unit result) \<Rightarrow> multiplex \<Rightarrow> 'f edi_reader \<Rightarrow> edi_frame \<Rightarrow> bool" where
  "edi_accepts fic_decode cfg r f =
     (valid_config cfg \<and> reader_conforms cfg r \<and> wf_deti (ed_deti f) \<and>
      (case de_fic (ed_deti f) of None \<Rightarrow> False | Some fic \<Rightarrow> \<forall>s. snd (fic_decode fic s) = Inr ()) \<and>
      list_all (stream_conforms cfg) (ed_streams f) \<and> distinct (map stcd_stream_index (ed_streams f)))"

definition edi_presents :: "multiplex \<Rightarrow> 'f edi_reader \<Rightarrow> edi_frame \<Rightarrow> bool" where
  "edi_presents cfg r f =
     (reader_conforms cfg r \<and> isFrameReady r \<and>
      edi_getMode r = Inr (unat (de_mid (ed_deti f))) \<and> edi_getFp r = Inr (unat (de_fp (ed_deti f))) \<and>
      edi_getFct r = Inr (unat (de_dlfc (ed_deti f)) mod 250) \<and>
      map_option fs_buffer (dr_fic_source r) = de_fic (ed_deti f) \<and>
      (\<forall>stc \<in> set (ed_streams f). map_option sc_buffer (map_get (dr_sources r) (stcd_stream_index stc)) = Some (stcd_mst stc)))"

lemma reader_size:
  assumes "valid_config cfg" "reader_conforms cfg r"
  shows "length (dr_sources r) \<le> 64"
proof -
  have "set (map fst (dr_sources r)) \<subseteq> of_nat ` {..<64}"
  proof
    fix i assume "i \<in> set (map fst (dr_sources r))"
    then obtain s where "map_get (dr_sources r) i = Some s"
      using map_get_keys [of "dr_sources r" i] by (cases "map_get (dr_sources r) i") simp_all
    then have "source_conforms cfg i s" using assms(2) by (simp add: reader_conforms_def)
    then obtain sad tpl len where "cfg i = Some (sad, tpl, len)" unfolding source_conforms_def by blast
    then have "i < 64" using assms(1) unfolding valid_config_def by blast
    then have "unat i < 64" by (simp add: word_less_nat_alt)
    then show "i \<in> of_nat ` {..<64}" by (intro image_eqI [of _ _ "unat i"]) simp_all
  qed
  then have "card (set (map fst (dr_sources r))) \<le> card ((of_nat :: nat \<Rightarrow> u8) ` {..<64})" by (intro card_mono) auto
  also have "\<dots> \<le> 64" using card_image_le [of "{..<64}" "of_nat :: nat \<Rightarrow> u8"] by simp
  finally show ?thesis using length_map_card assms(2) by (metis reader_conforms_def)
qed

lemma add_conforming:
  assumes cfg: "valid_config cfg" and r: "reader_conforms cfg r" "dr_proto_valid r" and stc: "stream_conforms cfg stc"
  shows "\<exists>m. add_subchannel stc r = (r\<lparr>dr_sources := m\<rparr>, Inr ()) \<and> reader_conforms cfg (r\<lparr>dr_sources := m\<rparr>) \<and>
    (\<forall>i. map_option sc_buffer (map_get m i) =
       (if i = stcd_stream_index stc then Some (stcd_mst stc) else map_option sc_buffer (map_get (dr_sources r) i)))"
proof -
  let ?i = "stcd_stream_index stc"
  have c: "cfg ?i = Some (stcd_sad stc, stcd_tpl stc, length (stcd_mst stc))" using stc by (simp add: stream_conforms_def)
  then obtain s0 where s0: "SubchannelSource (stcd_sad stc) (of_nat (length (stcd_mst stc) div 8)) (stcd_tpl stc) = Inr s0"
    "sc_framesize s0 = length (stcd_mst stc)" using cfg unfolding valid_config_def by blast
  have b0: "s0\<lparr>sc_buffer := []\<rparr> = s0" using SubchannelSource_buffer [OF s0(1)] by (cases s0) simp
  obtain s where s: "(case map_get (dr_sources r) ?i of Some s \<Rightarrow> Inr s
      | None \<Rightarrow> SubchannelSource (stcd_sad stc) (stcd_stl stc) (stcd_tpl stc)) = Inr s" "s\<lparr>sc_buffer := []\<rparr> = s0"
  proof (cases "map_get (dr_sources r) ?i")
    case None
    then show ?thesis using that s0(1) b0 by (simp add: stcd_stl_def)
  next
    case (Some s)
    then have "s\<lparr>sc_buffer := []\<rparr> = s0" using r(1) c s0(1) by (fastforce simp: reader_conforms_def source_conforms_def)
    then show ?thesis using that Some by simp
  qed
  have fs: "sc_framesize s = length (stcd_mst stc)" unfolding s0(2) [symmetric] s(2) [symmetric] by simp
  let ?s = "loadSubchannelData s (stcd_mst stc)"
  let ?m = "map_put ?i ?s (map_put ?i s (dr_sources r))"
  have ok: "map_ok (dr_sources r)" using r(1) by (simp add: reader_conforms_def)
  have get: "map_get ?m i = (if i = ?i then Some ?s else map_get (dr_sources r) i)" for i
    using ok by (simp add: map_get_put map_ok_put)
  have "?s\<lparr>sc_buffer := []\<rparr> = s0" using s(2) by (simp add: loadSubchannelData_def)
  then have conf: "reader_conforms cfg (r\<lparr>dr_sources := ?m\<rparr>)"
    using r(1) ok get c s0(1) by (simp add: reader_conforms_def map_ok_put source_conforms_def)
  have "length ?m \<le> 64" using reader_size [OF cfg conf] by simp
  then have "add_subchannel stc r = (r\<lparr>dr_sources := ?m\<rparr>, Inr ())"
    using r(2) s(1) fs by (simp add: add_subchannel_def Let_def)
  then show ?thesis using conf get by (intro exI [of _ ?m]) (auto simp: loadSubchannelData_def)
qed

lemma add_streams:
  assumes "valid_config cfg" "list_all (stream_conforms cfg) stcs" "distinct (map stcd_stream_index stcs)"
    and "reader_conforms cfg r" "dr_proto_valid r"
  shows "\<exists>m. run_calls (edi_collector dmul fresh fic_decode) (map Add_subchannel stcs) r = (r\<lparr>dr_sources := m\<rparr>, Inr ()) \<and>
    reader_conforms cfg (r\<lparr>dr_sources := m\<rparr>) \<and>
    (\<forall>stc \<in> set stcs. map_option sc_buffer (map_get m (stcd_stream_index stc)) = Some (stcd_mst stc)) \<and>
    (\<forall>i. i \<notin> stcd_stream_index ` set stcs \<longrightarrow> map_option sc_buffer (map_get m i) = map_option sc_buffer (map_get (dr_sources r) i))"
  using assms(2-5)
proof (induction stcs arbitrary: r)
  case Nil
  then show ?case by (intro exI [of _ "dr_sources r"]) (simp add: run_calls_def)
next
  case (Cons stc stcs)
  obtain m where m: "add_subchannel stc r = (r\<lparr>dr_sources := m\<rparr>, Inr ())" "reader_conforms cfg (r\<lparr>dr_sources := m\<rparr>)"
    "\<forall>i. map_option sc_buffer (map_get m i) =
       (if i = stcd_stream_index stc then Some (stcd_mst stc) else map_option sc_buffer (map_get (dr_sources r) i))"
    using add_conforming [OF assms(1) Cons.prems(3,4), of stc] Cons.prems(1) by auto
  obtain m' where m': "run_calls (edi_collector dmul fresh fic_decode) (map Add_subchannel stcs) (r\<lparr>dr_sources := m\<rparr>) =
      (r\<lparr>dr_sources := m'\<rparr>, Inr ())" "reader_conforms cfg (r\<lparr>dr_sources := m'\<rparr>)"
    "\<forall>stc \<in> set stcs. map_option sc_buffer (map_get m' (stcd_stream_index stc)) = Some (stcd_mst stc)"
    "\<forall>i. i \<notin> stcd_stream_index ` set stcs \<longrightarrow> map_option sc_buffer (map_get m' i) = map_option sc_buffer (map_get m i)"
    using Cons.IH [OF _ _ m(2)] Cons.prems(1,2,4) by auto
  have "run_calls (edi_collector dmul fresh fic_decode) (map Add_subchannel (stc # stcs)) r = (r\<lparr>dr_sources := m'\<rparr>, Inr ())"
    using m(1) m'(1) by (simp add: run_calls_def edi_collector_def)
  moreover have "stcd_stream_index stc \<notin> stcd_stream_index ` set stcs" using Cons.prems(2) by auto
  ultimately show ?case using m(3) m'(2-4) by (intro exI [of _ m']) auto
qed

lemma deti_fct: "unat (fcd_fct (deti_fc x)) = unat (de_dlfc x) mod 250"
proof -
  have "unat (de_dlfc x mod 250) < 250" by (simp add: unat_mod)
  then show ?thesis by (simp add: fcd_fct_def deti_fc_def unsigned_ucast_eq take_bit_eq_mod unat_mod)
qed

lemma header_calls:
  assumes wf: "wf_deti x" and fic: "de_fic x = Some fic" "\<forall>s. snd (fic_decode fic s) = Inr ()"
  shows "\<exists>r'. run_calls (edi_collector dmul fresh fic_decode) (Update_protocol (ascii ''DETI'') 0 0 # deti_calls x) r = (r', Inr ()) \<and>
    dr_proto_valid r' \<and> dr_fc_valid r' \<and> dr_fc r' = deti_fc x \<and> dr_fic r' = fic \<and> dr_sources r' = dr_sources r \<and>
    dr_fic_source r' = dr_fic_source r"
proof -
  let ?ops = "edi_collector dmul fresh fic_decode"
  note ops = run_calls_def edi_collector_def
  let ?r1 = "r\<lparr>dr_proto_valid := True, dr_err := de_stat x, dr_mnsc := (case de_mnsc x of None \<Rightarrow> 0xFFFF | Some m \<Rightarrow> m)\<rparr>"
  have 1: "run_calls ?ops [Update_protocol (ascii ''DETI'') 0 0, Update_err (de_stat x),
      Update_mnsc (case de_mnsc x of None \<Rightarrow> 0xFFFF | Some m \<Rightarrow> m)] r = (?r1, Inr ())"
    by (simp add: ops update_protocol_def update_err_def update_mnsc_def Let_def)
  obtain r2 where 2: "run_calls ?ops (case de_time x of None \<Rightarrow> [] | Some (utco, seconds, _) \<Rightarrow> [Update_edi_time (ucast utco) seconds]) ?r1 = (r2, Inr ())"
    "dr_proto_valid r2" "dr_sources r2 = dr_sources r" "dr_fic_source r2 = dr_fic_source r"
    by (cases "de_time x") (auto simp: ops update_edi_time_def)
  obtain f' where f': "fic_decode fic (dr_fic_decoder r2) = (f', Inr ())" using fic(2) by (metis prod.collapse)
  let ?r3 = "r2\<lparr>dr_fic_decoder := f', dr_fic := fic\<rparr>"
  have 3: "run_calls ?ops [Update_fic fic] r2 = (?r3, Inr ())"
    using 2(2) f' by (simp add: ops update_fic_def)
  obtain r4 where 4: "run_calls ?ops (case de_rfud x of None \<Rightarrow> [] | Some rfud \<Rightarrow> [Update_rfu (ucast (shr rfud 8))]) ?r3 = (r4, Inr ())"
    "dr_proto_valid r4" "dr_sources r4 = dr_sources r" "dr_fic r4 = fic" "dr_fic_source r4 = dr_fic_source r"
    using 2 by (cases "de_rfud x") (auto simp: ops update_rfu_def)
  have "\<not> de_mid x > 4" "\<not> de_fp x > 7"
    using wf by (auto simp: wf_deti_def not_less word_less_nat_alt word_le_nat_alt)
  then have 5: "run_calls ?ops [Update_fc_data (deti_fc x)] r4 = (r4\<lparr>dr_fc := deti_fc x, dr_fc_valid := True\<rparr>, Inr ())"
    using 4(2) fic(1) by (simp add: ops update_fc_data_def Let_def deti_fc_def)
  have "run_calls ?ops (Update_protocol (ascii ''DETI'') 0 0 # deti_calls x) r =
      run_calls ?ops ([Update_protocol (ascii ''DETI'') 0 0, Update_err (de_stat x), Update_mnsc (case de_mnsc x of None \<Rightarrow> 0xFFFF | Some m \<Rightarrow> m)] @
        (case de_time x of None \<Rightarrow> [] | Some (utco, seconds, _) \<Rightarrow> [Update_edi_time (ucast utco) seconds]) @ [Update_fic fic] @
        (case de_rfud x of None \<Rightarrow> [] | Some rfud \<Rightarrow> [Update_rfu (ucast (shr rfud 8))]) @ [Update_fc_data (deti_fc x)]) r"
    using fic(1) by (simp add: deti_calls_def)
  also have "\<dots> = (r4\<lparr>dr_fc := deti_fc x, dr_fc_valid := True\<rparr>, Inr ())"
    unfolding run_calls_append by (simp add: 1 2(1) 3 4(1) 5)
  finally show ?thesis using 4 by simp
qed

lemma assemble_ok:
  assumes "dr_proto_valid r" "dr_fc_valid r" "dr_fic r \<noteq> []" "length (dr_fic r) = (if fcd_mid (dr_fc r) = 3 then 128 else 96)"
  shows "\<exists>r'. assemble_frame dmul fresh tp r = (r', Inr ()) \<and> dr_frameReady r' \<and> dr_fc_valid r' \<and> dr_sources r' = dr_sources r \<and>
    dr_fc r' \<in> {dr_fc r, (dr_fc r)\<lparr>fcd_tsta := 0xFFFFFF\<rparr>} \<and> map_option fs_buffer (dr_fic_source r') = Some (dr_fic r)"
proof -
  have lens: "\<not> (fcd_mid (dr_fc r) = 3 \<and> length (dr_fic r) \<noteq> 32 * 4 \<or> fcd_mid (dr_fc r) \<noteq> 3 \<and> length (dr_fic r) \<noteq> 24 * 4)"
    using assms(4) by auto
  define f where "f = loadFicData (case dr_fic_source r of
      None \<Rightarrow> FicSource (if fcd_ficf (dr_fc r) then 1 else 0) (unat (fcd_mid (dr_fc r))) fresh | Some f \<Rightarrow> f) (dr_fic r)"
  define r1 where "r1 = (if dr_utco r = 0 \<and> dr_seconds r = 0 then r\<lparr>dr_fc := (dr_fc r)\<lparr>fcd_tsta := 0xFFFFFF\<rparr>\<rparr> else r)"
  define td0 where "td0 = updateTimestampEdi (dr_decoder r1) (of_int (946684800 + uint (dr_seconds r1) - uint (dr_utco r1)))
      (fcd_tsta (dr_fc r1)) (int (unat (fcd_fct (dr_fc r1)))) (unat (fcd_fp (dr_fc r1)))"
  obtain td ts where t: "getTimestamp dmul td0 = (td, ts)" by fastforce
  have "assemble_frame dmul fresh tp r =
      (r1\<lparr>dr_decoder := td, dr_fic_source := Some (loadTimestamp f ts), dr_frameReady := True\<rparr>, Inr ())"
    by (simp only: assemble_frame_def Let_def r1_def [symmetric] f_def [symmetric] td0_def [symmetric] t prod.case
        assms(1-3) lens simp_thms if_False) (simp add: t)
  moreover have "dr_sources r1 = dr_sources r" "dr_fc_valid r1" "dr_fc r1 \<in> {dr_fc r, (dr_fc r)\<lparr>fcd_tsta := 0xFFFFFF\<rparr>}" "fs_buffer f = dr_fic r"
    using assms(2) by (simp_all add: r1_def f_def loadFicData_def)
  ultimately show ?thesis by (simp add: loadTimestamp_def)
qed

lemma edi_collects:
  assumes "edi_accepts fic_decode cfg r f"
  shows "\<exists>r'. run_calls (edi_collector dmul fresh fic_decode) (edi_calls f @ [Assemble tp]) r = (r', Inr ()) \<and> edi_presents cfg r' f"
proof -
  let ?ops = "edi_collector dmul fresh fic_decode"
  let ?x = "ed_deti f"
  obtain fic where fic: "de_fic ?x = Some fic" "\<forall>s. snd (fic_decode fic s) = Inr ()"
    using assms by (auto simp: edi_accepts_def split: option.splits)
  have a: "valid_config cfg" "reader_conforms cfg r" "wf_deti ?x" "list_all (stream_conforms cfg) (ed_streams f)"
    "distinct (map stcd_stream_index (ed_streams f))" using assms by (simp_all add: edi_accepts_def)
  obtain r1 where r1: "run_calls ?ops (Update_protocol (ascii ''DETI'') 0 0 # deti_calls ?x) r = (r1, Inr ())"
    "dr_proto_valid r1" "dr_fc_valid r1" "dr_fc r1 = deti_fc ?x" "dr_fic r1 = fic" "dr_sources r1 = dr_sources r"
    using header_calls [OF a(3), of fic fic_decode dmul fresh r] fic by blast
  have "reader_conforms cfg r1" using a(2) r1(6) by (simp add: reader_conforms_def)
  from add_streams [OF a(1,4,5) this r1(2), of dmul fresh fic_decode] obtain m where
    m: "run_calls ?ops (map Add_subchannel (ed_streams f)) r1 = (r1\<lparr>dr_sources := m\<rparr>, Inr ())"
    "reader_conforms cfg (r1\<lparr>dr_sources := m\<rparr>)"
    "\<forall>stc \<in> set (ed_streams f). map_option sc_buffer (map_get m (stcd_stream_index stc)) = Some (stcd_mst stc)" by blast
  let ?r2 = "r1\<lparr>dr_sources := m\<rparr>"
  have len: "length fic = (if de_mid ?x = 3 then 128 else 96)" using a(3) fic(1) by (simp add: wf_deti_def fic_size_def)
  then have ne: "fic \<noteq> []" by (auto split: if_splits)
  let ?fcs = "\<lambda>fc. fcd_mid fc = de_mid ?x \<and> fcd_fp fc = de_fp ?x \<and> fcd_fct fc = fcd_fct (deti_fc ?x)"
  obtain r3 where r3: "assemble_frame dmul fresh tp ?r2 = (r3, Inr ())" "dr_frameReady r3" "dr_fc_valid r3"
    "dr_sources r3 = m" "?fcs (dr_fc r3)" "map_option fs_buffer (dr_fic_source r3) = Some fic"
    using assemble_ok [of ?r2 dmul fresh tp] r1 ne len by (auto simp: deti_fc_def fcd_fct_def)
  have "run_calls ?ops [Assemble tp] ?r2 = (r3, Inr ())" using r3(1) by (simp add: run_calls_def edi_collector_def)
  then have "run_calls ?ops ((Update_protocol (ascii ''DETI'') 0 0 # deti_calls ?x) @ map Add_subchannel (ed_streams f) @ [Assemble tp]) r =
      (r3, Inr ())"
    unfolding run_calls_append by (simp add: r1(1) m(1))
  then have "run_calls ?ops (edi_calls f @ [Assemble tp]) r = (r3, Inr ())" by (simp add: edi_calls_def)
  moreover have "reader_conforms cfg r3" using m(2) r3(4) by (simp add: reader_conforms_def)
  then have "edi_presents cfg r3 f"
    using r3 m(3) fic(1) deti_fct [of ?x]
    by (simp add: edi_presents_def isFrameReady_def edi_getMode_def edi_getFp_def edi_getFct_def)
  ultimately show ?thesis by blast
qed

interpretation edi: frame_collector "edi_collector dmul fresh fic_decode" clearFrame "edi_accepts fic_decode cfg" "edi_presents cfg"
  for dmul fresh fic_decode cfg
proof unfold_locales
  show "\<exists>c'. run_calls (edi_collector dmul fresh fic_decode) (edi_calls f @ [Assemble tp]) c = (c', Inr ()) \<and> edi_presents cfg c' f"
    if "edi_accepts fic_decode cfg c f" for c f tp using that by (rule edi_collects)
  show "edi_accepts fic_decode cfg (clearFrame c) g" if "edi_presents cfg c f" "edi_accepts fic_decode cfg c0 g" for c f c0 g
    using that by (simp add: edi_accepts_def edi_presents_def reader_conforms_def clearFrame_def)
qed

section \<open>Properties\<close>

text \<open>
  C12. EDI end to end: over any sequence of packets of a fixed multiplex, with the reader cleared
  between them, no exception occurs, and after the last packet the reader presents its frame: mode,
  frame phase and count, the fast information channel, and the data of each of its streams.
\<close>

theorem edi_frames_presented:
  assumes "valid_config cfg" and "fs \<noteq> []"
    and "\<forall>(seq, f) \<in> set fs. wf_edi f \<and> length (edi_payload f) < 2 ^ 32 \<and> list_all (stream_conforms cfg) (ed_streams f) \<and>
      distinct (map stcd_stream_index (ed_streams f)) \<and>
      (\<exists>fic. de_fic (ed_deti f) = Some fic \<and> (\<forall>s. snd (fic_decode fic s) = Inr ()))"
  shows "\<exists>d' e'. push_all (receive rs clearFrame) fs
      (ETIDecoder pseq (edi_collector dmul fresh fic_decode) (EdiReader junk fic_decoder off)) = ((d', e'), Inr ()) \<and>
    edi_presents cfg (ed_data_collector e') (snd (last fs))"
proof -
  let ?ops = "edi_collector dmul fresh fic_decode"
  let ?r = "EdiReader junk fic_decoder off"
  obtain seq f fs' where fs: "fs = (seq, f) # fs'" using assms(2) by (cases fs) auto
  have conf: "reader_conforms cfg ?r" "reader_conforms cfg (clearFrame ?r)"
    by (simp_all add: reader_conforms_def EdiReader_def clearFrame_def map_ok_def map_get_def)
  have acc: "edi_accepts fic_decode cfg ?r g" "edi_accepts fic_decode cfg (clearFrame ?r) g" if "(q, g) \<in> set fs" for q g
    using assms(1,3) conf that by (auto simp: edi_accepts_def wf_edi_def)
  obtain d e where de: "ETIDecoder pseq ?ops ?r = (d, e)" by fastforce
  have b: "bound_to ?ops d" "ed_received_tagpacket e = new_received_tag_packet" "ed_data_collector e = ?r"
    using ETIDecoder_bound [of ?ops pseq ?r] de by (auto simp: ETIDecoder_def)
  let ?e = "e\<lparr>ed_data_collector := clearFrame (ed_data_collector e)\<rparr>"
  have first: "wf_edi f" "length (edi_payload f) < 2 ^ 32" "edi_accepts fic_decode cfg (ed_data_collector ?e) f"
    "ed_received_tagpacket ?e = new_received_tag_packet"
    using assms(3) fs acc b by auto
  obtain d1 e1 where p: "ed_push_packet rs \<lparr>pk_buf = af_bytes seq (edi_payload f), pk_received_on_port = 0\<rparr> (d, ?e) = ((d1, e1), Inr ())"
    "bound_to ?ops d1" "ed_received_tagpacket e1 = new_received_tag_packet" "edi_presents cfg (ed_data_collector e1) f"
    using edi.packet_presented [OF first(1,2) b(1) first(4,3), of rs seq 0] by blast
  have "\<forall>(seq, f) \<in> set fs'. wf_edi f \<and> length (edi_payload f) < 2 ^ 32 \<and> (\<exists>c. edi_accepts fic_decode cfg c f)"
    using assms(3) fs acc by fastforce
  from edi.frames_presented [OF this p(2-4), of rs] obtain d2 e2 where
    "push_all (receive rs clearFrame) fs' (d1, e1) = ((d2, e2), Inr ())"
    "edi_presents cfg (ed_data_collector e2) (last (f # map snd fs'))" by blast
  moreover have "last (f # map snd fs') = snd (last fs)" using fs by (induction fs' rule: rev_induct) auto
  moreover have "receive rs clearFrame (seq, f) (d, e) = ((d1, e1), Inr ())" using p(1) by (simp add: receive_def)
  ultimately show ?thesis using de fs by (intro exI [of _ d2] exI [of _ e2]) simp
qed

definition example_edi :: "u16 \<Rightarrow> edi_frame" where
  "example_edi dlfc = \<lparr>
     ed_deti = \<lparr>de_dlfc = dlfc, de_stat = 0xff, de_mid = 1, de_fp = 3, de_mnsc = Some 0, de_time = Some (5, 700000000, 9),
                de_fic = Some (replicate 96 1), de_rfud = None\<rparr>,
     ed_streams = [\<lparr>stcd_stream_index = 0, stcd_scid = 3, stcd_sad = 0, stcd_tpl = 34, stcd_mst = replicate 192 2\<rparr>]\<rparr>"

definition example_config :: multiplex where
  "example_config = [0 \<mapsto> (0, 34, 192)]"

lemma example_config_valid: "valid_config example_config"
  by (simp add: valid_config_def example_config_def SubchannelSource_def
      protectionForm_def protectionOption_def protectionLevel_def bitrate_def eep_rules_A_def)

lemma example_edi_ok:
  assumes "dlfc < 8000"
  shows "wf_edi (example_edi dlfc)" and "length (edi_payload (example_edi dlfc)) < 2 ^ 32"
  using assms
  by (simp_all add: wf_edi_def wf_deti_def example_edi_def fic_size_def wf_stc_def est_value_def be24_def edi_payload_def edi_tags_def
      ptr_value_def deti_value_def est_name_def tag_bytes_def ascii_def)

theorem edi_frames_presented_witness:
  "\<forall>rs junk. \<exists>d' e'. push_all (receive rs clearFrame) [(0xffff, example_edi 249), (0, example_edi 250)]
      (ETIDecoder 0 (edi_collector (*) (\<lambda>n. replicate n 0) (\<lambda>_ s. (s, Inr ()))) (EdiReader junk () 0)) = ((d', e'), Inr ()) \<and>
    edi_getFct (ed_data_collector e') = Inr 0"
proof (intro allI)
  fix rs :: rs_decoder and junk :: "unit edi_reader"
  let ?fs = "[(0xffff, example_edi 249), (0, example_edi 250)] :: (u16 \<times> edi_frame) list"
  have fs: "\<forall>(seq, f) \<in> set ?fs. wf_edi f \<and> length (edi_payload f) < 2 ^ 32 \<and> list_all (stream_conforms example_config) (ed_streams f) \<and>
      distinct (map stcd_stream_index (ed_streams f)) \<and>
      (\<exists>fic. de_fic (ed_deti f) = Some fic \<and> (\<forall>s. snd ((\<lambda>_ s. (s, Inr ())) fic s :: unit \<times> unit result) = Inr ()))"
    using example_edi_ok [of 249] example_edi_ok [of 250]
    by (simp add: stream_conforms_def example_edi_def example_config_def)
  have "?fs \<noteq> []" by simp
  from edi_frames_presented [OF example_config_valid this fs, of rs 0 "(*)" "\<lambda>n. replicate n 0" junk "()" 0]
  obtain d' e' where "push_all (receive rs clearFrame) ?fs
      (ETIDecoder 0 (edi_collector (*) (\<lambda>n. replicate n 0) (\<lambda>_ s. (s, Inr ()))) (EdiReader junk () 0)) = ((d', e'), Inr ())"
    "edi_presents example_config (ed_data_collector e') (snd (last ?fs))" by blast
  moreover from this(2) have "edi_getFct (ed_data_collector e') = Inr 0"
    by (simp add: edi_presents_def example_edi_def)
  ultimately show "\<exists>d' e'. push_all (receive rs clearFrame) ?fs
      (ETIDecoder 0 (edi_collector (*) (\<lambda>n. replicate n 0) (\<lambda>_ s. (s, Inr ()))) (EdiReader junk () 0)) = ((d', e'), Inr ()) \<and>
    edi_getFct (ed_data_collector e') = Inr 0" by blast
qed

end
