(* ===== verification/Charset_Tools.thy ===== *)
theory Charset_Tools
  imports Prelude
begin

text \<open>
  Text conversion of labels (\<open>src/CharsetTools.cpp\<close>): the EBU Latin table, \<open>ConvertTextToUTF8\<close>, and
  the UTF-8 string functions. A \<open>std::string\<close> is its list of bytes.
\<close>

section \<open>The EBU Latin table\<close>

text \<open>A literal \<open>"\u0118"\<close> is the UTF-8 encoding of the code point.\<close>

definition utf8 :: "nat \<Rightarrow> bytes" where
  "utf8 c =
     (if c < 0x80 then [of_nat c]
      else if c < 0x800 then [of_nat (0xC0 + c div 64), of_nat (0x80 + c mod 64)]
      else [of_nat (0xE0 + c div 4096), of_nat (0x80 + c div 64 mod 64), of_nat (0x80 + c mod 64)])"

definition no_char :: bytes where
  "no_char = []"

definition ebu_values_0x00_to_0x1F :: "bytes list" where
  "ebu_values_0x00_to_0x1F =
     [no_char, utf8 0x0118, utf8 0x012E, utf8 0x0172, utf8 0x0102, utf8 0x0116, utf8 0x010E, utf8 0x0218,
      utf8 0x021A, utf8 0x010A, no_char, no_char, utf8 0x0120, utf8 0x0139, utf8 0x017B, utf8 0x0143,
      utf8 0x0105, utf8 0x0119, utf8 0x012F, utf8 0x0173, utf8 0x0103, utf8 0x0117, utf8 0x010F, utf8 0x0219,
      utf8 0x021B, utf8 0x010B, utf8 0x0147, utf8 0x011A, utf8 0x0121, utf8 0x013A, utf8 0x017C, no_char]"

definition ebu_values_0x7B_to_0xFF :: "bytes list" where
  "ebu_values_0x7B_to_0xFF =
     [utf8 0x00AB, utf8 0x016F, utf8 0x00BB, utf8 0x013D, utf8 0x0126,
      utf8 0x00E1, utf8 0x00E0, utf8 0x00E9, utf8 0x00E8, utf8 0x00ED, utf8 0x00EC, utf8 0x00F3, utf8 0x00F2,
      utf8 0x00FA, utf8 0x00F9, utf8 0x00D1, utf8 0x00C7, utf8 0x015E, utf8 0x00DF, utf8 0x00A1, utf8 0x0178,
      utf8 0x00E2, utf8 0x00E4, utf8 0x00EA, utf8 0x00EB, utf8 0x00EE, utf8 0x00EF, utf8 0x00F4, utf8 0x00F6,
      utf8 0x00FB, utf8 0x00FC, utf8 0x00F1, utf8 0x00E7, utf8 0x015F, utf8 0x011F, utf8 0x0131, utf8 0x00FF,
      utf8 0x0136, utf8 0x0145, utf8 0x00A9, utf8 0x0122, utf8 0x011E, utf8 0x011B, utf8 0x0148, utf8 0x0151,
      utf8 0x0150, utf8 0x20AC, utf8 0x00A3, utf8 0x0024, utf8 0x0100, utf8 0x0112, utf8 0x012A, utf8 0x016A,
      utf8 0x0137, utf8 0x0146, utf8 0x013B, utf8 0x0123, utf8 0x013C, utf8 0x0130, utf8 0x0144, utf8 0x0171,
      utf8 0x0170, utf8 0x00BF, utf8 0x013E, utf8 0x00B0, utf8 0x0101, utf8 0x0113, utf8 0x012B, utf8 0x016B,
      utf8 0x00C1, utf8 0x00C0, utf8 0x00C9, utf8 0x00C8, utf8 0x00CD, utf8 0x00CC, utf8 0x00D3, utf8 0x00D2,
      utf8 0x00DA, utf8 0x00D9, utf8 0x0158, utf8 0x010C, utf8 0x0160, utf8 0x017D, utf8 0x00D0, utf8 0x013F,
      utf8 0x00C2, utf8 0x00C4, utf8 0x00CA, utf8 0x00CB, utf8 0x00CE, utf8 0x00CF, utf8 0x00D4, utf8 0x00D6,
      utf8 0x00DB, utf8 0x00DC, utf8 0x0159, utf8 0x010D, utf8 0x0161, utf8 0x017E, utf8 0x0111, utf8 0x0140,
      utf8 0x00C3, utf8 0x00C5, utf8 0x00C6, utf8 0x0152, utf8 0x0177, utf8 0x00DD, utf8 0x00D5, utf8 0x00D8,
      utf8 0x00DE, utf8 0x014A, utf8 0x0154, utf8 0x0106, utf8 0x015A, utf8 0x0179, utf8 0x0164, utf8 0x00F0,
      utf8 0x00E3, utf8 0x00E5, utf8 0x00E6, utf8 0x0153, utf8 0x0175, utf8 0x00FD, utf8 0x00F5, utf8 0x00F8,
      utf8 0x00FE, utf8 0x014B, utf8 0x0155, utf8 0x0107, utf8 0x015B, utf8 0x017A, utf8 0x0165, utf8 0x0127]"

definition ConvertCharEBUToUTF8 :: "u8 \<Rightarrow> bytes result" where
  "ConvertCharEBUToUTF8 c =
     (if c \<le> 0x1F then rd ebu_values_0x00_to_0x1F (unat c)
      else if c \<ge> 0x7B then rd ebu_values_0x7B_to_0xFF (unat (c - 0x7B))
      else if c = 0x24 then Inr (utf8 0x0142)
      else if c = 0x5C then Inr (utf8 0x016E)
      else if c = 0x5E then Inr (utf8 0x0141)
      else if c = 0x60 then Inr (utf8 0x0104)
      else Inr [c])"

section \<open>Text\<close>

definition cleaned :: "bytes \<Rightarrow> bytes" where
  "cleaned data = filter (\<lambda>c. c \<noteq> 0x00 \<and> c \<noteq> 0x0A \<and> c \<noteq> 0x0B \<and> c \<noteq> 0x1F) data"

fun convert_chars :: "bytes \<Rightarrow> bytes \<Rightarrow> bytes result" where
  "convert_chars [] acc = Inr acc"
| "convert_chars (c # cs) acc =
     bindE (ConvertCharEBUToUTF8 c) (\<lambda>u. convert_chars cs (acc @ u))"

text \<open>
  \<open>data\<close> is read with its length as bound. The UTF-8 case takes the address of the first element,
  which an empty vector does not have.
\<close>

definition ConvertTextToUTF8 :: "bytes \<Rightarrow> int \<Rightarrow> bytes result" where
  "ConvertTextToUTF8 data charset =
     (let cleaned_data = cleaned data in
      if charset = 0 then convert_chars cleaned_data []
      else if charset = 15 then
        (if cleaned_data = [] then Inl (UndefinedBehaviour ''&cleaned_data[0]'') else Inr cleaned_data)
      else Inr [])"

section \<open>UTF-8 strings\<close>

definition continuation :: "u8 \<Rightarrow> bool" where
  "continuation c = (c AND 0xC0 = 0x80)"

fun UTF8CharsLen_from :: "bytes \<Rightarrow> nat \<Rightarrow> nat" where
  "UTF8CharsLen_from [] chars = 0"
| "UTF8CharsLen_from (c # s) chars =
     (if \<not> continuation c
      then (if chars = 0 then 0 else Suc (UTF8CharsLen_from s (chars - 1)))
      else Suc (UTF8CharsLen_from s chars))"

definition UTF8CharsLen :: "bytes \<Rightarrow> nat \<Rightarrow> nat" where
  "UTF8CharsLen s chars = UTF8CharsLen_from s chars"

definition UTF8Len :: "bytes \<Rightarrow> nat" where
  "UTF8Len s = length (filter (\<lambda>c. \<not> continuation c) s)"

definition UTF8Substr :: "bytes \<Rightarrow> nat \<Rightarrow> nat \<Rightarrow> bytes" where
  "UTF8Substr s pos count =
     (let result = drop (UTF8CharsLen s pos) s
      in take (UTF8CharsLen result count) result)"

end
