(* ===== verification/Fic_Decoder.thy ===== *)
theory Fic_Decoder
  imports Complex_Main Crc Std_Map State_Error Charset_Tools
begin

text \<open>
  The decoder of the fast information channel (\<open>src/FigParser.h\<close>, \<open>src/FigParser.cpp\<close>): it gathers
  the ensemble, its services and subchannels from the fast information groups, and tells an observer.
  An argument \<open>data\<close> is the memory from the code's pointer to the end of the vector the decoder was
  given, so a read past the end is \<open>UndefinedBehaviour\<close>, a read past a block or a group is not.
  The decoder is the one \<open>EdiReader\<close> makes, with \<open>verbose\<close> false; log messages are left out.
  \<open>std::set\<close> of cluster identifiers is a set, \<open>std::map\<close> is \<open>std_map\<close>.
\<close>

section \<open>Data\<close>

record fic_label =
  fl_charset :: int
  fl_label :: bytes
  fl_short_label_mask :: u16

definition FIC_LABEL :: fic_label where
  "FIC_LABEL = \<lparr>fl_charset = -1, fl_label = replicate 16 0, fl_short_label_mask = 0\<rparr>"

record fic_subchannel =
  sb_start :: nat
  sb_size :: nat
  sb_pl :: string
  sb_bitrate :: int
  sb_language :: int

definition FIC_SUBCHANNEL :: fic_subchannel where
  "FIC_SUBCHANNEL = \<lparr>sb_start = 0, sb_size = 0, sb_pl = [], sb_bitrate = -1, sb_language = -1\<rparr>"

record fic_asw_cluster =
  ac_asw_flags :: u16
  ac_subchid :: int

definition FIC_ASW_CLUSTER :: fic_asw_cluster where
  "FIC_ASW_CLUSTER = \<lparr>ac_asw_flags = 0, ac_subchid = -1\<rparr>"

text \<open>The constructor sets two of the fields only; \<open>junk\<close> is what the memory held.\<close>

record fic_dab_dt =
  dt_sec :: int
  dt_min :: int
  dt_hour :: int
  dt_mday :: int
  dt_mon :: int
  dt_year :: int
  dt_ms :: int

definition FIC_DAB_DT :: "fic_dab_dt \<Rightarrow> fic_dab_dt" where
  "FIC_DAB_DT junk = junk\<lparr>dt_year := -1, dt_ms := -1\<rparr>"

record fic_ensemble =
  en_eid :: int
  en_al_flag :: bool
  en_label :: fic_label
  en_ecc :: int
  en_lto :: int
  en_inter_table_id :: int
  en_asw_clusters :: "(u8, fic_asw_cluster) std_map"

definition FIC_ENSEMBLE :: fic_ensemble where
  "FIC_ENSEMBLE = \<lparr>en_eid = -1, en_al_flag = False, en_label = FIC_LABEL, en_ecc = -1, en_lto = -100,
     en_inter_table_id = -1, en_asw_clusters = []\<rparr>"

record audio_service =
  au_subchid :: int
  au_dab_plus :: bool

definition AUDIO_SERVICE :: audio_service where
  "AUDIO_SERVICE = \<lparr>au_subchid = -1, au_dab_plus = False\<rparr>"

record fic_service =
  sv_sid :: int
  sv_pri_comp_subchid :: int
  sv_label :: fic_label
  sv_pty_static :: int
  sv_pty_dynamic :: int
  sv_asu_flags :: u16
  sv_cids :: "u8 set"
  sv_audio_comps :: "(int, audio_service) std_map"
  sv_comp_defs :: "(int, int) std_map"
  sv_comp_labels :: "(int, fic_label) std_map"
  sv_comp_sls_uas :: "(int, bytes) std_map"

definition FIC_SERVICE :: fic_service where
  "FIC_SERVICE = \<lparr>sv_sid = -1, sv_pri_comp_subchid = -1, sv_label = FIC_LABEL, sv_pty_static = -1,
     sv_pty_dynamic = -1, sv_asu_flags = 0, sv_cids = {}, sv_audio_comps = [], sv_comp_defs = [],
     sv_comp_labels = [], sv_comp_sls_uas = []\<rparr>"

record listed_service =
  ls_sid :: int
  ls_scids :: int
  ls_subchannel :: fic_subchannel
  ls_audio_service :: audio_service
  ls_label :: fic_label
  ls_pty_static :: int
  ls_pty_dynamic :: int
  ls_sls_app_type :: int
  ls_asu_flags :: u16
  ls_cids :: "u8 set"
  ls_pri_comp_subchid :: int
  ls_multi_comps :: bool

record fic_observer =
  ob_ensemble :: "fic_ensemble option"
  ob_utc_dt :: "fic_dab_dt option"
  ob_services :: "(int, listed_service) std_map"

record fic_decoder =
  fd_ensemble :: fic_ensemble
  fd_services :: "(u16, fic_service) std_map"
  fd_subchannels :: "(int, fic_subchannel) std_map"
  fd_utc_dt :: fic_dab_dt
  fd_utc_dt_long :: bool
  fd_observer :: fic_observer

definition FICDecoder :: "fic_dab_dt \<Rightarrow> fic_decoder" where
  "FICDecoder junk = \<lparr>fd_ensemble = FIC_ENSEMBLE, fd_services = [], fd_subchannels = [],
     fd_utc_dt = FIC_DAB_DT junk, fd_utc_dt_long = False,
     fd_observer = \<lparr>ob_ensemble = None, ob_utc_dt = None, ob_services = []\<rparr>\<rparr>"

definition fd_Reset :: "fic_dab_dt \<Rightarrow> fic_decoder \<Rightarrow> fic_decoder" where
  "fd_Reset junk d = d\<lparr>fd_ensemble := FIC_ENSEMBLE, fd_services := [], fd_subchannels := [], fd_utc_dt := FIC_DAB_DT junk\<rparr>"

text \<open>\<open>std::map::operator[]\<close> makes a missing entry; \<open>at\<close> throws.\<close>

definition map_val :: "'v \<Rightarrow> ('k, 'v) std_map \<Rightarrow> 'k \<Rightarrow> 'v" where
  "map_val dflt m k = (case map_get m k of None \<Rightarrow> dflt | Some v \<Rightarrow> v)"

definition map_at :: "('k, 'v) std_map \<Rightarrow> 'k \<Rightarrow> 'v result" where
  "map_at m k = (case map_get m k of None \<Rightarrow> Inl (OutOfRange ''map::at'') | Some v \<Rightarrow> Inr v)"

fun to_string :: "nat \<Rightarrow> string" where
  "to_string n = (if n < 10 then [char_of (48 + n)] else to_string (n div 10) @ [char_of (48 + n mod 10)])"

declare to_string.simps [simp del]

section \<open>The observer\<close>

definition FICChangeEnsemble :: "fic_ensemble \<Rightarrow> fic_observer \<Rightarrow> fic_observer" where
  "FICChangeEnsemble e obs =
     (let known = (case ob_ensemble obs of None \<Rightarrow> False | Some e' \<Rightarrow> en_eid e = en_eid e' \<and> en_ecc e = en_ecc e')
      in if known then obs else obs\<lparr>ob_services := [], ob_ensemble := Some e\<rparr>)"

definition FICChangeService :: "listed_service \<Rightarrow> fic_observer \<Rightarrow> fic_observer" where
  "FICChangeService ls obs = obs\<lparr>ob_services := map_put (ls_sid ls) ls (ob_services obs)\<rparr>"

definition FICChangeUTCDateTime :: "fic_dab_dt \<Rightarrow> fic_observer \<Rightarrow> fic_observer" where
  "FICChangeUTCDateTime dt obs = obs\<lparr>ob_utc_dt := Some dt\<rparr>"

section \<open>Labels\<close>

definition trim_spaces :: "bytes \<Rightarrow> bytes" where
  "trim_spaces s = (if \<forall>c \<in> set s. c = 0x20 then s else rev (dropWhile (\<lambda>c. c = 0x20) (rev s)))"

definition ConvertLabelToUTF8 :: "fic_label \<Rightarrow> bytes result" where
  "ConvertLabelToUTF8 l = bindE (ConvertTextToUTF8 (fl_label l) (fl_charset l)) (\<lambda>result. Inr (trim_spaces result))"

text \<open>The constant 0x8000 is an \<open>int\<close>; a shift by its width or more is undefined.\<close>

fun derive_chars :: "bytes \<Rightarrow> u16 \<Rightarrow> nat list \<Rightarrow> bytes \<Rightarrow> bytes result" where
  "derive_chars long_label short_label_mask [] short_label = Inr short_label"
| "derive_chars long_label short_label_mask (i # is) short_label =
     (if 32 \<le> i then Inl (UndefinedBehaviour ''shift'')
      else derive_chars long_label short_label_mask is
             (if (ucast short_label_mask :: u32) AND shr 0x8000 i \<noteq> 0
              then short_label @ UTF8Substr long_label i 1 else short_label))"

definition DeriveShortLabelUTF8 :: "bytes \<Rightarrow> u16 \<Rightarrow> bytes result" where
  "DeriveShortLabelUTF8 long_label short_label_mask =
     derive_chars long_label short_label_mask [0..<length long_label] []"

section \<open>Updates\<close>

definition GetSLSAppType :: "bytes \<Rightarrow> int" where
  "GetSLSAppType ua_data =
     (let long = length ua_data \<ge> 2;
          ca_flag = (if long then ua_data ! 0 AND 0x80 \<noteq> 0 else False);
          xpad_app_type = (if long then uint (ua_data ! 0 AND 0x1F) else 12);
          dg_flag = (if long then ua_data ! 1 AND 0x80 \<noteq> 0 else False);
          dscty = (if long then uint (ua_data ! 1 AND 0x3F) else 60)
      in if \<not> ca_flag \<and> \<not> dg_flag \<and> dscty = 60 then xpad_app_type else -1)"

definition assemble_listed ::
    "(int, fic_subchannel) std_map \<Rightarrow> fic_service \<Rightarrow> int \<Rightarrow> bool \<Rightarrow> listed_service result" where
  "assemble_listed subchannels service scids multi_comps =
     bindE (if scids = -1 then map_at (sv_audio_comps service) (sv_pri_comp_subchid service)
            else bindE (map_at (sv_comp_defs service) scids) (map_at (sv_audio_comps service))) (\<lambda>audio.
     let label = (if scids = -1 then sv_label service
                  else map_val (sv_label service) (sv_comp_labels service) scids);
         sls_scids = (if scids = -1
                      then (case find (\<lambda>comp_def. snd comp_def = au_subchid audio) (sv_comp_defs service) of
                              None \<Rightarrow> -1 | Some (k, _) \<Rightarrow> k)
                      else scids)
     in Inr \<lparr>ls_sid = sv_sid service, ls_scids = scids,
             ls_subchannel = map_val FIC_SUBCHANNEL subchannels (au_subchid audio),
             ls_audio_service = audio, ls_label = label,
             ls_pty_static = sv_pty_static service, ls_pty_dynamic = sv_pty_dynamic service,
             ls_sls_app_type =
               (if sls_scids = -1 then -1
                else case map_get (sv_comp_sls_uas service) sls_scids of
                       None \<Rightarrow> -1 | Some ua \<Rightarrow> GetSLSAppType ua),
             ls_asu_flags = sv_asu_flags service, ls_cids = sv_cids service,
             ls_pri_comp_subchid = sv_pri_comp_subchid service, ls_multi_comps = multi_comps\<rparr>)"

definition UpdateListedService :: "fic_service \<Rightarrow> int \<Rightarrow> bool \<Rightarrow> fic_decoder \<Rightarrow> fic_decoder \<times> unit result" where
  "UpdateListedService service scids multi_comps d =
     needS (assemble_listed (fd_subchannels d) service scids multi_comps) d (\<lambda>ls.
     (d\<lparr>fd_observer := FICChangeService ls (fd_observer d)\<rparr>, Inr ()))"

definition UpdateService :: "fic_service \<Rightarrow> fic_decoder \<Rightarrow> fic_decoder \<times> unit result" where
  "UpdateService service d =
     (if sv_pri_comp_subchid service = -1 \<or> fl_charset (sv_label service) = -1 then (d, Inr ())
      else
        (let secondary = filter (\<lambda>comp_def. snd comp_def \<noteq> sv_pri_comp_subchid service \<and>
               map_get (sv_audio_comps service) (snd comp_def) \<noteq> None) (sv_comp_defs service)
         in bindS (eachS (\<lambda>comp_def. UpdateListedService service (fst comp_def) True) secondary d) (\<lambda>d _.
            UpdateListedService service (-1) (secondary \<noteq> []) d)))"

definition update_services :: "(fic_service \<Rightarrow> bool) \<Rightarrow> fic_decoder \<Rightarrow> fic_decoder \<times> unit result" where
  "update_services affected d = eachS UpdateService (filter affected (map snd (fd_services d))) d"

definition UpdateSubchannel :: "int \<Rightarrow> fic_decoder \<Rightarrow> fic_decoder \<times> unit result" where
  "UpdateSubchannel subchid d = update_services (\<lambda>s. map_get (sv_audio_comps s) subchid \<noteq> None) d"

definition UpdateEnsemble :: "fic_decoder \<Rightarrow> fic_decoder" where
  "UpdateEnsemble d =
     (if en_eid (fd_ensemble d) = -1 \<or> fl_charset (en_label (fd_ensemble d)) = -1 then d
      else d\<lparr>fd_observer := FICChangeEnsemble (fd_ensemble d) (fd_observer d)\<rparr>)"

definition GetService :: "u16 \<Rightarrow> fic_decoder \<Rightarrow> fic_service" where
  "GetService sid d =
     (let s = map_val FIC_SERVICE (fd_services d) sid
      in if sv_sid s = -1 then s\<lparr>sv_sid := uint sid\<rparr> else s)"

text \<open>What a handler writes through the reference that \<open>GetService\<close> or \<open>GetSubchannel\<close> gave it.\<close>

definition put_service :: "u16 \<Rightarrow> fic_service \<Rightarrow> fic_decoder \<Rightarrow> fic_decoder" where
  "put_service sid s d = d\<lparr>fd_services := map_put sid s (fd_services d)\<rparr>"

definition GetSubchannel :: "int \<Rightarrow> fic_decoder \<Rightarrow> fic_subchannel" where
  "GetSubchannel subchid d = map_val FIC_SUBCHANNEL (fd_subchannels d) subchid"

definition put_subchannel :: "int \<Rightarrow> fic_subchannel \<Rightarrow> fic_decoder \<Rightarrow> fic_decoder" where
  "put_subchannel subchid sc d = d\<lparr>fd_subchannels := map_put subchid sc (fd_subchannels d)\<rparr>"

end
