(* ===== verification/Fig_Parser.thy ===== *)
theory Fig_Parser
  imports Fic_Decoder
begin

text \<open>
  The fast information groups (\<open>src/FigParser.cpp\<close>): one operation per \<open>ProcessFIG\<close> function, the
  fast information blocks they come in, and \<open>Process\<close> for the channel of a frame. In a group's loop
  only the first byte of an entry is checked against the group's length.
\<close>

definition read_bytes :: "bytes \<Rightarrow> nat \<Rightarrow> nat \<Rightarrow> bytes result" where
  "read_bytes data off n = (if n = 0 then Inr [] else memread data off n)"

section \<open>Type 0\<close>

definition ProcessFIG0_0 :: "bytes \<Rightarrow> nat \<Rightarrow> fic_decoder \<Rightarrow> fic_decoder \<times> unit result" where
  "ProcessFIG0_0 data len d =
     (if len < 4 then (d, Inr ())
      else
        needS (read_16b data 0) d (\<lambda>eid.
        needS (rd data 2) d (\<lambda>b.
        let new_ensemble = (fd_ensemble d)\<lparr>en_eid := uint eid, en_al_flag := (b AND 0x20 \<noteq> 0)\<rparr>
        in if fd_ensemble d \<noteq> new_ensemble then (UpdateEnsemble (d\<lparr>fd_ensemble := new_ensemble\<rparr>), Inr ())
           else (d, Inr ()))))"

definition uep_sizes :: "nat list" where
  "uep_sizes =
     [16,  21,  24,  29,  35,  24,  29,  35,  42,  52,  29,  35,  42,  52,  32,  42,
      48,  58,  70,  40,  52,  58,  70,  84,  48,  58,  70,  84, 104,  58,  70,  84,
      104,  64,  84,  96, 116, 140,  80, 104, 116, 140, 168,  96, 116, 140, 168, 208,
      116, 140, 168, 208, 232, 128, 168, 192, 232, 280, 160, 208, 280, 192, 280, 416]"

definition uep_pls :: "nat list" where
  "uep_pls =
     [5, 4, 3, 2, 1, 5, 4, 3, 2, 1, 5, 4, 3, 2, 5, 4,
      3, 2, 1, 5, 4, 3, 2, 1, 5, 4, 3, 2, 1, 5, 4, 3,
      2, 5, 4, 3, 2, 1, 5, 4, 3, 2, 1, 5, 4, 3, 2, 1,
      5, 4, 3, 2, 1, 5, 4, 3, 2, 1, 5, 4, 2, 5, 3, 1]"

definition uep_bitrates :: "int list" where
  "uep_bitrates =
     [32,  32,  32,  32,  32,  48,  48,  48,  48,  48,  56,  56,  56,  56,  64,  64,
      64,  64,  64,  80,  80,  80,  80,  80,  96,  96,  96,  96,  96, 112, 112, 112,
      112, 128, 128, 128, 128, 128, 160, 160, 160, 160, 160, 192, 192, 192, 192, 192,
      224, 224, 224, 224, 224, 256, 256, 256, 256, 256, 320, 320, 320, 384, 384, 384]"

definition eep_a_size_factors :: "nat list" where
  "eep_a_size_factors = [12, 8, 6, 4]"

definition eep_b_size_factors :: "nat list" where
  "eep_b_size_factors = [27, 21, 18, 15]"

text \<open>The entry at \<open>offset\<close>: the identifier, the organisation, the number of bytes.\<close>

definition read_subchannel :: "bytes \<Rightarrow> nat \<Rightarrow> (int \<times> fic_subchannel \<times> nat) result" where
  "read_subchannel data offset =
     bindE (rd data offset) (\<lambda>b0.
     bindE (rd data (offset + 1)) (\<lambda>b1.
     bindE (rd data (offset + 2)) (\<lambda>b2.
     let subchid = uint (shr b0 2);
         start_address = unat (shl (ucast (b0 AND 0x03)) 8 OR ucast b1 :: u32);
         sc = FIC_SUBCHANNEL\<lparr>sb_start := start_address\<rparr>
     in if b2 AND 0x80 \<noteq> 0
        then
          bindE (rd data (offset + 3)) (\<lambda>b3.
          let opt = unat (shr (b2 AND 0x70) 4);
              pl = unat (shr (b2 AND 0x0C) 2);
              subch_size = unat (shl (ucast (b2 AND 0x03)) 8 OR ucast b3 :: u32)
          in if opt = 0
             then bindE (rd eep_a_size_factors pl) (\<lambda>f.
                  Inr (subchid, sc\<lparr>sb_size := subch_size, sb_pl := ''EEP '' @ to_string (pl + 1) @ ''-A'',
                                  sb_bitrate := int (subch_size div f * 8)\<rparr>, 4))
             else if opt = 1
             then bindE (rd eep_b_size_factors pl) (\<lambda>f.
                  Inr (subchid, sc\<lparr>sb_size := subch_size, sb_pl := ''EEP '' @ to_string (pl + 1) @ ''-B'',
                                  sb_bitrate := int (subch_size div f * 32)\<rparr>, 4))
             else Inr (subchid, sc, 4))
        else if b2 AND 0x40 = 0
        then
          (let table_index = unat (b2 AND 0x3F) in
           bindE (rd uep_sizes table_index) (\<lambda>sz.
           bindE (rd uep_pls table_index) (\<lambda>pl.
           bindE (rd uep_bitrates table_index) (\<lambda>br.
           Inr (subchid, sc\<lparr>sb_size := sz, sb_pl := ''UEP '' @ to_string pl, sb_bitrate := br\<rparr>, 3)))))
        else Inr (subchid, sc, 3))))"

definition store_subchannel :: "int \<Rightarrow> fic_subchannel \<Rightarrow> fic_decoder \<Rightarrow> fic_decoder \<times> unit result" where
  "store_subchannel subchid sc d =
     (if sb_pl sc = [] \<and> sb_language sc = -1 then (d, Inr ())
      else
        (let current_sc = GetSubchannel subchid d;
             sc = sc\<lparr>sb_language := sb_language current_sc\<rparr>
         in if current_sc \<noteq> sc then UpdateSubchannel subchid (put_subchannel subchid sc d)
            else (put_subchannel subchid current_sc d, Inr ())))"

definition ProcessFIG0_1 :: "bytes \<Rightarrow> nat \<Rightarrow> fic_decoder \<Rightarrow> fic_decoder \<times> unit result" where
  "ProcessFIG0_1 data len d =
     advance_loop (\<lambda>offset d.
       needS (read_subchannel data offset) d (\<lambda>(subchid, sc, n).
       bindS (store_subchannel subchid sc d) (\<lambda>d _. (d, Inr n)))) len 0 d"

definition store_component :: "u16 \<Rightarrow> int \<Rightarrow> bool \<Rightarrow> bool \<Rightarrow> fic_decoder \<Rightarrow> fic_decoder \<times> unit result" where
  "store_component sid subchid ps dab_plus d =
     (let audio = \<lparr>au_subchid = subchid, au_dab_plus = dab_plus\<rparr>;
          service = GetService sid d;
          current = map_val AUDIO_SERVICE (sv_audio_comps service) subchid
      in if current \<noteq> audio \<or> ps \<noteq> (sv_pri_comp_subchid service = subchid)
         then
           (let service = service\<lparr>sv_audio_comps := map_put subchid audio (sv_audio_comps service)\<rparr>;
                service = (if ps then service\<lparr>sv_pri_comp_subchid := subchid\<rparr> else service)
            in UpdateService service (put_service sid service d))
         else (put_service sid (service\<lparr>sv_audio_comps := map_put subchid current (sv_audio_comps service)\<rparr>) d, Inr ()))"

definition fig0_2_component :: "bytes \<Rightarrow> u16 \<Rightarrow> nat \<Rightarrow> fic_decoder \<Rightarrow> fic_decoder \<times> unit result" where
  "fig0_2_component data sid offset d =
     needS (rd data offset) d (\<lambda>b0.
     if shr b0 6 = 0
     then
       needS (rd data (offset + 1)) d (\<lambda>b1.
       let ascty = uint (b0 AND 0x3F);
           subchid = uint (shr b1 2);
           ps = (b1 AND 0x02 \<noteq> 0);
           ca = (b1 AND 0x01 \<noteq> 0)
       in if \<not> ca \<and> (ascty = 0 \<or> ascty = 63) then store_component sid subchid ps (ascty = 63) d
          else (d, Inr ()))
     else (d, Inr ()))"

definition ProcessFIG0_2 :: "bytes \<Rightarrow> nat \<Rightarrow> fic_decoder \<Rightarrow> fic_decoder \<times> unit result" where
  "ProcessFIG0_2 data len d =
     advance_loop (\<lambda>offset d.
       needS (read_16b data offset) d (\<lambda>sid.
       needS (rd data (offset + 2)) d (\<lambda>b.
       let num_service_comps = unat (b AND 0x0F) in
       bindS (eachS (\<lambda>i. fig0_2_component data sid (offset + 3 + 2 * i)) [0..<num_service_comps] d) (\<lambda>d _.
       (d, Inr (3 + 2 * num_service_comps)))))) len 0 d"

definition store_language :: "int \<Rightarrow> int \<Rightarrow> fic_decoder \<Rightarrow> fic_decoder \<times> unit result" where
  "store_language subchid language d =
     (let current_sc = GetSubchannel subchid d in
      if sb_language current_sc \<noteq> language
      then UpdateSubchannel subchid (put_subchannel subchid (current_sc\<lparr>sb_language := language\<rparr>) d)
      else (put_subchannel subchid current_sc d, Inr ()))"

definition ProcessFIG0_5 :: "bytes \<Rightarrow> nat \<Rightarrow> fic_decoder \<Rightarrow> fic_decoder \<times> unit result" where
  "ProcessFIG0_5 data len d =
     advance_loop (\<lambda>offset d.
       needS (rd data offset) d (\<lambda>b.
       if b AND 0x80 \<noteq> 0 then (d, Inr 3)
       else if b AND 0x40 \<noteq> 0 then (d, Inr 2)
       else
         needS (rd data (offset + 1)) d (\<lambda>language.
         bindS (store_language (uint (b AND 0x3F)) (uint language) d) (\<lambda>d _. (d, Inr 2))))) len 0 d"

definition store_definition :: "u16 \<Rightarrow> int \<Rightarrow> int \<Rightarrow> fic_decoder \<Rightarrow> fic_decoder \<times> unit result" where
  "store_definition sid scids subchid d =
     (let service = GetService sid d;
          new_comp = (map_get (sv_comp_defs service) scids = None);
          current_subchid = map_val 0 (sv_comp_defs service) scids
      in if new_comp \<or> current_subchid \<noteq> subchid
         then
           (let service = service\<lparr>sv_comp_defs := map_put scids subchid (sv_comp_defs service)\<rparr>
            in UpdateService service (put_service sid service d))
         else (put_service sid service d, Inr ()))"

definition ProcessFIG0_8 :: "bytes \<Rightarrow> nat \<Rightarrow> fic_decoder \<Rightarrow> fic_decoder \<times> unit result" where
  "ProcessFIG0_8 data len d =
     advance_loop (\<lambda>offset d.
       needS (read_16b data offset) d (\<lambda>sid.
       needS (rd data (offset + 2)) d (\<lambda>b2.
       needS (rd data (offset + 3)) d (\<lambda>b3.
       let ext_flag = (b2 AND 0x80 \<noteq> 0);
           scids = uint (b2 AND 0x0F);
           ls_flag = (b3 AND 0x80 \<noteq> 0);
           msc_fic_flag = (b3 AND 0x40 \<noteq> 0)
       in bindS (if \<not> ls_flag \<and> \<not> msc_fic_flag then store_definition sid scids (uint (b3 AND 0x3F)) d
                 else (d, Inr ())) (\<lambda>d _.
          (d, Inr (3 + (if ls_flag then 2 else 1) + (if ext_flag then 1 else 0))))))) ) len 0 d"

definition ProcessFIG0_9 :: "bytes \<Rightarrow> nat \<Rightarrow> fic_decoder \<Rightarrow> fic_decoder \<times> unit result" where
  "ProcessFIG0_9 data len d =
     (if len < 3 then (d, Inr ())
      else
        needS (rd data 0) d (\<lambda>b0.
        needS (rd data 1) d (\<lambda>b1.
        needS (rd data 2) d (\<lambda>b2.
        let new_ensemble = (fd_ensemble d)\<lparr>
              en_lto := (if b0 AND 0x20 \<noteq> 0 then -1 else 1) * uint (b0 AND 0x1F),
              en_ecc := uint b1, en_inter_table_id := uint b2\<rparr>
        in if fd_ensemble d \<noteq> new_ensemble
           then update_services (\<lambda>s. sv_pty_static s \<noteq> -1 \<or> sv_pty_dynamic s \<noteq> -1)
                  (UpdateEnsemble (d\<lparr>fd_ensemble := new_ensemble\<rparr>))
           else (d, Inr ())))))"

text \<open>
  The date of a modified Julian day. The code computes in \<open>double\<close>; the operands differ from an
  integer by more than its rounding error, so the floors are those of the exact quotients.
\<close>

definition date_of_mjd :: "int \<Rightarrow> int \<times> int \<times> int" where
  "date_of_mjd mjd =
     (let y0 = \<lfloor>(of_int mjd - 15078.2) / 365.25 :: rat\<rfloor>;
          m0 = \<lfloor>(of_int mjd - 14956.1 - of_int \<lfloor>of_int y0 * 365.25 :: rat\<rfloor>) / 30.6001 :: rat\<rfloor>;
          d = mjd - 14956 - \<lfloor>of_int y0 * 365.25 :: rat\<rfloor> - \<lfloor>of_int m0 * 30.6001 :: rat\<rfloor>;
          k = (if m0 = 14 \<or> m0 = 15 then 1 else 0)
      in (y0 + k, m0 - 1 - k * 12, d))"

definition ProcessFIG0_10 :: "bytes \<Rightarrow> nat \<Rightarrow> fic_decoder \<Rightarrow> fic_decoder \<times> unit result" where
  "ProcessFIG0_10 data len d =
     (if len < 4 then (d, Inr ())
      else
        needS (rd data 2) d (\<lambda>b2.
        let utc_flag = (b2 AND 0x08 \<noteq> 0) in
        if \<not> utc_flag \<and> fd_utc_dt_long d then (d, Inr ())
        else
          needS (rd data 0) d (\<lambda>b0.
          needS (rd data 1) d (\<lambda>b1.
          needS (rd data 3) d (\<lambda>b3.
          let mjd = uint (shl (ucast (b0 AND 0x7F)) 10 OR shl (ucast b1) 2 OR ucast (shr b2 6) :: u32);
              (y, m, day) = date_of_mjd mjd;
              hour = uint (shl (ucast (b2 AND 0x07)) 2 OR ucast (shr b3 6) :: u32);
              minute = uint (b3 AND 0x3F);
              new_dt = (\<lambda>sec ms. \<lparr>dt_sec = sec, dt_min = minute, dt_hour = hour, dt_mday = day, dt_mon = m - 1,
                                  dt_year = y, dt_ms = ms\<rparr>);
              store = (\<lambda>new d. if fd_utc_dt d \<noteq> new
                 then d\<lparr>fd_utc_dt := new, fd_observer := FICChangeUTCDateTime new (fd_observer d)\<rparr>
                 else d)
          in if utc_flag
             then
               (if len < 6 then (d, Inr ())
                else
                  needS (rd data 4) d (\<lambda>b4.
                  needS (rd data 5) d (\<lambda>b5.
                  (store (new_dt (uint (shr b4 2)) (uint (shl (ucast (b4 AND 0x03)) 8 OR ucast b5 :: u32)))
                     (d\<lparr>fd_utc_dt_long := True\<rparr>), Inr ()))))
             else (store (new_dt 0 (-1)) d, Inr ()))))))"

definition store_application :: "bytes \<Rightarrow> u16 \<Rightarrow> int \<Rightarrow> nat \<Rightarrow> nat \<Rightarrow> fic_decoder \<Rightarrow> fic_decoder \<times> unit result" where
  "store_application data sid scids off n d =
     (let service = GetService sid d in
      if map_get (sv_comp_sls_uas service) scids = None
      then
        needS (read_bytes data off n) d (\<lambda>ua.
        let service = service\<lparr>sv_comp_sls_uas := map_put scids ua (sv_comp_sls_uas service)\<rparr>
        in UpdateService service (put_service sid service d))
      else (put_service sid service d, Inr ()))"

fun fig0_13_applications :: "bytes \<Rightarrow> u16 \<Rightarrow> int \<Rightarrow> nat \<Rightarrow> nat \<Rightarrow> fic_decoder \<Rightarrow> fic_decoder \<times> nat result" where
  "fig0_13_applications data sid scids 0 offset d = (d, Inr offset)"
| "fig0_13_applications data sid scids (Suc num) offset d =
     needS (rd data offset) d (\<lambda>b0.
     needS (rd data (offset + 1)) d (\<lambda>b1.
     let ua_type = uint (shl (ucast b0) 3 OR ucast (shr b1 5) :: u32);
         ua_data_length = unat (b1 AND 0x1F)
     in bindS (if ua_type = 2 then store_application data sid scids (offset + 2) ua_data_length d else (d, Inr ())) (\<lambda>d _.
        fig0_13_applications data sid scids num (offset + 2 + ua_data_length) d)))"

definition ProcessFIG0_13 :: "bytes \<Rightarrow> nat \<Rightarrow> fic_decoder \<Rightarrow> fic_decoder \<times> unit result" where
  "ProcessFIG0_13 data len d =
     advance_loop (\<lambda>offset d.
       needS (read_16b data offset) d (\<lambda>sid.
       needS (rd data (offset + 2)) d (\<lambda>b.
       bindS (fig0_13_applications data sid (uint (shr b 4)) (unat (b AND 0x0F)) (offset + 3) d) (\<lambda>d end_offset.
       (d, Inr (end_offset - offset)))))) len 0 d"

definition store_pty :: "u16 \<Rightarrow> bool \<Rightarrow> int \<Rightarrow> fic_decoder \<Rightarrow> fic_decoder \<times> unit result" where
  "store_pty sid sd pty d =
     (let service = GetService sid d in
      if (if sd then sv_pty_dynamic service else sv_pty_static service) \<noteq> pty
      then
        (let service = (if sd then service\<lparr>sv_pty_dynamic := pty\<rparr> else service\<lparr>sv_pty_static := pty\<rparr>)
         in UpdateService service (put_service sid service d))
      else (put_service sid service d, Inr ()))"

definition ProcessFIG0_17 :: "bytes \<Rightarrow> nat \<Rightarrow> fic_decoder \<Rightarrow> fic_decoder \<times> unit result" where
  "ProcessFIG0_17 data len d =
     advance_loop (\<lambda>offset d.
       needS (read_16b data offset) d (\<lambda>sid.
       needS (rd data (offset + 2)) d (\<lambda>b.
       let sd = (b AND 0x80 \<noteq> 0);
           l_flag = (b AND 0x20 \<noteq> 0);
           cc_flag = (b AND 0x10 \<noteq> 0);
           pos = offset + 3 + (if l_flag then 1 else 0)
       in needS (rd data pos) d (\<lambda>p.
          bindS (store_pty sid sd (uint (p AND 0x1F)) d) (\<lambda>d _.
          (d, Inr (4 + (if l_flag then 1 else 0) + (if cc_flag then 1 else 0)))))))) len 0 d"

definition store_announcements :: "u16 \<Rightarrow> u16 \<Rightarrow> u8 set \<Rightarrow> fic_decoder \<Rightarrow> fic_decoder \<times> unit result" where
  "store_announcements sid asu_flags cids d =
     (let service = GetService sid d in
      if sv_asu_flags service \<noteq> asu_flags \<or> sv_cids service \<noteq> cids
      then
        (let service = service\<lparr>sv_asu_flags := asu_flags, sv_cids := cids\<rparr>
         in UpdateService service (put_service sid service d))
      else (put_service sid service d, Inr ()))"

definition ProcessFIG0_18 :: "bytes \<Rightarrow> nat \<Rightarrow> fic_decoder \<Rightarrow> fic_decoder \<times> unit result" where
  "ProcessFIG0_18 data len d =
     advance_loop (\<lambda>offset d.
       needS (read_16b data offset) d (\<lambda>sid.
       needS (read_16b data (offset + 2)) d (\<lambda>asu_flags.
       needS (rd data (offset + 4)) d (\<lambda>b.
       let number_of_clusters = unat (b AND 0x1F) in
       needS (read_bytes data (offset + 5) number_of_clusters) d (\<lambda>cids.
       bindS (store_announcements sid asu_flags (set cids) d) (\<lambda>d _.
       (d, Inr (5 + number_of_clusters)))))))) len 0 d"

definition store_cluster :: "u8 \<Rightarrow> fic_asw_cluster \<Rightarrow> fic_decoder \<Rightarrow> fic_decoder \<times> unit result" where
  "store_cluster cid ac d =
     (let current_ac = map_val FIC_ASW_CLUSTER (en_asw_clusters (fd_ensemble d)) cid;
          put = (\<lambda>ac. d\<lparr>fd_ensemble := (fd_ensemble d)\<lparr>en_asw_clusters := map_put cid ac (en_asw_clusters (fd_ensemble d))\<rparr>\<rparr>)
      in if current_ac \<noteq> ac then update_services (\<lambda>s. cid \<in> sv_cids s) (UpdateEnsemble (put ac))
         else (put current_ac, Inr ()))"

definition ProcessFIG0_19 :: "bytes \<Rightarrow> nat \<Rightarrow> fic_decoder \<Rightarrow> fic_decoder \<times> unit result" where
  "ProcessFIG0_19 data len d =
     advance_loop (\<lambda>offset d.
       needS (rd data offset) d (\<lambda>cid.
       needS (read_16b data (offset + 1)) d (\<lambda>asw_flags.
       needS (rd data (offset + 3)) d (\<lambda>b.
       bindS (store_cluster cid \<lparr>ac_asw_flags = asw_flags, ac_subchid = uint (b AND 0x3F)\<rparr> d) (\<lambda>d _.
       (d, Inr (if b AND 0x40 \<noteq> 0 then 5 else 4))))))) len 0 d"

definition ProcessFIG0 :: "bytes \<Rightarrow> nat \<Rightarrow> fic_decoder \<Rightarrow> fic_decoder \<times> unit result" where
  "ProcessFIG0 data len d =
     (if len < 1 then (d, Inr ())
      else
        needS (rd data 0) d (\<lambda>header.
        let data = drop 1 data; len = len - 1; extension = header AND 0x1F in
        if header AND 0x80 \<noteq> 0 \<or> header AND 0x40 \<noteq> 0 \<or> header AND 0x20 \<noteq> 0 then (d, Inr ())
        else if extension = 0 then ProcessFIG0_0 data len d
        else if extension = 1 then ProcessFIG0_1 data len d
        else if extension = 2 then ProcessFIG0_2 data len d
        else if extension = 5 then ProcessFIG0_5 data len d
        else if extension = 8 then ProcessFIG0_8 data len d
        else if extension = 9 then ProcessFIG0_9 data len d
        else if extension = 10 then ProcessFIG0_10 data len d
        else if extension = 13 then ProcessFIG0_13 data len d
        else if extension = 17 then ProcessFIG0_17 data len d
        else if extension = 18 then ProcessFIG0_18 data len d
        else if extension = 19 then ProcessFIG0_19 data len d
        else (d, Inr ())))"

section \<open>Type 1\<close>

definition ProcessFIG1_0 :: "fic_label \<Rightarrow> fic_decoder \<Rightarrow> fic_decoder \<times> unit result" where
  "ProcessFIG1_0 label d =
     (if en_label (fd_ensemble d) \<noteq> label
      then
        (let d = d\<lparr>fd_ensemble := (fd_ensemble d)\<lparr>en_label := label\<rparr>\<rparr> in
         needS (ConvertLabelToUTF8 label) d (\<lambda>label_str.
         needS (DeriveShortLabelUTF8 label_str (fl_short_label_mask label)) d (\<lambda>short_label_str.
         (UpdateEnsemble d, Inr ()))))
      else (d, Inr ()))"

definition ProcessFIG1_1 :: "u16 \<Rightarrow> fic_label \<Rightarrow> fic_decoder \<Rightarrow> fic_decoder \<times> unit result" where
  "ProcessFIG1_1 sid label d =
     (let service = GetService sid d in
      if sv_label service \<noteq> label
      then
        (let service = service\<lparr>sv_label := label\<rparr>
         in UpdateService service (put_service sid service d))
      else (put_service sid service d, Inr ()))"

definition ProcessFIG1_4 :: "u16 \<Rightarrow> int \<Rightarrow> fic_label \<Rightarrow> fic_decoder \<Rightarrow> fic_decoder \<times> unit result" where
  "ProcessFIG1_4 sid scids label d =
     (let service = GetService sid d;
          comp_label = map_val FIC_LABEL (sv_comp_labels service) scids;
          put = (\<lambda>l. service\<lparr>sv_comp_labels := map_put scids l (sv_comp_labels service)\<rparr>)
      in if comp_label \<noteq> label then UpdateService (put label) (put_service sid (put label) d)
         else (put_service sid (put comp_label) d, Inr ()))"

definition ProcessFIG1 :: "bytes \<Rightarrow> nat \<Rightarrow> fic_decoder \<Rightarrow> fic_decoder \<times> unit result" where
  "ProcessFIG1 data len d =
     (if len < 1 then (d, Inr ())
      else
        needS (rd data 0) d (\<lambda>header.
        let data = drop 1 data; len = len - 1; extension = header AND 0x07;
            label = (\<lambda>len_id f.
              if len \<noteq> len_id + 16 + 2 then (d, Inr ())
              else
                needS (memread data len_id 16) d (\<lambda>l.
                needS (read_16b data (len_id + 16)) d (\<lambda>short_mask.
                f \<lparr>fl_charset = uint (shr header 4), fl_label = l, fl_short_label_mask = short_mask\<rparr>)))
        in if header AND 0x08 \<noteq> 0 then (d, Inr ())
           else if extension = 0 then
             label 2 (\<lambda>l. needS (read_16b data 0) d (\<lambda>eid. ProcessFIG1_0 l d))
           else if extension = 1 then
             label 2 (\<lambda>l. needS (read_16b data 0) d (\<lambda>sid. ProcessFIG1_1 sid l d))
           else if extension = 4 then
             needS (rd data 0) d (\<lambda>b0.
             if b0 AND 0x80 \<noteq> 0 then (d, Inr ())
             else label 3 (\<lambda>l. needS (read_16b data 1) d (\<lambda>sid. ProcessFIG1_4 sid (uint (b0 AND 0x0F)) l d)))
           else (d, Inr ())))"

section \<open>Blocks\<close>

definition fib_checkCRC :: "bytes \<Rightarrow> nat \<Rightarrow> bool result" where
  "fib_checkCRC buf sz =
     bindE (read_16b buf (sz - 2)) (\<lambda>crc_from_packet.
     bindE (memread buf 0 (sz - 2)) (\<lambda>d.
     Inr (crc_from_packet = crc16 0xffff d XOR 0xffff)))"

function process_figs :: "bytes \<Rightarrow> nat \<Rightarrow> fic_decoder \<Rightarrow> fic_decoder \<times> unit result" where
  "process_figs data offset d =
     (if offset < 30 then
        needS (rd data offset) d (\<lambda>b.
        if b = 0xFF then (d, Inr ())
        else
          let type = shr b 5; len = unat (b AND 0x1F); offset = offset + 1 in
          bindS (if type = 0 then ProcessFIG0 (drop offset data) len d
                 else if type = 1 then ProcessFIG1 (drop offset data) len d
                 else (d, Inr ())) (\<lambda>d _.
          process_figs data (offset + len) d))
      else (d, Inr ()))"
  by auto
termination by (relation "measure (\<lambda>(data, offset, d). 30 - offset)") auto

declare process_figs.simps [simp del]

definition ProcessFIB :: "bytes \<Rightarrow> fic_decoder \<Rightarrow> fic_decoder \<times> unit result" where
  "ProcessFIB data d =
     needS (fib_checkCRC data 32) d (\<lambda>ok. if \<not> ok then (d, Inr ()) else process_figs data 0 d)"

definition Process :: "bytes \<Rightarrow> nat \<Rightarrow> fic_decoder \<Rightarrow> fic_decoder \<times> unit result" where
  "Process data len d =
     (if len mod 32 \<noteq> 0 then (d, Inr ())
      else eachS (\<lambda>i. ProcessFIB (drop (32 * i) data)) [0..<len div 32] d)"

end
