(* ===== verification/Fic_Date.thy ===== *)
theory Fic_Date
  imports Fig_Parser
begin

text \<open>
  The date of FIG 0/10: the conversion of a modified Julian day gives the day of the Gregorian
  calendar, from 1 March 1900 to 28 February 2100, where every fourth year is a leap year. The
  reference counts days: those of the years and months before, and those of the month.
\<close>

text \<open>Years count from 1900; of the multiples of four, 1900 and 2100 are no leap years.\<close>

definition leap :: "int \<Rightarrow> bool" where
  "leap y = (y mod 4 = 0 \<and> y \<noteq> 0 \<and> y \<noteq> 200)"

definition month_days :: "bool \<Rightarrow> int list" where
  "month_days lp = [31, if lp then 29 else 28, 31, 30, 31, 30, 31, 31, 30, 31, 30, 31]"

definition year_days :: "int \<Rightarrow> int" where
  "year_days y = sum_list (month_days (leap y))"

text \<open>Day 15020 is 1 January 1900.\<close>

definition mjd_of_date :: "int \<times> int \<times> int \<Rightarrow> int" where
  "mjd_of_date = (\<lambda>(y, m, d).
     15020 + sum_list (map year_days [0..y - 1]) + sum_list (take (nat (m - 1)) (month_days (leap y))) + (d - 1))"

definition valid_date :: "int \<times> int \<times> int \<Rightarrow> bool" where
  "valid_date = (\<lambda>(y, m, d). 1 \<le> m \<and> m \<le> 12 \<and> 1 \<le> d \<and> d \<le> month_days (leap y) ! nat (m - 1))"

lemma floor_quotients:
  "\<lfloor>(of_int mjd - 15078.2) / 365.25 :: rat\<rfloor> = (20 * mjd - 301564) div 7305"
  "\<lfloor>of_int y * 365.25 :: rat\<rfloor> = 1461 * y div 4"
  "\<lfloor>(of_int mjd - 14956.1 - of_int f) / 30.6001 :: rat\<rfloor> = (10000 * (mjd - 14956 - f) - 1000) div 306001"
  "\<lfloor>of_int m * 30.6001 :: rat\<rfloor> = 306001 * m div 10000"
proof -
  have "(of_int mjd - 15078.2) / 365.25 = (of_int (20 * mjd - 301564) / of_int 7305 :: rat)" by (simp add: field_simps)
  then show "\<lfloor>(of_int mjd - 15078.2) / 365.25 :: rat\<rfloor> = (20 * mjd - 301564) div 7305"
    by (simp only: floor_divide_of_int_eq)
  have "of_int y * 365.25 = (of_int (1461 * y) / of_int 4 :: rat)" by (simp add: field_simps)
  then show "\<lfloor>of_int y * 365.25 :: rat\<rfloor> = 1461 * y div 4" by (simp only: floor_divide_of_int_eq)
  have "(of_int mjd - 14956.1 - of_int f) / 30.6001 = (of_int (10000 * (mjd - 14956 - f) - 1000) / of_int 306001 :: rat)"
    by (simp add: field_simps)
  then show "\<lfloor>(of_int mjd - 14956.1 - of_int f) / 30.6001 :: rat\<rfloor> = (10000 * (mjd - 14956 - f) - 1000) div 306001"
    by (simp only: floor_divide_of_int_eq)
  have "of_int m * 30.6001 = (of_int (306001 * m) / of_int 10000 :: rat)" by (simp add: field_simps)
  then show "\<lfloor>of_int m * 30.6001 :: rat\<rfloor> = 306001 * m div 10000" by (simp only: floor_divide_of_int_eq)
qed

text \<open>The month and day from the number of the day, counted from 1 March; the table is checked.\<close>

definition month_of :: "int \<Rightarrow> int \<times> int" where
  "month_of r = (let m0 = (10000 * (r + 122) - 1000) div 306001 in (m0, r + 122 - 306001 * m0 div 10000))"

definition days_before :: "int \<Rightarrow> int" where
  "days_before m = sum_list (take (nat (m - 1)) (month_days False))"

definition month_right :: "int \<Rightarrow> bool" where
  "month_right r = (case month_of r of (m0, d) \<Rightarrow>
     if m0 = 14 \<or> m0 = 15
     then 307 + days_before (m0 - 13) + d - 1 = r \<and> 1 \<le> d \<and>
          (if r = 366 then m0 = 15 \<and> d = 29 else d \<le> month_days False ! nat (m0 - 14))
     else 4 \<le> m0 \<and> m0 \<le> 13 \<and> days_before (m0 - 1) + d - 1 = 58 + r \<and> 1 \<le> d \<and> d \<le> month_days False ! nat (m0 - 2))"

lemma month_table: "\<forall>r \<in> set [1..366]. month_right r"
  by code_simp

lemma month_right_1_366: "1 \<le> r \<Longrightarrow> r \<le> 366 \<Longrightarrow> month_right r"
  using month_table by (simp del: upto.simps)

lemma year_days: "year_days y = (if leap y then 366 else 365)"
  by (simp add: year_days_def month_days_def)

lemma leap_count:
  assumes "0 \<le> y" and "y \<le> 199"
  shows "(if y = 0 then 0 else (y - 1) div 4) + (if leap y then 1 else 0) = y div 4"
proof -
  obtain q t where y: "y = 4 * q + t" "0 \<le> t" "t < 4"
    by (rule that [of "y div 4" "y mod 4"]) simp_all
  consider "t = 0" | "1 \<le> t" using y by linarith
  then show ?thesis
  proof cases
    case 1
    have "(4 * q - 1) div 4 = q - 1" by presburger
    then show ?thesis using assms y 1 by (auto simp: leap_def)
  next
    case 2
    have "(4 * q + t - 1) div 4 = q" "(4 * q + t) div 4 = q" "(4 * q + t) mod 4 = t" using y 2 by presburger+
    then show ?thesis using assms y 2 by (auto simp: leap_def)
  qed
qed

lemma day_of_year:
  fixes mjd :: int
  defines "y0 \<equiv> (20 * mjd - 301564) div 7305"
  defines "r \<equiv> mjd - 15078 - 1461 * y0 div 4"
  shows "1 \<le> r" and "r \<le> (if (y0 + 1) mod 4 = 0 then 366 else 365)"
proof -
  have lo: "7305 * y0 \<le> 20 * mjd - 301564" and hi: "20 * mjd - 301564 < 7305 * y0 + 7305"
    unfolding y0_def by (simp_all add: minus_mod_eq_mult_div [symmetric] pos_mod_bound)
  obtain q t where y: "y0 = 4 * q + t" and t: "t = 0 \<or> t = 1 \<or> t = 2 \<or> t = 3"
  proof (rule that [of "y0 div 4" "y0 mod 4"])
    have "0 \<le> y0 mod 4" "y0 mod 4 < 4" by simp_all
    then show "y0 mod 4 = 0 \<or> y0 mod 4 = 1 \<or> y0 mod 4 = 2 \<or> y0 mod 4 = 3" by linarith
  qed simp
  have F: "1461 * y0 div 4 = 1461 * q + 1461 * t div 4" unfolding y by (simp add: algebra_simps)
  have "y0 + 1 = t + 1 + 4 * q" unfolding y by simp
  then have L: "(y0 + 1) mod 4 = (t + 1) mod 4" by (simp only: mod_mult_self2)
  from t show "1 \<le> r" using lo hi unfolding r_def F unfolding y by (elim disjE) simp_all
  from t show "r \<le> (if (y0 + 1) mod 4 = 0 then 366 else 365)"
    using lo hi unfolding r_def F L unfolding y by (elim disjE) simp_all
qed

lemma years_before: "n \<le> 200 \<Longrightarrow>
    sum_list (map year_days [0..int n - 1]) = 365 * int n + (if n = 0 then 0 else (int n - 1) div 4)"
proof (induction n)
  case (Suc n)
  have "[0..int (Suc n) - 1] = [0..int n - 1] @ [int n]" using upto_rec2 [of 0 "int n"] by simp
  then have "sum_list (map year_days [0..int (Suc n) - 1]) =
      365 * int n + (if n = 0 then 0 else (int n - 1) div 4) + year_days (int n)"
    using Suc by simp
  also have "\<dots> = 365 * int (Suc n) + int n div 4"
    using leap_count [of "int n"] Suc.prems by (auto simp: year_days)
  finally show ?case by simp
qed simp

lemma days_before_leap:
  "2 \<le> m \<Longrightarrow> sum_list (take (nat m) (month_days lp)) = days_before (m + 1) + (if lp then 1 else 0)"
  "m = 0 \<or> m = 1 \<Longrightarrow> sum_list (take (nat m) (month_days lp)) = days_before (m + 1)"
proof -
  show "sum_list (take (nat m) (month_days lp)) = days_before (m + 1) + (if lp then 1 else 0)" if "2 \<le> m"
  proof -
    have "nat m = Suc (Suc (nat m - 2))" using that by simp
    then obtain n where "nat m = Suc (Suc n)" by blast
    then show ?thesis by (simp add: days_before_def month_days_def)
  qed
  show "sum_list (take (nat m) (month_days lp)) = days_before (m + 1)" if "m = 0 \<or> m = 1"
    using that by (auto simp: days_before_def month_days_def)
qed

lemma month_days_leap: "2 \<le> m \<Longrightarrow> month_days lp ! nat m = month_days False ! nat m"
proof -
  assume "2 \<le> m"
  then have "nat m = Suc (Suc (nat m - 2))" by simp
  then obtain n where "nat m = Suc (Suc n)" by blast
  then show ?thesis by (simp add: month_days_def)
qed

text \<open>
  C15. The date of the date and time group is right: for every day from 1 March 1900 to 28 February
  2100 the floating-point formula yields a date of the Gregorian calendar, and counting days up to
  that date gives the day back.
\<close>

theorem fic_date_is_gregorian:
  assumes "15079 \<le> mjd" and "mjd \<le> 88127"
  shows "valid_date (date_of_mjd mjd) \<and> mjd_of_date (date_of_mjd mjd) = mjd"
proof -
  define y0 where "y0 = (20 * mjd - 301564) div 7305"
  define r where "r = mjd - 15078 - 1461 * y0 div 4"
  obtain m0 d where md: "month_of r = (m0, d)" by (cases "month_of r")
  have "7305 * y0 \<le> 20 * mjd - 301564" and "20 * mjd - 301564 < 7305 * y0 + 7305"
    unfolding y0_def by (simp_all add: minus_mod_eq_mult_div [symmetric] pos_mod_bound)
  with assms have y0: "0 \<le> y0" "y0 \<le> 199" by linarith+
  have "1461 * y0 = y0 + 4 * (365 * y0)" by simp
  then have F: "1461 * y0 div 4 = 365 * y0 + y0 div 4" by (simp only: div_mult_self2)
  have r: "1 \<le> r" "r \<le> (if (y0 + 1) mod 4 = 0 then 366 else 365)"
    unfolding r_def y0_def by (rule day_of_year)+
  then have "month_right r" by (intro month_right_1_366) (auto split: if_splits)
  note right = this [unfolded month_right_def md prod.case]
  have dt: "date_of_mjd mjd = (y0 + (if m0 = 14 \<or> m0 = 15 then 1 else 0), m0 - 1 - (if m0 = 14 \<or> m0 = 15 then 1 else 0) * 12, d)"
  proof -
    have x: "mjd - 14956 - 1461 * y0 div 4 = r + 122" by (simp add: r_def)
    have m0: "(10000 * (r + 122) - 1000) div 306001 = m0" and d: "r + 122 - 306001 * m0 div 10000 = d"
      using md by (auto simp only: month_of_def Let_def prod.inject)
    show ?thesis unfolding date_of_mjd_def floor_quotients y0_def [symmetric] Let_def x m0 d by (rule refl)
  qed
  show ?thesis
  proof (cases "m0 = 14 \<or> m0 = 15")
    case True
    then have y: "date_of_mjd mjd = (y0 + 1, m0 - 13, d)" using dt by auto
    have "mjd_of_date (y0 + 1, m0 - 13, d) = 15020 + (365 * (y0 + 1) + y0 div 4) + days_before (m0 - 13) + (d - 1)"
      using years_before [of "nat (y0 + 1)"] y0 days_before_leap(2) [of "m0 - 14"] True by (simp add: mjd_of_date_def)
    moreover have "valid_date (y0 + 1, m0 - 13, d)"
    proof (cases "r = 366")
      case True
      with r have "(y0 + 1) mod 4 = 0" by (auto split: if_splits)
      moreover have "y0 \<noteq> 199" using True assms(2) by (auto simp: r_def)
      ultimately have "leap (y0 + 1)" using y0 by (simp add: leap_def)
      then show ?thesis using right True \<open>m0 = 14 \<or> m0 = 15\<close> by (auto simp: valid_date_def month_days_def)
    next
      case False
      then show ?thesis using right \<open>m0 = 14 \<or> m0 = 15\<close> by (auto simp: valid_date_def month_days_def)
    qed
    ultimately show ?thesis using right True y unfolding r_def F by (simp split: if_splits)
  next
    case False
    then have y: "date_of_mjd mjd = (y0, m0 - 1, d)" using dt by auto
    have "mjd_of_date (y0, m0 - 1, d) = 15020 + (365 * y0 + (if y0 = 0 then 0 else (y0 - 1) div 4)) +
        (days_before (m0 - 1) + (if leap y0 then 1 else 0)) + (d - 1)"
      using years_before [of "nat y0"] y0 days_before_leap(1) [of "m0 - 2"] right False by (simp add: mjd_of_date_def)
    moreover have "(if y0 = 0 then 0 else (y0 - 1) div 4) + (if leap y0 then 1 else 0) = y0 div 4"
      using leap_count y0 by simp
    moreover have "valid_date (y0, m0 - 1, d)"
      using right False month_days_leap [of "m0 - 2" "leap y0"] by (auto simp: valid_date_def)
    ultimately show ?thesis using right False y unfolding r_def F by (simp del: upto.simps)
  qed
qed

theorem fic_date_is_gregorian_witness:
  "date_of_mjd 60000 = (123, 2, 25) \<and> valid_date (123, 2, 25) \<and> mjd_of_date (123, 2, 25) = 60000"
proof -
  have "date_of_mjd 60000 = (123, 2, 25)" unfolding date_of_mjd_def floor_quotients by (simp add: Let_def)
  with fic_date_is_gregorian [of 60000] show ?thesis by simp
qed

end
