(* ===== verification/Fic_Consistent.thy ===== *)
theory Fic_Consistent
  imports Fig_Parser
begin

text \<open>
  What the observer of the fast information channel is told. A service is complete when its primary
  component and its label are known; \<open>listing\<close> is the entry the decoder's present state gives for it.
  The invariant \<open>fic_ok\<close> says that the maps are well formed, that \<open>std::map::at\<close> will find what it
  looks for, and that every entry the observer holds is the present listing of its service. The
  decoder keeps it: it tells the observer about every service a change touches.
\<close>

section \<open>The invariant\<close>

definition service_complete :: "fic_service \<Rightarrow> bool" where
  "service_complete s = (sv_pri_comp_subchid s \<noteq> -1 \<and> fl_charset (sv_label s) \<noteq> -1)"

definition has_secondary :: "fic_service \<Rightarrow> bool" where
  "has_secondary s = (\<exists>c \<in> set (sv_comp_defs s). snd c \<noteq> sv_pri_comp_subchid s \<and>
     map_get (sv_audio_comps s) (snd c) \<noteq> None)"

definition listing :: "fic_decoder \<Rightarrow> fic_service \<Rightarrow> listed_service result" where
  "listing d s = assemble_listed (fd_subchannels d) s (-1) (has_secondary s)"

definition service_ok :: "u16 \<Rightarrow> fic_service \<Rightarrow> bool" where
  "service_ok sid s =
     (sv_sid s = uint sid \<and>
      map_ok (sv_audio_comps s) \<and> map_ok (sv_comp_defs s) \<and> map_ok (sv_comp_labels s) \<and> map_ok (sv_comp_sls_uas s) \<and>
      (sv_pri_comp_subchid s \<noteq> -1 \<longrightarrow> map_get (sv_audio_comps s) (sv_pri_comp_subchid s) \<noteq> None) \<and>
      (\<forall>k a. map_get (sv_audio_comps s) k = Some a \<longrightarrow> au_subchid a = k) \<and>
      (\<forall>k v. map_get (sv_comp_defs s) k = Some v \<longrightarrow> k \<noteq> -1))"

definition decoder_wf :: "fic_decoder \<Rightarrow> bool" where
  "decoder_wf d =
     (map_ok (fd_services d) \<and> map_ok (fd_subchannels d) \<and> map_ok (ob_services (fd_observer d)) \<and>
      map_ok (en_asw_clusters (fd_ensemble d)) \<and>
      (\<forall>sid s. map_get (fd_services d) sid = Some s \<longrightarrow> service_ok sid s))"

text \<open>The observer's entries are up to date, those of the services in \<open>X\<close> aside.\<close>

definition sync_except :: "fic_service set \<Rightarrow> fic_decoder \<Rightarrow> bool" where
  "sync_except X d =
     (\<forall>k ls. map_get (ob_services (fd_observer d)) k = Some ls \<longrightarrow>
        (\<exists>sid s. map_get (fd_services d) sid = Some s \<and> uint sid = k \<and> service_complete s \<and>
           (s \<notin> X \<longrightarrow> listing d s = Inr ls)))"

definition fic_ok :: "fic_decoder \<Rightarrow> bool" where
  "fic_ok d = (decoder_wf d \<and> sync_except {} d)"

text \<open>The kinds of undefined behaviour the decoder can run into.\<close>

definition fic_ub :: "string \<Rightarrow> bool" where
  "fic_ub k = (k \<in> {''read'', ''shift'', ''&cleaned_data[0]''})"

lemma new_decoder_ok: "fic_ok (FICDecoder junk)"
  by (simp add: fic_ok_def decoder_wf_def sync_except_def FICDecoder_def map_ok_def map_get_def FIC_ENSEMBLE_def)

section \<open>Listing a service\<close>

lemma map_put_same: "map_ok m \<Longrightarrow> map_get m k = Some v \<Longrightarrow> map_put k v m = m"
proof (induction k v m rule: map_put.induct)
  case (2 k v k1 v1 m)
  have "\<not> k < k1"
  proof
    assume "k < k1"
    have "\<forall>x \<in> set (map fst m). k1 < x" using 2(2) by (simp add: map_ok_def)
    with \<open>k < k1\<close> have "k \<notin> set (map fst ((k1, v1) # m))" by fastforce
    with 2(3) show False by (metis map_get_notin option.distinct(1))
  qed
  moreover have "map_ok m" using 2(2) by (simp add: map_ok_def)
  ultimately show ?case using 2 by (auto simp: map_get_def)
qed (simp add: map_get_def)

lemma primary_found:
  assumes "service_ok sid s" and "sv_pri_comp_subchid s \<noteq> -1"
  obtains a where "map_get (sv_audio_comps s) (sv_pri_comp_subchid s) = Some a"
    and "au_subchid a = sv_pri_comp_subchid s"
  using assms by (auto simp: service_ok_def)

lemma assemble_listed_ok:
  assumes "service_ok sid s" and "service_complete s"
    and "scids = -1 \<or> (\<exists>c. map_get (sv_comp_defs s) scids = Some c \<and> map_get (sv_audio_comps s) c \<noteq> None)"
  shows "\<exists>ls. assemble_listed m s scids multi = Inr ls \<and> ls_sid ls = uint sid"
proof -
  from assms(1,2) obtain a where "map_get (sv_audio_comps s) (sv_pri_comp_subchid s) = Some a"
    by (auto simp: service_complete_def elim: primary_found)
  moreover have "sv_sid s = uint sid" using assms(1) by (simp add: service_ok_def)
  ultimately show ?thesis
    using assms(3) by (auto simp: assemble_listed_def map_at_def Let_def)
qed

lemma listing_exists:
  assumes "service_ok sid s" and "service_complete s"
  obtains ls where "listing d s = Inr ls" and "ls_sid ls = uint sid"
  using assemble_listed_ok [OF assms, of "-1"] by (auto simp: listing_def)

text \<open>The observer's services after one of a service's components was announced.\<close>

lemma each_listed:
  assumes "\<forall>c \<in> set cs. \<exists>ls. assemble_listed (fd_subchannels d) s (fst c) True = Inr ls \<and> ls_sid ls = k"
    and "map_ok (ob_services (fd_observer d))"
  shows "\<exists>m. eachS (\<lambda>c. UpdateListedService s (fst c) True) cs d =
      (d\<lparr>fd_observer := (fd_observer d)\<lparr>ob_services := m\<rparr>\<rparr>, Inr ()) \<and> map_ok m \<and>
    (\<forall>k'. k' \<noteq> k \<longrightarrow> map_get m k' = map_get (ob_services (fd_observer d)) k')"
  using assms
proof (induction cs arbitrary: d)
  case Nil
  then show ?case by (intro exI [of _ "ob_services (fd_observer d)"]) simp
next
  case (Cons c cs)
  from Cons.prems(1) obtain ls where ls: "assemble_listed (fd_subchannels d) s (fst c) True = Inr ls" "ls_sid ls = k"
    by auto
  let ?d = "d\<lparr>fd_observer := FICChangeService ls (fd_observer d)\<rparr>"
  have "\<exists>m. eachS (\<lambda>c. UpdateListedService s (fst c) True) cs ?d =
      (?d\<lparr>fd_observer := (fd_observer ?d)\<lparr>ob_services := m\<rparr>\<rparr>, Inr ()) \<and> map_ok m \<and>
    (\<forall>k'. k' \<noteq> k \<longrightarrow> map_get m k' = map_get (ob_services (fd_observer ?d)) k')"
    using Cons.prems by (intro Cons.IH) (auto simp: FICChangeService_def map_ok_put)
  moreover have "eachS (\<lambda>c. UpdateListedService s (fst c) True) (c # cs) d = eachS (\<lambda>c. UpdateListedService s (fst c) True) cs ?d"
    using ls by (simp add: UpdateListedService_def)
  ultimately show ?case
    using ls Cons.prems(2) by (simp add: FICChangeService_def map_get_put)
qed

lemma UpdateService_effect:
  assumes s: "service_ok sid s" and m: "map_ok (ob_services (fd_observer d))"
  shows "\<exists>m. UpdateService s d = (d\<lparr>fd_observer := (fd_observer d)\<lparr>ob_services := m\<rparr>\<rparr>, Inr ()) \<and> map_ok m \<and>
    (\<forall>k. map_get m k = (if service_complete s \<and> k = uint sid then (case listing d s of Inr ls \<Rightarrow> Some ls | Inl _ \<Rightarrow> None)
                         else map_get (ob_services (fd_observer d)) k))"
proof (cases "service_complete s")
  case False
  then show ?thesis
    using m by (intro exI [of _ "ob_services (fd_observer d)"]) (auto simp: UpdateService_def service_complete_def)
next
  case True
  let ?cs = "filter (\<lambda>c. snd c \<noteq> sv_pri_comp_subchid s \<and> map_get (sv_audio_comps s) (snd c) \<noteq> None) (sv_comp_defs s)"
  have "\<exists>ls. assemble_listed (fd_subchannels d) s (fst c) True = Inr ls \<and> ls_sid ls = uint sid" if "c \<in> set ?cs" for c
  proof (rule assemble_listed_ok [OF s True])
    have "map_get (sv_comp_defs s) (fst c) = Some (snd c)"
      using that s by (intro map_mem_get) (auto simp: service_ok_def)
    then show "fst c = -1 \<or> (\<exists>v. map_get (sv_comp_defs s) (fst c) = Some v \<and> map_get (sv_audio_comps s) v \<noteq> None)"
      using that by auto
  qed
  with each_listed [of ?cs d s "uint sid"] m obtain m1 where
    m1: "eachS (\<lambda>c. UpdateListedService s (fst c) True) ?cs d = (d\<lparr>fd_observer := (fd_observer d)\<lparr>ob_services := m1\<rparr>\<rparr>, Inr ())"
      "map_ok m1" "\<And>k. k \<noteq> uint sid \<Longrightarrow> map_get m1 k = map_get (ob_services (fd_observer d)) k" by blast
  from s True obtain ls where ls: "listing d s = Inr ls" "ls_sid ls = uint sid" by (rule listing_exists)
  have sec: "(?cs \<noteq> []) = has_secondary s" by (auto simp: has_secondary_def filter_empty_conv)
  have "UpdateService s d = (d\<lparr>fd_observer := (fd_observer d)\<lparr>ob_services := map_put (uint sid) ls m1\<rparr>\<rparr>, Inr ())"
    using True m1(1) ls sec
    by (simp add: UpdateService_def service_complete_def Let_def UpdateListedService_def listing_def FICChangeService_def)
  then show ?thesis
    using m1 ls True by (intro exI [of _ "map_put (uint sid) ls m1"]) (simp add: map_ok_put map_get_put)
qed

section \<open>Changes of a service\<close>

lemma uint_u16_eq: "uint (a :: u16) = uint b \<longleftrightarrow> a = b"
  by (rule word_uint_eq_iff [symmetric])

lemma uint_not_none [simp]: "uint (a :: 'a::len word) \<noteq> -1"
proof -
  have "0 \<le> uint a" by simp
  then show ?thesis by linarith
qed

lemma wf_observer: "decoder_wf d \<Longrightarrow> map_ok m \<Longrightarrow> decoder_wf (d\<lparr>fd_observer := (fd_observer d)\<lparr>ob_services := m\<rparr>\<rparr>)"
  by (simp add: decoder_wf_def)

lemma wf_put_service: "decoder_wf d \<Longrightarrow> service_ok sid s \<Longrightarrow> decoder_wf (put_service sid s d)"
  by (auto simp: decoder_wf_def put_service_def map_ok_put map_get_put)

lemma listing_observer: "listing (d\<lparr>fd_observer := obs\<rparr>) s = listing d s"
  by (simp add: listing_def)

lemma listing_put_service: "listing (put_service sid s' d) s = listing d s"
  by (simp add: listing_def put_service_def)

lemma update_service_syncs:
  assumes wf: "decoder_wf d" and sync: "sync_except X d" and s: "map_get (fd_services d) sid = Some s"
  shows "keepsS fic_ub (\<lambda>_ d'. decoder_wf d' \<and> fd_services d' = fd_services d \<and> sync_except (X - {s}) d') (UpdateService s d)"
proof -
  have ok: "service_ok sid s" "map_ok (ob_services (fd_observer d))"
    using wf s by (auto simp: decoder_wf_def)
  from UpdateService_effect [OF this] obtain m where
    m: "UpdateService s d = (d\<lparr>fd_observer := (fd_observer d)\<lparr>ob_services := m\<rparr>\<rparr>, Inr ())" "map_ok m"
    "\<And>k. map_get m k = (if service_complete s \<and> k = uint sid then (case listing d s of Inr ls \<Rightarrow> Some ls | Inl _ \<Rightarrow> None)
                         else map_get (ob_services (fd_observer d)) k)" by blast
  have "sync_except (X - {s}) (d\<lparr>fd_observer := (fd_observer d)\<lparr>ob_services := m\<rparr>\<rparr>)"
    unfolding sync_except_def
  proof (intro allI impI)
    fix k ls
    assume "map_get (ob_services (fd_observer (d\<lparr>fd_observer := (fd_observer d)\<lparr>ob_services := m\<rparr>\<rparr>))) k = Some ls"
    then have k: "map_get m k = Some ls" by simp
    show "\<exists>sid s'. map_get (fd_services (d\<lparr>fd_observer := (fd_observer d)\<lparr>ob_services := m\<rparr>\<rparr>)) sid = Some s' \<and> uint sid = k \<and>
        service_complete s' \<and> (s' \<notin> X - {s} \<longrightarrow> listing (d\<lparr>fd_observer := (fd_observer d)\<lparr>ob_services := m\<rparr>\<rparr>) s' = Inr ls)"
    proof (cases "service_complete s \<and> k = uint sid")
      case True
      then have "listing d s = Inr ls" using k m(3) by (auto split: sum.splits)
      then show ?thesis using True s by (intro exI [of _ sid] exI [of _ s]) (simp add: listing_observer)
    next
      case False
      then have "map_get (ob_services (fd_observer d)) k = Some ls" using k m(3) by metis
      with sync obtain sid' s' where s': "map_get (fd_services d) sid' = Some s'" "uint sid' = k" "service_complete s'"
        "s' \<notin> X \<longrightarrow> listing d s' = Inr ls" unfolding sync_except_def by blast
      have "s' \<noteq> s"
      proof
        assume "s' = s"
        with s'(1) s have "service_ok sid s" "service_ok sid' s" using wf by (simp_all add: decoder_wf_def)
        then have "uint sid' = uint sid" unfolding service_ok_def by metis
        then show False using False s' \<open>s' = s\<close> by simp
      qed
      with s' show ?thesis by (intro exI [of _ sid'] exI [of _ s']) (simp add: listing_observer)
    qed
  qed
  then show ?thesis using m(1,2) wf by (simp add: keepsS_def wf_observer)
qed

text \<open>
  A handler puts a changed service and updates it. Nothing becomes incomplete, so an entry of the
  service is replaced.
\<close>

lemma GetService_ok: "decoder_wf d \<Longrightarrow> service_ok sid (GetService sid d)"
proof (cases "map_get (fd_services d) sid")
  case None
  then show ?thesis
    by (simp add: GetService_def map_val_def FIC_SERVICE_def service_ok_def map_ok_def map_get_def)
next
  case (Some s)
  assume "decoder_wf d"
  with Some have s: "service_ok sid s" by (simp add: decoder_wf_def)
  then have "sv_sid s \<noteq> -1" by (simp add: service_ok_def)
  with Some s show ?thesis by (simp add: GetService_def map_val_def)
qed

lemma GetService_known: "decoder_wf d \<Longrightarrow> map_get (fd_services d) sid = Some s \<Longrightarrow> GetService sid d = s"
  by (auto simp: GetService_def map_val_def decoder_wf_def service_ok_def)

lemma put_service_sync:
  assumes wf: "decoder_wf d" and sync: "sync_except {} d" and ok: "service_ok sid s'"
    and mono: "service_complete (GetService sid d) \<Longrightarrow> service_complete s'" and X: "s' = GetService sid d \<or> s' \<in> X"
  shows "sync_except X (put_service sid s' d)"
  unfolding sync_except_def
proof (intro allI impI)
  fix k ls
  assume "map_get (ob_services (fd_observer (put_service sid s' d))) k = Some ls"
  then have "map_get (ob_services (fd_observer d)) k = Some ls" by (simp add: put_service_def)
  with sync obtain sid1 s1 where s1: "map_get (fd_services d) sid1 = Some s1" "uint sid1 = k" "service_complete s1" "listing d s1 = Inr ls"
    unfolding sync_except_def by blast
  have svc: "map_get (fd_services (put_service sid s' d)) j = (if j = sid then Some s' else map_get (fd_services d) j)" for j
    using wf by (simp add: put_service_def map_get_put decoder_wf_def)
  show "\<exists>sid1 s1. map_get (fd_services (put_service sid s' d)) sid1 = Some s1 \<and> uint sid1 = k \<and> service_complete s1 \<and>
      (s1 \<notin> X \<longrightarrow> listing (put_service sid s' d) s1 = Inr ls)"
  proof (cases "sid1 = sid")
    case True
    then have "GetService sid d = s1" using GetService_known [OF wf] s1(1) by simp
    then show ?thesis using True s1 mono X by (intro exI [of _ sid] exI [of _ s']) (auto simp: svc listing_put_service)
  next
    case False
    then show ?thesis using s1 by (intro exI [of _ sid1] exI [of _ s1]) (simp add: svc listing_put_service)
  qed
qed

lemma same_service:
  assumes "fic_ok d"
  shows "keepsS fic_ub (\<lambda>_. fic_ok) (put_service sid (GetService sid d) d, Inr ())"
  using assms GetService_ok [of d sid]
  by (auto intro!: keepsS_ret wf_put_service put_service_sync simp: fic_ok_def)

lemma changed_service:
  assumes d: "fic_ok d" and ok: "service_ok sid s'" and mono: "service_complete (GetService sid d) \<Longrightarrow> service_complete s'"
  shows "keepsS fic_ub (\<lambda>_. fic_ok) (UpdateService s' (put_service sid s' d))"
proof -
  let ?d = "put_service sid s' d"
  have wf: "decoder_wf ?d" using d ok by (simp add: wf_put_service fic_ok_def)
  have "sync_except {s'} ?d"
    using d ok mono by (intro put_service_sync) (auto simp: fic_ok_def)
  moreover have "map_get (fd_services ?d) sid = Some s'"
    using d by (simp add: put_service_def map_get_put fic_ok_def decoder_wf_def)
  ultimately show ?thesis
    using update_service_syncs [OF wf, of "{s'}" sid s'] by (auto elim!: keepsS_weaken simp: fic_ok_def)
qed

section \<open>Updates of several services\<close>

lemma update_services_syncs:
  assumes wf: "decoder_wf d" and sync: "sync_except {s. P s} d"
  shows "keepsS fic_ub (\<lambda>_. fic_ok) (update_services P d)"
proof -
  have *: "keepsS fic_ub (\<lambda>_. fic_ok) (eachS UpdateService ss d)"
    if "decoder_wf d" "sync_except (set ss) d" "\<forall>s \<in> set ss. \<exists>sid. map_get (fd_services d) sid = Some s" for ss d
    using that
  proof (induction ss arbitrary: d)
    case Nil
    then show ?case by (simp add: keepsS_ret fic_ok_def)
  next
    case (Cons s ss)
    from Cons.prems(3) obtain sid where "map_get (fd_services d) sid = Some s" by auto
    from update_service_syncs [OF Cons.prems(1,2) this]
    have 1: "keepsS fic_ub (\<lambda>_ d'. decoder_wf d' \<and> fd_services d' = fd_services d \<and> sync_except (set ss) d') (UpdateService s d)"
      by (rule keepsS_weaken) (unfold sync_except_def, fastforce)
    show ?case
      unfolding eachS.simps
      by (rule keepsS_bind [OF 1], rule Cons.IH) (use Cons.prems(3) in auto)
  qed
  have m: "map_ok (fd_services d)" using wf by (simp add: decoder_wf_def)
  show ?thesis
    unfolding update_services_def
  proof (rule * [OF wf])
    show "\<forall>s \<in> set (filter P (map snd (fd_services d))). \<exists>sid. map_get (fd_services d) sid = Some s"
    proof
      fix s
      assume "s \<in> set (filter P (map snd (fd_services d)))"
      then obtain sid where "(sid, s) \<in> set (fd_services d)" by auto
      then show "\<exists>sid. map_get (fd_services d) sid = Some s" using map_mem_get [OF m] by blast
    qed
    show "sync_except (set (filter P (map snd (fd_services d)))) d"
      unfolding sync_except_def
    proof (intro allI impI)
      fix k ls
      assume "map_get (ob_services (fd_observer d)) k = Some ls"
      with sync obtain sid s where s: "map_get (fd_services d) sid = Some s" "uint sid = k" "service_complete s"
        "s \<notin> {s. P s} \<longrightarrow> listing d s = Inr ls" unfolding sync_except_def by blast
      have "s \<in> snd ` set (fd_services d)" using map_get_mem [OF s(1)] by force
      with s show "\<exists>sid s. map_get (fd_services d) sid = Some s \<and> uint sid = k \<and> service_complete s \<and>
          (s \<notin> set (filter P (map snd (fd_services d))) \<longrightarrow> listing d s = Inr ls)" by auto
    qed
  qed
qed

text \<open>Only the observer changes, and nothing goes wrong.\<close>

lemma update_services_frame:
  assumes "decoder_wf d"
  shows "\<exists>obs. update_services P d = (d\<lparr>fd_observer := obs\<rparr>, Inr ())"
proof -
  have "\<exists>obs. eachS UpdateService ss d = (d\<lparr>fd_observer := obs\<rparr>, Inr ())"
    if "\<forall>s \<in> set ss. \<exists>sid. service_ok sid s" and "map_ok (ob_services (fd_observer d))" for ss and d :: fic_decoder
    using that
  proof (induction ss arbitrary: d)
    case Nil
    then show ?case by (intro exI [of _ "fd_observer d"]) simp
  next
    case (Cons s ss)
    from Cons.prems(1) obtain sid where "service_ok sid s" by auto
    from UpdateService_effect [OF this Cons.prems(2)] obtain m where
      m: "UpdateService s d = (d\<lparr>fd_observer := (fd_observer d)\<lparr>ob_services := m\<rparr>\<rparr>, Inr ())" "map_ok m" by blast
    with Cons.IH [of "d\<lparr>fd_observer := (fd_observer d)\<lparr>ob_services := m\<rparr>\<rparr>"] Cons.prems show ?case by auto
  qed
  moreover have "\<exists>sid. service_ok sid s" if "s \<in> set (filter P (map snd (fd_services d)))" for s
  proof -
    from that obtain sid where "(sid, s) \<in> set (fd_services d)" by auto
    with assms show ?thesis unfolding decoder_wf_def by (metis map_mem_get)
  qed
  ultimately show ?thesis using assms unfolding update_services_def decoder_wf_def by blast
qed

lemma UpdateEnsemble_ok:
  assumes "decoder_wf d" and "sync_except X d"
  shows "decoder_wf (UpdateEnsemble d)" and "sync_except X (UpdateEnsemble d)"
  using assms
  by (auto simp: UpdateEnsemble_def FICChangeEnsemble_def Let_def decoder_wf_def sync_except_def listing_def map_ok_def map_get_def)

lemma ensemble_irrelevant:
  assumes "decoder_wf d" and "sync_except X d" and "map_ok (en_asw_clusters e)"
  shows "decoder_wf (d\<lparr>fd_ensemble := e\<rparr>)" and "sync_except X (d\<lparr>fd_ensemble := e\<rparr>)"
  using assms by (auto simp: decoder_wf_def sync_except_def listing_def)

text \<open>A subchannel matters to the services that have it among their audio components only.\<close>

lemma put_subchannel_sync:
  assumes d: "fic_ok d"
  shows "decoder_wf (put_subchannel subchid sc d)"
    and "sync_except {s. map_get (sv_audio_comps s) subchid \<noteq> None} (put_subchannel subchid sc d)"
proof -
  show "decoder_wf (put_subchannel subchid sc d)"
    using d by (auto simp: fic_ok_def decoder_wf_def put_subchannel_def map_ok_put)
  have "listing (put_subchannel subchid sc d) s = listing d s"
    if s: "service_ok sid s" "service_complete s" "map_get (sv_audio_comps s) subchid = None" for sid s
  proof -
    obtain a where a: "map_get (sv_audio_comps s) (sv_pri_comp_subchid s) = Some a" "au_subchid a = sv_pri_comp_subchid s"
      using s by (auto simp: service_complete_def elim: primary_found)
    with s(3) have "au_subchid a \<noteq> subchid" by auto
    then have "map_val FIC_SUBCHANNEL (fd_subchannels (put_subchannel subchid sc d)) (au_subchid a) =
        map_val FIC_SUBCHANNEL (fd_subchannels d) (au_subchid a)"
      using d by (simp add: map_val_def put_subchannel_def map_get_put fic_ok_def decoder_wf_def)
    then show ?thesis by (simp add: listing_def assemble_listed_def map_at_def a)
  qed
  moreover have "fd_services (put_subchannel subchid sc d) = fd_services d" "fd_observer (put_subchannel subchid sc d) = fd_observer d"
    by (simp_all add: put_subchannel_def)
  moreover have "service_ok sid s" if "map_get (fd_services d) sid = Some s" for sid s
    using d that by (simp add: fic_ok_def decoder_wf_def)
  ultimately show "sync_except {s. map_get (sv_audio_comps s) subchid \<noteq> None} (put_subchannel subchid sc d)"
    using d unfolding fic_ok_def sync_except_def by (metis (mono_tags, lifting) empty_iff mem_Collect_eq)
qed

section \<open>The groups\<close>

text \<open>Reads and conversions fail with a kind of undefined behaviour that is allowed.\<close>

lemma rd_ub: "rd xs i = Inl e \<Longrightarrow> e = UndefinedBehaviour ''read''"
  by (auto simp: rd_def split: if_splits)

lemma memread_ub: "memread xs i n = Inl e \<Longrightarrow> e = UndefinedBehaviour ''read''"
  by (auto simp: memread_def split: if_splits)

lemma read_16b_ub: "read_16b xs i = Inl e \<Longrightarrow> e = UndefinedBehaviour ''read''"
  by (auto simp: read_16b_def bindE_def split: sum.splits dest: rd_ub)

lemma read_bytes_ub: "read_bytes xs i n = Inl e \<Longrightarrow> e = UndefinedBehaviour ''read''"
  by (auto simp: read_bytes_def split: if_splits dest: memread_ub)

lemma read_subchannel_ub: "read_subchannel data off = Inl e \<Longrightarrow> e = UndefinedBehaviour ''read''"
  by (auto simp: read_subchannel_def bindE_def Let_def split: sum.splits if_splits dest: rd_ub)

lemma read_subchannel_advance: "read_subchannel data off = Inr (subchid, sc, n) \<Longrightarrow> 0 < n"
  by (auto simp: read_subchannel_def bindE_def Let_def split: sum.splits if_splits)

lemma convert_chars_ub: "convert_chars cs acc = Inl e \<Longrightarrow> e = UndefinedBehaviour ''read''"
  by (induction cs arbitrary: acc)
    (auto simp: bindE_def ConvertCharEBUToUTF8_def split: sum.splits if_splits dest: rd_ub)

lemma ConvertLabel_ub: "ConvertLabelToUTF8 l = Inl e \<Longrightarrow> \<exists>k. e = UndefinedBehaviour k \<and> fic_ub k"
  by (auto simp: ConvertLabelToUTF8_def ConvertTextToUTF8_def bindE_def Let_def fic_ub_def
      split: sum.splits if_splits dest: convert_chars_ub)

lemma derive_chars_ub: "derive_chars l m is acc = Inl e \<Longrightarrow> e = UndefinedBehaviour ''shift''"
  by (induction "is" arbitrary: acc) (auto split: if_splits)

lemma fib_checkCRC_ub: "fib_checkCRC data n = Inl e \<Longrightarrow> e = UndefinedBehaviour ''read''"
  by (auto simp: fib_checkCRC_def bindE_def split: sum.splits dest: read_16b_ub memread_ub)

definition read_fails :: "'a result \<Rightarrow> bool" where
  "read_fails r = (\<forall>e. r = Inl e \<longrightarrow> e = UndefinedBehaviour ''read'')"

lemma read_fails [simp]:
  "read_fails (rd xs i)" "read_fails (read_16b data i)" "read_fails (memread xs i n)"
  "read_fails (read_bytes data i n)" "read_fails (read_subchannel data i)" "read_fails (fib_checkCRC data n)"
  by (auto simp: read_fails_def dest: rd_ub read_16b_ub memread_ub read_bytes_ub read_subchannel_ub fib_checkCRC_ub)

lemma keeps_read:
  assumes "read_fails r" and "\<And>x. r = Inr x \<Longrightarrow> keepsS fic_ub Q (f x)"
  shows "keepsS fic_ub Q (needS r s f)"
  using assms by (intro keepsS_need) (auto simp: fic_ub_def read_fails_def)

lemma keeps_state: "fic_ok d \<Longrightarrow> keepsS fic_ub (\<lambda>_. fic_ok) (d, Inr x)"
  by (simp add: keepsS_ret)

lemma keeps_advance: "fic_ok d \<Longrightarrow> 0 < n \<Longrightarrow> keepsS fic_ub (\<lambda>n s. 0 < n \<and> fic_ok s) (d, Inr n)"
  by (simp add: keepsS_ret)

lemma changed_subchannel: "fic_ok d \<Longrightarrow> keepsS fic_ub (\<lambda>_. fic_ok) (UpdateSubchannel subchid (put_subchannel subchid sc d))"
  unfolding UpdateSubchannel_def by (intro update_services_syncs put_subchannel_sync)

lemma same_subchannel:
  assumes "fic_ok d"
  shows "keepsS fic_ub (\<lambda>_. fic_ok) (put_subchannel subchid (GetSubchannel subchid d) d, Inr ())"
proof (rule keepsS_ret)
  have "map_val FIC_SUBCHANNEL (map_put subchid (GetSubchannel subchid d) (fd_subchannels d)) k =
      map_val FIC_SUBCHANNEL (fd_subchannels d) k" for k
    using assms by (simp add: map_val_def map_get_put GetSubchannel_def fic_ok_def decoder_wf_def)
  then have "listing (put_subchannel subchid (GetSubchannel subchid d) d) s = listing d s" for s
    by (simp add: listing_def assemble_listed_def put_subchannel_def)
  moreover have "decoder_wf (put_subchannel subchid (GetSubchannel subchid d) d)"
    using assms by (rule put_subchannel_sync)
  ultimately show "fic_ok (put_subchannel subchid (GetSubchannel subchid d) d)"
    using assms by (simp add: fic_ok_def sync_except_def put_subchannel_def)
qed

lemma store_subchannel_keeps: "fic_ok d \<Longrightarrow> keepsS fic_ub (\<lambda>_. fic_ok) (store_subchannel subchid sc d)"
  by (simp add: store_subchannel_def Let_def keeps_state changed_subchannel same_subchannel)

lemma store_language_keeps: "fic_ok d \<Longrightarrow> keepsS fic_ub (\<lambda>_. fic_ok) (store_language subchid l d)"
  by (simp add: store_language_def Let_def changed_subchannel same_subchannel)

lemma service_ok_intros:
  assumes "service_ok sid s"
  shows "service_ok sid (s\<lparr>sv_pty_static := p\<rparr>)" "service_ok sid (s\<lparr>sv_pty_dynamic := p\<rparr>)"
    "service_ok sid (s\<lparr>sv_asu_flags := fl, sv_cids := c\<rparr>)" "service_ok sid (s\<lparr>sv_label := l\<rparr>)"
    "service_ok sid (s\<lparr>sv_comp_labels := map_put k l (sv_comp_labels s)\<rparr>)"
    "service_ok sid (s\<lparr>sv_comp_sls_uas := map_put k u (sv_comp_sls_uas s)\<rparr>)"
    "k \<noteq> -1 \<Longrightarrow> service_ok sid (s\<lparr>sv_comp_defs := map_put k v (sv_comp_defs s)\<rparr>)"
    "service_ok sid (s\<lparr>sv_audio_comps := map_put k \<lparr>au_subchid = k, au_dab_plus = b\<rparr> (sv_audio_comps s)\<rparr>)"
    "service_ok sid (s\<lparr>sv_audio_comps := map_put k \<lparr>au_subchid = k, au_dab_plus = b\<rparr> (sv_audio_comps s), sv_pri_comp_subchid := k\<rparr>)"
  using assms by (auto simp: service_ok_def map_ok_put map_get_put)

lemma store_component_keeps:
  assumes d: "fic_ok d" and id: "subchid \<noteq> -1"
  shows "keepsS fic_ub (\<lambda>_. fic_ok) (store_component sid subchid ps dab_plus d)"
proof -
  have ok: "service_ok sid (GetService sid d)" using d by (simp add: fic_ok_def GetService_ok)
  let ?s = "GetService sid d"
  let ?m = "map_put subchid \<lparr>au_subchid = subchid, au_dab_plus = dab_plus\<rparr> (sv_audio_comps ?s)"
  have new: "keepsS fic_ub (\<lambda>_. fic_ok) (UpdateService s' (put_service sid s' d))"
    if "s' = ?s\<lparr>sv_audio_comps := ?m\<rparr> \<or> s' = ?s\<lparr>sv_audio_comps := ?m, sv_pri_comp_subchid := subchid\<rparr>" for s'
    using that by (elim disjE) (auto intro!: changed_service d service_ok_intros ok simp: service_complete_def id)
  show ?thesis
  proof (cases "map_get (sv_audio_comps ?s) subchid")
    case None
    then have "map_val AUDIO_SERVICE (sv_audio_comps ?s) subchid \<noteq> \<lparr>au_subchid = subchid, au_dab_plus = dab_plus\<rparr>"
      using id by (simp add: map_val_def AUDIO_SERVICE_def)
    then show ?thesis using new by (simp add: store_component_def Let_def)
  next
    case (Some a)
    then have "?s\<lparr>sv_audio_comps := map_put subchid a (sv_audio_comps ?s)\<rparr> = ?s"
      using ok by (simp add: map_put_same service_ok_def)
    then have "keepsS fic_ub (\<lambda>_. fic_ok) (put_service sid (?s\<lparr>sv_audio_comps := map_put subchid a (sv_audio_comps ?s)\<rparr>) d, Inr ())"
      using same_service [OF d] by simp
    then show ?thesis using Some new by (auto simp: store_component_def Let_def map_val_def)
  qed
qed

lemma store_definition_keeps: "fic_ok d \<Longrightarrow> scids \<noteq> -1 \<Longrightarrow> keepsS fic_ub (\<lambda>_. fic_ok) (store_definition sid scids subchid d)"
  by (auto simp: store_definition_def Let_def service_complete_def fic_ok_def [of d] GetService_ok
      intro!: changed_service same_service service_ok_intros)

lemma store_application_keeps: "fic_ok d \<Longrightarrow> keepsS fic_ub (\<lambda>_. fic_ok) (store_application data sid scids off n d)"
  by (auto simp: store_application_def Let_def service_complete_def fic_ok_def [of d] GetService_ok
      intro!: changed_service same_service service_ok_intros keeps_read)

lemma store_pty_keeps: "fic_ok d \<Longrightarrow> keepsS fic_ub (\<lambda>_. fic_ok) (store_pty sid sd pty d)"
  by (auto simp: store_pty_def Let_def service_complete_def fic_ok_def [of d] GetService_ok
      intro!: changed_service same_service service_ok_intros)

lemma store_announcements_keeps: "fic_ok d \<Longrightarrow> keepsS fic_ub (\<lambda>_. fic_ok) (store_announcements sid flags cids d)"
  by (auto simp: store_announcements_def Let_def service_complete_def fic_ok_def [of d] GetService_ok
      intro!: changed_service same_service service_ok_intros)

lemma label_keeps: "fic_ok d \<Longrightarrow> fl_charset l \<noteq> -1 \<Longrightarrow> keepsS fic_ub (\<lambda>_. fic_ok) (ProcessFIG1_1 sid l d)"
  by (auto simp: ProcessFIG1_1_def Let_def service_complete_def fic_ok_def [of d] GetService_ok
      intro!: changed_service same_service service_ok_intros)

lemma component_label_keeps:
  assumes "fic_ok d" and "fl_charset l \<noteq> -1"
  shows "keepsS fic_ub (\<lambda>_. fic_ok) (ProcessFIG1_4 sid scids l d)"
proof -
  let ?s = "GetService sid d"
  have ok: "service_ok sid ?s" using assms(1) by (simp add: fic_ok_def GetService_ok)
  let ?l = "map_val FIC_LABEL (sv_comp_labels ?s) scids"
  have "?s\<lparr>sv_comp_labels := map_put scids ?l (sv_comp_labels ?s)\<rparr> = ?s" if "?l = l"
  proof -
    have "map_get (sv_comp_labels ?s) scids = Some ?l"
      using that assms(2) by (auto simp: map_val_def FIC_LABEL_def split: option.splits)
    then show ?thesis using ok by (simp add: map_put_same service_ok_def)
  qed
  then show ?thesis
    using same_service [OF assms(1), of sid] assms(1) ok
    by (auto simp: ProcessFIG1_4_def Let_def service_complete_def intro!: changed_service service_ok_intros)
qed

lemma ensemble_change:
  assumes "fic_ok d" and "map_ok (en_asw_clusters e)"
  shows "decoder_wf (UpdateEnsemble (d\<lparr>fd_ensemble := e\<rparr>))" and "sync_except X (UpdateEnsemble (d\<lparr>fd_ensemble := e\<rparr>))"
proof -
  have "sync_except X d" using assms(1) by (simp add: fic_ok_def sync_except_def) blast
  with assms show "decoder_wf (UpdateEnsemble (d\<lparr>fd_ensemble := e\<rparr>))" and "sync_except X (UpdateEnsemble (d\<lparr>fd_ensemble := e\<rparr>))"
    by (auto intro!: UpdateEnsemble_ok ensemble_irrelevant simp: fic_ok_def)
qed

lemma clusters_ok: "fic_ok d \<Longrightarrow> map_ok (en_asw_clusters (fd_ensemble d))"
  by (simp add: fic_ok_def decoder_wf_def)

lemma store_cluster_keeps:
  assumes "fic_ok d"
  shows "keepsS fic_ub (\<lambda>_. fic_ok) (store_cluster cid ac d)"
proof -
  let ?e = "\<lambda>ac. (fd_ensemble d)\<lparr>en_asw_clusters := map_put cid ac (en_asw_clusters (fd_ensemble d))\<rparr>"
  have e: "map_ok (en_asw_clusters (?e a))" for a using assms by (simp add: clusters_ok map_ok_put)
  have "fic_ok (d\<lparr>fd_ensemble := ?e a\<rparr>)" for a
    using assms e by (auto simp: fic_ok_def intro!: ensemble_irrelevant)
  then show ?thesis
    using ensemble_change [OF assms e]
    by (auto simp: store_cluster_def Let_def keeps_state intro!: update_services_syncs)
qed

lemma ensemble_state: "fic_ok d \<Longrightarrow> map_ok (en_asw_clusters e) \<Longrightarrow> fic_ok (UpdateEnsemble (d\<lparr>fd_ensemble := e\<rparr>))"
  by (simp add: fic_ok_def [of "UpdateEnsemble d" for d] ensemble_change)

named_theorems keeps "the operations keep the invariant"

lemmas [keeps] = store_subchannel_keeps store_language_keeps store_component_keeps store_definition_keeps
  store_application_keeps store_pty_keeps store_announcements_keeps store_cluster_keeps label_keeps
  component_label_keeps keeps_state keeps_advance ensemble_state

lemma fig0_0_keeps [keeps]:
  assumes "fic_ok d"
  shows "keepsS fic_ub (\<lambda>_. fic_ok) (ProcessFIG0_0 data len d)"
  unfolding ProcessFIG0_0_def Let_def
  using assms clusters_ok [OF assms] by (auto intro!: keeps_read keeps_state ensemble_state simp del: fic_decoder.simps)

lemma keeps_body:
  assumes "keepsS fic_ub (\<lambda>_. fic_ok) m" and "0 < n"
  shows "keepsS fic_ub (\<lambda>n s. 0 < n \<and> fic_ok s) (bindS m (\<lambda>d _. (d, Inr n)))"
  using assms(1) by (rule keepsS_bind) (simp add: keepsS_ret assms(2))

lemma fig0_1_keeps [keeps]: "fic_ok d \<Longrightarrow> keepsS fic_ub (\<lambda>_. fic_ok) (ProcessFIG0_1 data len d)"
  unfolding ProcessFIG0_1_def
  by (auto intro!: keepsS_loop keeps_read keeps_body keeps dest: read_subchannel_advance)

lemma fig0_2_component_keeps [keeps]: "fic_ok d \<Longrightarrow> keepsS fic_ub (\<lambda>_. fic_ok) (fig0_2_component data sid off d)"
  unfolding fig0_2_component_def Let_def by (auto intro!: keeps_read keeps)

lemma fig0_2_keeps [keeps]: "fic_ok d \<Longrightarrow> keepsS fic_ub (\<lambda>_. fic_ok) (ProcessFIG0_2 data len d)"
  unfolding ProcessFIG0_2_def Let_def by (auto intro!: keepsS_loop keeps_read keeps_body keepsS_each keeps)

lemma fig0_5_keeps [keeps]: "fic_ok d \<Longrightarrow> keepsS fic_ub (\<lambda>_. fic_ok) (ProcessFIG0_5 data len d)"
  unfolding ProcessFIG0_5_def by (auto intro!: keepsS_loop keeps_read keeps_body keeps)

lemma fig0_8_keeps [keeps]: "fic_ok d \<Longrightarrow> keepsS fic_ub (\<lambda>_. fic_ok) (ProcessFIG0_8 data len d)"
  unfolding ProcessFIG0_8_def Let_def by (auto intro!: keepsS_loop keeps_read keeps_body keeps)

lemma fig0_9_keeps [keeps]:
  assumes "fic_ok d"
  shows "keepsS fic_ub (\<lambda>_. fic_ok) (ProcessFIG0_9 data len d)"
  unfolding ProcessFIG0_9_def Let_def
  using assms clusters_ok [OF assms]
  by (auto intro!: keeps_read keeps_state update_services_syncs ensemble_change simp del: fic_decoder.simps)

lemma fig0_10_keeps [keeps]: "fic_ok d \<Longrightarrow> keepsS fic_ub (\<lambda>_. fic_ok) (ProcessFIG0_10 data len d)"
  unfolding ProcessFIG0_10_def Let_def case_prod_unfold
  by (auto intro!: keeps_read keepsS_ret
      simp: fic_ok_def decoder_wf_def sync_except_def FICChangeUTCDateTime_def listing_def)

lemma fig0_13_applications_keeps:
  "fic_ok d \<Longrightarrow> keepsS fic_ub (\<lambda>n s. off \<le> n \<and> fic_ok s) (fig0_13_applications data sid scids num off d)"
proof (induction num arbitrary: off d)
  case (Suc num)
  show ?case
    unfolding fig0_13_applications.simps Let_def
    by (intro keeps_read read_fails keepsS_bind [where Q = "\<lambda>_. fic_ok"])
      (auto intro!: keeps Suc.prems elim!: keepsS_weaken [OF Suc.IH])
qed (simp add: keepsS_ret)

lemma fig0_13_keeps [keeps]: "fic_ok d \<Longrightarrow> keepsS fic_ub (\<lambda>_. fic_ok) (ProcessFIG0_13 data len d)"
  unfolding ProcessFIG0_13_def
  by (auto intro!: keepsS_loop keeps_read keepsS_bind [OF fig0_13_applications_keeps] keeps_advance)

lemma fig0_17_keeps [keeps]: "fic_ok d \<Longrightarrow> keepsS fic_ub (\<lambda>_. fic_ok) (ProcessFIG0_17 data len d)"
  unfolding ProcessFIG0_17_def Let_def by (auto intro!: keepsS_loop keeps_read keeps_body keeps)

lemma fig0_18_keeps [keeps]: "fic_ok d \<Longrightarrow> keepsS fic_ub (\<lambda>_. fic_ok) (ProcessFIG0_18 data len d)"
  unfolding ProcessFIG0_18_def Let_def by (auto intro!: keepsS_loop keeps_read keeps_body keeps)

lemma fig0_19_keeps [keeps]: "fic_ok d \<Longrightarrow> keepsS fic_ub (\<lambda>_. fic_ok) (ProcessFIG0_19 data len d)"
  unfolding ProcessFIG0_19_def by (auto intro!: keepsS_loop keeps_read keeps_body keeps)

lemma fig0_keeps [keeps]: "fic_ok d \<Longrightarrow> keepsS fic_ub (\<lambda>_. fic_ok) (ProcessFIG0 data len d)"
  unfolding ProcessFIG0_def Let_def by (auto intro!: keeps_read keeps)

lemma fl_charset_none: "fl_charset \<lparr>fl_charset = uint (c :: u8), fl_label = l, fl_short_label_mask = m\<rparr> \<noteq> -1"
  by simp

lemma fig1_0_keeps [keeps]:
  assumes "fic_ok d"
  shows "keepsS fic_ub (\<lambda>_. fic_ok) (ProcessFIG1_0 l d)"
proof -
  have "fic_ok (UpdateEnsemble (d\<lparr>fd_ensemble := (fd_ensemble d)\<lparr>en_label := l\<rparr>\<rparr>))"
    using assms by (intro ensemble_state) (simp_all add: clusters_ok)
  then show ?thesis
    unfolding ProcessFIG1_0_def Let_def
    by (auto intro!: keepsS_need keepsS_ret assms dest: ConvertLabel_ub
        simp: DeriveShortLabelUTF8_def fic_ub_def dest!: derive_chars_ub)
qed

lemma fig1_keeps [keeps]: "fic_ok d \<Longrightarrow> keepsS fic_ub (\<lambda>_. fic_ok) (ProcessFIG1 data len d)"
  unfolding ProcessFIG1_def Let_def by (auto intro!: keeps_read keeps)

section \<open>Blocks\<close>

lemma process_figs_keeps [keeps]: "fic_ok d \<Longrightarrow> keepsS fic_ub (\<lambda>_. fic_ok) (process_figs data off d)"
proof (induction "30 - off" arbitrary: off d rule: less_induct)
  case less
  show ?case
    unfolding process_figs.simps [of data off d] Let_def
    by (auto intro!: keeps_read keepsS_bind [where Q = "\<lambda>_. fic_ok"] keeps less)
qed

lemma ProcessFIB_keeps [keeps]: "fic_ok d \<Longrightarrow> keepsS fic_ub (\<lambda>_. fic_ok) (ProcessFIB data d)"
  unfolding ProcessFIB_def by (auto intro!: keeps_read keeps)

lemma Process_keeps [keeps]: "fic_ok d \<Longrightarrow> keepsS fic_ub (\<lambda>_. fic_ok) (Process data len d)"
  unfolding Process_def by (auto intro!: keepsS_each keeps)

text \<open>
  C13. Over any sequence of fast information channels, whatever their bytes, no exception is raised
  (\<open>std::map::at\<close> finds its key), and every service the observer lists is listed as the decoder's
  present state describes it: no update of a service, component, label or subchannel is missed. The
  only other outcomes are reads past the data and two conversions of an ensemble label.
\<close>

theorem fic_observer_in_sync:
  "case eachS (\<lambda>fic. Process fic (length fic)) fics (FICDecoder junk) of
     (d, Inr _) \<Rightarrow> (\<forall>k ls. map_get (ob_services (fd_observer d)) k = Some ls \<longrightarrow>
        (\<exists>sid s. map_get (fd_services d) sid = Some s \<and> uint sid = k \<and> service_complete s \<and> listing d s = Inr ls))
   | (d, Inl e) \<Rightarrow> e \<in> UndefinedBehaviour ` {''read'', ''shift'', ''&cleaned_data[0]''}"
proof -
  have "keepsS fic_ub (\<lambda>_. fic_ok) (eachS (\<lambda>fic. Process fic (length fic)) fics (FICDecoder junk))"
    by (auto intro!: keepsS_each keeps new_decoder_ok)
  then show ?thesis
  proof (cases rule: keepsS_cases)
    case (1 d x)
    then show ?thesis by (simp add: fic_ok_def sync_except_def)
  next
    case (2 d k)
    then show ?thesis by (auto simp: fic_ub_def)
  qed
qed

text \<open>
  The observer forgets its services when the ensemble's country code becomes known or changes,
  and only services with a programme type are announced again: the others stay complete in the
  decoder but are listed no more, until one of their own fields changes.
\<close>

lemma country_code_drops_services:
  assumes "en_eid (fd_ensemble d) \<noteq> -1" and "fl_charset (en_label (fd_ensemble d)) \<noteq> -1"
    and "ob_ensemble (fd_observer d) = Some e" and "en_ecc e \<noteq> uint (data ! 1)" and "en_ecc (fd_ensemble d) \<noteq> uint (data ! 1)"
    and "3 \<le> len" and "3 \<le> length data"
    and "\<forall>(sid, s) \<in> set (fd_services d). sv_pty_static s = -1 \<and> sv_pty_dynamic s = -1"
  shows "\<exists>d'. ProcessFIG0_9 data len d = (d', Inr ()) \<and> fd_services d' = fd_services d \<and>
    fd_subchannels d' = fd_subchannels d \<and> ob_services (fd_observer d') = []"
proof -
  let ?e = "(fd_ensemble d)\<lparr>en_lto := (if data ! 0 AND 0x20 \<noteq> 0 then -1 else 1) * uint (data ! 0 AND 0x1F),
    en_ecc := uint (data ! 1), en_inter_table_id := uint (data ! 2)\<rparr>"
  let ?d = "UpdateEnsemble (d\<lparr>fd_ensemble := ?e\<rparr>)"
  have ne: "fd_ensemble d \<noteq> ?e"
  proof
    assume "fd_ensemble d = ?e"
    then have "en_ecc (fd_ensemble d) = en_ecc ?e" by (rule arg_cong)
    with assms(5) show False by simp
  qed
  have d: "?d = d\<lparr>fd_ensemble := ?e, fd_observer := (fd_observer d)\<lparr>ob_services := [], ob_ensemble := Some ?e\<rparr>\<rparr>"
    using assms(1-4) by (simp add: UpdateEnsemble_def FICChangeEnsemble_def)
  have rds: "rd data 0 = Inr (data ! 0)" "rd data 1 = Inr (data ! 1)" "rd data 2 = Inr (data ! 2)"
    using assms(7) by (auto simp: rd_def)
  have none: "filter (\<lambda>s. sv_pty_static s \<noteq> -1 \<or> sv_pty_dynamic s \<noteq> -1) (map snd (fd_services ?d)) = []"
    unfolding d using assms(8) by (auto simp: filter_empty_conv)
  have "ProcessFIG0_9 data len d = update_services (\<lambda>s. sv_pty_static s \<noteq> -1 \<or> sv_pty_dynamic s \<noteq> -1) ?d"
    using assms(6) ne unfolding ProcessFIG0_9_def Let_def rds needS_simps by (simp only: not_less [symmetric] if_False if_True simp_thms)
  also have "\<dots> = (?d, Inr ())" unfolding update_services_def none by simp
  finally show ?thesis unfolding d by simp
qed

section \<open>Witnesses\<close>

text \<open>A decoder that got the identifier and label of an ensemble, and one service with its label.\<close>

definition example_label :: fic_label where
  "example_label = \<lparr>fl_charset = 0, fl_label = replicate 16 0x41, fl_short_label_mask = 0xF000\<rparr>"

definition announced_decoder :: fic_decoder where
  "announced_decoder =
     (let d0 = FICDecoder \<lparr>dt_sec = 0, dt_min = 0, dt_hour = 0, dt_mday = 0, dt_mon = 0, dt_year = 0, dt_ms = 0\<rparr>;
          d1 = fst (ProcessFIG0_0 [0x10, 0x01, 0, 0] 4 d0);
          d2 = fst (ProcessFIG1_0 example_label d1);
          d3 = fst (ProcessFIG0_2 [0xD0, 0x01, 0x01, 0x3F, 0x16] 5 d2)
      in fst (ProcessFIG1_1 0xD001 example_label d3))"

lemma announced_facts:
  "en_eid (fd_ensemble announced_decoder) = 0x1001" "en_label (fd_ensemble announced_decoder) = example_label"
  "en_ecc (fd_ensemble announced_decoder) = -1" 
  "map_option en_ecc (ob_ensemble (fd_observer announced_decoder)) = Some (-1)"
  "map (\<lambda>(k, ls). (k, au_subchid (ls_audio_service ls))) (ob_services (fd_observer announced_decoder)) = [(0xD001, 5)]"
  "map (\<lambda>(k, s). (sv_pty_static s, sv_pty_dynamic s)) (fd_services announced_decoder) = [(-1, -1)]"
  by code_simp+

lemma country_code_drops_services_witness:
  "ob_services (fd_observer announced_decoder) \<noteq> [] \<and>
   (\<exists>d'. ProcessFIG0_9 [0x40, 0xE1, 0x01] 3 announced_decoder = (d', Inr ()) \<and>
      fd_services d' = fd_services announced_decoder \<and> ob_services (fd_observer d') = [])"
proof -
  obtain e where e: "ob_ensemble (fd_observer announced_decoder) = Some e" "en_ecc e = -1"
    using announced_facts(4) by auto
  have "\<forall>(sid, s) \<in> set (fd_services announced_decoder). sv_pty_static s = -1 \<and> sv_pty_dynamic s = -1"
    using announced_facts(6) by (auto simp: map_eq_Cons_conv)
  then have "\<exists>d'. ProcessFIG0_9 [0x40, 0xE1, 0x01] 3 announced_decoder = (d', Inr ()) \<and> fd_services d' = fd_services announced_decoder \<and>
      fd_subchannels d' = fd_subchannels announced_decoder \<and> ob_services (fd_observer d') = []"
    using e by (intro country_code_drops_services [where e = e]) (simp_all add: announced_facts example_label_def)
  moreover have "ob_services (fd_observer announced_decoder) \<noteq> []" using announced_facts(5) by auto
  ultimately show ?thesis by blast
qed

text \<open>
  A channel of two blocks: the identifier and the label of the ensemble (FIG 0/0, FIG 1/0), then the
  components and the label of one service (FIG 0/2, FIG 1/1).
\<close>

definition with_check_sum :: "bytes \<Rightarrow> bytes" where
  "with_check_sum bs =
     (let padded = bs @ replicate (30 - length bs) 0xFF; crc = crc16 0xffff padded XOR 0xffff
      in padded @ [ucast (shr crc 8), ucast crc])"

definition example_fic :: bytes where
  "example_fic =
     with_check_sum ([0x05, 0x00, 0x10, 0x01, 0, 0] @ [0x35, 0x00, 0x10, 0x01] @ replicate 16 0x41 @ [0xF0, 0x00]) @
     with_check_sum ([0x06, 0x02, 0xD0, 0x01, 0x01, 0x3F, 0x16] @ [0x35, 0x01, 0xD0, 0x01] @ replicate 16 0x42 @ [0xF0, 0x00])"

definition example_decoder :: "fic_decoder \<times> unit result" where
  "example_decoder = eachS (\<lambda>fic. Process fic (length fic)) [example_fic]
     (FICDecoder \<lparr>dt_sec = 0, dt_min = 0, dt_hour = 0, dt_mday = 0, dt_mon = 0, dt_year = 0, dt_ms = 0\<rparr>)"

lemma example_decoder_facts:
  "snd example_decoder = Inr ()"
  "map (\<lambda>(k, ls). (k, au_subchid (ls_audio_service ls))) (ob_services (fd_observer (fst example_decoder))) = [(0xD001, 5)]"
  by code_simp+

theorem fic_observer_in_sync_witness:
  "\<exists>d ls s. example_decoder = (d, Inr ()) \<and> map_get (ob_services (fd_observer d)) 0xD001 = Some ls \<and>
     map_get (fd_services d) 0xD001 = Some s \<and> service_complete s \<and> listing d s = Inr ls"
proof -
  obtain d where d: "example_decoder = (d, Inr ())" using example_decoder_facts(1) by (metis surjective_pairing)
  obtain ls where ls: "map_get (ob_services (fd_observer d)) 0xD001 = Some ls"
    using example_decoder_facts(2) by (auto simp: d map_eq_Cons_conv map_get_def)
  have "\<exists>sid s. map_get (fd_services d) sid = Some s \<and> uint sid = 0xD001 \<and> service_complete s \<and> listing d s = Inr ls"
    using fic_observer_in_sync [of "[example_fic]" "\<lparr>dt_sec = 0, dt_min = 0, dt_hour = 0, dt_mday = 0, dt_mon = 0, dt_year = 0, dt_ms = 0\<rparr>"] ls
    unfolding example_decoder_def [symmetric] d by simp
  then obtain sid s where s: "map_get (fd_services d) sid = Some s" "uint sid = 0xD001" "service_complete s" "listing d s = Inr ls" by blast
  have "sid = 0xD001" using s(2) by (simp add: word_uint_eq_iff)
  with d ls s show ?thesis by blast
qed

end
