(* ===== verification/Fic_Decoding.thy ===== *)
theory Fic_Decoding
  imports Fic_Consistent
begin

text \<open>
  What the fast information groups mean: the subchannel organisation a multiplexer sends in FIG 0/1
  is what the decoder stores (the encoder here is the inverse of the source's parsing), a block with
  a group that is longer than the block makes the decoder read past its data, and the short label
  consists of the characters its mask selects.
\<close>

section \<open>Bytes\<close>

lemma unat_shr: "unat (shr b k) = unat b div 2 ^ k" for b :: u8
  unfolding shr_def unat_drop_bit_eq by (simp add: drop_bit_eq_div)

lemma unat_field: "unat (shr b k AND mask m) = unat b div 2 ^ k mod 2 ^ m" for b :: u8
  unfolding take_bit_eq_mask [symmetric] unsigned_take_bit_eq unat_shr by (simp add: take_bit_eq_mod)

lemma level_fields:
  fixes pl h :: nat
  assumes "pl < 4" and "h < 4"
  shows "(0x80 + 4 * pl + h) div 16 mod 8 = 0" "(0x80 + 4 * pl + h) div 4 mod 4 = pl" "(0x80 + 4 * pl + h) mod 4 = h"
    "(0x90 + 4 * pl + h) div 16 mod 8 = 1" "(0x90 + 4 * pl + h) div 4 mod 4 = pl" "(0x90 + 4 * pl + h) mod 4 = h"
proof -
  have "pl = 0 \<or> pl = 1 \<or> pl = 2 \<or> pl = 3" and "h = 0 \<or> h = 1 \<or> h = 2 \<or> h = 3" using assms by linarith+
  then show "(0x80 + 4 * pl + h) div 16 mod 8 = 0" "(0x80 + 4 * pl + h) div 4 mod 4 = pl" "(0x80 + 4 * pl + h) mod 4 = h"
    "(0x90 + 4 * pl + h) div 16 mod 8 = 1" "(0x90 + 4 * pl + h) div 4 mod 4 = pl" "(0x90 + 4 * pl + h) mod 4 = h"
    by (elim disjE; simp)+
qed

lemma shr_and: "shr (a AND c) k = shr a k AND shr c k" for a :: u8
  by (rule bit_word_eqI) (auto simp: bit_and_iff)

lemma byte_masks:
  "(0x03 :: u8) = mask 2" "(0x3F :: u8) = mask 6" "(0x1F :: u8) = mask 5" "(0x0F :: u8) = mask 4"
  "(0x80 :: u8) = shl 1 7" "(0x40 :: u8) = shl 1 6" "shr (0x70 :: u8) 4 = mask 3" "shr (0x0C :: u8) 2 = mask 2"
  by code_simp+

lemma bit_of_nat_byte: "n < 256 \<Longrightarrow> bit (of_nat n :: u8) k = odd (n div 2 ^ k)"
proof -
  assume "n < 256"
  then have "unat (of_nat n :: u8) = n" by (simp add: unat_of_nat_small)
  moreover have "bit (unat (of_nat n :: u8)) k = bit (of_nat n :: u8) k" by (simp only: bit_unsigned_iff possible_bit_nat simp_thms)
  ultimately have "bit (of_nat n :: u8) k = bit n k" by simp
  then show ?thesis by (simp add: bit_iff_odd)
qed

lemma byte_fields:
  assumes "n < 256"
  shows "unat (shr (of_nat n :: u8) 2) = n div 4" "unat ((of_nat n :: u8) AND 0x03) = n mod 4"
    "((of_nat n :: u8) AND 0x80 = 0) = (n < 128)" "unat (shr ((of_nat n :: u8) AND 0x70) 4) = n div 16 mod 8"
    "unat (shr ((of_nat n :: u8) AND 0x0C) 2) = n div 4 mod 4" "((of_nat n :: u8) AND 0x40 = 0) = (n div 64 mod 2 = 0)"
    "unat ((of_nat n :: u8) AND 0x3F) = n mod 64" "unat (shr (of_nat n :: u8) 5) = n div 32"
    "unat ((of_nat n :: u8) AND 0x1F) = n mod 32"
proof -
  have u: "unat (of_nat n :: u8) = n" using assms by (simp add: unat_of_nat_small)
  show "unat (shr (of_nat n :: u8) 2) = n div 4" "unat (shr (of_nat n :: u8) 5) = n div 32"
    by (simp_all add: unat_shr u)
  show "unat ((of_nat n :: u8) AND 0x03) = n mod 4" "unat ((of_nat n :: u8) AND 0x3F) = n mod 64"
    "unat ((of_nat n :: u8) AND 0x1F) = n mod 32"
    using unat_field [of "of_nat n" 0 2] unat_field [of "of_nat n" 0 6] unat_field [of "of_nat n" 0 5]
    unfolding byte_masks u by simp_all
  show "unat (shr ((of_nat n :: u8) AND 0x70) 4) = n div 16 mod 8" "unat (shr ((of_nat n :: u8) AND 0x0C) 2) = n div 4 mod 4"
    unfolding shr_and byte_masks unat_field u by simp_all
  have "((of_nat n :: u8) AND 0x80 \<noteq> 0) = odd (n div 128)" "((of_nat n :: u8) AND 0x40 \<noteq> 0) = odd (n div 64)"
    unfolding byte_masks and_single_bit using assms by (simp_all add: bit_of_nat_byte)
  moreover have "odd (n div 128) = (\<not> n < 128)" proof (cases "n < 128")
    case False
    then have "n div 128 = 1" using assms by (intro div_nat_eqI) simp_all
    with False show ?thesis by simp
  qed simp
  ultimately show "((of_nat n :: u8) AND 0x80 = 0) = (n < 128)" "((of_nat n :: u8) AND 0x40 = 0) = (n div 64 mod 2 = 0)"
    by (auto simp: even_iff_mod_2_eq_zero)
qed

lemma unat_join: "unat (shl (ucast a) 8 OR ucast b :: u32) = 256 * unat (a :: u8) + unat (b :: u8)"
proof -
  have "shl (ucast a) 8 OR ucast b = (shl (ucast a) 8 + ucast b :: u32)"
    by (rule disjunctive_add_eq_or [symmetric]) (rule bit_word_eqI, auto simp: bit_and_iff bit_ucast_iff bit_word_ge)
  moreover have "unat (shl (ucast a) 8 :: u32) = 256 * unat a"
    using unat_u8_less [of a] by (simp add: shl_def push_bit_eq_mult unat_word_ariths unsigned_ucast_eq take_bit_eq_mod)
  moreover have "unat (ucast b :: u32) = unat b"
    using unat_u8_less [of b] by (simp add: unsigned_ucast_eq take_bit_eq_mod)
  ultimately show ?thesis
    using unat_u8_less [of a] unat_u8_less [of b] by (simp add: unat_word_ariths)
qed

section \<open>The subchannel organisation\<close>

text \<open>An entry: identifier, start address and protection (table index, or level and size).\<close>

datatype protection = Uep nat | Eep_A nat nat | Eep_B nat nat

type_synonym organisation = "nat \<times> nat \<times> protection"

fun protection_bytes :: "protection \<Rightarrow> bytes" where
  "protection_bytes (Uep k) = [of_nat k]"
| "protection_bytes (Eep_A pl sz) = [of_nat (0x80 + 4 * pl + sz div 256), of_nat (sz mod 256)]"
| "protection_bytes (Eep_B pl sz) = [of_nat (0x90 + 4 * pl + sz div 256), of_nat (sz mod 256)]"

definition entry_bytes :: "organisation \<Rightarrow> bytes" where
  "entry_bytes = (\<lambda>(i, start, p). [of_nat (4 * i + start div 256), of_nat (start mod 256)] @ protection_bytes p)"

fun wf_protection :: "protection \<Rightarrow> bool" where
  "wf_protection (Uep k) = (k < 64)"
| "wf_protection (Eep_A pl sz) = (pl < 4 \<and> sz < 1024)"
| "wf_protection (Eep_B pl sz) = (pl < 4 \<and> sz < 1024)"

definition wf_entry :: "organisation \<Rightarrow> bool" where
  "wf_entry = (\<lambda>(i, start, p). i < 64 \<and> start < 1024 \<and> wf_protection p)"

text \<open>What the entry means, by the tables of EN 300 401 clause 6.2.1.\<close>

fun subchannel_of :: "nat \<Rightarrow> protection \<Rightarrow> fic_subchannel" where
  "subchannel_of start (Uep k) = \<lparr>sb_start = start, sb_size = uep_sizes ! k, sb_pl = ''UEP '' @ to_string (uep_pls ! k),
     sb_bitrate = uep_bitrates ! k, sb_language = -1\<rparr>"
| "subchannel_of start (Eep_A pl sz) = \<lparr>sb_start = start, sb_size = sz, sb_pl = ''EEP '' @ to_string (pl + 1) @ ''-A'',
     sb_bitrate = int (sz div [12, 8, 6, 4] ! pl * 8), sb_language = -1\<rparr>"
| "subchannel_of start (Eep_B pl sz) = \<lparr>sb_start = start, sb_size = sz, sb_pl = ''EEP '' @ to_string (pl + 1) @ ''-B'',
     sb_bitrate = int (sz div [27, 21, 18, 15] ! pl * 32), sb_language = -1\<rparr>"

lemma entry_length: "0 < length (entry_bytes e)"
  by (cases e) (simp add: entry_bytes_def)

lemma nth_middle: "(pre @ xs @ post) ! (length pre + i) = (if i < length xs then xs ! i else post ! (i - length xs))"
  by (simp add: nth_append)

lemma rd_middle: "i < length xs \<Longrightarrow> rd (pre @ xs @ post) (length pre + i) = Inr (xs ! i)"
  by (simp add: rd_def nth_append)

lemma read_entry:
  assumes "wf_entry (i, start, p)"
  shows "read_subchannel (pre @ entry_bytes (i, start, p) @ post) (length pre) =
    Inr (int i, subchannel_of start p, length (entry_bytes (i, start, p)))"
proof -
  let ?e = "entry_bytes (i, start, p)" and ?d = "pre @ entry_bytes (i, start, p) @ post"
  have w: "i < 64" "start < 1024" "wf_protection p" using assms by (auto simp: wf_entry_def)
  have b0: "4 * i + start div 256 < 256" using w by simp
  have id: "uint (shr (of_nat (4 * i + start div 256) :: u8) 2) = int i"
    using arg_cong [OF byte_fields(1) [OF b0], of int] w by simp
  have "unat ((of_nat (4 * i + start div 256) :: u8) AND 0x03) = start div 256"
    using byte_fields(2) [OF b0] w by simp
  then have st: "unat (shl (ucast ((of_nat (4 * i + start div 256) :: u8) AND 0x03)) 8 OR ucast (of_nat (start mod 256) :: u8) :: u32) = start"
    by (simp add: unat_join unat_of_nat_small)
  have r: "rd ?d (length pre) = Inr (of_nat (4 * i + start div 256))"
    "rd ?d (length pre + 1) = Inr (of_nat (start mod 256))"
    using rd_middle [of 0 ?e pre post] rd_middle [of 1 ?e pre post] by (simp_all add: entry_bytes_def)
  show ?thesis
  proof (cases p)
    case (Uep k)
    then have k: "k < 64" using w by simp
    then have f: "(of_nat k :: u8) AND 0x80 = 0" "(of_nat k :: u8) AND 0x40 = 0" "unat ((of_nat k :: u8) AND 0x3F) = k"
      using byte_fields(3,6,7) [of k] by simp_all
    have t: "rd uep_sizes k = Inr (uep_sizes ! k)" "rd uep_pls k = Inr (uep_pls ! k)" "rd uep_bitrates k = Inr (uep_bitrates ! k)"
      using k by (simp_all add: rd_def uep_sizes_def uep_pls_def uep_bitrates_def)
    have "rd ?d (length pre + 2) = Inr (of_nat k)"
      using rd_middle [of 2 ?e pre post] Uep by (simp add: entry_bytes_def)
    then show ?thesis
      using Uep unfolding read_subchannel_def r bindE_simps Let_def id st
      by (simp add: f t FIC_SUBCHANNEL_def entry_bytes_def)
  next
    case (Eep_A pl sz)
    then have p: "pl < 4" "sz < 1024" using w by simp_all
    let ?n = "0x80 + 4 * pl + sz div 256"
    have le: "128 \<le> ?n" by linarith
    have h: "sz div 256 < 4" using p by simp
    have n: "?n < 256" using p by simp
    have f: "((of_nat ?n :: u8) AND 0x80 \<noteq> 0) = True" "unat (shr ((of_nat ?n :: u8) AND 0x70) 4) = 0"
      "unat (shr ((of_nat ?n :: u8) AND 0x0C) 2) = pl" "unat ((of_nat ?n :: u8) AND 0x03) = sz div 256"
      using byte_fields(2,3,4,5) [OF n] level_fields [OF p(1) h] le by (simp_all only: not_less)
    have t: "rd eep_a_size_factors pl = Inr ([12, 8, 6, 4] ! pl)"
      using p by (simp add: rd_def eep_a_size_factors_def)
    have sz: "unat (shl (ucast ((of_nat ?n :: u8) AND 0x03)) 8 OR ucast (of_nat (sz mod 256) :: u8) :: u32) = sz"
      unfolding unat_join f by (simp add: unat_of_nat_small)
    have rr: "rd ?d (length pre + 2) = Inr (of_nat ?n)" "rd ?d (length pre + 3) = Inr (of_nat (sz mod 256))"
      using rd_middle [of 2 ?e pre post] rd_middle [of 3 ?e pre post] Eep_A by (simp_all add: entry_bytes_def)
    show ?thesis
      using Eep_A unfolding read_subchannel_def r rr bindE_simps Let_def id st sz f if_True
      by (simp add: t FIC_SUBCHANNEL_def entry_bytes_def)
  next
    case (Eep_B pl sz)
    then have p: "pl < 4" "sz < 1024" using w by simp_all
    let ?n = "0x90 + 4 * pl + sz div 256"
    have le: "128 \<le> ?n" by linarith
    have h: "sz div 256 < 4" using p by simp
    have n: "?n < 256" using p by simp
    have f: "((of_nat ?n :: u8) AND 0x80 \<noteq> 0) = True" "unat (shr ((of_nat ?n :: u8) AND 0x70) 4) = 1"
      "unat (shr ((of_nat ?n :: u8) AND 0x0C) 2) = pl" "unat ((of_nat ?n :: u8) AND 0x03) = sz div 256"
      using byte_fields(2,3,4,5) [OF n] level_fields [OF p(1) h] le by (simp_all only: not_less)
    have t: "rd eep_b_size_factors pl = Inr ([27, 21, 18, 15] ! pl)"
      using p by (simp add: rd_def eep_b_size_factors_def)
    have sz: "unat (shl (ucast ((of_nat ?n :: u8) AND 0x03)) 8 OR ucast (of_nat (sz mod 256) :: u8) :: u32) = sz"
      unfolding unat_join f by (simp add: unat_of_nat_small)
    have rr: "rd ?d (length pre + 2) = Inr (of_nat ?n)" "rd ?d (length pre + 3) = Inr (of_nat (sz mod 256))"
      using rd_middle [of 2 ?e pre post] rd_middle [of 3 ?e pre post] Eep_B by (simp_all add: entry_bytes_def)
    show ?thesis
      using Eep_B unfolding read_subchannel_def r rr bindE_simps Let_def id st sz f if_True
      by (simp add: t FIC_SUBCHANNEL_def entry_bytes_def)
  qed
qed

text \<open>Ensemble, services and date are as before; only subchannels and the observer may have changed.\<close>

definition only_subchannels :: "fic_decoder \<Rightarrow> fic_decoder \<Rightarrow> bool" where
  "only_subchannels d d' \<longleftrightarrow> fd_ensemble d' = fd_ensemble d \<and> fd_services d' = fd_services d \<and> fd_utc_dt d' = fd_utc_dt d \<and>
     fd_utc_dt_long d' = fd_utc_dt_long d"

lemma only_subchannels_put: "only_subchannels d (put_subchannel i sc d)" "only_subchannels d (put_subchannel i sc d\<lparr>fd_observer := obs\<rparr>)"
  by (simp_all add: only_subchannels_def put_subchannel_def)

text \<open>Storing an entry: the other subchannels and the language stay.\<close>

lemma store_subchannel_effect:
  assumes d: "fic_ok d" and sc: "sb_pl sc \<noteq> []"
  shows "\<exists>d'. store_subchannel i sc d = (d', Inr ()) \<and> fic_ok d' \<and> only_subchannels d d' \<and>
    (\<forall>k. GetSubchannel k d' = (if k = i then sc\<lparr>sb_language := sb_language (GetSubchannel i d)\<rparr> else GetSubchannel k d))"
proof -
  let ?cur = "GetSubchannel i d"
  let ?sc = "sc\<lparr>sb_language := sb_language ?cur\<rparr>"
  have get: "GetSubchannel k (put_subchannel i x d\<lparr>fd_observer := obs\<rparr>) = (if k = i then x else GetSubchannel k d)" for k x obs
    using d by (simp add: GetSubchannel_def map_val_def put_subchannel_def map_get_put fic_ok_def decoder_wf_def)
  obtain obs where obs: "UpdateSubchannel i (put_subchannel i ?sc d) = (put_subchannel i ?sc d\<lparr>fd_observer := obs\<rparr>, Inr ())"
    using update_services_frame [OF put_subchannel_sync(1) [OF d]] unfolding UpdateSubchannel_def by blast
  have new: "fic_ok (put_subchannel i ?sc d\<lparr>fd_observer := obs\<rparr>)"
    using changed_subchannel [OF d, of i ?sc] obs by (simp add: keepsS_def)
  have old: "fic_ok (put_subchannel i ?cur d)"
    using same_subchannel [OF d, of i] by (simp add: keepsS_def)
  have "put_subchannel i ?cur d = put_subchannel i ?cur d\<lparr>fd_observer := fd_observer d\<rparr>"
    by (simp add: put_subchannel_def)
  then have get_old: "GetSubchannel k (put_subchannel i ?cur d) = (if k = i then ?cur else GetSubchannel k d)" for k
    using get by metis
  show ?thesis
  proof (cases "?cur = ?sc")
    case True
    then have "store_subchannel i sc d = (put_subchannel i ?cur d, Inr ())"
      using sc by (simp add: store_subchannel_def Let_def)
    then show ?thesis using old get_old True only_subchannels_put by (intro exI [of _ "put_subchannel i ?cur d"]) auto
  next
    case False
    then have "store_subchannel i sc d = (put_subchannel i ?sc d\<lparr>fd_observer := obs\<rparr>, Inr ())"
      using sc obs by (simp add: store_subchannel_def Let_def)
    then show ?thesis using new get only_subchannels_put by auto
  qed
qed

definition described :: "fic_decoder \<Rightarrow> organisation list \<Rightarrow> fic_decoder \<Rightarrow> bool" where
  "described d es d' =
     (only_subchannels d d' \<and> (\<forall>k. GetSubchannel k d' =
        (case map_of (rev (map (\<lambda>(i, sp). (int i, sp)) es)) k of
           None \<Rightarrow> GetSubchannel k d
         | Some (start, p) \<Rightarrow> (subchannel_of start p)\<lparr>sb_language := sb_language (GetSubchannel k d)\<rparr>)))"

lemma described_snoc:
  assumes "described d es d1" and "only_subchannels d1 d2" and "\<forall>k. GetSubchannel k d2 = (if k = int i
    then (subchannel_of start p)\<lparr>sb_language := sb_language (GetSubchannel (int i) d1)\<rparr> else GetSubchannel k d1)"
  shows "described d (es @ [(i, start, p)]) d2"
  using assms unfolding described_def by (auto simp: only_subchannels_def split: option.splits)

lemma described_trans:
  assumes "described d es d1" and "described d1 es' d2"
  shows "described d (es @ es') d2"
  using assms unfolding described_def by (auto simp: only_subchannels_def map_add_def split: option.splits)

lemma described_Nil: "described d [] d"
  by (simp add: described_def only_subchannels_def)

lemma subchannel_pl: "sb_pl (subchannel_of start p) \<noteq> []"
  by (cases p) simp_all

lemma fig0_1_entries:
  assumes "fic_ok d" and "list_all wf_entry es" and "data = pre @ concat (map entry_bytes es) @ rest"
    and "len = length pre + length (concat (map entry_bytes es))"
  shows "\<exists>d'. advance_loop (\<lambda>offset d.
       needS (read_subchannel data offset) d (\<lambda>(subchid, sc, n).
       bindS (store_subchannel subchid sc d) (\<lambda>d _. (d, Inr n)))) len (length pre) d = (d', Inr ()) \<and>
     fic_ok d' \<and> described d es d'"
  using assms
proof (induction es arbitrary: d pre)
  case Nil
  then show ?case by (simp add: advance_loop_end described_Nil)
next
  case (Cons e es)
  obtain i start p where e: "e = (i, start, p)" by (cases e)
  let ?pre = "pre @ entry_bytes e"
  have rd: "read_subchannel data (length pre) = Inr (int i, subchannel_of start p, length (entry_bytes e))"
    using read_entry [of i start p pre] Cons.prems(2,3) by (simp add: e)
  obtain d1 where d1: "store_subchannel (int i) (subchannel_of start p) d = (d1, Inr ())" "fic_ok d1" "only_subchannels d d1"
    "\<forall>k. GetSubchannel k d1 = (if k = int i then (subchannel_of start p)\<lparr>sb_language := sb_language (GetSubchannel (int i) d)\<rparr>
       else GetSubchannel k d)"
    using store_subchannel_effect [OF Cons.prems(1) subchannel_pl] by blast
  have "described d [e] d1" using described_snoc [OF described_Nil d1(3,4)] by (simp add: e)
  moreover obtain d' where d': "advance_loop (\<lambda>offset d.
       needS (read_subchannel data offset) d (\<lambda>(subchid, sc, n).
       bindS (store_subchannel subchid sc d) (\<lambda>d _. (d, Inr n)))) len (length ?pre) d1 = (d', Inr ())"
     "fic_ok d'" "described d1 es d'"
    using Cons.IH [OF d1(2), of ?pre] Cons.prems by auto
  ultimately have "described d (e # es) d'" using described_trans [of d "[e]" d1 es d'] by simp
  moreover have "length pre < len" using Cons.prems(4) entry_length [of e] by simp
  ultimately show ?case
    using d' d1(1) rd entry_length [of e] by (subst advance_loop_step [where n = "length (entry_bytes e)"]) auto
qed

section \<open>Blocks\<close>

definition entries_bytes :: "organisation list \<Rightarrow> bytes" where
  "entries_bytes es = concat (map entry_bytes es)"

text \<open>A block: the group's header, its extension, the entries, padding, and the check sum.\<close>

definition fib_body :: "organisation list \<Rightarrow> bytes" where
  "fib_body es = [of_nat (1 + length (entries_bytes es)), 0x01] @ entries_bytes es @
     replicate (28 - length (entries_bytes es)) 0xFF"

definition fib_bytes :: "organisation list \<Rightarrow> bytes" where
  "fib_bytes es = fib_body es @ be16 (crc16 0xffff (fib_body es) XOR 0xffff)"

definition wf_fib :: "organisation list \<Rightarrow> bool" where
  "wf_fib es = (list_all wf_entry es \<and> length (entries_bytes es) \<le> 28)"

lemma fib_crc_ok:
  assumes "length b = 30"
  shows "fib_checkCRC (b @ be16 (crc16 0xffff b XOR 0xffff) @ rest) 32 = Inr True"
proof -
  have "read_16b (b @ be16 (crc16 0xffff b XOR 0xffff) @ rest) (32 - 2) = Inr (crc16 0xffff b XOR 0xffff)"
    by (rule read_be16) (simp add: assms)
  then show ?thesis using assms unfolding fib_checkCRC_def by simp
qed

lemma length_fib: "length (entries_bytes es) \<le> 28 \<Longrightarrow> length (fib_body es) = 30"
  "length (entries_bytes es) \<le> 28 \<Longrightarrow> length (fib_bytes es) = 32"
  by (simp_all add: fib_body_def fib_bytes_def)

lemma fib_group:
  assumes d: "fic_ok d" and es: "wf_fib es"
  shows "\<exists>d'. ProcessFIB (fib_bytes es @ rest) d = (d', Inr ()) \<and> fic_ok d' \<and> described d es d'"
proof -
  let ?n = "length (entries_bytes es)" and ?data = "fib_bytes es @ rest"
  have n: "?n \<le> 28" and wf: "list_all wf_entry es" using es by (simp_all add: wf_fib_def)
  let ?b = "of_nat (1 + ?n) :: u8"
  have u: "unat ?b = 1 + ?n" using n by (intro unat_of_nat_small) simp
  have small: "1 + ?n < 256" using n by simp
  have "unat (shr ?b 5) = 0" "unat (?b AND 0x1F) = 1 + ?n" using byte_fields(8,9) [OF small] n by simp_all
  then have ty: "shr ?b 5 = 0" and len: "unat (?b AND 0x1F) = 1 + ?n" by (simp_all only: unat_eq_0)
  have ff: "?b \<noteq> 0xFF"
  proof
    assume "?b = 0xFF"
    then have "unat ?b = 255" by simp
    with u n show False by simp
  qed
  let ?tail = "replicate (28 - ?n) 0xFF @ be16 (crc16 0xffff (fib_body es) XOR 0xffff) @ rest"
  have data: "?data = ?b # 0x01 # entries_bytes es @ ?tail" by (simp add: fib_bytes_def fib_body_def)
  obtain d' where d': "ProcessFIG0_1 (entries_bytes es @ ?tail) ?n d = (d', Inr ())" "fic_ok d'" "described d es d'"
    using fig0_1_entries [OF d wf, of "entries_bytes es @ ?tail" "[]" ?tail ?n]
    unfolding ProcessFIG0_1_def entries_bytes_def by auto
  have "ProcessFIG0 (0x01 # entries_bytes es @ ?tail) (1 + ?n) d = (d', Inr ())"
    using d'(1) by (simp add: ProcessFIG0_def rd_def)
  moreover have "drop (0 + 1) ?data = 0x01 # entries_bytes es @ ?tail" by (simp add: data)
  ultimately have "process_figs ?data 0 d = process_figs ?data (0 + 1 + (1 + ?n)) d'"
  proof -
    assume g: "ProcessFIG0 (0x01 # entries_bytes es @ ?tail) (1 + ?n) d = (d', Inr ())"
      and dr: "drop (0 + 1) ?data = 0x01 # entries_bytes es @ ?tail"
    have rd0: "rd ?data 0 = Inr ?b" by (simp add: data rd_def)
    show ?thesis
      unfolding process_figs.simps [of ?data 0 d] rd0 needS_simps Let_def ty len dr g using ff by simp
  qed
  also have "\<dots> = (d', Inr ())"
  proof (cases "?n = 28")
    case True
    then show ?thesis by (simp add: process_figs.simps)
  next
    case False
    then have "0 + 1 + (1 + ?n) < 30" using n by simp
    moreover have "rd ?data (0 + 1 + (1 + ?n)) = Inr 0xFF"
      using False n by (simp add: data rd_def nth_append)
    ultimately show ?thesis by (subst process_figs.simps) simp
  qed
  finally have "process_figs ?data 0 d = (d', Inr ())" .
  moreover have "fib_checkCRC ?data 32 = Inr True"
    using fib_crc_ok [of "fib_body es" rest] length_fib(1) [OF n] by (simp add: fib_bytes_def)
  ultimately show ?thesis using d' by (simp add: ProcessFIB_def)
qed

lemma length_fibs: "\<forall>es \<in> set ess. wf_fib es \<Longrightarrow> length (concat (map fib_bytes ess)) = 32 * length ess"
  by (induction ess) (auto simp: length_fib wf_fib_def)

lemma fibs_groups:
  assumes "fic_ok d" and "\<forall>es \<in> set ess. wf_fib es" and "\<forall>es \<in> set pre. wf_fib es"
  shows "\<exists>d'. eachS (\<lambda>i. ProcessFIB (drop (32 * i) (concat (map fib_bytes (pre @ ess)))))
      [length pre..<length pre + length ess] d = (d', Inr ()) \<and> fic_ok d' \<and> described d (concat ess) d'"
  using assms
proof (induction ess arbitrary: d pre)
  case Nil
  then show ?case by (simp add: described_Nil)
next
  case (Cons es ess)
  let ?data = "concat (map fib_bytes (pre @ es # ess))"
  have "drop (32 * length pre) ?data = fib_bytes es @ concat (map fib_bytes ess)"
    using length_fibs [OF Cons.prems(3)] by simp
  then obtain d1 where d1: "ProcessFIB (drop (32 * length pre) ?data) d = (d1, Inr ())" "fic_ok d1" "described d es d1"
    using fib_group [of d es "concat (map fib_bytes ess)"] Cons.prems by auto
  have "\<exists>d'. eachS (\<lambda>i. ProcessFIB (drop (32 * i) (concat (map fib_bytes ((pre @ [es]) @ ess)))))
      [length (pre @ [es])..<length (pre @ [es]) + length ess] d1 = (d', Inr ()) \<and> fic_ok d' \<and> described d1 (concat ess) d'"
    using Cons.prems by (intro Cons.IH d1) auto
  then obtain d' where d': "eachS (\<lambda>i. ProcessFIB (drop (32 * i) ?data)) [Suc (length pre)..<length pre + length (es # ess)] d1 = (d', Inr ())"
    "fic_ok d'" "described d1 (concat ess) d'" by auto
  have "[length pre..<length pre + length (es # ess)] = length pre # [Suc (length pre)..<length pre + length (es # ess)]"
    by (rule upt_conv_Cons) simp
  then show ?case using d1 d' described_trans [OF d1(3) d'(3)] by (simp only: eachS.simps) simp
qed

text \<open>
  C14. The subchannel organisation survives the channel: from any consistent state, fast information
  channels whose blocks carry any entries, of all protection forms, are decoded without an error, and
  afterwards every subchannel has the start address, size, protection and bit rate of its last entry
  and the language it had before. Subchannels that were not mentioned, the ensemble, the services and the
  date are unchanged.
\<close>

theorem subchannel_organisation_roundtrip:
  assumes "fic_ok d" and "\<forall>es \<in> set ess. wf_fib es" and "fic = concat (map fib_bytes ess)"
  shows "\<exists>d'. Process fic (length fic) d = (d', Inr ()) \<and> fic_ok d' \<and>
    fd_ensemble d' = fd_ensemble d \<and> fd_services d' = fd_services d \<and> fd_utc_dt d' = fd_utc_dt d \<and> fd_utc_dt_long d' = fd_utc_dt_long d \<and>
    (\<forall>k. GetSubchannel k d' =
       (case map_of (rev (map (\<lambda>(i, sp). (int i, sp)) (concat ess))) k of
          None \<Rightarrow> GetSubchannel k d
        | Some (start, p) \<Rightarrow> (subchannel_of start p)\<lparr>sb_language := sb_language (GetSubchannel k d)\<rparr>))"
proof -
  have "length fic = 32 * length ess" using length_fibs [OF assms(2)] assms(3) by simp
  then have "Process fic (length fic) d = eachS (\<lambda>i. ProcessFIB (drop (32 * i) fic)) [0..<length ess] d"
    by (simp add: Process_def)
  moreover obtain d' where "eachS (\<lambda>i. ProcessFIB (drop (32 * i) fic)) [0..<length ess] d = (d', Inr ())"
    "fic_ok d'" "described d (concat ess) d'"
    using fibs_groups [OF assms(1,2), of "[]"] assms(3) by auto
  ultimately show ?thesis unfolding described_def only_subchannels_def by auto
qed

definition example_fibs :: "organisation list list" where
  "example_fibs = [[(5, 100, Eep_A 2 72), (7, 300, Uep 30)], [(5, 120, Eep_B 0 54)]]"

theorem subchannel_organisation_roundtrip_witness:
  "\<exists>d'. Process (concat (map fib_bytes example_fibs)) (length (concat (map fib_bytes example_fibs))) (FICDecoder undefined) = (d', Inr ()) \<and>
     GetSubchannel 5 d' = \<lparr>sb_start = 120, sb_size = 54, sb_pl = ''EEP 1-B'', sb_bitrate = 64, sb_language = -1\<rparr> \<and>
     sb_size (GetSubchannel 7 d') = 70 \<and> sb_size (GetSubchannel 8 d') = 0"
proof -
  have "\<forall>es \<in> set example_fibs. wf_fib es" by code_simp
  from subchannel_organisation_roundtrip [OF new_decoder_ok this refl] obtain d' where
    d': "Process (concat (map fib_bytes example_fibs)) (length (concat (map fib_bytes example_fibs))) (FICDecoder undefined) = (d', Inr ())"
    "\<And>k. GetSubchannel k d' =
       (case map_of (rev (map (\<lambda>(i, sp). (int i, sp)) (concat example_fibs))) k of
          None \<Rightarrow> GetSubchannel k (FICDecoder undefined)
        | Some (start, p) \<Rightarrow> (subchannel_of start p)\<lparr>sb_language := sb_language (GetSubchannel k (FICDecoder undefined))\<rparr>)" by blast
  moreover have "GetSubchannel k (FICDecoder undefined) = FIC_SUBCHANNEL" for k
    by (simp add: GetSubchannel_def map_val_def map_get_def FICDecoder_def)
  moreover have "map_of (rev (map (\<lambda>(i, sp). (int i, sp)) (concat example_fibs))) 5 = Some (120, Eep_B 0 54)"
    "map_of (rev (map (\<lambda>(i, sp). (int i, sp)) (concat example_fibs))) 7 = Some (300, Uep 30)"
    "map_of (rev (map (\<lambda>(i, sp). (int i, sp)) (concat example_fibs))) 8 = None"
    by (simp_all add: example_fibs_def)
  moreover have "to_string 1 = ''1''" by code_simp
  ultimately have "GetSubchannel 5 d' = \<lparr>sb_start = 120, sb_size = 54, sb_pl = ''EEP 1-B'', sb_bitrate = 64, sb_language = -1\<rparr>"
    "sb_size (GetSubchannel 7 d') = 70" "sb_size (GetSubchannel 8 d') = 0"
    using d'(2) [of 5] d'(2) [of 7] d'(2) [of 8] by (simp_all add: FIC_SUBCHANNEL_def uep_sizes_def)
  then show ?thesis using d'(1) by blast
qed

section \<open>Reading past the block\<close>

text \<open>A channel of one block with a right check sum, whose last group is longer than what is left.\<close>

definition overlong_fib :: bytes where
  "overlong_fib =
     (let body = [0x59] @ replicate 25 0 @ [0x1F, 0x12, 0xD0, 0x01]
      in body @ be16 (crc16 0xffff body XOR 0xffff))"

lemma overlong_facts:
  "length overlong_fib = 32" "fib_checkCRC overlong_fib 32 = Inr True"
  "overlong_fib ! 0 = 0x59" "overlong_fib ! 26 = 0x1F" "overlong_fib ! 27 = 0x12"
  by code_simp+

text \<open>
  The lengths of groups are not checked against the block, nor the entries against their group:
  a block with a right check sum makes the decoder read past the end of the data it was given, in
  every state.
\<close>

lemma fic_group_overread:
  "length overlong_fib = 32 \<and> snd (Process overlong_fib 32 d) = Inl (UndefinedBehaviour ''read'')"
proof -
  have rd: "rd overlong_fib 0 = Inr 0x59" "rd overlong_fib 26 = Inr 0x1F"
    using overlong_facts by (simp_all add: rd_def)
  have one: "process_figs overlong_fib 0 d = process_figs overlong_fib 26 d"
    unfolding process_figs.simps [of overlong_fib 0 d] rd by (simp add: Let_def shr_def)
  have "rd (drop 27 overlong_fib) 0 = Inr 0x12" using overlong_facts by (simp add: rd_def)
  moreover have "\<exists>x y. read_16b (drop 28 overlong_fib) 0 = Inr x \<and> read_16b (drop 28 overlong_fib) (0 + 2) = Inr y"
    using overlong_facts(1) by (simp add: read_16b_ok)
  moreover have "rd (drop 28 overlong_fib) (0 + 4) = Inl (UndefinedBehaviour ''read'')"
    using overlong_facts(1) by (simp add: rd_def)
  ultimately have "ProcessFIG0 (drop 27 overlong_fib) 31 d = (d, Inl (UndefinedBehaviour ''read''))"
    by (auto simp: ProcessFIG0_def ProcessFIG0_18_def advance_loop.simps Let_def)
  then have "process_figs overlong_fib 26 d = (d, Inl (UndefinedBehaviour ''read''))"
    unfolding process_figs.simps [of overlong_fib 26 d] rd by (simp add: Let_def shr_def)
  then have "Process overlong_fib 32 d = (d, Inl (UndefinedBehaviour ''read''))"
    using one by (simp add: Process_def ProcessFIB_def overlong_facts)
  then show ?thesis using overlong_facts(1) by simp
qed

section \<open>Short labels\<close>

text \<open>A character: its first byte and the continuation bytes.\<close>

definition utf8_char :: "bytes \<Rightarrow> bool" where
  "utf8_char c = (c \<noteq> [] \<and> \<not> continuation (hd c) \<and> list_all continuation (tl c))"

lemma CharsLen_continuation:
  "list_all continuation c \<Longrightarrow> UTF8CharsLen_from (c @ s) k = length c + UTF8CharsLen_from s k"
  by (induction c) auto

lemma CharsLen_chars:
  "list_all utf8_char cs \<Longrightarrow> UTF8CharsLen (concat cs) k = length (concat (take k cs))"
  unfolding UTF8CharsLen_def
proof (induction cs arbitrary: k)
  case (Cons c cs)
  obtain b bs where c: "c = b # bs" "\<not> continuation b" "list_all continuation bs"
    using Cons.prems by (cases c) (auto simp: utf8_char_def)
  show ?case
  proof (cases k)
    case 0
    then show ?thesis using c by simp
  next
    case (Suc j)
    then show ?thesis using c Cons by (simp add: CharsLen_continuation)
  qed
qed simp

lemma Substr_char:
  assumes "list_all utf8_char cs"
  shows "UTF8Substr (concat cs) i 1 = (if i < length cs then cs ! i else [])"
proof -
  have "concat cs = concat (take i cs) @ concat (drop i cs)" by (metis append_take_drop_id concat_append)
  then have dr: "drop (UTF8CharsLen (concat cs) i) (concat cs) = concat (drop i cs)"
    using CharsLen_chars [OF assms] by simp
  have "list_all utf8_char (drop i cs)" using assms by (auto simp: list_all_iff dest: in_set_dropD)
  then have "UTF8Substr (concat cs) i 1 = take (length (concat (take 1 (drop i cs)))) (concat (drop i cs))"
    by (simp add: UTF8Substr_def dr CharsLen_chars)
  then show ?thesis
    by (cases "i < length cs") (simp_all add: Cons_nth_drop_Suc [symmetric])
qed

lemma bit_8000: "bit (shr (0x8000 :: u32) i) n = (i + n = 15)"
proof -
  have e: "(0x8000 :: u32) = shl 1 15" by code_simp
  show ?thesis unfolding e by (auto simp: bit_1_iff)
qed

lemma mask_test: "((ucast m :: u32) AND shr 0x8000 i \<noteq> 0) = (i < 16 \<and> bit (m :: u16) (15 - i))"
proof (cases "i < 16")
  case True
  have "shr (0x8000 :: u32) i = shl 1 (15 - i)"
  proof (rule bit_word_eqI)
    fix n
    have "bit (shl 1 (15 - i) :: u32) n = (n = 15 - i)" using True by (auto simp: bit_1_iff)
    then show "bit (shr (0x8000 :: u32) i) n = bit (shl 1 (15 - i) :: u32) n"
      using True unfolding bit_8000 by auto
  qed
  then show ?thesis using True by (simp only: and_single_bit) (auto simp: bit_ucast_iff)
next
  case False
  then have "shr (0x8000 :: u32) i = 0"
    by (intro bit_word_eqI) (simp add: bit_8000 del: bit_shr)
  then show ?thesis using False by simp
qed

definition selected_chars :: "bytes list \<Rightarrow> u16 \<Rightarrow> nat list \<Rightarrow> bytes" where
  "selected_chars cs m is = concat (map (\<lambda>i. if i < length cs \<and> i < 16 \<and> bit m (15 - i) then cs ! i else []) is)"

lemma derive_chars_selected:
  "list_all utf8_char cs \<Longrightarrow> \<forall>i \<in> set is. i < 32 \<Longrightarrow>
   derive_chars (concat cs) m is acc = Inr (acc @ selected_chars cs m is)"
  by (induction "is" arbitrary: acc) (auto simp: mask_test Substr_char [unfolded One_nat_def] selected_chars_def)

lemma derive_chars_overflow: "\<exists>i \<in> set is. 32 \<le> i \<Longrightarrow> derive_chars l m is acc = Inl (UndefinedBehaviour ''shift'')"
  by (induction "is" arbitrary: acc) auto

lemma selected_chars_none: "\<forall>i \<in> set is. length cs \<le> i \<Longrightarrow> selected_chars cs m is = []"
  by (auto simp: selected_chars_def)

text \<open>
  For a label of whole UTF-8 characters the short label consists of the characters whose bit of
  the mask is set, the first being the most significant; but a label of more than 32 bytes, which
  sixteen characters can have, runs into a shift by the width of its operand.
\<close>

lemma short_label_selects_characters:
  assumes "list_all utf8_char cs"
  shows "DeriveShortLabelUTF8 (concat cs) m =
    (if length (concat cs) \<le> 32
     then Inr (concat (map ((!) cs) (filter (\<lambda>i. i < 16 \<and> bit m (15 - i)) [0..<length cs])))
     else Inl (UndefinedBehaviour ''shift''))"
proof (cases "length (concat cs) \<le> 32")
  case True
  have le: "length cs \<le> length (concat cs)"
    using assms
  proof (induction cs)
    case (Cons c cs)
    then have "0 < length c" by (auto simp: utf8_char_def)
    then show ?case using Cons by (cases c) auto
  qed simp
  then have "[0..<length (concat cs)] = [0..<length cs] @ [length cs..<length (concat cs)]"
    using upt_add_eq_append [of 0 "length cs" "length (concat cs) - length cs"] by simp
  then have "selected_chars cs m [0..<length (concat cs)] = selected_chars cs m [0..<length cs]"
    using selected_chars_none [of "[length cs..<length (concat cs)]" cs m] by (simp add: selected_chars_def)
  also have "\<dots> = concat (map ((!) cs) (filter (\<lambda>i. i < 16 \<and> bit m (15 - i)) [0..<length cs]))"
  proof -
    have "concat (map (\<lambda>i. if i < length cs \<and> i < 16 \<and> bit m (15 - i) then cs ! i else []) is) =
        concat (map ((!) cs) (filter (\<lambda>i. i < 16 \<and> bit m (15 - i)) is))" if "\<forall>i \<in> set is. i < length cs" for "is"
      using that by (induction "is") auto
    then show ?thesis unfolding selected_chars_def by auto
  qed
  finally show ?thesis
    using True assms by (simp add: DeriveShortLabelUTF8_def derive_chars_selected)
next
  case False
  then have "\<exists>i \<in> set [0..<length (concat cs)]. 32 \<le> i" by (intro bexI [of _ 32]) auto
  then show ?thesis using False by (simp only: DeriveShortLabelUTF8_def derive_chars_overflow if_False)
qed

lemma short_label_selects_characters_witness:
  "DeriveShortLabelUTF8 (concat [[0xC5, 0x82], [0x41], [0x62]]) 0xA000 = Inr [0xC5, 0x82, 0x62] \<and>
   DeriveShortLabelUTF8 (concat (replicate 16 [0xE2, 0x82, 0xAC])) 0 = Inl (UndefinedBehaviour ''shift'')"
proof -
  have "list_all utf8_char [[0xC5, 0x82], [0x41], [0x62]]" and "list_all utf8_char (replicate 16 [0xE2, 0x82, 0xAC])"
    by code_simp+
  moreover have "concat (map ((!) [[0xC5, 0x82], [0x41], [0x62 :: u8]]) (filter (\<lambda>i. i < 16 \<and> bit (0xA000 :: u16) (15 - i))
      [0..<length [[0xC5, 0x82], [0x41], [0x62 :: u8]]])) = [0xC5, 0x82, 0x62]"
    by code_simp
  moreover have "length (concat (replicate 16 [0xE2, 0x82, 0xAC :: u8])) = 48" by code_simp
  ultimately show ?thesis
    using short_label_selects_characters [where cs = "[[0xC5, 0x82], [0x41], [0x62]]" and m = "0xA000"]
      short_label_selects_characters [where cs = "replicate 16 [0xE2, 0x82, 0xAC]" and m = 0] by simp
qed

end
