(* ===== verification/Flowgraph.thy ===== *)
theory Flowgraph
  imports State_Error
begin

text \<open>
  The flowgraph (\<open>src/Flowgraph.cpp\<close>): nodes in the order they are run, one for each plugin, and
  edges, each with a buffer and a vector of metadata that its source node writes and its destination
  node reads. A plugin is a value of \<open>'p\<close> (its shared pointer), so a node is its plugin; the buffers of
  a node are those of its edges, in the order the edges were made. \<open>topological\<close> says that no node is
  run before one that feeds it; then a run solves the equations of the network.

  What a plugin does is an argument: \<open>process\<close> changes the state of the plugins and the contents of its
  input and output buffers and returns the number the C++ method returns, or raises;
  \<open>process_metadata\<close> is there for the plugins that are \<open>ModMetadata\<close>. Times and names, which are only
  printed, are left out.
\<close>

section \<open>Connecting\<close>

record 'p flowgraph =
  fg_nodes :: "'p list"
  fg_edges :: "('p \<times> 'p) list"

definition Flowgraph :: "'p flowgraph" where
  "Flowgraph = \<lparr>fg_nodes = [], fg_edges = []\<rparr>"

text \<open>The loops that look for the node of a plugin; the number of nodes stands for \<open>nodes.end()\<close>.\<close>

fun find_node :: "'p list \<Rightarrow> 'p \<Rightarrow> nat" where
  "find_node [] p = 0"
| "find_node (n # ns) p = (if n = p then 0 else Suc (find_node ns p))"

definition connect :: "'p \<Rightarrow> 'p \<Rightarrow> 'p flowgraph \<Rightarrow> 'p flowgraph" where
  "connect input output g =
     (let nodes = fg_nodes g;
          inputNode = find_node nodes input;
          nodes = (if inputNode = length nodes then nodes @ [input] else nodes);
          outputNode = find_node nodes output;
          nodes = (if outputNode = length nodes then nodes @ [output]
                   else if outputNode < inputNode
                   then take outputNode nodes @ drop (Suc outputNode) nodes @ [nodes ! outputNode]
                   else nodes)
      in \<lparr>fg_nodes = nodes, fg_edges = fg_edges g @ [(input, output)]\<rparr>)"

fun connect_all :: "('p \<times> 'p) list \<Rightarrow> 'p flowgraph \<Rightarrow> 'p flowgraph" where
  "connect_all [] g = g"
| "connect_all ((a, b) # es) g = connect_all es (connect a b g)"

section \<open>Running\<close>

record ('s, 'b, 'm) network =
  net_plugins :: 's
  net_buffers :: "'b list"
  net_metadata :: "'m list list"

type_synonym ('p, 's, 'b) processor = "'p \<Rightarrow> 's \<times> 'b list \<times> 'b list \<Rightarrow> ('s \<times> 'b list \<times> 'b list) \<times> int result"

type_synonym ('p, 's, 'm) metadata_processor = "'p \<Rightarrow> ('s \<Rightarrow> 'm list \<Rightarrow> 's \<times> 'm list) option"

text \<open>The edges, by their number, that enter or leave a node.\<close>

definition in_edges :: "('p \<times> 'p) list \<Rightarrow> 'p \<Rightarrow> nat list" where
  "in_edges es p = filter (\<lambda>i. snd (es ! i) = p) [0..<length es]"

definition out_edges :: "('p \<times> 'p) list \<Rightarrow> 'p \<Rightarrow> nat list" where
  "out_edges es p = filter (\<lambda>i. fst (es ! i) = p) [0..<length es]"

fun put_all :: "nat list \<Rightarrow> 'a list \<Rightarrow> 'a list \<Rightarrow> 'a list" where
  "put_all (i # is) (x # xs) ys = put_all is xs (ys[i := x])"
| "put_all _ _ ys = ys"

text \<open>A new edge has an empty buffer and no metadata.\<close>

definition new_network :: "'b \<Rightarrow> 's \<Rightarrow> 'p flowgraph \<Rightarrow> ('s, 'b, 'm) network" where
  "new_network no_data s g =
     \<lparr>net_plugins = s, net_buffers = map (\<lambda>_. no_data) (fg_edges g), net_metadata = map (\<lambda>_. []) (fg_edges g)\<rparr>"

definition node_metadata ::
    "('p, 's, 'm) metadata_processor \<Rightarrow> nat list \<Rightarrow> nat list \<Rightarrow> 'p \<Rightarrow> ('s, 'b, 'm) network \<Rightarrow> ('s, 'b, 'm) network" where
  "node_metadata process_metadata ins outs p n =
     (let all_input_mds = concat (map ((!) (net_metadata n)) ins);
          cleared = put_all ins (map (\<lambda>_. []) ins) (net_metadata n);
          (s, outputMetadata) =
            (case process_metadata p of
               Some f \<Rightarrow> f (net_plugins n) all_input_mds
             | None \<Rightarrow> (net_plugins n, all_input_mds))
      in n\<lparr>net_plugins := s, net_metadata := put_all outs (map (\<lambda>_. outputMetadata) outs) cleared\<rparr>)"

definition node_process ::
    "('p, 's, 'b) processor \<Rightarrow> ('p, 's, 'm) metadata_processor \<Rightarrow> ('p \<times> 'p) list \<Rightarrow> 'p \<Rightarrow>
     ('s, 'b, 'm) network \<Rightarrow> ('s, 'b, 'm) network \<times> int result" where
  "node_process process process_metadata es p n =
     (let ins = in_edges es p; outs = out_edges es p;
          ((s, inBuffers, outBuffers), ret) =
            process p (net_plugins n, map ((!) (net_buffers n)) ins, map ((!) (net_buffers n)) outs);
          n = n\<lparr>net_plugins := s, net_buffers := put_all outs outBuffers (put_all ins inBuffers (net_buffers n))\<rparr>
      in bindS (n, ret) (\<lambda>n ret. (node_metadata process_metadata ins outs p n, Inr ret)))"

fun run_nodes ::
    "('p, 's, 'b) processor \<Rightarrow> ('p, 's, 'm) metadata_processor \<Rightarrow> ('p \<times> 'p) list \<Rightarrow> 'p list \<Rightarrow>
     ('s, 'b, 'm) network \<Rightarrow> ('s, 'b, 'm) network \<times> bool result" where
  "run_nodes process process_metadata es [] n = (n, Inr True)"
| "run_nodes process process_metadata es (p # ps) n =
     bindS (node_process process process_metadata es p n) (\<lambda>n ret.
       if ret = 0 then (n, Inr False) else run_nodes process process_metadata es ps n)"

definition run_flowgraph ::
    "('p, 's, 'b) processor \<Rightarrow> ('p, 's, 'm) metadata_processor \<Rightarrow> 'p flowgraph \<Rightarrow>
     ('s, 'b, 'm) network \<Rightarrow> ('s, 'b, 'm) network \<times> bool result" where
  "run_flowgraph process process_metadata g n = run_nodes process process_metadata (fg_edges g) (fg_nodes g) n"

section \<open>The order of the nodes\<close>

definition topological :: "'p flowgraph \<Rightarrow> bool" where
  "topological g =
     (distinct (fg_nodes g) \<and>
      (\<forall>(a, b) \<in> set (fg_edges g). a \<in> set (fg_nodes g) \<and> b \<in> set (fg_nodes g)) \<and>
      sorted_wrt (\<lambda>a b. (b, a) \<notin> set (fg_edges g)) (fg_nodes g) \<and>
      (\<forall>a. (a, a) \<notin> set (fg_edges g)))"

text \<open>\<open>input\<close> has a node that is run before that of \<open>output\<close>.\<close>

definition runs_before :: "'p \<Rightarrow> 'p \<Rightarrow> 'p list \<Rightarrow> bool" where
  "runs_before a b ns = (b \<in> set ns \<and> find_node ns a < find_node ns b)"

lemma find_node_absent: "find_node ns p = length ns \<longleftrightarrow> p \<notin> set ns"
  by (induction ns) auto

lemma find_node_present: "p \<in> set ns \<Longrightarrow> find_node ns p < length ns"
  by (induction ns) auto

lemma find_node_split: "p \<notin> set us \<Longrightarrow> find_node (us @ p # vs) p = length us"
  by (induction us) auto

lemma find_node_append: "find_node (us @ vs) p = (if p \<in> set us then find_node us p else length us + find_node vs p)"
  by (induction us) auto

lemma runs_before_first: "runs_before a b ns \<Longrightarrow> a \<in> set ns"
  using find_node_absent [of ns a] find_node_present [of b ns] by (fastforce simp: runs_before_def)

text \<open>What \<open>connect\<close> does, by cases: \<open>output\<close> stays, comes last, or moves to the end.\<close>

lemma connect_edges [simp]: "fg_edges (connect a b g) = fg_edges g @ [(a, b)]"
  by (simp add: connect_def Let_def)

lemma connect_stays: "runs_before a b (fg_nodes g) \<Longrightarrow> fg_nodes (connect a b g) = fg_nodes g"
  using runs_before_first [of a b "fg_nodes g"] by (simp add: runs_before_def connect_def Let_def find_node_absent)

lemma connect_new:
  "a \<noteq> b \<Longrightarrow> b \<notin> set (fg_nodes g) \<Longrightarrow>
   fg_nodes (connect a b g) = (if a \<in> set (fg_nodes g) then fg_nodes g else fg_nodes g @ [a]) @ [b]"
  by (auto simp: connect_def Let_def find_node_absent find_node_append)

lemma connect_moves:
  assumes "a \<noteq> b" and "b \<in> set (fg_nodes g)" and "\<not> runs_before a b (fg_nodes g)"
  shows "fg_nodes (connect a b g) = remove1 b (if a \<in> set (fg_nodes g) then fg_nodes g else fg_nodes g @ [a]) @ [b]"
proof -
  obtain us vs where ns: "fg_nodes g = us @ b # vs" "b \<notin> set us" using split_list_first [OF assms(2)] by blast
  have fb: "find_node (us @ b # vs) b = length us" using ns by (simp add: find_node_split)
  have a: "a \<notin> set us" using assms(2,3) fb find_node_present [of a us] ns
    by (auto simp: runs_before_def find_node_append split: if_splits)
  then have "length us < find_node (us @ b # vs) a" using assms(1) by (simp add: find_node_append)
  then show ?thesis using ns assms(1) a
    by (auto simp: connect_def Let_def find_node_absent fb find_node_append remove1_append nth_append)
qed

lemma sorted_wrt_remove1: "sorted_wrt R xs \<Longrightarrow> sorted_wrt R (remove1 x xs)"
  by (induction xs) (auto dest: notin_set_remove1)

lemma sorted_wrt_last:
  assumes "sorted_wrt R us" and "x \<notin> set us" and "\<And>y. y \<in> set us \<Longrightarrow> R y x" and "\<And>y z. y \<noteq> x \<Longrightarrow> R y z \<Longrightarrow> S y z"
  shows "sorted_wrt S (us @ [x])"
proof -
  have "sorted_wrt S us" using assms(1) by (rule sorted_wrt_mono_rel [rotated]) (metis assms(2,4))
  moreover have "S y x" if "y \<in> set us" for y using that assms by metis
  ultimately show ?thesis by (simp add: sorted_wrt_append)
qed

lemma sorted_wrt_conj: "sorted_wrt R xs \<Longrightarrow> sorted_wrt S xs \<Longrightarrow> sorted_wrt (\<lambda>x y. R x y \<and> S x y) xs"
  by (induction xs) auto

lemma sorted_wrt_before:
  "distinct ns \<Longrightarrow> find_node ns a < find_node ns b \<Longrightarrow> sorted_wrt (\<lambda>x y. (y, x) \<noteq> (a, b)) ns"
proof (induction ns)
  case (Cons n ns)
  show ?case
  proof (cases "n = a")
    case True
    then have "sorted_wrt (\<lambda>x y. (y, x) \<noteq> (a, b)) ns" using Cons.prems(1)
      by (intro sorted_wrt_mono_rel [OF _ sorted_wrt_true]) auto
    then show ?thesis using Cons.prems True by auto
  next
    case False
    then show ?thesis using Cons by (auto split: if_splits)
  qed
qed simp

lemma topological_connect:
  assumes top: "topological g" and ab: "a \<noteq> b"
    and "b \<notin> set (fg_nodes g) \<or> runs_before a b (fg_nodes g) \<or> (\<forall>c. (b, c) \<notin> set (fg_edges g))"
  shows "topological (connect a b g)"
proof (cases "runs_before a b (fg_nodes g)")
  case True
  then have "sorted_wrt (\<lambda>x y. (y, x) \<noteq> (a, b)) (fg_nodes g)"
    using top by (intro sorted_wrt_before) (auto simp: topological_def runs_before_def)
  moreover have "sorted_wrt (\<lambda>x y. (y, x) \<notin> set (fg_edges g)) (fg_nodes g)" using top by (simp add: topological_def)
  ultimately have "sorted_wrt (\<lambda>x y. (y, x) \<noteq> (a, b) \<and> (y, x) \<notin> set (fg_edges g)) (fg_nodes g)"
    by (rule sorted_wrt_conj)
  then have "sorted_wrt (\<lambda>x y. (y, x) \<notin> set (fg_edges g @ [(a, b)])) (fg_nodes g)"
    by (rule sorted_wrt_mono_rel [rotated]) auto
  then show ?thesis using True top ab runs_before_first [OF True]
    by (auto simp: topological_def connect_stays runs_before_def)
next
  case False
  note t = top [unfolded topological_def]
  let ?ns = "if a \<in> set (fg_nodes g) then fg_nodes g else fg_nodes g @ [a]"
  have leaves: "(b, c) \<notin> set (fg_edges g)" for c using assms(3) False t by auto
  have absent: "(a, c) \<notin> set (fg_edges g)" "(c, a) \<notin> set (fg_edges g)" if "a \<notin> set (fg_nodes g)" for c
    using t that by auto
  have sorted: "sorted_wrt (\<lambda>x y. (y, x) \<notin> set (fg_edges g)) ?ns" using t absent by (auto simp: sorted_wrt_append)
  have "distinct ?ns" using t by auto
  have nodes: "fg_nodes (connect a b g) = remove1 b ?ns @ [b]"
  proof (cases "b \<in> set (fg_nodes g)")
    case True
    then show ?thesis by (rule connect_moves [OF ab _ False])
  next
    case notin: False
    then show ?thesis using connect_new [OF ab notin] ab by (simp add: remove1_idem)
  qed
  have "sorted_wrt (\<lambda>x y. (y, x) \<notin> set (fg_edges g @ [(a, b)])) (remove1 b ?ns @ [b])"
    by (rule sorted_wrt_last [OF sorted_wrt_remove1 [OF sorted]]) (use \<open>distinct ?ns\<close> leaves in auto)
  moreover have "distinct (remove1 b ?ns @ [b])" using \<open>distinct ?ns\<close> by auto
  moreover have "set (remove1 b ?ns @ [b]) = insert b (insert a (set (fg_nodes g)))" using \<open>distinct ?ns\<close> by auto
  ultimately show ?thesis using t ab unfolding topological_def nodes connect_edges by auto
qed

text \<open>
  C16. Connecting two plugins in a graph whose nodes are in a right order keeps the order right exactly
  if the second plugin is new, is already run after the first, or feeds nothing yet: otherwise its node
  is moved behind the nodes it feeds, which then work on the data of the run before.
\<close>

theorem connect_keeps_order_iff:
  assumes "topological g" and "a \<noteq> b"
  shows "topological (connect a b g) \<longleftrightarrow>
    b \<notin> set (fg_nodes g) \<or> runs_before a b (fg_nodes g) \<or> (\<forall>c. (b, c) \<notin> set (fg_edges g))"
proof
  assume new: "topological (connect a b g)"
  show "b \<notin> set (fg_nodes g) \<or> runs_before a b (fg_nodes g) \<or> (\<forall>c. (b, c) \<notin> set (fg_edges g))"
  proof (rule ccontr)
    assume neg: "\<not> ?thesis"
    then obtain c where bc: "(b, c) \<in> set (fg_edges g)" by blast
    then have c: "c \<in> set (fg_nodes g)" "c \<noteq> b" using assms(1) by (auto simp: topological_def)
    let ?ns = "if a \<in> set (fg_nodes g) then fg_nodes g else fg_nodes g @ [a]"
    have "fg_nodes (connect a b g) = remove1 b ?ns @ [b]" using neg assms(2) by (intro connect_moves) auto
    moreover have "c \<in> set (remove1 b ?ns)" using c by (simp add: in_set_remove1)
    ultimately have "sorted_wrt (\<lambda>x y. (y, x) \<notin> set (fg_edges g @ [(a, b)])) (remove1 b ?ns @ [b])"
      using new by (simp add: topological_def)
    then have "(b, c) \<notin> set (fg_edges g @ [(a, b)])" using \<open>c \<in> set (remove1 b ?ns)\<close>
      unfolding sorted_wrt_append by (metis list.set_intros(1))
    then show False using bc by simp
  qed
qed (rule topological_connect [OF assms])

section \<open>A run solves the network\<close>

text \<open>
  Plugins that have a state of their own: what one writes to its output, if it has one, the number it
  returns and its next state depend on its state and its inputs only. It may leave anything in its input
  buffers (a pipelined plugin swaps them away).
\<close>

definition own_state ::
    "('p, 'p \<Rightarrow> 'st, 'b) processor \<Rightarrow> ('p \<Rightarrow> 'st \<Rightarrow> 'b list \<Rightarrow> 'st \<times> 'b \<times> int) \<Rightarrow> bool" where
  "own_state process step =
     (\<forall>p s ins outs. \<exists>ins'. length ins' = length ins \<and>
        (case step p (s p) ins of (st, b, ret) \<Rightarrow>
           process p (s, ins, outs) = ((s(p := st), ins', map (\<lambda>_. b) outs), Inr ret)))"

definition own_metadata ::
    "('p, 'p \<Rightarrow> 'st, 'm) metadata_processor \<Rightarrow> ('p \<Rightarrow> 'st \<Rightarrow> 'm list \<Rightarrow> 'st \<times> 'm list) \<Rightarrow> bool" where
  "own_metadata process_metadata mstep =
     (\<forall>p. case process_metadata p of
            None \<Rightarrow> \<forall>st mds. mstep p st mds = (st, mds)
          | Some f \<Rightarrow> \<forall>s mds. f s mds = (case mstep p (s p) mds of (st, out) \<Rightarrow> (s(p := st), out)))"

text \<open>The plugins that feed a plugin, in the order of its inputs.\<close>

definition feeders :: "('p \<times> 'p) list \<Rightarrow> 'p \<Rightarrow> 'p list" where
  "feeders es p = map fst (filter (\<lambda>e. snd e = p) es)"

text \<open>
  The equations of the network: \<open>out\<close> and \<open>mds\<close> are what every plugin puts out, \<open>s\<close> and \<open>s'\<close> the
  states before and after.
\<close>

definition equation ::
    "('p \<Rightarrow> 'st \<Rightarrow> 'b list \<Rightarrow> 'st \<times> 'b \<times> int) \<Rightarrow> ('p \<Rightarrow> 'st \<Rightarrow> 'm list \<Rightarrow> 'st \<times> 'm list) \<Rightarrow> ('p \<times> 'p) list \<Rightarrow>
     ('p \<Rightarrow> 'st) \<Rightarrow> ('p \<Rightarrow> 'st) \<Rightarrow> ('p \<Rightarrow> 'b) \<Rightarrow> ('p \<Rightarrow> 'm list) \<Rightarrow> 'p \<Rightarrow> bool" where
  "equation step mstep es s s' out mds p =
     (case step p (s p) (map out (feeders es p)) of (st, b, ret) \<Rightarrow>
        ret \<noteq> 0 \<and> b = out p \<and> mstep p st (concat (map mds (feeders es p))) = (s' p, mds p))"

definition network_ok :: "'p flowgraph \<Rightarrow> ('s, 'b, 'm) network \<Rightarrow> bool" where
  "network_ok g n = (length (net_buffers n) = length (fg_edges g) \<and> length (net_metadata n) = length (fg_edges g))"

text \<open>The nodes \<open>us\<close> have run: what they put out waits for the nodes that have not.\<close>

definition waiting ::
    "('p \<times> 'p) list \<Rightarrow> 'p set \<Rightarrow> ('p \<Rightarrow> 'b) \<Rightarrow> ('p \<Rightarrow> 'm list) \<Rightarrow> ('s, 'b, 'm) network \<Rightarrow> bool" where
  "waiting es us out mds n =
     (length (net_buffers n) = length es \<and> length (net_metadata n) = length es \<and>
      (\<forall>i < length es. fst (es ! i) \<in> us \<and> snd (es ! i) \<notin> us \<longrightarrow>
         net_buffers n ! i = out (fst (es ! i)) \<and> net_metadata n ! i = mds (fst (es ! i))))"

lemma length_put_all [simp]: "length (put_all is xs ys) = length ys"
  by (induction "is" xs ys rule: put_all.induct) auto

lemma put_all_other: "i \<notin> set is \<Longrightarrow> put_all is xs ys ! i = ys ! i"
  by (induction "is" xs ys rule: put_all.induct) auto

lemma put_all_const:
  "i \<in> set is \<Longrightarrow> i < length ys \<Longrightarrow> put_all is (map (\<lambda>_. x) is) ys ! i = x"
proof (induction "is" arbitrary: ys)
  case (Cons j js)
  then show ?case by (cases "i \<in> set js") (auto simp: put_all_other)
qed simp

lemma in_edges_feeders: "map (\<lambda>i. f (fst (es ! i))) (in_edges es p) = map f (feeders es p)"
proof -
  have "map (\<lambda>i. fst (es ! i)) (in_edges es p) = map fst (filter (\<lambda>e. snd e = p) (map ((!) es) [0..<length es]))"
    by (simp add: in_edges_def filter_map o_def)
  then have "map (\<lambda>i. fst (es ! i)) (in_edges es p) = feeders es p" by (simp add: map_nth feeders_def)
  then show ?thesis by (metis (no_types, lifting) list.map_comp map_cong o_apply)
qed

lemma node_process_step:
  assumes own: "own_state process step" "own_metadata process_metadata mstep"
    and w: "waiting es us out mds n" and p: "p \<notin> us" "\<forall>a \<in> set (feeders es p). a \<in> us" 
    and st: "step p (net_plugins n p) (map out (feeders es p)) = (st, b, ret)"
    and ms: "mstep p st (concat (map mds (feeders es p))) = (st', ms)"
  shows "\<exists>n'. node_process process process_metadata es p n = (n', Inr ret) \<and>
    net_plugins n' = (net_plugins n)(p := st') \<and> waiting es (insert p us) (out(p := b)) (mds(p := ms)) n'"
proof -
  let ?ins = "in_edges es p" and ?outs = "out_edges es p"
  have range: "i < length es \<and> snd (es ! i) = p \<and> fst (es ! i) \<in> us" if "i \<in> set ?ins" for i
    using that p(2) by (auto simp: in_edges_def feeders_def)
  have outs: "i < length es \<and> fst (es ! i) = p" if "i \<in> set ?outs" for i
    using that by (auto simp: out_edges_def)
  have "map ((!) (net_buffers n)) ?ins = map (\<lambda>i. out (fst (es ! i))) ?ins"
    using w range p(1) by (auto simp: waiting_def)
  then have bufs: "map ((!) (net_buffers n)) ?ins = map out (feeders es p)" by (simp add: in_edges_feeders)
  have "map ((!) (net_metadata n)) ?ins = map (\<lambda>i. mds (fst (es ! i))) ?ins"
    using w range p(1) by (auto simp: waiting_def)
  then have metas: "map ((!) (net_metadata n)) ?ins = map mds (feeders es p)" by (simp add: in_edges_feeders)
  obtain ins' where pr: "process p (net_plugins n, map ((!) (net_buffers n)) ?ins, map ((!) (net_buffers n)) ?outs) =
      (((net_plugins n)(p := st), ins', map (\<lambda>_. b) ?outs), Inr ret)"
    using own(1) [unfolded own_state_def, rule_format, of "map out (feeders es p)" p "net_plugins n" "map ((!) (net_buffers n)) ?outs"]
    by (auto simp: bufs st o_def)
  let ?n = "\<lparr>net_plugins = (net_plugins n)(p := st'),
              net_buffers = put_all ?outs (map (\<lambda>_. b) ?outs) (put_all ?ins ins' (net_buffers n)),
              net_metadata = put_all ?outs (map (\<lambda>_. ms) ?outs) (put_all ?ins (map (\<lambda>_. []) ?ins) (net_metadata n))\<rparr>"
  have "node_process process process_metadata es p n = (?n, Inr ret)"
    using own(2) [unfolded own_metadata_def, rule_format, of p] ms
    by (cases "process_metadata p") (auto simp: node_process_def node_metadata_def pr metas Let_def)
  moreover have "waiting es (insert p us) (out(p := b)) (mds(p := ms)) ?n"
    unfolding waiting_def
  proof (intro conjI allI impI)
    fix i assume i: "i < length es" and e: "fst (es ! i) \<in> insert p us \<and> snd (es ! i) \<notin> insert p us"
    then have notin: "i \<notin> set ?ins" using range by blast
    have here: "i \<in> set ?outs \<longleftrightarrow> fst (es ! i) = p" using i by (auto simp: out_edges_def)
    have before: "net_buffers n ! i = out (fst (es ! i)) \<and> net_metadata n ! i = mds (fst (es ! i))" if "fst (es ! i) \<noteq> p"
      using w i e that by (auto simp: waiting_def)
    have len: "i < length (net_buffers n)" "i < length (net_metadata n)" using w i by (auto simp: waiting_def)
    show "net_buffers ?n ! i = (out(p := b)) (fst (es ! i))" and "net_metadata ?n ! i = (mds(p := ms)) (fst (es ! i))"
      using here before notin len by (auto simp: put_all_const put_all_other)
  qed (use w in \<open>auto simp: waiting_def\<close>)
  ultimately show ?thesis by (intro exI [of _ ?n]) simp
qed

lemma equation_cong:
  "(\<And>a. a \<in> insert p (set (feeders es p)) \<Longrightarrow> out a = out' a \<and> mds a = mds' a) \<Longrightarrow> s p = t p \<Longrightarrow> s' p = t' p \<Longrightarrow>
   equation step mstep es s s' out mds p = equation step mstep es t t' out' mds' p"
proof -
  assume a: "\<And>a. a \<in> insert p (set (feeders es p)) \<Longrightarrow> out a = out' a \<and> mds a = mds' a" "s p = t p" "s' p = t' p"
  then have m: "map out (feeders es p) = map out' (feeders es p)" "map mds (feeders es p) = map mds' (feeders es p)" by auto
  have "out p = out' p" "mds p = mds' p" using a(1) [of p] by auto
  then show ?thesis unfolding equation_def m using a(2,3) by simp
qed

text \<open>An order in which every node comes after its feeders.\<close>

fun run_order :: "('p \<times> 'p) list \<Rightarrow> 'p set \<Rightarrow> 'p list \<Rightarrow> bool" where
  "run_order es us [] = True"
| "run_order es us (p # ps) = (p \<notin> us \<and> set (feeders es p) \<subseteq> us \<and> run_order es (insert p us) ps)"

lemma run_order_fresh: "run_order es us ps \<Longrightarrow> p \<in> set ps \<Longrightarrow> p \<notin> us"
  by (induction ps arbitrary: us) auto

lemma run_nodes_solves:
  assumes own: "own_state process step" "own_metadata process_metadata mstep"
  shows "run_order es us ps \<Longrightarrow> waiting es us out mds n \<Longrightarrow>
    run_nodes process process_metadata es ps n = (n', Inr True) \<Longrightarrow>
    \<exists>out' mds'. (\<forall>a \<in> us. out' a = out a \<and> mds' a = mds a) \<and> (\<forall>p. p \<notin> set ps \<longrightarrow> net_plugins n' p = net_plugins n p) \<and>
      (\<forall>p \<in> set ps. equation step mstep es (net_plugins n) (net_plugins n') out' mds' p)"
proof (induction ps arbitrary: us out mds n)
  case (Cons p ps)
  obtain st b ret where st: "step p (net_plugins n p) (map out (feeders es p)) = (st, b, ret)" by (metis prod_cases3)
  obtain st' ms where ms: "mstep p st (concat (map mds (feeders es p))) = (st', ms)" by force
  obtain n1 where n1: "node_process process process_metadata es p n = (n1, Inr ret)"
      "net_plugins n1 = (net_plugins n)(p := st')" "waiting es (insert p us) (out(p := b)) (mds(p := ms)) n1"
    using node_process_step [OF own Cons.prems(2) _ _ st ms] Cons.prems(1) by auto
  have ret: "ret \<noteq> 0" and rest: "run_nodes process process_metadata es ps n1 = (n', Inr True)"
    using Cons.prems(3) n1(1) by (auto split: if_splits)
  obtain out' mds' where ih: "\<forall>a \<in> insert p us. out' a = (out(p := b)) a \<and> mds' a = (mds(p := ms)) a"
      "\<forall>q. q \<notin> set ps \<longrightarrow> net_plugins n' q = net_plugins n1 q"
      "\<forall>q \<in> set ps. equation step mstep es (net_plugins n1) (net_plugins n') out' mds' q"
    using Cons.IH [OF _ n1(3) rest] Cons.prems(1) by auto
  have p: "p \<notin> us" "set (feeders es p) \<subseteq> us" "p \<notin> set ps"
    using Cons.prems(1) run_order_fresh [of es "insert p us" ps p] by auto
  have m: "map (out(p := b)) (feeders es p) = map out (feeders es p)" "map (mds(p := ms)) (feeders es p) = map mds (feeders es p)"
    using p by auto
  have "equation step mstep es (net_plugins n) (net_plugins n') (out(p := b)) (mds(p := ms)) p"
    unfolding equation_def m st using ms ret p(3) ih(2) n1(2) by simp
  also have "equation step mstep es (net_plugins n) (net_plugins n') (out(p := b)) (mds(p := ms)) p =
      equation step mstep es (net_plugins n) (net_plugins n') out' mds' p"
    using ih(1) p(2) by (intro equation_cong) auto
  finally have "equation step mstep es (net_plugins n) (net_plugins n') out' mds' p" .
  moreover have "equation step mstep es (net_plugins n) (net_plugins n') out' mds' q" if "q \<in> set ps" for q
    using bspec [OF ih(3) that] n1(2) p(3) that by (subst equation_cong) auto
  ultimately have "\<forall>q \<in> set (p # ps). equation step mstep es (net_plugins n) (net_plugins n') out' mds' q" by simp
  moreover have "\<forall>a \<in> us. out' a = out a \<and> mds' a = mds a" using ih(1) p(1) by (metis fun_upd_apply insertI2)
  moreover have "\<forall>q. q \<notin> set (p # ps) \<longrightarrow> net_plugins n' q = net_plugins n q" using ih(2) n1(2) by auto
  ultimately show ?case by blast
next
  case Nil
  then show ?case by (intro exI [of _ out] exI [of _ mds]) simp
qed

lemma solution_runs:
  assumes own: "own_state process step" "own_metadata process_metadata mstep"
  shows "run_order es us ps \<Longrightarrow> waiting es us out mds n \<Longrightarrow>
    \<forall>p \<in> set ps. equation step mstep es (net_plugins n) s' out mds p \<Longrightarrow> \<forall>p. p \<notin> set ps \<longrightarrow> s' p = net_plugins n p \<Longrightarrow>
    \<exists>n'. run_nodes process process_metadata es ps n = (n', Inr True) \<and> net_plugins n' = s'"
proof (induction ps arbitrary: us n)
  case (Cons p ps)
  obtain st b ret where st: "step p (net_plugins n p) (map out (feeders es p)) = (st, b, ret)" by (metis prod_cases3)
  have eq: "ret \<noteq> 0" "b = out p" "mstep p st (concat (map mds (feeders es p))) = (s' p, mds p)"
    using Cons.prems(3) st by (auto simp: equation_def)
  obtain n1 where n1: "node_process process process_metadata es p n = (n1, Inr ret)"
      "net_plugins n1 = (net_plugins n)(p := s' p)" "waiting es (insert p us) out mds n1"
    using node_process_step [OF own Cons.prems(2) _ _ st eq(3)] Cons.prems(1) eq(2) by auto
  have p: "p \<notin> set ps" using Cons.prems(1) run_order_fresh [of es "insert p us" ps p] by auto
  have "\<forall>q \<in> set ps. equation step mstep es (net_plugins n1) s' out mds q"
  proof
    fix q assume q: "q \<in> set ps"
    then have "equation step mstep es (net_plugins n) s' out mds q" using Cons.prems(3) by simp
    then show "equation step mstep es (net_plugins n1) s' out mds q" using n1(2) p q by (subst equation_cong) auto
  qed
  moreover have "run_order es (insert p us) ps" using Cons.prems(1) by simp
  moreover have "\<forall>q. q \<notin> set ps \<longrightarrow> s' q = net_plugins n1 q" using Cons.prems(4) n1(2) by auto
  ultimately obtain n' where "run_nodes process process_metadata es ps n1 = (n', Inr True)" "net_plugins n' = s'"
    using Cons.IH [OF _ n1(3)] by blast
  then show ?case using n1(1) eq(1) by auto
qed (auto intro: ext)

lemma sorted_run_order:
  "distinct (us @ ps) \<Longrightarrow> \<forall>(a, b) \<in> set es. a \<in> set (us @ ps) \<Longrightarrow> \<forall>a. (a, a) \<notin> set es \<Longrightarrow>
   sorted_wrt (\<lambda>a b. (b, a) \<notin> set es) (us @ ps) \<Longrightarrow> run_order es (set us) ps"
proof (induction ps arbitrary: us)
  case (Cons p ps)
  have "a \<in> set us" if "a \<in> set (feeders es p)" for a
  proof -
    have e: "(a, p) \<in> set es" using that by (auto simp: feeders_def)
    then have "a \<in> set (us @ p # ps)" "a \<noteq> p" using Cons.prems(2,3) by auto
    moreover have "a \<notin> set ps" using Cons.prems(4) e by (auto simp: sorted_wrt_append)
    ultimately show ?thesis by auto
  qed
  moreover have "run_order es (set (us @ [p])) ps" using Cons.prems by (intro Cons.IH) auto
  ultimately show ?case using Cons.prems(1) by auto
qed simp

text \<open>
  C17. In a graph whose nodes are in a right order, and with plugins that have a state of their own, a
  run that ends well has solved the equations of the network: every plugin worked on what its feeders
  put out in this run, data and metadata, whatever the buffers held before. And when the equations have
  a solution the run ends well, in the states of that solution.
\<close>

theorem run_solves_network:
  assumes "topological g" and "network_ok g n" and own: "own_state process step" "own_metadata process_metadata mstep"
  shows "(\<exists>n'. run_flowgraph process process_metadata g n = (n', Inr True) \<and> net_plugins n' = s') \<longleftrightarrow>
    (\<exists>out mds. (\<forall>p \<in> set (fg_nodes g). equation step mstep (fg_edges g) (net_plugins n) s' out mds p) \<and>
       (\<forall>p. p \<notin> set (fg_nodes g) \<longrightarrow> s' p = net_plugins n p))"
proof -
  have order: "run_order (fg_edges g) {} (fg_nodes g)"
    using sorted_run_order [of "[]" "fg_nodes g" "fg_edges g"] assms(1) by (auto simp: topological_def)
  have w: "waiting (fg_edges g) {} out mds n" for out mds using assms(2) by (simp add: waiting_def network_ok_def)
  show ?thesis unfolding run_flowgraph_def
    using run_nodes_solves [OF own order w] solution_runs [OF own order w] by blast
qed

section \<open>Witnesses\<close>

text \<open>A source that counts, a plugin that doubles, and one that adds what both put out to its state.\<close>

fun example_step :: "nat \<Rightarrow> nat \<Rightarrow> nat list \<Rightarrow> nat \<times> nat \<times> int" where
  "example_step p st ins =
     (if p = 0 then (st + 1, st + 1, 1) else if p = 1 then (st, 2 * sum_list ins, 1) else (st + sum_list ins, 0, 1))"

fun example_process :: "(nat, nat \<Rightarrow> nat, nat) processor" where
  "example_process p (s, ins, outs) =
     (case example_step p (s p) ins of (st, b, ret) \<Rightarrow> ((s(p := st), map (\<lambda>_. 0) ins, map (\<lambda>_. b) outs), Inr ret))"

definition example_metadata :: "(nat, nat \<Rightarrow> nat, string) metadata_processor" where
  "example_metadata p = (if p = 0 then Some (\<lambda>s mds. (s, [''time''])) else None)"

definition example_graph :: "nat flowgraph" where
  "example_graph = connect_all [(0, 1), (1, 2), (0, 2)] Flowgraph"

theorem connect_keeps_order_iff_witness:
  "topological (connect_all [(1, 2)] Flowgraph :: nat flowgraph) \<and>
   fg_nodes (connect 0 1 (connect_all [(1, 2)] Flowgraph :: nat flowgraph)) = [2, 0, 1] \<and>
   \<not> topological (connect 0 1 (connect_all [(1, 2)] Flowgraph :: nat flowgraph))"
proof -
  have g: "connect_all [(1, 2)] Flowgraph = \<lparr>fg_nodes = [1, 2 :: nat], fg_edges = [(1, 2)]\<rparr>" by code_simp
  have "topological \<lparr>fg_nodes = [1, 2 :: nat], fg_edges = [(1, 2)]\<rparr>" by (auto simp: topological_def)
  moreover have "\<not> runs_before 0 1 [1, 2 :: nat]" by code_simp
  moreover have "fg_nodes (connect 0 1 \<lparr>fg_nodes = [1, 2 :: nat], fg_edges = [(1, 2)]\<rparr>) = [2, 0, 1]" by code_simp
  ultimately show ?thesis unfolding g using connect_keeps_order_iff [of "\<lparr>fg_nodes = [1, 2 :: nat], fg_edges = [(1, 2)]\<rparr>" 0 1] by auto
qed

theorem run_solves_network_witness:
  "\<exists>n'. run_flowgraph example_process example_metadata example_graph (new_network 7 (\<lambda>_. 10) example_graph) = (n', Inr True) \<and>
     net_plugins n' = (\<lambda>_. 10)(0 := 11, 2 := 43)"
proof -
  have g: "example_graph = \<lparr>fg_nodes = [0, 1, 2], fg_edges = [(0, 1), (1, 2), (0, 2)]\<rparr>" by code_simp
  let ?n = "new_network 7 (\<lambda>_. 10) example_graph :: (nat \<Rightarrow> nat, nat, string) network"
  let ?mstep = "\<lambda>p st mds. (st, if p = (0 :: nat) then [''time''] else mds)"
  have "topological example_graph" by (auto simp: g topological_def)
  moreover have "network_ok example_graph ?n" by (simp add: network_ok_def new_network_def)
  moreover have "own_state example_process example_step" unfolding own_state_def
    by (intro allI, rule_tac x = "map (\<lambda>_. 0) ins" in exI) auto
  moreover have "own_metadata example_metadata ?mstep" by (auto simp: own_metadata_def example_metadata_def)
  ultimately have "(\<exists>n'. run_flowgraph example_process example_metadata example_graph ?n = (n', Inr True) \<and>
      net_plugins n' = (\<lambda>_. 10)(0 := 11, 2 := 43)) \<longleftrightarrow>
    (\<exists>out mds. (\<forall>p \<in> set (fg_nodes example_graph).
        equation example_step ?mstep (fg_edges example_graph) (net_plugins ?n) ((\<lambda>_. 10)(0 := 11, 2 := 43)) out mds p) \<and>
      (\<forall>p. p \<notin> set (fg_nodes example_graph) \<longrightarrow> ((\<lambda>_. 10)(0 := 11, 2 := 43)) p = net_plugins ?n p))"
    by (rule run_solves_network)
  moreover have "\<forall>p \<in> set (fg_nodes example_graph).
      equation example_step ?mstep (fg_edges example_graph) (net_plugins ?n) ((\<lambda>_. 10)(0 := 11, 2 := 43))
        ((\<lambda>_. 0)(0 := 11, 1 := 22)) ((\<lambda>_. [''time''])(2 := [''time'', ''time''])) p"
    by (simp add: g new_network_def equation_def feeders_def)
  moreover have "\<forall>p. p \<notin> set (fg_nodes example_graph) \<longrightarrow> ((\<lambda>_. 10)(0 := 11, 2 := 43)) p = net_plugins ?n p"
    by (simp add: g new_network_def)
  ultimately show ?thesis by blast
qed

end
