(* ===== verification/Threadsafe_Queue.thy ===== *)
theory Threadsafe_Queue
  imports State_Error "HOL-Library.Sublist"
begin

text \<open>
  The queue between two threads of \<open>lib/ThreadsafeQueue.h\<close>. Every operation holds the queue's mutex
  from its start to its end, except while it waits, so an operation that does not wait is one step on
  the queue's state. An operation that would wait has an outcome of its own: the thread is to repeat it
  when another thread has changed the queue. The notifications of the condition variables are that
  repetition; the two overloads of \<open>push\<close> and \<open>push_overflow\<close>, which copy or move the element, are one
  definition.
\<close>

section \<open>Operations\<close>

record 'a ts_queue =
  the_queue :: "'a list"
  wakeup_requested :: bool

definition ThreadsafeQueue :: "'a ts_queue" where
  "ThreadsafeQueue = \<lparr>the_queue = [], wakeup_requested = False\<rparr>"

definition push :: "'a \<Rightarrow> nat \<Rightarrow> 'a ts_queue \<Rightarrow> 'a ts_queue \<times> nat" where
  "push val max_size q =
     (let queue_size_before = length (the_queue q);
          q = (if max_size = 0 then q\<lparr>the_queue := the_queue q @ [val]\<rparr>
               else if queue_size_before < max_size then q\<lparr>the_queue := the_queue q @ [val]\<rparr>
               else q)
      in (q, length (the_queue q)))"

text \<open>The loop of \<open>push_overflow\<close>: the remaining elements, and whether one was removed.\<close>

fun make_room :: "nat \<Rightarrow> 'a list \<Rightarrow> 'a list \<times> bool" where
  "make_room max_size [] = ([], False)"
| "make_room max_size (x # xs) =
     (if max_size \<le> length (x # xs) then (fst (make_room max_size xs), True) else (x # xs, False))"

definition push_overflow :: "'a \<Rightarrow> nat \<Rightarrow> 'a ts_queue \<Rightarrow> 'a ts_queue \<times> (bool \<times> nat) result" where
  "push_overflow val max_size q =
     (if max_size = 0 then (q, Inl (AssertionFailure ''max_size > 0''))
      else
        (let (rest, overflow) = make_room max_size (the_queue q);
             q = q\<lparr>the_queue := rest @ [val]\<rparr>
         in (q, Inr (overflow, length (the_queue q)))))"

text \<open>\<open>None\<close>: the producer waits.\<close>

definition push_wait_if_full :: "'a \<Rightarrow> nat \<Rightarrow> 'a ts_queue \<Rightarrow> ('a ts_queue \<times> nat) option" where
  "push_wait_if_full val threshold q =
     (if threshold \<le> length (the_queue q) then None
      else (let q = q\<lparr>the_queue := the_queue q @ [val]\<rparr> in Some (q, length (the_queue q))))"

definition trigger_wakeup :: "'a ts_queue \<Rightarrow> 'a ts_queue" where
  "trigger_wakeup q = q\<lparr>wakeup_requested := True\<rparr>"

definition queue_empty :: "'a ts_queue \<Rightarrow> bool" where
  "queue_empty q = (the_queue q = [])"

definition queue_size :: "'a ts_queue \<Rightarrow> nat" where
  "queue_size q = length (the_queue q)"

definition try_pop :: "'a ts_queue \<Rightarrow> 'a ts_queue \<times> 'a option" where
  "try_pop q =
     (case the_queue q of
        [] \<Rightarrow> (q, None)
      | x # xs \<Rightarrow> (q\<lparr>the_queue := xs\<rparr>, Some x))"

datatype 'a pop_outcome = Waits | Wakeup | Popped 'a

text \<open>
  \<open>Wakeup\<close> is the exception \<open>ThreadsafeQueueWakeup\<close>. With a prebuffering of zero the element at the
  front of an empty queue would be taken.
\<close>

definition wait_and_pop :: "nat \<Rightarrow> 'a ts_queue \<Rightarrow> 'a ts_queue \<times> 'a pop_outcome result" where
  "wait_and_pop prebuffering q =
     (if length (the_queue q) < prebuffering \<and> \<not> wakeup_requested q then (q, Inr Waits)
      else if wakeup_requested q then (q\<lparr>wakeup_requested := False\<rparr>, Inr Wakeup)
      else
        (case the_queue q of
           [] \<Rightarrow> (q, Inl (UndefinedBehaviour ''front of an empty queue''))
         | x # xs \<Rightarrow> (q\<lparr>the_queue := xs\<rparr>, Inr (Popped x))))"

definition map_queue :: "('a \<Rightarrow> 'r) \<Rightarrow> 'a ts_queue \<Rightarrow> 'r list" where
  "map_queue func q = map func (the_queue q)"

section \<open>The contract of a queue\<close>

text \<open>
  What the users of a queue rely on: an element put in comes last, an element taken out came first,
  and taking fails only when there is none. Whatever two threads do, the elements taken and those
  left are then the elements put in, in their order.
\<close>

locale fifo =
  fixes ok :: "'q \<Rightarrow> bool"
    and contents :: "'q \<Rightarrow> 'a list"
    and put :: "'a \<Rightarrow> 'q \<Rightarrow> 'q"
    and take_one :: "'q \<Rightarrow> ('q \<times> 'a) option"
  assumes ok_put: "ok q \<Longrightarrow> ok (put x q)"
    and contents_put: "ok q \<Longrightarrow> contents (put x q) = contents q @ [x]"
    and take_none: "ok q \<Longrightarrow> take_one q = None \<longleftrightarrow> contents q = []"
    and take_some: "ok q \<Longrightarrow> take_one q = Some (q', x) \<Longrightarrow> ok q' \<and> contents q = x # contents q'"
begin

fun runs :: "'a option list \<Rightarrow> 'q \<Rightarrow> 'q \<times> 'a list" where
  "runs [] q = (q, [])"
| "runs (Some x # ops) q = runs ops (put x q)"
| "runs (None # ops) q =
     (case take_one q of
        None \<Rightarrow> runs ops q
      | Some (q, x) \<Rightarrow> (case runs ops q of (q, xs) \<Rightarrow> (q, x # xs)))"

lemma runs_in_order:
  "ok q \<Longrightarrow> snd (runs ops q) @ contents (fst (runs ops q)) = contents q @ map the (filter (\<lambda>op. op \<noteq> None) ops)"
proof (induction ops q rule: runs.induct)
  case (2 x ops q)
  then show ?case by (simp add: ok_put contents_put)
next
  case (3 ops q)
  show ?case
  proof (cases "take_one q")
    case None
    then show ?thesis using 3 by simp
  next
    case (Some p)
    then obtain q' x where p: "take_one q = Some (q', x)" by (cases p) auto
    note t = take_some [OF \<open>ok q\<close> p]
    have "snd (runs ops q') @ contents (fst (runs ops q')) = contents q' @ map the (filter (\<lambda>op. op \<noteq> None) ops)"
      using 3(2) [OF p refl] t by simp
    then show ?thesis using p t by (cases "runs ops q'") simp
  qed
qed simp

end

text \<open>The blocking operations without a limit, as the pipelines use them.\<close>

definition pop_one :: "'a ts_queue \<Rightarrow> ('a ts_queue \<times> 'a) option" where
  "pop_one q = (case wait_and_pop 1 q of (q, Inr (Popped x)) \<Rightarrow> Some (q, x) | _ \<Rightarrow> None)"

lemma push_unlimited: "push x 0 q = (q\<lparr>the_queue := the_queue q @ [x]\<rparr>, Suc (length (the_queue q)))"
  by (simp add: push_def)

lemma pop_one_cases:
  "\<not> wakeup_requested q \<Longrightarrow>
   pop_one q = (case the_queue q of [] \<Rightarrow> None | x # xs \<Rightarrow> Some (q\<lparr>the_queue := xs\<rparr>, x))"
  by (auto simp: pop_one_def wait_and_pop_def split: list.splits)

interpretation unlimited: fifo "\<lambda>q. \<not> wakeup_requested q" the_queue "\<lambda>x q. fst (push x 0 q)" pop_one
  by unfold_locales (auto simp: push_unlimited pop_one_cases split: list.splits)

section \<open>Order and bound\<close>

datatype 'a queue_op = Push 'a nat | PushOverflow 'a nat | PushWait 'a nat | TriggerWakeup | TryPop | WaitAndPop

text \<open>One operation of either thread: the queue afterwards and the elements delivered.\<close>

fun queue_step :: "'a queue_op \<Rightarrow> 'a ts_queue \<Rightarrow> 'a ts_queue \<times> 'a list" where
  "queue_step (Push x n) q = (fst (push x n q), [])"
| "queue_step (PushOverflow x n) q = (fst (push_overflow x n q), [])"
| "queue_step (PushWait x n) q = (case push_wait_if_full x n q of None \<Rightarrow> (q, []) | Some (q, _) \<Rightarrow> (q, []))"
| "queue_step TriggerWakeup q = (trigger_wakeup q, [])"
| "queue_step TryPop q = (case try_pop q of (q, None) \<Rightarrow> (q, []) | (q, Some x) \<Rightarrow> (q, [x]))"
| "queue_step WaitAndPop q = (case wait_and_pop 1 q of (q, Inr (Popped x)) \<Rightarrow> (q, [x]) | (q, _) \<Rightarrow> (q, []))"

fun queue_run :: "'a queue_op list \<Rightarrow> 'a ts_queue \<Rightarrow> 'a ts_queue \<times> 'a list" where
  "queue_run [] q = (q, [])"
| "queue_run (op # ops) q =
     (case queue_step op q of (q, xs) \<Rightarrow> case queue_run ops q of (q, ys) \<Rightarrow> (q, xs @ ys))"

fun offered :: "'a queue_op \<Rightarrow> 'a list" where
  "offered (Push x n) = [x]"
| "offered (PushOverflow x n) = [x]"
| "offered (PushWait x n) = [x]"
| "offered _ = []"

text \<open>The limit an operation keeps to: how long the queue may be after it has added an element.\<close>

fun keeps_limit :: "nat \<Rightarrow> 'a queue_op \<Rightarrow> bool" where
  "keeps_limit m (Push x n) = (0 < n \<and> n \<le> m)"
| "keeps_limit m (PushOverflow x n) = (n \<le> m)"
| "keeps_limit m (PushWait x n) = (n \<le> m)"
| "keeps_limit m _ = True"

lemma make_room_suffix: "\<exists>ys. xs = ys @ fst (make_room n xs)"
proof (induction n xs rule: make_room.induct)
  case (2 n x xs)
  show ?case
  proof (cases "n \<le> length (x # xs)")
    case True
    then obtain ys where "xs = ys @ fst (make_room n xs)" using 2 by auto
    then have "x # xs = (x # ys) @ fst (make_room n (x # xs))" using True by simp
    then show ?thesis by blast
  qed simp
qed simp

lemma make_room_length: "0 < n \<Longrightarrow> length (fst (make_room n xs)) < n"
  by (induction n xs rule: make_room.induct) auto

lemma make_room_fits: "length xs < n \<Longrightarrow> make_room n xs = (xs, False)"
  by (cases xs) auto

lemma make_room_full: "length xs = n \<Longrightarrow> 0 < n \<Longrightarrow> make_room n xs = (tl xs, True)"
  by (cases xs) (auto simp: make_room_fits)

lemma subseq_append_right: "subseq xs ys \<Longrightarrow> subseq (xs @ zs) (ys @ zs)"
  by (rule list_emb_append_mono) auto

lemma queue_step_order: "queue_step op q = (q', xs) \<Longrightarrow> subseq (xs @ the_queue q') (the_queue q @ offered op)"
proof (cases op)
  case (PushOverflow x n)
  assume "queue_step op q = (q', xs)"
  moreover obtain ys where "the_queue q = ys @ fst (make_room n (the_queue q))" using make_room_suffix by blast
  then have "subseq (fst (make_room n (the_queue q)) @ [x]) (the_queue q @ [x])"
    by (metis list_emb_append2 subseq_append_right subseq_order.order_refl)
  ultimately show ?thesis using PushOverflow
    by (auto simp: push_overflow_def split: if_splits prod.splits)
qed (auto simp: push_def push_wait_if_full_def trigger_wakeup_def try_pop_def wait_and_pop_def Let_def
  split: if_splits list.splits)

lemma queue_step_limit:
  assumes "queue_step op q = (q', xs)" and "keeps_limit m op" and "length (the_queue q) \<le> m"
  shows "length (the_queue q') \<le> m"
proof (cases op)
  case (PushOverflow x n)
  then show ?thesis using assms make_room_length [of n "the_queue q"]
    by (auto simp: push_overflow_def split: if_splits prod.splits)
qed (use assms in \<open>auto simp: push_def push_wait_if_full_def trigger_wakeup_def try_pop_def wait_and_pop_def Let_def
  split: if_splits list.splits\<close>)

lemma queue_run_order:
  "queue_run ops q = (q', xs) \<Longrightarrow> subseq (xs @ the_queue q') (the_queue q @ concat (map offered ops))"
proof (induction ops arbitrary: q q' xs)
  case (Cons op ops)
  obtain q1 ys where step: "queue_step op q = (q1, ys)" by force
  obtain zs where rest: "queue_run ops q1 = (q', zs)" and xs: "xs = ys @ zs"
    using Cons.prems step by (auto split: prod.splits)
  have "subseq (ys @ zs @ the_queue q') (ys @ the_queue q1 @ concat (map offered ops))"
    using Cons.IH [OF rest] by (rule subseq_append' [THEN iffD2])
  also have "subseq \<dots> (the_queue q @ offered op @ concat (map offered ops))"
    using subseq_append_right [OF queue_step_order [OF step], of "concat (map offered ops)"] by simp
  finally show ?case by (simp add: xs)
qed simp

lemma queue_run_limit:
  "queue_run ops q = (q', xs) \<Longrightarrow> list_all (keeps_limit m) ops \<Longrightarrow> length (the_queue q) \<le> m \<Longrightarrow> length (the_queue q') \<le> m"
proof (induction ops arbitrary: q q' xs)
  case (Cons op ops)
  obtain q1 ys where step: "queue_step op q = (q1, ys)" by force
  then obtain zs where "queue_run ops q1 = (q', zs)" using Cons.prems by (auto split: prod.splits)
  then show ?case using Cons.IH queue_step_limit [OF step] Cons.prems by auto
qed simp

text \<open>Operations that lose nothing, whatever the state.\<close>

fun lossless :: "'a queue_op \<Rightarrow> bool" where
  "lossless (Push x n) = (n = 0)"
| "lossless (PushOverflow x n) = False"
| "lossless (PushWait x n) = False"
| "lossless _ = True"

lemma queue_run_lossless:
  "queue_run ops q = (q', xs) \<Longrightarrow> list_all lossless ops \<Longrightarrow> xs @ the_queue q' = the_queue q @ concat (map offered ops)"
proof (induction ops arbitrary: q q' xs)
  case (Cons op ops)
  obtain q1 ys where step: "queue_step op q = (q1, ys)" by force
  then obtain zs where "queue_run ops q1 = (q', zs)" and xs: "xs = ys @ zs"
    using Cons.prems by (auto split: prod.splits)
  with Cons have "zs @ the_queue q' = the_queue q1 @ concat (map offered ops)" by simp
  moreover have "ys @ the_queue q1 = the_queue q @ offered op" using step Cons.prems(2)
    by (cases op) (auto simp: push_def trigger_wakeup_def try_pop_def wait_and_pop_def split: if_splits list.splits)
  ultimately show ?case using xs by (metis append.assoc concat.simps(2) list.simps(9))
qed simp

text \<open>
  Over any sequence of operations of the two threads the elements delivered and those left in the
  queue are a subsequence of the elements offered, in their order, and nothing is missing when no push
  has a limit; a queue all of whose pushes have a limit of at most \<open>m\<close> never holds more than \<open>m\<close>
  elements.
\<close>

lemma queue_order_and_bound:
  assumes "queue_run ops ThreadsafeQueue = (q', xs)"
  shows "subseq (xs @ the_queue q') (concat (map offered ops)) \<and>
    (list_all lossless ops \<longrightarrow> xs @ the_queue q' = concat (map offered ops)) \<and>
    (list_all (keeps_limit m) ops \<longrightarrow> (\<forall>k. queue_size (fst (queue_run (take k ops) ThreadsafeQueue)) \<le> m))"
proof (intro conjI impI allI)
  show "subseq (xs @ the_queue q') (concat (map offered ops))"
    using queue_run_order [OF assms] by (simp add: ThreadsafeQueue_def)
  show "xs @ the_queue q' = concat (map offered ops)" if "list_all lossless ops"
    using queue_run_lossless [OF assms that] by (simp add: ThreadsafeQueue_def)
  show "queue_size (fst (queue_run (take k ops) ThreadsafeQueue)) \<le> m" if "list_all (keeps_limit m) ops" for k
  proof -
    obtain q1 ys where r: "queue_run (take k ops) ThreadsafeQueue = (q1, ys)" by force
    have "list_all (keeps_limit m) (take k ops)" using that by (auto simp: list_all_iff dest: in_set_takeD)
    then show ?thesis using queue_run_limit [OF r] r by (simp add: ThreadsafeQueue_def queue_size_def)
  qed
qed

lemma queue_order_and_bound_witness:
  "let ops = [PushOverflow (1::nat) 2, PushOverflow 2 2, PushOverflow 3 2, WaitAndPop, TriggerWakeup, TryPop, WaitAndPop];
       (q', xs) = queue_run ops ThreadsafeQueue
   in xs = [2, 3] \<and> \<not> wakeup_requested q' \<and> subseq xs [1, 2, 3] \<and>
      (\<forall>k. queue_size (fst (queue_run (take k ops) ThreadsafeQueue)) \<le> 2)"
proof -
  define ops where "ops = [PushOverflow (1::nat) 2, PushOverflow 2 2, PushOverflow 3 2, WaitAndPop, TriggerWakeup, TryPop, WaitAndPop]"
  have run: "queue_run ops ThreadsafeQueue = (\<lparr>the_queue = [], wakeup_requested = False\<rparr>, [2, 3])"
    unfolding ops_def by code_simp
  have "list_all (keeps_limit 2) ops" unfolding ops_def by code_simp
  with queue_order_and_bound [OF run, where m = 2] show ?thesis
    unfolding ops_def [symmetric] Let_def run by (simp add: ops_def)
qed

end
