(* ===== verification/Mod_Plugin.thy ===== *)
theory Mod_Plugin
  imports Threadsafe_Queue
begin

text \<open>
  The kinds of flowgraph elements (\<open>src/ModPlugin.cpp\<close>): how many buffers each is given, and
  \<open>PipelinedModCodec\<close>, which hands its input to a thread of its own and returns what the thread made of
  the input of the call before. The two threads are a step relation: each step is what one of them does
  between two accesses to a queue or to \<open>m_running\<close>. The lemmas follow the buffers through the queues.
\<close>

section \<open>The number of buffers\<close>

text \<open>
  The adapters from vectors of buffers to the virtual \<open>process\<close> of each kind, an argument here. It gets
  the state of the plugin and its buffers and leaves them changed.
\<close>

type_synonym ('s, 'b) vector_process = "'s \<times> 'b list \<times> 'b list \<Rightarrow> ('s \<times> 'b list \<times> 'b list) \<times> int result"

fun ModInput_process :: "('s \<times> 'b \<Rightarrow> ('s \<times> 'b) \<times> int result) \<Rightarrow> ('s, 'b) vector_process" where
  "ModInput_process process (s, dataIn, dataOut) =
     (if dataIn \<noteq> [] then ((s, dataIn, dataOut), Inl (RuntimeError ''Assertion failure: dataIn.empty() for ''))
      else if length dataOut \<noteq> 1 then ((s, dataIn, dataOut), Inl (RuntimeError ''Assertion failure: dataOut.size() == 1 for ''))
      else (case process (s, dataOut ! 0) of ((s, out), ret) \<Rightarrow> ((s, [], [out]), ret)))"

fun ModCodec_process :: "('s \<times> 'b \<times> 'b \<Rightarrow> ('s \<times> 'b \<times> 'b) \<times> int result) \<Rightarrow> ('s, 'b) vector_process" where
  "ModCodec_process process (s, dataIn, dataOut) =
     (if length dataIn \<noteq> 1 then ((s, dataIn, dataOut), Inl (RuntimeError ''Assertion failure: dataIn.size() == 1 for ''))
      else if length dataOut \<noteq> 1 then ((s, dataIn, dataOut), Inl (RuntimeError ''Assertion failure: dataOut.size() == 1 for ''))
      else (case process (s, dataIn ! 0, dataOut ! 0) of ((s, inp, out), ret) \<Rightarrow> ((s, [inp], [out]), ret)))"

fun ModMux_process :: "('s \<times> 'b list \<times> 'b \<Rightarrow> ('s \<times> 'b list \<times> 'b) \<times> int result) \<Rightarrow> ('s, 'b) vector_process" where
  "ModMux_process process (s, dataIn, dataOut) =
     (if dataIn = [] then ((s, dataIn, dataOut), Inl (RuntimeError ''Assertion failure: not dataIn.empty() for ''))
      else if length dataOut \<noteq> 1 then ((s, dataIn, dataOut), Inl (RuntimeError ''Assertion failure: dataOut.size() == 1 for ''))
      else (case process (s, dataIn, dataOut ! 0) of ((s, ins, out), ret) \<Rightarrow> ((s, ins, [out]), ret)))"

fun ModOutput_process :: "('s \<times> 'b \<Rightarrow> ('s \<times> 'b) \<times> int result) \<Rightarrow> ('s, 'b) vector_process" where
  "ModOutput_process process (s, dataIn, dataOut) =
     (if length dataIn \<noteq> 1 then ((s, dataIn, dataOut), Inl (RuntimeError ''Assertion failure: dataIn.size() == 1 for ''))
      else if dataOut \<noteq> [] then ((s, dataIn, dataOut), Inl (RuntimeError ''Assertion failure: dataOut.empty() for ''))
      else (case process (s, dataIn ! 0) of ((s, inp), ret) \<Rightarrow> ((s, [inp], []), ret)))"

section \<open>Pipelined codecs\<close>

text \<open>
  Where the two threads are. The caller of \<open>process\<close> is outside, has found the codec running, has put
  its input into the queue, or waits in \<open>stop_pipeline_thread\<close> for the other thread to end. The thread
  tests \<open>m_running\<close>, waits for an input, works on it, hands the output over, or has left its loop.
\<close>

datatype caller = Outside | Entered bytes | Pushed bytes | Joining

datatype worker = Testing | Popping | Working bytes | HandingOver bytes | Leaving | Ended

text \<open>
  The members of the class and the places of the two threads. \<open>codec\<close> is the state of the derived class.
  The last four are a record of what happened, not part of the program: the buffers the calls have put in
  and returned, those the thread has worked on, and the empty one that made it leave its loop.
\<close>

record 'st pipelined =
  m_ready_to_output_data :: bool
  m_input_queue :: "bytes ts_queue"
  m_output_queue :: "bytes ts_queue"
  m_running :: bool
  caller_at :: caller
  worker_at :: worker
  codec :: 'st
  inputs :: "bytes list"
  outputs :: "bytes list"
  finished :: "bytes list"
  dropped :: "bytes list"

definition start_pipeline_thread :: "'st \<Rightarrow> 'st pipelined" where
  "start_pipeline_thread st =
     \<lparr>m_ready_to_output_data = False, m_input_queue = ThreadsafeQueue, m_output_queue = ThreadsafeQueue,
      m_running = True, caller_at = Outside, worker_at = Testing, codec = st, inputs = [], outputs = [],
      finished = [], dropped = []\<rparr>"

text \<open>
  A call of \<open>process\<close>, from its test of \<open>m_running\<close> to its return. The input is swapped against an empty
  buffer and moved into the queue. The first call has nothing to return yet: it gives the output the
  length that the input has now, which is that of the empty buffer, fills it with zeros and returns the
  length.
\<close>

definition call_process :: "bytes \<Rightarrow> 'st pipelined \<Rightarrow> 'st pipelined" where
  "call_process dataIn p = p\<lparr>caller_at := (if m_running p then Entered dataIn else Outside)\<rparr>"

definition push_input :: "bytes \<Rightarrow> 'st pipelined \<Rightarrow> 'st pipelined" where
  "push_input dataIn p =
     (let inbuffer = dataIn; dataIn = []
      in p\<lparr>m_input_queue := fst (push inbuffer 0 (m_input_queue p)), caller_at := Pushed dataIn,
           inputs := inputs p @ [inbuffer]\<rparr>)"

definition take_output :: "bytes \<Rightarrow> 'st pipelined \<Rightarrow> 'st pipelined option" where
  "take_output dataIn p =
     (if m_ready_to_output_data p
      then (case wait_and_pop 1 (m_output_queue p) of
              (q, Inr (Popped outbuffer)) \<Rightarrow>
                Some (p\<lparr>m_output_queue := q, caller_at := Outside, outputs := outputs p @ [outbuffer]\<rparr>)
            | _ \<Rightarrow> None)
      else Some (p\<lparr>m_ready_to_output_data := True, caller_at := Outside,
                   outputs := outputs p @ [replicate (length dataIn) 0]\<rparr>))"

definition stop_pipeline_thread :: "'st pipelined \<Rightarrow> 'st pipelined" where
  "stop_pipeline_thread p = p\<lparr>m_input_queue := fst (push [] 0 (m_input_queue p)), caller_at := Joining\<rparr>"

text \<open>
  One step of \<open>process_thread\<close>. \<open>internal_process\<close> is the derived class's: it gets its state and the input
  and returns its state, the output, which it writes completely, and a number.
\<close>

definition thread_step :: "('st \<Rightarrow> bytes \<Rightarrow> 'st \<times> bytes \<times> int) \<Rightarrow> 'st pipelined \<Rightarrow> 'st pipelined option" where
  "thread_step internal_process p =
     (case worker_at p of
        Testing \<Rightarrow> Some (p\<lparr>worker_at := (if m_running p then Popping else Leaving)\<rparr>)
      | Popping \<Rightarrow>
          (case wait_and_pop 1 (m_input_queue p) of
             (q, Inr (Popped dataIn)) \<Rightarrow>
               Some (if length dataIn = 0 then p\<lparr>m_input_queue := q, worker_at := Leaving, dropped := [dataIn]\<rparr>
                     else p\<lparr>m_input_queue := q, worker_at := Working dataIn\<rparr>)
           | _ \<Rightarrow> None)
      | Working dataIn \<Rightarrow>
          (case internal_process (codec p) dataIn of (st, dataOut, ret) \<Rightarrow>
             Some (p\<lparr>codec := st, worker_at := HandingOver dataOut, finished := finished p @ [dataIn],
                     m_running := (if ret = 0 then False else m_running p)\<rparr>))
      | HandingOver dataOut \<Rightarrow>
          Some (p\<lparr>m_output_queue := fst (push dataOut 0 (m_output_queue p)), worker_at := Testing\<rparr>)
      | Leaving \<Rightarrow> Some (p\<lparr>m_running := False, worker_at := Ended\<rparr>)
      | Ended \<Rightarrow> None)"

inductive pipeline_step :: "('st \<Rightarrow> bytes \<Rightarrow> 'st \<times> bytes \<times> int) \<Rightarrow> 'st pipelined \<Rightarrow> 'st pipelined \<Rightarrow> bool"
  for internal_process where
  calls: "caller_at p = Outside \<Longrightarrow> pipeline_step internal_process p (call_process dataIn p)"
| pushes: "caller_at p = Entered dataIn \<Longrightarrow> pipeline_step internal_process p (push_input dataIn p)"
| returns: "caller_at p = Pushed dataIn \<Longrightarrow> take_output dataIn p = Some p' \<Longrightarrow> pipeline_step internal_process p p'"
| stops: "caller_at p = Outside \<Longrightarrow> pipeline_step internal_process p (stop_pipeline_thread p)"
| works: "thread_step internal_process p = Some p' \<Longrightarrow> pipeline_step internal_process p p'"

inductive pipeline_reachable :: "('st \<Rightarrow> bytes \<Rightarrow> 'st \<times> bytes \<times> int) \<Rightarrow> 'st \<Rightarrow> 'st pipelined \<Rightarrow> bool"
  for internal_process st where
  starts: "pipeline_reachable internal_process st (start_pipeline_thread st)"
| steps: "pipeline_reachable internal_process st p \<Longrightarrow> pipeline_step internal_process p p' \<Longrightarrow>
    pipeline_reachable internal_process st p'"

text \<open>The metadata's way around the thread.\<close>

definition pipelined_metadata :: "'m list \<Rightarrow> 'm list list \<Rightarrow> 'm list list \<times> 'm list" where
  "pipelined_metadata metadataIn m_metadata_fifo =
     (let m_metadata_fifo = m_metadata_fifo @ [metadataIn]
      in if length m_metadata_fifo = 2 then (tl m_metadata_fifo, hd m_metadata_fifo) else (m_metadata_fifo, []))"

fun metadata_run :: "'m list list \<Rightarrow> 'm list list \<Rightarrow> 'm list list" where
  "metadata_run ahead [] = []"
| "metadata_run ahead (md # mds) = (case pipelined_metadata md ahead of (ahead, out) \<Rightarrow> out # metadata_run ahead mds)"

text \<open>What the codec makes of a sequence of buffers without a pipeline.\<close>

fun codec_run :: "('st \<Rightarrow> bytes \<Rightarrow> 'st \<times> bytes \<times> int) \<Rightarrow> 'st \<Rightarrow> bytes list \<Rightarrow> 'st \<times> bytes list" where
  "codec_run internal_process st [] = (st, [])"
| "codec_run internal_process st (x # xs) =
     (case internal_process st x of (st, y, _) \<Rightarrow>
        (case codec_run internal_process st xs of (st, ys) \<Rightarrow> (st, y # ys)))"

section \<open>The way of the buffers\<close>

lemma codec_run_append:
  "codec_run ip st (xs @ ys) =
     (case codec_run ip st xs of (st, us) \<Rightarrow> case codec_run ip st ys of (st, vs) \<Rightarrow> (st, us @ vs))"
  by (induction xs arbitrary: st) (auto split: prod.splits)

lemma codec_run_length: "codec_run ip st xs = (st', ys) \<Longrightarrow> length ys = length xs"
  by (induction xs arbitrary: st st' ys) (auto split: prod.splits)

text \<open>What the thread has in its hands: the input it works on, the output it hands over.\<close>

fun held_input :: "worker \<Rightarrow> bytes list" where
  "held_input (Working d) = [d]"
| "held_input _ = []"

fun held_output :: "worker \<Rightarrow> bytes list" where
  "held_output (HandingOver d) = [d]"
| "held_output _ = []"

text \<open>
  The invariant, in parts: where the inputs are, what the thread made of those it has worked on and where
  that is, and how many calls are under way.
\<close>

definition queues_inv :: "'st pipelined \<Rightarrow> bool" where
  "queues_inv p =
     (\<not> wakeup_requested (m_input_queue p) \<and> \<not> wakeup_requested (m_output_queue p) \<and>
      inputs p @ (if caller_at p = Joining then [[]] else []) =
        finished p @ held_input (worker_at p) @ dropped p @ the_queue (m_input_queue p) \<and>
      [] \<notin> set (finished p @ held_input (worker_at p)) \<and>
      (dropped p = [] \<or> dropped p = [[]] \<and> worker_at p \<in> {Leaving, Ended}))"

definition results_inv :: "('st \<Rightarrow> bytes \<Rightarrow> 'st \<times> bytes \<times> int) \<Rightarrow> 'st \<Rightarrow> 'st pipelined \<Rightarrow> bool" where
  "results_inv ip st p =
     (codec_run ip st (finished p) = (codec p, tl (outputs p) @ the_queue (m_output_queue p) @ held_output (worker_at p)) \<and>
      (if m_ready_to_output_data p then outputs p \<noteq> [] \<and> hd (outputs p) = [] else outputs p = []))"

definition calls_inv :: "'st pipelined \<Rightarrow> bool" where
  "calls_inv p =
     (length (inputs p) = length (outputs p) + (case caller_at p of Pushed _ \<Rightarrow> 1 | _ \<Rightarrow> 0) \<and>
      (\<forall>d. caller_at p = Pushed d \<longrightarrow> d = []))"

text \<open>
  Once the codec has stopped, the calls that are still under way have at most one input more than the
  thread has finished, so that none of them waits for an output that will not come.
\<close>

definition stopped_inv :: "'st pipelined \<Rightarrow> bool" where
  "stopped_inv p =
     ((worker_at p \<in> {Leaving, Ended} \<longrightarrow> \<not> m_running p \<or> dropped p \<noteq> []) \<and>
      (\<not> m_running p \<and> dropped p = [] \<and> caller_at p \<noteq> Joining \<longrightarrow>
         length (the_queue (m_input_queue p)) + length (held_input (worker_at p)) \<le> (case caller_at p of Entered _ \<Rightarrow> 0 | _ \<Rightarrow> 1)))"

lemmas pipeline_invs = queues_inv_def results_inv_def calls_inv_def stopped_inv_def

lemma pop_front:
  "\<not> wakeup_requested q \<Longrightarrow>
   wait_and_pop 1 q = (case the_queue q of [] \<Rightarrow> (q, Inr Waits) | x # xs \<Rightarrow> (q\<lparr>the_queue := xs\<rparr>, Inr (Popped x)))"
  by (auto simp: wait_and_pop_def split: list.splits)

definition pipeline_inv :: "('st \<Rightarrow> bytes \<Rightarrow> 'st \<times> bytes \<times> int) \<Rightarrow> 'st \<Rightarrow> 'st pipelined \<Rightarrow> bool" where
  "pipeline_inv ip st p = (queues_inv p \<and> results_inv ip st p \<and> calls_inv p \<and> stopped_inv p)"

lemma start_inv: "pipeline_inv ip st (start_pipeline_thread st)"
  by (simp add: pipeline_inv_def pipeline_invs start_pipeline_thread_def ThreadsafeQueue_def)

text \<open>The steps of the thread, one by one.\<close>

lemma thread_step_cases [consumes 2, case_names test pop_empty pop_data work hand leave]:
  assumes "thread_step ip p = Some p'" and "\<not> wakeup_requested (m_input_queue p)"
  obtains "worker_at p = Testing" "p' = p\<lparr>worker_at := (if m_running p then Popping else Leaving)\<rparr>"
  | xs where "worker_at p = Popping" "the_queue (m_input_queue p) = [] # xs"
      "p' = p\<lparr>m_input_queue := (m_input_queue p)\<lparr>the_queue := xs\<rparr>, worker_at := Leaving, dropped := [[]]\<rparr>"
  | d xs where "worker_at p = Popping" "the_queue (m_input_queue p) = d # xs" "d \<noteq> []"
      "p' = p\<lparr>m_input_queue := (m_input_queue p)\<lparr>the_queue := xs\<rparr>, worker_at := Working d\<rparr>"
  | d st out ret where "worker_at p = Working d" "ip (codec p) d = (st, out, ret)"
      "p' = p\<lparr>codec := st, worker_at := HandingOver out, finished := finished p @ [d],
            m_running := (if ret = 0 then False else m_running p)\<rparr>"
  | d where "worker_at p = HandingOver d"
      "p' = p\<lparr>m_output_queue := (m_output_queue p)\<lparr>the_queue := the_queue (m_output_queue p) @ [d]\<rparr>, worker_at := Testing\<rparr>"
  | "worker_at p = Leaving" "p' = p\<lparr>m_running := False, worker_at := Ended\<rparr>"
proof (cases "worker_at p")
  case Testing
  with assms(1) show ?thesis by (intro that(1)) (simp_all add: thread_step_def)
next
  case Popping
  show ?thesis
  proof (cases "the_queue (m_input_queue p)")
    case Nil
    with assms(1) Popping pop_front [OF assms(2)] show ?thesis by (simp add: thread_step_def)
  next
    case (Cons d xs)
    show ?thesis
    proof (cases "d = []")
      case True
      with assms(1) Popping Cons pop_front [OF assms(2)] show ?thesis by (intro that(2)) (auto simp: thread_step_def)
    next
      case False
      with assms(1) Popping Cons pop_front [OF assms(2)] show ?thesis by (intro that(3)) (auto simp: thread_step_def)
    qed
  qed
next
  case (Working d)
  obtain st out ret where ip: "ip (codec p) d = (st, out, ret)" by (metis prod_cases3)
  show ?thesis by (rule that(4) [OF Working ip]) (use assms(1) Working ip in \<open>simp add: thread_step_def\<close>)
next
  case (HandingOver d)
  with assms(1) show ?thesis by (intro that(5)) (auto simp: thread_step_def push_unlimited)
next
  case Leaving
  with assms(1) show ?thesis by (intro that(6)) (simp_all add: thread_step_def)
next
  case Ended
  with assms(1) show ?thesis by (simp add: thread_step_def)
qed

lemma thread_step_inv:
  assumes inv: "pipeline_inv ip st p" and step: "thread_step ip p = Some p'"
  shows "pipeline_inv ip st p'"
proof -
  have "\<not> wakeup_requested (m_input_queue p)" using inv by (simp add: pipeline_inv_def queues_inv_def)
  from step this show ?thesis
  proof (cases rule: thread_step_cases)
    case (work d st' out ret)
    have "queues_inv p'" "results_inv ip st p'" "calls_inv p'" using inv work
      by (auto simp: pipeline_inv_def queues_inv_def results_inv_def calls_inv_def codec_run_append)
    moreover have "stopped_inv p'"
    proof -
      have "length (finished p) = length (tl (outputs p)) + length (the_queue (m_output_queue p))"
        using inv work codec_run_length by (force simp: pipeline_inv_def results_inv_def)
      moreover have "length (inputs p) = length (finished p) + 1 + length (dropped p) + length (the_queue (m_input_queue p))"
        if "caller_at p \<noteq> Joining"
        using inv work that arg_cong [of "inputs p @ []" _ length] by (simp add: pipeline_inv_def queues_inv_def)
      ultimately show ?thesis using inv work
        by (cases "outputs p") (auto simp: pipeline_inv_def stopped_inv_def calls_inv_def results_inv_def split: caller.splits if_splits)
    qed
    ultimately show ?thesis by (simp add: pipeline_inv_def)
  qed (use inv in \<open>auto simp: pipeline_inv_def pipeline_invs split: caller.splits\<close>)
qed

lemma take_output_cases [consumes 2, case_names first later]:
  assumes "take_output d p = Some p'" and "\<not> wakeup_requested (m_output_queue p)"
  obtains "\<not> m_ready_to_output_data p"
      "p' = p\<lparr>m_ready_to_output_data := True, caller_at := Outside, outputs := outputs p @ [replicate (length d) 0]\<rparr>"
  | y ys where "m_ready_to_output_data p" "the_queue (m_output_queue p) = y # ys"
      "p' = p\<lparr>m_output_queue := (m_output_queue p)\<lparr>the_queue := ys\<rparr>, caller_at := Outside, outputs := outputs p @ [y]\<rparr>"
  using assms(1) pop_front [OF assms(2)] by (auto simp: take_output_def split: list.splits if_splits)

lemma take_output_inv:
  assumes inv: "pipeline_inv ip st p" and "caller_at p = Pushed d" and "take_output d p = Some p'"
  shows "pipeline_inv ip st p'"
proof -
  have "\<not> wakeup_requested (m_output_queue p)" using inv by (simp add: pipeline_inv_def queues_inv_def)
  from assms(3) this show ?thesis
  proof (cases rule: take_output_cases)
    case first
    then show ?thesis using inv assms(2) by (auto simp: pipeline_inv_def pipeline_invs)
  next
    case (later y ys)
    then show ?thesis using inv assms(2) by (auto simp: pipeline_inv_def pipeline_invs)
  qed
qed

lemma pipeline_step_inv:
  assumes inv: "pipeline_inv ip st p" and "pipeline_step ip p p'"
  shows "pipeline_inv ip st p'"
  using assms(2)
proof cases
  case (calls d)
  then show ?thesis using inv by (auto simp: pipeline_inv_def pipeline_invs call_process_def)
next
  case (pushes d)
  then show ?thesis using inv by (auto simp: pipeline_inv_def pipeline_invs push_input_def push_unlimited)
next
  case (returns d)
  then show ?thesis by (rule take_output_inv [OF inv])
next
  case stops
  have q: "queues_inv p" using inv by (simp add: pipeline_inv_def)
  then have i: "inputs p = finished p @ held_input (worker_at p) @ dropped p @ the_queue (m_input_queue p)"
    using stops(2) by (simp add: queues_inv_def)
  have "queues_inv p'" unfolding queues_inv_def stops(1) stop_pipeline_thread_def push_unlimited
    using q i by (simp add: queues_inv_def)
  moreover have "results_inv ip st p'" "calls_inv p'" "stopped_inv p'" unfolding stops(1) using stops(2) inv
    by (simp_all add: pipeline_inv_def results_inv_def calls_inv_def stopped_inv_def stop_pipeline_thread_def)
  ultimately show ?thesis by (simp add: pipeline_inv_def)
next
  case works
  then show ?thesis by (rule thread_step_inv [OF inv])
qed

lemma reachable_inv: "pipeline_reachable ip st p \<Longrightarrow> pipeline_inv ip st p"
  by (induction rule: pipeline_reachable.induct) (auto intro: start_inv pipeline_step_inv)

section \<open>The contract\<close>

lemma codec_run_take: "snd (codec_run ip st (take k xs)) = take k (snd (codec_run ip st xs))"
proof (induction xs arbitrary: st k)
  case (Cons x xs)
  then show ?case by (cases k) (auto split: prod.splits, metis snd_conv)
qed simp

lemma metadata_run_one: "metadata_run [a] mds = take (length mds) (a # mds)"
  by (induction mds arbitrary: a) (simp_all add: pipelined_metadata_def)

lemma metadata_run_late: "metadata_run [] mds = take (length mds) ([] # mds)"
  by (cases mds) (simp_all add: pipelined_metadata_def metadata_run_one)

definition in_flight :: "'st pipelined \<Rightarrow> nat" where
  "in_flight p =
     length (the_queue (m_input_queue p)) + length (held_input (worker_at p)) +
     length (held_output (worker_at p)) + length (the_queue (m_output_queue p))"

lemma inv_counts:
  assumes "pipeline_inv ip st p"
  shows "length (inputs p) + (if caller_at p = Joining then 1 else 0) + length (the_queue (m_output_queue p)) +
      length (held_output (worker_at p)) + length (tl (outputs p)) = length (finished p) + in_flight p + length (dropped p) + length (tl (outputs p))"
    and "length (finished p) = length (tl (outputs p)) + length (the_queue (m_output_queue p)) + length (held_output (worker_at p))"
    and "length (outputs p) \<le> Suc (length (tl (outputs p)))"
    and "length (inputs p) = length (outputs p) + (case caller_at p of Pushed _ \<Rightarrow> 1 | _ \<Rightarrow> 0)"
proof -
  have "length (inputs p @ (if caller_at p = Joining then [[]] else [])) =
      length (finished p @ held_input (worker_at p) @ dropped p @ the_queue (m_input_queue p))"
    using assms unfolding pipeline_inv_def queues_inv_def by metis
  then show "length (inputs p) + (if caller_at p = Joining then 1 else 0) + length (the_queue (m_output_queue p)) +
      length (held_output (worker_at p)) + length (tl (outputs p)) = length (finished p) + in_flight p + length (dropped p) + length (tl (outputs p))"
    by (simp add: in_flight_def split: if_splits)
  show "length (finished p) = length (tl (outputs p)) + length (the_queue (m_output_queue p)) + length (held_output (worker_at p))"
    using assms codec_run_length by (force simp: pipeline_inv_def results_inv_def)
qed (use assms in \<open>auto simp: pipeline_inv_def calls_inv_def\<close>)

text \<open>
  C18. Whatever way the two threads take turns, the calls of \<open>process\<close> return, one call late, what the
  codec makes of their inputs in order: the first call returns an empty buffer, each later one the output
  for the input of the call before; the metadata is delayed by one call as well, so that data and
  metadata stay together. At most two buffers are in the pipeline, although its queues have no limit.
\<close>

theorem pipelined_codec_one_call_late:
  assumes "pipeline_reachable ip st p"
  shows "outputs p = take (length (outputs p)) ([] # snd (codec_run ip st (inputs p))) \<and>
    metadata_run [] mds = take (length mds) ([] # mds) \<and>
    in_flight p \<le> 2 + (if caller_at p = Joining then 1 else 0)"
proof (intro conjI)
  have inv: "pipeline_inv ip st p" using assms by (rule reachable_inv)
  note counts = inv_counts [OF inv]
  let ?k = "length (tl (outputs p))"
  have "tl (outputs p) = take ?k (snd (codec_run ip st (finished p)))"
    using inv by (simp add: pipeline_inv_def results_inv_def)
  also have "\<dots> = snd (codec_run ip st (take ?k (finished p)))" by (simp only: codec_run_take)
  also have "take ?k (finished p) = take ?k (inputs p)"
  proof -
    have "inputs p @ (if caller_at p = Joining then [[]] else []) =
        finished p @ held_input (worker_at p) @ dropped p @ the_queue (m_input_queue p)"
      using inv by (simp add: pipeline_inv_def queues_inv_def)
    moreover have "?k \<le> length (finished p)" "?k \<le> length (inputs p)" using counts by auto
    ultimately show ?thesis by (metis diff_is_0_eq take0 take_append append_Nil2)
  qed
  finally have tl: "tl (outputs p) = take ?k (snd (codec_run ip st (inputs p)))" by (simp only: codec_run_take)
  show "outputs p = take (length (outputs p)) ([] # snd (codec_run ip st (inputs p)))"
  proof (cases "outputs p")
    case (Cons y ys)
    moreover have "y = []" using inv Cons by (simp add: pipeline_inv_def results_inv_def split: if_splits)
    ultimately show ?thesis using tl by simp
  qed simp
  show "metadata_run [] mds = take (length mds) ([] # mds)" by (rule metadata_run_late)
  show "in_flight p \<le> 2 + (if caller_at p = Joining then 1 else 0)" using counts by (auto split: caller.splits)
qed

section \<open>Calls return\<close>

abbreviation thread_steps :: "('st \<Rightarrow> bytes \<Rightarrow> 'st \<times> bytes \<times> int) \<Rightarrow> 'st pipelined \<Rightarrow> 'st pipelined \<Rightarrow> bool" where
  "thread_steps ip \<equiv> (\<lambda>p p'. thread_step ip p = Some p')\<^sup>*\<^sup>*"

text \<open>The call that waits for an output gets it after some steps of the thread.\<close>

definition output_comes :: "('st \<Rightarrow> bytes \<Rightarrow> 'st \<times> bytes \<times> int) \<Rightarrow> bytes \<Rightarrow> 'st pipelined \<Rightarrow> bool" where
  "output_comes ip d p = (\<exists>p'. thread_steps ip p p' \<and> take_output d p' \<noteq> None)"

lemma output_now: "\<not> wakeup_requested (m_output_queue p) \<Longrightarrow> the_queue (m_output_queue p) \<noteq> [] \<or> \<not> m_ready_to_output_data p \<Longrightarrow>
  output_comes ip d p"
  unfolding output_comes_def using pop_front [of "m_output_queue p"]
  by (intro exI [of _ p]) (auto simp: take_output_def split: list.splits)

lemma output_later: "thread_step ip p = Some p' \<Longrightarrow> output_comes ip d p' \<Longrightarrow> output_comes ip d p"
  unfolding output_comes_def by (meson converse_rtranclp_into_rtranclp)

lemma output_from_hand:
  assumes "\<not> wakeup_requested (m_output_queue p)" and "worker_at p = HandingOver y"
  shows "output_comes ip d p"
proof (rule output_later)
  let ?p = "p\<lparr>m_output_queue := (m_output_queue p)\<lparr>the_queue := the_queue (m_output_queue p) @ [y]\<rparr>, worker_at := Testing\<rparr>"
  show "thread_step ip p = Some ?p" using assms(2) by (simp add: thread_step_def push_unlimited)
  show "output_comes ip d ?p" by (rule output_now) (simp_all add: assms(1))
qed

lemma output_from_work:
  assumes "\<not> wakeup_requested (m_output_queue p)" and "worker_at p = Working x"
  shows "output_comes ip d p"
proof -
  obtain st y ret where ip: "ip (codec p) x = (st, y, ret)" by (metis prod_cases3)
  let ?p = "p\<lparr>codec := st, worker_at := HandingOver y, finished := finished p @ [x], m_running := (if ret = 0 then False else m_running p)\<rparr>"
  have "thread_step ip p = Some ?p" using assms(2) ip by (simp add: thread_step_def)
  moreover have "output_comes ip d ?p" by (rule output_from_hand [where y = y]) (simp_all add: assms(1))
  ultimately show ?thesis by (rule output_later)
qed

lemma output_from_queue:
  assumes "\<not> wakeup_requested (m_output_queue p)" and "\<not> wakeup_requested (m_input_queue p)"
    and "worker_at p = Popping" and "the_queue (m_input_queue p) = x # xs" and "x \<noteq> []"
  shows "output_comes ip d p"
proof (rule output_later)
  let ?p = "p\<lparr>m_input_queue := (m_input_queue p)\<lparr>the_queue := xs\<rparr>, worker_at := Working x\<rparr>"
  show "thread_step ip p = Some ?p" using assms pop_front [OF assms(2)] by (simp add: thread_step_def)
  show "output_comes ip d ?p" by (rule output_from_work [where x = x]) (simp_all add: assms(1))
qed

lemma output_from_test:
  assumes "\<not> wakeup_requested (m_output_queue p)" and "\<not> wakeup_requested (m_input_queue p)"
    and "worker_at p = Testing" "m_running p" and "the_queue (m_input_queue p) = x # xs" and "x \<noteq> []"
  shows "output_comes ip d p"
proof (rule output_later)
  show "thread_step ip p = Some (p\<lparr>worker_at := Popping\<rparr>)" using assms by (simp add: thread_step_def)
  show "output_comes ip d (p\<lparr>worker_at := Popping\<rparr>)" by (rule output_from_queue [where x = x]) (simp_all add: assms)
qed

text \<open>How many steps of the thread are left in this round of its loop.\<close>

fun round_left :: "worker \<Rightarrow> nat" where
  "round_left Testing = 2"
| "round_left (Working d) = 4"
| "round_left (HandingOver d) = 3"
| "round_left Leaving = 1"
| "round_left _ = 0"

text \<open>An empty buffer in the queue ends the thread, and what is in front of it is worked on before.\<close>

lemma thread_ends:
  "\<not> wakeup_requested (m_input_queue p) \<Longrightarrow> worker_at p \<in> {Leaving, Ended} \<or> [] \<in> set (the_queue (m_input_queue p)) \<Longrightarrow>
   \<exists>p'. thread_steps ip p p' \<and> worker_at p' = Ended"
proof (induction "(length (the_queue (m_input_queue p)), round_left (worker_at p))"
    arbitrary: p rule: wf_induct_rule [OF wf_lex_prod [OF wf_less_than wf_less_than]])
  case (1 p)
  show ?case
  proof (cases "thread_step ip p")
    case None
    then have "worker_at p = Ended" using 1 pop_front [of "m_input_queue p"]
      by (auto simp: thread_step_def split: worker.splits list.splits prod.splits if_splits)
    then show ?thesis by blast
  next
    case (Some p1)
    from Some 1(2) have "\<exists>p'. thread_steps ip p1 p' \<and> worker_at p' = Ended"
      by (cases rule: thread_step_cases) (use 1(2,3) in \<open>auto intro!: 1(1)\<close>)
    then show ?thesis using Some by (meson converse_rtranclp_into_rtranclp)
  qed
qed

text \<open>
  No call waits for ever: whatever way the threads took turns so far and whatever numbers the codec
  returned, as long as no input was an empty buffer, a call that waits for an output gets one after some
  steps of the other thread; and \<open>stop_pipeline_thread\<close> can join the thread after some steps of it.
\<close>

lemma pipelined_calls_return:
  assumes "pipeline_reachable ip st p" and "[] \<notin> set (inputs p)"
  shows "(\<forall>d. caller_at p = Pushed d \<longrightarrow> (\<exists>p'. thread_steps ip p p' \<and> take_output d p' \<noteq> None)) \<and>
    (caller_at p = Joining \<longrightarrow> (\<exists>p'. thread_steps ip p p' \<and> worker_at p' = Ended))"
proof (intro conjI allI impI)
  have inv: "pipeline_inv ip st p" using assms(1) by (rule reachable_inv)
  have flags: "\<not> wakeup_requested (m_output_queue p)" "\<not> wakeup_requested (m_input_queue p)"
    using inv by (auto simp: pipeline_inv_def queues_inv_def)
  have eq: "inputs p @ (if caller_at p = Joining then [[]] else []) =
      finished p @ held_input (worker_at p) @ dropped p @ the_queue (m_input_queue p)"
    and dr: "dropped p = [] \<or> dropped p = [[]] \<and> worker_at p \<in> {Leaving, Ended}"
    using inv by (auto simp: pipeline_inv_def queues_inv_def)
  { fix d assume at: "caller_at p = Pushed d"
    have in_eq: "inputs p = finished p @ held_input (worker_at p) @ dropped p @ the_queue (m_input_queue p)" using eq at by simp
    have nodrop: "dropped p = []" using in_eq assms(2) dr by auto
    have "output_comes ip d p"
    proof (cases "the_queue (m_output_queue p) = [] \<and> m_ready_to_output_data p \<and> held_output (worker_at p) = []")
      case False
      then show ?thesis using output_now [OF flags(1)] output_from_hand [OF flags(1)] by (cases "worker_at p") auto
    next
      case True
      then have "outputs p \<noteq> []" using inv by (simp add: pipeline_inv_def results_inv_def)
      then have "length (the_queue (m_input_queue p)) + length (held_input (worker_at p)) = 2"
        using inv_counts [OF inv] True at in_eq nodrop by (cases "outputs p") auto
      moreover from this have run: "m_running p" using inv at nodrop by (auto simp: pipeline_inv_def stopped_inv_def)
      moreover have "worker_at p \<notin> {Leaving, Ended}" using inv run nodrop by (auto simp: pipeline_inv_def stopped_inv_def)
      moreover have "x \<noteq> []" if "the_queue (m_input_queue p) = x # xs" for x xs using in_eq assms(2) that by auto
      ultimately show ?thesis using output_from_work [OF flags(1)] output_from_queue [OF flags] output_from_test [OF flags] True
        by (cases "worker_at p"; cases "the_queue (m_input_queue p)") auto
    qed
    then show "\<exists>p'. thread_steps ip p p' \<and> take_output d p' \<noteq> None" by (simp add: output_comes_def)
  }
  show "\<exists>p'. thread_steps ip p p' \<and> worker_at p' = Ended" if "caller_at p = Joining"
  proof (rule thread_ends [OF flags(2)])
    have "set (inputs p @ [[]]) = set (finished p @ held_input (worker_at p) @ dropped p @ the_queue (m_input_queue p))"
      using eq that by simp
    then have "[] \<in> set (dropped p) \<or> [] \<in> set (the_queue (m_input_queue p))"
      using inv by (auto simp: pipeline_inv_def queues_inv_def)
    then show "worker_at p \<in> {Leaving, Ended} \<or> [] \<in> set (the_queue (m_input_queue p))" using dr by auto
  qed
qed

section \<open>Witnesses\<close>

text \<open>A schedule of steps, and a codec that counts its buffers and adds the number to every byte.\<close>

datatype action = Call bytes | Push_input | Return | Stop | Work

fun perform :: "('st \<Rightarrow> bytes \<Rightarrow> 'st \<times> bytes \<times> int) \<Rightarrow> action \<Rightarrow> 'st pipelined \<Rightarrow> 'st pipelined option" where
  "perform ip (Call d) p = (if caller_at p = Outside then Some (call_process d p) else None)"
| "perform ip Push_input p = (case caller_at p of Entered d \<Rightarrow> Some (push_input d p) | _ \<Rightarrow> None)"
| "perform ip Return p = (case caller_at p of Pushed d \<Rightarrow> take_output d p | _ \<Rightarrow> None)"
| "perform ip Stop p = (if caller_at p = Outside then Some (stop_pipeline_thread p) else None)"
| "perform ip Work p = thread_step ip p"

fun perform_all :: "('st \<Rightarrow> bytes \<Rightarrow> 'st \<times> bytes \<times> int) \<Rightarrow> action list \<Rightarrow> 'st pipelined \<Rightarrow> 'st pipelined option" where
  "perform_all ip [] p = Some p"
| "perform_all ip (a # as) p = (case perform ip a p of None \<Rightarrow> None | Some p \<Rightarrow> perform_all ip as p)"

lemma perform_step: "perform ip a p = Some p' \<Longrightarrow> pipeline_step ip p p'"
  by (cases a) (auto intro: pipeline_step.intros split: if_splits caller.splits)

lemma perform_reachable:
  "pipeline_reachable ip st p \<Longrightarrow> perform_all ip as p = Some p' \<Longrightarrow> pipeline_reachable ip st p'"
proof (induction "as" arbitrary: p)
  case (Cons a as)
  then obtain p1 where "perform ip a p = Some p1" "perform_all ip as p1 = Some p'" by (auto split: option.splits)
  with Cons show ?case by (metis perform_step pipeline_reachable.steps)
qed simp

definition counting_codec :: "nat \<Rightarrow> bytes \<Rightarrow> nat \<times> bytes \<times> int" where
  "counting_codec n d = (n + 1, map (\<lambda>b. b + of_nat n) d, int (length d))"

definition three_calls :: "nat pipelined" where
  "three_calls = the (perform_all counting_codec
     ([Call [5, 6], Push_input, Return, Work, Call [7], Push_input, Work, Work, Work, Return, Work] @
      [Call [9], Push_input, Work, Work]) (start_pipeline_thread 1))"

lemma three_calls_reachable: "pipeline_reachable counting_codec 1 three_calls"
proof (rule perform_reachable [OF pipeline_reachable.starts])
  show "perform_all counting_codec
     ([Call [5, 6], Push_input, Return, Work, Call [7], Push_input, Work, Work, Work, Return, Work] @
      [Call [9], Push_input, Work, Work]) (start_pipeline_thread 1) = Some three_calls"
    unfolding three_calls_def by code_simp
qed

lemma three_calls_facts:
  "inputs three_calls = [[5, 6], [7], [9]]" "outputs three_calls = [[], [6, 7]]" "caller_at three_calls = Pushed []"
  "snd (codec_run counting_codec 1 [[5, 6], [7], [9]]) = [[6, 7], [9], [12]]"
  by code_simp+

theorem pipelined_codec_one_call_late_witness:
  "outputs three_calls = take 2 ([] # snd (codec_run counting_codec 1 (inputs three_calls))) \<and>
   outputs three_calls = [[], [6, 7]] \<and> metadata_run [] [[''t1''], [''t2''], [''t3'']] = [[], [''t1''], [''t2'']] \<and>
   in_flight three_calls \<le> 2"
  using pipelined_codec_one_call_late [OF three_calls_reachable, of "[[''t1''], [''t2''], [''t3'']]"]
  by (simp add: three_calls_facts)

lemma pipelined_calls_return_witness:
  "\<exists>p'. thread_steps counting_codec three_calls p' \<and> take_output [] p' \<noteq> None"
  using pipelined_calls_return [OF three_calls_reachable] by (simp add: three_calls_facts)

end
