(* ===== verification/Dab_Modulator.thy ===== *)
theory Dab_Modulator
  imports Flowgraph Mod_Plugin Tii
begin

text \<open>
  The modulator's flowgraph (\<open>src/DabModulator.cpp\<close>): which plugins it has for which settings, and how
  the first call of \<open>process\<close> connects them. What the constructors of the plugins do is an argument
  (\<open>construct\<close> says whether the one of a plugin raises), except that of \<open>TII\<close>, which is taken from its
  own theory: a \<open>TIIError\<close> only leaves the plugin out. The plugins are named by the variables of
  the code, those of a subchannel with its number.
\<close>

section \<open>Transmission modes\<close>

record mode_dims =
  m_nbSymbols :: nat
  m_nbCarriers :: nat
  m_spacing :: nat
  m_nullSize :: nat
  m_symSize :: nat
  m_ficSizeOut :: nat

definition setMode :: "nat \<Rightarrow> mode_dims result" where
  "setMode mode =
     (if mode = 1 then Inr \<lparr>m_nbSymbols = 76, m_nbCarriers = 1536, m_spacing = 2048, m_nullSize = 2656, m_symSize = 2552, m_ficSizeOut = 288\<rparr>
      else if mode = 2 then Inr \<lparr>m_nbSymbols = 76, m_nbCarriers = 384, m_spacing = 512, m_nullSize = 664, m_symSize = 638, m_ficSizeOut = 288\<rparr>
      else if mode = 3 then Inr \<lparr>m_nbSymbols = 153, m_nbCarriers = 192, m_spacing = 256, m_nullSize = 345, m_symSize = 319, m_ficSizeOut = 384\<rparr>
      else if mode = 4 then Inr \<lparr>m_nbSymbols = 76, m_nbCarriers = 768, m_spacing = 1024, m_nullSize = 1328, m_symSize = 1276, m_ficSizeOut = 288\<rparr>
      else Inl (RuntimeError ''DabModulator::setMode invalid mode size''))"

section \<open>The plugins\<close>

datatype mod_node =
    CifPrbs | CifMux | CifPart | CifMap | CifRef | CifFreq | CifDiff | CifNull | CifSig | CifCicEq
  | Tii | TiiRef | CifOfdm | CifGain | CifGuard | CifFilter | CifPoly | CifRes | Format | Output
  | Fic | FicPrbs | FicConv | FicPunc
  | Subch nat | SubchPrbs nat | SubchConv nat | SubchPunc nat | SubchInterleaver nat

datatype fft_engine = FFTW | KISS | DEXTER

record mod_settings =
  dabMode :: nat
  fftEngine :: fft_engine
  clockRate :: nat
  outputRate :: nat
  filterTapsFilename :: string
  polyCoefFilename :: string
  tiiConfig :: tii_config

definition DabModulator :: "mod_settings \<Rightarrow> mode_dims result" where
  "DabModulator s = (if dabMode s = 0 then setMode 1 else setMode (dabMode s))"

definition fixedPoint :: "mod_settings \<Rightarrow> bool" where
  "fixedPoint s = (fftEngine s \<noteq> FFTW)"

text \<open>The constructors of a list of plugins, in turn.\<close>

definition constructs :: "(mod_node \<Rightarrow> unit result) \<Rightarrow> mod_node list \<Rightarrow> unit result" where
  "constructs construct ns = snd (eachS (\<lambda>n (s :: unit). (s, construct n)) ns ())"

text \<open>
  Whether the equaliser for the device's interpolation filter is used, and its ratio (an \<open>unsigned\<close>);
  \<open>clockRate / outputRate\<close> divides by zero if no output rate is set.
\<close>

definition cic_settings :: "mod_settings \<Rightarrow> (bool \<times> nat) result" where
  "cic_settings s =
     (if clockRate s = 0 then Inr (False, 1)
      else if outputRate s = 0 then Inl (UndefinedBehaviour ''division by zero'')
      else
        (let cic_ratio = (clockRate s div outputRate s) mod 2 ^ 32;
             cic_ratio = cic_ratio div 4
         in if clockRate s = 400000000 then Inr (odd cic_ratio, cic_ratio) else Inr (True, cic_ratio)))"

text \<open>
  The plugins of the stages that are not always there. \<open>construct_cif\<close> runs the constructors up to that
  of the output in their order; it returns whether there is a \<open>TII\<close>, and the plugins behind the signal
  multiplexer in the order they are connected.
\<close>

definition construct_tii :: "(mod_node \<Rightarrow> unit result) \<Rightarrow> mod_settings \<Rightarrow> bool result" where
  "construct_tii construct s =
     (case bindE (TII (dabMode s) (tiiConfig s)) (\<lambda>_. construct TiiRef) of
        Inr _ \<Rightarrow> Inr True
      | Inl (TIIError _) \<Rightarrow> Inr False
      | Inl e \<Rightarrow> Inl e)"

definition construct_ofdm :: "(mod_node \<Rightarrow> unit result) \<Rightarrow> bool \<Rightarrow> mod_settings \<Rightarrow> unit result" where
  "construct_ofdm construct have_dexter s =
     (if fftEngine s = DEXTER \<and> \<not> have_dexter
      then Inl (RuntimeError ''Cannot use DEXTER fft engine without --enable-dexter'')
      else construct CifOfdm)"

text \<open>A plugin that the fixed-point modes do not have.\<close>

definition construct_float :: "(mod_node \<Rightarrow> unit result) \<Rightarrow> mod_settings \<Rightarrow> bool \<Rightarrow> string \<Rightarrow> mod_node \<Rightarrow> mod_node list result" where
  "construct_float construct s wanted what n =
     (if \<not> wanted then Inr []
      else if fixedPoint s then Inl (RuntimeError (''fixed point doesn't support '' @ what))
      else bindE (construct n) (\<lambda>_. Inr [n]))"

definition construct_optional :: "(mod_node \<Rightarrow> unit result) \<Rightarrow> bool \<Rightarrow> mod_node \<Rightarrow> mod_node list result" where
  "construct_optional construct wanted n =
     (if wanted then bindE (construct n) (\<lambda>_. Inr [n]) else Inr [])"

definition construct_cif ::
    "(mod_node \<Rightarrow> unit result) \<Rightarrow> bool \<Rightarrow> mod_settings \<Rightarrow> string \<Rightarrow> (bool \<times> mod_node list) result" where
  "construct_cif construct have_dexter s format =
     bindE (constructs construct [CifPrbs, CifMux, CifPart, CifMap, CifRef, CifFreq, CifDiff, CifNull, CifSig]) (\<lambda>_.
     bindE (cic_settings s) (\<lambda>(useCicEq, cic_ratio).
     bindE (construct_optional construct useCicEq CifCicEq) (\<lambda>cicEq.
     bindE (construct_tii construct s) (\<lambda>tii.
     bindE (construct_ofdm construct have_dexter s) (\<lambda>_.
     bindE (construct_optional construct (\<not> fixedPoint s) CifGain) (\<lambda>gain.
     bindE (construct CifGuard) (\<lambda>_.
     bindE (construct_float construct s (filterTapsFilename s \<noteq> []) ''fir filter'' CifFilter) (\<lambda>filter.
     bindE (construct_float construct s (polyCoefFilename s \<noteq> []) ''predistortion'' CifPoly) (\<lambda>poly.
     bindE (construct_float construct s (outputRate s \<noteq> 2048000) ''resampler'' CifRes) (\<lambda>res.
     bindE (construct_optional construct (fftEngine s = FFTW \<and> format \<noteq> [] \<or> fftEngine s = DEXTER) Format) (\<lambda>conv.
     bindE (construct Output) (\<lambda>_.
     Inr (tii, cicEq @ [CifOfdm] @ gain @ [CifGuard] @ filter @ res @ poly @ conv @ [Output])))))))))))))"

section \<open>The connections\<close>

definition fic_connections :: "(mod_node \<times> mod_node) list" where
  "fic_connections = [(Fic, FicPrbs), (FicPrbs, FicConv), (FicConv, FicPunc), (FicPunc, CifPart)]"

definition subchannel_connections :: "nat \<Rightarrow> (mod_node \<times> mod_node) list" where
  "subchannel_connections i =
     [(Subch i, SubchPrbs i), (SubchPrbs i, SubchConv i), (SubchConv i, SubchPunc i),
      (SubchPunc i, SubchInterleaver i), (SubchInterleaver i, CifMux)]"

definition cif_connections :: "bool \<Rightarrow> (mod_node \<times> mod_node) list" where
  "cif_connections tii =
     [(CifMux, CifPart), (CifPart, CifMap), (CifMap, CifFreq), (CifRef, CifDiff), (CifFreq, CifDiff),
      (CifNull, CifSig), (CifDiff, CifSig)] @
     (if tii then [(TiiRef, Tii), (Tii, CifSig)] else [])"

fun chain_connections :: "mod_node \<Rightarrow> mod_node list \<Rightarrow> (mod_node \<times> mod_node) list" where
  "chain_connections prev_plugin [] = []"
| "chain_connections prev_plugin (p # plugins) = (prev_plugin, p) # chain_connections p plugins"

text \<open>
  The first call sets the graph up: \<open>m_flowgraph\<close> is empty (a null pointer) before, and stays set when a
  constructor raises. \<open>n\<close> is the number of subchannels.
\<close>

definition setup_flowgraph ::
    "(mod_node \<Rightarrow> unit result) \<Rightarrow> bool \<Rightarrow> mod_settings \<Rightarrow> string \<Rightarrow> nat \<Rightarrow>
     mod_node flowgraph option \<Rightarrow> mod_node flowgraph option \<times> unit result" where
  "setup_flowgraph construct have_dexter s format n m_flowgraph =
     needS (setMode (dabMode s)) m_flowgraph (\<lambda>_.
     needS (construct_cif construct have_dexter s format) (Some Flowgraph) (\<lambda>(tii, plugins).
     let g = connect CifPrbs CifMux Flowgraph in
     needS (constructs construct [FicPrbs, FicConv, FicPunc]) (Some g) (\<lambda>_.
     map_prod Some id (
       bindS (eachS (\<lambda>i g.
                needS (constructs construct [SubchPrbs i, SubchConv i, SubchPunc i, SubchInterleaver i]) g (\<lambda>_.
                (connect_all (subchannel_connections i) g, Inr ())))
               [0..<n] (connect_all fic_connections g)) (\<lambda>g _.
       (connect_all (chain_connections CifSig plugins) (connect_all (cif_connections tii) g), Inr ()))))))"

text \<open>
  \<open>DabModulator::process\<close>: the graph, and the network of its buffers, metadata and plugins. What the
  plugins do is an argument as in \<open>Flowgraph\<close>, \<open>no_data\<close> is a buffer nothing was written to. The result
  of the run is converted to a number.
\<close>

definition modulator_process ::
    "(mod_node, 's, 'b) processor \<Rightarrow> (mod_node, 's, 'm) metadata_processor \<Rightarrow> 'b \<Rightarrow>
     (mod_node flowgraph option \<Rightarrow> mod_node flowgraph option \<times> unit result) \<Rightarrow>
     mod_node flowgraph option \<times> ('s, 'b, 'm) network \<Rightarrow> (mod_node flowgraph option \<times> ('s, 'b, 'm) network) \<times> int result" where
  "modulator_process process process_metadata no_data setup = (\<lambda>(m_flowgraph, net).
     let (m_flowgraph, net, r) =
       (case m_flowgraph of
          Some g \<Rightarrow> (m_flowgraph, net, Inr ())
        | None \<Rightarrow> (case setup m_flowgraph of
            (None, r) \<Rightarrow> (None, net, r)
          | (Some g, r) \<Rightarrow> (Some g, new_network no_data (net_plugins net) g, r)))
     in (case r of
           Inl e \<Rightarrow> ((m_flowgraph, net), Inl e)
         | Inr _ \<Rightarrow>
             (case m_flowgraph of
                None \<Rightarrow> ((m_flowgraph, net), Inl (UndefinedBehaviour ''null pointer''))
              | Some g \<Rightarrow> (case run_flowgraph process process_metadata g net of
                  (net, r) \<Rightarrow> ((m_flowgraph, net), map_sum id of_bool r)))))"

section \<open>The order and the number of the buffers\<close>

lemma connect_all_append [simp]: "connect_all (es @ fs) g = connect_all fs (connect_all es g)"
  by (induction es g rule: connect_all.induct) auto

lemma connect_all_edges [simp]: "fg_edges (connect_all es g) = fg_edges g @ es"
  by (induction es g rule: connect_all.induct) auto

text \<open>If every plugin is connected to its feeders before it feeds another, the order comes out right.\<close>

definition feeds_later :: "('p \<times> 'p) list \<Rightarrow> bool" where
  "feeds_later es = (sorted_wrt (\<lambda>e f. snd f \<noteq> fst e) es \<and> (\<forall>a. (a, a) \<notin> set es))"

lemma connect_all_topological:
  "topological g \<Longrightarrow> feeds_later (fg_edges g @ es) \<Longrightarrow> topological (connect_all es g)"
proof (induction es arbitrary: g)
  case (Cons e es)
  obtain a b where e: "e = (a, b)" by force
  have "a \<noteq> b" and "\<forall>c. (b, c) \<notin> set (fg_edges g)"
    using Cons.prems(2) e by (auto simp: feeds_later_def sorted_wrt_append)
  then have "topological (connect a b g)" using Cons.prems(1) by (intro topological_connect) auto
  then show ?case using Cons.IH [of "connect a b g"] Cons.prems(2) e by simp
qed simp

lemma topological_new: "topological Flowgraph"
  by (simp add: topological_def Flowgraph_def)

lemma connect_all_nodes:
  "feeds_later (fg_edges g @ es) \<Longrightarrow> topological g \<Longrightarrow>
   set (fg_nodes (connect_all es g)) = set (fg_nodes g) \<union> fst ` set es \<union> snd ` set es"
proof (induction es arbitrary: g)
  case (Cons e es)
  obtain a b where e: "e = (a, b)" by force
  have ab: "a \<noteq> b" and leaf: "\<forall>c. (b, c) \<notin> set (fg_edges g)"
    using Cons.prems(1) e by (auto simp: feeds_later_def sorted_wrt_append)
  then have "topological (connect a b g)" using Cons.prems(2) by (intro topological_connect) auto
  moreover have "set (fg_nodes (connect a b g)) = insert a (insert b (set (fg_nodes g)))"
  proof (cases "b \<in> set (fg_nodes g)")
    case False
    then show ?thesis using connect_new [OF ab False] by auto
  next
    case True
    show ?thesis
    proof (cases "runs_before a b (fg_nodes g)")
      case before: True
      then show ?thesis using True runs_before_first [OF before] by (auto simp: connect_stays)
    next
      case False
      have "distinct (fg_nodes g)" using Cons.prems(2) by (simp add: topological_def)
      then show ?thesis using connect_moves [OF ab True False] True by auto
    qed
  qed
  ultimately show ?case using Cons.IH [of "connect a b g"] Cons.prems(1) e by auto
qed simp

lemma in_edges_length: "length (in_edges es p) = length (filter (\<lambda>e. snd e = p) es)"
  using arg_cong [OF in_edges_feeders [of id es p], of length] by (simp add: feeders_def)

lemma out_edges_length: "length (out_edges es p) = length (filter (\<lambda>e. fst e = p) es)"
proof -
  have "length (out_edges es p) = length (filter (\<lambda>e. fst e = p) (map ((!) es) [0..<length es]))"
    by (simp add: out_edges_def filter_map o_def)
  then show ?thesis by (simp add: map_nth)
qed

text \<open>The connections, in the order they are made.\<close>

definition modulator_edges :: "nat \<Rightarrow> bool \<Rightarrow> mod_node list \<Rightarrow> (mod_node \<times> mod_node) list" where
  "modulator_edges n tii plugins =
     (CifPrbs, CifMux) # fic_connections @ concat (map subchannel_connections [0..<n]) @
     cif_connections tii @ chain_connections CifSig plugins"

lemma setup_subchannels_edges:
  "eachS (\<lambda>i g. needS (constructs construct [SubchPrbs i, SubchConv i, SubchPunc i, SubchInterleaver i]) g (\<lambda>_.
       (connect_all (subchannel_connections i) g, Inr ()))) ns g = (g', Inr ()) \<Longrightarrow>
   g' = connect_all (concat (map subchannel_connections ns)) g"
  by (induction ns arbitrary: g) (auto simp: bindS_Inr_iff needS_def split: sum.splits)

lemma setup_edges:
  assumes "setup_flowgraph construct have_dexter s format n m = (g, Inr ())"
  obtains tii plugins where "construct_cif construct have_dexter s format = Inr (tii, plugins)"
    and "g = Some (connect_all (modulator_edges n tii plugins) Flowgraph)"
  using assms setup_subchannels_edges
  by (fastforce simp: setup_flowgraph_def needS_def Let_def bindS_Inr_iff map_prod_def modulator_edges_def split: sum.splits prod.splits)

abbreviation chain_nodes :: "mod_node set" where
  "chain_nodes \<equiv> {CifCicEq, CifOfdm, CifGain, CifGuard, CifFilter, CifRes, CifPoly, Format, Output}"

definition chain_ok :: "mod_node list \<Rightarrow> bool" where
  "chain_ok plugins = (distinct plugins \<and> set plugins \<subseteq> chain_nodes \<and> plugins \<noteq> [] \<and> last plugins = Output \<and> {CifOfdm, CifGuard} \<subseteq> set plugins)"

lemma construct_optional_cases: "construct_optional construct b n = Inr ns \<Longrightarrow> ns = [] \<or> ns = [n]"
  by (auto simp: construct_optional_def bindE_def split: if_splits sum.splits)

lemma construct_float_cases: "construct_float construct s b what n = Inr ns \<Longrightarrow> ns = [] \<or> ns = [n]"
  by (auto simp: construct_float_def bindE_def split: if_splits sum.splits)

lemma construct_cif_chain:
  assumes "construct_cif construct have_dexter s format = Inr (tii, plugins)"
  shows "chain_ok plugins"
  using assms unfolding construct_cif_def bindE_Inr_iff case_prod_beta chain_ok_def
  by (auto dest!: construct_optional_cases construct_float_cases)

lemma chain_sources: "fst ` set (chain_connections prev ps) \<subseteq> insert prev (set ps)"
  by (induction prev ps rule: chain_connections.induct) auto

lemma chain_targets: "snd ` set (chain_connections prev ps) = set ps"
  by (induction prev ps rule: chain_connections.induct) auto

lemma feeds_later_chain: "distinct (prev # ps) \<Longrightarrow> feeds_later (chain_connections prev ps)"
proof (induction prev ps rule: chain_connections.induct)
  case (2 prev p plugins)
  have "snd e \<noteq> prev" if "e \<in> set (chain_connections p plugins)" for e
    using that chain_targets [of p plugins] 2(2) by (metis distinct.simps(2) imageI list.set_intros(2))
  moreover have "feeds_later (chain_connections p plugins)" using 2 by simp
  ultimately show ?case using 2(2) by (auto simp: feeds_later_def)
qed (simp add: feeds_later_def)

lemma chain_in: "distinct (prev # ps) \<Longrightarrow> length (filter (\<lambda>e. snd e = p) (chain_connections prev ps)) = (if p \<in> set ps then 1 else 0)"
proof (induction prev ps rule: chain_connections.induct)
  case (2 prev q plugins)
  then show ?case using chain_targets [of q plugins] by (auto simp: filter_empty_conv)
qed simp

lemma chain_out:
  "distinct (prev # ps) \<Longrightarrow>
   length (filter (\<lambda>e. fst e = p) (chain_connections prev ps)) = (if p \<in> set (butlast (prev # ps)) then 1 else 0)"
proof (induction prev ps rule: chain_connections.induct)
  case (2 prev q plugins)
  have "filter (\<lambda>e. fst e = prev) (chain_connections q plugins) = []"
    using chain_sources [of q plugins] 2(2) by (auto simp: filter_empty_conv)
  then show ?case using 2 by (auto dest: in_set_butlastD)
qed simp

lemma feeds_later_append:
  "feeds_later (es @ fs) \<longleftrightarrow> feeds_later es \<and> feeds_later fs \<and> fst ` set es \<inter> snd ` set fs = {}"
  by (simp add: feeds_later_def sorted_wrt_append disjoint_iff image_iff) blast

lemma subchannel_sets:
  "fst ` set (concat (map subchannel_connections ns)) = (\<Union>i \<in> set ns. {Subch i, SubchPrbs i, SubchConv i, SubchPunc i, SubchInterleaver i})"
  "snd ` set (concat (map subchannel_connections ns)) = (\<Union>i \<in> set ns. {SubchPrbs i, SubchConv i, SubchPunc i, SubchInterleaver i, CifMux})"
  by (induction ns) (auto simp: subchannel_connections_def)

lemma feeds_later_subchannels: "distinct ns \<Longrightarrow> feeds_later (concat (map subchannel_connections ns))"
proof (induction ns)
  case (Cons i ns)
  have "feeds_later (subchannel_connections i)" by (simp add: feeds_later_def subchannel_connections_def)
  moreover have "fst ` set (subchannel_connections i) \<inter> snd ` set (concat (map subchannel_connections ns)) = {}"
    using Cons.prems unfolding subchannel_sets by (auto simp: subchannel_connections_def)
  ultimately show ?case using Cons by (simp add: feeds_later_append)
qed (simp add: feeds_later_def)

lemma modulator_feeds_later:
  assumes "chain_ok plugins"
  shows "feeds_later (modulator_edges n tii plugins)"
proof -
  have chain: "distinct (CifSig # plugins)" "set plugins \<subseteq> chain_nodes" using assms by (auto simp: chain_ok_def)
  have a: "feeds_later ((CifPrbs, CifMux) # fic_connections)" by (simp add: feeds_later_def fic_connections_def)
  have b: "feeds_later (cif_connections tii)" by (simp add: feeds_later_def cif_connections_def)
  have bc: "feeds_later (cif_connections tii @ chain_connections CifSig plugins)"
    unfolding feeds_later_append chain_targets using b feeds_later_chain [OF chain(1)] chain(2)
    by (auto simp: cif_connections_def)
  have sbc: "feeds_later (concat (map subchannel_connections [0..<n]) @ cif_connections tii @ chain_connections CifSig plugins)"
    unfolding feeds_later_append [of "concat _"] subchannel_sets set_append image_Un chain_targets
    using bc feeds_later_subchannels [of "[0..<n]"] chain(2) by (auto simp: cif_connections_def)
  show ?thesis
    unfolding modulator_edges_def append_Cons [symmetric] feeds_later_append [of "_ # _"] set_append image_Un subchannel_sets chain_targets
    using a sbc chain(2) by (auto simp: fic_connections_def cif_connections_def)
qed

text \<open>
  The number of input and output buffers the process method of a plugin's class insists on, with \<open>n\<close>
  subchannels: \<open>ModInput\<close>, \<open>ModOutput\<close> and \<open>ModCodec\<close> in \<open>Mod_Plugin\<close>, at most one input for a
  \<open>PrbsGenerator\<close>, and for the classes of \<open>ModMux\<close> the numbers they check.
\<close>

fun wants_buffers :: "nat \<Rightarrow> mod_node \<Rightarrow> nat \<Rightarrow> nat \<Rightarrow> bool" where
  "wants_buffers n Fic i j = (i = 0 \<and> j = 1)"
| "wants_buffers n (Subch k) i j = (i = 0 \<and> j = 1)"
| "wants_buffers n CifRef i j = (i = 0 \<and> j = 1)"
| "wants_buffers n TiiRef i j = (i = 0 \<and> j = 1)"
| "wants_buffers n CifNull i j = (i = 0 \<and> j = 1)"
| "wants_buffers n CifPrbs i j = (i \<le> 1 \<and> j = 1)"
| "wants_buffers n CifMux i j = (i = n + 1 \<and> j = 1)"
| "wants_buffers n CifPart i j = (i = 2 \<and> j = 1)"
| "wants_buffers n CifDiff i j = (i = 2 \<and> j = 1)"
| "wants_buffers n CifSig i j = ((i = 2 \<or> i = 3) \<and> j = 1)"
| "wants_buffers n Output i j = (i = 1 \<and> j = 0)"
| "wants_buffers n _ i j = (i = 1 \<and> j = 1)"

text \<open>The number of edges into and out of a plugin.\<close>

abbreviation ins :: "('p \<times> 'p) list \<Rightarrow> 'p \<Rightarrow> nat" where
  "ins es p \<equiv> length (filter (\<lambda>e. snd e = p) es)"

abbreviation outs :: "('p \<times> 'p) list \<Rightarrow> 'p \<Rightarrow> nat" where
  "outs es p \<equiv> length (filter (\<lambda>e. fst e = p) es)"

lemma subchannels_filter_mux:
  "filter (\<lambda>e. snd e = CifMux) (concat (map subchannel_connections [0..<n])) = map (\<lambda>i. (SubchInterleaver i, CifMux)) [0..<n]"
  by (induction n) (simp_all add: subchannel_connections_def)

lemma subchannels_in:
  "ins (concat (map subchannel_connections [0..<n])) p =
     (case p of SubchPrbs k \<Rightarrow> if k < n then 1 else 0 | SubchConv k \<Rightarrow> if k < n then 1 else 0 | SubchPunc k \<Rightarrow> if k < n then 1 else 0
      | SubchInterleaver k \<Rightarrow> if k < n then 1 else 0 | CifMux \<Rightarrow> n | _ \<Rightarrow> 0)"
  by (induction n) (auto simp: subchannel_connections_def split: mod_node.splits)

lemma subchannels_out:
  "outs (concat (map subchannel_connections [0..<n])) p =
     (case p of Subch k \<Rightarrow> if k < n then 1 else 0 | SubchPrbs k \<Rightarrow> if k < n then 1 else 0 | SubchConv k \<Rightarrow> if k < n then 1 else 0
      | SubchPunc k \<Rightarrow> if k < n then 1 else 0 | SubchInterleaver k \<Rightarrow> if k < n then 1 else 0 | _ \<Rightarrow> 0)"
  by (induction n) (auto simp: subchannel_connections_def split: mod_node.splits)

lemma modulator_nodes:
  assumes "chain_ok plugins" and "p \<in> fst ` set (modulator_edges n tii plugins) \<union> snd ` set (modulator_edges n tii plugins)"
  shows "wants_buffers n p (ins (modulator_edges n tii plugins) p) (outs (modulator_edges n tii plugins) p)"
proof -
  have chain: "distinct (CifSig # plugins)" "set plugins \<subseteq> chain_nodes" using assms(1) by (auto simp: chain_ok_def)
  have last: "plugins = butlast plugins @ [Output]" using assms(1) by (metis append_butlast_last_id chain_ok_def)
  then have bl: "set (butlast (CifSig # plugins)) = insert CifSig (set plugins - {Output})"
    using chain(1) by (metis (no_types) butlast.simps(2) distinct_append distinct.simps(2) Diff_insert_absorb Un_insert_right
      append.right_neutral disjoint_insert(1) insertI1 list.distinct(1) list.set(1) list.set(2) set_append sup_bot.right_neutral snoc_eq_iff_butlast)
  have image: "fst ` set (modulator_edges n tii plugins) \<union> snd ` set (modulator_edges n tii plugins) \<subseteq>
      {CifPrbs, CifMux, Fic, FicPrbs, FicConv, FicPunc, CifPart, CifMap, CifFreq, CifRef, CifDiff, CifNull, CifSig} \<union>
      (if tii then {TiiRef, Tii} else {}) \<union>
      (\<Union>i \<in> {0..<n}. {Subch i, SubchPrbs i, SubchConv i, SubchPunc i, SubchInterleaver i}) \<union> set plugins"
    using chain_sources [of CifSig plugins]
    unfolding modulator_edges_def append_Cons [symmetric] set_append image_Un subchannel_sets chain_targets set_upt
    by (auto simp: fic_connections_def cif_connections_def)
  have out: "outs (chain_connections CifSig plugins) p = (if p = CifSig \<or> p \<in> set plugins \<and> p \<noteq> Output then 1 else 0)"
    unfolding chain_out [OF chain(1)] bl by simp
  have edges: "ins (modulator_edges n tii plugins) p =
      ins ((CifPrbs, CifMux) # fic_connections) p + ins (concat (map subchannel_connections [0..<n])) p +
      ins (cif_connections tii) p + (if p \<in> set plugins then 1 else 0)"
    "outs (modulator_edges n tii plugins) p =
      outs ((CifPrbs, CifMux) # fic_connections) p + outs (concat (map subchannel_connections [0..<n])) p +
      outs (cif_connections tii) p + (if p = CifSig \<or> p \<in> set plugins \<and> p \<noteq> Output then 1 else 0)"
    by (simp_all only: modulator_edges_def append_Cons [symmetric] filter_append length_append chain_in [OF chain(1)] out add.assoc)
  have "p \<in> set plugins \<Longrightarrow> p \<in> chain_nodes" using chain(2) by blast
  then show ?thesis using subsetD [OF image assms(2)] unfolding edges subchannels_in subchannels_out
    by (cases p) (auto simp: fic_connections_def cif_connections_def split: if_splits)
qed

text \<open>
  C19. When the first call has set the flowgraph up, for any settings and any number of subchannels, no
  plugin is run before one that feeds it, every plugin has the number of input and output buffers its
  process method insists on, and the inputs of the multiplexers come in the order they count on: the
  energy dispersal and then the subchannels in their order, the fast information channel before the
  common interleaved frame, the reference before the data symbols, the null symbol before both.
\<close>

theorem modulator_graph_wellformed:
  assumes "setup_flowgraph construct have_dexter s format n m = (g, Inr ())"
  shows "\<exists>h. g = Some h \<and> topological h \<and> Output \<in> set (fg_nodes h) \<and>
    (\<forall>p \<in> set (fg_nodes h). wants_buffers n p (length (in_edges (fg_edges h) p)) (length (out_edges (fg_edges h) p))) \<and>
    feeders (fg_edges h) CifMux = CifPrbs # map SubchInterleaver [0..<n] \<and>
    feeders (fg_edges h) CifPart = [FicPunc, CifMux] \<and> feeders (fg_edges h) CifDiff = [CifRef, CifFreq] \<and>
    feeders (fg_edges h) CifSig \<in> {[CifNull, CifDiff], [CifNull, CifDiff, Tii]}"
proof -
  from assms obtain tii plugins where cif: "construct_cif construct have_dexter s format = Inr (tii, plugins)"
    and g: "g = Some (connect_all (modulator_edges n tii plugins) Flowgraph)" by (rule setup_edges)
  let ?es = "modulator_edges n tii plugins" and ?h = "connect_all (modulator_edges n tii plugins) Flowgraph"
  have chain: "chain_ok plugins" using cif by (rule construct_cif_chain)
  have edges: "fg_edges ?h = ?es" by (simp add: Flowgraph_def)
  have nil: "fg_edges Flowgraph = []" "fg_nodes Flowgraph = []" by (simp_all add: Flowgraph_def)
  have later: "feeds_later (fg_edges Flowgraph @ ?es)" using modulator_feeds_later [OF chain] by (simp add: nil)
  have top: "topological ?h" by (rule connect_all_topological [OF topological_new later])
  have nodes: "set (fg_nodes ?h) = fst ` set ?es \<union> snd ` set ?es"
    using connect_all_nodes [OF later topological_new] by (simp add: nil)
  have buffers: "wants_buffers n p (length (in_edges ?es p)) (length (out_edges ?es p))" if "p \<in> set (fg_nodes ?h)" for p
    unfolding in_edges_length out_edges_length by (rule modulator_nodes [OF chain]) (use that nodes in simp)
  have none: "filter (\<lambda>e. snd e = p) (chain_connections CifSig plugins) = []" if "p \<notin> chain_nodes" for p
    using that chain chain_targets [of CifSig plugins] by (auto simp: chain_ok_def filter_empty_conv)
  have subs: "filter (\<lambda>e. snd e = p) (concat (map subchannel_connections [0..<n])) = []" if "p \<in> {CifPart, CifDiff, CifSig}" for p
    using that subchannels_in [where n = n and p = p] by auto
  have "feeders ?es CifMux = CifPrbs # map SubchInterleaver [0..<n]"
    using subchannels_filter_mux [where n = n] none [of CifMux]
    by (simp add: feeders_def modulator_edges_def fic_connections_def cif_connections_def o_def)
  moreover have "feeders ?es CifPart = [FicPunc, CifMux]" "feeders ?es CifDiff = [CifRef, CifFreq]"
    "feeders ?es CifSig \<in> {[CifNull, CifDiff], [CifNull, CifDiff, Tii]}"
    using subs none by (simp_all add: feeders_def modulator_edges_def fic_connections_def cif_connections_def)
  moreover have "Output \<in> set (fg_nodes ?h)"
  proof -
    have "Output \<in> set plugins" using chain unfolding chain_ok_def by (metis last_in_set)
    then have "Output \<in> snd ` set ?es" unfolding modulator_edges_def by (simp add: image_Un chain_targets)
    then show ?thesis unfolding nodes by blast
  qed
  ultimately show ?thesis using g top buffers edges by auto
qed

definition example_settings :: mod_settings where
  "example_settings =
     \<lparr>dabMode = 1, fftEngine = FFTW, clockRate = 0, outputRate = 8192000, filterTapsFilename = ''taps'', polyCoefFilename = [],
      tiiConfig = \<lparr>tc_enable = True, tc_comb = 3, tc_pattern = 7, tc_old_variant = False\<rparr>\<rparr>"

lemma example_tii: "construct_tii (\<lambda>_. Inr ()) example_settings = Inr True"
proof -
  have "\<exists>t. TII (dabMode example_settings) (tiiConfig example_settings) = Inr t"
    using tii_constructor_total [of 1 "tiiConfig example_settings"] by (auto simp: example_settings_def)
  then show ?thesis by (auto simp: construct_tii_def)
qed

lemma constructs_ok: "constructs (\<lambda>_. Inr ()) ns = Inr ()"
  by (induction ns) (simp_all add: constructs_def)

lemma example_setup: "snd (setup_flowgraph (\<lambda>_. Inr ()) False example_settings ''s16'' 2 None) = Inr ()"
proof -
  have "\<exists>plugins. construct_cif (\<lambda>_. Inr ()) False example_settings ''s16'' = Inr (True, plugins)"
    using example_tii by (simp add: construct_cif_def constructs_ok cic_settings_def construct_optional_def construct_ofdm_def
      construct_float_def fixedPoint_def) (simp add: example_settings_def)
  then obtain plugins where p: "construct_cif (\<lambda>_. Inr ()) False example_settings ''s16'' = Inr (True, plugins)" by blast
  have "setMode (dabMode example_settings) = Inr \<lparr>m_nbSymbols = 76, m_nbCarriers = 1536, m_spacing = 2048, m_nullSize = 2656, m_symSize = 2552, m_ficSizeOut = 288\<rparr>"
    by (simp add: setMode_def example_settings_def)
  then show ?thesis by (simp add: setup_flowgraph_def p constructs_ok Let_def numeral_2_eq_2)
qed

theorem modulator_graph_wellformed_witness:
  "\<exists>h. setup_flowgraph (\<lambda>_. Inr ()) False example_settings ''s16'' 2 None = (Some h, Inr ()) \<and> topological h \<and>
     feeders (fg_edges h) CifMux = [CifPrbs, SubchInterleaver 0, SubchInterleaver 1] \<and>
     wants_buffers 2 Output (length (in_edges (fg_edges h) Output)) (length (out_edges (fg_edges h) Output))"
proof -
  obtain g where g: "setup_flowgraph (\<lambda>_. Inr ()) False example_settings ''s16'' 2 None = (g, Inr ())"
    using example_setup by (metis surjective_pairing)
  from modulator_graph_wellformed [OF g] show ?thesis using g by (auto simp: numeral_2_eq_2)
qed

end
