(* ===== verification/Channels.thy ===== *)
theory Channels
  imports Prelude Complex_Main
begin

text \<open>
  The names of the channels of band III and their frequencies in Hz (\<open>parse_channel\<close> and
  \<open>convert_frequency_to_channel\<close> of \<open>src/Utils.cpp\<close>), with which the remote control sets and reads the
  frequency. The frequencies are doubles; all of the table are exact.
\<close>

definition parse_channel :: "string \<Rightarrow> rat result" where
  "parse_channel chan =
     (if chan = ''5A'' then Inr 174928000
      else if chan = ''5B'' then Inr 176640000
      else if chan = ''5C'' then Inr 178352000
      else if chan = ''5D'' then Inr 180064000
      else if chan = ''6A'' then Inr 181936000
      else if chan = ''6B'' then Inr 183648000
      else if chan = ''6C'' then Inr 185360000
      else if chan = ''6D'' then Inr 187072000
      else if chan = ''7A'' then Inr 188928000
      else if chan = ''7B'' then Inr 190640000
      else if chan = ''7C'' then Inr 192352000
      else if chan = ''7D'' then Inr 194064000
      else if chan = ''8A'' then Inr 195936000
      else if chan = ''8B'' then Inr 197648000
      else if chan = ''8C'' then Inr 199360000
      else if chan = ''8D'' then Inr 201072000
      else if chan = ''9A'' then Inr 202928000
      else if chan = ''9B'' then Inr 204640000
      else if chan = ''9C'' then Inr 206352000
      else if chan = ''9D'' then Inr 208064000
      else if chan = ''10A'' then Inr 209936000
      else if chan = ''10B'' then Inr 211648000
      else if chan = ''10C'' then Inr 213360000
      else if chan = ''10D'' then Inr 215072000
      else if chan = ''11A'' then Inr 216928000
      else if chan = ''11B'' then Inr 218640000
      else if chan = ''11C'' then Inr 220352000
      else if chan = ''11D'' then Inr 222064000
      else if chan = ''12A'' then Inr 223936000
      else if chan = ''12B'' then Inr 225648000
      else if chan = ''12C'' then Inr 227360000
      else if chan = ''12D'' then Inr 229072000
      else if chan = ''13A'' then Inr 230784000
      else if chan = ''13B'' then Inr 232496000
      else if chan = ''13C'' then Inr 234208000
      else if chan = ''13D'' then Inr 235776000
      else if chan = ''13E'' then Inr 237488000
      else if chan = ''13F'' then Inr 239200000
      else Inl (OutOfRange ''channel out of range''))"

text \<open>\<open>round\<close> of the C library: halves go away from zero.\<close>

definition c_round :: "rat \<Rightarrow> int" where
  "c_round x = (if x < 0 then - \<lfloor>- x + 1 / 2\<rfloor> else \<lfloor>x + 1 / 2\<rfloor>)"

definition convert_frequency_to_channel :: "rat \<Rightarrow> string option" where
  "convert_frequency_to_channel frequency =
     (let freq = c_round frequency in
     (if freq = 174928000 then Some ''5A''
      else if freq = 176640000 then Some ''5B''
      else if freq = 178352000 then Some ''5C''
      else if freq = 180064000 then Some ''5D''
      else if freq = 181936000 then Some ''6A''
      else if freq = 183648000 then Some ''6B''
      else if freq = 185360000 then Some ''6C''
      else if freq = 187072000 then Some ''6D''
      else if freq = 188928000 then Some ''7A''
      else if freq = 190640000 then Some ''7B''
      else if freq = 192352000 then Some ''7C''
      else if freq = 194064000 then Some ''7D''
      else if freq = 195936000 then Some ''8A''
      else if freq = 197648000 then Some ''8B''
      else if freq = 199360000 then Some ''8C''
      else if freq = 201072000 then Some ''8D''
      else if freq = 202928000 then Some ''9A''
      else if freq = 204640000 then Some ''9B''
      else if freq = 206352000 then Some ''9C''
      else if freq = 208064000 then Some ''9D''
      else if freq = 209936000 then Some ''10A''
      else if freq = 211648000 then Some ''10B''
      else if freq = 213360000 then Some ''10C''
      else if freq = 215072000 then Some ''10D''
      else if freq = 216928000 then Some ''11A''
      else if freq = 218640000 then Some ''11B''
      else if freq = 220352000 then Some ''11C''
      else if freq = 222064000 then Some ''11D''
      else if freq = 223936000 then Some ''12A''
      else if freq = 225648000 then Some ''12B''
      else if freq = 227360000 then Some ''12C''
      else if freq = 229072000 then Some ''12D''
      else if freq = 230784000 then Some ''13A''
      else if freq = 232496000 then Some ''13B''
      else if freq = 234208000 then Some ''13C''
      else if freq = 235776000 then Some ''13D''
      else if freq = 237488000 then Some ''13E''
      else if freq = 239200000 then Some ''13F''
      else None))"

lemma c_round_int: "c_round (of_int n) = n"
proof -
  have "\<lfloor>of_int m + 1 / 2 :: rat\<rfloor> = m" for m by (simp add: floor_unique)
  from this [of n] this [of "- n"] show ?thesis by (simp add: c_round_def)
qed

lemma c_round_numeral [simp]: "c_round (numeral n) = numeral n"
  using c_round_int [of "numeral n"] by simp

lemma if_Inr_elim: "(if b then Inr x else r) = Inr y \<Longrightarrow> (b \<Longrightarrow> x = y \<Longrightarrow> P) \<Longrightarrow> (r = Inr y \<Longrightarrow> P) \<Longrightarrow> P"
  by (auto split: if_splits)

lemma if_Some_elim: "(if b then Some x else r) = Some y \<Longrightarrow> (b \<Longrightarrow> y = x \<Longrightarrow> P) \<Longrightarrow> (r = Some y \<Longrightarrow> P) \<Longrightarrow> P"
  by (cases b) simp_all

lemma channel_converts: "parse_channel chan = Inr f \<Longrightarrow> convert_frequency_to_channel f = Some chan \<and> of_int (c_round f) = f"
  unfolding parse_channel_def
  by (elim if_Inr_elim) (simp_all add: convert_frequency_to_channel_def)

lemma frequency_parses: "convert_frequency_to_channel f = Some chan \<Longrightarrow> parse_channel chan = Inr (of_int (c_round f))"
  unfolding convert_frequency_to_channel_def Let_def
  by (elim if_Some_elim) (simp_all add: parse_channel_def)

text \<open>
  The two tables of channels are inverse to each other: a name has a frequency exactly if the
  frequency has the name, and a frequency is named as the whole number of Hertz it rounds to.
\<close>

lemma channel_table_roundtrip:
  "(parse_channel chan = Inr (of_int n)) = (convert_frequency_to_channel (of_int n) = Some chan) \<and>
   convert_frequency_to_channel f = convert_frequency_to_channel (of_int (c_round f))"
proof
  show "(parse_channel chan = Inr (of_int n)) = (convert_frequency_to_channel (of_int n) = Some chan)"
    using channel_converts [of chan "of_int n"] frequency_parses [of "of_int n" chan] by (auto simp: c_round_int)
  show "convert_frequency_to_channel f = convert_frequency_to_channel (of_int (c_round f))"
    by (simp only: convert_frequency_to_channel_def c_round_int)
qed

end
