(* ===== verification/Edi_Transport.thy ===== *)
theory Edi_Transport
  imports Edi_Reader
begin

text \<open>
  Where the input comes from: \<open>EdiTransport\<close> and \<open>EdiInput\<close> of \<open>src/EtiReader.cpp\<close>, which hand what a UDP
  or TCP socket receives to the EDI decoder, and \<open>InputTcpReader\<close>, which reads ETI from TCP. The sockets
  themselves are arguments: what a call of them returns or throws. A socket that was opened is noted in
  the state.
\<close>

section \<open>Strings\<close>

text \<open>\<open>find_first_of\<close> for one character; \<open>None\<close> is \<open>npos\<close>.\<close>

definition find_from :: "char \<Rightarrow> nat \<Rightarrow> string \<Rightarrow> nat option" where
  "find_from c n s =
     (let k = n + length (takeWhile (\<lambda>x. x \<noteq> c) (drop n s))
      in if k < length s then Some k else None)"

text \<open>The leading digits of a string, as \<open>strtol\<close> reads them.\<close>

definition is_space :: "char \<Rightarrow> bool" where
  "is_space c = (c \<in> set [CHR '' '', CHR 0x09, CHR 0x0A, CHR 0x0B, CHR 0x0C, CHR 0x0D])"

definition digit_value :: "char \<Rightarrow> nat option" where
  "digit_value c = (let v = (of_char c :: nat) in if 48 \<le> v \<and> v \<le> 57 then Some (v - 48) else None)"

fun read_digits :: "nat \<Rightarrow> string \<Rightarrow> nat" where
  "read_digits acc [] = acc"
| "read_digits acc (c # cs) = (case digit_value c of None \<Rightarrow> acc | Some d \<Rightarrow> read_digits (10 * acc + d) cs)"

text \<open>The number a string starts with, or \<open>None\<close> if it starts with none.\<close>

definition parse_number :: "string \<Rightarrow> int option" where
  "parse_number s =
     (let s = dropWhile is_space s;
          negative = (s \<noteq> [] \<and> hd s = CHR ''-'');
          s = (if s \<noteq> [] \<and> hd s \<in> {CHR ''-'', CHR ''+''} then tl s else s)
      in if s = [] \<or> digit_value (hd s) = None then None
         else Some ((if negative then - 1 else 1) * int (read_digits 0 s)))"

definition stoi :: "string \<Rightarrow> int result" where
  "stoi s =
     (case parse_number s of
        None \<Rightarrow> Inl (InvalidArgument ''stoi'')
      | Some v \<Rightarrow> if v < - (2 ^ 31) \<or> 2 ^ 31 \<le> v then Inl (OutOfRange ''stoi'') else Inr v)"

section \<open>Opening an EDI input\<close>

datatype transport_proto = Unspecified | UDP | TCP

record edi_transport =
  tr_tcp_uri :: string
  tr_enabled :: bool
  tr_port :: int
  tr_bindto :: string
  tr_mcastaddr :: string
  tr_proto :: transport_proto
  tr_receive_ports :: "(int \<times> string \<times> string) list"
  tr_server :: "(string \<times> int) option"

definition EdiTransport :: edi_transport where
  "EdiTransport =
     \<lparr>tr_tcp_uri = [], tr_enabled = False, tr_port = 0, tr_bindto = ''0.0.0.0'', tr_mcastaddr = ''0.0.0.0'',
      tr_proto = Unspecified, tr_receive_ports = [], tr_server = None\<rparr>"

record sockets =
  so_add_receive_port :: "int \<Rightarrow> string \<Rightarrow> string \<Rightarrow> unit result"
  so_connect :: "string \<Rightarrow> int \<Rightarrow> unit result"

definition open_udp :: "sockets \<Rightarrow> string \<Rightarrow> edi_transport \<Rightarrow> edi_transport \<times> unit result" where
  "open_udp so uri t =
     (if tr_proto t = TCP then (t, Inl (InvalidArgument ''Cannot specify both TCP and UDP urls''))
      else
        (case find_from CHR '':'' 6 uri of
           None \<Rightarrow> (t, Inl (InvalidArgument ''EDI UDP input port must be provided''))
         | Some found_port \<Rightarrow>
             needS (stoi (drop (found_port + 1) uri)) t (\<lambda>port.
             let t = t\<lparr>tr_port := port\<rparr>;
                 host_full = take (found_port - 6) (drop 6 uri);
                 t = (case find_from CHR ''@'' 0 host_full of
                        Some found_mcast \<Rightarrow>
                          (let t = (if found_mcast > 0 then t\<lparr>tr_bindto := take found_mcast host_full\<rparr> else t)
                           in t\<lparr>tr_mcastaddr := drop (found_mcast + 1) host_full\<rparr>)
                      | None \<Rightarrow> if found_port \<noteq> 6 then t\<lparr>tr_bindto := host_full\<rparr> else t)
             in needS (so_add_receive_port so (tr_port t) (tr_bindto t) (tr_mcastaddr t)) t (\<lambda>_.
                (t\<lparr>tr_receive_ports := tr_receive_ports t @ [(tr_port t, tr_bindto t, tr_mcastaddr t)],
                   tr_proto := UDP, tr_enabled := True\<rparr>, Inr ())))))"

definition open_tcp :: "sockets \<Rightarrow> string \<Rightarrow> edi_transport \<Rightarrow> edi_transport \<times> unit result" where
  "open_tcp so uri t =
     (if tr_proto t \<noteq> Unspecified then (t, Inl (InvalidArgument ''Cannot call Open several times with TCP''))
      else
        (case find_from CHR '':'' 6 uri of
           None \<Rightarrow> (t, Inl (InvalidArgument ''EDI TCP input port must be provided''))
         | Some found_port \<Rightarrow>
             needS (stoi (drop (found_port + 1) uri)) t (\<lambda>port.
             let t = t\<lparr>tr_port := port\<rparr>;
                 hostname = take (found_port - 6) (drop 6 uri);
                 t = t\<lparr>tr_tcp_uri := uri\<rparr>
             in needS (so_connect so hostname (tr_port t)) t (\<lambda>_.
                (t\<lparr>tr_server := Some (hostname, tr_port t), tr_proto := TCP, tr_enabled := True\<rparr>, Inr ())))))"

definition transport_open :: "sockets \<Rightarrow> string \<Rightarrow> edi_transport \<Rightarrow> edi_transport \<times> unit result" where
  "transport_open so uri t =
     (let proto = take 6 uri in
      if proto = ''udp://'' then open_udp so uri t
      else if proto = ''tcp://'' then open_tcp so uri t
      else (t, Inl (InvalidArgument (''ETI protocol '' @ proto @ '' unknown''))))"

section \<open>Receiving\<close>

text \<open>
  What the two kinds of socket may answer: packets, nothing in time, a signal, or an exception; and the
  return value of \<open>recv\<close> with the bytes it stored. The printing of an error can not fail here.
\<close>

datatype udp_answer = Packets "packet list" | Timeout | Interrupted | ReceiveError error

record received =
  rx_udp :: udp_answer
  rx_tcp :: "(int \<times> bytes) result"

text \<open>The classes derived from \<open>std::runtime_error\<close>.\<close>

definition is_runtime_error :: "error \<Rightarrow> bool" where
  "is_runtime_error e = (case e of RuntimeError _ \<Rightarrow> True | TIIError _ \<Rightarrow> True | FrameMultiplexerError _ \<Rightarrow> True | _ \<Rightarrow> False)"

definition is_invalid_argument :: "error \<Rightarrow> bool" where
  "is_invalid_argument e = (case e of InvalidArgument _ \<Rightarrow> True | _ \<Rightarrow> False)"

type_synonym 'c edi_decoding = "'c eti_decoder tag_dispatcher \<times> 'c eti_decoder"

definition rxPacket ::
    "rs_decoder \<Rightarrow> transport_proto \<Rightarrow> received \<Rightarrow> 'c edi_decoding \<Rightarrow> 'c edi_decoding \<times> bool result" where
  "rxPacket rs proto answer de =
     (case proto of
        Unspecified \<Rightarrow> (de, Inr False)
      | UDP \<Rightarrow>
          (case (case rx_udp answer of
                   Packets ps \<Rightarrow> bindS (eachS (ed_push_packet rs) ps de) (\<lambda>de _. (de, Inr True))
                 | Timeout \<Rightarrow> (de, Inr False)
                 | Interrupted \<Rightarrow> (de, Inr False)
                 | ReceiveError e \<Rightarrow> (de, Inl e)) of
             (de, Inl e) \<Rightarrow> if is_invalid_argument e \<or> is_runtime_error e then (de, Inr False) else (de, Inl e)
           | (de, Inr received) \<Rightarrow> (de, Inr received))
      | TCP \<Rightarrow>
          needS (rx_tcp answer) de (\<lambda>(ret, tcpbuffer).
          if ret \<le> 0 then (de, Inr False)
          else if ret > 512 then (de, Inl (LogicError ''EDI TCP: invalid recv() return value''))
          else bindS (ed_push_bytes rs (take (nat ret) tcpbuffer) de) (\<lambda>de _. (de, Inr True))))"

text \<open>
  \<open>EdiInput\<close>: the reader, the decoder that feeds it and the transport. The delay is given in milliseconds;
  \<open>fdiv\<close> is the division of \<open>float\<close>s, and \<open>lroundf\<close> takes halves up.
\<close>

definition EdiInput ::
    "(rat \<Rightarrow> rat \<Rightarrow> rat) \<Rightarrow> u16 \<Rightarrow> 'c eti_data_collector \<Rightarrow> 'c \<Rightarrow> rat \<Rightarrow> 'c edi_decoding \<times> edi_transport" where
  "EdiInput fdiv junk ops ediReader edi_max_delay_ms =
     (let decoder = ETIDecoder junk ops ediReader
      in (if edi_max_delay_ms > 0 then ed_setMaxDelay \<lfloor>fdiv edi_max_delay_ms 24 + 1 / 2\<rfloor> decoder else decoder,
          EdiTransport))"

section \<open>ETI over TCP\<close>

record tcp_reader =
  ti_uri :: string
  ti_server :: "(string \<times> int) option"

text \<open>
  The port is what \<open>strtol\<close> reads: 0 if there is no number, the nearest \<open>long\<close> if it does not fit, and an
  \<open>int\<close> is passed on. \<open>errno\<close> is not cleared before: \<open>stale\<close> says that an earlier call left \<open>ERANGE\<close>.
\<close>

definition tcp_open :: "sockets \<Rightarrow> bool \<Rightarrow> string \<Rightarrow> tcp_reader \<Rightarrow> tcp_reader \<times> unit result" where
  "tcp_open so stale endpoint t =
     (let hostname = (if take 6 endpoint = ''tcp://'' then drop 6 endpoint else endpoint) in
      case find_from CHR '':'' 0 hostname of
        None \<Rightarrow> (t, Inl (RuntimeError (''Could not parse TCP endpoint '' @ endpoint)))
      | Some colon_pos \<Rightarrow>
          (let port = (case parse_number (drop (colon_pos + 1) hostname) of None \<Rightarrow> 0 | Some v \<Rightarrow> v);
               range = (port < - (2 ^ 63) \<or> 2 ^ 63 \<le> port)
           in if stale \<or> range
              then (t, Inl (RuntimeError (''Could not parse port in TCP endpoint '' @ endpoint)))
              else
                (let hostname = take colon_pos hostname;
                     port = sint (of_int port :: 32 word)
                 in needS (so_connect so hostname port) t (\<lambda>_.
                    (t\<lparr>ti_server := Some (hostname, port), ti_uri := endpoint\<rparr>, Inr ())))))"

text \<open>What \<open>recv\<close> returned; it may have stored fewer than 6144 bytes.\<close>

definition tcp_GetNextFrame :: "(int \<times> bytes) result \<Rightarrow> bytes \<Rightarrow> (bytes \<times> int) result" where
  "tcp_GetNextFrame answer buffer = bindE answer (\<lambda>(ret, b). Inr (b @ drop (length b) buffer, ret))"

section \<open>URLs\<close>

lemma find_from_at:
  assumes "c \<notin> set us" and "length pre = n"
  shows "find_from c n (pre @ us @ c # vs) = Some (n + length us)"
proof -
  have "takeWhile (\<lambda>x. x \<noteq> c) (us @ c # vs) = us"
    using assms(1) by (induction us) auto
  then show ?thesis using assms(2) by (simp add: find_from_def)
qed

lemma find_from_none: "c \<notin> set s \<Longrightarrow> find_from c 0 s = None"
proof -
  assume "c \<notin> set s"
  then have all: "takeWhile (\<lambda>x. x \<noteq> c) s = s" by (auto simp: takeWhile_eq_all_conv)
  show ?thesis unfolding find_from_def drop_0 all Let_def by simp
qed

fun decimal :: "nat \<Rightarrow> string" where
  "decimal n = (if n < 10 then [char_of (48 + n)] else decimal (n div 10) @ [char_of (48 + n mod 10)])"

declare decimal.simps [simp del]

lemma digit_value_char: "d < 10 \<Longrightarrow> digit_value (char_of (48 + d)) = Some d"
  by (simp add: digit_value_def Let_def)

lemma read_digits_append:
  "list_all (\<lambda>c. digit_value c \<noteq> None) s \<Longrightarrow> read_digits acc (s @ t) = read_digits (read_digits acc s) t"
  by (induction acc s rule: read_digits.induct) auto

lemma decimal_digits: "list_all (\<lambda>c. digit_value c \<noteq> None) (decimal n) \<and> decimal n \<noteq> [] \<and> read_digits 0 (decimal n) = n"
proof (induction n rule: decimal.induct)
  case (1 n)
  show ?case
  proof (cases "n < 10")
    case True
    then show ?thesis by (subst (1 2 3) decimal.simps) (simp add: digit_value_char)
  next
    case False
    with 1 show ?thesis
      by (subst (1 2 3) decimal.simps) (simp add: digit_value_char read_digits_append)
  qed
qed

lemma parse_decimal: "parse_number (decimal n) = Some (int n)"
proof -
  obtain c cs where d: "decimal n = c # cs" "digit_value c \<noteq> None" "read_digits 0 (c # cs) = n"
    using decimal_digits [of n] by (cases "decimal n") auto
  have "\<not> is_space c" "c \<noteq> CHR ''-''" "c \<noteq> CHR ''+''"
    using d(2) by (auto simp: is_space_def digit_value_def Let_def)
  then show ?thesis using d by (simp add: parse_number_def Let_def)
qed

lemma stoi_decimal: "n < 2 ^ 31 \<Longrightarrow> stoi (decimal n) = Inr (int n)"
proof -
  assume "n < 2 ^ 31"
  then have "int n < 2 ^ 31" by simp
  then show ?thesis by (simp add: stoi_def parse_decimal)
qed

text \<open>
  A UDP address is taken apart as it was put together: after an address with an interface, a
  multicast group and a port the transport is enabled and the socket listens to this port, on this
  interface, in this group, beside the ports it listened to before.
\<close>

lemma edi_udp_url_roundtrip:
  assumes "tr_proto t \<noteq> TCP" and "CHR '':'' \<notin> set bindto \<union> set mcastaddr" and "CHR ''@'' \<notin> set bindto" and "bindto \<noteq> []"
    and "port < 2 ^ 31" and "so_add_receive_port so (int port) bindto mcastaddr = Inr ()"
  shows "\<exists>t'. transport_open so (''udp://'' @ bindto @ ''@'' @ mcastaddr @ '':'' @ decimal port) t = (t', Inr ()) \<and>
           tr_enabled t' \<and> tr_proto t' = UDP \<and>
           tr_receive_ports t' = tr_receive_ports t @ [(int port, bindto, mcastaddr)]"
proof -
  let ?host = "bindto @ CHR ''@'' # mcastaddr"
  let ?uri = "''udp://'' @ ?host @ CHR '':'' # decimal port"
  have p: "find_from CHR '':'' 6 ?uri = Some (6 + length ?host)"
    using assms(2) by (intro find_from_at) auto
  have m: "find_from CHR ''@'' 0 ?host = Some (length bindto)"
    using find_from_at [of "CHR ''@''" bindto "[]" 0 mcastaddr] assms(3) by simp
  have "?uri = (''udp://'' @ ?host @ [CHR '':'']) @ decimal port" "6 + length ?host + 1 = length (''udp://'' @ ?host @ [CHR '':''])" by simp_all
  then have d: "drop (6 + length ?host + 1) ?uri = decimal port" "take (6 + length ?host - 6) (drop 6 ?uri) = ?host"
    by (metis append_eq_conv_conj) simp
  have "open_udp so ?uri t =
      (t\<lparr>tr_port := int port, tr_bindto := bindto, tr_mcastaddr := mcastaddr,
         tr_receive_ports := tr_receive_ports t @ [(int port, bindto, mcastaddr)], tr_proto := UDP, tr_enabled := True\<rparr>, Inr ())"
    unfolding open_udp_def p option.case d stoi_decimal [OF assms(5)] needS_simps m Let_def
    using assms(1,4,6) by simp
  then show ?thesis by (simp add: transport_open_def)
qed

lemma edi_udp_url_roundtrip_witness:
  "\<forall>connect. \<exists>t'. transport_open \<lparr>so_add_receive_port = \<lambda>_ _ _. Inr (), so_connect = connect\<rparr>
       (''udp://'' @ ''10.0.0.1'' @ ''@'' @ ''239.20.64.1'' @ '':'' @ decimal 12002) EdiTransport = (t', Inr ()) \<and>
     tr_receive_ports t' = [(12002, ''10.0.0.1'', ''239.20.64.1'')]"
proof
  fix connect
  show "\<exists>t'. transport_open \<lparr>so_add_receive_port = \<lambda>_ _ _. Inr (), so_connect = connect\<rparr>
       (''udp://'' @ ''10.0.0.1'' @ ''@'' @ ''239.20.64.1'' @ '':'' @ decimal 12002) EdiTransport = (t', Inr ()) \<and>
     tr_receive_ports t' = [(12002, ''10.0.0.1'', ''239.20.64.1'')]"
    using edi_udp_url_roundtrip [of EdiTransport "''10.0.0.1''" "''239.20.64.1''" 12002
        "\<lparr>so_add_receive_port = \<lambda>_ _ _. Inr (), so_connect = connect\<rparr>"]
    by (auto simp: EdiTransport_def)
qed

end
