(* ===== verification/Input_File.thy ===== *)
theory Input_File
  imports Eti State_Error
begin

text \<open>
  The reader of ETI files (\<open>src/InputFileReader.cpp\<close>): it finds out which of three formats a file has
  and returns its frames, padded to 6144 bytes. A file is its bytes, a position and whether it can be
  positioned (a pipe can not). The host is little-endian, as the code takes for granted. Not modelled:
  the number of frames, which is only printed, and the failure of \<open>fopen\<close>.
\<close>

section \<open>Files\<close>

record host_file =
  fi_bytes :: bytes
  fi_pos :: nat
  fi_seekable :: bool

definition fread :: "nat \<Rightarrow> host_file \<Rightarrow> host_file \<times> bytes" where
  "fread n f =
     (let b = take n (drop (fi_pos f) (fi_bytes f))
      in (f\<lparr>fi_pos := fi_pos f + length b\<rparr>, b))"

text \<open>\<open>fseek(fd, -n, SEEK_CUR)\<close>; \<open>None\<close> when it fails.\<close>

definition seek_back :: "nat \<Rightarrow> host_file \<Rightarrow> host_file option" where
  "seek_back n f = (if fi_seekable f \<and> n \<le> fi_pos f then Some (f\<lparr>fi_pos := fi_pos f - n\<rparr>) else None)"

definition rewind :: "host_file \<Rightarrow> host_file" where
  "rewind f = (if fi_seekable f then f\<lparr>fi_pos := 0\<rparr> else f)"

section \<open>The reader\<close>

datatype stream_type = NoType | Raw | Streamed | Framed

record file_reader =
  in_file :: host_file
  in_type :: stream_type
  in_loop :: bool

definition is_sync :: "u32 \<Rightarrow> bool" where
  "is_sync sync = (sync = 0x49c5f8ff \<or> sync = 0xb63a07ff)"

text \<open>
  After a format is recognised: back to the first frame, or, in a pipe, past it. The buffer for what
  is discarded has 6144 bytes; the number of bytes can be negative, which is a huge \<open>size_t\<close>.
\<close>

definition back_or_discard :: "nat \<Rightarrow> int \<Rightarrow> stream_type \<Rightarrow> file_reader \<Rightarrow> file_reader \<times> int result" where
  "back_or_discard n discard t r =
     (case seek_back n (in_file r) of
        Some f \<Rightarrow> (r\<lparr>in_file := f, in_type := t\<rparr>, Inr 0)
      | None \<Rightarrow>
          if discard < 0 \<or> 6144 < discard then (r, Inl (UndefinedBehaviour ''write''))
          else (case fread (nat discard) (in_file r) of
                  (f, b) \<Rightarrow> if discard = 0 \<or> length b \<noteq> nat discard then (r\<lparr>in_file := f\<rparr>, Inr (- 1))
                            else (r\<lparr>in_file := f, in_type := t\<rparr>, Inr 0)))"

text \<open>The search for the sync marker, byte by byte: \<open>n\<close> bytes are left to try.\<close>

fun search_sync :: "nat \<Rightarrow> u32 \<Rightarrow> file_reader \<Rightarrow> file_reader \<times> int result" where
  "search_sync 0 sync r = (r, Inr (- 1))"
| "search_sync (Suc n) sync r =
     (case fread 1 (in_file r) of
        (f, [b]) \<Rightarrow>
          (let r = r\<lparr>in_file := f\<rparr>; sync = (shr sync 8 AND 0xffffff) OR shl (ucast b) 24
           in if is_sync sync then back_or_discard 4 (6144 - 4) Raw r else search_sync n sync r)
      | (f, _) \<Rightarrow> (r\<lparr>in_file := f\<rparr>, Inr (- 1)))"

definition IdentifyType :: "file_reader \<Rightarrow> file_reader \<times> int result" where
  "IdentifyType r =
     (case fread 4 (in_file r) of (f, b) \<Rightarrow>
      let r = r\<lparr>in_file := f\<rparr> in
      if length b \<noteq> 4 then (r, Inr (- 1))
      else
        let sync = le32 b in
        if is_sync sync then back_or_discard 4 (6144 - 4) Raw r
        else
          let nbFrames = sync in
          case fread 2 (in_file r) of (f, b) \<Rightarrow>
          let r = r\<lparr>in_file := f\<rparr> in
          if length b \<noteq> 2 then (r, Inr (- 1))
          else
            let frameSize = le16 (b ! 0) (b ! 1);
                sync = (shr sync 16 AND 0xffff) OR shl (ucast frameSize) 16
            in if is_sync sync
               then back_or_discard 6 (int (unat (nbFrames AND 0xffff)) - 4) Streamed r
               else
                 case fread 4 (in_file r) of (f, b) \<Rightarrow>
                 let r = r\<lparr>in_file := f\<rparr> in
                 if length b \<noteq> 4 then (r, Inr (- 1))
                 else
                   let sync = le32 b in
                   if is_sync sync then back_or_discard 6 (int (unat frameSize) - 4) Framed r
                   else search_sync 6144 sync r)"

definition Open :: "host_file \<Rightarrow> bool \<Rightarrow> file_reader \<Rightarrow> file_reader \<times> int result" where
  "Open fd loop r = IdentifyType (r\<lparr>in_file := fd, in_loop := loop\<rparr>)"

definition Rewind :: "file_reader \<Rightarrow> file_reader \<times> int result" where
  "Rewind r = IdentifyType (r\<lparr>in_file := rewind (in_file r)\<rparr>)"

text \<open>
  The length of the next frame: \<open>Inr (Inl x)\<close> means that \<open>GetNextFrame\<close> returns \<open>x\<close> here.
\<close>

definition next_size :: "file_reader \<Rightarrow> file_reader \<times> (int + nat) result" where
  "next_size r =
     (if in_type r = Raw then (r, Inr (Inr 6144))
      else
        (case fread 2 (in_file r) of (f, b) \<Rightarrow>
         let r = r\<lparr>in_file := f\<rparr> in
         if length b = 2 then (r, Inr (Inr (unat (le16 (b ! 0) (b ! 1)))))
         else if in_loop r
         then bindS (Rewind r) (\<lambda>r ret.
                if ret = 0
                then (case fread 2 (in_file r) of (f, b) \<Rightarrow>
                      let r = r\<lparr>in_file := f\<rparr> in
                      if length b = 2 then (r, Inr (Inr (unat (le16 (b ! 0) (b ! 1))))) else (r, Inr (Inl (- 1))))
                else (r, Inr (Inl (- 1))))
         else (r, Inr (Inl 0))))"

text \<open>
  \<open>buffer\<close> has 6144 bytes; a short read leaves its rest as it was. The end of a file is seen by a read of
  no bytes (\<open>feof\<close> then holds unless no byte was asked for).
\<close>

definition GetNextFrame :: "bytes \<Rightarrow> file_reader \<Rightarrow> file_reader \<times> (bytes \<times> int) result" where
  "GetNextFrame buffer r =
     bindS (next_size r) (\<lambda>r sz. case sz of
       Inl ret \<Rightarrow> (r, Inr (buffer, ret))
     | Inr frameSize \<Rightarrow>
         if 6144 < frameSize then (r, Inr (buffer, - 1))
         else
           (case fread frameSize (in_file r) of (f, b) \<Rightarrow>
            bindS (if in_loop r \<and> in_type r = Raw \<and> b = []
                   then bindS (Rewind (r\<lparr>in_file := f\<rparr>)) (\<lambda>r ret.
                          if ret = 0
                          then (case fread frameSize (in_file r) of (f, b) \<Rightarrow> (r\<lparr>in_file := f\<rparr>, Inr (Some b)))
                          else (r, Inr None))
                   else (r\<lparr>in_file := f\<rparr>, Inr (Some b))) (\<lambda>r read.
            case read of
              None \<Rightarrow> (r, Inr (buffer, - 1))
            | Some b \<Rightarrow>
                let buffer = b @ drop (length b) buffer
                in if length b \<noteq> frameSize then (r, Inr (buffer, if b \<noteq> [] then - 1 else 0))
                   else (r, Inr (b @ replicate (6144 - frameSize) 0x55, 6144)))))"

section \<open>The three formats\<close>

text \<open>
  How a recorder writes frames: raw, each with its length in front, or that with the number of frames
  in front of all (an argument, since the reader ignores it).
\<close>

definition le16_bytes :: "nat \<Rightarrow> bytes" where
  "le16_bytes n = [of_nat (n mod 256), of_nat (n div 256)]"

definition frame_record :: "stream_type \<Rightarrow> bytes \<Rightarrow> bytes" where
  "frame_record t p = (if t = Raw then p else le16_bytes (length p) @ p)"

definition file_header :: "stream_type \<Rightarrow> bytes \<Rightarrow> bytes" where
  "file_header t count = (if t = Framed then count else [])"

definition file_of :: "stream_type \<Rightarrow> bytes \<Rightarrow> bytes list \<Rightarrow> bytes" where
  "file_of t count ps = file_header t count @ concat (map (frame_record t) ps)"

definition padded :: "bytes \<Rightarrow> bytes" where
  "padded p = p @ replicate (6144 - length p) 0x55"

text \<open>
  Frames that can be told from their file: they begin with one of the two sync words and fit, and the
  number of frames does not look like a sync word itself.
\<close>

definition recordable :: "stream_type \<Rightarrow> bytes \<Rightarrow> bytes list \<Rightarrow> bool" where
  "recordable t count ps =
     (t \<noteq> NoType \<and> ps \<noteq> [] \<and>
      (\<forall>p \<in> set ps. 4 \<le> length p \<and> is_sync (le32 p) \<and> (if t = Raw then length p = 6144 else length p \<le> 6144)) \<and>
      length count = 4 \<and> \<not> is_sync (le32 count) \<and> count ! 2 \<noteq> 0xff)"

lemma fread_at: "fi_bytes f = us @ b @ vs \<Longrightarrow> fi_pos f = length us \<Longrightarrow>
  fread (length b) f = (f\<lparr>fi_pos := length us + length b\<rparr>, b)"
  by (simp add: fread_def Let_def)

lemma unat_le32:
  "unat (le32 b) = unat (b ! 0) + 256 * unat (b ! 1) + 65536 * unat (b ! 2) + 16777216 * unat (b ! 3)"
  unfolding le32_def using unat_u8_less [of "b ! 0"] unat_u8_less [of "b ! 1"] unat_u8_less [of "b ! 2"] unat_u8_less [of "b ! 3"]
  by (intro unat_of_nat_small) simp

lemma unat_le16: "unat (le16 lo hi) = unat lo + 256 * unat hi"
  unfolding le16_def using unat_u8_less [of lo] unat_u8_less [of hi] by (intro unat_of_nat_small) simp

lemma le16_length: "n \<le> 6144 \<Longrightarrow> unat (le16 (le16_bytes n ! 0) (le16_bytes n ! 1)) = n"
  by (simp add: unat_le16 le16_bytes_def unat_of_nat_small)

lemma sync_bytes: "is_sync (le32 b) \<Longrightarrow> b ! 0 = 0xff \<and> b ! 2 \<in> {0xc5, 0x3a}"
proof -
  assume "is_sync (le32 b)"
  then have u: "unat (le32 b) = 0x49c5f8ff \<or> unat (le32 b) = 0xb63a07ff" by (auto simp: is_sync_def)
  have l: "unat (b ! 0) < 256" "unat (b ! 1) < 256" "unat (b ! 2) < 256" by (simp_all add: unat_u8_less)
  have "unat (le32 b) mod 256 = unat (b ! 0)"
  proof -
    have "unat (le32 b) = (unat (b ! 1) + 256 * unat (b ! 2) + 65536 * unat (b ! 3)) * 256 + unat (b ! 0)" by (simp add: unat_le32)
    then show ?thesis using l(1) by (metis mod_less mod_mult_self3)
  qed
  moreover have "unat (le32 b) div 65536 mod 256 = unat (b ! 2)"
  proof -
    have "unat (le32 b) = (unat (b ! 2) + 256 * unat (b ! 3)) * 65536 + (unat (b ! 0) + 256 * unat (b ! 1))" by (simp add: unat_le32)
    then have "unat (le32 b) div 65536 = unat (b ! 2) + 256 * unat (b ! 3)" using l by simp
    then show ?thesis using l(3) by simp
  qed
  ultimately have "unat (b ! 0) = 0xff" "unat (b ! 2) = 0xc5 \<or> unat (b ! 2) = 0x3a" using u by auto
  then show ?thesis by (auto simp: word_unat_eq_iff)
qed

lemma shifted_sync: "(shr s 16 AND 0xffff) OR shl (ucast (fs :: u16)) 16 = (of_nat (unat s div 65536 + 65536 * unat fs) :: u32)"
proof -
  have m: "(0xffff :: u32) = mask 16" by code_simp
  have "shr s 16 AND 0xffff = shr s 16" unfolding m
    by (rule bit_word_eqI) (auto simp: bit_and_iff bit_mask_iff dest: bit_imp_le_length)
  moreover have "shr s 16 OR shl (ucast fs) 16 = shr s 16 + shl (ucast fs) 16"
    by (rule disjunctive_add_eq_or [symmetric], rule bit_word_eqI) (auto simp: bit_and_iff bit_ucast_iff dest: bit_imp_le_length)
  ultimately have "(shr s 16 AND 0xffff) OR shl (ucast fs) 16 = shr s 16 + shl (ucast fs) 16" by simp
  moreover have "shr s 16 = of_nat (unat s div 65536)"
  proof -
    have "unat (shr s 16) = unat s div 65536" unfolding shr_def unat_drop_bit_eq by (simp add: drop_bit_eq_div)
    then show ?thesis by (metis word_unat_eq_iff unat_of_nat_small unsigned_less)
  qed
  moreover have "shl (ucast fs :: u32) 16 = of_nat (65536 * unat fs)"
    unfolding shl_def push_bit_eq_mult by (simp add: mult.commute)
  ultimately show ?thesis by simp
qed

lemma next_sync:
  "(shr (le32 b) 16 AND 0xffff) OR shl (ucast (le16 lo hi)) 16 = le32 [b ! 2, b ! 3, lo, hi]"
proof -
  have "unat (le32 b) = (unat (b ! 2) + 256 * unat (b ! 3)) * 65536 + (unat (b ! 0) + 256 * unat (b ! 1))" by (simp add: unat_le32)
  then have "unat (le32 b) div 65536 = unat (b ! 2) + 256 * unat (b ! 3)"
    using unat_u8_less [of "b ! 0"] unat_u8_less [of "b ! 1"] by simp
  then show ?thesis unfolding shifted_sync unat_le16 le32_def by simp
qed

section \<open>Reading back\<close>

text \<open>The reader stands in front of the frame with the number \<open>j\<close>.\<close>

definition reading :: "stream_type \<Rightarrow> bytes \<Rightarrow> bytes list \<Rightarrow> bool \<Rightarrow> nat \<Rightarrow> file_reader \<Rightarrow> bool" where
  "reading t count ps loop j r =
     (in_type r = t \<and> in_loop r = loop \<and> j \<le> length ps \<and>
      fi_bytes (in_file r) = file_of t count ps \<and> fi_seekable (in_file r) \<and>
      fi_pos (in_file r) = length (file_of t count (take j ps)))"

lemma recordable_head: "recordable t count ps \<Longrightarrow> \<exists>p qs. ps = p # qs \<and> 4 \<le> length p \<and> is_sync (le32 p)"
  by (cases ps) (auto simp: recordable_def)

lemma recordable_frame:
  assumes "recordable t count ps" and "p \<in> set ps"
  shows "p \<noteq> []" "length p \<le> 6144" "t = Raw \<Longrightarrow> length p = 6144"
proof -
  have "4 \<le> length p" and "if t = Raw then length p = 6144 else length p \<le> 6144" using assms by (simp_all add: recordable_def)
  then show "p \<noteq> []" "length p \<le> 6144" "t = Raw \<Longrightarrow> length p = 6144" by (auto split: if_splits)
qed

lemma length_four: "4 \<le> length p \<Longrightarrow> \<exists>a b c d xs. p = a # b # c # d # xs"
  by (cases p; cases "tl p"; cases "tl (tl p)"; cases "tl (tl (tl p))") auto

lemma identifies:
  assumes rec: "recordable t count ps" and "fi_bytes (in_file r) = file_of t count ps" and "fi_pos (in_file r) = 0" and "fi_seekable (in_file r)"
  shows "\<exists>r'. IdentifyType r = (r', Inr 0) \<and> reading t count ps (in_loop r) 0 r'"
proof -
  obtain p qs where ps: "ps = p # qs" and p4: "4 \<le> length p" and sync: "is_sync (le32 p)" using recordable_head [OF rec] by blast
  obtain a b c d xs where p: "p = a # b # c # d # xs" using length_four [OF p4] by blast
  have a: "a = 0xff" using sync_bytes [OF sync] p by simp
  have pre: "le32 [a, b, c, d] = le32 p" by (simp add: le32_def p)
  obtain f where f: "in_file r = f" "fi_pos f = 0" "fi_seekable f" "fi_bytes f = file_of t count ps" using assms by auto
  have result: "\<exists>r'. back_or_discard k n t (r\<lparr>in_file := f\<lparr>fi_pos := k\<rparr>\<rparr>) = (r', Inr 0) \<and> reading t count ps (in_loop r) 0 r'"
    if "t \<noteq> Framed" for k n
    using that f by (auto simp: back_or_discard_def seek_back_def reading_def file_of_def file_header_def)
  show ?thesis
  proof (cases t)
    case Raw
    then have "fi_bytes f = a # b # c # d # (xs @ concat (map (frame_record Raw) qs))"
      using f by (simp add: file_of_def file_header_def frame_record_def ps p)
    then have "IdentifyType r = back_or_discard 4 (6144 - 4) Raw (r\<lparr>in_file := f\<lparr>fi_pos := 4\<rparr>\<rparr>)"
      using sync f(2) unfolding IdentifyType_def fread_def Let_def f(1) by (simp add: pre eval_nat_numeral)
    then show ?thesis using result [of 4 "6144 - 4"] Raw by simp
  next
    case Streamed
    obtain l0 l1 where l: "le16_bytes (length p) = [l0, l1]" by (simp add: le16_bytes_def)
    have bytes: "fi_bytes f = l0 # l1 # a # b # c # d # (xs @ concat (map (frame_record Streamed) qs))"
      using f Streamed l by (simp add: file_of_def file_header_def frame_record_def ps) (simp add: p)
    have "\<not> is_sync (le32 [l0, l1, a, b])" using sync_bytes [of "[l0, l1, a, b]"] a by auto
    then have "IdentifyType r = back_or_discard 6 (int (unat (le32 [l0, l1, a, b] AND 0xffff)) - 4) Streamed (r\<lparr>in_file := f\<lparr>fi_pos := 6\<rparr>\<rparr>)"
      using sync bytes f(2) next_sync [of "[l0, l1, a, b]" c d] unfolding IdentifyType_def fread_def Let_def f(1)
      by (simp add: pre) (simp add: eval_nat_numeral)
    then show ?thesis using result [of 6] Streamed by auto
  next
    case Framed
    obtain l0 l1 where l: "le16_bytes (length p) = [l0, l1]" by (simp add: le16_bytes_def)
    obtain c0 c1 c2 c3 where count: "count = [c0, c1, c2, c3]" using rec length_four [of count] by (auto simp: recordable_def)
    have bytes: "fi_bytes f = c0 # c1 # c2 # c3 # l0 # l1 # a # b # c # d # (xs @ concat (map (frame_record Framed) qs))"
      using f Framed l by (simp add: file_of_def file_header_def frame_record_def ps count) (simp add: p)
    have "\<not> is_sync (le32 [c0, c1, c2, c3])" "\<not> is_sync (le32 [c2, c3, l0, l1])"
      using rec sync_bytes [of "[c2, c3, l0, l1]"] by (auto simp: recordable_def count)
    then have "IdentifyType r = back_or_discard 6 (int (unat (le16 l0 l1)) - 4) Framed (r\<lparr>in_file := f\<lparr>fi_pos := 10\<rparr>\<rparr>)"
      using sync bytes f(2) next_sync [of "[c0, c1, c2, c3]" l0 l1] unfolding IdentifyType_def fread_def Let_def f(1)
      by (simp add: pre) (simp add: eval_nat_numeral)
    moreover have "length (file_header t count) = 4" using Framed count by (simp add: file_header_def)
    ultimately show ?thesis using f Framed by (auto simp: back_or_discard_def seek_back_def reading_def file_of_def)
  next
    case NoType
    then show ?thesis using rec by (simp add: recordable_def)
  qed
qed

lemma file_split:
  "j < length ps \<Longrightarrow> file_of t count ps =
     file_of t count (take j ps) @ frame_record t (ps ! j) @ concat (map (frame_record t) (drop (Suc j) ps))"
  unfolding file_of_def by (subst id_take_nth_drop [of j ps]) simp_all

lemma file_take_Suc: "j < length ps \<Longrightarrow> file_of t count (take (Suc j) ps) = file_of t count (take j ps) @ frame_record t (ps ! j)"
  by (simp add: file_of_def take_Suc_conv_app_nth)

text \<open>A frame is read.\<close>

lemma reads_frame:
  assumes rec: "recordable t count ps" and r: "reading t count ps loop j r" and j: "j < length ps"
  shows "\<exists>r'. GetNextFrame buffer r = (r', Inr (padded (ps ! j), 6144)) \<and> reading t count ps loop (Suc j) r'"
proof -
  let ?p = "ps ! j"
  let ?us = "file_of t count (take j ps)"
  let ?vs = "concat (map (frame_record t) (drop (Suc j) ps))"
  obtain f where f: "in_file r = f" "fi_pos f = length ?us" "fi_bytes f = ?us @ frame_record t ?p @ ?vs" "fi_seekable f"
    using r file_split [OF j, of t count] by (auto simp: reading_def)
  have p: "?p \<noteq> []" "length ?p \<le> 6144" "t = Raw \<Longrightarrow> length ?p = 6144"
    using recordable_frame [OF rec nth_mem [OF j]] by blast+
  show ?thesis
  proof (cases "t = Raw")
    case True
    have rd: "fread 6144 f = (f\<lparr>fi_pos := length ?us + length ?p\<rparr>, ?p)"
      using fread_at [of f ?us ?p ?vs] f p True by (simp add: frame_record_def)
    have "GetNextFrame buffer r = (r\<lparr>in_file := f\<lparr>fi_pos := length ?us + length ?p\<rparr>\<rparr>, Inr (padded ?p, 6144))"
      using r f p True by (simp add: GetNextFrame_def next_size_def reading_def rd Let_def padded_def)
    moreover have "reading t count ps loop (Suc j) (r\<lparr>in_file := f\<lparr>fi_pos := length ?us + length ?p\<rparr>\<rparr>)"
      using r f j True by (auto simp: reading_def file_take_Suc [OF j] frame_record_def)
    ultimately show ?thesis by blast
  next
    case False
    obtain q where q: "q = length ?us + 2" by blast
    let ?f = "f\<lparr>fi_pos := q\<rparr>"
    have l: "length (le16_bytes (length ?p)) = 2" by (simp add: le16_bytes_def)
    have rd2: "fread 2 f = (?f, le16_bytes (length ?p))"
      using fread_at [of f ?us "le16_bytes (length ?p)" "?p @ ?vs"] f False l q by (simp add: frame_record_def)
    have rd: "fread (length ?p) ?f = (f\<lparr>fi_pos := q + length ?p\<rparr>, ?p)"
      using fread_at [of ?f "?us @ le16_bytes (length ?p)" ?p ?vs] f False l q by (simp add: frame_record_def)
    have t: "in_type r = t" using r by (simp add: reading_def)
    have sz: "next_size r = (r\<lparr>in_file := ?f\<rparr>, Inr (Inr (length ?p)))"
      using f t False l le16_length [OF p(2)] by (simp add: next_size_def rd2 Let_def)
    have "GetNextFrame buffer r = (r\<lparr>in_file := f\<lparr>fi_pos := q + length ?p\<rparr>\<rparr>, Inr (padded ?p, 6144))"
      using f p t False by (simp add: GetNextFrame_def sz rd Let_def padded_def)
    moreover have "reading t count ps loop (Suc j) (r\<lparr>in_file := f\<lparr>fi_pos := q + length ?p\<rparr>\<rparr>)"
      using r f j False l q by (auto simp: reading_def file_take_Suc [OF j] frame_record_def)
    ultimately show ?thesis by blast
  qed
qed

text \<open>At the end of the file a read gives nothing.\<close>

lemma fread_end: "fi_pos f = length (fi_bytes f) \<Longrightarrow> fread n f = (f, [])"
  by (simp add: fread_def Let_def)

lemma reads_end:
  assumes "reading t count ps False (length ps) r"
  shows "\<exists>r'. GetNextFrame buffer r = (r', Inr (buffer, 0)) \<and> reading t count ps False (length ps) r'"
proof -
  have e: "fread n (in_file r) = (in_file r, [])" for n
    using assms by (intro fread_end) (auto simp: reading_def)
  show ?thesis
  proof (cases "t = Raw")
    case True
    then have "GetNextFrame buffer r = (r, Inr (buffer, 0))"
      using assms by (simp add: GetNextFrame_def next_size_def reading_def e)
    then show ?thesis using assms by blast
  next
    case False
    then have "GetNextFrame buffer r = (r, Inr (buffer, 0))"
      using assms by (simp add: GetNextFrame_def next_size_def reading_def e)
    then show ?thesis using assms by blast
  qed
qed

text \<open>A looped file goes on with its first frame.\<close>

lemma rewinds:
  assumes "recordable t count ps" and "reading t count ps loop j r"
  shows "\<exists>r'. Rewind r = (r', Inr 0) \<and> reading t count ps loop 0 r'"
  using identifies [OF assms(1), of "r\<lparr>in_file := rewind (in_file r)\<rparr>"] assms(2)
  by (auto simp: Rewind_def rewind_def reading_def)

lemma reads_again:
  assumes rec: "recordable t count ps" and r: "reading t count ps True (length ps) r"
  shows "\<exists>r'. GetNextFrame buffer r = (r', Inr (padded (ps ! 0), 6144)) \<and> reading t count ps True 1 r'"
proof -
  have e: "fread n (in_file r) = (in_file r, [])" for n
    using r by (intro fread_end) (auto simp: reading_def)
  obtain r0 where r0: "Rewind r = (r0, Inr 0)" "reading t count ps True 0 r0" using rewinds [OF rec r] by blast
  have len: "0 < length ps" using rec by (auto simp: recordable_def)
  obtain r1 where r1: "GetNextFrame buffer r0 = (r1, Inr (padded (ps ! 0), 6144))" "reading t count ps True (Suc 0) r1"
    using reads_frame [OF rec r0(2) len] by blast
  have "GetNextFrame buffer r = GetNextFrame buffer r0"
  proof (cases "t = Raw")
    case True
    have "length (ps ! 0) = 6144" "ps ! 0 \<noteq> []" using recordable_frame [OF rec nth_mem [OF len]] True by blast+
    then have "fread 6144 (in_file r0) = ((in_file r0)\<lparr>fi_pos := 6144\<rparr>, ps ! 0)"
      using fread_at [of "in_file r0" "[]" "ps ! 0" "concat (map (frame_record t) (drop 1 ps))"] r0(2) True file_split [OF len, of t count]
      by (simp add: reading_def file_of_def file_header_def frame_record_def)
    then show ?thesis using r r0 True \<open>ps ! 0 \<noteq> []\<close> by (simp add: GetNextFrame_def next_size_def reading_def e)
  next
    case False
    then have "next_size r = (case fread 2 (in_file r0) of (f, b) \<Rightarrow>
        if length b = 2 then (r0\<lparr>in_file := f\<rparr>, Inr (Inr (unat (le16 (b ! 0) (b ! 1))))) else (r0\<lparr>in_file := f\<rparr>, Inr (Inl (- 1))))"
      using r r0 by (simp add: next_size_def reading_def e Let_def)
    moreover have "length (snd (fread 2 (in_file r0))) = 2"
    proof -
      have "fi_bytes (in_file r0) = file_of t count [] @ le16_bytes (length (ps ! 0)) @ ps ! 0 @ concat (map (frame_record t) (drop 1 ps))"
        using r0(2) False file_split [OF len, of t count] by (simp add: reading_def frame_record_def)
      then have "length (file_of t count []) + 2 \<le> length (fi_bytes (in_file r0))" by (simp add: le16_bytes_def)
      then show ?thesis using r0(2) by (simp add: fread_def Let_def reading_def)
    qed
    ultimately have "next_size r = next_size r0" using r0(2) False
      by (simp add: next_size_def reading_def Let_def split: prod.splits)
    then show ?thesis by (simp add: GetNextFrame_def)
  qed
  then show ?thesis using r1 by simp
qed

lemma map_add_upt2: "map (\<lambda>i. i + k) [a..<b] = [a + k..<b + k]"
  by (induction b) auto

text \<open>What \<open>n\<close> calls in a row give, each with the buffer the previous one left.\<close>

fun next_frames :: "nat \<Rightarrow> bytes \<Rightarrow> file_reader \<Rightarrow> file_reader \<times> (bytes \<times> int) list result" where
  "next_frames 0 buffer r = (r, Inr [])"
| "next_frames (Suc n) buffer r =
     bindS (GetNextFrame buffer r) (\<lambda>r (buffer, ret).
     bindS (next_frames n buffer r) (\<lambda>r rest. (r, Inr ((buffer, ret) # rest))))"

lemma reads_on:
  assumes rec: "recordable t count ps" and r: "reading t count ps loop j r" and n: "loop \<or> j + n \<le> length ps"
  shows "\<exists>r' j'. next_frames n buffer r = (r', Inr (map (\<lambda>i. (padded (ps ! (i mod length ps)), 6144)) [j..<j + n])) \<and>
           reading t count ps loop j' r' \<and> (\<not> loop \<longrightarrow> j' = j + n)"
  using r n
proof (induction n arbitrary: j r buffer)
  case 0
  then show ?case by auto
next
  case (Suc n)
  have len: "0 < length ps" using rec by (auto simp: recordable_def)
  have le: "j \<le> length ps" using Suc.prems by (simp add: reading_def)
  let ?f = "\<lambda>i. (padded (ps ! (i mod length ps)), 6144 :: int)"
  show ?case
  proof (cases "j < length ps")
    case True
    obtain r1 where r1: "GetNextFrame buffer r = (r1, Inr (padded (ps ! j), 6144))" "reading t count ps loop (Suc j) r1"
      using reads_frame [OF rec Suc.prems(1) True] by blast
    obtain r' j' where ih: "next_frames n (padded (ps ! j)) r1 = (r', Inr (map ?f [Suc j..<Suc j + n]))"
        "reading t count ps loop j' r'" "\<not> loop \<longrightarrow> j' = Suc j + n"
      using Suc.IH [OF r1(2)] Suc.prems(2) by (metis add_Suc_shift)
    have "[j..<j + Suc n] = j # [Suc j..<Suc j + n]" by (simp add: upt_conv_Cons)
    then have "next_frames (Suc n) buffer r = (r', Inr (map ?f [j..<j + Suc n]))"
      using r1 ih(1) True by simp
    then show ?thesis using ih(2,3) by auto
  next
    case False
    then have j: "j = length ps" "loop" using le Suc.prems(2) by auto
    obtain r1 where r1: "GetNextFrame buffer r = (r1, Inr (padded (ps ! 0), 6144))" "reading t count ps loop 1 r1"
      using reads_again [OF rec] Suc.prems(1) j by fastforce
    obtain r' j' where ih: "next_frames n (padded (ps ! 0)) r1 = (r', Inr (map ?f [1..<1 + n]))" "reading t count ps loop j' r'"
      using Suc.IH [OF r1(2)] j(2) by blast
    have "[j..<j + Suc n] = j # map (\<lambda>i. i + length ps) [1..<1 + n]"
      using j(1) by (simp add: upt_conv_Cons map_add_upt2 add.commute [of n])
    then have "map ?f [j..<j + Suc n] = ?f 0 # map ?f [1..<1 + n]" using j(1) by simp
    then have "next_frames (Suc n) buffer r = (r', Inr (map ?f [j..<j + Suc n]))"
      using r1 ih(1) by simp
    then show ?thesis using ih(2) j(2) by blast
  qed
qed

lemma opens:
  assumes "recordable t count ps"
  shows "\<exists>r'. Open \<lparr>fi_bytes = file_of t count ps, fi_pos = 0, fi_seekable = True\<rparr> loop r = (r', Inr 0) \<and> reading t count ps loop 0 r'"
  unfolding Open_def using identifies [OF assms, of "r\<lparr>in_file := \<lparr>fi_bytes = file_of t count ps, fi_pos = 0, fi_seekable = True\<rparr>, in_loop := loop\<rparr>"] by simp

text \<open>
  C22. Every frame comes back. A file in any of the three formats that starts with a frame (what a
  recorder wrote: frames that begin with a sync word and have at most 6144 bytes, in the raw format
  exactly 6144) is opened without error and its format found out; as many calls of \<open>GetNextFrame\<close> as it
  has frames give these frames, in their order, each padded with 0x55 to 6144 bytes. The next call
  returns 0, or, when the file is looped, the calls go round for ever.
\<close>

theorem input_file_roundtrip:
  fixes fd :: host_file
  assumes "recordable t count ps" and "fd = \<lparr>fi_bytes = file_of t count ps, fi_pos = 0, fi_seekable = True\<rparr>"
  shows "\<exists>r0. Open fd loop r = (r0, Inr 0) \<and> in_type r0 = t \<and>
           (if loop
            then \<forall>n. snd (next_frames n buffer r0) = Inr (map (\<lambda>i. (padded (ps ! (i mod length ps)), 6144)) [0..<n])
            else snd (next_frames (length ps) buffer r0) = Inr (map (\<lambda>p. (padded p, 6144)) ps) \<and>
                 (\<forall>buffer'. snd (GetNextFrame buffer' (fst (next_frames (length ps) buffer r0))) = Inr (buffer', 0)))"
proof -
  obtain r0 where r0: "Open fd loop r = (r0, Inr 0)" "reading t count ps loop 0 r0" using opens [OF assms(1)] assms(2) by blast
  have "\<forall>n. snd (next_frames n buffer r0) = Inr (map (\<lambda>i. (padded (ps ! (i mod length ps)), 6144)) [0..<n])" if "loop"
  proof
    fix n
    show "snd (next_frames n buffer r0) = Inr (map (\<lambda>i. (padded (ps ! (i mod length ps)), 6144)) [0..<n])"
      using reads_on [OF assms(1) r0(2), of n buffer] that by auto
  qed
  moreover have "snd (next_frames (length ps) buffer r0) = Inr (map (\<lambda>p. (padded p, 6144)) ps) \<and>
      (\<forall>buffer'. snd (GetNextFrame buffer' (fst (next_frames (length ps) buffer r0))) = Inr (buffer', 0))" if once: "\<not> loop"
  proof -
    obtain r' where r': "next_frames (length ps) buffer r0 = (r', Inr (map (\<lambda>i. (padded (ps ! (i mod length ps)), 6144)) [0..<length ps]))"
        "reading t count ps False (length ps) r'"
      using reads_on [OF assms(1) r0(2), of "length ps" buffer] once by auto
    have "map (\<lambda>i. (padded (ps ! (i mod length ps)), 6144)) [0..<length ps] = map (\<lambda>p. (padded p, 6144)) ps"
      by (rule nth_equalityI) simp_all
    moreover have "snd (GetNextFrame buffer' r') = Inr (buffer', 0)" for buffer' using reads_end [OF r'(2), of buffer'] by auto
    ultimately show ?thesis using r'(1) by simp
  qed
  moreover have "in_type r0 = t" using r0(2) by (simp add: reading_def)
  ultimately show ?thesis using r0(1) by auto
qed

text \<open>A framed file with frames of 5 and of 4 bytes.\<close>

theorem input_file_roundtrip_witness:
  "\<exists>r0. Open \<lparr>fi_bytes = [2, 0, 0, 0, 5, 0, 0xff, 0x07, 0x3a, 0xb6, 1, 4, 0, 0xff, 0xf8, 0xc5, 0x49], fi_pos = 0, fi_seekable = True\<rparr> False
          \<lparr>in_file = \<lparr>fi_bytes = [], fi_pos = 0, fi_seekable = True\<rparr>, in_type = NoType, in_loop = False\<rparr> = (r0, Inr 0) \<and>
        in_type r0 = Framed \<and>
        snd (next_frames 2 [] r0) = Inr [(padded [0xff, 0x07, 0x3a, 0xb6, 1], 6144), (padded [0xff, 0xf8, 0xc5, 0x49], 6144)]"
proof -
  let ?ps = "[[0xff, 0x07, 0x3a, 0xb6, 1], [0xff, 0xf8, 0xc5, 0x49]] :: bytes list"
  have "recordable Framed [2, 0, 0, 0] ?ps"
    by (simp add: recordable_def is_sync_def le32_def)
  moreover have "file_of Framed [2, 0, 0, 0] ?ps = [2, 0, 0, 0, 5, 0, 0xff, 0x07, 0x3a, 0xb6, 1, 4, 0, 0xff, 0xf8, 0xc5, 0x49]"
    by (simp add: file_of_def file_header_def frame_record_def le16_bytes_def)
  ultimately show ?thesis
    using input_file_roundtrip [of Framed "[2, 0, 0, 0]" ?ps, OF _ refl, of False] by (fastforce simp: eval_nat_numeral)
qed

end
