(* ===== verification/Sdr_Output.thy ===== *)
theory Sdr_Output
  imports Threadsafe_Queue Timestamp
begin

text \<open>
  The output to a radio (\<open>src/output/SDR.cpp\<close>): the modulator's thread puts frames with their time stamps
  into a queue, the device's thread takes them out, decides from the time stamp whether the frame is
  transmitted, and tells the device when the time stamps are not continuous. What the device answers is an
  argument; what it is told is recorded. A configuration can be changed by the remote control between
  two frames, so it is an argument of every step.

  Not modelled: the feedback server for predistortion, and the messages.
\<close>

section \<open>State\<close>

record sdr_config =
  enableSync :: bool
  muteNoTimestamps :: bool
  muting :: bool
  sampleRate :: u32

record frame_data =
  fr_buf :: bytes
  fr_sampleSize :: u64
  fr_ts :: frame_timestamp

text \<open>What the device answers while one frame is handled.\<close>

record device_answers =
  is_clk_source_ok :: bool
  device_real_secs :: rat
  transmit_result :: "unit result"

datatype device_call = RequireRefresh | Transmit frame_data

record sdr =
  sdr_running :: bool
  sdr_size :: u64
  sdr_frame :: bytes
  sdr_queue :: "frame_data ts_queue"
  last_tx_time_initialised :: bool
  last_tx_second :: u32
  last_tx_pps :: u32
  num_queue_overflows :: nat
  device_calls :: "device_call list"

definition SDR :: sdr where
  "SDR = \<lparr>sdr_running = True, sdr_size = 8, sdr_frame = [], sdr_queue = ThreadsafeQueue,
          last_tx_time_initialised = False, last_tx_second = 0, last_tx_pps = 0, num_queue_overflows = 0, device_calls = []\<rparr>"

definition set_sample_size :: "u64 \<Rightarrow> sdr \<Rightarrow> sdr" where
  "set_sample_size sz s = s\<lparr>sdr_size := sz\<rparr>"

definition FRAMES_MAX_SIZE_UNSYNC :: nat where
  "FRAMES_MAX_SIZE_UNSYNC = 8"

definition FRAMES_MAX_SIZE_SYNC :: nat where
  "FRAMES_MAX_SIZE_SYNC = 250"

definition TIMESTAMP_ABORT_FUTURE :: rat where
  "TIMESTAMP_ABORT_FUTURE = 100"

section \<open>The modulator's thread\<close>

definition sdr_process :: "bytes \<Rightarrow> sdr \<Rightarrow> sdr \<times> nat result" where
  "sdr_process dataIn s =
     (if \<not> sdr_running s then (s, Inl (RuntimeError ''SDR thread failed''))
      else (s\<lparr>sdr_frame := dataIn\<rparr>, Inr (length dataIn)))"

text \<open>The frame is queued when its metadata comes; the first entry is that of the earliest ETI frame.\<close>

definition sdr_process_metadata :: "sdr_config \<Rightarrow> frame_timestamp list \<Rightarrow> sdr \<Rightarrow> sdr" where
  "sdr_process_metadata c metadataIn s =
     (if sdr_running s then
        (case metadataIn of
           [] \<Rightarrow> s\<lparr>sdr_frame := []\<rparr>
         | ts # _ \<Rightarrow>
             (let frame = \<lparr>fr_buf = sdr_frame s, fr_sampleSize = sdr_size s, fr_ts = ts\<rparr>;
                  max_size = (if enableSync c then FRAMES_MAX_SIZE_SYNC else FRAMES_MAX_SIZE_UNSYNC)
              in case push_overflow frame max_size (sdr_queue s) of
                   (q, Inr (overflowed, _)) \<Rightarrow>
                     s\<lparr>sdr_frame := [], sdr_queue := q, num_queue_overflows := num_queue_overflows s + (if overflowed then 1 else 0)\<rparr>
                 | (q, Inl _) \<Rightarrow> s))
      else s)"

section \<open>The device's thread\<close>

definition call_device :: "device_call \<Rightarrow> sdr \<Rightarrow> sdr" where
  "call_device c s = s\<lparr>device_calls := device_calls s @ [c]\<rparr>"

text \<open>\<open>frame_timestamp::get_real_secs\<close>, with the sum and the quotient of doubles as arguments.\<close>

definition get_real_secs :: "(rat \<Rightarrow> rat \<Rightarrow> rat) \<Rightarrow> (rat \<Rightarrow> rat \<Rightarrow> rat) \<Rightarrow> frame_timestamp \<Rightarrow> rat" where
  "get_real_secs dadd ddiv ts = dadd (of_nat (unat (ts_sec ts))) (ddiv (of_nat (unat (ts_pps ts))) 16384000)"

text \<open>The loop that carries the expected ticks into the seconds, on \<open>uint32_t\<close>.\<close>

function carry_expected :: "u32 \<Rightarrow> u32 \<Rightarrow> u32 \<times> u32" where
  "carry_expected expected_sec expected_pps =
     (if 16384000 \<le> expected_pps then carry_expected (expected_sec + 1) (expected_pps - 16384000)
      else (expected_sec, expected_pps))"
  by pat_completeness auto
termination
proof (relation "measure (\<lambda>(_, expected_pps). unat expected_pps)")
  fix p :: u32
  assume "16384000 \<le> p"
  then show "((s + 1, p - 16384000), (s, p)) \<in> measure (\<lambda>(_, expected_pps). unat expected_pps)" for s :: u32
    by (simp add: unat_sub word_le_nat_alt)
qed simp

declare carry_expected.simps [simp del]

text \<open>The time the frame should have if it follows the one before without a gap.\<close>

definition tick_increment :: "u32 \<Rightarrow> frame_data \<Rightarrow> u64 result" where
  "tick_increment rate frame =
     (if fr_sampleSize frame = 0 then Inl (UndefinedBehaviour ''division by zero'')
      else
        (let sizeIn = of_nat (length (fr_buf frame)) div fr_sampleSize frame
         in if rate = 0 then Inl (UndefinedBehaviour ''division by zero'')
            else Inr (sizeIn * 16384000 div ucast rate)))"

definition expected_time :: "u64 \<Rightarrow> sdr \<Rightarrow> u32 \<times> u32" where
  "expected_time increment s =
     carry_expected (ucast (ucast (last_tx_second s) + increment div 16384000 :: u64))
                    (ucast (ucast (last_tx_pps s) + increment mod 16384000 :: u64))"

definition check_continuity :: "sdr_config \<Rightarrow> frame_data \<Rightarrow> sdr \<Rightarrow> sdr \<times> unit result" where
  "check_continuity c frame s =
     (if last_tx_time_initialised s then
        needS (tick_increment (sampleRate c) frame) s (\<lambda>increment.
        if expected_time increment s \<noteq> (ts_sec (fr_ts frame), ts_pps (fr_ts frame))
        then (call_device RequireRefresh s, Inr ())
        else (s, Inr ()))
      else (s, Inr ()))"

text \<open>
  The part for synchronous transmission; \<open>False\<close> means that \<open>handle_frame\<close> returns here. (The test for
  an invalid time stamp inside it can not succeed.)
\<close>

definition check_time ::
    "(rat \<Rightarrow> rat \<Rightarrow> rat) \<Rightarrow> (rat \<Rightarrow> rat \<Rightarrow> rat) \<Rightarrow> sdr_config \<Rightarrow> device_answers \<Rightarrow> frame_data \<Rightarrow> sdr \<Rightarrow> sdr \<times> bool result" where
  "check_time dadd ddiv c dev frame s =
     (let ts = fr_ts frame; device_time = device_real_secs dev
      in if \<not> ts_valid ts then (s, Inr False)
         else
           (let s = (if ts_offset_changed ts then call_device RequireRefresh s else s)
            in bindS (check_continuity c frame s) (\<lambda>s _.
               let s = s\<lparr>last_tx_second := ts_sec ts, last_tx_pps := ts_pps ts, last_tx_time_initialised := True\<rparr>
               in if get_real_secs dadd ddiv ts < device_time
                  then (call_device RequireRefresh s, Inr False)
                  else if dadd device_time TIMESTAMP_ABORT_FUTURE < get_real_secs dadd ddiv ts
                  then (s, Inl (RuntimeError ''Timestamp error. Aborted.''))
                  else (s, Inr True))))"

definition handle_frame ::
    "(rat \<Rightarrow> rat \<Rightarrow> rat) \<Rightarrow> (rat \<Rightarrow> rat \<Rightarrow> rat) \<Rightarrow> sdr_config \<Rightarrow> device_answers \<Rightarrow> frame_data \<Rightarrow> sdr \<Rightarrow> sdr \<times> unit result" where
  "handle_frame dadd ddiv c dev frame s =
     (if \<not> is_clk_source_ok dev then (s, Inr ())
      else if enableSync c \<and> muteNoTimestamps c \<and> \<not> ts_valid (fr_ts frame) then (s, Inr ())
      else
        bindS (if enableSync c \<and> ts_valid (fr_ts frame) then check_time dadd ddiv c dev frame s else (s, Inr True)) (\<lambda>s go_on.
        if \<not> go_on then (s, Inr ())
        else if muting c then (call_device RequireRefresh s, Inr ())
        else (call_device (Transmit frame) s, transmit_result dev)))"

text \<open>
  One round of \<open>process_thread_entry\<close>. \<open>None\<close>: it waits, or has ended. A wakeup or a runtime error ends
  the thread, and with it the output; anything else would end the program. (The second test of
  \<open>m_running\<close>, after a frame was taken, only drops that frame when the output is being destroyed.)
\<close>

definition device_round ::
    "(rat \<Rightarrow> rat \<Rightarrow> rat) \<Rightarrow> (rat \<Rightarrow> rat \<Rightarrow> rat) \<Rightarrow> sdr_config \<Rightarrow> device_answers \<Rightarrow> sdr \<Rightarrow> (sdr \<times> unit result) option" where
  "device_round dadd ddiv c dev s =
     (if \<not> sdr_running s then None
      else
        (case wait_and_pop 1 (sdr_queue s) of
           (q, Inr Waits) \<Rightarrow> None
         | (q, Inr Wakeup) \<Rightarrow> Some (s\<lparr>sdr_queue := q, sdr_running := False\<rparr>, Inr ())
         | (q, Inr (Popped frame)) \<Rightarrow>
             Some (case handle_frame dadd ddiv c dev frame (s\<lparr>sdr_queue := q\<rparr>) of
                     (s, Inr _) \<Rightarrow> (s, Inr ())
                   | (s, Inl (RuntimeError _)) \<Rightarrow> (s\<lparr>sdr_running := False\<rparr>, Inr ())
                   | (s, Inl e) \<Rightarrow> (s, Inl e))
         | (q, Inl e) \<Rightarrow> Some (s, Inl e)))"

text \<open>The destructor, before it joins the thread.\<close>

definition sdr_stop :: "sdr \<Rightarrow> sdr" where
  "sdr_stop s = s\<lparr>sdr_running := False, sdr_queue := trigger_wakeup (sdr_queue s)\<rparr>"

text \<open>The duration of a transmission frame, and the length of the queue in milliseconds.\<close>

definition transmission_frame_duration :: "nat \<Rightarrow> nat result" where
  "transmission_frame_duration dabmode =
     (if dabmode = 1 then Inr 96
      else if dabmode = 2 \<or> dabmode = 3 then Inr 24
      else if dabmode = 4 then Inr 48
      else Inl (RuntimeError ''invalid DAB mode''))"

section \<open>What reaches the air\<close>

text \<open>The calls a step adds.\<close>

lemma call_device_calls [simp]: "device_calls (call_device c s) = device_calls s @ [c]"
  by (simp add: call_device_def)

lemma call_device_others [simp]:
  "sdr_queue (call_device c s) = sdr_queue s" "last_tx_second (call_device c s) = last_tx_second s"
  "last_tx_pps (call_device c s) = last_tx_pps s" "sdr_running (call_device c s) = sdr_running s"
  "last_tx_time_initialised (call_device c s) = last_tx_time_initialised s"
  by (simp_all add: call_device_def)

definition gap :: "sdr_config \<Rightarrow> frame_data \<Rightarrow> sdr \<Rightarrow> bool" where
  "gap c frame s =
     (last_tx_time_initialised s \<and>
      (case tick_increment (sampleRate c) frame of
         Inl _ \<Rightarrow> False
       | Inr increment \<Rightarrow> expected_time increment s \<noteq> (ts_sec (fr_ts frame), ts_pps (fr_ts frame))))"

lemma check_continuity_calls:
  "check_continuity c frame s = (s', r) \<Longrightarrow> s' = (if gap c frame s then call_device RequireRefresh s else s)"
  by (auto simp: check_continuity_def gap_def needS_def split: sum.splits if_splits)

lemma check_time_calls:
  assumes "check_time dadd ddiv c dev frame s = (s', Inr go_on)" and "ts_valid (fr_ts frame)"
  shows "device_calls s' = device_calls s @ (if ts_offset_changed (fr_ts frame) then [RequireRefresh] else []) @
      (if gap c frame s then [RequireRefresh] else []) @
      (if get_real_secs dadd ddiv (fr_ts frame) < device_real_secs dev then [RequireRefresh] else [])"
    and "go_on = (device_real_secs dev \<le> get_real_secs dadd ddiv (fr_ts frame))"
    and "go_on \<Longrightarrow> get_real_secs dadd ddiv (fr_ts frame) \<le> dadd (device_real_secs dev) TIMESTAMP_ABORT_FUTURE"
proof -
  let ?s = "if ts_offset_changed (fr_ts frame) then call_device RequireRefresh s else s"
  have gap: "gap c frame ?s = gap c frame s" by (auto simp: gap_def expected_time_def split: sum.splits)
  obtain s1 r where c: "check_continuity c frame ?s = (s1, r)" by force
  note s1 = check_continuity_calls [OF c, unfolded gap]
  have "r = Inr ()" using assms c by (cases r) (auto simp: check_time_def Let_def)
  note eq = assms(1) [unfolded check_time_def Let_def c this bindS_simps]
  show "device_calls s' = device_calls s @ (if ts_offset_changed (fr_ts frame) then [RequireRefresh] else []) @
      (if gap c frame s then [RequireRefresh] else []) @
      (if get_real_secs dadd ddiv (fr_ts frame) < device_real_secs dev then [RequireRefresh] else [])"
    using eq assms(2) s1 by (auto split: if_splits)
  show "go_on = (device_real_secs dev \<le> get_real_secs dadd ddiv (fr_ts frame))"
    "go_on \<Longrightarrow> get_real_secs dadd ddiv (fr_ts frame) \<le> dadd (device_real_secs dev) TIMESTAMP_ABORT_FUTURE"
    using eq assms(2) by (auto split: if_splits)
qed

text \<open>When \<open>handle_frame\<close> gets to its end.\<close>

definition due :: "(rat \<Rightarrow> rat \<Rightarrow> rat) \<Rightarrow> (rat \<Rightarrow> rat \<Rightarrow> rat) \<Rightarrow> device_answers \<Rightarrow> frame_data \<Rightarrow> bool" where
  "due dadd ddiv dev frame =
     (device_real_secs dev \<le> get_real_secs dadd ddiv (fr_ts frame) \<and>
      get_real_secs dadd ddiv (fr_ts frame) \<le> dadd (device_real_secs dev) TIMESTAMP_ABORT_FUTURE)"

text \<open>
  C20. Of the calls \<open>handle_frame\<close> makes at most the last is a transmission, and it is one only if the
  clock source is ok, the output is not muted and, in synchronous operation, the time stamp lies between
  the device's time and 100 seconds later, or there is none and such frames are not to be muted. Nothing
  else is ever transmitted.
\<close>

theorem sdr_transmits_on_time:
  assumes "handle_frame dadd ddiv c dev frame s = (s', r)" and "Transmit f \<notin> set (device_calls s)"
    and "Transmit f \<in> set (device_calls s')"
  shows "f = frame \<and> is_clk_source_ok dev \<and> \<not> muting c \<and> last (device_calls s') = Transmit frame \<and> r = transmit_result dev \<and>
    (enableSync c \<longrightarrow> (if ts_valid (fr_ts frame) then due dadd ddiv dev frame else \<not> muteNoTimestamps c))"
proof (cases "enableSync c \<and> ts_valid (fr_ts frame)")
  case True
  obtain s1 q where t: "check_time dadd ddiv c dev frame s = (s1, q)" by force
  have ok: "is_clk_source_ok dev" using assms by (auto simp: handle_frame_def split: if_splits)
  show ?thesis
  proof (cases q)
    case (Inl e)
    have "s' = s1" using assms(1) True ok t Inl by (simp add: handle_frame_def)
    moreover have "Transmit f \<notin> set (device_calls s1)"
    proof -
      let ?s = "if ts_offset_changed (fr_ts frame) then call_device RequireRefresh s else s"
      obtain s2 r2 where c: "check_continuity c frame ?s = (s2, r2)" by force
      have "device_calls s1 = device_calls s2"
        using t Inl True by (cases r2) (auto simp: check_time_def c Let_def split: if_splits)
      then show ?thesis using check_continuity_calls [OF c] assms(2) by (auto split: if_splits)
    qed
    ultimately show ?thesis using assms(3) by simp
  next
    case (Inr go_on)
    have v: "ts_valid (fr_ts frame)" using True by simp
    note calls = check_time_calls [OF t [unfolded Inr] v]
    have none: "Transmit f \<notin> set (device_calls s1)" using calls(1) assms(2) by auto
    then show ?thesis using assms(1,3) True ok t Inr calls(2,3)
      by (auto simp: handle_frame_def due_def split: if_splits)
  qed
next
  case False
  then show ?thesis using assms by (auto simp: handle_frame_def split: if_splits)
qed

section \<open>Continuity of the time stamps\<close>

text \<open>A time in ticks of 1/16384000 second, and the length of a frame in ticks.\<close>

definition ticks :: "u32 \<Rightarrow> u32 \<Rightarrow> nat" where
  "ticks sec pps = unat sec * 16384000 + unat pps"

lemma carry_once:
  assumes "unat b < 2 * 16384000"
  shows "carry_expected a b = (if 16384000 \<le> b then (a + 1, b - 16384000) else (a, b))"
proof (cases "16384000 \<le> b")
  case True
  then have "unat (b - 16384000) < 16384000" using assms by (simp add: unat_sub word_le_nat_alt)
  then have "\<not> 16384000 \<le> b - 16384000" by (simp add: word_le_nat_alt)
  then show ?thesis using True by (simp add: carry_expected.simps)
qed (simp add: carry_expected.simps)

lemma unat_low_word: "unat (ucast (x :: u64) :: u32) = unat x mod 2 ^ 32"
  by (simp add: unsigned_ucast_eq take_bit_eq_mod)

lemma unat_wide_word: "unat (ucast (x :: u32) :: u64) = unat x"
proof -
  have "unat x < 2 ^ LENGTH(32)" by (rule unsigned_less)
  then show ?thesis by (simp add: unsigned_ucast_eq take_bit_eq_mod)
qed

lemma of_nat_mod_word: "(of_nat (n mod 2 ^ 32) :: u32) = of_nat n"
  by (simp add: word_unat_eq_iff unat_of_nat)

lemma expected_time_ticks:
  assumes lp: "unat (last_tx_pps s) < 16384000" and n: "n = ticks (last_tx_second s) (last_tx_pps s) + unat inc"
  shows "expected_time inc s = (of_nat (n div 16384000), of_nat (n mod 16384000))"
proof -
  define T :: nat where "T = 16384000"
  define q r m where "q = unat inc div T" and "r = unat inc mod T" and "m = unat (last_tx_pps s) + r"
  have T: "0 < T" "2 * T < 2 ^ 32" by (simp_all add: T_def)
  have r: "r < T" using T(1) by (simp add: r_def)
  have inc: "unat (inc div 16384000) = q" "unat (inc mod 16384000) = r"
    by (simp_all add: q_def r_def T_def unat_div unat_mod)
  have m: "m < 2 * T" using lp r by (simp add: m_def T_def)
  let ?b = "ucast (ucast (last_tx_pps s) + inc mod 16384000 :: u64) :: u32"
  let ?a = "ucast (ucast (last_tx_second s) + inc div 16384000 :: u64) :: u32"
  have b: "unat ?b = m"
  proof -
    have "unat (ucast (last_tx_pps s) + inc mod 16384000 :: u64) = m mod 2 ^ 64"
      unfolding unat_word_ariths(1) unat_wide_word inc m_def by simp
    then have "unat ?b = m mod 2 ^ 64 mod 2 ^ 32" by (simp only: unat_low_word)
    then show ?thesis using m T(2) by simp
  qed
  have a: "?a = of_nat (unat (last_tx_second s) + q)"
  proof -
    have "unat (ucast (last_tx_second s) + inc div 16384000 :: u64) = (unat (last_tx_second s) + q) mod 2 ^ 64"
      unfolding unat_word_ariths(1) unat_wide_word inc by simp
    then have "unat ?a = (unat (last_tx_second s) + q) mod 2 ^ 64 mod 2 ^ 32" by (simp only: unat_low_word)
    also have "\<dots> = (unat (last_tx_second s) + q) mod 2 ^ 32" by (rule mod_mod_cancel) simp
    finally have "unat ?a = unat (of_nat (unat (last_tx_second s) + q) :: u32)" by (simp add: unat_of_nat del: of_nat_add)
    then show ?thesis by (simp only: word_unat_eq_iff)
  qed
  have n_eq: "n = (unat (last_tx_second s) + q) * T + m"
    unfolding n ticks_def m_def q_def r_def T_def by (simp add: algebra_simps)
  have dm: "(k * T + j) div T = k" "(k * T + j) mod T = j" if "j < T" for k j using that by simp_all
  show ?thesis
  proof (cases "T \<le> m")
    case True
    then have "n = (unat (last_tx_second s) + q + 1) * T + (m - T)" using n_eq by simp
    moreover have "m - T < T" using m by simp
    ultimately have d: "n div T = unat (last_tx_second s) + q + 1" "n mod T = m - T" using dm by metis+
    have "16384000 \<le> ?b" using True b by (simp add: word_le_nat_alt T_def)
    moreover have "?b - 16384000 = of_nat (m - T)" using True b m T(2)
      by (simp add: word_unat_eq_iff unat_sub word_le_nat_alt T_def unat_of_nat_small)
    ultimately have "carry_expected ?a ?b = (?a + 1, of_nat (m - T))" using b m carry_once [of ?b ?a] by (simp add: T_def)
    then show ?thesis using a d by (simp add: expected_time_def T_def)
  next
    case False
    then have d: "n div T = unat (last_tx_second s) + q" "n mod T = m" using n_eq dm by simp_all
    have "\<not> 16384000 \<le> ?b" using False b by (simp add: word_le_nat_alt T_def)
    moreover have "?b = of_nat m" using b m T(2) by (simp add: word_unat_eq_iff unat_of_nat_small)
    ultimately have "carry_expected ?a ?b = (?a, of_nat m)" using b m carry_once [of ?b ?a] by (simp add: T_def)
    then show ?thesis using a d by (simp add: expected_time_def T_def)
  qed
qed

lemma ticks_unique:
  assumes "unat p < 16384000"
  shows "ticks s p = n mod (2 ^ 32 * 16384000) \<longleftrightarrow> (of_nat (n div 16384000), of_nat (n mod 16384000)) = (s, p)"
proof -
  have s: "unat s < 2 ^ LENGTH(32)" by (rule unsigned_less)
  have n: "n mod (2 ^ 32 * 16384000) = (n div 16384000 mod 2 ^ 32) * 16384000 + n mod 16384000"
    using mod_mult2_eq [of n 16384000 "2 ^ 32"] by (simp add: mult.commute)
  have dm: "(k * 16384000 + j) div 16384000 = k" "(k * 16384000 + j) mod 16384000 = j" if "j < 16384000" for k j :: nat
    using that by simp_all
  have r: "n mod 16384000 < 16384000" by simp
  have "ticks s p = n mod (2 ^ 32 * 16384000) \<longleftrightarrow> unat s = n div 16384000 mod 2 ^ 32 \<and> unat p = n mod 16384000"
    unfolding n ticks_def using dm [OF assms] dm [OF r] by metis
  also have "\<dots> \<longleftrightarrow> s = of_nat (n div 16384000) \<and> p = of_nat (n mod 16384000)"
  proof -
    have "unat (of_nat (n mod 16384000) :: u32) = n mod 16384000" by (rule unat_of_nat_small) (use r in simp)
    moreover have "unat (of_nat (n div 16384000) :: u32) = n div 16384000 mod 2 ^ 32" by (simp add: unat_of_nat)
    ultimately show ?thesis by (metis word_unat_eq_iff)
  qed
  finally show ?thesis by auto
qed

lemma gap_ticks:
  assumes "last_tx_time_initialised s" and "unat (last_tx_pps s) < 16384000" and "unat (ts_pps (fr_ts frame)) < 16384000"
    and "tick_increment (sampleRate c) frame = Inr inc"
  shows "gap c frame s \<longleftrightarrow> ticks (ts_sec (fr_ts frame)) (ts_pps (fr_ts frame)) \<noteq>
    (ticks (last_tx_second s) (last_tx_pps s) + unat inc) mod (2 ^ 32 * 16384000)"
  using assms unfolding gap_def ticks_unique [OF assms(3)] expected_time_ticks [OF assms(2) refl] by simp

text \<open>
  In synchronous operation the device is asked to take a new time stamp exactly when it has to: when
  the offset was changed, when the frame's time is not that of the frame before plus the duration of its
  samples, to the tick of 1/16384000 second and modulo 2^32 seconds, when it is too late, or when the
  output is muted.
\<close>

lemma sdr_refreshes_on_discontinuity:
  assumes "handle_frame dadd ddiv c dev frame s = (s', Inr ())" and "enableSync c" and "ts_valid (fr_ts frame)" and "is_clk_source_ok dev"
    and "last_tx_time_initialised s" and "unat (last_tx_pps s) < 16384000" and "unat (ts_pps (fr_ts frame)) < 16384000"
    and "tick_increment (sampleRate c) frame = Inr inc"
  shows "RequireRefresh \<in> set (drop (length (device_calls s)) (device_calls s')) \<longleftrightarrow>
    ts_offset_changed (fr_ts frame) \<or>
    ticks (ts_sec (fr_ts frame)) (ts_pps (fr_ts frame)) \<noteq>
      (ticks (last_tx_second s) (last_tx_pps s) + unat inc) mod (2 ^ 32 * 16384000) \<or>
    get_real_secs dadd ddiv (fr_ts frame) < device_real_secs dev \<or> muting c"
proof -
  obtain s1 q where t: "check_time dadd ddiv c dev frame s = (s1, q)" by force
  obtain go_on where q: "q = Inr go_on" using assms(1-4) t by (cases q) (auto simp: handle_frame_def)
  note calls = check_time_calls [OF t [unfolded q] assms(3)]
  have "s' = (if \<not> go_on then s1 else if muting c then call_device RequireRefresh s1 else call_device (Transmit frame) s1)"
    using assms(1-4) t q by (auto simp: handle_frame_def split: if_splits)
  then show ?thesis unfolding gap_ticks [OF assms(5-8), symmetric] using calls by auto
qed

section \<open>The two threads together\<close>

text \<open>
  The modulator's thread gives the output a frame and its metadata; the device's thread makes a round,
  with what the device answers; the output is stopped.
\<close>

datatype sdr_event =
    Frame sdr_config bytes "frame_timestamp list"
  | Round sdr_config device_answers
  | Stop_output

fun sdr_step :: "(rat \<Rightarrow> rat \<Rightarrow> rat) \<Rightarrow> (rat \<Rightarrow> rat \<Rightarrow> rat) \<Rightarrow> sdr_event \<Rightarrow> sdr \<Rightarrow> sdr" where
  "sdr_step dadd ddiv (Frame c buf md) s =
     (case sdr_process buf s of (s, Inr _) \<Rightarrow> sdr_process_metadata c md s | (s, Inl _) \<Rightarrow> s)"
| "sdr_step dadd ddiv (Round c dev) s =
     (case device_round dadd ddiv c dev s of None \<Rightarrow> s | Some (s, _) \<Rightarrow> s)"
| "sdr_step dadd ddiv Stop_output s = sdr_stop s"

fun sdr_run :: "(rat \<Rightarrow> rat \<Rightarrow> rat) \<Rightarrow> (rat \<Rightarrow> rat \<Rightarrow> rat) \<Rightarrow> sdr_event list \<Rightarrow> sdr \<Rightarrow> sdr" where
  "sdr_run dadd ddiv [] s = s"
| "sdr_run dadd ddiv (e # es) s = sdr_run dadd ddiv es (sdr_step dadd ddiv e s)"

text \<open>The frames offered with a time stamp, and those transmitted, in their order.\<close>

fun sdr_offered :: "sdr_event \<Rightarrow> (bytes \<times> frame_timestamp) list" where
  "sdr_offered (Frame c buf (ts # _)) = [(buf, ts)]"
| "sdr_offered _ = []"

fun sent :: "device_call list \<Rightarrow> (bytes \<times> frame_timestamp) list" where
  "sent [] = []"
| "sent (Transmit f # cs) = (fr_buf f, fr_ts f) # sent cs"
| "sent (RequireRefresh # cs) = sent cs"

abbreviation contents_of :: "frame_data \<Rightarrow> bytes \<times> frame_timestamp" where
  "contents_of f \<equiv> (fr_buf f, fr_ts f)"

lemma sent_append [simp]: "sent (cs @ ds) = sent cs @ sent ds"
  by (induction cs rule: sent.induct) auto

lemma check_time_sent:
  "check_time dadd ddiv c dev frame s = (s', r) \<Longrightarrow> sent (device_calls s') = sent (device_calls s) \<and> sdr_queue s' = sdr_queue s"
  by (auto simp: check_time_def check_continuity_def Let_def needS_def bindS_def split: sum.splits if_splits prod.splits)

lemma handle_frame_sent:
  assumes "handle_frame dadd ddiv c dev frame s = (s', r)"
  shows "sdr_queue s' = sdr_queue s \<and>
    (sent (device_calls s') = sent (device_calls s) \<or> sent (device_calls s') = sent (device_calls s) @ [contents_of frame])"
proof -
  obtain s1 q where t: "(if enableSync c \<and> ts_valid (fr_ts frame) then check_time dadd ddiv c dev frame s else (s, Inr True)) = (s1, q)"
    by force
  then have "sent (device_calls s1) = sent (device_calls s) \<and> sdr_queue s1 = sdr_queue s"
    using check_time_sent [of dadd ddiv c dev frame s s1 q] by (auto split: if_splits)
  then show ?thesis using assms t
    by (cases q) (auto simp: handle_frame_def split: if_splits)
qed

text \<open>What waits in the queue, after what has been sent.\<close>

definition pending :: "sdr \<Rightarrow> (bytes \<times> frame_timestamp) list" where
  "pending s = sent (device_calls s) @ map contents_of (the_queue (sdr_queue s))"

lemma sdr_round_order:
  assumes "device_round dadd ddiv c dev s = Some (s', r)"
  shows "subseq (pending s') (pending s) \<and> length (the_queue (sdr_queue s')) \<le> length (the_queue (sdr_queue s))"
proof -
  obtain q o' where w: "wait_and_pop 1 (sdr_queue s) = (q, o')" by force
  show ?thesis
  proof (cases "\<exists>frame. o' = Inr (Popped frame)")
    case True
    then obtain frame where o': "o' = Inr (Popped frame)" by blast
    obtain xs where q: "the_queue (sdr_queue s) = frame # xs" "q = (sdr_queue s)\<lparr>the_queue := xs\<rparr>"
      using w o' by (auto simp: wait_and_pop_def split: if_splits list.splits)
    obtain s1 r1 where h: "handle_frame dadd ddiv c dev frame (s\<lparr>sdr_queue := q\<rparr>) = (s1, r1)" by force
    note hf = handle_frame_sent [OF h]
    have "device_calls s' = device_calls s1" "sdr_queue s' = sdr_queue s1"
      using assms w o' h by (auto simp: device_round_def split: if_splits sum.splits error.splits)
    then have "pending s' = sent (device_calls s) @ map contents_of xs \<or>
        pending s' = sent (device_calls s) @ [contents_of frame] @ map contents_of xs"
      using hf q by (auto simp: pending_def)
    moreover have "the_queue (sdr_queue s') = xs" using hf q \<open>sdr_queue s' = sdr_queue s1\<close> by simp
    moreover have "pending s = sent (device_calls s) @ [contents_of frame] @ map contents_of xs" using q by (simp add: pending_def)
    ultimately show ?thesis using q by (auto simp: subseq_append')
  next
    case False
    then show ?thesis using assms w
      by (auto simp: device_round_def wait_and_pop_def pending_def split: if_splits list.splits pop_outcome.splits sum.splits)
  qed
qed

lemma sdr_step_order:
  "subseq (pending (sdr_step dadd ddiv e s)) (pending s @ sdr_offered e) \<and>
   (length (the_queue (sdr_queue s)) \<le> FRAMES_MAX_SIZE_SYNC \<longrightarrow> length (the_queue (sdr_queue (sdr_step dadd ddiv e s))) \<le> FRAMES_MAX_SIZE_SYNC)"
proof (cases e)
  case (Frame c buf md)
  show ?thesis
  proof (cases "sdr_running s \<and> md \<noteq> []")
    case True
    then obtain ts mds where md: "md = ts # mds" by (cases md) auto
    let ?n = "if enableSync c then FRAMES_MAX_SIZE_SYNC else FRAMES_MAX_SIZE_UNSYNC"
    have n: "0 < ?n" "?n \<le> FRAMES_MAX_SIZE_SYNC" by (auto simp: FRAMES_MAX_SIZE_SYNC_def FRAMES_MAX_SIZE_UNSYNC_def)
    obtain rest over where room: "make_room ?n (the_queue (sdr_queue s)) = (rest, over)" by force
    let ?f = "\<lparr>fr_buf = buf, fr_sampleSize = sdr_size s, fr_ts = ts\<rparr>"
    have "sdr_queue (sdr_step dadd ddiv e s) = (sdr_queue s)\<lparr>the_queue := rest @ [?f]\<rparr>"
      "device_calls (sdr_step dadd ddiv e s) = device_calls s"
      using True Frame md n(1) room by (auto simp: sdr_process_def sdr_process_metadata_def push_overflow_def Let_def)
    moreover have "\<exists>ys. the_queue (sdr_queue s) = ys @ rest" using make_room_suffix [of "the_queue (sdr_queue s)" ?n] room by auto
    then have "subseq rest (the_queue (sdr_queue s))" by (auto intro: subseq_drop_many)
    moreover have "length rest < ?n" using make_room_length [OF n(1), of "the_queue (sdr_queue s)"] room by simp
    moreover from \<open>subseq rest (the_queue (sdr_queue s))\<close> have "subseq (map contents_of rest @ [(buf, ts)]) (map contents_of (the_queue (sdr_queue s)) @ [(buf, ts)])"
      by (intro subseq_append_right subseq_map)
    then have "subseq (pending (sdr_step dadd ddiv e s)) (pending s @ sdr_offered e)"
      using calculation(1,2) Frame md by (simp add: pending_def subseq_append')
    moreover have "length (the_queue (sdr_queue (sdr_step dadd ddiv e s))) \<le> FRAMES_MAX_SIZE_SYNC"
      using calculation(1,4) n(2) by simp
    ultimately show ?thesis by blast
  next
    case False
    then have "pending (sdr_step dadd ddiv e s) = pending s" "sdr_queue (sdr_step dadd ddiv e s) = sdr_queue s"
      using Frame by (auto simp: sdr_process_def sdr_process_metadata_def pending_def)
    then show ?thesis using Frame by (auto intro: list_emb_append2)
  qed
next
  case (Round c dev)
  then show ?thesis using sdr_round_order [of dadd ddiv c dev s] by (auto split: option.splits)
next
  case Stop_output
  then show ?thesis by (simp add: pending_def sdr_stop_def trigger_wakeup_def)
qed

lemma sdr_run_order:
  "subseq (pending (sdr_run dadd ddiv es s)) (pending s @ concat (map sdr_offered es)) \<and>
   (length (the_queue (sdr_queue s)) \<le> FRAMES_MAX_SIZE_SYNC \<longrightarrow> length (the_queue (sdr_queue (sdr_run dadd ddiv es s))) \<le> FRAMES_MAX_SIZE_SYNC)"
proof (induction es arbitrary: s)
  case (Cons e es)
  note step = sdr_step_order [of dadd ddiv e s]
  have "subseq (pending (sdr_run dadd ddiv (e # es) s)) (pending (sdr_step dadd ddiv e s) @ concat (map sdr_offered es))"
    using Cons by simp
  also have "subseq \<dots> ((pending s @ sdr_offered e) @ concat (map sdr_offered es))"
    using step by (intro subseq_append_right) blast
  finally show ?case using Cons step by auto
qed simp

text \<open>
  C21. Whatever way the two threads take turns, the frames transmitted are frames the modulator offered
  with a time stamp, each at most once and in their order, with the bytes and the first time stamp they
  were offered with; and never more than 250 frames wait.
\<close>

theorem sdr_transmits_in_order:
  "subseq (sent (device_calls (sdr_run dadd ddiv es SDR))) (concat (map sdr_offered es)) \<and>
   queue_size (sdr_queue (sdr_run dadd ddiv es SDR)) \<le> FRAMES_MAX_SIZE_SYNC"
proof -
  have start: "pending SDR = []" "the_queue (sdr_queue SDR) = []" by (simp_all add: pending_def SDR_def ThreadsafeQueue_def)
  have "subseq (sent (device_calls (sdr_run dadd ddiv es SDR))) (pending (sdr_run dadd ddiv es SDR))"
    unfolding pending_def by (rule subseq_rev_drop_many) simp
  then show ?thesis using sdr_run_order [of dadd ddiv es SDR] start subseq_order.order_trans
    by (auto simp: queue_size_def)
qed

section \<open>Witnesses\<close>

definition example_config :: sdr_config where
  "example_config = \<lparr>enableSync = True, muteNoTimestamps = True, muting = False, sampleRate = 2048000\<rparr>"

text \<open>A frame of two samples, which last sixteen ticks.\<close>

definition example_frame :: "u32 \<Rightarrow> frame_data" where
  "example_frame pps = \<lparr>fr_buf = replicate 16 0, fr_sampleSize = 8,
     fr_ts = \<lparr>ts_fct = 3, ts_fp = 0, ts_sec = 1000, ts_pps = pps, ts_valid = True, ts_offset = 0, ts_offset_changed = False\<rparr>\<rparr>"

definition example_answers :: device_answers where
  "example_answers = \<lparr>is_clk_source_ok = True, device_real_secs = 1999 / 2, transmit_result = Inr ()\<rparr>"

definition after_one_frame :: sdr where
  "after_one_frame = fst (handle_frame (+) (/) example_config example_answers (example_frame 16383990) SDR)"

lemma after_one_frame:
  "handle_frame (+) (/) example_config example_answers (example_frame 16383990) SDR = (after_one_frame, Inr ())"
  "device_calls after_one_frame = [Transmit (example_frame 16383990)]"
  "last_tx_time_initialised after_one_frame" "last_tx_second after_one_frame = 1000" "last_tx_pps after_one_frame = 16383990"
  by (simp_all add: after_one_frame_def handle_frame_def check_time_def check_continuity_def Let_def get_real_secs_def
    example_frame_def example_config_def example_answers_def SDR_def call_device_def TIMESTAMP_ABORT_FUTURE_def)

theorem sdr_transmits_on_time_witness:
  "due (+) (/) example_answers (example_frame 16383990) \<and> last (device_calls after_one_frame) = Transmit (example_frame 16383990)"
  using sdr_transmits_on_time [OF after_one_frame(1), of "example_frame 16383990"]
  by (simp add: after_one_frame(2) SDR_def example_config_def example_frame_def)

lemma sdr_refreshes_on_discontinuity_witness:
  "\<exists>s'. handle_frame (+) (/) example_config example_answers (example_frame 5) after_one_frame = (s', Inr ()) \<and>
     RequireRefresh \<in> set (drop 1 (device_calls s'))"
proof -
  have inc: "tick_increment (sampleRate example_config) (example_frame 5) = Inr 16"
    by (simp add: tick_increment_def example_config_def example_frame_def Let_def)
  obtain s' r where h: "handle_frame (+) (/) example_config example_answers (example_frame 5) after_one_frame = (s', r)" by force
  have "r = Inr ()" using h
    by (auto simp: handle_frame_def check_time_def check_continuity_def Let_def get_real_secs_def inc after_one_frame
      TIMESTAMP_ABORT_FUTURE_def example_answers_def needS_def split: if_splits)
      (simp_all add: example_frame_def example_config_def)
  with h have h: "handle_frame (+) (/) example_config example_answers (example_frame 5) after_one_frame = (s', Inr ())" by simp
  have "RequireRefresh \<in> set (drop (length (device_calls after_one_frame)) (device_calls s'))"
    using sdr_refreshes_on_discontinuity [OF h _ _ _ after_one_frame(3) _ _ inc]
    by (simp add: after_one_frame ticks_def example_config_def example_answers_def) (simp add: example_frame_def ticks_def)
  then show ?thesis using h by (simp add: after_one_frame(2))
qed

end
