(* ===== verification/Dab_Mod.thy ===== *)
theory Dab_Mod
  imports Edi_Transport Input_File Sdr_Output
begin

text \<open>
  The main loop (\<open>src/DabMod.cpp\<close>): \<open>run_modulator\<close> takes frames from the input, decides which of them are
  modulated and when the modulator has to start again, and \<open>launch_modulator\<close> acts on that. The inputs are
  the models of the other theories; the flowgraph is an argument, its construction and its \<open>run\<close>. What
  happens meanwhile outside is a list: one \<open>tick\<close> for each test of \<open>running\<close> by the main loop, in it one
  entry for each wait for an EDI packet; a signal becomes visible at such a test. When the list is used
  up the result is \<open>None\<close>: the modulator is still running. Log output and the remote control are left out.
\<close>

section \<open>State\<close>

type_synonym 'f edi_state = "'f edi_reader edi_decoding \<times> edi_transport"

datatype 'f input = InputFile file_reader | InputTcp tcp_reader | InputEdi "'f edi_state"

text \<open>What the modulator reads its data from.\<close>

datatype 'f source = EtiSource eti_reader | EdiSource "'f edi_reader"

record ('f, 'g) modulator_data =
  md_input :: "'f input"
  md_etiReader :: eti_reader
  md_framecount :: nat
  md_flowgraph :: 'g
  md_num_modulator_restarts :: nat
  md_running :: bool

definition modulator_source :: "('f, 'g) modulator_data \<Rightarrow> 'f source" where
  "modulator_source m =
     (case md_input m of InputEdi ((d, e), t) \<Rightarrow> EdiSource (ed_data_collector e) | _ \<Rightarrow> EtiSource (md_etiReader m))"

record tick =
  tk_signal :: bool
  tk_recv :: "(int \<times> bytes) result"
  tk_waits :: "(bool \<times> received) list"
  tk_sec :: nat
  tk_nsec :: nat

record main_settings =
  ms_sdr :: sdr_config
  ms_loop :: bool
  ms_tist_offset_s :: rat

text \<open>
  The arguments: the Reed-Solomon decoder, the operations on \<open>double\<close>, fresh memory, uninitialised
  members, the file with the input's name if it can be opened, and the flowgraph.
\<close>

record ('f, 'g) engine =
  en_rs :: rs_decoder
  en_dmul :: "rat \<Rightarrow> rat \<Rightarrow> rat"
  en_dadd :: "rat \<Rightarrow> rat \<Rightarrow> rat"
  en_dsub :: "rat \<Rightarrow> rat \<Rightarrow> rat"
  en_ddiv :: "rat \<Rightarrow> rat \<Rightarrow> rat"
  en_fresh :: "nat \<Rightarrow> bytes"
  en_junk :: eti_reader
  en_file :: "host_file option"
  en_new_flowgraph :: "'f source \<Rightarrow> 'g result"
  en_run_flowgraph :: "'f source \<Rightarrow> 'g \<Rightarrow> 'g \<times> bool result"

datatype run_modulator_state = Failure | Normal_end | Again | Reconfigure

section \<open>Getting a frame\<close>

text \<open>The header of a frame, or no frame this time, or the end of the loop.\<close>

datatype loaded = Frame nat nat frame_timestamp | Skip | Leave run_modulator_state

definition next_frame ::
    "tick \<Rightarrow> bytes \<Rightarrow> ('f, 'g) modulator_data \<Rightarrow> ('f, 'g) modulator_data \<times> (bytes \<times> int) result" where
  "next_frame t data m =
     (case md_input m of
        InputFile r \<Rightarrow> (case GetNextFrame data r of (r, x) \<Rightarrow> (m\<lparr>md_input := InputFile r\<rparr>, x))
      | InputTcp _ \<Rightarrow> (m, tcp_GetNextFrame (tk_recv t) data)
      | InputEdi _ \<Rightarrow> (m, Inl (UndefinedBehaviour ''null pointer'')))"

definition load_eti ::
    "('f, 'g) engine \<Rightarrow> tick \<Rightarrow> bytes \<Rightarrow> ('f, 'g) modulator_data \<Rightarrow>
     ('f, 'g) modulator_data \<times> (bytes \<times> loaded) result" where
  "load_eti E t data m =
     bindS (next_frame t data m) (\<lambda>m (data, framesize).
     if framesize = 0
     then (case md_input m of
             InputFile _ \<Rightarrow> (m\<lparr>md_running := False\<rparr>, Inr (data, Leave Normal_end))
           | _ \<Rightarrow> (m, Inr (data, Skip)))
     else if framesize < 0 then (m\<lparr>md_running := False\<rparr>, Inr (data, Leave Normal_end))
     else
       (case loadEtiData (en_dmul E) (en_fresh E) (md_etiReader m) data of (r, x) \<Rightarrow>
        let m = m\<lparr>md_etiReader := r\<rparr> in
        needS x m (\<lambda>eti_bytes_read.
        if eti_bytes_read \<noteq> length data then (m, Inl (RuntimeError ''ETI read error''))
        else
          needS (eti_getFct r) m (\<lambda>fct.
          needS (eti_getFp r) m (\<lambda>fp.
          let (r, ts) = eti_getTimestamp (en_dmul E) r
          in (m\<lparr>md_etiReader := r\<rparr>, Inr (data, Frame fct fp ts)))))))"

text \<open>\<open>while (running and not isFrameReady())\<close>; \<open>None\<close>: still waiting.\<close>

fun edi_wait ::
    "rs_decoder \<Rightarrow> transport_proto \<Rightarrow> (bool \<times> received) list \<Rightarrow> bool \<times> 'f edi_reader edi_decoding \<Rightarrow>
     (bool \<times> 'f edi_reader edi_decoding) \<times> unit option result" where
  "edi_wait rs proto waits (running, de) =
     (if \<not> running \<or> isFrameReady (ed_data_collector (snd de)) then ((running, de), Inr (Some ()))
      else
        (case waits of
           [] \<Rightarrow> ((running, de), Inr None)
         | (signal, answer) # waits \<Rightarrow>
             (let running = (running \<and> \<not> signal) in
              case rxPacket rs proto answer de of
                (de, Inl e) \<Rightarrow> if is_runtime_error e then ((False, de), Inr (Some ())) else ((running, de), Inl e)
              | (de, Inr _) \<Rightarrow> edi_wait rs proto waits (running, de))))"

declare edi_wait.simps [simp del]

definition set_edi_reader :: "('f edi_reader \<Rightarrow> 'f edi_reader) \<Rightarrow> 'f edi_reader edi_decoding \<Rightarrow> 'f edi_reader edi_decoding" where
  "set_edi_reader f = (\<lambda>(d, e). (d, e\<lparr>ed_data_collector := f (ed_data_collector e)\<rparr>))"

definition load_edi ::
    "('f, 'g) engine \<Rightarrow> tick \<Rightarrow> 'f edi_state \<Rightarrow> ('f, 'g) modulator_data \<Rightarrow>
     ('f, 'g) modulator_data \<times> loaded option result" where
  "load_edi E t = (\<lambda>(de, tr) m.
     case edi_wait (en_rs E) (tr_proto tr) (tk_waits t) (md_running m, de) of ((running, de), x) \<Rightarrow>
     let m = m\<lparr>md_running := running, md_input := InputEdi (de, tr)\<rparr> in
     needS x m (\<lambda>done.
     case done of
       None \<Rightarrow> (m, Inr None)
     | Some _ \<Rightarrow>
         if \<not> md_running m then (m, Inr (Some (Leave Failure)))
         else
           (let r = ed_data_collector (snd de) in
            needS (edi_getFct r) m (\<lambda>fct.
            needS (edi_getFp r) m (\<lambda>fp.
            let (r, ts) = edi_getTimestamp (en_dmul E) r
            in (m\<lparr>md_input := InputEdi (set_edi_reader (\<lambda>_. r) de, tr)\<rparr>, Inr (Some (Frame fct fp ts))))))))"

definition load_frame_of ::
    "('f, 'g) engine \<Rightarrow> tick \<Rightarrow> bytes \<Rightarrow> ('f, 'g) modulator_data \<Rightarrow>
     ('f, 'g) modulator_data \<times> (bytes \<times> loaded) option result" where
  "load_frame_of E t data m =
     (case md_input m of
        InputEdi s \<Rightarrow> (case load_edi E t s m of (m, x) \<Rightarrow> (m, map_sum id (map_option (Pair data)) x))
      | _ \<Rightarrow> (case load_eti E t data m of (m, x) \<Rightarrow> (m, map_sum id Some x)))"

text \<open>\<open>m.ediInput->ediReader.clearFrame()\<close>, if there is an EDI input.\<close>

definition clear_input :: "('f, 'g) modulator_data \<Rightarrow> ('f, 'g) modulator_data" where
  "clear_input m =
     (case md_input m of InputEdi (de, tr) \<Rightarrow> m\<lparr>md_input := InputEdi (set_edi_reader clearFrame de, tr)\<rparr> | _ \<Rightarrow> m)"

section \<open>The main loop\<close>

text \<open>
  \<open>offset_to_system_time\<close> throws a pointer when the time stamp is not valid, which no handler catches.
  The system's clock is assumed to be readable.
\<close>

definition offset_to_system_time :: "('f, 'g) engine \<Rightarrow> tick \<Rightarrow> frame_timestamp \<Rightarrow> rat result" where
  "offset_to_system_time E t ts =
     (if \<not> ts_valid ts then Inl (AssertionFailure ''uncaught exception'')
      else Inr (en_dsub E (en_dsub E (get_real_secs (en_dadd E) (en_ddiv E) ts) (of_nat (tk_sec t)))
                  (en_ddiv E (of_nat (tk_nsec t)) 1000000000)))"

definition timestamp_good :: "('f, 'g) engine \<Rightarrow> main_settings \<Rightarrow> tick \<Rightarrow> frame_timestamp \<Rightarrow> bool result" where
  "timestamp_good E s t ts =
     (if \<not> enableSync (ms_sdr s) then Inr True
      else if \<not> ts_valid ts then Inr False
      else bindE (offset_to_system_time E t ts) (\<lambda>offset. Inr (2 / 10 < offset)))"

text \<open>\<open>last_eti_fct\<close> is an \<open>int\<close> that is -1 before the first frame; \<open>None\<close>: a discontinuity.\<close>

definition check_fct :: "int \<Rightarrow> nat \<Rightarrow> nat \<Rightarrow> (int \<times> bool) option" where
  "check_fct last_eti_fct fct fp =
     (if last_eti_fct = - 1
      then (if fp \<noteq> 0 then Some (last_eti_fct, False) else Some (int fct, True))
      else if int fct = (last_eti_fct + 1) mod 250 then Some (int fct, True)
      else None)"

fun run_loop ::
    "('f, 'g) engine \<Rightarrow> main_settings \<Rightarrow> tick list \<Rightarrow> int \<Rightarrow> bytes \<Rightarrow> ('f, 'g) modulator_data \<Rightarrow>
     ('f, 'g) modulator_data \<times> run_modulator_state option result" where
  "run_loop E s [] last_eti_fct data m = (m, Inr None)"
| "run_loop E s (t # ts) last_eti_fct data m =
     (let m = m\<lparr>md_running := md_running m \<and> \<not> tk_signal t\<rparr> in
      if \<not> md_running m then (m, Inr (Some Failure))
      else
        bindS (load_frame_of E t data m) (\<lambda>m next_frame.
        case next_frame of
          None \<Rightarrow> (m, Inr None)
        | Some (data, Leave st) \<Rightarrow> (m, Inr (Some st))
        | Some (data, Skip) \<Rightarrow> run_loop E s ts last_eti_fct data m
        | Some (data, Frame fct fp ts') \<Rightarrow>
            needS (timestamp_good E s t ts') m (\<lambda>ts_good.
            if \<not> ts_good then run_loop E s ts last_eti_fct data (clear_input m)
            else
              (case check_fct last_eti_fct fct fp of
                 None \<Rightarrow> (clear_input m, Inr (Some Again))
               | Some (last_eti_fct, modulate) \<Rightarrow>
                   if modulate
                   then (case en_run_flowgraph E (modulator_source m) (md_flowgraph m) of (g, x) \<Rightarrow>
                         let m = m\<lparr>md_framecount := md_framecount m + 1, md_flowgraph := g\<rparr> in
                         needS x m (\<lambda>_. run_loop E s ts last_eti_fct data (clear_input m)))
                   else run_loop E s ts last_eti_fct data (clear_input m)))))"

text \<open>The handlers; undefined behaviour and \<open>std::terminate\<close> are not caught.\<close>

definition run_modulator ::
    "('f, 'g) engine \<Rightarrow> main_settings \<Rightarrow> tick list \<Rightarrow> ('f, 'g) modulator_data \<Rightarrow>
     ('f, 'g) modulator_data \<times> run_modulator_state option result" where
  "run_modulator E s ts m =
     (case run_loop E s ts (- 1) (en_fresh E 6144) m of
        (m, Inl (FrameMultiplexerError _)) \<Rightarrow> (m, Inr (Some Reconfigure))
      | (m, Inl (UndefinedBehaviour k)) \<Rightarrow> (m, Inl (UndefinedBehaviour k))
      | (m, Inl (AssertionFailure k)) \<Rightarrow> (m, Inl (AssertionFailure k))
      | (m, Inl _) \<Rightarrow> (m, Inr (Some Failure))
      | (m, Inr st) \<Rightarrow> (m, Inr st))"

section \<open>The launcher\<close>

definition open_file :: "('f, 'g) engine \<Rightarrow> main_settings \<Rightarrow> file_reader \<Rightarrow> file_reader \<times> int result" where
  "open_file E s r = (case en_file E of None \<Rightarrow> (r, Inr (- 1)) | Some fd \<Rightarrow> Open fd (ms_loop s) r)"

definition InputFileReader :: file_reader where
  "InputFileReader = \<lparr>in_file = \<lparr>fi_bytes = [], fi_pos = 0, fi_seekable = False\<rparr>, in_type = NoType, in_loop = False\<rparr>"

text \<open>\<open>edi\<close> is what the constructor of \<open>EdiInput\<close> made, \<open>stale\<close> the \<open>errno\<close> from before.\<close>

definition open_input ::
    "('f, 'g) engine \<Rightarrow> main_settings \<Rightarrow> sockets \<Rightarrow> bool \<Rightarrow> 'f edi_state \<Rightarrow> string \<Rightarrow> string \<Rightarrow> 'f input result" where
  "open_input E s so stale edi inputTransport inputName =
     (if inputTransport = ''edi''
      then (case transport_open so inputName (snd edi) of (tr, x) \<Rightarrow>
            bindE x (\<lambda>_.
            if \<not> tr_enabled tr then Inl (RuntimeError ''inputTransport is edi, but ediTransport is not enabled'')
            else Inr (InputEdi (fst edi, tr))))
      else if inputTransport = ''file''
      then (case open_file E s InputFileReader of (r, x) \<Rightarrow>
            bindE x (\<lambda>ret. if ret = - 1 then Inl (RuntimeError ''Unable to open input'') else Inr (InputFile r)))
      else if inputTransport = ''tcp''
      then (case tcp_open so stale inputName \<lparr>ti_uri = [], ti_server = None\<rparr> of (t, x) \<Rightarrow>
            bindE x (\<lambda>_. Inr (InputTcp t)))
      else Inl (RuntimeError ''Unable to open input: invalid input transport''))"

text \<open>What the loop does before \<open>run_modulator\<close>.\<close>

definition start_modulator ::
    "('f, 'g) engine \<Rightarrow> main_settings \<Rightarrow> ('f, 'g) modulator_data \<Rightarrow> ('f, 'g) modulator_data \<times> unit result" where
  "start_modulator E s m =
     (let m = m\<lparr>md_framecount := 0\<rparr>;
          m = (case md_input m of
                 InputEdi _ \<Rightarrow> m
               | _ \<Rightarrow> m\<lparr>md_etiReader := EtiReader (en_junk E) (ms_tist_offset_s s)\<rparr>)
      in needS (en_new_flowgraph E (modulator_source m)) m (\<lambda>g. (m\<lparr>md_flowgraph := g\<rparr>, Inr ())))"

text \<open>And after it: whether to go round again, else the return value.\<close>

definition after_run ::
    "('f, 'g) engine \<Rightarrow> main_settings \<Rightarrow> run_modulator_state \<Rightarrow> ('f, 'g) modulator_data \<Rightarrow>
     ('f, 'g) modulator_data \<times> int option result" where
  "after_run E s st m =
     bindS (case st of
              Failure \<Rightarrow> (m, Inr (Some 1))
            | Again \<Rightarrow>
                (case md_input m of
                   InputFile r \<Rightarrow>
                     (case open_file E s r of (r, x) \<Rightarrow>
                      let m = m\<lparr>md_input := InputFile r\<rparr>
                      in needS x m (\<lambda>ret. (m, Inr (if ret = - 1 then Some 1 else None))))
                 | _ \<Rightarrow> (m, Inr None))
            | Reconfigure \<Rightarrow> (m, Inr None)
            | Normal_end \<Rightarrow> (m, Inr (Some 0)))
       (\<lambda>m ret. (m\<lparr>md_num_modulator_restarts := md_num_modulator_restarts m + 1\<rparr>, Inr ret))"

fun launch_loop ::
    "('f, 'g) engine \<Rightarrow> main_settings \<Rightarrow> tick list list \<Rightarrow> ('f, 'g) modulator_data \<Rightarrow>
     ('f, 'g) modulator_data \<times> int option result" where
  "launch_loop E s [] m = (m, Inr None)"
| "launch_loop E s (ts # tss) m =
     bindS (start_modulator E s m) (\<lambda>m _.
     bindS (run_modulator E s ts m) (\<lambda>m st.
     case st of
       None \<Rightarrow> (m, Inr None)
     | Some st \<Rightarrow>
         bindS (after_run E s st m) (\<lambda>m ret.
         case ret of
           None \<Rightarrow> launch_loop E s tss m
         | Some ret \<Rightarrow> (m, Inr (Some ret)))))"

text \<open>\<open>g\<close> and \<open>r\<close>: there is no flowgraph and no reader before the first run.\<close>

definition launch_modulator ::
    "('f, 'g) engine \<Rightarrow> main_settings \<Rightarrow> sockets \<Rightarrow> bool \<Rightarrow> 'f edi_state \<Rightarrow> string \<Rightarrow> string \<Rightarrow>
     tick list list \<Rightarrow> ('f, 'g) modulator_data \<Rightarrow> ('f, 'g) modulator_data \<times> int option result" where
  "launch_modulator E s so stale edi inputTransport inputName tss m =
     needS (open_input E s so stale edi inputTransport inputName) m (\<lambda>i.
     launch_loop E s tss (m\<lparr>md_input := i, md_running := True, md_num_modulator_restarts := 0\<rparr>))"

text \<open>The exit code of the program; \<open>Inl\<close>: it is terminated.\<close>

definition dabmod_main ::
    "('f, 'g) engine \<Rightarrow> main_settings \<Rightarrow> sockets \<Rightarrow> bool \<Rightarrow> 'f edi_state \<Rightarrow> string \<Rightarrow> string \<Rightarrow>
     tick list list \<Rightarrow> ('f, 'g) modulator_data \<Rightarrow> int option result" where
  "dabmod_main E s so stale edi inputTransport inputName tss m =
     (case snd (launch_modulator E s so stale edi inputTransport inputName tss m) of
        Inl e \<Rightarrow> if is_invalid_argument e \<or> is_runtime_error e then Inr (Some 1) else Inl e
      | Inr ret \<Rightarrow> Inr ret)"

section \<open>Which frames are modulated\<close>

text \<open>The frame count and phase a source shows, and a flowgraph that also notes them at every run.\<close>

definition source_header :: "'f source \<Rightarrow> nat \<times> nat" where
  "source_header i =
     (case i of EtiSource r \<Rightarrow> (fc_FCT (er_fc r), fc_FP (er_fc r))
      | EdiSource r \<Rightarrow> (unat (fcd_fct (dr_fc r)), unat (fcd_fp (dr_fc r))))"

definition logging :: "('f source \<Rightarrow> 'g \<Rightarrow> 'g \<times> bool result) \<Rightarrow> 'f source \<Rightarrow> 'g \<times> (nat \<times> nat) list \<Rightarrow> ('g \<times> (nat \<times> nat) list) \<times> bool result" where
  "logging run i = (\<lambda>(g, played). case run i g of (g, x) \<Rightarrow> ((g, played @ [source_header i]), x))"

abbreviation modulated :: "('f, 'g \<times> (nat \<times> nat) list) modulator_data \<Rightarrow> (nat \<times> nat) list" where
  "modulated m \<equiv> snd (md_flowgraph m)"

definition in_step :: "(nat \<times> nat) list \<Rightarrow> bool" where
  "in_step played = ((played \<noteq> [] \<longrightarrow> snd (hd played) = 0) \<and> successively (\<lambda>a b. fst b = (fst a + 1) mod 250) played)"

text \<open>What \<open>last_eti_fct\<close> says of the frames modulated so far.\<close>

definition last_fct_ok :: "int \<Rightarrow> (nat \<times> nat) list \<Rightarrow> bool" where
  "last_fct_ok last_eti_fct played =
     (in_step played \<and> last_eti_fct = (if played = [] then - 1 else int (fst (last played))))"

lemma next_count: "int a = (int b + 1) mod 250 \<longleftrightarrow> a = (b + 1) mod 250"
proof -
  have "(int b + 1) mod 250 = int ((b + 1) mod 250)" by (simp add: zmod_int add.commute)
  then show ?thesis by (metis of_nat_eq_iff)
qed

lemma last_fct_step:
  assumes "last_fct_ok last_fct played" and "check_fct last_fct fct fp = Some (last_fct', modulate)"
  shows "last_fct_ok last_fct' (if modulate then played @ [(fct, fp)] else played)"
proof -
  have "fct = (fst (last played) + 1) mod 250" if "int fct = (int (fst (last played)) + 1) mod 250"
    using that by (simp add: next_count)
  then show ?thesis
    using assms by (cases "played = []") (auto simp: last_fct_ok_def in_step_def check_fct_def successively_append_iff split: if_splits)
qed

lemma next_frame_keeps:
  "next_frame t data m = (m', x) \<Longrightarrow> md_flowgraph m' = md_flowgraph m \<and> md_framecount m' = md_framecount m"
  by (auto simp: next_frame_def split: input.splits prod.splits)

lemma load_eti_keeps:
  assumes "load_eti E t data m = (m', x)"
  shows "md_flowgraph m' = md_flowgraph m \<and> md_framecount m' = md_framecount m"
proof -
  obtain m1 y where m1: "next_frame t data m = (m1, y)" by force
  with assms next_frame_keeps [OF m1] show ?thesis
    by (cases y) (auto simp: load_eti_def Let_def needS_def split: if_splits sum.splits prod.splits input.splits)
qed

lemma load_fct_and_fp:
  assumes "load_eti E t data m = (m', Inr (data', Frame fct fp ts))"
  shows "source_header (EtiSource (md_etiReader m')) = (fct, fp)"
  using assms
  by (auto simp: load_eti_def bindS_Inr_iff needS_def Let_def source_header_def eti_getFct_def eti_getFp_def eti_getTimestamp_def
      split: if_splits sum.splits prod.splits input.splits)

lemma load_eti_input:
  assumes "load_eti E t data m = (m', x)" and "\<forall>s. md_input m \<noteq> InputEdi s"
  shows "\<forall>s. md_input m' \<noteq> InputEdi s"
proof -
  obtain m1 y where m1: "next_frame t data m = (m1, y)" by force
  then have "\<forall>s. md_input m1 \<noteq> InputEdi s" using assms(2) by (auto simp: next_frame_def split: input.splits prod.splits)
  with assms(1) m1 show ?thesis
    by (cases y) (auto simp: load_eti_def Let_def needS_def split: if_splits sum.splits prod.splits input.splits)
qed

lemma load_edi_keeps:
  "load_edi E t st m = (m', x) \<Longrightarrow> md_flowgraph m' = md_flowgraph m \<and> md_framecount m' = md_framecount m"
  by (cases st) (auto simp: load_edi_def Let_def needS_def split: if_splits sum.splits prod.splits option.splits)

lemma load_edi_header:
  "load_edi E t st m = (m', Inr (Some (Frame fct fp ts))) \<Longrightarrow> source_header (modulator_source m') = (fct, fp)"
  by (cases st)
    (auto simp: load_edi_def needS_def Let_def source_header_def modulator_source_def edi_getFct_def edi_getFp_def
      edi_getTimestamp_def set_edi_reader_def split: if_splits sum.splits prod.splits option.splits)

lemma load_frame_keeps:
  "load_frame_of E t data m = (m', x) \<Longrightarrow> md_flowgraph m' = md_flowgraph m \<and> md_framecount m' = md_framecount m"
  unfolding load_frame_of_def using load_eti_keeps load_edi_keeps
  by (fastforce split: input.splits prod.splits)

lemma load_frame_header:
  assumes "load_frame_of E t data m = (m', Inr (Some (data', Frame fct fp ts)))"
  shows "source_header (modulator_source m') = (fct, fp)"
proof (cases "\<exists>s. md_input m = InputEdi s")
  case True
  then obtain st where st: "md_input m = InputEdi st" by blast
  obtain m1 y where l: "load_edi E t st m = (m1, y)" by force
  then have "m' = m1" "y = Inr (Some (Frame fct fp ts))"
    using assms st by (cases y; auto simp: load_frame_of_def)+
  then show ?thesis using load_edi_header l by blast
next
  case False
  obtain m1 y where l: "load_eti E t data m = (m1, y)" by force
  then have y: "m' = m1" "y = Inr (data', Frame fct fp ts)"
    using assms False by (cases y; auto simp: load_frame_of_def split: input.splits)+
  then have "\<forall>s. md_input m' \<noteq> InputEdi s" using load_eti_input l False by blast
  then have "modulator_source m' = EtiSource (md_etiReader m')" by (simp add: modulator_source_def split: input.splits)
  then show ?thesis using load_fct_and_fp l y by metis
qed

lemma clear_input_keeps [simp]:
  "md_flowgraph (clear_input m) = md_flowgraph m" "md_framecount (clear_input m) = md_framecount m"
  by (simp_all add: clear_input_def split: input.splits prod.splits)

lemma run_loop_in_step:
  assumes "en_run_flowgraph E = logging run" and "run_loop E s ts last_fct data m = (m', x)"
    and "last_fct_ok last_fct (modulated m)" and "length (modulated m) = md_framecount m"
  shows "in_step (modulated m') \<and> length (modulated m') = md_framecount m'"
  using assms(2-4)
proof (induction ts arbitrary: last_fct data m)
  case Nil
  then show ?case by (simp add: last_fct_ok_def)
next
  case (Cons t ts)
  let ?m = "m\<lparr>md_running := md_running m \<and> \<not> tk_signal t\<rparr>"
  obtain m1 y where l: "load_frame_of E t data ?m = (m1, y)" by force
  note keeps = load_frame_keeps [OF l]
  have here: "last_fct_ok last_fct (modulated m1)" "length (modulated m1) = md_framecount m1" "in_step (modulated m1)"
    using Cons.prems(2,3) keeps by (simp_all add: last_fct_ok_def)
  have stop: ?case if "m' = ?m \<or> m' = m1 \<or> m' = clear_input m1"
    using that Cons.prems(2,3) keeps by (auto simp: last_fct_ok_def)
  have go_on: ?case if "run_loop E s ts last_fct data' m2 = (m', x)" "m2 = m1 \<or> m2 = clear_input m1" for data' m2
    using that Cons.IH [of last_fct data' m2] here by auto
  show ?case
  proof (cases "md_running ?m \<and> (\<exists>data' fct fp ts'. y = Inr (Some (data', Frame fct fp ts')))")
    case False
    then show ?thesis using Cons.prems(1) stop go_on l
      by (auto simp: Let_def bindS_def split: if_splits sum.splits option.splits loaded.splits prod.splits)
  next
    case True
    then obtain data' fct fp ts' where y: "y = Inr (Some (data', Frame fct fp ts'))" and r: "md_running ?m" by blast
    have header: "source_header (modulator_source m1) = (fct, fp)" using load_frame_header l y by blast
    note run = Cons.prems(1) [unfolded run_loop.simps Let_def l y bindS_simps option.case prod.case loaded.case]
    obtain g x' where g: "en_run_flowgraph E (modulator_source m1) (md_flowgraph m1) = (g, x')" by (meson surj_pair)
    then have gl: "snd g = modulated m1 @ [(fct, fp)]"
      using assms(1) header by (auto simp: logging_def split: prod.splits)
    let ?m2 = "m1\<lparr>md_framecount := md_framecount m1 + 1, md_flowgraph := g\<rparr>"
    show ?thesis
    proof (cases "timestamp_good E s t ts' = Inr True \<and> (\<exists>f. check_fct last_fct fct fp = Some (f, True))")
      case True
      then obtain f where f: "check_fct last_fct fct fp = Some (f, True)" by blast
      have ok: "last_fct_ok f (modulated ?m2)" "length (modulated ?m2) = md_framecount ?m2"
        using last_fct_step [OF here(1) f] here(2) gl by simp_all
      then show ?thesis using run r True f g Cons.IH [of f data' "clear_input ?m2"]
        by (cases x') (auto simp: last_fct_ok_def)
    next
      case False
      have "f = last_fct" if "check_fct last_fct fct fp = Some (f, False)" for f
        using that by (auto simp: check_fct_def split: if_splits)
      then show ?thesis using run r False stop go_on
        by (auto simp: needS_def split: if_splits sum.splits option.splits prod.splits)
    qed
  qed
qed

text \<open>
  C23. Only frames in step are modulated. During one call of \<open>run_modulator\<close>, whatever the input, the
  time stamps, the signals and the flowgraph do, the first frame the flowgraph is run for has frame
  phase 0, so that all blocks are aligned, and every further one has the frame count after that of the one
  before, modulo 250; the number of frames counted is the number of runs.
\<close>

theorem modulated_frames_in_step:
  assumes "en_run_flowgraph E = logging run" and "modulated m = []" and "md_framecount m = 0"
    and "run_modulator E s ts m = (m', x)"
  shows "in_step (modulated m') \<and> length (modulated m') = md_framecount m'"
proof -
  obtain m1 y where l: "run_loop E s ts (- 1) (en_fresh E 6144) m = (m1, y)" by force
  have "last_fct_ok (- 1) (modulated m)" "length (modulated m) = md_framecount m"
    using assms by (simp_all add: last_fct_ok_def in_step_def)
  note inv = run_loop_in_step [OF assms(1) l this]
  have "m' = m1" using assms(4) l by (auto simp: run_modulator_def split: sum.splits error.splits)
  then show ?thesis using inv by simp
qed

section \<open>A whole file\<close>

text \<open>The header of a frame, and the files whose frames, padded, are these ETI frames.\<close>

definition fct_and_fp :: "eti_frame \<Rightarrow> nat \<times> nat" where
  "fct_and_fp f = (fc_FCT (eti_FC_of (ef_fc f)), fc_FP (eti_FC_of (ef_fc f)))"

definition records :: "stream_type \<Rightarrow> bytes \<Rightarrow> bytes list \<Rightarrow> eti_frame list \<Rightarrow> bool" where
  "records t count ps fs =
     (recordable t count ps \<and> map padded ps = map frame_bytes fs \<and> list_all wf_frame fs)"

lemma at_frame_start_timestamp: "at_frame_start (fst (eti_getTimestamp dmul r)) = at_frame_start r"
  by (simp add: eti_getTimestamp_def at_frame_start_def sources_match_def split: prod.splits)

lemma load_recorded:
  assumes rec: "records t count ps fs" and r: "reading t count ps loop j r" and j: "j < length fs"
    and m: "md_input m = InputFile r" "at_frame_start (md_etiReader m)"
  shows "\<exists>r' er ts. load_frame_of E tk data m =
      (m\<lparr>md_input := InputFile r', md_etiReader := er\<rparr>,
       Inr (Some (frame_bytes (fs ! j), Frame (fst (fct_and_fp (fs ! j))) (snd (fct_and_fp (fs ! j))) ts))) \<and>
    reading t count ps loop (Suc j) r' \<and> at_frame_start er"
proof -
  have len: "length ps = length fs" using rec by (metis records_def length_map)
  have p: "padded (ps ! j) = frame_bytes (fs ! j)" using rec j len by (metis records_def nth_map)
  have wf: "wf_frame (fs ! j)" using rec j by (simp add: records_def list_all_length)
  obtain r' where r': "GetNextFrame data r = (r', Inr (frame_bytes (fs ! j), 6144))" "reading t count ps loop (Suc j) r'"
    using reads_frame [of t count ps loop j r data] rec r j len p by (auto simp: records_def)
  obtain er where er: "loadEtiData (en_dmul E) (en_fresh E) (md_etiReader m) (frame_bytes (fs ! j)) = (er, Inr 6144)"
    "frame_loaded (en_dmul E) (er_decoder (md_etiReader m)) (fs ! j) er"
    using load_frame [OF wf m(2), of "en_dmul E" "en_fresh E"] by blast
  have "length (frame_bytes (fs ! j)) = 6144" using wf by (simp add: wf_frame_def)
  moreover have "er_fc_valid er" "er_fc er = eti_FC_of (ef_fc (fs ! j))" "at_frame_start er" using er(2) by (simp_all add: frame_loaded_def)
  moreover obtain er' ts where "eti_getTimestamp (en_dmul E) er = (er', ts)" by force
  moreover from this have "at_frame_start er' = at_frame_start er" using at_frame_start_timestamp [of "en_dmul E" er] by simp
  ultimately show ?thesis
    using m(1) r' er(1)
    by (auto simp: load_frame_of_def load_eti_def next_frame_def eti_getFct_def eti_getFp_def fct_and_fp_def)
qed

lemma load_file_end:
  assumes "reading t count ps False (length ps) r" and "md_input m = InputFile r"
  shows "\<exists>r'. load_frame_of E tk data m = (m\<lparr>md_input := InputFile r', md_running := False\<rparr>, Inr (Some (data, Leave Normal_end)))"
  using reads_end [OF assms(1), of data] assms(2) by (auto simp: load_frame_of_def load_eti_def next_frame_def)

text \<open>What the main loop does with frames of these headers: which it modulates, and whether they are in step to the end.\<close>

fun schedule :: "int \<Rightarrow> (nat \<times> nat) list \<Rightarrow> (nat \<times> nat) list \<times> bool" where
  "schedule last_fct [] = ([], True)"
| "schedule last_fct ((fct, fp) # hs) =
     (case check_fct last_fct fct fp of
        None \<Rightarrow> ([], False)
      | Some (last_fct, modulate) \<Rightarrow>
          (let (p, ok) = schedule last_fct hs in (if modulate then (fct, fp) # p else p, ok)))"

lemma schedule_waits: "list_all (\<lambda>h. snd h \<noteq> 0) pre \<Longrightarrow> schedule (- 1) (pre @ hs) = schedule (- 1) hs"
  by (induction pre) (auto simp: check_fct_def)

lemma schedule_runs:
  "successively (\<lambda>a b. fst b = (fst a + 1) mod 250) (h # hs) \<Longrightarrow>
   schedule (int (fst h)) (hs @ rest) =
     (let (p, ok) = schedule (int (fst (last (h # hs)))) rest in (hs @ p, ok))"
proof (induction hs arbitrary: h)
  case (Cons x hs)
  have "check_fct (int (fst h)) (fst x) (snd x) = Some (int (fst x), True)"
    using Cons.prems by (auto simp: check_fct_def zmod_int add.commute)
  then show ?case using Cons.IH [of x] Cons.prems by (cases x) (auto split: prod.splits)
qed (simp split: prod.splits)

lemma schedule_in_step:
  assumes "in_step hs"
  shows "schedule (- 1) (hs @ rest) = (let (p, ok) = schedule (if hs = [] then - 1 else int (fst (last hs))) rest in (hs @ p, ok))"
proof (cases hs)
  case (Cons h hs')
  then have "check_fct (- 1) (fst h) (snd h) = Some (int (fst h), True)" using assms by (simp add: in_step_def check_fct_def)
  then show ?thesis using schedule_runs [of h hs' rest] Cons assms by (cases h) (auto simp: in_step_def split: prod.splits)
qed (simp split: prod.splits)

text \<open>The flowgraph runs, no signal arrives and frames are not skipped for their time.\<close>

definition undisturbed :: "('f source \<Rightarrow> 'g \<Rightarrow> 'g \<times> bool result) \<Rightarrow> main_settings \<Rightarrow> tick list \<Rightarrow> bool" where
  "undisturbed run s ts =
     ((\<forall>i g. \<exists>b. snd (run i g) = Inr b) \<and> \<not> enableSync (ms_sdr s) \<and> (\<forall>t \<in> set ts. \<not> tk_signal t))"

lemma run_loop_step:
  assumes "md_running m" and "\<not> tk_signal t" and "load_frame_of E t data m = (m1, Inr (Some (data', x)))"
  shows "run_loop E s (t # ts) last_fct data m =
    (case x of
       Leave st \<Rightarrow> (m1, Inr (Some st))
     | Skip \<Rightarrow> run_loop E s ts last_fct data' m1
     | Frame fct fp ts' \<Rightarrow>
         needS (timestamp_good E s t ts') m1 (\<lambda>ts_good.
         if \<not> ts_good then run_loop E s ts last_fct data' (clear_input m1)
         else
           (case check_fct last_fct fct fp of
              None \<Rightarrow> (clear_input m1, Inr (Some Again))
            | Some (last_fct, modulate) \<Rightarrow>
                if modulate
                then (case en_run_flowgraph E (modulator_source m1) (md_flowgraph m1) of (g, x) \<Rightarrow>
                      let m = m1\<lparr>md_framecount := md_framecount m1 + 1, md_flowgraph := g\<rparr> in
                      needS x m (\<lambda>_. run_loop E s ts last_fct data' (clear_input m)))
                else run_loop E s ts last_fct data' (clear_input m1))))"
proof -
  have "m\<lparr>md_running := md_running m \<and> \<not> tk_signal t\<rparr> = m" using assms by simp
  then show ?thesis using assms(1,3) by simp
qed

lemma run_recorded:
  assumes rec: "records t count ps fs" and E: "en_run_flowgraph E = logging run"
    and "undisturbed run s ts" and "length (drop j fs) < length ts"
    and "reading t count ps loop j r" and "md_input m = InputFile r" and "at_frame_start (md_etiReader m)" and "md_running m"
    and "schedule last_fct (map fct_and_fp (drop j fs)) = (p, ok)" and "loop \<longrightarrow> \<not> ok"
  shows "\<exists>m' r'. run_loop E s ts last_fct data m = (m', Inr (Some (if ok then Normal_end else Again))) \<and>
      modulated m' = modulated m @ p \<and> md_input m' = InputFile r' \<and> md_running m' = (\<not> ok) \<and> md_framecount m' = md_framecount m + length p \<and>
      md_num_modulator_restarts m' = md_num_modulator_restarts m"
  using assms(3-)
proof (induction ts arbitrary: j r m last_fct data p)
  case (Cons tk ts)
  have len: "length ps = length fs" using rec by (metis records_def length_map)
  have "\<not> tk_signal tk" using Cons.prems(1) by (simp add: undisturbed_def)
  note step = run_loop_step [OF Cons.prems(6) this]
  have good: "timestamp_good E s tk x = Inr True" for x using Cons.prems(1) by (simp add: undisturbed_def timestamp_good_def)
  show ?case
  proof (cases "j < length fs")
    case False
    then have j: "j = length ps" using Cons.prems(3) len by (simp add: reading_def)
    then have fin: "p = []" "ok" "\<not> loop" using Cons.prems(7,8) len by auto
    then obtain r' where "load_frame_of E tk data m = (m\<lparr>md_input := InputFile r', md_running := False\<rparr>, Inr (Some (data, Leave Normal_end)))"
      using load_file_end [of t count ps r m E tk data] Cons.prems(3,4) j by auto
    from step [OF this] show ?thesis using fin by simp
  next
    case True
    let ?h = "fct_and_fp (fs ! j)"
    obtain r' er tstamp where l: "load_frame_of E tk data m =
        (m\<lparr>md_input := InputFile r', md_etiReader := er\<rparr>, Inr (Some (frame_bytes (fs ! j), Frame (fst ?h) (snd ?h) tstamp)))"
      "reading t count ps loop (Suc j) r'" "at_frame_start er"
      using load_recorded [OF rec Cons.prems(3) True Cons.prems(4,5)] by blast
    let ?m1 = "m\<lparr>md_input := InputFile r', md_etiReader := er\<rparr>"
    have clear: "clear_input m = m" if "md_input m = InputFile q" for m :: "('a, 'b \<times> (nat \<times> nat) list) modulator_data" and q
      using that by (simp add: clear_input_def)
    have hs: "map fct_and_fp (drop j fs) = ?h # map fct_and_fp (drop (Suc j) fs)" using True by (simp add: Cons_nth_drop_Suc [symmetric])
    have rest: "undisturbed run s ts" "length (drop (Suc j) fs) < length ts"
      using Cons.prems(1,2) True by (auto simp: undisturbed_def)
    show ?thesis
    proof (cases "check_fct last_fct (fst ?h) (snd ?h)")
      case None
      then have "p = []" "\<not> ok" using Cons.prems(7) hs by (auto simp: schedule.simps(2) [of _ "fst ?h" "snd ?h", simplified])
      then show ?thesis using step [OF l(1)] None good Cons.prems(6) by (simp add: clear)
    next
      case (Some f)
      obtain last_fct' modulate where f: "f = (last_fct', modulate)" by force
      obtain q where q: "schedule last_fct' (map fct_and_fp (drop (Suc j) fs)) = (q, ok)" "p = (if modulate then ?h # q else q)"
        using Cons.prems(7) hs Some f
        by (auto simp: schedule.simps(2) [of _ "fst ?h" "snd ?h", simplified] split: prod.splits if_splits)
      show ?thesis
      proof (cases modulate)
        case False
        obtain m' r2 where "run_loop E s ts last_fct' (frame_bytes (fs ! j)) ?m1 = (m', Inr (Some (if ok then Normal_end else Again)))"
          "modulated m' = modulated ?m1 @ q" "md_input m' = InputFile r2" "md_running m' = (\<not> ok)" "md_framecount m' = md_framecount ?m1 + length q"
          "md_num_modulator_restarts m' = md_num_modulator_restarts ?m1"
          using Cons.IH [OF rest l(2) _ _ _ q(1) Cons.prems(8), of ?m1 "frame_bytes (fs ! j)"] l(3) Cons.prems(6) by auto
        then show ?thesis using step [OF l(1)] Some f False good q(2) by (simp add: clear)
      next
        case modulate: True
        obtain g b where g: "run (modulator_source ?m1) (fst (md_flowgraph m)) = (g, Inr b)"
          using Cons.prems(1) by (metis undisturbed_def prod.collapse)
        have "source_header (modulator_source ?m1) = ?h" using load_frame_header [OF l(1)] by simp
        then have run: "en_run_flowgraph E (modulator_source ?m1) (md_flowgraph m) = ((g, modulated m @ [?h]), Inr b)"
          using g E by (cases "md_flowgraph m") (simp add: logging_def)
        let ?m2 = "?m1\<lparr>md_framecount := md_framecount m + 1, md_flowgraph := (g, modulated m @ [?h])\<rparr>"
        obtain m' r2 where "run_loop E s ts last_fct' (frame_bytes (fs ! j)) ?m2 = (m', Inr (Some (if ok then Normal_end else Again)))"
          "modulated m' = modulated ?m2 @ q" "md_input m' = InputFile r2" "md_running m' = (\<not> ok)" "md_framecount m' = md_framecount ?m2 + length q"
          "md_num_modulator_restarts m' = md_num_modulator_restarts ?m2"
          using Cons.IH [OF rest l(2) _ _ _ q(1) Cons.prems(8), of ?m2 "frame_bytes (fs ! j)"] l(3) Cons.prems(6) by auto
        then show ?thesis using step [OF l(1)] Some f modulate good q(2) run by (simp add: clear)
      qed
    qed
  qed
qed simp

text \<open>One round of the launcher over a file.\<close>

lemma open_recorded:
  assumes "records t count ps fs" and "en_file E = Some \<lparr>fi_bytes = file_of t count ps, fi_pos = 0, fi_seekable = True\<rparr>"
  shows "\<exists>r'. open_file E s r = (r', Inr 0) \<and> reading t count ps (ms_loop s) 0 r'"
  using opens [of t count ps "ms_loop s" r] assms by (simp add: open_file_def records_def)

lemma start_recorded:
  assumes "md_input m = InputFile r" and "\<forall>i. \<exists>g. en_new_flowgraph E i = Inr (g, [])"
  shows "\<exists>m' g. start_modulator E s m = (m', Inr ()) \<and> md_input m' = InputFile r \<and> at_frame_start (md_etiReader m') \<and>
    md_running m' = md_running m \<and> modulated m' = [] \<and> md_num_modulator_restarts m' = md_num_modulator_restarts m"
proof -
  let ?m = "m\<lparr>md_framecount := 0, md_etiReader := EtiReader (en_junk E) (ms_tist_offset_s s)\<rparr>"
  obtain g where "en_new_flowgraph E (modulator_source ?m) = Inr (g, [])" using assms(2) by blast
  then have "start_modulator E s m = (?m\<lparr>md_flowgraph := (g, [])\<rparr>, Inr ())"
    using assms(1) by (simp add: start_modulator_def Let_def)
  then show ?thesis using assms(1) by (simp add: at_frame_start_def sources_match_def EtiReader_def)
qed

text \<open>
  C24. A file is modulated from beginning to end. Let a seekable file in any of the three formats hold
  well-formed ETI frames: first any number of frames whose frame phase is not 0, which are passed over,
  then frames whose counts follow each other modulo 250, the first with phase 0. If no signal arrives, the
  output is not synchronised and the flowgraph throws nothing, then \<open>launch_modulator\<close> ends with the exit
  code 0 after the flowgraph has run once for each of these frames, in order.
\<close>

theorem file_modulated_completely:
  fixes E :: "('f, 'g \<times> (nat \<times> nat) list) engine"
  assumes "records t count ps (pre @ fs)" and "list_all (\<lambda>f. snd (fct_and_fp f) \<noteq> 0) pre" and "in_step (map fct_and_fp fs)"
    and "en_file E = Some \<lparr>fi_bytes = file_of t count ps, fi_pos = 0, fi_seekable = True\<rparr>" and "\<not> ms_loop s"
    and "en_run_flowgraph E = logging run" and "\<forall>i. \<exists>g. en_new_flowgraph E i = Inr (g, [])"
    and "undisturbed run s ts" and "length (pre @ fs) < length ts"
  shows "\<exists>m'. launch_modulator E s so stale edi ''file'' name (ts # tss) m = (m', Inr (Some 0)) \<and>
    modulated m' = map fct_and_fp fs"
proof -
  obtain r where r: "open_file E s InputFileReader = (r, Inr 0)" "reading t count ps False 0 r"
    using open_recorded [OF assms(1,4), of s InputFileReader] assms(5) by auto
  let ?m = "m\<lparr>md_input := InputFile r, md_running := True, md_num_modulator_restarts := 0\<rparr>"
  obtain m1 where m1: "start_modulator E s ?m = (m1, Inr ())" "md_input m1 = InputFile r" "at_frame_start (md_etiReader m1)"
    "md_running m1" "modulated m1 = []"
    using start_recorded [of ?m r E s] assms(7) by auto
  have "schedule (- 1) (map fct_and_fp (drop 0 (pre @ fs))) = (map fct_and_fp fs, True)"
    using schedule_waits [of "map fct_and_fp pre" "map fct_and_fp fs"] schedule_in_step [OF assms(3), of "[]"] assms(2)
    by (simp add: list.pred_map o_def)
  from run_recorded [where data = "en_fresh E 6144", OF assms(1,6,8) _ r(2) m1(2-4) this] assms(9)
  obtain m2 r2 where m2: "run_loop E s ts (- 1) (en_fresh E 6144) m1 = (m2, Inr (Some Normal_end))"
    "modulated m2 = map fct_and_fp fs" using m1(5) by auto
  show ?thesis
    using r(1) m1(1) m2 by (simp add: launch_modulator_def open_input_def bindE_def run_modulator_def after_run_def)
qed

text \<open>
  A gap in the frame counts of a file is never passed. If the frames of the file are as above up to one
  whose count does not follow, then \<open>run_modulator\<close> returns \<open>again\<close> there, the file is opened again and
  read from its beginning: however long it runs, the program modulates the frames before the gap over and
  over, once for each restart, and neither ends nor gets to the frames behind the gap.
\<close>

lemma file_gap_restarts_for_ever:
  fixes E :: "('f, 'g \<times> (nat \<times> nat) list) engine"
  assumes "records t count ps (pre @ fs @ f # rest)" and "list_all (\<lambda>f. snd (fct_and_fp f) \<noteq> 0) pre"
    and "in_step (map fct_and_fp fs)" and "fs \<noteq> []" and "fst (fct_and_fp f) \<noteq> (fst (fct_and_fp (last fs)) + 1) mod 250"
    and "en_file E = Some \<lparr>fi_bytes = file_of t count ps, fi_pos = 0, fi_seekable = True\<rparr>"
    and "en_run_flowgraph E = logging run" and "\<forall>i. \<exists>g. en_new_flowgraph E i = Inr (g, [])"
    and "\<forall>ts \<in> set tss. undisturbed run s ts \<and> length (pre @ fs @ f # rest) < length ts"
  shows "\<exists>m'. launch_modulator E s so stale edi ''file'' name tss m = (m', Inr None) \<and>
    md_num_modulator_restarts m' = length tss \<and> (tss \<noteq> [] \<longrightarrow> modulated m' = map fct_and_fp fs)"
proof -
  have "int (fst (fct_and_fp f)) \<noteq> (int (fst (fct_and_fp (last fs))) + 1) mod 250"
    using assms(5) by (simp add: next_count)
  then have "check_fct (int (fst (fct_and_fp (last fs)))) (fst (fct_and_fp f)) (snd (fct_and_fp f)) = None"
    by (simp add: check_fct_def)
  then have gap: "schedule (int (fst (fct_and_fp (last fs)))) (fct_and_fp f # map fct_and_fp rest) = ([], False)"
    by (cases "fct_and_fp f") simp
  have sched: "schedule (- 1) (map fct_and_fp (drop 0 (pre @ fs @ f # rest))) = (map fct_and_fp fs, False)"
    using schedule_waits [of "map fct_and_fp pre" "map fct_and_fp (fs @ f # rest)"]
      schedule_in_step [OF assms(3), of "map fct_and_fp (f # rest)"] assms(2,4) gap
    by (simp add: list.pred_map o_def last_map)
  have round: "\<exists>m'. launch_loop E s tss m = (m', Inr None) \<and> md_num_modulator_restarts m' = md_num_modulator_restarts m + length tss \<and>
      (tss \<noteq> [] \<longrightarrow> modulated m' = map fct_and_fp fs)"
    if "reading t count ps (ms_loop s) 0 r" "md_input m = InputFile r" "md_running m" for r m
    using that assms(9)
  proof (induction tss arbitrary: r m)
    case (Cons ts tss)
    obtain m1 where m1: "start_modulator E s m = (m1, Inr ())" "md_input m1 = InputFile r" "at_frame_start (md_etiReader m1)"
      "md_running m1" "modulated m1 = []" "md_num_modulator_restarts m1 = md_num_modulator_restarts m"
      using start_recorded [OF Cons.prems(2) assms(8)] Cons.prems(3) by auto
    obtain m2 r2 where m2: "run_loop E s ts (- 1) (en_fresh E 6144) m1 = (m2, Inr (Some Again))"
      "modulated m2 = map fct_and_fp fs" "md_input m2 = InputFile r2" "md_running m2"
      "md_num_modulator_restarts m2 = md_num_modulator_restarts m1"
      using run_recorded [where ts = ts and s = s and data = "en_fresh E 6144", OF assms(1,7) _ _ Cons.prems(1) m1(2-4) sched] Cons.prems(4) m1(5) by auto
    obtain r3 where r3: "open_file E s r2 = (r3, Inr 0)" "reading t count ps (ms_loop s) 0 r3"
      using open_recorded [OF assms(1,6)] by blast
    let ?m3 = "m2\<lparr>md_input := InputFile r3, md_num_modulator_restarts := md_num_modulator_restarts m2 + 1\<rparr>"
    have step: "launch_loop E s (ts # tss) m = launch_loop E s tss ?m3"
      using m1(1) m2(1,3) r3(1) by (simp add: run_modulator_def after_run_def)
    have "\<exists>m'. launch_loop E s tss ?m3 = (m', Inr None) \<and> md_num_modulator_restarts m' = md_num_modulator_restarts ?m3 + length tss \<and>
        (tss \<noteq> [] \<longrightarrow> modulated m' = map fct_and_fp fs)"
      using Cons.IH [of r3 ?m3] r3(2) m2(4) Cons.prems(4) by simp
    then show ?case using step m1(6) m2(2,5) by (cases tss) auto
  qed simp
  obtain r where r: "open_file E s InputFileReader = (r, Inr 0)" "reading t count ps (ms_loop s) 0 r"
    using open_recorded [OF assms(1,6)] by blast
  show ?thesis
    using round [OF r(2), of "m\<lparr>md_input := InputFile r, md_running := True, md_num_modulator_restarts := 0\<rparr>"] r(1)
    by (simp add: launch_modulator_def open_input_def bindE_def)
qed

section \<open>Examples\<close>

definition sample_frame :: "u8 \<Rightarrow> u8 \<Rightarrow> eti_frame" where
  "sample_frame fct fp = Eti_Reader.example_frame\<lparr>ef_fc := [fct, 0x81, 0x08 + 32 * fp, 0]\<rparr>"

lemma sample_frame_wf: "fp < 2 \<Longrightarrow> wf_frame (sample_frame fct fp) \<and> fct_and_fp (sample_frame fct fp) = (unat fct, unat fp)"
proof -
  assume "fp < 2"
  then have fp: "fp = 0 \<or> fp = 1" by (auto simp: word_less_nat_alt unat_eq_zero) (simp add: word_unat_eq_iff)
  have "\<exists>s. stream_source (eti_STC_of [0, 0, 0x88, 24]) = Inr s \<and> 192 = sc_framesize s"
    by (simp add: stream_source_def eti_STC_of_def bitfield_def getSTL_def getStartAddress_def SubchannelSource_def
        protectionForm_def protectionOption_def protectionLevel_def bitrate_def eep_rules_A_def)
  then show ?thesis using fp
    by (auto simp: wf_frame_def sample_frame_def Eti_Reader.example_frame_def frame_bytes_def eti_FC_of_def bitfield_def fct_and_fp_def)
qed

lemma sample_records:
  assumes "fs = map (\<lambda>(fct, fp). sample_frame fct fp) hs" and "hs \<noteq> []" and "\<forall>h \<in> set hs. snd h < 2"
  shows "records Raw [0, 0, 0, 0] (map frame_bytes fs) fs"
proof -
  have wf: "list_all wf_frame fs" using assms(1,3) sample_frame_wf by (auto simp: list_all_iff)
  have len: "length (frame_bytes f) = 6144" if "f \<in> set fs" for f using wf that by (auto simp: list_all_iff wf_frame_def)
  have sync: "is_sync (le32 (frame_bytes f))" if f: "f \<in> set fs" for f
  proof -
    obtain fct fp where "f = sample_frame fct fp" using assms(1) f by auto
    then have "frame_bytes f = 0xff # 0x07 # 0x3a # 0xb6 # drop 4 (frame_bytes f)"
      by (simp add: frame_bytes_def sample_frame_def Eti_Reader.example_frame_def)
    then have "le32 (frame_bytes f) = le32 (0xff # 0x07 # 0x3a # 0xb6 # drop 4 (frame_bytes f))" by simp
    also have "... = 0xb63a07ff" by (simp add: le32_def)
    finally show ?thesis by (simp add: is_sync_def)
  qed
  have pad: "map padded (map frame_bytes fs) = map frame_bytes fs" using len by (simp add: padded_def)
  have "recordable Raw [0, 0, 0, 0] (map frame_bytes fs)"
    using assms(1,2) len sync by (auto simp: recordable_def) (simp_all add: is_sync_def le32_def)
  then show ?thesis using wf pad by (simp add: records_def)
qed

definition sample_settings :: main_settings where
  "sample_settings =
     \<lparr>ms_sdr = \<lparr>enableSync = False, muteNoTimestamps = False, muting = False, sampleRate = 2048000\<rparr>, ms_loop = False, ms_tist_offset_s = 0\<rparr>"

definition sample_run :: "'f source \<Rightarrow> nat \<Rightarrow> nat \<times> bool result" where
  "sample_run i g = (g + 1, Inr True)"

definition sample_engine :: "rs_decoder \<Rightarrow> eti_reader \<Rightarrow> eti_frame list \<Rightarrow> ('f, nat \<times> (nat \<times> nat) list) engine" where
  "sample_engine rs junk fs =
     \<lparr>en_rs = rs, en_dmul = (*), en_dadd = (+), en_dsub = (-), en_ddiv = (/), en_fresh = (\<lambda>n. replicate n 0), en_junk = junk,
      en_file = Some \<lparr>fi_bytes = file_of Raw [0, 0, 0, 0] (map frame_bytes fs), fi_pos = 0, fi_seekable = True\<rparr>,
      en_new_flowgraph = (\<lambda>_. Inr (0, [])), en_run_flowgraph = logging sample_run\<rparr>"

definition sample_tick :: tick where
  "sample_tick = \<lparr>tk_signal = False, tk_recv = Inr (0, []), tk_waits = [], tk_sec = 0, tk_nsec = 0\<rparr>"

lemma sample_undisturbed: "undisturbed sample_run sample_settings (replicate n sample_tick)"
  by (auto simp: undisturbed_def sample_settings_def sample_tick_def sample_run_def)

lemma sample_unlooped: "\<not> ms_loop sample_settings"
  by (simp add: sample_settings_def)

lemma sample_in_step: "in_step [(249, 0), (0, 0)]"
  by (simp add: in_step_def)

text \<open>A frame with phase 1, then the counts 249 and 0.\<close>

theorem file_modulated_completely_witness:
  "\<forall>rs junk so edi (m :: ('f, nat \<times> (nat \<times> nat) list) modulator_data).
     \<exists>m'. launch_modulator (sample_engine rs junk [sample_frame 3 1, sample_frame 249 0, sample_frame 0 0]) sample_settings so False edi
            ''file'' ''multiplex.eti'' [replicate 4 sample_tick] m = (m', Inr (Some 0)) \<and>
          modulated m' = [(249, 0), (0, 0)]"
proof (intro allI)
  fix rs junk so edi and m :: "('f, nat \<times> (nat \<times> nat) list) modulator_data"
  let ?fs = "[sample_frame 249 0, sample_frame 0 0]"
  let ?E = "sample_engine rs junk ([sample_frame 3 1] @ ?fs) :: ('f, nat \<times> (nat \<times> nat) list) engine"
  have h: "map fct_and_fp ?fs = [(249, 0), (0, 0)]" "snd (fct_and_fp (sample_frame 3 1)) \<noteq> 0"
    using sample_frame_wf [of 0] sample_frame_wf [of 1] by simp_all
  have "records Raw [0, 0, 0, 0] (map frame_bytes ([sample_frame 3 1] @ ?fs)) ([sample_frame 3 1] @ ?fs)"
    by (rule sample_records [of _ "[(3, 1), (249, 0), (0, 0)]"]) simp_all
  from file_modulated_completely [OF this, of ?E sample_settings sample_run "replicate 4 sample_tick" so False edi "''multiplex.eti''" "[]" m]
  show "\<exists>m'. launch_modulator (sample_engine rs junk [sample_frame 3 1, sample_frame 249 0, sample_frame 0 0]) sample_settings so False edi
            ''file'' ''multiplex.eti'' [replicate 4 sample_tick] m = (m', Inr (Some 0)) \<and>
          modulated m' = [(249, 0), (0, 0)]"
    unfolding h using h(2) sample_in_step sample_unlooped sample_undisturbed [of 4]
    by (simp add: sample_engine_def)
qed

text \<open>The count 5, then 7: with ten thousand rounds there are ten thousand restarts.\<close>

lemma file_gap_restarts_for_ever_witness:
  "\<forall>rs junk so edi (m :: ('f, nat \<times> (nat \<times> nat) list) modulator_data).
     \<exists>m'. launch_modulator (sample_engine rs junk [sample_frame 5 0, sample_frame 7 0]) sample_settings so False edi
            ''file'' ''multiplex.eti'' (replicate 10000 (replicate 3 sample_tick)) m = (m', Inr None) \<and>
          md_num_modulator_restarts m' = 10000 \<and> modulated m' = [(5, 0)]"
proof (intro allI)
  fix rs junk so edi and m :: "('f, nat \<times> (nat \<times> nat) list) modulator_data"
  let ?E = "sample_engine rs junk ([] @ [sample_frame 5 0] @ sample_frame 7 0 # []) :: ('f, nat \<times> (nat \<times> nat) list) engine"
  have h: "fct_and_fp (sample_frame 5 0) = (5, 0)" "fct_and_fp (sample_frame 7 0) = (7, 0)"
    using sample_frame_wf [of 0] by simp_all
  have "in_step [(5, 0)]" by (simp add: in_step_def)
  moreover have "records Raw [0, 0, 0, 0] (map frame_bytes ([] @ [sample_frame 5 0] @ sample_frame 7 0 # [])) ([] @ [sample_frame 5 0] @ sample_frame 7 0 # [])"
    by (rule sample_records [of _ "[(5, 0), (7, 0)]"]) simp_all
  note file_gap_restarts_for_ever [OF this, of ?E sample_run "replicate 10000 (replicate 3 sample_tick)" sample_settings so False edi "''multiplex.eti''" m]
  ultimately show "\<exists>m'. launch_modulator (sample_engine rs junk [sample_frame 5 0, sample_frame 7 0]) sample_settings so False edi
            ''file'' ''multiplex.eti'' (replicate 10000 (replicate 3 sample_tick)) m = (m', Inr None) \<and>
          md_num_modulator_restarts m' = 10000 \<and> modulated m' = [(5, 0)]"
    using h sample_undisturbed [of 3] by (simp add: sample_engine_def)
qed

text \<open>The first of these files again, read by one call of \<open>run_modulator\<close>.\<close>

theorem modulated_frames_in_step_witness:
  "\<forall>rs junk. \<exists>(m :: ('f, nat \<times> (nat \<times> nat) list) modulator_data) m'.
        run_modulator (sample_engine rs junk [sample_frame 3 1, sample_frame 249 0, sample_frame 0 0]) sample_settings (replicate 4 sample_tick) m =
          (m', Inr (Some Normal_end)) \<and>
        modulated m' = [(249, 0), (0, 0)] \<and> in_step (modulated m') \<and> md_framecount m' = 2"
proof (intro allI)
  fix rs junk
  let ?fs = "[sample_frame 3 1, sample_frame 249 0, sample_frame 0 0]"
  let ?E = "sample_engine rs junk ?fs :: ('f, nat \<times> (nat \<times> nat) list) engine"
  have rec: "records Raw [0, 0, 0, 0] (map frame_bytes ?fs) ?fs"
    by (rule sample_records [of _ "[(3, 1), (249, 0), (0, 0)]"]) simp_all
  have opened: "en_file ?E = Some \<lparr>fi_bytes = file_of Raw [0, 0, 0, 0] (map frame_bytes ?fs), fi_pos = 0, fi_seekable = True\<rparr>"
    and new: "\<forall>i. \<exists>g. en_new_flowgraph ?E i = Inr (g, [])" and run: "en_run_flowgraph ?E = logging sample_run"
    by (simp_all add: sample_engine_def)
  obtain r where r: "reading Raw [0, 0, 0, 0] (map frame_bytes ?fs) False 0 r"
    using open_recorded [OF rec opened, of sample_settings] sample_unlooped by auto
  obtain m0 :: "('f, nat \<times> (nat \<times> nat) list) modulator_data" where True by blast
  obtain m where m: "start_modulator ?E sample_settings (m0\<lparr>md_input := InputFile r, md_running := True\<rparr>) = (m, Inr ())"
    "md_input m = InputFile r" "at_frame_start (md_etiReader m)" "md_running m" "modulated m = []"
    using start_recorded [OF _ new, of "m0\<lparr>md_input := InputFile r, md_running := True\<rparr>" r sample_settings] by auto
  have count: "md_framecount m = 0" using m(1) by (auto simp: start_modulator_def Let_def needS_def split: sum.splits)
  have h: "map fct_and_fp ?fs = [(3, 1), (249, 0), (0, 0)]" using sample_frame_wf [of 0] sample_frame_wf [of 1] by simp
  have "schedule (- 1) (map fct_and_fp (drop 0 ?fs)) = ([(249, 0), (0, 0)], True)" unfolding drop_0 h by (simp add: check_fct_def)
  from run_recorded [where data = "en_fresh ?E 6144", OF rec run sample_undisturbed _ r m(2-4) this, of 4]
  obtain m' where m': "run_loop ?E sample_settings (replicate 4 sample_tick) (- 1) (en_fresh ?E 6144) m = (m', Inr (Some Normal_end))"
    "modulated m' = [(249, 0), (0, 0)]" using m(5) by auto
  then have "run_modulator ?E sample_settings (replicate 4 sample_tick) m = (m', Inr (Some Normal_end))" by (simp add: run_modulator_def)
  with modulated_frames_in_step [OF run m(5) count this] m'(2)
  have "run_modulator ?E sample_settings (replicate 4 sample_tick) m = (m', Inr (Some Normal_end)) \<and>
        modulated m' = [(249, 0), (0, 0)] \<and> in_step (modulated m') \<and> md_framecount m' = 2" by simp
  then show "\<exists>(m :: ('f, nat \<times> (nat \<times> nat) list) modulator_data) m'. run_modulator ?E sample_settings (replicate 4 sample_tick) m = (m', Inr (Some Normal_end)) \<and>
        modulated m' = [(249, 0), (0, 0)] \<and> in_step (modulated m') \<and> md_framecount m' = 2" by blast
qed

end
