(* ===== verification/Guard_Interval.thy ===== *)
theory Guard_Interval
  imports Dab_Modulator
begin

text \<open>
  The guard intervals (\<open>src/GuardIntervalInserter.cpp\<close>): every symbol gets a cyclic prefix, and if a
  window length is set neighbouring symbols overlap under a raised-cosine window. The code is a template
  over the type of a sample; here its product with a window value and the sum of two samples are
  arguments. Offsets are computed in \<open>size_t\<close>, with wrap-around; what is copied from or to a place outside
  a buffer is undefined. The lemmas give every output sample.
\<close>

section \<open>The parameters\<close>

record 'w guard_params =
  gp_nbSymbols :: nat
  gp_spacing :: nat
  gp_nullSize :: nat
  gp_symSize :: nat
  gp_windowOverlap :: nat
  gp_window :: "'w list"

text \<open>
  \<open>raised_cosine n i\<close> is the value of the window of length \<open>n\<close> at \<open>i\<close> in the sample's type.
\<close>

definition update_window :: "(nat \<Rightarrow> nat \<Rightarrow> 'w) \<Rightarrow> nat \<Rightarrow> 'w guard_params \<Rightarrow> 'w guard_params" where
  "update_window raised_cosine new_window_overlap p =
     p\<lparr>gp_windowOverlap := new_window_overlap,
       gp_window := map (raised_cosine (2 * new_window_overlap)) [0..<2 * new_window_overlap]\<rparr>"

definition GuardIntervalInserter :: "(nat \<Rightarrow> nat \<Rightarrow> 'w) \<Rightarrow> nat \<Rightarrow> nat \<Rightarrow> nat \<Rightarrow> nat \<Rightarrow> nat \<Rightarrow> 'w guard_params result" where
  "GuardIntervalInserter raised_cosine nbSymbols spacing nullSize symSize windowOverlap =
     (if nullSize = 0 then Inl (LogicError ''NULL symbol must be present'')
      else Inr (update_window raised_cosine windowOverlap
                  \<lparr>gp_nbSymbols = nbSymbols, gp_spacing = spacing, gp_nullSize = nullSize, gp_symSize = symSize,
                   gp_windowOverlap = windowOverlap, gp_window = []\<rparr>))"

text \<open>The remote control: any number is taken (\<open>None\<close>: the value is not a number).\<close>

definition guard_set_parameter :: "(nat \<Rightarrow> nat \<Rightarrow> 'w) \<Rightarrow> string \<Rightarrow> nat option \<Rightarrow> 'w guard_params \<Rightarrow> 'w guard_params result" where
  "guard_set_parameter raised_cosine parameter value p =
     (if parameter = ''windowlen''
      then (case value of None \<Rightarrow> Inl (RuntimeError ''ios_base::failure'') | Some n \<Rightarrow> Inr (update_window raised_cosine n p))
      else Inl (ParameterError ''Parameter is not exported by controllable guardinterval''))"

section \<open>Memory\<close>

text \<open>The difference of two \<open>size_t\<close>.\<close>

definition usub :: "nat \<Rightarrow> nat \<Rightarrow> nat" where
  "usub a b = (if b \<le> a then a - b else 2 ^ 64 - (b - a))"

definition copy_samples :: "'a list \<Rightarrow> nat \<Rightarrow> nat \<Rightarrow> nat \<Rightarrow> 'a list \<Rightarrow> 'a list result" where
  "copy_samples inp ix n ox out = bindE (memread inp ix n) (memcpy out ox)"

text \<open>\<open>out[ox + i] = in[ix + i] * window[wx - (i + 1)]\<close> for \<open>i < n\<close>.\<close>

definition fall_samples ::
    "('a \<Rightarrow> 'w \<Rightarrow> 'a) \<Rightarrow> 'w list \<Rightarrow> nat \<Rightarrow> 'a list \<Rightarrow> nat \<Rightarrow> nat \<Rightarrow> nat \<Rightarrow> 'a list \<Rightarrow> 'a list result" where
  "fall_samples mul window wx inp ix n ox =
     for_each (\<lambda>i out.
       bindE (rd inp (ix + i)) (\<lambda>x.
       bindE (rd window (usub wx (i + 1))) (\<lambda>w.
       wr out (ox + i) (mul x w)))) [0..<n]"

text \<open>\<open>out[ox - w + i] += in[ix + i] * window.at(i)\<close> for \<open>i < n\<close>.\<close>

definition rise_samples ::
    "('a \<Rightarrow> 'a \<Rightarrow> 'a) \<Rightarrow> ('a \<Rightarrow> 'w \<Rightarrow> 'a) \<Rightarrow> 'w list \<Rightarrow> nat \<Rightarrow> 'a list \<Rightarrow> nat \<Rightarrow> nat \<Rightarrow> nat \<Rightarrow> 'a list \<Rightarrow> 'a list result" where
  "rise_samples add mul window w inp ix n ox =
     for_each (\<lambda>i out.
       bindE (rd inp (ix + i)) (\<lambda>x.
       if length window \<le> i then Inl (OutOfRange ''vector::at'')
       else if ox + i < w then Inl (UndefinedBehaviour ''read'')
       else bindE (rd out (ox + i - w)) (\<lambda>y. wr out (ox + i - w) (add y (mul x (window ! i)))))) [0..<n]"

section \<open>A frame\<close>

text \<open>The null symbol with its window, at the beginning of both buffers.\<close>

definition guard_null :: "('a \<Rightarrow> 'w \<Rightarrow> 'a) \<Rightarrow> 'w guard_params \<Rightarrow> 'a list \<Rightarrow> 'a list \<Rightarrow> 'a list result" where
  "guard_null mul p inp out =
     (let w = gp_windowOverlap p; spacing = gp_spacing p;
          prefixlength = usub (gp_nullSize p) spacing
      in bindE (copy_samples inp (usub spacing prefixlength) prefixlength 0 out) (\<lambda>out.
         bindE (copy_samples inp 0 (usub spacing w) prefixlength out) (\<lambda>out.
         bindE (fall_samples mul (gp_window p) (2 * w) inp (usub spacing w) w (usub (prefixlength + spacing) w) out) (\<lambda>out.
         fall_samples mul (gp_window p) w inp 0 w (prefixlength + spacing) out))))"

text \<open>A symbol at \<open>in\<close> that is written to \<open>out\<close> (\<open>ip\<close> and \<open>op\<close>, the pointers of the code).\<close>

definition guard_symbol ::
    "('a \<Rightarrow> 'a \<Rightarrow> 'a) \<Rightarrow> ('a \<Rightarrow> 'w \<Rightarrow> 'a) \<Rightarrow> 'w guard_params \<Rightarrow> bool \<Rightarrow> 'a list \<Rightarrow> nat \<Rightarrow> nat \<Rightarrow> 'a list \<Rightarrow> 'a list result" where
  "guard_symbol add mul p last_symbol inp ip op out =
     (let w = gp_windowOverlap p; spacing = gp_spacing p; symSize = gp_symSize p;
          start_rise_ix = usub (usub (2 * spacing) symSize) w;
          end_rise_ix = usub (2 * spacing) symSize + w;
          end_cyclic_prefix_ox = usub symSize spacing;
          n = (if start_rise_ix < end_rise_ix then end_rise_ix - start_rise_ix else 0)
      in bindE (rise_samples add mul (gp_window p) w inp (ip + start_rise_ix) n op out) (\<lambda>out.
         if n \<noteq> 2 * w then Inl (AssertionFailure ''ox == end_rise_ox'')
         else
           bindE (copy_samples inp (ip + end_rise_ix) (usub end_cyclic_prefix_ox w) (op + w) out) (\<lambda>out.
           if last_symbol then copy_samples inp ip spacing (op + end_cyclic_prefix_ox) out
           else
             bindE (copy_samples inp ip (usub spacing w) (op + end_cyclic_prefix_ox) out) (\<lambda>out.
             bindE (fall_samples mul (gp_window p) (2 * w) inp (ip + usub spacing w) w (op + usub symSize w) out) (\<lambda>out.
             fall_samples mul (gp_window p) w inp ip w (op + symSize) out)))))"

definition plain_null :: "'w guard_params \<Rightarrow> 'a list \<Rightarrow> 'a list \<Rightarrow> 'a list result" where
  "plain_null p inp out =
     bindE (copy_samples inp (usub (2 * gp_spacing p) (gp_nullSize p)) (usub (gp_nullSize p) (gp_spacing p)) 0 out) (\<lambda>out.
     copy_samples inp 0 (gp_spacing p) (usub (gp_nullSize p) (gp_spacing p)) out)"

definition plain_symbol :: "'w guard_params \<Rightarrow> 'a list \<Rightarrow> nat \<Rightarrow> nat \<Rightarrow> 'a list \<Rightarrow> 'a list result" where
  "plain_symbol p inp ip op out =
     bindE (copy_samples inp (ip + usub (2 * gp_spacing p) (gp_symSize p)) (usub (gp_symSize p) (gp_spacing p)) op out) (\<lambda>out.
     copy_samples inp ip (gp_spacing p) (op + usub (gp_symSize p) (gp_spacing p)) out)"

text \<open>\<open>fresh n\<close> is what a buffer of \<open>n\<close> samples holds before it is written.\<close>

definition guard_process ::
    "('a \<Rightarrow> 'a \<Rightarrow> 'a) \<Rightarrow> ('a \<Rightarrow> 'w \<Rightarrow> 'a) \<Rightarrow> (nat \<Rightarrow> 'a list) \<Rightarrow> 'w guard_params \<Rightarrow> 'a list \<Rightarrow> 'a list result" where
  "guard_process add mul fresh p inp =
     (let spacing = gp_spacing p; nullSize = gp_nullSize p; symSize = gp_symSize p;
          out = fresh (nullSize + gp_nbSymbols p * symSize)
      in if length inp \<noteq> (gp_nbSymbols p + 1) * spacing
         then Inl (RuntimeError ''GuardIntervalInserter::process input size not valid!'')
         else if gp_windowOverlap p \<noteq> 0
         then bindE (guard_null mul p inp out) (\<lambda>out.
              for_each (\<lambda>sym_ix. guard_symbol add mul p (gp_nbSymbols p \<le> sym_ix + 1) inp
                          (spacing + sym_ix * spacing) (nullSize + sym_ix * symSize)) [0..<gp_nbSymbols p] out)
         else bindE (plain_null p inp out) (\<lambda>out.
              for_each (\<lambda>i. plain_symbol p inp (spacing + i * spacing) (nullSize + i * symSize)) [0..<gp_nbSymbols p] out))"

section \<open>Single operations\<close>

lemma usub_le [simp]: "b \<le> a \<Longrightarrow> usub a b = a - b"
  by (simp add: usub_def)

lemma copy_samples_ok:
  assumes "ix + n \<le> length inp" and "ox + n \<le> length out"
  shows "\<exists>out'. copy_samples inp ix n ox out = Inr out' \<and> length out' = length out \<and>
    (\<forall>t < length out. out' ! t = (if ox \<le> t \<and> t < ox + n then inp ! (ix + (t - ox)) else out ! t))"
proof -
  obtain out' where m: "memcpy out ox (take n (drop ix inp)) = Inr out'" using assms by (simp add: memcpy_def)
  have "out' ! t = (if ox \<le> t \<and> t < ox + n then inp ! (ix + (t - ox)) else out ! t)" if "t < length out" for t
    using memcpy_nth [OF m that] assms by auto
  then show ?thesis using m memcpy_length [OF m] assms(1) by (simp add: copy_samples_def)
qed

lemma fall_samples_ok:
  assumes "ix + n \<le> length inp" and "ox + n \<le> length out" and "n \<le> wx" and "wx \<le> length window"
  shows "\<exists>out'. fall_samples mul window wx inp ix n ox out = Inr out' \<and> length out' = length out \<and>
    (\<forall>t < length out. out' ! t = (if ox \<le> t \<and> t < ox + n then mul (inp ! (ix + (t - ox))) (window ! (wx - (t - ox + 1))) else out ! t))"
  using assms
proof (induction n)
  case 0
  then show ?case by (auto simp: fall_samples_def)
next
  case (Suc n)
  then obtain out1 where o: "fall_samples mul window wx inp ix n ox out = Inr out1" "length out1 = length out"
    "\<forall>t < length out. out1 ! t = (if ox \<le> t \<and> t < ox + n then mul (inp ! (ix + (t - ox))) (window ! (wx - (t - ox + 1))) else out ! t)" by auto
  have "fall_samples mul window wx inp ix (Suc n) ox out = Inr (out1[ox + n := mul (inp ! (ix + n)) (window ! (wx - (n + 1)))])"
    using o(1,2) Suc.prems by (simp add: fall_samples_def for_each_append)
  then show ?case using o(2,3) Suc.prems by (auto simp: nth_list_update)
qed

lemma rise_samples_ok:
  assumes "ix + n \<le> length inp" and "w \<le> ox" and "ox + n \<le> length out + w" and "n \<le> length window"
  shows "\<exists>out'. rise_samples add mul window w inp ix n ox out = Inr out' \<and> length out' = length out \<and>
    (\<forall>t < length out. out' ! t = (if ox \<le> t + w \<and> t + w < ox + n then add (out ! t) (mul (inp ! (ix + (t + w - ox))) (window ! (t + w - ox))) else out ! t))"
  using assms
proof (induction n)
  case 0
  then show ?case by (auto simp: rise_samples_def)
next
  case (Suc n)
  then obtain out1 where o: "rise_samples add mul window w inp ix n ox out = Inr out1" "length out1 = length out"
    "\<forall>t < length out. out1 ! t = (if ox \<le> t + w \<and> t + w < ox + n then add (out ! t) (mul (inp ! (ix + (t + w - ox))) (window ! (t + w - ox))) else out ! t)" by auto
  have here: "ox + n - w < length out" "out1 ! (ox + n - w) = out ! (ox + n - w)" using o(3) Suc.prems by auto
  then have "rise_samples add mul window w inp ix (Suc n) ox out =
      Inr (out1[ox + n - w := add (out ! (ox + n - w)) (mul (inp ! (ix + n)) (window ! n))])"
    using o(1,2) Suc.prems by (simp add: rise_samples_def for_each_append)
  moreover have "(ox \<le> t + w \<and> t + w < ox + Suc n) = (ox \<le> t + w \<and> t + w < ox + n \<or> t = ox + n - w)" if "t < length out" for t
    using Suc.prems by auto
  ultimately show ?case using o(2,3) here Suc.prems by (auto simp: nth_list_update)
qed

section \<open>What a frame becomes\<close>

text \<open>
  The symbol \<open>k\<close> (0 is the null symbol), its length and where it begins in the output. \<open>extended k q\<close> is the
  symbol continued periodically; \<open>q\<close> counts from \<open>windowOverlap\<close> samples before its beginning.
\<close>

definition symbol_length :: "'w guard_params \<Rightarrow> nat \<Rightarrow> nat" where
  "symbol_length p k = (if k = 0 then gp_nullSize p else gp_symSize p)"

definition symbol_start :: "'w guard_params \<Rightarrow> nat \<Rightarrow> nat" where
  "symbol_start p k = (if k = 0 then 0 else gp_nullSize p + (k - 1) * gp_symSize p)"

definition extended :: "'w guard_params \<Rightarrow> 'a list \<Rightarrow> nat \<Rightarrow> nat \<Rightarrow> 'a" where
  "extended p inp k q =
     inp ! (k * gp_spacing p + (q + 2 * gp_spacing p - symbol_length p k - gp_windowOverlap p) mod gp_spacing p)"

text \<open>Sample \<open>j\<close> of symbol \<open>k\<close> in the output: around a boundary the falling and the rising symbol are added.\<close>

definition guard_sample :: "('a \<Rightarrow> 'a \<Rightarrow> 'a) \<Rightarrow> ('a \<Rightarrow> 'w \<Rightarrow> 'a) \<Rightarrow> 'w guard_params \<Rightarrow> 'a list \<Rightarrow> nat \<Rightarrow> nat \<Rightarrow> 'a" where
  "guard_sample add mul p inp k j =
     (let w = gp_windowOverlap p; n = symbol_length p k in
      if 0 < k \<and> j < w
      then add (mul (extended p inp (k - 1) (symbol_length p (k - 1) + w + j)) (gp_window p ! (w - 1 - j)))
               (mul (extended p inp k (j + w)) (gp_window p ! (j + w)))
      else if k < gp_nbSymbols p \<and> n \<le> j + w
      then add (mul (extended p inp k (j + w)) (gp_window p ! (w - 1 + n - j)))
               (mul (extended p inp (k + 1) (j + w - n)) (gp_window p ! (j + w - n)))
      else extended p inp k (j + w))"

definition guard_ok :: "'w guard_params \<Rightarrow> bool" where
  "guard_ok p =
     (gp_spacing p \<le> gp_nullSize p \<and> gp_nullSize p \<le> 2 * gp_spacing p \<and>
      gp_spacing p < gp_symSize p \<and> gp_symSize p \<le> 2 * gp_spacing p \<and>
      gp_windowOverlap p + gp_spacing p \<le> gp_symSize p \<and> gp_windowOverlap p + gp_symSize p \<le> 2 * gp_spacing p \<and>
      length (gp_window p) = 2 * gp_windowOverlap p)"

lemma extended_at:
  assumes "guard_ok p" and "q + 2 * gp_spacing p - symbol_length p k - gp_windowOverlap p = i + c * gp_spacing p" and "i < gp_spacing p"
  shows "extended p inp k q = inp ! (k * gp_spacing p + i)"
  unfolding extended_def assms(2) using assms(3) by simp

text \<open>What the second part of a symbol holds before the next one is added.\<close>

definition falling :: "('a \<Rightarrow> 'w \<Rightarrow> 'a) \<Rightarrow> 'w guard_params \<Rightarrow> 'a list \<Rightarrow> nat \<Rightarrow> nat \<Rightarrow> 'a" where
  "falling mul p inp k j =
     (if k < gp_nbSymbols p \<and> symbol_length p k \<le> j + gp_windowOverlap p
      then mul (extended p inp k (j + gp_windowOverlap p)) (gp_window p ! (gp_windowOverlap p - 1 + symbol_length p k - j))
      else extended p inp k (j + gp_windowOverlap p))"

lemma null_windowed:
  assumes ok: "guard_ok p" and len: "gp_spacing p \<le> length inp" "gp_nullSize p + gp_symSize p \<le> length out" and nb: "0 < gp_nbSymbols p"
  shows "\<exists>out'. guard_null mul p inp out = Inr out' \<and> length out' = length out \<and>
    (\<forall>j < gp_nullSize p + gp_windowOverlap p. out' ! j = falling mul p inp 0 j)"
proof -
  obtain w n s pre a b where v: "gp_windowOverlap p = w" "gp_nullSize p = n" "gp_spacing p = s" "pre + s = n" "a + pre = s" "b + w = s"
    and wl: "w \<le> gp_symSize p" "length (gp_window p) = 2 * w"
  proof
    show "(gp_nullSize p - gp_spacing p) + gp_spacing p = gp_nullSize p"
      "(2 * gp_spacing p - gp_nullSize p) + (gp_nullSize p - gp_spacing p) = gp_spacing p"
      "(gp_spacing p - gp_windowOverlap p) + gp_windowOverlap p = gp_spacing p"
      "gp_windowOverlap p \<le> gp_symSize p" "length (gp_window p) = 2 * gp_windowOverlap p"
      using ok by (auto simp: guard_ok_def)
  qed (rule refl)+
  have len': "s \<le> length inp" "n + w \<le> length out" using len wl(1) v by auto
  have bounds: "a + pre \<le> length inp" "0 + pre \<le> length out" "0 + b \<le> length inp" "pre + b \<le> length out"
    "b + w \<le> length inp" "pre + b + w \<le> length out" "w \<le> 2 * w" "2 * w \<le> length (gp_window p)" "0 + w \<le> length inp"
    "n + w \<le> length out" "w \<le> length (gp_window p)"
    using v len' wl by auto
  obtain o1 where o1: "copy_samples inp a pre 0 out = Inr o1" "length o1 = length out"
    "\<forall>t < length out. o1 ! t = (if 0 \<le> t \<and> t < 0 + pre then inp ! (a + (t - 0)) else out ! t)"
    using copy_samples_ok [OF bounds(1,2)] by blast
  obtain o2 where o2: "copy_samples inp 0 b pre o1 = Inr o2" "length o2 = length out"
    "\<forall>t < length out. o2 ! t = (if pre \<le> t \<and> t < pre + b then inp ! (0 + (t - pre)) else o1 ! t)"
    using copy_samples_ok [OF bounds(3), of pre o1] bounds(4) unfolding o1(2) by blast
  obtain o3 where o3: "fall_samples mul (gp_window p) (2 * w) inp b w (pre + b) o2 = Inr o3" "length o3 = length out"
    "\<forall>t < length out. o3 ! t = (if pre + b \<le> t \<and> t < pre + b + w
       then mul (inp ! (b + (t - (pre + b)))) (gp_window p ! (2 * w - (t - (pre + b) + 1))) else o2 ! t)"
    using fall_samples_ok [OF bounds(5), of "pre + b" o2 "2 * w" "gp_window p" mul] bounds(6-8) unfolding o2(2) by blast
  obtain o4 where o4: "fall_samples mul (gp_window p) w inp 0 w n o3 = Inr o4" "length o4 = length out"
    "\<forall>t < length out. o4 ! t = (if n \<le> t \<and> t < n + w
       then mul (inp ! (0 + (t - n))) (gp_window p ! (w - (t - n + 1))) else o3 ! t)"
    using fall_samples_ok [OF bounds(9), of n o3 w "gp_window p" mul] bounds(10,11) unfolding o3(2) by blast
  have "usub n s = pre" "usub s pre = a" "usub s w = b" "usub (pre + s) w = pre + b" "pre + s = n" using v by (auto simp: usub_def)
  then have run: "guard_null mul p inp out = Inr o4"
    unfolding guard_null_def Let_def v(1-3) by (simp add: o1(1) o2(1) o3(1) o4(1))
  have "o4 ! j = falling mul p inp 0 j" if j: "j < n + w" for j
  proof -
    have jl: "j < length out" using j len' by linarith
    note val = o1(3) [rule_format, OF jl] o2(3) [rule_format, OF jl] o3(3) [rule_format, OF jl] o4(3) [rule_format, OF jl]
    have sl: "symbol_length p 0 = n" by (simp add: symbol_length_def v)
    consider "j < pre" | "pre \<le> j" "j < n" | "n \<le> j" by linarith
    then show ?thesis
    proof cases
      case 1
      have "extended p inp 0 (j + w) = inp ! (0 * s + (a + j))"
        unfolding v(3) [symmetric] by (rule extended_at [OF ok, where c = 0]) (use 1 v sl in auto)
      then show ?thesis using val 1 v j by (auto simp: falling_def sl)
    next
      case 2
      have "extended p inp 0 (j + w) = inp ! (0 * s + (j - pre))"
        unfolding v(3) [symmetric] by (rule extended_at [OF ok, where c = 1]) (use 2 v sl in auto)
      then have e: "extended p inp 0 (j + w) = inp ! (j - pre)" by simp
      have "j < pre + b \<or> b + (j - (pre + b)) = j - pre \<and> 2 * w - (j - (pre + b) + 1) = w - 1 + n - j" using 2 v by auto
      then show ?thesis using val 2 v nb by (auto simp: falling_def sl e)
    next
      case 3
      have "extended p inp 0 (j + w) = inp ! (0 * s + (j - n))"
        unfolding v(3) [symmetric] by (rule extended_at [OF ok, where c = 2]) (use 3 v sl j in auto)
      then have e: "extended p inp 0 (j + w) = inp ! (j - n)" by simp
      have "w - (j - n + 1) = w - 1 + n - j" using 3 j by auto
      then show ?thesis using val 3 v j nb by (auto simp: falling_def sl e)
    qed
  qed
  then have "\<forall>j < n + w. o4 ! j = falling mul p inp 0 j" by blast
  then show ?thesis unfolding v(1,2) using run o4(2) by (intro exI [of _ o4]) simp
qed

lemma symbol_windowed:
  assumes ok: "guard_ok p" and k: "0 < k" "k \<le> gp_nbSymbols p" and ip: "ip = k * gp_spacing p" "ip + gp_spacing p \<le> length inp"
    and op: "gp_windowOverlap p \<le> op" "op + gp_symSize p + (if k < gp_nbSymbols p then gp_windowOverlap p else 0) \<le> length out"
  shows "\<exists>out'. guard_symbol add mul p (gp_nbSymbols p \<le> k) inp ip op out = Inr out' \<and> length out' = length out \<and>
    (\<forall>t < length out. out' ! t =
       (if op \<le> t + gp_windowOverlap p \<and> t < op + gp_windowOverlap p
        then add (out ! t) (mul (extended p inp k (t + gp_windowOverlap p - op)) (gp_window p ! (t + gp_windowOverlap p - op)))
        else if op + gp_windowOverlap p \<le> t \<and> t < op + gp_symSize p + (if k < gp_nbSymbols p then gp_windowOverlap p else 0)
        then falling mul p inp k (t - op) else out ! t))"
proof -
  obtain w m s a pre r b where v: "gp_windowOverlap p = w" "gp_symSize p = m" "gp_spacing p = s"
      "a + w + m = 2 * s" "pre + s = m" "r + w = pre" "b + w = s" and wl: "length (gp_window p) = 2 * w" and s0: "pre \<le> s"
  proof
    show "(2 * gp_spacing p - gp_symSize p - gp_windowOverlap p) + gp_windowOverlap p + gp_symSize p = 2 * gp_spacing p"
      "(gp_symSize p - gp_spacing p) + gp_spacing p = gp_symSize p"
      "(gp_symSize p - gp_spacing p - gp_windowOverlap p) + gp_windowOverlap p = gp_symSize p - gp_spacing p"
      "(gp_spacing p - gp_windowOverlap p) + gp_windowOverlap p = gp_spacing p"
      "length (gp_window p) = 2 * gp_windowOverlap p" "gp_symSize p - gp_spacing p \<le> gp_spacing p"
      using ok by (auto simp: guard_ok_def)
  qed (rule refl)+
  have sl: "symbol_length p k = m" using k v by (simp add: symbol_length_def)
  let ?last = "\<not> k < gp_nbSymbols p"
  have bounds: "ip + a + 2 * w \<le> length inp" "w \<le> op" "op + 2 * w \<le> length out + w" "2 * w \<le> length (gp_window p)"
    "ip + (a + 2 * w) + r \<le> length inp" "op + w + r \<le> length out" "ip + s \<le> length inp" "ip + b \<le> length inp" "op + pre + s \<le> length out"
    "op + pre + b \<le> length out" "ip + b + w \<le> length inp" "op + pre + b + w \<le> length out" "w \<le> 2 * w" "ip + w \<le> length inp"
    "w \<le> length (gp_window p)"
    using v op ip wl s0 by auto
  have u: "usub (2 * s) m = a + w" "usub (a + w) w = a" "usub m s = pre" "usub pre w = r" "usub s w = b" "usub m w = pre + b"
    using v by (auto simp: usub_def)
  have e: "a + w + w = a + 2 * w" and n: "(if a < a + 2 * w then a + 2 * w - a else 0) = 2 * w" by simp_all
  have ext: "extended p inp k q = inp ! (ip + i)" if "q + 2 * s = i + c * s + m + w" "i < s" for q i c
    unfolding ip(1) by (rule extended_at [OF ok]) (use that v sl in auto)
  obtain o1 where o1: "rise_samples add mul (gp_window p) w inp (ip + a) (2 * w) op out = Inr o1" "length o1 = length out"
    "\<forall>t < length out. o1 ! t = (if op \<le> t + w \<and> t + w < op + 2 * w
       then add (out ! t) (mul (inp ! (ip + a + (t + w - op))) (gp_window p ! (t + w - op))) else out ! t)"
    using rise_samples_ok [OF bounds(1-4), of add mul] by blast
  obtain o2 where o2: "copy_samples inp (ip + (a + 2 * w)) r (op + w) o1 = Inr o2" "length o2 = length out"
    "\<forall>t < length out. o2 ! t = (if op + w \<le> t \<and> t < op + w + r then inp ! (ip + (a + 2 * w) + (t - (op + w))) else o1 ! t)"
    using copy_samples_ok [OF bounds(5), of "op + w" o1] bounds(6) unfolding o1(2) by blast
  have front: "o2 ! t = (if op \<le> t + w \<and> t < op + w
        then add (out ! t) (mul (extended p inp k (t + w - op)) (gp_window p ! (t + w - op)))
        else if op + w \<le> t \<and> t < op + pre then extended p inp k (t - op + w) else out ! t)" if t: "t < length out" for t
  proof -
    consider "op \<le> t + w" "t < op + w" | "op + w \<le> t" "t < op + pre" | "t + w < op" | "op + pre \<le> t" by linarith
    then show ?thesis
    proof cases
      case 1
      have "extended p inp k (t + w - op) = inp ! (ip + (a + (t + w - op)))" by (rule ext [where c = 0]) (use 1 v s0 in auto)
      then show ?thesis using o1(3) [rule_format, OF t] o2(3) [rule_format, OF t] 1 v by (simp add: add.assoc)
    next
      case 2
      have "extended p inp k (t - op + w) = inp ! (ip + (a + 2 * w + (t - (op + w))))" by (rule ext [where c = 0]) (use 2 v s0 in auto)
      then show ?thesis using o1(3) [rule_format, OF t] o2(3) [rule_format, OF t] 2 v by (simp add: add.assoc)
    next
      case 3
      then show ?thesis using o1(3) [rule_format, OF t] o2(3) [rule_format, OF t] v by simp
    next
      case 4
      then show ?thesis using o1(3) [rule_format, OF t] o2(3) [rule_format, OF t] v by simp
    qed
  qed
  show ?thesis
  proof (cases ?last)
    case last: True
    obtain o3 where o3: "copy_samples inp ip s (op + pre) o2 = Inr o3" "length o3 = length out"
      "\<forall>t < length out. o3 ! t = (if op + pre \<le> t \<and> t < op + pre + s then inp ! (ip + (t - (op + pre))) else o2 ! t)"
      using copy_samples_ok [OF bounds(7), of "op + pre" o2] bounds(9) unfolding o2(2) by blast
    have run: "guard_symbol add mul p (gp_nbSymbols p \<le> k) inp ip op out = Inr o3"
      unfolding guard_symbol_def Let_def v(1-3) u e n o1(1) bindE_simps o2(1) using last o3(1) by simp
    have "o3 ! t =
       (if op \<le> t + w \<and> t < op + w
        then add (out ! t) (mul (extended p inp k (t + w - op)) (gp_window p ! (t + w - op)))
        else if op + w \<le> t \<and> t < op + m + 0 then falling mul p inp k (t - op) else out ! t)" if t: "t < length out" for t
    proof (cases "op + pre \<le> t \<and> t < op + m")
      case True
      have "extended p inp k (t - op + w) = inp ! (ip + (t - (op + pre)))" by (rule ext [where c = 1]) (use True v in auto)
      then show ?thesis using True o3(3) [rule_format, OF t] v last by (auto simp: falling_def)
    next
      case False
      then show ?thesis using o3(3) [rule_format, OF t] front [OF t] v last by (auto simp: falling_def)
    qed
    then show ?thesis unfolding v(1,2) using run o3(2) last by (intro exI [of _ o3]) simp
  next
    case not_last: False
    then have opw: "op + m + w \<le> length out" using op v by simp
    obtain o3 where o3: "copy_samples inp ip b (op + pre) o2 = Inr o3" "length o3 = length out"
      "\<forall>t < length out. o3 ! t = (if op + pre \<le> t \<and> t < op + pre + b then inp ! (ip + (t - (op + pre))) else o2 ! t)"
      using copy_samples_ok [OF bounds(8), of "op + pre" o2] bounds(10) unfolding o2(2) by blast
    obtain o4 where o4: "fall_samples mul (gp_window p) (2 * w) inp (ip + b) w (op + (pre + b)) o3 = Inr o4" "length o4 = length out"
      "\<forall>t < length out. o4 ! t = (if op + (pre + b) \<le> t \<and> t < op + (pre + b) + w
         then mul (inp ! (ip + b + (t - (op + (pre + b))))) (gp_window p ! (2 * w - (t - (op + (pre + b)) + 1))) else o3 ! t)"
      using fall_samples_ok [OF bounds(11), of "op + (pre + b)" o3 "2 * w" "gp_window p" mul] bounds(12,13,4) unfolding o3(2)
      by (metis add.assoc)
    obtain o5 where o5: "fall_samples mul (gp_window p) w inp ip w (op + m) o4 = Inr o5" "length o5 = length out"
      "\<forall>t < length out. o5 ! t = (if op + m \<le> t \<and> t < op + m + w
         then mul (inp ! (ip + (t - (op + m)))) (gp_window p ! (w - (t - (op + m) + 1))) else o4 ! t)"
      using fall_samples_ok [OF bounds(14), of "op + m" o4 w "gp_window p" mul] opw bounds(15) unfolding o4(2) by blast
    have run: "guard_symbol add mul p (gp_nbSymbols p \<le> k) inp ip op out = Inr o5"
      unfolding guard_symbol_def Let_def v(1-3) u e n o1(1) bindE_simps o2(1) o3(1) o4(1) using not_last o5(1) by simp
    have "o5 ! t =
       (if op \<le> t + w \<and> t < op + w
        then add (out ! t) (mul (extended p inp k (t + w - op)) (gp_window p ! (t + w - op)))
        else if op + w \<le> t \<and> t < op + m + w then falling mul p inp k (t - op) else out ! t)" if t: "t < length out" for t
    proof -
      note val = o3(3) [rule_format, OF t] o4(3) [rule_format, OF t] o5(3) [rule_format, OF t] front [OF t]
      consider "t < op + pre" | "op + pre \<le> t" "t < op + m" | "op + m \<le> t" "t < op + m + w" | "op + m + w \<le> t" by linarith
      then show ?thesis
      proof cases
        case 1
        then show ?thesis using val v by (auto simp: falling_def sl)
      next
        case 2
        have e: "extended p inp k (t - op + w) = inp ! (ip + (t - (op + pre)))" by (rule ext [where c = 1]) (use 2 v in auto)
        have o: "\<not> (op \<le> t + w \<and> t < op + w)" "op + w \<le> t \<and> t < op + m + w" "\<not> (op + m \<le> t \<and> t < op + m + w)" using 2 v by auto
        show ?thesis
        proof (cases "t < op + (pre + b)")
          case True
          then have "o5 ! t = inp ! (ip + (t - (op + pre)))" "\<not> m \<le> t - op + w" using val(1-3) 2 v by auto
          then show ?thesis using o e by (simp add: falling_def sl v)
        next
          case False
          then have i: "b + (t - (op + (pre + b))) = t - (op + pre)" "2 * w - (t - (op + (pre + b)) + 1) = w - 1 + m - (t - op)"
            "op + (pre + b) \<le> t \<and> t < op + (pre + b) + w" "m \<le> t - op + w" using 2 v by auto
          have "o5 ! t = mul (inp ! (ip + b + (t - (op + (pre + b))))) (gp_window p ! (2 * w - (t - (op + (pre + b)) + 1)))"
            using val(2,3) o(3) i(3) by simp
          then have "o5 ! t = mul (inp ! (ip + (t - (op + pre)))) (gp_window p ! (w - 1 + m - (t - op)))" by (simp only: i(1,2) add.assoc)
          then show ?thesis using o i(4) e not_last by (simp add: falling_def sl v)
        qed
      next
        case 3
        have e: "extended p inp k (t - op + w) = inp ! (ip + (t - (op + m)))" by (rule ext [where c = 2]) (use 3 v in auto)
        have o: "\<not> (op \<le> t + w \<and> t < op + w)" "op + w \<le> t \<and> t < op + m + w" "m \<le> t - op + w"
          "w - (t - (op + m) + 1) = w - 1 + m - (t - op)" using 3 v by auto
        have "o5 ! t = mul (inp ! (ip + (t - (op + m)))) (gp_window p ! (w - (t - (op + m) + 1)))" using val(3) 3 by simp
        then show ?thesis using o e not_last by (simp add: falling_def sl v)
      next
        case 4
        then show ?thesis using val v by auto
      qed
    qed
    then show ?thesis unfolding v(1,2) using run o5(2) not_last by (intro exI [of _ o5]) simp
  qed
qed

section \<open>The whole frame\<close>

lemma symbol_start_Suc: "symbol_start p (Suc k) = symbol_start p k + symbol_length p k"
  by (cases k) (simp_all add: symbol_start_def symbol_length_def)

lemma symbol_length_overlap: "guard_ok p \<Longrightarrow> 2 * gp_windowOverlap p \<le> symbol_length p k \<or> k = 0 \<and> gp_windowOverlap p \<le> symbol_length p k"
  by (auto simp: symbol_length_def guard_ok_def)

text \<open>The symbols up to \<open>k\<close> are written, \<open>k\<close> with its falling end where another symbol follows.\<close>

definition written ::
    "('a \<Rightarrow> 'a \<Rightarrow> 'a) \<Rightarrow> ('a \<Rightarrow> 'w \<Rightarrow> 'a) \<Rightarrow> 'w guard_params \<Rightarrow> 'a list \<Rightarrow> nat \<Rightarrow> 'a list \<Rightarrow> bool" where
  "written add mul p inp k out =
     (length out = symbol_start p (Suc (gp_nbSymbols p)) \<and>
      (\<forall>i < k. \<forall>j < symbol_length p i. out ! (symbol_start p i + j) = guard_sample add mul p inp i j) \<and>
      (\<forall>j < symbol_length p k + (if k < gp_nbSymbols p then gp_windowOverlap p else 0).
         out ! (symbol_start p k + j) =
           (if 0 < k \<and> j < gp_windowOverlap p then guard_sample add mul p inp k j else falling mul p inp k j)))"

lemma symbol_start_mono: "i \<le> k \<Longrightarrow> symbol_start p i \<le> symbol_start p k"
  by (induction k) (auto simp: symbol_start_Suc le_Suc_eq)

lemma symbol_start_less: "i < k \<Longrightarrow> symbol_start p i + symbol_length p i \<le> symbol_start p k"
  using symbol_start_mono [of "Suc i" k p] by (simp add: symbol_start_Suc)

lemma written_step:
  assumes ok: "guard_ok p" and k: "k < gp_nbSymbols p" and W: "written add mul p inp k out"
    and len: "length inp = (gp_nbSymbols p + 1) * gp_spacing p"
  shows "\<exists>out'. guard_symbol add mul p (gp_nbSymbols p \<le> k + 1) inp (gp_spacing p + k * gp_spacing p) (gp_nullSize p + k * gp_symSize p) out = Inr out' \<and>
    written add mul p inp (Suc k) out'"
proof -
  let ?w = "gp_windowOverlap p" and ?op = "symbol_start p (Suc k)" and ?n = "symbol_length p k"
  have op: "gp_nullSize p + k * gp_symSize p = ?op" "gp_spacing p + k * gp_spacing p = Suc k * gp_spacing p" by (simp_all add: symbol_start_def)
  have sl: "symbol_length p (Suc k) = gp_symSize p" by (simp add: symbol_length_def)
  have next_op: "?op = symbol_start p k + ?n" by (rule symbol_start_Suc)
  have wn: "?w \<le> ?n" "0 < k \<Longrightarrow> 2 * ?w \<le> ?n" "?w \<le> gp_symSize p" using ok by (auto simp: symbol_length_def guard_ok_def)
  have lo: "length out = symbol_start p (Suc (gp_nbSymbols p))" using W by (simp add: written_def)
  have ends: "?op + gp_symSize p + (if Suc k < gp_nbSymbols p then ?w else 0) \<le> length out"
  proof (cases "Suc k < gp_nbSymbols p")
    case True
    have "symbol_start p (Suc (Suc k)) + symbol_length p (Suc (Suc k)) \<le> symbol_start p (Suc (gp_nbSymbols p))"
      using True by (intro symbol_start_less) simp
    then show ?thesis using True wn(3) lo by (simp add: symbol_start_Suc [of p "Suc k"] sl symbol_length_def)
  next
    case False
    then show ?thesis using k lo symbol_start_less [of "Suc k" "Suc (gp_nbSymbols p)" p] by (simp add: sl)
  qed
  have "Suc k * gp_spacing p + gp_spacing p \<le> length inp" using mult_le_mono1 [of "Suc (Suc k)" "Suc (gp_nbSymbols p)" "gp_spacing p"] k len by simp
  then obtain out' where o: "guard_symbol add mul p (gp_nbSymbols p \<le> Suc k) inp (Suc k * gp_spacing p) ?op out = Inr out'" "length out' = length out"
    "\<And>t. t < length out \<Longrightarrow> out' ! t =
       (if ?op \<le> t + ?w \<and> t < ?op + ?w
        then add (out ! t) (mul (extended p inp (Suc k) (t + ?w - ?op)) (gp_window p ! (t + ?w - ?op)))
        else if ?op + ?w \<le> t \<and> t < ?op + gp_symSize p + (if Suc k < gp_nbSymbols p then ?w else 0)
        then falling mul p inp (Suc k) (t - ?op) else out ! t)"
    using symbol_windowed [OF ok, of "Suc k" "Suc k * gp_spacing p" inp ?op out add mul] k ends wn(1) next_op by auto
  have part: "out ! (symbol_start p k + j) = (if 0 < k \<and> j < ?w then guard_sample add mul p inp k j else falling mul p inp k j)"
    if "j < ?n + ?w" for j using W that k by (simp add: written_def)
  have "out' ! (symbol_start p i + j) = guard_sample add mul p inp i j" if i: "i < Suc k" "j < symbol_length p i" for i j
  proof (cases "i < k")
    case True
    then have before: "symbol_start p i + j + ?w < ?op" using symbol_start_less [OF True, of p] i(2) next_op wn(1) by linarith
    then have "out' ! (symbol_start p i + j) = out ! (symbol_start p i + j)" using o(3) lo ends by simp
    then show ?thesis using W True i(2) by (simp add: written_def)
  next
    case False
    then have "i = k" using i(1) by simp
    then have i: "i = k" "j < ?n" using i(2) by simp_all
    have t: "symbol_start p k + j < length out" using i(2) ends next_op by linarith
    show ?thesis
    proof (cases "?n \<le> j + ?w")
      case False
      then have "out' ! (symbol_start p k + j) = out ! (symbol_start p k + j)" using o(3) [OF t] next_op by simp
      then show ?thesis using part [of j] False i by (auto simp: guard_sample_def falling_def)
    next
      case True
      have early: "\<not> (0 < k \<and> j < ?w)" using True wn(2) by auto
      have "out' ! (symbol_start p k + j) = add (falling mul p inp k j) (mul (extended p inp (Suc k) (j + ?w - ?n)) (gp_window p ! (j + ?w - ?n)))"
        using o(3) [OF t] next_op True i(2) part [of j] early by (simp add: add.assoc)
      then show ?thesis using early True i k by (auto simp: guard_sample_def falling_def Let_def)
    qed
  qed
  moreover have "out' ! (?op + j) = (if j < ?w then guard_sample add mul p inp (Suc k) j else falling mul p inp (Suc k) j)"
    if j: "j < gp_symSize p + (if Suc k < gp_nbSymbols p then ?w else 0)" for j
  proof (cases "j < ?w")
    case False
    then show ?thesis using o(3) [of "?op + j"] j ends by (auto split: if_splits)
  next
    case True
    have t: "?op + j < length out" using True wn(3) ends by linarith
    have "out ! (?op + j) = falling mul p inp k (?n + j)" using part [of "?n + j"] True wn(1) by (auto simp: next_op add.assoc)
    also have "\<dots> = mul (extended p inp k (?n + ?w + j)) (gp_window p ! (?w - 1 - j))"
      using k by (simp add: falling_def add.assoc add.left_commute add.commute)
    finally show ?thesis using o(3) [OF t] True by (simp add: guard_sample_def Let_def)
  qed
  ultimately have "written add mul p inp (Suc k) out'" using o(2) lo by (simp add: written_def sl)
  then show ?thesis using o(1) unfolding op by auto
qed

lemma frame_windowed:
  assumes ok: "guard_ok p" and W: "written add mul p inp 0 out" and len: "length inp = (gp_nbSymbols p + 1) * gp_spacing p"
    and n: "n \<le> gp_nbSymbols p"
  shows "\<exists>out'. for_each (\<lambda>sym_ix. guard_symbol add mul p (gp_nbSymbols p \<le> sym_ix + 1) inp
       (gp_spacing p + sym_ix * gp_spacing p) (gp_nullSize p + sym_ix * gp_symSize p)) [0..<n] out = Inr out' \<and> written add mul p inp n out'"
  using n
proof (induction n)
  case 0
  then show ?case using W by simp
next
  case (Suc n)
  then obtain o1 where o1: "for_each (\<lambda>sym_ix. guard_symbol add mul p (gp_nbSymbols p \<le> sym_ix + 1) inp
       (gp_spacing p + sym_ix * gp_spacing p) (gp_nullSize p + sym_ix * gp_symSize p)) [0..<n] out = Inr o1" "written add mul p inp n o1" by auto
  from written_step [OF ok _ o1(2) len] Suc.prems obtain o2 where
    "guard_symbol add mul p (gp_nbSymbols p \<le> n + 1) inp (gp_spacing p + n * gp_spacing p) (gp_nullSize p + n * gp_symSize p) o1 = Inr o2"
    "written add mul p inp (Suc n) o2" by auto
  then show ?case using o1(1) by (simp add: for_each_append)
qed

text \<open>Without a window: two copies per symbol.\<close>

lemma plain_copies:
  assumes ok: "guard_ok p" and w: "gp_windowOverlap p = 0" and m: "m = symbol_length p k" and ip: "ip = k * gp_spacing p" "ip + gp_spacing p \<le> length inp"
    and op: "op + m \<le> length out"
  shows "\<exists>out'. bindE (copy_samples inp (ip + usub (2 * gp_spacing p) m) (usub m (gp_spacing p)) op out)
       (copy_samples inp ip (gp_spacing p) (op + usub m (gp_spacing p))) = Inr out' \<and> length out' = length out \<and>
    (\<forall>t < length out. out' ! t = (if op \<le> t \<and> t < op + m then extended p inp k (t - op) else out ! t))"
proof -
  obtain s a pre where v: "gp_spacing p = s" "a + m = 2 * s" "pre + s = m" and s0: "pre \<le> s"
  proof
    show "(2 * gp_spacing p - m) + m = 2 * gp_spacing p" "(m - gp_spacing p) + gp_spacing p = m" "m - gp_spacing p \<le> gp_spacing p"
      using ok m by (auto simp: guard_ok_def symbol_length_def)
  qed (rule refl)
  have u: "usub (2 * s) m = a" "usub m s = pre" using v by (auto simp: usub_def)
  have ext: "extended p inp k q = inp ! (ip + i)" if "q + 2 * s = i + c * s + m" "i < s" for q i c
    unfolding ip(1) by (rule extended_at [OF ok]) (use that v w m in auto)
  have bounds: "ip + a + pre \<le> length inp" "op + pre \<le> length out" "ip + s \<le> length inp" "op + pre + s \<le> length out" using v ip op by auto
  obtain o1 where o1: "copy_samples inp (ip + a) pre op out = Inr o1" "length o1 = length out"
    "\<forall>t < length out. o1 ! t = (if op \<le> t \<and> t < op + pre then inp ! (ip + a + (t - op)) else out ! t)"
    using copy_samples_ok [OF bounds(1,2)] by blast
  obtain o2 where o2: "copy_samples inp ip s (op + pre) o1 = Inr o2" "length o2 = length out"
    "\<forall>t < length out. o2 ! t = (if op + pre \<le> t \<and> t < op + pre + s then inp ! (ip + (t - (op + pre))) else o1 ! t)"
    using copy_samples_ok [OF bounds(3), of "op + pre" o1] bounds(4) unfolding o1(2) by blast
  have "o2 ! t = (if op \<le> t \<and> t < op + m then extended p inp k (t - op) else out ! t)" if t: "t < length out" for t
  proof -
    note val = o1(3) [rule_format, OF t] o2(3) [rule_format, OF t]
    consider "op \<le> t" "t < op + pre" | "op + pre \<le> t" "t < op + m" | "t < op \<or> op + m \<le> t" by linarith
    then show ?thesis
    proof cases
      case 1
      have "extended p inp k (t - op) = inp ! (ip + (a + (t - op)))" by (rule ext [where c = 0]) (use 1 v s0 in auto)
      then show ?thesis using val 1 v by (simp add: add.assoc)
    next
      case 2
      have "extended p inp k (t - op) = inp ! (ip + (t - (op + pre)))" by (rule ext [where c = 1]) (use 2 v in auto)
      then show ?thesis using val 2 v by (simp add: add.assoc)
    next
      case 3
      then show ?thesis using val v by auto
    qed
  qed
  then show ?thesis unfolding v(1) u using o1(1) o2(1,2) by simp
qed

lemma plain_step:
  assumes ok: "guard_ok p" and w: "gp_windowOverlap p = 0" and k: "k < gp_nbSymbols p" and W: "written add mul p inp k out"
    and len: "length inp = (gp_nbSymbols p + 1) * gp_spacing p"
  shows "\<exists>out'. plain_symbol p inp (gp_spacing p + k * gp_spacing p) (gp_nullSize p + k * gp_symSize p) out = Inr out' \<and>
    written add mul p inp (Suc k) out'"
proof -
  let ?op = "symbol_start p (Suc k)"
  have op: "gp_nullSize p + k * gp_symSize p = ?op" "gp_spacing p + k * gp_spacing p = Suc k * gp_spacing p" by (simp_all add: symbol_start_def)
  have sl: "symbol_length p (Suc k) = gp_symSize p" by (simp add: symbol_length_def)
  have lo: "length out = symbol_start p (Suc (gp_nbSymbols p))" using W by (simp add: written_def)
  have ends: "?op + gp_symSize p \<le> length out" using symbol_start_less [of "Suc k" "Suc (gp_nbSymbols p)" p] k lo by (simp add: sl)
  have "Suc k * gp_spacing p + gp_spacing p \<le> length inp"
    using mult_le_mono1 [of "Suc (Suc k)" "Suc (gp_nbSymbols p)" "gp_spacing p"] k len by simp
  then obtain out' where o: "plain_symbol p inp (Suc k * gp_spacing p) ?op out = Inr out'" "length out' = length out"
    "\<forall>t < length out. out' ! t = (if ?op \<le> t \<and> t < ?op + gp_symSize p then extended p inp (Suc k) (t - ?op) else out ! t)"
    using plain_copies [OF ok w sl [symmetric] refl _ ends] unfolding plain_symbol_def by blast
  have "out' ! (symbol_start p i + j) = guard_sample add mul p inp i j" if i: "i < Suc k" "j < symbol_length p i" for i j
  proof -
    have "symbol_start p i + j < ?op" using symbol_start_less [OF i(1), of p] i(2) by linarith
    then have "out' ! (symbol_start p i + j) = out ! (symbol_start p i + j)" using o(3) ends by simp
    then show ?thesis using W i w by (cases "i = k") (auto simp: written_def guard_sample_def falling_def)
  qed
  then have "written add mul p inp (Suc k) out'" using o(2,3) lo w ends by (auto simp: written_def sl falling_def)
  then show ?thesis using o(1) unfolding op by auto
qed

lemma frame_plain:
  assumes ok: "guard_ok p" and w: "gp_windowOverlap p = 0" and W: "written add mul p inp 0 out"
    and len: "length inp = (gp_nbSymbols p + 1) * gp_spacing p" and n: "n \<le> gp_nbSymbols p"
  shows "\<exists>out'. for_each (\<lambda>i. plain_symbol p inp (gp_spacing p + i * gp_spacing p) (gp_nullSize p + i * gp_symSize p)) [0..<n] out = Inr out' \<and>
    written add mul p inp n out'"
  using n
proof (induction n)
  case 0
  then show ?case using W by simp
next
  case (Suc n)
  then obtain o1 where o1: "for_each (\<lambda>i. plain_symbol p inp (gp_spacing p + i * gp_spacing p) (gp_nullSize p + i * gp_symSize p)) [0..<n] out = Inr o1"
    "written add mul p inp n o1" by auto
  from plain_step [OF ok w _ o1(2) len] Suc.prems obtain o2 where
    "plain_symbol p inp (gp_spacing p + n * gp_spacing p) (gp_nullSize p + n * gp_symSize p) o1 = Inr o2" "written add mul p inp (Suc n) o2" by auto
  then show ?case using o1(1) by (simp add: for_each_append)
qed

text \<open>A list whose parts are known.\<close>

lemma parts_concat:
  assumes "length out = symbol_start p n" and "\<forall>i < n. \<forall>j < symbol_length p i. out ! (symbol_start p i + j) = f i j"
  shows "out = concat (map (\<lambda>k. map (f k) [0..<symbol_length p k]) [0..<n])"
  using assms
proof (induction n arbitrary: out)
  case 0
  then show ?case by (simp add: symbol_start_def)
next
  case (Suc n)
  let ?a = "take (symbol_start p n) out"
  have l: "length ?a = symbol_start p n" using Suc.prems(1) by (simp add: symbol_start_Suc)
  have "?a ! (symbol_start p i + j) = f i j" if "i < n" "j < symbol_length p i" for i j
    using Suc.prems(2) that symbol_start_less [OF that(1), of p] by simp
  then have "?a = concat (map (\<lambda>k. map (f k) [0..<symbol_length p k]) [0..<n])" using Suc.IH [OF l] by blast
  moreover have "drop (symbol_start p n) out = map (f n) [0..<symbol_length p n]"
    using Suc.prems by (intro nth_equalityI) (simp_all add: symbol_start_Suc)
  ultimately show ?case by (simp add: append_eq_conv_conj) (metis append_take_drop_id)
qed

lemma guard_process_ok:
  assumes ok: "guard_ok p" and nb: "0 < gp_nbSymbols p" and len: "length inp = (gp_nbSymbols p + 1) * gp_spacing p" and "\<forall>n. length (fresh n) = n"
  shows "guard_process add mul fresh p inp =
    Inr (concat (map (\<lambda>k. map (guard_sample add mul p inp k) [0..<symbol_length p k]) [0..<gp_nbSymbols p + 1]))"
proof -
  let ?out = "fresh (gp_nullSize p + gp_nbSymbols p * gp_symSize p)"
  have lo: "length ?out = symbol_start p (Suc (gp_nbSymbols p))" using assms(4) by (simp add: symbol_start_def)
  have lo': "gp_nullSize p + gp_symSize p \<le> length ?out" using nb assms(4) by (cases "gp_nbSymbols p") auto
  have li: "gp_spacing p \<le> length inp" using len by simp
  have done_: "?thesis" if "guard_process add mul fresh p inp = Inr out'" "written add mul p inp (gp_nbSymbols p) out'" for out'
  proof -
    have "out' ! (symbol_start p i + j) = guard_sample add mul p inp i j" if "i < Suc (gp_nbSymbols p)" "j < symbol_length p i" for i j
      using that \<open>written add mul p inp (gp_nbSymbols p) out'\<close> nb
      by (cases "i = gp_nbSymbols p") (auto simp: written_def guard_sample_def falling_def)
    then show ?thesis using that parts_concat [of out' p "Suc (gp_nbSymbols p)" "guard_sample add mul p inp"] by (simp add: written_def)
  qed
  show ?thesis
  proof (cases "gp_windowOverlap p = 0")
    case False
    obtain o1 where o1: "guard_null mul p inp ?out = Inr o1" "length o1 = length ?out"
      "\<forall>j < gp_nullSize p + gp_windowOverlap p. o1 ! j = falling mul p inp 0 j" using null_windowed [OF ok li lo' nb, of mul] by blast
    then have "written add mul p inp 0 o1" using lo nb by (simp add: written_def symbol_start_def symbol_length_def)
    from frame_windowed [OF ok this len order_refl] obtain o2 where
      "for_each (\<lambda>sym_ix. guard_symbol add mul p (gp_nbSymbols p \<le> sym_ix + 1) inp
         (gp_spacing p + sym_ix * gp_spacing p) (gp_nullSize p + sym_ix * gp_symSize p)) [0..<gp_nbSymbols p] o1 = Inr o2"
      "written add mul p inp (gp_nbSymbols p) o2" by blast
    then show ?thesis using done_ [of o2] o1(1) False len by (simp add: guard_process_def Let_def)
  next
    case True
    obtain o1 where o1: "plain_null p inp ?out = Inr o1" "length o1 = length ?out"
      "\<forall>t < length ?out. o1 ! t = (if t < gp_nullSize p then extended p inp 0 t else ?out ! t)"
      using plain_copies [OF ok True, of "gp_nullSize p" 0 0 inp 0 ?out] li lo'
      by (auto simp: symbol_length_def plain_null_def)
    then have "written add mul p inp 0 o1" using lo lo' True nb by (auto simp: written_def symbol_start_def symbol_length_def falling_def)
    from frame_plain [OF ok True this len order_refl] obtain o2 where
      "for_each (\<lambda>i. plain_symbol p inp (gp_spacing p + i * gp_spacing p) (gp_nullSize p + i * gp_symSize p)) [0..<gp_nbSymbols p] o1 = Inr o2"
      "written add mul p inp (gp_nbSymbols p) o2" by blast
    then show ?thesis using done_ [of o2] o1(1) True len by (simp add: guard_process_def Let_def)
  qed
qed

section \<open>In the transmission modes\<close>

lemma inserter_params:
  assumes "setMode mode = Inr d" and "p = update_window raised_cosine w p0"
    and "gp_nbSymbols p0 = m_nbSymbols d" "gp_spacing p0 = m_spacing d" "gp_nullSize p0 = m_nullSize d" "gp_symSize p0 = m_symSize d"
  shows "gp_nbSymbols p = m_nbSymbols d" "gp_spacing p = m_spacing d" "gp_nullSize p = m_nullSize d" "gp_symSize p = m_symSize d"
    "gp_windowOverlap p = w" "0 < gp_nbSymbols p" "guard_ok p \<longleftrightarrow> w + m_spacing d \<le> m_symSize d"
    "(gp_nbSymbols p + 1) * gp_spacing p < 2 ^ 32" "gp_spacing p \<le> gp_symSize p" "gp_symSize p \<le> 2 * gp_spacing p"
  using assms by (auto simp: update_window_def setMode_def guard_ok_def split: if_splits)

text \<open>Too long a window: the rest of the cyclic prefix has a negative length.\<close>

lemma guard_symbol_overlong:
  assumes "gp_spacing p \<le> gp_symSize p" and "gp_symSize p \<le> 2 * gp_spacing p" and "gp_symSize p < gp_windowOverlap p + gp_spacing p"
    and "gp_windowOverlap p < 2 ^ 64" and "length inp < 2 ^ 32"
  shows "\<not> is_ok (guard_symbol add mul p last_symbol inp ip op out)"
proof -
  let ?e = "usub (2 * gp_spacing p) (gp_symSize p) + gp_windowOverlap p"
  let ?r = "usub (usub (gp_symSize p) (gp_spacing p)) (gp_windowOverlap p)"
  have "2 ^ 64 \<le> ?e + ?r" using assms(1-4) by (auto simp: usub_def)
  then have "memread inp (ip + ?e) ?r = Inl (UndefinedBehaviour ''read'')" using assms(5) by (simp add: memread_def)
  then show ?thesis by (auto simp: guard_symbol_def Let_def copy_samples_def bindE_def is_ok_def split: sum.splits)
qed

text \<open>
  C25. The guard intervals come out as intended. In every transmission mode, with any window length up to that of the
  guard interval, a frame of the right size is accepted, no access leaves the buffers, and the output consists of
  the null symbol and the data symbols at their full lengths, every sample as \<open>guard_sample\<close> says: the symbol
  continued periodically, so that its guard interval is a cyclic prefix, and within the window around each boundary
  the sum of the two neighbours' periodic continuations under the falling and the rising half of the window.
\<close>

theorem guard_interval_frame:
  assumes "setMode mode = Inr d" and "w + m_spacing d \<le> m_symSize d"
    and "GuardIntervalInserter raised_cosine (m_nbSymbols d) (m_spacing d) (m_nullSize d) (m_symSize d) w = Inr p"
    and "length inp = (m_nbSymbols d + 1) * m_spacing d" and "\<forall>n. length (fresh n) = n"
  shows "guard_process add mul fresh p inp =
    Inr (concat (map (\<lambda>k. map (guard_sample add mul p inp k) [0..<if k = 0 then m_nullSize d else m_symSize d]) [0..<m_nbSymbols d + 1]))"
proof -
  have "p = update_window raised_cosine w \<lparr>gp_nbSymbols = m_nbSymbols d, gp_spacing = m_spacing d, gp_nullSize = m_nullSize d,
      gp_symSize = m_symSize d, gp_windowOverlap = w, gp_window = []\<rparr>"
    using assms(3) by (auto simp: GuardIntervalInserter_def split: if_splits)
  note params = inserter_params [OF assms(1) this, simplified]
  have "symbol_length p = (\<lambda>k. if k = 0 then m_nullSize d else m_symSize d)" using params by (auto simp: symbol_length_def)
  then show ?thesis using guard_process_ok [of p inp fresh add mul] params assms(2,4,5) by simp
qed

lemma is_ok_bindE: "is_ok (bindE r f) \<longleftrightarrow> (\<exists>x. r = Inr x \<and> is_ok (f x))"
  by (cases r) (auto simp: bindE_def is_ok_def)

lemma for_each_first_fails: "\<not> is_ok (f x out) \<Longrightarrow> \<not> is_ok (for_each f (x # xs) out)"
  by (cases "f x out") (auto simp: is_ok_def)

text \<open>
  The remote control takes every window length, but only those that are not longer than the guard interval work:
  after a longer one every frame ends in an access outside the buffers, an assertion or an exception.
\<close>

lemma guard_window_limit:
  assumes "setMode mode = Inr d"
    and "GuardIntervalInserter raised_cosine (m_nbSymbols d) (m_spacing d) (m_nullSize d) (m_symSize d) w0 = Inr p0"
    and "guard_set_parameter raised_cosine ''windowlen'' (Some w) p0 = Inr p" and "w < 2 ^ 64"
    and "length inp = (m_nbSymbols d + 1) * m_spacing d" and "\<forall>n. length (fresh n) = n"
  shows "is_ok (guard_process add mul fresh p inp) \<longleftrightarrow> w + m_spacing d \<le> m_symSize d"
proof -
  have p: "p = update_window raised_cosine w p0" using assms(3) by (simp add: guard_set_parameter_def)
  have p0: "gp_nbSymbols p0 = m_nbSymbols d" "gp_spacing p0 = m_spacing d" "gp_nullSize p0 = m_nullSize d" "gp_symSize p0 = m_symSize d"
    using assms(2) by (auto simp: GuardIntervalInserter_def update_window_def split: if_splits)
  note params = inserter_params [OF assms(1) p p0]
  show ?thesis
  proof (cases "w + m_spacing d \<le> m_symSize d")
    case True
    then show ?thesis using guard_process_ok [of p inp fresh add mul] params assms(5,6) by simp
  next
    case False
    obtain n where n: "gp_nbSymbols p = Suc n" using params(6) by (cases "gp_nbSymbols p") auto
    have "\<not> is_ok (guard_symbol add mul p b inp ip op out)" for b ip op out
      using guard_symbol_overlong [of p inp add mul b ip op out] params False assms(4,5) by simp
    then have "\<not> is_ok (for_each (\<lambda>sym_ix. guard_symbol add mul p (gp_nbSymbols p \<le> sym_ix + 1) inp
         (gp_spacing p + sym_ix * gp_spacing p) (gp_nullSize p + sym_ix * gp_symSize p)) [0..<gp_nbSymbols p] out)" for out
      unfolding n upt_conv_Cons [OF zero_less_Suc] by (intro for_each_first_fails) blast
    moreover have "gp_windowOverlap p \<noteq> 0" using False params by auto
    ultimately show ?thesis using False params assms(5)
      by (auto simp: guard_process_def Let_def is_ok_bindE)
  qed
qed

theorem guard_interval_frame_witness:
  "\<exists>d p. setMode 3 = Inr d \<and> gp_windowOverlap p = 1 \<and>
     (let inp = replicate ((m_nbSymbols d + 1) * m_spacing d) (2 :: int)
      in guard_process (+) (*) (\<lambda>n. replicate n 0) p inp =
           Inr (concat (map (\<lambda>k. map (guard_sample (+) (*) p inp k) [0..<if k = 0 then m_nullSize d else m_symSize d])
             [0..<m_nbSymbols d + 1])))"
proof -
  obtain d where d: "setMode 3 = Inr d" by (simp add: setMode_def)
  have lim: "1 + m_spacing d \<le> m_symSize d" and null: "m_nullSize d \<noteq> 0" using d by (auto simp: setMode_def)
  define inp :: "int list" where "inp = replicate ((m_nbSymbols d + 1) * m_spacing d) 2"
  obtain p where p: "GuardIntervalInserter (\<lambda>n i. int i) (m_nbSymbols d) (m_spacing d) (m_nullSize d) (m_symSize d) 1 = Inr p"
      "gp_windowOverlap p = 1"
    using null by (simp add: GuardIntervalInserter_def update_window_def)
  have "guard_process (+) (*) (\<lambda>n. replicate n 0) p inp =
      Inr (concat (map (\<lambda>k. map (guard_sample (+) (*) p inp k) [0..<if k = 0 then m_nullSize d else m_symSize d])
             [0..<m_nbSymbols d + 1]))"
    by (rule guard_interval_frame [OF d lim p(1)]) (auto simp: inp_def)
  then show ?thesis using d p(2) unfolding inp_def Let_def by blast
qed

text \<open>In mode I, where the guard interval has 504 samples, 505 is too much.\<close>

lemma guard_window_limit_witness:
  "\<exists>p. guard_set_parameter (\<lambda>n i. int i) ''windowlen'' (Some 505)
        (update_window (\<lambda>n i. int i) 10 \<lparr>gp_nbSymbols = 76, gp_spacing = 2048, gp_nullSize = 2656, gp_symSize = 2552, gp_windowOverlap = 10, gp_window = []\<rparr>) = Inr p \<and>
      \<not> is_ok (guard_process (+) (*) (\<lambda>n. replicate n 0) p (replicate (77 * 2048) 2))"
proof -
  let ?p0 = "update_window (\<lambda>n i. int i) 10 \<lparr>gp_nbSymbols = 76, gp_spacing = 2048, gp_nullSize = 2656, gp_symSize = 2552, gp_windowOverlap = 10, gp_window = []\<rparr>"
  obtain p where p: "guard_set_parameter (\<lambda>n i. int i) ''windowlen'' (Some 505) ?p0 = Inr p" by (simp add: guard_set_parameter_def)
  have "\<not> is_ok (guard_process (+) (*) (\<lambda>n. replicate n 0) p (replicate (77 * 2048) 2))"
    using guard_window_limit [of 1 _ "\<lambda>n i. int i" 10 ?p0 505 p "replicate (77 * 2048) 2" "\<lambda>n. replicate n 0" "(+)" "(*)"] p
    by (simp add: setMode_def GuardIntervalInserter_def)
  then show ?thesis using p by blast
qed

end
