(* ===== verification/Papr_Stats.thy ===== *)
theory Papr_Stats
  imports Prelude Complex_Main
begin

text \<open>
  Peak-to-average power (\<open>src/PAPRStats.cpp\<close>): the peaks and the mean powers of the last blocks of
  samples are kept, and their ratio is reported in decibels. The code computes in \<open>double\<close>; here the
  numbers are real, rounding is not modelled.
\<close>

record papr_stats =
  num_blocks_to_accumulate :: nat
  squared_peaks :: "real list"
  squared_mean :: "real list"

definition PAPRStats :: "nat \<Rightarrow> papr_stats" where
  "PAPRStats n = \<lparr>num_blocks_to_accumulate = n, squared_peaks = [], squared_mean = []\<rparr>"

text \<open>\<open>std::norm\<close>: the square of the absolute value.\<close>

definition std_norm :: "complex \<Rightarrow> real" where
  "std_norm z = Re z * Re z + Im z * Im z"

definition block_step :: "complex \<Rightarrow> real \<times> real \<Rightarrow> real \<times> real" where
  "block_step x s =
     (case s of (norm_peak, rms2) \<Rightarrow> (if std_norm x > norm_peak then std_norm x else norm_peak, rms2 + std_norm x))"

definition process_block :: "complex list \<Rightarrow> papr_stats \<Rightarrow> papr_stats" where
  "process_block data s =
     (case fold block_step data (0, 0) of (norm_peak, rms2) \<Rightarrow>
        let peaks = squared_peaks s @ [norm_peak]; means = squared_mean s @ [rms2 / real (length data)]
        in if num_blocks_to_accumulate s < length means
           then s\<lparr>squared_peaks := tl peaks, squared_mean := tl means\<rparr>
           else s\<lparr>squared_peaks := peaks, squared_mean := means\<rparr>)"

definition papr_step :: "real \<times> real \<Rightarrow> real \<times> real \<Rightarrow> real \<times> real" where
  "papr_step x s =
     (case x of (p, m) \<Rightarrow> case s of (peak, rms2) \<Rightarrow> (if p > peak then p else peak, rms2 + m))"

definition calculate_papr :: "papr_stats \<Rightarrow> real result" where
  "calculate_papr s =
     (if length (squared_mean s) < num_blocks_to_accumulate s then Inr 0
      else if length (squared_mean s) \<noteq> length (squared_peaks s) then Inl (LogicError ''Invalid PAPR measurement sizes'')
      else (case fold papr_step (zip (squared_peaks s) (squared_mean s)) (0, 0) of (peak, rms2) \<Rightarrow>
              Inr (10 * log 10 (peak / (rms2 / real (length (squared_peaks s)))))))"

definition papr_clear :: "papr_stats \<Rightarrow> papr_stats" where
  "papr_clear s = s\<lparr>squared_peaks := [], squared_mean := []\<rparr>"

section \<open>What is measured\<close>

lemma std_norm_cmod: "std_norm z = (cmod z)\<^sup>2"
  by (simp add: std_norm_def cmod_power2 flip: power2_eq_square)

lemma std_norm_nonneg [simp]: "0 \<le> std_norm z"
  by (simp add: std_norm_cmod)

lemma block_step_fold:
  "fold block_step data (p, r) = (fold max (map std_norm data) p, r + (\<Sum>x\<leftarrow>data. std_norm x))"
  by (induction data arbitrary: p r) (auto simp: block_step_def max_def)

lemma papr_step_fold:
  "length ms = length ps \<Longrightarrow> fold papr_step (zip ps ms) (p, r) = (fold max ps p, r + sum_list ms)"
proof (induction ps arbitrary: p r ms)
  case (Cons x ps)
  then show ?case by (cases ms) (auto simp: papr_step_def max_def)
qed simp

lemma fold_max_le: "fold max xs a \<le> (b :: real) \<longleftrightarrow> a \<le> b \<and> (\<forall>x \<in> set xs. x \<le> b)"
  by (induction xs arbitrary: a) auto

definition block_peak :: "complex list \<Rightarrow> real" where
  "block_peak data = fold max (map std_norm data) 0"

definition block_mean :: "complex list \<Rightarrow> real" where
  "block_mean data = (\<Sum>x\<leftarrow>data. std_norm x) / real (length data)"

lemma std_norm_le_peak: "x \<in> set data \<Longrightarrow> std_norm x \<le> block_peak data"
  using fold_max_le [of "map std_norm data" 0 "block_peak data"] by (auto simp: block_peak_def)

lemma block_mean_le_peak: "block_mean data \<le> block_peak data"
proof (cases "data = []")
  case True
  then show ?thesis by (simp add: block_mean_def block_peak_def)
next
  case False
  have "(\<Sum>x\<leftarrow>data. std_norm x) \<le> (\<Sum>x\<leftarrow>data. block_peak data)" by (intro sum_list_mono) (rule std_norm_le_peak)
  then show ?thesis using False by (simp add: block_mean_def sum_list_triv divide_le_eq mult.commute)
qed

text \<open>After any blocks the statistics are those of the last \<open>num_blocks_to_accumulate\<close>.\<close>

definition lastn :: "nat \<Rightarrow> 'a list \<Rightarrow> 'a list" where
  "lastn n xs = drop (length xs - n) xs"

lemma process_blocks:
  assumes "0 < n"
  shows "fold process_block blocks (PAPRStats n) =
    \<lparr>num_blocks_to_accumulate = n, squared_peaks = map block_peak (lastn n blocks), squared_mean = map block_mean (lastn n blocks)\<rparr>"
proof (induction blocks rule: rev_induct)
  case Nil
  then show ?case by (simp add: PAPRStats_def lastn_def)
next
  case (snoc b bs)
  have "lastn n (bs @ [b]) = (if n < length bs + 1 then tl (lastn n bs @ [b]) else bs @ [b])"
  proof (cases "n < length bs + 1")
    case True
    then have "length bs - (length bs - n) = n" "length bs + 1 - n = Suc (length bs - n)" by simp_all
    then show ?thesis using True assms
      by (cases "drop (length bs - n) bs") (simp_all add: lastn_def drop_Suc tl_drop [symmetric])
  qed (simp add: lastn_def)
  moreover have "length (lastn n bs) = min n (length bs)" by (simp add: lastn_def)
  ultimately show ?case using snoc
    by (auto simp: process_block_def block_step_fold block_peak_def block_mean_def Let_def map_tl lastn_def)
qed

lemma papr_is_peak_to_average:
  assumes "0 < n" and "n \<le> length blocks"
  shows "calculate_papr (fold process_block blocks (PAPRStats n)) =
    Inr (10 * log 10 (fold max (map block_peak (lastn n blocks)) 0 / ((\<Sum>b\<leftarrow>lastn n blocks. block_mean b) / real n)))"
  using assms by (simp add: process_blocks calculate_papr_def papr_step_fold lastn_def)

lemma papr_not_negative:
  assumes "0 < n" and "n \<le> length blocks" and "\<exists>b \<in> set (lastn n blocks). 0 < block_mean b"
  shows "\<exists>r \<ge> 0. calculate_papr (fold process_block blocks (PAPRStats n)) = Inr r"
proof -
  let ?bs = "lastn n blocks" and ?peak = "fold max (map block_peak (lastn n blocks)) 0"
  have l: "length ?bs = n" using assms(2) by (simp add: lastn_def)
  have nonneg: "0 \<le> block_mean b" for b by (auto simp: block_mean_def intro!: divide_nonneg_nonneg sum_list_nonneg)
  have le: "block_mean b \<le> ?peak" if "b \<in> set ?bs" for b
    using fold_max_le [of "map block_peak ?bs" 0 ?peak] that block_mean_le_peak [of b] by auto
  have "(\<Sum>b\<leftarrow>?bs. block_mean b) \<le> (\<Sum>b\<leftarrow>?bs. ?peak)" by (intro sum_list_mono le)
  then have avg: "(\<Sum>b\<leftarrow>?bs. block_mean b) / real n \<le> ?peak" using assms(1) by (simp add: sum_list_triv l divide_le_eq mult.commute)
  obtain b where b: "b \<in> set ?bs" "0 < block_mean b" using assms(3) by blast
  obtain xs ys where "?bs = xs @ b # ys" using b(1) by (meson split_list)
  moreover have "0 \<le> (\<Sum>b\<leftarrow>zs. block_mean b)" for zs by (rule sum_list_nonneg) (use nonneg in auto)
  ultimately have "block_mean b \<le> (\<Sum>b\<leftarrow>?bs. block_mean b)" by (simp add: add_increasing add_increasing2)
  then have "0 < (\<Sum>b\<leftarrow>?bs. block_mean b) / real n" using b(2) assms(1) by simp
  then have "1 \<le> ?peak / ((\<Sum>b\<leftarrow>?bs. block_mean b) / real n)" using avg by (simp only: le_divide_eq_1_pos)
  then show ?thesis using papr_is_peak_to_average [OF assms(1,2)] by (auto intro!: exI)
qed

end
