(* ===== verification/Ofdm_Generator.thy ===== *)
theory Ofdm_Generator
  imports Guard_Interval Papr_Stats
begin

text \<open>
  The OFDM generator (\<open>src/OfdmGenerator.cpp\<close>): the carriers of every symbol are placed in the input of an
  inverse Fourier transform, whose output is the symbol in time. There are three variants: fixed point with KISS
  FFT, a transform in hardware behind a queue (DEXTER), and complex \<open>float\<close> with FFTW, which can also reduce the
  crest factor. The transforms are library or hardware: arguments of the definitions. A transform yields what
  it leaves in its input array and its output.
\<close>

section \<open>The places of the carriers\<close>

record ofdm_dims =
  og_nbSymbols :: nat
  og_nbCarriers :: nat
  og_spacing :: nat
  myPosSrc :: nat
  myPosDst :: nat
  myPosSize :: nat
  myNegSrc :: nat
  myNegDst :: nat
  myNegSize :: nat
  myZeroDst :: nat
  myZeroSize :: nat

text \<open>The difference of two \<open>unsigned\<close>.\<close>

definition usub32 :: "nat \<Rightarrow> nat \<Rightarrow> nat" where
  "usub32 a b = (if b \<le> a then a - b else 2 ^ 32 - (b - a))"

definition OfdmGenerator :: "nat \<Rightarrow> nat \<Rightarrow> nat \<Rightarrow> bool \<Rightarrow> ofdm_dims result" where
  "OfdmGenerator nbSymbols nbCarriers spacing backward =
     (if nbCarriers > spacing then Inl (RuntimeError ''OfdmGenerator nbCarriers > spacing!'')
      else
        let posDst = (if odd nbCarriers then 0 else 1); posSize = (nbCarriers + 1) div 2;
            negDst = spacing - nbCarriers div 2; zeroDst = posDst + posSize
        in Inr \<lparr>og_nbSymbols = nbSymbols, og_nbCarriers = nbCarriers, og_spacing = spacing,
             myPosSrc = (if backward then 0 else nbCarriers div 2), myPosDst = posDst, myPosSize = posSize,
             myNegSrc = (if backward then (nbCarriers + 1) div 2 else 0), myNegDst = negDst, myNegSize = nbCarriers div 2,
             myZeroDst = zeroDst, myZeroSize = usub32 negDst zeroDst\<rparr>)"

text \<open>The carriers of the symbol at \<open>ip\<close> are put in the input of the transform.\<close>

definition load_symbol :: "'a \<Rightarrow> ofdm_dims \<Rightarrow> 'a list \<Rightarrow> nat \<Rightarrow> 'a list \<Rightarrow> 'a list result" where
  "load_symbol zero d inp ip fft_in =
     bindE (wr fft_in 0 zero) (\<lambda>fft_in.
     bindE (memcpy fft_in (myZeroDst d) (replicate (myZeroSize d) zero)) (\<lambda>fft_in.
     bindE (copy_samples inp (ip + myPosSrc d) (myPosSize d) (myPosDst d) fft_in) (\<lambda>fft_in.
     copy_samples inp (ip + myNegSrc d) (myNegSize d) (myNegDst d) fft_in)))"

section \<open>Fixed point\<close>

definition fixed_symbol ::
    "('a list \<Rightarrow> 'a list \<times> 'b list) \<Rightarrow> 'a \<Rightarrow> ofdm_dims \<Rightarrow> 'a list \<Rightarrow> nat \<Rightarrow> 'a list \<times> 'b list \<Rightarrow> ('a list \<times> 'b list) result" where
  "fixed_symbol transform zero d inp i s =
     (case s of (fft_in, out) \<Rightarrow>
        bindE (load_symbol zero d inp (i * og_nbCarriers d) fft_in) (\<lambda>fft_in.
        case transform fft_in of (fft_in, fft_out) \<Rightarrow>
        bindE (copy_samples fft_out 0 (og_spacing d) (i * og_spacing d) out) (\<lambda>out. Inr (fft_in, out))))"

definition fixed_process ::
    "('a list \<Rightarrow> 'a list \<times> 'b list) \<Rightarrow> 'a \<Rightarrow> (nat \<Rightarrow> 'b list) \<Rightarrow> ofdm_dims \<Rightarrow> 'a list \<Rightarrow> 'a list \<Rightarrow> ('a list \<times> 'b list) result" where
  "fixed_process transform zero fresh d inp fft_in =
     (let out = fresh (og_nbSymbols d * og_spacing d)
      in if length inp \<noteq> og_nbSymbols d * og_nbCarriers d then Inl (RuntimeError ''OfdmGenerator::process input size not valid!'')
         else if length out \<noteq> og_nbSymbols d * og_spacing d then Inl (RuntimeError ''OfdmGenerator::process output size not valid!'')
         else for_each (fixed_symbol transform zero d inp) [0..<og_nbSymbols d] (fft_in, out))"

section \<open>In hardware\<close>

text \<open>
  The accelerator as the code sees it: blocks that are pushed come out transformed, in their order. \<open>in_flight\<close>
  holds what was pushed and not yet fetched. Every call may fail: \<open>push_fails i\<close> and \<open>refill_fails i\<close> say it for
  symbol \<open>i\<close>; \<open>p_inc\<close> and \<open>refilled\<close> are the step and the number of samples of the block fetched.
\<close>

record accelerator =
  iio_buf_size :: nat
  push_fails :: "nat \<Rightarrow> bool"
  refill_fails :: "nat \<Rightarrow> bool"
  p_inc :: int
  refilled :: nat

record ('a, 'b) dexter_state =
  iio_in :: "'a list"
  in_flight :: "'b list list"
  dexter_out :: "'b list"

text \<open>One block is fetched and copied to the place of symbol \<open>n\<close> in the output.\<close>

definition fetch_block :: "accelerator \<Rightarrow> ofdm_dims \<Rightarrow> nat \<Rightarrow> ('a, 'b) dexter_state \<Rightarrow> ('a, 'b) dexter_state result" where
  "fetch_block dev d n s =
     (if refill_fails dev n then Inl (RuntimeError ''OfdmGenerator::process error refilling IIO buffer!'')
      else if p_inc dev \<noteq> 1 then Inl (RuntimeError ''OfdmGenerator::process Wrong p_inc'')
      else if refilled dev \<noteq> og_spacing d then Inl (RuntimeError ''OfdmGenerator::process fft_out length invalid!'')
      else case in_flight s of
             [] \<Rightarrow> Inl (RuntimeError ''OfdmGenerator::process error refilling IIO buffer!'')
           | fft_out # rest \<Rightarrow>
               bindE (copy_samples fft_out 0 (og_spacing d) (n * og_spacing d) (dexter_out s)) (\<lambda>out.
               Inr (s\<lparr>in_flight := rest, dexter_out := out\<rparr>)))"

definition dexter_symbol ::
    "('a list \<Rightarrow> 'a list \<times> 'b list) \<Rightarrow> 'a \<Rightarrow> accelerator \<Rightarrow> ofdm_dims \<Rightarrow> 'a list \<Rightarrow> nat \<Rightarrow> ('a, 'b) dexter_state \<Rightarrow>
      ('a, 'b) dexter_state result" where
  "dexter_symbol transform zero dev d inp i s =
     bindE (load_symbol zero d inp (i * og_nbCarriers d) (iio_in s)) (\<lambda>fft_in.
     if push_fails dev i then Inl (RuntimeError ''OfdmGenerator::process error pushing IIO buffer!'')
     else case transform fft_in of (left_over, fft_out) \<Rightarrow>
       let s = s\<lparr>iio_in := left_over, in_flight := in_flight s @ [fft_out]\<rparr>
       in if i > 0 then fetch_block dev d (i - 1) s else Inr s)"

definition dexter_process ::
    "('a list \<Rightarrow> 'a list \<times> 'b list) \<Rightarrow> 'a \<Rightarrow> accelerator \<Rightarrow> (nat \<Rightarrow> 'b list) \<Rightarrow> ofdm_dims \<Rightarrow> 'a list \<Rightarrow> ('a, 'b) dexter_state \<Rightarrow>
      ('a, 'b) dexter_state result" where
  "dexter_process transform zero dev fresh d inp s =
     (let out = fresh (og_nbSymbols d * og_spacing d)
      in if length inp \<noteq> og_nbSymbols d * og_nbCarriers d then Inl (RuntimeError ''OfdmGenerator::process input size not valid!'')
         else if length out \<noteq> og_nbSymbols d * og_spacing d then Inl (RuntimeError ''OfdmGenerator::process output size not valid!'')
         else if iio_buf_size dev \<noteq> og_spacing d then Inl (RuntimeError ''OfdmGenerator::process incorrect iio buffer size!'')
         else bindE (for_each (dexter_symbol transform zero dev d inp) [0..<og_nbSymbols d] (s\<lparr>dexter_out := out\<rparr>))
                (fetch_block dev d (og_nbSymbols d - 1)))"

section \<open>What a symbol becomes\<close>

text \<open>The input of the transform: carrier by carrier.\<close>

definition spectrum :: "'a \<Rightarrow> ofdm_dims \<Rightarrow> 'a list \<Rightarrow> nat \<Rightarrow> 'a list" where
  "spectrum zero d inp ip =
     map (\<lambda>k. if myNegDst d \<le> k then inp ! (ip + myNegSrc d + (k - myNegDst d))
              else if myPosDst d \<le> k \<and> k < myPosDst d + myPosSize d then inp ! (ip + myPosSrc d + (k - myPosDst d))
              else zero) [0..<og_spacing d]"

lemma spectrum_length [simp]: "length (spectrum zero d inp ip) = og_spacing d"
  by (simp add: spectrum_def)

definition ofdm_ok :: "ofdm_dims \<Rightarrow> bool" where
  "ofdm_ok d =
     (0 < og_spacing d \<and> myZeroDst d = myPosDst d + myPosSize d \<and> myZeroDst d + myZeroSize d = myNegDst d \<and>
      myNegDst d + myNegSize d = og_spacing d \<and> myPosDst d \<le> 1 \<and>
      myPosSrc d + myPosSize d \<le> og_nbCarriers d \<and> myNegSrc d + myNegSize d \<le> og_nbCarriers d)"

lemma OfdmGenerator_ok:
  assumes "OfdmGenerator nbSymbols nbCarriers spacing backward = Inr d" and "nbCarriers < spacing \<or> odd nbCarriers"
  shows "ofdm_ok d" "og_nbSymbols d = nbSymbols" "og_nbCarriers d = nbCarriers" "og_spacing d = spacing"
proof -
  have le: "nbCarriers \<le> spacing" using assms(1) by (simp add: OfdmGenerator_def split: if_splits)
  have half: "nbCarriers div 2 + (nbCarriers + 1) div 2 = nbCarriers" by linarith
  have d: "d = \<lparr>og_nbSymbols = nbSymbols, og_nbCarriers = nbCarriers, og_spacing = spacing,
             myPosSrc = (if backward then 0 else nbCarriers div 2), myPosDst = (if odd nbCarriers then 0 else 1), myPosSize = (nbCarriers + 1) div 2,
             myNegSrc = (if backward then (nbCarriers + 1) div 2 else 0), myNegDst = spacing - nbCarriers div 2, myNegSize = nbCarriers div 2,
             myZeroDst = (if odd nbCarriers then 0 else 1) + (nbCarriers + 1) div 2,
             myZeroSize = usub32 (spacing - nbCarriers div 2) ((if odd nbCarriers then 0 else 1) + (nbCarriers + 1) div 2)\<rparr>"
    using assms(1) le by (simp add: OfdmGenerator_def Let_def)
  have z: "(if odd nbCarriers then 0 else 1) + (nbCarriers + 1) div 2 \<le> spacing - nbCarriers div 2"
  proof (cases "odd nbCarriers")
    case True
    then show ?thesis using half le by simp
  next
    case False
    then have "nbCarriers < spacing" using assms(2) by simp
    then show ?thesis using half False by simp
  qed
  have "0 < spacing" using le assms(2) by (cases spacing) auto
  then show "ofdm_ok d" using z half le by (auto simp: ofdm_ok_def d usub32_def)
qed (use assms(1) in \<open>auto simp: OfdmGenerator_def Let_def split: if_splits\<close>)

lemma load_symbol_ok:
  assumes ok: "ofdm_ok d" and len: "length fft_in = og_spacing d" "ip + og_nbCarriers d \<le> length inp"
  shows "load_symbol zero d inp ip fft_in = Inr (spectrum zero d inp ip)"
proof -
  let ?f0 = "fft_in[0 := zero]"
  have dims: "0 < og_spacing d" "myZeroDst d = myPosDst d + myPosSize d" "myZeroDst d + myZeroSize d = myNegDst d"
    "myNegDst d + myNegSize d = og_spacing d" "myPosDst d \<le> 1"
    "myPosSrc d + myPosSize d \<le> og_nbCarriers d" "myNegSrc d + myNegSize d \<le> og_nbCarriers d" using ok by (auto simp: ofdm_ok_def)
  obtain f1 where f1: "memcpy ?f0 (myZeroDst d) (replicate (myZeroSize d) zero) = Inr f1"
    using dims len by (simp add: memcpy_def)
  have v1: "length f1 = og_spacing d" "\<And>t. t < og_spacing d \<Longrightarrow> f1 ! t = (if myZeroDst d \<le> t \<and> t < myNegDst d then zero else ?f0 ! t)"
    using memcpy_length [OF f1] memcpy_nth [OF f1] len dims by auto
  have b2: "ip + myPosSrc d + myPosSize d \<le> length inp" "myPosDst d + myPosSize d \<le> length f1"
    "ip + myNegSrc d + myNegSize d \<le> length inp" "myNegDst d + myNegSize d \<le> og_spacing d" using dims len v1(1) by auto
  obtain f2 where f2: "copy_samples inp (ip + myPosSrc d) (myPosSize d) (myPosDst d) f1 = Inr f2" "length f2 = length f1"
    "\<forall>t < length f1. f2 ! t = (if myPosDst d \<le> t \<and> t < myPosDst d + myPosSize d then inp ! (ip + myPosSrc d + (t - myPosDst d)) else f1 ! t)"
    using copy_samples_ok [OF b2(1,2)] by blast
  obtain f3 where f3: "copy_samples inp (ip + myNegSrc d) (myNegSize d) (myNegDst d) f2 = Inr f3" "length f3 = length f1"
    "\<forall>t < length f1. f3 ! t = (if myNegDst d \<le> t \<and> t < myNegDst d + myNegSize d then inp ! (ip + myNegSrc d + (t - myNegDst d)) else f2 ! t)"
    using copy_samples_ok [OF b2(3), of "myNegDst d" f2] b2(4) unfolding f2(2) v1(1) by blast
  have "f3 = spectrum zero d inp ip"
  proof (rule nth_equalityI)
    show "length f3 = length (spectrum zero d inp ip)" using f3(2) v1(1) by (simp add: spectrum_def)
    fix t assume "t < length f3"
    then have t: "t < og_spacing d" using f3(2) v1(1) by simp
    then show "f3 ! t = spectrum zero d inp ip ! t"
      using f3(3) f2(3) v1 dims len(1) by (cases "t = 0") (auto simp: spectrum_def)
  qed
  then show ?thesis using f1 f2(1) f3(1) len dims(1) by (simp add: load_symbol_def)
qed

text \<open>The symbols of a frame in time.\<close>

definition in_time :: "('a list \<Rightarrow> 'a list \<times> 'b list) \<Rightarrow> 'a \<Rightarrow> ofdm_dims \<Rightarrow> 'a list \<Rightarrow> nat \<Rightarrow> 'b list" where
  "in_time transform zero d inp i = snd (transform (spectrum zero d inp (i * og_nbCarriers d)))"

text \<open>
  What the code relies on: the transform keeps the size of its arrays. What it leaves in its input is not known.
\<close>

definition sized :: "('a list \<Rightarrow> 'a list \<times> 'b list) \<Rightarrow> bool" where
  "sized transform = (\<forall>xs. length (fst (transform xs)) = length xs \<and> length (snd (transform xs)) = length xs)"

lemma in_time_length: "sized transform \<Longrightarrow> length (in_time transform zero d inp i) = og_spacing d"
  by (simp add: in_time_def sized_def)

text \<open>A symbol that is copied to its place.\<close>

lemma place_symbol:
  assumes "length y = n" and "length pre = i * n" and "n \<le> length post"
  shows "copy_samples y 0 n (i * n) (pre @ post) = Inr (pre @ y @ drop n post)"
  using assms by (simp add: copy_samples_def memcpy_ok)

lemma symbols_length: "sized transform \<Longrightarrow> length (concat (map (in_time transform zero d inp) [0..<n])) = n * og_spacing d"
  by (induction n) (simp_all add: in_time_length)

lemma fixed_symbols:
  assumes ok: "ofdm_ok d" and tr: "sized transform" and len: "length inp = og_nbSymbols d * og_nbCarriers d"
    and out: "length out = og_nbSymbols d * og_spacing d" "length fft_in = og_spacing d" and n: "n \<le> og_nbSymbols d"
  shows "\<exists>left. length left = og_spacing d \<and> for_each (fixed_symbol transform zero d inp) [0..<n] (fft_in, out) =
    Inr (left, concat (map (in_time transform zero d inp) [0..<n]) @ drop (n * og_spacing d) out)"
  using n
proof (induction n)
  case 0
  then show ?case using out by simp
next
  case (Suc n)
  let ?pre = "concat (map (in_time transform zero d inp) [0..<n])" and ?m = "og_spacing d"
  obtain left where l: "length left = ?m" "for_each (fixed_symbol transform zero d inp) [0..<n] (fft_in, out) = Inr (left, ?pre @ drop (n * ?m) out)"
    using Suc by auto
  have room: "Suc n * og_nbCarriers d \<le> length inp" "Suc n * ?m \<le> length out" using mult_le_mono1 [OF Suc.prems] len out(1) by simp_all
  have ld: "load_symbol zero d inp (n * og_nbCarriers d) left = Inr (spectrum zero d inp (n * og_nbCarriers d))"
    using room(1) by (intro load_symbol_ok ok l(1)) simp
  obtain f y where t: "transform (spectrum zero d inp (n * og_nbCarriers d)) = (f, y)" by fastforce
  have "length (fst (transform xs)) = length xs" for xs using tr by (simp add: sized_def)
  from this [of "spectrum zero d inp (n * og_nbCarriers d)"] t
  have y: "y = in_time transform zero d inp n" and f: "length f = ?m" by (simp_all add: in_time_def)
  have "copy_samples y 0 ?m (n * ?m) (?pre @ drop (n * ?m) out) = Inr (?pre @ y @ drop ?m (drop (n * ?m) out))"
    by (rule place_symbol) (use y tr room(2) in_time_length symbols_length in auto)
  then have "fixed_symbol transform zero d inp n (left, ?pre @ drop (n * ?m) out) = Inr (f, ?pre @ y @ drop ?m (drop (n * ?m) out))"
    using ld t by (simp add: fixed_symbol_def)
  then show ?case using l(2) f y by (simp add: for_each_append)
qed

lemma fixed_process_ok:
  assumes "ofdm_ok d" and "sized transform" and "length inp = og_nbSymbols d * og_nbCarriers d"
    and "\<forall>n. length (fresh n) = n" and "length fft_in = og_spacing d"
  shows "\<exists>left. length left = og_spacing d \<and> fixed_process transform zero fresh d inp fft_in =
    Inr (left, concat (map (in_time transform zero d inp) [0..<og_nbSymbols d]))"
  using fixed_symbols [of d transform inp "fresh (og_nbSymbols d * og_spacing d)" fft_in "og_nbSymbols d" zero] assms
  by (simp add: fixed_process_def Let_def)

section \<open>The accelerator\<close>

definition works :: "accelerator \<Rightarrow> ofdm_dims \<Rightarrow> bool" where
  "works dev d =
     (iio_buf_size dev = og_spacing d \<and> p_inc dev = 1 \<and> refilled dev = og_spacing d \<and>
      (\<forall>i < og_nbSymbols d. \<not> push_fails dev i \<and> \<not> refill_fails dev i))"

lemma fetch_block_ok:
  assumes "works dev d" and "n < og_nbSymbols d" and "in_flight s = y # rest" and "length y = og_spacing d"
    and "dexter_out s = pre @ post" and "length pre = n * og_spacing d" and "og_spacing d \<le> length post"
  shows "fetch_block dev d n s = Inr (s\<lparr>in_flight := rest, dexter_out := pre @ y @ drop (og_spacing d) post\<rparr>)"
  using assms by (simp add: fetch_block_def works_def place_symbol)

text \<open>After \<open>n + 1\<close> symbols one block is in flight and \<open>n\<close> are in the output.\<close>

lemma dexter_symbols:
  assumes ok: "ofdm_ok d" and tr: "sized transform" and dev: "works dev d" and len: "length inp = og_nbSymbols d * og_nbCarriers d"
    and out: "length (dexter_out s) = og_nbSymbols d * og_spacing d" "length (iio_in s) = og_spacing d" "in_flight s = []"
    and n: "n < og_nbSymbols d"
  shows "\<exists>left. length left = og_spacing d \<and> for_each (dexter_symbol transform zero dev d inp) [0..<Suc n] s =
    Inr (s\<lparr>iio_in := left, in_flight := [in_time transform zero d inp n],
          dexter_out := concat (map (in_time transform zero d inp) [0..<n]) @ drop (n * og_spacing d) (dexter_out s)\<rparr>)"
  using n
proof (induction n)
  case 0
  have "og_nbCarriers d \<le> length inp" using 0 len by (cases "og_nbSymbols d") auto
  then have ld: "load_symbol zero d inp (0 * og_nbCarriers d) (iio_in s) = Inr (spectrum zero d inp (0 * og_nbCarriers d))"
    by (intro load_symbol_ok ok out) simp
  obtain f y where t: "transform (spectrum zero d inp (0 * og_nbCarriers d)) = (f, y)" by fastforce
  have "length (fst (transform xs)) = length xs" for xs using tr by (simp add: sized_def)
  from this [of "spectrum zero d inp (0 * og_nbCarriers d)"] t have "length f = og_spacing d" "y = in_time transform zero d inp 0"
    by (simp_all add: in_time_def)
  then show ?case using ld t dev 0 out(3) by (intro exI [of _ f]) (simp add: dexter_symbol_def works_def Let_def)
next
  case (Suc n)
  let ?pre = "concat (map (in_time transform zero d inp) [0..<n])" and ?m = "og_spacing d" and ?y = "in_time transform zero d inp n"
  obtain left where l: "length left = ?m" "for_each (dexter_symbol transform zero dev d inp) [0..<Suc n] s =
      Inr (s\<lparr>iio_in := left, in_flight := [?y], dexter_out := ?pre @ drop (n * ?m) (dexter_out s)\<rparr>)" using Suc by auto
  have "Suc (Suc n) \<le> og_nbSymbols d" using Suc.prems by simp
  from mult_le_mono1 [OF this] have room: "Suc (Suc n) * og_nbCarriers d \<le> length inp" "Suc (Suc n) * ?m \<le> length (dexter_out s)"
    using len out(1) by simp_all
  have ld: "load_symbol zero d inp (Suc n * og_nbCarriers d) left = Inr (spectrum zero d inp (Suc n * og_nbCarriers d))"
    using room(1) by (intro load_symbol_ok ok l(1)) simp
  obtain f y where t: "transform (spectrum zero d inp (Suc n * og_nbCarriers d)) = (f, y)" by fastforce
  have "length (fst (transform xs)) = length xs" for xs using tr by (simp add: sized_def)
  from this [of "spectrum zero d inp (Suc n * og_nbCarriers d)"] t have f: "length f = ?m" and y: "y = in_time transform zero d inp (Suc n)"
    by (simp_all add: in_time_def)
  let ?s = "s\<lparr>iio_in := left, in_flight := [?y], dexter_out := ?pre @ drop (n * ?m) (dexter_out s)\<rparr>"
  let ?s' = "?s\<lparr>iio_in := f, in_flight := [?y, y]\<rparr>"
  have fetch: "fetch_block dev d n ?s' = Inr (?s'\<lparr>in_flight := [y], dexter_out := ?pre @ ?y @ drop ?m (drop (n * ?m) (dexter_out s))\<rparr>)"
    by (rule fetch_block_ok [OF dev]) (use Suc.prems room(2) tr in_time_length symbols_length in auto)
  have "dexter_symbol transform zero dev d inp (Suc n) ?s = fetch_block dev d n ?s'"
    using ld t dev Suc.prems by (simp add: dexter_symbol_def works_def Let_def)
  then show ?case using l(2) f y unfolding fetch upt_Suc_append [of 0 "Suc n", OF le0] for_each_append by (intro exI [of _ f]) simp
qed

lemma dexter_process_ok:
  assumes "ofdm_ok d" and "sized transform" and "works dev d" and "length inp = og_nbSymbols d * og_nbCarriers d" and "0 < og_nbSymbols d"
    and "\<forall>n. length (fresh n) = n" and "length (iio_in s) = og_spacing d" and "in_flight s = []"
  shows "\<exists>s'. dexter_process transform zero dev fresh d inp s = Inr s' \<and> in_flight s' = [] \<and> length (iio_in s') = og_spacing d \<and>
    dexter_out s' = concat (map (in_time transform zero d inp) [0..<og_nbSymbols d])"
proof -
  obtain n where n: "og_nbSymbols d = Suc n" using assms(5) by (cases "og_nbSymbols d") auto
  let ?m = "og_spacing d"
  define s0 where "s0 = s\<lparr>dexter_out := fresh (Suc n * ?m)\<rparr>"
  have s0: "length (dexter_out s0) = og_nbSymbols d * ?m" "length (iio_in s0) = ?m" "in_flight s0 = []"
    using assms(6-8) n by (simp_all add: s0_def)
  obtain left where l: "length left = ?m" "for_each (dexter_symbol transform zero dev d inp) [0..<Suc n] s0 =
      Inr (s0\<lparr>iio_in := left, in_flight := [in_time transform zero d inp n],
          dexter_out := concat (map (in_time transform zero d inp) [0..<n]) @ drop (n * ?m) (dexter_out s0)\<rparr>)"
    using dexter_symbols [OF assms(1-4) s0, of n zero] n by auto
  let ?s1 = "s0\<lparr>iio_in := left, in_flight := [in_time transform zero d inp n],
          dexter_out := concat (map (in_time transform zero d inp) [0..<n]) @ drop (n * ?m) (dexter_out s0)\<rparr>"
  have "fetch_block dev d n ?s1 = Inr (?s1\<lparr>in_flight := [], dexter_out := concat (map (in_time transform zero d inp) [0..<n]) @
      in_time transform zero d inp n @ drop ?m (drop (n * ?m) (dexter_out s0))\<rparr>)"
    by (rule fetch_block_ok [OF assms(3)]) (use n s0(1) assms(2) in_time_length symbols_length in auto)
  moreover have "iio_buf_size dev = ?m" using assms(3) by (simp add: works_def)
  ultimately show ?thesis using l s0(1) assms(4,6) n by (simp add: dexter_process_def Let_def s0_def)
qed

lemma dexter_same_as_fixed:
  assumes "OfdmGenerator nbSymbols nbCarriers spacing True = Inr d" and "nbCarriers < spacing" and "0 < nbSymbols" and "sized transform"
    and "works dev d" and "length inp = nbSymbols * nbCarriers" and "\<forall>n. length (fresh n) = n"
    and "length fft_in = spacing" and "length (iio_in s) = spacing" and "in_flight s = []"
  shows "\<exists>left out s'. fixed_process transform zero fresh d inp fft_in = Inr (left, out) \<and>
    dexter_process transform zero dev fresh d inp s = Inr s' \<and> dexter_out s' = out \<and> in_flight s' = []"
proof -
  note d = OfdmGenerator_ok [OF assms(1) disjI1 [OF assms(2)]]
  show ?thesis
    using fixed_process_ok [OF d(1) assms(4), of inp fresh fft_in zero] dexter_process_ok [OF d(1) assms(4,5), of inp fresh s zero] assms d by auto
qed

text \<open>
  The constructor takes an even number of carriers that fills the whole spacing; then the zeros between the carriers have the
  length -1 of an \<open>unsigned\<close>.
\<close>

lemma full_band_overflows:
  assumes "OfdmGenerator nbSymbols n n backward = Inr d" and "even n" and "0 < n" and "length fft_in = n" and "n < 2 ^ 32"
  shows "load_symbol zero d inp ip fft_in = Inl (UndefinedBehaviour ''write'')"
proof -
  obtain h where h: "n = 2 * h" using assms(2) by (rule evenE)
  have "myZeroDst d = h + 1" "myZeroSize d = 2 ^ 32 - 1" using assms(1,2) h by (auto simp: OfdmGenerator_def Let_def usub32_def split: if_splits)
  then show ?thesis using assms(3-5) by (simp add: load_symbol_def memcpy_def)
qed

end
