(* ===== verification/Ofdm_Cfr.thy ===== *)
theory Ofdm_Cfr
  imports Ofdm_Generator
begin

text \<open>
  The OFDM generator for complex \<open>float\<close> (\<open>OfdmGeneratorCF32\<close> in \<open>src/OfdmGenerator.cpp\<close>) with the crest factor
  reduction: samples beyond a limit are clipped, the error this makes on the carriers is limited, and the corrected
  carriers are transformed again. The two transforms of FFTW are arguments; numbers are real, without rounding.
\<close>

section \<open>The state\<close>

record cf32 =
  cf_fftIn :: "complex list"
  myCfr :: bool
  myCfrClip :: real
  myCfrErrorClip :: real
  myClipRatios :: "real list"
  myErrorClipRatios :: "real list"
  myPaprBeforeCFR :: papr_stats
  myPaprAfterCFR :: papr_stats
  myPaprClearRequest :: bool
  myMERCalcIndex :: nat
  myMERs :: "real list"
  num_clip :: nat
  num_error_clip :: nat
  cf_out :: "complex list"

definition MAX_CLIP_STATS :: nat where
  "MAX_CLIP_STATS = 10"

section \<open>Crest factor reduction\<close>

text \<open>A number whose square is beyond the limit is scaled down to it.\<close>

definition clip_to :: "real \<Rightarrow> complex \<Rightarrow> complex" where
  "clip_to limit_squared z =
     (if std_norm z > limit_squared then z * complex_of_real (sqrt (limit_squared / std_norm z)) else z)"

definition clip_count :: "real \<Rightarrow> complex list \<Rightarrow> nat" where
  "clip_count limit_squared zs = length (filter (\<lambda>z. std_norm z > limit_squared) zs)"

definition constellation_points :: "(complex list \<Rightarrow> complex list \<times> complex list) \<Rightarrow> nat \<Rightarrow> real \<Rightarrow> complex list \<Rightarrow> complex list" where
  "constellation_points cfr_fft spacing clip symbol =
     map (\<lambda>z. z / complex_of_real (real spacing)) (snd (cfr_fft (map (clip_to (clip * clip)) symbol)))"

definition cfr_errors ::
    "(complex list \<Rightarrow> complex list \<times> complex list) \<Rightarrow> nat \<Rightarrow> real \<Rightarrow> complex list \<Rightarrow> complex list \<Rightarrow> complex list" where
  "cfr_errors cfr_fft spacing clip symbol reference = map2 (-) reference (constellation_points cfr_fft spacing clip symbol)"

text \<open>The carriers that are transformed again.\<close>

definition corrected ::
    "(complex list \<Rightarrow> complex list \<times> complex list) \<Rightarrow> nat \<Rightarrow> real \<Rightarrow> real \<Rightarrow> complex list \<Rightarrow> complex list \<Rightarrow> complex list" where
  "corrected cfr_fft spacing clip error_clip symbol reference =
     map2 (+) (constellation_points cfr_fft spacing clip symbol)
       (map (clip_to (error_clip * error_clip)) (cfr_errors cfr_fft spacing clip symbol reference))"

definition cfr_one_iteration ::
    "(complex list \<Rightarrow> complex list \<times> complex list) \<Rightarrow> (complex list \<Rightarrow> complex list \<times> complex list) \<Rightarrow> nat \<Rightarrow>
      complex list \<Rightarrow> complex list \<Rightarrow> cf32 \<Rightarrow> complex list \<times> complex list \<times> nat \<times> nat" where
  "cfr_one_iteration transform cfr_fft spacing symbol reference s =
     (let clip = myCfrClip s; error_clip = myCfrErrorClip s
      in case transform (corrected cfr_fft spacing clip error_clip symbol reference) of (fft_in, fft_out) \<Rightarrow>
           (fft_in, fft_out, clip_count (clip * clip) symbol,
            clip_count (error_clip * error_clip) (cfr_errors cfr_fft spacing clip symbol reference)))"

text \<open>The modulation error ratio, at most 90 dB.\<close>

definition mer_of :: "complex list \<Rightarrow> complex list \<Rightarrow> real" where
  "mer_of before_cfr symbol =
     (let sum_iq = (\<Sum>z\<leftarrow>before_cfr. std_norm z); sum_delta = (\<Sum>(y, b)\<leftarrow>zip symbol before_cfr. std_norm (y - b))
      in if sum_delta > 0 then 10 * log 10 (sum_iq / sum_delta) else 90)"

definition cfr_symbol ::
    "(complex list \<Rightarrow> complex list \<times> complex list) \<Rightarrow> (complex list \<Rightarrow> complex list \<times> complex list) \<Rightarrow> nat \<Rightarrow> nat \<Rightarrow>
      complex list \<Rightarrow> complex list \<Rightarrow> cf32 \<Rightarrow> complex list \<times> cf32" where
  "cfr_symbol transform cfr_fft spacing i reference symbol s =
     (case cfr_one_iteration transform cfr_fft spacing symbol reference s of (fft_in, fft_out, n_clip, n_error) \<Rightarrow>
        (fft_out,
         s\<lparr>cf_fftIn := fft_in,
           myPaprBeforeCFR := process_block symbol (myPaprBeforeCFR s),
           myPaprAfterCFR := (if i > 0 then process_block fft_out (myPaprAfterCFR s) else myPaprAfterCFR s),
           myMERs := (if i > 0 \<and> myMERCalcIndex s = i then myMERs s @ [mer_of symbol fft_out] else myMERs s),
           num_clip := num_clip s + n_clip, num_error_clip := num_error_clip s + n_error\<rparr>))"

section \<open>A frame\<close>

definition cf32_symbol ::
    "(complex list \<Rightarrow> complex list \<times> complex list) \<Rightarrow> (complex list \<Rightarrow> complex list \<times> complex list) \<Rightarrow> ofdm_dims \<Rightarrow>
      complex list \<Rightarrow> nat \<Rightarrow> cf32 \<Rightarrow> cf32 result" where
  "cf32_symbol transform cfr_fft d inp i s =
     bindE (load_symbol 0 d inp (i * og_nbCarriers d) (cf_fftIn s)) (\<lambda>reference.
     case transform reference of (fft_in, fft_out) \<Rightarrow>
     let s = s\<lparr>cf_fftIn := fft_in\<rparr>;
         (fft_out, s) = (if myCfr s then cfr_symbol transform cfr_fft (og_spacing d) i reference fft_out s else (fft_out, s))
     in bindE (copy_samples fft_out 0 (og_spacing d) (i * og_spacing d) (cf_out s)) (\<lambda>out. Inr (s\<lparr>cf_out := out\<rparr>)))"

text \<open>What is done before and after the symbols; the last values of the statistics are kept.\<close>

definition cf32_begin :: "ofdm_dims \<Rightarrow> complex list \<Rightarrow> cf32 \<Rightarrow> cf32" where
  "cf32_begin d out s =
     (let s = s\<lparr>myMERCalcIndex := (myMERCalcIndex s + 1) mod og_nbSymbols d, num_clip := 0, num_error_clip := 0, cf_out := out\<rparr>
      in if myPaprClearRequest s
         then s\<lparr>myPaprClearRequest := False, myPaprBeforeCFR := papr_clear (myPaprBeforeCFR s), myPaprAfterCFR := papr_clear (myPaprAfterCFR s)\<rparr>
         else s)"

definition cf32_end :: "ofdm_dims \<Rightarrow> cf32 \<Rightarrow> cf32" where
  "cf32_end d s =
     (if myCfr s
      then let num_samps = real (og_nbSymbols d * og_spacing d)
           in s\<lparr>myClipRatios := lastn MAX_CLIP_STATS (myClipRatios s @ [real (num_clip s) / num_samps]),
                myErrorClipRatios := lastn MAX_CLIP_STATS (myErrorClipRatios s @ [real (num_error_clip s) / num_samps]),
                myMERs := lastn MAX_CLIP_STATS (myMERs s)\<rparr>
      else s)"

definition cf32_process ::
    "(complex list \<Rightarrow> complex list \<times> complex list) \<Rightarrow> (complex list \<Rightarrow> complex list \<times> complex list) \<Rightarrow> (nat \<Rightarrow> complex list) \<Rightarrow>
      ofdm_dims \<Rightarrow> complex list \<Rightarrow> cf32 \<Rightarrow> cf32 result" where
  "cf32_process transform cfr_fft fresh d inp s =
     (let out = fresh (og_nbSymbols d * og_spacing d)
      in if length inp \<noteq> og_nbSymbols d * og_nbCarriers d then Inl (RuntimeError ''OfdmGenerator::process input size not valid!'')
         else if length out \<noteq> og_nbSymbols d * og_spacing d then Inl (RuntimeError ''OfdmGenerator::process output size not valid!'')
         else if og_nbSymbols d = 0 then Inl (UndefinedBehaviour ''division by zero'')
         else bindE (for_each (cf32_symbol transform cfr_fft d inp) [0..<og_nbSymbols d] (cf32_begin d out s)) (\<lambda>s. Inr (cf32_end d s)))"

section \<open>Remote control\<close>

text \<open>
  The extraction of a \<open>bool\<close> and of a \<open>float\<close> is the stream library's: the value stored, and whether the stream did not throw.
  The value is stored in the setting itself, before the stream throws. The first component of the result is the state the call leaves.
\<close>

definition ofdm_set_parameter ::
    "(string \<Rightarrow> bool \<times> bool) \<Rightarrow> (string \<Rightarrow> real \<times> bool) \<Rightarrow> string \<Rightarrow> string \<Rightarrow> cf32 \<Rightarrow> cf32 \<times> unit result" where
  "ofdm_set_parameter parse_bool parse_float parameter value s =
     (let finish = (\<lambda>s ok. if ok then (s\<lparr>myPaprClearRequest := True\<rparr>, Inr ()) else (s, Inl (RuntimeError ''ios_base::failure'')))
      in if parameter = ''cfr'' then (case parse_bool value of (v, ok) \<Rightarrow> finish (s\<lparr>myCfr := v\<rparr>) ok)
         else if parameter = ''clip'' then (case parse_float value of (v, ok) \<Rightarrow> finish (s\<lparr>myCfrClip := v\<rparr>) ok)
         else if parameter = ''errorclip'' then (case parse_float value of (v, ok) \<Rightarrow> finish (s\<lparr>myCfrErrorClip := v\<rparr>) ok)
         else if parameter = ''clip_stats'' \<or> parameter = ''papr'' then (s, Inl (ParameterError ''Parameter is read-only''))
         else (s, Inl (ParameterError ''Parameter is not exported by controllable ofdm'')))"

text \<open>The averages that \<open>clip_stats\<close> reports: samples clipped and errors clipped in percent, the MER in dB.\<close>

definition average :: "real list \<Rightarrow> real" where
  "average xs = sum_list xs / real (length xs)"

definition clip_stats :: "cf32 \<Rightarrow> (real \<times> real \<times> real) option" where
  "clip_stats s =
     (if myClipRatios s = [] \<or> myErrorClipRatios s = [] \<or> myMERs s = [] then None
      else Some (average (myClipRatios s) * 100, average (myErrorClipRatios s) * 100, average (myMERs s)))"

section \<open>Clipping\<close>

lemma clip_to_norm:
  assumes "0 \<le> c"
  shows "cmod (clip_to (c * c) z) = min (cmod z) c"
proof (cases "std_norm z > c * c")
  case True
  then have "c < cmod z" unfolding std_norm_cmod power2_eq_square using assms by (meson mult_mono not_le norm_ge_zero)
  moreover have "sqrt (c * c / std_norm z) = c / cmod z" using assms by (simp add: std_norm_cmod real_sqrt_divide)
  moreover have "z \<noteq> 0" using calculation(1) assms by auto
  ultimately show ?thesis using True assms by (simp add: clip_to_def norm_mult norm_divide)
next
  case False
  then have "cmod z \<le> c" unfolding std_norm_cmod using assms by (metis not_less power2_eq_square power2_le_imp_le)
  then show ?thesis using False by (simp add: clip_to_def)
qed

lemma clip_to_inside: "cmod z \<le> c \<Longrightarrow> clip_to (c * c) z = z"
  using power_mono [of "cmod z" c 2] by (simp add: clip_to_def std_norm_cmod power2_eq_square)

text \<open>What is left of a vector when the clipped one is taken away.\<close>

lemma clip_to_rest:
  assumes "0 \<le> c"
  shows "cmod (z - clip_to (c * c) z) = max 0 (cmod z - c)"
proof (cases "cmod z \<le> c")
  case True
  then show ?thesis by (simp add: clip_to_inside)
next
  case False
  then have big: "std_norm z > c * c" unfolding std_norm_cmod power2_eq_square using assms by (intro mult_strict_mono') auto
  have "sqrt (c * c / std_norm z) = c / cmod z" using assms by (simp add: std_norm_cmod real_sqrt_divide)
  moreover have nz: "z \<noteq> 0" using False assms by auto
  ultimately have "z - clip_to (c * c) z = complex_of_real (1 - c / cmod z) * z" using big by (simp add: clip_to_def algebra_simps)
  moreover have "0 \<le> 1 - c / cmod z" using False assms by (simp add: divide_le_eq)
  ultimately have "cmod (z - clip_to (c * c) z) = (1 - c / cmod z) * cmod z" using False assms by (simp add: norm_mult del: of_real_diff of_real_divide)
  also have "\<dots> = cmod z - c" using nz by (simp add: field_simps)
  finally show ?thesis using False by simp
qed

lemma clip_count_zero: "(\<forall>z \<in> set zs. cmod z \<le> c) \<Longrightarrow> clip_count (c * c) zs = 0"
  using power_mono [of "cmod _" c 2] by (auto simp: clip_count_def filter_empty_conv std_norm_cmod power2_eq_square not_less)

section \<open>The carriers after one iteration\<close>

lemma constellation_points_length: "sized cfr_fft \<Longrightarrow> length (constellation_points cfr_fft n clip symbol) = length symbol"
  by (simp add: constellation_points_def sized_def)

lemma cfr_errors_length:
  "sized cfr_fft \<Longrightarrow> length symbol = n \<Longrightarrow> length reference = n \<Longrightarrow> length (cfr_errors cfr_fft n clip symbol reference) = n"
  by (simp add: cfr_errors_def constellation_points_length)

lemma corrected_length:
  "sized cfr_fft \<Longrightarrow> length symbol = n \<Longrightarrow> length reference = n \<Longrightarrow> length (corrected cfr_fft n clip error_clip symbol reference) = n"
  by (simp add: corrected_def constellation_points_length cfr_errors_length)

text \<open>Before the limit of the error a carrier is restored, beyond it its error is made smaller by the limit.\<close>

lemma corrected_error:
  assumes "sized cfr_fft" and "length symbol = n" and "length reference = n" and "0 \<le> error_clip" and "k < n"
  shows "cmod (reference ! k - corrected cfr_fft n clip error_clip symbol reference ! k) =
    max 0 (cmod (reference ! k - constellation_points cfr_fft n clip symbol ! k) - error_clip)"
proof -
  let ?p = "constellation_points cfr_fft n clip symbol ! k"
  have "corrected cfr_fft n clip error_clip symbol reference ! k = ?p + clip_to (error_clip * error_clip) (reference ! k - ?p)"
    using assms by (simp add: corrected_def cfr_errors_def constellation_points_length)
  then have "reference ! k - corrected cfr_fft n clip error_clip symbol reference ! k =
      (reference ! k - ?p) - clip_to (error_clip * error_clip) (reference ! k - ?p)" by simp
  then show ?thesis by (simp only: clip_to_rest [OF assms(4)])
qed

text \<open>What the code relies on: the second transform undoes the first, up to the factor of FFTW.\<close>

definition undoes :: "(complex list \<Rightarrow> complex list \<times> complex list) \<Rightarrow> (complex list \<Rightarrow> complex list \<times> complex list) \<Rightarrow> nat \<Rightarrow> bool" where
  "undoes cfr_fft transform n =
     (\<forall>xs. length xs = n \<longrightarrow> snd (cfr_fft (snd (transform xs))) = map (\<lambda>z. z * complex_of_real (real n)) xs)"

lemma nothing_clipped:
  assumes inv: "undoes cfr_fft transform n" and n: "0 < n" "length reference = n" and clip: "\<forall>z \<in> set (snd (transform reference)). cmod z \<le> clip"
    and err: "0 \<le> error_clip"
  shows "corrected cfr_fft n clip error_clip (snd (transform reference)) reference = reference"
    "clip_count (clip * clip) (snd (transform reference)) = 0"
    "clip_count (error_clip * error_clip) (cfr_errors cfr_fft n clip (snd (transform reference)) reference) = 0"
proof -
  have "map (clip_to (clip * clip)) (snd (transform reference)) = snd (transform reference)"
    using clip by (simp add: map_idI clip_to_inside)
  then have pts: "constellation_points cfr_fft n clip (snd (transform reference)) = reference"
    using inv n by (simp add: constellation_points_def undoes_def o_def)
  have e: "cfr_errors cfr_fft n clip (snd (transform reference)) reference = replicate n 0"
    unfolding cfr_errors_def pts using n(2) by (intro nth_equalityI) simp_all
  show "corrected cfr_fft n clip error_clip (snd (transform reference)) reference = reference"
    unfolding corrected_def pts e using n(2) err by (intro nth_equalityI) (simp_all add: clip_to_inside)
  show "clip_count (clip * clip) (snd (transform reference)) = 0" by (rule clip_count_zero [OF clip])
  show "clip_count (error_clip * error_clip) (cfr_errors cfr_fft n clip (snd (transform reference)) reference) = 0"
    unfolding e by (rule clip_count_zero) (simp add: err)
qed

section \<open>The output\<close>

definition clipped_in_time ::
    "(complex list \<Rightarrow> complex list \<times> complex list) \<Rightarrow> (complex list \<Rightarrow> complex list \<times> complex list) \<Rightarrow> ofdm_dims \<Rightarrow> complex list \<Rightarrow> cf32 \<Rightarrow> nat \<Rightarrow> complex list" where
  "clipped_in_time transform cfr_fft d inp s i =
     (let reference = spectrum 0 d inp (i * og_nbCarriers d)
      in if myCfr s then snd (transform (corrected cfr_fft (og_spacing d) (myCfrClip s) (myCfrErrorClip s) (in_time transform 0 d inp i) reference))
         else in_time transform 0 d inp i)"

text \<open>The parts of the state that decide about the symbols.\<close>

definition same_settings :: "cf32 \<Rightarrow> cf32 \<Rightarrow> bool" where
  "same_settings s s' = (myCfr s' = myCfr s \<and> myCfrClip s' = myCfrClip s \<and> myCfrErrorClip s' = myCfrErrorClip s)"

lemma cf32_symbol_ok:
  assumes ok: "ofdm_ok d" and tr: "sized transform" "sized cfr_fft" and fft_in: "length (cf_fftIn s) = og_spacing d"
    and inp: "Suc i * og_nbCarriers d \<le> length inp" and out: "cf_out s = pre @ post" "length pre = i * og_spacing d" "og_spacing d \<le> length post"
    and st: "same_settings s0 s"
  shows "\<exists>s'. cf32_symbol transform cfr_fft d inp i s = Inr s' \<and> length (cf_fftIn s') = og_spacing d \<and> same_settings s0 s' \<and>
    cf_out s' = pre @ clipped_in_time transform cfr_fft d inp s0 i @ drop (og_spacing d) post \<and>
    num_clip s' = num_clip s + (if myCfr s0 then clip_count (myCfrClip s0 * myCfrClip s0) (in_time transform 0 d inp i) else 0) \<and>
    num_error_clip s' = num_error_clip s + (if myCfr s0 then clip_count (myCfrErrorClip s0 * myCfrErrorClip s0)
      (cfr_errors cfr_fft (og_spacing d) (myCfrClip s0) (in_time transform 0 d inp i) (spectrum 0 d inp (i * og_nbCarriers d))) else 0)"
proof -
  let ?r = "spectrum 0 d inp (i * og_nbCarriers d)" and ?n = "og_spacing d" and ?t = "in_time transform 0 d inp i"
  have ld: "load_symbol 0 d inp (i * og_nbCarriers d) (cf_fftIn s) = Inr ?r" using inp by (intro load_symbol_ok ok fft_in) simp
  obtain f where t: "transform ?r = (f, ?t)" unfolding in_time_def by (metis prod.collapse)
  have size: "length (fst (transform xs)) = length xs" "length (snd (transform xs)) = length xs" for xs using tr(1) by (simp_all add: sized_def)
  have f: "length f = ?n" "length ?t = ?n" using size [of ?r] t by simp_all
  let ?y = "clipped_in_time transform cfr_fft d inp s0 i"
  let ?c = "corrected cfr_fft ?n (myCfrClip s0) (myCfrErrorClip s0) ?t ?r"
  have c: "length ?c = ?n" using corrected_length [OF tr(2) f(2)] by simp
  have y: "length ?y = ?n" using f size [of ?c] c by (simp add: clipped_in_time_def)
  have place: "copy_samples ?y 0 ?n (i * ?n) (cf_out s) = Inr (pre @ ?y @ drop ?n post)" unfolding out(1) by (rule place_symbol [OF y out(2,3)])
  show ?thesis
  proof (cases "myCfr s0")
    case False
    then have "?y = ?t" by (simp add: clipped_in_time_def)
    then show ?thesis using False ld t place f st by (simp add: cf32_symbol_def same_settings_def)
  next
    case True
    obtain f2 where t2: "transform ?c = (f2, ?y)" using True by (simp add: clipped_in_time_def) (metis prod.collapse)
    have "length f2 = ?n" using size [of ?c] t2 c by simp
    then show ?thesis using True ld t t2 place st
      by (simp add: cf32_symbol_def cfr_symbol_def cfr_one_iteration_def same_settings_def Let_def)
  qed
qed

lemma clipped_length:
  assumes "sized transform" and "sized cfr_fft"
  shows "length (clipped_in_time transform cfr_fft d inp s i) = og_spacing d"
proof -
  have "length (snd (transform xs)) = length xs" for xs using assms(1) by (simp add: sized_def)
  then show ?thesis using assms by (simp add: clipped_in_time_def in_time_length corrected_length)
qed

text \<open>The samples and the carriers clipped in the first \<open>n\<close> symbols.\<close>

definition samples_clipped :: "(complex list \<Rightarrow> complex list \<times> complex list) \<Rightarrow> ofdm_dims \<Rightarrow> complex list \<Rightarrow> cf32 \<Rightarrow> nat \<Rightarrow> nat" where
  "samples_clipped transform d inp s n =
     (if myCfr s then (\<Sum>i\<leftarrow>[0..<n]. clip_count (myCfrClip s * myCfrClip s) (in_time transform 0 d inp i)) else 0)"

definition errors_clipped ::
    "(complex list \<Rightarrow> complex list \<times> complex list) \<Rightarrow> (complex list \<Rightarrow> complex list \<times> complex list) \<Rightarrow> ofdm_dims \<Rightarrow> complex list \<Rightarrow> cf32 \<Rightarrow> nat \<Rightarrow> nat" where
  "errors_clipped transform cfr_fft d inp s n =
     (if myCfr s then (\<Sum>i\<leftarrow>[0..<n]. clip_count (myCfrErrorClip s * myCfrErrorClip s)
        (cfr_errors cfr_fft (og_spacing d) (myCfrClip s) (in_time transform 0 d inp i) (spectrum 0 d inp (i * og_nbCarriers d)))) else 0)"

lemma samples_clipped_Suc:
  "samples_clipped transform d inp s (Suc n) = samples_clipped transform d inp s n +
     (if myCfr s then clip_count (myCfrClip s * myCfrClip s) (in_time transform 0 d inp n) else 0)"
  by (simp add: samples_clipped_def)

lemma errors_clipped_Suc:
  "errors_clipped transform cfr_fft d inp s (Suc n) = errors_clipped transform cfr_fft d inp s n +
     (if myCfr s then clip_count (myCfrErrorClip s * myCfrErrorClip s)
        (cfr_errors cfr_fft (og_spacing d) (myCfrClip s) (in_time transform 0 d inp n) (spectrum 0 d inp (n * og_nbCarriers d))) else 0)"
  by (simp add: errors_clipped_def)

lemma cf32_symbols:
  assumes ok: "ofdm_ok d" and tr: "sized transform" "sized cfr_fft" and len: "length inp = og_nbSymbols d * og_nbCarriers d"
    and s: "length (cf_fftIn s) = og_spacing d" "length (cf_out s) = og_nbSymbols d * og_spacing d" "num_clip s = 0" "num_error_clip s = 0"
    and n: "n \<le> og_nbSymbols d"
  shows "\<exists>s'. for_each (cf32_symbol transform cfr_fft d inp) [0..<n] s = Inr s' \<and> length (cf_fftIn s') = og_spacing d \<and> same_settings s s' \<and>
    cf_out s' = concat (map (clipped_in_time transform cfr_fft d inp s) [0..<n]) @ drop (n * og_spacing d) (cf_out s) \<and>
    num_clip s' = samples_clipped transform d inp s n \<and> num_error_clip s' = errors_clipped transform cfr_fft d inp s n"
  using n
proof (induction n)
  case 0
  then show ?case using s by (simp add: same_settings_def samples_clipped_def errors_clipped_def)
next
  case (Suc n)
  let ?m = "og_spacing d"
  obtain s1 where s1: "for_each (cf32_symbol transform cfr_fft d inp) [0..<n] s = Inr s1" "length (cf_fftIn s1) = ?m" "same_settings s s1"
    "cf_out s1 = concat (map (clipped_in_time transform cfr_fft d inp s) [0..<n]) @ drop (n * ?m) (cf_out s)"
    "num_clip s1 = samples_clipped transform d inp s n" "num_error_clip s1 = errors_clipped transform cfr_fft d inp s n"
    using Suc by auto
  have room: "Suc n * og_nbCarriers d \<le> length inp" "Suc n * ?m \<le> length (cf_out s)"
    using mult_le_mono1 [OF Suc.prems] len s(2) by simp_all
  have "length (concat (map (clipped_in_time transform cfr_fft d inp s) [0..<n])) = n * ?m"
    by (induction n) (simp_all add: clipped_length [OF tr])
  moreover have "?m \<le> length (drop (n * ?m) (cf_out s))" using room(2) by simp
  ultimately obtain s2 where
    "cf32_symbol transform cfr_fft d inp n s1 = Inr s2" "length (cf_fftIn s2) = ?m" "same_settings s s2"
    "cf_out s2 = concat (map (clipped_in_time transform cfr_fft d inp s) [0..<n]) @ clipped_in_time transform cfr_fft d inp s n @ drop ?m (drop (n * ?m) (cf_out s))"
    "num_clip s2 = samples_clipped transform d inp s (Suc n)" "num_error_clip s2 = errors_clipped transform cfr_fft d inp s (Suc n)"
    using cf32_symbol_ok [OF ok tr s1(2) room(1) s1(4) _ _ s1(3)] unfolding s1(5,6) samples_clipped_Suc [symmetric] errors_clipped_Suc [symmetric] by blast
  then show ?case using s1(1) by (simp add: for_each_append)
qed

lemma cf32_process_ok:
  assumes ok: "ofdm_ok d" and tr: "sized transform" "sized cfr_fft" and len: "length inp = og_nbSymbols d * og_nbCarriers d" "0 < og_nbSymbols d"
    and fresh: "\<forall>n. length (fresh n) = n" and s: "length (cf_fftIn s) = og_spacing d"
  shows "\<exists>s'. cf32_process transform cfr_fft fresh d inp s = Inr s' \<and> length (cf_fftIn s') = og_spacing d \<and> same_settings s s' \<and>
    cf_out s' = concat (map (clipped_in_time transform cfr_fft d inp s) [0..<og_nbSymbols d]) \<and>
    num_clip s' = samples_clipped transform d inp s (og_nbSymbols d) \<and>
    num_error_clip s' = errors_clipped transform cfr_fft d inp s (og_nbSymbols d)"
proof -
  define s0 where "s0 = cf32_begin d (fresh (og_nbSymbols d * og_spacing d)) s"
  have s0: "length (cf_fftIn s0) = og_spacing d" "length (cf_out s0) = og_nbSymbols d * og_spacing d" "num_clip s0 = 0" "num_error_clip s0 = 0"
    "same_settings s s0" using s fresh by (simp_all add: s0_def cf32_begin_def same_settings_def Let_def)
  have same: "clipped_in_time transform cfr_fft d inp s0 = clipped_in_time transform cfr_fft d inp s"
    "samples_clipped transform d inp s0 n = samples_clipped transform d inp s n"
    "errors_clipped transform cfr_fft d inp s0 n = errors_clipped transform cfr_fft d inp s n" for n
    using s0(5) by (auto simp: clipped_in_time_def samples_clipped_def errors_clipped_def same_settings_def fun_eq_iff Let_def)
  from cf32_symbols [OF ok tr len(1) s0(1-4) order_refl] obtain s1 where
    "for_each (cf32_symbol transform cfr_fft d inp) [0..<og_nbSymbols d] s0 = Inr s1" "length (cf_fftIn s1) = og_spacing d" "same_settings s0 s1"
    "cf_out s1 = concat (map (clipped_in_time transform cfr_fft d inp s) [0..<og_nbSymbols d])"
    "num_clip s1 = samples_clipped transform d inp s (og_nbSymbols d)" "num_error_clip s1 = errors_clipped transform cfr_fft d inp s (og_nbSymbols d)"
    unfolding same by (auto simp: s0(2))
  then show ?thesis using len fresh s0(5)
    by (simp add: cf32_process_def Let_def s0_def [symmetric] cf32_end_def same_settings_def)
qed

text \<open>The lists of statistics keep their bound.\<close>

lemma lastn_length: "length (lastn n xs) \<le> n"
  by (simp add: lastn_def)

lemma cf32_end_bounds:
  "myCfr s \<Longrightarrow> length (myClipRatios (cf32_end d s)) \<le> 10 \<and> length (myErrorClipRatios (cf32_end d s)) \<le> 10 \<and> length (myMERs (cf32_end d s)) \<le> 10"
  by (simp add: cf32_end_def Let_def lastn_length MAX_CLIP_STATS_def)

text \<open>
  C27. Crest factor reduction changes only what has to be changed. A frame of the right size is accepted, with the reduction
  switched on or off. If it is off, or if no sample of the symbols exceeds the limit, the output is that of the plain
  generator and no sample or error counts as clipped. If it is on, every symbol is the transform of carriers each of which is
  the intended one where clipping moved it by no more than the error limit, and otherwise closer to it by that limit.
\<close>

theorem cfr_corrects_carriers:
  assumes "OfdmGenerator nbSymbols nbCarriers spacing backward = Inr d" and "nbCarriers < spacing" and "0 < nbSymbols"
    and "sized transform" and "sized cfr_fft" and "undoes cfr_fft transform spacing" and "0 \<le> myCfrErrorClip s"
    and "length inp = nbSymbols * nbCarriers" and "\<forall>n. length (fresh n) = n" and "length (cf_fftIn s) = spacing"
  shows "\<exists>s' ys. cf32_process transform cfr_fft fresh d inp s = Inr s' \<and> cf_out s' = concat ys \<and> length ys = nbSymbols \<and>
    (\<not> myCfr s \<or> (\<forall>i < nbSymbols. \<forall>z \<in> set (in_time transform 0 d inp i). cmod z \<le> myCfrClip s) \<longrightarrow>
       ys = map (in_time transform 0 d inp) [0..<nbSymbols] \<and> num_clip s' = 0 \<and> num_error_clip s' = 0) \<and>
    (myCfr s \<longrightarrow> (\<forall>i < nbSymbols. \<exists>carriers. ys ! i = snd (transform carriers) \<and> length carriers = spacing \<and>
       (\<forall>k < spacing. cmod (spectrum 0 d inp (i * nbCarriers) ! k - carriers ! k) =
          max 0 (cmod (spectrum 0 d inp (i * nbCarriers) ! k -
            constellation_points cfr_fft spacing (myCfrClip s) (in_time transform 0 d inp i) ! k) - myCfrErrorClip s))))"
proof -
  note d = OfdmGenerator_ok [OF assms(1) disjI1 [OF assms(2)]]
  let ?ys = "map (clipped_in_time transform cfr_fft d inp s) [0..<nbSymbols]"
  obtain s' where s': "cf32_process transform cfr_fft fresh d inp s = Inr s'" "cf_out s' = concat ?ys"
    "num_clip s' = samples_clipped transform d inp s nbSymbols" "num_error_clip s' = errors_clipped transform cfr_fft d inp s nbSymbols"
    using cf32_process_ok [OF d(1) assms(4,5) _ _ assms(9), of inp s] assms(3,8,10) d by auto
  have plain: "?ys = map (in_time transform 0 d inp) [0..<nbSymbols] \<and> num_clip s' = 0 \<and> num_error_clip s' = 0"
    if off: "\<not> myCfr s \<or> (\<forall>i < nbSymbols. \<forall>z \<in> set (in_time transform 0 d inp i). cmod z \<le> myCfrClip s)"
  proof (cases "myCfr s")
    case False
    then show ?thesis by (simp add: clipped_in_time_def s'(3,4) samples_clipped_def errors_clipped_def)
  next
    case True
    have pos: "0 < spacing" using assms(2) by simp
    have "\<forall>i < nbSymbols. \<forall>z \<in> set (snd (transform (spectrum 0 d inp (i * nbCarriers)))). cmod z \<le> myCfrClip s"
      using off True by (simp add: in_time_def d)
    note none = nothing_clipped [OF assms(6) pos _ _ assms(7)]
    have "corrected cfr_fft spacing (myCfrClip s) (myCfrErrorClip s) (in_time transform 0 d inp i) (spectrum 0 d inp (i * nbCarriers)) = spectrum 0 d inp (i * nbCarriers)"
      "clip_count (myCfrClip s * myCfrClip s) (in_time transform 0 d inp i) = 0"
      "clip_count (myCfrErrorClip s * myCfrErrorClip s) (cfr_errors cfr_fft spacing (myCfrClip s) (in_time transform 0 d inp i) (spectrum 0 d inp (i * nbCarriers))) = 0"
      if "i < nbSymbols" for i
      using none [of "spectrum 0 d inp (i * nbCarriers)" "myCfrClip s"] off True that by (simp_all add: in_time_def d)
    then show ?thesis using True
      by (auto simp: clipped_in_time_def s'(3,4) samples_clipped_def errors_clipped_def d in_time_def Let_def sum_list_eq_0_iff)
  qed
  have "\<exists>carriers. ?ys ! i = snd (transform carriers) \<and> length carriers = spacing \<and>
       (\<forall>k < spacing. cmod (spectrum 0 d inp (i * nbCarriers) ! k - carriers ! k) =
          max 0 (cmod (spectrum 0 d inp (i * nbCarriers) ! k -
            constellation_points cfr_fft spacing (myCfrClip s) (in_time transform 0 d inp i) ! k) - myCfrErrorClip s))"
    if "myCfr s" "i < nbSymbols" for i
  proof -
    let ?r = "spectrum 0 d inp (i * nbCarriers)" and ?t = "in_time transform 0 d inp i"
    have l: "length ?t = spacing" "length ?r = spacing" using in_time_length [OF assms(4), of 0 d inp i] d by simp_all
    let ?c = "corrected cfr_fft spacing (myCfrClip s) (myCfrErrorClip s) ?t ?r"
    have "?ys ! i = snd (transform ?c)" using that d by (simp add: clipped_in_time_def Let_def)
    then show ?thesis using corrected_length [OF assms(5) l] corrected_error [OF assms(5) l assms(7)] by blast
  qed
  then show ?thesis using s'(1,2) plain by (intro exI [of _ s'] exI [of _ ?ys]) simp
qed

text \<open>Two carriers around the zero carrier; the transforms of four samples are written out.\<close>

definition idft4 :: "complex list \<Rightarrow> complex list" where
  "idft4 xs = (case xs of [a, b, c, d] \<Rightarrow> [a + b + c + d, a + \<i> * b - c - \<i> * d, a - b + c - d, a - \<i> * b - c + \<i> * d] | _ \<Rightarrow> xs)"

definition dft4 :: "complex list \<Rightarrow> complex list" where
  "dft4 xs = (case xs of [a, b, c, d] \<Rightarrow> [a + b + c + d, a - \<i> * b - c + \<i> * d, a - b + c - d, a + \<i> * b - c - \<i> * d] | _ \<Rightarrow> xs)"

definition cf32_example :: cf32 where
  "cf32_example = \<lparr>cf_fftIn = replicate 4 7, myCfr = True, myCfrClip = 4, myCfrErrorClip = 1, myClipRatios = [], myErrorClipRatios = [],
     myPaprBeforeCFR = PAPRStats 50, myPaprAfterCFR = PAPRStats 50, myPaprClearRequest = True, myMERCalcIndex = 0, myMERs = [],
     num_clip = 0, num_error_clip = 0, cf_out = []\<rparr>"

theorem cfr_corrects_carriers_witness:
  "\<exists>d s'. OfdmGenerator 1 2 4 True = Inr d \<and>
     cf32_process (\<lambda>xs. (xs, idft4 xs)) (\<lambda>xs. (xs, dft4 xs)) (\<lambda>n. replicate n 0) d [1, \<i>] cf32_example = Inr s' \<and>
     cf_out s' = in_time (\<lambda>xs. (xs, idft4 xs)) 0 d [1, \<i>] 0 \<and> num_clip s' = 0"
proof -
  obtain d where d: "OfdmGenerator 1 2 4 True = Inr d" by (simp add: OfdmGenerator_def Let_def)
  then have places: "myPosSrc d = 0" "myPosDst d = 1" "myPosSize d = 1" "myNegSrc d = 1" "myNegDst d = 3" "og_spacing d = 4" "og_nbCarriers d = 2"
    by (auto simp: OfdmGenerator_def Let_def)
  have "[0..<4] = [0, 1, 2, 3]" by (simp add: upt_rec)
  then have "spectrum 0 d [1, \<i>] 0 = [0, 1, 0, \<i>]" by (simp add: spectrum_def places)
  then have t: "in_time (\<lambda>xs. (xs, idft4 xs)) 0 d [1, \<i>] 0 = [1 + \<i>, \<i> + 1, - 1 - \<i>, - \<i> - 1]"
    by (simp add: in_time_def places idft4_def)
  have "cmod z \<le> 4" if "z \<in> set (in_time (\<lambda>xs. (xs, idft4 xs)) 0 d [1, \<i>] 0)" for z
    using that unfolding t by (auto intro!: order_trans [OF cmod_le])
  have four: "\<exists>a b c e. xs = [a, b, c, e]" if "length xs = 4" for xs :: "complex list"
    using that by (auto simp: numeral_eq_Suc length_Suc_conv)
  have sz: "length (idft4 xs) = length xs" "length (dft4 xs) = length xs" for xs by (auto simp: idft4_def dft4_def split: list.split)
  have inv: "dft4 (idft4 xs) = map (\<lambda>z. z * 4) xs" if "length xs = 4" for xs
    using four [OF that] by (auto simp: idft4_def dft4_def algebra_simps)
  have hyps: "sized (\<lambda>xs. (xs, idft4 xs))" "sized (\<lambda>xs. (xs, dft4 xs))" "undoes (\<lambda>xs. (xs, dft4 xs)) (\<lambda>xs. (xs, idft4 xs)) 4"
    by (simp_all add: sized_def sz undoes_def inv)
  have ex: "0 \<le> myCfrErrorClip cf32_example" "length (cf_fftIn cf32_example) = 4" "myCfrClip cf32_example = 4"
    by (simp_all add: cf32_example_def)
  obtain s' ys where "cf32_process (\<lambda>xs. (xs, idft4 xs)) (\<lambda>xs. (xs, dft4 xs)) (\<lambda>n. replicate n 0) d [1, \<i>] cf32_example = Inr s'"
    "cf_out s' = concat ys" "ys = map (in_time (\<lambda>xs. (xs, idft4 xs)) 0 d [1, \<i>]) [0..<1]" "num_clip s' = 0"
    using cfr_corrects_carriers [OF d _ _ hyps ex(1), of "[1, \<i>]" "\<lambda>n. replicate n 0"] ex(2,3) \<open>\<And>z. _ \<Longrightarrow> cmod z \<le> 4\<close> by auto
  then show ?thesis using d by auto
qed

end
