(* ===== verification/Ofdm_Signal.thy ===== *)
theory Ofdm_Signal
  imports Ofdm_Cfr
begin

text \<open>
  The signal that the OFDM generator and the guard interval inserter make together, compared with the formula of
  EN 300 401 clause 14.2: every symbol is a sum of carriers \<open>-K/2 \<le> k \<le> K/2\<close>, \<open>k \<noteq> 0\<close>, that also runs through its guard
  interval.
\<close>

section \<open>The sum of carriers\<close>

text \<open>
  Sample \<open>t\<close> of symbol \<open>l\<close>; \<open>t\<close> counts from the end of the guard interval, in units of 1/\<open>N\<close> of the symbol. The samples
  of a symbol in the input are its carriers 1 to \<open>K/2\<close>, then \<open>-K/2\<close> to -1.
\<close>

definition carrier :: "nat \<Rightarrow> nat \<Rightarrow> int \<Rightarrow> complex" where
  "carrier N c t = cis (2 * pi * real c * real_of_int t / real N)"

definition multicarrier :: "nat \<Rightarrow> nat \<Rightarrow> complex list \<Rightarrow> nat \<Rightarrow> int \<Rightarrow> complex" where
  "multicarrier N K inp l t =
     (\<Sum>c = 1..K div 2. inp ! (l * K + (c - 1)) * carrier N c t + inp ! (l * K + (K - c)) * carrier N c (- t))"

text \<open>What the code relies on: FFTW's backward transform.\<close>

definition is_idft :: "(complex list \<Rightarrow> complex list \<times> complex list) \<Rightarrow> nat \<Rightarrow> bool" where
  "is_idft transform N =
     (\<forall>xs. length xs = N \<longrightarrow> snd (transform xs) = map (\<lambda>t. \<Sum>k<N. xs ! k * carrier N k (int t)) [0..<N])"

lemma carrier_period: "0 < N \<Longrightarrow> carrier N c (t + m * int N) = carrier N c t"
proof -
  assume N: "0 < N"
  have "2 * pi * real c * real_of_int (t + m * int N) / real N =
      2 * pi * real c * real_of_int t / real N + 2 * pi * real_of_int (int c * m)"
    using N by (simp add: field_simps)
  then show ?thesis unfolding carrier_def by (simp only: cis_mult [symmetric]) (simp add: cis_multiple_2pi)
qed

lemma multicarrier_period: "0 < N \<Longrightarrow> multicarrier N K inp l (t + m * int N) = multicarrier N K inp l t"
proof -
  assume N: "0 < N"
  have "carrier N c (- (t + m * int N)) = carrier N c (- t)" for c using carrier_period [OF N, of c "- t" "- m"] by simp
  then show ?thesis by (simp add: multicarrier_def carrier_period [OF N])
qed

lemma multicarrier_mod: "0 < N \<Longrightarrow> multicarrier N K inp l (t mod int N) = multicarrier N K inp l t"
  using multicarrier_period [of N K inp l "t mod int N" "t div int N"] by simp

text \<open>The carrier \<open>N - c\<close> is the carrier \<open>-c\<close>.\<close>

lemma carrier_mirror: "0 < N \<Longrightarrow> c \<le> N \<Longrightarrow> carrier N (N - c) t = carrier N c (- t)"
proof -
  assume N: "0 < N" "c \<le> N"
  have "2 * pi * real (N - c) * real_of_int t / real N = 2 * pi * real c * real_of_int (- t) / real N + 2 * pi * real_of_int t"
    using N by (simp add: of_nat_diff field_simps)
  then show ?thesis unfolding carrier_def by (simp only: cis_mult [symmetric]) (simp add: cis_multiple_2pi)
qed

lemma OfdmGenerator_even:
  assumes "even K" and "K < N" and "OfdmGenerator nbSymbols K N True = Inr d"
  shows "spectrum 0 d inp ip = map (\<lambda>k. if N - K div 2 \<le> k then inp ! (ip + (K - (N - k)))
      else if 1 \<le> k \<and> k \<le> K div 2 then inp ! (ip + (k - 1)) else 0) [0..<N]"
proof -
  obtain h where h: "K = 2 * h" using assms(1) by (rule evenE)
  then have "(K + 1) div 2 = h" "K div 2 = h" by simp_all
  then show ?thesis using assms h by (auto simp: spectrum_def OfdmGenerator_def Let_def intro!: arg_cong [of _ _ "(!) inp"] split: if_splits)
qed

lemma nth_concat_upt:
  assumes "\<And>i. length (f i) = n" and "t < n" and "l < m"
  shows "concat (map f [0..<m]) ! (l * n + t) = f l ! t"
  using assms(3)
proof (induction m)
  case (Suc m)
  have len: "length (concat (map f [0..<m])) = m * n" by (induction m) (simp_all add: assms(1))
  show ?case
  proof (cases "l < m")
    case True
    then have "l * n + t < m * n" using mult_le_mono1 [of "Suc l" m n] assms(2) by simp
    then show ?thesis using Suc True len by (simp add: nth_append)
  next
    case False
    then show ?thesis using Suc.prems len by (simp add: nth_append less_Suc_eq)
  qed
qed simp

lemma in_time_multicarrier:
  assumes K: "even K" "K < N" and d: "OfdmGenerator nbSymbols K N True = Inr d" and tr: "is_idft transform N" and t: "t < N"
  shows "in_time transform 0 d inp l ! t = multicarrier N K inp l (int t)"
proof -
  let ?h = "K div 2" and ?s = "spectrum 0 d inp (l * K)"
  have N: "0 < N" using K by simp
  have hh: "?h + ?h = K" using K(1) by (auto elim!: evenE)
  have dims: "og_nbCarriers d = K" "og_spacing d = N" using OfdmGenerator_ok [OF d] K by simp_all
  have nth: "?s ! k = (if N - ?h \<le> k then inp ! (l * K + (K - (N - k))) else if 1 \<le> k \<and> k \<le> ?h then inp ! (l * K + (k - 1)) else 0)"
    if "k < N" for k using that by (simp add: OfdmGenerator_even [OF K d])
  have "in_time transform 0 d inp l ! t = (\<Sum>k<N. ?s ! k * carrier N k (int t))"
    using tr t dims by (simp add: in_time_def is_idft_def)
  also have "\<dots> = (\<Sum>k \<in> {1..?h} \<union> {N - ?h..<N}. ?s ! k * carrier N k (int t))"
    by (rule sum.mono_neutral_right) (use hh K(2) nth in auto)
  also have "\<dots> = (\<Sum>k = 1..?h. ?s ! k * carrier N k (int t)) + (\<Sum>k = N - ?h..<N. ?s ! k * carrier N k (int t))"
    by (rule sum.union_disjoint) (use hh K(2) in auto)
  also have "(\<Sum>k = 1..?h. ?s ! k * carrier N k (int t)) = (\<Sum>c = 1..?h. inp ! (l * K + (c - 1)) * carrier N c (int t))"
    by (rule sum.cong) (use hh K(2) nth in auto)
  also have "(\<Sum>k = N - ?h..<N. ?s ! k * carrier N k (int t)) = (\<Sum>c = 1..?h. inp ! (l * K + (K - c)) * carrier N c (- int t))"
    by (rule sum.reindex_bij_witness [where i = "\<lambda>c. N - c" and j = "\<lambda>k. N - k"])
      (use hh K(2) nth N in \<open>auto simp: carrier_mirror\<close>)
  finally show ?thesis by (simp add: multicarrier_def sum.distrib)
qed

section \<open>With guard intervals\<close>

text \<open>
  C26. The signal of EN 300 401. In every transmission mode, without crest factor reduction, the generator followed by the guard
  interval inserter turns the carriers of a frame into samples without an error, and sample \<open>j\<close> of symbol \<open>l\<close> is the sum of the
  symbol's carriers, carrier \<open>k\<close> turning \<open>k\<close> times in \<open>N\<close> samples, from the first sample of the guard interval on: the
  time counts from the end of the guard interval. With a window this holds outside the overlaps.
\<close>

theorem transmission_signal:
  assumes "setMode mode = Inr m" and "OfdmGenerator (m_nbSymbols m + 1) (m_nbCarriers m) (m_spacing m) True = Inr d"
    and "is_idft transform (m_spacing m)" and "sized transform" and "sized cfr_fft"
    and "GuardIntervalInserter raised_cosine (m_nbSymbols m) (m_spacing m) (m_nullSize m) (m_symSize m) w = Inr p"
    and "w + m_spacing m \<le> m_symSize m" and "length inp = (m_nbSymbols m + 1) * m_nbCarriers m"
    and "\<forall>n. length (fresh n) = n" and "length (cf_fftIn s) = m_spacing m" and "\<not> myCfr s"
  shows "\<exists>s' out. cf32_process transform cfr_fft fresh d inp s = Inr s' \<and>
    guard_process (+) (\<lambda>z x. z * complex_of_real x) fresh p (cf_out s') = Inr out \<and>
    length out = m_nullSize m + m_nbSymbols m * m_symSize m \<and>
    (\<forall>l \<le> m_nbSymbols m. \<forall>j < (if l = 0 then m_nullSize m else m_symSize m).
       (l = 0 \<or> w \<le> j) \<and> (l = m_nbSymbols m \<or> j + w < (if l = 0 then m_nullSize m else m_symSize m)) \<longrightarrow>
       out ! ((if l = 0 then 0 else m_nullSize m + (l - 1) * m_symSize m) + j) =
         multicarrier (m_spacing m) (m_nbCarriers m) inp l
           (int j - (int (if l = 0 then m_nullSize m else m_symSize m) - int (m_spacing m))))"
proof -
  let ?N = "m_spacing m" and ?K = "m_nbCarriers m" and ?S = "m_nbSymbols m"
  let ?add = "(+) :: complex \<Rightarrow> complex \<Rightarrow> complex" and ?mul = "\<lambda>z x. z * complex_of_real x"
  have K: "even ?K" "?K < ?N" using assms(1) by (auto simp: setMode_def split: if_splits)
  note d = OfdmGenerator_ok [OF assms(2) disjI1 [OF K(2)]]
  have plain: "clipped_in_time transform cfr_fft d inp s = in_time transform 0 d inp"
    using assms(11) by (simp add: clipped_in_time_def fun_eq_iff Let_def)
  obtain s' where s': "cf32_process transform cfr_fft fresh d inp s = Inr s'" "cf_out s' = concat (map (in_time transform 0 d inp) [0..<?S + 1])"
    using cf32_process_ok [OF d(1) assms(4,5), of inp fresh s] assms(8-10) d unfolding plain by auto
  let ?y = "cf_out s'"
  have ly: "length ?y = (?S + 1) * ?N" unfolding s'(2) using symbols_length [OF assms(4), of 0 d inp "?S + 1"] d by simp
  have y: "?y ! (l * ?N + t) = multicarrier ?N ?K inp l (int t)" if "l < ?S + 1" "t < ?N" for l t
  proof -
    have "?y ! (l * ?N + t) = in_time transform 0 d inp l ! t"
      unfolding s'(2) by (rule nth_concat_upt) (use that in_time_length [OF assms(4)] d in simp_all)
    then show ?thesis using in_time_multicarrier [OF K assms(2,3) that(2)] by simp
  qed
  have p: "p = update_window raised_cosine w \<lparr>gp_nbSymbols = ?S, gp_spacing = ?N, gp_nullSize = m_nullSize m,
      gp_symSize = m_symSize m, gp_windowOverlap = w, gp_window = []\<rparr>"
    using assms(6) by (auto simp: GuardIntervalInserter_def split: if_splits)
  note params = inserter_params [OF assms(1) p, simplified]
  let ?f = "\<lambda>k. map (guard_sample ?add ?mul p ?y k) [0..<symbol_length p k]"
  define out where "out = concat (map ?f [0..<?S + 1])"
  have run: "guard_process ?add ?mul fresh p ?y = Inr out"
    using guard_process_ok [of p ?y fresh ?add ?mul] params assms(7,9) ly by (simp add: out_def)
  have pre: "length (concat (map ?f [0..<n])) = symbol_start p n" for n
    by (induction n) (simp_all add: symbol_start_Suc, simp add: symbol_start_def)
  have "out ! (symbol_start p l + j) = multicarrier ?N ?K inp l (int j - (int (symbol_length p l) - int ?N))"
    if l: "l \<le> ?S" and j: "j < symbol_length p l" and mid: "l = 0 \<or> w \<le> j" "l = ?S \<or> j + w < symbol_length p l" for l j
  proof -
    have "[0..<?S + 1] = [0..<l] @ l # [Suc l..<?S + 1]" using l by (metis append_Cons append_Nil le_add1 le_imp_less_Suc Suc_eq_plus1 less_imp_le upt_add_eq_append upt_conv_Cons zero_le le_add_diff_inverse)
    then have "out ! (symbol_start p l + j) = guard_sample ?add ?mul p ?y l j"
      unfolding out_def using pre [of l] j by (simp add: nth_append)
    also have "\<dots> = extended p ?y l (j + w)" using mid l params by (auto simp: guard_sample_def Let_def not_le)
    also have "\<dots> = multicarrier ?N ?K inp l (int ((j + 2 * ?N - symbol_length p l) mod ?N))"
      using y [of l "(j + 2 * ?N - symbol_length p l) mod ?N"] l K(2) params by (simp add: extended_def)
    also have "\<dots> = multicarrier ?N ?K inp l (int j + 2 * int ?N - int (symbol_length p l))"
    proof -
      have le: "symbol_length p l \<le> 2 * ?N" using assms(1) params by (auto simp: symbol_length_def setMode_def split: if_splits)
      then have "int ((j + 2 * ?N - symbol_length p l) mod ?N) = (int j + 2 * int ?N - int (symbol_length p l)) mod int ?N"
        by (simp add: zmod_int of_nat_diff)
      then show ?thesis using multicarrier_mod K(2) by simp
    qed
    also have "\<dots> = multicarrier ?N ?K inp l (int j - (int (symbol_length p l) - int ?N) + 1 * int ?N)" by (simp add: algebra_simps)
    also have "\<dots> = multicarrier ?N ?K inp l (int j - (int (symbol_length p l) - int ?N))" by (rule multicarrier_period) (use K(2) in simp)
    finally show ?thesis .
  qed
  moreover have "length out = m_nullSize m + ?S * m_symSize m" unfolding out_def pre using params by (simp add: symbol_start_def)
  moreover have "symbol_length p l = (if l = 0 then m_nullSize m else m_symSize m)"
    "symbol_start p l = (if l = 0 then 0 else m_nullSize m + (l - 1) * m_symSize m)" for l
    using params by (simp_all add: symbol_length_def symbol_start_def)
  ultimately show ?thesis using s'(1) run by auto
qed

text \<open>Mode III with all carriers equal: the first sample of the guard interval of the first symbol.\<close>

definition idft_example :: "complex list \<Rightarrow> complex list \<times> complex list" where
  "idft_example xs = (xs, map (\<lambda>t. \<Sum>k<length xs. xs ! k * carrier (length xs) k (int t)) [0..<length xs])"

theorem transmission_signal_witness:
  "\<exists>m d p s' out. setMode 3 = Inr m \<and> OfdmGenerator 154 192 256 True = Inr d \<and>
     GuardIntervalInserter (\<lambda>n i. 1) 153 256 345 319 0 = Inr p \<and>
     cf32_process idft_example idft_example (\<lambda>n. replicate n 0) d (replicate (154 * 192) 1)
       (cf32_example\<lparr>myCfr := False, cf_fftIn := replicate 256 0\<rparr>) = Inr s' \<and>
     guard_process (+) (\<lambda>z x. z * complex_of_real x) (\<lambda>n. replicate n 0) p (cf_out s') = Inr out \<and>
     out ! 345 = multicarrier 256 192 (replicate (154 * 192) 1) 1 (- 63)"
proof -
  obtain m where m: "setMode 3 = Inr m" by (simp add: setMode_def)
  then have dims: "m_nbSymbols m = 153" "m_nbCarriers m = 192" "m_spacing m = 256" "m_nullSize m = 345" "m_symSize m = 319"
    by (auto simp: setMode_def)
  obtain d where d: "OfdmGenerator 154 192 256 True = Inr d" by (simp add: OfdmGenerator_def Let_def)
  obtain p where p: "GuardIntervalInserter (\<lambda>n i. 1) 153 256 345 319 0 = Inr (p :: real guard_params)" by (simp add: GuardIntervalInserter_def)
  have tr: "is_idft idft_example 256" "sized idft_example" by (simp_all add: is_idft_def sized_def idft_example_def)
  let ?s = "cf32_example\<lparr>myCfr := False, cf_fftIn := replicate 256 0\<rparr>"
  obtain s' out where o: "cf32_process idft_example idft_example (\<lambda>n. replicate n 0) d (replicate (154 * 192) 1) ?s = Inr s'"
    "guard_process (+) (\<lambda>z x. z * complex_of_real x) (\<lambda>n. replicate n 0) p (cf_out s') = Inr out"
    "\<forall>l \<le> 153. \<forall>j < (if l = 0 then 345 else 319).
       (l = 0 \<or> 0 \<le> j) \<and> (l = 153 \<or> j + 0 < (if l = 0 then 345 else 319)) \<longrightarrow>
       out ! ((if l = 0 then 0 else 345 + (l - 1) * 319) + j) =
         multicarrier 256 192 (replicate (154 * 192) 1) l (int j - (int (if l = 0 then 345 else 319) - int 256))"
    using transmission_signal [OF m _ _ tr(2,2), of d "\<lambda>n i. 1" 0 p "replicate (154 * 192) 1" "\<lambda>n. replicate n 0" ?s] d p tr(1)
    unfolding dims by auto
  have "out ! 345 = multicarrier 256 192 (replicate (154 * 192) 1) 1 (- 63)" using o(3) [rule_format, of 1 0] by simp
  then show ?thesis using m d p o(1,2) by blast
qed

end
