(* ===== verification/Gain_Control.thy ===== *)
theory Gain_Control
  imports Prelude Complex_Main
begin

text \<open>
  The digital gain (\<open>src/GainControl.cpp\<close>). The code exists twice, for processors with SSE (four \<open>float\<close> at a
  time, two complex samples) and without; a comment says that the second emulates the first. Numbers are real here:
  rounding, infinities and NaN are not modelled. The lemmas say which gain the modes compute and how far the two
  programs agree.
\<close>

section \<open>Numbers\<close>

datatype gain_mode = GAIN_FIX | GAIN_MAX | GAIN_VAR

text \<open>The conversion of a \<open>float\<close> to \<open>int\<close> (values outside the range of \<open>int\<close> are not distinguished).\<close>

definition c_int :: "real \<Rightarrow> int" where
  "c_int x = (if x < 0 then \<lceil>x\<rceil> else \<lfloor>x\<rfloor>)"

definition FLT_MAX :: real where
  "FLT_MAX = (2 - 1 / 2 ^ 23) * 2 ^ 127"

definition FLT_MIN :: real where
  "FLT_MIN = 1 / 2 ^ 126"

definition factor :: real where
  "factor = 32767"

section \<open>Without SSE\<close>

definition computeGainFix :: "complex list \<Rightarrow> real" where
  "computeGainFix inp = 512"

definition min_max_step :: "complex \<Rightarrow> real \<times> real \<Rightarrow> real \<times> real" where
  "min_max_step x s =
     (case s of (mn, mx) \<Rightarrow>
        let mn = (if Re x < mn then Re x else mn); mx = (if Re x > mx then Re x else mx)
        in (if Im x < mn then Im x else mn, if Im x > mx then Im x else mx))"

definition computeGainMax :: "complex list \<Rightarrow> real" where
  "computeGainMax inp =
     (case fold min_max_step inp (FLT_MAX, FLT_MIN) of (mn, mx) \<Rightarrow>
        let mx = (if - mn > mx then - mn else mx)
        in if c_int mx \<noteq> 0 then factor / mx else 1)"

fun mean_loop :: "nat \<Rightarrow> complex \<Rightarrow> complex list \<Rightarrow> complex" where
  "mean_loop sample mean [] = mean"
| "mean_loop sample mean (x # xs) = mean_loop (sample + 1) (mean + (x - mean) / of_nat (sample + 1)) xs"

definition squares :: "complex \<Rightarrow> complex" where
  "squares z = Complex (Re z * Re z) (Im z * Im z)"

fun var_loop :: "nat \<Rightarrow> complex \<Rightarrow> complex \<times> complex \<Rightarrow> complex list \<Rightarrow> complex \<times> complex" where
  "var_loop sample mean v [] = v"
| "var_loop sample mean v (x # xs) =
     (case v of (var1, var2) \<Rightarrow>
        let diff = x - mean; i = of_nat (sample div 2 + 1)
        in if sample mod 2 = 0
           then var_loop (sample + 1) mean (var1 + (squares diff - var1) / i, var2) xs
           else var_loop (sample + 1) mean (var1, var2 + (squares diff - var2) / i) xs)"

definition computeGainVar :: "real \<Rightarrow> complex list \<Rightarrow> real" where
  "computeGainVar var_variance inp =
     (case var_loop 0 (mean_loop 0 0 inp) (0, 0) inp of (var1, var2) \<Rightarrow>
        let tmpvar = (var1 + var2) / 2;
            var_re = sqrt (Re tmpvar) * var_variance; var_im = sqrt (Im tmpvar) * var_variance;
            gain = (if var_im > var_re then var_im else var_re)
        in if c_int gain = 0 then 1 else factor / gain)"

definition compute_gain :: "gain_mode \<Rightarrow> real \<Rightarrow> complex list \<Rightarrow> real" where
  "compute_gain mode var_variance =
     (case mode of GAIN_FIX \<Rightarrow> computeGainFix | GAIN_MAX \<Rightarrow> computeGainMax | GAIN_VAR \<Rightarrow> computeGainVar var_variance)"

text \<open>A symbol of the frame; the null symbol at the beginning takes the gain of the next one.\<close>

definition gain_symbol :: "gain_mode \<Rightarrow> real \<Rightarrow> real \<Rightarrow> nat \<Rightarrow> complex list \<Rightarrow> nat \<Rightarrow> complex list \<Rightarrow> complex list result" where
  "gain_symbol mode var_variance constantGain frameSize inp k out =
     bindE (memread inp (if k > 0 then k * frameSize else frameSize) frameSize) (\<lambda>block.
     let gain = constantGain * compute_gain mode var_variance block
     in bindE (memread inp (k * frameSize) frameSize) (\<lambda>symbol.
        Inr (out @ map (\<lambda>x. x * complex_of_real gain) symbol)))"

definition gain_process :: "gain_mode \<Rightarrow> real \<Rightarrow> real \<Rightarrow> real \<Rightarrow> nat \<Rightarrow> complex list \<Rightarrow> complex list result" where
  "gain_process mode var_variance normalise digGain frameSize inp =
     (if frameSize = 0 then Inl (UndefinedBehaviour ''division by zero'')
      else if length inp mod frameSize \<noteq> 0 then Inl (RuntimeError ''GainControl::process input size not valid!'')
      else for_each (gain_symbol mode var_variance (normalise * digGain) frameSize inp) [0..<length inp div frameSize] [])"

section \<open>With SSE\<close>

type_synonym m128 = "real \<times> real \<times> real \<times> real"

text \<open>Two samples are one \<open>__m128\<close>; a last single sample is not part of any.\<close>

fun as_m128 :: "complex list \<Rightarrow> m128 list" where
  "as_m128 (x # y # zs) = (Re x, Im x, Re y, Im y) # as_m128 zs"
| "as_m128 [x] = []"
| "as_m128 [] = []"

fun mm_op :: "(real \<Rightarrow> real \<Rightarrow> real) \<Rightarrow> m128 \<Rightarrow> m128 \<Rightarrow> m128" where
  "mm_op f (a0, a1, a2, a3) (b0, b1, b2, b3) = (f a0 b0, f a1 b1, f a2 b2, f a3 b3)"

definition mm_set1 :: "real \<Rightarrow> m128" where
  "mm_set1 x = (x, x, x, x)"

fun mm_sqrt :: "m128 \<Rightarrow> m128" where
  "mm_sqrt (a0, a1, a2, a3) = (sqrt a0, sqrt a1, sqrt a2, sqrt a3)"

fun lane :: "m128 \<Rightarrow> nat \<Rightarrow> real" where
  "lane (a0, a1, a2, a3) i = [a0, a1, a2, a3] ! i"

text \<open>\<open>_mm_shuffle_ps(a, a, _MM_SHUFFLE(z, y, x, w))\<close>\<close>

definition mm_shuffle :: "m128 \<Rightarrow> nat \<Rightarrow> nat \<Rightarrow> nat \<Rightarrow> nat \<Rightarrow> m128" where
  "mm_shuffle a z y x w = (lane a w, lane a x, lane a y, lane a z)"

definition sse_gain_fix :: "m128 list \<Rightarrow> m128" where
  "sse_gain_fix inp = mm_set1 512"

definition sse_min_max :: "m128 \<Rightarrow> m128 \<times> m128 \<Rightarrow> m128 \<times> m128" where
  "sse_min_max x s = (case s of (mn, mx) \<Rightarrow> (mm_op min x mn, mm_op max x mx))"

definition merge :: "(real \<Rightarrow> real \<Rightarrow> real) \<Rightarrow> m128 \<Rightarrow> m128" where
  "merge f a = (let a = mm_op f a (mm_shuffle a 0 1 2 3) in mm_op f a (mm_shuffle a 1 0 3 2))"

definition sse_gain_max :: "m128 list \<Rightarrow> m128" where
  "sse_gain_max inp =
     (case fold sse_min_max inp (mm_set1 FLT_MAX, mm_set1 FLT_MIN) of (mn, mx) \<Rightarrow>
        let mn = merge min mn; mx = merge max mx;
            mx = mm_op max (mm_op (*) mn (mm_set1 (-1))) mx
        in if c_int (lane mx 0) \<noteq> 0 then mm_op (/) (mm_set1 factor) mx else mm_set1 1)"

fun sse_mean :: "nat \<Rightarrow> m128 \<Rightarrow> m128 list \<Rightarrow> m128" where
  "sse_mean sample mean [] = mean"
| "sse_mean sample mean (x # xs) =
     sse_mean (sample + 1) (mm_op (+) mean (mm_op (/) (mm_op (-) x mean) (mm_set1 (real (sample + 1))))) xs"

fun sse_var :: "nat \<Rightarrow> m128 \<Rightarrow> m128 \<Rightarrow> m128 list \<Rightarrow> m128" where
  "sse_var sample mean var [] = var"
| "sse_var sample mean var (x # xs) =
     (let diff = mm_op (-) x mean; delta = mm_op (-) (mm_op (*) diff diff) var
      in sse_var (sample + 1) mean (mm_op (+) var (mm_op (/) delta (mm_set1 (real (sample + 1))))) xs)"

text \<open>The halves of a \<open>__m128\<close> are averaged.\<close>

definition half_sum :: "m128 \<Rightarrow> m128" where
  "half_sum a = mm_op (*) (mm_op (+) a (mm_shuffle a 1 0 3 2)) (mm_set1 (1 / 2))"

definition sse_gain_var :: "real \<Rightarrow> m128 list \<Rightarrow> m128" where
  "sse_gain_var var_variance inp =
     (let mean = half_sum (sse_mean 0 (mm_set1 0) inp);
          var = mm_op (*) (mm_sqrt (half_sum (sse_var 0 mean (mm_set1 0) inp))) (mm_set1 var_variance)
      in if c_int (lane var 0) \<noteq> 0 then mm_op (/) (mm_set1 factor) (mm_op max var (mm_shuffle var 2 3 0 1)) else mm_set1 1)"

definition sse_gain :: "gain_mode \<Rightarrow> real \<Rightarrow> m128 list \<Rightarrow> m128" where
  "sse_gain mode var_variance =
     (case mode of GAIN_FIX \<Rightarrow> sse_gain_fix | GAIN_MAX \<Rightarrow> sse_gain_max | GAIN_VAR \<Rightarrow> sse_gain_var var_variance)"

definition sse_symbol :: "gain_mode \<Rightarrow> real \<Rightarrow> real \<Rightarrow> nat \<Rightarrow> m128 list \<Rightarrow> nat \<Rightarrow> m128 list \<Rightarrow> m128 list result" where
  "sse_symbol mode var_variance constantGain frameSize inp k out =
     bindE (memread inp (if k > 0 then k * frameSize else frameSize) frameSize) (\<lambda>block.
     let gain = mm_op (*) (sse_gain mode var_variance block) (mm_set1 constantGain)
     in bindE (memread inp (k * frameSize) frameSize) (\<lambda>symbol. Inr (out @ map (\<lambda>x. mm_op (*) x gain) symbol)))"

text \<open>\<open>framesize\<close> is the number of samples, as the constructor gets it.\<close>

definition sse_process :: "gain_mode \<Rightarrow> real \<Rightarrow> real \<Rightarrow> real \<Rightarrow> nat \<Rightarrow> m128 list \<Rightarrow> m128 list result" where
  "sse_process mode var_variance normalise digGain framesize inp =
     (let frameSize = framesize * 8 div 16
      in if frameSize = 0 then Inl (UndefinedBehaviour ''division by zero'')
         else if length inp mod frameSize \<noteq> 0 then Inl (RuntimeError ''GainControl::process input size not valid!'')
         else for_each (sse_symbol mode var_variance (normalise * digGain) frameSize inp) [0..<length inp div frameSize] [])"

section \<open>Remote control\<close>

record gain_control =
  gc_mode :: gain_mode
  gc_digGain :: real
  gc_var :: real

text \<open>\<open>to_lower\<close> is \<open>std::tolower\<close>, \<open>number\<close> the value as a number, \<open>word\<close> its first word.\<close>

definition gain_mode_of :: "string \<Rightarrow> gain_mode result" where
  "gain_mode_of new_mode =
     (if new_mode = ''fix'' then Inr GAIN_FIX else if new_mode = ''max'' then Inr GAIN_MAX
      else if new_mode = ''var'' then Inr GAIN_VAR else Inl (ParameterError ''Gainmode unknown''))"

definition gain_set_parameter :: "string \<Rightarrow> real option \<Rightarrow> string option \<Rightarrow> gain_control \<Rightarrow> gain_control result" where
  "gain_set_parameter parameter number lower_word g =
     (if parameter = ''digital''
      then (case number of None \<Rightarrow> Inl (RuntimeError ''ios_base::failure'') | Some x \<Rightarrow> Inr (g\<lparr>gc_digGain := x\<rparr>))
      else if parameter = ''mode''
      then (case lower_word of None \<Rightarrow> Inl (RuntimeError ''ios_base::failure'')
            | Some w \<Rightarrow> bindE (gain_mode_of w) (\<lambda>m. Inr (g\<lparr>gc_mode := m\<rparr>)))
      else if parameter = ''var''
      then (case number of None \<Rightarrow> Inl (RuntimeError ''ios_base::failure'') | Some x \<Rightarrow> Inr (g\<lparr>gc_var := x\<rparr>))
      else Inl (ParameterError ''Parameter is not exported by controllable gain''))"

section \<open>Mode max: full scale\<close>

definition sample_peak :: "complex \<Rightarrow> real" where
  "sample_peak z = max \<bar>Re z\<bar> \<bar>Im z\<bar>"

definition peak :: "complex list \<Rightarrow> real" where
  "peak inp = fold max (map sample_peak inp) 0"

text \<open>\<open>max(-min, max)\<close> of the loop.\<close>

lemma min_max_fold:
  "(case fold min_max_step inp (mn, mx) of (mn, mx) \<Rightarrow> max (- mn) mx) = fold max (map sample_peak inp) (max (- mn) mx)"
proof (induction inp arbitrary: mn mx)
  case (Cons x xs)
  have "min_max_step x (mn, mx) = (min (min (Re x) (Im x)) mn, max (max (Re x) (Im x)) mx)"
    by (auto simp: min_max_step_def Let_def min_def max_def)
  moreover have "max (- min (min (Re x) (Im x)) mn) (max (max (Re x) (Im x)) mx) = max (sample_peak x) (max (- mn) mx)"
    by (auto simp: sample_peak_def min_def max_def abs_if)
  ultimately show ?case using Cons by simp
qed simp

lemma fold_max_max: "fold max xs (max a b) = max a (fold max xs (b :: real))"
proof (induction xs arbitrary: b)
  case (Cons x xs)
  have "max x (max a b) = max a (max x b)" by (simp add: max.left_commute)
  then show ?case using Cons [of "max x b"] by (simp only: fold_simps)
qed simp

lemma fold_max_start: "0 \<le> a \<Longrightarrow> fold max xs (a :: real) = max a (fold max xs 0)"
  using fold_max_max [of xs a 0] by simp

lemma flt_bounds: "0 < FLT_MIN" "FLT_MIN < 1" "- FLT_MAX < FLT_MIN"
  by (simp_all add: FLT_MIN_def FLT_MAX_def field_simps)

lemma sample_peak_nonneg [simp]: "0 \<le> sample_peak z"
  by (simp add: sample_peak_def)

lemma min_max_peak: "(case fold min_max_step inp (FLT_MAX, FLT_MIN) of (mn, mx) \<Rightarrow> max (- mn) mx) = max FLT_MIN (peak inp)"
proof -
  have "max (- FLT_MAX) FLT_MIN = FLT_MIN" using flt_bounds by simp
  then show ?thesis unfolding min_max_fold peak_def using fold_max_start [of FLT_MIN "map sample_peak inp"] flt_bounds by simp
qed

lemma c_int_zero: "c_int x = 0 \<longleftrightarrow> \<bar>x\<bar> < 1"
  by (auto simp: c_int_def ceiling_eq_iff floor_eq_iff abs_if)

definition gain_for :: "real \<Rightarrow> real" where
  "gain_for p = (if p < 1 then 1 else factor / p)"

lemma gain_for_start: "0 \<le> p \<Longrightarrow> (if c_int (max FLT_MIN p) \<noteq> 0 then factor / max FLT_MIN p else 1) = gain_for p"
  using flt_bounds by (auto simp: c_int_zero gain_for_def max_def)

lemma peak_nonneg [simp]: "0 \<le> peak inp"
proof -
  have "0 \<le> fold max xs (a :: real)" if "0 \<le> a" for xs a using that by (induction xs arbitrary: a) auto
  then show ?thesis by (simp add: peak_def)
qed

lemma computeGainMax_peak: "computeGainMax inp = gain_for (peak inp)"
proof -
  obtain mn mx where f: "fold min_max_step inp (FLT_MAX, FLT_MIN) = (mn, mx)" by fastforce
  then have "max (- mn) mx = max FLT_MIN (peak inp)" using min_max_peak [of inp] by simp
  moreover have "(if - mn > mx then - mn else mx) = max (- mn) mx" by (simp add: max_def)
  ultimately show ?thesis unfolding computeGainMax_def f using gain_for_start [of "peak inp"]
    by (simp only: prod.case Let_def peak_nonneg)
qed

definition gain_for_var :: "real \<Rightarrow> real" where
  "gain_for_var g = (if \<bar>g\<bar> < 1 then 1 else factor / g)"

section \<open>The SSE program in mode max\<close>

fun lanes :: "(real \<Rightarrow> real \<Rightarrow> real) \<Rightarrow> m128 \<Rightarrow> real" where
  "lanes f (a0, a1, a2, a3) = f (f a0 a1) (f a2 a3)"

lemma merge_min: "merge min a = mm_set1 (lanes min a)"
  by (cases a) (simp add: merge_def mm_shuffle_def mm_set1_def Let_def numeral_eq_Suc min.assoc min.left_commute min.commute)

lemma merge_max: "merge max a = mm_set1 (lanes max a)"
  by (cases a) (simp add: merge_def mm_shuffle_def mm_set1_def Let_def numeral_eq_Suc max.assoc max.left_commute max.commute)

lemma sse_min_max_fold:
  assumes "even (length inp)"
  shows "(case fold sse_min_max (as_m128 inp) (mn, mx) of (mn, mx) \<Rightarrow> max (- lanes min mn) (lanes max mx)) =
    fold max (map sample_peak inp) (max (- lanes min mn) (lanes max mx))"
  using assms
proof (induction inp arbitrary: mn mx rule: as_m128.induct)
  case (1 x y zs)
  obtain n0 n1 n2 n3 where n: "mn = (n0, n1, n2, n3)" by (cases mn)
  obtain x0 x1 x2 x3 where m: "mx = (x0, x1, x2, x3)" by (cases mx)
  let ?q = "(Re x, Im x, Re y, Im y)"
  have neg: "- min a b = max (- a) (- b)" for a b :: real by (simp add: min_def max_def)
  have pk: "sample_peak z = max (max (- Re z) (Re z)) (max (- Im z) (Im z))" for z by (auto simp: sample_peak_def max_def abs_if)
  have "max (- lanes min (mm_op min ?q mn)) (lanes max (mm_op max ?q mx)) =
      max (sample_peak y) (max (sample_peak x) (max (- lanes min mn) (lanes max mx)))"
    unfolding n m mm_op.simps lanes.simps neg pk by (simp only: max.assoc max.left_commute max.commute)
  then show ?case using 1 by (simp add: sse_min_max_def)
qed simp_all

lemma mm_same: "mm_op f (mm_set1 a) (mm_set1 b) = mm_set1 (f a b)"
  by (simp add: mm_set1_def)

lemma lane_set1: "lane (mm_set1 a) 0 = a"
  by (simp add: mm_set1_def)

lemma sse_gain_max_peak:
  assumes "even (length inp)"
  shows "sse_gain_max (as_m128 inp) = mm_set1 (gain_for (peak inp))"
proof -
  obtain mn mx where f: "fold sse_min_max (as_m128 inp) (mm_set1 FLT_MAX, mm_set1 FLT_MIN) = (mn, mx)" by (rule prod.exhaust)
  have "max (- lanes min mn) (lanes max mx) = fold max (map sample_peak inp) (max (- FLT_MAX) FLT_MIN)"
    using sse_min_max_fold [OF assms, of "mm_set1 FLT_MAX" "mm_set1 FLT_MIN"] f by (simp add: mm_set1_def)
  also have "max (- FLT_MAX) FLT_MIN = FLT_MIN" using flt_bounds by simp
  also have "fold max (map sample_peak inp) FLT_MIN = max FLT_MIN (peak inp)"
    using fold_max_start [of FLT_MIN "map sample_peak inp"] flt_bounds by (simp add: peak_def)
  finally have e: "max (- lanes min mn) (lanes max mx) = max FLT_MIN (peak inp)" .
  show ?thesis using gain_for_start [of "peak inp"]
    by (auto simp: sse_gain_max_def f merge_min merge_max mm_same lane_set1 Let_def e [symmetric] mult.commute [of _ "-1"])
qed

section \<open>Mode var: the standard deviation\<close>

lemma mean_loop_sum: "mean_loop k m xs * of_nat (k + length xs) = m * of_nat k + sum_list xs"
proof (induction xs arbitrary: k m)
  case (Cons x xs)
  have nz: "(of_nat (k + 1) :: complex) \<noteq> 0" by (simp only: of_nat_eq_0_iff)
  have "(m + (x - m) / of_nat (k + 1)) * of_nat (k + 1) = m * of_nat (k + 1) + (x - m)"
    using nz by (simp add: distrib_right del: of_nat_add of_nat_Suc)
  then show ?case using Cons [of "k + 1" "m + (x - m) / of_nat (k + 1)"] by (simp add: algebra_simps)
qed simp

lemma mean_loop_mean: "mean_loop 0 0 xs = sum_list xs / of_nat (length xs)"
proof (cases "xs = []")
  case False
  then show ?thesis using mean_loop_sum [of 0 0 xs] by (simp add: field_simps)
qed simp

fun evens :: "'a list \<Rightarrow> 'a list" where
  "evens (x # y # zs) = x # evens zs"
| "evens xs = xs"

fun odds :: "'a list \<Rightarrow> 'a list" where
  "odds (x # y # zs) = y # odds zs"
| "odds xs = []"

definition quad :: "complex \<Rightarrow> complex \<Rightarrow> m128" where
  "quad a b = (Re a, Im a, Re b, Im b)"

lemma quad_mean_step:
  "mm_op (+) (quad a b) (mm_op (/) (mm_op (-) (quad x y) (quad a b)) (mm_set1 (real n))) =
   quad (a + (x - a) / of_nat n) (b + (y - b) / of_nat n)"
  by (simp add: quad_def mm_set1_def Re_divide_of_nat Im_divide_of_nat)

lemma sse_mean_loops:
  "even (length inp) \<Longrightarrow> sse_mean k (quad a b) (as_m128 inp) = quad (mean_loop k a (evens inp)) (mean_loop k b (odds inp))"
proof (induction inp arbitrary: k a b rule: as_m128.induct)
  case (1 x y zs)
  then have ev: "even (length zs)" by simp
  have "as_m128 (x # y # zs) = quad x y # as_m128 zs" by (simp add: quad_def)
  then show ?case unfolding evens.simps odds.simps mean_loop.simps sse_mean.simps
    using quad_mean_step [of a b x y "k + 1"] "1.IH" [OF ev] by (simp only: sse_mean.simps)
qed simp_all

lemma evens_odds:
  "even (length xs) \<Longrightarrow> length (evens xs) = length xs div 2 \<and> length (odds xs) = length xs div 2 \<and>
     sum_list (evens xs) + sum_list (odds xs) = (sum_list xs :: 'a::comm_monoid_add)"
  by (induction xs rule: odds.induct) (auto simp: add_ac)

lemma half_sum_quad: "half_sum (quad a b) = quad ((a + b) / 2) ((a + b) / 2)"
  by (simp add: half_sum_def quad_def mm_set1_def mm_shuffle_def numeral_eq_Suc add.commute)

lemma sse_mean_is_mean:
  assumes "even (length inp)"
  shows "half_sum (sse_mean 0 (mm_set1 0) (as_m128 inp)) = quad (mean_loop 0 0 inp) (mean_loop 0 0 inp)"
proof -
  have z: "mm_set1 0 = quad 0 0" by (simp add: mm_set1_def quad_def)
  have "(mean_loop 0 0 (evens inp) + mean_loop 0 0 (odds inp)) / 2 = mean_loop 0 0 inp"
  proof (cases "inp = []")
    case False
    obtain n where n: "length inp = 2 * n" using assms by (rule evenE)
    then have "n \<noteq> 0" "length (evens inp) = n" "length (odds inp) = n" "sum_list (evens inp) + sum_list (odds inp) = sum_list inp"
      using evens_odds [OF assms] False by auto
    then show ?thesis unfolding mean_loop_mean n by (simp add: add_divide_distrib [symmetric])
  qed simp
  then show ?thesis unfolding z sse_mean_loops [OF assms] half_sum_quad by simp
qed

lemma quad_var_step:
  "(let diff = mm_op (-) (quad x y) (quad m m); delta = mm_op (-) (mm_op (*) diff diff) (quad v w)
    in mm_op (+) (quad v w) (mm_op (/) delta (mm_set1 (real n)))) =
   quad (v + (squares (x - m) - v) / of_nat n) (w + (squares (y - m) - w) / of_nat n)"
  by (simp add: quad_def mm_set1_def squares_def Re_divide_of_nat Im_divide_of_nat)

lemma sse_var_loop:
  assumes "even (length inp)"
  shows "sse_var k (quad m m) (quad v w) (as_m128 inp) = (case var_loop (2 * k) m (v, w) inp of (v, w) \<Rightarrow> quad v w)"
  using assms
proof (induction inp arbitrary: k v w rule: as_m128.induct)
  case (1 x y zs)
  show ?case using "1.IH" [of "k + 1"] "1.prems" quad_var_step [of x y m v w "k + 1"]
    by (simp add: Let_def quad_def [symmetric])
qed simp_all

text \<open>Both programs compute the square of the standard deviation of the real and of the imaginary parts.\<close>

definition variance :: "complex list \<Rightarrow> complex" where
  "variance xs = (\<Sum>x\<leftarrow>xs. squares (x - sum_list xs / of_nat (length xs))) / of_nat (length xs)"

lemma var_loop_step2:
  assumes "even k"
  shows "var_loop k m (v, w) (x # y # zs) =
    var_loop (k + 2) m (v + (squares (x - m) - v) / of_nat (k div 2 + 1), w + (squares (y - m) - w) / of_nat (k div 2 + 1)) zs"
proof -
  have "k mod 2 = 0" "Suc k mod 2 \<noteq> 0" "Suc k div 2 = k div 2" using assms by (auto elim!: evenE)
  then show ?thesis by (simp add: Let_def)
qed

lemma var_loop_sum:
  assumes "even (length xs)"
  shows "(case var_loop (2 * k) m (v, w) xs of (v', w') \<Rightarrow> (v' + w') * of_nat (k + length xs div 2)) =
    (v + w) * of_nat k + (\<Sum>x\<leftarrow>xs. squares (x - m))"
  using assms
proof (induction xs arbitrary: k v w rule: as_m128.induct)
  case (1 x y zs)
  let ?n = "of_nat (k + 1) :: complex"
  have nz: "?n \<noteq> 0" by (simp only: of_nat_eq_0_iff)
  have avg: "(a + (b - a) / ?n) * ?n = a * of_nat k + b" for a b using nz by (simp add: field_simps)
  have "2 * (k + 1) = 2 * k + 2" and half: "2 * k div 2 + 1 = k + 1" and len: "k + 1 + length zs div 2 = k + length (x # y # zs) div 2" by simp_all
  note step = var_loop_step2 [of "2 * k" m v w x y zs, unfolded half, folded this(1), simplified]
  have "even (length zs)" using 1(2) by simp
  from "1.IH" [OF this, of "k + 1" "v + (squares (x - m) - v) / ?n" "w + (squares (y - m) - w) / ?n"]
  show ?case unfolding len by (simp add: step distrib_right avg del: of_nat_add of_nat_Suc) (simp add: algebra_simps)
qed simp_all

lemma var_loop_variance:
  assumes "even (length xs)" and "var_loop 0 (mean_loop 0 0 xs) (0, 0) xs = (v, w)"
  shows "(v + w) / 2 = variance xs"
proof (cases "xs = []")
  case True
  then show ?thesis using assms by (simp add: variance_def)
next
  case False
  obtain n where n: "length xs = 2 * n" using assms(1) by (rule evenE)
  then have "(v + w) * of_nat n = (\<Sum>x\<leftarrow>xs. squares (x - mean_loop 0 0 xs))"
    using var_loop_sum [OF assms(1), of 0 "mean_loop 0 0 xs" 0 0] assms(2) by simp
  moreover have "n \<noteq> 0" using n False by (cases n) auto
  ultimately  show ?thesis by (simp add: variance_def mean_loop_mean n field_simps)
qed

lemma computeGainVar_variance:
  assumes "even (length xs)"
  shows "computeGainVar var_variance xs =
    gain_for_var (max (sqrt (Re (variance xs)) * var_variance) (sqrt (Im (variance xs)) * var_variance))"
proof -
  obtain v w where v: "var_loop 0 (mean_loop 0 0 xs) (0, 0) xs = (v, w)" by fastforce
  show ?thesis unfolding computeGainVar_def v prod.case Let_def var_loop_variance [OF assms v] gain_for_var_def c_int_zero max_def
    by (auto simp: not_less)
qed

lemma sse_gain_var_variance:
  assumes "even (length xs)"
  shows "sse_gain_var var_variance (as_m128 xs) = mm_set1
    (if \<bar>sqrt (Re (variance xs)) * var_variance\<bar> < 1 then 1
     else factor / max (sqrt (Re (variance xs)) * var_variance) (sqrt (Im (variance xs)) * var_variance))"
proof -
  obtain v w where v: "var_loop 0 (mean_loop 0 0 xs) (0, 0) xs = (v, w)" by fastforce
  have z: "mm_set1 0 = quad 0 0" by (simp add: mm_set1_def quad_def)
  have "half_sum (sse_var 0 (half_sum (sse_mean 0 (mm_set1 0) (as_m128 xs))) (mm_set1 0) (as_m128 xs)) = quad (variance xs) (variance xs)"
    unfolding sse_mean_is_mean [OF assms] using sse_var_loop [OF assms, of 0 "mean_loop 0 0 xs" 0 0] v var_loop_variance [OF assms v]
    by (simp add: z half_sum_quad)
  then show ?thesis
    by (simp add: sse_gain_var_def Let_def c_int_zero) (simp add: quad_def mm_set1_def mm_shuffle_def max.commute)
qed

section \<open>Whole frames\<close>

definition block :: "nat \<Rightarrow> 'a list \<Rightarrow> nat \<Rightarrow> 'a list" where
  "block n xs k = take n (drop (k * n) xs)"

lemma block_length: "Suc k * n \<le> length xs \<Longrightarrow> length (block n xs k) = n"
  by (simp add: block_def)

lemma memread_block: "memread xs (k * n) n = (if Suc k * n \<le> length xs then Inr (block n xs k) else Inl (UndefinedBehaviour ''read''))"
  by (auto simp: memread_def block_def)

text \<open>The gain the symbol \<open>k\<close> gets.\<close>

definition gain_at :: "(complex list \<Rightarrow> real) \<Rightarrow> real \<Rightarrow> nat \<Rightarrow> complex list \<Rightarrow> nat \<Rightarrow> real" where
  "gain_at f constantGain n inp k = constantGain * f (block n inp (if k > 0 then k else 1))"

definition scaled_block :: "real \<Rightarrow> nat \<Rightarrow> complex list \<Rightarrow> nat \<Rightarrow> complex list" where
  "scaled_block g n inp k = map (\<lambda>x. x * complex_of_real g) (block n inp k)"

lemma gain_symbols:
  assumes "length inp = m * n" and "2 \<le> m" and "k \<le> m"
  shows "for_each (gain_symbol mode var_variance g n inp) [0..<k] [] =
    Inr (concat (map (\<lambda>k. scaled_block (gain_at (compute_gain mode var_variance) g n inp k) n inp k) [0..<k]))"
  using assms(3)
proof (induction k)
  case (Suc k)
  have "Suc k * n \<le> length inp" "Suc (if k > 0 then k else 1) * n \<le> length inp"
    using mult_le_mono1 [of "Suc k" m n] mult_le_mono1 [of "Suc (Suc 0)" m n] Suc.prems assms(1,2) by auto
  moreover have "(if k > 0 then k * n else n) = (if k > 0 then k else 1) * n" by simp
  ultimately show ?case using Suc
    by (simp add: for_each_append gain_symbol_def memread_block gain_at_def scaled_block_def Let_def)
qed simp

lemma gain_frame:
  assumes "0 < n" and "length inp = m * n" and "2 \<le> m"
  shows "gain_process mode var_variance normalise digGain n inp =
    Inr (concat (map (\<lambda>k. scaled_block (gain_at (compute_gain mode var_variance) (normalise * digGain) n inp k) n inp k) [0..<m]))"
  using assms gain_symbols [OF assms(2,3) order_refl] by (simp add: gain_process_def)

lemma sample_peak_scale: "sample_peak (x * complex_of_real g) = \<bar>g\<bar> * sample_peak x"
  by (simp add: sample_peak_def abs_mult max_mult_distrib_left mult.commute)

lemma peak_scale: "peak (map (\<lambda>x. x * complex_of_real g) xs) = \<bar>g\<bar> * peak xs"
proof -
  have mx: "max (\<bar>g\<bar> * a) (\<bar>g\<bar> * b) = \<bar>g\<bar> * max a b" for a b by (simp add: max_mult_distrib_left)
  have "fold max (map (\<lambda>x. sample_peak (x * complex_of_real g)) xs) (\<bar>g\<bar> * a) = \<bar>g\<bar> * fold max (map sample_peak xs) a" for a
    by (induction xs arbitrary: a) (simp_all add: sample_peak_scale mx)
  from this [of 0] show ?thesis by (simp add: peak_def o_def)
qed

lemma length_concat_const: "(\<And>i. i < m \<Longrightarrow> length (f i) = n) \<Longrightarrow> length (concat (map f [0..<m])) = m * n"
  by (induction m) auto

lemma block_concat:
  assumes "k < m" and "\<And>i. i < m \<Longrightarrow> length (f i) = n"
  shows "block n (concat (map f [0..<m])) k = f k"
proof -
  have l: "length (concat (map f [0..<i])) = i * n" if "i \<le> m" for i by (rule length_concat_const) (use that assms(2) in auto)
  have "[0..<m] = [0..<k] @ k # [Suc k..<m]" using assms(1) by (metis append_Cons append_Nil less_imp_le upt_add_eq_append upt_conv_Cons zero_le le_add_diff_inverse)
  then show ?thesis using l [of k] assms by (simp add: block_def)
qed

text \<open>
  C28. Digital gain in mode max. Of a frame of the null symbol and at least one other symbol, every symbol comes out scaled by
  one factor, so that the largest real or imaginary part of a data symbol is 32767 times the constant gain, exactly;
  only a symbol whose parts are all smaller than 1 is taken for empty and not amplified. The null symbol gets
  the factor of the first data symbol.
\<close>

theorem gain_max_full_scale:
  assumes "0 < n" and "length inp = m * n" and "2 \<le> m"
  shows "\<exists>out. gain_process GAIN_MAX var_variance normalise digGain n inp = Inr out \<and> length out = length inp \<and>
    (\<forall>k. 0 < k \<and> k < m \<longrightarrow>
      (\<exists>g. block n out k = map (\<lambda>x. x * complex_of_real g) (block n inp k) \<and>
           (k = 1 \<longrightarrow> block n out 0 = map (\<lambda>x. x * complex_of_real g) (block n inp 0))) \<and>
      peak (block n out k) = \<bar>normalise * digGain\<bar> * (if peak (block n inp k) < 1 then peak (block n inp k) else 32767))"
proof -
  let ?c = "normalise * digGain"
  let ?f = "\<lambda>k. scaled_block (gain_at computeGainMax ?c n inp k) n inp k"
  define out where "out = concat (map ?f [0..<m])"
  have run: "gain_process GAIN_MAX var_variance normalise digGain n inp = Inr out"
    using gain_frame [OF assms] by (simp add: compute_gain_def out_def)
  have fl: "length (?f i) = n" if "i < m" for i using that mult_le_mono1 [of "Suc i" m n] assms(2) by (simp add: scaled_block_def block_length)
  have b: "block n out i = ?f i" if "i < m" for i unfolding out_def by (rule block_concat [OF that]) (rule fl)
  have l: "length out = length inp" unfolding out_def assms(2) by (rule length_concat_const) (rule fl)
  have "(\<exists>g. block n out k = map (\<lambda>x. x * complex_of_real g) (block n inp k) \<and>
           (k = 1 \<longrightarrow> block n out 0 = map (\<lambda>x. x * complex_of_real g) (block n inp 0))) \<and>
      peak (block n out k) = \<bar>?c\<bar> * (if peak (block n inp k) < 1 then peak (block n inp k) else 32767)"
    if k: "0 < k \<and> k < m" for k
  proof -
    let ?g = "?c * gain_for (peak (block n inp k))"
    have g: "gain_at computeGainMax ?c n inp k = ?g" "k = 1 \<Longrightarrow> gain_at computeGainMax ?c n inp 0 = ?g"
      using k by (simp_all add: gain_at_def computeGainMax_peak)
    have bk: "block n out k = map (\<lambda>x. x * complex_of_real ?g) (block n inp k)" using b [of k] k by (simp only: scaled_block_def g(1))
    have b0: "block n out 0 = map (\<lambda>x. x * complex_of_real ?g) (block n inp 0)" if "k = 1"
      using b [of 0] k by (simp only: scaled_block_def g(2) [OF that]) (simp add: that)
    have "peak (block n out k) = \<bar>?c\<bar> * (if peak (block n inp k) < 1 then peak (block n inp k) else 32767)"
      unfolding bk peak_scale by (auto simp: gain_for_def factor_def abs_mult)
    then show ?thesis using bk b0 by blast
  qed
  then show ?thesis using run l by blast
qed

text \<open>A frame with only the null symbol: the gain is computed behind the end of the buffer.\<close>

lemma gain_needs_two_symbols:
  "0 < n \<Longrightarrow> length inp = n \<Longrightarrow> gain_process mode var_variance normalise digGain n inp = Inl (UndefinedBehaviour ''read'')"
  by (simp add: gain_process_def gain_symbol_def memread_def)

section \<open>The two programs\<close>

lemma as_m128_length: "length (as_m128 xs) = length xs div 2"
  by (induction xs rule: as_m128.induct) auto

lemma as_m128_drop: "drop h (as_m128 xs) = as_m128 (drop (2 * h) xs)"
proof (induction xs arbitrary: h rule: as_m128.induct)
  case (1 x y zs)
  then show ?case by (cases h) auto
next
  case (2 x)
  then show ?case by (cases h) auto
qed simp

lemma as_m128_take: "take h (as_m128 xs) = as_m128 (take (2 * h) xs)"
proof (induction xs arbitrary: h rule: as_m128.induct)
  case (1 x y zs)
  then show ?case by (cases h) auto
next
  case (2 x)
  then show ?case by (cases h) auto
qed simp

lemma as_m128_append: "even (length xs) \<Longrightarrow> as_m128 (xs @ ys) = as_m128 xs @ as_m128 ys"
  by (induction xs rule: as_m128.induct) auto

lemma as_m128_scale: "as_m128 (map (\<lambda>x. x * complex_of_real g) xs) = map (\<lambda>q. mm_op (*) q (mm_set1 g)) (as_m128 xs)"
  by (induction xs rule: as_m128.induct) (simp_all add: mm_set1_def)

lemma block_m128: "block h (as_m128 xs) k = as_m128 (block (2 * h) xs k)"
  by (simp add: block_def as_m128_drop as_m128_take mult.left_commute)

text \<open>Two loops whose states correspond.\<close>

definition map_result :: "('a \<Rightarrow> 'b) \<Rightarrow> 'a result \<Rightarrow> 'b result" where
  "map_result g r = (case r of Inl e \<Rightarrow> Inl e | Inr x \<Rightarrow> Inr (g x))"

lemma map_result_simps [simp]: "map_result g (Inl e) = Inl e" "map_result g (Inr x) = Inr (g x)"
  by (simp_all add: map_result_def)

lemma for_each_simulates:
  assumes "\<And>x s. x \<in> set xs \<Longrightarrow> I s \<Longrightarrow> f' x (g s) = map_result g (f x s) \<and> (\<forall>s'. f x s = Inr s' \<longrightarrow> I s')" and "I s"
  shows "for_each f' xs (g s) = map_result g (for_each f xs s)"
  using assms
proof (induction xs arbitrary: s)
  case (Cons x xs)
  have "f' x (g s) = map_result g (f x s)" by (rule Cons.prems(1) [THEN conjunct1]) (use Cons.prems(2) in auto)
  moreover have "\<forall>s'. f x s = Inr s' \<longrightarrow> I s'" by (rule Cons.prems(1) [THEN conjunct2]) (use Cons.prems(2) in auto)
  moreover have "for_each f' xs (g s') = map_result g (for_each f xs s')" if "I s'" for s'
    by (rule Cons.IH) (use Cons.prems that in auto)
  ultimately show ?case by (cases "f x s") auto
qed simp

text \<open>The symbols for which both programs decide alike whether they are empty.\<close>

definition null_alike :: "real \<Rightarrow> complex list \<Rightarrow> bool" where
  "null_alike var_variance xs =
     (\<bar>sqrt (Re (variance xs)) * var_variance\<bar> < 1 \<longleftrightarrow>
      \<bar>max (sqrt (Re (variance xs)) * var_variance) (sqrt (Im (variance xs)) * var_variance)\<bar> < 1)"

lemma sse_gain_same:
  assumes "even (length xs)" and "mode = GAIN_VAR \<Longrightarrow> null_alike var_variance xs"
  shows "sse_gain mode var_variance (as_m128 xs) = mm_set1 (compute_gain mode var_variance xs)"
  using assms
  by (cases mode) (simp_all add: sse_gain_def compute_gain_def sse_gain_fix_def computeGainFix_def sse_gain_max_peak computeGainMax_peak
      sse_gain_var_variance computeGainVar_variance gain_for_var_def null_alike_def)

lemma sse_symbol_same:
  assumes "even (length out)" and "even (length inp)"
    and "mode = GAIN_VAR \<Longrightarrow> null_alike var_variance (block (2 * h) inp (if k > 0 then k else 1))"
  shows "sse_symbol mode var_variance g h (as_m128 inp) k (as_m128 out) = map_result as_m128 (gain_symbol mode var_variance g (2 * h) inp k out) \<and>
    (\<forall>out'. gain_symbol mode var_variance g (2 * h) inp k out = Inr out' \<longrightarrow> even (length out'))"
proof -
  let ?b = "if k > 0 then k else 1"
  have e: "(if k > 0 then k * n else n) = ?b * n" for n :: nat by simp
  have fits: "Suc i * h \<le> length (as_m128 inp) \<longleftrightarrow> Suc i * (2 * h) \<le> length inp" for i using assms(2) by (auto simp: as_m128_length elim!: evenE)
  show ?thesis
  proof (cases "Suc ?b * (2 * h) \<le> length inp \<and> Suc k * (2 * h) \<le> length inp")
    case True
    then have ev: "even (length (block (2 * h) inp ?b))" "even (length (block (2 * h) inp k))" by (simp_all only: block_length) simp_all
    let ?g = "g * compute_gain mode var_variance (block (2 * h) inp ?b)"
    have same: "sse_gain mode var_variance (as_m128 (block (2 * h) inp ?b)) = mm_set1 (compute_gain mode var_variance (block (2 * h) inp ?b))"
      by (rule sse_gain_same [OF ev(1)]) (rule assms(3))
    have "mm_op (*) (sse_gain mode var_variance (block h (as_m128 inp) ?b)) (mm_set1 g) = mm_set1 ?g"
      unfolding block_m128 same mm_same by (simp only: mult.commute)
    then have "sse_symbol mode var_variance g h (as_m128 inp) k (as_m128 out) =
        Inr (as_m128 (out @ map (\<lambda>x. x * complex_of_real ?g) (block (2 * h) inp k)))"
      unfolding sse_symbol_def e memread_block fits as_m128_append [OF assms(1)] as_m128_scale using True
      by (simp only: if_True bindE_simps Let_def block_m128 simp_thms)
    moreover have "gain_symbol mode var_variance g (2 * h) inp k out = Inr (out @ map (\<lambda>x. x * complex_of_real ?g) (block (2 * h) inp k))"
      unfolding gain_symbol_def e memread_block using True by (simp only: if_True bindE_simps Let_def simp_thms)
    ultimately show ?thesis using assms(1) ev(2) by simp
  next
    case False
    then show ?thesis using fits unfolding sse_symbol_def gain_symbol_def e memread_block by (auto simp: Let_def)
  qed
qed

text \<open>
  C29. The program with SSE and the one without compute the same. For an even number of samples per symbol and in all
  three modes the gains, the outputs and the errors agree; in mode var this takes that the symbols are not taken for
  empty by one program only, since the SSE program looks at the real parts alone. (Equality is that of exact numbers.)
\<close>

theorem sse_same_as_scalar:
  assumes "even framesize" and "even (length inp)"
    and "mode = GAIN_VAR \<longrightarrow> (\<forall>k. Suc k * framesize \<le> length inp \<longrightarrow> null_alike var_variance (block framesize inp k))"
  shows "sse_process mode var_variance normalise digGain framesize (as_m128 inp) =
    map_result as_m128 (gain_process mode var_variance normalise digGain framesize inp)"
proof -
  obtain h where h: "framesize = 2 * h" using assms(1) by (rule evenE)
  obtain l where l: "length inp = 2 * l" using assms(2) by (rule evenE)
  have fs: "framesize * 8 div 16 = h" and l': "length (as_m128 inp) = l" using h l by (simp_all add: as_m128_length)
  have d: "length inp div framesize = l div h" "(length inp mod framesize = 0) = (l mod h = 0)" using h l by (simp_all flip: mult_mod_right)
  show ?thesis
  proof (cases "h = 0 \<or> l mod h \<noteq> 0")
    case True
    then show ?thesis using d fs l' h by (auto simp: sse_process_def gain_process_def Let_def)
  next
    case False
    have "for_each (sse_symbol mode var_variance (normalise * digGain) h (as_m128 inp)) [0..<l div h] (as_m128 []) =
       map_result as_m128 (for_each (gain_symbol mode var_variance (normalise * digGain) (2 * h) inp) [0..<l div h] [])"
    proof (rule for_each_simulates [where I = "\<lambda>out. even (length out)"])
      fix k and out :: "complex list"
      assume k: "k \<in> set [0..<l div h]" and out: "even (length out)"
      show "sse_symbol mode var_variance (normalise * digGain) h (as_m128 inp) k (as_m128 out) =
          map_result as_m128 (gain_symbol mode var_variance (normalise * digGain) (2 * h) inp k out) \<and>
        (\<forall>out'. gain_symbol mode var_variance (normalise * digGain) (2 * h) inp k out = Inr out' \<longrightarrow> even (length out'))"
      proof (cases "Suc (if k > 0 then k else 1) * framesize \<le> length inp")
        case True
        then show ?thesis using assms(3) h by (intro sse_symbol_same out assms(2)) simp
      next
        case False
        have e: "(if k > 0 then k * n else n) = (if k > 0 then k else 1) * n" for n :: nat by simp
        have "\<not> Suc (if k > 0 then k else 1) * h \<le> length (as_m128 inp)" using False h l l' by simp
        then show ?thesis using False h unfolding sse_symbol_def gain_symbol_def e memread_block by simp
      qed
    qed simp
    then show ?thesis using False d fs l' h by (simp add: sse_process_def gain_process_def Let_def)
  qed
qed

text \<open>The gain the SSE program does not give: the real parts are constant, the imaginary parts are not.\<close>

definition constant_real :: "complex list" where
  "constant_real = [0, 0, Complex 0 2000, Complex 0 2000]"

lemma sse_null_detection:
  "sse_gain_var 4 (as_m128 constant_real) = mm_set1 1" "computeGainVar 4 constant_real = 32767 / 4000"
proof -
  have ev: "even (length constant_real)" by (simp add: constant_real_def)
  have v: "variance constant_real = Complex 0 1000000" by (simp add: variance_def squares_def complex_eq_iff constant_real_def)
  have "sqrt 1000000 = 1000" by (rule real_sqrt_unique) simp_all
  then show "sse_gain_var 4 (as_m128 constant_real) = mm_set1 1" "computeGainVar 4 constant_real = 32767 / 4000"
    unfolding computeGainVar_variance [OF ev] sse_gain_var_variance [OF ev] v by (simp_all add: gain_for_var_def factor_def)
qed

section \<open>Examples\<close>

theorem gain_max_full_scale_witness:
  "\<exists>out. gain_process GAIN_MAX 4 1 (1 / 2) 1 [0, Complex 3 (-4)] = Inr out \<and> peak (block 1 out 1) = 32767 / 2"
proof -
  have "peak (block 1 [0, Complex 3 (-4)] 1) = 4" by (simp add: block_def peak_def sample_peak_def)
  then show ?thesis using gain_max_full_scale [of 1 "[0, Complex 3 (-4)]" 2 4 1 "1 / 2"] by fastforce
qed

theorem sse_same_as_scalar_witness:
  "sse_process GAIN_VAR 4 1 1 2 (as_m128 [0, 0, Complex 1000 1000, Complex (-1000) (-1000)]) =
   map_result as_m128 (gain_process GAIN_VAR 4 1 1 2 [0, 0, Complex 1000 1000, Complex (-1000) (-1000)])"
proof -
  let ?xs = "[0, 0, Complex 1000 1000, Complex (-1000) (-1000)]"
  have "null_alike 4 (block 2 ?xs k)" if "Suc k * 2 \<le> 4" for k
  proof -
    have "k = 0 \<or> k = 1" using that by auto
    then show ?thesis by (auto simp: null_alike_def block_def variance_def squares_def)
  qed
  then show ?thesis using sse_same_as_scalar [of 2 ?xs GAIN_VAR 4 1 1] by simp
qed

end
