(* ===== verification/Fir_Filter.thy ===== *)
theory Fir_Filter
  imports Ofdm_Generator
begin

text \<open>
  The FIR filter (\<open>src/FIRFilter.cpp\<close>) with its two programs, with and without SSE, and the equalizer for the CIC
  filter of the hardware (\<open>src/CicEqualizer.cpp\<close>). Real and imaginary parts alternate in the buffers of the filter.
  The numbers are those of any commutative ring, so that rounding is left out.
\<close>

section \<open>The taps file\<close>

text \<open>
  A file is the list of its numbers; \<open>ends_with_space\<close> says that something follows the last one, so that reading it
  does not reach the end of the file. The message does not tell where.
\<close>

record taps_file =
  tf_numbers :: "real list"
  ends_with_space :: bool

definition default_filter_taps :: "real list" where
  "default_filter_taps =
     (let half = [-0.00110450468492, 0.00120703084394, -0.000840645749122, -0.000187368263141,
        0.00184351124335, -0.00355578539893, 0.00419321097434, -0.00254214904271,
        -0.00183473504148, 0.00781436730176, -0.0125957569107, 0.0126200336963,
        -0.00537294941023, -0.00866683479398, 0.0249746385962, -0.0356550291181,
        0.0319730602205, -0.00795613788068, -0.0363943465054, 0.0938014090061,
        -0.151176810265, 0.193567320704]
      in half @ [0.791776955128] @ rev half)"

text \<open>Reading \<open>n_taps\<close> numbers; the end of the file raises, even if it ends right after the last one.\<close>

fun read_taps :: "nat \<Rightarrow> taps_file \<Rightarrow> real list \<Rightarrow> real list result" where
  "read_taps 0 f taps = Inr taps"
| "read_taps (Suc n) f taps =
     (case tf_numbers f of
        [] \<Rightarrow> Inl (RuntimeError ''FIRFilter: EOF reached'')
      | x # xs \<Rightarrow> if xs = [] \<and> \<not> ends_with_space f then Inl (RuntimeError ''FIRFilter: EOF reached'')
                  else read_taps n (f\<lparr>tf_numbers := xs\<rparr>) (taps @ [x]))"

definition load_filter_taps :: "(string \<Rightarrow> taps_file option) \<Rightarrow> string \<Rightarrow> real list result" where
  "load_filter_taps files tapsFile =
     (if tapsFile = ''default'' then Inr default_filter_taps
      else case files tapsFile of
             None \<Rightarrow> Inl (RuntimeError ''FIRFilter: Could not open taps file'')
           | Some f \<Rightarrow>
               (case tf_numbers f of
                  [] \<Rightarrow> Inl (RuntimeError ''FIRFilter: taps file has invalid format.'')
                | n # xs \<Rightarrow> if \<lfloor>n\<rfloor> \<le> 0 then Inl (RuntimeError ''FIRFilter: taps file has invalid format.'')
                            else read_taps (nat \<lfloor>n\<rfloor>) (f\<lparr>tf_numbers := xs\<rparr>) []))"

text \<open>The filter's settings, as remote control changes them: the taps stay as they are when the file can not be loaded.\<close>

record fir_filter =
  m_taps_file :: string
  m_taps :: "real list"

definition FIRFilter :: "(string \<Rightarrow> taps_file option) \<Rightarrow> string \<Rightarrow> fir_filter result" where
  "FIRFilter files taps_file =
     bindE (load_filter_taps files taps_file) (\<lambda>taps. Inr \<lparr>m_taps_file = taps_file, m_taps = taps\<rparr>)"

definition fir_set_parameter :: "(string \<Rightarrow> taps_file option) \<Rightarrow> string \<Rightarrow> string \<Rightarrow> fir_filter \<Rightarrow> fir_filter result" where
  "fir_set_parameter files parameter new f =
     (if parameter = ''ntaps'' then Inl (ParameterError ''Parameter 'ntaps' is read-only'')
      else if parameter = ''tapsfile''
      then as_parameter_error (bindE (load_filter_taps files new) (\<lambda>taps. Inr (f\<lparr>m_taps := taps, m_taps_file := new\<rparr>)))
      else Inl (ParameterError ''Parameter is not exported by controllable firfilter''))"

section \<open>The convolution\<close>

text \<open>Four values with SSE: \<open>j\<close> runs over the taps.\<close>

definition sse_four :: "'a::comm_ring_1 list \<Rightarrow> 'a list \<Rightarrow> nat \<Rightarrow> 'a list result" where
  "sse_four taps inp i =
     for_each (\<lambda>j acc.
       bindE (memread inp (i + 2 * j) 4) (\<lambda>x.
       bindE (rd taps j) (\<lambda>t. Inr (map2 (\<lambda>a b. a + b * t) acc x)))) [0..<length taps] [0, 0, 0, 0]"

function sse_blocks :: "'a::comm_ring_1 list \<Rightarrow> 'a list \<Rightarrow> nat \<Rightarrow> nat \<Rightarrow> 'a list \<Rightarrow> (nat \<times> 'a list) result" where
  "sse_blocks taps inp limit i out =
     (if i < limit
      then bindE (sse_four taps inp i) (\<lambda>x. bindE (memcpy out i x) (sse_blocks taps inp limit (i + 4)))
      else Inr (i, out))"
  by pat_completeness auto
termination by (relation "measure (\<lambda>(taps, inp, limit, i, out). limit - i)") auto

text \<open>The loop without SSE, unrolled: the four sums are kept in the output.\<close>

definition add_tap :: "'a::comm_ring_1 list \<Rightarrow> 'a list \<Rightarrow> nat \<Rightarrow> nat \<Rightarrow> 'a list \<Rightarrow> 'a list result" where
  "add_tap taps inp k j out =
     bindE (rd out k) (\<lambda>y. bindE (rd inp (k + 2 * j)) (\<lambda>x. bindE (rd taps j) (\<lambda>t. wr out k (y + x * t))))"

definition scalar_four :: "'a::comm_ring_1 list \<Rightarrow> 'a list \<Rightarrow> nat \<Rightarrow> 'a list \<Rightarrow> 'a list result" where
  "scalar_four taps inp i out =
     bindE (for_each (\<lambda>k out. wr out k 0) [i, i + 1, i + 2, i + 3] out)
       (for_each (\<lambda>j. for_each (\<lambda>k. add_tap taps inp k j) [i, i + 1, i + 2, i + 3]) [0..<length taps])"

function scalar_blocks :: "'a::comm_ring_1 list \<Rightarrow> 'a list \<Rightarrow> nat \<Rightarrow> nat \<Rightarrow> 'a list \<Rightarrow> (nat \<times> 'a list) result" where
  "scalar_blocks taps inp limit i out =
     (if i < limit then bindE (scalar_four taps inp i out) (scalar_blocks taps inp limit (i + 4)) else Inr (i, out))"
  by pat_completeness auto
termination by (relation "measure (\<lambda>(taps, inp, limit, i, out). limit - i)") auto

text \<open>The end of the frame, where the convolution is cut off: \<open>j\<close> runs while \<open>i + 2 * j\<close> is inside.\<close>

definition cut_off :: "'a::comm_ring_1 list \<Rightarrow> 'a list \<Rightarrow> nat \<Rightarrow> 'a list \<Rightarrow> 'a list result" where
  "cut_off taps inp i out =
     bindE (wr out i 0) (for_each (\<lambda>j. add_tap taps inp i j) [0..<(length inp - i + 1) div 2])"

definition fir_sse :: "(nat \<Rightarrow> 'a list) \<Rightarrow> 'a::comm_ring_1 list \<Rightarrow> 'a list \<Rightarrow> 'a list result" where
  "fir_sse fresh taps inp =
     bindE (sse_blocks taps inp (usub (length inp) (2 * length taps)) 0 (fresh (length inp))) (\<lambda>(i, out).
     for_each (cut_off taps inp) [i..<length inp] out)"

definition fir_scalar :: "(nat \<Rightarrow> 'a list) \<Rightarrow> 'a::comm_ring_1 list \<Rightarrow> 'a list \<Rightarrow> 'a list result" where
  "fir_scalar fresh taps inp =
     bindE (scalar_blocks taps inp (usub (length inp) (2 * length taps)) 0 (fresh (length inp))) (\<lambda>(i, out).
     for_each (cut_off taps inp) [i..<length inp] out)"

text \<open>The filtered value \<open>i\<close>: the taps over what follows in the same frame.\<close>

definition filtered :: "'a::comm_ring_1 list \<Rightarrow> 'a list \<Rightarrow> nat \<Rightarrow> 'a" where
  "filtered taps inp i = (\<Sum>j\<leftarrow>[0..<length taps]. if i + 2 * j < length inp then inp ! (i + 2 * j) * taps ! j else 0)"

definition partial :: "'a::comm_ring_1 list \<Rightarrow> 'a list \<Rightarrow> nat \<Rightarrow> nat \<Rightarrow> 'a" where
  "partial taps inp i n = (\<Sum>j\<leftarrow>[0..<n]. inp ! (i + 2 * j) * taps ! j)"

lemma partial_filtered:
  assumes "n \<le> length taps" and "\<And>j. j < length taps \<Longrightarrow> i + 2 * j < length inp \<longleftrightarrow> j < n"
  shows "partial taps inp i n = filtered taps inp i"
proof -
  obtain m where m: "length taps = n + m" using assms(1) le_Suc_ex by blast
  have "[0..<length taps] = [0..<n] @ [n..<n + m]" unfolding m using upt_add_eq_append [of 0 n m] by simp
  moreover have "map (\<lambda>j. if i + 2 * j < length inp then inp ! (i + 2 * j) * taps ! j else 0) [n..<n + m] = map (\<lambda>_. 0) [n..<n + m]"
    using assms(2) m by (intro map_cong) auto
  moreover have "map (\<lambda>j. if i + 2 * j < length inp then inp ! (i + 2 * j) * taps ! j else 0) [0..<n] = map (\<lambda>j. inp ! (i + 2 * j) * taps ! j) [0..<n]"
    using assms by (intro map_cong) auto
  ultimately show ?thesis unfolding partial_def filtered_def by (simp only: map_append sum_list_append sum_list_0 add_0_right)
qed

lemma four: "n = 4 \<Longrightarrow> length xs = n \<Longrightarrow> xs = [xs ! 0, xs ! 1, xs ! 2, xs ! 3]"
  by (auto simp: numeral_eq_Suc length_Suc_conv)

lemma sse_four_ok:
  assumes "i + 2 * length taps + 2 \<le> length inp"
  shows "sse_four taps inp i = Inr (map (\<lambda>k. partial taps inp k (length taps)) [i, i + 1, i + 2, i + 3])"
proof -
  have "for_each (\<lambda>j acc. bindE (memread inp (i + 2 * j) 4) (\<lambda>x. bindE (rd taps j) (\<lambda>t. Inr (map2 (\<lambda>a b. a + b * t) acc x)))) [0..<n] [0, 0, 0, 0]
      = Inr (map (\<lambda>k. partial taps inp k n) [i, i + 1, i + 2, i + 3])" if "n \<le> length taps" for n
    using that
  proof (induction n)
    case (Suc n)
    have "take 4 (drop (i + 2 * n) inp) = [inp ! (i + 2 * n), inp ! (i + 1 + 2 * n), inp ! (i + 2 + 2 * n), inp ! (i + 3 + 2 * n)]"
      using four [OF refl, of "take 4 (drop (i + 2 * n) inp)"] Suc.prems assms by (simp add: add_ac)
    then show ?case using Suc assms by (simp add: for_each_append partial_def)
  qed (simp add: partial_def)
  then show ?thesis by (simp add: sse_four_def)
qed

text \<open>A loop that changes one element at a time.\<close>

lemma for_each_pointwise:
  assumes "\<And>k ys. k \<in> set ks \<Longrightarrow> length ys = length xs \<Longrightarrow> step k ys = Inr (ys[k := g k (ys ! k)])" and "distinct ks" and "\<forall>k \<in> set ks. k < length xs"
  shows "\<exists>ys. for_each step ks xs = Inr ys \<and> length ys = length xs \<and> (\<forall>t < length xs. ys ! t = (if t \<in> set ks then g t (xs ! t) else xs ! t))"
  using assms
proof (induction ks arbitrary: xs)
  case (Cons k ks)
  let ?xs = "xs[k := g k (xs ! k)]"
  have "\<exists>ys. for_each step ks ?xs = Inr ys \<and> length ys = length ?xs \<and> (\<forall>t < length ?xs. ys ! t = (if t \<in> set ks then g t (?xs ! t) else ?xs ! t))"
    by (rule Cons.IH) (use Cons.prems in auto)
  moreover have "step k xs = Inr ?xs" using Cons.prems(1) by simp
  ultimately show ?case using Cons.prems(2,3) by (auto simp: nth_list_update)
qed simp

lemma scalar_four_ok:
  assumes fits: "i + 2 * length taps + 2 \<le> length inp" and len: "length out = length inp" and taps: "taps \<noteq> []"
  shows "scalar_four taps inp i out = memcpy out i (map (\<lambda>k. partial taps inp k (length taps)) [i, i + 1, i + 2, i + 3])"
proof -
  define ks where "ks = [i, i + 1, i + 2, i + 3]"
  have ks: "distinct ks" "\<forall>k \<in> set ks. k < length inp" "k \<in> set ks \<longleftrightarrow> i \<le> k \<and> k < i + 4" for k
    using fits taps by (auto simp: neq_Nil_conv ks_def)
  obtain o1 where o1: "for_each (\<lambda>k out. wr out k 0) ks out = Inr o1" "length o1 = length inp"
    "\<forall>t < length inp. o1 ! t = (if t \<in> set ks then 0 else out ! t)"
    using for_each_pointwise [of ks out "\<lambda>k out. wr out k 0" "\<lambda>_ _. 0", OF _ ks(1)] ks(2) len by auto
  have "\<exists>o2. for_each (\<lambda>j. for_each (\<lambda>k. add_tap taps inp k j) ks) [0..<n] o1 = Inr o2 \<and> length o2 = length inp \<and>
      (\<forall>t < length inp. o2 ! t = (if t \<in> set ks then partial taps inp t n else out ! t))" if "n \<le> length taps" for n
    using that
  proof (induction n)
    case 0
    then show ?case using o1 by (simp add: partial_def)
  next
    case (Suc n)
    then obtain o2 where o2: "for_each (\<lambda>j. for_each (\<lambda>k. add_tap taps inp k j) ks) [0..<n] o1 = Inr o2" "length o2 = length inp"
      "\<forall>t < length inp. o2 ! t = (if t \<in> set ks then partial taps inp t n else out ! t)" by auto
    have "add_tap taps inp k n ys = Inr (ys[k := ys ! k + inp ! (k + 2 * n) * taps ! n])" if "k \<in> set ks" "length ys = length o2" for k ys
      using that ks(2) o2(2) fits Suc.prems ks(3) [of k] by (simp add: add_tap_def)
    from for_each_pointwise [of ks o2 "\<lambda>k. add_tap taps inp k n" "\<lambda>k y. y + inp ! (k + 2 * n) * taps ! n", OF this ks(1)]
    obtain o3 where "for_each (\<lambda>k. add_tap taps inp k n) ks o2 = Inr o3" "length o3 = length inp"
      "\<forall>t < length inp. o3 ! t = (if t \<in> set ks then o2 ! t + inp ! (t + 2 * n) * taps ! n else o2 ! t)" using ks(2) o2(2) by auto
    then show ?case using o2 by (auto simp: for_each_append partial_def)
  qed
  then obtain o2 where o2: "for_each (\<lambda>j. for_each (\<lambda>k. add_tap taps inp k j) ks) [0..<length taps] o1 = Inr o2" "length o2 = length inp"
    "\<forall>t < length inp. o2 ! t = (if t \<in> set ks then partial taps inp t (length taps) else out ! t)" by blast
  obtain o3 where o3: "memcpy out i (map (\<lambda>k. partial taps inp k (length taps)) ks) = Inr o3"
    using fits taps len by (cases taps) (auto simp: memcpy_def ks_def)
  have "o2 = o3"
  proof (rule nth_equalityI)
    show "length o2 = length o3" using o2(2) memcpy_length [OF o3] len by simp
    fix t assume "t < length o2"
    then have t: "t < length out" using o2(2) len by simp
    have "map (\<lambda>k. partial taps inp k (length taps)) ks ! (t - i) = partial taps inp t (length taps)" if "i \<le> t \<and> t < i + 4"
      using that by (auto simp: ks_def numeral_eq_Suc less_Suc_eq le_Suc_eq)
    then show "o2 ! t = o3 ! t" using o2(3) memcpy_nth [OF o3 t] ks(3) [of t] t len by (auto simp: ks_def)
  qed
  then show ?thesis unfolding scalar_four_def ks_def [symmetric] o1(1) bindE_simps o2(1) o3 by simp
qed

section \<open>A frame\<close>

declare sse_blocks.simps [simp del] scalar_blocks.simps [simp del]

lemma block_fits:
  assumes "i < length inp - 2 * length taps" and "even i" and "even (length inp)"
  shows "i + 2 * length taps + 2 \<le> length inp"
proof -
  obtain a where a: "i = 2 * a" using assms(2) by (rule evenE)
  obtain b where b: "length inp = 2 * b" using assms(3) by (rule evenE)
  show ?thesis using assms(1) unfolding a b by presburger
qed

lemma sse_block_step:
  assumes "i < length inp - 2 * length taps" and "even i" and "even (length inp)" and "taps \<noteq> []" and "length out = length inp"
  shows "\<exists>out'. sse_four taps inp i = Inr (map (\<lambda>k. partial taps inp k (length taps)) [i, i + 1, i + 2, i + 3]) \<and>
    memcpy out i (map (\<lambda>k. partial taps inp k (length taps)) [i, i + 1, i + 2, i + 3]) = Inr out' \<and> length out' = length inp \<and>
    i + 4 \<le> length inp \<and> (\<forall>t < i + 4. out' ! t = (if t < i then out ! t else filtered taps inp t))"
proof -
  note fits = block_fits [OF assms(1-3)]
  let ?x = "map (\<lambda>k. partial taps inp k (length taps)) [i, i + 1, i + 2, i + 3]"
  have room: "i + 4 \<le> length inp" using fits assms(4) by (cases taps) auto
  then obtain out' where o: "memcpy out i ?x = Inr out'" using assms(5) by (simp add: memcpy_def)
  have "out' ! t = (if t < i then out ! t else filtered taps inp t)" if t: "t < i + 4" for t
  proof (cases "t < i")
    case True
    then show ?thesis using memcpy_nth [OF o, of t] room assms(5) by auto
  next
    case False
    have "?x ! (t - i) = partial taps inp t (length taps)" using False t by (auto simp: numeral_eq_Suc less_Suc_eq le_Suc_eq not_less)
    moreover have "partial taps inp t (length taps) = filtered taps inp t" by (rule partial_filtered) (use t fits in auto)
    ultimately show ?thesis using memcpy_nth [OF o, of t] room assms(5) False t by auto
  qed
  then show ?thesis using sse_four_ok [OF fits] o memcpy_length [OF o] assms(5) room by auto
qed

lemma sse_blocks_ok:
  assumes "even i" and "even (length inp)" and "taps \<noteq> []" and "length out = length inp" and "i \<le> length inp"
    and "\<forall>t < i. out ! t = filtered taps inp t"
  shows "\<exists>i' out'. sse_blocks taps inp (length inp - 2 * length taps) i out = Inr (i', out') \<and> length inp - 2 * length taps \<le> i' \<and> i' \<le> length inp \<and>
    length out' = length inp \<and> (\<forall>t < i'. out' ! t = filtered taps inp t)"
  using assms
proof (induction "length inp - 2 * length taps - i" arbitrary: i out rule: less_induct)
  case less
  show ?case
  proof (cases "i < length inp - 2 * length taps")
    case False
    then show ?thesis using less.prems by (simp add: sse_blocks.simps)
  next
    case True
    obtain out' where o: "sse_four taps inp i = Inr (map (\<lambda>k. partial taps inp k (length taps)) [i, i + 1, i + 2, i + 3])"
      "memcpy out i (map (\<lambda>k. partial taps inp k (length taps)) [i, i + 1, i + 2, i + 3]) = Inr out'" "length out' = length inp" "i + 4 \<le> length inp"
      "\<forall>t < i + 4. out' ! t = (if t < i then out ! t else filtered taps inp t)" using sse_block_step [OF True less.prems(1-4)] by blast
    have "sse_blocks taps inp (length inp - 2 * length taps) i out = sse_blocks taps inp (length inp - 2 * length taps) (i + 4) out'"
      by (subst sse_blocks.simps) (simp only: True if_True o(1) bindE_simps o(2))
    moreover have "length inp - 2 * length taps - (i + 4) < length inp - 2 * length taps - i" using True by simp
    ultimately show ?thesis using less.hyps [of "i + 4" out'] less.prems o(3-5) by simp
  qed
qed

text \<open>The unrolled loop does the same, block by block.\<close>

lemma scalar_blocks_same:
  assumes "even i" and "even (length inp)" and "taps \<noteq> []" and "length out = length inp"
  shows "scalar_blocks taps inp (length inp - 2 * length taps) i out = sse_blocks taps inp (length inp - 2 * length taps) i out"
  using assms
proof (induction "length inp - 2 * length taps - i" arbitrary: i out rule: less_induct)
  case less
  show ?case
  proof (cases "i < length inp - 2 * length taps")
    case False
    then show ?thesis by (simp add: sse_blocks.simps scalar_blocks.simps)
  next
    case True
    obtain out' where o: "sse_four taps inp i = Inr (map (\<lambda>k. partial taps inp k (length taps)) [i, i + 1, i + 2, i + 3])"
      "memcpy out i (map (\<lambda>k. partial taps inp k (length taps)) [i, i + 1, i + 2, i + 3]) = Inr out'" "length out' = length inp"
      using sse_block_step [OF True less.prems] by blast
    have s: "scalar_four taps inp i out = Inr out'"
      using scalar_four_ok [OF block_fits [OF True less.prems(1,2)] less.prems(4,3)] o(2) by simp
    have "length inp - 2 * length taps - (i + 4) < length inp - 2 * length taps - i" using True by simp
    then have "scalar_blocks taps inp (length inp - 2 * length taps) (i + 4) out' = sse_blocks taps inp (length inp - 2 * length taps) (i + 4) out'"
      using less.hyps [of "i + 4" out'] less.prems o(3) by simp
    then show ?thesis
      by (subst sse_blocks.simps, subst scalar_blocks.simps) (simp only: True if_True o(1) s bindE_simps o(2))
  qed
qed

lemma add_taps:
  assumes "k < length out" and "\<And>j. j < n \<Longrightarrow> k + 2 * j < length inp" and "n \<le> length taps"
  shows "for_each (\<lambda>j. add_tap taps inp k j) [0..<n] (out[k := 0]) = Inr (out[k := partial taps inp k n])"
  using assms
proof (induction n)
  case (Suc n)
  then show ?case by (simp add: for_each_append add_tap_def partial_def)
qed (simp add: partial_def)

lemma cut_off_ok:
  assumes "length inp - 2 * length taps \<le> i" and "i < length inp" and "length out = length inp"
  shows "cut_off taps inp i out = Inr (out[i := filtered taps inp i])"
proof -
  let ?n = "(length inp - i + 1) div 2"
  have n: "j < ?n \<longleftrightarrow> i + 2 * j < length inp" for j using assms(2) by auto
  have "?n \<le> length taps" using assms(1,2) by simp
  then show ?thesis using add_taps [of i out ?n inp taps] n partial_filtered [of ?n taps i inp] assms(2,3) by (simp add: cut_off_def)
qed

lemma fir_sse_ok:
  assumes "even (length inp)" and "taps \<noteq> []" and "2 * length taps \<le> length inp" and "\<forall>n. length (fresh n) = n"
  shows "fir_sse fresh taps inp = Inr (map (filtered taps inp) [0..<length inp])" "fir_scalar fresh taps inp = fir_sse fresh taps inp"
proof -
  have l: "length (fresh (length inp)) = length inp" using assms(4) by simp
  have u: "usub (length inp) (2 * length taps) = length inp - 2 * length taps" using assms(3) by simp
  have even0: "even (0 :: nat)" by simp
  obtain i out where o: "sse_blocks taps inp (length inp - 2 * length taps) 0 (fresh (length inp)) = Inr (i, out)"
    "length inp - 2 * length taps \<le> i" "i \<le> length inp" "length out = length inp" "\<forall>t < i. out ! t = filtered taps inp t"
    using sse_blocks_ok [OF even0 assms(1,2) l] by auto
  have "cut_off taps inp k ys = Inr (ys[k := filtered taps inp k])" if "k \<in> set [i..<length inp]" "length ys = length out" for k ys
    using that o(2,4) by (intro cut_off_ok) auto
  from for_each_pointwise [of "[i..<length inp]" out "cut_off taps inp" "\<lambda>k _. filtered taps inp k", OF this distinct_upt]
  obtain ys where ys: "for_each (cut_off taps inp) [i..<length inp] out = Inr ys" "length ys = length inp"
    "\<forall>t < length inp. ys ! t = (if t \<in> set [i..<length inp] then filtered taps inp t else out ! t)" using o(4) by auto
  have "ys = map (filtered taps inp) [0..<length inp]" using ys(2,3) o(5) by (intro nth_equalityI) auto
  then show "fir_sse fresh taps inp = Inr (map (filtered taps inp) [0..<length inp])" using o(1) ys(1) u by (simp add: fir_sse_def)
  show "fir_scalar fresh taps inp = fir_sse fresh taps inp"
    using scalar_blocks_same [OF even0 assms(1,2) l] by (simp add: fir_sse_def fir_scalar_def u)
qed

lemma for_each_last_fails: "(\<And>s. \<not> is_ok (f x s)) \<Longrightarrow> \<not> is_ok (for_each f (xs @ [x]) s)"
  by (simp add: for_each_append is_ok_def split: sum.split) (metis sum.simps(5) sum.simps(6) obj_sumE)

lemma fir_short:
  assumes "even (length inp)" and "inp \<noteq> []" and "length inp < 2 * length taps" and "2 * length taps \<le> 2 ^ 64"
  shows "\<not> is_ok (fir_sse fresh taps inp)" "\<not> is_ok (fir_scalar fresh taps inp)"
proof -
  obtain n where n: "length taps = Suc n" using assms(3) by (cases "length taps") auto
  have far: "length inp \<le> 2 * n" using assms(1,3) n by (auto elim!: evenE)
  have "0 < length inp" using assms(2) by simp
  then have "2 * length taps - length inp < 2 ^ 64" using assms(3,4) by linarith
  then have lim: "0 < usub (length inp) (2 * length taps)" using assms(3) by (simp add: usub_def)
  have "\<not> is_ok (sse_four taps inp 0)" unfolding sse_four_def n upt_Suc_append [OF le0]
    by (rule for_each_last_fails) (use far assms(2) in \<open>simp add: memread_def\<close>)
  then show "\<not> is_ok (fir_sse fresh taps inp)" using lim by (simp add: fir_sse_def is_ok_bindE) (subst sse_blocks.simps, simp add: bindE_Inr_iff is_ok_def split: sum.splits)
  have "\<not> is_ok (add_tap taps inp 0 n out)" for out using far by (simp add: add_tap_def rd_def is_ok_bindE)
  then have "\<not> is_ok (for_each (\<lambda>k. add_tap taps inp k n) [0, 0 + 1, 0 + 2, 0 + 3] out)" for out by (rule for_each_first_fails)
  from for_each_last_fails [where f = "\<lambda>j. for_each (\<lambda>k. add_tap taps inp k j) [0, 0 + 1, 0 + 2, 0 + 3]" and x = n, OF this]
  have "\<not> is_ok (scalar_four taps inp 0 out)" for out unfolding scalar_four_def n upt_Suc_append [OF le0] is_ok_bindE by blast
  then obtain e where "scalar_four taps inp 0 (fresh (length inp)) = Inl e" by (metis is_ok_simps(2) obj_sumE)
  then show "\<not> is_ok (fir_scalar fresh taps inp)" using lim by (simp add: fir_scalar_def scalar_blocks.simps [of _ _ _ 0])
qed

text \<open>
  C30. The FIR filter is the sum over its taps. On a frame of complex samples at least as long as the taps, the program with SSE
  and the unrolled one both stay inside the buffers and put out, for every value, the taps times the values that
  follow in the frame (of the same part, real or imaginary), cut off at the end of the frame. On a shorter frame both
  leave the buffers.
\<close>

theorem fir_filter_exact:
  assumes "even (length inp)" and "inp \<noteq> []" and "taps \<noteq> []" and "2 * length taps \<le> 2 ^ 64" and "\<forall>n. length (fresh n) = n"
  shows "if 2 * length taps \<le> length inp
    then fir_sse fresh taps inp = Inr (map (filtered taps inp) [0..<length inp]) \<and>
      fir_scalar fresh taps inp = Inr (map (filtered taps inp) [0..<length inp])
    else \<not> is_ok (fir_sse fresh taps inp) \<and> \<not> is_ok (fir_scalar fresh taps inp)"
  using fir_sse_ok [OF assms(1,3) _ assms(5)] fir_short [OF assms(1,2) _ assms(4)] by auto

text \<open>A taps file must not end right after its last tap.\<close>

lemma read_taps_ok:
  "n \<le> length (tf_numbers f) \<Longrightarrow> (ends_with_space f \<or> n < length (tf_numbers f)) \<Longrightarrow> read_taps n f taps = Inr (taps @ take n (tf_numbers f))"
proof (induction n arbitrary: f taps)
  case (Suc n)
  then obtain x xs where "tf_numbers f = x # xs" by (cases "tf_numbers f") auto
  then show ?case using Suc by auto
qed simp

lemma read_taps_at_end:
  "tf_numbers f \<noteq> [] \<Longrightarrow> length (tf_numbers f) \<le> n \<Longrightarrow> \<not> ends_with_space f \<Longrightarrow> read_taps n f taps = Inl (RuntimeError ''FIRFilter: EOF reached'')"
proof (induction n arbitrary: f taps)
  case (Suc n)
  then obtain x xs where "tf_numbers f = x # xs" by (cases "tf_numbers f") auto
  then show ?case using Suc by auto
qed simp

lemma taps_file_end:
  assumes "tapsFile \<noteq> ''default''" and "files tapsFile = Some \<lparr>tf_numbers = real (length taps) # taps, ends_with_space = b\<rparr>" and "taps \<noteq> []"
  shows "load_filter_taps files tapsFile = (if b then Inr taps else Inl (RuntimeError ''FIRFilter: EOF reached''))"
  using assms read_taps_ok [of "length taps" "\<lparr>tf_numbers = taps, ends_with_space = True\<rparr>" "[]"]
    read_taps_at_end [of "\<lparr>tf_numbers = taps, ends_with_space = False\<rparr>" "length taps" "[]"]
  by (auto simp: load_filter_taps_def)

section \<open>The equalizer\<close>

text \<open>The frequency of the carrier at place \<open>i\<close> of the symbol.\<close>

definition cic_k :: "nat \<Rightarrow> nat \<Rightarrow> int" where
  "cic_k nbCarriers i =
     (if i < (nbCarriers + 1) div 2 then int i + (if odd nbCarriers then 0 else 1) else int i - int nbCarriers)"

definition cic_gain :: "nat \<Rightarrow> nat \<Rightarrow> int \<Rightarrow> nat \<Rightarrow> real" where
  "cic_gain nbCarriers spacing R i =
     (let angle = pi * real_of_int (cic_k nbCarriers i) / real spacing
      in if cic_k nbCarriers i = 0 then 1 else (\<bar>sin (angle / real_of_int R) / sin (angle * 1)\<bar> * real_of_int R * 1) ^ 4)"

definition CicEqualizer :: "nat \<Rightarrow> nat \<Rightarrow> int \<Rightarrow> real list" where
  "CicEqualizer nbCarriers spacing R = map (cic_gain nbCarriers spacing R) [0..<nbCarriers]"

fun cic_symbol :: "real list \<Rightarrow> complex list \<Rightarrow> complex list \<Rightarrow> complex list \<times> complex list" where
  "cic_symbol (f # fs) (x # xs) out = cic_symbol fs xs (out @ [x * complex_of_real f])"
| "cic_symbol _ xs out = (xs, out)"

function cic_symbols :: "real list \<Rightarrow> complex list \<Rightarrow> complex list \<Rightarrow> complex list" where
  "cic_symbols fs xs out =
     (if xs = [] \<or> fs = [] then out else case cic_symbol fs xs out of (xs', out') \<Rightarrow> cic_symbols fs xs' out')"
  by pat_completeness auto

lemma cic_symbol_eq: "cic_symbol fs xs out = (drop (length fs) xs, out @ map2 (\<lambda>x f. x * complex_of_real f) xs fs)"
  by (induction fs xs out rule: cic_symbol.induct) auto

termination cic_symbols
  by (relation "measure (\<lambda>(fs, xs, out). length xs)") (auto simp: cic_symbol_eq)

definition cic_process :: "real list \<Rightarrow> complex list \<Rightarrow> complex list result" where
  "cic_process fs inp =
     (if fs = [] then Inl (UndefinedBehaviour ''division by zero'')
      else if length inp mod length fs \<noteq> 0 then Inl (RuntimeError ''CicEqualizer::process input size not valid!'')
      else Inr (cic_symbols fs inp []))"

declare cic_symbols.simps [simp del]

lemma cic_symbols_nth:
  assumes "fs \<noteq> []" and "length xs = m * length fs"
  shows "cic_symbols fs xs out = out @ map (\<lambda>i. xs ! i * complex_of_real (fs ! (i mod length fs))) [0..<length xs]"
  using assms
proof (induction m arbitrary: xs out)
  case 0
  then show ?case by (simp add: cic_symbols.simps)
next
  case (Suc m)
  let ?n = "length fs" and ?g = "\<lambda>xs i. xs ! i * complex_of_real (fs ! (i mod length fs))"
  have ne: "xs \<noteq> []" "?n \<le> length xs" using Suc.prems by auto
  have "map2 (\<lambda>x f. x * complex_of_real f) xs fs = map (?g xs) [0..<?n]"
    using ne by (intro nth_equalityI) auto
  moreover have "map (?g (drop ?n xs)) [0..<length xs - ?n] = map (?g xs) [?n..<length xs]"
    using ne by (intro nth_equalityI) auto
  moreover have "[0..<length xs] = [0..<?n] @ [?n..<length xs]" using ne(2) upt_add_eq_append [of 0 ?n "length xs - ?n"] by simp
  ultimately show ?case using Suc.IH [of "drop ?n xs"] Suc.prems ne by (subst cic_symbols.simps) (simp add: cic_symbol_eq)
qed

text \<open>
  The equalizer weighs a carrier by the frequency at which the OFDM generator puts it: place \<open>i\<close> of the symbol goes to bin
  \<open>k mod N\<close> of the transform, where \<open>k\<close> is the frequency the equalizer computes with.
\<close>

lemma cic_frequency:
  assumes "OfdmGenerator nbSymbols K N True = Inr d" and "K < N" and "i < K"
  shows "spectrum zero d inp ip ! nat (cic_k K i mod int N) = inp ! (ip + i)"
proof -
  obtain h where h: "K = 2 * h \<or> K = 2 * h + 1" by (metis evenE oddE)
  show ?thesis
  proof (cases "i < (K + 1) div 2")
    case True
    let ?c = "i + (if odd K then 0 else 1)"
    have c: "cic_k K i = int ?c" "?c < N" using True assms(2) h by (auto simp: cic_k_def)
    then have "cic_k K i mod int N = int ?c" by (simp only: mod_pos_pos_trivial of_nat_0_le_iff of_nat_less_iff)
    then have k: "nat (cic_k K i mod int N) = ?c" by simp
    have "\<not> N - K div 2 \<le> ?c" using True assms(2) h by auto
    then show ?thesis unfolding k using assms True c(2) by (auto simp: spectrum_def OfdmGenerator_def Let_def split: if_splits)
  next
    case False
    have "cic_k K i mod int N = (int i - int K + int N) mod int N" using False by (simp add: cic_k_def)
    also have "\<dots> = int i - int K + int N" by (rule mod_pos_pos_trivial) (use assms(2,3) in simp_all)
    also have "\<dots> = int (N - (K - i))" using assms(2,3) by (simp add: of_nat_diff)
    finally have k: "nat (cic_k K i mod int N) = N - (K - i)" by simp
    have half: "K div 2 + (K + 1) div 2 = K" by linarith
    have "N - K div 2 \<le> N - (K - i)" "N - (K - i) < N" "(K + 1) div 2 + (N - (K - i) - (N - K div 2)) = i"
      using False assms(2,3) half by auto
    moreover have "spectrum zero d inp ip ! b = inp ! (ip + ((K + 1) div 2 + (b - (N - K div 2))))" if "N - K div 2 \<le> b" "b < N" for b
    proof -
      have "myNegDst d = N - K div 2" "myNegSrc d = (K + 1) div 2" "og_spacing d = N"
        using assms(1,2) by (auto simp: OfdmGenerator_def Let_def)
      then show ?thesis using that by (simp add: spectrum_def add.assoc)
    qed
    ultimately show ?thesis unfolding k by metis
  qed
qed

lemma cic_process_ok:
  "0 < K \<Longrightarrow> length inp = m * K \<Longrightarrow> cic_process (CicEqualizer K N R) inp =
     Inr (map (\<lambda>i. inp ! i * complex_of_real (cic_gain K N R (i mod K))) [0..<length inp])"
  using cic_symbols_nth [of "CicEqualizer K N R" inp m "[]"] by (auto simp: cic_process_def CicEqualizer_def)

section \<open>Example\<close>

theorem fir_filter_exact_witness:
  "fir_sse (\<lambda>n. replicate n 0) [2 :: int, 1] [1, 2, 3, 4, 5, 6, 7, 8] = Inr [5, 8, 11, 14, 17, 20, 14, 16] \<and>
   \<not> is_ok (fir_scalar (\<lambda>n. replicate n 0) [2 :: int, 1] [1, 2])"
proof
  show "fir_sse (\<lambda>n. replicate n 0) [2 :: int, 1] [1, 2, 3, 4, 5, 6, 7, 8] = Inr [5, 8, 11, 14, 17, 20, 14, 16]"
    using fir_filter_exact [of "[1, 2, 3, 4, 5, 6, 7, 8]" "[2 :: int, 1]" "\<lambda>n. replicate n 0"] by (simp add: filtered_def)
  show "\<not> is_ok (fir_scalar (\<lambda>n. replicate n 0) [2 :: int, 1] [1, 2])"
    using fir_filter_exact [of "[1, 2]" "[2 :: int, 1]" "\<lambda>n. replicate n 0"] by simp
qed

end
