(* ===== verification/Memless_Poly.thy ===== *)
theory Memless_Poly
  imports Threadsafe_Queue Complex_Main
begin

text \<open>
  The digital predistortion (\<open>src/MemlessPoly.cpp\<close>): every sample is corrected on its own, by polynomials of its
  power or by a table, and the frame is shared out to worker threads. Numbers are real, without rounding. The
  lemmas show that the threads compute what one thread would, and what the settings do when written and read back.
\<close>

section \<open>Settings\<close>

definition NUM_COEFS :: nat where
  "NUM_COEFS = 5"

definition lut_entries :: nat where
  "lut_entries = 32"

datatype dpd_type = odd_only_poly | lookup_table

record memless_poly =
  m_dpd_settings_valid :: bool
  m_dpd_type :: dpd_type
  m_coefs_am :: "real list"
  m_coefs_pm :: "real list"
  m_lut_scalefactor :: real
  m_lut :: "complex list"
  m_coefs_file :: string

text \<open>
  A stream is the list of the words it holds, numbers or complex numbers in parentheses, and whether something
  follows the last word. Reading a number from an empty stream or from a complex number fails, and all
  reading after it; then the variable keeps what it held.
\<close>

datatype stream_token = Num real | Cpx complex

record coef_stream =
  tokens :: "stream_token list"
  ends_with_space :: bool
  failed :: bool

definition stream_eof :: "coef_stream \<Rightarrow> bool" where
  "stream_eof s = (tokens s = [] \<and> \<not> ends_with_space s)"

text \<open>\<open>None\<close>: nothing was read.\<close>

definition read_number :: "coef_stream \<Rightarrow> real option \<times> coef_stream" where
  "read_number s =
     (if failed s then (None, s)
      else case tokens s of
             [] \<Rightarrow> (None, s\<lparr>failed := True, ends_with_space := False\<rparr>)
           | Num x # ts \<Rightarrow> (Some x, s\<lparr>tokens := ts\<rparr>)
           | Cpx z # ts \<Rightarrow> (None, s\<lparr>failed := True\<rparr>))"

section \<open>Loading\<close>

text \<open>The coefficients: the end of the stream raises. Reading a variable that was never set is undefined.\<close>

fun read_coefs :: "nat \<Rightarrow> coef_stream \<Rightarrow> real list \<Rightarrow> real list result" where
  "read_coefs 0 s acc = Inr acc"
| "read_coefs (Suc n) s acc =
     (case read_number s of (v, s) \<Rightarrow>
        if stream_eof s then Inl (RuntimeError ''MemlessPoly: coefs file invalid !'')
        else case v of None \<Rightarrow> Inl (UndefinedBehaviour ''uninitialised'') | Some a \<Rightarrow> read_coefs n s (acc @ [a]))"

fun read_lut :: "nat \<Rightarrow> coef_stream \<Rightarrow> complex list \<Rightarrow> complex list result" where
  "read_lut 0 s acc = Inr acc"
| "read_lut (Suc n) s acc =
     (case read_number s of (v, s) \<Rightarrow>
        case v of None \<Rightarrow> Inl (UndefinedBehaviour ''uninitialised'') | Some a \<Rightarrow> read_lut n s (acc @ [complex_of_real a]))"

definition load_poly :: "coef_stream \<Rightarrow> memless_poly \<Rightarrow> memless_poly result" where
  "load_poly s m =
     (case read_number s of (n_coefs, s) \<Rightarrow>
        case n_coefs of None \<Rightarrow> Inl (RuntimeError ''MemlessPoly: coefs file has invalid format.'')
        | Some n \<Rightarrow>
            if n \<le> 0 then Inl (RuntimeError ''MemlessPoly: coefs file has invalid format.'')
            else if n \<noteq> real NUM_COEFS then Inl (RuntimeError ''MemlessPoly: invalid number of coefs'')
            else bindE (read_coefs (2 * NUM_COEFS) s []) (\<lambda>coefs.
              Inr (m\<lparr>m_dpd_type := odd_only_poly, m_coefs_am := take NUM_COEFS coefs, m_coefs_pm := drop NUM_COEFS coefs,
                     m_dpd_settings_valid := True\<rparr>)))"

definition load_lut :: "coef_stream \<Rightarrow> memless_poly \<Rightarrow> memless_poly result" where
  "load_lut s m =
     (case read_number s of (scalefactor, s) \<Rightarrow>
        case scalefactor of None \<Rightarrow> Inl (UndefinedBehaviour ''uninitialised'')
        | Some scale \<Rightarrow> bindE (read_lut lut_entries s []) (\<lambda>lut.
            Inr (m\<lparr>m_dpd_type := lookup_table, m_lut_scalefactor := scale, m_lut := lut, m_dpd_settings_valid := True\<rparr>)))"

text \<open>\<open>None\<close> as the stream: the file could not be opened.\<close>

definition load_coefficients :: "coef_stream option \<Rightarrow> memless_poly \<Rightarrow> memless_poly result" where
  "load_coefficients stream m =
     (case stream of
        None \<Rightarrow> Inl (RuntimeError ''MemlessPoly: Could not open file with coefs!'')
      | Some s \<Rightarrow>
          (case read_number s of
             (None, s) \<Rightarrow> Inl (UndefinedBehaviour ''uninitialised'')
           | (Some format, s) \<Rightarrow>
               if format = 1 then load_poly s m
               else if format = 2 then load_lut s m
               else Inr (m\<lparr>m_dpd_settings_valid := False\<rparr>)))"

text \<open>What the remote control reports: every number on a line of its own.\<close>

definition serialise_coefficients :: "memless_poly \<Rightarrow> coef_stream" where
  "serialise_coefficients m =
     \<lparr>tokens = (if m_dpd_settings_valid m
        then case m_dpd_type m of
               odd_only_poly \<Rightarrow> Num 1 # Num (real (length (m_coefs_am m))) # map Num (m_coefs_am m) @ map Num (m_coefs_pm m)
             | lookup_table \<Rightarrow> Num 2 # Num (real (length (m_lut m))) # Num (m_lut_scalefactor m) # map Cpx (m_lut m)
        else []),
      ends_with_space = True, failed = False\<rparr>"

text \<open>
  \<open>set_parameter\<close>; a run time error is reported as one of the parameter. \<open>files\<close> are the files, \<open>stream\<close> the value as a stream;
  what is written to the file is not part of the state.
\<close>

text \<open>
  Remote control. \<open>files\<close> holds what can be read from each file; coefficients that were set are written back to the file they
  would be loaded from at the next start (an error of writing is not noticed, and not modelled).
\<close>

definition poly_set_parameter ::
    "string \<Rightarrow> string \<Rightarrow> coef_stream \<Rightarrow> memless_poly \<times> (string \<Rightarrow> coef_stream option) \<Rightarrow>
      (memless_poly \<times> (string \<Rightarrow> coef_stream option)) result" where
  "poly_set_parameter parameter value_name stream s =
     (case s of (m, files) \<Rightarrow>
        if parameter = ''ncoefs'' then Inl (ParameterError ''Parameter 'ncoefs' is read-only'')
        else if parameter = ''coeffile''
        then as_parameter_error (bindE (load_coefficients (files value_name) m) (\<lambda>m. Inr (m\<lparr>m_coefs_file := value_name\<rparr>, files)))
        else if parameter = ''coefs''
        then as_parameter_error (bindE (load_coefficients (Some stream) m) (\<lambda>m. Inr (m, files(m_coefs_file m \<mapsto> stream))))
        else Inl (ParameterError ''Parameter is not exported by controllable memlesspoly''))"

section \<open>A sample\<close>

fun horner :: "real list \<Rightarrow> real \<Rightarrow> real" where
  "horner [] x = 0"
| "horner (c # cs) x = c + x * horner cs x"

definition cos_approx :: "real \<Rightarrow> real" where
  "cos_approx p = (let s = p * p in 1 - s * (- 0.5 + s * (0.486666 + s * (- 0.00138888))))"

definition sin_approx :: "real \<Rightarrow> real" where
  "sin_approx p = (let s = p * p in p * (1 + s * (0.166666 + s * 0.00833333)))"

definition coeff_sample :: "real list \<Rightarrow> real list \<Rightarrow> complex \<Rightarrow> complex" where
  "coeff_sample coefs_am coefs_pm x =
     (let mag_sq = Re x * Re x + Im x * Im x;
          amplitude_correction = horner coefs_am mag_sq;
          phase_correction = - 1 * horner coefs_pm mag_sq
      in x * complex_of_real amplitude_correction * Complex (cos_approx phase_correction) (sin_approx phase_correction))"

text \<open>\<open>lrintf\<close>, of which 32 bits are kept; the upper five are the index.\<close>

definition lut_index :: "real \<Rightarrow> complex \<Rightarrow> nat" where
  "lut_index scalefactor x = unat (shr (of_int (round (cmod x * scalefactor)) :: u32) 27)"

definition lut_sample :: "complex list \<Rightarrow> real \<Rightarrow> complex \<Rightarrow> complex" where
  "lut_sample lut scalefactor x = x * lut ! lut_index scalefactor x"

definition corrected_sample :: "memless_poly \<Rightarrow> complex \<Rightarrow> complex" where
  "corrected_sample m =
     (case m_dpd_type m of odd_only_poly \<Rightarrow> coeff_sample (m_coefs_am m) (m_coefs_pm m) | lookup_table \<Rightarrow> lut_sample (m_lut m) (m_lut_scalefactor m))"

section \<open>The threads\<close>

text \<open>One sample written.\<close>

definition write_sample :: "(complex \<Rightarrow> complex) \<Rightarrow> complex list \<Rightarrow> nat \<Rightarrow> complex list \<Rightarrow> complex list result" where
  "write_sample f inp i out = bindE (rd inp i) (\<lambda>x. wr out i (f x))"

text \<open>
  What a worker is given, a worker with its two queues and the place it has reached, and the pool with the place of the thread
  that calls \<open>internal_process\<close>. The loops over samples stop between two of them, so that the threads can run in any order.
\<close>

record input_data =
  dat_poly :: memless_poly
  dat_start :: nat
  dat_stop :: nat

datatype worker_at = Popping | Applying input_data nat

record worker_t =
  in_queue :: "input_data ts_queue"
  out_queue :: "int ts_queue"
  wk_at :: worker_at

datatype main_at = Pushing nat | Applying_rest nat | Joining nat | Finished | Crashed error

record pool =
  pl_main :: main_at
  pl_workers :: "worker_t list"
  pl_out :: "complex list"

definition idle_worker :: worker_t where
  "idle_worker = \<lparr>in_queue = ThreadsafeQueue, out_queue = ThreadsafeQueue, wk_at = Popping\<rparr>"

definition pool_start :: "nat \<Rightarrow> complex list \<Rightarrow> pool" where
  "pool_start num_threads out = \<lparr>pl_main = Pushing 0, pl_workers = replicate num_threads idle_worker, pl_out = out\<rparr>"

definition set_worker :: "nat \<Rightarrow> worker_t \<Rightarrow> pool \<Rightarrow> pool" where
  "set_worker w wk p = p\<lparr>pl_workers := (pl_workers p)[w := wk]\<rparr>"

definition after_write :: "(complex list \<Rightarrow> pool) \<Rightarrow> complex list result \<Rightarrow> pool \<Rightarrow> pool" where
  "after_write next_state r p = (case r of Inl e \<Rightarrow> p\<lparr>pl_main := Crashed e\<rparr> | Inr out \<Rightarrow> next_state out)"

text \<open>
  The main thread gives every worker its part, does the rest itself, and waits for every worker. Without workers the rest is
  the frame. \<open>None\<close>: it waits, or has finished. A wakeup is only requested when the workers are stopped.
\<close>

definition main_step :: "memless_poly \<Rightarrow> complex list \<Rightarrow> pool \<Rightarrow> pool option" where
  "main_step m inp p =
     (let num_threads = length (pl_workers p); sizeOut = length (pl_out p); step = sizeOut div num_threads
      in case pl_main p of
           Pushing w \<Rightarrow>
             if w < num_threads
             then (let wk = pl_workers p ! w; dat = \<lparr>dat_poly = m, dat_start = w * step, dat_stop = w * step + step\<rparr>
                   in Some ((set_worker w (wk\<lparr>in_queue := fst (push dat 0 (in_queue wk))\<rparr>) p)\<lparr>pl_main := Pushing (w + 1)\<rparr>))
             else Some (p\<lparr>pl_main := Applying_rest (num_threads * step)\<rparr>)
         | Applying_rest i \<Rightarrow>
             if i < sizeOut
             then Some (after_write (\<lambda>out. p\<lparr>pl_out := out, pl_main := Applying_rest (i + 1)\<rparr>) (write_sample (corrected_sample m) inp i (pl_out p)) p)
             else Some (p\<lparr>pl_main := Joining 0\<rparr>)
         | Joining w \<Rightarrow>
             if w < num_threads
             then (let wk = pl_workers p ! w
                   in case wait_and_pop 1 (out_queue wk) of
                        (q, Inr (Popped ret)) \<Rightarrow> Some ((set_worker w (wk\<lparr>out_queue := q\<rparr>) p)\<lparr>pl_main := Joining (w + 1)\<rparr>)
                      | (q, Inr _) \<Rightarrow> None
                      | (q, Inl e) \<Rightarrow> Some (p\<lparr>pl_main := Crashed e\<rparr>))
             else Some (p\<lparr>pl_main := Finished\<rparr>)
         | _ \<Rightarrow> None)"

definition worker_step :: "complex list \<Rightarrow> nat \<Rightarrow> pool \<Rightarrow> pool option" where
  "worker_step inp w p =
     (let wk = pl_workers p ! w
      in case wk_at wk of
           Popping \<Rightarrow>
             (case wait_and_pop 1 (in_queue wk) of
                (q, Inr (Popped dat)) \<Rightarrow> Some (set_worker w (wk\<lparr>in_queue := q, wk_at := Applying dat (dat_start dat)\<rparr>) p)
              | (q, Inr _) \<Rightarrow> None
              | (q, Inl e) \<Rightarrow> Some (p\<lparr>pl_main := Crashed e\<rparr>))
         | Applying dat i \<Rightarrow>
             if i < dat_stop dat
             then Some (after_write (\<lambda>out. set_worker w (wk\<lparr>wk_at := Applying dat (i + 1)\<rparr>) (p\<lparr>pl_out := out\<rparr>))
                    (write_sample (corrected_sample (dat_poly dat)) inp i (pl_out p)) p)
             else Some (set_worker w (wk\<lparr>wk_at := Popping, out_queue := fst (push 1 0 (out_queue wk))\<rparr>) p))"

inductive pool_step :: "memless_poly \<Rightarrow> complex list \<Rightarrow> pool \<Rightarrow> pool \<Rightarrow> bool" for m inp where
  by_main: "main_step m inp p = Some p' \<Longrightarrow> pool_step m inp p p'"
| by_worker: "w < length (pl_workers p) \<Longrightarrow> worker_step inp w p = Some p' \<Longrightarrow> pool_step m inp p p'"

text \<open>Without valid settings as many bytes are copied as there are samples, of eight bytes each.\<close>

definition poly_copy :: "'b list \<Rightarrow> 'b list \<Rightarrow> 'b list result" where
  "poly_copy in_bytes out_bytes = bindE (memread in_bytes 0 (length out_bytes div 8)) (memcpy out_bytes 0)"

text \<open>
  \<open>internal_process\<close>: the output buffer it leaves, \<open>enc\<close> being how a sample is stored; \<open>out\<close> is the output buffer before, which has got the
  length of the input.
\<close>

inductive poly_process :: "(complex \<Rightarrow> 'b list) \<Rightarrow> memless_poly \<Rightarrow> nat \<Rightarrow> complex list \<Rightarrow> complex list \<Rightarrow> 'b list result \<Rightarrow> bool"
  for enc m num_threads inp out where
  corrected: "m_dpd_settings_valid m \<Longrightarrow> (pool_step m inp)\<^sup>*\<^sup>* (pool_start num_threads out) p \<Longrightarrow> pl_main p = Finished \<Longrightarrow>
    poly_process enc m num_threads inp out (Inr (concat (map enc (pl_out p))))"
| crashed: "m_dpd_settings_valid m \<Longrightarrow> (pool_step m inp)\<^sup>*\<^sup>* (pool_start num_threads out) p \<Longrightarrow> pl_main p = Crashed e \<Longrightarrow>
    poly_process enc m num_threads inp out (Inl e)"
| copied: "\<not> m_dpd_settings_valid m \<Longrightarrow>
    poly_process enc m num_threads inp out (poly_copy (concat (map enc inp)) (concat (map enc out)))"

section \<open>The threads together\<close>

definition holds :: "(complex \<Rightarrow> complex) \<Rightarrow> complex list \<Rightarrow> complex list \<Rightarrow> nat set \<Rightarrow> bool" where
  "holds f inp out I \<longleftrightarrow> (\<forall>i \<in> I. out ! i = f (inp ! i))"

lemma holds_write:
  "holds f inp out I \<Longrightarrow> holds f inp (out[i := f (inp ! i)]) I"
  "holds f inp out {a..<i} \<Longrightarrow> i < length out \<Longrightarrow> holds f inp (out[i := f (inp ! i)]) {a..<Suc i}"
proof -
  show "holds f inp out I \<Longrightarrow> holds f inp (out[i := f (inp ! i)]) I" for I
    unfolding holds_def by (metis nth_list_update_eq nth_list_update_neq list_update_beyond not_less)
  then show "holds f inp out {a..<i} \<Longrightarrow> i < length out \<Longrightarrow> holds f inp (out[i := f (inp ! i)]) {a..<Suc i}"
    by (auto simp: holds_def nth_list_update less_Suc_eq)
qed

lemma write_sample_ok: "i < length inp \<Longrightarrow> length out = length inp \<Longrightarrow> write_sample f inp i out = Inr (out[i := f (inp ! i)])"
  by (simp add: write_sample_def)

text \<open>The part of worker \<open>w\<close>, and the places a worker can be at between being given it and the end of the wait for it.\<close>

definition part_of :: "memless_poly \<Rightarrow> nat \<Rightarrow> nat \<Rightarrow> input_data" where
  "part_of m step w = \<lparr>dat_poly = m, dat_start = w * step, dat_stop = w * step + step\<rparr>"

definition busy :: "memless_poly \<Rightarrow> complex list \<Rightarrow> complex list \<Rightarrow> input_data \<Rightarrow> worker_t \<Rightarrow> bool" where
  "busy m inp out dat wk \<longleftrightarrow>
     wk = idle_worker\<lparr>in_queue := \<lparr>the_queue = [dat], wakeup_requested = False\<rparr>\<rparr> \<or>
     (\<exists>i. wk = idle_worker\<lparr>wk_at := Applying dat i\<rparr> \<and> dat_start dat \<le> i \<and> i \<le> dat_stop dat \<and> holds (corrected_sample m) inp out {dat_start dat..<i}) \<or>
     wk = idle_worker\<lparr>out_queue := \<lparr>the_queue = [1], wakeup_requested = False\<rparr>\<rparr> \<and> holds (corrected_sample m) inp out {dat_start dat..<dat_stop dat}"

fun main_pushed :: "main_at \<Rightarrow> nat \<Rightarrow> bool" where
  "main_pushed (Pushing k) w = (w < k)"
| "main_pushed _ w = True"

fun main_joined :: "main_at \<Rightarrow> nat \<Rightarrow> bool" where
  "main_joined (Joining k) w = (w < k)"
| "main_joined Finished w = True"
| "main_joined _ w = False"

fun main_ok :: "memless_poly \<Rightarrow> complex list \<Rightarrow> complex list \<Rightarrow> nat \<Rightarrow> nat \<Rightarrow> main_at \<Rightarrow> bool" where
  "main_ok m inp out n step (Pushing k) = (k \<le> n)"
| "main_ok m inp out n step (Applying_rest i) = (n * step \<le> i \<and> i \<le> length inp \<and> holds (corrected_sample m) inp out {n * step..<i})"
| "main_ok m inp out n step (Joining k) = (k \<le> n \<and> holds (corrected_sample m) inp out {n * step..<length inp})"
| "main_ok m inp out n step Finished = holds (corrected_sample m) inp out {n * step..<length inp}"
| "main_ok m inp out n step (Crashed e) = False"

definition worker_ok :: "memless_poly \<Rightarrow> complex list \<Rightarrow> complex list \<Rightarrow> nat \<Rightarrow> main_at \<Rightarrow> nat \<Rightarrow> worker_t \<Rightarrow> bool" where
  "worker_ok m inp out step here w wk \<longleftrightarrow>
     (if \<not> main_pushed here w then wk = idle_worker
      else if main_joined here w then wk = idle_worker \<and> holds (corrected_sample m) inp out {w * step..<w * step + step}
      else busy m inp out (part_of m step w) wk)"

definition pool_ok :: "memless_poly \<Rightarrow> complex list \<Rightarrow> nat \<Rightarrow> pool \<Rightarrow> bool" where
  "pool_ok m inp n p \<longleftrightarrow>
     length (pl_workers p) = n \<and> length (pl_out p) = length inp \<and> main_ok m inp (pl_out p) n (length inp div n) (pl_main p) \<and>
     (\<forall>w < n. worker_ok m inp (pl_out p) (length inp div n) (pl_main p) w (pl_workers p ! w))"

text \<open>The number of steps that are left.\<close>

fun main_left :: "nat \<Rightarrow> nat \<Rightarrow> nat \<Rightarrow> main_at \<Rightarrow> nat" where
  "main_left n step sz (Pushing k) = (n - k) * (step + 3) + (sz - n * step) + n + 3"
| "main_left n step sz (Applying_rest i) = (sz - i) + n + 2"
| "main_left n step sz (Joining k) = (n - k) + 1"
| "main_left n step sz _ = 0"

definition worker_left :: "worker_t \<Rightarrow> nat" where
  "worker_left wk =
     (case wk_at wk of
        Popping \<Rightarrow> sum_list (map (\<lambda>dat. dat_stop dat - dat_start dat + 2) (the_queue (in_queue wk)))
      | Applying dat i \<Rightarrow> dat_stop dat - i + 1)"

definition pool_left :: "complex list \<Rightarrow> nat \<Rightarrow> pool \<Rightarrow> nat" where
  "pool_left inp n p = main_left n (length inp div n) (length inp) (pl_main p) + sum_list (map worker_left (pl_workers p))"

lemma busy_write: "busy m inp out dat wk \<Longrightarrow> busy m inp (out[i := corrected_sample m (inp ! i)]) dat wk"
  unfolding busy_def using holds_write(1) by blast

lemma worker_ok_write: "worker_ok m inp out step here w wk \<Longrightarrow> worker_ok m inp (out[i := corrected_sample m (inp ! i)]) step here w wk"
  unfolding worker_ok_def using holds_write(1) busy_write by metis

lemma main_ok_write: "main_ok m inp out n step here \<Longrightarrow> main_ok m inp (out[i := corrected_sample m (inp ! i)]) n step here"
  by (cases here) (simp_all add: holds_write(1))

lemma sum_workers:
  fixes f :: "worker_t \<Rightarrow> nat"
  shows "w < length ws \<Longrightarrow> sum_list (map f (ws[w := wk])) + f (ws ! w) = sum_list (map f ws) + f wk"
proof (induction ws arbitrary: w)
  case (Cons x ws)
  then show ?case by (cases w) auto
qed simp

lemma left_update:
  assumes "w < length ws" "worker_left (ws ! w) + a = worker_left wk + b"
  shows "sum_list (map worker_left ws) + a = sum_list (map worker_left (ws[w := wk])) + b"
  using sum_workers [OF assms(1), of worker_left wk] assms(2) by linarith

lemma step_inside: "w < n \<Longrightarrow> w * (sz div n) + sz div n \<le> (sz :: nat)"
proof -
  assume "w < n"
  then have "Suc w * (sz div n) \<le> n * (sz div n)" by (intro mult_le_mono1) simp
  then show ?thesis by (simp add: add.commute) (meson le_trans times_div_less_eq_dividend)
qed

lemmas queue_simps = wait_and_pop_def push_def ThreadsafeQueue_def idle_worker_def

lemma worker_step_ok:
  assumes ok: "pool_ok m inp n p" and w: "w < n" and s: "worker_step inp w p = Some p'"
  shows "pool_ok m inp n p' \<and> pool_left inp n p = Suc (pool_left inp n p')"
proof -
  let ?ws = "pl_workers p" and ?step = "length inp div n" and ?f = "corrected_sample m"
  let ?dat = "part_of m ?step w"
  have len: "length ?ws = n" "length (pl_out p) = length inp" using ok by (simp_all add: pool_ok_def)
  have wl: "w < length ?ws" using w len by simp
  have wk: "worker_ok m inp (pl_out p) ?step (pl_main p) w (?ws ! w)" using ok w by (simp add: pool_ok_def)
  have "busy m inp (pl_out p) ?dat (?ws ! w)"
    using wk s by (auto simp: worker_ok_def worker_step_def queue_simps split: if_splits)
  moreover have at: "main_pushed (pl_main p) w" "\<not> main_joined (pl_main p) w"
    using wk s by (auto simp: worker_ok_def worker_step_def queue_simps split: if_splits)
  ultimately consider
      (start) "?ws ! w = idle_worker\<lparr>in_queue := \<lparr>the_queue = [?dat], wakeup_requested = False\<rparr>\<rparr>"
    | (work) i where "?ws ! w = idle_worker\<lparr>wk_at := Applying ?dat i\<rparr>" "dat_start ?dat \<le> i" "i \<le> dat_stop ?dat" "holds ?f inp (pl_out p) {dat_start ?dat..<i}"
    | (stop) "?ws ! w = idle_worker\<lparr>out_queue := \<lparr>the_queue = [1], wakeup_requested = False\<rparr>\<rparr>"
    unfolding busy_def by blast
  then show ?thesis
  proof cases
    case start
    let ?new = "idle_worker\<lparr>wk_at := Applying ?dat (dat_start ?dat)\<rparr>"
    have p': "p' = set_worker w ?new p" using s by (simp add: worker_step_def start queue_simps)
    have "worker_ok m inp (pl_out p) ?step (pl_main p) w ?new" using at by (auto simp: worker_ok_def busy_def holds_def part_of_def)
    moreover have l: "worker_left (?ws ! w) + 0 = worker_left ?new + 1" by (simp add: start worker_left_def part_of_def idle_worker_def)
    ultimately show ?thesis using ok w left_update [OF wl l]
      by (auto simp: p' pool_ok_def pool_left_def set_worker_def nth_list_update)
  next
    case work
    show ?thesis
    proof (cases "i < dat_stop ?dat")
      case True
      let ?new = "idle_worker\<lparr>wk_at := Applying ?dat (i + 1)\<rparr>" and ?out = "(pl_out p)[i := ?f (inp ! i)]"
      have i: "i < length inp" using True step_inside [OF w, of "length inp"] by (simp add: part_of_def)
      have p': "p' = set_worker w ?new (p\<lparr>pl_out := ?out\<rparr>)"
        using s True i len(2) by (simp add: worker_step_def work(1) idle_worker_def part_of_def write_sample_ok after_write_def)
      have "worker_ok m inp ?out ?step (pl_main p) w ?new"
        using at work(2,4) True holds_write(2) [OF work(4)] i len(2) by (auto simp: worker_ok_def busy_def)
      moreover have l: "worker_left (?ws ! w) + 0 = worker_left ?new + 1" using True by (simp add: work(1) worker_left_def idle_worker_def)
      ultimately show ?thesis using ok w left_update [OF wl l] worker_ok_write main_ok_write
        by (auto simp: p' pool_ok_def pool_left_def set_worker_def nth_list_update)
    next
      case False
      let ?new = "idle_worker\<lparr>out_queue := \<lparr>the_queue = [1], wakeup_requested = False\<rparr>\<rparr>"
      have i: "i = dat_stop ?dat" using False work(3) by simp
      have p': "p' = set_worker w ?new p" using s False by (simp add: worker_step_def work(1) queue_simps)
      have "worker_ok m inp (pl_out p) ?step (pl_main p) w ?new" using at work(4) by (auto simp: worker_ok_def busy_def i)
      moreover have l: "worker_left (?ws ! w) + 0 = worker_left ?new + 1" by (simp add: work(1) i worker_left_def queue_simps)
      ultimately show ?thesis using ok w left_update [OF wl l]
        by (auto simp: p' pool_ok_def pool_left_def set_worker_def nth_list_update)
    qed
  next
    case stop
    then show ?thesis using s by (simp add: worker_step_def queue_simps)
  qed
qed

lemma worker_ok_same:
  "main_pushed here w = main_pushed there w \<Longrightarrow> main_joined here w = main_joined there w \<Longrightarrow> worker_ok m inp out step here w wk = worker_ok m inp out step there w wk"
  by (simp add: worker_ok_def)

lemma main_step_ok:
  assumes ok: "pool_ok m inp n p" and s: "main_step m inp p = Some p'"
  shows "pool_ok m inp n p' \<and> pool_left inp n p = Suc (pool_left inp n p')"
proof -
  let ?ws = "pl_workers p" and ?step = "length inp div n" and ?f = "corrected_sample m"
  have len: "length ?ws = n" "length (pl_out p) = length inp" using ok by (simp_all add: pool_ok_def)
  have wk: "worker_ok m inp (pl_out p) ?step (pl_main p) w (?ws ! w)" if "w < n" for w using ok that by (simp add: pool_ok_def)
  have main: "main_ok m inp (pl_out p) n ?step (pl_main p)" using ok by (simp add: pool_ok_def)
  have covered: "n * ?step \<le> length inp" by simp
  show ?thesis
  proof (cases "pl_main p")
    case (Pushing k)
    show ?thesis
    proof (cases "k < n")
      case True
      let ?new = "idle_worker\<lparr>in_queue := \<lparr>the_queue = [part_of m ?step k], wakeup_requested = False\<rparr>\<rparr>"
      have idle: "?ws ! k = idle_worker" using wk [OF True] by (simp add: worker_ok_def Pushing)
      have p': "p' = (set_worker k ?new p)\<lparr>pl_main := Pushing (k + 1)\<rparr>"
        using s True by (simp add: main_step_def Pushing len idle queue_simps part_of_def Let_def)
      have "worker_ok m inp (pl_out p) ?step (Pushing (k + 1)) w (?ws[k := ?new] ! w)" if "w < n" for w
        using wk [OF that] True len by (cases "w = k") (auto simp: worker_ok_def busy_def Pushing nth_list_update)
      moreover have "worker_left (?ws ! k) + (?step + 2) = worker_left ?new + 0"
        by (simp add: idle worker_left_def part_of_def idle_worker_def ThreadsafeQueue_def)
      then have "sum_list (map worker_left ?ws) + (?step + 2) = sum_list (map worker_left (?ws[k := ?new]))"
        using left_update [of k ?ws "?step + 2" ?new 0] True len by simp
      moreover have "main_left n ?step (length inp) (Pushing k) = main_left n ?step (length inp) (Pushing (k + 1)) + (?step + 3)"
      proof -
        have "n - k = Suc (n - Suc k)" using True by simp
        then have "(n - k) * (?step + 3) = (n - Suc k) * (?step + 3) + (?step + 3)" by (simp only: mult_Suc add.commute)
        moreover have "a = b + c \<Longrightarrow> a + d + e + 3 = b + d + e + 3 + c" for a b c d e :: nat by simp
        ultimately show ?thesis unfolding main_left.simps(1) Suc_eq_plus1 by blast
      qed
      ultimately show ?thesis using True len by (simp add: p' pool_ok_def pool_left_def set_worker_def Pushing del: main_left.simps)
    next
      case False
      have p': "p' = p\<lparr>pl_main := Applying_rest (n * ?step)\<rparr>" using s False by (simp add: main_step_def Pushing len)
      have "worker_ok m inp (pl_out p) ?step (Applying_rest (n * ?step)) w (?ws ! w)" if "w < n" for w
        using wk [OF that] False that by (simp add: worker_ok_def Pushing)
      then show ?thesis using False len main by (simp add: p' pool_ok_def pool_left_def Pushing holds_def)
    qed
  next
    case (Applying_rest i)
    have same: "worker_ok m inp out ?step (Applying_rest (i + 1)) w x = worker_ok m inp out ?step (Applying_rest i) w x"
      "worker_ok m inp out ?step (Joining 0) w x = worker_ok m inp out ?step (Applying_rest i) w x" for out w x
      by (simp_all add: worker_ok_def)
    show ?thesis
    proof (cases "i < length inp")
      case True
      have p': "p' = p\<lparr>pl_out := (pl_out p)[i := ?f (inp ! i)], pl_main := Applying_rest (i + 1)\<rparr>"
        using s True len by (simp add: main_step_def Applying_rest write_sample_ok after_write_def)
      have "holds ?f inp ((pl_out p)[i := ?f (inp ! i)]) {n * ?step..<Suc i}"
        using main holds_write(2) [of ?f inp "pl_out p"] True len by (simp add: Applying_rest)
      then show ?thesis using True len main wk worker_ok_write same(1)
        by (simp add: p' pool_ok_def pool_left_def Applying_rest)
    next
      case False
      have p': "p' = p\<lparr>pl_main := Joining 0\<rparr>" using s False len by (simp add: main_step_def Applying_rest)
      have "i = length inp" using main False by (simp add: Applying_rest)
      then show ?thesis using len main wk same(2) by (simp add: p' pool_ok_def pool_left_def Applying_rest)
    qed
  next
    case (Joining k)
    show ?thesis
    proof (cases "k < n")
      case True
      let ?wk = "?ws ! k"
      have b: "busy m inp (pl_out p) (part_of m ?step k) ?wk" using wk [OF True] by (simp add: worker_ok_def Joining)
      then have stop: "?wk = idle_worker\<lparr>out_queue := \<lparr>the_queue = [1], wakeup_requested = False\<rparr>\<rparr>"
        and h: "holds ?f inp (pl_out p) {k * ?step..<k * ?step + ?step}"
        using s True by (auto simp: busy_def part_of_def main_step_def Joining len queue_simps Let_def)
      have p': "p' = (set_worker k idle_worker p)\<lparr>pl_main := Joining (k + 1)\<rparr>"
        using s True by (simp add: main_step_def Joining len stop queue_simps Let_def)
      have "worker_ok m inp (pl_out p) ?step (Joining (k + 1)) w (?ws[k := idle_worker] ! w)" if "w < n" for w
        using wk [OF that] True len h by (cases "w = k") (auto simp: worker_ok_def Joining nth_list_update)
      moreover have "worker_left ?wk + 0 = worker_left idle_worker + 0" by (simp add: stop worker_left_def idle_worker_def ThreadsafeQueue_def)
      then have "sum_list (map worker_left ?ws) = sum_list (map worker_left (?ws[k := idle_worker]))"
        using left_update [of k ?ws 0 idle_worker 0] True len by simp
      ultimately show ?thesis using True len main by (simp add: p' pool_ok_def pool_left_def set_worker_def Joining)
    next
      case False
      have p': "p' = p\<lparr>pl_main := Finished\<rparr>" using s False by (simp add: main_step_def Joining len)
      have "worker_ok m inp (pl_out p) ?step Finished w (?ws ! w)" if "w < n" for w
        using wk [OF that] False that main by (simp add: worker_ok_def Joining)
      then show ?thesis using False len main by (simp add: p' pool_ok_def pool_left_def Joining)
    qed
  qed (use s in \<open>simp_all add: main_step_def\<close>)
qed

lemma pool_step_ok: "pool_ok m inp n p \<Longrightarrow> pool_step m inp p p' \<Longrightarrow> pool_ok m inp n p' \<and> pool_left inp n p = Suc (pool_left inp n p')"
proof -
  assume ok: "pool_ok m inp n p" and "pool_step m inp p p'"
  from this(2) show ?thesis
  proof cases
    case by_main
    then show ?thesis using main_step_ok [OF ok] by blast
  next
    case (by_worker w)
    moreover have "length (pl_workers p) = n" using ok by (simp add: pool_ok_def)
    ultimately show ?thesis using worker_step_ok [OF ok] by blast
  qed
qed

lemma pool_start_ok:
  assumes "length out = length inp"
  shows "pool_ok m inp n (pool_start n out) \<and> pool_left inp n (pool_start n out) = length inp + 4 * n + 3"
proof -
  have "sum_list (map worker_left (replicate n idle_worker)) = 0" by (simp add: worker_left_def idle_worker_def ThreadsafeQueue_def)
  moreover have "n * (length inp div n + 3) + (length inp - n * (length inp div n)) = length inp + 3 * n"
    using times_div_less_eq_dividend [of n "length inp"] by (simp add: distrib_left)
  ultimately show ?thesis using assms by (simp add: pool_ok_def pool_left_def pool_start_def worker_ok_def)
qed

lemma pool_steps:
  assumes "length out = length inp" and "(pool_step m inp ^^ k) (pool_start n out) p"
  shows "pool_ok m inp n p \<and> k + pool_left inp n p = length inp + 4 * n + 3"
  using assms(2)
proof (induction k arbitrary: p)
  case 0
  then have "p = pool_start n out" by simp
  then show ?case using pool_start_ok [OF assms(1)] by simp
next
  case (Suc k)
  then obtain q where "(pool_step m inp ^^ k) (pool_start n out) q" "pool_step m inp q p" by auto
  then show ?case using Suc.IH pool_step_ok by fastforce
qed

text \<open>Only a finished pool has no step.\<close>

lemma pool_progress:
  assumes ok: "pool_ok m inp n p" and m: "pl_main p \<noteq> Finished"
  shows "\<exists>p'. pool_step m inp p p'"
proof (cases "main_step m inp p")
  case None
  then obtain k where k: "pl_main p = Joining k" "k < n"
    using ok m by (cases "pl_main p") (auto simp: main_step_def pool_ok_def Let_def split: if_splits)
  have w: "k < length (pl_workers p)" and b: "busy m inp (pl_out p) (part_of m (length inp div n) k) (pl_workers p ! k)"
    using ok k by (auto simp: pool_ok_def worker_ok_def)
  have "worker_step inp k p \<noteq> None"
    using b None k w ok by (auto simp: busy_def worker_step_def main_step_def pool_ok_def queue_simps Let_def)
  then show ?thesis using w by_worker by fastforce
next
  case (Some p')
  then show ?thesis using by_main by blast
qed

lemma pool_finishes: "pool_ok m inp n p \<Longrightarrow> \<exists>q. (pool_step m inp)\<^sup>*\<^sup>* p q \<and> pl_main q = Finished"
proof (induction "pool_left inp n p" arbitrary: p rule: less_induct)
  case less
  show ?case
  proof (cases "pl_main p = Finished")
    case False
    then obtain p' where p': "pool_step m inp p p'" using pool_progress [OF less(2)] by blast
    then obtain q where "(pool_step m inp)\<^sup>*\<^sup>* p' q" "pl_main q = Finished" using less(1) [of p'] pool_step_ok [OF less(2)] by fastforce
    then show ?thesis using p' by (meson converse_rtranclp_into_rtranclp)
  qed blast
qed

lemma finished_out:
  assumes "pool_ok m inp n p" "pl_main p = Finished"
  shows "pl_out p = map (corrected_sample m) inp"
proof (rule nth_equalityI)
  let ?s = "length inp div n"
  show "length (pl_out p) = length (map (corrected_sample m) inp)" using assms(1) by (simp add: pool_ok_def)
  fix i assume "i < length (pl_out p)"
  then have i: "i < length inp" using assms(1) by (simp add: pool_ok_def)
  have rest: "holds (corrected_sample m) inp (pl_out p) {n * ?s..<length inp}"
    and workers: "\<forall>w < n. holds (corrected_sample m) inp (pl_out p) {w * ?s..<w * ?s + ?s}"
    using assms by (auto simp: pool_ok_def worker_ok_def)
  have "\<exists>w < n. i \<in> {w * ?s..<w * ?s + ?s}" if "i < n * ?s"
  proof -
    have s: "0 < ?s" using that by (cases ?s) auto
    have "i div ?s < n" using that by (simp add: less_mult_imp_div_less)
    moreover have "i < i div ?s * ?s + ?s" using s dividend_less_div_times [of ?s i] by (simp add: add.commute)
    ultimately show ?thesis by (intro exI [of _ "i div ?s"]) simp
  qed
  then have "pl_out p ! i = corrected_sample m (inp ! i)"
    using rest workers i by (cases "i < n * ?s") (auto simp: holds_def)
  then show "pl_out p ! i = map (corrected_sample m) inp ! i" using i by simp
qed

text \<open>Without valid settings one eighth of the frame is copied.\<close>

lemma poly_copy_an_eighth:
  "length in_bytes = length out_bytes \<Longrightarrow> poly_copy in_bytes out_bytes =
     Inr (take (length out_bytes div 8) in_bytes @ drop (length out_bytes div 8) out_bytes)"
  by (simp add: poly_copy_def memcpy_def)

text \<open>
  C31. The threads do not change the result. Whatever the number of workers, and in whatever order they and the main thread take their
  steps: no run is longer than \<open>length inp + 4 * num_threads + 3\<close> steps, one that has not finished can go on, and the buffer that is
  returned holds, with valid settings, every sample corrected as one thread would. (Without valid settings it gets one eighth of
  the input, as many bytes as there are samples.)
\<close>

theorem predistortion_threads_exact:
  assumes "length out = length inp" and "\<forall>x. length (enc x) = 8"
  shows "(poly_process enc m num_threads inp out r \<longleftrightarrow>
       r = Inr (if m_dpd_settings_valid m then concat (map (\<lambda>x. enc (corrected_sample m x)) inp)
                else take (length inp) (concat (map enc inp)) @ drop (length inp) (concat (map enc out)))) \<and>
    (\<forall>k p. (pool_step m inp ^^ k) (pool_start num_threads out) p \<longrightarrow>
       k \<le> length inp + 4 * num_threads + 3 \<and> (pl_main p = Finished \<or> (\<exists>p'. pool_step m inp p p')))"
proof (intro conjI allI impI)
  fix k p assume "(pool_step m inp ^^ k) (pool_start num_threads out) p"
  from pool_steps [OF assms(1) this] pool_progress
  show "k \<le> length inp + 4 * num_threads + 3" "pl_main p = Finished \<or> (\<exists>p'. pool_step m inp p p')" by auto
next
  have ok: "pool_ok m inp num_threads p" if "(pool_step m inp)\<^sup>*\<^sup>* (pool_start num_threads out) p" for p
    using pool_steps [OF assms(1)] that by (auto simp: rtranclp_power)
  have bytes: "length (concat (map enc xs)) = 8 * length xs" for xs using assms(2) by (induction xs) simp_all
  show "poly_process enc m num_threads inp out r \<longleftrightarrow>
       r = Inr (if m_dpd_settings_valid m then concat (map (\<lambda>x. enc (corrected_sample m x)) inp)
                else take (length inp) (concat (map enc inp)) @ drop (length inp) (concat (map enc out)))"
  proof (cases "m_dpd_settings_valid m")
    case True
    have r: "r = Inr (concat (map (\<lambda>x. enc (corrected_sample m x)) inp))" if "poly_process enc m num_threads inp out r" for r
      using that
    proof cases
      case (corrected p)
      then show ?thesis using finished_out [OF ok] by (simp add: o_def)
    next
      case (crashed p e)
      then show ?thesis using ok [of p] by (simp add: pool_ok_def)
    qed (use True in simp)
    obtain q where "(pool_step m inp)\<^sup>*\<^sup>* (pool_start num_threads out) q" "pl_main q = Finished"
      using pool_finishes pool_start_ok [OF assms(1)] by blast
    then have "\<exists>r. poly_process enc m num_threads inp out r" using corrected [OF True] by blast
    then show ?thesis using r True by auto
  next
    case False
    have "poly_copy (concat (map enc inp)) (concat (map enc out)) =
        Inr (take (length inp) (concat (map enc inp)) @ drop (length inp) (concat (map enc out)))"
      using poly_copy_an_eighth [of "concat (map enc inp)" "concat (map enc out)"] assms(1) by (simp add: bytes)
    then show ?thesis using False by (auto simp: poly_process.simps)
  qed
qed

text \<open>The index into the table is inside, also for samples beyond the range of the scale factor.\<close>

lemma lut_index_inside: "lut_index scalefactor x < lut_entries"
proof -
  let ?w = "of_int (round (cmod x * scalefactor)) :: u32"
  have "unat ?w < 2 ^ LENGTH(32)" by (rule unsigned_less)
  then have "unat ?w div 2 ^ 27 < 32" by simp
  then show ?thesis unfolding lut_index_def lut_entries_def shr_def unat_drop_bit_eq unfolding drop_bit_eq_div .
qed

section \<open>Settings read back\<close>

lemma read_coefs_all:
  "tokens s = map Num xs \<Longrightarrow> ends_with_space s \<Longrightarrow> \<not> failed s \<Longrightarrow> read_coefs (length xs) s acc = Inr (acc @ xs)"
proof (induction xs arbitrary: s acc)
  case (Cons x xs)
  then show ?case by (simp add: read_number_def stream_eof_def)
qed simp

lemma read_lut_complex:
  "tokens s = Num a # Cpx z # ts \<Longrightarrow> \<not> failed s \<Longrightarrow> read_lut (Suc (Suc n)) s acc = Inl (UndefinedBehaviour ''uninitialised'')"
  by (simp add: read_number_def)

text \<open>The state has the settings in the sizes that are loaded.\<close>

definition poly_settings :: "memless_poly \<Rightarrow> bool" where
  "poly_settings m =
     (m_dpd_settings_valid m \<and>
      (case m_dpd_type m of odd_only_poly \<Rightarrow> length (m_coefs_am m) = NUM_COEFS \<and> length (m_coefs_pm m) = NUM_COEFS
       | lookup_table \<Rightarrow> length (m_lut m) = lut_entries))"

lemma read_coefs_length: "read_coefs n s acc = Inr r \<Longrightarrow> length r = length acc + n"
  by (induction n arbitrary: s acc) (auto split: prod.splits if_splits option.splits)

lemma read_lut_length: "read_lut n s acc = Inr r \<Longrightarrow> length r = length acc + n"
  by (induction n arbitrary: s acc) (auto split: prod.splits if_splits option.splits)

lemma load_keeps_sizes: "load_coefficients stream m = Inr m' \<Longrightarrow> m_dpd_settings_valid m' \<Longrightarrow> poly_settings m'"
  by (auto simp: load_coefficients_def load_poly_def load_lut_def poly_settings_def bindE_Inr_iff NUM_COEFS_def
      dest!: read_coefs_length read_lut_length split: option.splits prod.splits if_splits)

text \<open>Coefficients that were set are the ones of the next start, if they were of a known kind.\<close>

definition same_predistortion :: "memless_poly \<Rightarrow> memless_poly \<Rightarrow> bool" where
  "same_predistortion m m' =
     (m_dpd_settings_valid m' \<and> m_dpd_type m' = m_dpd_type m \<and>
      (case m_dpd_type m of odd_only_poly \<Rightarrow> m_coefs_am m' = m_coefs_am m \<and> m_coefs_pm m' = m_coefs_pm m
       | lookup_table \<Rightarrow> m_lut m' = m_lut m \<and> m_lut_scalefactor m' = m_lut_scalefactor m))"

lemma load_coefficients_file: "load_coefficients s m = Inr m' \<Longrightarrow> m_coefs_file m' = m_coefs_file m"
  by (auto simp: load_coefficients_def load_poly_def load_lut_def Let_def
      bindE_Inr_iff split: option.splits prod.splits if_splits)

lemma load_again:
  assumes "load_coefficients s m = Inr m'" and "m_dpd_settings_valid m'"
  shows "\<exists>m''. load_coefficients s m0 = Inr m'' \<and> same_predistortion m' m''"
  using assms
  by (auto simp: load_coefficients_def load_poly_def load_lut_def Let_def same_predistortion_def
      bindE_Inr_iff split: option.splits prod.splits if_splits)

lemma coefs_survive_restart:
  assumes "poly_set_parameter ''coefs'' v stream (m, files) = Inr (m', files')" and "m_dpd_settings_valid m'"
  shows "\<exists>m''. load_coefficients (files' (m_coefs_file m')) m0 = Inr m'' \<and> same_predistortion m' m''"
proof -
  obtain m1 where m1: "load_coefficients (Some stream) m = Inr m1" "m' = m1" "files' = files(m_coefs_file m1 \<mapsto> stream)"
    using assms(1) by (cases "load_coefficients (Some stream) m")
      (auto simp: poly_set_parameter_def as_parameter_error_def split: error.splits)
  then show ?thesis using load_again [OF m1(1)] assms(2) by simp
qed

text \<open>
  Polynomial coefficients that the remote control reports can be set again and give the same settings. With a table this
  fails: what is reported has the size of the table, which loading takes for the scale factor, and complex numbers,
  which it can not read.
\<close>

lemma predistortion_settings_roundtrip:
  assumes "poly_settings m"
  shows "case m_dpd_type m of
      odd_only_poly \<Rightarrow> \<exists>m'. load_coefficients (Some (serialise_coefficients m)) m0 = Inr m' \<and> m_dpd_settings_valid m' \<and>
        m_dpd_type m' = odd_only_poly \<and> m_coefs_am m' = m_coefs_am m \<and> m_coefs_pm m' = m_coefs_pm m \<and> corrected_sample m' = corrected_sample m
    | lookup_table \<Rightarrow> \<not> is_ok (load_coefficients (Some (serialise_coefficients m)) m0)"
proof (cases "m_dpd_type m")
  case odd_only_poly
  then have len: "length (m_coefs_am m @ m_coefs_pm m) = 2 * NUM_COEFS" "length (m_coefs_am m) = NUM_COEFS" and v: "m_dpd_settings_valid m"
    using assms by (simp_all add: poly_settings_def)
  let ?s = "\<lparr>tokens = map Num (m_coefs_am m @ m_coefs_pm m), ends_with_space = True, failed = False\<rparr>"
  have "read_coefs (2 * NUM_COEFS) ?s [] = Inr (m_coefs_am m @ m_coefs_pm m)"
    using read_coefs_all [of ?s "m_coefs_am m @ m_coefs_pm m" "[]"] len by (simp add: mult_2)
  then show ?thesis using odd_only_poly len v
    by (simp add: load_coefficients_def serialise_coefficients_def read_number_def load_poly_def corrected_sample_def fun_eq_iff NUM_COEFS_def)
next
  case lookup_table
  then obtain z zs where lut: "m_lut m = z # zs" and v: "m_dpd_settings_valid m"
    using assms by (cases "m_lut m") (auto simp: poly_settings_def lut_entries_def)
  have n: "lut_entries = Suc (Suc 30)" by (simp add: lut_entries_def)
  have "read_lut lut_entries \<lparr>tokens = Num (m_lut_scalefactor m) # Cpx z # map Cpx zs, ends_with_space = True, failed = False\<rparr> [] =
      Inl (UndefinedBehaviour ''uninitialised'')" unfolding n by (rule read_lut_complex) simp_all
  then show ?thesis using lookup_table lut v
    by (simp add: load_coefficients_def serialise_coefficients_def read_number_def load_lut_def)
qed

section \<open>The phase\<close>

text \<open>
  The phase is not corrected by a rotation: for every correction up to one radian the approximation of its cosine is greater
  than 1, while the cosine is less (the comment gives the right series, with the opposite sign and 1/24).
\<close>

lemma cosine_approximation_wrong:
  assumes "p \<noteq> 0" and "\<bar>p\<bar> \<le> 1"
  shows "cos p < 1 \<and> 1 < cos_approx p"
proof
  have "1 < pi" using pi_ge_two by linarith
  then have "cos \<bar>p\<bar> < cos 0" using assms by (intro cos_monotone_0_pi) auto
  then show "cos p < 1" by simp
  let ?s = "p * p"
  have s: "0 < ?s" using assms(1) not_real_square_gt_zero [of p] by blast
  have s1: "?s \<le> 1" using abs_le_square_iff [of p 1] assms(2) by (simp add: power2_eq_square)
  have "?s * (0.486666 + ?s * (- 0.00138888)) \<le> 1 * 0.486666"
    by (rule mult_mono) (use s s1 in auto)
  then have "?s * (- 0.5 + ?s * (0.486666 + ?s * (- 0.00138888))) < 0"
    by (intro mult_pos_neg s) simp
  then show "1 < cos_approx p" by (simp add: cos_approx_def Let_def)
qed

section \<open>Examples\<close>

definition poly_example :: memless_poly where
  "poly_example = \<lparr>m_dpd_settings_valid = True, m_dpd_type = odd_only_poly, m_coefs_am = [1, 0.1, 0, 0, 0], m_coefs_pm = [0, 0.2, 0, 0, 0],
     m_lut_scalefactor = 0, m_lut = replicate 32 0, m_coefs_file = ''coefs''\<rparr>"

theorem predistortion_threads_exact_witness:
  "poly_process (\<lambda>x. replicate 8 x) poly_example 2 [1, 2, 3] [0, 0, 0]
     (Inr (concat (map (\<lambda>x. replicate 8 (corrected_sample poly_example x)) [1, 2, 3])))"
  using predistortion_threads_exact [of "[0, 0, 0]" "[1, 2, 3]" "\<lambda>x. replicate 8 x" poly_example 2
      "Inr (concat (map (\<lambda>x. replicate 8 (corrected_sample poly_example x)) [1, 2, 3]))"]
  by (simp add: poly_example_def)

lemma predistortion_settings_roundtrip_witness:
  "(\<exists>m. load_coefficients (Some (serialise_coefficients poly_example)) (poly_example\<lparr>m_coefs_am := [1]\<rparr>) = Inr m \<and> m_coefs_am m = [1, 0.1, 0, 0, 0]) \<and>
   \<not> is_ok (load_coefficients (Some (serialise_coefficients (poly_example\<lparr>m_dpd_type := lookup_table\<rparr>))) poly_example)"
proof
  show "\<exists>m. load_coefficients (Some (serialise_coefficients poly_example)) (poly_example\<lparr>m_coefs_am := [1]\<rparr>) = Inr m \<and> m_coefs_am m = [1, 0.1, 0, 0, 0]"
    using predistortion_settings_roundtrip [of poly_example "poly_example\<lparr>m_coefs_am := [1]\<rparr>"]
    by (auto simp: poly_settings_def poly_example_def NUM_COEFS_def)
  show "\<not> is_ok (load_coefficients (Some (serialise_coefficients (poly_example\<lparr>m_dpd_type := lookup_table\<rparr>))) poly_example)"
    using predistortion_settings_roundtrip [of "poly_example\<lparr>m_dpd_type := lookup_table\<rparr>" poly_example]
    by (auto simp: poly_settings_def poly_example_def lut_entries_def)
qed

lemma cosine_approximation_wrong_witness: "cos (1 / 2 :: real) < 1 \<and> 1 < cos_approx (1 / 2)"
  using cosine_approximation_wrong [of "1 / 2"] by simp

end
