(* ===== verification/Format_Converter.thy ===== *)
theory Format_Converter
  imports Gain_Control "HOL-Library.Word"
begin

text \<open>
  The conversion to the sample format of the output (\<open>src/FormatConverter.cpp\<close>): from \<open>float\<close> to signed 16 bit, unsigned 8 bit or
  signed 8 bit, and from the 32 bit of the transform in hardware to signed 16 bit. Values out of range are clipped and
  counted. A \<open>float\<close> is a real number here; NaN and infinity are left out.
\<close>

section \<open>Single values\<close>

text \<open>The result and whether it was clipped. \<open>c_int\<close> cuts off the fraction, as the conversion of C++.\<close>

definition to_s16 :: "real \<Rightarrow> 16 word \<times> bool" where
  "to_s16 x = (if x < - 32768 then (of_int (- 32768), True) else if x > 32767 then (of_int 32767, True) else (of_int (c_int x), False))"

definition to_u8 :: "real \<Rightarrow> 8 word \<times> bool" where
  "to_u8 x = (let samp = x + 128 in if samp < 0 then (0, True) else if samp > 255 then (255, True) else (of_int (c_int samp), False))"

definition to_s8 :: "real \<Rightarrow> 8 word \<times> bool" where
  "to_s8 x = (if x < - 128 then (of_int (- 128), True) else if x > 127 then (of_int 127, True) else (of_int (c_int x), False))"

definition wide_to_s16 :: "32 word \<Rightarrow> 16 word \<times> bool" where
  "wide_to_s16 x =
     (let val = signed_drop_bit 6 x
      in if sint val < - 32768 then (of_int (- 32768), True) else if sint val > 32767 then (of_int 32767, True) else (scast val, False))"

text \<open>\<open>vqshrn_n_s32\<close>: the shifted value is saturated to 16 bit.\<close>

definition neon_lane :: "32 word \<Rightarrow> 16 word" where
  "neon_lane x = of_int (max (- 32768) (min 32767 (sint x div 2 ^ 6)))"

section \<open>Buffers\<close>

datatype samples_in = Wide "32 word list" | Floats "real list"

datatype samples_out = S16 "16 word list" | U8 "8 word list" | S8 "8 word list"

text \<open>The loop over the samples, with the count of clipped ones.\<close>

definition convert_all :: "('a \<Rightarrow> 'b \<times> bool) \<Rightarrow> 'a list \<Rightarrow> 'b list \<times> nat" where
  "convert_all f xs = fold (\<lambda>x (out, n). case f x of (y, clipped) \<Rightarrow> (out @ [y], if clipped then n + 1 else n)) xs ([], 0)"

fun neon_loop :: "32 word list \<Rightarrow> 16 word list \<Rightarrow> 16 word list" where
  "neon_loop (a # b # c # d # xs) out = neon_loop xs (out @ [neon_lane a, neon_lane b, neon_lane c, neon_lane d])"
| "neon_loop _ out = out"

text \<open>\<open>neon\<close>: compiled for ARM with NEON, where the samples from the hardware are not counted.\<close>

definition format_process :: "bool \<Rightarrow> string \<Rightarrow> samples_in \<Rightarrow> (samples_out \<times> nat) result" where
  "format_process neon format_out inp =
     (case inp of
        Wide xs \<Rightarrow>
          if format_out = ''s16''
          then (if neon
                then (if length xs mod 4 \<noteq> 0 then Inl (LogicError ''Unexpected length not multiple of 4'') else Inr (S16 (neon_loop xs []), 0))
                else (case convert_all wide_to_s16 xs of (ys, n) \<Rightarrow> Inr (S16 ys, n)))
          else Inl (RuntimeError ''FormatConverter: Invalid fix format'')
      | Floats xs \<Rightarrow>
          if format_out = ''s16'' then (case convert_all to_s16 xs of (ys, n) \<Rightarrow> Inr (S16 ys, n))
          else if format_out = ''u8'' then (case convert_all to_u8 xs of (ys, n) \<Rightarrow> Inr (U8 ys, n))
          else if format_out = ''s8'' then (case convert_all to_s8 xs of (ys, n) \<Rightarrow> Inr (S8 ys, n))
          else Inl (RuntimeError ''FormatConverter: Invalid format''))"

definition get_format_size :: "string \<Rightarrow> nat result" where
  "get_format_size format =
     (if format = ''s16'' then Inr 4 else if format = ''u8'' then Inr 2 else if format = ''s8'' then Inr 2
      else Inl (RuntimeError ''FormatConverter: Invalid format''))"

section \<open>The conversion of one value\<close>

lemma convert_all_eq: "convert_all f xs = (map (fst \<circ> f) xs, length (filter (snd \<circ> f) xs))"
proof -
  have "fold (\<lambda>x (out, n). case f x of (y, clipped) \<Rightarrow> (out @ [y], if clipped then n + 1 else n)) xs (out, n) =
      (out @ map (fst \<circ> f) xs, n + length (filter (snd \<circ> f) xs))" for out n
    by (induction xs arbitrary: out n) (auto split: prod.split)
  then show ?thesis by (simp add: convert_all_def)
qed

definition clamp :: "real \<Rightarrow> real \<Rightarrow> real \<Rightarrow> real" where
  "clamp lo hi x = max lo (min hi x)"

lemma c_int_near: "\<bar>real_of_int (c_int x) - x\<bar> < 1" "\<bar>real_of_int (c_int x)\<bar> \<le> \<bar>x\<bar>"
  by (auto simp: c_int_def) linarith+

lemma c_int_range: "real_of_int lo \<le> x \<Longrightarrow> x \<le> real_of_int hi \<Longrightarrow> lo \<le> c_int x \<and> c_int x \<le> hi"
  by (auto simp: c_int_def le_floor_iff ceiling_le_iff) linarith+

lemma sint_of_int_small: "- (2 ^ (LENGTH('a) - 1)) \<le> n \<Longrightarrow> n < 2 ^ (LENGTH('a) - 1) \<Longrightarrow> sint (of_int n :: 'a::len word) = n"
  by (simp add: signed_of_int signed_take_bit_int_eq_self)

lemma s16_value: "\<bar>real_of_int (sint (fst (to_s16 x))) - clamp (- 32768) 32767 x\<bar> < 1 \<and> (snd (to_s16 x) \<longleftrightarrow> x < - 32768 \<or> 32767 < x)"
proof -
  have "sint (of_int n :: 16 word) = n" if "- 32768 \<le> n" "n \<le> 32767" for n using that by (intro sint_of_int_small) simp_all
  then show ?thesis using c_int_near [of x] c_int_range [of "- 32768" x 32767] by (auto simp: to_s16_def clamp_def simp del: of_int_sint)
qed

lemma s8_value: "\<bar>real_of_int (sint (fst (to_s8 x))) - clamp (- 128) 127 x\<bar> < 1 \<and> (snd (to_s8 x) \<longleftrightarrow> x < - 128 \<or> 127 < x)"
proof -
  have "sint (of_int n :: 8 word) = n" if "- 128 \<le> n" "n \<le> 127" for n using that by (intro sint_of_int_small) simp_all
  then show ?thesis using c_int_near [of x] c_int_range [of "- 128" x 127] by (auto simp: to_s8_def clamp_def simp del: of_int_sint)
qed

lemma u8_value: "\<bar>real_of_int (uint (fst (to_u8 x))) - clamp 0 255 (x + 128)\<bar> < 1 \<and> (snd (to_u8 x) \<longleftrightarrow> x + 128 < 0 \<or> 255 < x + 128)"
proof -
  have "uint (of_int n :: 8 word) = n" if "0 \<le> n" "n \<le> 255" for n using that by (simp add: unsigned_of_int take_bit_int_eq_self)
  then show ?thesis using c_int_near [of "x + 128"] c_int_range [of 0 "x + 128" 255] by (auto simp: to_u8_def clamp_def Let_def simp del: of_int_uint)
qed

lemma wide_value: "sint (fst (wide_to_s16 x)) = max (- 32768) (min 32767 (sint x div 64)) \<and> (snd (wide_to_s16 x) \<longleftrightarrow> sint x div 64 < - 32768 \<or> 32767 < sint x div 64)"
proof -
  have s: "sint (signed_drop_bit 6 x) = sint x div 64" by (simp add: sint_signed_drop_bit_eq drop_bit_eq_div)
  have small: "sint (of_int n :: 16 word) = n" if "- 32768 \<le> n" "n \<le> 32767" for n using that by (intro sint_of_int_small) simp_all
  have "(scast y :: 16 word) = of_int (sint y)" for y :: "32 word" by simp
  then show ?thesis using s small by (auto simp: wide_to_s16_def Let_def simp del: of_int_sint)
qed

lemma neon_lane_same: "neon_lane x = fst (wide_to_s16 x)"
proof -
  have "sint (neon_lane x) = max (- 32768) (min 32767 (sint x div 64))"
    unfolding neon_lane_def by (subst sint_of_int_small) auto
  then show ?thesis using wide_value [of x] by (metis signed_word_eqI)
qed

lemma neon_loop_map: "length xs mod 4 = 0 \<Longrightarrow> neon_loop xs out = out @ map neon_lane xs"
proof (induction xs out rule: neon_loop.induct)
  case (1 a b c d xs out)
  have "Suc (Suc (Suc (Suc n))) mod 4 = n mod 4" for n :: nat by presburger
  then show ?case using 1 by simp
qed simp_all

section \<open>Whole buffers\<close>

text \<open>
  Samples are clipped, never wrapped. In each of the three formats every sample comes out less than one step from the value clamped
  to the range of the format, and the clipped samples are counted exactly. The 32 bit samples of the hardware are divided by 64,
  rounded down and clamped, and the program for NEON gives the same as the other.
\<close>

lemma format_conversion_clips:
  "(\<exists>ys. format_process neon ''s16'' (Floats xs) = Inr (S16 ys, length (filter (\<lambda>x. x < - 32768 \<or> 32767 < x) xs)) \<and>
      list_all2 (\<lambda>y x. \<bar>real_of_int (sint y) - clamp (- 32768) 32767 x\<bar> < 1) ys xs) \<and>
   (\<exists>ys. format_process neon ''u8'' (Floats xs) = Inr (U8 ys, length (filter (\<lambda>x. x + 128 < 0 \<or> 255 < x + 128) xs)) \<and>
      list_all2 (\<lambda>y x. \<bar>real_of_int (uint y) - clamp 0 255 (x + 128)\<bar> < 1) ys xs) \<and>
   (\<exists>ys. format_process neon ''s8'' (Floats xs) = Inr (S8 ys, length (filter (\<lambda>x. x < - 128 \<or> 127 < x) xs)) \<and>
      list_all2 (\<lambda>y x. \<bar>real_of_int (sint y) - clamp (- 128) 127 x\<bar> < 1) ys xs) \<and>
   (\<exists>ys n. format_process False ''s16'' (Wide ws) = Inr (S16 ys, n) \<and>
      map sint ys = map (\<lambda>x. max (- 32768) (min 32767 (sint x div 64))) ws \<and>
      format_process True ''s16'' (Wide ws) =
        (if length ws mod 4 = 0 then Inr (S16 ys, 0) else Inl (LogicError ''Unexpected length not multiple of 4'')))"
proof -
  have all2: "list_all2 P (map f zs) zs" if "\<And>z. P (f z) z" for P f and zs :: "'c list" using that by (simp add: list_all2_conv_all_nth)
  have "snd \<circ> to_s16 = (\<lambda>x. x < - 32768 \<or> 32767 < x)" "snd \<circ> to_u8 = (\<lambda>x. x + 128 < 0 \<or> 255 < x + 128)"
    "snd \<circ> to_s8 = (\<lambda>x. x < - 128 \<or> 127 < x)" using s16_value u8_value s8_value by (simp_all only: fun_eq_iff comp_apply) blast+
  note counts = this
  have "map sint (map (fst \<circ> wide_to_s16) ws) = map (\<lambda>x. max (- 32768) (min 32767 (sint x div 64))) ws" using wide_value by simp
  moreover have "map neon_lane ws = map (fst \<circ> wide_to_s16) ws" by (simp add: neon_lane_same)
  moreover have "list_all2 (\<lambda>y x. \<bar>real_of_int (sint y) - clamp (- 32768) 32767 x\<bar> < 1) (map (fst \<circ> to_s16) xs) xs"
    "list_all2 (\<lambda>y x. \<bar>real_of_int (uint y) - clamp 0 255 (x + 128)\<bar> < 1) (map (fst \<circ> to_u8) xs) xs"
    "list_all2 (\<lambda>y x. \<bar>real_of_int (sint y) - clamp (- 128) 127 x\<bar> < 1) (map (fst \<circ> to_s8) xs) xs"
    by (rule all2, use s16_value u8_value s8_value in simp)+
  ultimately show ?thesis unfolding format_process_def convert_all_eq counts by (auto simp: neon_loop_map)
qed

end
