(* ===== verification/Resampler.thy ===== *)
theory Resampler
  imports Ofdm_Generator
begin

text \<open>
  The sample rate converter (\<open>src/Resampler.cpp\<close>): overlapping blocks are windowed, transformed, cut or extended in frequency, and
  added up again. The transforms of FFTW and the values of the window are arguments. The lemmas show for which frames it
  stays inside its buffers, and that it runs over the ends of the frames without a seam.
\<close>

section \<open>Sizes\<close>

function gcd_rec :: "nat \<Rightarrow> nat \<Rightarrow> nat" where
  "gcd_rec a b = (if b = 0 then a else gcd_rec b (a mod b))"
  by pat_completeness auto
termination by (relation "measure snd") auto

record resampler =
  rs_L :: nat
  rs_M :: nat
  myFftSizeIn :: nat
  myFftSizeOut :: nat
  myFactor :: real
  myBufferIn :: "complex list"
  myBufferOut :: "complex list"

definition Resampler :: "nat \<Rightarrow> nat \<Rightarrow> nat \<Rightarrow> resampler result" where
  "Resampler inRate outRate resolution =
     (let divisor = gcd_rec inRate outRate
      in if divisor = 0 \<or> inRate = 0 then Inl (UndefinedBehaviour ''division by zero'')
         else
           let L = outRate div divisor; M = inRate div divisor;
               factor = resolution * 2 div M;
               factor = (if odd factor then factor + 1 else factor);
               sizeIn = factor * M; sizeOut = factor * L;
               larger = (if sizeIn > sizeOut then sizeIn else sizeOut)
           in Inr \<lparr>rs_L = L, rs_M = M, myFftSizeIn = sizeIn, myFftSizeOut = sizeOut,
                myFactor = 1 / real larger * real outRate / real inRate,
                myBufferIn = replicate (sizeIn div 2) 0, myBufferOut = replicate (sizeOut div 2) 0\<rparr>)"

section \<open>A block\<close>

text \<open>The spectrum at the new rate.\<close>

definition change_rate :: "nat \<Rightarrow> nat \<Rightarrow> complex list \<Rightarrow> complex list \<Rightarrow> complex list result" where
  "change_rate sizeIn sizeOut front bins =
     (if sizeOut > sizeIn
      then bindE (memcpy bins 0 (replicate sizeOut 0)) (\<lambda>bins.
           bindE (copy_samples front 0 (sizeIn div 2) 0 bins) (\<lambda>bins.
           bindE (copy_samples front (sizeIn div 2) (sizeIn div 2) (sizeOut - sizeIn div 2) bins) (\<lambda>bins.
           bindE (rd front (sizeIn div 2)) (\<lambda>x. wr bins (sizeIn div 2) x))))
      else bindE (copy_samples front 0 (sizeOut div 2) 0 bins) (\<lambda>bins.
           bindE (copy_samples front (sizeIn - sizeOut div 2) (sizeOut div 2) (sizeOut div 2) bins) (\<lambda>bins.
           bindE (rd bins (sizeOut div 2)) (\<lambda>x.
           bindE (rd front (sizeOut div 2)) (\<lambda>y. wr bins (sizeOut div 2) ((x + y) * (1 / 2)))))))"

text \<open>
  The block at \<open>i\<close> of the input goes to \<open>j\<close> of the output. \<open>window k\<close> is the value of the window; a transform of size 0 has no plan.
  \<open>fft\<close> and \<open>ifft\<close> give the outputs of the two plans; \<open>bins\<close> is what the input of the second holds before.
\<close>

definition resample_block ::
    "(complex list \<Rightarrow> complex list) \<Rightarrow> (complex list \<Rightarrow> complex list) \<Rightarrow> (nat \<Rightarrow> real) \<Rightarrow> complex list \<Rightarrow> nat \<Rightarrow> nat \<Rightarrow>
      resampler \<times> complex list \<Rightarrow> (resampler \<times> complex list) result" where
  "resample_block fft ifft window inp i j s =
     (case s of (r, out) \<Rightarrow>
        let sizeIn = myFftSizeIn r; sizeOut = myFftSizeOut r
        in if sizeIn = 0 then Inl (UndefinedBehaviour ''transform of size 0'')
           else
             bindE (memread inp i (sizeIn div 2)) (\<lambda>block.
             let fft_in = map2 (\<lambda>z k. z * complex_of_real (window k)) (myBufferIn r @ block) [0..<sizeIn];
                 front = fft fft_in
             in bindE (change_rate sizeIn sizeOut front (replicate sizeOut 0)) (\<lambda>bins.
                let fft_out = ifft (map (\<lambda>z. z * complex_of_real (myFactor r)) bins)
                in bindE (memcpy out j (map2 (+) (myBufferOut r) (take (sizeOut div 2) fft_out))) (\<lambda>out.
                   bindE (memread fft_out (sizeOut div 2) (sizeOut div 2)) (\<lambda>rest.
                   Inr (r\<lparr>myBufferIn := block, myBufferOut := rest\<rparr>, out))))))"

text \<open>The loop over the frame.\<close>

function resample_loop ::
    "(complex list \<Rightarrow> complex list) \<Rightarrow> (complex list \<Rightarrow> complex list) \<Rightarrow> (nat \<Rightarrow> real) \<Rightarrow> complex list \<Rightarrow> nat \<Rightarrow> nat \<Rightarrow> nat \<Rightarrow> nat \<Rightarrow>
      resampler \<times> complex list \<Rightarrow> (resampler \<times> complex list) result" where
  "resample_loop fft ifft window inp stepIn stepOut i j s =
     (if i < length inp
      then if stepIn = 0 then resample_block fft ifft window inp i j s
           else bindE (resample_block fft ifft window inp i j s) (resample_loop fft ifft window inp stepIn stepOut (i + stepIn) (j + stepOut))
      else Inr s)"
  by pat_completeness auto
termination by (relation "measure (\<lambda>(fft, ifft, window, inp, stepIn, stepOut, i, j, s). length inp - i)") auto

text \<open>The output has \<open>L / M\<close> times the bytes of the input, eight per sample.\<close>

definition resample_process ::
    "(complex list \<Rightarrow> complex list) \<Rightarrow> (complex list \<Rightarrow> complex list) \<Rightarrow> (nat \<Rightarrow> real) \<Rightarrow> (nat \<Rightarrow> complex list) \<Rightarrow> complex list \<Rightarrow>
      resampler \<Rightarrow> (resampler \<times> complex list) result" where
  "resample_process fft ifft window fresh inp r =
     resample_loop fft ifft window inp (myFftSizeIn r div 2) (myFftSizeOut r div 2) 0 0
       (r, fresh (length inp * 8 * rs_L r div rs_M r div 8))"

declare gcd_rec.simps [simp del] resample_loop.simps [simp del]

section \<open>The sizes fit\<close>

lemma gcd_rec_gcd: "gcd_rec a b = gcd a b"
proof (induction a b rule: gcd_rec.induct)
  case (1 a b)
  then show ?case using gcd_red_nat [of a b] by (subst gcd_rec.simps) simp
qed

text \<open>The state of a converter between two rates.\<close>

definition resampler_ok :: "resampler \<Rightarrow> bool" where
  "resampler_ok r =
     (\<exists>h. 0 < rs_M r \<and> 0 < rs_L r \<and> myFftSizeIn r = 2 * h * rs_M r \<and> myFftSizeOut r = 2 * h * rs_L r \<and>
        length (myBufferIn r) = h * rs_M r \<and> length (myBufferOut r) = h * rs_L r)"

lemma Resampler_ok:
  assumes "Resampler inRate outRate resolution = Inr r" and "0 < outRate"
  shows "resampler_ok r"
proof -
  define g where "g = gcd inRate outRate"
  let ?f = "resolution * 2 div (inRate div g)"
  obtain h where h: "(if odd ?f then ?f + 1 else ?f) = 2 * h" by (metis (full_types) evenE odd_one odd_add)
  have g: "g \<noteq> 0" "inRate \<noteq> 0" using assms by (auto simp: Resampler_def gcd_rec_gcd g_def Let_def split: if_splits)
  have "0 < inRate div g" "0 < outRate div g"
    using g assms(2) by (auto simp: g_def div_greater_zero_iff intro: gcd_le1_nat gcd_le2_nat)
  moreover have "r = \<lparr>rs_L = outRate div g, rs_M = inRate div g, myFftSizeIn = 2 * h * (inRate div g), myFftSizeOut = 2 * h * (outRate div g),
      myFactor = myFactor r, myBufferIn = replicate (2 * h * (inRate div g) div 2) 0, myBufferOut = replicate (2 * h * (outRate div g) div 2) 0\<rparr>"
    using assms(1) g h by (auto simp: Resampler_def gcd_rec_gcd g_def [symmetric] Let_def)
  ultimately show ?thesis unfolding resampler_ok_def by (intro exI [of _ h]) (metis (no_types, lifting) length_replicate mult.assoc nonzero_mult_div_cancel_left resampler.select_convs zero_neq_numeral)
qed

text \<open>The spectrum at the new rate, bin by bin: the frequencies both rates have are kept.\<close>

definition new_spectrum :: "nat \<Rightarrow> nat \<Rightarrow> complex list \<Rightarrow> complex list" where
  "new_spectrum sizeIn sizeOut front =
     map (\<lambda>k. if sizeOut > sizeIn
              then (if k \<le> sizeIn div 2 then front ! k else if sizeOut - sizeIn div 2 \<le> k then front ! (k - (sizeOut - sizeIn)) else 0)
              else (if k < sizeOut div 2 then front ! k
                    else if k = sizeOut div 2 then (front ! (sizeIn - sizeOut div 2) + front ! (sizeOut div 2)) * (1 / 2)
                    else front ! (k + (sizeIn - sizeOut)))) [0..<sizeOut]"

lemma change_rate_ok:
  assumes "length front = 2 * a" and "length bins = 2 * b" and "0 < a" and "0 < b"
  shows "change_rate (2 * a) (2 * b) front bins = Inr (new_spectrum (2 * a) (2 * b) front)"
proof (cases "b > a")
  case True
  obtain o1 where o1: "copy_samples front 0 a 0 (replicate (2 * b) 0) = Inr o1" "length o1 = 2 * b"
    "\<forall>t < 2 * b. o1 ! t = (if 0 \<le> t \<and> t < 0 + a then front ! (0 + (t - 0)) else replicate (2 * b) 0 ! t)"
    using copy_samples_ok [of 0 a front 0 "replicate (2 * b) 0"] assms True by auto
  obtain o2 where o2: "copy_samples front a a (2 * b - a) o1 = Inr o2" "length o2 = 2 * b"
    "\<forall>t < 2 * b. o2 ! t = (if 2 * b - a \<le> t \<and> t < 2 * b - a + a then front ! (a + (t - (2 * b - a))) else o1 ! t)"
    using copy_samples_ok [of a a front "2 * b - a" o1] assms True o1(2) by auto
  have "o2[a := front ! a] = new_spectrum (2 * a) (2 * b) front"
  proof (rule nth_equalityI)
    fix t assume "t < length (o2[a := front ! a])"
    then have t: "t < 2 * b" using o2(2) by simp
    have "a + (t - (2 * b - a)) = t - (2 * b - 2 * a)" if "2 * b - a \<le> t" using that True by simp
    then show "o2[a := front ! a] ! t = new_spectrum (2 * a) (2 * b) front ! t"
      using o2(2,3) o1(3) t True by (auto simp: new_spectrum_def nth_list_update)
  qed (simp add: new_spectrum_def o2(2))
  then show ?thesis using True assms o1(1) o2(1,2) by (simp add: change_rate_def memcpy_def)
next
  case False
  obtain o1 where o1: "copy_samples front 0 b 0 bins = Inr o1" "length o1 = 2 * b"
    "\<forall>t < 2 * b. o1 ! t = (if 0 \<le> t \<and> t < 0 + b then front ! (0 + (t - 0)) else bins ! t)"
    using copy_samples_ok [of 0 b front 0 bins] assms False by auto
  obtain o2 where o2: "copy_samples front (2 * a - b) b b o1 = Inr o2" "length o2 = 2 * b"
    "\<forall>t < 2 * b. o2 ! t = (if b \<le> t \<and> t < b + b then front ! (2 * a - b + (t - b)) else o1 ! t)"
    using copy_samples_ok [of "2 * a - b" b front b o1] assms False o1(2) by auto
  have "o2[b := (o2 ! b + front ! b) * (1 / 2)] = new_spectrum (2 * a) (2 * b) front"
  proof (rule nth_equalityI)
    fix t assume "t < length (o2[b := (o2 ! b + front ! b) * (1 / 2)])"
    then have t: "t < 2 * b" using o2(2) by simp
    have "2 * a - b + (t - b) = t + (2 * a - 2 * b)" if "b \<le> t" using that False t by simp
    then show "o2[b := (o2 ! b + front ! b) * (1 / 2)] ! t = new_spectrum (2 * a) (2 * b) front ! t"
      using o2(2,3) o1(3) t False assms by (auto simp: new_spectrum_def nth_list_update)
  qed (simp add: new_spectrum_def o2(2))
  then show ?thesis using False assms o1(1) o2(1,2) by (simp add: change_rate_def)
qed

section \<open>A block\<close>

text \<open>What a block becomes, as a function of the state and the block.\<close>

definition new_block :: "(complex list \<Rightarrow> complex list) \<Rightarrow> (complex list \<Rightarrow> complex list) \<Rightarrow> (nat \<Rightarrow> real) \<Rightarrow> resampler \<Rightarrow> complex list \<Rightarrow> complex list" where
  "new_block fft ifft window r block =
     ifft (map (\<lambda>z. z * complex_of_real (myFactor r)) (new_spectrum (myFftSizeIn r) (myFftSizeOut r)
       (fft (map2 (\<lambda>z k. z * complex_of_real (window k)) (myBufferIn r @ block) [0..<myFftSizeIn r]))))"

definition after_block :: "(complex list \<Rightarrow> complex list) \<Rightarrow> (complex list \<Rightarrow> complex list) \<Rightarrow> (nat \<Rightarrow> real) \<Rightarrow> resampler \<Rightarrow> complex list \<Rightarrow> resampler" where
  "after_block fft ifft window r block =
     r\<lparr>myBufferIn := block, myBufferOut := drop (myFftSizeOut r div 2) (new_block fft ifft window r block)\<rparr>"

definition block_out :: "(complex list \<Rightarrow> complex list) \<Rightarrow> (complex list \<Rightarrow> complex list) \<Rightarrow> (nat \<Rightarrow> real) \<Rightarrow> resampler \<Rightarrow> complex list \<Rightarrow> complex list" where
  "block_out fft ifft window r block =
     map2 (+) (myBufferOut r) (take (myFftSizeOut r div 2) (new_block fft ifft window r block))"

definition halves :: "resampler \<Rightarrow> nat \<Rightarrow> nat \<Rightarrow> bool" where
  "halves r a b = (0 < a \<and> 0 < b \<and> myFftSizeIn r = 2 * a \<and> myFftSizeOut r = 2 * b \<and> length (myBufferIn r) = a \<and> length (myBufferOut r) = b)"

lemma new_block_length:
  "halves r a b \<Longrightarrow> \<forall>xs. length (ifft xs) = length xs \<Longrightarrow> length (new_block fft ifft window r block) = 2 * b"
  by (simp add: new_block_def halves_def new_spectrum_def)

lemma after_block_halves:
  "halves r a b \<Longrightarrow> \<forall>xs. length (ifft xs) = length xs \<Longrightarrow> length block = a \<Longrightarrow> halves (after_block fft ifft window r block) a b"
  using new_block_length [of r a b ifft fft window block] by (simp add: halves_def after_block_def)

lemma block_out_length:
  "halves r a b \<Longrightarrow> \<forall>xs. length (ifft xs) = length xs \<Longrightarrow> length (block_out fft ifft window r block) = b"
  using new_block_length [of r a b ifft fft window block] by (simp add: halves_def block_out_def)

lemma resample_block_ok:
  assumes h: "halves r a b" and tr: "\<forall>xs. length (fft xs) = length xs" "\<forall>xs. length (ifft xs) = length xs"
    and inp: "take a (drop i inp) = block" "length block = a" and out: "out = pre @ post" "length pre = j" "b \<le> length post"
  shows "resample_block fft ifft window inp i j (r, out) =
    Inr (after_block fft ifft window r block, pre @ block_out fft ifft window r block @ drop b post)"
proof -
  have sizes: "myFftSizeIn r = 2 * a" "myFftSizeOut r = 2 * b" "0 < a" "0 < b" "length (myBufferIn r) = a" using h by (simp_all add: halves_def)
  have "i + a \<le> length inp" using inp sizes(3) by (auto simp: min_def split: if_splits)
  then have rd: "memread inp i a = Inr block" using inp(1) by simp
  let ?front = "fft (map2 (\<lambda>z k. z * complex_of_real (window k)) (myBufferIn r @ block) [0..<2 * a])"
  have "length ?front = 2 * a" using tr(1) sizes inp(2) by simp
  then have cr: "change_rate (2 * a) (2 * b) ?front (replicate (2 * b) 0) = Inr (new_spectrum (2 * a) (2 * b) ?front)"
    using sizes by (intro change_rate_ok) simp_all
  have nb: "ifft (map (\<lambda>z. z * complex_of_real (myFactor r)) (new_spectrum (2 * a) (2 * b) ?front)) = new_block fft ifft window r block"
    by (simp add: new_block_def sizes)
  have lb: "length (new_block fft ifft window r block) = 2 * b" by (rule new_block_length [OF h tr(2)])
  have cp: "memcpy out j (map2 (+) (myBufferOut r) (take b (new_block fft ifft window r block))) = Inr (pre @ block_out fft ifft window r block @ drop b post)"
    using out block_out_length [OF h tr(2), of fft window block] by (simp add: memcpy_def block_out_def sizes)
  have "memread (new_block fft ifft window r block) b b = Inr (drop b (new_block fft ifft window r block))" using lb by simp
  then show ?thesis using rd cr cp sizes(3) by (simp add: resample_block_def sizes(1,2) Let_def nb after_block_def)
qed

section \<open>Frames\<close>

fun run_blocks :: "(complex list \<Rightarrow> complex list) \<Rightarrow> (complex list \<Rightarrow> complex list) \<Rightarrow> (nat \<Rightarrow> real) \<Rightarrow> resampler \<Rightarrow> complex list list \<Rightarrow> resampler \<times> complex list" where
  "run_blocks fft ifft window r [] = (r, [])"
| "run_blocks fft ifft window r (x # xs) =
     (case run_blocks fft ifft window (after_block fft ifft window r x) xs of (r', ys) \<Rightarrow> (r', block_out fft ifft window r x @ ys))"

lemma run_blocks_append:
  "run_blocks fft ifft window r (xs @ ys) =
     (case run_blocks fft ifft window r xs of (r', out) \<Rightarrow> case run_blocks fft ifft window r' ys of (r'', out') \<Rightarrow> (r'', out @ out'))"
  by (induction xs arbitrary: r) (auto split: prod.splits)

lemma after_block_rates [simp]:
  "rs_L (after_block fft ifft window r x) = rs_L r" "rs_M (after_block fft ifft window r x) = rs_M r"
  by (simp_all add: after_block_def)

lemma run_blocks_state:
  assumes "halves r a b" and "\<forall>xs. length (ifft xs) = length xs" and "\<forall>x \<in> set xs. length x = a" and "run_blocks fft ifft window r xs = (r', out)"
  shows "halves r' a b \<and> rs_L r' = rs_L r \<and> rs_M r' = rs_M r \<and> length out = length xs * b"
  using assms
proof (induction xs arbitrary: r out)
  case (Cons x xs)
  obtain out2 where o: "run_blocks fft ifft window (after_block fft ifft window r x) xs = (r', out2)" "out = block_out fft ifft window r x @ out2"
    using Cons.prems(4) by (auto split: prod.splits)
  have "halves (after_block fft ifft window r x) a b" using after_block_halves [OF Cons.prems(1,2)] Cons.prems(3) by simp
  then show ?case using Cons.IH [OF _ Cons.prems(2) _ o(1)] Cons.prems(3) o(2) block_out_length [OF Cons.prems(1,2)] by simp
qed simp

lemma resample_loop_run:
  assumes "halves r a b" and "\<forall>xs. length (fft xs) = length xs" and "\<forall>xs. length (ifft xs) = length xs"
    and "drop i inp = concat xs @ rest" and "i \<le> length inp" and "\<forall>x \<in> set xs. length x = a" and "length xs * b \<le> length post" and "length pre = j"
    and "run_blocks fft ifft window r xs = (r', out)"
  shows "resample_loop fft ifft window inp a b i j (r, pre @ post) =
    resample_loop fft ifft window inp a b (i + length xs * a) (j + length xs * b) (r', pre @ out @ drop (length xs * b) post)"
  using assms
proof (induction xs arbitrary: i j r pre post out)
  case (Cons x xs)
  have a: "0 < a" using Cons.prems(1) by (simp add: halves_def)
  have x: "length x = a" using Cons.prems(6) by simp
  obtain out2 where o: "run_blocks fft ifft window (after_block fft ifft window r x) xs = (r', out2)" "out = block_out fft ifft window r x @ out2"
    using Cons.prems(9) by (auto split: prod.splits)
  have blk: "take a (drop i inp) = x" using Cons.prems(4) x by simp
  have len: "length (drop i inp) = a + length (concat xs @ rest)" using Cons.prems(4) x by simp
  then have i: "i < length inp" "i + a \<le> length inp" using a by simp_all
  have d: "drop (i + a) inp = concat xs @ rest"
  proof -
    have "drop (i + a) inp = drop a (drop i inp)" by (simp add: add.commute)
    then show ?thesis using Cons.prems(4) x by simp
  qed
  note step = resample_block_ok [OF Cons.prems(1-3) blk x refl Cons.prems(8), of post window]
  have lb: "length (block_out fft ifft window r x) = b" by (rule block_out_length [OF Cons.prems(1,3)])
  have "resample_loop fft ifft window inp a b i j (r, pre @ post) =
      resample_loop fft ifft window inp a b (i + a) (j + b) (after_block fft ifft window r x, (pre @ block_out fft ifft window r x) @ drop b post)"
    using step Cons.prems(7) i(1) a by (subst resample_loop.simps) simp
  also have "\<dots> = resample_loop fft ifft window inp a b (i + a + length xs * a) (j + b + length xs * b)
      (r', (pre @ block_out fft ifft window r x) @ out2 @ drop (length xs * b) (drop b post))"
    by (rule Cons.IH) (use Cons.prems(2,3,6,7,8) o(1) d i lb after_block_halves [OF Cons.prems(1,3) x] in simp_all)
  finally show ?case using o(2) by (simp add: add_ac)
qed simp

lemma split_blocks: "length xs = n * a + m \<Longrightarrow> \<exists>bs rest. xs = concat bs @ rest \<and> length bs = n \<and> (\<forall>b \<in> set bs. length b = a) \<and> length rest = m"
proof (induction n arbitrary: xs)
  case (Suc n)
  then obtain bs rest where bs: "drop a xs = concat bs @ rest" "length bs = n" "\<forall>b \<in> set bs. length b = a" "length rest = m"
    by (metis add_diff_cancel_left' length_drop mult_Suc add.assoc)
  have "xs = concat (take a xs # bs) @ rest" using append_take_drop_id [of a xs] bs(1) by simp
  then show ?case using Suc.prems bs(2-4) by (intro exI [of _ "take a xs # bs"] exI [of _ rest]) simp
next
  case 0
  then show ?case by (intro exI [of _ "[]"] exI [of _ xs]) simp
qed

text \<open>Whole and partial blocks.\<close>

lemma resample_process_blocks:
  assumes r: "halves r a b" and rates: "a = h * rs_M r" "b = h * rs_L r" and tr: "\<forall>xs. length (fft xs) = length xs" "\<forall>xs. length (ifft xs) = length xs"
    and fresh: "\<forall>n. length (fresh n) = n" and inp: "inp = concat bs @ rest" "\<forall>x \<in> set bs. length x = a"
  shows "rest = [] \<Longrightarrow> resample_process fft ifft window fresh inp r = Inr (run_blocks fft ifft window r bs)"
    and "0 < length rest \<Longrightarrow> length rest < a \<Longrightarrow> \<not> is_ok (resample_process fft ifft window fresh inp r)"
proof -
  have pos: "0 < a" "0 < b" "0 < rs_M r" using r rates by (auto simp: halves_def)
  have lc: "length (concat bs) = length bs * a" using inp(2) by (induction bs) auto
  let ?n = "length inp * 8 * rs_L r div rs_M r div 8"
  have whole: "length bs * a * 8 * rs_L r div rs_M r div 8 = length bs * b"
  proof -
    have "length bs * a * 8 * rs_L r = rs_M r * (length bs * b * 8)" unfolding rates by (simp add: mult_ac)
    then have "length bs * a * 8 * rs_L r div rs_M r = length bs * b * 8" using pos(3) by (metis nonzero_mult_div_cancel_left less_numeral_extra(3))
    then show ?thesis by simp
  qed
  have "length bs * a * 8 * rs_L r \<le> length inp * 8 * rs_L r" using inp(1) lc by simp
  then have "length bs * a * 8 * rs_L r div rs_M r div 8 \<le> ?n" by (intro div_le_mono)
  then have room: "length bs * b \<le> length (fresh ?n)" using whole fresh by simp
  obtain r' out where run: "run_blocks fft ifft window r bs = (r', out)" by fastforce
  note st = run_blocks_state [OF r tr(2) inp(2) run]
  have halves_r: "myFftSizeIn r div 2 = a" "myFftSizeOut r div 2 = b" using r by (simp_all add: halves_def)
  have loop: "resample_process fft ifft window fresh inp r =
      resample_loop fft ifft window inp a b (length bs * a) (length bs * b) (r', out @ drop (length bs * b) (fresh ?n))"
    using resample_loop_run [OF r tr, of 0 inp bs rest "fresh ?n" "[]" 0, OF _ _ inp(2) room _ run] inp(1)
    by (simp add: resample_process_def halves_r)
  show "resample_process fft ifft window fresh inp r = Inr (run_blocks fft ifft window r bs)" if "rest = []"
  proof -
    have "?n = length bs * b" using whole lc inp(1) that by simp
    then show ?thesis unfolding loop run using st lc inp(1) that fresh by (subst resample_loop.simps) simp
  qed
  show "\<not> is_ok (resample_process fft ifft window fresh inp r)" if rest: "0 < length rest" "length rest < a"
  proof -
    have "memread inp (length bs * a) a = Inl (UndefinedBehaviour ''read'')" using rest lc inp(1) by (simp add: memread_def)
    moreover have "myFftSizeIn r' = 2 * a" using st by (simp add: halves_def)
    ultimately have "resample_block fft ifft window inp (length bs * a) j (r', out') = Inl (UndefinedBehaviour ''read'')" for j out'
      using pos(1) by (simp add: resample_block_def Let_def)
    moreover have "length bs * a < length inp" using rest lc inp(1) by simp
    ultimately show ?thesis unfolding loop using pos(1) by (subst resample_loop.simps) simp
  qed
qed

section \<open>Many frames\<close>

fun resample_frames ::
    "(complex list \<Rightarrow> complex list) \<Rightarrow> (complex list \<Rightarrow> complex list) \<Rightarrow> (nat \<Rightarrow> real) \<Rightarrow> (nat \<Rightarrow> complex list) \<Rightarrow> complex list list \<Rightarrow>
      resampler \<Rightarrow> (resampler \<times> complex list) result" where
  "resample_frames fft ifft window fresh [] r = Inr (r, [])"
| "resample_frames fft ifft window fresh (f # fs) r =
     bindE (resample_process fft ifft window fresh f r) (\<lambda>(r, out).
     bindE (resample_frames fft ifft window fresh fs r) (\<lambda>(r, outs). Inr (r, out @ outs)))"

text \<open>A converter whose transform is not empty.\<close>

lemma Resampler_halves:
  assumes "Resampler inRate outRate resolution = Inr r" and "0 < outRate" and "0 < myFftSizeIn r"
  shows "\<exists>h. 0 < h \<and> halves r (h * rs_M r) (h * rs_L r)"
  using Resampler_ok [OF assms(1,2)] assms(3) unfolding resampler_ok_def halves_def by auto

lemma resample_frames_blocks:
  assumes "halves r a b" and "a = h * rs_M r" and "b = h * rs_L r" and "\<forall>xs. length (fft xs) = length xs" and "\<forall>xs. length (ifft xs) = length xs"
    and "\<forall>n. length (fresh n) = n" and "\<forall>f \<in> set fs. length f mod a = 0"
  shows "\<exists>bs. concat fs = concat bs \<and> (\<forall>x \<in> set bs. length x = a) \<and> resample_frames fft ifft window fresh fs r = Inr (run_blocks fft ifft window r bs)"
  using assms
proof (induction fs arbitrary: r)
  case Nil
  then show ?case by (intro exI [of _ "[]"]) simp
next
  case (Cons f fs)
  have "length f = length f div a * a + 0" using Cons.prems(7) by (simp add: mod_eq_0_iff_dvd)
  from split_blocks [OF this] obtain bs where bs: "f = concat bs" "\<forall>x \<in> set bs. length x = a" by auto
  obtain r' out where run: "run_blocks fft ifft window r bs = (r', out)" by fastforce
  note st = run_blocks_state [OF Cons.prems(1,5) bs(2) run]
  have p: "resample_process fft ifft window fresh f r = Inr (r', out)"
    using resample_process_blocks(1) [OF Cons.prems(1-6), of f bs "[]"] bs run by simp
  obtain bs2 where bs2: "concat fs = concat bs2" "\<forall>x \<in> set bs2. length x = a"
    "resample_frames fft ifft window fresh fs r' = Inr (run_blocks fft ifft window r' bs2)"
    using Cons.IH [of r'] Cons.prems st by auto
  then show ?case using bs p run by (intro exI [of _ "bs @ bs2"]) (auto simp: run_blocks_append split: prod.splits)
qed

text \<open>
  C32. The resampler has no seams. Any number of frames whose sizes are multiples of half the transform, converted one after the
  other, give the same samples as all of them together in one frame, in the same ratio of sizes, and the same state.
\<close>

theorem resampler_seamless:
  assumes "Resampler inRate outRate resolution = Inr r" and "0 < outRate" and "0 < myFftSizeIn r"
    and "\<forall>xs. length (fft xs) = length xs" and "\<forall>xs. length (ifft xs) = length xs" and "\<forall>n. length (fresh n) = n"
    and "\<forall>f \<in> set fs. length f mod (myFftSizeIn r div 2) = 0"
  shows "\<exists>r' out. resample_frames fft ifft window fresh fs r = Inr (r', out) \<and>
    resample_process fft ifft window fresh (concat fs) r = Inr (r', out) \<and> length out * rs_M r = length (concat fs) * rs_L r"
proof -
  obtain h where h: "0 < h" "halves r (h * rs_M r) (h * rs_L r)" using Resampler_halves [OF assms(1-3)] by blast
  then have half: "myFftSizeIn r div 2 = h * rs_M r" by (simp add: halves_def)
  obtain bs where bs: "concat fs = concat bs" "\<forall>x \<in> set bs. length x = h * rs_M r"
    "resample_frames fft ifft window fresh fs r = Inr (run_blocks fft ifft window r bs)"
    using resample_frames_blocks [OF h(2) refl refl assms(4-6)] assms(7) unfolding half by blast
  obtain r' out where run: "run_blocks fft ifft window r bs = (r', out)" by fastforce
  have "resample_process fft ifft window fresh (concat fs) r = Inr (r', out)"
    using resample_process_blocks(1) [OF h(2) refl refl assms(4-6), of "concat fs" bs "[]"] bs run by simp
  moreover have "length out = length bs * (h * rs_L r)" using run_blocks_state [OF h(2) assms(5) bs(2) run] by simp
  moreover have "length (concat bs) = length bs * (h * rs_M r)" using bs(2) by (induction bs) auto
  ultimately show ?thesis using bs run by simp
qed

text \<open>
  The frames the resampler can not convert. It stays inside its buffers exactly if the frame is a multiple of half the
  transform. The sizes follow from the rates: for some rates, that are not refused, the frames of a transmission mode are no such
  multiple, and beyond the last block the resampler reads behind the frame.
\<close>

lemma resampler_needs_whole_blocks:
  assumes "Resampler inRate outRate resolution = Inr r" and "0 < outRate" and "inp \<noteq> []"
    and "\<forall>xs. length (fft xs) = length xs" and "\<forall>xs. length (ifft xs) = length xs" and "\<forall>n. length (fresh n) = n"
  shows "is_ok (resample_process fft ifft window fresh inp r) \<longleftrightarrow> 0 < myFftSizeIn r \<and> length inp mod (myFftSizeIn r div 2) = 0"
proof (cases "0 < myFftSizeIn r")
  case False
  have "is_ok (resample_loop fft ifft window inp 0 n 0 0 (r, out)) = False" for n out
    using assms(3) False by (subst resample_loop.simps) (simp add: resample_block_def)
  then show ?thesis using False by (simp add: resample_process_def)
next
  case True
  obtain h where h: "0 < h" "halves r (h * rs_M r) (h * rs_L r)" using Resampler_halves [OF assms(1,2) True] by blast
  then have half: "myFftSizeIn r div 2 = h * rs_M r" "0 < h * rs_M r" by (simp_all add: halves_def)
  obtain bs rest where bs: "inp = concat bs @ rest" "\<forall>x \<in> set bs. length x = h * rs_M r" "length rest = length inp mod (h * rs_M r)"
    using split_blocks [of inp "length inp div (h * rs_M r)" "h * rs_M r" "length inp mod (h * rs_M r)", OF div_mult_mod_eq [symmetric]] by blast
  note proc = resample_process_blocks [OF h(2) refl refl assms(4-6) bs(1,2)]
  show ?thesis
  proof (cases "rest = []")
    case True
    then show ?thesis using proc(1) bs(3) half \<open>0 < myFftSizeIn r\<close> by simp
  next
    case False
    have "length rest < h * rs_M r" unfolding bs(3) using half(2) by (rule mod_less_divisor)
    moreover have pos: "0 < length rest" using False by simp
    ultimately have "\<not> is_ok (resample_process fft ifft window fresh inp r)" by (intro proc(2))
    then show ?thesis using pos bs(3) half by simp
  qed
qed

section \<open>Examples\<close>

theorem resampler_seamless_witness:
  "\<exists>r r' out. Resampler 2 1 2 = Inr r \<and>
     resample_frames (\<lambda>xs. xs) (\<lambda>xs. xs) (\<lambda>k. 1) (\<lambda>n. replicate n 0) [replicate 4 1, replicate 8 2] r = Inr (r', out) \<and>
     resample_process (\<lambda>xs. xs) (\<lambda>xs. xs) (\<lambda>k. 1) (\<lambda>n. replicate n 0) (replicate 4 1 @ replicate 8 2) r = Inr (r', out)"
proof -
  have g: "gcd_rec 2 (Suc 0) = 1" by (simp add: gcd_rec_gcd)
  obtain r where r: "Resampler 2 1 2 = Inr r" by (simp add: Resampler_def g Let_def)
  then have "myFftSizeIn r = 4" by (auto simp: Resampler_def g Let_def)
  then show ?thesis using resampler_seamless [OF r, of "\<lambda>xs. xs" "\<lambda>xs. xs" "\<lambda>n. replicate n 0" "[replicate 4 1, replicate 8 2]" "\<lambda>k. 1"] r by auto
qed

text \<open>A frame of mode I (196608 samples) at an output rate of 1638400 samples per second.\<close>

lemma resampler_needs_whole_blocks_witness:
  "\<exists>r. Resampler 2048000 1638400 2048 = Inr r \<and> myFftSizeIn r = 4100 \<and>
     \<not> is_ok (resample_process (\<lambda>xs. xs) (\<lambda>xs. xs) (\<lambda>k. 1) (\<lambda>n. replicate n 0) (replicate (2656 + 76 * 2552) 1) r)"
proof -
  have g: "gcd_rec 2048000 1638400 = 409600" by (simp add: gcd_rec.simps)
  obtain r where r: "Resampler 2048000 1638400 2048 = Inr r" by (simp add: Resampler_def g Let_def)
  then have s: "myFftSizeIn r = 4100" by (auto simp: Resampler_def g Let_def)
  define n where "n = (2656 + 76 * 2552 :: nat)"
  have n: "n mod (4100 div 2) \<noteq> 0" "n \<noteq> 0" by (simp_all add: n_def)
  then have "\<not> is_ok (resample_process (\<lambda>xs. xs) (\<lambda>xs. xs) (\<lambda>k. 1) (\<lambda>n. replicate n 0) (replicate n 1) r)"
    by (subst resampler_needs_whole_blocks [OF r]) (simp_all add: s)
  then show ?thesis using r s unfolding n_def by blast
qed

end
