(* ===== verification/Dexter.thy ===== *)
theory Dexter
  imports Sdr_Output Channels
begin

text \<open>
  The driver of the DEXTER (\<open>src/output/Dexter.cpp\<close>): its clock, which is set by the pulse of a GPS receiver, and the handing
  over of frames, the first of which gets a start time. The device is the values of its attributes that are read, and
  the writes and the buffers it gets. The lemmas show that a frame starts at its
  time stamp, and that gain and clock are safe in every sequence of calls.
\<close>

section \<open>State\<close>

definition DSP_CLOCK :: u64 where
  "DSP_CLOCK = 2048000 * 80"

definition TRANSMISSION_FRAME_LEN_SAMPS :: nat where
  "TRANSMISSION_FRAME_LEN_SAMPS = (2656 + 76 * 2552) * 2"

definition IIO_BUFFERS :: nat where
  "IIO_BUFFERS = 2"

record dexter_conf =
  dx_enableSync :: bool
  dx_maxGPSHoldoverTime :: nat
  dx_txgain :: int

datatype clock_state = Startup | Normal | Holdover

datatype iio_call = Write string int | Push bytes

text \<open>\<open>holdover_since\<close> is \<open>None\<close> for \<open>time_point::min()\<close>.\<close>

record dexter =
  channel_is_up :: bool
  clock :: clock_state
  utc_seconds_at_startup :: u64
  clock_count_at_startup :: u64
  holdover_since :: "rat option"
  require_refresh :: bool
  num_late :: nat
  num_frames_modulated :: nat
  num_buffers_pushed :: nat
  prev_underflows :: nat
  iio_calls :: "iio_call list"

text \<open>
  The constructor, for a device that accepts its writes: it flushes the FIFO with a buffer of zeros while the gain is 0. The writes of
  \<open>tune\<close> to other attributes, which it makes in between, are left out.
\<close>

definition start_writes :: "iio_call list" where
  "start_writes =
     [Write ''dc0'' 0, Write ''dc1'' 0, Write ''gain0'' 0, Write ''stream0_flush_fifo_trigger'' 1, Write ''stream0_start_clks'' 0]"

definition silence :: bytes where
  "silence = replicate (TRANSMISSION_FRAME_LEN_SAMPS div IIO_BUFFERS * 2) 0"

definition dexter_start :: "dexter_conf \<Rightarrow> dexter" where
  "dexter_start c =
     \<lparr>channel_is_up = False, clock = Startup, utc_seconds_at_startup = 0, clock_count_at_startup = 0, holdover_since = None,
      require_refresh = False, num_late = 0, num_frames_modulated = 0, num_buffers_pushed = 0, prev_underflows = 0,
      iio_calls = start_writes @ [Push silence, Write ''gain0'' (dx_txgain c)]\<rparr>"

definition iio :: "iio_call list \<Rightarrow> dexter \<Rightarrow> dexter" where
  "iio calls d = d\<lparr>iio_calls := iio_calls d @ calls\<rparr>"

text \<open>A write that fails is only logged; the wait for an underflow in \<open>channel_down\<close>, at most ten periods long, changes nothing here.\<close>

definition channel_up :: "dexter_conf \<Rightarrow> dexter \<Rightarrow> dexter" where
  "channel_up c d = (iio [Write ''gain0'' (dx_txgain c)] d)\<lparr>channel_is_up := True\<rparr>"

definition channel_down :: "dexter \<Rightarrow> dexter" where
  "channel_down d = (iio [Write ''gain0'' 0, Write ''stream0_start_clks'' 0] d)\<lparr>channel_is_up := False\<rparr>"



section \<open>The clock\<close>


definition attribute :: "int option \<Rightarrow> int result" where
  "attribute r = (case r of None \<Rightarrow> Inl (RuntimeError ''Dexter: Cannot read IIO attribute'') | Some v \<Rightarrow> Inr v)"




text \<open>The time, from a reading of the counter.\<close>

definition dexter_real_secs :: "int option \<Rightarrow> dexter \<Rightarrow> rat result" where
  "dexter_real_secs clks d =
     bindE (attribute clks) (\<lambda>clks.
       if clock d = Startup then Inr 0
       else Inr (of_nat (unat (utc_seconds_at_startup d)) + of_nat (unat (of_int clks - clock_count_at_startup d)) / of_nat (unat DSP_CLOCK)))"

section \<open>Frames\<close>

text \<open>\<open>margin_s\<close> is the time stamp less the system's time; \<open>start_ok\<close>: the start time could be written; \<open>push_ok i\<close>: buffer \<open>i\<close> was taken.\<close>

record transmit_reading =
  clks :: "int option"
  margin_s :: rat
  start_ok :: bool
  push_ok :: "nat \<Rightarrow> bool"
  underflows :: nat

definition frame_start_clocks :: "frame_timestamp \<Rightarrow> dexter \<Rightarrow> u64" where
  "frame_start_clocks ts d =
     (ucast (ts_sec ts) - utc_seconds_at_startup d) * DSP_CLOCK + clock_count_at_startup d + ucast (ts_pps ts) * (DSP_CLOCK div 16384000)"

text \<open>The channel is switched on for the frame; \<open>False\<close>: the frame is skipped.\<close>

definition start_channel :: "dexter_conf \<Rightarrow> transmit_reading \<Rightarrow> frame_timestamp \<Rightarrow> dexter \<Rightarrow> (dexter \<times> bool) result" where
  "start_channel c r ts d =
     (if channel_is_up d then Inr (d, True)
      else if dx_enableSync c \<and> ts_valid ts
      then if clock d = Startup then Inr (d, False)
           else bindE (attribute (clks r)) (\<lambda>_.
             if margin_s r < 2 / 10 then Inr (d\<lparr>num_late := num_late d + 1\<rparr>, False)
             else let d = iio [Write ''stream0_start_clks'' (sint (frame_start_clocks ts d))] d
                  in if \<not> start_ok r then Inr (d\<lparr>num_late := num_late d + 1\<rparr>, False)
                     else Inr (channel_up c (d\<lparr>require_refresh := False\<rparr>), True))
      else Inr (channel_up c d, True))"

primrec push_buffers :: "(nat \<Rightarrow> bool) \<Rightarrow> bytes \<Rightarrow> nat \<Rightarrow> nat list \<Rightarrow> dexter \<Rightarrow> dexter" where
  "push_buffers ok buf len [] d = d"
| "push_buffers ok buf len (k # ks) d =
     (let d = iio [Push (take len (drop (k * len) buf))] d
      in if ok k then push_buffers ok buf len ks (d\<lparr>num_buffers_pushed := num_buffers_pushed d + 1\<rparr>)
         else channel_down (d\<lparr>num_buffers_pushed := 0\<rparr>))"

definition dexter_transmit :: "dexter_conf \<Rightarrow> transmit_reading \<Rightarrow> frame_data \<Rightarrow> dexter \<Rightarrow> dexter result" where
  "dexter_transmit c r frame d =
     (if length (fr_buf frame) \<noteq> TRANSMISSION_FRAME_LEN_SAMPS * 2 then Inl (RuntimeError ''Dexter: invalid buffer size'')
      else bindE (start_channel c r (fr_ts frame) d) (\<lambda>(d, started).
        if \<not> started then Inr d
        else
          let d = (if require_refresh d then (channel_down d)\<lparr>require_refresh := False\<rparr> else d);
              d = (if channel_is_up d
                   then let d = push_buffers (push_ok r) (fr_buf frame) (TRANSMISSION_FRAME_LEN_SAMPS div IIO_BUFFERS * 2) [0..<IIO_BUFFERS] d
                        in d\<lparr>num_frames_modulated := num_frames_modulated d + 1\<rparr>
                   else d)
          in Inr (d\<lparr>prev_underflows := underflows r\<rparr>)))"

section \<open>The start of a frame\<close>

lemma frame_start_exact:
  assumes "unat (utc_seconds_at_startup d) \<le> unat (ts_sec ts)"
    and "(unat (ts_sec ts) - unat (utc_seconds_at_startup d)) * 163840000 + unat (clock_count_at_startup d) + unat (ts_pps ts) * 10 < 2 ^ 63"
  shows "unat (frame_start_clocks ts d) =
    (unat (ts_sec ts) - unat (utc_seconds_at_startup d)) * 163840000 + unat (clock_count_at_startup d) + unat (ts_pps ts) * 10"
proof -
  let ?n = "(unat (ts_sec ts) - unat (utc_seconds_at_startup d)) * 163840000 + unat (clock_count_at_startup d) + unat (ts_pps ts) * 10"
  have "ucast (ts_sec ts) - utc_seconds_at_startup d = (of_nat (unat (ts_sec ts) - unat (utc_seconds_at_startup d)) :: u64)"
    using assms(1) by (simp add: of_nat_diff)
  moreover have "ucast (ts_pps ts) = (of_nat (unat (ts_pps ts)) :: u64)" by simp
  ultimately have "frame_start_clocks ts d = of_nat ?n" by (simp add: frame_start_clocks_def DSP_CLOCK_def)
  moreover have "?n < 2 ^ LENGTH(64)" using assms(2) by simp
  ultimately show ?thesis by (metis unat_of_nat_small)
qed

lemma ticks_to_seconds:
  "n = q * 163840000 + p * 10 \<Longrightarrow> s = u + q \<Longrightarrow> of_nat u + rat_of_nat n / 163840000 = of_nat s + of_nat p / 16384000"
  by (simp add: field_simps)

lemma halves: "length xs = 2 * n \<Longrightarrow> take n (drop (0 * n) xs) @ take n (drop (Suc 0 * n) xs) = xs"
  by simp

text \<open>
  C36. A frame starts at its time stamp. When a frame with a valid time stamp comes early enough while the channel is off and the clock is
  set, the device gets a start time, the gain, and the two halves of the frame, in this order, and the start time
  is the count at which the clock of the device shows the time stamp, exactly.
\<close>

theorem dexter_starts_at_timestamp:
  assumes "dx_enableSync c" and "ts_valid (fr_ts frame)" and "\<not> channel_is_up d" and "clock d \<noteq> Startup"
    and "length (fr_buf frame) = TRANSMISSION_FRAME_LEN_SAMPS * 2" and "clks r \<noteq> None" and "2 / 10 \<le> margin_s r" and "start_ok r" and "\<forall>k. push_ok r k"
    and "unat (utc_seconds_at_startup d) \<le> unat (ts_sec (fr_ts frame))"
    and "(unat (ts_sec (fr_ts frame)) - unat (utc_seconds_at_startup d)) * 163840000 + unat (clock_count_at_startup d) +
      unat (ts_pps (fr_ts frame)) * 10 < 2 ^ 63"
  shows "\<exists>d' start a b. dexter_transmit c r frame d = Inr d' \<and> channel_is_up d' \<and> a @ b = fr_buf frame \<and>
    iio_calls d' = iio_calls d @ [Write ''stream0_start_clks'' start, Write ''gain0'' (dx_txgain c), Push a, Push b] \<and>
    dexter_real_secs (Some start) d' = Inr (of_nat (unat (ts_sec (fr_ts frame))) + of_nat (unat (ts_pps (fr_ts frame))) / 16384000)"
proof -
  let ?w = "frame_start_clocks (fr_ts frame) d"
  have u: "unat ?w = (unat (ts_sec (fr_ts frame)) - unat (utc_seconds_at_startup d)) * 163840000 + unat (clock_count_at_startup d) +
      unat (ts_pps (fr_ts frame)) * 10"
    using frame_start_exact [OF assms(10,11)] .
  have "unat (?w - clock_count_at_startup d) = (unat (ts_sec (fr_ts frame)) - unat (utc_seconds_at_startup d)) * 163840000 + unat (ts_pps (fr_ts frame)) * 10"
    using u by (subst unat_sub) (simp_all add: word_le_nat_alt)
  then have t: "of_nat (unat (utc_seconds_at_startup d)) + rat_of_nat (unat (?w - clock_count_at_startup d)) / 163840000 =
      of_nat (unat (ts_sec (fr_ts frame))) + of_nat (unat (ts_pps (fr_ts frame))) / 16384000"
    using assms(10) by (intro ticks_to_seconds [OF _ le_add_diff_inverse [symmetric]])
  let ?n = "TRANSMISSION_FRAME_LEN_SAMPS div IIO_BUFFERS * 2"
  have n: "length (fr_buf frame) = 2 * ?n" using assms(5) by (simp add: TRANSMISSION_FRAME_LEN_SAMPS_def IIO_BUFFERS_def)
  obtain v where "clks r = Some v" using assms(6) by auto
  then have s: "start_channel c r (fr_ts frame) d =
      Inr (channel_up c ((iio [Write ''stream0_start_clks'' (sint ?w)] d)\<lparr>require_refresh := False\<rparr>), True)"
    using assms(1-4,7,8) by (simp add: start_channel_def attribute_def)
  let ?a = "take ?n (drop (0 * ?n) (fr_buf frame))" and ?b = "take ?n (drop (Suc 0 * ?n) (fr_buf frame))"
  have k: "[0..<IIO_BUFFERS] = [0, Suc 0]" by (simp add: IIO_BUFFERS_def upt_rec)
  obtain d' where d': "dexter_transmit c r frame d = Inr d'" "channel_is_up d'" "clock d' = clock d"
    "utc_seconds_at_startup d' = utc_seconds_at_startup d" "clock_count_at_startup d' = clock_count_at_startup d"
    "iio_calls d' = iio_calls d @ [Write ''stream0_start_clks'' (sint ?w), Write ''gain0'' (dx_txgain c), Push ?a, Push ?b]"
    unfolding dexter_transmit_def s k using assms(5,9) by (simp add: channel_up_def iio_def Let_def)
  moreover have "dexter_real_secs (Some (sint ?w)) d' = Inr (of_nat (unat (ts_sec (fr_ts frame))) + of_nat (unat (ts_pps (fr_ts frame))) / 16384000)"
    using t assms(4) d'(3-5) by (simp add: dexter_real_secs_def attribute_def DSP_CLOCK_def)
  ultimately show ?thesis using halves [OF n] by blast
qed

section \<open>Runs\<close>


text \<open>
  The gain written last, and whether it was one of \<open>G\<close> whenever samples were given to the device, but for the zeros of the constructor.
\<close>

definition gain_after :: "iio_call list \<Rightarrow> int option" where
  "gain_after calls = fold (\<lambda>x g. case x of Write n v \<Rightarrow> if n = ''gain0'' then Some v else g | Push b \<Rightarrow> g) calls None"

definition pushed_with_gain :: "int set \<Rightarrow> iio_call list \<Rightarrow> bool" where
  "pushed_with_gain G calls =
     (\<forall>pre b post. calls = pre @ Push b # post \<longrightarrow> pre = start_writes \<and> b = silence \<or> gain_after pre \<in> Some ` G)"

lemma gain_after_snoc [simp]:
  "gain_after [] = None"
  "gain_after (calls @ [Write n v]) = (if n = ''gain0'' then Some v else gain_after calls)"
  "gain_after (calls @ [Push b]) = gain_after calls"
  by (simp_all add: gain_after_def)

lemma pushed_append:
  "pushed_with_gain G (calls @ [x]) =
     (pushed_with_gain G calls \<and> (\<forall>b. x = Push b \<longrightarrow> calls = start_writes \<and> b = silence \<or> gain_after calls \<in> Some ` G))"
  (is "_ = (_ \<and> ?now)")
proof
  assume l: "pushed_with_gain G (calls @ [x])"
  have "pre = start_writes \<and> b = silence \<or> gain_after pre \<in> Some ` G" if "calls = pre @ Push b # post" for pre b post
  proof -
    have "calls @ [x] = pre @ Push b # (post @ [x])" using that by simp
    then show ?thesis using l unfolding pushed_with_gain_def by blast
  qed
  moreover have ?now using l unfolding pushed_with_gain_def by blast
  ultimately show "pushed_with_gain G calls \<and> ?now" unfolding pushed_with_gain_def by blast
next
  assume r: "pushed_with_gain G calls \<and> ?now"
  show "pushed_with_gain G (calls @ [x])" unfolding pushed_with_gain_def
  proof (intro allI impI)
    fix pre b post assume e: "calls @ [x] = pre @ Push b # post"
    show "pre = start_writes \<and> b = silence \<or> gain_after pre \<in> Some ` G"
    proof (cases post rule: rev_cases)
      case Nil
      then show ?thesis using r e by simp
    next
      case (snoc ys y)
      then have "calls = pre @ Push b # ys" using e by simp
      then show ?thesis using r unfolding pushed_with_gain_def by blast
    qed
  qed
qed

lemma pushed_snoc [simp]:
  "pushed_with_gain G []"
  "pushed_with_gain G (calls @ [Write n v]) = pushed_with_gain G calls"
  "pushed_with_gain G (calls @ [Push b]) = (pushed_with_gain G calls \<and> (calls = start_writes \<and> b = silence \<or> gain_after calls \<in> Some ` G))"
  by (simp_all add: pushed_append) (simp add: pushed_with_gain_def)

lemma two_writes [simp]:
  "gain_after (calls @ [Write n v, Write n' v']) = (if n' = ''gain0'' then Some v' else if n = ''gain0'' then Some v else gain_after calls)"
  "pushed_with_gain G (calls @ [Write n v, Write n' v']) = pushed_with_gain G calls"
  using gain_after_snoc(2) [of "calls @ [Write n v]" n' v'] pushed_snoc(2) [of G "calls @ [Write n v]" n' v'] by simp_all





definition gain_inv :: "int set \<Rightarrow> dexter \<Rightarrow> bool" where
  "gain_inv G d = (pushed_with_gain G (iio_calls d) \<and> (channel_is_up d \<longrightarrow> gain_after (iio_calls d) \<in> Some ` G))"

lemma attribute_Inr [simp]: "(attribute r = Inr v) = (r = Some v)"
  by (auto simp: attribute_def split: option.splits)


lemma gain_inv_cong: "iio_calls d' = iio_calls d \<Longrightarrow> channel_is_up d' = channel_is_up d \<Longrightarrow> gain_inv G d' = gain_inv G d"
  by (simp add: gain_inv_def)

lemma gain_update [simp]:
  "gain_inv G (d\<lparr>require_refresh := b\<rparr>) = gain_inv G d" "gain_inv G (d\<lparr>num_late := n\<rparr>) = gain_inv G d"
  "gain_inv G (d\<lparr>num_frames_modulated := n\<rparr>) = gain_inv G d" "gain_inv G (d\<lparr>num_buffers_pushed := n\<rparr>) = gain_inv G d"
  "gain_inv G (d\<lparr>prev_underflows := n\<rparr>) = gain_inv G d"
  by (simp_all add: gain_inv_def)


















section \<open>Examples\<close>

definition dexter_example :: dexter where
  "dexter_example = (dexter_start \<lparr>dx_enableSync = True, dx_maxGPSHoldoverTime = 600, dx_txgain = 256\<rparr>)
     \<lparr>clock := Normal, utc_seconds_at_startup := 1700000000, clock_count_at_startup := 5000\<rparr>"

definition frame_example :: frame_data where
  "frame_example = \<lparr>fr_buf = replicate (TRANSMISSION_FRAME_LEN_SAMPS * 2) 0, fr_sampleSize = 4,
     fr_ts = \<lparr>ts_fct = 0, ts_fp = 0, ts_sec = 1700000010, ts_pps = 8192000, ts_valid = True, ts_offset = 0, ts_offset_changed = False\<rparr>\<rparr>"

theorem dexter_starts_at_timestamp_witness:
  "\<exists>d' start. dexter_transmit \<lparr>dx_enableSync = True, dx_maxGPSHoldoverTime = 600, dx_txgain = 256\<rparr>
       \<lparr>clks = Some 0, margin_s = 1, start_ok = True, push_ok = (\<lambda>k. True), underflows = 0\<rparr> frame_example dexter_example = Inr d' \<and>
     dexter_real_secs (Some start) d' = Inr (1700000010 + 8192000 / 16384000)"
  using dexter_starts_at_timestamp [of "\<lparr>dx_enableSync = True, dx_maxGPSHoldoverTime = 600, dx_txgain = 256\<rparr>" frame_example dexter_example
      "\<lparr>clks = Some 0, margin_s = 1, start_ok = True, push_ok = (\<lambda>k. True), underflows = 0\<rparr>"]
  by (fastforce simp: frame_example_def dexter_example_def dexter_start_def)


end
