(* ===== verification/Json.thy ===== *)
theory Json
  imports Prelude Complex_Main
begin

text \<open>
  The JSON writer (\<open>lib/Json.cpp\<close>) that the remote control uses to report all values. The lemmas show that a reader that follows
  RFC 8259 gets back what was written, whatever characters the strings have.
\<close>

section \<open>Text of numbers\<close>

text \<open>What the stream operators of the library write: decimal numbers, and floating point numbers as \<open>std::fixed\<close> with six digits.\<close>

definition digit :: "nat \<Rightarrow> char" where
  "digit d = char_of (48 + d)"

fun nat_text :: "nat \<Rightarrow> string" where
  "nat_text n = (if n < 10 then [digit n] else nat_text (n div 10) @ [digit (n mod 10)])"

declare nat_text.simps [simp del]

definition int_text :: "int \<Rightarrow> string" where
  "int_text i = (if i < 0 then ''-'' @ nat_text (nat (- i)) else nat_text (nat i))"

fun zero_padded :: "nat \<Rightarrow> nat \<Rightarrow> string" where
  "zero_padded 0 n = []"
| "zero_padded (Suc k) n = zero_padded k (n div 10) @ [digit (n mod 10)]"

text \<open>The nearest integer, ties to even.\<close>

definition nearest :: "real \<Rightarrow> int" where
  "nearest x = (let n = \<lfloor>x + 1 / 2\<rfloor> in if x + 1 / 2 = real_of_int n \<and> odd n then n - 1 else n)"

definition fixed_text :: "real \<Rightarrow> string" where
  "fixed_text x =
     (let n = nat (nearest (\<bar>x\<bar> * 10 ^ 6))
      in (if x < 0 then ''-'' else '''') @ nat_text (n div 10 ^ 6) @ ''.'' @ zero_padded 6 n)"

section \<open>Values\<close>

text \<open>A double is finite or one of the values that have no decimal text. A map lists its elements in the order it is run through.\<close>

datatype double = Finite real | Infinite bool | Not_a_number

datatype json_value =
    Map "(string \<times> json_value) list"
  | Vector "json_value list"
  | String string
  | Double double
  | Int64 "64 word"
  | UInt64 "64 word"
  | Int32 "32 word"
  | UInt32 "32 word"
  | Bool bool
  | Nullopt

fun double_text :: "double \<Rightarrow> string" where
  "double_text (Finite x) = fixed_text x"
| "double_text (Infinite negative) = (if negative then ''-inf'' else ''inf'')"
| "double_text Not_a_number = ''nan''"

definition hex_digit :: "nat \<Rightarrow> char" where
  "hex_digit d = (if d < 10 then char_of (48 + d) else char_of (87 + d))"

definition escape_char :: "char \<Rightarrow> string" where
  "escape_char c =
     (if c = CHR 0x22 then [CHR 0x5C, CHR 0x22]
      else if c = CHR 0x5C then [CHR 0x5C, CHR 0x5C]
      else if c = CHR 0x08 then [CHR 0x5C, CHR ''b'']
      else if c = CHR 0x0C then [CHR 0x5C, CHR ''f'']
      else if c = CHR 0x0A then [CHR 0x5C, CHR ''n'']
      else if c = CHR 0x0D then [CHR 0x5C, CHR ''r'']
      else if c = CHR 0x09 then [CHR 0x5C, CHR ''t'']
      else if (of_char c :: nat) < 32 then [CHR 0x5C, CHR ''u'', CHR ''0'', CHR ''0'', hex_digit (of_char c div 16), hex_digit (of_char c mod 16)]
      else [c])"

definition escape_json :: "string \<Rightarrow> string" where
  "escape_json s = concat (map escape_char s)"

fun separated :: "string list \<Rightarrow> string" where
  "separated [] = []"
| "separated [x] = x"
| "separated (x # y # zs) = x @ '','' @ separated (y # zs)"

definition quoted :: "string \<Rightarrow> string" where
  "quoted s = [CHR 0x22] @ escape_json s @ [CHR 0x22]"

fun value_to_json :: "json_value \<Rightarrow> string" where
  "value_to_json (Map es) = ''{ '' @ separated (map (\<lambda>(k, v). quoted k @ '': '' @ value_to_json v) es) @ '' }''"
| "value_to_json (Vector vs) = ''[ '' @ separated (map value_to_json vs) @ '']''"
| "value_to_json (String s) = quoted s"
| "value_to_json (Double d) = double_text d"
| "value_to_json (Int64 w) = int_text (sint w)"
| "value_to_json (UInt64 w) = int_text (uint w)"
| "value_to_json (Int32 w) = int_text (sint w)"
| "value_to_json (UInt32 w) = int_text (uint w)"
| "value_to_json (Bool b) = (if b then ''true'' else ''false'')"
| "value_to_json Nullopt = ''null''"

definition map_to_json :: "(string \<times> json_value) list \<Rightarrow> string" where
  "map_to_json es = value_to_json (Map es)"

section \<open>A reader\<close>

text \<open>A reader for JSON texts (RFC 8259), without exponents and with escaped characters up to 127.\<close>

datatype json = Object "(string \<times> json) list" | Array "json list" | Text string | Number real | Truth bool | Null

definition is_digit :: "char \<Rightarrow> bool" where
  "is_digit c = (48 \<le> (of_char c :: nat) \<and> (of_char c :: nat) \<le> 57)"

definition digits_number :: "string \<Rightarrow> nat" where
  "digits_number ds = foldl (\<lambda>n d. n * 10 + (of_char d - 48)) 0 ds"

definition read_real :: "string \<Rightarrow> (real \<times> string) option" where
  "read_real s =
     (let negative = (s \<noteq> [] \<and> hd s = CHR ''-''); s = (if negative then tl s else s);
          ds = takeWhile is_digit s; rest = dropWhile is_digit s; sign = (if negative then - 1 else 1)
      in if ds = [] \<or> (hd ds = CHR ''0'' \<and> tl ds \<noteq> []) then None
         else case rest of
                [] \<Rightarrow> Some (sign * real (digits_number ds), [])
              | c # r \<Rightarrow>
                  if c = CHR ''.''
                  then let fs = takeWhile is_digit r
                       in if fs = [] then None
                          else Some (sign * (real (digits_number ds) + real (digits_number fs) / 10 ^ length fs), dropWhile is_digit r)
                  else Some (sign * real (digits_number ds), rest))"

definition hex_value :: "char \<Rightarrow> nat option" where
  "hex_value c =
     (let n = of_char c
      in if 48 \<le> n \<and> n \<le> 57 then Some (n - 48) else if 97 \<le> n \<and> n \<le> 102 then Some (n - 87)
         else if 65 \<le> n \<and> n \<le> 70 then Some (n - 55) else None)"

definition read_hex :: "char \<Rightarrow> char \<Rightarrow> char \<Rightarrow> char \<Rightarrow> char option" where
  "read_hex a b c d =
     (case (hex_value a, hex_value b, hex_value c, hex_value d) of
        (Some a, Some b, Some c, Some d) \<Rightarrow> (let n = ((a * 16 + b) * 16 + c) * 16 + d in if n < 128 then Some (char_of n) else None)
      | _ \<Rightarrow> None)"

definition unescape :: "char \<Rightarrow> char option" where
  "unescape e =
     (if e = CHR 0x22 \<or> e = CHR 0x5C \<or> e = CHR 0x2F then Some e
      else map_of [(CHR ''b'', CHR 0x08), (CHR ''f'', CHR 0x0C), (CHR ''n'', CHR 0x0A), (CHR ''r'', CHR 0x0D), (CHR ''t'', CHR 0x09)] e)"

definition put_front :: "char \<Rightarrow> (string \<times> string) option \<Rightarrow> (string \<times> string) option" where
  "put_front c r = map_option (map_prod ((#) c) id) r"

text \<open>The characters up to the closing quote.\<close>

fun read_chars :: "string \<Rightarrow> (string \<times> string) option" where
  "read_chars [] = None"
| "read_chars (c # cs) =
     (if c = CHR 0x22 then Some ([], cs)
      else if (of_char c :: nat) < 32 then None
      else if c = CHR 0x5C
      then (case cs of
              [] \<Rightarrow> None
            | e # r \<Rightarrow>
                if e = CHR ''u''
                then (case r of
                        h1 # h2 # h3 # h4 # r' \<Rightarrow> (case read_hex h1 h2 h3 h4 of None \<Rightarrow> None | Some x \<Rightarrow> put_front x (read_chars r'))
                      | _ \<Rightarrow> None)
                else (case unescape e of None \<Rightarrow> None | Some x \<Rightarrow> put_front x (read_chars r)))
      else put_front c (read_chars cs))"

definition skip_space :: "string \<Rightarrow> string" where
  "skip_space s = dropWhile (\<lambda>c. c \<in> {CHR 0x20, CHR 0x09, CHR 0x0A, CHR 0x0D}) s"

text \<open>One or more items, up to the closing bracket.\<close>

primrec read_items :: "(string \<Rightarrow> ('a \<times> string) option) \<Rightarrow> char \<Rightarrow> nat \<Rightarrow> string \<Rightarrow> ('a list \<times> string) option" where
  "read_items item close 0 s = None"
| "read_items item close (Suc n) s =
     (case item s of
        None \<Rightarrow> None
      | Some (x, s) \<Rightarrow>
          (case skip_space s of
             [] \<Rightarrow> None
           | c # r \<Rightarrow> if c = close then Some ([x], r)
                      else if c = CHR '','' then map_option (map_prod ((#) x) id) (read_items item close n r) else None))"

definition read_member :: "(string \<Rightarrow> ('a \<times> string) option) \<Rightarrow> string \<Rightarrow> ((string \<times> 'a) \<times> string) option" where
  "read_member item s =
     (case skip_space s of
        [] \<Rightarrow> None
      | q # r \<Rightarrow>
          if q \<noteq> CHR 0x22 then None
          else case read_chars r of
                 None \<Rightarrow> None
               | Some (k, r) \<Rightarrow>
                   (case skip_space r of
                      [] \<Rightarrow> None
                    | c # r \<Rightarrow> if c \<noteq> CHR '':'' then None else map_option (map_prod (Pair k) id) (item r)))"

definition read_word :: "string \<Rightarrow> json \<Rightarrow> string \<Rightarrow> (json \<times> string) option" where
  "read_word w v s = (if take (length w) s = w then Some (v, drop (length w) s) else None)"

primrec read_json :: "nat \<Rightarrow> string \<Rightarrow> (json \<times> string) option" where
  "read_json 0 s = None"
| "read_json (Suc n) s =
     (let s = skip_space s
      in case s of
           [] \<Rightarrow> None
         | c # r \<Rightarrow>
             if c = CHR ''{''
             then (case skip_space r of
                     [] \<Rightarrow> None
                   | d # r' \<Rightarrow> if d = CHR ''}'' then Some (Object [], r')
                               else map_option (map_prod Object id) (read_items (read_member (read_json n)) (CHR ''}'') n r))
             else if c = CHR ''[''
             then (case skip_space r of
                     [] \<Rightarrow> None
                   | d # r' \<Rightarrow> if d = CHR '']'' then Some (Array [], r')
                               else map_option (map_prod Array id) (read_items (read_json n) (CHR '']'') n r))
             else if c = CHR 0x22 then map_option (map_prod Text id) (read_chars r)
             else if c = CHR ''t'' then read_word ''true'' (Truth True) s
             else if c = CHR ''f'' then read_word ''false'' (Truth False) s
             else if c = CHR ''n'' then read_word ''null'' Null s
             else map_option (map_prod Number id) (read_real s))"

text \<open>What a value means: numbers are numbers, doubles are kept to six decimals.\<close>

fun meaning :: "json_value \<Rightarrow> json" where
  "meaning (Map es) = Object (map (\<lambda>(k, v). (k, meaning v)) es)"
| "meaning (Vector vs) = Array (map meaning vs)"
| "meaning (String s) = Text s"
| "meaning (Double d) = (case d of Finite x \<Rightarrow> Number (sgn x * real_of_int (nearest (\<bar>x\<bar> * 10 ^ 6)) / 10 ^ 6) | _ \<Rightarrow> Null)"
| "meaning (Int64 w) = Number (real_of_int (sint w))"
| "meaning (UInt64 w) = Number (real_of_int (uint w))"
| "meaning (Int32 w) = Number (real_of_int (sint w))"
| "meaning (UInt32 w) = Number (real_of_int (uint w))"
| "meaning (Bool b) = Truth b"
| "meaning Nullopt = Null"

fun finite_doubles :: "json_value \<Rightarrow> bool" where
  "finite_doubles (Map es) = (\<forall>(k, v) \<in> set es. finite_doubles v)"
| "finite_doubles (Vector vs) = (\<forall>v \<in> set vs. finite_doubles v)"
| "finite_doubles (Double d) = (case d of Finite x \<Rightarrow> True | _ \<Rightarrow> False)"
| "finite_doubles _ = True"

declare value_to_json.simps [simp del] read_json.simps [simp del] read_chars.simps [simp del]

section \<open>Digits\<close>

lemma of_char_digit: "d < 10 \<Longrightarrow> of_char (digit d) = (48 + d :: nat)"
  by (simp add: digit_def)

lemma is_digit_digit [simp]: "d < 10 \<Longrightarrow> is_digit (digit d)"
  by (simp add: is_digit_def of_char_digit)

lemma read_digits_snoc: "digits_number (ds @ [d]) = digits_number ds * 10 + (of_char d - 48)"
  by (simp add: digits_number_def)

lemma nat_text_unfold: "nat_text n = (if n < 10 then [digit n] else nat_text (n div 10) @ [digit (n mod 10)])"
  by (rule nat_text.simps)

lemma nat_text_digits: "c \<in> set (nat_text n) \<Longrightarrow> is_digit c"
proof (induction n rule: nat_text.induct)
  case (1 n)
  then show ?case by (cases "n < 10") (auto simp: nat_text_unfold [of n])
qed

lemma read_nat_text: "digits_number (nat_text n) = n"
proof (induction n rule: nat_text.induct)
  case (1 n)
  then show ?case
    by (cases "n < 10") (simp_all add: nat_text_unfold [of n] read_digits_snoc of_char_digit digits_number_def [of "[d]" for d])
qed

lemma nat_text_first: "nat_text n \<noteq> [] \<and> (hd (nat_text n) = CHR ''0'' \<longrightarrow> nat_text n = ''0'')"
proof (induction n rule: nat_text.induct)
  case (1 n)
  have z: "nat_text k = ''0'' \<Longrightarrow> k = 0" for k using read_nat_text [of k] by (simp add: digits_number_def)
  show ?case
  proof (cases "n < 10")
    case True
    then show ?thesis using of_char_digit [of n] by (auto simp: nat_text_unfold [of n])
  next
    case False
    then show ?thesis using 1 z [of "n div 10"] by (auto simp: nat_text_unfold [of n])
  qed
qed

lemma padded_length: "length (zero_padded k n) = k"
  by (induction k n rule: zero_padded.induct) auto

lemma padded_is_digit: "c \<in> set (zero_padded k n) \<Longrightarrow> is_digit c"
  by (induction k n rule: zero_padded.induct) auto

lemma read_padded: "digits_number (zero_padded k n) = n mod 10 ^ k"
proof (induction k n rule: zero_padded.induct)
  case (2 k n)
  then show ?case using mod_mult2_eq [of n 10 "10 ^ k"] by (simp add: read_digits_snoc of_char_digit)
qed (simp add: digits_number_def)

text \<open>After a value there is nothing, or no character of a number.\<close>

definition ends :: "string \<Rightarrow> bool" where
  "ends rest = (rest = [] \<or> \<not> is_digit (hd rest) \<and> hd rest \<noteq> CHR ''.'')"

lemma takeWhile_digits:
  "\<forall>c \<in> set ds. is_digit c \<Longrightarrow> rest = [] \<or> \<not> is_digit (hd rest) \<Longrightarrow>
     takeWhile is_digit (ds @ rest) = ds \<and> dropWhile is_digit (ds @ rest) = rest"
  by (induction ds) (auto simp: takeWhile_eq_Nil_iff dropWhile_eq_self_iff)

lemma not_digits [simp]: "\<not> is_digit CHR ''.''" "\<not> is_digit CHR ''-''"
  by (simp_all add: is_digit_def)

lemma nat_text_not_minus: "hd (nat_text n @ rest) \<noteq> CHR ''-''"
proof
  assume "hd (nat_text n @ rest) = CHR ''-''"
  moreover have "hd (nat_text n @ rest) \<in> set (nat_text n)" using nat_text_first [of n] by simp
  ultimately have "is_digit CHR ''-''" using nat_text_digits by metis
  then show False by simp
qed

lemma read_number_text:
  assumes "ends rest"
  shows "read_real ((if neg then ''-'' else []) @ nat_text n @ rest) = Some ((if neg then - 1 else 1) * real n, rest)"
proof -
  define u where "u = nat_text n @ rest"
  have "takeWhile is_digit u = nat_text n \<and> dropWhile is_digit u = rest"
    using assms nat_text_digits [of _ n] unfolding u_def by (intro takeWhile_digits) (auto simp: ends_def)
  moreover have "\<not> (nat_text n = [] \<or> hd (nat_text n) = CHR ''0'' \<and> tl (nat_text n) \<noteq> [])" using nat_text_first [of n] by auto
  moreover have "hd u \<noteq> CHR ''-''" unfolding u_def by (rule nat_text_not_minus)
  ultimately show ?thesis using assms unfolding u_def [symmetric]
    by (cases neg; cases rest) (auto simp: read_real_def Let_def read_nat_text ends_def simp del: dropWhile_eq_Nil_conv)
qed

lemma read_int_text:
  assumes "ends rest"
  shows "read_real (int_text i @ rest) = Some (real_of_int i, rest)"
  using read_number_text [OF assms, of "i < 0" "nat \<bar>i\<bar>"] by (simp add: int_text_def split: if_splits)

lemma nearest_nonneg: "0 \<le> x \<Longrightarrow> 0 \<le> nearest x"
proof -
  assume "0 \<le> x"
  then have "0 \<le> \<lfloor>x + 1 / 2\<rfloor>" by simp
  moreover have "odd \<lfloor>x + 1 / 2\<rfloor> \<Longrightarrow> \<lfloor>x + 1 / 2\<rfloor> \<noteq> 0" by (metis even_zero)
  ultimately show ?thesis by (auto simp: nearest_def Let_def)
qed

lemma read_fixed_text:
  assumes "ends rest"
  shows "read_real (fixed_text x @ rest) = Some (sgn x * real_of_int (nearest (\<bar>x\<bar> * 10 ^ 6)) / 10 ^ 6, rest)"
proof -
  define n where "n = nat (nearest (\<bar>x\<bar> * 10 ^ 6))"
  define t where "t = nat_text (n div 10 ^ 6)"
  define p where "p = zero_padded 6 n"
  have tw: "takeWhile is_digit (t @ CHR ''.'' # p @ rest) = t \<and> dropWhile is_digit (t @ CHR ''.'' # p @ rest) = CHR ''.'' # p @ rest"
    using nat_text_digits [of _ "n div 10 ^ 6"] unfolding t_def by (intro takeWhile_digits) auto
  have pw: "takeWhile is_digit (p @ rest) = p \<and> dropWhile is_digit (p @ rest) = rest"
    using assms padded_is_digit [of _ 6 n] unfolding p_def by (intro takeWhile_digits) (auto simp: ends_def)
  have lp: "length p = 6" "p \<noteq> []" using padded_length [of 6 n] by (auto simp: p_def)
  have "n = 10 ^ 6 * (n div 10 ^ 6) + n mod 10 ^ 6" by simp
  then have "real n = 10 ^ 6 * real (n div 10 ^ 6) + real (n mod 10 ^ 6)" by (metis of_nat_add of_nat_mult of_nat_numeral of_nat_power)
  then have v: "real (digits_number t) + real (digits_number p) / 10 ^ length p = real n / 1000000"
    unfolding t_def p_def read_nat_text read_padded padded_length by simp
  have n: "real_of_int (nearest (\<bar>x\<bar> * 10 ^ 6)) = real n" using nearest_nonneg [of "\<bar>x\<bar> * 10 ^ 6"] by (simp add: n_def)
  have "x = 0 \<Longrightarrow> n = 0" by (simp add: n_def nearest_def)
  then have sg: "sgn x * real n / 10 ^ 6 = (if x < 0 then - 1 else 1) * (real n / 10 ^ 6)" by (auto simp: sgn_if)
  have tx: "fixed_text x = (if x < 0 then ''-'' else []) @ t @ CHR ''.'' # p" by (simp add: fixed_text_def n_def t_def p_def Let_def)
  have "\<not> (t = [] \<or> hd t = CHR ''0'' \<and> tl t \<noteq> [])" "hd (t @ CHR ''.'' # p @ rest) \<noteq> CHR ''-''"
    using nat_text_first [of "n div 10 ^ 6"] nat_text_not_minus [of "n div 10 ^ 6"] by (auto simp: t_def)
  then show ?thesis unfolding n sg tx using tw pw lp(2) by (simp add: read_real_def Let_def v)
qed

section \<open>Strings\<close>

lemma hex_value_digit: "d < 16 \<Longrightarrow> hex_value (hex_digit d) = Some d"
  by (auto simp: hex_value_def hex_digit_def)

lemma read_escape_char: "read_chars (escape_char c @ cs) = put_front c (read_chars cs)"
proof (cases "(of_char c :: nat) < 32 \<and> c \<notin> {CHR 0x08, CHR 0x0C, CHR 0x0A, CHR 0x0D, CHR 0x09}")
  case True
  then have c: "c \<noteq> CHR 0x22" "c \<noteq> CHR 0x5C" by auto
  moreover have "hex_value CHR ''0'' = Some 0" by (simp add: hex_value_def)
  moreover have "(of_char c :: nat) mod 16 < 16" "(of_char c :: nat) div 16 < 16" using True by auto
  ultimately have "read_hex CHR ''0'' CHR ''0'' (hex_digit (of_char c div 16)) (hex_digit (of_char c mod 16)) = Some c"
    using True by (simp add: read_hex_def hex_value_digit)
  then show ?thesis using True c by (auto simp: escape_char_def read_chars.simps)
next
  case False
  then show ?thesis by (auto simp: escape_char_def read_chars.simps unescape_def)
qed

lemma read_escaped: "read_chars (escape_json s @ CHR 0x22 # rest) = Some (s, rest)"
  by (induction s) (simp_all add: escape_json_def read_escape_char read_chars.simps(2) [of "CHR 0x22"] put_front_def)

section \<open>Items\<close>

lemma skip_space_simps [simp]:
  "skip_space (CHR '' '' # s) = skip_space s"
  "c \<notin> {CHR 0x20, CHR 0x09, CHR 0x0A, CHR 0x0D} \<Longrightarrow> skip_space (c # s) = c # s"
  "skip_space (skip_space s) = skip_space s"
  by (simp_all add: skip_space_def)

lemma read_items_space: "(\<And>s. item (CHR '' '' # s) = item s) \<Longrightarrow> read_items item close n (CHR '' '' # s) = read_items item close n s"
  by (cases n) simp_all

lemma read_items_separated:
  assumes "xs \<noteq> []" and "length xs \<le> n" and "set pad \<subseteq> {CHR '' ''}" and "close \<notin> {CHR 0x20, CHR 0x09, CHR 0x0A, CHR 0x0D, CHR '',''}"
    and "\<And>x r. x \<in> set xs \<Longrightarrow> ends r \<Longrightarrow> item (f x @ r) = Some (g x, r)" and "\<not> is_digit close" and "close \<noteq> CHR ''.''"
  shows "read_items item close n (separated (map f xs) @ pad @ close # rest) = Some (map g xs, rest)"
  using assms(1,2,5)
proof (induction xs arbitrary: n rule: induct_list012)
  case (2 x)
  have "skip_space (pad @ close # rest) = close # rest" using assms(3,4) by (induction pad) auto
  moreover have "ends (pad @ close # rest)" using assms(3,6,7) by (cases pad) (auto simp: ends_def is_digit_def)
  ultimately show ?case using 2 by (cases n) auto
next
  case (3 x y zs)
  let ?r = "separated (map f (y # zs)) @ pad @ close # rest"
  obtain m where n: "n = Suc m" using 3(4) by (cases n) auto
  have "item (f x @ CHR '','' # ?r) = Some (g x, CHR '','' # ?r)" by (intro 3(5)) (auto simp: ends_def is_digit_def)
  moreover have "read_items item close m ?r = Some (map g (y # zs), rest)" using 3(4,5) n by (intro 3(2)) auto
  moreover have "CHR '','' \<noteq> close" using assms(4) by auto
  ultimately show ?case using n by simp
qed simp

lemma separated_length: "x \<in> set xs \<Longrightarrow> length x \<le> length (separated xs)"
  by (induction xs rule: separated.induct) auto

lemma separated_count: "(\<And>x. x \<in> set xs \<Longrightarrow> x \<noteq> []) \<Longrightarrow> length xs \<le> length (separated xs)"
proof (induction xs rule: separated.induct)
  case (3 x y zs)
  then have "x \<noteq> []" "length (y # zs) \<le> length (separated (y # zs))" by simp_all
  then show ?case by (cases x) simp_all
qed (simp_all add: Suc_le_eq)

section \<open>Values\<close>

lemma read_json_space: "read_json n (CHR '' '' # s) = read_json n s"
  by (cases n) (simp_all add: read_json.simps)

lemma read_member_space: "read_member item (CHR '' '' # s) = read_member item s"
  by (simp add: read_member_def)

lemma read_member_text:
  "item (CHR '' '' # t) = Some (x, r) \<Longrightarrow> read_member item (quoted k @ CHR '':'' # CHR '' '' # t) = Some ((k, x), r)"
  by (simp add: read_member_def quoted_def read_escaped)

text \<open>The first character of a value.\<close>

definition starts_value :: "char \<Rightarrow> bool" where
  "starts_value c = (is_digit c \<or> c \<in> set ''{[-tfn'' \<or> c = CHR 0x22)"

lemma first_of_value: "finite_doubles v \<Longrightarrow> value_to_json v \<noteq> [] \<and> starts_value (hd (value_to_json v))"
proof -
  have n: "nat_text n \<noteq> []" "starts_value (hd (nat_text n))" "is_digit (hd (nat_text n))" "is_digit (hd (nat_text n @ t))" for n t
    using nat_text_first [of n] nat_text_digits [of "hd (nat_text n)" n] by (auto simp: starts_value_def)
  show "finite_doubles v \<Longrightarrow> ?thesis"
    by (cases v) (auto simp: value_to_json.simps n int_text_def fixed_text_def quoted_def starts_value_def Let_def split: double.splits)
qed

lemma not_space: "starts_value c \<Longrightarrow> c \<notin> {CHR 0x20, CHR 0x09, CHR 0x0A, CHR 0x0D, CHR '']'', CHR ''}''}"
  by (auto simp: starts_value_def is_digit_def)

lemma read_number_value:
  assumes "read_real s = Some (x, rest)" and "is_digit (hd s) \<or> hd s = CHR ''-''"
  shows "read_json (Suc n) s = Some (Number x, rest)"
proof -
  obtain c r where s: "s = c # r" using assms(1) by (cases s) (auto simp: read_real_def)
  have "c \<notin> set '' {[tfn'' \<and> c \<notin> {CHR 0x09, CHR 0x0A, CHR 0x0D, CHR 0x22}" using assms(2) s by (auto simp: is_digit_def)
  then show ?thesis using assms(1) s by (simp add: read_json.simps Let_def)
qed

lemma number_first: "is_digit (hd (int_text i @ rest)) \<or> hd (int_text i @ rest) = CHR ''-''"
    "is_digit (hd (fixed_text x @ rest)) \<or> hd (fixed_text x @ rest) = CHR ''-''"
proof -
  have "is_digit (hd (nat_text n @ t))" for n t
    using nat_text_first [of n] nat_text_digits [of "hd (nat_text n)" n] by auto
  then show "is_digit (hd (int_text i @ rest)) \<or> hd (int_text i @ rest) = CHR ''-''"
    "is_digit (hd (fixed_text x @ rest)) \<or> hd (fixed_text x @ rest) = CHR ''-''"
    by (auto simp: int_text_def fixed_text_def Let_def)
qed

lemma read_scalar:
  assumes "ends rest" and "finite_doubles v" and "\<forall>es. v \<noteq> Map es" and "\<forall>vs. v \<noteq> Vector vs"
  shows "read_json (Suc n) (value_to_json v @ rest) = Some (meaning v, rest)"
proof (cases v)
  case (String s)
  then show ?thesis by (simp add: value_to_json.simps quoted_def read_json.simps read_escaped)
next
  case (Double d)
  then show ?thesis using assms(1,2)
    by (cases d) (simp_all add: value_to_json.simps read_number_value [OF read_fixed_text number_first(2)])
next
  case (Bool b)
  then show ?thesis by (simp add: value_to_json.simps read_json.simps read_word_def)
next
  case Nullopt
  then show ?thesis by (simp add: value_to_json.simps read_json.simps read_word_def)
qed (use assms in \<open>simp_all add: value_to_json.simps read_number_value [OF read_int_text number_first(1)]\<close>)

lemma read_vector:
  assumes "\<And>v r. v \<in> set vs \<Longrightarrow> ends r \<Longrightarrow> read_json n (value_to_json v @ r) = Some (meaning v, r)"
    and "\<forall>v \<in> set vs. finite_doubles v" and "length vs \<le> n"
  shows "read_json (Suc n) (value_to_json (Vector vs) @ rest) = Some (meaning (Vector vs), rest)"
proof (cases "vs = []")
  case True
  then show ?thesis by (simp add: value_to_json.simps read_json.simps)
next
  case False
  define t where "t = separated (map value_to_json vs) @ CHR '']'' # rest"
  have items: "read_items (read_json n) CHR '']'' n (CHR '' '' # t) = Some (map meaning vs, rest)"
    using read_items_separated [where item = "read_json n" and f = value_to_json and g = meaning and close = "CHR '']''" and pad = "[]",
        OF False assms(3) _ _ assms(1)]
    unfolding t_def by (simp add: read_items_space [of "read_json n", OF read_json_space] is_digit_def)
  obtain v ws where vs: "vs = v # ws" using False by (cases vs) auto
  obtain c u where "t = c # u" "starts_value c"
    using first_of_value [of v] assms(2) unfolding t_def vs by (cases "value_to_json v"; cases ws) auto
  then have "skip_space (CHR '' '' # t) = c # u" "c \<noteq> CHR '']''" using not_space [of c] by auto
  then show ?thesis using items unfolding t_def by (simp add: value_to_json.simps read_json.simps)
qed

lemma read_map:
  assumes "\<And>k v r. (k, v) \<in> set es \<Longrightarrow> ends r \<Longrightarrow> read_json n (value_to_json v @ r) = Some (meaning v, r)" and "length es \<le> n"
  shows "read_json (Suc n) (value_to_json (Map es) @ rest) = Some (meaning (Map es), rest)"
proof (cases "es = []")
  case True
  then show ?thesis by (simp add: value_to_json.simps read_json.simps)
next
  case False
  let ?text = "\<lambda>(k, v). quoted k @ '': '' @ value_to_json v" and ?m = "\<lambda>(k, v). (k, meaning v)"
  define t where "t = separated (map ?text es) @ CHR '' '' # CHR ''}'' # rest"
  have "read_member (read_json n) (?text e @ r) = Some (?m e, r)" if "e \<in> set es" "ends r" for e r
    using assms(1) that by (cases e) (simp add: read_member_text read_json_space)
  then have items: "read_items (read_member (read_json n)) CHR ''}'' n (CHR '' '' # t) = Some (map ?m es, rest)"
    using read_items_separated [where item = "read_member (read_json n)" and f = ?text and g = ?m and close = "CHR ''}''" and pad = "'' ''",
        OF False assms(2)]
    unfolding t_def by (simp add: read_items_space [of "read_member (read_json n)", OF read_member_space] is_digit_def)
  obtain e ws where es: "es = e # ws" using False by (cases es) auto
  obtain u where "t = CHR 0x22 # u" unfolding t_def es by (cases e; cases ws) (auto simp: quoted_def)
  then show ?thesis using items unfolding t_def by (simp add: value_to_json.simps read_json.simps)
qed

lemma value_read_back:
  "finite_doubles v \<Longrightarrow> ends rest \<Longrightarrow> length (value_to_json v) \<le> n \<Longrightarrow> read_json n (value_to_json v @ rest) = Some (meaning v, rest)"
proof (induction v arbitrary: n rest rule: value_to_json.induct)
  case (1 es)
  obtain m where n: "n = Suc m" using 1(4) by (cases n) (auto simp: value_to_json.simps)
  let ?text = "\<lambda>(k, v). quoted k @ '': '' @ value_to_json v"
  have len: "length (separated (map ?text es)) \<le> m" using 1(4) n by (simp add: value_to_json.simps)
  have "length (map ?text es) \<le> length (separated (map ?text es))" by (rule separated_count) (auto simp: quoted_def)
  then have "length es \<le> m" using len by simp
  moreover have "read_json m (value_to_json v @ r) = Some (meaning v, r)" if "(k, v) \<in> set es" "ends r" for k v r
  proof -
    have "length (?text (k, v)) \<le> length (separated (map ?text es))" using that(1) by (intro separated_length) (metis (no_types, lifting) image_eqI list.set_map)
    then have "length (value_to_json v) \<le> m" using len by simp
    moreover have "finite_doubles v" using 1(2) that(1) by auto
    ultimately show ?thesis using 1(1) that by blast
  qed
  ultimately show ?case unfolding n by (intro read_map) auto
next
  case (2 vs)
  obtain m where n: "n = Suc m" using 2(4) by (cases n) (auto simp: value_to_json.simps)
  have len: "length (separated (map value_to_json vs)) \<le> m" using 2(4) n by (simp add: value_to_json.simps)
  have "length (map value_to_json vs) \<le> length (separated (map value_to_json vs))"
    using first_of_value 2(2) by (intro separated_count) auto
  then have "length vs \<le> m" using len by simp
  moreover have "read_json m (value_to_json v @ r) = Some (meaning v, r)" if "v \<in> set vs" "ends r" for v r
  proof -
    have "length (value_to_json v) \<le> m" using separated_length [of "value_to_json v" "map value_to_json vs"] that(1) len by simp
    then show ?thesis using 2(1) 2(2) that by auto
  qed
  ultimately show ?case using 2(2) unfolding n by (intro read_vector) auto
next
  case (3 s)
  then show ?case using first_of_value [of "String s"] read_scalar [of rest "String s" "n - 1"] by (cases n) auto
next
  case (4 d)
  then show ?case using first_of_value [of "Double d"] read_scalar [of rest "Double d" "n - 1"] by (cases n) auto
next
  case (5 w)
  then show ?case using first_of_value [of "Int64 w"] read_scalar [of rest "Int64 w" "n - 1"] by (cases n) auto
next
  case (6 w)
  then show ?case using first_of_value [of "UInt64 w"] read_scalar [of rest "UInt64 w" "n - 1"] by (cases n) auto
next
  case (7 w)
  then show ?case using first_of_value [of "Int32 w"] read_scalar [of rest "Int32 w" "n - 1"] by (cases n) auto
next
  case (8 w)
  then show ?case using first_of_value [of "UInt32 w"] read_scalar [of rest "UInt32 w" "n - 1"] by (cases n) auto
next
  case (9 b)
  then show ?case using first_of_value [of "Bool b"] read_scalar [of rest "Bool b" "n - 1"] by (cases n) auto
next
  case (10)
  then show ?case using first_of_value [of "Nullopt"] read_scalar [of rest "Nullopt" "n - 1"] by (cases n) auto
qed

text \<open>
  C33. What the remote control reports is valid JSON and says what was meant: a reader that follows RFC 8259 gets back every
  map, list, truth value and number, and every string character by character, whatever characters it has;
  floating point numbers to six decimals. (Those that are infinite or not a number have no text in JSON.)
\<close>

theorem json_roundtrip:
  assumes "\<forall>(k, v) \<in> set es. finite_doubles v"
  shows "read_json (length (map_to_json es)) (map_to_json es) = Some (meaning (Map es), [])"
  using value_read_back [of "Map es" "[]" "length (map_to_json es)"] assms by (simp add: map_to_json_def ends_def)

lemma nan_is_no_json: "read_json n ''nan'' = None" "read_json n ''inf'' = None" "read_json n ''-inf'' = None"
  by (cases n; simp add: read_json.simps read_word_def read_real_def is_digit_def)+

theorem json_roundtrip_witness:
  "read_json 41 (map_to_json [(''a'', String [CHR 0x22, CHR 0x0A, CHR 0x01]), (''b'', Vector [Int32 (-5), Double (Finite (1 / 2))])]) =
     Some (Object [(''a'', Text [CHR 0x22, CHR 0x0A, CHR 0x01]), (''b'', Array [Number (-5), Number (1 / 2)])], [])"
proof -
  let ?es = "[(''a'', String [CHR 0x22, CHR 0x0A, CHR 0x01]), (''b'', Vector [Int32 (-5), Double (Finite (1 / 2))])]"
  have "nearest 500000 = 500000" by (simp add: nearest_def)
  then have m: "meaning (Map ?es) = Object [(''a'', Text [CHR 0x22, CHR 0x0A, CHR 0x01]), (''b'', Array [Number (-5), Number (1 / 2)])]" by simp
  have "length (map_to_json ?es) = 41"
    by (simp add: map_to_json_def value_to_json.simps quoted_def escape_json_def escape_char_def int_text_def nat_text_unfold [of 0] nat_text_unfold [of 5]
        fixed_text_def Let_def padded_length \<open>nearest 500000 = 500000\<close>)
  then show ?thesis using json_roundtrip [of ?es] m by simp
qed

end
