(* ===== verification/Remote_Control.thy ===== *)
theory Remote_Control
  imports Json
begin

text \<open>
  Remote control (\<open>lib/RemoteControl.cpp\<close>, \<open>lib/RemoteControl.h\<close>): the list of modules with parameters, and the two controllers
  that take orders, one for lines of text over TCP, one for messages of ZeroMQ. The modules are the values of \<open>controllable\<close>, over
  one state \<open>'m\<close> of all modules. The lemmas show that both controllers set parameters alike and that no line gets lost.
\<close>

section \<open>Modules\<close>

text \<open>\<open>set_parameter\<close> gives the state it leaves even if it throws.\<close>

record 'm controllable =
  get_rc_name :: string
  m_parameters :: "(string \<times> string) list"
  set_parameter :: "string \<Rightarrow> string \<Rightarrow> 'm \<Rightarrow> 'm \<times> unit result"
  get_parameter :: "string \<Rightarrow> 'm \<Rightarrow> string result"
  get_all_values :: "'m \<Rightarrow> (string \<times> json_value) list"

definition get_controllable :: "'m controllable list \<Rightarrow> string \<Rightarrow> 'm controllable result" where
  "get_controllable cs name =
     (case find (\<lambda>c. get_rc_name c = name) cs of
        None \<Rightarrow> Inl (ParameterError (''Module name '' @ [CHR 0x27] @ name @ [CHR 0x27] @ '' unknown''))
      | Some c \<Rightarrow> Inr c)"

definition set_param :: "'m controllable list \<Rightarrow> string \<Rightarrow> string \<Rightarrow> string \<Rightarrow> 'm \<Rightarrow> 'm \<times> unit result" where
  "set_param cs name param value_text m =
     (case get_controllable cs name of
        Inl e \<Rightarrow> (m, Inl e)
      | Inr c \<Rightarrow>
          (case set_parameter c param value_text m of
             (m, r) \<Rightarrow> (m, if r = Inl (RuntimeError ''ios_base::failure'') then Inl (ParameterError ''Cannot understand value'') else r)))"

definition get_param :: "'m controllable list \<Rightarrow> string \<Rightarrow> string \<Rightarrow> 'm \<Rightarrow> string result" where
  "get_param cs name param m = bindE (get_controllable cs name) (\<lambda>c. get_parameter c param m)"

text \<open>All parameters of a module; an error of one is listed as its value.\<close>

fun list_values :: "'m controllable \<Rightarrow> (string \<times> string) list \<Rightarrow> 'm \<Rightarrow> (string \<times> string) list result" where
  "list_values c [] m = Inr []"
| "list_values c ((p, description) # ps) m =
     (case get_parameter c p m of
        Inl (ParameterError e) \<Rightarrow> bindE (list_values c ps m) (\<lambda>vs. Inr ((p, ''error: '' @ e) # vs))
      | Inl e \<Rightarrow> Inl e
      | Inr v \<Rightarrow> bindE (list_values c ps m) (\<lambda>vs. Inr ((p, v) # vs)))"

definition get_param_list_values :: "'m controllable list \<Rightarrow> string \<Rightarrow> 'm \<Rightarrow> (string \<times> string) list result" where
  "get_param_list_values cs name m = bindE (get_controllable cs name) (\<lambda>c. list_values c (m_parameters c) m)"

text \<open>The values of all modules; \<open>arrange\<close> is the order in which a hash table lists its elements.\<close>

fun put_key :: "string \<Rightarrow> 'v \<Rightarrow> (string \<times> 'v) list \<Rightarrow> (string \<times> 'v) list" where
  "put_key k v [] = [(k, v)]"
| "put_key k v ((k', v') # es) = (if k' = k then (k, v) # es else (k', v') # put_key k v es)"

definition get_showjson ::
    "((string \<times> json_value) list \<Rightarrow> (string \<times> json_value) list) \<Rightarrow> 'm controllable list \<Rightarrow> 'm \<Rightarrow> string" where
  "get_showjson arrange cs m = map_to_json (arrange (fold (\<lambda>c. put_key (get_rc_name c) (Map (get_all_values c m))) cs []))"

section \<open>Lines of text\<close>

text \<open>The words of a line, as \<open>std::getline\<close> with a blank as separator gives them.\<close>

function tokenise :: "string \<Rightarrow> string list" where
  "tokenise s =
     (if s = [] then []
      else takeWhile (\<lambda>c. c \<noteq> CHR '' '') s # tokenise (tl (dropWhile (\<lambda>c. c \<noteq> CHR '' '') s)))"
  by pat_completeness auto
termination
proof (relation "measure length")
  fix s :: string assume "s \<noteq> []"
  moreover have "length (dropWhile (\<lambda>c. c \<noteq> CHR '' '') s) \<le> length s" by (rule length_dropWhile_le)
  ultimately have "length (tl (dropWhile (\<lambda>c. c \<noteq> CHR '' '') s)) < length s" by (cases s) (auto simp: less_Suc_eq_le)
  then show "(tl (dropWhile (\<lambda>c. c \<noteq> CHR '' '') s), s) \<in> measure length" by simp
qed simp

declare tokenise.simps [simp del]

text \<open>The words of the value, with blanks between them.\<close>

fun joined :: "string list \<Rightarrow> string" where
  "joined [] = []"
| "joined [w] = w"
| "joined (w # v # ws) = w @ '' '' @ joined (v # ws)"

definition help_text :: string where
  "help_text = concat (map (\<lambda>l. l @ [CHR 0x0A])
     [''The following commands are supported:'',
      ''  list'', ''    * Lists the modules that are loaded and their parameters'',
      ''  show MODULE'', ''    * Lists all parameters and their values from module MODULE'',
      ''  get MODULE PARAMETER'', ''    * Gets the value for the specified PARAMETER from module MODULE'',
      ''  set MODULE PARAMETER VALUE'', ''    * Sets the value for the PARAMETER ofr module MODULE'',
      ''  quit'', ''    * Terminate this session'', []])"

definition module_text :: "'m controllable \<Rightarrow> string" where
  "module_text c =
     get_rc_name c @ [CHR 0x0A] @ concat (map (\<lambda>(p, d). [CHR 0x09] @ p @ '' : '' @ d @ [CHR 0x0A]) (m_parameters c))"

text \<open>A command: the state it leaves, the replies, and the exception that ends the session, if there is one.\<close>

definition dispatch_command :: "'m controllable list \<Rightarrow> string \<Rightarrow> 'm \<Rightarrow> 'm \<times> string list \<times> unit result" where
  "dispatch_command cs command m =
     (let cmd = tokenise command; n = length cmd
      in if n = 0 then (m, [], Inl (UndefinedBehaviour ''cmd[0]''))
         else if cmd ! 0 = ''help'' then (m, [help_text], Inr ())
         else if cmd ! 0 = ''list''
         then if n = 1 then (m, [concat (map module_text cs)], Inr ()) else (m, [''Too many arguments for command list'', []], Inr ())
         else if cmd ! 0 = ''show''
         then if n = 2
              then (case get_param_list_values cs (cmd ! 1) m of
                      Inr vs \<Rightarrow> (m, [concat (map (\<lambda>(p, v). p @ '': '' @ v @ [CHR 0x0A]) vs)], Inr ())
                    | Inl (ParameterError e) \<Rightarrow> (m, [e], Inr ())
                    | Inl e \<Rightarrow> (m, [], Inl e))
              else (m, [''Incorrect parameters for command show''], Inr ())
         else if cmd ! 0 = ''get''
         then if n = 3
              then (case get_param cs (cmd ! 1) (cmd ! 2) m of
                      Inr v \<Rightarrow> (m, [v], Inr ())
                    | Inl (ParameterError e) \<Rightarrow> (m, [e], Inr ())
                    | Inl e \<Rightarrow> (m, [], Inl e))
              else (m, [''Incorrect parameters for command get''], Inr ())
         else if cmd ! 0 = ''set''
         then if 4 \<le> n
              then (case set_param cs (cmd ! 1) (cmd ! 2) (joined (drop 3 cmd)) m of
                      (m, Inr _) \<Rightarrow> (m, [''ok''], Inr ())
                    | (m, Inl (ParameterError e)) \<Rightarrow> (m, [e], Inr ())
                    | (m, Inl _) \<Rightarrow> (m, [''Error: Invalid parameter value. ''], Inr ()))
              else (m, [''Incorrect parameters for command set''], Inr ())
         else if cmd ! 0 = ''quit'' then (m, [''Goodbye''], Inr ())
         else (m, [''Message not understood''], Inr ()))"

section \<open>A session\<close>

text \<open>
  What \<open>recv\<close> does, in the order of the calls, and the moment at which the controller is told to stop. When there is nothing more the
  connection is closed.
\<close>

datatype recv_event = Byte char | Timed_out | Interrupted | Socket_error | Stop

datatype line_end = Read | Failed

text \<open>Up to a line feed. An interruption ends the line; \<open>clear\<close> resets the flags of the stream, its text stays.\<close>

fun read_line :: "bool \<Rightarrow> recv_event list \<Rightarrow> string \<Rightarrow> string \<times> bool \<times> recv_event list \<times> line_end" where
  "read_line active [] line = (line, active, [], Read)"
| "read_line active (Byte c # es) line =
     (if c = CHR 0x0A then (line @ [c], active, es, Read) else read_line active es (line @ [c]))"
| "read_line active (Timed_out # es) line = (if active then read_line active es line else (line, active, es, Read))"
| "read_line active (Interrupted # es) line = (line, active, es, Read)"
| "read_line active (Socket_error # es) line = (line, active, es, Failed)"
| "read_line active (Stop # es) line = read_line False es line"

definition without_line_end :: "string \<Rightarrow> string" where
  "without_line_end s = rev (dropWhile (\<lambda>c. c = CHR 0x0D \<or> c = CHR 0x0A) (rev s))"

lemma read_line_shorter:
  "read_line active es line = (line', active', es', e) \<Longrightarrow> length es' \<le> length es \<and> (length line < length line' \<longrightarrow> length es' < length es)"
  by (induction active es line rule: read_line.induct) (fastforce split: if_splits)+

definition prompt :: string where
  "prompt = ''> ''"

function telnet_session :: "'m controllable list \<Rightarrow> bool \<Rightarrow> string \<Rightarrow> recv_event list \<Rightarrow> 'm \<Rightarrow> 'm \<times> string list" where
  "telnet_session cs active in_message es m =
     (if \<not> active \<or> in_message = ''quit'' then (m, [])
      else case read_line active es [] of (line, active, es', e) \<Rightarrow>
        if e = Failed \<or> line = [] then (m, [prompt])
        else let in_message = without_line_end (takeWhile (\<lambda>c. c \<noteq> CHR 0x0A) line)
             in if in_message = []
                then (case telnet_session cs active in_message es' m of (m, out) \<Rightarrow> (m, prompt # out))
                else (case dispatch_command cs in_message m of (m, replies, r) \<Rightarrow>
                        if r = Inr ()
                        then (case telnet_session cs active in_message es' m of (m, out) \<Rightarrow> (m, prompt # replies @ out))
                        else (m, prompt # replies)))"
  by pat_completeness auto
termination
  by (relation "measure (\<lambda>(cs, active, in_message, es, m). length es)") (auto dest!: sym [of _ "read_line _ _ _"] read_line_shorter)

declare telnet_session.simps [simp del]

section \<open>Messages\<close>

definition unsupported :: string where
  "unsupported = ''Unsupported command. commands: list, show, get, set, showjson''"

definition module_json :: "'m controllable \<Rightarrow> string" where
  "module_json c =
     (let q = [CHR 0x22]
      in ''{ '' @ q @ ''name'' @ q @ '': '' @ q @ get_rc_name c @ q @ '', '' @ q @ ''params'' @ q @ '': { '' @
         (let ps = map (\<lambda>(p, d). q @ p @ q @ '': '' @ q @ d @ q) (m_parameters c)
          in case ps of [] \<Rightarrow> [] | p # ps \<Rightarrow> p @ concat (map (\<lambda>p. '', '' @ p) ps)) @ '' } }'')"

text \<open>A message: the state it leaves, the frames of the answer, and the exception, if there is one.\<close>

definition zmq_message ::
    "((string \<times> json_value) list \<Rightarrow> (string \<times> json_value) list) \<Rightarrow> 'm controllable list \<Rightarrow> string list \<Rightarrow> 'm \<Rightarrow>
      'm \<times> string list \<times> unit result" where
  "zmq_message arrange cs msg m =
     (let n = length msg; command = msg ! 0
      in if n = 0 then (m, [], Inl (UndefinedBehaviour ''msg[0]''))
         else if n = 1 \<and> command = ''ping'' then (m, [''ok''], Inr ())
         else if n = 1 \<and> command = ''list'' then (m, map module_json cs, Inr ())
         else if n = 1 \<and> command = ''showjson'' then (m, [get_showjson arrange cs m], Inr ())
         else if n = 2 \<and> command = ''show''
         then (case get_param_list_values cs (msg ! 1) m of
                 Inr vs \<Rightarrow> (m, map (\<lambda>(p, v). p @ '': '' @ v @ [CHR 0x0A]) vs, Inr ())
               | Inl (ParameterError e) \<Rightarrow> (m, [''fail'', e], Inr ())
               | Inl e \<Rightarrow> (m, [], Inl e))
         else if n = 3 \<and> command = ''get''
         then (case get_param cs (msg ! 1) (msg ! 2) m of
                 Inr v \<Rightarrow> (m, [v], Inr ())
               | Inl (ParameterError e) \<Rightarrow> (m, [''fail'', e], Inr ())
               | Inl e \<Rightarrow> (m, [], Inl e))
         else if n = 4 \<and> command = ''set''
         then (case set_param cs (msg ! 1) (msg ! 2) (msg ! 3) m of
                 (m, Inr _) \<Rightarrow> (m, [''ok''], Inr ())
               | (m, Inl (ParameterError e)) \<Rightarrow> (m, [''fail'', e], Inr ())
               | (m, Inl e) \<Rightarrow> (m, [], Inl e))
         else (m, [''fail'', unsupported], Inr ()))"

text \<open>
  The loop of the controller over the requests it gets. An exception ends it with \<open>m_fault\<close>. After a request that
  is not answered the socket, of type \<open>ZMQ_REP\<close>, takes no further one.
\<close>

datatype zmq_end = Serving | Faulty | Stuck

fun zmq_process ::
    "((string \<times> json_value) list \<Rightarrow> (string \<times> json_value) list) \<Rightarrow> 'm controllable list \<Rightarrow> string list list \<Rightarrow> 'm \<Rightarrow>
      'm \<times> string list list \<times> zmq_end" where
  "zmq_process arrange cs [] m = (m, [], Serving)"
| "zmq_process arrange cs (msg # msgs) m =
     (case zmq_message arrange cs msg m of (m, frames, r) \<Rightarrow>
        if r \<noteq> Inr () then (m, [], Faulty)
        else if frames = [] then (m, [], Stuck)
        else (case zmq_process arrange cs msgs m of (m, answers, e) \<Rightarrow> (m, frames # answers, e)))"

section \<open>Faults\<close>

text \<open>
  The controllers, each with its \<open>m_fault\<close>. A restart runs \<open>process\<close> anew, which clears the flag in one of them only;
  \<open>check_faults\<close> also gives the number of restarts.
\<close>

datatype controller = Telnet bool | Zmq bool

fun restart :: "controller \<Rightarrow> controller" where
  "restart (Telnet m_fault) = Telnet m_fault"
| "restart (Zmq m_fault) = Zmq False"

fun fault_detected :: "controller \<Rightarrow> bool" where
  "fault_detected (Telnet m_fault) = m_fault"
| "fault_detected (Zmq m_fault) = m_fault"

definition check_faults :: "controller list \<Rightarrow> controller list \<times> nat" where
  "check_faults cs = (map (\<lambda>c. if fault_detected c then restart c else c) cs, length (filter fault_detected cs))"

section \<open>Words\<close>

lemma tokenise_Nil [simp]: "tokenise [] = []"
  by (subst tokenise.simps) simp

lemma tokenise_word: "CHR '' '' \<notin> set w \<Longrightarrow> tokenise (w @ CHR '' '' # s) = w # tokenise s"
proof -
  assume w: "CHR '' '' \<notin> set w"
  then have "takeWhile (\<lambda>c. c \<noteq> CHR '' '') (w @ CHR '' '' # s) = w" "dropWhile (\<lambda>c. c \<noteq> CHR '' '') (w @ CHR '' '' # s) = CHR '' '' # s"
    by (auto simp: takeWhile_append dropWhile_append)
  then show ?thesis by (subst tokenise.simps) simp
qed

lemma tokenise_last: "CHR '' '' \<notin> set w \<Longrightarrow> w \<noteq> [] \<Longrightarrow> tokenise w = [w]"
proof -
  assume "CHR '' '' \<notin> set w" "w \<noteq> []"
  moreover from this have "takeWhile (\<lambda>c. c \<noteq> CHR '' '') w = w" "dropWhile (\<lambda>c. c \<noteq> CHR '' '') w = []" by (auto simp: takeWhile_eq_all_conv dropWhile_eq_Nil_conv)
  ultimately show ?thesis by (subst tokenise.simps) (simp del: dropWhile_eq_Nil_conv)
qed

lemma joined_tokenise: "s \<noteq> [] \<Longrightarrow> last s \<noteq> CHR '' '' \<Longrightarrow> tokenise s \<noteq> [] \<and> joined (tokenise s) = s"
proof (induction "length s" arbitrary: s rule: less_induct)
  case less
  show ?case
  proof (cases "CHR '' '' \<in> set s")
    case False
    then show ?thesis using less(2) by (simp add: tokenise_last)
  next
    case True
    then obtain w t where s: "s = w @ CHR '' '' # t" "CHR '' '' \<notin> set w" by (meson split_list_first)
    then have t: "t \<noteq> []" "last t \<noteq> CHR '' ''" using less(3) by (auto split: if_splits)
    then have "tokenise t \<noteq> [] \<and> joined (tokenise t) = t" using less(1) [of t] s by simp
    then show ?thesis using s by (cases "tokenise t") (auto simp: tokenise_word)
  qed
qed

text \<open>The answer to an attempt to set a parameter, for each controller.\<close>

definition telnet_answer :: "unit result \<Rightarrow> string list" where
  "telnet_answer r = (case r of Inr _ \<Rightarrow> [''ok''] | Inl (ParameterError e) \<Rightarrow> [e] | Inl _ \<Rightarrow> [''Error: Invalid parameter value. ''])"

definition zmq_answer :: "unit result \<Rightarrow> string list \<times> unit result" where
  "zmq_answer r = (case r of Inr _ \<Rightarrow> ([''ok''], Inr ()) | Inl (ParameterError e) \<Rightarrow> ([''fail'', e], Inr ()) | Inl e \<Rightarrow> ([], Inl e))"

text \<open>
  C34. Both controllers set parameters alike. A line \<open>set MODULE PARAMETER VALUE\<close> passes on the value as it is, blanks included (but not
  at the end of the line), and leaves the modules as the message with the same four parts does. They differ in the
  answer, and when the module throws anything but a parameter error: one session goes on, the other controller fails.
\<close>

theorem remote_set_same:
  assumes "CHR '' '' \<notin> set name" and "CHR '' '' \<notin> set parameter" and "text_value \<noteq> []" and "last text_value \<noteq> CHR '' ''"
    and "set_param cs name parameter text_value m = (m', r)"
  shows "dispatch_command cs (''set '' @ name @ '' '' @ parameter @ '' '' @ text_value) m = (m', telnet_answer r, Inr ()) \<and>
    zmq_message arrange cs [''set'', name, parameter, text_value] m = (m', zmq_answer r)"
proof -
  have t: "tokenise (''set '' @ name @ '' '' @ parameter @ '' '' @ text_value) = ''set'' # name # parameter # tokenise text_value"
    using tokenise_word [of "''set''" "name @ '' '' @ parameter @ '' '' @ text_value"] assms(1,2) by (simp add: tokenise_word)
  have v: "tokenise text_value \<noteq> []" "joined (tokenise text_value) = text_value" using joined_tokenise assms(3,4) by blast+
  then have n: "4 \<le> length (''set'' # name # parameter # tokenise text_value)" by (cases "tokenise text_value") auto
  show ?thesis
    using assms(5) v n unfolding dispatch_command_def zmq_message_def t telnet_answer_def zmq_answer_def
    by (auto simp: Let_def numeral_3_eq_3 split: sum.splits error.splits)
qed

section \<open>Lines\<close>

definition bytes_of :: "recv_event list \<Rightarrow> string" where
  "bytes_of es = concat (map (\<lambda>e. case e of Byte c \<Rightarrow> [c] | _ \<Rightarrow> []) es)"

definition uninterrupted :: "recv_event list \<Rightarrow> bool" where
  "uninterrupted es = (\<forall>e \<in> set es. e = Timed_out \<or> (\<exists>c. e = Byte c))"

lemma read_a_line:
  "uninterrupted es \<Longrightarrow> bytes_of es = l @ CHR 0x0A # rest \<Longrightarrow> CHR 0x0A \<notin> set l \<Longrightarrow>
     \<exists>es'. read_line True es line = (line @ l @ [CHR 0x0A], True, es', Read) \<and> uninterrupted es' \<and> bytes_of es' = rest"
proof (induction es arbitrary: line l)
  case (Cons e es)
  have u: "uninterrupted es" using Cons(2) by (simp add: uninterrupted_def)
  consider "e = Timed_out" | c where "e = Byte c" using Cons(2) by (auto simp: uninterrupted_def)
  then show ?case
  proof cases
    case 1
    then show ?thesis using Cons(1) [OF u, of l line] Cons(3,4) by (simp add: bytes_of_def)
  next
    case (2 c)
    show ?thesis
    proof (cases l)
      case Nil
      then show ?thesis using 2 Cons(3) u by (simp add: bytes_of_def)
    next
      case (Cons d l')
      then show ?thesis using 2 Cons.IH [OF u, of l' "line @ [c]"] Cons.prems(2,3) by (auto simp: bytes_of_def)
    qed
  qed
qed (simp add: bytes_of_def)

lemma read_last_line:
  "uninterrupted es \<Longrightarrow> CHR 0x0A \<notin> set (bytes_of es) \<Longrightarrow> read_line True es line = (line @ bytes_of es, True, [], Read)"
proof (induction es arbitrary: line)
  case (Cons e es)
  have u: "uninterrupted es" using Cons(2) by (simp add: uninterrupted_def)
  consider "e = Timed_out" | c where "e = Byte c" using Cons(2) by (auto simp: uninterrupted_def)
  then show ?case using Cons(1) [OF u] Cons(3) by cases (auto simp: bytes_of_def)
qed (simp add: bytes_of_def)

text \<open>The lines of a text; what follows the last line feed is a line, too, if there is something.\<close>

fun split_lines :: "string \<Rightarrow> string list" where
  "split_lines [] = []"
| "split_lines (c # s) =
     (if c = CHR 0x0A then [] # split_lines s else (case split_lines s of [] \<Rightarrow> [[c]] | l # ls \<Rightarrow> (c # l) # ls))"

lemma split_first_line: "CHR 0x0A \<notin> set l \<Longrightarrow> split_lines (l @ CHR 0x0A # rest) = l # split_lines rest"
  by (induction l) auto

lemma split_last_line: "CHR 0x0A \<notin> set l \<Longrightarrow> split_lines l = (if l = [] then [] else [l])"
  by (induction l) auto

text \<open>A line up to the last character that is no line end.\<close>

fun command_in :: "string \<Rightarrow> string" where
  "command_in [] = []"
| "command_in (c # s) = (if set (c # s) \<subseteq> {CHR 0x0D, CHR 0x0A} then [] else c # command_in s)"

lemma without_line_end_command: "without_line_end l = command_in l"
proof (induction l)
  case (Cons c l)
  let ?P = "\<lambda>c. c = CHR 0x0D \<or> c = CHR 0x0A"
  show ?case
  proof (cases "\<forall>x \<in> set l. ?P x")
    case True
    then have "command_in l = []" by (cases l) auto
    then show ?thesis using True by (auto simp: without_line_end_def dropWhile_append)
  next
    case False
    then have "without_line_end (c # l) = c # without_line_end l" by (auto simp: without_line_end_def dropWhile_append)
    then show ?thesis using False Cons by auto
  qed
qed (simp add: without_line_end_def)

text \<open>The lines one after the other, with a prompt before each: an empty one, of line ends only, does nothing, \<open>quit\<close> and an exception are the end.\<close>

fun run_lines :: "'m controllable list \<Rightarrow> string list \<Rightarrow> 'm \<Rightarrow> 'm \<times> string list" where
  "run_lines cs [] m = (m, [prompt])"
| "run_lines cs (l # ls) m =
     (let c = command_in l
      in if c = [] then (case run_lines cs ls m of (m, out) \<Rightarrow> (m, prompt # out))
         else (case dispatch_command cs c m of (m, replies, r) \<Rightarrow>
                 if r \<noteq> Inr () \<or> c = ''quit'' then (m, prompt # replies)
                 else (case run_lines cs ls m of (m, out) \<Rightarrow> (m, prompt # replies @ out))))"

lemma session_reads_line:
  assumes "read_line True es [] = (line, True, es', Read)" "line \<noteq> []" "takeWhile (\<lambda>c. c \<noteq> CHR 0x0A) line = l" "last_message \<noteq> ''quit''"
    and "\<And>m last_message. last_message \<noteq> ''quit'' \<Longrightarrow> telnet_session cs True last_message es' m = run_lines cs ls m"
  shows "telnet_session cs True last_message es m = run_lines cs (l # ls) m"
proof (cases "command_in l = ''quit''")
  case True
  then show ?thesis using assms(1-4)
    by (subst telnet_session.simps) (auto simp: Let_def telnet_session.simps [of cs True "''quit''"] without_line_end_command split: prod.splits)
next
  case False
  then show ?thesis using assms by (subst telnet_session.simps) (auto simp: Let_def without_line_end_command split: prod.splits)
qed

text \<open>
  C35. No line is lost or run twice. Whatever bytes arrive, and however often the wait for them times out, a session runs the
  lines in them, each once and in their order: with carriage returns at the end or not, the last one with a line feed or not, empty ones
  only prompting again, up to \<open>quit\<close> or an exception. The answers are sent in that order.
\<close>

theorem session_runs_commands:
  assumes "uninterrupted es" and "last_message \<noteq> ''quit''"
  shows "telnet_session cs True last_message es m = run_lines cs (split_lines (bytes_of es)) m"
  using assms
proof (induction "length (bytes_of es)" arbitrary: es m last_message rule: less_induct)
  case less
  show ?case
  proof (cases "CHR 0x0A \<in> set (bytes_of es)")
    case True
    then obtain l rest where l: "bytes_of es = l @ CHR 0x0A # rest" "CHR 0x0A \<notin> set l" by (meson split_list_first)
    obtain es' where es': "read_line True es [] = (l @ [CHR 0x0A], True, es', Read)" "uninterrupted es'" "bytes_of es' = rest"
      using read_a_line [OF less(2) l, of "[]"] by auto
    have "telnet_session cs True m1 es' m2 = run_lines cs (split_lines rest) m2" if "m1 \<noteq> ''quit''" for m1 m2
      using less(1) [OF _ es'(2) that] es'(3) l(1) by simp
    from session_reads_line [OF es'(1) _ _ less(3) this, of l] show ?thesis
      using l by (simp add: split_first_line takeWhile_append)
  next
    case False
    note r = read_last_line [OF less(2) False, of "[]"]
    show ?thesis
    proof (cases "bytes_of es = []")
      case True
      then show ?thesis using r less(3) by (subst telnet_session.simps) simp
    next
      case ne: False
      have "telnet_session cs True m1 [] m2 = run_lines cs [] m2" if "m1 \<noteq> ''quit''" for m1 m2
        using that by (subst telnet_session.simps) simp
      moreover have "takeWhile (\<lambda>c. c \<noteq> CHR 0x0A) (bytes_of es) = bytes_of es" using False by (auto simp: takeWhile_eq_all_conv)
      ultimately show ?thesis using session_reads_line [of es "bytes_of es" "[]" "bytes_of es" last_message cs "[]"] r ne less(3) split_last_line [OF False] by simp
    qed
  qed
qed

section \<open>What goes wrong\<close>

text \<open>Over ZeroMQ a module that throws another exception ends the controller; over the other nothing happens.\<close>

lemma zmq_fails_on_exception:
  assumes "set_param cs name parameter text_value m = (m', Inl e)" and "\<forall>t. e \<noteq> ParameterError t"
  shows "zmq_process arrange cs ([''set'', name, parameter, text_value] # msgs) m = (m', [], Faulty)"
  using assms by (cases e) (simp_all add: zmq_message_def Let_def)

text \<open>A request that has no answer leaves the controller stuck, and not faulty, so that it is not restarted.\<close>

lemma zmq_stuck_without_modules: "zmq_process arrange [] ([''list''] # msgs) m = (m, [], Stuck)"
  by (simp add: zmq_message_def Let_def)

text \<open>After its first fault the controller for lines is restarted at every check.\<close>

lemma telnet_restarted_for_ever: "((fst \<circ> check_faults) ^^ n) [Telnet True] = [Telnet True]" "snd (check_faults [Telnet True]) = 1"
  by (induction n) (simp_all add: check_faults_def)

lemma zmq_restarted_once: "snd (check_faults (fst (check_faults [Zmq True]))) = 0"
  by (simp add: check_faults_def)

section \<open>Examples\<close>

definition one_module :: "string controllable list" where
  "one_module = [\<lparr>get_rc_name = ''gain'', m_parameters = [(''mode'', ''Gainmode'')],
     set_parameter = (\<lambda>p v m. if p = ''mode'' then (v, Inr ()) else (m, Inl (ParameterError ''not exported''))),
     get_parameter = (\<lambda>p m. Inr m), get_all_values = (\<lambda>m. [(''mode'', String m)])\<rparr>]"

theorem remote_set_same_witness:
  "dispatch_command one_module ''set gain mode a b'' ''fix'' = (''a b'', [''ok''], Inr ())"
  using remote_set_same [of "''gain''" "''mode''" "''a b''" one_module "''fix''" "''a b''" "Inr ()" id]
  by (simp add: set_param_def get_controllable_def one_module_def telnet_answer_def)

theorem session_runs_commands_witness:
  "telnet_session one_module True [] (Byte CHR 0x0A # map Byte ''quit'' @ [Timed_out, Byte CHR 0x0D, Byte CHR 0x0A]) ''fix'' =
     (''fix'', [prompt, prompt, ''Goodbye''])"
proof -
  have "tokenise ''quit'' = [''quit'']" by (simp add: tokenise_last)
  then have "run_lines one_module [[], ''quit'' @ [CHR 0x0D]] ''fix'' = (''fix'', [prompt, prompt, ''Goodbye''])"
    by (simp add: dispatch_command_def Let_def)
  then show ?thesis
    using session_runs_commands [of "Byte CHR 0x0A # map Byte ''quit'' @ [Timed_out, Byte CHR 0x0D, Byte CHR 0x0A]" "[]" one_module "''fix''"]
    by (simp add: uninterrupted_def bytes_of_def)
qed

end
