(* ===== verification/Config_Parser.thy ===== *)
theory Config_Parser
  imports Dab_Modulator Channels Gain_Control Sdr_Output Format_Converter
begin

text \<open>
  The settings (\<open>src/ConfigParser.cpp\<close>, \<open>src/ConfigParser.h\<close>, \<open>src/output/SDRDevice.h\<close>), from the command line and the
  configuration file, and the choice of the output with its normalisation (\<open>prepare_output\<close> in \<open>src/DabMod.cpp\<close>). What the C
  library makes of a text as a number is an argument, and so is what happens when a log, a controller or an output is created.
  The lemmas show what an accepted configuration guarantees.
\<close>

section \<open>The configuration file\<close>

text \<open>The values of a file by section and name, the line of the first error, and \<open>strtol\<close> and \<open>strtod\<close> (\<open>None\<close>: no number at the start).\<close>

record ini =
  ini_values :: "string \<Rightarrow> string option"
  ini_error :: int
  ini_strtol :: "string \<Rightarrow> int option"
  ini_strtod :: "string \<Rightarrow> rat option"

definition Get :: "ini \<Rightarrow> string \<Rightarrow> string \<Rightarrow> string" where
  "Get pt name default_value = (case ini_values pt name of None \<Rightarrow> default_value | Some v \<Rightarrow> v)"

definition GetInteger :: "ini \<Rightarrow> string \<Rightarrow> int \<Rightarrow> int" where
  "GetInteger pt name default_value = (case ini_strtol pt (Get pt name []) of None \<Rightarrow> default_value | Some n \<Rightarrow> n)"

definition GetReal :: "ini \<Rightarrow> string \<Rightarrow> rat \<Rightarrow> rat" where
  "GetReal pt name default_value = (case ini_strtod pt (Get pt name []) of None \<Rightarrow> default_value | Some x \<Rightarrow> x)"

section \<open>Settings\<close>

datatype lock_loss_behaviour = CRASH | IGNORE

text \<open>\<open>refclk_lock_loss_behaviour\<close> has no initial value.\<close>

record device_config = sdr_config +
  dc_device :: string
  dc_subDevice :: string
  dc_tx_antenna :: string
  dc_rx_antenna :: string
  dc_fixedPoint :: bool
  dc_masterClockRate :: int
  dc_frequency :: rat
  dc_lo_offset :: rat
  dc_txgain :: rat
  dc_rxgain :: rat
  dc_bandwidth :: rat
  dc_upsample :: nat
  dc_dabMode :: nat
  dc_maxGPSHoldoverTime :: nat
  dc_refclk_src :: string
  dc_pps_src :: string
  dc_pps_polarity :: string
  dc_lock_loss :: "lock_loss_behaviour option"
  dc_dpdFeedbackServerPort :: nat

definition SDRDeviceConfig :: device_config where
  "SDRDeviceConfig =
     \<lparr>enableSync = False, muteNoTimestamps = False, muting = False, sampleRate = 2048000, dc_device = [], dc_subDevice = [],
      dc_tx_antenna = [], dc_rx_antenna = [], dc_fixedPoint = False, dc_masterClockRate = 32768000, dc_frequency = 0, dc_lo_offset = 0,
      dc_txgain = 0, dc_rxgain = 0, dc_bandwidth = 0, dc_upsample = 1, dc_dabMode = 0, dc_maxGPSHoldoverTime = 0, dc_refclk_src = [],
      dc_pps_src = [], dc_pps_polarity = [], dc_lock_loss = None, dc_dpdFeedbackServerPort = 0\<rparr>"

record settings = mod_settings +
  startupCheck :: string
  outputName :: string
  useZeroMQOutput :: bool
  zmqOutputSocketType :: string
  useFileOutput :: bool
  fileOutputFormat :: string
  fileOutputShowMetadata :: bool
  useUHDOutput :: bool
  useSoapyOutput :: bool
  useDexterOutput :: bool
  useLimeOutput :: bool
  useBladeRFOutput :: bool
  digitalgain :: rat
  normalise :: rat
  gainMode :: gain_mode
  gainmodeVariance :: rat
  tist_offset_s :: rat
  do_loop :: bool
  inputName :: string
  inputTransport :: string
  edi_max_delay_ms :: rat
  polyNumThreads :: nat
  enableCfr :: bool
  cfrClip :: rat
  cfrErrorClip :: rat
  ofdmWindowOverlap :: nat
  sdr_device_config :: device_config
  showProcessTime :: bool

definition default_settings :: settings where
  "default_settings =
     \<lparr>dabMode = 1, fftEngine = FFTW, clockRate = 0, outputRate = 2048000, filterTapsFilename = [], polyCoefFilename = [],
      tiiConfig = \<lparr>tc_enable = False, tc_comb = 0, tc_pattern = 0, tc_old_variant = False\<rparr>,
      startupCheck = [], outputName = [], useZeroMQOutput = False, zmqOutputSocketType = [], useFileOutput = False,
      fileOutputFormat = ''complexf'', fileOutputShowMetadata = False, useUHDOutput = False, useSoapyOutput = False,
      useDexterOutput = False, useLimeOutput = False, useBladeRFOutput = False, digitalgain = 1, normalise = 1, gainMode = GAIN_VAR,
      gainmodeVariance = 4, tist_offset_s = 0, do_loop = False, inputName = [], inputTransport = ''file'', edi_max_delay_ms = 0,
      polyNumThreads = 0, enableCfr = False, cfrClip = 1, cfrErrorClip = 1, ofdmWindowOverlap = 0, sdr_device_config = SDRDeviceConfig,
      showProcessTime = True\<rparr>"

text \<open>The libraries the program was built with.\<close>

record build =
  have_uhd :: bool
  have_soapy :: bool
  have_dexter :: bool
  have_lime :: bool
  have_bladerf :: bool
  have_zmq :: bool

text \<open>What is created while the file is read; \<open>act\<close> says whether that throws.\<close>

datatype startup_action = Add_telnet int | Add_zmq string | Bind_events string | Log_syslog | Log_file string | Log_tracer string

definition carry_out :: "(startup_action \<Rightarrow> unit result) \<Rightarrow> startup_action \<Rightarrow> startup_action list \<Rightarrow> startup_action list result" where
  "carry_out act a acts = bindE (act a) (\<lambda>_. Inr (acts @ [a]))"

definition configuration_error :: error where
  "configuration_error = RuntimeError ''Configuration error''"

text \<open>\<open>catch (const std::exception&)\<close>, followed by a configuration error.\<close>

definition or_configuration_error :: "'a result \<Rightarrow> 'a result" where
  "or_configuration_error r = (case r of Inl e \<Rightarrow> Inl configuration_error | Inr x \<Rightarrow> Inr x)"

text \<open>The conversion of a \<open>long\<close> to an unsigned number of \<open>w\<close> bits.\<close>

definition to_unsigned :: "nat \<Rightarrow> int \<Rightarrow> nat" where
  "to_unsigned w n = nat (n mod 2 ^ w)"

definition lower_case :: "string \<Rightarrow> string" where
  "lower_case s = map (\<lambda>c. let n = of_char c :: nat in if 65 \<le> n \<and> n \<le> 90 then char_of (n + 32) else c) s"

section \<open>Reading the file\<close>

definition parse_gainmode :: "string \<Rightarrow> gain_mode result" where
  "parse_gainmode setting =
     (let m = lower_case setting
      in if m = ''0'' \<or> m = ''fix'' then Inr GAIN_FIX
         else if m = ''1'' \<or> m = ''max'' then Inr GAIN_MAX
         else if m = ''2'' \<or> m = ''var'' then Inr GAIN_VAR
         else Inl configuration_error)"

definition parse_fft_engine :: "string \<Rightarrow> fft_engine result" where
  "parse_fft_engine setting =
     (let m = lower_case setting
      in if m = ''fftw'' then Inr FFTW else if m = ''kiss'' then Inr KISS else if m = ''dexter'' then Inr DEXTER
         else Inl configuration_error)"

definition config_remote :: "build \<Rightarrow> (startup_action \<Rightarrow> unit result) \<Rightarrow> ini \<Rightarrow> startup_action list result" where
  "config_remote b act pt =
     bindE (if GetInteger pt ''remotecontrol.telnet'' 0 = 1
            then or_configuration_error (carry_out act (Add_telnet (GetInteger pt ''remotecontrol.telnetport'' 0)) []) else Inr []) (\<lambda>acts.
     if have_zmq b \<and> GetInteger pt ''remotecontrol.zmqctrl'' 0 = 1
     then or_configuration_error (carry_out act (Add_zmq (Get pt ''remotecontrol.zmqctrlendpoint'' [])) acts) else Inr acts)"

definition config_input :: "ini \<Rightarrow> settings \<Rightarrow> settings" where
  "config_input pt s =
     (let s = s\<lparr>startupCheck := Get pt ''general.startupcheck'' []\<rparr>;
          s = (if GetInteger pt ''input.loop'' 0 = 1 then s\<lparr>do_loop := True\<rparr> else s)
      in s\<lparr>inputTransport := Get pt ''input.transport'' ''file'', edi_max_delay_ms := GetReal pt ''input.edi_max_delay'' 0,
           inputName := Get pt ''input.source'' ''/dev/stdin''\<rparr>)"

definition config_log :: "build \<Rightarrow> (startup_action \<Rightarrow> unit result) \<Rightarrow> ini \<Rightarrow> startup_action list \<Rightarrow> startup_action list result" where
  "config_log b act pt acts =
     (let events_endpoint = Get pt ''log.events_endpoint'' []; trace_filename = Get pt ''log.trace'' []
      in bindE (if events_endpoint = [] then Inr acts
                else if have_zmq b then carry_out act (Bind_events events_endpoint) acts
                else Inl (RuntimeError ''Cannot configure events sender when compiled without zeromq'')) (\<lambda>acts.
         bindE (if GetInteger pt ''log.syslog'' 0 = 1 then carry_out act Log_syslog acts else Inr acts) (\<lambda>acts.
         bindE (if GetInteger pt ''log.filelog'' 0 = 1 then carry_out act (Log_file (Get pt ''log.filename'' [])) acts else Inr acts) (\<lambda>acts.
         if trace_filename \<noteq> [] then carry_out act (Log_tracer trace_filename) acts else Inr acts))))"

definition config_modulator :: "ini \<Rightarrow> settings \<Rightarrow> settings result" where
  "config_modulator pt s =
     bindE (parse_fft_engine (Get pt ''modulator.fft_engine'' ''fftw'')) (\<lambda>fft.
     bindE (parse_gainmode (Get pt ''modulator.gainmode'' ''var'')) (\<lambda>gain.
     let s = s\<lparr>showProcessTime := (GetInteger pt ''log.show_process_time'' (if showProcessTime s then 1 else 0) \<noteq> 0),
               fftEngine := fft, gainMode := gain,
               gainmodeVariance := GetReal pt ''modulator.normalise_variance'' (gainmodeVariance s),
               dabMode := to_unsigned 32 (GetInteger pt ''modulator.mode'' (int (dabMode s))),
               clockRate := to_unsigned 64 (GetInteger pt ''modulator.dac_clk_rate'' 0),
               digitalgain := GetReal pt ''modulator.digital_gain'' (digitalgain s),
               outputRate := to_unsigned 64 (GetInteger pt ''modulator.rate'' (int (outputRate s))),
               ofdmWindowOverlap := to_unsigned 64 (GetInteger pt ''modulator.ofdmwindowing'' (int (ofdmWindowOverlap s)))\<rparr>;
         s = (if GetInteger pt ''firfilter.enabled'' 0 = 1
              then s\<lparr>filterTapsFilename := Get pt ''firfilter.filtertapsfile'' ''default''\<rparr> else s);
         s = (if GetInteger pt ''poly.enabled'' 0 = 1
              then s\<lparr>polyCoefFilename := Get pt ''poly.polycoeffile'' ''dpd/poly.coef'',
                     polyNumThreads := to_unsigned 32 (GetInteger pt ''poly.num_threads'' 0)\<rparr> else s);
         s = (if GetInteger pt ''cfr.enabled'' 0 = 1
              then s\<lparr>enableCfr := True, cfrClip := GetReal pt ''cfr.clip'' 0, cfrErrorClip := GetReal pt ''cfr.error_clip'' 0\<rparr> else s)
     in Inr s))"

text \<open>Either a frequency or a channel.\<close>

definition config_frequency :: "ini \<Rightarrow> string \<Rightarrow> rat result" where
  "config_frequency pt output =
     (let frequency = GetReal pt (output @ ''.frequency'') 0; chan = Get pt (output @ ''.channel'') []
      in if frequency = 0 \<and> chan = [] then Inl configuration_error
         else if frequency = 0 then parse_channel chan
         else if chan \<noteq> [] then Inl configuration_error
         else Inr frequency)"

definition config_uhd :: "ini \<Rightarrow> settings \<Rightarrow> settings result" where
  "config_uhd pt s =
     (let device = Get pt ''uhdoutput.device'' []; usrpType = Get pt ''uhdoutput.type'' [];
          device = (if usrpType \<noteq> [] then (if device \<noteq> [] then device @ '','' else device) @ ''type='' @ usrpType else device);
          behave = Get pt ''uhdoutput.behaviour_refclk_lock_lost'' ''ignore''
      in bindE (config_frequency pt ''uhdoutput'') (\<lambda>frequency.
         bindE (if behave = ''crash'' then Inr CRASH else if behave = ''ignore'' then Inr IGNORE else Inl configuration_error) (\<lambda>behaviour.
         Inr (s\<lparr>sdr_device_config := SDRDeviceConfig
                  \<lparr>dc_device := device, dc_subDevice := Get pt ''uhdoutput.subdevice'' [],
                   dc_masterClockRate := GetInteger pt ''uhdoutput.master_clock_rate'' 0,
                   dc_txgain := GetReal pt ''uhdoutput.txgain'' 0, dc_tx_antenna := Get pt ''uhdoutput.tx_antenna'' [],
                   dc_rx_antenna := Get pt ''uhdoutput.rx_antenna'' ''RX2'', dc_rxgain := GetReal pt ''uhdoutput.rxgain'' 0,
                   dc_frequency := frequency, dc_bandwidth := GetReal pt ''uhdoutput.bandwidth'' 0, dc_dabMode := dabMode s,
                   dc_lo_offset := GetReal pt ''uhdoutput.lo_offset'' 0, dc_refclk_src := Get pt ''uhdoutput.refclk_source'' ''internal'',
                   dc_pps_src := Get pt ''uhdoutput.pps_source'' ''none'', dc_pps_polarity := Get pt ''uhdoutput.pps_polarity'' ''pos'',
                   dc_lock_loss := Some behaviour,
                   dc_maxGPSHoldoverTime := to_unsigned 32 (GetInteger pt ''uhdoutput.max_gps_holdover_time'' 0),
                   dc_dpdFeedbackServerPort := to_unsigned 16 (GetInteger pt ''uhdoutput.dpd_port'' 0)\<rparr>,
                useUHDOutput := True\<rparr>))))"

definition config_soapy :: "ini \<Rightarrow> settings \<Rightarrow> settings result" where
  "config_soapy pt s =
     bindE (config_frequency pt ''soapyoutput'') (\<lambda>frequency.
     Inr (s\<lparr>sdr_device_config := (sdr_device_config s)
              \<lparr>dc_device := Get pt ''soapyoutput.device'' [], dc_masterClockRate := GetInteger pt ''soapyoutput.master_clock_rate'' 0,
               dc_txgain := GetReal pt ''soapyoutput.txgain'' 0, dc_tx_antenna := Get pt ''soapyoutput.tx_antenna'' [],
               dc_lo_offset := GetReal pt ''soapyoutput.lo_offset'' 0, dc_frequency := frequency,
               dc_bandwidth := GetReal pt ''soapyoutput.bandwidth'' 0, dc_dabMode := dabMode s,
               dc_dpdFeedbackServerPort := to_unsigned 16 (GetInteger pt ''soapyoutput.dpd_port'' 0)\<rparr>,
            useSoapyOutput := True\<rparr>))"

definition config_dexter :: "ini \<Rightarrow> settings \<Rightarrow> settings result" where
  "config_dexter pt s =
     bindE (config_frequency pt ''dexteroutput'') (\<lambda>frequency.
     Inr (s\<lparr>sdr_device_config := (sdr_device_config s)
              \<lparr>dc_txgain := GetReal pt ''dexteroutput.txgain'' 0, dc_lo_offset := GetReal pt ''dexteroutput.lo_offset'' 0,
               dc_frequency := frequency, dc_dabMode := dabMode s,
               dc_maxGPSHoldoverTime := to_unsigned 32 (GetInteger pt ''dexteroutput.max_gps_holdover_time'' 0)\<rparr>,
            useDexterOutput := True\<rparr>))"

definition config_lime :: "ini \<Rightarrow> settings \<Rightarrow> settings result" where
  "config_lime pt s =
     bindE (config_frequency pt ''limeoutput'') (\<lambda>frequency.
     Inr (s\<lparr>sdr_device_config := (sdr_device_config s)
              \<lparr>dc_device := Get pt ''limeoutput.device'' [], dc_masterClockRate := GetInteger pt ''limeoutput.master_clock_rate'' 0,
               dc_txgain := GetReal pt ''limeoutput.txgain'' 0, dc_tx_antenna := Get pt ''limeoutput.tx_antenna'' [],
               dc_lo_offset := GetReal pt ''limeoutput.lo_offset'' 0, dc_frequency := frequency, dc_dabMode := dabMode s,
               dc_upsample := to_unsigned 32 (GetInteger pt ''limeoutput.upsample'' 1),
               dc_dpdFeedbackServerPort := to_unsigned 16 (GetInteger pt ''limeoutput.dpd_port'' 0)\<rparr>,
            useLimeOutput := True\<rparr>))"

definition config_bladerf :: "ini \<Rightarrow> settings \<Rightarrow> settings result" where
  "config_bladerf pt s =
     bindE (config_frequency pt ''bladerfoutput'') (\<lambda>frequency.
     Inr (s\<lparr>sdr_device_config := (sdr_device_config s)
              \<lparr>dc_device := Get pt ''bladerfoutput.device'' [], dc_refclk_src := Get pt ''bladerfoutput.refclk_source'' [],
               dc_txgain := GetReal pt ''bladerfoutput.txgain'' 0, dc_frequency := frequency,
               dc_bandwidth := GetReal pt ''bladerfoutput.bandwidth'' 0, dc_dabMode := dabMode s,
               dc_dpdFeedbackServerPort := to_unsigned 16 (GetInteger pt ''bladerfoutput.dpd_port'' 0)\<rparr>,
            useBladeRFOutput := True\<rparr>))"

definition config_file :: "ini \<Rightarrow> settings \<Rightarrow> settings result" where
  "config_file pt s =
     (let filename = Get pt ''fileoutput.filename'' []
      in if filename = [] then Inl configuration_error
         else Inr (s\<lparr>outputName := filename, fileOutputShowMetadata := (GetInteger pt ''fileoutput.show_metadata'' 0 > 0),
                useFileOutput := True, fileOutputFormat := Get pt ''fileoutput.format'' (fileOutputFormat s)\<rparr>))"

definition config_output :: "build \<Rightarrow> ini \<Rightarrow> settings \<Rightarrow> settings result" where
  "config_output b pt s =
     (let selected = Get pt ''output.output'' []
      in if selected = [] then Inl configuration_error
         else if selected = ''file'' then config_file pt s
         else if have_uhd b \<and> selected = ''uhd'' then config_uhd pt s
         else if have_soapy b \<and> selected = ''soapysdr'' then config_soapy pt s
         else if have_dexter b \<and> selected = ''dexter'' then config_dexter pt s
         else if have_lime b \<and> selected = ''limesdr'' then config_lime pt s
         else if have_bladerf b \<and> selected = ''bladerf'' then config_bladerf pt s
         else if have_zmq b \<and> selected = ''zmq''
         then Inr (s\<lparr>outputName := Get pt ''zmqoutput.listen'' [], zmqOutputSocketType := Get pt ''zmqoutput.socket_type'' [],
                     useZeroMQOutput := True\<rparr>)
         else Inl configuration_error)"

definition config_delay :: "build \<Rightarrow> ini \<Rightarrow> settings \<Rightarrow> settings" where
  "config_delay b pt s =
     (if have_uhd b \<or> have_dexter b
      then let sync = (GetInteger pt ''delaymanagement.synchronous'' 0 = 1);
               s = s\<lparr>sdr_device_config := (sdr_device_config s)
                       \<lparr>enableSync := sync, muteNoTimestamps := (GetInteger pt ''delaymanagement.mutenotimestamps'' 0 = 1)\<rparr>\<rparr>
           in if sync then s\<lparr>tist_offset_s := GetReal pt ''delaymanagement.offset'' 0\<rparr> else s
      else s)"

definition config_tii :: "ini \<Rightarrow> settings \<Rightarrow> settings" where
  "config_tii pt s =
     s\<lparr>tiiConfig := \<lparr>tc_enable = (GetInteger pt ''tii.enable'' 0 \<noteq> 0), tc_comb = sint (of_int (GetInteger pt ''tii.comb'' 0) :: 32 word),
        tc_pattern = sint (of_int (GetInteger pt ''tii.pattern'' 0) :: 32 word), tc_old_variant = (GetInteger pt ''tii.old_variant'' 0 \<noteq> 0)\<rparr>\<rparr>"

definition parse_configfile ::
    "build \<Rightarrow> (startup_action \<Rightarrow> unit result) \<Rightarrow> ini \<Rightarrow> settings \<Rightarrow> (settings \<times> startup_action list) result" where
  "parse_configfile b act pt s =
     (if ini_error pt \<noteq> 0 then Inl (RuntimeError ''Cannot read configuration file'')
      else bindE (config_remote b act pt) (\<lambda>acts.
           bindE (config_log b act pt acts) (\<lambda>acts.
           bindE (config_modulator pt (config_input pt s)) (\<lambda>s.
           bindE (config_output b pt s) (\<lambda>s. Inr (config_tii pt (config_delay b pt s), acts))))))"

section \<open>The command line\<close>

record command_line =
  cl_settings :: settings
  use_configuration_cmdline :: bool
  use_configuration_file :: bool
  configuration_file :: string

text \<open>An option of \<open>getopt\<close> with its argument; \<open>strtol\<close> and \<open>strtod\<close> give 0 if there is no number.\<close>

definition option_of :: "build \<Rightarrow> (string \<Rightarrow> int) \<Rightarrow> (string \<Rightarrow> rat) \<Rightarrow> char \<times> string \<Rightarrow> settings \<Rightarrow> settings result" where
  "option_of b strtol strtod opt s =
     (case opt of (c, optarg) \<Rightarrow>
        let dev = sdr_device_config s; exclusive = Inl (InvalidArgument ''Options -u and -f are mutually exclusive'')
        in if c = CHR ''a'' then Inr (s\<lparr>digitalgain := strtod optarg\<rparr>)
           else if c = CHR ''c'' then Inr (s\<lparr>clockRate := to_unsigned 64 (strtol optarg)\<rparr>)
           else if c = CHR ''f''
           then if have_uhd b \<and> useUHDOutput s then exclusive else Inr (s\<lparr>outputName := optarg, useFileOutput := True\<rparr>)
           else if c = CHR ''F''
           then if useFileOutput s then Inr (s\<lparr>fileOutputFormat := optarg\<rparr>)
                else if have_uhd b \<and> useUHDOutput s then Inr (s\<lparr>sdr_device_config := dev\<lparr>dc_frequency := strtod optarg\<rparr>\<rparr>)
                else Inl (InvalidArgument ''Cannot use -F before setting output!'')
           else if c = CHR ''g'' then bindE (parse_gainmode optarg) (\<lambda>g. Inr (s\<lparr>gainMode := g\<rparr>))
           else if c = CHR ''G'' then Inr (if have_uhd b then s\<lparr>sdr_device_config := dev\<lparr>dc_txgain := strtod optarg\<rparr>\<rparr> else s)
           else if c = CHR ''l'' then Inr (s\<lparr>do_loop := True\<rparr>)
           else if c = CHR ''o''
           then let s = s\<lparr>tist_offset_s := strtod optarg\<rparr>
                in Inr (if have_uhd b then s\<lparr>sdr_device_config := dev\<lparr>enableSync := True\<rparr>\<rparr> else s)
           else if c = CHR ''m'' then Inr (s\<lparr>dabMode := to_unsigned 32 (strtol optarg)\<rparr>)
           else if c = CHR ''r'' then Inr (s\<lparr>outputRate := to_unsigned 64 (strtol optarg)\<rparr>)
           else if c = CHR ''T'' then Inr (s\<lparr>filterTapsFilename := optarg\<rparr>)
           else if c = CHR ''u''
           then if \<not> have_uhd b then Inl (InvalidArgument ''Cannot select UHD output, not compiled in!'')
                else if useFileOutput s then exclusive
                else Inr (s\<lparr>sdr_device_config := dev\<lparr>dc_device := optarg, dc_refclk_src := ''internal'', dc_pps_src := ''none'', dc_pps_polarity := ''pos''\<rparr>,
                            useUHDOutput := True\<rparr>)
           else if c = CHR ''V'' \<or> c = CHR ''?'' \<or> c = CHR ''h'' then Inl (InvalidArgument [])
           else Inl (InvalidArgument ''Invalid command line option''))"

definition parse_option :: "build \<Rightarrow> (string \<Rightarrow> int) \<Rightarrow> (string \<Rightarrow> rat) \<Rightarrow> char \<times> string \<Rightarrow> command_line \<Rightarrow> command_line result" where
  "parse_option b strtol strtod opt l =
     (if fst opt = CHR ''C'' then Inr (l\<lparr>use_configuration_file := True, configuration_file := snd opt\<rparr>)
      else bindE (option_of b strtol strtod opt (cl_settings l)) (\<lambda>s. Inr (l\<lparr>cl_settings := s, use_configuration_cmdline := True\<rparr>)))"

definition input_of :: "string \<Rightarrow> settings \<Rightarrow> settings result" where
  "input_of name s =
     (let s = s\<lparr>inputName := name\<rparr>
      in if take 4 name = ''zmq+'' \<and> (\<exists>k \<le> length name. take 3 (drop k name) = ''://'')
         then Inl (RuntimeError ''Support for ZeroMQ input transport has been removed.'')
         else if take 6 name = ''tcp://'' then Inr (s\<lparr>inputTransport := ''tcp''\<rparr>)
         else if take 6 name = ''udp://'' then Inr (s\<lparr>inputTransport := ''edi''\<rparr>)
         else Inr s)"

text \<open>
  \<open>opts\<close> are the options and \<open>rest\<close> the arguments behind them; \<open>args\<close> are all arguments, and \<open>files\<close> the configuration files.
\<close>

definition parse_args ::
    "build \<Rightarrow> (startup_action \<Rightarrow> unit result) \<Rightarrow> (string \<Rightarrow> ini) \<Rightarrow> (string \<Rightarrow> int) \<Rightarrow> (string \<Rightarrow> rat) \<Rightarrow>
      string list \<Rightarrow> (char \<times> string) list \<Rightarrow> string list \<Rightarrow> settings \<Rightarrow> (settings \<times> startup_action list) result" where
  "parse_args b act files strtol strtod args opts rest s =
     (if args = [] then Inl (InvalidArgument ''Invalid command line options'')
      else
        let l = \<lparr>cl_settings = s, use_configuration_cmdline = False, use_configuration_file = False, configuration_file = []\<rparr>
        in bindE (for_each (parse_option b strtol strtod) opts l) (\<lambda>l.
           let l = (if length args = 1 then l\<lparr>use_configuration_file := True, configuration_file := hd args\<rparr> else l)
           in bindE (if use_configuration_cmdline l \<and> inputName (cl_settings l) = []
                     then (case rest of
                             [] \<Rightarrow> Inr ((cl_settings l)\<lparr>inputName := ''/dev/stdin''\<rparr>, [])
                           | name # rest \<Rightarrow> bindE (input_of name (cl_settings l)) (\<lambda>s. Inr (s, rest)))
                     else Inr (cl_settings l, rest)) (\<lambda>(s, rest).
              if use_configuration_cmdline l \<and> rest \<noteq> [] then Inl (InvalidArgument ''Invalid command line options'')
              else if use_configuration_file l then parse_configfile b act (files (configuration_file l)) s
              else Inr (s, []))))"

section \<open>The output\<close>

definition normalise_factor :: rat where
  "normalise_factor = 50000"

definition normalise_factor_file :: "gain_mode \<Rightarrow> rat" where
  "normalise_factor_file g = (case g of GAIN_FIX \<Rightarrow> 81000 | GAIN_MAX \<Rightarrow> 46000 | GAIN_VAR \<Rightarrow> 46000)"

datatype mod_output = File string bool | Uhd device_config | Soapy device_config | Dexter_device device_config
  | Lime device_config | Bladerf device_config | Zmq_pub string | Zmq_rep string

text \<open>The rate of the output, which the device gets, and whether its samples are fixed point numbers.\<close>

definition device_at_rate :: "settings \<Rightarrow> settings" where
  "device_at_rate s = s\<lparr>sdr_device_config := (sdr_device_config s)\<lparr>sampleRate := of_nat (outputRate s)\<rparr>\<rparr>"

definition file_normalise :: "settings \<Rightarrow> rat result" where
  "file_normalise s =
     (if fftEngine s \<noteq> FFTW then Inr (normalise s)
      else if fileOutputFormat s = ''complexf'' then Inr (normalise s)
      else if fileOutputFormat s = ''complexf_normalised'' then Inr (1 / normalise_factor_file (gainMode s))
      else if fileOutputFormat s = ''s16'' then Inr (32767 / normalise_factor)
      else if fileOutputFormat s = ''s8'' \<or> fileOutputFormat s = ''u8'' then Inr (127 / normalise_factor)
      else Inl (RuntimeError ''File output format not known''))"

text \<open>The settings that are left, and the output with what its constructor is given; \<open>None\<close>: a null pointer.\<close>

definition prepare_output :: "build \<Rightarrow> settings \<Rightarrow> (settings \<times> mod_output option) result" where
  "prepare_output b s =
     (let fixed = (fftEngine s \<noteq> FFTW); unsupported = Inl (RuntimeError ''fixed_point unsupported'')
      in if useFileOutput s
         then bindE (file_normalise s) (\<lambda>n. let s = s\<lparr>normalise := n\<rparr> in Inr (s, Some (File (outputName s) (fileOutputShowMetadata s))))
         else if have_uhd b \<and> useUHDOutput s
         then let s = device_at_rate (s\<lparr>normalise := 1 / normalise_factor\<rparr>);
                  s = s\<lparr>sdr_device_config := (sdr_device_config s)\<lparr>dc_fixedPoint := fixed\<rparr>\<rparr>
              in Inr (s, Some (Uhd (sdr_device_config s)))
         else if have_soapy b \<and> useSoapyOutput s
         then if fixed then unsupported
              else let s = device_at_rate (s\<lparr>normalise := 1 / normalise_factor\<rparr>) in Inr (s, Some (Soapy (sdr_device_config s)))
         else if have_dexter b \<and> useDexterOutput s
         then let s = device_at_rate (s\<lparr>normalise := 32767 / normalise_factor\<rparr>) in Inr (s, Some (Dexter_device (sdr_device_config s)))
         else if have_lime b \<and> useLimeOutput s
         then if fixed then unsupported
              else let s = device_at_rate (s\<lparr>normalise := 1 / normalise_factor\<rparr>) in Inr (s, Some (Lime (sdr_device_config s)))
         else if have_bladerf b \<and> useBladeRFOutput s
         then if fixed then unsupported
              else let s = device_at_rate (s\<lparr>normalise := 2047 / normalise_factor\<rparr>) in Inr (s, Some (Bladerf (sdr_device_config s)))
         else if have_zmq b \<and> useZeroMQOutput s
         then let s = s\<lparr>normalise := 1 / normalise_factor\<rparr>
              in if zmqOutputSocketType s = ''pub'' then Inr (s, Some (Zmq_pub (outputName s)))
                 else if zmqOutputSocketType s = ''rep'' then Inr (s, Some (Zmq_rep (outputName s)))
                 else Inl (InvalidArgument ''ZeroMQ output socket type invalid'')
         else Inr (s, None))"

definition output_format :: "settings \<Rightarrow> string" where
  "output_format s =
     (if fftEngine s = KISS then []
      else if fftEngine s = DEXTER then ''s16''
      else if useFileOutput s \<and> (fileOutputFormat s = ''s8'' \<or> fileOutputFormat s = ''u8'' \<or> fileOutputFormat s = ''s16'') then fileOutputFormat s
      else if useBladeRFOutput s \<or> useDexterOutput s then ''s16''
      else [])"

text \<open>
  The first part of \<open>launch_modulator\<close>: the settings, the output, the format its samples are converted to, and what \<open>set_sample_size\<close> of a device
  is called with, if it is. \<open>exit_status\<close> is that of the startup check, \<open>None\<close> if it did not end normally; an \<open>Inl\<close> in the
  second place is the exit code of the program.
\<close>

definition is_device :: "mod_output option \<Rightarrow> bool" where
  "is_device out = (case out of None \<Rightarrow> False | Some (File n m) \<Rightarrow> False | Some (Zmq_pub n) \<Rightarrow> False | Some (Zmq_rep n) \<Rightarrow> False | _ \<Rightarrow> True)"

definition set_up :: "build \<Rightarrow> (string \<Rightarrow> int option) \<Rightarrow> settings \<Rightarrow> (nat + settings \<times> mod_output option \<times> string \<times> nat option) result" where
  "set_up b exit_status s =
     (if \<not> (useFileOutput s \<or> useUHDOutput s \<or> useZeroMQOutput s \<or> useSoapyOutput s \<or> useDexterOutput s \<or> useLimeOutput s \<or> useBladeRFOutput s)
      then Inl (RuntimeError ''Configuration error: Output not specified'')
      else if startupCheck s \<noteq> [] \<and> exit_status (startupCheck s) \<noteq> Some 0 then Inr (Inl 1)
      else
        let format = output_format s
        in bindE (prepare_output b s) (\<lambda>(s, out).
           if format \<noteq> [] \<and> is_device out
           then bindE (get_format_size format) (\<lambda>n. Inr (Inr (s, out, format, Some n)))
           else Inr (Inr (s, out, format, None))))"

section \<open>What an accepted file selects\<close>

text \<open>The seven switches in the order \<open>prepare_output\<close> looks at them, and those of the devices with the section of each.\<close>

definition selections :: "settings \<Rightarrow> bool list" where
  "selections s = [useFileOutput s, useUHDOutput s, useSoapyOutput s, useDexterOutput s, useLimeOutput s, useBladeRFOutput s, useZeroMQOutput s]"

definition device_sections :: "settings \<Rightarrow> string list" where
  "device_sections s =
     map snd (filter fst [(useUHDOutput s, ''uhdoutput''), (useSoapyOutput s, ''soapyoutput''), (useDexterOutput s, ''dexteroutput''),
       (useLimeOutput s, ''limeoutput''), (useBladeRFOutput s, ''bladerfoutput'')])"

text \<open>The frequency of a section: one of the two settings is given, not both.\<close>

definition tuned_to :: "ini \<Rightarrow> string \<Rightarrow> rat \<Rightarrow> bool" where
  "tuned_to pt sec f \<longleftrightarrow>
     (GetReal pt (sec @ ''.frequency'') 0 = f \<and> Get pt (sec @ ''.channel'') [] = [] \<or>
      GetReal pt (sec @ ''.frequency'') 0 = 0 \<and> Get pt (sec @ ''.channel'') [] \<noteq> [] \<and> parse_channel (Get pt (sec @ ''.channel'') []) = Inr f)"

lemma channel_not_zero: "parse_channel c = Inr f \<Longrightarrow> f \<noteq> 0"
  unfolding parse_channel_def by (auto split: if_splits)

lemma frequency_tuned: "config_frequency pt sec = Inr f \<Longrightarrow> f \<noteq> 0 \<and> tuned_to pt sec f"
  by (auto simp: config_frequency_def tuned_to_def Let_def configuration_error_def dest: channel_not_zero split: if_splits)

definition selected_well :: "build \<Rightarrow> ini \<Rightarrow> settings \<Rightarrow> bool" where
  "selected_well b pt s \<longleftrightarrow>
     length (filter id (selections s)) = 1 \<and> (useFileOutput s \<longrightarrow> outputName s \<noteq> []) \<and>
     (\<forall>sec \<in> set (device_sections s). dc_frequency (sdr_device_config s) \<noteq> 0 \<and> tuned_to pt sec (dc_frequency (sdr_device_config s))) \<and>
     (useUHDOutput s \<longrightarrow> have_uhd b) \<and> (useSoapyOutput s \<longrightarrow> have_soapy b) \<and> (useDexterOutput s \<longrightarrow> have_dexter b) \<and>
     (useLimeOutput s \<longrightarrow> have_lime b) \<and> (useBladeRFOutput s \<longrightarrow> have_bladerf b) \<and> (useZeroMQOutput s \<longrightarrow> have_zmq b)"

text \<open>The other steps leave the switches alone.\<close>

lemma selections_update [simp]:
  "selections (s\<lparr>showProcessTime := t\<rparr>) = selections s" "selections (s\<lparr>fftEngine := e\<rparr>) = selections s"
  "selections (s\<lparr>gainMode := g\<rparr>) = selections s" "selections (s\<lparr>gainmodeVariance := x\<rparr>) = selections s"
  "selections (s\<lparr>dabMode := n\<rparr>) = selections s" "selections (s\<lparr>clockRate := n\<rparr>) = selections s"
  "selections (s\<lparr>digitalgain := x\<rparr>) = selections s" "selections (s\<lparr>outputRate := n\<rparr>) = selections s"
  "selections (s\<lparr>ofdmWindowOverlap := n\<rparr>) = selections s" "selections (s\<lparr>filterTapsFilename := f\<rparr>) = selections s"
  "selections (s\<lparr>polyCoefFilename := f\<rparr>) = selections s" "selections (s\<lparr>polyNumThreads := n\<rparr>) = selections s"
  "selections (s\<lparr>enableCfr := t\<rparr>) = selections s" "selections (s\<lparr>cfrClip := x\<rparr>) = selections s" "selections (s\<lparr>cfrErrorClip := x\<rparr>) = selections s"
  "selections (s\<lparr>startupCheck := f\<rparr>) = selections s" "selections (s\<lparr>do_loop := t\<rparr>) = selections s"
  "selections (s\<lparr>inputTransport := f\<rparr>) = selections s" "selections (s\<lparr>edi_max_delay_ms := x\<rparr>) = selections s"
  "selections (s\<lparr>inputName := f\<rparr>) = selections s"
  by (simp_all add: selections_def)

lemma before_output: "config_modulator pt (config_input pt s) = Inr s' \<Longrightarrow> selections s' = selections s"
  unfolding config_modulator_def config_input_def bindE_Inr_iff Let_def
  by (elim exE conjE, simp only: sum.inject, elim subst) (simp only: selections_update if_distrib [of selections] if_cancel)

definition same_output :: "settings \<Rightarrow> settings \<Rightarrow> bool" where
  "same_output s t \<longleftrightarrow>
     selections s = selections t \<and> device_sections s = device_sections t \<and> outputName s = outputName t \<and>
     dc_frequency (sdr_device_config s) = dc_frequency (sdr_device_config t)"

lemma same_output_selected: "same_output s t \<Longrightarrow> selected_well b pt t \<Longrightarrow> selected_well b pt s"
  by (simp add: same_output_def selected_well_def selections_def)

lemma after_output: "same_output (config_tii pt (config_delay b pt s)) s"
proof -
  have "same_output (config_tii pt t) t" for t
    unfolding config_tii_def by (simp add: same_output_def selections_def device_sections_def)
  moreover have "same_output (config_delay b pt s) s"
    unfolding config_delay_def by (simp add: same_output_def selections_def device_sections_def Let_def)
  ultimately show ?thesis by (simp add: same_output_def)
qed

text \<open>Nothing is selected before.\<close>

lemma config_uhd_selects: "config_uhd pt s = Inr s' \<Longrightarrow>
    \<exists>d. s' = s\<lparr>sdr_device_config := d, useUHDOutput := True\<rparr> \<and> dc_frequency d \<noteq> 0 \<and> tuned_to pt ''uhdoutput'' (dc_frequency d)"
  unfolding config_uhd_def Let_def bindE_Inr_iff
  by (elim exE conjE, drule frequency_tuned, simp only: sum.inject) (intro exI conjI, erule sym, simp_all)

lemma config_output_selects:
  assumes "config_output b pt s = Inr s'" "selections s = replicate 7 False"
  shows "selected_well b pt s'"
proof -
  have off: "\<not> useFileOutput s" "\<not> useUHDOutput s" "\<not> useSoapyOutput s" "\<not> useDexterOutput s" "\<not> useLimeOutput s" "\<not> useBladeRFOutput s"
    "\<not> useZeroMQOutput s" using assms(2) by (simp_all add: selections_def numeral_eq_Suc)
  note facts = selected_well_def selections_def device_sections_def Let_def bindE_Inr_iff configuration_error_def off
  have "config_file pt s = Inr s' \<Longrightarrow> selected_well b pt s'"
    by (auto simp: config_file_def facts split: if_splits)
  moreover have "have_uhd b \<Longrightarrow> config_uhd pt s = Inr s' \<Longrightarrow> selected_well b pt s'"
    by (auto simp: facts dest: config_uhd_selects)
  moreover have "have_soapy b \<Longrightarrow> config_soapy pt s = Inr s' \<Longrightarrow> selected_well b pt s'"
    by (auto simp: config_soapy_def facts dest: frequency_tuned)
  moreover have "have_dexter b \<Longrightarrow> config_dexter pt s = Inr s' \<Longrightarrow> selected_well b pt s'"
    by (auto simp: config_dexter_def facts dest: frequency_tuned)
  moreover have "have_lime b \<Longrightarrow> config_lime pt s = Inr s' \<Longrightarrow> selected_well b pt s'"
    by (auto simp: config_lime_def facts dest: frequency_tuned)
  moreover have "have_bladerf b \<Longrightarrow> config_bladerf pt s = Inr s' \<Longrightarrow> selected_well b pt s'"
    by (auto simp: config_bladerf_def facts dest: frequency_tuned)
  moreover have "have_zmq b \<Longrightarrow> selected_well b pt (s\<lparr>outputName := n, zmqOutputSocketType := t, useZeroMQOutput := True\<rparr>)" for n t
    by (simp add: facts)
  ultimately show ?thesis using assms(1)
    by (simp only: config_output_def Let_def configuration_error_def split: if_splits) auto
qed

lemma configfile_selects:
  assumes "parse_configfile b act pt s = Inr (s', acts)" "selections s = replicate 7 False"
  shows "selected_well b pt s'"
proof -
  obtain t u where "config_modulator pt (config_input pt s) = Inr t" "config_output b pt t = Inr u" "s' = config_tii pt (config_delay b pt u)"
    using assms(1) by (auto simp: parse_configfile_def bindE_Inr_iff split: if_splits)
  then show ?thesis using assms(2) config_output_selects before_output same_output_selected [OF after_output] by metis
qed

lemma prepare_output_some: "selected_well b pt s \<Longrightarrow> prepare_output b s = Inr (s', out) \<Longrightarrow> out \<noteq> None"
  by (auto simp: selected_well_def selections_def prepare_output_def Let_def bindE_Inr_iff split: if_splits)

section \<open>File and command line\<close>

text \<open>The settings a configuration file sets whether it mentions them or not.\<close>

definition always_set :: "settings \<Rightarrow> string \<times> string \<times> fft_engine \<times> gain_mode \<times> nat" where
  "always_set s = (inputName s, inputTransport s, fftEngine s, gainMode s, clockRate s)"

lemma always_set_update [simp]:
  "always_set (s\<lparr>gainmodeVariance := x\<rparr>) = always_set s" "always_set (s\<lparr>dabMode := n\<rparr>) = always_set s"
  "always_set (s\<lparr>digitalgain := x\<rparr>) = always_set s" "always_set (s\<lparr>outputRate := n\<rparr>) = always_set s"
  "always_set (s\<lparr>ofdmWindowOverlap := n\<rparr>) = always_set s" "always_set (s\<lparr>filterTapsFilename := f\<rparr>) = always_set s"
  "always_set (s\<lparr>polyCoefFilename := f\<rparr>) = always_set s" "always_set (s\<lparr>polyNumThreads := n\<rparr>) = always_set s"
  "always_set (s\<lparr>enableCfr := t\<rparr>) = always_set s" "always_set (s\<lparr>cfrClip := x\<rparr>) = always_set s" "always_set (s\<lparr>cfrErrorClip := x\<rparr>) = always_set s"
  "always_set (s\<lparr>sdr_device_config := d\<rparr>) = always_set s" "always_set (s\<lparr>useUHDOutput := t\<rparr>) = always_set s"
  "always_set (s\<lparr>useSoapyOutput := t\<rparr>) = always_set s" "always_set (s\<lparr>useDexterOutput := t\<rparr>) = always_set s"
  "always_set (s\<lparr>useLimeOutput := t\<rparr>) = always_set s" "always_set (s\<lparr>useBladeRFOutput := t\<rparr>) = always_set s"
  "always_set (s\<lparr>useFileOutput := t\<rparr>) = always_set s" "always_set (s\<lparr>useZeroMQOutput := t\<rparr>) = always_set s"
  "always_set (s\<lparr>outputName := f\<rparr>) = always_set s" "always_set (s\<lparr>zmqOutputSocketType := f\<rparr>) = always_set s"
  "always_set (s\<lparr>fileOutputFormat := f\<rparr>) = always_set s" "always_set (s\<lparr>fileOutputShowMetadata := t\<rparr>) = always_set s"
  "always_set (s\<lparr>tist_offset_s := x\<rparr>) = always_set s" "always_set (s\<lparr>tiiConfig := c\<rparr>) = always_set s"
  by (simp_all add: always_set_def)

lemma device_always_set:
  "config_uhd pt s = Inr s' \<Longrightarrow> always_set s' = always_set s" "config_soapy pt s = Inr s' \<Longrightarrow> always_set s' = always_set s"
  "config_dexter pt s = Inr s' \<Longrightarrow> always_set s' = always_set s" "config_lime pt s = Inr s' \<Longrightarrow> always_set s' = always_set s"
  "config_bladerf pt s = Inr s' \<Longrightarrow> always_set s' = always_set s" "config_file pt s = Inr s' \<Longrightarrow> always_set s' = always_set s"
proof -
  assume "config_uhd pt s = Inr s'"
  then obtain d where "s' = s\<lparr>sdr_device_config := d, useUHDOutput := True\<rparr>" using config_uhd_selects by blast
  then show "always_set s' = always_set s" by simp
next
  assume "config_file pt s = Inr s'"
  then show "always_set s' = always_set s" by (auto simp: config_file_def Let_def configuration_error_def split: if_splits)
qed (auto simp: config_soapy_def config_dexter_def config_lime_def config_bladerf_def bindE_Inr_iff)

lemma output_always_set: "config_output b pt s = Inr s' \<Longrightarrow> always_set s' = always_set s"
  unfolding config_output_def Let_def configuration_error_def
  by (simp only: split: if_splits) (auto dest: device_always_set)

lemma after_always_set: "always_set (config_tii pt (config_delay b pt s)) = always_set s"
  unfolding config_tii_def config_delay_def Let_def
  by (simp only: always_set_update if_distrib [of always_set] if_cancel)

lemma modulator_always_set:
  assumes "config_modulator pt (config_input pt s) = Inr s'"
  shows "\<exists>fft gain. parse_fft_engine (Get pt ''modulator.fft_engine'' ''fftw'') = Inr fft \<and>
    parse_gainmode (Get pt ''modulator.gainmode'' ''var'') = Inr gain \<and>
    always_set s' = (Get pt ''input.source'' ''/dev/stdin'', Get pt ''input.transport'' ''file'', fft, gain,
      to_unsigned 64 (GetInteger pt ''modulator.dac_clk_rate'' 0))"
proof -
  obtain fft gain where r: "parse_fft_engine (Get pt ''modulator.fft_engine'' ''fftw'') = Inr fft"
    "parse_gainmode (Get pt ''modulator.gainmode'' ''var'') = Inr gain"
    using assms unfolding config_modulator_def bindE_Inr_iff by blast
  have "always_set s' = (inputName (config_input pt s), inputTransport (config_input pt s), fft, gain,
      to_unsigned 64 (GetInteger pt ''modulator.dac_clk_rate'' 0))"
    using assms unfolding config_modulator_def bindE_Inr_iff r Let_def
    by (elim exE conjE, simp only: sum.inject, clarify)
      (simp only: always_set_update if_distrib [of always_set] if_cancel, simp add: always_set_def)
  moreover have "inputName (config_input pt s) = Get pt ''input.source'' ''/dev/stdin''"
    "inputTransport (config_input pt s) = Get pt ''input.transport'' ''file''" by (simp_all add: config_input_def Let_def)
  ultimately show ?thesis using r by simp
qed

lemma parse_option_file:
  "parse_option b strtol strtod opt l = Inr l' \<Longrightarrow>
     use_configuration_file l' = (use_configuration_file l \<or> fst opt = CHR ''C'') \<and>
     configuration_file l' = (if fst opt = CHR ''C'' then snd opt else configuration_file l)"
  by (auto simp: parse_option_def bindE_Inr_iff split: if_splits)

lemma options_file:
  "for_each (parse_option b strtol strtod) opts l = Inr l' \<Longrightarrow>
     use_configuration_file l' = (use_configuration_file l \<or> (\<exists>f. (CHR ''C'', f) \<in> set opts)) \<and>
     ((\<forall>g. (CHR ''C'', g) \<in> set opts \<longrightarrow> g = f) \<longrightarrow> (\<exists>g. (CHR ''C'', g) \<in> set opts) \<or> configuration_file l = f \<longrightarrow> configuration_file l' = f)"
proof (induction opts arbitrary: l)
  case (Cons opt opts)
  then obtain k where k: "parse_option b strtol strtod opt l = Inr k" "for_each (parse_option b strtol strtod) opts k = Inr l'"
    by (auto split: sum.splits)
  obtain c g where "opt = (c, g)" by force
  then show ?case using Cons.IH [OF k(2)] parse_option_file [OF k(1)] by auto
qed simp

text \<open>
  The configuration file is read last. When a configuration file is named on the command line the input and its transport, the FFT engine, the
  gain mode and the clock rate of the DAC are those of the file, or their defaults, whatever else the command line says about them: the file is read after the
  options, although the program warns of the opposite.
\<close>

lemma config_file_wins:
  assumes "parse_args b act files strtol strtod args opts rest s = Inr (s', acts)" "length args \<noteq> 1"
    and "(CHR ''C'', f) \<in> set opts" "\<forall>g. (CHR ''C'', g) \<in> set opts \<longrightarrow> g = f"
  shows "inputName s' = Get (files f) ''input.source'' ''/dev/stdin'' \<and> inputTransport s' = Get (files f) ''input.transport'' ''file'' \<and>
    parse_fft_engine (Get (files f) ''modulator.fft_engine'' ''fftw'') = Inr (fftEngine s') \<and>
    parse_gainmode (Get (files f) ''modulator.gainmode'' ''var'') = Inr (gainMode s') \<and>
    clockRate s' = to_unsigned 64 (GetInteger (files f) ''modulator.dac_clk_rate'' 0)"
proof -
  define l0 where "l0 = \<lparr>cl_settings = s, use_configuration_cmdline = False, use_configuration_file = False, configuration_file = []\<rparr>"
  have "args \<noteq> []" using assms(1) by (auto simp: parse_args_def)
  then have "\<exists>l x. for_each (parse_option b strtol strtod) opts l0 = Inr l \<and>
      (case x of (t, rest :: string list) \<Rightarrow>
        if use_configuration_cmdline l \<and> rest \<noteq> [] then Inl (InvalidArgument ''Invalid command line options'')
        else if use_configuration_file l then parse_configfile b act (files (configuration_file l)) t else Inr (t, [])) = Inr (s', acts)"
    using assms(1) unfolding parse_args_def Let_def l0_def [symmetric]
    by (simp only: assms(2) if_False bindE_Inr_iff) (elim exE conjE, intro exI conjI, assumption+)
  then obtain l and x :: "settings \<times> string list" where l: "for_each (parse_option b strtol strtod) opts l0 = Inr l"
    and x: "(case x of (t, rest) \<Rightarrow>
        if use_configuration_cmdline l \<and> rest \<noteq> [] then Inl (InvalidArgument ''Invalid command line options'')
        else if use_configuration_file l then parse_configfile b act (files (configuration_file l)) t else Inr (t, [])) = Inr (s', acts)" by blast
  obtain t rest' where "x = (t, rest')" by force
  have "use_configuration_file l" "configuration_file l = f" using options_file [OF l, of f] assms(3,4) by blast+
  then obtain t where "parse_configfile b act (files f) t = Inr (s', acts)" using x \<open>x = (t, rest')\<close> by (simp split: if_splits)
  then obtain u v where "config_modulator (files f) (config_input (files f) t) = Inr u" "config_output b (files f) u = Inr v"
    "s' = config_tii (files f) (config_delay b (files f) v)"
    by (auto simp: parse_configfile_def bindE_Inr_iff split: if_splits)
  then show ?thesis using modulator_always_set output_always_set after_always_set by (fastforce simp: always_set_def)
qed

lemma nothing_selected: "selections default_settings = replicate 7 False"
proof -
  have "replicate 7 False = [False, False, False, False, False, False, False]" by (simp add: numeral_eq_Suc)
  then show ?thesis by (simp add: selections_def default_settings_def)
qed

section \<open>Properties of the outputs\<close>

text \<open>
  C38. An accepted file selects exactly one output. With any configuration file that is accepted on its own, one of the seven outputs is selected, one the program was
  built with; an output file has a name; a device has a frequency other than 0, which is the one of its section or that of
  the channel named there, of which exactly one is given; and an output is made whenever the preparation does not throw.
\<close>

theorem config_selects_output:
  assumes "parse_configfile b act pt default_settings = Inr (s, acts)"
  shows "length (filter id (selections s)) = 1 \<and> (useFileOutput s \<longrightarrow> outputName s \<noteq> []) \<and>
    (\<forall>sec \<in> set (device_sections s). dc_frequency (sdr_device_config s) \<noteq> 0 \<and> tuned_to pt sec (dc_frequency (sdr_device_config s))) \<and>
    (\<forall>s' out. prepare_output b s = Inr (s', out) \<longrightarrow> out \<noteq> None)"
proof -
  have "selected_well b pt s" by (rule configfile_selects [OF assms nothing_selected])
  then show ?thesis using prepare_output_some by (auto simp: selected_well_def)
qed

section \<open>The samples of the output\<close>

lemma set_up_format:
  assumes "selected_well b pt s" "set_up b exit_status s = Inr (Inr (s', out, fmt, sz))" "fftEngine s = FFTW" "fmt \<noteq> []"
  shows "(fmt = ''s16'' \<and> (normalise s' = 32767 / 50000 \<or> normalise s' = 2047 / 50000) \<or> fmt \<in> {''s8'', ''u8''} \<and> normalise s' = 127 / 50000) \<and>
    (is_device out \<longrightarrow> sz = Some 4)"
proof -
  have fmt: "fmt = output_format s" and out: "prepare_output b s = Inr (s', out)" and sz: "is_device out \<longrightarrow> get_format_size fmt = Inr (the sz) \<and> sz \<noteq> None"
    using assms(2,4) unfolding set_up_def by (auto simp: Let_def bindE_Inr_iff split: if_splits)
  consider "useFileOutput s" "\<not> useDexterOutput s" "\<not> useBladeRFOutput s" | "\<not> useFileOutput s" "useDexterOutput s" "have_dexter b" "\<not> useUHDOutput s" "\<not> useSoapyOutput s"
    | "\<not> useFileOutput s" "useBladeRFOutput s" "have_bladerf b" "\<not> useUHDOutput s" "\<not> useSoapyOutput s" "\<not> useDexterOutput s" "\<not> useLimeOutput s"
    using assms(1,3,4) unfolding fmt by (auto simp: selected_well_def selections_def output_format_def split: if_splits)
  then show ?thesis
  proof cases
    case 1
    then show ?thesis using fmt out assms(3,4)
      by (auto simp: output_format_def prepare_output_def file_normalise_def normalise_factor_def bindE_Inr_iff is_device_def split: if_splits)
  next
    case 2
    then have "normalise s' = 32767 / 50000" using out assms(3)
      by (auto simp: prepare_output_def device_at_rate_def normalise_factor_def Let_def)
    then show ?thesis using 2 fmt sz assms(3) by (auto simp: output_format_def get_format_size_def)
  next
    case 3
    then have "normalise s' = 2047 / 50000" using out assms(3)
      by (auto simp: prepare_output_def device_at_rate_def normalise_factor_def Let_def)
    then show ?thesis using 3 fmt sz assms(3) by (auto simp: output_format_def get_format_size_def)
  qed
qed

lemma never_clipped:
  fixes xs :: "real list"
  assumes "\<forall>x \<in> set xs. \<bar>x\<bar> \<le> 50000"
  shows "c \<in> {32767, 2047} \<Longrightarrow> \<exists>ys. format_process neon ''s16'' (Floats (map (\<lambda>x. x * (c / 50000)) xs)) = Inr (ys, 0)"
    and "fmt \<in> {''s8'', ''u8''} \<Longrightarrow> \<exists>ys. format_process neon fmt (Floats (map (\<lambda>x. x * (127 / 50000)) xs)) = Inr (ys, 0)"
proof -
  have small: "\<bar>x * (c / 50000)\<bar> \<le> c" if "x \<in> set xs" "0 \<le> c" for x c :: real
    using mult_right_mono [of "\<bar>x\<bar>" 50000 c] assms that by (simp add: abs_mult)
  show "\<exists>ys. format_process neon ''s16'' (Floats (map (\<lambda>x. x * (c / 50000)) xs)) = Inr (ys, 0)" if "c \<in> {32767, 2047}"
  proof -
    have "\<not> (snd \<circ> to_s16) (x * (c / 50000))" if x: "x \<in> set xs" for x
      using small [OF x, of c] \<open>c \<in> {32767, 2047}\<close> s16_value [of "x * (c / 50000)"] by auto
    then have "filter (snd \<circ> to_s16) (map (\<lambda>x. x * (c / 50000)) xs) = []" by (auto simp: filter_empty_conv)
    then show ?thesis by (simp add: format_process_def convert_all_eq)
  qed
  show "\<exists>ys. format_process neon fmt (Floats (map (\<lambda>x. x * (127 / 50000)) xs)) = Inr (ys, 0)" if "fmt \<in> {''s8'', ''u8''}"
  proof -
    have "\<not> (snd \<circ> to_s8) (x * (127 / 50000))" "\<not> (snd \<circ> to_u8) (x * (127 / 50000))" if x: "x \<in> set xs" for x
      using small [OF x, of 127] s8_value [of "x * (127 / 50000)"] u8_value [of "x * (127 / 50000)"] by auto
    then have "filter (snd \<circ> to_s8) (map (\<lambda>x. x * (127 / 50000)) xs) = []" "filter (snd \<circ> to_u8) (map (\<lambda>x. x * (127 / 50000)) xs) = []"
      by (auto simp: filter_empty_conv)
    then show ?thesis using that by (auto simp: format_process_def convert_all_eq)
  qed
qed

text \<open>
  C39. The normalisation fits the format. When an accepted file selects the transform of FFTW and has its samples converted to integers by the format converter (an output file in one of the three formats, DEXTER or BladeRF),
  samples of up to 50000 in each part, which is the level the factors were made for, are never clipped after normalisation, and a device that gets
  converted samples is told their true size, 4 bytes.
\<close>

theorem configured_format_never_clips:
  assumes "parse_configfile b act pt default_settings = Inr (s, acts)" "set_up b exit_status s = Inr (Inr (s', out, fmt, sz))"
    and "fftEngine s = FFTW" "fmt \<noteq> []" "\<forall>x \<in> set xs. \<bar>x\<bar> \<le> 50000"
  shows "(\<exists>ys. format_process neon fmt (Floats (map (\<lambda>x. x * of_rat (normalise s')) xs)) = Inr (ys, 0)) \<and> (is_device out \<longrightarrow> sz = Some 4)"
proof -
  have "selected_well b pt s" by (rule configfile_selects [OF assms(1) nothing_selected])
  note f = set_up_format [OF this assms(2-4)]
  have r: "of_rat (32767 / 50000) = (32767 / 50000 :: real)" "of_rat (2047 / 50000) = (2047 / 50000 :: real)" "of_rat (127 / 50000) = (127 / 50000 :: real)"
    by (simp_all add: of_rat_divide)
  have "\<exists>ys. format_process neon fmt (Floats (map (\<lambda>x. x * of_rat (normalise s')) xs)) = Inr (ys, 0)"
    using conjunct1 [OF f]
  proof (elim disjE conjE)
    assume n: "normalise s' = 32767 / 50000" and "fmt = ''s16''"
    then show ?thesis using never_clipped(1) [OF assms(5), of 32767] unfolding n r(1) by (simp del: times_divide_eq_right)
  next
    assume n: "normalise s' = 2047 / 50000" and "fmt = ''s16''"
    then show ?thesis using never_clipped(1) [OF assms(5), of 2047] unfolding n r(2) by (simp del: times_divide_eq_right)
  next
    assume n: "normalise s' = 127 / 50000" and "fmt \<in> {''s8'', ''u8''}"
    then show ?thesis using never_clipped(2) [OF assms(5), of fmt] unfolding n r(3) by blast
  qed
  then show ?thesis using conjunct2 [OF f] by blast
qed

text \<open>With the fixed point transform a device is not told the size of its samples, which stays that of complex float.\<close>

lemma fixed_point_size_unset:
  "fftEngine s = KISS \<Longrightarrow> set_up b exit_status s = Inr (Inr (s', out, fmt, sz)) \<Longrightarrow> fmt = [] \<and> sz = None"
  by (auto simp: set_up_def output_format_def Let_def bindE_Inr_iff split: if_splits)

section \<open>Examples\<close>

definition example_build :: build where
  "example_build = \<lparr>have_uhd = True, have_soapy = False, have_dexter = False, have_lime = False, have_bladerf = False, have_zmq = True\<rparr>"

definition example_ini :: "(string \<times> string) list \<Rightarrow> ini" where
  "example_ini vs = \<lparr>ini_values = map_of vs, ini_error = 0, ini_strtol = (\<lambda>_. None), ini_strtod = (\<lambda>_. None)\<rparr>"

lemma example_get [simp]:
  "GetInteger (example_ini vs) name d = d" "GetReal (example_ini vs) name x = x"
  "Get (example_ini vs) name f = (case map_of vs name of None \<Rightarrow> f | Some v \<Rightarrow> v)" "ini_error (example_ini vs) = 0"
  by (simp_all add: GetInteger_def GetReal_def Get_def example_ini_def)

lemma parsed_words:
  "parse_gainmode ''var'' = Inr GAIN_VAR" "parse_gainmode ''fix'' = Inr GAIN_FIX" "parse_fft_engine ''fftw'' = Inr FFTW"
  by code_simp+

lemmas example_steps = parse_configfile_def config_remote_def config_log_def config_modulator_def parsed_words Let_def

lemma example_file:
  "\<exists>s' acts. parse_configfile example_build (\<lambda>_. Inr ()) (example_ini [(''output.output'', ''file''), (''fileoutput.filename'', ''out.iq''),
       (''fileoutput.format'', ''s8'')]) s = Inr (s', acts) \<and>
     useFileOutput s' \<and> fileOutputFormat s' = ''s8'' \<and> fftEngine s' = FFTW \<and> startupCheck s' = []"
  by (simp add: example_steps config_output_def config_file_def config_tii_def config_delay_def config_input_def)

lemma example_channel:
  "\<exists>s' acts. parse_configfile example_build (\<lambda>_. Inr ()) (example_ini [(''output.output'', ''uhd''), (''uhdoutput.channel'', ''10B'')]) s = Inr (s', acts)"
  by (simp add: example_steps config_output_def config_uhd_def config_frequency_def parse_channel_def example_build_def)

lemma config_file_wins_witness:
  "case parse_args example_build (\<lambda>_. Inr ())
      (\<lambda>_. example_ini [(''output.output'', ''file''), (''fileoutput.filename'', ''out.iq''), (''fileoutput.format'', ''s8'')])
      (\<lambda>_. 0) (\<lambda>_. 0) [''-g'', ''fix'', ''-C'', ''dab.ini'', ''in.eti''] [(CHR ''g'', ''fix''), (CHR ''C'', ''dab.ini'')] [''in.eti''] default_settings of
     Inl _ \<Rightarrow> False
   | Inr (s, acts) \<Rightarrow> inputName s = ''/dev/stdin'' \<and> gainMode s = GAIN_VAR"
  (is "case ?r of Inl _ \<Rightarrow> False | Inr (s, acts) \<Rightarrow> _")
proof -
  have "inputName default_settings = []" by (simp add: default_settings_def)
  then have "\<exists>s acts. ?r = Inr (s, acts)" using example_file [of "default_settings\<lparr>gainMode := GAIN_FIX, inputName := ''in.eti''\<rparr>"]
    by (auto simp: parse_args_def parse_option_def option_of_def input_of_def parsed_words Let_def)
  then obtain s acts where r: "?r = Inr (s, acts)" by blast
  show ?thesis using config_file_wins [OF r, of "''dab.ini''"] unfolding r by (simp add: parsed_words)
qed

theorem config_selects_output_witness:
  "case parse_configfile example_build (\<lambda>_. Inr ()) (example_ini [(''output.output'', ''uhd''), (''uhdoutput.channel'', ''10B'')]) default_settings of
     Inl _ \<Rightarrow> False
   | Inr (s, acts) \<Rightarrow> length (filter id (selections s)) = 1 \<and> (\<forall>s' out. prepare_output example_build s = Inr (s', out) \<longrightarrow> out \<noteq> None)"
  (is "case ?r of Inl _ \<Rightarrow> False | Inr (s, acts) \<Rightarrow> _")
proof -
  obtain s acts where r: "?r = Inr (s, acts)" using example_channel by blast
  show ?thesis using config_selects_output [OF r] unfolding r by simp
qed

theorem configured_format_never_clips_witness:
  "case parse_configfile example_build (\<lambda>_. Inr ())
      (example_ini [(''output.output'', ''file''), (''fileoutput.filename'', ''out.iq''), (''fileoutput.format'', ''s8'')]) default_settings of
     Inl _ \<Rightarrow> False
   | Inr (s, acts) \<Rightarrow>
      (case set_up example_build (\<lambda>_. None) s of
         Inr (Inr (s', out, fmt, sz)) \<Rightarrow> (\<exists>ys. format_process False fmt (Floats (map (\<lambda>x. x * of_rat (normalise s')) [50000, - 50000])) = Inr (ys, 0))
       | _ \<Rightarrow> False)"
  (is "case ?r of Inl _ \<Rightarrow> False | Inr (s, acts) \<Rightarrow> _")
proof -
  obtain s acts where r: "?r = Inr (s, acts)" and s: "useFileOutput s" "fileOutputFormat s = ''s8''" "fftEngine s = FFTW" "startupCheck s = []"
    using example_file by blast
  then obtain s' out sz where u: "set_up example_build (\<lambda>_. None) s = Inr (Inr (s', out, ''s8'', sz))"
    by (simp add: set_up_def output_format_def prepare_output_def file_normalise_def get_format_size_def is_device_def Let_def)
  show ?thesis using configured_format_never_clips [OF r u s(3), of "[50000, - 50000]"] unfolding r u sum.case prod.case by simp
qed

end
