(* ===== verification/Uhd.thy ===== *)
theory Uhd
  imports Config_Parser Json Edi_Transport
begin

text \<open>
  The driver of USRP devices (\<open>src/output/UHD.cpp\<close>) and the setting and supervision of their time (\<open>src/output/USRPTime.cpp\<close>). The
  library UHD is what its calls return, arguments here, and the calls that change the device, which are recorded. The lemmas
  show that the packets of a frame continue each other, and that a device with GPS is only reported as good after its time was set. Numbers are rational,
  without rounding.
\<close>

section \<open>The time\<close>

datatype gps_state = Bootup | Monitor_fix

datatype usrp_call =
    Make string
  | Set_clock_source string
  | Set_time_source string
  | Set_tx_subdev string
  | Set_time_now rat
  | Set_time_unknown_pps int
  | Set_tx_rate rat
  | Set_rx_rate rat
  | Set_tx_bandwidth rat
  | Set_rx_bandwidth rat
  | Set_tx_freq rat "rat option"
  | Set_rx_freq rat "rat option"
  | Set_tx_gain rat
  | Set_rx_gain rat
  | Set_tx_antenna string
  | Set_rx_antenna string
  | Get_streams string

text \<open>\<open>gps_fix_future\<close> says whether a check was started whose result is not yet taken.\<close>

record usrp_time =
  gps_state :: gps_state
  num_checks_without_gps_fix :: nat
  gnss_num_sv :: int
  gnss_holdover :: bool
  time_last_check :: rat
  gps_fix_future :: bool
  usrp_calls :: "usrp_call list"

text \<open>
  What is read while the time is checked: the clocks of the system (steady, and the time in milliseconds), the sensors
  (\<open>None\<close>: an exception of UHD), and the time of the device after it was set.
\<close>

record usrp_reading =
  steady_clock :: rat
  system_ms :: int
  gps_timelock :: "string option"
  gps_gngga :: "string option"
  gps_discsrc :: "string option"
  gps_locked :: "bool option"
  usrp_secs :: rat

definition initial_gps_fix_wait :: nat where
  "initial_gps_fix_wait = 180"

definition gps_fix_check_interval :: nat where
  "gps_fix_check_interval = 10"

definition usrp_do :: "usrp_call \<Rightarrow> usrp_time \<Rightarrow> usrp_time" where
  "usrp_do c u = u\<lparr>usrp_calls := usrp_calls u @ [c]\<rparr>"

text \<open>The second of the system clock plus three is the one of the pulse the device takes it over at.\<close>

definition set_usrp_time_from_localtime :: "usrp_reading \<Rightarrow> usrp_time \<Rightarrow> usrp_time" where
  "set_usrp_time_from_localtime r u = usrp_do (Set_time_now (of_int (system_ms r) / 1000)) u"

definition set_usrp_time_from_pps :: "usrp_reading \<Rightarrow> usrp_time \<Rightarrow> usrp_time \<times> unit result" where
  "set_usrp_time_from_pps r u =
     (let time_set = system_ms r div 1000 + 3; u = usrp_do (Set_time_unknown_pps time_set) u
      in if \<bar>usrp_secs r - of_int time_set\<bar> > 10 then (u, Inl (RuntimeError ''OutputUHD: Unable to set USRP time!'')) else (u, Inr ()))"

definition contains :: "string \<Rightarrow> string \<Rightarrow> bool" where
  "contains t s = list_ex (\<lambda>k. take (length t) (drop k s) = t) [0..<length s + 1]"

text \<open>\<open>std::getline\<close> with a comma as separator.\<close>

fun split_commas :: "string \<Rightarrow> string \<Rightarrow> string list" where
  "split_commas item [] = (if item = [] then [] else [item])"
| "split_commas item (c # s) = (if c = CHR '','' then item # split_commas [] s else split_commas (item @ [c]) s)"

text \<open>\<open>std::stoi\<close> may throw, which is not caught.\<close>

definition check_gps_timelock :: "usrp_reading \<Rightarrow> usrp_time \<Rightarrow> usrp_time \<times> bool result" where
  "check_gps_timelock r u =
     (case (case (gps_timelock r, gps_gngga r) of
              (Some sensor, Some gngga) \<Rightarrow>
                (let elems = split_commas [] gngga
                 in case stoi (if length elems > 7 then elems ! 7 else ''0'') of
                      Inl e \<Rightarrow> (u, Inl e)
                    | Inr n \<Rightarrow> (u\<lparr>gnss_num_sv := n\<rparr>, Inr (contains ''TIME LOCKED'' sensor)))
            | _ \<Rightarrow> (u, Inr False)) of
        (u, Inl e) \<Rightarrow> (u, Inl e)
      | (u, Inr locked) \<Rightarrow>
          (let locked = (case gps_discsrc r of None \<Rightarrow> locked | Some src \<Rightarrow> locked \<and> contains ''gnss'' src)
           in (u\<lparr>gnss_holdover := \<not> locked\<rparr>, Inr locked)))"

definition check_gps_locked :: "usrp_reading \<Rightarrow> bool" where
  "check_gps_locked r = (gps_locked r = Some True)"

definition gpsdo_is_ettus :: "device_config \<Rightarrow> bool" where
  "gpsdo_is_ettus c = (dc_refclk_src c = ''gpsdo-ettus'')"

definition gps_check :: "device_config \<Rightarrow> usrp_reading \<Rightarrow> usrp_time \<Rightarrow> usrp_time \<times> bool result" where
  "gps_check c r u = (if gpsdo_is_ettus c then (u, Inr (check_gps_locked r)) else check_gps_timelock r u)"

definition gpsfix_needs_check :: "device_config \<Rightarrow> usrp_time \<Rightarrow> bool" where
  "gpsfix_needs_check c u =
     (let gpsdo = (dc_refclk_src c = ''gpsdo'' \<or> dc_refclk_src c = ''gpsdo-ettus'')
      in if dc_refclk_src c = ''internal'' then False
         else if gps_state u = Monitor_fix \<and> gpsdo then dc_maxGPSHoldoverTime c \<noteq> 0
         else if gps_state u = Bootup \<and> gpsdo then True
         else False)"

text \<open>
  A check is started in one call and its result taken in a later one, whose reading holds what the check read; \<open>lrint\<close> of half the
  interval is 5.
\<close>

definition check_gps :: "device_config \<Rightarrow> usrp_reading \<Rightarrow> usrp_time \<Rightarrow> usrp_time \<times> unit result" where
  "check_gps c r u =
     (if gpsfix_needs_check c u \<and> time_last_check u + 5 < steady_clock r
      then
        let u = u\<lparr>time_last_check := steady_clock r\<rparr>
        in if gps_fix_future u
           then (case gps_check c r (u\<lparr>gps_fix_future := False\<rparr>) of
                   (u, Inl e) \<Rightarrow> (u, Inl e)
                 | (u, Inr fix) \<Rightarrow> (u\<lparr>num_checks_without_gps_fix := (if fix then 0 else num_checks_without_gps_fix u + 1)\<rparr>, Inr ()))
           else (u\<lparr>gps_fix_future := True\<rparr>, Inr ())
      else (u, Inr ()))"

definition verify_time :: "device_config \<Rightarrow> usrp_reading \<Rightarrow> usrp_time \<Rightarrow> usrp_time \<times> bool result" where
  "verify_time c r u =
     (if \<not> gpsfix_needs_check c u then (u, Inr True)
      else (case check_gps c r u of
              (u, Inl e) \<Rightarrow> (u, Inl e)
            | (u, Inr _) \<Rightarrow>
                let duration_without_fix = gps_fix_check_interval * num_checks_without_gps_fix u
                in (case gps_state u of
                      Bootup \<Rightarrow>
                        if duration_without_fix > initial_gps_fix_wait then (u, Inl (RuntimeError ''GPS did not fix''))
                        else if num_checks_without_gps_fix u = 0
                        then (case (if dc_pps_src c \<noteq> ''none'' then set_usrp_time_from_pps r u else (u, Inr ())) of
                                (u, Inl e) \<Rightarrow> (u, Inl e)
                              | (u, Inr _) \<Rightarrow> (u\<lparr>gps_state := Monitor_fix\<rparr>, Inr True))
                        else (u, Inr False)
                    | Monitor_fix \<Rightarrow>
                        if duration_without_fix > dc_maxGPSHoldoverTime c then (u, Inl (RuntimeError ''Lost GPS Fix'')) else (u, Inr True))))"

definition USRPTime :: "device_config \<Rightarrow> usrp_reading \<Rightarrow> usrp_call list \<Rightarrow> usrp_time result" where
  "USRPTime c r calls =
     (let u = \<lparr>gps_state = Bootup, num_checks_without_gps_fix = 1, gnss_num_sv = 0, gnss_holdover = False, time_last_check = steady_clock r,
               gps_fix_future = False, usrp_calls = calls\<rparr>;
          or_throw = (\<lambda>(u, res). bindE res (\<lambda>_. Inr u))
      in if dc_refclk_src c = ''internal'' \<and> dc_pps_src c \<noteq> ''none'' then or_throw (set_usrp_time_from_pps r u)
         else if dc_pps_src c = ''none'' then Inr (set_usrp_time_from_localtime r u)
         else if dc_pps_src c = ''pps'' then Inr u
         else if dc_pps_src c = ''gpsdo''
         then (case gps_check c r u of
                 (u, Inl e) \<Rightarrow> Inl e
               | (u, Inr True) \<Rightarrow>
                   bindE (or_throw (set_usrp_time_from_pps r u)) (\<lambda>u. Inr (u\<lparr>gps_state := Monitor_fix, num_checks_without_gps_fix := 0\<rparr>))
               | (u, Inr False) \<Rightarrow> Inr u)
         else if dc_pps_src c = ''external'' then or_throw (set_usrp_time_from_pps r u)
         else Inl (RuntimeError ''USRPTime not implemented yet: ''))"

section \<open>The device\<close>

text \<open>What the library answers: the clock and rate reached, the frequency, the gains and bandwidth.\<close>

record usrp_answers =
  actual_master_clock :: rat
  actual_tx_rate :: rat
  actual_tx_freq :: rat
  actual_tx_gain :: rat
  actual_rx_gain :: rat
  actual_tx_bandwidth :: rat

record uhd =
  uhd_conf :: device_config
  uhd_time :: usrp_time
  suppress_refclk_loss_check :: bool
  uhd_require_refresh :: bool
  num_underflows :: nat
  num_late_packets :: nat
  uhd_frames_modulated :: nat

definition uhd_do :: "usrp_call list \<Rightarrow> uhd \<Rightarrow> uhd" where
  "uhd_do cs d = d\<lparr>uhd_time := (uhd_time d)\<lparr>usrp_calls := usrp_calls (uhd_time d) @ cs\<rparr>\<rparr>"

definition uhd_tune :: "usrp_answers \<Rightarrow> rat \<Rightarrow> rat \<Rightarrow> uhd \<Rightarrow> uhd" where
  "uhd_tune a lo_offset frequency d =
     (let lo = (if lo_offset \<noteq> 0 then Some lo_offset else None); d = uhd_do [Set_tx_freq frequency lo, Set_rx_freq frequency lo] d
      in d\<lparr>uhd_conf := (uhd_conf d)\<lparr>dc_frequency := actual_tx_freq a\<rparr>\<rparr>)"

definition uhd_set_txgain :: "usrp_answers \<Rightarrow> rat \<Rightarrow> uhd \<Rightarrow> uhd" where
  "uhd_set_txgain a txgain d = (uhd_do [Set_tx_gain txgain] d)\<lparr>uhd_conf := (uhd_conf d)\<lparr>dc_txgain := actual_tx_gain a\<rparr>\<rparr>"

definition uhd_set_bandwidth :: "usrp_answers \<Rightarrow> rat \<Rightarrow> uhd \<Rightarrow> uhd" where
  "uhd_set_bandwidth a bandwidth d =
     (uhd_do [Set_tx_bandwidth bandwidth, Set_rx_bandwidth bandwidth] d)\<lparr>uhd_conf := (uhd_conf d)\<lparr>dc_bandwidth := actual_tx_bandwidth a\<rparr>\<rparr>"

text \<open>The code passes the old gain, not the new one.\<close>

definition uhd_set_rxgain :: "usrp_answers \<Rightarrow> rat \<Rightarrow> uhd \<Rightarrow> uhd" where
  "uhd_set_rxgain a rxgain d = (uhd_do [Set_rx_gain (dc_rxgain (uhd_conf d))] d)\<lparr>uhd_conf := (uhd_conf d)\<lparr>dc_rxgain := actual_rx_gain a\<rparr>\<rparr>"

definition rate_of :: "device_config \<Rightarrow> rat" where
  "rate_of c = of_nat (unat (sampleRate c))"

definition device_string :: "device_config \<Rightarrow> string" where
  "device_string c =
     dc_device c @ (if dc_masterClockRate c \<noteq> 0
       then (if dc_device c \<noteq> [] then '','' else []) @ ''master_clock_rate='' @ int_text (dc_masterClockRate c) else [])"

definition UHD :: "device_config \<Rightarrow> usrp_answers \<Rightarrow> usrp_reading \<Rightarrow> uhd result" where
  "UHD c a r =
     (if dc_masterClockRate c \<noteq> 0 \<and> \<bar>actual_master_clock a - of_int (dc_masterClockRate c)\<bar> > of_int (dc_masterClockRate c) / 10 ^ 6
      then Inl (RuntimeError ''Cannot set USRP master_clock_rate. Aborted.'')
      else
        let refclk = (if dc_refclk_src c = ''gpsdo-ettus'' then ''gpsdo'' else dc_refclk_src c);
            calls = [Make (device_string c), Set_clock_source refclk, Set_time_source (dc_pps_src c)] @
              (if dc_subDevice c \<noteq> [] then [Set_tx_subdev (dc_subDevice c)] else [])
        in bindE (USRPTime c r calls) (\<lambda>u.
             let rate = rate_of c;
                 d = \<lparr>uhd_conf = c, uhd_time = u, suppress_refclk_loss_check = False, uhd_require_refresh = False, num_underflows = 0,
                      num_late_packets = 0, uhd_frames_modulated = 0\<rparr>;
                 d = uhd_do [Set_tx_rate rate] d
             in if \<bar>actual_tx_rate a / rate\<bar> > rate / 10 ^ 6 then Inl (RuntimeError ''Cannot set USRP sample rate. Aborted.'')
                else
                  let d = (if dc_bandwidth c > 0 then uhd_do [Set_tx_bandwidth (dc_bandwidth c), Set_rx_bandwidth (dc_bandwidth c)] d else d);
                      d = uhd_set_txgain a (dc_txgain c) (uhd_tune a (dc_lo_offset c) (dc_frequency c) d);
                      d = uhd_do [Set_rx_rate rate] d;
                      d = (if dc_rx_antenna c \<noteq> [] then uhd_do [Set_rx_antenna (dc_rx_antenna c)] d else d);
                      d = (if dc_tx_antenna c \<noteq> [] then uhd_do [Set_tx_antenna (dc_tx_antenna c)] d else d)
                  in Inr (uhd_do [Set_rx_gain (dc_rxgain c), Get_streams (if dc_fixedPoint c then ''sc16'' else ''fc32'')] d)))"

text \<open>The sensor of the reference clock: \<open>None\<close> if there is no such sensor.\<close>

definition refclk_loss_needs_check :: "uhd \<Rightarrow> bool" where
  "refclk_loss_needs_check d = (\<not> suppress_refclk_loss_check d \<and> dc_refclk_src (uhd_conf d) \<noteq> ''internal'')"

definition uhd_clk_source_ok :: "bool option \<Rightarrow> usrp_reading \<Rightarrow> uhd \<Rightarrow> uhd \<times> bool result" where
  "uhd_clk_source_ok ref_locked r d =
     (let lost = (refclk_loss_needs_check d \<and> ref_locked = Some False);
          d = (if refclk_loss_needs_check d \<and> ref_locked = None then d\<lparr>suppress_refclk_loss_check := True\<rparr> else d)
      in if lost \<and> dc_lock_loss (uhd_conf d) = Some CRASH then (d, Inl (RuntimeError ''OutputUHD: External reference clock lock lost.''))
         else (case verify_time (uhd_conf d) r (uhd_time d) of
                 (u, Inl e) \<Rightarrow> (d\<lparr>uhd_time := u\<rparr>, Inl e)
               | (u, Inr good) \<Rightarrow> (d\<lparr>uhd_time := u\<rparr>, Inr (\<not> lost \<and> good))))"

section \<open>Sending\<close>

text \<open>
  One round of the loop that sends a frame: whether the driver still runs, the setting \<open>muting\<close>, and how many of the samples offered the device
  takes. A packet is what was offered, how much of it was taken, its time and whether it ends the burst.
\<close>

record send_answer =
  sa_running :: bool
  sa_muting :: bool
  sa_send :: "nat \<Rightarrow> nat"

record uhd_packet =
  pk_offered :: bytes
  pk_sent :: nat
  pk_time :: "rat option"
  pk_end_of_burst :: bool

function send_samples ::
    "rat \<Rightarrow> nat \<Rightarrow> nat \<Rightarrow> bool \<Rightarrow> (nat \<Rightarrow> send_answer) \<Rightarrow> bytes \<Rightarrow> nat \<Rightarrow> nat \<Rightarrow> rat option \<Rightarrow> bool \<Rightarrow> uhd_packet list \<times> bool" where
  "send_samples rate sample_size max_samps valid answer buf k acc t refresh =
     (let sizeIn = length buf div sample_size
      in if \<not> (sa_running (answer k) \<and> acc < sizeIn) then ([], refresh)
         else
           let samps_to_send = min (sizeIn - acc) max_samps;
               eob_because_muting = sa_muting (answer k);
               n = sa_send (answer k) samps_to_send;
               p = \<lparr>pk_offered = take (sample_size * samps_to_send) (drop (sample_size * acc) buf), pk_sent = n, pk_time = t,
                    pk_end_of_burst = (eob_because_muting \<or> valid \<and> refresh \<and> samps_to_send \<le> max_samps)\<rparr>
           in if n = 0 \<or> eob_because_muting then ([p], False)
              else (case send_samples rate sample_size max_samps valid answer buf (k + 1) (acc + n)
                           (map_option (\<lambda>t. t + of_nat n / rate) t) False of
                      (ps, refresh) \<Rightarrow> (p # ps, refresh)))"
  by pat_completeness auto
termination
  by (relation "measure (\<lambda>(rate, sample_size, max_samps, valid, answer, buf, k, acc, t, refresh). length buf div sample_size - acc)") auto

declare send_samples.simps [simp del]

definition sample_bytes :: "uhd \<Rightarrow> nat" where
  "sample_bytes d = (if dc_fixedPoint (uhd_conf d) then 4 else 8)"

definition frame_time :: "uhd \<Rightarrow> frame_timestamp \<Rightarrow> rat option" where
  "frame_time d ts =
     (if enableSync (uhd_conf d) \<and> ts_valid ts then Some (of_nat (unat (ts_sec ts)) + of_nat (unat (ts_pps ts)) / 16384000) else None)"

definition uhd_transmit :: "nat \<Rightarrow> (nat \<Rightarrow> send_answer) \<Rightarrow> frame_data \<Rightarrow> uhd \<Rightarrow> uhd \<times> uhd_packet list" where
  "uhd_transmit max_samps answer frame d =
     (case send_samples (rate_of (uhd_conf d)) (sample_bytes d) max_samps (ts_valid (fr_ts frame)) answer (fr_buf frame) 0 0
             (frame_time d (fr_ts frame)) (uhd_require_refresh d) of
        (ps, refresh) \<Rightarrow> (d\<lparr>uhd_require_refresh := refresh, uhd_frames_modulated := uhd_frames_modulated d + 1\<rparr>, ps))"

text \<open>What the thread for messages of the device counts.\<close>

datatype async_event = Burst_ack | Underflow | Seq_error | Time_error | Underflow_in_packet | Seq_error_in_burst | Other_event

fun count_event :: "async_event \<Rightarrow> uhd \<Rightarrow> uhd" where
  "count_event Underflow d = d\<lparr>num_underflows := num_underflows d + 1\<rparr>"
| "count_event Time_error d = d\<lparr>num_late_packets := num_late_packets d + 1\<rparr>"
| "count_event _ d = d"

section \<open>A frame is sent whole\<close>

definition accepted :: "nat \<Rightarrow> uhd_packet \<Rightarrow> bytes" where
  "accepted sample_size p = take (sample_size * pk_sent p) (pk_offered p)"

definition samples_before :: "uhd_packet list \<Rightarrow> nat \<Rightarrow> nat" where
  "samples_before ps i = sum_list (map pk_sent (take i ps))"

text \<open>The device takes something of what it is offered, and nobody mutes or stops the driver.\<close>

definition accepting :: "(nat \<Rightarrow> send_answer) \<Rightarrow> bool" where
  "accepting answer \<longleftrightarrow>
     (\<forall>k. sa_running (answer k) \<and> \<not> sa_muting (answer k) \<and> (\<forall>n > 0. 0 < sa_send (answer k) n \<and> sa_send (answer k) n \<le> n))"

definition continuous :: "rat \<Rightarrow> rat option \<Rightarrow> uhd_packet list \<Rightarrow> bool" where
  "continuous rate t ps \<longleftrightarrow> (\<forall>i < length ps. pk_time (ps ! i) = map_option (\<lambda>t. t + of_nat (samples_before ps i) / rate) t)"

lemma continuous_Cons:
  assumes "continuous rate (map_option (\<lambda>t. t + of_nat (pk_sent p) / rate) t) ps" "pk_time p = t"
  shows "continuous rate t (p # ps)"
  unfolding continuous_def
proof (intro allI impI)
  fix i assume "i < length (p # ps)"
  then show "pk_time ((p # ps) ! i) = map_option (\<lambda>t. t + of_nat (samples_before (p # ps) i) / rate) t"
    using assms by (cases i; cases t) (auto simp: continuous_def samples_before_def add_divide_distrib ac_simps)
qed

lemma send_samples_step:
  assumes "accepting answer" "0 < max_samps" "acc < length buf div sample_size"
  obtains n s where "0 < n" "n \<le> s" "acc + s \<le> length buf div sample_size"
    "send_samples rate sample_size max_samps valid answer buf k acc t refresh =
       (case send_samples rate sample_size max_samps valid answer buf (k + 1) (acc + n) (map_option (\<lambda>t. t + of_nat n / rate) t) False of
          (ps, refresh') \<Rightarrow>
            (\<lparr>pk_offered = take (sample_size * s) (drop (sample_size * acc) buf), pk_sent = n, pk_time = t, pk_end_of_burst = (valid \<and> refresh)\<rparr> # ps, refresh'))"
proof -
  define s where "s = min (length buf div sample_size - acc) max_samps"
  define n where "n = sa_send (answer k) s"
  have s: "0 < s" "acc + s \<le> length buf div sample_size" "s \<le> max_samps" using assms(2,3) by (auto simp: s_def)
  moreover from this have "0 < n" "n \<le> s" "sa_running (answer k)" "\<not> sa_muting (answer k)" using assms(1) by (auto simp: n_def accepting_def)
  moreover from this have "send_samples rate sample_size max_samps valid answer buf k acc t refresh =
       (case send_samples rate sample_size max_samps valid answer buf (k + 1) (acc + n) (map_option (\<lambda>t. t + of_nat n / rate) t) False of
          (ps, refresh') \<Rightarrow>
            (\<lparr>pk_offered = take (sample_size * s) (drop (sample_size * acc) buf), pk_sent = n, pk_time = t, pk_end_of_burst = (valid \<and> refresh)\<rparr> # ps, refresh'))"
    using assms(3) s by (subst send_samples.simps) (simp add: Let_def s_def [symmetric] n_def [symmetric])
  ultimately show ?thesis using that [of n s] by blast
qed

lemma send_samples_whole:
  assumes "accepting answer" "0 < max_samps" "acc \<le> length buf div sample_size"
    and "send_samples rate sample_size max_samps valid answer buf k acc t refresh = (ps, refresh')"
  shows "concat (map (accepted sample_size) ps) = take (sample_size * (length buf div sample_size - acc)) (drop (sample_size * acc) buf) \<and>
    continuous rate t ps \<and> (\<forall>i < length ps. pk_end_of_burst (ps ! i) = (i = 0 \<and> valid \<and> refresh))"
  using assms(3,4)
proof (induction "length buf div sample_size - acc" arbitrary: acc k t refresh ps refresh' rule: less_induct)
  case less
  show ?case
  proof (cases "acc = length buf div sample_size")
    case True
    then show ?thesis using less(3) by (subst (asm) send_samples.simps) (simp add: continuous_def)
  next
    case False
    then have "acc < length buf div sample_size" using less(2) by simp
    from send_samples_step [OF assms(1,2) this, of rate valid k t refresh] obtain n s where n: "0 < n" "n \<le> s" "acc + s \<le> length buf div sample_size"
      and step: "send_samples rate sample_size max_samps valid answer buf k acc t refresh =
       (case send_samples rate sample_size max_samps valid answer buf (k + 1) (acc + n) (map_option (\<lambda>t. t + of_nat n / rate) t) False of
          (ps, refresh') \<Rightarrow>
            (\<lparr>pk_offered = take (sample_size * s) (drop (sample_size * acc) buf), pk_sent = n, pk_time = t, pk_end_of_burst = (valid \<and> refresh)\<rparr> # ps, refresh'))"
      by metis
    obtain qs r where rest: "send_samples rate sample_size max_samps valid answer buf (k + 1) (acc + n) (map_option (\<lambda>t. t + of_nat n / rate) t) False = (qs, r)"
      by force
    define p where "p = \<lparr>pk_offered = take (sample_size * s) (drop (sample_size * acc) buf), pk_sent = n, pk_time = t, pk_end_of_burst = (valid \<and> refresh)\<rparr>"
    have ps: "ps = p # qs" using less(3) unfolding step rest p_def by simp
    have IH: "concat (map (accepted sample_size) qs) = take (sample_size * (length buf div sample_size - (acc + n))) (drop (sample_size * (acc + n)) buf)"
      "continuous rate (map_option (\<lambda>t. t + of_nat n / rate) t) qs" "\<forall>i < length qs. \<not> pk_end_of_burst (qs ! i)"
      using less(1) [OF _ _ rest] n by auto
    have "accepted sample_size p = take (sample_size * n) (drop (sample_size * acc) buf)"
      using n by (simp add: accepted_def p_def min_absorb1)
    moreover have "sample_size * (length buf div sample_size - acc) = sample_size * n + sample_size * (length buf div sample_size - (acc + n))"
      using n by (simp flip: distrib_left)
    ultimately have "concat (map (accepted sample_size) ps) = take (sample_size * (length buf div sample_size - acc)) (drop (sample_size * acc) buf)"
      using IH(1) by (simp add: ps take_add distrib_left add.commute)
    moreover have "continuous rate t ps" unfolding ps by (rule continuous_Cons) (use IH(2) in \<open>simp_all add: p_def\<close>)
    moreover have "pk_end_of_burst (ps ! i) = (i = 0 \<and> valid \<and> refresh)" if "i < length ps" for i
      using that IH(3) by (cases i) (auto simp: ps p_def)
    ultimately show ?thesis by blast
  qed
qed

text \<open>A frame through \<open>uhd_transmit\<close>. After a refresh of the time stamps it is the first packet, not the last, that ends the burst.\<close>

lemma uhd_packets:
  assumes "accepting answer" "0 < max_samps" "sample_bytes d dvd length (fr_buf frame)" "uhd_transmit max_samps answer frame d = (d', ps)"
  shows "concat (map (accepted (sample_bytes d)) ps) = fr_buf frame \<and>
    continuous (rate_of (uhd_conf d)) (frame_time d (fr_ts frame)) ps \<and>
    (\<forall>i < length ps. pk_end_of_burst (ps ! i) = (i = 0 \<and> ts_valid (fr_ts frame) \<and> uhd_require_refresh d))"
proof -
  obtain refresh where "send_samples (rate_of (uhd_conf d)) (sample_bytes d) max_samps (ts_valid (fr_ts frame)) answer (fr_buf frame) 0 0
      (frame_time d (fr_ts frame)) (uhd_require_refresh d) = (ps, refresh)"
    using assms(4) by (auto simp: uhd_transmit_def split: prod.splits)
  from send_samples_whole [OF assms(1,2) _ this] show ?thesis using assms(3) by simp
qed

text \<open>
  C40. A frame is sent whole and without gaps. If the device takes something of every packet and the driver is neither stopped nor muted, the
  packets of a frame of whole samples carry exactly its bytes, in order, and the time of each is the frame's time stamp plus the
  duration of the samples before it; without a valid time stamp, or when the output is not synchronised, no packet has a time.
\<close>

theorem uhd_sends_frame:
  assumes "accepting answer" "0 < max_samps" "sample_bytes d dvd length (fr_buf frame)" "uhd_transmit max_samps answer frame d = (d', ps)"
  shows "concat (map (accepted (sample_bytes d)) ps) = fr_buf frame \<and>
    (\<forall>i < length ps. pk_time (ps ! i) =
       (if enableSync (uhd_conf d) \<and> ts_valid (fr_ts frame)
        then Some (of_nat (unat (ts_sec (fr_ts frame))) + of_nat (unat (ts_pps (fr_ts frame))) / 16384000 +
          of_nat (samples_before ps i) / of_nat (unat (sampleRate (uhd_conf d))))
        else None))"
  using uhd_packets [OF assms] by (auto simp: continuous_def frame_time_def rate_of_def)

section \<open>The time is set before it is relied on\<close>

text \<open>Every state of the supervision in a sequence of calls, whatever is read, with or without exceptions.\<close>

inductive usrp_run :: "device_config \<Rightarrow> usrp_time \<Rightarrow> bool" for c where
  usrp_start: "USRPTime c r calls = Inr u \<Longrightarrow> usrp_run c u"
| usrp_verify: "usrp_run c u \<Longrightarrow> verify_time c r u = (u', res) \<Longrightarrow> usrp_run c u'"

fun sets_time :: "bool \<Rightarrow> usrp_call \<Rightarrow> bool" where
  "sets_time pulse (Set_time_now t) = (\<not> pulse)"
| "sets_time pulse (Set_time_unknown_pps s) = pulse"
| "sets_time pulse _ = False"

definition time_was_set :: "device_config \<Rightarrow> usrp_time \<Rightarrow> bool" where
  "time_was_set c u = list_ex (sets_time (dc_pps_src c \<noteq> ''none'')) (usrp_calls u)"

definition usrp_inv :: "device_config \<Rightarrow> usrp_time \<Rightarrow> bool" where
  "usrp_inv c u \<longleftrightarrow> (dc_pps_src c = ''none'' \<or> gps_state u = Monitor_fix \<longrightarrow> time_was_set c u)"

lemma gps_check_keeps: "gps_check c r u = (u', res) \<Longrightarrow> gps_state u' = gps_state u \<and> usrp_calls u' = usrp_calls u"
  by (auto simp: gps_check_def check_gps_timelock_def Let_def split: if_splits option.splits sum.splits)

lemma check_gps_keeps: "check_gps c r u = (u', res) \<Longrightarrow> gps_state u' = gps_state u \<and> usrp_calls u' = usrp_calls u"
  by (auto simp: check_gps_def Let_def dest: gps_check_keeps split: if_splits prod.splits sum.splits)

lemma set_from_pps:
  "set_usrp_time_from_pps r u = (u', res) \<Longrightarrow> gps_state u' = gps_state u \<and> usrp_calls u' = usrp_calls u @ [Set_time_unknown_pps (system_ms r div 1000 + 3)]"
  by (auto simp: set_usrp_time_from_pps_def usrp_do_def Let_def split: if_splits)

lemma usrp_start_inv: "USRPTime c r calls = Inr u \<Longrightarrow> usrp_inv c u"
  unfolding USRPTime_def Let_def
  by (auto simp: usrp_inv_def time_was_set_def bindE_Inr_iff set_usrp_time_from_localtime_def usrp_do_def
    dest!: gps_check_keeps set_from_pps split: if_splits prod.splits sum.splits bool.splits)

lemma verify_time_steps:
  assumes "verify_time c r u = (u', res)" "gpsfix_needs_check c u"
  obtains u1 r1 u2 r2 where "check_gps c r u = (u1, r1)" "gps_state u1 = gps_state u" "usrp_calls u1 = usrp_calls u"
    "set_usrp_time_from_pps r u1 = (u2, r2)" "num_checks_without_gps_fix u2 = num_checks_without_gps_fix u1"
    "gps_state u2 = gps_state u" "usrp_calls u2 = usrp_calls u @ [Set_time_unknown_pps (system_ms r div 1000 + 3)]"
    "u' = u1 \<and> res \<noteq> Inr True \<or>
     gps_state u = Monitor_fix \<and> u' = u1 \<and> res = Inr True \<and> gps_fix_check_interval * num_checks_without_gps_fix u1 \<le> dc_maxGPSHoldoverTime c \<or>
     gps_state u = Bootup \<and> num_checks_without_gps_fix u1 = 0 \<and>
       (dc_pps_src c = ''none'' \<and> u' = u1\<lparr>gps_state := Monitor_fix\<rparr> \<and> res = Inr True \<or>
        dc_pps_src c \<noteq> ''none'' \<and> (u' = u2\<lparr>gps_state := Monitor_fix\<rparr> \<and> res = Inr True \<or> u' = u2 \<and> res \<noteq> Inr True))"
proof -
  obtain u1 r1 where c: "check_gps c r u = (u1, r1)" by force
  obtain u2 r2 where s: "set_usrp_time_from_pps r u1 = (u2, r2)" by force
  have "num_checks_without_gps_fix u2 = num_checks_without_gps_fix u1"
    using s by (auto simp: set_usrp_time_from_pps_def usrp_do_def Let_def split: if_splits)
  moreover have k: "gps_state u1 = gps_state u" "usrp_calls u1 = usrp_calls u" using check_gps_keeps [OF c] by auto
  moreover have "gps_state u2 = gps_state u" "usrp_calls u2 = usrp_calls u @ [Set_time_unknown_pps (system_ms r div 1000 + 3)]"
    using set_from_pps [OF s] k by auto
  moreover have "u' = u1 \<and> res \<noteq> Inr True \<or>
     gps_state u = Monitor_fix \<and> u' = u1 \<and> res = Inr True \<and> gps_fix_check_interval * num_checks_without_gps_fix u1 \<le> dc_maxGPSHoldoverTime c \<or>
     gps_state u = Bootup \<and> num_checks_without_gps_fix u1 = 0 \<and>
       (dc_pps_src c = ''none'' \<and> u' = u1\<lparr>gps_state := Monitor_fix\<rparr> \<and> res = Inr True \<or>
        dc_pps_src c \<noteq> ''none'' \<and> (u' = u2\<lparr>gps_state := Monitor_fix\<rparr> \<and> res = Inr True \<or> u' = u2 \<and> res \<noteq> Inr True))"
    using assms c s k by (cases "gps_state u"; cases r1; cases r2) (auto simp: verify_time_def Let_def split: if_splits)
  ultimately show ?thesis using that c s by blast
qed

lemma verify_inv:
  assumes "usrp_inv c u" "verify_time c r u = (u', res)"
  shows "usrp_inv c u'"
proof (cases "gpsfix_needs_check c u")
  case True
  show ?thesis using assms(1)
    by (rule_tac verify_time_steps [OF assms(2) True]) (elim disjE conjE; simp add: usrp_inv_def time_was_set_def; fail)
next
  case False
  then show ?thesis using assms by (simp add: verify_time_def)
qed

lemma usrp_run_inv: "usrp_run c u \<Longrightarrow> usrp_inv c u"
  by (induction rule: usrp_run.induct) (auto intro: usrp_start_inv verify_inv)

text \<open>
  The time of a device with GPS. In every sequence of calls, when a device whose clock comes from GPS is reported as good, its time has been
  set, from the pulse if there is one, and the last result of the receiver is at most the allowed holdover time old.
\<close>

lemma gps_time_safe:
  assumes "usrp_run c u" "dc_refclk_src c \<in> {''gpsdo'', ''gpsdo-ettus''}" "verify_time c r u = (u', Inr True)"
  shows "gps_state u' = Monitor_fix \<and> time_was_set c u' \<and>
    (dc_maxGPSHoldoverTime c \<noteq> 0 \<longrightarrow> gps_fix_check_interval * num_checks_without_gps_fix u' \<le> dc_maxGPSHoldoverTime c)"
proof -
  have "gps_state u' = Monitor_fix \<and>
      (dc_maxGPSHoldoverTime c \<noteq> 0 \<longrightarrow> gps_fix_check_interval * num_checks_without_gps_fix u' \<le> dc_maxGPSHoldoverTime c)"
  proof (cases "gpsfix_needs_check c u")
    case True
    show ?thesis by (rule verify_time_steps [OF assms(3) True]) auto
  next
    case False
    then have "gps_state u = Monitor_fix" "dc_maxGPSHoldoverTime c = 0"
      using assms(2) by (cases "gps_state u"; auto simp: gpsfix_needs_check_def)+
    then show ?thesis using False assms(3) by (simp add: verify_time_def)
  qed
  moreover have "usrp_inv c u'" using assms(1,3) usrp_run_inv usrp_verify by blast
  ultimately show ?thesis by (simp add: usrp_inv_def)
qed

section \<open>Errors\<close>

text \<open>The check of the sample rate divides where it should subtract: at 2048000 samples per second any rate up to twice that passes.\<close>

lemma rate_unchecked:
  "sampleRate c = 2048000 \<Longrightarrow> 0 \<le> x \<Longrightarrow> x \<le> 4194304 \<Longrightarrow> UHD c (a\<lparr>actual_tx_rate := x\<rparr>) r = UHD c (a\<lparr>actual_tx_rate := 2048000\<rparr>) r"
  by (simp add: UHD_def rate_of_def uhd_tune_def uhd_set_txgain_def)

text \<open>With a reference clock that is not from GPS and pulses whose time should be set later it never is, and the time is reported as good.\<close>

lemma time_never_set:
  "dc_refclk_src c = ''external'' \<Longrightarrow> dc_pps_src c = ''pps'' \<Longrightarrow>
     \<exists>u. USRPTime c r calls = Inr u \<and> usrp_calls u = calls \<and> verify_time c r' u = (u, Inr True)"
  by (simp add: USRPTime_def verify_time_def gpsfix_needs_check_def)

text \<open>A receiver that sees no satellite may leave the field empty, which ends the output.\<close>

lemma empty_satellite_field:
  "gps_timelock r = Some s \<Longrightarrow> gps_gngga r = Some ''GPS_GNGGA: $GNGGA,,,,,,0,,'' \<Longrightarrow> check_gps_timelock r u = (u, Inl (InvalidArgument ''stoi''))"
  by (simp add: check_gps_timelock_def stoi_def parse_number_def)

section \<open>Examples\<close>

definition uhd_example :: uhd where
  "uhd_example = \<lparr>uhd_conf = SDRDeviceConfig\<lparr>sampleRate := 2048000, enableSync := True\<rparr>, uhd_time = \<lparr>gps_state = Bootup, num_checks_without_gps_fix = 1, gnss_num_sv = 0, gnss_holdover = False,
     time_last_check = 0, gps_fix_future = False, usrp_calls = []\<rparr>, suppress_refclk_loss_check = False, uhd_require_refresh = True,
     num_underflows = 0, num_late_packets = 0, uhd_frames_modulated = 0\<rparr>"

definition uhd_frame :: frame_data where
  "uhd_frame = \<lparr>fr_buf = replicate 24 7, fr_sampleSize = 8, fr_ts = \<lparr>ts_fct = 0, ts_fp = 0, ts_sec = 1700000010, ts_pps = 8192000, ts_valid = True,
     ts_offset = 0, ts_offset_changed = False\<rparr>\<rparr>"

theorem uhd_sends_frame_witness:
  "case uhd_transmit 2 (\<lambda>k. \<lparr>sa_running = True, sa_muting = False, sa_send = (\<lambda>n. n)\<rparr>) uhd_frame uhd_example of
     (d, ps) \<Rightarrow> concat (map (accepted 8) ps) = replicate 24 7 \<and>
       map pk_time ps = [Some (1700000010 + 1 / 2), Some (1700000010 + 1 / 2 + 2 / 2048000)]"
proof -
  obtain d ps where t: "uhd_transmit 2 (\<lambda>k. \<lparr>sa_running = True, sa_muting = False, sa_send = (\<lambda>n. n)\<rparr>) uhd_frame uhd_example = (d, ps)" by force
  have b: "sample_bytes uhd_example = 8" by (simp add: sample_bytes_def uhd_example_def SDRDeviceConfig_def)
  have n: "map pk_sent ps = [2, 1]" using t
    by (auto simp: uhd_transmit_def b uhd_frame_def send_samples.simps Let_def split: prod.splits)
  moreover have f: "fr_buf uhd_frame = replicate 24 7" "ts_valid (fr_ts uhd_frame)" "ts_sec (fr_ts uhd_frame) = 1700000010"
    "ts_pps (fr_ts uhd_frame) = 8192000" "enableSync (uhd_conf uhd_example)" "sampleRate (uhd_conf uhd_example) = 2048000"
    by (simp_all add: uhd_frame_def uhd_example_def)
  moreover obtain p q where ps: "ps = [p, q]" "pk_sent p = 2" using n by auto
  moreover have "concat (map (accepted 8) ps) = replicate 24 7 \<and>
      (\<forall>i < length ps. pk_time (ps ! i) = Some (1700000010 + 8192000 / 16384000 + of_nat (samples_before ps i) / 2048000))"
    using uhd_sends_frame [OF _ _ _ t] f by (simp add: b accepting_def)
  ultimately show ?thesis by (auto simp: t samples_before_def dest: spec [of _ 0] spec [of _ 1])
qed

definition gps_conf :: device_config where
  "gps_conf = SDRDeviceConfig\<lparr>dc_refclk_src := ''gpsdo-ettus'', dc_pps_src := ''gpsdo'', dc_maxGPSHoldoverTime := 60\<rparr>"

definition gps_reading :: usrp_reading where
  "gps_reading = \<lparr>steady_clock = 0, system_ms = 5000, gps_timelock = None, gps_gngga = None, gps_discsrc = None, gps_locked = Some True, usrp_secs = 8\<rparr>"

lemma gps_time_safe_example:
  "\<exists>u u'. USRPTime gps_conf gps_reading [] = Inr u \<and> verify_time gps_conf gps_reading u = (u', Inr True) \<and> time_was_set gps_conf u'"
proof -
  obtain u u' where u: "USRPTime gps_conf gps_reading [] = Inr u" "verify_time gps_conf gps_reading u = (u', Inr True)"
    by (simp add: USRPTime_def verify_time_def check_gps_def gps_check_def gpsdo_is_ettus_def check_gps_locked_def gpsfix_needs_check_def
      set_usrp_time_from_pps_def usrp_do_def gps_conf_def gps_reading_def SDRDeviceConfig_def gps_fix_check_interval_def)
  then show ?thesis using gps_time_safe [OF usrp_start [OF u(1)] _ u(2)] by (auto simp: gps_conf_def)
qed

end
