(* ===== verification/Spec2Isabelle.thy ===== *)
theory Spec2Isabelle
  imports Prbs Time_Interleaver Symbols Differential Multiplex Tii Eti_Reader Crc Pft_Fec
    Edi_Reader Fic_Date Fic_Decoding Dab_Modulator Channels Dab_Mod Guard_Interval Ofdm_Signal Gain_Control
    Fir_Filter Memless_Poly Format_Converter Resampler
    Dexter Json Remote_Control Config_Parser Uhd
begin

text \<open>
  ODR-DabMod turns the frames of a DAB multiplexer into the baseband samples of a transmitter. This development models its own
  program code (\<open>src/\<close>, \<open>lib/\<close>), one theory for a class or a few of them, and proves what each promises. This theory only
  collects them.

  \<^bold>\<open>The way of the data.\<close> ETI frames come from a file (\<open>Input_File\<close>: \<open>InputFileReader.cpp\<close>) or over TCP, or EDI packets over UDP or
  TCP (\<open>Edi_Transport\<close>). \<open>Eti_Reader\<close> (\<open>EtiReader.cpp\<close>) takes an ETI frame apart; EDI packets run through \<open>Pft\<close> (\<open>lib/edi/PFT.cpp\<close>,
  reassembly and recovery), \<open>Edi_Dispatcher\<close> (\<open>common.cpp\<close>), \<open>Eti_Decoder\<close> (\<open>ETIDecoder.cpp\<close>) and \<open>Edi_Reader\<close>. Both use \<open>Timestamp\<close>
  (\<open>TimestampDecoder.cpp\<close>), and the EDI input passes the fast information channel to \<open>Fic_Decoder\<close> (\<open>FigParser.cpp\<close>). \<open>Dab_Mod\<close>
  (\<open>DabMod.cpp\<close>) is the main loop that takes frames from the input and runs the flowgraph on each, or starts the modulator again.
  \<open>Dab_Modulator\<close> (\<open>DabModulator.cpp\<close>) builds that flowgraph of plugins (\<open>Mod_Plugin\<close>, \<open>Flowgraph\<close>), which are: energy dispersal
  (\<open>Prbs\<close>), convolutional code (\<open>Conv_Encoder\<close>), \<open>Puncturing\<close> with the profiles of \<open>Subchannel\<close>, \<open>Time_Interleaver\<close>, the
  multiplexers, the partitioner and the null symbol (\<open>Multiplex\<close>), \<open>Symbols\<close>, \<open>Freq_Interleaver\<close>, \<open>Differential\<close>, \<open>Tii\<close>, the OFDM
  generator (\<open>Ofdm_Generator\<close>, with crest factor reduction in \<open>Ofdm_Cfr\<close>), \<open>Gain_Control\<close>, \<open>Guard_Interval\<close>, \<open>Fir_Filter\<close> (with the CIC equalizer), \<open>Memless_Poly\<close> (predistortion), \<open>Resampler\<close> and \<open>Format_Converter\<close>. The samples go to
  a file or to a radio: \<open>Sdr_Output\<close> (\<open>output/SDR.cpp\<close>) hands them to the driver of a device, of which \<open>Dexter\<close> and \<open>Uhd\<close> are modelled.
  \<open>Config_Parser\<close> reads the settings and chooses the output; \<open>Remote_Control\<close> with \<open>Json\<close> lets a user change parameters of modules.

  \<^bold>\<open>How the code appears.\<close> A class is a record with its members, an operation a function on it. An exception is \<open>Inl\<close> of an
  \<open>error\<close>, a normal result \<open>Inr\<close> (\<open>Prelude\<close>); where an operation changes its object before it throws it gives a pair of
  state and result (\<open>State_Error\<close>). An access outside of a buffer, which C++ leaves undefined, is the error \<open>UndefinedBehaviour\<close>,
  so that a theorem which says that a call returns \<open>Inr\<close> also says that it stays in its buffers. Integers have their width, as
  words, wherever they can wrap around or are taken apart into bits; sizes are natural numbers, with the wrap-around of \<open>size_t\<close>
  written out where the code subtracts. Floating point numbers are real, rational or complex numbers: rounding is not modelled, nor are NaN and
  infinities outside of \<open>Json\<close>. Where a vectorised program stands beside a scalar one (\<open>Gain_Control\<close>, \<open>Fir_Filter\<close>, \<open>Format_Converter\<close>) both are modelled.
  Threads are interleavings of their steps (\<open>Mod_Plugin\<close>, \<open>Sdr_Output\<close>, \<open>Memless_Poly\<close>), with the operations of the queue between
  them (\<open>Threadsafe_Queue\<close>) as atomic steps, which its mutex makes them. Messages are left out.

  \<^bold>\<open>Arguments of the models.\<close> What libraries, the operating system and devices do is an argument: the transforms of FFTW, KISS FFT and of the hardware,
  the Reed-Solomon decoder, sockets, allocation, what a radio answers, the text of numbers. What is relied on is
  a hypothesis (\<open>is_idft\<close> in \<open>Ofdm_Signal\<close>, \<open>rs_corrects\<close> in \<open>Pft_Fec\<close>), and the example after each theorem gives a function for which it holds.

  \<^bold>\<open>Loops.\<close> Loops over data are recursion over it. The main loop and its restarts (\<open>Dab_Mod\<close>) consume a list of what happens
  outside, and the result is \<open>None\<close> while the program is still running when that list ends. The loop over the puncturing rules, which can run
  for ever, is a partial function; that it ends for every profile is shown in \<open>Subchannel\<close>. The start of the energy dispersal is
  \<open>while_option\<close>, and ends within 32 rounds for every polynomial. A telnet session recurses over what \<open>recv\<close> gives, the sending of a frame in \<open>Uhd\<close> over what the device takes. A
  call of the predistortion is any run of the steps of its threads, and none is longer than \<open>Memless_Poly\<close> allows. The reader in \<open>Json\<close>, which
  only serves to state what is written, has the length of the text as fuel, which is enough since every level of nesting takes a character.

  \<^bold>\<open>Interfaces.\<close> \<open>Std_Map\<close> states what the decoders need of \<open>std::map\<close>, and is interpreted by ordered association lists; \<open>Gf2_Linear\<close> states
  linearity of a shift register, interpreted by the registers of \<open>Prbs\<close> and \<open>Crc\<close>; \<open>Threadsafe_Queue\<close> states what its users rely on of a queue; and \<open>Edi_Reader\<close> what
  the tag decoder needs of the collector of its frames.

  \<^bold>\<open>What is shown.\<close>
  \<^item> Input: what a recorder writes or a multiplexer sends is what the modulator sees, whether from a file (\<open>Input_File\<close>), as ETI (\<open>Eti_Reader\<close>)
    or as EDI with fragmentation and lost fragments (\<open>Pft\<close>, \<open>Pft_Fec\<close>, \<open>Edi_Dispatcher\<close>, \<open>Edi_Reader\<close>). The decoder of the fast information channel keeps its
    observer up to date (\<open>Fic_Consistent\<close>), and reads the organisation of the subchannels (\<open>Fic_Decoding\<close>) and the date (\<open>Fic_Date\<close>) as they were written.
  \<^item> Main loop: frames are modulated in step and completely (\<open>Dab_Mod\<close>).
  \<^item> Coding: each step computes what EN 300 401 demands, and the parts of a subchannel fit each other for every protection profile (\<open>Subchannel\<close>).
  \<^item> Flowgraph: the graph is topologically ordered and well formed for all settings (\<open>Dab_Modulator\<close>), a run solves its equations (\<open>Flowgraph\<close>), and a
    pipelined plugin is the plain one, a call late (\<open>Mod_Plugin\<close>).
  \<^item> Signal: from carriers to the air (\<open>Ofdm_Signal\<close>), crest factor reduction, gain, guard interval with windows, filter, predistortion with any number
    of threads, resampling without seams, and no clipping by the format of the output (\<open>Config_Parser\<close>).
  \<^item> Output: frames reach a device in order, on time and only while its clock is good (\<open>Sdr_Output\<close>); DEXTER starts them at the tick of their time
    stamp, never with the gain of a channel that is off, and UHD sends them without gaps.
  \<^item> Control: an accepted configuration selects one output; commands are run once each and set what was asked for; reported values are valid JSON.

  Where the code does not do what it means to, a lemma shows it: a capture with a gap in its frame counts is opened again for ever
  (\<open>file_gap_restarts_for_ever\<close>), a fault of the telnet controller restarts it for ever (\<open>telnet_restarted_for_ever\<close>), full band overflows the buffer of the generator
  (\<open>full_band_overflows\<close>), and others.

  \<^bold>\<open>Not modelled.\<close> The drivers of SoapySDR, LimeSDR and BladeRF, sockets and logs, since they are calls of libraries; reception and statistics of the drivers; outputs to file,
  memory and ZeroMQ, which only pass data on; the server that sends samples to the predistortion programs; vendored libraries (KISS FFT, fpm,
  Reed-Solomon, INIReader's parser, zmq.hpp), the Python programs and the web interface.
\<close>

end
